(* ===== verification/Prelude.thy ===== *)
theory Prelude
  imports Main "HOL-Library.Word" "HOL-Library.Char_ord" "HOL-Library.List_Lexorder"
    "HOL-Library.Product_Lexorder" "HOL-Library.Multiset"
begin

text \<open>
  What every component shares: the exceptions the C++ code throws, the shape of an
  operation that reads and writes state and may throw, the collections of facts the
  component proofs use, and lemmas on lists, stable sorting and option values.
\<close>

section \<open>Collections of facts\<close>

named_theorems row_simps "what an SQL statement does to the columns of a row"
named_theorems keeps_intros "rules showing that an action keeps a predicate on the state"
named_theorems act_simps "unfolding rules of the action combinators"

section \<open>Exceptions and fallible results\<close>

text \<open>
  The C++ exception classes the code throws and tells apart: \<open>std::runtime_error\<close>,
  \<open>std::invalid_argument\<close>, \<open>std::out_of_range\<close>, \<open>nlohmann::json::exception\<close>, \<open>HttpError\<close> (a \<open>runtime_error\<close> with a status code)
  and \<open>StaleUploadError\<close> (a \<open>runtime_error\<close> with the path of the sync root).
\<close>

datatype exn =
    Runtime_error string
  | Invalid_argument string
  | Out_of_range string
  | Json_error string
  | Http_error int string
  | Stale_upload_error string string

text \<open>\<open>std::exception::what()\<close>.\<close>

fun what :: "exn \<Rightarrow> string" where
  "what (Runtime_error m) = m"
| "what (Invalid_argument m) = m"
| "what (Out_of_range m) = m"
| "what (Json_error m) = m"
| "what (Http_error _ m) = m"
| "what (Stale_upload_error m _) = m"

type_synonym 'a result = "exn + 'a"

text \<open>Sequencing pure results: the first exception ends the computation.\<close>

definition bindR :: "'a result \<Rightarrow> ('a \<Rightarrow> 'b result) \<Rightarrow> 'b result" where
  "bindR m f = (case m of Inl e \<Rightarrow> Inl e | Inr x \<Rightarrow> f x)"

lemma bindR_simps [simp]: "bindR (Inl e) f = Inl e" "bindR (Inr x) f = f x"
  by (simp_all add: bindR_def)

lemma bindR_eq_Inr: "bindR m f = Inr y \<longleftrightarrow> (\<exists>x. m = Inr x \<and> f x = Inr y)"
  by (cases m) simp_all

text \<open>An action of a stateful component: it returns or throws, and leaves a state.\<close>

type_synonym ('s, 'a) act = "'s \<Rightarrow> 'a result \<times> 's"

definition returnE :: "'a \<Rightarrow> ('s, 'a) act" where
  "returnE x s = (Inr x, s)"

definition throwE :: "exn \<Rightarrow> ('s, 'a) act" where
  "throwE e s = (Inl e, s)"

definition bindE :: "('s, 'a) act \<Rightarrow> ('a \<Rightarrow> ('s, 'b) act) \<Rightarrow> ('s, 'b) act" where
  "bindE m f s = (case m s of (Inl e, s') \<Rightarrow> (Inl e, s') | (Inr x, s') \<Rightarrow> f x s')"

text \<open>\<open>try { m } catch (const std::exception &e) { h(e) }\<close>.\<close>

definition catchE :: "('s, 'a) act \<Rightarrow> (exn \<Rightarrow> ('s, 'a) act) \<Rightarrow> ('s, 'a) act" where
  "catchE m h s = (case m s of (Inl e, s') \<Rightarrow> h e s' | (Inr x, s') \<Rightarrow> (Inr x, s'))"

text \<open>Reading the state, and lifting a pure result that may be an exception.\<close>

definition getsE :: "('s \<Rightarrow> 'a) \<Rightarrow> ('s, 'a) act" where
  "getsE f s = (Inr (f s), s)"

definition liftE :: "('s \<Rightarrow> 'a result) \<Rightarrow> ('s, 'a) act" where
  "liftE f s = (f s, s)"

text \<open>A range-based \<open>for\<close> whose body may throw.\<close>

fun forE :: "'a list \<Rightarrow> ('a \<Rightarrow> ('s, unit) act) \<Rightarrow> ('s, unit) act" where
  "forE [] f = returnE ()"
| "forE (x # xs) f = bindE (f x) (\<lambda>_. forE xs f)"

lemmas act_defs [act_simps] = returnE_def throwE_def bindE_def catchE_def getsE_def liftE_def

lemma bindE_returnE [simp]: "bindE (returnE x) f = f x"
  by (rule ext) (simp add: act_simps)

lemma bindE_throwE [simp]: "bindE (throwE e) f = throwE e"
  by (rule ext) (simp add: act_simps)

lemma bindE_eq_Inr:
  "bindE m f s = (Inr y, t) \<longleftrightarrow> (\<exists>x u. m s = (Inr x, u) \<and> f x u = (Inr y, t))"
  by (auto simp: bindE_def split: prod.splits sum.splits)

subsection \<open>Predicates on the state that an action keeps\<close>

text \<open>
  \<open>keeps I m\<close>: however \<open>m\<close> ends, with a value or an exception, it leads from a state
  with \<open>I\<close> to a state with \<open>I\<close>.
\<close>

definition keeps :: "('s \<Rightarrow> bool) \<Rightarrow> ('s, 'a) act \<Rightarrow> bool" where
  "keeps I m \<longleftrightarrow> (\<forall>s. I s \<longrightarrow> I (snd (m s)))"

lemma keepsI: "(\<And>s. I s \<Longrightarrow> I (snd (m s))) \<Longrightarrow> keeps I m"
  by (simp add: keeps_def)

lemma keepsD: "keeps I m \<Longrightarrow> I s \<Longrightarrow> I (snd (m s))"
  by (simp add: keeps_def)

lemma keeps_returnE [keeps_intros]: "keeps I (returnE x)"
  by (simp add: keeps_def act_simps)

lemma keeps_throwE [keeps_intros]: "keeps I (throwE e)"
  by (simp add: keeps_def act_simps)

lemma keeps_getsE [keeps_intros]: "keeps I (getsE f)"
  by (simp add: keeps_def act_simps)

lemma keeps_liftE [keeps_intros]: "keeps I (liftE f)"
  by (simp add: keeps_def act_simps)

lemma keeps_bindE [keeps_intros]:
  assumes "keeps I m" and "\<And>x. keeps I (f x)"
  shows "keeps I (bindE m f)"
proof (rule keepsI)
  fix s assume "I s"
  with assms(1) have "I (snd (m s))" by (rule keepsD)
  then show "I (snd (bindE m f s))"
    using assms(2) by (auto simp: bindE_def keeps_def split: prod.splits sum.splits)
qed

lemma keeps_catchE [keeps_intros]:
  assumes "keeps I m" and "\<And>e. keeps I (h e)"
  shows "keeps I (catchE m h)"
proof (rule keepsI)
  fix s assume "I s"
  with assms(1) have "I (snd (m s))" by (rule keepsD)
  then show "I (snd (catchE m h s))"
    using assms(2) by (auto simp: catchE_def keeps_def split: prod.splits sum.splits)
qed

lemma keeps_forE [keeps_intros]:
  assumes "\<And>x. x \<in> set xs \<Longrightarrow> keeps I (f x)"
  shows "keeps I (forE xs f)"
  using assms by (induction xs) (auto intro!: keeps_intros)

lemma keeps_if [keeps_intros]: "keeps I a \<Longrightarrow> keeps I b \<Longrightarrow> keeps I (if c then a else b)"
  by simp

lemma keeps_option [keeps_intros]:
  "keeps I a \<Longrightarrow> (\<And>x. keeps I (b x)) \<Longrightarrow> keeps I (case z of None \<Rightarrow> a | Some x \<Rightarrow> b x)"
  by (cases z) simp_all

section \<open>Runs of a transition system\<close>

text \<open>
  The interface of a component whose operations form a step relation: an invariant that
  holds at the start and that every step keeps. The client's fact is that it holds in
  every state a run can reach.
\<close>

locale transition_system =
  fixes start :: "'s \<Rightarrow> bool"
    and step :: "'s \<Rightarrow> 's \<Rightarrow> bool"
    and invar :: "'s \<Rightarrow> bool"
  assumes invar_start: "start s \<Longrightarrow> invar s"
    and invar_step: "step s t \<Longrightarrow> invar s \<Longrightarrow> invar t"
begin

lemma invar_steps: "step\<^sup>*\<^sup>* s t \<Longrightarrow> invar s \<Longrightarrow> invar t"
  by (induction rule: rtranclp_induct) (auto intro: invar_step)

lemma invar_reachable: "start s \<Longrightarrow> step\<^sup>*\<^sup>* s t \<Longrightarrow> invar t"
  using invar_start invar_steps by blast

end

section \<open>Encoders and decoders\<close>

text \<open>
  The interface of a text codec: what \<open>decode\<close> promises on the output of \<open>encode\<close>.
  Injectivity of the encoder, on which stored keys and database columns rely, follows.
\<close>

locale codec =
  fixes encode :: "'a \<Rightarrow> 'b"
    and decode :: "'b \<Rightarrow> 'e + 'a"
  assumes decode_encode: "decode (encode x) = Inr x"
begin

lemma encode_inj: "inj encode"
proof (rule injI)
  fix x y assume "encode x = encode y"
  then have "(Inr x :: 'e + 'a) = Inr y" by (metis decode_encode)
  then show "x = y" by simp
qed

lemma encode_eq_iff: "encode x = encode y \<longleftrightarrow> x = y"
  using encode_inj by (auto dest: injD)

end

section \<open>Lists and stable sorting\<close>

lemma map_filter_append [simp]: "List.map_filter f (xs @ ys) = List.map_filter f xs @ List.map_filter f ys"
  by (induction xs) (auto split: option.splits)

lemma set_map_filter_iff: "y \<in> set (List.map_filter f xs) \<longleftrightarrow> (\<exists>x\<in>set xs. f x = Some y)"
  by (induction xs) (auto split: option.splits)

lemma map_filter_map_cong:
  "(\<And>x. x \<in> set xs \<Longrightarrow> f (g x) = f x) \<Longrightarrow> List.map_filter f (map g xs) = List.map_filter f xs"
  by (induction xs) (auto split: option.splits)

lemma concat_map_concat: "concat (map (\<lambda>k. concat (map f (g k))) ks) = concat (map f (concat (map g ks)))"
  by (induction ks) simp_all

lemma sort_key_snoc_max:
  assumes "\<And>y. y \<in> set xs \<Longrightarrow> k y \<le> k x"
  shows "sort_key k (xs @ [x]) = sort_key k xs @ [x]"
proof (rule properties_for_sort_key)
  show "mset (sort_key k xs @ [x]) = mset (xs @ [x])" by simp
  show "sorted (map k (sort_key k xs @ [x]))" using assms by (simp add: sorted_append)
next
  fix z assume "z \<in> set (sort_key k xs @ [x])"
  show "filter (\<lambda>y. k z = k y) (sort_key k xs @ [x]) = filter (\<lambda>y. k z = k y) (xs @ [x])"
    by (simp add: sort_key_stable eq_commute [of "k z"])
qed

end
