(* ===== verification/Sqlite.thy ===== *)
theory Sqlite
  imports Prelude
begin

text \<open>
  The part of SQL the repositories use, over tables that are lists of rows in \<open>rowid\<close>
  order: \<open>INSERT\<close> appends, \<open>INSERT OR IGNORE\<close>, \<open>INSERT ... ON CONFLICT DO UPDATE\<close>,
  \<open>UPDATE ... WHERE\<close>, \<open>DELETE ... WHERE\<close> and \<open>SELECT ... ORDER BY ... LIMIT 1\<close>.
  A unique index, whole or partial, is a function from a row to \<open>Some key\<close>, or to
  \<open>None\<close> for a row the index does not hold (the \<open>WHERE\<close> clause of a partial index, or a
  \<open>NULL\<close> key, which SQLite never takes for equal to another). The schema of a table is the
  predicate that all its indexes are unique; a statement that would break it fails as a
  whole and leaves the table as it was.

  Every \<open>UPDATE\<close> of the program gives all the rows it changes the same new key of an index
  or none, so checking the index once at the end accepts the same updates as SQLite, which
  checks it row by row.
\<close>

section \<open>Unique indexes\<close>

definition uniq_on :: "('r \<Rightarrow> 'k option) \<Rightarrow> 'r list \<Rightarrow> bool" where
  "uniq_on idx t \<longleftrightarrow> distinct (List.map_filter idx t)"

definition has_key :: "('r \<Rightarrow> 'k option) \<Rightarrow> 'k \<Rightarrow> 'r list \<Rightarrow> bool" where
  "has_key idx k t \<longleftrightarrow> (\<exists>x\<in>set t. idx x = Some k)"

lemma uniq_on_Nil [simp]: "uniq_on idx []"
  by (simp add: uniq_on_def)

lemma uniq_on_Cons:
  "uniq_on idx (r # t) \<longleftrightarrow> uniq_on idx t \<and> (\<forall>k. idx r = Some k \<longrightarrow> \<not> has_key idx k t)"
  by (auto simp: uniq_on_def has_key_def set_map_filter_iff split: option.splits)

lemma uniq_on_snoc:
  "uniq_on idx (t @ [r]) \<longleftrightarrow> uniq_on idx t \<and> (\<forall>k. idx r = Some k \<longrightarrow> \<not> has_key idx k t)"
  by (auto simp: uniq_on_def has_key_def set_map_filter_iff split: option.splits)

lemma has_key_Nil [simp]: "\<not> has_key idx k []"
  by (simp add: has_key_def)

lemma has_key_Cons [simp]: "has_key idx k (r # t) \<longleftrightarrow> idx r = Some k \<or> has_key idx k t"
  by (auto simp: has_key_def)

lemma has_key_append [simp]: "has_key idx k (s @ t) \<longleftrightarrow> has_key idx k s \<or> has_key idx k t"
  by (auto simp: has_key_def)

text \<open>Rows with the same key of a unique index are one row.\<close>

lemma uniq_onD:
  "uniq_on idx t \<Longrightarrow> x \<in> set t \<Longrightarrow> y \<in> set t \<Longrightarrow> idx x = Some k \<Longrightarrow> idx y = Some k \<Longrightarrow> x = y"
  by (induction t) (auto simp: uniq_on_Cons has_key_def)

text \<open>Changing rows so that each keeps its key or leaves the index.\<close>

lemma uniq_on_map:
  assumes "uniq_on idx t" and "\<And>r. r \<in> set t \<Longrightarrow> idx (f r) = idx r \<or> idx (f r) = None"
  shows "uniq_on idx (map f t)"
  using assms
proof (induction t)
  case Nil
  then show ?case by simp
next
  case (Cons r t)
  have IH: "uniq_on idx (map f t)"
    using Cons by (simp add: uniq_on_Cons)
  have "\<not> has_key idx k (map f t)" if "idx (f r) = Some k" for k
  proof -
    have "idx r = Some k" using Cons.prems(2) [of r] that by simp
    then have "\<not> has_key idx k t" using Cons.prems(1) by (simp add: uniq_on_Cons)
    then show ?thesis
      using Cons.prems(2) by (fastforce simp: has_key_def)
  qed
  with IH show ?case by (simp add: uniq_on_Cons)
qed

lemma uniq_on_filter: "uniq_on idx t \<Longrightarrow> uniq_on idx (filter p t)"
  by (induction t) (auto simp: uniq_on_Cons has_key_def)

text \<open>Changing one row of a unique key, whatever its new key, when no other row has that.\<close>

lemma uniq_on_map_one:
  assumes "uniq_on idx t" and "uniq_on key t"
    and "\<And>x k. x \<in> set t \<Longrightarrow> key x \<noteq> Some a \<Longrightarrow> idx (f r) = Some k \<Longrightarrow> idx x \<noteq> Some k"
    and "\<And>x. x \<in> set t \<Longrightarrow> key x = Some a \<Longrightarrow> x = r"
  shows "uniq_on idx (map (\<lambda>x. if key x = Some a then f x else x) t)"
  using assms
proof (induction t)
  case Nil
  then show ?case by simp
next
  case (Cons x t)
  let ?g = "\<lambda>x. if key x = Some a then f x else x"
  have IH: "uniq_on idx (map ?g t)"
    using Cons by (simp add: uniq_on_Cons)
  show ?case
  proof (cases "key x = Some a")
    case True
    then have "x = r" using Cons.prems(4) by simp
    have rest: "key y \<noteq> Some a" if "y \<in> set t" for y
      using Cons.prems(2) True that by (auto simp: uniq_on_Cons has_key_def)
    then have "map ?g t = t" by (simp add: map_idI)
    moreover have "\<not> has_key idx k t" if "idx (f r) = Some k" for k
      using Cons.prems(3) rest that by (auto simp: has_key_def)
    ultimately show ?thesis
      using True \<open>x = r\<close> Cons.prems(1) by (simp add: uniq_on_Cons)
  next
    case False
    have "\<not> has_key idx k (map ?g t)" if k: "idx x = Some k" for k
    proof -
      have "\<not> has_key idx k t" using Cons.prems(1) k by (simp add: uniq_on_Cons)
      moreover have "idx (f y) \<noteq> Some k" if "y \<in> set t" "key y = Some a" for y
        using Cons.prems(3) [of x k] Cons.prems(4) [of y] False k that by auto
      ultimately show ?thesis by (auto simp: has_key_def)
    qed
    with IH False show ?thesis by (simp add: uniq_on_Cons)
  qed
qed

text \<open>A primary key is an index that holds every row.\<close>

lemma uniq_on_total: "uniq_on (\<lambda>r. Some (k r)) t \<longleftrightarrow> distinct (map k t)"
  by (induction t) (auto simp: uniq_on_Cons has_key_def image_iff)

lemma filter_key_single:
  assumes "distinct (map k t)" and "r \<in> set t" and "p r"
  shows "filter (\<lambda>x. k x = k r \<and> p x) t = [r]"
  using assms by (induction t) (auto simp: filter_empty_conv image_iff)

section \<open>Statements\<close>

text \<open>
  A violated constraint is the exception of the repositories' step check, or that of
  \<open>execOrThrow\<close>; SQLite's message is abridged to the table it names.
\<close>

definition step_failed :: "string \<Rightarrow> exn" where
  "step_failed tbl = Runtime_error (''Step failed: UNIQUE constraint failed: '' @ tbl)"

definition exec_failed :: "string \<Rightarrow> exn" where
  "exec_failed tbl = Runtime_error (''UNIQUE constraint failed: '' @ tbl)"

definition sql_insert :: "('r list \<Rightarrow> bool) \<Rightarrow> exn \<Rightarrow> 'r \<Rightarrow> 'r list \<Rightarrow> 'r list result" where
  "sql_insert ok e r t = (if ok (t @ [r]) then Inr (t @ [r]) else Inl e)"

definition sql_insert_or_ignore :: "('r list \<Rightarrow> bool) \<Rightarrow> 'r \<Rightarrow> 'r list \<Rightarrow> 'r list" where
  "sql_insert_or_ignore ok r t = (if ok (t @ [r]) then t @ [r] else t)"

definition update_where :: "('r \<Rightarrow> bool) \<Rightarrow> ('r \<Rightarrow> 'r) \<Rightarrow> 'r list \<Rightarrow> 'r list" where
  "update_where p f t = map (\<lambda>r. if p r then f r else r) t"

definition sql_update ::
    "('r list \<Rightarrow> bool) \<Rightarrow> exn \<Rightarrow> ('r \<Rightarrow> bool) \<Rightarrow> ('r \<Rightarrow> 'r) \<Rightarrow> 'r list \<Rightarrow> 'r list result" where
  "sql_update ok e p f t =
     (let t' = update_where p f t in if ok t' then Inr t' else Inl e)"

text \<open>\<open>INSERT ... ON CONFLICT(idx) DO UPDATE\<close>: an existing row with the key is updated.\<close>

definition sql_upsert ::
    "('r list \<Rightarrow> bool) \<Rightarrow> exn \<Rightarrow> ('r \<Rightarrow> 'k option) \<Rightarrow> ('r \<Rightarrow> 'r) \<Rightarrow> 'r \<Rightarrow> 'r list \<Rightarrow> 'r list result"
  where
  "sql_upsert ok e idx f r t =
     (if \<exists>x\<in>set t. idx x \<noteq> None \<and> idx x = idx r
      then sql_update ok e (\<lambda>x. idx x = idx r) f t
      else sql_insert ok e r t)"

text \<open>A statement as an action of its table.\<close>

definition stmtE :: "('t \<Rightarrow> 't result) \<Rightarrow> ('t, unit) act" where
  "stmtE f t = (case f t of Inl e \<Rightarrow> (Inl e, t) | Inr t' \<Rightarrow> (Inr (), t'))"

lemma keeps_stmtE:
  assumes "\<And>t t'. I t \<Longrightarrow> f t = Inr t' \<Longrightarrow> I t'"
  shows "keeps I (stmtE f)"
  using assms by (auto simp: keeps_def stmtE_def split: sum.splits)

definition delete_where :: "('r \<Rightarrow> bool) \<Rightarrow> 'r list \<Rightarrow> 'r list" where
  "delete_where p t = filter (\<lambda>r. \<not> p r) t"

text \<open>\<open>sqlite3_changes()\<close> after an \<open>UPDATE ... WHERE p\<close>.\<close>

definition sql_changes :: "('r \<Rightarrow> bool) \<Rightarrow> 'r list \<Rightarrow> nat" where
  "sql_changes p t = length (filter p t)"

text \<open>\<open>SELECT ... WHERE p ORDER BY k\<close>; rows with equal keys come in \<open>rowid\<close> order.\<close>

definition select_ordered :: "('r \<Rightarrow> 'k::linorder) \<Rightarrow> ('r \<Rightarrow> bool) \<Rightarrow> 'r list \<Rightarrow> 'r list" where
  "select_ordered k p t = sort_key k (filter p t)"

fun limit1 :: "'r list \<Rightarrow> 'r option" where
  "limit1 [] = None"
| "limit1 (r # _) = Some r"

text \<open>The 32-bit integer that \<open>sqlite3_column_int\<close> reads from a stored integer.\<close>

definition column_int :: "int \<Rightarrow> int" where
  "column_int n = signed_take_bit 31 n"

lemma column_int_small: "0 \<le> n \<Longrightarrow> n < 2 ^ 31 \<Longrightarrow> column_int n = n"
  by (simp add: column_int_def signed_take_bit_int_eq_self_iff)

lemma update_where_Nil [simp]: "update_where p f [] = []"
  by (simp add: update_where_def)

lemma update_where_Cons [simp]:
  "update_where p f (r # t) = (if p r then f r else r) # update_where p f t"
  by (simp add: update_where_def)

lemma update_where_append [simp]:
  "update_where p f (s @ t) = update_where p f s @ update_where p f t"
  by (simp add: update_where_def)

lemma length_update_where [simp]: "length (update_where p f t) = length t"
  by (simp add: update_where_def)

lemma update_where_none: "(\<And>r. r \<in> set t \<Longrightarrow> \<not> p r) \<Longrightarrow> update_where p f t = t"
  by (simp add: update_where_def map_idI)

lemma in_update_where:
  "y \<in> set (update_where p f t) \<longleftrightarrow> (\<exists>x\<in>set t. y = (if p x then f x else x))"
  by (auto simp: update_where_def)

lemma changed_row:
  assumes "r \<in> set t" and "r \<notin> set (update_where p f t)"
  shows "p r"
proof (rule ccontr)
  assume "\<not> p r"
  then have "r = (if p r then f r else r)" by simp
  with assms show False unfolding update_where_def set_map by blast
qed

lemma uniq_on_update_where:
  assumes "uniq_on idx t" and "\<And>r. p r \<Longrightarrow> idx (f r) = idx r \<or> idx (f r) = None"
  shows "uniq_on idx (update_where p f t)"
  unfolding update_where_def by (rule uniq_on_map [OF assms(1)]) (use assms(2) in auto)

lemma filter_update_where:
  assumes "\<And>r. p r \<Longrightarrow> q (f r) = q r"
  shows "filter q (update_where p f t) = update_where p f (filter q t)"
  using assms by (induction t) auto

text \<open>
  Updating the one row with the key \<open>a\<close> of one index gives it the key \<open>k\<close> of another index
  exactly when no other row has \<open>k\<close>.
\<close>

lemma uniq_on_update_one:
  assumes "uniq_on idx t" and "uniq_on key t" and "x \<in> set t" and "key x = Some a"
    and "idx (f x) = Some k" and "key (f x) = Some a"
  shows "uniq_on idx (update_where (\<lambda>y. key y = Some a) f t) \<longleftrightarrow>
    (\<forall>y\<in>set t. key y \<noteq> Some a \<longrightarrow> idx y \<noteq> Some k)"
proof
  have only: "y = x" if "y \<in> set t" "key y = Some a" for y
    using uniq_onD [OF assms(2) that(1) assms(3) that(2) assms(4)] .
  show "uniq_on idx (update_where (\<lambda>y. key y = Some a) f t)"
    if "\<forall>y\<in>set t. key y \<noteq> Some a \<longrightarrow> idx y \<noteq> Some k"
    unfolding update_where_def
    by (rule uniq_on_map_one [where r = x, OF assms(1,2)]) (use that only assms(5) in auto)
next
  let ?t = "update_where (\<lambda>y. key y = Some a) f t"
  assume u: "uniq_on idx ?t"
  show "\<forall>y\<in>set t. key y \<noteq> Some a \<longrightarrow> idx y \<noteq> Some k"
  proof (intro ballI impI notI)
    fix y assume y: "y \<in> set t" "key y \<noteq> Some a" "idx y = Some k"
    have "(if key x = Some a then f x else x) \<in> set ?t" "(if key y = Some a then f y else y) \<in> set ?t"
      using assms(3) y(1) unfolding in_update_where by blast+
    then have "f x \<in> set ?t" "y \<in> set ?t" using assms(4) y(2) by simp_all
    then have "f x = y" using uniq_onD [OF u] assms(5) y(3) by blast
    then show False using assms(6) y(2) by simp
  qed
qed

text \<open>Predicates on rows that the statements keep.\<close>

lemma sql_update_rows:
  assumes "sql_update ok e p f t = Inr t'" and "\<forall>r\<in>set t. good r"
    and "\<And>r. good r \<Longrightarrow> p r \<Longrightarrow> good (f r)"
  shows "ok t' \<and> (\<forall>r\<in>set t'. good r)"
  using assms by (auto simp: sql_update_def Let_def in_update_where split: if_splits)

lemma sql_upsert_rows:
  assumes "sql_upsert ok e idx f r t = Inr t'" and "\<forall>r\<in>set t. good r"
    and "\<And>x. good x \<Longrightarrow> idx x = idx r \<Longrightarrow> good (f x)" and "good r"
  shows "ok t' \<and> (\<forall>r\<in>set t'. good r)"
proof (cases "\<exists>x\<in>set t. idx x \<noteq> None \<and> idx x = idx r")
  case True
  then have "sql_update ok e (\<lambda>x. idx x = idx r) f t = Inr t'"
    using assms(1) by (simp add: sql_upsert_def)
  then show ?thesis using assms(2,3) by (rule sql_update_rows)
next
  case False
  then have "sql_insert ok e r t = Inr t'" using assms(1) by (auto simp: sql_upsert_def split: if_splits)
  then show ?thesis using assms(2,4) by (auto simp: sql_insert_def split: if_splits)
qed

text \<open>Keys are looked up before and after an update that leaves them alone.\<close>

lemma has_key_update_where:
  assumes "\<And>r. p r \<Longrightarrow> idx (f r) = idx r"
  shows "has_key idx k (update_where p f t) \<longleftrightarrow> has_key idx k t"
  using assms by (induction t) auto

lemma limit1_None [simp]: "limit1 t = None \<longleftrightarrow> t = []"
  by (cases t) simp_all

lemma limit1_Some: "limit1 t = Some r \<longleftrightarrow> (\<exists>u. t = r # u)"
  by (cases t) auto

lemma limit1_filter: "limit1 (filter p t) = Some r \<Longrightarrow> r \<in> set t \<and> p r"
  by (induction t) (auto split: if_splits)

lemma select_ordered_Nil [simp]: "select_ordered k p t = [] \<longleftrightarrow> (\<forall>r\<in>set t. \<not> p r)"
  by (metis select_ordered_def filter_empty_conv set_empty set_sort)

lemma set_select_ordered [simp]: "set (select_ordered k p t) = {r\<in>set t. p r}"
  by (auto simp: select_ordered_def)

lemma sorted_select_ordered: "sorted (map k (select_ordered k p t))"
  by (simp add: select_ordered_def)

lemma strict_select_ordered:
  assumes "distinct (map k (filter p t))"
  shows "sorted_wrt (<) (map k (select_ordered k p t))"
proof -
  have "mset (map k (select_ordered k p t)) = mset (map k (filter p t))"
    unfolding select_ordered_def by (metis mset_map mset_sort)
  then have "distinct (map k (select_ordered k p t))" using assms by (metis mset_eq_imp_distinct_iff)
  then show ?thesis by (simp add: sorted_select_ordered strict_sorted_iff)
qed

lemma limit1_select_min:
  assumes "limit1 (select_ordered k p t) = Some r"
  shows "r \<in> set t" and "p r" and "\<And>x. x \<in> set t \<Longrightarrow> p x \<Longrightarrow> k r \<le> k x"
proof -
  from assms obtain u where u: "select_ordered k p t = r # u"
    by (auto simp: limit1_Some)
  then have mem: "set (r # u) = {x\<in>set t. p x}" by (metis set_select_ordered)
  then show "r \<in> set t" and "p r" by auto
  have "sorted (map k (r # u))" using u sorted_select_ordered by metis
  then show "k r \<le> k x" if "x \<in> set t" "p x" for x
    using mem that by auto
qed

lemma limit1_select_None:
  "limit1 (select_ordered k p t) = None \<longleftrightarrow> (\<forall>r\<in>set t. \<not> p r)"
  by simp

text \<open>Taking the first row of a selection out of it leaves the rest in order.\<close>

lemma select_ordered_remove_first:
  assumes "select_ordered k p t = r # u" and "distinct (map key t)"
    and "\<And>x. x \<in> set t \<Longrightarrow> q x \<longleftrightarrow> p x \<and> key x \<noteq> key r"
  shows "select_ordered k q t = u"
proof -
  have "filter q t = filter (\<lambda>x. key x \<noteq> key r) (filter p t)"
    using assms(3) by (auto intro!: filter_cong)
  then have "select_ordered k q t = filter (\<lambda>x. key x \<noteq> key r) (r # u)"
    using assms(1) by (simp add: select_ordered_def filter_sort flip: assms(1))
  moreover have "distinct (map key (r # u))"
  proof -
    have "mset (r # u) = mset (filter p t)"
      by (metis assms(1) mset_sort select_ordered_def)
    then have "mset (map key (r # u)) = mset (map key (filter p t))"
      by (metis mset_map)
    then show ?thesis
      using assms(2) by (metis distinct_map_filter mset_eq_imp_distinct_iff)
  qed
  then have "filter (\<lambda>x. key x \<noteq> key r) (r # u) = u"
    by (auto simp: filter_id_conv image_iff)
  ultimately show ?thesis by simp
qed

text \<open>An update that touches neither the condition nor the order of a selection.\<close>

lemma sort_key_map: "(\<And>x. x \<in> set xs \<Longrightarrow> k (g x) = k x) \<Longrightarrow> sort_key k (map g xs) = map g (sort_key k xs)"
proof (induction xs)
  case (Cons x xs)
  have "insort_key k (g x) (map g ys) = map g (insort_key k x ys)" if "\<forall>y\<in>set (x # ys). k (g y) = k y" for ys
    using that by (induction ys) auto
  from this [of "sort_key k xs"] Cons show ?case by simp
qed simp

lemma select_ordered_update:
  assumes "\<And>r. r \<in> set t \<Longrightarrow> p r \<Longrightarrow> k (f r) = k r \<and> q (f r) = q r"
  shows "select_ordered k q (update_where p f t) = update_where p f (select_ordered k q t)"
proof -
  have "filter q (update_where p f t) = map (\<lambda>r. if p r then f r else r) (filter q t)"
    using assms by (induction t) auto
  then show ?thesis
    unfolding select_ordered_def update_where_def
    by (simp only:) (rule sort_key_map, use assms in simp)
qed

text \<open>Looking up the row with a key, and what an upsert on that key does to lookups.\<close>

definition find_key :: "('r \<Rightarrow> 'k option) \<Rightarrow> 'k \<Rightarrow> 'r list \<Rightarrow> 'r option" where
  "find_key idx k t = limit1 (filter (\<lambda>r. idx r = Some k) t)"

lemma find_key_None: "find_key idx k t = None \<longleftrightarrow> \<not> has_key idx k t"
  by (auto simp: find_key_def has_key_def filter_empty_conv)

lemma find_key_append: "find_key idx k (s @ t) = (case find_key idx k s of None \<Rightarrow> find_key idx k t | Some r \<Rightarrow> Some r)"
  unfolding find_key_def filter_append by (cases "filter (\<lambda>r. idx r = Some k) s") simp_all

lemma find_key_update:
  assumes "\<And>x. idx (f x) = idx x"
  shows "find_key idx k' (update_where (\<lambda>x. idx x = Some k) f t) =
    (if k' = k then map_option f (find_key idx k t) else find_key idx k' t)"
  using assms by (induction t) (auto simp: find_key_def)

lemma find_key_Some: "find_key idx k t = Some x \<Longrightarrow> idx x = Some k \<and> x \<in> set t"
proof -
  assume "find_key idx k t = Some x"
  then obtain u where "filter (\<lambda>r. idx r = Some k) t = x # u" by (auto simp: find_key_def limit1_Some)
  then have "x \<in> set (filter (\<lambda>r. idx r = Some k) t)" by simp
  then show ?thesis by simp
qed

lemma find_key_uniq:
  assumes "uniq_on idx t" and "r \<in> set t" and "idx r = Some k"
  shows "find_key idx k t = Some r"
proof -
  have "find_key idx k t \<noteq> None" using assms(2,3) by (auto simp: find_key_None has_key_def)
  then obtain x where "find_key idx k t = Some x" by blast
  with find_key_Some [OF this] show ?thesis using uniq_onD [OF assms(1)] assms(2,3) by blast
qed

lemma find_key_upsert_ok:
  assumes r: "idx r = Some k" and f: "\<And>x. idx (f x) = idx x"
    and upd: "ok (update_where (\<lambda>x. idx x = Some k) f t)" and ins: "\<not> has_key idx k t \<Longrightarrow> ok (t @ [r])"
  shows "\<exists>t'. sql_upsert ok e idx f r t = Inr t' \<and> ok t' \<and>
    (\<forall>k'. find_key idx k' t' =
       (if k' = k then Some (case find_key idx k t of None \<Rightarrow> r | Some x \<Rightarrow> f x) else find_key idx k' t))"
proof (cases "has_key idx k t")
  case True
  let ?t = "update_where (\<lambda>x. idx x = Some k) f t"
  have "sql_upsert ok e idx f r t = Inr ?t"
    using True r upd by (auto simp: sql_upsert_def sql_update_def has_key_def)
  moreover obtain x where "find_key idx k t = Some x" using True find_key_None by (metis not_None_eq)
  ultimately show ?thesis using upd by (auto simp: find_key_update [where idx = idx and f = f, OF f])
next
  case False
  then have "sql_upsert ok e idx f r t = Inr (t @ [r])"
    using r ins [OF False] by (auto simp: sql_upsert_def sql_insert_def has_key_def)
  moreover have "find_key idx k' (t @ [r]) = (if k' = k then Some r else find_key idx k' t)" for k'
    using False r find_key_None [of idx k t]
    by (auto simp: find_key_append split: option.splits) (auto simp: find_key_def)
  ultimately show ?thesis using ins [OF False] False find_key_None [of idx k t] by auto
qed

lemma find_key_upsert:
  assumes "uniq_on idx t" and "idx r = Some k" and "\<And>x. idx (f x) = idx x"
  shows "\<exists>t'. sql_upsert (uniq_on idx) e idx f r t = Inr t' \<and> uniq_on idx t' \<and>
    (\<forall>k'. find_key idx k' t' =
       (if k' = k then Some (case find_key idx k t of None \<Rightarrow> r | Some x \<Rightarrow> f x) else find_key idx k' t))"
proof (rule find_key_upsert_ok [OF assms(2,3)])
  show "uniq_on idx (update_where (\<lambda>x. idx x = Some k) f t)"
    by (rule uniq_on_update_where [OF assms(1)]) (simp add: assms(3))
  show "uniq_on idx (t @ [r])" if "\<not> has_key idx k t" using that assms(1,2) by (simp add: uniq_on_snoc)
qed

section \<open>Transactions\<close>

text \<open>
  \<open>BEGIN IMMEDIATE; try { m; COMMIT } catch (...) { ROLLBACK; throw }\<close>: an exception
  leaves the table, or the tables, as they were.
\<close>

definition transactionE :: "('s, 'a) act \<Rightarrow> ('s, 'a) act" where
  "transactionE m s = (case m s of (Inl e, _) \<Rightarrow> (Inl e, s) | (Inr x, s') \<Rightarrow> (Inr x, s'))"

lemma keeps_transactionE [keeps_intros]: "keeps I m \<Longrightarrow> keeps I (transactionE m)"
  by (auto simp: keeps_def transactionE_def split: prod.splits sum.splits)

section \<open>Tables as keyed stores\<close>

text \<open>
  The interface a client of an upserting repository relies on: looking a key up after a
  record was put. The store may have an invariant; the last record put under a key wins,
  and records under other keys are left alone.
\<close>

locale keyed_store =
  fixes invar :: "'t \<Rightarrow> bool"
    and lookup :: "'t \<Rightarrow> 'k \<Rightarrow> 'v option"
    and put :: "'v \<Rightarrow> 't \<Rightarrow> 't"
    and key_of :: "'v \<Rightarrow> 'k"
  assumes lookup_put: "invar t \<Longrightarrow> lookup (put v t) k = (if k = key_of v then Some v else lookup t k)"
    and invar_put: "invar t \<Longrightarrow> invar (put v t)"
begin

lemma invar_puts: "invar t \<Longrightarrow> invar (fold put vs t)"
  by (induction vs arbitrary: t) (auto simp: invar_put)

lemma lookup_puts_other:
  "invar t \<Longrightarrow> k \<notin> key_of ` set vs \<Longrightarrow> lookup (fold put vs t) k = lookup t k"
  by (induction vs arbitrary: t) (auto simp: lookup_put invar_put)

lemma lookup_puts_last:
  assumes "invar t" and "k \<notin> key_of ` set ws"
  shows "lookup (fold put (vs @ v # ws) t) k = (if k = key_of v then Some v else lookup (fold put vs t) k)"
  using assms by (simp add: lookup_puts_other invar_puts invar_put lookup_put)

text \<open>Writes under different keys commute, as far as any lookup can tell.\<close>

lemma put_commute:
  "invar t \<Longrightarrow> key_of v \<noteq> key_of w \<Longrightarrow> lookup (put v (put w t)) = lookup (put w (put v t))"
  by (rule ext) (simp add: lookup_put invar_put)

end

end
