(* ===== verification/Job_Queue.thy ===== *)
theory Job_Queue
  imports Sqlite
begin

text \<open>
  The interface between the job queue and its consumers. A queue has an invariant, a list
  of pending jobs and a claim action; the provider promises that a claim takes the first
  pending job and returns nothing, with the queue unchanged, when there is none. On that
  promise rest the consumers' loops: claiming a batch, and draining the queue.
\<close>

text \<open>
  The claim loop of \<open>QueueService::runTick\<close>: at most \<open>n\<close> claims, stopping at the first
  that returns nothing.
\<close>

fun claimBatch :: "nat \<Rightarrow> ('t, 'j option) act \<Rightarrow> ('t, 'j list) act" where
  "claimBatch 0 claim = returnE []"
| "claimBatch (Suc n) claim = bindE claim (\<lambda>job. case job of
     None \<Rightarrow> returnE []
   | Some j \<Rightarrow> bindE (claimBatch n claim) (\<lambda>js. returnE (j # js)))"

locale job_queue =
  fixes invar :: "'t \<Rightarrow> bool"
    and pending :: "'t \<Rightarrow> 'r list"
    and claim :: "('t, 'j option) act"
    and claimed :: "'r \<Rightarrow> 'j"
  assumes claim_Nil: "invar t \<Longrightarrow> pending t = [] \<Longrightarrow> claim t = (Inr None, t)"
    and claim_Cons: "invar t \<Longrightarrow> pending t = r # rs \<Longrightarrow>
      \<exists>t'. claim t = (Inr (Some (claimed r)), t') \<and> pending t' = rs \<and> invar t'"
begin

lemma claim_never_throws: "invar t \<Longrightarrow> \<exists>x t'. claim t = (Inr x, t')"
  using claim_Nil claim_Cons by (cases "pending t") blast+

text \<open>A batch takes the first \<open>n\<close> pending jobs, in order, and leaves the others.\<close>

lemma claimBatch_take:
  assumes "invar t"
  shows "\<exists>t'. claimBatch n claim t = (Inr (map claimed (take n (pending t))), t') \<and>
    pending t' = drop n (pending t) \<and> invar t'"
  using assms
proof (induction n arbitrary: t)
  case 0
  then show ?case by (simp add: act_simps)
next
  case (Suc n)
  show ?case
  proof (cases "pending t")
    case Nil
    with Suc.prems show ?thesis by (simp add: claim_Nil act_simps)
  next
    case (Cons r rs)
    from claim_Cons [OF Suc.prems Cons] obtain u
      where u: "claim t = (Inr (Some (claimed r)), u)" "pending u = rs" "invar u" by blast
    from Suc.IH [OF u(3)] obtain v
      where "claimBatch n claim u = (Inr (map claimed (take n rs)), v)"
        and "pending v = drop n rs" and "invar v"
      using u(2) by blast
    with u Cons show ?thesis by (simp add: act_simps)
  qed
qed

text \<open>A batch of at least as many claims as there are pending jobs empties the queue.\<close>

lemma claimBatch_drains:
  assumes "invar t" and "length (pending t) \<le> n"
  shows "\<exists>t'. claimBatch n claim t = (Inr (map claimed (pending t)), t') \<and>
    pending t' = [] \<and> invar t'"
  using claimBatch_take [OF assms(1), of n] assms(2) by simp

end

text \<open>
  A producer's side of the interface: under a condition on the job and the queue, putting
  a job in adds it at the end of the pending jobs.
\<close>

locale job_producer = job_queue invar pending claim claimed
  for invar :: "'t \<Rightarrow> bool" and pending :: "'t \<Rightarrow> 'r list"
    and claim :: "('t, 'j option) act" and claimed :: "'r \<Rightarrow> 'j" +
  fixes enq :: "'a \<Rightarrow> 't \<Rightarrow> 't"
    and new :: "'a \<Rightarrow> 'r"
    and admissible :: "'a \<Rightarrow> 't \<Rightarrow> bool"
  assumes pending_enq: "invar t \<Longrightarrow> admissible a t \<Longrightarrow> pending (enq a t) = pending t @ [new a]"
    and invar_enq: "invar t \<Longrightarrow> invar (enq a t)"
begin

text \<open>Jobs put into an empty queue come out in the order they went in.\<close>

lemma first_in_first_out:
  assumes "invar t" and "pending t = []" and "admissible a t" and "admissible b (enq a t)"
  shows "\<exists>t'. claimBatch 2 claim (enq b (enq a t)) = (Inr [claimed (new a), claimed (new b)], t') \<and>
    pending t' = []"
proof -
  have "pending (enq b (enq a t)) = [new a, new b]"
    using assms by (simp add: pending_enq invar_enq)
  then show ?thesis
    using claimBatch_drains [of "enq b (enq a t)" 2] assms(1) by (auto simp: invar_enq)
qed

end

end
