(* ===== verification/Queue_Repo.thy ===== *)
theory Queue_Repo
  imports Job_Queue
begin

text \<open>
  The transfer queue: the table \<open>transfer_queue\<close> of migrations/001_initial_schema.sql and
  the class \<open>QueueRepo\<close> (repo/QueueRepo.cpp). An operation is an action on the table;
  the row identifier drawn by \<open>generateQueueId\<close> and \<open>CURRENT_TIMESTAMP\<close> are its
  arguments \<open>newId\<close> and \<open>now\<close>.
\<close>

section \<open>Rows, records and indexes\<close>

record queue_row =
  q_id :: string
  q_entry_id :: "string option"
  q_job_type :: string
  q_status :: string
  q_local_path :: string
  q_remote_id :: "string option"
  q_folder_id :: "string option"
  q_bytes_total :: "64 word option"
  q_bytes_done :: "64 word"
  q_error_message :: "string option"
  q_retry_count :: int
  q_created_at :: string
  q_updated_at :: string

record transfer_job =
  job_id :: string
  job_entryId :: string
  job_jobType :: string
  job_status :: string
  job_localPath :: string
  job_remoteId :: "string option"
  job_remoteFolderId :: "string option"
  job_bytesTotal :: "64 word"
  job_bytesDone :: "64 word"
  job_retryCount :: int

record queue_stats =
  st_queued :: int
  st_running :: int
  st_failed :: int
  st_done :: int

type_synonym queue_table = "queue_row list"

definition queue_pk :: "queue_row \<Rightarrow> string option" where
  "queue_pk r = Some (q_id r)"

definition active_status :: "string \<Rightarrow> bool" where
  "active_status s \<longleftrightarrow> s = ''queued'' \<or> s = ''running''"

text \<open>The partial unique index on \<open>(entry_id, job_type)\<close> of queued and running jobs.\<close>

definition idx_transfer_active_job :: "queue_row \<Rightarrow> (string \<times> string) option" where
  "idx_transfer_active_job r =
     (if active_status (q_status r) then map_option (\<lambda>e. (e, q_job_type r)) (q_entry_id r) else None)"

definition queue_ok :: "queue_table \<Rightarrow> bool" where
  "queue_ok t \<longleftrightarrow> uniq_on queue_pk t \<and> uniq_on idx_transfer_active_job t"

section \<open>Operations\<close>

definition readTransferJob :: "queue_row \<Rightarrow> transfer_job result" where
  "readTransferJob r =
     (case q_entry_id r of
        None \<Rightarrow> Inl (Invalid_argument ''transfer_queue row contained NULL value'')
      | Some e \<Rightarrow> Inr
          \<lparr>job_id = q_id r, job_entryId = e, job_jobType = q_job_type r, job_status = q_status r,
           job_localPath = q_local_path r, job_remoteId = q_remote_id r,
           job_remoteFolderId = q_folder_id r,
           job_bytesTotal = (case q_bytes_total r of None \<Rightarrow> 0 | Some n \<Rightarrow> n),
           job_bytesDone = q_bytes_done r, job_retryCount = column_int (q_retry_count r)\<rparr>)"

definition hasActiveJobForEntry :: "string \<Rightarrow> string \<Rightarrow> queue_table \<Rightarrow> bool" where
  "hasActiveJobForEntry entryId jobType t \<longleftrightarrow>
     (\<exists>r\<in>set t. q_entry_id r = Some entryId \<and> q_job_type r = jobType \<and> active_status (q_status r))"

definition hasActiveCreateFolderForEntry :: "string \<Rightarrow> queue_table \<Rightarrow> bool" where
  "hasActiveCreateFolderForEntry entryId t = hasActiveJobForEntry entryId ''create_folder'' t"

definition hasActiveUploadFileForEntry :: "string \<Rightarrow> queue_table \<Rightarrow> bool" where
  "hasActiveUploadFileForEntry entryId t = hasActiveJobForEntry entryId ''upload_file'' t"

definition enqueueCreateFolder ::
    "string \<Rightarrow> string \<Rightarrow> string \<Rightarrow> string \<Rightarrow> string option \<Rightarrow> queue_table \<Rightarrow> queue_table" where
  "enqueueCreateFolder now newId entryId localPath remoteFolderId t =
     sql_insert_or_ignore queue_ok
       \<lparr>q_id = newId, q_entry_id = Some entryId, q_job_type = ''create_folder'',
        q_status = ''queued'', q_local_path = localPath, q_remote_id = None,
        q_folder_id = remoteFolderId, q_bytes_total = Some 0, q_bytes_done = 0,
        q_error_message = None, q_retry_count = 0, q_created_at = now, q_updated_at = now\<rparr> t"

definition enqueueUploadFile ::
    "string \<Rightarrow> string \<Rightarrow> string \<Rightarrow> string \<Rightarrow> string option \<Rightarrow> 64 word \<Rightarrow> queue_table \<Rightarrow> queue_table" where
  "enqueueUploadFile now newId entryId localPath remoteFolderId bytesTotal t =
     sql_insert_or_ignore queue_ok
       \<lparr>q_id = newId, q_entry_id = Some entryId, q_job_type = ''upload_file'',
        q_status = ''queued'', q_local_path = localPath, q_remote_id = None,
        q_folder_id = remoteFolderId, q_bytes_total = Some bytesTotal, q_bytes_done = 0,
        q_error_message = None, q_retry_count = 0, q_created_at = now, q_updated_at = now\<rparr> t"

definition with_status :: "string \<Rightarrow> queue_row \<Rightarrow> bool" where
  "with_status s r \<longleftrightarrow> q_status r = s"

text \<open>\<open>SUM\<close> over no rows is \<open>NULL\<close>, which \<open>sqlite3_column_int\<close> reads as 0.\<close>

definition stats :: "queue_table \<Rightarrow> queue_stats" where
  "stats t =
     \<lparr>st_queued = column_int (int (length (filter (with_status ''queued'') t))),
      st_running = column_int (int (length (filter (with_status ''running'') t))),
      st_failed = column_int (int (length (filter (with_status ''failed'') t))),
      st_done = column_int (int (length (filter (with_status ''done'') t)))\<rparr>"

text \<open>The \<open>WHERE\<close> clause of \<open>claimNextQueuedSql\<close>; an empty job type is bound as \<open>NULL\<close>.\<close>

definition claimable :: "string \<Rightarrow> queue_row \<Rightarrow> bool" where
  "claimable jobType r \<longleftrightarrow> q_status r = ''queued'' \<and> (jobType = [] \<or> q_job_type r = jobType)"

definition claimNextQueuedByType ::
    "string \<Rightarrow> string \<Rightarrow> (queue_table, transfer_job option) act" where
  "claimNextQueuedByType now jobType = transactionE (\<lambda>t.
     case limit1 (select_ordered q_created_at (claimable jobType) t) of
       None \<Rightarrow> (Inr None, t)
     | Some r \<Rightarrow>
         (case readTransferJob r of
            Inl e \<Rightarrow> (Inl e, t)
          | Inr job \<Rightarrow>
              (case sql_update queue_ok (step_failed ''transfer_queue'')
                      (\<lambda>x. q_id x = job_id job \<and> q_status x = ''queued'')
                      (\<lambda>x. x\<lparr>q_status := ''running'', q_updated_at := now\<rparr>) t of
                 Inl e \<Rightarrow> (Inl e, t)
               | Inr t' \<Rightarrow>
                   if sql_changes (\<lambda>x. q_id x = job_id job \<and> q_status x = ''queued'') t \<noteq> 1
                   then (Inl (Runtime_error ''Failed to modify''), t')
                   else (Inr (Some (job\<lparr>job_status := ''running''\<rparr>)), t'))))"

definition claimNextQueued :: "string \<Rightarrow> (queue_table, transfer_job option) act" where
  "claimNextQueued now = claimNextQueuedByType now []"

text \<open>\<open>bytes_done\<close> is \<open>NOT NULL\<close>, so the copy of a \<open>NULL\<close> \<open>bytes_total\<close> fails.\<close>

definition markDone :: "string \<Rightarrow> string \<Rightarrow> (queue_table, unit) act" where
  "markDone now jobId = stmtE (\<lambda>t.
     if \<exists>r\<in>set t. q_id r = jobId \<and> q_bytes_total r = None
     then Inl (Runtime_error ''Step failed: NOT NULL constraint failed: transfer_queue.bytes_done'')
     else sql_update queue_ok (step_failed ''transfer_queue'') (\<lambda>r. q_id r = jobId)
            (\<lambda>r. r\<lparr>q_status := ''done'', q_bytes_done := the (q_bytes_total r),
                   q_error_message := None, q_updated_at := now\<rparr>) t)"

definition markFailed :: "string \<Rightarrow> string \<Rightarrow> string \<Rightarrow> (queue_table, unit) act" where
  "markFailed now jobId errorMessage = stmtE
     (sql_update queue_ok (step_failed ''transfer_queue'') (\<lambda>r. q_id r = jobId)
        (\<lambda>r. r\<lparr>q_status := ''failed'', q_error_message := Some errorMessage, q_updated_at := now\<rparr>))"

definition retryJob :: "string \<Rightarrow> string \<Rightarrow> (queue_table, unit) act" where
  "retryJob now jobId = stmtE
     (sql_update queue_ok (step_failed ''transfer_queue'') (\<lambda>r. q_id r = jobId)
        (\<lambda>r. r\<lparr>q_status := ''queued'', q_bytes_done := 0, q_error_message := None,
               q_retry_count := q_retry_count r + 1, q_updated_at := now\<rparr>))"

definition incrementProgress :: "string \<Rightarrow> string \<Rightarrow> 64 word \<Rightarrow> (queue_table, unit) act" where
  "incrementProgress now jobId bytesDone = stmtE
     (sql_update queue_ok (step_failed ''transfer_queue'') (\<lambda>r. q_id r = jobId)
        (\<lambda>r. r\<lparr>q_bytes_done := bytesDone, q_updated_at := now\<rparr>))"

definition retryFailed :: "string \<Rightarrow> (queue_table, unit) act" where
  "retryFailed now = stmtE
     (sql_update queue_ok (exec_failed ''transfer_queue'') (with_status ''failed'')
        (\<lambda>r. r\<lparr>q_status := ''queued'', q_error_message := None,
               q_retry_count := q_retry_count r + 1, q_updated_at := now\<rparr>))"

definition retryRunning :: "string \<Rightarrow> (queue_table, unit) act" where
  "retryRunning now = stmtE
     (sql_update queue_ok (exec_failed ''transfer_queue'') (with_status ''running'')
        (\<lambda>r. r\<lparr>q_status := ''queued'', q_bytes_done := 0, q_error_message := None,
               q_retry_count := q_retry_count r + 1, q_updated_at := now\<rparr>))"

definition clearDone :: "queue_table \<Rightarrow> queue_table" where
  "clearDone t = delete_where (with_status ''done'') t"

section \<open>What each operation does\<close>

lemmas queue_op_defs = enqueueCreateFolder_def enqueueUploadFile_def markDone_def markFailed_def
  retryJob_def incrementProgress_def retryFailed_def retryRunning_def clearDone_def

lemma queue_pk_distinct: "uniq_on queue_pk t \<longleftrightarrow> distinct (map q_id t)"
  unfolding queue_pk_def [abs_def] by (rule uniq_on_total)

text \<open>
  The columns that matter to the indexes and to the queue discipline, and what the updates
  write to them.
\<close>

definition well_formed_row :: "queue_row \<Rightarrow> bool" where
  "well_formed_row r \<longleftrightarrow>
     q_status r \<in> {''queued'', ''running'', ''done'', ''failed''} \<and>
     q_job_type r \<in> {''create_folder'', ''upload_file''} \<and>
     q_entry_id r \<noteq> None \<and> q_bytes_total r \<noteq> None"

definition queue_inv :: "queue_table \<Rightarrow> bool" where
  "queue_inv t \<longleftrightarrow> queue_ok t \<and> (\<forall>r\<in>set t. well_formed_row r)"

lemma queue_inv_Nil: "queue_inv []"
  by (simp add: queue_inv_def queue_ok_def)

lemma queue_inv_ids: "queue_inv t \<Longrightarrow> distinct (map q_id t)"
  by (simp add: queue_inv_def queue_ok_def queue_pk_distinct)

lemma queue_inv_row: "queue_inv t \<Longrightarrow> r \<in> set t \<Longrightarrow> well_formed_row r"
  by (simp add: queue_inv_def)

text \<open>At most one active job per entry and job type.\<close>

lemma queue_inv_active:
  assumes "queue_inv t" and "x \<in> set t" and "y \<in> set t"
    and "active_status (q_status x)" and "active_status (q_status y)"
    and "q_entry_id x = q_entry_id y" and "q_job_type x = q_job_type y"
  shows "x = y"
proof -
  obtain e where e: "q_entry_id x = Some e"
    using queue_inv_row [OF assms(1,2)] by (auto simp: well_formed_row_def)
  have "uniq_on idx_transfer_active_job t"
    using assms(1) by (simp add: queue_inv_def queue_ok_def)
  then show ?thesis
    by (rule uniq_onD [where k = "(e, q_job_type x)"])
      (use assms e in \<open>simp_all add: idx_transfer_active_job_def\<close>)
qed

lemma queue_inv_insert_or_ignore:
  "queue_inv t \<Longrightarrow> well_formed_row r \<Longrightarrow> queue_inv (sql_insert_or_ignore queue_ok r t)"
  by (auto simp: queue_inv_def sql_insert_or_ignore_def)

lemma queue_inv_update:
  assumes "queue_inv t" and "sql_update queue_ok e p f t = Inr t'"
    and "\<And>r. well_formed_row r \<Longrightarrow> p r \<Longrightarrow> well_formed_row (f r)"
  shows "queue_inv t'"
  using assms by (auto simp: queue_inv_def sql_update_def Let_def in_update_where split: if_splits)

lemma queue_inv_delete: "queue_inv t \<Longrightarrow> queue_inv (delete_where p t)"
  by (auto simp: queue_inv_def queue_ok_def delete_where_def uniq_on_filter)

text \<open>Every operation keeps the invariant, whether it returns or throws.\<close>

lemma queue_inv_enqueue [intro]:
  "queue_inv t \<Longrightarrow> queue_inv (enqueueCreateFolder now newId e p f t)"
  "queue_inv t \<Longrightarrow> queue_inv (enqueueUploadFile now newId e p f n t)"
  by (auto simp: queue_op_defs well_formed_row_def intro!: queue_inv_insert_or_ignore)

lemma queue_inv_clearDone [intro]: "queue_inv t \<Longrightarrow> queue_inv (clearDone t)"
  by (simp add: clearDone_def queue_inv_delete)

lemma keeps_queue_updates [keeps_intros]:
  "keeps queue_inv (markDone now jobId)"
  "keeps queue_inv (markFailed now jobId msg)"
  "keeps queue_inv (retryJob now jobId)"
  "keeps queue_inv (incrementProgress now jobId n)"
  "keeps queue_inv (retryFailed now)"
  "keeps queue_inv (retryRunning now)"
  unfolding queue_op_defs
  by (rule keeps_stmtE, erule queue_inv_update, force split: if_splits, simp add: well_formed_row_def)+

lemma keeps_claim [keeps_intros]: "keeps queue_inv (claimNextQueuedByType now jobType)"
  unfolding claimNextQueuedByType_def
proof (rule keeps_transactionE, rule keepsI, goal_cases)
  case (1 t)
  then show ?case
    by (auto split: option.splits sum.splits if_splits simp: well_formed_row_def
        elim!: queue_inv_update)
qed

section \<open>Claiming\<close>

definition pendingJobs :: "string \<Rightarrow> queue_table \<Rightarrow> queue_row list" where
  "pendingJobs jobType t = select_ordered q_created_at (claimable jobType) t"

text \<open>The job a claim returns for a row.\<close>

definition claimedJob :: "queue_row \<Rightarrow> transfer_job" where
  "claimedJob r =
     \<lparr>job_id = q_id r, job_entryId = the (q_entry_id r), job_jobType = q_job_type r,
      job_status = ''running'', job_localPath = q_local_path r, job_remoteId = q_remote_id r,
      job_remoteFolderId = q_folder_id r, job_bytesTotal = the (q_bytes_total r),
      job_bytesDone = q_bytes_done r, job_retryCount = column_int (q_retry_count r)\<rparr>"

definition run_row :: "string \<Rightarrow> queue_row \<Rightarrow> queue_row" where
  "run_row now r = r\<lparr>q_status := ''running'', q_updated_at := now\<rparr>"

lemma queue_ok_update:
  assumes "queue_ok t"
    and "\<And>r. p r \<Longrightarrow> q_id (f r) = q_id r"
    and "\<And>r. p r \<Longrightarrow> idx_transfer_active_job (f r) = idx_transfer_active_job r \<or>
          idx_transfer_active_job (f r) = None"
  shows "queue_ok (update_where p f t)"
proof -
  have "uniq_on queue_pk (update_where p f t)"
    by (rule uniq_on_update_where) (use assms(1,2) in \<open>auto simp: queue_ok_def queue_pk_def\<close>)
  moreover have "uniq_on idx_transfer_active_job (update_where p f t)"
    by (rule uniq_on_update_where) (use assms(1) in \<open>simp add: queue_ok_def\<close>, rule assms(3))
  ultimately show ?thesis by (simp add: queue_ok_def)
qed

lemma claim_row:
  assumes inv: "queue_inv t" and head: "pendingJobs jobType t = r # rs"
  shows "claimNextQueuedByType now jobType t =
    (Inr (Some (claimedJob r)), update_where (\<lambda>x. q_id x = q_id r) (run_row now) t)"
proof -
  let ?p = "\<lambda>x. q_id x = q_id r \<and> q_status x = ''queued''"
  have first: "limit1 (select_ordered q_created_at (claimable jobType) t) = Some r"
    using head by (simp add: pendingJobs_def)
  have mem: "r \<in> set t" and q: "q_status r = ''queued''"
    using limit1_select_min(1,2) [OF first] by (simp_all add: claimable_def)
  obtain e n where en: "q_entry_id r = Some e" "q_bytes_total r = Some n"
    using queue_inv_row [OF inv mem] by (auto simp: well_formed_row_def)
  have ids: "distinct (map q_id t)" using inv by (rule queue_inv_ids)
  have one: "sql_changes ?p t = 1"
    using filter_key_single [OF ids mem, of "\<lambda>x. q_status x = ''queued''"] q
    by (simp add: sql_changes_def)
  have same: "update_where ?p (run_row now) t = update_where (\<lambda>x. q_id x = q_id r) (run_row now) t"
    using ids mem q unfolding update_where_def by (auto simp: distinct_map inj_on_def)
  have ok: "queue_ok (update_where ?p (run_row now) t)"
    by (rule queue_ok_update)
      (use inv in \<open>auto simp: queue_inv_def run_row_def idx_transfer_active_job_def active_status_def\<close>)
  show ?thesis
    using first en one ok same
    by (simp add: claimNextQueuedByType_def transactionE_def readTransferJob_def claimedJob_def
        sql_update_def run_row_def [abs_def])
qed

lemma pending_after_claim:
  assumes inv: "queue_inv t" and head: "pendingJobs jobType t = r # rs"
  shows "pendingJobs jobType (update_where (\<lambda>x. q_id x = q_id r) (run_row now) t) = rs"
proof -
  let ?q = "\<lambda>x. claimable jobType x \<and> q_id x \<noteq> q_id r"
  have "filter (claimable jobType) (update_where (\<lambda>x. q_id x = q_id r) (run_row now) t) = filter ?q t"
    by (induction t) (auto simp: run_row_def claimable_def)
  then have "pendingJobs jobType (update_where (\<lambda>x. q_id x = q_id r) (run_row now) t) =
      select_ordered q_created_at ?q t"
    by (simp add: pendingJobs_def select_ordered_def)
  also have "\<dots> = rs"
    by (rule select_ordered_remove_first [where key = q_id and p = "claimable jobType"])
      (use head inv in \<open>simp_all add: pendingJobs_def queue_inv_ids\<close>)
  finally show ?thesis .
qed

lemma claim_none:
  "pendingJobs jobType t = [] \<Longrightarrow> claimNextQueuedByType now jobType t = (Inr None, t)"
  by (simp add: pendingJobs_def claimNextQueuedByType_def transactionE_def limit1_None [THEN iffD2])

interpretation claims: job_queue queue_inv "pendingJobs jobType" "claimNextQueuedByType now jobType"
    claimedJob for now jobType
proof
  fix t
  show "pendingJobs jobType t = [] \<Longrightarrow> claimNextQueuedByType now jobType t = (Inr None, t)"
    by (rule claim_none)
next
  fix t r rs assume "queue_inv t" and "pendingJobs jobType t = r # rs"
  then show "\<exists>t'. claimNextQueuedByType now jobType t = (Inr (Some (claimedJob r)), t') \<and>
      pendingJobs jobType t' = rs \<and> queue_inv t'"
    using claim_row pending_after_claim keepsD [OF keeps_claim] by (metis snd_conv)
qed

section \<open>Enqueueing\<close>

text \<open>The arguments of \<open>enqueueUploadFile\<close>, and the row it inserts.\<close>

type_synonym upload_args = "string \<times> string \<times> string \<times> string \<times> string option \<times> 64 word"

fun enqUpload :: "upload_args \<Rightarrow> queue_table \<Rightarrow> queue_table" where
  "enqUpload (now, newId, e, p, f, n) t = enqueueUploadFile now newId e p f n t"

fun uploadRow :: "upload_args \<Rightarrow> queue_row" where
  "uploadRow (now, newId, e, p, f, n) =
     \<lparr>q_id = newId, q_entry_id = Some e, q_job_type = ''upload_file'',
      q_status = ''queued'', q_local_path = p, q_remote_id = None,
      q_folder_id = f, q_bytes_total = Some n, q_bytes_done = 0,
      q_error_message = None, q_retry_count = 0, q_created_at = now, q_updated_at = now\<rparr>"

text \<open>
  A new identifier, no active upload of the entry, and a clock that has not gone backwards
  since the rows of the table were created.
\<close>

fun uploadAdmissible :: "upload_args \<Rightarrow> queue_table \<Rightarrow> bool" where
  "uploadAdmissible (now, newId, e, p, f, n) t \<longleftrightarrow>
     newId \<notin> q_id ` set t \<and> \<not> hasActiveUploadFileForEntry e t \<and> (\<forall>r\<in>set t. q_created_at r \<le> now)"

lemma active_key_iff:
  "has_key idx_transfer_active_job (e, ty) t \<longleftrightarrow> hasActiveJobForEntry e ty t"
  by (auto simp: has_key_def hasActiveJobForEntry_def idx_transfer_active_job_def split: if_splits)

lemma pk_key_iff: "has_key queue_pk i t \<longleftrightarrow> i \<in> q_id ` set t"
  by (auto simp: has_key_def queue_pk_def)

text \<open>An insert of a queued row goes through exactly when its id and its job are new.\<close>

lemma queue_ok_snoc:
  assumes "queue_ok t" and "q_status r = ''queued''" and "q_entry_id r = Some e"
  shows "queue_ok (t @ [r]) \<longleftrightarrow> q_id r \<notin> q_id ` set t \<and> \<not> hasActiveJobForEntry e (q_job_type r) t"
  using assms
  by (auto simp: queue_ok_def uniq_on_snoc queue_pk_def pk_key_iff idx_transfer_active_job_def
      active_status_def simp flip: active_key_iff)

lemma enqueueUploadFile_cases:
  assumes "queue_inv t"
  shows "enqueueUploadFile now newId e p f n t =
    (if newId \<in> q_id ` set t \<or> hasActiveUploadFileForEntry e t then t
     else t @ [uploadRow (now, newId, e, p, f, n)])"
  using assms queue_ok_snoc [of t "uploadRow (now, newId, e, p, f, n)" e]
  by (auto simp: enqueueUploadFile_def sql_insert_or_ignore_def queue_inv_def
      hasActiveUploadFileForEntry_def)

interpretation uploads: job_producer queue_inv "pendingJobs ''upload_file''"
    "claimNextQueuedByType now ''upload_file''" claimedJob enqUpload uploadRow uploadAdmissible
  for now
proof
  fix t and a :: upload_args
  assume inv: "queue_inv t" and adm: "uploadAdmissible a t"
  obtain nw newId e p f n where a: "a = (nw, newId, e, p, f, n)" by (cases a)
  have "enqUpload a t = t @ [uploadRow a]"
    using inv adm by (simp add: a enqueueUploadFile_cases)
  then have "pendingJobs ''upload_file'' (enqUpload a t) =
      sort_key q_created_at (filter (claimable ''upload_file'') t @ [uploadRow a])"
    by (simp add: pendingJobs_def select_ordered_def a claimable_def)
  also have "\<dots> = pendingJobs ''upload_file'' t @ [uploadRow a]"
    unfolding pendingJobs_def select_ordered_def
    by (rule sort_key_snoc_max) (use adm in \<open>auto simp: a\<close>)
  finally show "pendingJobs ''upload_file'' (enqUpload a t) = pendingJobs ''upload_file'' t @ [uploadRow a]" .
next
  fix t and a :: upload_args
  assume "queue_inv t"
  then show "queue_inv (enqUpload a t)" by (cases a) auto
qed

section \<open>Retrying\<close>

text \<open>Putting back the running jobs, after a crash, cannot fail.\<close>

definition requeue_row :: "string \<Rightarrow> queue_row \<Rightarrow> queue_row" where
  "requeue_row now r = r\<lparr>q_status := ''queued'', q_bytes_done := 0, q_error_message := None,
     q_retry_count := q_retry_count r + 1, q_updated_at := now\<rparr>"

lemma retryRunning_total:
  assumes "queue_ok t"
  shows "retryRunning now t = (Inr (), update_where (with_status ''running'') (requeue_row now) t)"
proof -
  have "queue_ok (update_where (with_status ''running'') (requeue_row now) t)"
    by (rule queue_ok_update [OF assms])
      (auto simp: requeue_row_def with_status_def idx_transfer_active_job_def active_status_def)
  then show ?thesis
    by (simp add: retryRunning_def stmtE_def sql_update_def requeue_row_def [abs_def])
qed

text \<open>Putting back the failed jobs fails when one of them has an active twin.\<close>

lemma retryFailed_blocked:
  assumes ok: "queue_ok t" and r: "r \<in> set t" "q_status r = ''failed''" "q_entry_id r = Some e"
    and s: "s \<in> set t" "s \<noteq> r" "active_status (q_status s) \<or> q_status s = ''failed''"
      "q_entry_id s = Some e" "q_job_type s = q_job_type r"
  shows "retryFailed now t = (Inl (exec_failed ''transfer_queue''), t)"
proof -
  define f :: "queue_row \<Rightarrow> queue_row" where "f = (\<lambda>r. r\<lparr>q_status := ''queued'', q_error_message := None,
    q_retry_count := q_retry_count r + 1, q_updated_at := now\<rparr>)"
  define g where "g x = (if with_status ''failed'' x then f x else x)" for x
  have shape: "update_where (with_status ''failed'') f t = map g t"
    by (simp add: update_where_def g_def [abs_def])
  have key: "idx_transfer_active_job (g r) = Some (e, q_job_type r)"
    "idx_transfer_active_job (g s) = Some (e, q_job_type r)"
    using r s by (auto simp: g_def f_def idx_transfer_active_job_def active_status_def with_status_def)
  have "q_id (g r) \<noteq> q_id (g s)"
    using ok r(1) s(1,2)
    by (auto simp: g_def f_def queue_ok_def queue_pk_distinct distinct_map inj_on_def)
  then have "\<not> uniq_on idx_transfer_active_job (map g t)"
    using uniq_onD [of idx_transfer_active_job "map g t" "g r" "g s"] key r(1) s(1) by auto
  then show ?thesis
    by (simp add: retryFailed_def stmtE_def sql_update_def queue_ok_def shape flip: f_def)
qed

section \<open>Runs of the queue\<close>

text \<open>One rule per method of \<open>QueueRepo\<close> that writes the table.\<close>

inductive queue_step :: "queue_table \<Rightarrow> queue_table \<Rightarrow> bool" where
  create_folder: "queue_step t (enqueueCreateFolder now newId e p f t)"
| upload_file: "queue_step t (enqueueUploadFile now newId e p f n t)"
| claim: "queue_step t (snd (claimNextQueuedByType now jobType t))"
| mark_done: "queue_step t (snd (markDone now jobId t))"
| mark_failed: "queue_step t (snd (markFailed now jobId msg t))"
| retry_job: "queue_step t (snd (retryJob now jobId t))"
| progress: "queue_step t (snd (incrementProgress now jobId n t))"
| retry_failed: "queue_step t (snd (retryFailed now t))"
| retry_running: "queue_step t (snd (retryRunning now t))"
| clear_done: "queue_step t (clearDone t)"

interpretation queue_runs: transition_system "\<lambda>t. t = []" queue_step queue_inv
proof
  show "queue_inv t" if "t = []" for t using that by (simp add: queue_inv_Nil)
next
  fix s t assume "queue_step s t" and "queue_inv s"
  then show "queue_inv t"
    by (cases rule: queue_step.cases) (auto intro: keepsD keeps_intros)
qed

text \<open>What a job of a given identifier looks like after \<open>markDone\<close> or \<open>markFailed\<close>.\<close>

lemma markDone_total:
  assumes "queue_inv t"
  shows "markDone now jobId t = (Inr (), update_where (\<lambda>r. q_id r = jobId)
    (\<lambda>r. r\<lparr>q_status := ''done'', q_bytes_done := the (q_bytes_total r),
           q_error_message := None, q_updated_at := now\<rparr>) t)"
proof -
  have "queue_ok (update_where (\<lambda>r. q_id r = jobId)
    (\<lambda>r. r\<lparr>q_status := ''done'', q_bytes_done := the (q_bytes_total r),
           q_error_message := None, q_updated_at := now\<rparr>) t)"
    by (rule queue_ok_update)
      (use assms in \<open>auto simp: queue_inv_def idx_transfer_active_job_def active_status_def\<close>)
  moreover have "\<forall>r\<in>set t. q_bytes_total r \<noteq> None"
    using queue_inv_row [OF assms] by (auto simp: well_formed_row_def)
  ultimately show ?thesis by (auto simp: markDone_def stmtE_def sql_update_def)
qed

lemma markFailed_total:
  assumes "queue_ok t"
  shows "markFailed now jobId msg t = (Inr (), update_where (\<lambda>r. q_id r = jobId)
    (\<lambda>r. r\<lparr>q_status := ''failed'', q_error_message := Some msg, q_updated_at := now\<rparr>) t)"
proof -
  have "queue_ok (update_where (\<lambda>r. q_id r = jobId)
    (\<lambda>r. r\<lparr>q_status := ''failed'', q_error_message := Some msg, q_updated_at := now\<rparr>) t)"
    by (rule queue_ok_update)
      (use assms in \<open>auto simp: idx_transfer_active_job_def active_status_def\<close>)
  then show ?thesis by (simp add: markFailed_def stmtE_def sql_update_def)
qed

text \<open>\<open>retryJob\<close> puts back a failed or finished job that has no active twin.\<close>

lemma retryJob_no_twin:
  assumes ok: "queue_ok t" and r: "r \<in> set t" "q_id r = jobId"
    and twin: "\<And>s e. s \<in> set t \<Longrightarrow> s \<noteq> r \<Longrightarrow> q_entry_id r = Some e \<Longrightarrow> q_entry_id s = Some e \<Longrightarrow>
      q_job_type s = q_job_type r \<Longrightarrow> \<not> active_status (q_status s)"
  shows "retryJob now jobId t = (Inr (), update_where (\<lambda>x. q_id x = jobId) (requeue_row now) t)"
proof -
  let ?t = "update_where (\<lambda>x. q_id x = jobId) (requeue_row now) t"
  have ids: "distinct (map q_id t)" using ok by (simp add: queue_ok_def queue_pk_distinct)
  have only: "x = r" if "x \<in> set t" "q_id x = jobId" for x
    using that r ids by (auto simp: distinct_map inj_on_def)
  have shape: "?t = map (\<lambda>x. if queue_pk x = Some jobId then requeue_row now x else x) t"
    by (simp add: update_where_def queue_pk_def)
  have "uniq_on idx_transfer_active_job ?t"
    unfolding shape
  proof (rule uniq_on_map_one [where r = r])
    show "uniq_on idx_transfer_active_job t" "uniq_on queue_pk t"
      using ok by (simp_all add: queue_ok_def)
    show "x = r" if "x \<in> set t" "queue_pk x = Some jobId" for x
      using that only by (simp add: queue_pk_def)
    fix x k assume x: "x \<in> set t" "queue_pk x \<noteq> Some jobId"
      "idx_transfer_active_job (requeue_row now r) = Some k"
    show "idx_transfer_active_job x \<noteq> Some k"
    proof -
      obtain e where e: "q_entry_id r = Some e" "k = (e, q_job_type r)"
        using x(3) by (auto simp: idx_transfer_active_job_def requeue_row_def split: if_splits)
      have "x \<noteq> r" using x(2) r(2) by (auto simp: queue_pk_def)
      then show ?thesis
        using twin [OF x(1) _ e(1)] e by (auto simp: idx_transfer_active_job_def split: if_splits)
    qed
  qed
  moreover have "uniq_on queue_pk ?t"
    by (rule uniq_on_update_where)
      (use ok in \<open>auto simp: queue_ok_def queue_pk_def requeue_row_def\<close>)
  ultimately show ?thesis
    by (simp add: retryJob_def stmtE_def sql_update_def queue_ok_def requeue_row_def [abs_def])
qed

section \<open>Counting\<close>

lemma length_filter_partition4:
  assumes "\<And>r. r \<in> set t \<Longrightarrow> q_status r \<in> {''queued'', ''running'', ''failed'', ''done''}"
  shows "length (filter (with_status ''queued'') t) + length (filter (with_status ''running'') t) +
    length (filter (with_status ''failed'') t) + length (filter (with_status ''done'') t) = length t"
  using assms by (induction t) (auto simp: with_status_def)

section \<open>Properties\<close>

text \<open>
  C8. Whatever sequence of repository calls is made on a fresh queue, two active (queued or
  running) jobs for the same entry and of the same type are the same job, and job
  identifiers are unique.
\<close>

theorem reachable_one_active_job:
  assumes "queue_step\<^sup>*\<^sup>* [] t"
  shows "distinct (map q_id t) \<and>
    (\<forall>x\<in>set t. \<forall>y\<in>set t. active_status (q_status x) \<and> active_status (q_status y) \<and>
       q_entry_id x = q_entry_id y \<and> q_job_type x = q_job_type y \<longrightarrow> x = y)"
  using queue_runs.invar_reachable [OF refl assms] queue_inv_ids queue_inv_active by blast

definition demoQueue :: queue_table where
  "demoQueue = enqueueUploadFile ''2'' ''j2'' ''e2'' ''b'' None 7
     (enqueueUploadFile ''1'' ''j1'' ''e1'' ''a'' None 5 [])"

lemma demoQueue_rows:
  "demoQueue = [uploadRow (''1'', ''j1'', ''e1'', ''a'', None, 5), uploadRow (''2'', ''j2'', ''e2'', ''b'', None, 7)]"
  by (simp add: demoQueue_def enqueueUploadFile_def sql_insert_or_ignore_def queue_ok_def uniq_on_Cons
      queue_pk_def idx_transfer_active_job_def)

lemma demoQueue_pending: "pendingJobs ''upload_file'' demoQueue = demoQueue"
  unfolding demoQueue_rows by code_simp

lemma demoQueue_reachable: "queue_step\<^sup>*\<^sup>* [] demoQueue"
  unfolding demoQueue_def 
  by (rule rtranclp.rtrancl_into_rtrancl, rule rtranclp.rtrancl_into_rtrancl, rule rtranclp.rtrancl_refl)
    (rule queue_step.upload_file)+

theorem reachable_one_active_job_witness:
  "queue_step\<^sup>*\<^sup>* [] demoQueue \<and> length demoQueue = 2 \<and> distinct (map q_id demoQueue)"
  using reachable_one_active_job [OF demoQueue_reachable] demoQueue_reachable
  by (simp add: demoQueue_rows)

text \<open>
  C33. On a reachable queue a claim never throws. With no queued job of the type it returns
  nothing and leaves the table; otherwise it returns the oldest such job, marked running,
  and changes the status and the update time of that row only.
\<close>

theorem claim_takes_oldest:
  assumes "queue_step\<^sup>*\<^sup>* [] t"
  shows "(\<forall>r\<in>set t. \<not> claimable jobType r) \<and> claimNextQueuedByType now jobType t = (Inr None, t) \<or>
    (\<exists>r\<in>set t. claimable jobType r \<and> (\<forall>x\<in>set t. claimable jobType x \<longrightarrow> q_created_at r \<le> q_created_at x) \<and>
       claimNextQueuedByType now jobType t =
         (Inr (Some (claimedJob r)), map (\<lambda>x. if q_id x = q_id r then run_row now x else x) t))"
proof (cases "pendingJobs jobType t")
  case Nil
  then show ?thesis using claim_none by (auto simp: pendingJobs_def)
next
  case (Cons r rs)
  have first: "limit1 (select_ordered q_created_at (claimable jobType) t) = Some r"
    using Cons by (simp add: pendingJobs_def)
  show ?thesis
    using limit1_select_min [OF first] claim_row [OF queue_runs.invar_reachable [OF refl assms] Cons]
    by (auto simp: update_where_def)
qed

theorem claim_takes_oldest_witness:
  "\<exists>r\<in>set demoQueue. claimable ''upload_file'' r \<and>
     fst (claimNextQueuedByType ''3'' ''upload_file'' demoQueue) = Inr (Some (claimedJob r))"
  using claim_takes_oldest [OF demoQueue_reachable, of "''upload_file''" "''3''"]
  by (auto simp: demoQueue_rows claimable_def)

text \<open>
  The claim loop of a queue tick hands out the first \<open>n\<close> pending jobs of the type in
  creation order, each one exactly once, and leaves the others pending: the queue implements
  the list of its pending jobs.
\<close>

theorem claim_batch_refines_list:
  assumes "queue_step\<^sup>*\<^sup>* [] t"
  shows "\<exists>t'. claimBatch n (claimNextQueuedByType now jobType) t =
      (Inr (map claimedJob (take n (pendingJobs jobType t))), t') \<and>
    pendingJobs jobType t' = drop n (pendingJobs jobType t) \<and>
    distinct (map job_id (map claimedJob (take n (pendingJobs jobType t))))"
proof -
  have inv: "queue_inv t" by (rule queue_runs.invar_reachable [OF refl assms])
  have "mset (map q_id (pendingJobs jobType t)) = mset (map q_id (filter (claimable jobType) t))"
    unfolding pendingJobs_def select_ordered_def by (metis mset_map mset_sort)
  then have "distinct (map q_id (pendingJobs jobType t))"
    using queue_inv_ids [OF inv] by (metis distinct_map_filter mset_eq_imp_distinct_iff)
  then have "distinct (map q_id (take n (pendingJobs jobType t)))"
    by (simp add: take_map [symmetric] distinct_take)
  moreover have "job_id \<circ> claimedJob = q_id"
    by (rule ext) (simp add: claimedJob_def)
  ultimately show ?thesis
    using claims.claimBatch_take [OF inv, of n now jobType] by auto
qed

theorem claim_batch_refines_list_witness:
  "\<exists>t'. claimBatch 5 (claimNextQueuedByType ''3'' ''upload_file'') demoQueue =
      (Inr (map claimedJob demoQueue), t') \<and> pendingJobs ''upload_file'' t' = []"
  using claim_batch_refines_list [OF demoQueue_reachable, of 5 "''3''" "''upload_file''"]
  unfolding demoQueue_pending by (auto simp: demoQueue_rows)

text \<open>
  Recovery after a crash: on a reachable queue \<open>retryRunning\<close> always succeeds, no job is
  running afterwards, every job that was running is queued again from byte 0, and no other
  job is touched.
\<close>

theorem retry_running_recovers:
  assumes "queue_step\<^sup>*\<^sup>* [] t"
  shows "\<exists>t'. retryRunning now t = (Inr (), t') \<and> (\<forall>r\<in>set t'. q_status r \<noteq> ''running'') \<and>
    t' = map (\<lambda>r. if q_status r = ''running'' then requeue_row now r else r) t \<and>
    (\<forall>r\<in>set t. q_status r = ''running'' \<longrightarrow> requeue_row now r \<in> set (pendingJobs (q_job_type r) t'))"
proof -
  have ok: "queue_ok t"
    using queue_runs.invar_reachable [OF refl assms] by (simp add: queue_inv_def)
  let ?t = "map (\<lambda>r. if q_status r = ''running'' then requeue_row now r else r) t"
  have "retryRunning now t = (Inr (), ?t)"
    by (simp add: retryRunning_total [OF ok] update_where_def with_status_def)
  moreover have "\<forall>r\<in>set ?t. q_status r \<noteq> ''running''"
    by (auto simp: requeue_row_def)
  moreover have "\<forall>r\<in>set t. q_status r = ''running'' \<longrightarrow> requeue_row now r \<in> set (pendingJobs (q_job_type r) ?t)"
    by (auto simp: pendingJobs_def claimable_def requeue_row_def)
  ultimately show ?thesis by blast
qed

definition demoClaimed :: queue_table where
  "demoClaimed = snd (claimNextQueuedByType ''3'' ''upload_file'' demoQueue)"

lemma demoClaimed_reachable: "queue_step\<^sup>*\<^sup>* [] demoClaimed"
  unfolding demoClaimed_def 
  by (rule rtranclp.rtrancl_into_rtrancl, rule demoQueue_reachable, rule queue_step.claim)

theorem retry_running_recovers_witness:
  "\<exists>t'. retryRunning ''4'' demoClaimed = (Inr (), t') \<and> (\<forall>r\<in>set t'. q_status r \<noteq> ''running'')"
  using retry_running_recovers [OF demoClaimed_reachable, of "''4''"] by blast

text \<open>
  \<open>retryFailed\<close> is all or nothing: when a failed job has a twin (same entry and type)
  that is active, or that failed as well, the unique index of active jobs makes the
  statement fail, and not one failed job of the queue is retried.
\<close>

theorem retry_failed_blocked_by_twin:
  assumes "queue_step\<^sup>*\<^sup>* [] t" and "r \<in> set t" and "s \<in> set t" and "s \<noteq> r"
    and "q_status r = ''failed''" and "active_status (q_status s) \<or> q_status s = ''failed''"
    and "q_entry_id s = q_entry_id r" and "q_job_type s = q_job_type r"
  shows "retryFailed now t = (Inl (exec_failed ''transfer_queue''), t)"
proof -
  have inv: "queue_inv t" by (rule queue_runs.invar_reachable [OF refl assms(1)])
  obtain e where "q_entry_id r = Some e"
    using queue_inv_row [OF inv assms(2)] by (auto simp: well_formed_row_def)
  then show ?thesis
    by (intro retryFailed_blocked [of t r e s]) (use inv assms in \<open>simp_all add: queue_inv_def\<close>)
qed

definition demoTwin :: queue_table where
  "demoTwin = enqueueUploadFile ''4'' ''j3'' ''e1'' ''a'' None 5
     (snd (markFailed ''3'' ''j1'' ''net'' (enqueueUploadFile ''1'' ''j1'' ''e1'' ''a'' None 5 [])))"

lemma demoTwin_rows:
  "demoTwin = [(uploadRow (''1'', ''j1'', ''e1'', ''a'', None, 5))
       \<lparr>q_status := ''failed'', q_error_message := Some ''net'', q_updated_at := ''3''\<rparr>,
     uploadRow (''4'', ''j3'', ''e1'', ''a'', None, 5)]"
  by (simp add: demoTwin_def queue_op_defs sql_insert_or_ignore_def queue_ok_def uniq_on_Cons
      queue_pk_def idx_transfer_active_job_def active_status_def stmtE_def sql_update_def)

lemma demoTwin_reachable: "queue_step\<^sup>*\<^sup>* [] demoTwin"
  unfolding demoTwin_def 
  by (rule rtranclp.rtrancl_into_rtrancl, rule rtranclp.rtrancl_into_rtrancl,
      rule rtranclp.rtrancl_into_rtrancl, rule rtranclp.rtrancl_refl)
    (rule queue_step.upload_file queue_step.mark_failed)+

theorem retry_failed_blocked_by_twin_witness:
  "retryFailed ''5'' demoTwin = (Inl (exec_failed ''transfer_queue''), demoTwin)"
  by (rule retry_failed_blocked_by_twin [OF demoTwin_reachable, of "demoTwin ! 0" "demoTwin ! 1"])
    (simp_all add: demoTwin_rows active_status_def)

text \<open>
  Uploads put into a queue with none pending are claimed in the order they were
  enqueued, as long as the clock does not go backwards.
\<close>

theorem uploads_first_in_first_out:
  assumes "queue_step\<^sup>*\<^sup>* [] t" and "pendingJobs ''upload_file'' t = []"
    and "uploadAdmissible a t" and "uploadAdmissible b (enqUpload a t)"
  shows "\<exists>t'. claimBatch 2 (claimNextQueuedByType now ''upload_file'') (enqUpload b (enqUpload a t)) =
      (Inr [claimedJob (uploadRow a), claimedJob (uploadRow b)], t') \<and>
    pendingJobs ''upload_file'' t' = []"
  by (rule uploads.first_in_first_out [OF queue_runs.invar_reachable [OF refl assms(1)] assms(2-4)])

theorem uploads_first_in_first_out_witness:
  "\<exists>t'. claimBatch 2 (claimNextQueuedByType ''3'' ''upload_file'') demoQueue =
      (Inr (map (claimedJob \<circ> uploadRow) [(''1'', ''j1'', ''e1'', ''a'', None, 5), (''2'', ''j2'', ''e2'', ''b'', None, 7)]), t') \<and>
    pendingJobs ''upload_file'' t' = []"
proof -
  let ?a = "(''1'', ''j1'', ''e1'', ''a'', None, 5) :: upload_args"
  let ?b = "(''2'', ''j2'', ''e2'', ''b'', None, 7) :: upload_args"
  have "enqUpload ?a [] = [uploadRow ?a]"
    by (simp add: enqueueUploadFile_cases queue_inv_Nil hasActiveUploadFileForEntry_def
        hasActiveJobForEntry_def)
  then have adm: "uploadAdmissible ?a []" "uploadAdmissible ?b (enqUpload ?a [])"
    by (simp_all add: hasActiveUploadFileForEntry_def hasActiveJobForEntry_def)
  have two: "enqUpload ?b (enqUpload ?a []) = demoQueue"
    by (simp add: demoQueue_def)
  have "pendingJobs ''upload_file'' [] = []" by (simp add: pendingJobs_def)
  from uploads_first_in_first_out [OF rtranclp.rtrancl_refl this adm, of "''3''"]
  show ?thesis unfolding two by simp
qed

text \<open>
  Below two thousand million rows the four counters of \<open>stats\<close> add up to the number of
  jobs in a reachable queue: no job is in a status the counters miss.
\<close>

lemma stats_count_every_job:
  assumes "queue_step\<^sup>*\<^sup>* [] t" and "length t < 2 ^ 31"
  shows "st_queued (stats t) + st_running (stats t) + st_failed (stats t) + st_done (stats t) =
    int (length t)"
proof -
  have inv: "queue_inv t" by (rule queue_runs.invar_reachable [OF refl assms(1)])
  have small: "column_int (int (length (filter p t))) = int (length (filter p t))" for p
    using assms(2) le_less_trans [OF length_filter_le] by (intro column_int_small) force+
  have "q_status r \<in> {''queued'', ''running'', ''failed'', ''done''}" if "r \<in> set t" for r
    using queue_inv_row [OF inv that] by (auto simp: well_formed_row_def)
  from length_filter_partition4 [OF this] show ?thesis
    by (simp add: stats_def small flip: of_nat_add)
qed

end
