(* ===== verification/Fs_Path.thy ===== *)
theory Fs_Path
  imports Prelude
begin

text \<open>
  The operations of \<open>std::filesystem::path\<close> the program uses, on the path strings of a POSIX
  system (paths that start with two slashes are left aside), and \<open>normalizeFsPath\<close> of
  fs/helpers/PathHelpers.cpp. A path is taken apart into a root flag, its non-empty names and
  whether a separator follows the last name.
\<close>

section \<open>Taking paths apart\<close>

abbreviation slash :: char where "slash \<equiv> CHR ''/''"

fun split_slash :: "string \<Rightarrow> string list" where
  "split_slash [] = [[]]"
| "split_slash (c # cs) =
     (if c = slash then [] # split_slash cs
      else case split_slash cs of [] \<Rightarrow> [[c]] | w # ws \<Rightarrow> (c # w) # ws)"

definition is_absolute :: "string \<Rightarrow> bool" where
  "is_absolute p \<longleftrightarrow> (case p of [] \<Rightarrow> False | c # _ \<Rightarrow> c = slash)"

definition names :: "string \<Rightarrow> string list" where
  "names p = filter (\<lambda>w. w \<noteq> []) (split_slash p)"

definition trailing_slash :: "string \<Rightarrow> bool" where
  "trailing_slash p \<longleftrightarrow> names p \<noteq> [] \<and> last p = slash"

fun join_slash :: "string list \<Rightarrow> string" where
  "join_slash [] = []"
| "join_slash [n] = n"
| "join_slash (n # m # ns) = n @ slash # join_slash (m # ns)"

definition build :: "bool \<Rightarrow> string list \<Rightarrow> bool \<Rightarrow> string" where
  "build root ns trail =
     (if root then [slash] else []) @ join_slash ns @ (if trail \<and> ns \<noteq> [] then [slash] else [])"

text \<open>The elements an iteration over the path visits.\<close>

definition path_elements :: "string \<Rightarrow> string list" where
  "path_elements p = (if is_absolute p then [[slash]] else []) @ names p @ (if trailing_slash p then [[]] else [])"

section \<open>Operations\<close>

text \<open>\<open>a / b\<close>.\<close>

definition path_append :: "string \<Rightarrow> string \<Rightarrow> string" where
  "path_append a b =
     (if is_absolute b then b
      else if a \<noteq> [] \<and> last a \<noteq> slash then a @ slash # b
      else a @ b)"

text \<open>\<open>filename()\<close>: what follows the last separator.\<close>

definition filename :: "string \<Rightarrow> string" where
  "filename p = last (split_slash p)"

text \<open>\<open>parent_path()\<close>: without the last element; a path that has only a root is its own parent.\<close>

definition parent_path :: "string \<Rightarrow> string" where
  "parent_path p =
     (if names p = [] then p
      else build (is_absolute p) (if trailing_slash p then names p else butlast (names p)) False)"

text \<open>\<open>stem()\<close> and \<open>extension()\<close>: cut at the last dot, unless it comes first.\<close>

definition extension :: "string \<Rightarrow> string" where
  "extension p =
     (let f = filename p; ext = rev (takeWhile (\<lambda>c. c \<noteq> CHR ''.'') (rev f)) in
      if f = ''.'' \<or> f = ''..'' \<or> CHR ''.'' \<notin> set f \<or> length ext + 1 = length f then []
      else CHR ''.'' # ext)"

definition stem :: "string \<Rightarrow> string" where
  "stem p = take (length (filename p) - length (extension p)) (filename p)"

text \<open>
  \<open>lexically_normal()\<close>: dots go away, a name and the dot-dot after it cancel, dot-dots after
  the root go away. A separator stays at the end where the path ended in a separator, a dot or
  a cancelled pair, but not after a dot-dot. The stack holds the names kept so far, the last
  on top.
\<close>

fun normal_stack :: "bool \<Rightarrow> string list \<Rightarrow> string list \<Rightarrow> string list" where
  "normal_stack root st [] = st"
| "normal_stack root st (n # ns) =
     (if n = ''.'' then normal_stack root st ns
      else if n = ''..'' then
        (case st of
           [] \<Rightarrow> normal_stack root (if root then [] else [n]) ns
         | x # xs \<Rightarrow> if x = ''..'' then normal_stack root (n # st) ns else normal_stack root xs ns)
      else normal_stack root (n # st) ns)"

definition lexically_normal :: "string \<Rightarrow> string" where
  "lexically_normal p =
     (if p = [] then []
      else
        let st = normal_stack (is_absolute p) [] (names p);
            trail = (trailing_slash p \<or> names p \<noteq> [] \<and> last (names p) \<in> {''.'', ''..''}) \<and>
                    (st = [] \<or> hd st \<noteq> ''..'');
            s = build (is_absolute p) (rev st) trail
        in if s = [] then ''.'' else s)"

text \<open>\<open>std::filesystem::absolute\<close>, relative to the current directory.\<close>

definition absolute :: "string \<Rightarrow> string \<Rightarrow> string" where
  "absolute cwd p = (if is_absolute p then p else path_append cwd p)"

definition normalizeFsPath :: "string \<Rightarrow> string \<Rightarrow> string result" where
  "normalizeFsPath cwd path =
     (if path = [] then Inl (Invalid_argument ''Path cannot be empty'')
      else Inr (lexically_normal (absolute cwd path)))"

text \<open>\<open>lexically_relative(base)\<close>.\<close>

fun drop_common :: "string list \<Rightarrow> string list \<Rightarrow> string list \<times> string list" where
  "drop_common (x # xs) (y # ys) = (if x = y then drop_common xs ys else (x # xs, y # ys))"
| "drop_common xs ys = (xs, ys)"

definition climb :: "string list \<Rightarrow> int" where
  "climb ys = int (length (filter (\<lambda>y. y \<notin> {[], ''.'', ''..''}) ys)) - int (length (filter (\<lambda>y. y = ''..'') ys))"

definition lexically_relative :: "string \<Rightarrow> string \<Rightarrow> string" where
  "lexically_relative p base =
     (if is_absolute p \<noteq> is_absolute base then []
      else
        let (a, b) = drop_common (path_elements p) (path_elements base) in
        if a = [] \<and> b = [] then ''.''
        else
          let n = climb b in
          if n < 0 then []
          else if n = 0 \<and> (a = [] \<or> hd a = []) then ''.''
          else fold (\<lambda>e acc. path_append acc e) (replicate (nat n) ''..'' @ a) [])"

section \<open>Names and strings\<close>

definition plain_name :: "string \<Rightarrow> bool" where
  "plain_name n \<longleftrightarrow> n \<noteq> [] \<and> slash \<notin> set n"

definition normal_name :: "string \<Rightarrow> bool" where
  "normal_name n \<longleftrightarrow> plain_name n \<and> n \<noteq> ''.'' \<and> n \<noteq> ''..''"

lemma split_slash_not_Nil [simp]: "split_slash p \<noteq> []"
  by (induction p) (auto split: list.splits)

lemma split_slash_names: "w \<in> set (split_slash p) \<Longrightarrow> slash \<notin> set w"
  by (induction p arbitrary: w) (auto split: if_splits list.splits)

lemma split_slash_append:
  "slash \<notin> set n \<Longrightarrow> split_slash (n @ slash # p) = n # split_slash p"
  by (induction n) auto

lemma split_slash_plain: "slash \<notin> set n \<Longrightarrow> split_slash n = [n]"
  by (induction n) auto

lemma names_plain: "\<forall>n\<in>set (names p). plain_name n"
  using split_slash_names by (auto simp: names_def plain_name_def)

lemma split_slash_join:
  assumes "\<forall>n\<in>set ns. plain_name n" and "ns \<noteq> []"
  shows "split_slash (join_slash ns) = ns" and "split_slash (join_slash ns @ [slash]) = ns @ [[]]"
  using assms
  by (induction ns rule: join_slash.induct) (auto simp: split_slash_append split_slash_plain plain_name_def)

lemma plain_name_ends: "plain_name n \<Longrightarrow> n \<noteq> [] \<and> hd n \<noteq> slash \<and> last n \<noteq> slash"
  by (metis hd_in_set last_in_set plain_name_def)

lemma join_slash_ends:
  "\<forall>n\<in>set ns. plain_name n \<Longrightarrow> ns \<noteq> [] \<Longrightarrow>
   join_slash ns \<noteq> [] \<and> hd (join_slash ns) \<noteq> slash \<and> last (join_slash ns) \<noteq> slash"
  by (induction ns rule: join_slash.induct) (simp_all add: plain_name_ends)

lemma names_Cons_slash: "names (slash # p) = names p"
  by (simp add: names_def)

text \<open>Building a path and taking it apart again.\<close>

lemma build_parts:
  assumes "\<forall>n\<in>set ns. plain_name n"
  shows "names (build root ns trail) = ns"
    and "root \<or> ns \<noteq> [] \<Longrightarrow> is_absolute (build root ns trail) = root"
    and "trailing_slash (build root ns trail) \<longleftrightarrow> trail \<and> ns \<noteq> []"
proof -
  have body: "names (join_slash ns @ (if trail \<and> ns \<noteq> [] then [slash] else [])) = ns"
  proof (cases "ns = []")
    case False
    then show ?thesis
      using split_slash_join [OF assms False] assms by (auto simp: names_def plain_name_def filter_id_conv)
  qed (simp add: names_def)
  then show ns: "names (build root ns trail) = ns" by (auto simp: build_def names_Cons_slash)
  show "is_absolute (build root ns trail) = root" if "root \<or> ns \<noteq> []"
    using that join_slash_ends [OF assms]
    by (cases "join_slash ns") (auto simp: is_absolute_def build_def)
  show "trailing_slash (build root ns trail) \<longleftrightarrow> trail \<and> ns \<noteq> []"
    unfolding trailing_slash_def ns using join_slash_ends [OF assms] by (auto simp: build_def)
qed

section \<open>Appending\<close>

lemma is_absolute_plain: "plain_name n \<Longrightarrow> \<not> is_absolute n"
  by (cases n) (auto simp: plain_name_def is_absolute_def)

lemma join_slash_snoc: "join_slash (ns @ [n]) = (if ns = [] then n else join_slash ns @ slash # n)"
  by (induction ns rule: join_slash.induct) auto

lemma append_name:
  assumes "\<forall>m\<in>set ns. plain_name m" and "plain_name n"
  shows "path_append (build root ns trail) n = build root (ns @ [n]) False"
  using assms join_slash_ends [OF assms(1)] is_absolute_plain [OF assms(2)]
  by (auto simp: path_append_def build_def join_slash_snoc)

lemma fold_append_names:
  "\<forall>n\<in>set ns. plain_name n \<Longrightarrow> fold (\<lambda>e acc. path_append acc e) ns [] = build False ns False"
proof (induction ns rule: rev_induct)
  case (snoc n ns)
  then show ?case using append_name [of ns n False False] by simp
qed (simp add: build_def)

lemma append_nothing:
  "\<forall>n\<in>set ns. plain_name n \<Longrightarrow> ns \<noteq> [] \<Longrightarrow>
   path_append (build False ns False) [] = build False ns True"
  using join_slash_ends [of ns] by (simp add: path_append_def build_def is_absolute_def)

lemma fold_append_elements:
  assumes "\<forall>n\<in>set ns. plain_name n" and "ns \<noteq> []"
  shows "fold (\<lambda>e acc. path_append acc e) (ns @ (if trail then [[]] else [])) [] = build False ns trail"
  using fold_append_names [OF assms(1)] append_nothing [OF assms] by simp

section \<open>Normal forms\<close>

lemma normal_stack_normal: "\<forall>n\<in>set ns. normal_name n \<Longrightarrow> normal_stack root st ns = rev ns @ st"
  by (induction ns arbitrary: st) (auto simp: normal_name_def)

lemma normal_stack_absolute:
  "\<lbrakk>\<forall>n\<in>set ns. plain_name n; \<forall>n\<in>set st. normal_name n\<rbrakk> \<Longrightarrow> \<forall>n\<in>set (normal_stack True st ns). normal_name n"
proof (induction ns arbitrary: st)
  case (Cons n ns)
  have IH: "\<forall>m\<in>set (normal_stack True st' ns). normal_name m" if "\<forall>m\<in>set st'. normal_name m" for st'
    using Cons.IH [OF _ that] Cons.prems(1) by simp
  consider (dot) "n = ''.''" | (up) "n = ''..''" | (other) "n \<noteq> ''.''" "n \<noteq> ''..''" by blast
  then show ?case
  proof cases
    case up
    have "hd st \<noteq> ''..''" if "st \<noteq> []" using that Cons.prems(2) hd_in_set by (auto simp: normal_name_def)
    with up show ?thesis using IH [of "[]"] IH [of "tl st"] Cons.prems(2) by (cases st) simp_all
  next
    case other
    then have "\<forall>m\<in>set (n # st). normal_name m" using Cons.prems by (simp add: normal_name_def)
    from IH [OF this] other show ?thesis by simp
  qed (use IH [OF Cons.prems(2)] in simp)
qed simp

lemma build_not_Nil: "build True ns trail \<noteq> []"
  by (simp add: build_def)

text \<open>An absolute path is normalised to normal names under the root.\<close>

lemma lexically_normal_absolute:
  assumes "is_absolute p"
  obtains ns trail where "lexically_normal p = build True ns trail" and "\<forall>n\<in>set ns. normal_name n"
    and "ns = rev (normal_stack True [] (names p))"
proof -
  have "\<forall>n\<in>set (rev (normal_stack True [] (names p))). normal_name n"
    using normal_stack_absolute [of "names p" "[]"] names_plain by simp
  moreover have "p \<noteq> []" using assms by (auto simp: is_absolute_def)
  ultimately show ?thesis using that assms by (auto simp: lexically_normal_def Let_def build_not_Nil)
qed

text \<open>
  In general what is left are dot-dots, only for relative paths, and normal names after them.
  Taking the normal form twice changes nothing.
\<close>

definition normal_form :: "bool \<Rightarrow> string list \<Rightarrow> bool" where
  "normal_form root ns \<longleftrightarrow> (\<exists>k ms. ns = replicate k ''..'' @ ms \<and> (\<forall>m\<in>set ms. normal_name m) \<and> (root \<longrightarrow> k = 0))"

lemma normal_form_snoc:
  assumes "normal_form root ns" and "normal_name n"
  shows "normal_form root (ns @ [n])"
proof -
  obtain k ms where "ns @ [n] = replicate k ''..'' @ (ms @ [n])" "\<forall>m\<in>set (ms @ [n]). normal_name m" "root \<longrightarrow> k = 0"
    using assms by (auto simp: normal_form_def)
  then show ?thesis unfolding normal_form_def by blast
qed

lemma normal_form_butlast:
  assumes "normal_form root (ns @ [n])" and "n \<noteq> ''..''"
  shows "normal_form root ns"
proof -
  obtain k ms where ms: "ns @ [n] = replicate k ''..'' @ ms" "\<forall>m\<in>set ms. normal_name m" "root \<longrightarrow> k = 0"
    using assms(1) by (auto simp: normal_form_def)
  then have "ms \<noteq> []" using assms(2) by (cases k) (auto simp flip: replicate_append_same)
  then have "ns = replicate k ''..'' @ butlast ms" using ms(1) by (metis butlast_append butlast_snoc)
  with ms show ?thesis unfolding normal_form_def by (metis in_set_butlastD)
qed

lemma normal_form_dots:
  assumes "normal_form False ns" and "ns = [] \<or> last ns = ''..''"
  shows "normal_form False (ns @ [''..''])"
proof -
  obtain k ms where ms: "ns = replicate k ''..'' @ ms" "\<forall>m\<in>set ms. normal_name m"
    using assms(1) by (auto simp: normal_form_def)
  then have "ms = []" using assms(2) last_in_set [of ms] by (cases "ms = []") (auto simp: normal_name_def)
  with ms have "ns @ [''..''] = replicate (Suc k) ''..'' @ []" by (simp flip: replicate_append_same)
  then show ?thesis unfolding normal_form_def by (metis empty_iff list.set(1))
qed

lemma normal_stack_form:
  "\<lbrakk>\<forall>n\<in>set ns. plain_name n; normal_form root (rev st)\<rbrakk> \<Longrightarrow> normal_form root (rev (normal_stack root st ns))"
proof (induction ns arbitrary: st)
  case (Cons n ns)
  have IH: "normal_form root (rev (normal_stack root st' ns))" if "normal_form root (rev st')" for st'
    using Cons.IH [OF _ that] Cons.prems(1) by simp
  have nil: "normal_form root []" by (simp add: normal_form_def)
  consider (dot) "n = ''.''" | (up) "n = ''..''" | (other) "n \<noteq> ''.''" "n \<noteq> ''..''" by blast
  then show ?case
  proof cases
    case up
    show ?thesis
    proof (cases st)
      case Nil
      then show ?thesis
        using up IH [of "[]"] IH [of "[n]"] nil normal_form_dots [of "[]"] by (cases root) auto
    next
      case (Cons x xs)
      have "root \<Longrightarrow> x \<noteq> ''..''"
        using \<open>normal_form root (rev st)\<close> Cons by (auto simp: normal_form_def normal_name_def)
      then show ?thesis
        using up Cons IH [of "n # st"] IH [of xs] \<open>normal_form root (rev st)\<close>
          normal_form_butlast [of root "rev xs" x] normal_form_dots [of "rev st"] by (cases root) auto
    qed
  next
    case other
    then have "normal_form root (rev (n # st))"
      using Cons.prems normal_form_snoc [of root "rev st" n] by (simp add: normal_name_def)
    from IH [OF this] other show ?thesis by simp
  qed (use IH [OF Cons.prems(2)] in simp)
qed simp

lemma normal_stack_dots: "normal_stack False (replicate j ''..'') (replicate k ''..'') = replicate (j + k) ''..''"
proof (induction k arbitrary: j)
  case (Suc k)
  from Suc.IH [of "Suc j"] show ?case by (cases j) simp_all
qed simp

lemma normal_stack_append: "normal_stack root st (ms @ ns) = normal_stack root (normal_stack root st ms) ns"
  by (induction ms arbitrary: st) (auto split: list.split)

lemma normal_stack_fixed:
  assumes "normal_form root ns"
  shows "normal_stack root [] ns = rev ns"
proof -
  obtain k ms where "ns = replicate k ''..'' @ ms" "\<forall>m\<in>set ms. normal_name m" "root \<longrightarrow> k = 0"
    using assms by (auto simp: normal_form_def)
  then show ?thesis
    using normal_stack_dots [of 0 k] normal_stack_normal [of ms]
    by (cases root) (simp_all add: normal_stack_append)
qed

lemma lexically_normal_fixed:
  assumes form: "normal_form root ns" and ne: "root \<or> ns \<noteq> []" and trail: "trail \<Longrightarrow> ns \<noteq> [] \<Longrightarrow> last ns \<noteq> ''..''"
  shows "lexically_normal (build root ns trail) = build root ns trail"
proof -
  have names: "n = ''..'' \<or> normal_name n" if "n \<in> set ns" for n
    using form that unfolding normal_form_def by (metis Un_iff in_set_replicate set_append)
  have plain: "\<forall>n\<in>set ns. plain_name n" and dot: "''.'' \<notin> set ns"
    using names by (fastforce simp: normal_name_def plain_name_def)+
  note parts = build_parts [OF plain, of root trail]
  let ?b = "build root ns trail"
  let ?t = "(trailing_slash ?b \<or> ns \<noteq> [] \<and> last ns \<in> {''.'', ''..''}) \<and> (rev ns = [] \<or> hd (rev ns) \<noteq> ''..'')"
  have "ns \<noteq> [] \<Longrightarrow> last ns \<noteq> ''.''" using dot last_in_set by metis
  then have "?t \<longleftrightarrow> trail \<and> ns \<noteq> []" using trail parts(3) by (auto simp: hd_rev)
  then have same: "build root ns ?t = ?b" by (simp add: build_def)
  have ne': "?b \<noteq> []" using ne join_slash_ends [OF plain] by (auto simp: build_def)
  then have "lexically_normal ?b = (let s = build root (rev (rev ns)) ?t in if s = [] then ''.'' else s)"
    unfolding lexically_normal_def parts(1) parts(2) [OF ne] normal_stack_fixed [OF form] by (simp only: Let_def if_False)
  then show ?thesis unfolding rev_rev_ident same using ne' by simp
qed

lemma lexically_normal_build:
  assumes "\<forall>n\<in>set ns. normal_name n"
  shows "lexically_normal (build True ns trail) = build True ns trail"
    and "ns \<noteq> [] \<Longrightarrow> lexically_normal (build False ns trail) = build False ns trail"
proof -
  have "normal_form root ns" for root using assms unfolding normal_form_def by (metis append_Nil replicate_0)
  moreover have "ns \<noteq> [] \<Longrightarrow> last ns \<noteq> ''..''" using assms last_in_set [of ns] by (auto simp: normal_name_def)
  ultimately show "lexically_normal (build True ns trail) = build True ns trail"
    and "ns \<noteq> [] \<Longrightarrow> lexically_normal (build False ns trail) = build False ns trail"
    by (simp_all add: lexically_normal_fixed)
qed

lemma lexically_normal_idem: "lexically_normal (lexically_normal p) = lexically_normal p"
proof (cases "p = []")
  case False
  let ?st = "normal_stack (is_absolute p) [] (names p)"
  define trail where "trail = ((trailing_slash p \<or> names p \<noteq> [] \<and> last (names p) \<in> {''.'', ''..''}) \<and> (?st = [] \<or> hd ?st \<noteq> ''..''))"
  have form: "normal_form (is_absolute p) (rev ?st)"
    by (rule normal_stack_form) (use names_plain [of p] in \<open>auto simp: normal_form_def\<close>)
  have p: "lexically_normal p = (let s = build (is_absolute p) (rev ?st) trail in if s = [] then ''.'' else s)"
    using False by (simp add: lexically_normal_def trail_def Let_def)
  have dot: "lexically_normal ''.'' = ''.''"
    by (simp add: lexically_normal_def names_def is_absolute_def trailing_slash_def build_def)
  show ?thesis
  proof (cases "is_absolute p \<or> ?st \<noteq> []")
    case True
    then have "lexically_normal (build (is_absolute p) (rev ?st) trail) = build (is_absolute p) (rev ?st) trail"
      by (intro lexically_normal_fixed [OF form]) (auto simp: trail_def last_rev)
    then show ?thesis using dot by (simp add: p Let_def)
  next
    case no: False
    then have "build (is_absolute p) (rev ?st) trail = []" by (auto simp: build_def)
    then show ?thesis using dot by (simp add: p)
  qed
qed (simp add: lexically_normal_def)

section \<open>Relative paths\<close>

lemma drop_common_append: "drop_common (cs @ xs) (cs @ ys) = drop_common xs ys"
  by (induction cs) auto

lemma path_elements_build:
  assumes "\<forall>n\<in>set ns. plain_name n"
  shows "path_elements (build True ns trail) = [slash] # ns @ (if trail \<and> ns \<noteq> [] then [[]] else [])"
  using build_parts [OF assms, of True trail] by (simp add: path_elements_def)

text \<open>A path under the base is described by the names below the base.\<close>

lemma relative_below:
  assumes rs: "\<forall>n\<in>set rs. normal_name n" and ns: "\<forall>n\<in>set ns. normal_name n" and "ns \<noteq> []"
  shows "lexically_relative (build True (rs @ ns) trail) (build True rs trail') = build False ns trail"
proof -
  have plain: "\<forall>n\<in>set rs. plain_name n" "\<forall>n\<in>set ns. plain_name n" "\<forall>n\<in>set (rs @ ns). plain_name n"
    using rs ns by (auto simp: normal_name_def)
  have abs: "is_absolute (build True (rs @ ns) trail)" "is_absolute (build True rs trail')"
    using build_parts(2) plain by auto
  let ?e = "if trail' \<and> rs \<noteq> [] then [[]] else []"
  have "drop_common (path_elements (build True (rs @ ns) trail)) (path_elements (build True rs trail')) =
      drop_common (ns @ (if trail then [[]] else [])) ?e"
    using path_elements_build [OF plain(3)] path_elements_build [OF plain(1)] \<open>ns \<noteq> []\<close> by (simp add: drop_common_append)
  also have "\<dots> = (ns @ (if trail then [[]] else []), ?e)"
    using \<open>ns \<noteq> []\<close> plain(2) by (cases ns) (auto simp: plain_name_def)
  finally show ?thesis
    using fold_append_elements [OF plain(2) \<open>ns \<noteq> []\<close>, of trail] \<open>ns \<noteq> []\<close> plain(2) abs
    by (auto simp: lexically_relative_def climb_def plain_name_def)
qed

text \<open>The base itself, and a path that leaves the base.\<close>

lemma relative_same:
  assumes "\<forall>n\<in>set rs. normal_name n"
  shows "lexically_relative (build True rs trail) (build True rs trail') = ''.''"
proof -
  have plain: "\<forall>n\<in>set rs. plain_name n" using assms by (auto simp: normal_name_def)
  have "drop_common (path_elements (build True rs trail)) (path_elements (build True rs trail')) \<in>
      {([], []), ([[]], []), ([], [[]])}"
    using drop_common_append [of rs "[]" "[]"] drop_common_append [of rs "[]" "[[]]"]
      drop_common_append [of rs "[[]]" "[]"] drop_common_append [of rs "[[]]" "[[]]"]
    by (auto simp: path_elements_build [OF plain])
  then show ?thesis
    using build_parts(2) [OF plain, of True] by (auto simp: lexically_relative_def climb_def)
qed

lemma climb_names: "\<forall>n\<in>set ns. normal_name n \<Longrightarrow> climb (ns @ (if t then [[]] else [])) = int (length ns)"
proof -
  assume "\<forall>n\<in>set ns. normal_name n"
  then have "filter (\<lambda>y. y \<notin> {[], ''.'', ''..''}) ns = ns" "filter (\<lambda>y. y = ''..'') ns = []"
    by (auto simp: filter_id_conv filter_empty_conv normal_name_def plain_name_def)
  then show ?thesis by (simp add: climb_def)
qed

lemma relative_outside:
  assumes normal: "\<forall>n\<in>set (cs @ xs). normal_name n" "\<forall>n\<in>set (cs @ y # ys). normal_name n"
    and differ: "xs = [] \<or> hd xs \<noteq> y"
  shows "lexically_relative (build True (cs @ xs) trail) (build True (cs @ y # ys) trail') =
    build False (replicate (Suc (length ys)) ''..'' @ xs) (trail \<and> cs @ xs \<noteq> [])"
proof -
  have plain: "\<forall>n\<in>set (cs @ xs). plain_name n" "\<forall>n\<in>set (cs @ y # ys). plain_name n"
    using normal by (auto simp: normal_name_def)
  let ?t = "if trail \<and> cs @ xs \<noteq> [] then [[]] else []" and ?t' = "if trail' then [[]] else [] :: string list"
  let ?ups = "replicate (Suc (length ys)) ''..''"
  have elems: "path_elements (build True (cs @ xs) trail) = ([slash] # cs) @ xs @ ?t"
    "path_elements (build True (cs @ y # ys) trail') = ([slash] # cs) @ (y # ys) @ ?t'"
    using path_elements_build [OF plain(1), of trail] path_elements_build [OF plain(2), of trail'] by auto
  have drop: "drop_common (xs @ ?t) ((y # ys) @ ?t') = (xs @ ?t, (y # ys) @ ?t')"
    using differ plain by (cases xs) (auto simp: plain_name_def)
  have ups: "\<forall>n\<in>set (?ups @ xs). plain_name n" using plain(1) by (auto simp: plain_name_def)
  have up: "climb ((y # ys) @ ?t') = int (Suc (length ys))" using climb_names [of "y # ys" trail'] normal(2) by simp
  have "lexically_relative (build True (cs @ xs) trail) (build True (cs @ y # ys) trail') =
      fold (\<lambda>e acc. path_append acc e) ((?ups @ xs) @ ?t) []"
    unfolding lexically_relative_def elems drop_common_append drop prod.case up Let_def nat_int
    using build_parts(2) [OF plain(1), of True trail] build_parts(2) [OF plain(2), of True trail'] by simp
  then show ?thesis
    using fold_append_elements [OF ups, of "trail \<and> cs @ xs \<noteq> []"] by simp
qed

lemma list_prefix_cases:
  obtains (same) "xs = ys" | (below) zs where "xs = ys @ zs" "zs \<noteq> []"
  | (apart) cs us v vs where "xs = cs @ us" "ys = cs @ v # vs" "us = [] \<or> hd us \<noteq> v"
proof -
  have "xs = ys \<or> (\<exists>zs. xs = ys @ zs \<and> zs \<noteq> []) \<or>
      (\<exists>cs us v vs. xs = cs @ us \<and> ys = cs @ v # vs \<and> (us = [] \<or> hd us \<noteq> v))"
  proof (induction xs ys rule: list_induct2')
    case (4 x xs y ys)
    show ?case
    proof (cases "x = y")
      case True
      with 4 show ?thesis by (metis append_Cons)
    next
      case False
      then have "x # xs = [] @ x # xs \<and> y # ys = [] @ y # ys \<and> (x # xs = [] \<or> hd (x # xs) \<noteq> y)" by simp
      then show ?thesis by metis
    qed
  next
    case (3 y ys)
    have "[] = [] @ [] \<and> y # ys = [] @ y # ys \<and> ([] = [] \<or> hd [] \<noteq> y)" by simp
    then show ?case by metis
  qed simp_all
  then show thesis using that by blast
qed

end
