(* ===== verification/Sync_Policy.thy ===== *)
theory Sync_Policy
  imports Prelude
begin

text \<open>
  What is decided for an entry: the struct \<open>Entry\<close> (repo/EntryRepo.hpp), the modes of a sync
  root (sync/SyncMode.cpp), the classifier (sync/SyncStateClassifier.hpp) and the decision
  tables (sync/SyncPolicy.cpp). A \<open>file_time_type\<close> is its signed count of clock ticks.
\<close>

section \<open>Entries\<close>

datatype EntrySyncState = Unchanged | PendingUpload | Deleted

record Entry =
  e_id :: string
  e_remoteId :: "string option"
  e_remoteFileId :: "string option"
  e_localDeletedAt :: "string option"
  e_remoteDeletedAt :: "string option"
  e_syncRootId :: string
  e_relativePath :: string
  e_isDirectory :: bool
  e_deleted :: bool
  e_parentFolderId :: "string option"
  e_size :: "int option"
  e_mtime :: "int option"
  e_contentHash :: "string option"
  e_syncedContentHash :: "string option"
  e_remoteUpdatedAt :: "string option"
  e_syncedRemoteUpdatedAt :: "string option"
  e_conflictState :: "string option"
  e_syncState :: EntrySyncState
  e_lastSeenScanJobId :: "string option"

record SyncEntryState =
  localExists :: bool
  remoteExists :: bool
  localDeleted :: bool
  remoteDeleted :: bool
  localDirty :: bool
  remoteDirty :: bool
  isDirectory :: bool
  hasConflict :: bool

definition classify :: "Entry \<Rightarrow> SyncEntryState" where
  "classify entry =
     (let ld = (e_localDeletedAt entry \<noteq> None); rd = (e_remoteDeletedAt entry \<noteq> None) in
      \<lparr>localExists = \<not> ld,
       remoteExists = (e_remoteId entry \<noteq> None \<and> \<not> rd),
       localDeleted = ld,
       remoteDeleted = rd,
       localDirty = (\<not> ld \<and> e_contentHash entry \<noteq> e_syncedContentHash entry),
       remoteDirty = (\<not> rd \<and> e_remoteUpdatedAt entry \<noteq> e_syncedRemoteUpdatedAt entry),
       isDirectory = e_isDirectory entry,
       hasConflict = (case e_conflictState entry of None \<Rightarrow> False | Some c \<Rightarrow> c \<noteq> ''none'')\<rparr>)"

section \<open>Modes\<close>

datatype SyncMode = UploadOnly | RemoteMirror | TwoWay

definition parseSyncModeDb :: "string \<Rightarrow> SyncMode option" where
  "parseSyncModeDb v =
     (if v = ''upload_only'' then Some UploadOnly
      else if v = ''remote_mirror'' then Some RemoteMirror
      else if v = ''two_way'' then Some TwoWay else None)"

fun toSyncModeDb :: "SyncMode \<Rightarrow> string" where
  "toSyncModeDb UploadOnly = ''upload_only''"
| "toSyncModeDb RemoteMirror = ''remote_mirror''"
| "toSyncModeDb TwoWay = ''two_way''"

text \<open>A reader of the column: a missing or unknown mode is an error of the caller's choice.\<close>

definition readMode :: "string \<Rightarrow> unit + SyncMode" where
  "readMode v = (case parseSyncModeDb v of None \<Rightarrow> Inl () | Some m \<Rightarrow> Inr m)"

interpretation modes: codec toSyncModeDb readMode
  by unfold_locales (case_tac x; simp add: readMode_def parseSyncModeDb_def)

section \<open>Decisions\<close>

datatype SyncDecision = Noop | Upload | Download | DeleteLocal | DeleteRemote | Conflict

definition decideUploadOnly :: "SyncEntryState \<Rightarrow> SyncDecision" where
  "decideUploadOnly s =
     (if hasConflict s then Conflict
      else if localDeleted s \<and> remoteDirty s then Conflict
      else if localDeleted s \<and> remoteExists s then DeleteRemote
      else if localExists s \<and> \<not> remoteExists s then Upload
      else if localExists s \<and> localDirty s then Upload
      else Noop)"

definition decideRemoteMirror :: "SyncEntryState \<Rightarrow> SyncDecision" where
  "decideRemoteMirror s =
     (if hasConflict s then Conflict
      else if remoteDeleted s \<and> localDirty s then Conflict
      else if remoteDeleted s \<and> localExists s then DeleteLocal
      else if remoteExists s \<and> \<not> localExists s then Download
      else if remoteExists s \<and> remoteDirty s then Download
      else Noop)"

definition decideTwoWay :: "SyncEntryState \<Rightarrow> SyncDecision" where
  "decideTwoWay s =
     (if hasConflict s then Conflict
      else if localDeleted s \<and> remoteDirty s \<or> remoteDeleted s \<and> localDirty s \<or>
              localDirty s \<and> remoteDirty s then Conflict
      else if localDeleted s \<and> remoteExists s then DeleteRemote
      else if remoteDeleted s \<and> localExists s then DeleteLocal
      else if localExists s \<and> \<not> remoteExists s then Upload
      else if remoteExists s \<and> \<not> localExists s then Download
      else if localExists s \<and> localDirty s then Upload
      else if remoteExists s \<and> remoteDirty s then Download
      else Noop)"

fun decide :: "SyncEntryState \<Rightarrow> SyncMode \<Rightarrow> SyncDecision" where
  "decide s UploadOnly = decideUploadOnly s"
| "decide s RemoteMirror = decideRemoteMirror s"
| "decide s TwoWay = decideTwoWay s"

fun toSyncDecisionName :: "SyncDecision \<Rightarrow> string" where
  "toSyncDecisionName Noop = ''noop''"
| "toSyncDecisionName Upload = ''upload''"
| "toSyncDecisionName Download = ''download''"
| "toSyncDecisionName DeleteLocal = ''delete_local''"
| "toSyncDecisionName DeleteRemote = ''delete_remote''"
| "toSyncDecisionName Conflict = ''conflict''"

lemmas decide_defs = decideUploadOnly_def decideRemoteMirror_def decideTwoWay_def

text \<open>What the classifier never produces: an entry that both exists and is deleted.\<close>

definition coherent :: "SyncEntryState \<Rightarrow> bool" where
  "coherent s \<longleftrightarrow> localExists s = (\<not> localDeleted s) \<and> \<not> (remoteExists s \<and> remoteDeleted s) \<and>
     (localDirty s \<longrightarrow> localExists s) \<and> (remoteDirty s \<longrightarrow> \<not> remoteDeleted s)"

lemma coherent_classify: "coherent (classify e)"
  by (auto simp: coherent_def classify_def Let_def)

lemma two_way_conflict:
  "decide s TwoWay = Conflict \<longleftrightarrow> hasConflict s \<or> localDeleted s \<and> remoteDirty s \<or>
     remoteDeleted s \<and> localDirty s \<or> localDirty s \<and> remoteDirty s"
  by (simp add: decideTwoWay_def)

lemma two_way_noop:
  assumes "coherent s"
  shows "decide s TwoWay = Noop \<longleftrightarrow> \<not> hasConflict s \<and>
    (localExists s \<and> remoteExists s \<and> \<not> localDirty s \<and> \<not> remoteDirty s \<or>
     localDeleted s \<and> \<not> remoteExists s \<and> \<not> remoteDirty s)"
  using assms
  by (cases "hasConflict s"; cases "localDeleted s"; cases "remoteExists s"; cases "remoteDirty s";
      cases "localDirty s"; simp add: coherent_def decideTwoWay_def)

section \<open>Properties\<close>

text \<open>
  One-way modes stay one-way: an upload-only root never has its local files written or
  deleted, a remote mirror never has its remote files written or deleted.
\<close>

theorem one_way_modes_are_one_way:
  "decide s UploadOnly \<notin> {Download, DeleteLocal} \<and> decide s RemoteMirror \<notin> {Upload, DeleteRemote}"
  by (simp add: decide_defs)


definition demoState :: SyncEntryState where
  "demoState = \<lparr>localExists = False, remoteExists = True, localDeleted = True, remoteDeleted = False,
     localDirty = False, remoteDirty = False, isDirectory = False, hasConflict = False\<rparr>"


text \<open>
  In two-way mode an entry that carries no conflict mark is a conflict exactly when both
  sides changed since they last agreed, one of them not by a deletion.
\<close>

theorem two_way_conflict_iff_both_changed:
  assumes "e_conflictState e \<in> {None, Some ''none''}"
  shows "decide (classify e) TwoWay = Conflict \<longleftrightarrow>
    (localDirty (classify e) \<or> localDeleted (classify e)) \<and>
    (remoteDirty (classify e) \<or> remoteDeleted (classify e)) \<and>
    \<not> (localDeleted (classify e) \<and> remoteDeleted (classify e))"
proof -
  have "\<not> hasConflict (classify e)" using assms by (auto simp: classify_def Let_def)
  then show ?thesis
    using coherent_classify [of e] two_way_conflict [of "classify e"] unfolding coherent_def by auto
qed

definition demoEntry :: Entry where
  "demoEntry = \<lparr>e_id = ''e1'', e_remoteId = Some ''r1'', e_remoteFileId = Some ''f1'',
     e_localDeletedAt = None, e_remoteDeletedAt = None, e_syncRootId = ''s1'',
     e_relativePath = ''a.txt'', e_isDirectory = False, e_deleted = False, e_parentFolderId = None,
     e_size = Some 3, e_mtime = Some 0, e_contentHash = Some ''new'', e_syncedContentHash = Some ''old'',
     e_remoteUpdatedAt = Some ''t2'', e_syncedRemoteUpdatedAt = Some ''t1'', e_conflictState = None,
     e_syncState = PendingUpload, e_lastSeenScanJobId = None\<rparr>"

theorem two_way_conflict_iff_both_changed_witness:
  "decide (classify demoEntry) TwoWay = Conflict"
  using two_way_conflict_iff_both_changed [of demoEntry] by (simp add: demoEntry_def classify_def)

text \<open>
  In two-way mode nothing is left to do exactly when the entry is in agreement: both
  sides exist unchanged, or the local side is gone and the remote side is gone too. An entry
  that is not in agreement and not in conflict always gets a transfer or a deletion.
\<close>

theorem two_way_noop_iff_in_agreement:
  "decide (classify e) TwoWay = Noop \<longleftrightarrow>
    \<not> hasConflict (classify e) \<and>
    (localExists (classify e) \<and> remoteExists (classify e) \<and>
       e_contentHash e = e_syncedContentHash e \<and> e_remoteUpdatedAt e = e_syncedRemoteUpdatedAt e \<or>
     localDeleted (classify e) \<and> \<not> remoteExists (classify e) \<and> \<not> remoteDirty (classify e))"
  unfolding two_way_noop [OF coherent_classify] by (auto simp: classify_def Let_def)

text \<open>
  The mode column round-trips: the text written for a mode parses back to it, only the
  three texts that are ever written parse at all, and different modes have different texts.
\<close>

lemma mode_round_trip:
  "(parseSyncModeDb v = Some m \<longleftrightarrow> v = toSyncModeDb m) \<and> (toSyncModeDb m = toSyncModeDb n \<longleftrightarrow> m = n)"
proof
  show "parseSyncModeDb v = Some m \<longleftrightarrow> v = toSyncModeDb m"
    by (cases m) (auto simp: parseSyncModeDb_def)
  show "toSyncModeDb m = toSyncModeDb n \<longleftrightarrow> m = n" by (rule modes.encode_eq_iff)
qed

end
