(* ===== verification/Sync_Repo.thy ===== *)
theory Sync_Repo
  imports Sync_Policy Sqlite
begin

text \<open>
  The table \<open>sync_roots\<close> and the class \<open>SyncRepo\<close> (repo/SyncRepo.cpp).
\<close>

section \<open>Rows and roots\<close>

record sync_root_row =
  sr_id :: string
  sr_local_path :: string
  sr_folder_id :: "string option"
  sr_enabled :: int
  sr_sync_mode :: "string option"
  sr_created_at :: string

type_synonym sync_roots_table = "sync_root_row list"

record SyncRoot =
  root_Id :: string
  root_localPath :: string
  root_folderId :: string
  root_enabled :: int
  root_mode :: SyncMode
  root_createdAt :: string

definition sync_roots_pk :: "sync_root_row \<Rightarrow> string option" where
  "sync_roots_pk r = Some (sr_id r)"

definition idx_sync_roots_local_path :: "sync_root_row \<Rightarrow> string option" where
  "idx_sync_roots_local_path r = Some (sr_local_path r)"

definition sync_roots_ok :: "sync_roots_table \<Rightarrow> bool" where
  "sync_roots_ok t \<longleftrightarrow> uniq_on sync_roots_pk t \<and> uniq_on idx_sync_roots_local_path t"

section \<open>Operations\<close>

definition readSyncRoot :: "sync_root_row \<Rightarrow> SyncRoot result" where
  "readSyncRoot r =
     (case (case sr_sync_mode r of None \<Rightarrow> Some TwoWay | Some m \<Rightarrow> parseSyncModeDb m) of
        None \<Rightarrow> Inl (Runtime_error ''sync_roots.sync_mode contained invalid value'')
      | Some mode \<Rightarrow> Inr
          \<lparr>root_Id = sr_id r, root_localPath = sr_local_path r,
           root_folderId = (case sr_folder_id r of None \<Rightarrow> [] | Some f \<Rightarrow> f),
           root_enabled = column_int (sr_enabled r), root_mode = mode, root_createdAt = sr_created_at r\<rparr>)"

fun readSyncRoots :: "sync_root_row list \<Rightarrow> SyncRoot list result" where
  "readSyncRoots [] = Inr []"
| "readSyncRoots (r # rs) =
     (case readSyncRoot r of
        Inl e \<Rightarrow> Inl e
      | Inr x \<Rightarrow> (case readSyncRoots rs of Inl e \<Rightarrow> Inl e | Inr xs \<Rightarrow> Inr (x # xs)))"

definition getSyncRoots :: "sync_roots_table \<Rightarrow> SyncRoot list result" where
  "getSyncRoots t = readSyncRoots (select_ordered (\<lambda>r. (sr_created_at r, sr_local_path r)) (\<lambda>_. True) t)"

definition set_root :: "SyncRoot \<Rightarrow> sync_root_row \<Rightarrow> sync_root_row" where
  "set_root input r =
     r\<lparr>sr_local_path := root_localPath input, sr_folder_id := Some (root_folderId input),
       sr_enabled := root_enabled input, sr_sync_mode := Some (toSyncModeDb (root_mode input))\<rparr>"

definition new_root :: "string \<Rightarrow> SyncRoot \<Rightarrow> sync_root_row" where
  "new_root now input =
     \<lparr>sr_id = root_Id input, sr_local_path = root_localPath input,
      sr_folder_id = Some (root_folderId input), sr_enabled = root_enabled input,
      sr_sync_mode = Some (toSyncModeDb (root_mode input)), sr_created_at = now\<rparr>"

definition upsertSyncRoot :: "string \<Rightarrow> SyncRoot \<Rightarrow> (sync_roots_table, unit) act" where
  "upsertSyncRoot now input = stmtE
     (sql_upsert sync_roots_ok (step_failed ''sync_roots'') sync_roots_pk (set_root input) (new_root now input))"

definition findSyncRootById :: "string \<Rightarrow> sync_roots_table \<Rightarrow> SyncRoot option result" where
  "findSyncRootById syncRootId t =
     (case limit1 (filter (\<lambda>r. sr_id r = syncRootId) t) of
        None \<Rightarrow> Inr None
      | Some r \<Rightarrow> (case readSyncRoot r of Inl e \<Rightarrow> Inl e | Inr x \<Rightarrow> Inr (Some x)))"

definition disableSyncRoot :: "string \<Rightarrow> (sync_roots_table, unit) act" where
  "disableSyncRoot syncRootId = stmtE
     (sql_update sync_roots_ok (step_failed ''sync_roots'') (\<lambda>r. sr_id r = syncRootId)
        (\<lambda>r. r\<lparr>sr_enabled := 0\<rparr>))"

section \<open>The invariant\<close>

definition readable_root :: "sync_root_row \<Rightarrow> bool" where
  "readable_root r \<longleftrightarrow> (case sr_sync_mode r of None \<Rightarrow> True | Some m \<Rightarrow> parseSyncModeDb m \<noteq> None)"

definition roots_inv :: "sync_roots_table \<Rightarrow> bool" where
  "roots_inv t \<longleftrightarrow> sync_roots_ok t \<and> (\<forall>r\<in>set t. readable_root r)"

lemma parse_written_mode [simp]: "parseSyncModeDb (toSyncModeDb m) = Some m"
  by (cases m) (simp_all add: parseSyncModeDb_def)

lemma readable_written: "readable_root (set_root input r)" "readable_root (new_root now input)"
  by (simp_all add: readable_root_def set_root_def new_root_def)

lemma keeps_roots [keeps_intros]:
  "keeps roots_inv (upsertSyncRoot now input)" "keeps roots_inv (disableSyncRoot i)"
proof -
  show "keeps roots_inv (upsertSyncRoot now input)"
    unfolding upsertSyncRoot_def roots_inv_def
    by (rule keeps_stmtE, rule sql_upsert_rows, assumption) (simp_all add: readable_written)
  show "keeps roots_inv (disableSyncRoot i)"
    unfolding disableSyncRoot_def roots_inv_def
    by (rule keeps_stmtE, rule sql_update_rows, assumption) (simp_all add: readable_root_def)
qed

text \<open>Every stored root can be read, and is found under its identifier.\<close>

definition rootOf :: "sync_root_row \<Rightarrow> SyncRoot" where
  "rootOf r =
     \<lparr>root_Id = sr_id r, root_localPath = sr_local_path r,
      root_folderId = (case sr_folder_id r of None \<Rightarrow> [] | Some f \<Rightarrow> f),
      root_enabled = column_int (sr_enabled r),
      root_mode = (case sr_sync_mode r of None \<Rightarrow> TwoWay | Some m \<Rightarrow> the (parseSyncModeDb m)),
      root_createdAt = sr_created_at r\<rparr>"

lemma readSyncRoot_readable: "readable_root r \<Longrightarrow> readSyncRoot r = Inr (rootOf r)"
  by (auto simp: readable_root_def readSyncRoot_def rootOf_def split: option.splits)

lemma readSyncRoots_readable: "\<forall>r\<in>set rs. readable_root r \<Longrightarrow> readSyncRoots rs = Inr (map rootOf rs)"
  by (induction rs) (simp_all add: readSyncRoot_readable)

lemma roots_inv_ids: "roots_inv t \<Longrightarrow> distinct (map sr_id t)"
  unfolding roots_inv_def sync_roots_ok_def sync_roots_pk_def [abs_def] by (simp add: uniq_on_total)

lemma findSyncRootById_row:
  assumes "roots_inv t" and "r \<in> set t"
  shows "findSyncRootById (sr_id r) t = Inr (Some (rootOf r))"
  using filter_key_single [OF roots_inv_ids [OF assms(1)] assms(2), of "\<lambda>_. True"] assms
  by (simp add: findSyncRootById_def readSyncRoot_readable roots_inv_def)

lemma findSyncRootById_total:
  assumes "roots_inv t"
  shows "\<exists>x. findSyncRootById i t = Inr x"
proof (cases "filter (\<lambda>r. sr_id r = i) t")
  case Nil
  then show ?thesis by (simp add: findSyncRootById_def)
next
  case (Cons r rs)
  then have "r \<in> set (filter (\<lambda>r. sr_id r = i) t)" by (simp only: list.set_intros)
  then have "r \<in> set t" by simp
  then show ?thesis
    using Cons assms by (simp add: findSyncRootById_def readSyncRoot_readable roots_inv_def)
qed

lemma findSyncRootById_Some:
  assumes "roots_inv t" and "findSyncRootById i t = Inr (Some x)"
  obtains r where "r \<in> set t" and "sr_id r = i" and "x = rootOf r"
proof -
  obtain r where r: "limit1 (filter (\<lambda>r. sr_id r = i) t) = Some r" "readSyncRoot r = Inr x"
    using assms(2) by (auto simp: findSyncRootById_def split: option.splits sum.splits)
  from limit1_filter [OF r(1)] have "r \<in> set t" "sr_id r = i" by simp_all
  then show ?thesis using that r(2) assms(1) by (simp add: roots_inv_def readSyncRoot_readable)
qed

lemma upsertSyncRoot_cases:
  assumes inv: "roots_inv t"
  shows "if \<exists>r\<in>set t. sr_local_path r = root_localPath input \<and> sr_id r \<noteq> root_Id input
    then upsertSyncRoot now input t = (Inl (step_failed ''sync_roots''), t)
    else \<exists>t' r. upsertSyncRoot now input t = (Inr (), t') \<and> r \<in> set t' \<and> sr_id r = root_Id input \<and>
      (r = new_root now input \<or> (\<exists>x. r = set_root input x))"
proof (cases "\<exists>x\<in>set t. sr_id x = root_Id input")
  case True
  then obtain x where x: "x \<in> set t" "sr_id x = root_Id input" by blast
  let ?t = "update_where (\<lambda>r. sync_roots_pk r = Some (root_Id input)) (set_root input) t"
  have "uniq_on sync_roots_pk ?t"
    by (rule uniq_on_update_where) (use inv in \<open>auto simp: roots_inv_def sync_roots_ok_def sync_roots_pk_def set_root_def\<close>)
  moreover have "uniq_on idx_sync_roots_local_path ?t \<longleftrightarrow>
      (\<forall>y\<in>set t. sync_roots_pk y \<noteq> Some (root_Id input) \<longrightarrow>
        idx_sync_roots_local_path y \<noteq> Some (root_localPath input))"
    by (rule uniq_on_update_one [where x = x])
      (use inv x in \<open>simp_all add: roots_inv_def sync_roots_ok_def sync_roots_pk_def [abs_def]
        idx_sync_roots_local_path_def set_root_def\<close>)
  ultimately have ok: "sync_roots_ok ?t \<longleftrightarrow>
      \<not> (\<exists>r\<in>set t. sr_local_path r = root_localPath input \<and> sr_id r \<noteq> root_Id input)"
    by (auto simp: sync_roots_ok_def sync_roots_pk_def idx_sync_roots_local_path_def)
  have run: "upsertSyncRoot now input t =
      (if sync_roots_ok ?t then (Inr (), ?t) else (Inl (step_failed ''sync_roots''), t))"
    using x by (auto simp: upsertSyncRoot_def stmtE_def sql_upsert_def sql_update_def sync_roots_pk_def new_root_def)
  have "set_root input x \<in> set ?t" using x by (force simp: in_update_where sync_roots_pk_def)
  moreover have "sr_id (set_root input x) = root_Id input" using x by (simp add: set_root_def)
  ultimately show ?thesis using ok run by auto
next
  case False
  have "sync_roots_ok (t @ [new_root now input]) \<longleftrightarrow>
      \<not> (\<exists>r\<in>set t. sr_local_path r = root_localPath input \<and> sr_id r \<noteq> root_Id input)"
    using False inv
    by (auto simp: roots_inv_def sync_roots_ok_def uniq_on_snoc has_key_def sync_roots_pk_def
        idx_sync_roots_local_path_def new_root_def)
  moreover have "upsertSyncRoot now input t = (if sync_roots_ok (t @ [new_root now input])
      then (Inr (), t @ [new_root now input]) else (Inl (step_failed ''sync_roots''), t))"
    using False by (auto simp: upsertSyncRoot_def stmtE_def sql_upsert_def sql_insert_def sync_roots_pk_def new_root_def)
  moreover have "sr_id (new_root now input) = root_Id input" by (simp add: new_root_def)
  ultimately show ?thesis by auto
qed

text \<open>What is found under the identifier of a root that was saved.\<close>

lemma upsertSyncRoot_found:
  assumes "roots_inv t" and "\<not> (\<exists>r\<in>set t. sr_local_path r = root_localPath input \<and> sr_id r \<noteq> root_Id input)"
  shows "\<exists>t' created. upsertSyncRoot now input t = (Inr (), t') \<and> roots_inv t' \<and>
    findSyncRootById (root_Id input) t' =
      Inr (Some (input\<lparr>root_enabled := column_int (root_enabled input), root_createdAt := created\<rparr>))"
proof -
  from upsertSyncRoot_cases [OF assms(1), of input now] assms(2)
  have "\<exists>t' r. upsertSyncRoot now input t = (Inr (), t') \<and> r \<in> set t' \<and> sr_id r = root_Id input \<and>
      (r = new_root now input \<or> (\<exists>x. r = set_root input x))"
    by (simp only: if_False)
  then obtain t' r where run: "upsertSyncRoot now input t = (Inr (), t')" and r: "r \<in> set t'"
    "sr_id r = root_Id input" "r = new_root now input \<or> (\<exists>x. r = set_root input x)"
    by blast
  have inv: "roots_inv t'" using keepsD [OF keeps_roots(1) assms(1), of now input] run by simp
  have "rootOf r = input\<lparr>root_enabled := column_int (root_enabled input), root_createdAt := sr_created_at r\<rparr>"
    using r(2,3) by (auto simp: rootOf_def new_root_def set_root_def)
  then show ?thesis using run inv findSyncRootById_row [OF inv r(1)] r(2) by auto
qed

section \<open>Properties\<close>

text \<open>
  Saving a sync root: it fails, and changes nothing, exactly when another root already has
  its local path; otherwise the root read back under its identifier is the one saved, with
  its path, folder, mode and flag, and the table stays well-formed.
\<close>

theorem upsert_root_round_trip:
  assumes "roots_inv t" and "- (2 ^ 31) \<le> root_enabled input" and "root_enabled input < 2 ^ 31"
  shows "if \<exists>r\<in>set t. sr_local_path r = root_localPath input \<and> sr_id r \<noteq> root_Id input
    then upsertSyncRoot now input t = (Inl (step_failed ''sync_roots''), t)
    else \<exists>t' created. upsertSyncRoot now input t = (Inr (), t') \<and> roots_inv t' \<and>
      findSyncRootById (root_Id input) t' = Inr (Some (input\<lparr>root_createdAt := created\<rparr>))"
proof (cases "\<exists>r\<in>set t. sr_local_path r = root_localPath input \<and> sr_id r \<noteq> root_Id input")
  case True
  then show ?thesis using upsertSyncRoot_cases [OF assms(1), of input now] by simp
next
  case False
  have "column_int (root_enabled input) = root_enabled input"
    using assms(2,3) by (simp add: column_int_def signed_take_bit_int_eq_self_iff)
  then show ?thesis using False upsertSyncRoot_found [OF assms(1) False, of now] by auto
qed

definition demoRoot :: SyncRoot where
  "demoRoot = \<lparr>root_Id = ''s1'', root_localPath = ''/home/a'', root_folderId = ''f'', root_enabled = 1,
     root_mode = RemoteMirror, root_createdAt = []\<rparr>"

theorem upsert_root_round_trip_witness:
  "\<exists>t' created. upsertSyncRoot ''now'' demoRoot [] = (Inr (), t') \<and>
     findSyncRootById ''s1'' t' = Inr (Some (demoRoot\<lparr>root_createdAt := created\<rparr>))"
  using upsert_root_round_trip [of "[]" demoRoot "''now''"]
  by (auto simp: demoRoot_def roots_inv_def sync_roots_ok_def)

end
