(* ===== verification/Dirty_Path_Repo.thy ===== *)
theory Dirty_Path_Repo
  imports Fs_Path Sync_Repo Job_Queue
begin

text \<open>
  The table \<open>dirty_paths\<close> and the class \<open>DirtyPathRepo\<close> (repo/DirtyPathRepo.cpp): the file
  watcher's events are turned into rows, at most one pending row per path, and the daemon
  claims the rows one by one. The events are those of fs/FileWatcher.hpp. The identifiers
  \<open>generateUUID\<close> draws and the current time are arguments; the working directory, which
  \<open>normalizeFsPath\<close> needs, is too.
\<close>

section \<open>Events and rows\<close>

datatype FileEventType =
  Created | Modified | Deleted | MovedFrom | MovedTo | Renamed | AttributeChanged | Overflow | Unknown

fun eventTypeName :: "FileEventType \<Rightarrow> string" where
  "eventTypeName Created = ''created''"
| "eventTypeName Modified = ''modified''"
| "eventTypeName Deleted = ''deleted''"
| "eventTypeName MovedFrom = ''moved_from''"
| "eventTypeName MovedTo = ''moved_to''"
| "eventTypeName Renamed = ''renamed''"
| "eventTypeName AttributeChanged = ''attrib''"
| "eventTypeName Overflow = ''overflow''"
| "eventTypeName Unknown = ''unknown''"

record FileEvent =
  fe_rootId :: string
  fe_path :: string
  fe_oldPath :: "string option"
  fe_type :: FileEventType
  fe_isDirectory :: bool
  fe_cookie :: "32 word"

datatype DirtyPathEventType = Scan | Delete | FullRescan

datatype DirtyPathStatus = Dirty_Pending | Dirty_Running | Dirty_Done | Dirty_Failed

record DirtyPath =
  dirty_id :: string
  dirty_syncRootId :: string
  dirty_relativePath :: "string option"
  dirty_eventType :: DirtyPathEventType
  dirty_status :: DirtyPathStatus
  dirty_createdAt :: string
  dirty_updatedAt :: string

record dirty_row =
  dp_id :: string
  dp_sync_root_id :: string
  dp_relative_path :: "string option"
  dp_event_type :: string
  dp_status :: string
  dp_error_message :: "string option"
  dp_created_at :: string
  dp_updated_at :: string

type_synonym dirty_table = "dirty_row list"

definition dirty_pk :: "dirty_row \<Rightarrow> string option" where
  "dirty_pk r = Some (dp_id r)"

definition idx_dirty_paths_pending_path :: "dirty_row \<Rightarrow> (string \<times> string) option" where
  "idx_dirty_paths_pending_path r =
     (if dp_status r = ''pending'' then map_option (Pair (dp_sync_root_id r)) (dp_relative_path r) else None)"

definition idx_dirty_paths_pending_full_rescan :: "dirty_row \<Rightarrow> string option" where
  "idx_dirty_paths_pending_full_rescan r =
     (if dp_status r = ''pending'' \<and> dp_relative_path r = None \<and> dp_event_type r = ''full_rescan''
      then Some (dp_sync_root_id r) else None)"

definition dirty_ok :: "dirty_table \<Rightarrow> bool" where
  "dirty_ok t \<longleftrightarrow> uniq_on dirty_pk t \<and> uniq_on idx_dirty_paths_pending_path t \<and>
     uniq_on idx_dirty_paths_pending_full_rescan t"

section \<open>Columns\<close>

fun toDirtyPathEventTypeString :: "DirtyPathEventType \<Rightarrow> string" where
  "toDirtyPathEventTypeString Scan = ''scan''"
| "toDirtyPathEventTypeString Delete = ''delete''"
| "toDirtyPathEventTypeString FullRescan = ''full_rescan''"

definition parseDirtyPathEventType :: "string \<Rightarrow> DirtyPathEventType result" where
  "parseDirtyPathEventType raw =
     (if raw = ''scan'' then Inr Scan
      else if raw = ''delete'' then Inr Delete
      else if raw = ''full_rescan'' then Inr FullRescan
      else Inl (Runtime_error (''Unknown dirty_paths.event_type: '' @ raw)))"

definition parseDirtyPathStatus :: "string \<Rightarrow> DirtyPathStatus result" where
  "parseDirtyPathStatus raw =
     (if raw = ''pending'' then Inr Dirty_Pending
      else if raw = ''running'' then Inr Dirty_Running
      else if raw = ''done'' then Inr Dirty_Done
      else if raw = ''failed'' then Inr Dirty_Failed
      else Inl (Runtime_error (''Unknown dirty_paths.status: '' @ raw)))"

definition readDirtyPath :: "dirty_row \<Rightarrow> DirtyPath result" where
  "readDirtyPath r =
     (case parseDirtyPathEventType (dp_event_type r) of
        Inl e \<Rightarrow> Inl e
      | Inr eventType \<Rightarrow> (case parseDirtyPathStatus (dp_status r) of
          Inl e \<Rightarrow> Inl e
        | Inr status \<Rightarrow> Inr
            \<lparr>dirty_id = dp_id r, dirty_syncRootId = dp_sync_root_id r,
             dirty_relativePath = dp_relative_path r, dirty_eventType = eventType,
             dirty_status = status, dirty_createdAt = dp_created_at r, dirty_updatedAt = dp_updated_at r\<rparr>))"

section \<open>Operations\<close>

definition new_dirty :: "string \<Rightarrow> string \<Rightarrow> string \<Rightarrow> string option \<Rightarrow> DirtyPathEventType \<Rightarrow> dirty_row" where
  "new_dirty now newId syncRootId relativePath action =
     \<lparr>dp_id = newId, dp_sync_root_id = syncRootId, dp_relative_path = relativePath,
      dp_event_type = toDirtyPathEventTypeString action, dp_status = ''pending'',
      dp_error_message = None, dp_created_at = now, dp_updated_at = now\<rparr>"

definition insertDirtyPath ::
    "string \<Rightarrow> string \<Rightarrow> string \<Rightarrow> string option \<Rightarrow> DirtyPathEventType \<Rightarrow> (dirty_table, unit) act" where
  "insertDirtyPath now newId syncRootId relativePath action =
     (if action \<noteq> FullRescan \<and> relativePath = None
      then throwE (Invalid_argument ''Path events require a relative path'')
      else if action = FullRescan then stmtE
        (sql_upsert dirty_ok (step_failed ''dirty_paths'') idx_dirty_paths_pending_full_rescan
           (\<lambda>r. r\<lparr>dp_updated_at := now\<rparr>) (new_dirty now newId syncRootId None action))
      else stmtE
        (sql_upsert dirty_ok (step_failed ''dirty_paths'') idx_dirty_paths_pending_path
           (\<lambda>r. r\<lparr>dp_event_type := toDirtyPathEventTypeString action, dp_updated_at := now\<rparr>)
           (new_dirty now newId syncRootId relativePath action)))"

definition insertFullRescan :: "string \<Rightarrow> string \<Rightarrow> string \<Rightarrow> (dirty_table, unit) act" where
  "insertFullRescan now newId syncRootId = insertDirtyPath now newId syncRootId None FullRescan"

text \<open>The rows a claim may take, and the order it takes them in.\<close>

definition claimable_dirty :: "string \<Rightarrow> dirty_row \<Rightarrow> bool" where
  "claimable_dirty syncRootId r \<longleftrightarrow>
     dp_sync_root_id r = syncRootId \<and> (dp_status r = ''pending'' \<or> dp_status r = ''failed'')"

definition claim_rank :: "dirty_row \<Rightarrow> nat \<times> string" where
  "claim_rank r = (if dp_status r = ''pending'' then 0 else 1, dp_created_at r)"

definition run_dirty :: "string \<Rightarrow> dirty_row \<Rightarrow> dirty_row" where
  "run_dirty now r = r\<lparr>dp_status := ''running'', dp_updated_at := now\<rparr>"

definition claimNextPending :: "string \<Rightarrow> string \<Rightarrow> (dirty_table, DirtyPath option) act" where
  "claimNextPending now syncRootId = transactionE (\<lambda>t.
     case limit1 (select_ordered claim_rank (claimable_dirty syncRootId) t) of
       None \<Rightarrow> (Inr None, t)
     | Some r \<Rightarrow> (case readDirtyPath r of
         Inl e \<Rightarrow> (Inl e, t)
       | Inr dirtyPath \<Rightarrow>
           bindE (stmtE (sql_update dirty_ok (step_failed ''dirty_paths'')
               (\<lambda>x. dp_id x = dirty_id dirtyPath) (run_dirty now)))
             (\<lambda>_. returnE (Some (dirtyPath\<lparr>dirty_status := Dirty_Running\<rparr>))) t))"

definition markDirtyDone :: "string \<Rightarrow> string \<Rightarrow> (dirty_table, unit) act" where
  "markDirtyDone now dirtyPathId = stmtE
     (sql_update dirty_ok (step_failed ''dirty_paths'') (\<lambda>r. dp_id r = dirtyPathId)
        (\<lambda>r. r\<lparr>dp_status := ''done'', dp_error_message := None, dp_updated_at := now\<rparr>))"

definition markDirtyFailed :: "string \<Rightarrow> string \<Rightarrow> string \<Rightarrow> (dirty_table, unit) act" where
  "markDirtyFailed now dirtyPathId reason = stmtE
     (sql_update dirty_ok (step_failed ''dirty_paths'') (\<lambda>r. dp_id r = dirtyPathId)
        (\<lambda>r. r\<lparr>dp_status := ''failed'', dp_error_message := Some reason, dp_updated_at := now\<rparr>))"

fun readDirtyPaths :: "dirty_row list \<Rightarrow> DirtyPath list result" where
  "readDirtyPaths [] = Inr []"
| "readDirtyPaths (r # rs) =
     (case readDirtyPath r of
        Inl e \<Rightarrow> Inl e
      | Inr x \<Rightarrow> (case readDirtyPaths rs of Inl e \<Rightarrow> Inl e | Inr xs \<Rightarrow> Inr (x # xs)))"

definition getDirtyPathsBySyncRootId :: "string \<Rightarrow> dirty_table \<Rightarrow> DirtyPath list result" where
  "getDirtyPathsBySyncRootId syncRootId t =
     readDirtyPaths (select_ordered dp_created_at (\<lambda>r. dp_sync_root_id r = syncRootId) t)"

section \<open>Recording the watcher's events\<close>

definition has_infix :: "string \<Rightarrow> string \<Rightarrow> bool" where
  "has_infix w s \<longleftrightarrow> (\<exists>i\<in>{0..length s}. take (length w) (drop i s) = w)"

definition ends_with :: "string \<Rightarrow> string \<Rightarrow> bool" where
  "ends_with w s \<longleftrightarrow> length w \<le> length s \<and> drop (length s - length w) s = w"

definition isArkiveTempPath :: "string \<Rightarrow> bool" where
  "isArkiveTempPath path \<longleftrightarrow>
     ends_with ''.tmp'' (filename path) \<and> has_infix ''.arkive-'' (filename path)"

definition toRelativePath :: "string \<Rightarrow> string \<Rightarrow> string \<Rightarrow> string option result" where
  "toRelativePath cwd rootPath path =
     (case normalizeFsPath cwd path of
        Inl e \<Rightarrow> Inl e
      | Inr normalizedPath \<Rightarrow> (case normalizeFsPath cwd rootPath of
          Inl e \<Rightarrow> Inl e
        | Inr normalizedRoot \<Rightarrow>
            let relative = lexically_relative normalizedPath normalizedRoot in
            if relative = [] then Inr (Some [])
            else if relative = ''.'' \<or> hd (path_elements relative) = ''..'' then Inr None
            else Inr (Some relative)))"

definition insertEvent ::
    "string \<Rightarrow> string \<Rightarrow> string \<Rightarrow> SyncRoot \<Rightarrow> DirtyPathEventType \<Rightarrow> string \<Rightarrow> (dirty_table, unit) act" where
  "insertEvent now newId cwd root action path =
     (case toRelativePath cwd (root_localPath root) path of
        Inl e \<Rightarrow> throwE e
      | Inr None \<Rightarrow> returnE ()
      | Inr (Some relativePath) \<Rightarrow> insertDirtyPath now newId (root_Id root) (Some relativePath) action)"

definition recordEvent ::
    "string \<Rightarrow> (nat \<Rightarrow> string) \<Rightarrow> string \<Rightarrow> sync_roots_table \<Rightarrow> FileEvent \<Rightarrow> (dirty_table, unit) act" where
  "recordEvent now uuid cwd roots event =
     (if fe_type event = Unknown then returnE ()
      else if fe_type event = Overflow then
        (case getSyncRoots roots of
           Inl e \<Rightarrow> throwE e
         | Inr rs \<Rightarrow> forE (zip [0..<length rs] rs) (\<lambda>(i, root). insertFullRescan now (uuid i) (root_Id root)))
      else case findSyncRootById (fe_rootId event) roots of
        Inl e \<Rightarrow> throwE e
      | Inr None \<Rightarrow> returnE ()
      | Inr (Some root) \<Rightarrow>
          if isArkiveTempPath (fe_path event) \<or>
             (case fe_oldPath event of None \<Rightarrow> False | Some p \<Rightarrow> isArkiveTempPath p)
          then returnE ()
          else (case fe_type event of
             Deleted \<Rightarrow> insertEvent now (uuid 0) cwd root Delete (fe_path event)
           | MovedFrom \<Rightarrow> insertEvent now (uuid 0) cwd root Delete (fe_path event)
           | Renamed \<Rightarrow>
               bindE (case fe_oldPath event of
                   None \<Rightarrow> returnE ()
                 | Some p \<Rightarrow> insertEvent now (uuid 0) cwd root Delete p)
                 (\<lambda>_. insertEvent now (uuid 1) cwd root Scan (fe_path event))
           | _ \<Rightarrow> insertEvent now (uuid 0) cwd root Scan (fe_path event)))"

section \<open>The invariant\<close>

definition readable_dirty :: "dirty_row \<Rightarrow> bool" where
  "readable_dirty r \<longleftrightarrow> dp_event_type r \<in> {''scan'', ''delete'', ''full_rescan''} \<and>
     dp_status r \<in> {''pending'', ''running'', ''done'', ''failed''} \<and>
     (dp_relative_path r = None \<longleftrightarrow> dp_event_type r = ''full_rescan'')"

definition dirty_inv :: "dirty_table \<Rightarrow> bool" where
  "dirty_inv t \<longleftrightarrow> dirty_ok t \<and> (\<forall>r\<in>set t. readable_dirty r)"

lemma dirty_inv_Nil [simp]: "dirty_inv []"
  by (simp add: dirty_inv_def dirty_ok_def)

lemma dirty_inv_ids: "dirty_inv t \<Longrightarrow> distinct (map dp_id t)"
  unfolding dirty_inv_def dirty_ok_def dirty_pk_def [abs_def] by (simp add: uniq_on_total)

lemma event_type_strings:
  "toDirtyPathEventTypeString a \<in> {''scan'', ''delete'', ''full_rescan''}"
  "toDirtyPathEventTypeString a = ''full_rescan'' \<longleftrightarrow> a = FullRescan"
  "parseDirtyPathEventType (toDirtyPathEventTypeString a) = Inr a"
  by (cases a; simp add: parseDirtyPathEventType_def)+

lemma readable_new: "relativePath = None \<longleftrightarrow> action = FullRescan \<Longrightarrow>
  readable_dirty (new_dirty now newId syncRootId relativePath action)"
  using event_type_strings(1,2) [of action] by (simp add: readable_dirty_def new_dirty_def)

lemma keeps_insertDirtyPath [keeps_intros]: "keeps dirty_inv (insertDirtyPath now newId root p action)"
proof (cases "action = FullRescan")
  case True
  have "keeps dirty_inv (stmtE (sql_upsert dirty_ok (step_failed ''dirty_paths'')
      idx_dirty_paths_pending_full_rescan (\<lambda>r. r\<lparr>dp_updated_at := now\<rparr>) (new_dirty now newId root None action)))"
    unfolding dirty_inv_def using True
    by (intro keeps_stmtE, elim conjE) (rule sql_upsert_rows, assumption+, simp_all add: new_dirty_def readable_dirty_def)
  then show ?thesis using True by (simp add: insertDirtyPath_def)
next
  case False
  let ?e = "\<lambda>r. r\<lparr>dp_event_type := toDirtyPathEventTypeString action, dp_updated_at := now\<rparr>"
  show ?thesis
  proof (cases p)
    case None
    then show ?thesis using False by (simp add: insertDirtyPath_def keeps_throwE)
  next
    case (Some q)
    let ?new = "new_dirty now newId root p action"
    have good: "readable_dirty (?e r)"
      if "readable_dirty r" "idx_dirty_paths_pending_path r = idx_dirty_paths_pending_path ?new" for r
      using that Some False event_type_strings(1,2) [of action]
      by (auto simp: readable_dirty_def new_dirty_def idx_dirty_paths_pending_path_def split: if_splits)
    have "keeps dirty_inv (stmtE (sql_upsert dirty_ok (step_failed ''dirty_paths'') idx_dirty_paths_pending_path ?e ?new))"
      unfolding dirty_inv_def
      by (intro keeps_stmtE, elim conjE)
        (rule sql_upsert_rows, assumption+, erule good, assumption, use False Some in \<open>simp add: readable_new\<close>)
    then show ?thesis using False Some by (simp add: insertDirtyPath_def)
  qed
qed

lemma dirty_ok_update:
  assumes "dirty_ok t" and "\<And>r. p r \<Longrightarrow> dp_id (f r) = dp_id r"
    and "\<And>r. p r \<Longrightarrow> idx_dirty_paths_pending_path (f r) = idx_dirty_paths_pending_path r \<or>
      idx_dirty_paths_pending_path (f r) = None"
    and "\<And>r. p r \<Longrightarrow> idx_dirty_paths_pending_full_rescan (f r) = idx_dirty_paths_pending_full_rescan r \<or>
      idx_dirty_paths_pending_full_rescan (f r) = None"
  shows "dirty_ok (update_where p f t)"
  unfolding dirty_ok_def
proof (intro conjI)
  show "uniq_on dirty_pk (update_where p f t)"
    by (rule uniq_on_update_where) (use assms(1,2) in \<open>auto simp: dirty_ok_def dirty_pk_def\<close>)
  show "uniq_on idx_dirty_paths_pending_path (update_where p f t)"
    by (rule uniq_on_update_where) (use assms(1) in \<open>simp add: dirty_ok_def\<close>, rule assms(3))
  show "uniq_on idx_dirty_paths_pending_full_rescan (update_where p f t)"
    by (rule uniq_on_update_where) (use assms(1) in \<open>simp add: dirty_ok_def\<close>, rule assms(4))
qed

lemma keeps_marks [keeps_intros]:
  "keeps dirty_inv (markDirtyDone now i)" "keeps dirty_inv (markDirtyFailed now i reason)"
  unfolding markDirtyDone_def markDirtyFailed_def dirty_inv_def
  by (intro keeps_stmtE, elim conjE, rule sql_update_rows, assumption+, simp add: readable_dirty_def)+

lemma keeps_claimNextPending [keeps_intros]: "keeps dirty_inv (claimNextPending now root)"
  unfolding claimNextPending_def
proof (rule keeps_transactionE, rule keepsI)
  fix t assume inv: "dirty_inv t"
  have "keeps dirty_inv (stmtE (sql_update dirty_ok (step_failed ''dirty_paths'') (\<lambda>x. dp_id x = i) (run_dirty now)))" for i
    unfolding dirty_inv_def
    by (intro keeps_stmtE, elim conjE, rule sql_update_rows, assumption+, simp add: readable_dirty_def run_dirty_def)
  then have "keeps dirty_inv (bindE (stmtE (sql_update dirty_ok (step_failed ''dirty_paths'') (\<lambda>x. dp_id x = i) (run_dirty now)))
      (\<lambda>_. returnE y))" for i and y :: "DirtyPath option"
    by (intro keeps_intros)
  from keepsD [OF this inv] inv
  show "dirty_inv (snd (case limit1 (select_ordered claim_rank (claimable_dirty root) t) of
       None \<Rightarrow> (Inr None, t)
     | Some r \<Rightarrow> (case readDirtyPath r of
         Inl e \<Rightarrow> (Inl e, t)
       | Inr dirtyPath \<Rightarrow>
           bindE (stmtE (sql_update dirty_ok (step_failed ''dirty_paths'')
               (\<lambda>x. dp_id x = dirty_id dirtyPath) (run_dirty now)))
             (\<lambda>_. returnE (Some (dirtyPath\<lparr>dirty_status := Dirty_Running\<rparr>))) t)))"
    by (auto split: option.split sum.split)
qed

lemma keeps_recordEvent [keeps_intros]: "keeps dirty_inv (recordEvent now uuid cwd roots event)"
  unfolding recordEvent_def insertEvent_def insertFullRescan_def
  by (auto intro!: keeps_intros split: sum.split FileEventType.split option.split)

section \<open>Claiming\<close>

definition pendingDirty :: "string \<Rightarrow> dirty_table \<Rightarrow> dirty_row list" where
  "pendingDirty root t = select_ordered claim_rank (claimable_dirty root) t"

definition claimedDirty :: "dirty_row \<Rightarrow> DirtyPath" where
  "claimedDirty r =
     \<lparr>dirty_id = dp_id r, dirty_syncRootId = dp_sync_root_id r, dirty_relativePath = dp_relative_path r,
      dirty_eventType = projr (parseDirtyPathEventType (dp_event_type r)), dirty_status = Dirty_Running,
      dirty_createdAt = dp_created_at r, dirty_updatedAt = dp_updated_at r\<rparr>"

lemma readDirtyPath_readable:
  "readable_dirty r \<Longrightarrow> \<exists>d. readDirtyPath r = Inr d \<and> dirty_id d = dp_id r \<and> d\<lparr>dirty_status := Dirty_Running\<rparr> = claimedDirty r"
  unfolding readable_dirty_def
  by (elim conjE) (auto simp: readDirtyPath_def claimedDirty_def parseDirtyPathEventType_def parseDirtyPathStatus_def)

lemma claim_dirty_row:
  assumes inv: "dirty_inv t" and head: "pendingDirty root t = r # rs"
  shows "claimNextPending now root t =
    (Inr (Some (claimedDirty r)), update_where (\<lambda>x. dp_id x = dp_id r) (run_dirty now) t)"
proof -
  have first: "limit1 (select_ordered claim_rank (claimable_dirty root) t) = Some r"
    using head by (simp add: pendingDirty_def)
  then have "readable_dirty r" using inv limit1_select_min(1) [OF first] by (simp add: dirty_inv_def)
  from readDirtyPath_readable [OF this] obtain d where d: "readDirtyPath r = Inr d" "dirty_id d = dp_id r"
    "d\<lparr>dirty_status := Dirty_Running\<rparr> = claimedDirty r" by blast
  have "dirty_ok (update_where (\<lambda>x. dp_id x = dp_id r) (run_dirty now) t)"
    by (rule dirty_ok_update)
      (use inv in \<open>simp_all add: dirty_inv_def run_dirty_def idx_dirty_paths_pending_path_def
         idx_dirty_paths_pending_full_rescan_def\<close>)
  then show ?thesis
    using first d by (simp add: claimNextPending_def transactionE_def act_simps stmtE_def sql_update_def)
qed

lemma pendingDirty_after_claim:
  assumes inv: "dirty_inv t" and head: "pendingDirty root t = r # rs"
  shows "pendingDirty root (update_where (\<lambda>x. dp_id x = dp_id r) (run_dirty now) t) = rs"
proof -
  let ?q = "\<lambda>x. claimable_dirty root x \<and> dp_id x \<noteq> dp_id r"
  have "filter (claimable_dirty root) (update_where (\<lambda>x. dp_id x = dp_id r) (run_dirty now) t) = filter ?q t"
    by (induction t) (auto simp: run_dirty_def claimable_dirty_def)
  then have "pendingDirty root (update_where (\<lambda>x. dp_id x = dp_id r) (run_dirty now) t) =
      select_ordered claim_rank ?q t"
    by (simp add: pendingDirty_def select_ordered_def)
  also have "\<dots> = rs"
    by (rule select_ordered_remove_first [where key = dp_id and p = "claimable_dirty root"])
      (use head inv in \<open>simp_all add: pendingDirty_def dirty_inv_ids\<close>)
  finally show ?thesis .
qed

interpretation dirty_claims: job_queue dirty_inv "pendingDirty root" "claimNextPending now root" claimedDirty
  for now root
proof
  fix t
  show "pendingDirty root t = [] \<Longrightarrow> claimNextPending now root t = (Inr None, t)"
    by (simp add: pendingDirty_def claimNextPending_def transactionE_def limit1_None [THEN iffD2])
next
  fix t r rs assume "dirty_inv t" and "pendingDirty root t = r # rs"
  then show "\<exists>t'. claimNextPending now root t = (Inr (Some (claimedDirty r)), t') \<and>
      pendingDirty root t' = rs \<and> dirty_inv t'"
    using claim_dirty_row pendingDirty_after_claim keepsD [OF keeps_claimNextPending] by (metis snd_conv)
qed

inductive dirty_step :: "dirty_table \<Rightarrow> dirty_table \<Rightarrow> bool" where
  insert: "dirty_step t (snd (insertDirtyPath now newId root p action t))"
| record_event: "dirty_step t (snd (recordEvent now uuid cwd roots event t))"
| claim: "dirty_step t (snd (claimNextPending now root t))"
| mark_done: "dirty_step t (snd (markDirtyDone now i t))"
| mark_failed: "dirty_step t (snd (markDirtyFailed now i reason t))"

interpretation dirty_runs: transition_system "\<lambda>t. t = []" dirty_step dirty_inv
proof
  show "dirty_inv t" if "t = []" for t using that by simp
next
  fix s t assume "dirty_step s t" and "dirty_inv s"
  then show "dirty_inv t" by (cases rule: dirty_step.cases) (auto intro: keepsD keeps_intros)
qed

lemma readDirtyPaths_readable:
  "\<forall>r\<in>set rs. readable_dirty r \<Longrightarrow> \<exists>ds. readDirtyPaths rs = Inr ds \<and>
     (\<forall>d\<in>set ds. dirty_relativePath d = None \<longleftrightarrow> dirty_eventType d = FullRescan)"
proof (induction rs)
  case (Cons r rs)
  then have "\<exists>d. readDirtyPath r = Inr d \<and> (dirty_relativePath d = None \<longleftrightarrow> dirty_eventType d = FullRescan)"
    by (auto simp: readable_dirty_def readDirtyPath_def parseDirtyPathEventType_def parseDirtyPathStatus_def)
  with Cons show ?case by auto
qed simp

section \<open>Inserting\<close>

text \<open>The event a pending row holds for a path.\<close>

definition pendingEvent :: "dirty_table \<Rightarrow> string \<times> string \<Rightarrow> string option" where
  "pendingEvent t k = map_option dp_event_type (find_key idx_dirty_paths_pending_path k t)"

lemma insert_path:
  assumes inv: "dirty_inv t" and act: "action \<noteq> FullRescan" and fresh: "newId \<notin> dp_id ` set t"
  shows "\<exists>t'. insertDirtyPath now newId root (Some p) action t = (Inr (), t') \<and>
    (\<forall>k. pendingEvent t' k = (if k = (root, p) then Some (toDirtyPathEventTypeString action) else pendingEvent t k))"
proof -
  let ?new = "new_dirty now newId root (Some p) action"
  let ?f = "\<lambda>r. r\<lparr>dp_event_type := toDirtyPathEventTypeString action, dp_updated_at := now\<rparr>"
  have "\<exists>t'. sql_upsert dirty_ok (step_failed ''dirty_paths'') idx_dirty_paths_pending_path ?f ?new t = Inr t' \<and>
      dirty_ok t' \<and> (\<forall>k'. find_key idx_dirty_paths_pending_path k' t' =
        (if k' = (root, p) then Some (case find_key idx_dirty_paths_pending_path (root, p) t of
           None \<Rightarrow> ?new | Some x \<Rightarrow> ?f x) else find_key idx_dirty_paths_pending_path k' t))"
  proof (rule find_key_upsert_ok)
    show "dirty_ok (update_where (\<lambda>x. idx_dirty_paths_pending_path x = Some (root, p)) ?f t)"
      by (rule dirty_ok_update)
        (use inv in \<open>auto simp: dirty_inv_def idx_dirty_paths_pending_path_def
           idx_dirty_paths_pending_full_rescan_def split: if_splits\<close>)
    show "dirty_ok (t @ [?new])" if "\<not> has_key idx_dirty_paths_pending_path (root, p) t"
      using that inv fresh
      by (auto simp: dirty_inv_def dirty_ok_def uniq_on_snoc has_key_def dirty_pk_def new_dirty_def
          idx_dirty_paths_pending_path_def idx_dirty_paths_pending_full_rescan_def)
  qed (simp_all add: new_dirty_def idx_dirty_paths_pending_path_def)
  then show ?thesis
    using act by (auto simp: insertDirtyPath_def stmtE_def pendingEvent_def new_dirty_def split: option.split)
qed

section \<open>Relative paths of events\<close>

text \<open>The names of a path after \<open>absolute\<close> and \<open>lexically_normal\<close>.\<close>

definition normal_names :: "string \<Rightarrow> string \<Rightarrow> string list" where
  "normal_names cwd p = names (lexically_normal (absolute cwd p))"

lemma absolute_is_absolute: "is_absolute cwd \<Longrightarrow> is_absolute (absolute cwd p)"
  by (cases cwd) (auto simp: absolute_def path_append_def is_absolute_def)

lemma normalizeFsPath_parts:
  assumes "is_absolute cwd" and "p \<noteq> []"
  obtains trail where "normalizeFsPath cwd p = Inr (build True (normal_names cwd p) trail)"
    and "\<forall>n\<in>set (normal_names cwd p). normal_name n"
    and "trailing_slash (lexically_normal (absolute cwd p)) \<longleftrightarrow> trail \<and> normal_names cwd p \<noteq> []"
proof -
  obtain ns trail where n: "lexically_normal (absolute cwd p) = build True ns trail" "\<forall>n\<in>set ns. normal_name n"
    by (rule lexically_normal_absolute [OF absolute_is_absolute [OF assms(1), of p]]) (rule that)
  then have "\<forall>n\<in>set ns. plain_name n" by (simp add: normal_name_def)
  note parts = build_parts [OF this, of True trail]
  then have "normal_names cwd p = ns" using n by (simp add: normal_names_def)
  with n parts show ?thesis using that [of trail] assms(2) by (simp add: normalizeFsPath_def)
qed

lemma build_relative:
  assumes "\<forall>n\<in>set ns. normal_name n" and "ns \<noteq> []"
  shows "build False ns trail \<noteq> []" and "build False ns trail \<noteq> ''.''"
    and "hd (path_elements (build False ns trail)) = hd ns"
proof -
  have plain: "\<forall>n\<in>set ns. plain_name n" using assms(1) by (simp add: normal_name_def)
  note parts = build_parts [OF plain, of False trail]
  show "build False ns trail \<noteq> []" using join_slash_ends [OF plain assms(2)] by (simp add: build_def)
  have "names ''.'' = [''.'']" by (simp add: names_def)
  then show "build False ns trail \<noteq> ''.''"
    using parts(1) assms by (metis list.set_intros(1) normal_name_def)
  show "hd (path_elements (build False ns trail)) = hd ns"
    using parts assms(2) by (simp add: path_elements_def)
qed

lemma outside_dots:
  assumes "\<forall>n\<in>set xs. normal_name n"
  shows "build False (replicate (Suc m) ''..'' @ xs) trail \<noteq> []"
    and "hd (path_elements (build False (replicate (Suc m) ''..'' @ xs) trail)) = ''..''"
proof -
  have "plain_name ''..''" by (simp add: plain_name_def)
  then have plain: "\<forall>n\<in>set (replicate (Suc m) ''..'' @ xs). plain_name n"
    using assms unfolding normal_name_def by (simp add: ball_Un set_replicate_conv_if)
  show "build False (replicate (Suc m) ''..'' @ xs) trail \<noteq> []"
    using join_slash_ends [OF plain] by (simp add: build_def)
  show "hd (path_elements (build False (replicate (Suc m) ''..'' @ xs) trail)) = ''..''"
    using build_parts [OF plain, of False trail] by (simp add: path_elements_def)
qed

section \<open>Properties\<close>

text \<open>
  In every table that recording events, claiming rows and marking them can reach, a path
  has at most one pending row and a root at most one pending full rescan, every row can be
  read back, and a row has a path exactly when it is not a full rescan.
\<close>

theorem one_pending_row_per_path:
  assumes "dirty_step\<^sup>*\<^sup>* [] t"
  shows "(\<forall>r\<in>set t. \<forall>s\<in>set t. dp_status r = ''pending'' \<and> dp_status s = ''pending'' \<and>
      dp_sync_root_id r = dp_sync_root_id s \<and> dp_relative_path r = dp_relative_path s \<longrightarrow> r = s) \<and>
    (\<exists>ds. getDirtyPathsBySyncRootId root t = Inr ds \<and>
      (\<forall>d\<in>set ds. dirty_relativePath d = None \<longleftrightarrow> dirty_eventType d = FullRescan))"
proof (rule conjI)
  have inv: "dirty_inv t" using dirty_runs.invar_reachable [OF refl assms] .
  show "\<forall>r\<in>set t. \<forall>s\<in>set t. dp_status r = ''pending'' \<and> dp_status s = ''pending'' \<and>
      dp_sync_root_id r = dp_sync_root_id s \<and> dp_relative_path r = dp_relative_path s \<longrightarrow> r = s"
  proof (intro ballI impI, elim conjE)
    fix r s assume rs: "r \<in> set t" "s \<in> set t" "dp_status r = ''pending''" "dp_status s = ''pending''"
      "dp_sync_root_id r = dp_sync_root_id s" "dp_relative_path r = dp_relative_path s"
    show "r = s"
    proof (cases "dp_relative_path r")
      case None
      then have "dp_event_type r = ''full_rescan''" "dp_event_type s = ''full_rescan''"
        using inv rs by (auto simp: dirty_inv_def readable_dirty_def)
      then show ?thesis
        using inv rs None uniq_onD [of idx_dirty_paths_pending_full_rescan t r s "dp_sync_root_id r"]
        by (simp add: dirty_inv_def dirty_ok_def idx_dirty_paths_pending_full_rescan_def)
    next
      case (Some p)
      then show ?thesis
        using inv rs uniq_onD [of idx_dirty_paths_pending_path t r s "(dp_sync_root_id r, p)"]
        by (simp add: dirty_inv_def dirty_ok_def idx_dirty_paths_pending_path_def)
    qed
  qed
  show "\<exists>ds. getDirtyPathsBySyncRootId root t = Inr ds \<and>
      (\<forall>d\<in>set ds. dirty_relativePath d = None \<longleftrightarrow> dirty_eventType d = FullRescan)"
    using inv readDirtyPaths_readable by (simp add: getDirtyPathsBySyncRootId_def dirty_inv_def)
qed

theorem one_pending_row_per_path_witness:
  "let e = \<lambda>ty. \<lparr>fe_rootId = ''s1'', fe_path = ''/home/a/x'', fe_oldPath = None, fe_type = ty,
       fe_isDirectory = False, fe_cookie = 0\<rparr>;
       roots = [new_root ''t'' demoRoot];
       t = snd (recordEvent ''2'' (\<lambda>_. ''v'') ''/'' roots (e Deleted)
             (snd (recordEvent ''1'' (\<lambda>_. ''u'') ''/'' roots (e Created) [])))
   in map dp_event_type t = [''delete''] \<and> (\<exists>ds. getDirtyPathsBySyncRootId ''s1'' t = Inr ds)"
proof -
  let ?e = "\<lambda>ty. \<lparr>fe_rootId = ''s1'', fe_path = ''/home/a/x'', fe_oldPath = None, fe_type = ty,
       fe_isDirectory = False, fe_cookie = 0\<rparr>"
  let ?s = "snd (recordEvent ''1'' (\<lambda>_. ''u'') ''/'' [new_root ''t'' demoRoot] (?e Created) [])"
  let ?t = "snd (recordEvent ''2'' (\<lambda>_. ''v'') ''/'' [new_root ''t'' demoRoot] (?e Deleted) ?s)"
  have "dirty_step [] ?s" "dirty_step ?s ?t" by (rule dirty_step.record_event)+
  then have "dirty_step\<^sup>*\<^sup>* [] ?t" by (meson converse_rtranclp_into_rtranclp r_into_rtranclp)
  from one_pending_row_per_path [OF this, of "''s1''"]
  have "\<exists>ds. getDirtyPathsBySyncRootId ''s1'' ?t = Inr ds" by blast
  moreover have "map dp_event_type ?t = [''delete'']" by code_simp
  ultimately show ?thesis by (simp add: Let_def)
qed

text \<open>
  Which events are recorded and under what path: an event's path is taken, made absolute
  and normal, and recorded relative to the root exactly when it lies strictly below the root;
  the recorded path is the names below the root. A path outside the root, or the root itself,
  is ignored, also when it is written with dots that leave the root.
\<close>

theorem relative_path_below_root:
  assumes "is_absolute cwd" and "path \<noteq> []" and "rootPath \<noteq> []"
  shows "toRelativePath cwd rootPath path =
    Inr (if \<exists>ns. ns \<noteq> [] \<and> normal_names cwd path = normal_names cwd rootPath @ ns
         then Some (build False (drop (length (normal_names cwd rootPath)) (normal_names cwd path))
           (trailing_slash (lexically_normal (absolute cwd path))))
         else None)"
proof -
  let ?ps = "normal_names cwd path" and ?rs = "normal_names cwd rootPath"
  obtain t where p: "normalizeFsPath cwd path = Inr (build True ?ps t)" "\<forall>n\<in>set ?ps. normal_name n"
    "trailing_slash (lexically_normal (absolute cwd path)) \<longleftrightarrow> t \<and> ?ps \<noteq> []"
    using normalizeFsPath_parts [OF assms(1,2)] by blast
  obtain u where r: "normalizeFsPath cwd rootPath = Inr (build True ?rs u)" "\<forall>n\<in>set ?rs. normal_name n"
    using normalizeFsPath_parts [OF assms(1,3)] by blast
  have run: "toRelativePath cwd rootPath path =
      (let relative = lexically_relative (build True ?ps t) (build True ?rs u) in
       if relative = [] then Inr (Some [])
       else if relative = ''.'' \<or> hd (path_elements relative) = ''..'' then Inr None
       else Inr (Some relative))"
    by (simp add: toRelativePath_def p(1) r(1))
  show ?thesis
  proof (cases rule: list_prefix_cases [of ?ps ?rs])
    case same
    then show ?thesis using run relative_same [OF r(2), of t u] by simp
  next
    case (below zs)
    have zs: "\<forall>n\<in>set zs. normal_name n" using p(2) below(1) by simp
    then have "hd zs \<noteq> ''..''" using below(2) by (cases zs) (auto simp: normal_name_def)
    moreover have "lexically_relative (build True ?ps t) (build True ?rs u) = build False zs t"
      using relative_below [OF r(2) zs below(2), of t u] below(1) by simp
    ultimately show ?thesis
      using run build_relative [OF zs below(2), of t] below p(3) by (simp add: Let_def)
  next
    case (apart cs us v vs)
    have "lexically_relative (build True ?ps t) (build True ?rs u) =
        build False (replicate (Suc (length vs)) ''..'' @ us) (t \<and> cs @ us \<noteq> [])"
      using relative_outside [of cs us v vs t u] p(2) r(2) apart by simp
    moreover have "\<forall>n\<in>set us. normal_name n" using p(2) apart(1) by simp
    ultimately have "toRelativePath cwd rootPath path = Inr None"
      using run outside_dots [of us "length vs"] by (simp add: Let_def)
    moreover have "\<not> (\<exists>ns. ns \<noteq> [] \<and> ?ps = ?rs @ ns)" using apart by auto
    ultimately show ?thesis by simp
  qed
qed

theorem relative_path_below_root_witness:
  "toRelativePath ''/'' ''/home/a/'' ''/home/b/../a/./x/y'' = Inr (Some ''x/y'') \<and>
   toRelativePath ''/'' ''/home/a'' ''/home/a/x/../../b'' = Inr None"
proof -
  have e: "normal_names ''/'' ''/home/a/'' = [''home'', ''a'']" "normal_names ''/'' ''/home/a'' = [''home'', ''a'']"
    "normal_names ''/'' ''/home/b/../a/./x/y'' = [''home'', ''a'', ''x'', ''y'']"
    "normal_names ''/'' ''/home/a/x/../../b'' = [''home'', ''b'']"
    "\<not> trailing_slash (lexically_normal (absolute ''/'' ''/home/b/../a/./x/y''))" by code_simp+
  have "is_absolute ''/''" by code_simp
  then show ?thesis
    using relative_path_below_root [of "''/''" "''/home/b/../a/./x/y''" "''/home/a/''"]
      relative_path_below_root [of "''/''" "''/home/a/x/../../b''" "''/home/a''"]
    by (simp add: e build_def)
qed

text \<open>
  Recording a path event never fails on a well-formed table and a fresh identifier; the
  path then has a pending row with this event, whatever event was pending for it before, and
  the pending events of all other paths are unchanged.
\<close>

theorem last_event_wins:
  assumes "dirty_inv t" and "action \<noteq> FullRescan" and "newId \<notin> dp_id ` set t"
  shows "\<exists>t'. insertDirtyPath now newId root (Some p) action t = (Inr (), t') \<and> dirty_inv t' \<and>
    (\<forall>k. pendingEvent t' k = (if k = (root, p) then Some (toDirtyPathEventTypeString action) else pendingEvent t k))"
  using insert_path [OF assms, of now root p] keepsD [OF keeps_insertDirtyPath assms(1), of now newId root "Some p" action]
  by auto

theorem last_event_wins_witness:
  "\<exists>t'. insertDirtyPath ''n'' ''i'' ''s'' (Some ''p'') Delete [] = (Inr (), t') \<and>
     pendingEvent t' (''s'', ''p'') = Some ''delete'' \<and> pendingEvent t' (''s'', ''q'') = None"
proof -
  have "pendingEvent [] (''s'', ''q'') = None" by code_simp
  then show ?thesis using last_event_wins [of "[]" Delete "''i''" "''n''" "''s''" "''p''"] by auto
qed

text \<open>
  A path whose processing failed is tried again: while no row of the root is pending, the
  next claim after the failure takes the same row. So a path that keeps failing is claimed
  before every other failed path that was recorded later.
\<close>

theorem failed_path_claimed_again:
  assumes inv: "dirty_inv t" and head: "pendingDirty root t = r # rs" and failed: "dp_status r = ''failed''"
  shows "\<exists>t1 t2 t3 d. claimNextPending now root t = (Inr (Some (claimedDirty r)), t1) \<and>
    markDirtyFailed now (dp_id r) reason t1 = (Inr (), t2) \<and>
    claimNextPending now root t2 = (Inr (Some d), t3) \<and> dirty_id d = dp_id r \<and> dirty_inv t3"
proof -
  let ?p = "\<lambda>x. dp_id x = dp_id r"
  define fail where "fail x = x\<lparr>dp_status := ''failed'', dp_error_message := Some reason, dp_updated_at := now\<rparr>"
    for x :: dirty_row
  define t1 where "t1 = update_where ?p (run_dirty now) t"
  define t2 where "t2 = update_where ?p fail t1"
  have inv1: "dirty_inv t1" and claim: "claimNextPending now root t = (Inr (Some (claimedDirty r)), t1)"
    using claim_dirty_row [OF inv head, of now] keepsD [OF keeps_claimNextPending inv, of now root] by (simp_all add: t1_def)
  have "dirty_ok t2"
    unfolding t2_def by (rule dirty_ok_update) (use inv1 in \<open>simp_all add: dirty_inv_def fail_def
        idx_dirty_paths_pending_path_def idx_dirty_paths_pending_full_rescan_def\<close>)
  then have mark: "markDirtyFailed now (dp_id r) reason t1 = (Inr (), t2)"
    by (simp add: markDirtyFailed_def stmtE_def sql_update_def t2_def fail_def [abs_def])
  then have inv2: "dirty_inv t2" using keepsD [OF keeps_marks(2) inv1, of now "dp_id r" reason] by simp
  have mem: "r \<in> set t" using head set_select_ordered [of claim_rank "claimable_dirty root" t]
    by (auto simp: pendingDirty_def)
  have same: "x = r" if "x \<in> set t" "dp_id x = dp_id r" for x
    using that mem dirty_inv_ids [OF inv] by (simp add: distinct_map inj_on_def)
  have "t2 = update_where ?p fail t"
    by (simp add: t1_def t2_def update_where_def run_dirty_def fail_def)
  moreover have "select_ordered claim_rank (claimable_dirty root) (update_where ?p fail t) =
      update_where ?p fail (select_ordered claim_rank (claimable_dirty root) t)"
    by (rule select_ordered_update, drule same, assumption)
      (use failed in \<open>simp add: fail_def claim_rank_def claimable_dirty_def\<close>)
  ultimately have "pendingDirty root t2 = fail r # update_where ?p fail rs"
    using head by (simp add: pendingDirty_def)
  from claim_dirty_row [OF inv2 this, of now] keepsD [OF keeps_claimNextPending inv2, of now root]
  have "\<exists>t3 d. claimNextPending now root t2 = (Inr (Some d), t3) \<and> dirty_id d = dp_id r \<and> dirty_inv t3"
    by (simp add: claimedDirty_def fail_def)
  with claim mark show ?thesis by blast
qed

definition failed_rows :: dirty_table where
  "failed_rows = [(new_dirty ''1'' ''a'' ''s'' (Some ''p'') Scan)\<lparr>dp_status := ''failed''\<rparr>,
     (new_dirty ''2'' ''b'' ''s'' (Some ''q'') Scan)\<lparr>dp_status := ''failed''\<rparr>]"

theorem failed_path_claimed_again_witness:
  "\<exists>t1 t2 t3 d. claimNextPending ''3'' ''s'' failed_rows = (Inr (Some (claimedDirty (hd failed_rows))), t1) \<and>
    markDirtyFailed ''3'' ''a'' ''scanPath failed'' t1 = (Inr (), t2) \<and>
    claimNextPending ''3'' ''s'' t2 = (Inr (Some d), t3) \<and> dirty_id d = ''a''"
proof -
  have inv: "dirty_inv failed_rows" by code_simp
  have rows: "pendingDirty ''s'' failed_rows = hd failed_rows # tl failed_rows" by code_simp
  have "dp_status (hd failed_rows) = ''failed''" "dp_id (hd failed_rows) = ''a''" by code_simp+
  then show ?thesis using failed_path_claimed_again [OF inv rows, of "''3''" "''scanPath failed''"] by auto
qed

end
