(* ===== verification/Codecs.thy ===== *)
theory Codecs
  imports Prelude
begin

unbundle bit_operations_syntax

text \<open>
  The text encodings: standard and URL-safe base64 (helpers/Base64.cpp, and the copy in
  fs/FileEncryptor.cpp), lower-case hexadecimal (helpers/Hex.cpp) and \<open>std::to_string\<close>.
  Bytes are 8-bit words, the shifted blocks 32-bit words, and the decoder's accumulator is the
  32-bit \<open>int\<close> of the source, whose left shift drops the high bits.
\<close>

type_synonym bytes = "8 word list"

section \<open>Base64\<close>

definition kBase64Alphabet :: string where
  "kBase64Alphabet = ''ABCDEFGHIJKLMNOPQRSTUVWXYZabcdefghijklmnopqrstuvwxyz0123456789+/''"

definition char_ge :: "char \<Rightarrow> char \<Rightarrow> bool" where
  "char_ge c d \<longleftrightarrow> (of_char d :: int) \<le> of_char c"

text \<open>The distance \<open>ch - 'A'\<close> of two characters, as \<open>int\<close>s.\<close>

definition char_sub :: "char \<Rightarrow> char \<Rightarrow> int" where
  "char_sub c d = of_char c - of_char d"

definition decodeBase64Char :: "char \<Rightarrow> int" where
  "decodeBase64Char ch =
     (if char_ge ch CHR ''A'' \<and> char_ge CHR ''Z'' ch then char_sub ch CHR ''A''
      else if char_ge ch CHR ''a'' \<and> char_ge CHR ''z'' ch then char_sub ch CHR ''a'' + 26
      else if char_ge ch CHR ''0'' \<and> char_ge CHR ''9'' ch then char_sub ch CHR ''0'' + 52
      else if ch = CHR ''+'' then 62
      else if ch = CHR ''/'' then 63
      else - 1)"

text \<open>\<open>kBase64Alphabet[(block >> n) & 0x3F]\<close>.\<close>

definition sextet :: "32 word \<Rightarrow> nat \<Rightarrow> nat" where
  "sextet block n = unat (drop_bit n block AND 0x3F)"

definition block_of :: "8 word \<Rightarrow> 8 word \<Rightarrow> 8 word \<Rightarrow> 32 word" where
  "block_of a b c = push_bit 16 (ucast a) OR push_bit 8 (ucast b) OR ucast c"

fun encodeBase64 :: "bytes \<Rightarrow> string" where
  "encodeBase64 (a # b # c # rest) =
     (let block = block_of a b c in
      map (\<lambda>n. kBase64Alphabet ! sextet block n) [18, 12, 6, 0] @ encodeBase64 rest)"
| "encodeBase64 [a] =
     map (\<lambda>n. kBase64Alphabet ! sextet (push_bit 16 (ucast a)) n) [18, 12] @ ''==''"
| "encodeBase64 [a, b] =
     map (\<lambda>n. kBase64Alphabet ! sextet (push_bit 16 (ucast a) OR push_bit 8 (ucast b)) n) [18, 12, 6] @ ''=''"
| "encodeBase64 [] = []"

text \<open>\<open>std::isspace\<close> in the C locale.\<close>

definition isspace :: "char \<Rightarrow> bool" where
  "isspace c \<longleftrightarrow> c = CHR '' '' \<or> ((of_char c :: nat) \<ge> 9 \<and> (of_char c :: nat) \<le> 13)"

text \<open>The loop of \<open>decodeBase64\<close> with its locals \<open>val\<close>, \<open>valb\<close> and \<open>output\<close>.\<close>

fun decodeBase64_loop :: "string \<Rightarrow> 32 word \<Rightarrow> int \<Rightarrow> bytes \<Rightarrow> bytes result" where
  "decodeBase64_loop [] val valb out = Inr out"
| "decodeBase64_loop (ch # rest) val valb out =
     (if isspace ch then decodeBase64_loop rest val valb out
      else if ch = CHR ''='' then Inr out
      else
        let decoded = decodeBase64Char ch in
        if decoded < 0 then Inl (Invalid_argument ''Invalid base64 input'')
        else
          let val' = push_bit 6 val + word_of_int decoded; valb' = valb + 6 in
          if 0 \<le> valb'
          then decodeBase64_loop rest val' (valb' - 8)
                 (out @ [ucast (signed_drop_bit (nat valb') val' AND 0xFF)])
          else decodeBase64_loop rest val' valb' out)"

definition decodeBase64 :: "string \<Rightarrow> bytes result" where
  "decodeBase64 input = decodeBase64_loop input 0 (- 8) []"

definition base64_url_char :: "char \<Rightarrow> char" where
  "base64_url_char ch = (if ch = CHR ''+'' then CHR ''-'' else if ch = CHR ''/'' then CHR ''_'' else ch)"

definition encodeBase64URL :: "bytes \<Rightarrow> string" where
  "encodeBase64URL bs =
     rev (dropWhile (\<lambda>ch. ch = CHR ''='') (rev (map base64_url_char (encodeBase64 bs))))"

section \<open>Hexadecimal\<close>

definition kHex :: string where
  "kHex = ''0123456789abcdef''"

definition decodeHexNibble :: "char \<Rightarrow> int" where
  "decodeHexNibble ch =
     (if char_ge ch CHR ''0'' \<and> char_ge CHR ''9'' ch then char_sub ch CHR ''0''
      else if char_ge ch CHR ''a'' \<and> char_ge CHR ''f'' ch then char_sub ch CHR ''a'' + 10
      else if char_ge ch CHR ''A'' \<and> char_ge CHR ''F'' ch then char_sub ch CHR ''A'' + 10
      else - 1)"

definition encodeHex :: "bytes \<Rightarrow> string" where
  "encodeHex bs = concat (map (\<lambda>b. [kHex ! unat (drop_bit 4 b AND 0x0F), kHex ! unat (b AND 0x0F)]) bs)"

fun decodeHex_loop :: "string \<Rightarrow> bytes \<Rightarrow> bytes result" where
  "decodeHex_loop (h # l # rest) out =
     (let high = decodeHexNibble h; low = decodeHexNibble l in
      if high < 0 \<or> low < 0 then Inl (Invalid_argument ''Invalid hex input'')
      else decodeHex_loop rest (out @ [word_of_int (push_bit 4 high OR low)]))"
| "decodeHex_loop _ out = Inr out"

definition decodeHex :: "string \<Rightarrow> bytes result" where
  "decodeHex input =
     (if length input mod 2 \<noteq> 0 then Inl (Invalid_argument ''Invalid hex input length'')
      else decodeHex_loop input [])"

section \<open>Decimal numbers\<close>

definition digit_char :: "nat \<Rightarrow> char" where
  "digit_char d = ''0123456789'' ! d"

fun nat_to_string :: "nat \<Rightarrow> string" where
  "nat_to_string n = (if n < 10 then [digit_char n] else nat_to_string (n div 10) @ [digit_char (n mod 10)])"

declare nat_to_string.simps [simp del]

text \<open>\<open>std::to_string\<close> of a signed integer.\<close>

definition to_string :: "int \<Rightarrow> string" where
  "to_string i = (if i < 0 then CHR ''-'' # nat_to_string (nat (- i)) else nat_to_string (nat i))"

section \<open>Round trips\<close>

lemma decode_alphabet: "i < 64 \<Longrightarrow> decodeBase64Char (kBase64Alphabet ! i) = int i"
proof -
  have "\<forall>i\<in>set [0..<64]. decodeBase64Char (kBase64Alphabet ! i) = int i" by code_simp
  then show "i < 64 \<Longrightarrow> ?thesis" by simp
qed

lemma alphabet_plain: "i < 64 \<Longrightarrow> \<not> isspace (kBase64Alphabet ! i) \<and> kBase64Alphabet ! i \<noteq> CHR ''=''"
proof -
  have "\<forall>i\<in>set [0..<64]. \<not> isspace (kBase64Alphabet ! i) \<and> kBase64Alphabet ! i \<noteq> CHR ''=''" by code_simp
  then show "i < 64 \<Longrightarrow> ?thesis" by simp
qed

lemma sextet_less: "sextet b n < 64"
proof -
  have "drop_bit n b AND 0x3F \<le> (0x3F :: 32 word)" by (rule word_and_le1)
  then show ?thesis by (simp add: sextet_def word_le_nat_alt)
qed

text \<open>The accumulator after one more sextet.\<close>

definition feed :: "32 word \<Rightarrow> 32 word \<Rightarrow> nat \<Rightarrow> 32 word" where
  "feed v w n = push_bit 6 v OR take_bit 6 (drop_bit n w)"

lemma and_masks: "(w :: 32 word) AND 0x3F = take_bit 6 w" "(w :: 32 word) AND 0xFF = take_bit 8 w"
  by (simp_all add: take_bit_eq_mask mask_numeral)

lemma feed_add: "push_bit 6 v + (drop_bit n w AND 0x3F) = feed v w n"
  unfolding feed_def and_masks
  by (rule disjunctive_add_eq_or, rule bit_eqI) (auto simp: bit_simps)

text \<open>One character of the alphabet, as the decoder reads it, and the padding.\<close>

lemma decode_sextet:
  "decodeBase64_loop (kBase64Alphabet ! sextet w n # rest) val valb out =
     (if 0 \<le> valb + 6
      then decodeBase64_loop rest (feed val w n) (valb - 2)
             (out @ [ucast (take_bit 8 (signed_drop_bit (nat (valb + 6)) (feed val w n)))])
      else decodeBase64_loop rest (feed val w n) (valb + 6) out)"
  using decode_alphabet [OF sextet_less] alphabet_plain [OF sextet_less]
  by (simp add: sextet_def Let_def feed_add [unfolded and_masks] and_masks)

lemma decode_padding: "decodeBase64_loop (CHR ''='' # rest) val valb out = Inr out"
  by (simp add: isspace_def)

declare decodeBase64_loop.simps(2) [simp del]

lemma less8_cases: "(n :: nat) < 8 \<Longrightarrow> n = 0 \<or> n = 1 \<or> n = 2 \<or> n = 3 \<or> n = 4 \<or> n = 5 \<or> n = 6 \<or> n = 7"
  by linarith

lemma fed_bytes:
  "(ucast (take_bit 8 (signed_drop_bit 4 (feed (feed v w 18) w 12))) :: 8 word) = ucast (drop_bit 16 w)"
  "(ucast (take_bit 8 (signed_drop_bit 2 (feed (feed v w 12) w 6))) :: 8 word) = ucast (drop_bit 8 w)"
  "(ucast (take_bit 8 (feed (feed v w 6) w 0)) :: 8 word) = ucast w"
  unfolding feed_def by (rule bit_word_eqI; auto dest!: less8_cases simp: bit_simps)+

lemma block_bytes:
  "(ucast (drop_bit 16 (block_of a b c)) :: 8 word) = a"
  "(ucast (drop_bit 8 (block_of a b c)) :: 8 word) = b"
  "(ucast (block_of a b c) :: 8 word) = c"
  by (rule bit_word_eqI; auto simp: block_of_def bit_simps dest: bit_imp_le_length)+

lemmas decode_simps = decode_sextet decode_padding fed_bytes

lemma decode_block:
  "decodeBase64_loop (map (\<lambda>n. kBase64Alphabet ! sextet w n) [18, 12, 6, 0] @ rest) val (- 8) out =
     decodeBase64_loop rest (feed (feed (feed (feed val w 18) w 12) w 6) w 0) (- 8)
       (out @ [ucast (drop_bit 16 w), ucast (drop_bit 8 w), ucast w])"
  by (simp add: decode_simps)

lemma decode_encode_loop: "decodeBase64_loop (encodeBase64 bs) val (- 8) out = Inr (out @ bs)"
proof (induction bs arbitrary: val out rule: encodeBase64.induct)
  case (1 a b c rest)
  then show ?case by (simp add: decode_block block_bytes del: list.map)
next
  case (2 a)
  then show ?case using block_bytes(1) [of a 0 0] by (simp add: decode_simps block_of_def)
next
  case (3 a b)
  then show ?case using block_bytes(1,2) [of a b 0] by (simp add: decode_simps block_of_def)
qed simp

interpretation base64: codec encodeBase64 decodeBase64
  by unfold_locales (simp add: decodeBase64_def decode_encode_loop)

subsection \<open>The URL-safe variant\<close>

lemma encodeBase64_Nil_iff: "encodeBase64 bs = [] \<longleftrightarrow> bs = []"
  by (metis base64.encode_eq_iff encodeBase64.simps(4))

definition from_url_char :: "char \<Rightarrow> char" where
  "from_url_char ch = (if ch = CHR ''-'' then CHR ''+'' else if ch = CHR ''_'' then CHR ''/'' else ch)"

definition url_safe :: "char \<Rightarrow> bool" where
  "url_safe c \<longleftrightarrow> c \<in> set ''ABCDEFGHIJKLMNOPQRSTUVWXYZabcdefghijklmnopqrstuvwxyz0123456789-_''"

lemma url_alphabet:
  "i < 64 \<Longrightarrow> from_url_char (base64_url_char (kBase64Alphabet ! i)) = kBase64Alphabet ! i \<and>
     base64_url_char (kBase64Alphabet ! i) \<noteq> CHR ''='' \<and> url_safe (base64_url_char (kBase64Alphabet ! i))"
proof -
  have "\<forall>i\<in>set [0..<64]. from_url_char (base64_url_char (kBase64Alphabet ! i)) = kBase64Alphabet ! i \<and>
     base64_url_char (kBase64Alphabet ! i) \<noteq> CHR ''='' \<and> url_safe (base64_url_char (kBase64Alphabet ! i))"
    by code_simp
  then show "i < 64 \<Longrightarrow> ?thesis" by simp
qed

text \<open>The encoding is a body of alphabet characters and its padding.\<close>

lemma encodeBase64_shape:
  "\<exists>ks k. (\<forall>i\<in>set ks. i < 64) \<and> encodeBase64 bs = map ((!) kBase64Alphabet) ks @ replicate k CHR ''=''"
proof (induction bs rule: encodeBase64.induct)
  case (1 a b c rest)
  then obtain ks k where "\<forall>i\<in>set ks. i < 64"
    and "encodeBase64 rest = map ((!) kBase64Alphabet) ks @ replicate k CHR ''=''" by auto
  then show ?case
    by (intro exI [of _ "map (sextet (block_of a b c)) [18, 12, 6, 0] @ ks"] exI [of _ k])
      (auto simp: sextet_less Let_def)
next
  case (2 a)
  show ?case
    by (intro exI [of _ "map (sextet (push_bit 16 (ucast a))) [18, 12]"] exI [of _ 2])
      (simp add: sextet_less numeral_2_eq_2)
next
  case (3 a b)
  show ?case
    by (intro exI [of _ "map (sextet (push_bit 16 (ucast a) OR push_bit 8 (ucast b))) [18, 12, 6]"] exI [of _ 1])
      (simp add: sextet_less)
qed auto

lemma decode_unpadded:
  "decodeBase64_loop (body @ replicate k CHR ''='') val valb out = decodeBase64_loop body val valb out"
proof (induction body arbitrary: val valb out)
  case Nil
  then show ?case by (cases k) (simp_all add: decode_padding)
next
  case (Cons c body)
  then show ?case by (simp add: decodeBase64_loop.simps(2) Let_def)
qed

lemma encodeBase64URL_body:
  assumes "\<forall>i\<in>set ks. i < 64" and "encodeBase64 bs = map ((!) kBase64Alphabet) ks @ replicate k CHR ''=''"
  shows "encodeBase64URL bs = map (base64_url_char \<circ> (!) kBase64Alphabet) ks"
proof -
  have "dropWhile (\<lambda>ch. ch = CHR ''='') (rev (map (base64_url_char \<circ> (!) kBase64Alphabet) ks)) =
      rev (map (base64_url_char \<circ> (!) kBase64Alphabet) ks)"
    using assms(1) by (cases ks rule: rev_cases) (auto simp: url_alphabet)
  then show ?thesis
    by (simp add: encodeBase64URL_def assms(2) base64_url_char_def dropWhile_append)
qed

definition decodeBase64URL :: "string \<Rightarrow> bytes result" where
  "decodeBase64URL s = decodeBase64 (map from_url_char s)"

interpretation base64url: codec encodeBase64URL decodeBase64URL
proof
  fix bs
  obtain ks k where ks: "\<forall>i\<in>set ks. i < 64"
    and enc: "encodeBase64 bs = map ((!) kBase64Alphabet) ks @ replicate k CHR ''=''"
    using encodeBase64_shape by blast
  have "map from_url_char (encodeBase64URL bs) = map ((!) kBase64Alphabet) ks"
    using ks by (simp add: encodeBase64URL_body [OF ks enc] url_alphabet)
  then show "decodeBase64URL (encodeBase64URL bs) = Inr bs"
    using decode_encode_loop [of bs 0 "[]"]
    by (simp add: decodeBase64URL_def decodeBase64_def enc decode_unpadded)
qed

subsection \<open>Hexadecimal\<close>

lemma decode_hex_digit: "i < 16 \<Longrightarrow> decodeHexNibble (kHex ! i) = int i"
proof -
  have "\<forall>i\<in>set [0..<16]. decodeHexNibble (kHex ! i) = int i" by code_simp
  then show "i < 16 \<Longrightarrow> ?thesis" by simp
qed

lemma nibbles_join: "word_of_int (push_bit 4 (uint (drop_bit 4 b AND 0x0F)) OR uint (b AND 0x0F)) = (b :: 8 word)"
proof -
  have m: "(w :: 8 word) AND 0x0F = take_bit 4 w" for w by (simp add: take_bit_eq_mask mask_numeral)
  show ?thesis unfolding m
    by (rule bit_word_eqI) (auto dest!: less8_cases simp: bit_simps bit_word_iff_drop_bit_and [symmetric])
qed

lemma nibble_less: "unat ((b :: 8 word) AND 0x0F) < 16"
  using word_and_le1 [of b "0x0F"] by (simp add: word_le_nat_alt)

lemma decode_encode_hex_loop: "decodeHex_loop (encodeHex bs) out = Inr (out @ bs)"
proof (induction bs arbitrary: out)
  case Nil
  then show ?case by (simp add: encodeHex_def)
next
  case (Cons b bs)
  have "decodeHexNibble (kHex ! unat (w AND 0x0F)) = uint (w AND 0x0F)" for w :: "8 word"
    by (simp add: decode_hex_digit [OF nibble_less])
  with Cons show ?case by (simp add: encodeHex_def Let_def nibbles_join)
qed

lemma length_encodeHex: "length (encodeHex bs) = 2 * length bs"
  by (induction bs) (simp_all add: encodeHex_def)

interpretation hex: codec encodeHex decodeHex
  by unfold_locales (simp add: decodeHex_def length_encodeHex decode_encode_hex_loop)

subsection \<open>Decimal numbers\<close>

definition digit_value :: "char \<Rightarrow> nat" where
  "digit_value c = of_char c - 48"

definition string_to_nat :: "string \<Rightarrow> nat" where
  "string_to_nat = foldl (\<lambda>n c. 10 * n + digit_value c) 0"

lemma digit_round_trip: "d < 10 \<Longrightarrow> digit_value (digit_char d) = d \<and> digit_char d \<noteq> CHR ''-'' \<and> digit_char d \<noteq> CHR '':''"
proof -
  have "\<forall>d\<in>set [0..<10]. digit_value (digit_char d) = d \<and> digit_char d \<noteq> CHR ''-'' \<and> digit_char d \<noteq> CHR '':''"
    by code_simp
  then show "d < 10 \<Longrightarrow> ?thesis" by simp
qed

lemma string_to_nat_round_trip: "string_to_nat (nat_to_string n) = n"
  by (induction n rule: nat_to_string.induct)
    (subst nat_to_string.simps, simp add: string_to_nat_def digit_round_trip)

lemma nat_to_string_chars: "c \<in> set (nat_to_string n) \<Longrightarrow> c \<noteq> CHR ''-'' \<and> c \<noteq> CHR '':''"
proof (induction n rule: nat_to_string.induct)
  case (1 n)
  then show ?case
    by (cases "n < 10") (auto simp: nat_to_string.simps [of n] digit_round_trip)
qed

lemma nat_to_string_inj: "nat_to_string m = nat_to_string n \<longleftrightarrow> m = n"
  using string_to_nat_round_trip by metis

lemma to_string_inj: "to_string i = to_string j \<longleftrightarrow> i = j"
proof -
  have "CHR ''-'' # s \<noteq> nat_to_string n" for s n
    using nat_to_string_chars [of "CHR ''-''" n] by (metis list.set_intros(1))
  then show ?thesis
    by (auto simp: to_string_def nat_to_string_inj simp flip: neq_commute [of "nat_to_string _"])
qed

lemma to_string_no_colon: "CHR '':'' \<notin> set (to_string i)"
  using nat_to_string_chars by (auto simp: to_string_def)

section \<open>Properties\<close>

text \<open>
  Base64 round trip: \<open>decodeBase64\<close> returns exactly the bytes that were encoded, for every
  byte string of any length, although its 32-bit accumulator overflows; so keys, hashes and
  manifests stored or sent as base64 come back unchanged.
\<close>

theorem base64_round_trip: "decodeBase64 (encodeBase64 bs) = Inr bs"
  by (rule base64.decode_encode)

text \<open>
  Search tokens: the URL-safe unpadded base64 of \<open>FileEncryptor\<close> gives different strings
  for different digests and only characters that need no escaping in a URL.
\<close>

theorem base64url_tokens:
  "(encodeBase64URL xs = encodeBase64URL ys \<longleftrightarrow> xs = ys) \<and> list_all url_safe (encodeBase64URL xs)"
proof
  show "encodeBase64URL xs = encodeBase64URL ys \<longleftrightarrow> xs = ys" by (rule base64url.encode_eq_iff)
  obtain ks k where "\<forall>i\<in>set ks. i < 64"
    and "encodeBase64 xs = map ((!) kBase64Alphabet) ks @ replicate k CHR ''=''"
    using encodeBase64_shape by blast
  then show "list_all url_safe (encodeBase64URL xs)"
    by (simp add: encodeBase64URL_body list_all_iff url_alphabet)
qed

text \<open>
  Hexadecimal round trip, and what \<open>decodeHex\<close> refuses: every encoding decodes to the bytes
  it came from, and a text decodes exactly when its length is even and all its characters are
  hexadecimal digits.
\<close>

theorem hex_round_trip:
  "decodeHex (encodeHex bs) = Inr bs \<and>
   ((\<exists>r. decodeHex s = Inr r) \<longleftrightarrow> even (length s) \<and> list_all (\<lambda>c. 0 \<le> decodeHexNibble c) s)"
proof
  show "decodeHex (encodeHex bs) = Inr bs" by (rule hex.decode_encode)
  have "(\<exists>r. decodeHex_loop s out = Inr r) \<longleftrightarrow> list_all (\<lambda>c. 0 \<le> decodeHexNibble c) s" if "even (length s)" for out
    using that by (induction s out rule: decodeHex_loop.induct) (auto simp: Let_def)
  then show "(\<exists>r. decodeHex s = Inr r) \<longleftrightarrow> even (length s) \<and> list_all (\<lambda>c. 0 \<le> decodeHexNibble c) s"
    by (auto simp: decodeHex_def even_iff_mod_2_eq_zero)
qed

end
