(* ===== verification/Paged_Source.thy ===== *)
theory Paged_Source
  imports Sqlite
begin

text \<open>
  The interface between a table listed in key order and a client that walks it page by page:
  a page holds the first \<open>limit\<close> records after a key, and the client asks for the next page
  with the key of the last record it got, until a page is empty. The client's fact is that
  the walk sees every record exactly once and in order, and that it ends.
\<close>

fun walk :: "nat \<Rightarrow> ('k option \<Rightarrow> 'r list) \<Rightarrow> ('r \<Rightarrow> 'k) \<Rightarrow> 'k option \<Rightarrow> 'r list list" where
  "walk 0 page key after = []"
| "walk (Suc fuel) page key after =
     (let rs = page after in
      if rs = [] then [] else rs # walk fuel page key (Some (key (last rs))))"

text \<open>Where the walk stands after the records \<open>xs\<close>.\<close>

definition cursor :: "('r \<Rightarrow> 'k) \<Rightarrow> 'r list \<Rightarrow> 'k option" where
  "cursor key xs = (if xs = [] then None else Some (key (last xs)))"

locale paged_source =
  fixes invar :: "'t \<Rightarrow> bool"
    and records :: "'t \<Rightarrow> 'r list"
    and key :: "'r \<Rightarrow> 'k::linorder"
    and page :: "'t \<Rightarrow> nat \<Rightarrow> 'k option \<Rightarrow> 'r list"
  assumes keys_strict: "invar t \<Longrightarrow> sorted_wrt (<) (map key (records t))"
    and page_eq: "invar t \<Longrightarrow> page t limit after =
      take limit (filter (\<lambda>r. case after of None \<Rightarrow> True | Some k \<Rightarrow> k < key r) (records t))"
begin

lemma page_after_prefix:
  assumes inv: "invar t" and split: "records t = xs @ ys"
  shows "page t limit (cursor key xs) = take limit ys"
proof -
  have sorted: "sorted_wrt (<) (map key (xs @ ys))" using keys_strict [OF inv] split by simp
  then have "filter (\<lambda>r. key (last xs) < key r) (xs @ ys) = ys" if "xs \<noteq> []"
  proof -
    obtain us u where xs: "xs = us @ [u]" using \<open>xs \<noteq> []\<close> by (cases xs rule: rev_cases) auto
    have "filter (\<lambda>r. key u < key r) us = []"
      using sorted xs by (auto simp: sorted_wrt_append filter_empty_conv)
    moreover have "filter (\<lambda>r. key u < key r) ys = ys"
      using sorted xs by (auto simp: sorted_wrt_append filter_id_conv)
    ultimately show ?thesis using xs by simp
  qed
  then show ?thesis using split by (simp add: page_eq [OF inv] cursor_def del: filter_append)
qed

lemma walk_from_prefix:
  assumes "invar t" and "0 < limit" and "records t = xs @ ys" and "length ys < fuel"
  shows "concat (walk fuel (page t limit) key (cursor key xs)) = ys"
  using assms
proof (induction fuel arbitrary: xs ys)
  case 0
  then show ?case by simp
next
  case (Suc fuel)
  let ?p = "take limit ys"
  note step = page_after_prefix [OF Suc.prems(1,3)]
  show ?case
  proof (cases "ys = []")
    case True
    then show ?thesis using step by (simp add: Let_def)
  next
    case False
    then have ne: "?p \<noteq> []" using Suc.prems(2) by simp
    have "concat (walk fuel (page t limit) key (cursor key (xs @ ?p))) = drop limit ys"
    proof (rule Suc.IH [OF Suc.prems(1,2)])
      show "records t = (xs @ ?p) @ drop limit ys" using Suc.prems(3) by simp
      show "length (drop limit ys) < fuel" using Suc.prems(2,4) False by (cases ys) auto
    qed
    then show ?thesis using ne step by (simp add: Let_def cursor_def)
  qed
qed

lemma walk_all:
  assumes "invar t" and "0 < limit" and "length (records t) < fuel"
  shows "concat (walk fuel (page t limit) key None) = records t"
  using walk_from_prefix [OF assms(1,2), of "[]"] assms(3) by (simp add: cursor_def)

lemma walk_pages:
  "invar t \<Longrightarrow> p \<in> set (walk fuel (page t limit) key after) \<Longrightarrow> p \<noteq> [] \<and> length p \<le> limit"
  by (induction fuel arbitrary: after) (auto simp: Let_def page_eq split: if_splits)

end

end
