(* ===== verification/Entry_Repo.thy ===== *)
theory Entry_Repo
  imports Sync_Policy Codecs Paged_Source
begin

text \<open>
  The table \<open>entries\<close> of migrations/001_initial_schema.sql and the class \<open>EntryRepo\<close>
  (repo/EntryRepo.cpp), which reads it. The column \<open>local_mtime\<close> is text holding
  milliseconds; a \<open>file_time_type\<close> is its count of nanoseconds. Text columns hold the byte
  strings the program writes, and SQLite's default collation compares them byte by byte.
\<close>

section \<open>Rows\<close>

record entry_row =
  r_id :: string
  r_remote_id :: "string option"
  r_sync_root_id :: string
  r_remote_type :: string
  r_local_path :: string
  r_is_directory :: bool
  r_parent_folder_id :: "string option"
  r_local_size :: "int option"
  r_local_mtime :: "string option"
  r_local_deleted_at :: "string option"
  r_local_content_hash :: "string option"
  r_synced_content_hash :: "string option"
  r_encrypted_name :: "string option"
  r_encrypted_metadata :: "string option"
  r_remote_updated_at :: "string option"
  r_synced_remote_updated_at :: "string option"
  r_remote_file_id :: "string option"
  r_remote_folder_id :: "string option"
  r_remote_parent_folder_id :: "string option"
  r_remote_deleted_at :: "string option"
  r_last_remote_seen_at :: "string option"
  r_conflict_state :: "string option"
  r_conflict_reason :: "string option"
  r_sync_state :: string
  r_last_seen_scan_job_id :: "string option"
  r_last_synced_at :: "string option"
  r_updated_at :: string

type_synonym entries_table = "entry_row list"

definition entries_pk :: "entry_row \<Rightarrow> string option" where
  "entries_pk r = Some (r_id r)"

definition idx_entries_sync_root_local_path :: "entry_row \<Rightarrow> (string \<times> string) option" where
  "idx_entries_sync_root_local_path r = Some (r_sync_root_id r, r_local_path r)"

definition entries_ok :: "entries_table \<Rightarrow> bool" where
  "entries_ok t \<longleftrightarrow> uniq_on entries_pk t \<and> uniq_on idx_entries_sync_root_local_path t"

section \<open>Reading a row\<close>

definition parseEntrySyncState :: "string \<Rightarrow> EntrySyncState result" where
  "parseEntrySyncState raw =
     (if raw = ''unchanged'' then Inr Unchanged
      else if raw = ''pending_upload'' then Inr PendingUpload
      else if raw = ''deleted'' then Inr Deleted
      else Inl (Runtime_error (''Unknown entries.sync_state: '' @ raw)))"

definition is_digit :: "char \<Rightarrow> bool" where
  "is_digit c \<longleftrightarrow> char_ge c CHR ''0'' \<and> char_ge CHR ''9'' c"

text \<open>
  \<open>std::stoll\<close>: leading white space, a sign, and as many digits as there are; no digit is
  \<open>invalid_argument\<close> and a value outside 64 bits \<open>out_of_range\<close>.
\<close>

definition stoll :: "string \<Rightarrow> int result" where
  "stoll s =
     (let u = dropWhile isspace s;
          neg = (case u of c # _ \<Rightarrow> c = CHR ''-'' | [] \<Rightarrow> False);
          v = (case u of c # rest \<Rightarrow> if c = CHR ''-'' \<or> c = CHR ''+'' then rest else u | [] \<Rightarrow> []);
          ds = takeWhile is_digit v;
          n = (if neg then - int (string_to_nat ds) else int (string_to_nat ds))
      in if ds = [] then Inl (Invalid_argument ''stoll'')
         else if n < - (2 ^ 63) \<or> 2 ^ 63 \<le> n then Inl (Out_of_range ''stoll'')
         else Inr n)"

definition parseMtime :: "string option \<Rightarrow> int option result" where
  "parseMtime raw =
     (case raw of None \<Rightarrow> Inr None
      | Some s \<Rightarrow> (case stoll s of Inl e \<Rightarrow> Inl e | Inr ms \<Rightarrow> Inr (Some (ms * 1000000))))"

text \<open>
  The fields of an entry, with its parsed state and time; \<open>id\<close>, \<open>sync_root_id\<close>, \<open>local_path\<close>
  and \<open>sync_state\<close> are never \<open>NULL\<close>.
\<close>

definition entry_fields :: "EntrySyncState \<Rightarrow> int option \<Rightarrow> entry_row \<Rightarrow> Entry" where
  "entry_fields st mt r =
     \<lparr>e_id = r_id r, e_remoteId = r_remote_id r, e_remoteFileId = r_remote_file_id r,
      e_localDeletedAt = r_local_deleted_at r, e_remoteDeletedAt = r_remote_deleted_at r,
      e_syncRootId = r_sync_root_id r, e_relativePath = r_local_path r,
      e_isDirectory = r_is_directory r, e_deleted = (st = Deleted),
      e_parentFolderId = r_parent_folder_id r, e_size = r_local_size r, e_mtime = mt,
      e_contentHash = r_local_content_hash r, e_syncedContentHash = r_synced_content_hash r,
      e_remoteUpdatedAt = r_remote_updated_at r,
      e_syncedRemoteUpdatedAt = r_synced_remote_updated_at r,
      e_conflictState = r_conflict_state r, e_syncState = st,
      e_lastSeenScanJobId = r_last_seen_scan_job_id r\<rparr>"

definition readEntry :: "entry_row \<Rightarrow> Entry result" where
  "readEntry r =
     (case parseEntrySyncState (r_sync_state r) of
        Inl e \<Rightarrow> Inl e
      | Inr st \<Rightarrow>
          (case parseMtime (r_local_mtime r) of
             Inl e \<Rightarrow> Inl e
           | Inr mt \<Rightarrow> Inr (entry_fields st mt r)))"

text \<open>The loops that read every row of a result; the first row that cannot be read throws.\<close>

fun readEntries :: "entry_row list \<Rightarrow> Entry list result" where
  "readEntries [] = Inr []"
| "readEntries (r # rs) =
     (case readEntry r of
        Inl e \<Rightarrow> Inl e
      | Inr x \<Rightarrow> (case readEntries rs of Inl e \<Rightarrow> Inl e | Inr xs \<Rightarrow> Inr (x # xs)))"

definition readFirst :: "entry_row list \<Rightarrow> Entry option result" where
  "readFirst rs =
     (case limit1 rs of
        None \<Rightarrow> Inr None
      | Some r \<Rightarrow> (case readEntry r of Inl e \<Rightarrow> Inl e | Inr x \<Rightarrow> Inr (Some x)))"

section \<open>Queries\<close>

definition getEntryById :: "string \<Rightarrow> entries_table \<Rightarrow> Entry option result" where
  "getEntryById entryId t = readFirst (filter (\<lambda>r. r_id r = entryId) t)"

text \<open>
  \<open>remote_id\<close> has no unique index; of several rows with it, the first of the table is taken.
\<close>

definition findEntryByRemoteId :: "string \<Rightarrow> string \<Rightarrow> entries_table \<Rightarrow> Entry option result" where
  "findEntryByRemoteId syncRootId remoteId t =
     readFirst (filter (\<lambda>r. r_sync_root_id r = syncRootId \<and> r_remote_id r = Some remoteId) t)"

definition findEntryByPath :: "string \<Rightarrow> string \<Rightarrow> entries_table \<Rightarrow> Entry option result" where
  "findEntryByPath syncRootId relativePath t =
     readFirst (filter (\<lambda>r. r_sync_root_id r = syncRootId \<and> r_local_path r = relativePath) t)"

definition rootRows :: "string \<Rightarrow> entries_table \<Rightarrow> entry_row list" where
  "rootRows syncRootId t = select_ordered r_local_path (\<lambda>r. r_sync_root_id r = syncRootId) t"

definition listEntriesBySyncRootId :: "string \<Rightarrow> entries_table \<Rightarrow> Entry list result" where
  "listEntriesBySyncRootId syncRootId t = readEntries (rootRows syncRootId t)"

definition listEntriesBySyncRootIdPage ::
    "string \<Rightarrow> int \<Rightarrow> int \<Rightarrow> entries_table \<Rightarrow> Entry list result" where
  "listEntriesBySyncRootIdPage syncRootId limit offset t =
     (if limit \<le> 0 \<or> offset < 0 then Inl (Invalid_argument ''entry page has invalid bounds'')
      else readEntries (take (nat limit) (drop (nat offset) (rootRows syncRootId t))))"

text \<open>The rows of one page of the walk by path.\<close>

definition rowsAfterPath :: "string \<Rightarrow> string option \<Rightarrow> nat \<Rightarrow> entries_table \<Rightarrow> entry_row list" where
  "rowsAfterPath syncRootId afterPath limit t =
     take limit (select_ordered r_local_path
       (\<lambda>r. r_sync_root_id r = syncRootId \<and> (case afterPath of None \<Rightarrow> True | Some p \<Rightarrow> p < r_local_path r)) t)"

definition listEntriesBySyncRootIdAfterPath ::
    "string \<Rightarrow> string option \<Rightarrow> int \<Rightarrow> entries_table \<Rightarrow> Entry list result" where
  "listEntriesBySyncRootIdAfterPath syncRootId afterPath limit t =
     (if limit \<le> 0 then Inl (Invalid_argument ''entry page has invalid limit'')
      else readEntries (rowsAfterPath syncRootId afterPath (nat limit) t))"

definition listPendingUploadDirectoriesBySyncRootId :: "string \<Rightarrow> entries_table \<Rightarrow> Entry list result" where
  "listPendingUploadDirectoriesBySyncRootId syncRootId t =
     readEntries (select_ordered r_local_path (\<lambda>r. r_sync_root_id r = syncRootId \<and>
       r_sync_state r = ''pending_upload'' \<and> r_is_directory r) t)"

definition listPendingUploadFilesBySyncRootId :: "string \<Rightarrow> entries_table \<Rightarrow> Entry list result" where
  "listPendingUploadFilesBySyncRootId syncRootId t =
     readEntries (select_ordered r_local_path (\<lambda>r. r_sync_root_id r = syncRootId \<and>
       r_sync_state r = ''pending_upload'' \<and> \<not> r_is_directory r) t)"

section \<open>Readable tables\<close>

text \<open>What the writers put into the columns that reading has to parse.\<close>

definition readable_row :: "entry_row \<Rightarrow> bool" where
  "readable_row r \<longleftrightarrow> r_sync_state r \<in> {''unchanged'', ''pending_upload'', ''deleted''} \<and>
     (case r_local_mtime r of None \<Rightarrow> True | Some s \<Rightarrow> (\<exists>n. stoll s = Inr n))"

definition entries_inv :: "entries_table \<Rightarrow> bool" where
  "entries_inv t \<longleftrightarrow> entries_ok t \<and> (\<forall>r\<in>set t. readable_row r)"

text \<open>The entry a readable row reads as.\<close>

definition stateOf :: "entry_row \<Rightarrow> EntrySyncState" where
  "stateOf r = (case parseEntrySyncState (r_sync_state r) of Inr st \<Rightarrow> st | Inl _ \<Rightarrow> Unchanged)"

definition mtimeOf :: "entry_row \<Rightarrow> int option" where
  "mtimeOf r = (case parseMtime (r_local_mtime r) of Inr mt \<Rightarrow> mt | Inl _ \<Rightarrow> None)"

definition entryOf :: "entry_row \<Rightarrow> Entry" where
  "entryOf r = entry_fields (stateOf r) (mtimeOf r) r"

lemma entryOf_simps [row_simps, simp]:
  "e_id (entryOf r) = r_id r" "e_relativePath (entryOf r) = r_local_path r"
  "e_syncRootId (entryOf r) = r_sync_root_id r" "e_remoteId (entryOf r) = r_remote_id r"
  "e_localDeletedAt (entryOf r) = r_local_deleted_at r"
  "e_remoteDeletedAt (entryOf r) = r_remote_deleted_at r"
  "e_isDirectory (entryOf r) = r_is_directory r" "e_contentHash (entryOf r) = r_local_content_hash r"
  "e_syncedContentHash (entryOf r) = r_synced_content_hash r"
  "e_remoteUpdatedAt (entryOf r) = r_remote_updated_at r"
  "e_syncedRemoteUpdatedAt (entryOf r) = r_synced_remote_updated_at r"
  "e_conflictState (entryOf r) = r_conflict_state r" "e_size (entryOf r) = r_local_size r"
  "e_lastSeenScanJobId (entryOf r) = r_last_seen_scan_job_id r"
  "e_remoteFileId (entryOf r) = r_remote_file_id r" "e_parentFolderId (entryOf r) = r_parent_folder_id r"
  "e_syncState (entryOf r) = stateOf r" "e_mtime (entryOf r) = mtimeOf r"
  "e_deleted (entryOf r) \<longleftrightarrow> stateOf r = Deleted"
  by (simp_all add: entryOf_def entry_fields_def)

lemma readEntry_readable: "readable_row r \<Longrightarrow> readEntry r = Inr (entryOf r)"
  by (auto simp: readable_row_def entryOf_def readEntry_def parseEntrySyncState_def parseMtime_def
      stateOf_def mtimeOf_def split: option.splits)

lemma readEntries_readable: "\<forall>r\<in>set rs. readable_row r \<Longrightarrow> readEntries rs = Inr (map entryOf rs)"
  by (induction rs) (simp_all add: readEntry_readable)

lemma entries_inv_row: "entries_inv t \<Longrightarrow> r \<in> set t \<Longrightarrow> readable_row r"
  by (simp add: entries_inv_def)

lemma entries_inv_ids: "entries_inv t \<Longrightarrow> distinct (map r_id t)"
  unfolding entries_inv_def entries_ok_def entries_pk_def [abs_def] by (simp add: uniq_on_total)

lemma entries_inv_paths: "entries_inv t \<Longrightarrow> distinct (map (\<lambda>r. (r_sync_root_id r, r_local_path r)) t)"
  unfolding entries_inv_def entries_ok_def idx_entries_sync_root_local_path_def [abs_def]
  by (simp add: uniq_on_total)

text \<open>Lookups of one row.\<close>

lemma readFirst_single: "readable_row r \<Longrightarrow> readFirst [r] = Inr (Some (entryOf r))"
  by (simp add: readFirst_def readEntry_readable)

lemma getEntryById_row:
  assumes "entries_inv t" and "r \<in> set t"
  shows "getEntryById (r_id r) t = Inr (Some (entryOf r))"
  using filter_key_single [OF entries_inv_ids [OF assms(1)] assms(2), of "\<lambda>_. True"]
    readFirst_single [OF entries_inv_row [OF assms]] by (simp add: getEntryById_def)

lemma findEntryByPath_row:
  assumes "entries_inv t" and "r \<in> set t"
  shows "findEntryByPath (r_sync_root_id r) (r_local_path r) t = Inr (Some (entryOf r))"
  using filter_key_single [OF entries_inv_paths [OF assms(1)] assms(2), of "\<lambda>_. True"]
    readFirst_single [OF entries_inv_row [OF assms]] by (simp add: findEntryByPath_def)

lemma findEntryByPath_none:
  assumes "\<forall>r\<in>set t. \<not> (r_sync_root_id r = root \<and> r_local_path r = p)"
  shows "findEntryByPath root p t = Inr None"
proof -
  have "filter (\<lambda>r. r_sync_root_id r = root \<and> r_local_path r = p) t = []"
    using assms by (simp add: filter_empty_conv)
  then show ?thesis by (simp add: findEntryByPath_def readFirst_def)
qed

section \<open>Walking a root page by page\<close>

lemma rootRows_sorted:
  assumes "entries_inv t"
  shows "sorted_wrt (<) (map r_local_path (rootRows root t))"
proof -
  let ?rows = "filter (\<lambda>r. r_sync_root_id r = root) t"
  have "distinct (map r_local_path ?rows)"
    using entries_inv_paths [OF assms] by (induction t) (auto simp: image_iff)
  moreover have "mset (map r_local_path (rootRows root t)) = mset (map r_local_path ?rows)"
    unfolding rootRows_def select_ordered_def by (metis mset_map mset_sort)
  ultimately have "distinct (map r_local_path (rootRows root t))"
    by (metis mset_eq_imp_distinct_iff)
  then show ?thesis
    by (simp add: rootRows_def sorted_select_ordered strict_sorted_iff)
qed

lemma rowsAfterPath_filter:
  "rowsAfterPath root after limit t =
     take limit (filter (\<lambda>r. case after of None \<Rightarrow> True | Some p \<Rightarrow> p < r_local_path r) (rootRows root t))"
  by (simp add: rowsAfterPath_def rootRows_def select_ordered_def filter_sort conj_commute)

interpretation root_pages: paged_source entries_inv "rootRows root" r_local_path
    "\<lambda>t limit after. rowsAfterPath root after limit t" for root
  by unfold_locales (simp_all add: rootRows_sorted rowsAfterPath_filter)

section \<open>Properties\<close>

text \<open>
  Walking a root page by page with \<open>listEntriesBySyncRootIdAfterPath\<close>, each page asked for
  after the last path of the one before, reads every entry of the root exactly once, in the
  order of \<open>listEntriesBySyncRootId\<close>, and ends.
\<close>

theorem page_walk_lists_root:
  assumes "entries_inv t" and "0 < limit"
    and "pages = walk (Suc (length t)) (\<lambda>after. rowsAfterPath root after (nat limit) t) r_local_path None"
  shows "listEntriesBySyncRootId root t = Inr (map entryOf (concat pages)) \<and>
    distinct (map r_local_path (concat pages)) \<and>
    (\<forall>p\<in>set pages. readEntries p = Inr (map entryOf p) \<and> length p \<le> nat limit)"
proof -
  have len: "length (rootRows root t) < Suc (length t)"
    by (simp add: rootRows_def select_ordered_def less_Suc_eq_le)
  have all: "concat pages = rootRows root t"
    unfolding assms(3) using assms(2) by (intro root_pages.walk_all [OF assms(1) _ len]) simp
  have rows: "\<forall>r\<in>set (rootRows root t). readable_row r"
    using entries_inv_row [OF assms(1)] by (auto simp: rootRows_def)
  have "distinct (map r_local_path (rootRows root t))"
    using rootRows_sorted [OF assms(1)] by (simp add: strict_sorted_iff)
  moreover have "readEntries p = Inr (map entryOf p) \<and> length p \<le> nat limit" if p: "p \<in> set pages" for p
  proof
    have "set p \<subseteq> set (rootRows root t)" using p by (auto simp flip: all)
    then show "readEntries p = Inr (map entryOf p)" using rows by (intro readEntries_readable) auto
    show "length p \<le> nat limit"
      using root_pages.walk_pages [OF assms(1) p [unfolded assms(3)]] by simp
  qed
  ultimately show ?thesis
    by (simp add: all listEntriesBySyncRootId_def readEntries_readable [OF rows])
qed

definition demoRow :: "string \<Rightarrow> string \<Rightarrow> entry_row" where
  "demoRow i p = \<lparr>r_id = i, r_remote_id = None, r_sync_root_id = ''s'', r_remote_type = ''file'',
     r_local_path = p, r_is_directory = False, r_parent_folder_id = None, r_local_size = Some 3,
     r_local_mtime = Some ''12'', r_local_deleted_at = None, r_local_content_hash = Some ''h'',
     r_synced_content_hash = None, r_encrypted_name = None, r_encrypted_metadata = None,
     r_remote_updated_at = None, r_synced_remote_updated_at = None, r_remote_file_id = None,
     r_remote_folder_id = None, r_remote_parent_folder_id = None, r_remote_deleted_at = None,
     r_last_remote_seen_at = None, r_conflict_state = Some ''none'', r_conflict_reason = None,
     r_sync_state = ''pending_upload'', r_last_seen_scan_job_id = None, r_last_synced_at = None,
     r_updated_at = ''0''\<rparr>"

definition demoEntries :: entries_table where
  "demoEntries = [demoRow ''2'' ''b'', demoRow ''1'' ''a'']"

lemma demoEntries_inv: "entries_inv demoEntries"
proof -
  have "stoll ''12'' = Inr 12" by code_simp
  then show ?thesis
    by (simp add: entries_inv_def entries_ok_def demoEntries_def demoRow_def uniq_on_Cons entries_pk_def
        idx_entries_sync_root_local_path_def readable_row_def)
qed

theorem page_walk_lists_root_witness:
  "listEntriesBySyncRootId ''s'' demoEntries =
     Inr (map entryOf (concat (walk 3 (\<lambda>after. rowsAfterPath ''s'' after 1 demoEntries) r_local_path None)))"
  using page_walk_lists_root [OF demoEntries_inv, of 1 _ "''s''"]
  by (simp add: demoEntries_def numeral_3_eq_3)

text \<open>
  On a table that satisfies the invariant every lookup succeeds, and finds the row it is
  asked for: by identifier and by path the result is the entry stored there.
\<close>

lemma lookups_find_rows:
  assumes "entries_inv t" and "r \<in> set t"
  shows "getEntryById (r_id r) t = Inr (Some (entryOf r)) \<and>
    findEntryByPath (r_sync_root_id r) (r_local_path r) t = Inr (Some (entryOf r))"
  using getEntryById_row [OF assms] findEntryByPath_row [OF assms] by simp

end
