(* ===== verification/Entry_Writes.thy ===== *)
theory Entry_Writes
  imports Entry_Repo
begin

text \<open>
  The writers of the table \<open>entries\<close>: \<open>LocalEntryRepo\<close> (what a scan of the file system found),
  \<open>RemoteEntryRepo\<close> (what the server listed, and what uploads and downloads finished) and
  \<open>ConflictRepo\<close>. The UUID of a new row and \<open>CURRENT_TIMESTAMP\<close> are arguments.
\<close>

section \<open>LIKE\<close>

text \<open>
  SQLite's \<open>LIKE\<close>: \<open>%\<close> stands for any text, \<open>_\<close> for one character (a whole UTF-8 sequence),
  and ASCII letters match without regard to case. The program escapes neither wildcard.
\<close>

definition ascii_lower :: "char \<Rightarrow> char" where
  "ascii_lower c = (if char_ge c CHR ''A'' \<and> char_ge CHR ''Z'' c then char_of (of_char c + 32 :: nat) else c)"

definition continuation :: "char \<Rightarrow> bool" where
  "continuation c \<longleftrightarrow> (128 :: nat) \<le> of_char c \<and> (of_char c :: nat) < 192"

fun skip_char :: "string \<Rightarrow> string" where
  "skip_char [] = []"
| "skip_char (c # s) = (if (192 :: nat) \<le> of_char c then dropWhile continuation s else s)"

lemma skip_char_length: "length (skip_char (c # s)) < Suc (length s)"
  by (auto simp: less_Suc_eq_le length_dropWhile_le)

function like :: "string \<Rightarrow> string \<Rightarrow> bool" where
  "like [] s \<longleftrightarrow> s = []"
| "like (p # ps) s \<longleftrightarrow>
     (if p = CHR ''%'' then
        like ps s \<or> (case s of [] \<Rightarrow> False | c # t \<Rightarrow> like (p # ps) (skip_char (c # t)))
      else if p = CHR ''_'' then (case s of [] \<Rightarrow> False | c # t \<Rightarrow> like ps (skip_char (c # t)))
      else (case s of [] \<Rightarrow> False | c # t \<Rightarrow> ascii_lower c = ascii_lower p \<and> like ps t))"
  by pat_completeness auto
termination by (relation "measure (\<lambda>(p, s). length p + length s)")
  (use skip_char_length in \<open>auto simp del: skip_char.simps simp: less_SucI\<close>)

section \<open>Local entries\<close>

text \<open>\<open>duration_cast\<close> from nanoseconds to milliseconds, which rounds toward zero.\<close>

definition toMtimeString :: "int \<Rightarrow> string" where
  "toMtimeString time = to_string (if time < 0 then - ((- time) div 1000000) else time div 1000000)"

fun toEntrySyncStateString :: "EntrySyncState \<Rightarrow> string" where
  "toEntrySyncStateString Unchanged = ''unchanged''"
| "toEntrySyncStateString PendingUpload = ''pending_upload''"
| "toEntrySyncStateString Deleted = ''deleted''"

text \<open>A new row, with \<open>NULL\<close> or the column's default wherever the statement names no value.\<close>

definition new_entry :: "string \<Rightarrow> string \<Rightarrow> string \<Rightarrow> string \<Rightarrow> string \<Rightarrow> entry_row" where
  "new_entry now newId root type path =
     \<lparr>r_id = newId, r_remote_id = None, r_sync_root_id = root, r_remote_type = type,
      r_local_path = path, r_is_directory = False, r_parent_folder_id = None, r_local_size = None,
      r_local_mtime = None, r_local_deleted_at = None, r_local_content_hash = None,
      r_synced_content_hash = None, r_encrypted_name = None, r_encrypted_metadata = None,
      r_remote_updated_at = None, r_synced_remote_updated_at = None, r_remote_file_id = None,
      r_remote_folder_id = None, r_remote_parent_folder_id = None, r_remote_deleted_at = None,
      r_last_remote_seen_at = None, r_conflict_state = Some ''none'', r_conflict_reason = None,
      r_sync_state = [], r_last_seen_scan_job_id = None, r_last_synced_at = None, r_updated_at = now\<rparr>"

record DirectoryEntryUpsert =
  du_syncRootId :: string
  du_relativePath :: string
  du_lastSeenScanId :: string

record FileEntryUpsert =
  fu_syncRootId :: string
  fu_relativePath :: string
  fu_size :: int
  fu_mtime :: int
  fu_contentHash :: string
  fu_syncState :: EntrySyncState
  fu_lastSeenScanId :: string

text \<open>\<open>CASE WHEN entries.local_deleted_at IS NOT NULL THEN NULL ELSE x END\<close>.\<close>

definition unless_gone :: "entry_row \<Rightarrow> 'a option \<Rightarrow> 'a option" where
  "unless_gone r x = (if r_local_deleted_at r \<noteq> None then None else x)"

definition update_directory :: "string \<Rightarrow> DirectoryEntryUpsert \<Rightarrow> entry_row \<Rightarrow> entry_row" where
  "update_directory now d r = r\<lparr>r_is_directory := True,
     r_remote_id := unless_gone r (r_remote_id r),
     r_parent_folder_id := unless_gone r (r_parent_folder_id r),
     r_remote_folder_id := unless_gone r (r_remote_folder_id r),
     r_remote_parent_folder_id := unless_gone r (r_remote_parent_folder_id r),
     r_remote_deleted_at := unless_gone r (r_remote_deleted_at r),
     r_remote_updated_at := unless_gone r (r_remote_updated_at r),
     r_synced_remote_updated_at := unless_gone r (r_synced_remote_updated_at r),
     r_local_deleted_at := None,
     r_conflict_state := (if r_local_deleted_at r \<noteq> None then Some ''none'' else r_conflict_state r),
     r_conflict_reason := unless_gone r (r_conflict_reason r),
     r_sync_state := (if r_local_deleted_at r \<noteq> None \<or> r_remote_id r = None \<or> r_sync_state r = ''deleted''
                      then ''pending_upload'' else ''unchanged''),
     r_last_seen_scan_job_id := Some (du_lastSeenScanId d), r_updated_at := now\<rparr>"

definition insert_directory :: "string \<Rightarrow> string \<Rightarrow> DirectoryEntryUpsert \<Rightarrow> entry_row" where
  "insert_directory now newId d =
     (new_entry now newId (du_syncRootId d) ''directory'' (du_relativePath d))
       \<lparr>r_is_directory := True, r_sync_state := ''pending_upload'',
        r_last_seen_scan_job_id := Some (du_lastSeenScanId d)\<rparr>"

definition upsertDirectoryEntry ::
    "string \<Rightarrow> string \<Rightarrow> DirectoryEntryUpsert \<Rightarrow> (entries_table, unit) act" where
  "upsertDirectoryEntry now newId d = stmtE
     (sql_upsert entries_ok (step_failed ''entries'') idx_entries_sync_root_local_path
        (update_directory now d)
        (insert_directory now newId d))"

definition update_file :: "string \<Rightarrow> FileEntryUpsert \<Rightarrow> entry_row \<Rightarrow> entry_row" where
  "update_file now f r = r\<lparr>r_is_directory := False,
     r_remote_id := unless_gone r (r_remote_id r),
     r_remote_file_id := unless_gone r (r_remote_file_id r),
     r_parent_folder_id := unless_gone r (r_parent_folder_id r),
     r_remote_folder_id := unless_gone r (r_remote_folder_id r),
     r_remote_parent_folder_id := unless_gone r (r_remote_parent_folder_id r),
     r_remote_deleted_at := unless_gone r (r_remote_deleted_at r),
     r_remote_updated_at := unless_gone r (r_remote_updated_at r),
     r_synced_remote_updated_at := unless_gone r (r_synced_remote_updated_at r),
     r_synced_content_hash := unless_gone r (r_synced_content_hash r),
     r_local_deleted_at := None, r_local_size := Some (fu_size f),
     r_local_mtime := Some (toMtimeString (fu_mtime f)),
     r_local_content_hash := Some (fu_contentHash f),
     r_conflict_state := (if r_local_deleted_at r \<noteq> None then Some ''none'' else r_conflict_state r),
     r_conflict_reason := unless_gone r (r_conflict_reason r),
     r_sync_state := (if r_local_deleted_at r \<noteq> None then ''pending_upload''
                      else toEntrySyncStateString (fu_syncState f)),
     r_last_seen_scan_job_id := Some (fu_lastSeenScanId f), r_updated_at := now\<rparr>"

definition insert_file :: "string \<Rightarrow> string \<Rightarrow> FileEntryUpsert \<Rightarrow> entry_row" where
  "insert_file now newId f =
     (new_entry now newId (fu_syncRootId f) ''file'' (fu_relativePath f))
       \<lparr>r_local_size := Some (fu_size f), r_local_mtime := Some (toMtimeString (fu_mtime f)),
        r_local_content_hash := Some (fu_contentHash f),
        r_sync_state := toEntrySyncStateString (fu_syncState f),
        r_last_seen_scan_job_id := Some (fu_lastSeenScanId f)\<rparr>"

definition upsertFileEntry :: "string \<Rightarrow> string \<Rightarrow> FileEntryUpsert \<Rightarrow> (entries_table, unit) act" where
  "upsertFileEntry now newId f = stmtE
     (sql_upsert entries_ok (step_failed ''entries'') idx_entries_sync_root_local_path
        (update_file now f)
        (insert_file now newId f))"

definition mark_deleted :: "string \<Rightarrow> entry_row \<Rightarrow> entry_row" where
  "mark_deleted now r = r\<lparr>r_sync_state := ''deleted'', r_updated_at := now\<rparr>"

definition markEntriesNotSeenInScanDeleted :: "string \<Rightarrow> string \<Rightarrow> string \<Rightarrow> (entries_table, unit) act" where
  "markEntriesNotSeenInScanDeleted now syncRootId scanJobId = stmtE
     (sql_update entries_ok (step_failed ''entries'')
        (\<lambda>r. r_sync_root_id r = syncRootId \<and> r_last_seen_scan_job_id r \<noteq> Some scanJobId \<and>
             r_sync_state r \<noteq> ''deleted'')
        (mark_deleted now))"

definition in_subtree :: "string \<Rightarrow> entry_row \<Rightarrow> bool" where
  "in_subtree relativePath r \<longleftrightarrow>
     r_local_path r = relativePath \<or> like (relativePath @ ''/%'') (r_local_path r)"

definition markPathDeleted :: "string \<Rightarrow> string \<Rightarrow> string \<Rightarrow> (entries_table, unit) act" where
  "markPathDeleted now syncRootId relativePath = stmtE
     (sql_update entries_ok (step_failed ''entries'')
        (\<lambda>r. r_sync_root_id r = syncRootId \<and> r_sync_state r \<noteq> ''deleted'' \<and> in_subtree relativePath r)
        (mark_deleted now))"

definition markSubtreeEntriesNotSeenInScanDeleted ::
    "string \<Rightarrow> string \<Rightarrow> string \<Rightarrow> string \<Rightarrow> (entries_table, unit) act" where
  "markSubtreeEntriesNotSeenInScanDeleted now syncRootId relativePath scanJobId = stmtE
     (sql_update entries_ok (step_failed ''entries'')
        (\<lambda>r. r_sync_root_id r = syncRootId \<and> r_sync_state r \<noteq> ''deleted'' \<and>
             r_last_seen_scan_job_id r \<noteq> Some scanJobId \<and> in_subtree relativePath r)
        (mark_deleted now))"

section \<open>Remote entries and conflicts\<close>

record RemoteEntryUpsert =
  ru_syncRootId :: string
  ru_remoteId :: string
  ru_localPath :: string
  ru_remoteType :: string
  ru_remoteFileId :: "string option"
  ru_remoteFolderId :: "string option"
  ru_remoteParentFolderId :: "string option"
  ru_encryptedName :: "string option"
  ru_encryptedMetadata :: "string option"
  ru_remoteDeletedAt :: "string option"
  ru_remoteUpdatedAt :: string

definition remote_sync_state :: "RemoteEntryUpsert \<Rightarrow> string" where
  "remote_sync_state u = (if ru_remoteDeletedAt u \<noteq> None then ''deleted'' else ''unchanged'')"

text \<open>The \<open>UPDATE\<close> of an entry that is known by its remote identifier.\<close>

definition update_remote :: "string \<Rightarrow> RemoteEntryUpsert \<Rightarrow> entry_row \<Rightarrow> entry_row" where
  "update_remote now u r = r\<lparr>r_local_path := ru_localPath u, r_remote_type := ru_remoteType u,
     r_is_directory := (ru_remoteType u = ''folder''), r_encrypted_name := ru_encryptedName u,
     r_encrypted_metadata := ru_encryptedMetadata u,
     r_remote_updated_at := Some (ru_remoteUpdatedAt u), r_remote_file_id := ru_remoteFileId u,
     r_remote_folder_id := ru_remoteFolderId u, r_remote_parent_folder_id := ru_remoteParentFolderId u,
     r_remote_deleted_at := ru_remoteDeletedAt u,
     r_synced_remote_updated_at :=
       (if r_synced_remote_updated_at r = None \<and> r_remote_id r \<noteq> None \<and>
           r_local_content_hash r \<noteq> None \<and> r_local_content_hash r = r_synced_content_hash r
        then Some (ru_remoteUpdatedAt u) else r_synced_remote_updated_at r),
     r_last_remote_seen_at := Some now, r_sync_state := remote_sync_state u,
     r_last_synced_at := Some now, r_updated_at := now\<rparr>"

text \<open>The \<open>DO UPDATE\<close> of an entry that is known by its path only.\<close>

definition adopt_remote :: "string \<Rightarrow> RemoteEntryUpsert \<Rightarrow> entry_row \<Rightarrow> entry_row" where
  "adopt_remote now u r = r\<lparr>r_remote_id := Some (ru_remoteId u), r_remote_type := ru_remoteType u,
     r_is_directory := (ru_remoteType u = ''folder''), r_encrypted_name := ru_encryptedName u,
     r_encrypted_metadata := ru_encryptedMetadata u,
     r_remote_updated_at := Some (ru_remoteUpdatedAt u), r_remote_file_id := ru_remoteFileId u,
     r_remote_folder_id := ru_remoteFolderId u, r_remote_parent_folder_id := ru_remoteParentFolderId u,
     r_remote_deleted_at := ru_remoteDeletedAt u, r_last_remote_seen_at := Some now,
     r_sync_state := remote_sync_state u, r_last_synced_at := Some now, r_updated_at := now\<rparr>"

definition insert_remote :: "string \<Rightarrow> string \<Rightarrow> RemoteEntryUpsert \<Rightarrow> entry_row" where
  "insert_remote now newId u =
     (new_entry now newId (ru_syncRootId u) (ru_remoteType u) (ru_localPath u))
       \<lparr>r_remote_id := Some (ru_remoteId u), r_is_directory := (ru_remoteType u = ''folder''),
        r_encrypted_name := ru_encryptedName u, r_encrypted_metadata := ru_encryptedMetadata u,
        r_remote_updated_at := Some (ru_remoteUpdatedAt u), r_remote_file_id := ru_remoteFileId u,
        r_remote_folder_id := ru_remoteFolderId u,
        r_remote_parent_folder_id := ru_remoteParentFolderId u,
        r_remote_deleted_at := ru_remoteDeletedAt u, r_last_remote_seen_at := Some now,
        r_sync_state := remote_sync_state u, r_last_synced_at := Some now\<rparr>"

definition upsertRemoteEntry :: "string \<Rightarrow> string \<Rightarrow> RemoteEntryUpsert \<Rightarrow> (entries_table, unit) act" where
  "upsertRemoteEntry now newId u t =
     (let known = (\<lambda>r. r_sync_root_id r = ru_syncRootId u \<and> r_remote_id r = Some (ru_remoteId u)) in
      case sql_update entries_ok (step_failed ''entries'') known (update_remote now u) t of
        Inl e \<Rightarrow> (Inl e, t)
      | Inr t' \<Rightarrow>
          if sql_changes known t > 0 then (Inr (), t')
          else stmtE (sql_upsert entries_ok (step_failed ''entries'') idx_entries_sync_root_local_path
                 (adopt_remote now u) (insert_remote now newId u)) t')"

definition set_uploaded :: "string \<Rightarrow> string \<Rightarrow> string option \<Rightarrow> entry_row \<Rightarrow> entry_row" where
  "set_uploaded now remoteId remoteParentFolderId r =
     r\<lparr>r_remote_id := Some remoteId, r_remote_file_id := Some remoteId,
       r_remote_parent_folder_id := remoteParentFolderId,
       r_parent_folder_id := remoteParentFolderId,
       r_synced_content_hash := r_local_content_hash r, r_remote_deleted_at := None,
       r_local_deleted_at := None, r_conflict_state := Some ''none'',
       r_conflict_reason := None, r_sync_state := ''unchanged'',
       r_last_synced_at := Some now, r_updated_at := now\<rparr>"

definition markEntryUploaded ::
    "string \<Rightarrow> string \<Rightarrow> string \<Rightarrow> string option \<Rightarrow> (entries_table, unit) act" where
  "markEntryUploaded now entryId remoteId remoteParentFolderId = stmtE
     (sql_update entries_ok (step_failed ''entries'') (\<lambda>r. r_id r = entryId)
        (set_uploaded now remoteId remoteParentFolderId))"

definition markEntryDownloaded1 :: "string \<Rightarrow> string \<Rightarrow> (entries_table, unit) act" where
  "markEntryDownloaded1 now entryId = stmtE
     (sql_update entries_ok (step_failed ''entries'') (\<lambda>r. r_id r = entryId)
        (\<lambda>r. r\<lparr>r_synced_remote_updated_at := r_remote_updated_at r, r_sync_state := ''unchanged'',
               r_last_synced_at := Some now, r_updated_at := now\<rparr>))"

text \<open>The overload with the size, the time and the hash of the downloaded file.\<close>

definition set_downloaded :: "string \<Rightarrow> int \<Rightarrow> int \<Rightarrow> string \<Rightarrow> entry_row \<Rightarrow> entry_row" where
  "set_downloaded now fileSize mtime contentHash r =
     r\<lparr>r_local_size := Some fileSize, r_local_mtime := Some (toMtimeString mtime),
       r_local_content_hash := Some contentHash, r_synced_content_hash := Some contentHash,
       r_synced_remote_updated_at := r_remote_updated_at r, r_sync_state := ''unchanged'',
       r_last_synced_at := Some now, r_updated_at := now\<rparr>"

definition markEntryDownloaded ::
    "string \<Rightarrow> string \<Rightarrow> int \<Rightarrow> int \<Rightarrow> string \<Rightarrow> (entries_table, unit) act" where
  "markEntryDownloaded now entryId fileSize mtime contentHash = stmtE
     (sql_update entries_ok (step_failed ''entries'') (\<lambda>r. r_id r = entryId)
        (set_downloaded now fileSize mtime contentHash))"

definition markFolderCreated ::
    "string \<Rightarrow> string \<Rightarrow> string \<Rightarrow> string option \<Rightarrow> (entries_table, unit) act" where
  "markFolderCreated now entryId remoteFolderId remoteParentFolderId = stmtE
     (sql_update entries_ok (step_failed ''entries'') (\<lambda>r. r_id r = entryId)
        (\<lambda>r. r\<lparr>r_remote_id := Some remoteFolderId, r_remote_folder_id := Some remoteFolderId,
               r_remote_parent_folder_id := remoteParentFolderId,
               r_parent_folder_id := remoteParentFolderId, r_sync_state := ''unchanged'',
               r_last_synced_at := Some now, r_updated_at := now\<rparr>))"

text \<open>\<open>COALESCE(x, now)\<close>.\<close>

definition coalesce :: "'a option \<Rightarrow> 'a \<Rightarrow> 'a option" where
  "coalesce x d = Some (case x of None \<Rightarrow> d | Some v \<Rightarrow> v)"

definition markRootRemoteDeleted :: "string \<Rightarrow> string \<Rightarrow> (entries_table, unit) act" where
  "markRootRemoteDeleted now syncRootId = stmtE
     (sql_update entries_ok (step_failed ''entries'') (\<lambda>r. r_sync_root_id r = syncRootId)
        (\<lambda>r. r\<lparr>r_sync_state := ''deleted'', r_local_deleted_at := coalesce (r_local_deleted_at r) now,
               r_remote_deleted_at := coalesce (r_remote_deleted_at r) now,
               r_synced_remote_updated_at := r_remote_updated_at r,
               r_conflict_state := Some ''none'', r_conflict_reason := None, r_updated_at := now\<rparr>))"

definition markConflict :: "string \<Rightarrow> string \<Rightarrow> string \<Rightarrow> string \<Rightarrow> (entries_table, unit) act" where
  "markConflict now entryId state reason = stmtE
     (sql_update entries_ok (step_failed ''entries'') (\<lambda>r. r_id r = entryId)
        (\<lambda>r. r\<lparr>r_conflict_state := Some state, r_conflict_reason := Some reason, r_updated_at := now\<rparr>))"

section \<open>The invariant\<close>

text \<open>The times a 64-bit \<open>file_time_type\<close> holds are written and read back to the millisecond.\<close>

definition int64 :: "int \<Rightarrow> bool" where
  "int64 n \<longleftrightarrow> - (2 ^ 63) \<le> n \<and> n < 2 ^ 63"

lemma digits_are_digits: "c \<in> set (nat_to_string n) \<Longrightarrow> is_digit c \<and> \<not> isspace c"
proof (induction n rule: nat_to_string.induct)
  case (1 n)
  have d: "is_digit (digit_char d) \<and> \<not> isspace (digit_char d)" if "d < 10" for d
  proof -
    have "\<forall>d\<in>set [0..<10]. is_digit (digit_char d) \<and> \<not> isspace (digit_char d)" by code_simp
    then show ?thesis using that by simp
  qed
  show ?case
    using 1 d by (cases "n < 10") (auto simp: nat_to_string.simps [of n])
qed

lemma nat_to_string_nonempty: "nat_to_string n \<noteq> []"
  by (subst nat_to_string.simps) simp

lemma nat_to_string_Cons:
  obtains c s where "nat_to_string n = c # s" and "is_digit c" and "\<not> isspace c"
    and "c \<noteq> CHR ''-''" and "c \<noteq> CHR ''+''"
proof (cases "nat_to_string n")
  case Nil
  then show ?thesis using nat_to_string_nonempty by simp
next
  case (Cons c s)
  then have "is_digit c \<and> \<not> isspace c" using digits_are_digits [of c n] by simp
  moreover have "\<not> is_digit CHR ''-''" "\<not> is_digit CHR ''+''" by code_simp+
  ultimately show ?thesis using that Cons by metis
qed

lemma stoll_to_string: "int64 n \<Longrightarrow> stoll (to_string n) = Inr n"
proof -
  assume n: "int64 n"
  have all: "takeWhile is_digit (nat_to_string k) = nat_to_string k" for k
    using digits_are_digits by (simp add: takeWhile_eq_all_conv)
  have "\<not> isspace CHR ''-''" by code_simp
  show ?thesis
  proof (cases "n < 0")
    case True
    then show ?thesis using n \<open>\<not> isspace CHR ''-''\<close>
      by (simp add: stoll_def to_string_def Let_def all nat_to_string_nonempty string_to_nat_round_trip int64_def)
  next
    case False
    obtain c s where cs: "nat_to_string (nat n) = c # s" "\<not> isspace c" "c \<noteq> CHR ''-''" "c \<noteq> CHR ''+''"
      by (rule nat_to_string_Cons [of "nat n"])
    then show ?thesis using False n all [of "nat n"] string_to_nat_round_trip [of "nat n"]
      by (simp add: stoll_def to_string_def Let_def int64_def)
  qed
qed

definition truncMs :: "int \<Rightarrow> int" where
  "truncMs time = (if time < 0 then - ((- time) div 1000000) else time div 1000000)"

lemma stoll_toMtimeString: "int64 time \<Longrightarrow> stoll (toMtimeString time) = Inr (truncMs time)"
  unfolding toMtimeString_def truncMs_def [symmetric]
  by (rule stoll_to_string) (auto simp: int64_def truncMs_def)

lemma entries_inv_Nil: "entries_inv []"
  by (simp add: entries_inv_def entries_ok_def)

lemma entries_inv_sql_update:
  assumes "entries_inv t" and "sql_update entries_ok e p f t = Inr t'"
    and "\<And>r. readable_row r \<Longrightarrow> p r \<Longrightarrow> readable_row (f r)"
  shows "entries_inv t'"
  using sql_update_rows [where good = readable_row, OF assms(2) _ assms(3)] assms(1) by (simp add: entries_inv_def)

lemma entries_inv_sql_upsert:
  assumes "entries_inv t" and "sql_upsert entries_ok e idx f r t = Inr t'"
    and "\<And>x. readable_row x \<Longrightarrow> readable_row (f x)" and "readable_row r"
  shows "entries_inv t'"
  using sql_upsert_rows [where good = readable_row, OF assms(2) _ assms(3,4)] assms(1) by (simp add: entries_inv_def)

lemma toEntrySyncStateString_known:
  "toEntrySyncStateString s \<in> {''unchanged'', ''pending_upload'', ''deleted''}"
  by (cases s) simp_all

lemmas readable_defs = readable_row_def update_directory_def update_file_def mark_deleted_def
  update_remote_def adopt_remote_def insert_remote_def insert_directory_def
  insert_file_def remote_sync_state_def new_entry_def

lemma readable_updates:
  "readable_row r \<Longrightarrow> readable_row (update_directory now d r)"
  "int64 (fu_mtime f) \<Longrightarrow> readable_row (update_file now f r)"
  "readable_row r \<Longrightarrow> readable_row (mark_deleted now r)"
  "readable_row r \<Longrightarrow> readable_row (update_remote now u r)"
  "readable_row r \<Longrightarrow> readable_row (adopt_remote now u r)"
  "readable_row (insert_remote now newId u)"
  "readable_row (insert_directory now newId d)"
  "int64 (fu_mtime f) \<Longrightarrow> readable_row (insert_file now newId f)"
  using toEntrySyncStateString_known [of "fu_syncState f"]
  by (auto simp: readable_defs stoll_toMtimeString)

lemma keeps_entries_local [keeps_intros]:
  "keeps entries_inv (upsertDirectoryEntry now newId d)"
  "int64 (fu_mtime f) \<Longrightarrow> keeps entries_inv (upsertFileEntry now newId f)"
  "keeps entries_inv (markEntriesNotSeenInScanDeleted now root scan)"
  "keeps entries_inv (markPathDeleted now root path)"
  "keeps entries_inv (markSubtreeEntriesNotSeenInScanDeleted now root path scan)"
proof -
  show "keeps entries_inv (upsertDirectoryEntry now newId d)"
    unfolding upsertDirectoryEntry_def
    by (rule keeps_stmtE, erule entries_inv_sql_upsert, assumption)
      (simp_all add: readable_updates)
  show "keeps entries_inv (upsertFileEntry now newId f)" if "int64 (fu_mtime f)"
    unfolding upsertFileEntry_def
    by (rule keeps_stmtE, erule entries_inv_sql_upsert, assumption)
      (simp_all add: readable_updates that)
qed (unfold markEntriesNotSeenInScanDeleted_def markPathDeleted_def markSubtreeEntriesNotSeenInScanDeleted_def,
    (rule keeps_stmtE, erule entries_inv_sql_update, assumption, simp add: readable_updates)+)

lemma keeps_upsertRemoteEntry [keeps_intros]: "keeps entries_inv (upsertRemoteEntry now newId u)"
proof (rule keepsI)
  fix t assume inv: "entries_inv t"
  have upd: "entries_inv t'" if "sql_update entries_ok e p (update_remote now u) t = Inr t'" for e p t'
    using inv that by (rule entries_inv_sql_update) (simp add: readable_updates)
  have "keeps entries_inv (stmtE (sql_upsert entries_ok e idx (adopt_remote now u) (insert_remote now newId u)))"
    for e and idx :: "entry_row \<Rightarrow> (string \<times> string) option"
    by (rule keeps_stmtE, erule entries_inv_sql_upsert, assumption) (simp_all add: readable_updates)
  then show "entries_inv (snd (upsertRemoteEntry now newId u t))"
    using inv upd by (auto simp: upsertRemoteEntry_def Let_def keeps_def split: sum.splits)
qed

lemma keeps_entries_remote [keeps_intros]:
  "keeps entries_inv (markEntryUploaded now entryId remoteId parent)"
  "keeps entries_inv (markEntryDownloaded1 now entryId)"
  "int64 mtime \<Longrightarrow> keeps entries_inv (markEntryDownloaded now entryId n mtime h)"
  "keeps entries_inv (markFolderCreated now entryId folder parent)"
  "keeps entries_inv (markRootRemoteDeleted now root)"
  "keeps entries_inv (markConflict now entryId state reason)"
  unfolding markEntryUploaded_def markEntryDownloaded1_def markEntryDownloaded_def markFolderCreated_def
    markRootRemoteDeleted_def markConflict_def
  by (rule keeps_stmtE, erule entries_inv_sql_update, assumption,
      simp add: readable_row_def set_uploaded_def set_downloaded_def stoll_toMtimeString)+

text \<open>One rule per method that writes the table.\<close>

inductive entries_step :: "entries_table \<Rightarrow> entries_table \<Rightarrow> bool" where
  local_directory: "entries_step t (snd (upsertDirectoryEntry now newId d t))"
| local_file: "int64 (fu_mtime f) \<Longrightarrow> entries_step t (snd (upsertFileEntry now newId f t))"
| not_seen: "entries_step t (snd (markEntriesNotSeenInScanDeleted now root scan t))"
| path_gone: "entries_step t (snd (markPathDeleted now root path t))"
| subtree: "entries_step t (snd (markSubtreeEntriesNotSeenInScanDeleted now root path scan t))"
| remote: "entries_step t (snd (upsertRemoteEntry now newId u t))"
| uploaded: "entries_step t (snd (markEntryUploaded now entryId remoteId parent t))"
| downloaded1: "entries_step t (snd (markEntryDownloaded1 now entryId t))"
| downloaded: "int64 mtime \<Longrightarrow> entries_step t (snd (markEntryDownloaded now entryId n mtime h t))"
| folder: "entries_step t (snd (markFolderCreated now entryId folder parent t))"
| root_gone: "entries_step t (snd (markRootRemoteDeleted now root t))"
| conflict: "entries_step t (snd (markConflict now entryId state reason t))"

interpretation entry_runs: transition_system "\<lambda>t. t = []" entries_step entries_inv
proof
  show "entries_inv t" if "t = []" for t using that by (simp add: entries_inv_Nil)
next
  fix s t assume "entries_step s t" and "entries_inv s"
  then show "entries_inv t"
    by (cases rule: entries_step.cases) (auto intro: keepsD keeps_intros)
qed

section \<open>What the updates do\<close>

lemma sql_update_keeping_keys:
  assumes "entries_ok t" and "\<And>r. p r \<Longrightarrow> entries_pk (f r) = entries_pk r"
    and "\<And>r. p r \<Longrightarrow> idx_entries_sync_root_local_path (f r) = idx_entries_sync_root_local_path r"
  shows "sql_update entries_ok e p f t = Inr (update_where p f t)"
proof -
  have "uniq_on entries_pk (update_where p f t)"
    by (rule uniq_on_update_where) (use assms in \<open>auto simp: entries_ok_def\<close>)
  moreover have "uniq_on idx_entries_sync_root_local_path (update_where p f t)"
    by (rule uniq_on_update_where) (use assms in \<open>auto simp: entries_ok_def\<close>)
  ultimately show ?thesis by (simp add: sql_update_def entries_ok_def)
qed

lemmas keys_simps = entries_pk_def idx_entries_sync_root_local_path_def

lemma mark_updates:
  assumes "entries_ok t"
  shows "markEntriesNotSeenInScanDeleted now root scan t = (Inr (), update_where
      (\<lambda>r. r_sync_root_id r = root \<and> r_last_seen_scan_job_id r \<noteq> Some scan \<and> r_sync_state r \<noteq> ''deleted'')
      (mark_deleted now) t)"
    and "markPathDeleted now root path t = (Inr (), update_where
      (\<lambda>r. r_sync_root_id r = root \<and> r_sync_state r \<noteq> ''deleted'' \<and> in_subtree path r) (mark_deleted now) t)"
  unfolding markEntriesNotSeenInScanDeleted_def markPathDeleted_def stmtE_def
  by (subst sql_update_keeping_keys [OF assms]; simp add: mark_deleted_def keys_simps)+

text \<open>Updating the one row of an identifier.\<close>

lemma update_by_id:
  assumes inv: "entries_inv t" and r: "r \<in> set t" "r_id r = i"
    and keys: "\<And>x. r_id (f x) = r_id x \<and> r_sync_root_id (f x) = r_sync_root_id x \<and> r_local_path (f x) = r_local_path x"
    and readable: "\<And>x. readable_row x \<Longrightarrow> readable_row (f x)"
  shows "\<exists>t'. stmtE (sql_update entries_ok e (\<lambda>r. r_id r = i) f) t = (Inr (), t') \<and>
    getEntryById i t' = Inr (Some (entryOf (f r))) \<and> f r \<in> set t' \<and> entries_inv t'"
proof -
  let ?t = "update_where (\<lambda>r. r_id r = i) f t"
  have upd: "sql_update entries_ok e (\<lambda>r. r_id r = i) f t = Inr ?t"
    using inv keys by (intro sql_update_keeping_keys) (simp_all add: entries_inv_def keys_simps)
  then have inv': "entries_inv ?t" using inv readable by (auto intro: entries_inv_sql_update)
  have mem: "f r \<in> set ?t" using r by (auto simp: in_update_where)
  then have "getEntryById (r_id (f r)) ?t = Inr (Some (entryOf (f r)))"
    by (rule getEntryById_row [OF inv'])
  then show ?thesis using upd inv' mem keys r by (auto simp: stmtE_def)
qed

subsection \<open>Subtrees\<close>

declare like.simps(2) [simp del]

lemma like_percent: "like ''%'' s"
proof (induction s rule: length_induct)
  case (1 s)
  show ?case
  proof (cases s)
    case Nil
    then show ?thesis by (simp add: like.simps(2))
  next
    case (Cons c t)
    have "length (skip_char (c # t)) < length s" using skip_char_length Cons by simp
    then have "like ''%'' (skip_char (c # t))" using 1 by blast
    then show ?thesis using Cons by (simp add: like.simps(2) del: skip_char.simps)
  qed
qed

lemma like_append_self: "like ps s \<Longrightarrow> like (p @ ps) (p @ s)"
proof (induction p)
  case Nil
  then show ?case by simp
next
  case (Cons c p)
  have ascii: "skip_char (CHR ''%'' # u) = u" "skip_char (CHR ''_'' # u) = u" for u by simp_all
  have "like (CHR ''%'' # p @ ps) (p @ s)" using Cons by (subst like.simps(2)) simp
  then show ?case
    using Cons ascii by (subst append_Cons, subst append_Cons, subst like.simps(2)) auto
qed

lemma like_subtree: "like (p @ ''/%'') (p @ ''/'' @ t)"
proof -
  have "like ''/%'' (''/'' @ t)" using like_percent by (simp add: like.simps(2))
  then show ?thesis by (rule like_append_self)
qed

definition no_wildcards :: "string \<Rightarrow> bool" where
  "no_wildcards p \<longleftrightarrow> CHR ''%'' \<notin> set p \<and> CHR ''_'' \<notin> set p"

lemma ascii_lower_slash: "ascii_lower c = CHR ''/'' \<longleftrightarrow> c = CHR ''/''"
proof
  assume l: "ascii_lower c = CHR ''/''"
  show "c = CHR ''/''"
  proof (rule ccontr)
    assume "c \<noteq> CHR ''/''"
    with l have range: "(65 :: nat) \<le> of_char c" "(of_char c :: nat) \<le> 90"
      and "char_of (of_char c + 32 :: nat) = CHR ''/''"
      by (auto simp: ascii_lower_def char_ge_def split: if_splits)
        (metis of_nat_le_iff of_nat_numeral of_nat_of_char)+
    then have "(of_char (char_of (of_char c + 32 :: nat)) :: nat) = 47" by simp
    then show False using range by simp
  qed
qed (simp add: ascii_lower_def char_ge_def)

lemma like_no_wildcards:
  assumes "no_wildcards p"
  shows "like (p @ ps) s \<longleftrightarrow> (\<exists>q u. s = q @ u \<and> map ascii_lower q = map ascii_lower p \<and> like ps u)"
  using assms
proof (induction p arbitrary: s)
  case Nil
  then show ?case by simp
next
  case (Cons c p)
  then have c: "c \<noteq> CHR ''%''" "c \<noteq> CHR ''_''" "no_wildcards p" by (auto simp: no_wildcards_def)
  have "like ((c # p) @ ps) s \<longleftrightarrow> (\<exists>a t. s = a # t \<and> ascii_lower a = ascii_lower c \<and> like (p @ ps) t)"
    using c(1,2) by (cases s) (simp_all add: like.simps(2))
  also have "\<dots> \<longleftrightarrow> (\<exists>a q u. s = a # q @ u \<and> ascii_lower a = ascii_lower c \<and>
      map ascii_lower q = map ascii_lower p \<and> like ps u)"
    unfolding Cons.IH [OF c(3)] by blast
  also have "\<dots> \<longleftrightarrow> (\<exists>q u. s = q @ u \<and> map ascii_lower q = map ascii_lower (c # p) \<and> like ps u)"
    (is "?l \<longleftrightarrow> ?r")
  proof
    assume ?l
    then obtain a q u where "s = (a # q) @ u" "map ascii_lower (a # q) = map ascii_lower (c # p)" "like ps u"
      by auto
    then show ?r by blast
  next
    assume ?r
    then obtain a q u where "s = a # q @ u" "ascii_lower a = ascii_lower c"
      "map ascii_lower q = map ascii_lower p" "like ps u" by (auto simp: map_eq_Cons_conv)
    then show ?l by blast
  qed
  finally show ?case .
qed

lemma like_subtree_iff:
  assumes "no_wildcards p"
  shows "like (p @ ''/%'') s \<longleftrightarrow> (\<exists>q t. s = q @ ''/'' @ t \<and> map ascii_lower q = map ascii_lower p)"
proof -
  have "like ''/%'' u \<longleftrightarrow> (\<exists>t. u = ''/'' @ t)" for u
  proof -
    have slash: "ascii_lower CHR ''/'' = CHR ''/''" by (simp add: ascii_lower_slash)
    show ?thesis
      by (cases u) (simp_all add: like.simps(2) [of "CHR ''/''"] like_percent slash ascii_lower_slash)
  qed
  then show ?thesis by (auto simp: like_no_wildcards [OF assms])
qed

section \<open>Properties\<close>

text \<open>
  Whatever sequence of writes is made on a fresh \<open>entries\<close> table, every row can be read
  back: listing a root never throws, identifiers are unique, and a root has one entry per path.
\<close>

theorem reachable_entries_readable:
  assumes "entries_step\<^sup>*\<^sup>* [] t"
  shows "listEntriesBySyncRootId root t = Inr (map entryOf (rootRows root t)) \<and>
    distinct (map r_id t) \<and> distinct (map r_local_path (rootRows root t))"
proof -
  have inv: "entries_inv t" by (rule entry_runs.invar_reachable [OF refl assms])
  have rows: "\<forall>r\<in>set (rootRows root t). readable_row r"
    using entries_inv_row [OF inv] by (auto simp: rootRows_def)
  then show ?thesis
    using rootRows_sorted [OF inv, of root] entries_inv_ids [OF inv]
    by (simp add: listEntriesBySyncRootId_def readEntries_readable strict_sorted_iff)
qed

definition demoFile :: FileEntryUpsert where
  "demoFile = \<lparr>fu_syncRootId = ''s'', fu_relativePath = ''a.txt'', fu_size = 3, fu_mtime = 1234567,
     fu_contentHash = ''h1'', fu_syncState = PendingUpload, fu_lastSeenScanId = ''j''\<rparr>"

theorem reachable_entries_readable_witness:
  "listEntriesBySyncRootId ''s'' (snd (upsertFileEntry ''0'' ''e1'' demoFile [])) =
     Inr (map entryOf (rootRows ''s'' (snd (upsertFileEntry ''0'' ''e1'' demoFile []))))"
proof -
  have "entries_step [] (snd (upsertFileEntry ''0'' ''e1'' demoFile []))"
    by (rule entries_step.local_file) (simp add: demoFile_def int64_def)
  then have "entries_step\<^sup>*\<^sup>* [] (snd (upsertFileEntry ''0'' ''e1'' demoFile []))" by (rule r_into_rtranclp)
  from reachable_entries_readable [OF this, of "''s''"] show ?thesis by simp
qed

text \<open>
  What a scan records of a file can be read back: after \<open>upsertFileEntry\<close> with an
  identifier that is new, a lookup of the path finds an undeleted file with the recorded
  size, hash and scan, and the modification time rounded to the millisecond.
\<close>

theorem file_upsert_lookup:
  assumes inv: "entries_inv t" and fresh: "newId \<notin> r_id ` set t" and time: "int64 (fu_mtime f)"
  shows "\<exists>t' e. upsertFileEntry now newId f t = (Inr (), t') \<and>
    findEntryByPath (fu_syncRootId f) (fu_relativePath f) t' = Inr (Some e) \<and>
    e_size e = Some (fu_size f) \<and> e_contentHash e = Some (fu_contentHash f) \<and>
    e_mtime e = Some (truncMs (fu_mtime f) * 1000000) \<and> e_localDeletedAt e = None \<and>
    \<not> e_isDirectory e \<and> e_lastSeenScanJobId e = Some (fu_lastSeenScanId f) \<and> entries_inv t'"
proof -
  let ?key = "Some (fu_syncRootId f, fu_relativePath f)"
  let ?idx = idx_entries_sync_root_local_path
  have new_key: "?idx (insert_file now newId f) = ?key"
    by (simp add: insert_file_def new_entry_def keys_simps)
  obtain r t' where t': "upsertFileEntry now newId f t = (Inr (), t')" and r: "r \<in> set t'"
    and shape: "r = insert_file now newId f \<or> (\<exists>x. r = update_file now f x)" and key: "?idx r = ?key"
  proof (cases "\<exists>x\<in>set t. ?idx x = ?key")
    case True
    then obtain x where x: "x \<in> set t" "?idx x = ?key" by blast
    have "sql_update entries_ok e (\<lambda>x. ?idx x = ?key) (update_file now f) t =
        Inr (update_where (\<lambda>x. ?idx x = ?key) (update_file now f) t)" for e
      using inv by (intro sql_update_keeping_keys) (simp_all add: entries_inv_def update_file_def keys_simps)
    then have "upsertFileEntry now newId f t =
        (Inr (), update_where (\<lambda>x. ?idx x = ?key) (update_file now f) t)"
      using x new_key by (auto simp: upsertFileEntry_def stmtE_def sql_upsert_def)
    moreover have "update_file now f x \<in> set (update_where (\<lambda>x. ?idx x = ?key) (update_file now f) t)"
      using x by (force simp: in_update_where)
    moreover have "?idx (update_file now f x) = ?key" using x(2) by (simp add: update_file_def keys_simps)
    ultimately show ?thesis using that by blast
  next
    case False
    then have "entries_ok (t @ [insert_file now newId f])"
      using inv fresh new_key
      by (auto simp: entries_inv_def entries_ok_def uniq_on_snoc has_key_def entries_pk_def insert_file_def
          new_entry_def)
    then have "upsertFileEntry now newId f t = (Inr (), t @ [insert_file now newId f])"
      using False new_key by (auto simp: upsertFileEntry_def stmtE_def sql_upsert_def sql_insert_def)
    then show ?thesis using that [of _ "insert_file now newId f"] new_key by simp
  qed
  have inv': "entries_inv t'"
    using keepsD [OF keeps_entries_local(2) [OF time] inv, of now newId] t' by simp
  have "findEntryByPath (fu_syncRootId f) (fu_relativePath f) t' = Inr (Some (entryOf r))"
    using findEntryByPath_row [OF inv' r] key by (simp add: keys_simps)
  moreover have "mtimeOf r = Some (truncMs (fu_mtime f) * 1000000)"
    using shape by (auto simp: mtimeOf_def parseMtime_def update_file_def insert_file_def
        new_entry_def stoll_toMtimeString [OF time])
  ultimately show ?thesis
    using t' shape inv'
    by (intro exI [of _ t'] exI [of _ "entryOf r"])
      (auto simp: update_file_def insert_file_def new_entry_def)
qed

theorem file_upsert_lookup_witness:
  "\<exists>t' e. upsertFileEntry ''0'' ''e1'' demoFile [] = (Inr (), t') \<and>
     findEntryByPath ''s'' ''a.txt'' t' = Inr (Some e) \<and> e_mtime e = Some 1000000"
  using file_upsert_lookup [OF entries_inv_Nil, of "''e1''" demoFile "''0''"]
  by (auto simp: demoFile_def int64_def truncMs_def)

text \<open>
  \<open>markPathDeleted\<close> cannot fail, marks the path itself and everything below it deleted, and
  touches no other root; for a path without the wildcards \<open>%\<close> and \<open>_\<close> every row it changes
  lies at the path or below it, up to the case of ASCII letters.
\<close>

theorem mark_path_deleted_subtree:
  assumes "entries_inv t"
  shows "\<exists>t'. markPathDeleted now root p t = (Inr (), t') \<and> map r_id t' = map r_id t \<and>
    (\<forall>r\<in>set t'. r_sync_root_id r = root \<and> (r_local_path r = p \<or> (\<exists>u. r_local_path r = p @ ''/'' @ u)) \<longrightarrow>
       r_sync_state r = ''deleted'') \<and>
    (\<forall>r\<in>set t. r \<notin> set t' \<longrightarrow> r_sync_root_id r = root) \<and>
    (no_wildcards p \<longrightarrow> (\<forall>r\<in>set t. r \<notin> set t' \<longrightarrow> r_local_path r = p \<or>
       (\<exists>q u. r_local_path r = q @ ''/'' @ u \<and> map ascii_lower q = map ascii_lower p)))"
proof -
  let ?hit = "\<lambda>r. r_sync_root_id r = root \<and> r_sync_state r \<noteq> ''deleted'' \<and> in_subtree p r"
  let ?t = "update_where ?hit (mark_deleted now) t"
  have run: "markPathDeleted now root p t = (Inr (), ?t)"
    using assms by (intro mark_updates) (simp add: entries_inv_def)
  have hit: "?hit r" if "r \<in> set t" "r \<notin> set ?t" for r
    using changed_row [OF that] .
  show ?thesis
  proof (intro exI [of _ ?t] conjI ballI impI)
    show "markPathDeleted now root p t = (Inr (), ?t)" by (rule run)
    show "map r_id ?t = map r_id t" by (simp add: update_where_def mark_deleted_def)
  next
    fix r assume r: "r \<in> set ?t"
      "r_sync_root_id r = root \<and> (r_local_path r = p \<or> (\<exists>u. r_local_path r = p @ ''/'' @ u))"
    obtain x where x: "r = (if ?hit x then mark_deleted now x else x)"
      using r(1) unfolding in_update_where by blast
    have "in_subtree p r" using r(2) like_subtree by (auto simp: in_subtree_def)
    then show "r_sync_state r = ''deleted''"
      using x r(2) by (cases "?hit x") (auto simp: mark_deleted_def)
  next
    fix r assume "r \<in> set t" "r \<notin> set ?t"
    then show "r_sync_root_id r = root" by (rule hit [THEN conjunct1])
  next
    fix r assume "no_wildcards p" "r \<in> set t" "r \<notin> set ?t"
    then show "r_local_path r = p \<or>
        (\<exists>q u. r_local_path r = q @ ''/'' @ u \<and> map ascii_lower q = map ascii_lower p)"
      using hit [of r] like_subtree_iff [of p] by (auto simp: in_subtree_def)
  qed
qed

theorem mark_path_deleted_subtree_witness:
  "\<exists>t'. markPathDeleted ''1'' ''s'' ''a'' demoEntries = (Inr (), t') \<and> map r_id t' = [''2'', ''1'']"
  using mark_path_deleted_subtree [OF demoEntries_inv, of "''1''" "''s''" "''a''"]
  by (auto simp: demoEntries_def demoRow_def)

text \<open>
  The path is not escaped in the \<open>LIKE\<close> pattern: deleting the folder \<open>a_b\<close> also marks the
  file \<open>axb/f\<close> of an unrelated folder deleted, and deleting \<open>Docs\<close> marks \<open>docs/f\<close>.
\<close>

theorem mark_path_deleted_hits_siblings:
  "snd (markPathDeleted ''1'' ''s'' ''a_b'' [demoRow ''1'' ''axb/f'']) =
     [mark_deleted ''1'' (demoRow ''1'' ''axb/f'')] \<and>
   snd (markPathDeleted ''1'' ''s'' ''Docs'' [demoRow ''1'' ''docs/f'']) =
     [mark_deleted ''1'' (demoRow ''1'' ''docs/f'')]"
proof -
  have ok: "entries_ok [r]" for r by (simp add: entries_ok_def uniq_on_Cons)
  have "like ''a_b/%'' ''axb/f''" "like ''Docs/%'' ''docs/f''" by code_simp+
  then show ?thesis
    by (simp add: mark_updates [OF ok] in_subtree_def) (simp add: demoRow_def)
qed

text \<open>
  A deletion found by a scan or a watcher never reaches the sync policy: \<open>markPathDeleted\<close>
  writes \<open>sync_state\<close> but not \<open>local_deleted_at\<close>, the only column the classifier looks at, so
  the decision for every entry is in every mode what it was while the file existed. In
  particular no deletion of a local file is ever propagated to the server by it.
\<close>

theorem local_deletion_invisible_to_policy:
  assumes "entries_inv t"
  shows "\<exists>t'. markPathDeleted now root p t = (Inr (), t') \<and>
    map (\<lambda>r. decide (classify (entryOf r)) m) t' = map (\<lambda>r. decide (classify (entryOf r)) m) t"
proof -
  have "classify (entryOf (mark_deleted now r)) = classify (entryOf r)" for r
    by (simp add: classify_def Let_def) (simp add: mark_deleted_def)
  then show ?thesis
    using assms by (simp add: mark_updates entries_inv_def update_where_def)
qed

theorem local_deletion_invisible_to_policy_witness:
  "\<exists>t'. markPathDeleted ''1'' ''s'' ''a'' demoEntries = (Inr (), t') \<and>
     map (\<lambda>r. decide (classify (entryOf r)) TwoWay) t' = [Upload, Upload]"
proof -
  have eq: "map (\<lambda>r. decide (classify (entryOf r)) TwoWay) demoEntries = [Upload, Upload]"
  proof -
    have "decide (classify (entryOf (demoRow i p))) TwoWay = Upload" for i p
      by (simp add: classify_def decideTwoWay_def Let_def demoRow_def)
    then show ?thesis by (simp add: demoEntries_def)
  qed
  show ?thesis
    using local_deletion_invisible_to_policy [OF demoEntries_inv, of "''1''" "''s''" "''a''" TwoWay]
    unfolding eq .
qed

text \<open>
  A finished download brings an entry into agreement: after \<open>markEntryDownloaded\<close> of an
  entry without conflict that exists on both sides, two-way mode has nothing left to do, and
  the stored entry carries the hash of the downloaded file.
\<close>

theorem download_reaches_agreement:
  assumes "entries_inv t" and "r \<in> set t" and "int64 mtime"
    and "r_local_deleted_at r = None" and "r_remote_deleted_at r = None" and "r_remote_id r \<noteq> None"
    and "r_conflict_state r \<in> {None, Some ''none''}"
  shows "\<exists>t' e. markEntryDownloaded now (r_id r) n mtime h t = (Inr (), t') \<and>
    getEntryById (r_id r) t' = Inr (Some e) \<and> e_contentHash e = Some h \<and> decide (classify e) TwoWay = Noop"
proof -
  let ?f = "set_downloaded now n mtime h"
  have "\<exists>t'. stmtE (sql_update entries_ok (step_failed ''entries'') (\<lambda>x. r_id x = r_id r) ?f) t = (Inr (), t') \<and>
      getEntryById (r_id r) t' = Inr (Some (entryOf (?f r))) \<and> ?f r \<in> set t' \<and> entries_inv t'"
    by (rule update_by_id [OF assms(1,2) refl])
      (simp_all add: set_downloaded_def readable_row_def stoll_toMtimeString [OF assms(3)])
  moreover have "e_contentHash (entryOf (?f r)) = Some h" by (simp add: set_downloaded_def)
  moreover have "decide (classify (entryOf (?f r))) TwoWay = Noop"
    using assms(4-7) by (auto simp: classify_def decideTwoWay_def Let_def set_downloaded_def)
  ultimately show ?thesis unfolding markEntryDownloaded_def by blast
qed

definition demoRemote :: entry_row where
  "demoRemote = (demoRow ''1'' ''a'')\<lparr>r_remote_id := Some ''f'', r_remote_updated_at := Some ''t1''\<rparr>"

lemma demoRemote_inv: "entries_inv [demoRemote]"
proof -
  have "stoll ''12'' = Inr 12" by code_simp
  then show ?thesis
    by (simp add: entries_inv_def entries_ok_def uniq_on_Cons readable_row_def demoRemote_def demoRow_def)
qed

theorem download_reaches_agreement_witness:
  "\<exists>t' e. markEntryDownloaded ''2'' ''1'' 4 5000000 ''h2'' [demoRemote] = (Inr (), t') \<and>
     getEntryById ''1'' t' = Inr (Some e) \<and> decide (classify e) TwoWay = Noop"
  using download_reaches_agreement [OF demoRemote_inv, of demoRemote 5000000 "''2''" 4 "''h2''"]
  by (auto simp: int64_def demoRemote_def demoRow_def)

text \<open>
  An upload of a changed file that had been in agreement before does not bring it back into
  agreement: \<open>markEntryUploaded\<close> keeps the old \<open>synced_remote_updated_at\<close>, the next remote scan
  sees the server's new time and, since the column is not \<open>NULL\<close>, keeps it too, so in two-way
  mode the program downloads the file it has just uploaded.
\<close>

theorem own_upload_is_downloaded_again:
  assumes "entries_inv [r]" and "r_synced_remote_updated_at r = Some old" and "r_remote_id r = Some f"
    and "ru_syncRootId u = r_sync_root_id r" and "ru_remoteId u = f" and "ru_remoteUpdatedAt u \<noteq> old"
    and "ru_remoteDeletedAt u = None"
  shows "\<exists>t1 t2 e. markEntryUploaded now (r_id r) f parent [r] = (Inr (), t1) \<and>
    upsertRemoteEntry now newId u t1 = (Inr (), t2) \<and> getEntryById (r_id r) t2 = Inr (Some e) \<and>
    \<not> localDirty (classify e) \<and> decide (classify e) TwoWay = Download"
proof -
  let ?x = "update_remote now u (set_uploaded now f parent r)"
  have ok: "entries_ok [y]" for y by (simp add: entries_ok_def uniq_on_Cons)
  have "readable_row (set_uploaded now f parent r)"
    using assms(1) by (simp add: entries_inv_def readable_row_def set_uploaded_def)
  then have "readable_row ?x" by (rule readable_updates)
  then have "entries_inv [?x]" using ok by (simp add: entries_inv_def)
  then have "getEntryById (r_id ?x) [?x] = Inr (Some (entryOf ?x))" by (rule getEntryById_row) simp
  moreover have "r_id ?x = r_id r" by (simp add: update_remote_def set_uploaded_def)
  moreover have "markEntryUploaded now (r_id r) f parent [r] = (Inr (), [set_uploaded now f parent r])"
    using ok by (simp add: markEntryUploaded_def stmtE_def sql_update_def)
  moreover have "upsertRemoteEntry now newId u [set_uploaded now f parent r] = (Inr (), [?x])"
    using ok assms(4,5) by (simp add: upsertRemoteEntry_def sql_update_def sql_changes_def set_uploaded_def)
  moreover have "\<not> localDirty (classify (entryOf ?x)) \<and> decide (classify (entryOf ?x)) TwoWay = Download"
    using assms(2,6,7)
    by (simp add: classify_def decideTwoWay_def Let_def update_remote_def set_uploaded_def)
  ultimately show ?thesis by metis
qed

definition demoScan :: RemoteEntryUpsert where
  "demoScan = \<lparr>ru_syncRootId = ''s'', ru_remoteId = ''f'', ru_localPath = ''a'', ru_remoteType = ''file'',
     ru_remoteFileId = Some ''f'', ru_remoteFolderId = None, ru_remoteParentFolderId = None,
     ru_encryptedName = None, ru_encryptedMetadata = None, ru_remoteDeletedAt = None,
     ru_remoteUpdatedAt = ''t2''\<rparr>"

theorem own_upload_is_downloaded_again_witness:
  "\<exists>t1 t2 e. markEntryUploaded ''3'' ''1'' ''f'' None [demoRemote\<lparr>r_synced_remote_updated_at := Some ''t1''\<rparr>] =
       (Inr (), t1) \<and> upsertRemoteEntry ''3'' ''n'' demoScan t1 = (Inr (), t2) \<and>
     getEntryById ''1'' t2 = Inr (Some e) \<and> decide (classify e) TwoWay = Download"
proof -
  let ?r = "demoRemote\<lparr>r_synced_remote_updated_at := Some ''t1''\<rparr>"
  have inv: "entries_inv [?r]"
    using demoRemote_inv by (simp add: entries_inv_def entries_ok_def uniq_on_Cons readable_row_def)
  have id: "r_id ?r = ''1''" by (simp add: demoRemote_def demoRow_def)
  have "\<exists>t1 t2 e. markEntryUploaded ''3'' (r_id ?r) ''f'' None [?r] = (Inr (), t1) \<and>
      upsertRemoteEntry ''3'' ''n'' demoScan t1 = (Inr (), t2) \<and> getEntryById (r_id ?r) t2 = Inr (Some e) \<and>
      \<not> localDirty (classify e) \<and> decide (classify e) TwoWay = Download"
    by (rule own_upload_is_downloaded_again [OF inv, where old = "''t1''"])
      (simp_all add: demoRemote_def demoRow_def demoScan_def)
  then show ?thesis unfolding id by blast
qed

end
