(* ===== verification/Scan_Repo.thy ===== *)
theory Scan_Repo
  imports Sqlite
begin

text \<open>
  The table \<open>scan_jobs\<close> and the class \<open>ScanRepo\<close> (repo/ScanRepo.cpp). A scan job remembers in
  \<open>cursor_path\<close> how far the scan of a root got, so that a scan interrupted by a restart goes on.
\<close>

section \<open>Rows and jobs\<close>

record scan_row =
  sj_id :: string
  sj_sync_root_id :: string
  sj_status :: string
  sj_cursor_path :: "string option"
  sj_started_at :: string
  sj_updated_at :: string
  sj_completed_at :: "string option"

type_synonym scan_table = "scan_row list"

record ScanJob =
  scan_id :: string
  scan_syncRootId :: string
  scan_status :: string
  scan_cursorPath :: "string option"
  scan_startedAt :: string
  scan_updatedAt :: string
  scan_completedAt :: "string option"

definition scan_pk :: "scan_row \<Rightarrow> string option" where
  "scan_pk r = Some (sj_id r)"

definition idx_scan_jobs_active_root :: "scan_row \<Rightarrow> string option" where
  "idx_scan_jobs_active_root r = (if sj_status r = ''running'' then Some (sj_sync_root_id r) else None)"

definition scan_ok :: "scan_table \<Rightarrow> bool" where
  "scan_ok t \<longleftrightarrow> uniq_on scan_pk t \<and> uniq_on idx_scan_jobs_active_root t"

section \<open>Operations\<close>

text \<open>The columns that are read as \<open>NOT NULL\<close> are declared so.\<close>

definition readScanJob :: "scan_row \<Rightarrow> ScanJob" where
  "readScanJob r =
     \<lparr>scan_id = sj_id r, scan_syncRootId = sj_sync_root_id r, scan_status = sj_status r,
      scan_cursorPath = sj_cursor_path r, scan_startedAt = sj_started_at r,
      scan_updatedAt = sj_updated_at r, scan_completedAt = sj_completed_at r\<rparr>"

definition new_scan :: "string \<Rightarrow> ScanJob \<Rightarrow> scan_row" where
  "new_scan now job =
     \<lparr>sj_id = scan_id job, sj_sync_root_id = scan_syncRootId job, sj_status = scan_status job,
      sj_cursor_path = scan_cursorPath job, sj_started_at = now, sj_updated_at = now,
      sj_completed_at = None\<rparr>"

text \<open>\<open>INSERT OR IGNORE\<close>; the result is whether a row was inserted.\<close>

definition insertScanJob :: "string \<Rightarrow> ScanJob \<Rightarrow> (scan_table, bool) act" where
  "insertScanJob now job t =
     (Inr (scan_ok (t @ [new_scan now job])), sql_insert_or_ignore scan_ok (new_scan now job) t)"

definition running_of :: "string \<Rightarrow> scan_row \<Rightarrow> bool" where
  "running_of syncRootId r \<longleftrightarrow> sj_sync_root_id r = syncRootId \<and> sj_status r = ''running''"

text \<open>\<open>ORDER BY updated_at DESC LIMIT 1\<close>: the first row among those with the latest time.\<close>

definition latest :: "('r \<Rightarrow> 'k::linorder) \<Rightarrow> 'r list \<Rightarrow> 'r option" where
  "latest k rs = limit1 (filter (\<lambda>r. \<forall>s\<in>set rs. k s \<le> k r) rs)"

definition getScanJob :: "string \<Rightarrow> scan_table \<Rightarrow> ScanJob option" where
  "getScanJob syncRootId t = map_option readScanJob (latest sj_updated_at (filter (running_of syncRootId) t))"

definition hasRunningScanJob :: "string \<Rightarrow> scan_table \<Rightarrow> bool" where
  "hasRunningScanJob syncRootId t \<longleftrightarrow> (\<exists>r\<in>set t. running_of syncRootId r)"

definition ensureRunningScanJob :: "string \<Rightarrow> string \<Rightarrow> string \<Rightarrow> (scan_table, unit) act" where
  "ensureRunningScanJob now newId syncRootId t =
     (if hasRunningScanJob syncRootId t then (Inr (), t)
      else bindE (insertScanJob now \<lparr>scan_id = newId, scan_syncRootId = syncRootId,
             scan_status = ''running'', scan_cursorPath = None, scan_startedAt = [],
             scan_updatedAt = [], scan_completedAt = None\<rparr>) (\<lambda>_. returnE ()) t)"

definition updateScanCursor :: "string \<Rightarrow> string \<Rightarrow> string \<Rightarrow> (scan_table, unit) act" where
  "updateScanCursor now jobId cursorPath = stmtE
     (sql_update scan_ok (step_failed ''scan_jobs'') (\<lambda>r. sj_id r = jobId)
        (\<lambda>r. r\<lparr>sj_cursor_path := Some cursorPath, sj_updated_at := now\<rparr>))"

definition markScanComplete :: "string \<Rightarrow> string \<Rightarrow> (scan_table, unit) act" where
  "markScanComplete now jobId = stmtE
     (sql_update scan_ok (step_failed ''scan_jobs'') (\<lambda>r. sj_id r = jobId)
        (\<lambda>r. r\<lparr>sj_status := ''completed'', sj_updated_at := now, sj_completed_at := Some now\<rparr>))"

section \<open>One running scan per root\<close>

lemma keeps_scans [keeps_intros]:
  "keeps scan_ok (insertScanJob now job)"
  "keeps scan_ok (updateScanCursor now jobId c)"
  "keeps scan_ok (markScanComplete now jobId)"
  unfolding updateScanCursor_def markScanComplete_def
  by (auto simp: keeps_def insertScanJob_def sql_insert_or_ignore_def stmtE_def sql_update_def Let_def)

lemma keeps_ensureRunningScanJob [keeps_intros]: "keeps scan_ok (ensureRunningScanJob now newId root)"
  using keeps_scans(1)
  by (auto simp: keeps_def ensureRunningScanJob_def bindE_def returnE_def insertScanJob_def)

inductive scan_step :: "scan_table \<Rightarrow> scan_table \<Rightarrow> bool" where
  insert: "scan_step t (snd (insertScanJob now job t))"
| ensure: "scan_step t (snd (ensureRunningScanJob now newId root t))"
| cursor: "scan_step t (snd (updateScanCursor now jobId c t))"
| complete: "scan_step t (snd (markScanComplete now jobId t))"

interpretation scan_runs: transition_system "\<lambda>t. t = []" scan_step scan_ok
proof
  show "scan_ok t" if "t = []" for t using that by (simp add: scan_ok_def)
next
  fix s t assume "scan_step s t" and "scan_ok s"
  then show "scan_ok t" by (cases rule: scan_step.cases) (auto intro: keepsD keeps_intros)
qed

lemma running_unique:
  assumes "scan_ok t" and "r \<in> set t" and "running_of root r"
  shows "filter (running_of root) t = [r]"
proof -
  have "distinct (map sj_id t)"
    using assms(1) unfolding scan_ok_def scan_pk_def [abs_def] by (simp add: uniq_on_total)
  then have "filter (\<lambda>x. sj_id x = sj_id r \<and> running_of root x) t = [r]"
    using assms(2,3) by (rule filter_key_single)
  moreover have "x = r" if "x \<in> set t" "running_of root x" for x
    using uniq_onD [of idx_scan_jobs_active_root t x r root] assms that
    by (auto simp: scan_ok_def idx_scan_jobs_active_root_def running_of_def)
  then have "filter (running_of root) t = filter (\<lambda>x. sj_id x = sj_id r \<and> running_of root x) t"
    by (intro filter_cong) auto
  ultimately show ?thesis by simp
qed

lemma getScanJob_running:
  assumes "scan_ok t" and "r \<in> set t" and "running_of root r"
  shows "getScanJob root t = Some (readScanJob r)"
  by (simp add: getScanJob_def running_unique [OF assms] latest_def)

lemma getScanJob_none: "\<not> hasRunningScanJob root t \<Longrightarrow> getScanJob root t = None"
proof -
  assume "\<not> hasRunningScanJob root t"
  then have "filter (running_of root) t = []" by (auto simp: hasRunningScanJob_def filter_empty_conv)
  then show ?thesis by (simp add: getScanJob_def latest_def)
qed

lemma update_keeps_scan_ok:
  assumes "scan_ok t" and "\<And>r. sj_id (f r) = sj_id r"
    and "\<And>r. idx_scan_jobs_active_root (f r) = idx_scan_jobs_active_root r \<or> idx_scan_jobs_active_root (f r) = None"
  shows "scan_ok (update_where p f t)"
proof -
  have "uniq_on scan_pk (update_where p f t)"
    by (rule uniq_on_update_where) (use assms(1,2) in \<open>auto simp: scan_ok_def scan_pk_def\<close>)
  moreover have "uniq_on idx_scan_jobs_active_root (update_where p f t)"
    by (rule uniq_on_update_where) (use assms(1) in \<open>simp add: scan_ok_def\<close>, rule assms(3))
  ultimately show ?thesis by (simp add: scan_ok_def)
qed

section \<open>Properties\<close>

text \<open>
  A scan can always be started or resumed: on every reachable table, with an unused
  identifier, \<open>ensureRunningScanJob\<close> succeeds; afterwards the root has exactly one running
  job, which \<open>getScanJob\<close> returns, and a job that was already running is the same one with
  its cursor untouched.
\<close>

theorem ensure_running_scan:
  assumes "scan_step\<^sup>*\<^sup>* [] t" and "newId \<notin> sj_id ` set t"
  shows "\<exists>t' job. ensureRunningScanJob now newId root t = (Inr (), t') \<and>
    getScanJob root t' = Some job \<and> length (filter (running_of root) t') = 1 \<and>
    (case getScanJob root t of None \<Rightarrow> scan_cursorPath job = None | Some old \<Rightarrow> job = old)"
proof -
  have ok: "scan_ok t" by (rule scan_runs.invar_reachable [OF refl assms(1)])
  show ?thesis
  proof (cases "hasRunningScanJob root t")
    case True
    then obtain r where r: "r \<in> set t" "running_of root r" by (auto simp: hasRunningScanJob_def)
    then show ?thesis
      using True getScanJob_running [OF ok r] running_unique [OF ok r]
      by (auto simp: ensureRunningScanJob_def)
  next
    case False
    let ?job = "\<lparr>scan_id = newId, scan_syncRootId = root, scan_status = ''running'', scan_cursorPath = None,
      scan_startedAt = [], scan_updatedAt = [], scan_completedAt = None\<rparr>"
    let ?r = "new_scan now ?job"
    have new: "running_of root ?r" "sj_id ?r = newId" "sj_cursor_path ?r = None"
      by (simp_all add: new_scan_def running_of_def)
    have ok': "scan_ok (t @ [?r])"
      using ok assms(2) False new
      by (auto simp: scan_ok_def uniq_on_snoc has_key_def scan_pk_def idx_scan_jobs_active_root_def
          hasRunningScanJob_def running_of_def split: if_splits)
    then have "ensureRunningScanJob now newId root t = (Inr (), t @ [?r])"
      using False by (simp add: ensureRunningScanJob_def bindE_def returnE_def insertScanJob_def sql_insert_or_ignore_def)
    moreover have "getScanJob root (t @ [?r]) = Some (readScanJob ?r)"
      using getScanJob_running [OF ok' _ new(1)] by simp
    moreover have "filter (running_of root) (t @ [?r]) = [?r]"
      using running_unique [OF ok' _ new(1)] by simp
    ultimately show ?thesis
      using getScanJob_none [OF False] new(3) by (auto simp: readScanJob_def)
  qed
qed

theorem ensure_running_scan_witness:
  "\<exists>t' job. ensureRunningScanJob ''1'' ''j'' ''s'' [] = (Inr (), t') \<and> getScanJob ''s'' t' = Some job \<and>
     scan_cursorPath job = None"
  using ensure_running_scan [OF rtranclp.rtrancl_refl, of "''j''" "''1''" "''s''"]
  by (auto simp: getScanJob_none hasRunningScanJob_def)

text \<open>
  The cursor of a running scan survives: after \<open>updateScanCursor\<close> the job returned for the
  root is the same job with the new cursor, and after \<open>markScanComplete\<close> the root has no
  running scan any more.
\<close>

theorem scan_cursor_round_trip:
  assumes "scan_step\<^sup>*\<^sup>* [] t" and "getScanJob root t = Some job"
  shows "\<exists>t' t''. updateScanCursor now (scan_id job) c t = (Inr (), t') \<and>
    getScanJob root t' = Some (job\<lparr>scan_cursorPath := Some c, scan_updatedAt := now\<rparr>) \<and>
    markScanComplete now (scan_id job) t = (Inr (), t'') \<and> getScanJob root t'' = None"
proof -
  have ok: "scan_ok t" by (rule scan_runs.invar_reachable [OF refl assms(1)])
  have "hasRunningScanJob root t" using assms(2) getScanJob_none by fastforce
  then obtain r where r: "r \<in> set t" "running_of root r" by (auto simp: hasRunningScanJob_def)
  have job: "job = readScanJob r" using assms(2) getScanJob_running [OF ok r] by simp
  have only: "x = r" if "x \<in> set t" "running_of root x" for x
  proof -
    have "x \<in> set (filter (running_of root) t)" using that by simp
    then show ?thesis unfolding running_unique [OF ok r] by simp
  qed
  let ?f = "\<lambda>r. r\<lparr>sj_cursor_path := Some c, sj_updated_at := now\<rparr>"
  let ?g = "\<lambda>r. r\<lparr>sj_status := ''completed'', sj_updated_at := now, sj_completed_at := Some now\<rparr>"
  let ?t = "update_where (\<lambda>x. sj_id x = sj_id r) ?f t" and ?u = "update_where (\<lambda>x. sj_id x = sj_id r) ?g t"
  have ok1: "scan_ok ?t" and ok2: "scan_ok ?u"
    by (rule update_keeps_scan_ok [OF ok]; simp add: idx_scan_jobs_active_root_def)+
  have "?f r \<in> set ?t" using r(1) by (force simp: in_update_where)
  then have "getScanJob root ?t = Some (readScanJob (?f r))"
    using ok1 r(2) by (intro getScanJob_running) (simp_all add: running_of_def)
  moreover have "\<not> hasRunningScanJob root ?u"
  proof
    assume "hasRunningScanJob root ?u"
    then obtain x where x: "x \<in> set t" "running_of root (if sj_id x = sj_id r then ?g x else x)"
      unfolding hasRunningScanJob_def update_where_def set_map by blast
    then show False using only [of x] by (cases "sj_id x = sj_id r") (auto simp: running_of_def)
  qed
  ultimately show ?thesis
    using ok1 ok2 getScanJob_none
    by (auto simp: job readScanJob_def updateScanCursor_def markScanComplete_def stmtE_def sql_update_def)
qed

definition demoScans :: scan_table where
  "demoScans = snd (ensureRunningScanJob ''1'' ''j'' ''s'' [])"

theorem scan_cursor_round_trip_witness:
  "\<exists>t' job. updateScanCursor ''2'' ''j'' ''a/b'' demoScans = (Inr (), t') \<and> getScanJob ''s'' t' = Some job \<and>
     scan_cursorPath job = Some ''a/b''"
proof -
  have run: "scan_step\<^sup>*\<^sup>* [] demoScans"
    unfolding demoScans_def by (rule r_into_rtranclp) (rule scan_step.ensure)
  have "getScanJob ''s'' demoScans = Some \<lparr>scan_id = ''j'', scan_syncRootId = ''s'', scan_status = ''running'',
      scan_cursorPath = None, scan_startedAt = ''1'', scan_updatedAt = ''1'', scan_completedAt = None\<rparr>"
    by (simp add: demoScans_def ensureRunningScanJob_def hasRunningScanJob_def bindE_def returnE_def
        insertScanJob_def sql_insert_or_ignore_def scan_ok_def uniq_on_Cons new_scan_def getScanJob_def
        running_of_def latest_def readScanJob_def)
  from scan_cursor_round_trip [OF run this, of "''2''" "''a/b''"] show ?thesis by auto
qed

end
