(* ===== verification/User_Repo.thy ===== *)
theory User_Repo
  imports Sqlite
begin

text \<open>
  The table \<open>account\<close>, whose only row has the identifier 1 and is inserted by the migration, and
  the class \<open>UserRepo\<close> (repo/UserRepo.cpp).
\<close>

section \<open>The account\<close>

record account_row =
  ac_id :: int
  ac_base_url :: string
  ac_user_id :: "string option"
  ac_email :: "string option"
  ac_vault_salt :: "string option"
  ac_encrypted_master_key :: "string option"
  ac_vault_session_key_id :: "string option"
  ac_vault_session_blob :: "string option"
  ac_created_at :: string
  ac_updated_at :: string

type_synonym account_table = "account_row list"

record AccountRecord =
  acc_baseUrl :: string
  acc_userId :: "string option"
  acc_email :: "string option"
  acc_vaultSalt :: "string option"
  acc_encryptedMasterKey :: "string option"
  acc_vaultSessionKeyId :: "string option"
  acc_vaultSessionBlob :: "string option"

definition account_pk :: "account_row \<Rightarrow> int option" where
  "account_pk r = Some (ac_id r)"

text \<open>The primary key and \<open>CHECK (id = 1)\<close>.\<close>

definition account_ok :: "account_table \<Rightarrow> bool" where
  "account_ok t \<longleftrightarrow> uniq_on account_pk t \<and> (\<forall>r\<in>set t. ac_id r = 1)"

text \<open>The table the migration leaves.\<close>

definition migrated_account :: "string \<Rightarrow> account_table" where
  "migrated_account now =
     [\<lparr>ac_id = 1, ac_base_url = ''http://localhost:8080'', ac_user_id = None, ac_email = None,
       ac_vault_salt = None, ac_encrypted_master_key = None, ac_vault_session_key_id = None,
       ac_vault_session_blob = None, ac_created_at = now, ac_updated_at = now\<rparr>]"

section \<open>Operations\<close>

definition hasPersistedVaultMaterial :: "AccountRecord \<Rightarrow> bool" where
  "hasPersistedVaultMaterial a \<longleftrightarrow>
     acc_email a \<noteq> None \<and> acc_vaultSalt a \<noteq> None \<and> acc_encryptedMasterKey a \<noteq> None"

definition account_of :: "account_row \<Rightarrow> AccountRecord" where
  "account_of r =
     \<lparr>acc_baseUrl = ac_base_url r, acc_userId = ac_user_id r, acc_email = ac_email r,
      acc_vaultSalt = ac_vault_salt r, acc_encryptedMasterKey = ac_encrypted_master_key r,
      acc_vaultSessionKeyId = ac_vault_session_key_id r, acc_vaultSessionBlob = ac_vault_session_blob r\<rparr>"

definition getAccount :: "account_table \<Rightarrow> AccountRecord option" where
  "getAccount t = map_option account_of (limit1 (filter (\<lambda>r. ac_id r = 1) t))"

definition set_account :: "string \<Rightarrow> AccountRecord \<Rightarrow> account_row \<Rightarrow> account_row" where
  "set_account now a r =
     r\<lparr>ac_base_url := acc_baseUrl a, ac_user_id := acc_userId a, ac_email := acc_email a,
       ac_vault_salt := acc_vaultSalt a, ac_encrypted_master_key := acc_encryptedMasterKey a,
       ac_vault_session_key_id := acc_vaultSessionKeyId a,
       ac_vault_session_blob := acc_vaultSessionBlob a, ac_updated_at := now\<rparr>"

definition upsertAccount :: "string \<Rightarrow> AccountRecord \<Rightarrow> (account_table, unit) act" where
  "upsertAccount now a = stmtE
     (sql_upsert account_ok (step_failed ''account'') account_pk (set_account now a)
        (set_account now a
           \<lparr>ac_id = 1, ac_base_url = [], ac_user_id = None, ac_email = None, ac_vault_salt = None,
            ac_encrypted_master_key = None, ac_vault_session_key_id = None,
            ac_vault_session_blob = None, ac_created_at = now, ac_updated_at = now\<rparr>))"

definition saveVaultSession :: "string \<Rightarrow> string \<Rightarrow> string \<Rightarrow> (account_table, unit) act" where
  "saveVaultSession now sessionKeyId sessionBlob = stmtE
     (sql_update account_ok (step_failed ''account'') (\<lambda>r. ac_id r = 1)
        (\<lambda>r. r\<lparr>ac_vault_session_key_id := Some sessionKeyId,
               ac_vault_session_blob := Some sessionBlob, ac_updated_at := now\<rparr>))"

definition clearVaultSession :: "string \<Rightarrow> (account_table, unit) act" where
  "clearVaultSession now = stmtE
     (sql_update account_ok (step_failed ''account'') (\<lambda>r. ac_id r = 1)
        (\<lambda>r. r\<lparr>ac_vault_session_key_id := None, ac_vault_session_blob := None, ac_updated_at := now\<rparr>))"

definition clearAccount :: "string \<Rightarrow> (account_table, unit) act" where
  "clearAccount now = stmtE
     (sql_update account_ok (step_failed ''account'') (\<lambda>r. ac_id r = 1)
        (\<lambda>r. r\<lparr>ac_user_id := None, ac_email := None, ac_vault_salt := None,
               ac_encrypted_master_key := None, ac_vault_session_key_id := None,
               ac_vault_session_blob := None, ac_updated_at := now\<rparr>))"

section \<open>One account\<close>

definition account_inv :: "account_table \<Rightarrow> bool" where
  "account_inv t \<longleftrightarrow> (\<exists>r. t = [r] \<and> ac_id r = 1)"

lemma account_ok_single: "account_ok [r] \<longleftrightarrow> ac_id r = 1"
  by (simp add: account_ok_def uniq_on_Cons)

lemma account_update:
  assumes "ac_id r = 1" and "ac_id (f r) = 1"
  shows "stmtE (sql_update account_ok e (\<lambda>r. ac_id r = 1) f) [r] = (Inr (), [f r])"
  using assms by (simp add: stmtE_def sql_update_def account_ok_single)

lemma getAccount_single: "ac_id r = 1 \<Longrightarrow> getAccount [r] = Some (account_of r)"
  by (simp add: getAccount_def)

lemma upsertAccount_single:
  assumes "ac_id r = 1"
  shows "upsertAccount now a [r] = (Inr (), [set_account now a r])"
proof -
  have "ac_id (set_account now a r) = 1" using assms by (simp add: set_account_def)
  then show ?thesis
    using assms
    by (simp add: upsertAccount_def stmtE_def sql_upsert_def sql_update_def account_pk_def account_ok_single)
      (simp add: set_account_def)
qed

section \<open>Properties\<close>

text \<open>
  The account survives exactly as saved: starting from the migrated database there is
  always exactly one account row, \<open>upsertAccount\<close> is read back unchanged by \<open>getAccount\<close>,
  \<open>clearAccount\<close> afterwards leaves the base URL and nothing of the user, the keys and the
  vault session, and \<open>clearVaultSession\<close> removes the session only.
\<close>

theorem account_round_trip:
  assumes "account_inv t"
  shows "\<exists>t'. upsertAccount now a t = (Inr (), t') \<and> account_inv t' \<and> getAccount t' = Some a \<and>
    (\<exists>t''. clearAccount now t' = (Inr (), t'') \<and> account_inv t'' \<and>
       getAccount t'' = Some \<lparr>acc_baseUrl = acc_baseUrl a, acc_userId = None, acc_email = None,
         acc_vaultSalt = None, acc_encryptedMasterKey = None, acc_vaultSessionKeyId = None,
         acc_vaultSessionBlob = None\<rparr>) \<and>
    (\<exists>t''. clearVaultSession now t' = (Inr (), t'') \<and> account_inv t'' \<and>
       getAccount t'' = Some (a\<lparr>acc_vaultSessionKeyId := None, acc_vaultSessionBlob := None\<rparr>))"
proof -
  obtain r where t: "t = [r]" and r: "ac_id r = 1" using assms by (auto simp: account_inv_def)
  have r': "ac_id (set_account now a r) = 1" using r by (simp add: set_account_def)
  show ?thesis
    unfolding t clearAccount_def clearVaultSession_def
    using r r'
    by (simp add: upsertAccount_single account_inv_def account_update getAccount_single)
      (simp add: account_of_def set_account_def)
qed

theorem account_round_trip_witness:
  "\<exists>t'. upsertAccount ''1'' \<lparr>acc_baseUrl = ''u'', acc_userId = Some ''x'', acc_email = Some ''e'',
       acc_vaultSalt = Some ''s'', acc_encryptedMasterKey = Some ''k'', acc_vaultSessionKeyId = None,
       acc_vaultSessionBlob = None\<rparr> (migrated_account ''0'') = (Inr (), t') \<and> account_inv t'"
proof -
  have "account_inv (migrated_account ''0'')" by (simp add: account_inv_def migrated_account_def)
  from account_round_trip [OF this] show ?thesis by blast
qed

end
