(* ===== verification/App_State.thy ===== *)
theory App_State
  imports Queue_Repo Dirty_Path_Repo Entry_Writes Scan_Repo User_Repo
begin

text \<open>
  What the services of the daemon share: the tables of the database, the local file system and
  the server. Every repository works on its own table; the lifts below run a repository's
  action on the state as a whole. Each statement reads the clock and may draw a fresh
  identifier: the \<open>n\<close>-th such reading is the \<open>n\<close>-th value of two arbitrary sequences.

  The file system maps the path strings the program uses to files and directories. Symbolic
  links and failing system calls are left aside. The type \<open>'srv\<close> is whatever the
  server and the network keep.
\<close>

datatype fs_node = Dir | File bytes int

type_synonym files = "(string \<times> fs_node) list"

record 'srv app =
  app_entries :: entries_table
  app_queue :: queue_table
  app_roots :: sync_roots_table
  app_dirty :: dirty_table
  app_scans :: scan_table
  app_account :: account_table
  app_files :: files
  app_server :: 'srv
  app_tick :: nat

record clocks =
  clock :: "nat \<Rightarrow> string"
  uuid :: "nat \<Rightarrow> string"

type_synonym ('srv, 'a) app_act = "('srv app, 'a) act"

section \<open>Lifting the repositories\<close>

definition onEntries :: "(entries_table, 'a) act \<Rightarrow> ('srv, 'a) app_act" where
  "onEntries m s = (case m (app_entries s) of (x, t) \<Rightarrow> (x, s\<lparr>app_entries := t\<rparr>))"

definition onQueue :: "(queue_table, 'a) act \<Rightarrow> ('srv, 'a) app_act" where
  "onQueue m s = (case m (app_queue s) of (x, t) \<Rightarrow> (x, s\<lparr>app_queue := t\<rparr>))"

definition onRoots :: "(sync_roots_table, 'a) act \<Rightarrow> ('srv, 'a) app_act" where
  "onRoots m s = (case m (app_roots s) of (x, t) \<Rightarrow> (x, s\<lparr>app_roots := t\<rparr>))"

definition onDirty :: "(dirty_table, 'a) act \<Rightarrow> ('srv, 'a) app_act" where
  "onDirty m s = (case m (app_dirty s) of (x, t) \<Rightarrow> (x, s\<lparr>app_dirty := t\<rparr>))"

definition onScans :: "(scan_table, 'a) act \<Rightarrow> ('srv, 'a) app_act" where
  "onScans m s = (case m (app_scans s) of (x, t) \<Rightarrow> (x, s\<lparr>app_scans := t\<rparr>))"

definition onServer :: "('srv, 'a) act \<Rightarrow> ('srv, 'a) app_act" where
  "onServer m s = (case m (app_server s) of (x, t) \<Rightarrow> (x, s\<lparr>app_server := t\<rparr>))"

definition onFiles :: "(files \<Rightarrow> files) \<Rightarrow> ('srv, unit) app_act" where
  "onFiles f s = (Inr (), s\<lparr>app_files := f (app_files s)\<rparr>)"

text \<open>An action that reads the clock and draws an identifier.\<close>

definition timed :: "clocks \<Rightarrow> (string \<Rightarrow> string \<Rightarrow> ('srv, 'a) app_act) \<Rightarrow> ('srv, 'a) app_act" where
  "timed c f s = f (clock c (app_tick s)) (uuid c (app_tick s)) (s\<lparr>app_tick := Suc (app_tick s)\<rparr>)"

text \<open>A service that keeps something of its own next to the shared state.\<close>

definition onApp :: "('srv, 'a) app_act \<Rightarrow> ('srv app \<times> 'l, 'a) act" where
  "onApp m sl = (case sl of (s, l) \<Rightarrow> (case m s of (x, s') \<Rightarrow> (x, (s', l))))"

lemmas lift_defs = onEntries_def onQueue_def onRoots_def onDirty_def onScans_def onServer_def onFiles_def timed_def

section \<open>The file system\<close>

definition fs_at :: "files \<Rightarrow> string \<Rightarrow> fs_node option" where
  "fs_at fs p = map_of fs p"

definition fs_put :: "string \<Rightarrow> fs_node \<Rightarrow> files \<Rightarrow> files" where
  "fs_put p n fs = (p, n) # filter (\<lambda>(q, _). q \<noteq> p) fs"

definition fs_delete :: "(string \<Rightarrow> bool) \<Rightarrow> files \<Rightarrow> files" where
  "fs_delete gone fs = filter (\<lambda>(q, _). \<not> gone q) fs"

definition fs_exists :: "string \<Rightarrow> files \<Rightarrow> bool" where
  "fs_exists p fs \<longleftrightarrow> fs_at fs p \<noteq> None"

definition is_regular_file :: "string \<Rightarrow> files \<Rightarrow> bool" where
  "is_regular_file p fs \<longleftrightarrow> (case fs_at fs p of Some (File _ _) \<Rightarrow> True | _ \<Rightarrow> False)"

definition is_directory :: "string \<Rightarrow> files \<Rightarrow> bool" where
  "is_directory p fs \<longleftrightarrow> (case fs_at fs p of Some Dir \<Rightarrow> True | _ \<Rightarrow> False)"

definition below :: "string \<Rightarrow> string \<Rightarrow> bool" where
  "below p q \<longleftrightarrow> take (Suc (length p)) q = p @ [slash]"

text \<open>\<open>remove\<close> takes away a file, or a directory that is empty.\<close>

definition fs_remove :: "string \<Rightarrow> files \<Rightarrow> files" where
  "fs_remove p fs =
     (if is_directory p fs \<and> (\<exists>(q, _)\<in>set fs. below p q) then fs else fs_delete (\<lambda>q. q = p) fs)"

definition fs_remove_all :: "string \<Rightarrow> files \<Rightarrow> files" where
  "fs_remove_all p fs = fs_delete (\<lambda>q. q = p \<or> below p q) fs"

definition fs_file_size :: "string \<Rightarrow> files \<Rightarrow> nat option" where
  "fs_file_size p fs = (case fs_at fs p of Some (File bs _) \<Rightarrow> Some (length bs) | _ \<Rightarrow> None)"

definition last_write_time :: "string \<Rightarrow> files \<Rightarrow> int option" where
  "last_write_time p fs = (case fs_at fs p of Some (File _ t) \<Rightarrow> Some t | _ \<Rightarrow> None)"

text \<open>\<open>create_directories\<close>: every directory on the way is made; a file on the way is an error.\<close>

definition fs_ancestors :: "string \<Rightarrow> string list" where
  "fs_ancestors p = map (\<lambda>k. build (is_absolute p) (take k (names p)) False) [1..<Suc (length (names p))]"

definition fs_mkdir :: "string \<Rightarrow> files \<Rightarrow> files" where
  "fs_mkdir q fs = (if fs_exists q fs then fs else fs_put q Dir fs)"

definition fs_create_directories :: "string \<Rightarrow> files \<Rightarrow> files result" where
  "fs_create_directories p fs =
     (if \<exists>q\<in>set (fs_ancestors p). is_regular_file q fs then Inl (Runtime_error ''cannot create directories'')
      else Inr (fold fs_mkdir (fs_ancestors p) fs))"

lemma fs_at_put [simp]: "fs_at (fs_put p n fs) q = (if q = p then Some n else fs_at fs q)"
  by (induction fs) (auto simp: fs_at_def fs_put_def)

lemma fs_at_delete [simp]: "fs_at (fs_delete gone fs) q = (if gone q then None else fs_at fs q)"
  by (induction fs) (auto simp: fs_at_def fs_delete_def)

lemma fs_at_remove_all [simp]: "fs_at (fs_remove_all p fs) q = (if q = p \<or> below p q then None else fs_at fs q)"
  by (simp add: fs_remove_all_def)

lemma fs_at_mkdir: "fs_at fs q = Some n \<Longrightarrow> fs_at (fs_mkdir p fs) q = Some n"
  by (auto simp: fs_mkdir_def fs_exists_def)

lemma fs_at_mkdirs: "fs_at fs q = Some n \<Longrightarrow> fs_at (fold fs_mkdir ps fs) q = Some n"
  by (induction ps arbitrary: fs) (simp_all add: fs_at_mkdir)

section \<open>Predicates on the parts of the state\<close>

definition app_inv :: "'srv app \<Rightarrow> bool" where
  "app_inv s \<longleftrightarrow> entries_inv (app_entries s) \<and> queue_inv (app_queue s) \<and> roots_inv (app_roots s) \<and>
     dirty_inv (app_dirty s) \<and> scan_ok (app_scans s) \<and> account_ok (app_account s)"

lemma keeps_part:
  assumes "keeps I m" and "\<And>s. J s \<Longrightarrow> I (get s)" and "\<And>s t. J s \<Longrightarrow> I t \<Longrightarrow> J (put t s)"
  shows "keeps J (\<lambda>s. case m (get s) of (x, t) \<Rightarrow> (x, put t s))"
proof (rule keepsI)
  fix s assume "J s"
  then have "I (snd (m (get s)))" by (rule keepsD [OF assms(1) assms(2)])
  with \<open>J s\<close> show "J (snd (case m (get s) of (x, t) \<Rightarrow> (x, put t s)))"
    using assms(3) by (simp add: case_prod_beta)
qed

lemma keeps_lifts [keeps_intros]:
  "keeps entries_inv m1 \<Longrightarrow> keeps app_inv (onEntries m1)"
  "keeps queue_inv m2 \<Longrightarrow> keeps app_inv (onQueue m2)"
  "keeps roots_inv m3 \<Longrightarrow> keeps app_inv (onRoots m3)"
  "keeps dirty_inv m4 \<Longrightarrow> keeps app_inv (onDirty m4)"
  "keeps scan_ok m5 \<Longrightarrow> keeps app_inv (onScans m5)"
  unfolding onEntries_def [abs_def] onQueue_def [abs_def] onRoots_def [abs_def] onDirty_def [abs_def] onScans_def [abs_def]
  by (erule keeps_part; simp add: app_inv_def)+

lemma keeps_lifts' [keeps_intros]: "keeps app_inv (onServer m)" "keeps app_inv (onFiles f)"
  by (simp_all add: keeps_def app_inv_def onServer_def onFiles_def split: prod.split)

lemma keeps_timed [keeps_intros]: "(\<And>x y. keeps app_inv (f x y)) \<Longrightarrow> keeps app_inv (timed c f)"
  by (simp add: keeps_def timed_def app_inv_def)

text \<open>
  Actions that leave a part of the state alone: \<open>leaves g m\<close> says that \<open>m\<close> changes nothing
  \<open>g\<close> reads.
\<close>

definition leaves :: "('s \<Rightarrow> 'x) \<Rightarrow> ('s, 'a) act \<Rightarrow> bool" where
  "leaves g m \<longleftrightarrow> (\<forall>s. g (snd (m s)) = g s)"

named_theorems leaves_intros "rules showing that an action leaves a part of the state alone"

lemma leavesD: "leaves g m \<Longrightarrow> g (snd (m s)) = g s"
  by (simp add: leaves_def)

lemma leavesD': "leaves g m \<Longrightarrow> m s = (x, s') \<Longrightarrow> g s' = g s"
  by (metis leavesD snd_conv)

lemma leaves_combinators [leaves_intros]:
  "leaves g (returnE x)" "leaves g (throwE e)" "leaves g (getsE h)" "leaves g (liftE k)"
  by (simp_all add: leaves_def act_simps)

lemma leaves_bindE [leaves_intros]: "leaves g m \<Longrightarrow> (\<And>x. leaves g (f x)) \<Longrightarrow> leaves g (bindE m f)"
  by (auto simp: leaves_def bindE_def split: prod.split sum.split) (metis snd_conv)+

lemma leaves_catchE [leaves_intros]: "leaves g m \<Longrightarrow> (\<And>e. leaves g (h e)) \<Longrightarrow> leaves g (catchE m h)"
  by (auto simp: leaves_def catchE_def split: prod.split sum.split) (metis snd_conv)+

lemma leaves_forE [leaves_intros]: "(\<And>x. x \<in> set xs \<Longrightarrow> leaves g (f x)) \<Longrightarrow> leaves g (forE xs f)"
  by (induction xs) (auto intro: leaves_intros)

lemma leaves_if [leaves_intros]: "leaves g a \<Longrightarrow> leaves g b \<Longrightarrow> leaves g (if c then a else b)"
  by simp

lemma leaves_lifts [leaves_intros]:
  "leaves app_queue (onEntries m1)" "leaves app_queue (onRoots m3)" "leaves app_queue (onDirty m4)"
  "leaves app_queue (onScans m5)" "leaves app_queue (onServer m6)" "leaves app_queue (onFiles f)"
  "leaves app_entries (onQueue m2)" "leaves app_entries (onRoots m3)" "leaves app_entries (onDirty m4)"
  "leaves app_entries (onScans m5)" "leaves app_entries (onServer m6)" "leaves app_entries (onFiles f)"
  "leaves app_roots (onQueue m2)" "leaves app_roots (onEntries m1)" "leaves app_roots (onDirty m4)"
  "leaves app_roots (onScans m5)" "leaves app_roots (onServer m6)" "leaves app_roots (onFiles f)"
  "leaves app_files (onQueue m2)" "leaves app_files (onEntries m1)" "leaves app_files (onRoots m3)"
  "leaves app_files (onDirty m4)" "leaves app_files (onScans m5)" "leaves app_files (onServer m6)"
  "leaves app_dirty (onQueue m2)" "leaves app_dirty (onEntries m1)" "leaves app_dirty (onRoots m3)"
  "leaves app_dirty (onScans m5)" "leaves app_dirty (onServer m6)" "leaves app_dirty (onFiles f)"
  by (simp_all add: leaves_def lift_defs split: prod.split)

lemma leaves_timed [leaves_intros]:
  "(\<And>x y. leaves app_queue (f x y)) \<Longrightarrow> leaves app_queue (timed c f)"
  "(\<And>x y. leaves app_entries (f x y)) \<Longrightarrow> leaves app_entries (timed c f)"
  "(\<And>x y. leaves app_roots (f x y)) \<Longrightarrow> leaves app_roots (timed c f)"
  "(\<And>x y. leaves app_files (f x y)) \<Longrightarrow> leaves app_files (timed c f)"
  "(\<And>x y. leaves app_dirty (f x y)) \<Longrightarrow> leaves app_dirty (timed c f)"
  by (simp_all add: leaves_def timed_def)

end
