(* ===== verification/Aad.thy ===== *)
theory Aad
  imports Codecs
begin

text \<open>
  The associated data of every encryption (crypto/Aad.cpp): a fixed prefix per purpose and
  identifiers joined by colons. The integers of a chunk are \<open>int\<close>s and an \<open>int64_t\<close>; here they
  are the integers they hold.
\<close>

section \<open>Prefixes and constructors\<close>

definition "kMasterKey = ''arkive:master-key:v1''"
definition "kSessionMasterKey = ''arkive:session-master-key:v1''"
definition "kFolderName = ''arkive:folder-name:v1''"
definition "kFolderMetadata = ''arkive:folder-metadata:v1''"
definition "kFileKeyPrefix = ''arkive:file-key:v1:''"
definition "kFileMetadataPrefix = ''arkive:file-metadata:v1:''"
definition "kFileManifestPrefix = ''arkive:file-manifest:v1:''"
definition "kFileThumbnailPrefix = ''arkive:file-thumbnail:v1:''"
definition "kFileChunkPrefix = ''arkive:file-chunk:v1:''"
definition "kShareKeyPrefix = ''arkive:share-key:v1:''"
definition "kShareFileKeyPrefix = ''arkive:share-file-key:v1:''"
definition "kMasterKeyRecoveryPrefix = ''arkive:master-key:recovery:v1:''"
definition "kMasterKeyPasswordPrefix = ''arkive:master-key:password:v1:''"
definition "kLocalPathPrefix = ''arkive:local-path:v1:''"
definition "kLocalPathKey = ''arkive:local-path-key:v1''"
definition "kLocalPathHashKey = ''arkive:local-path-hash:v1''"
definition "kResumeFileKeyPrefix = ''arkive:resume-file-key:v1:''"

text \<open>Each part is appended with a colon, and the last colon is taken off again.\<close>

definition appendScopedAad :: "string \<Rightarrow> string list \<Rightarrow> string" where
  "appendScopedAad prefix parts =
     (let value = fold (\<lambda>part v. (v @ part) @ '':'') parts prefix in
      if length parts = 0 then value else butlast value)"

text \<open>\<open>std::vector<uint8_t>(value.begin(), value.end())\<close>.\<close>

definition toBytes :: "string \<Rightarrow> bytes" where
  "toBytes = map of_char"

definition makeFileKey :: "string \<Rightarrow> string \<Rightarrow> string" where
  "makeFileKey vaultId fileId = appendScopedAad kFileKeyPrefix [vaultId, fileId]"

definition makeFileMetadata :: "string \<Rightarrow> string \<Rightarrow> string" where
  "makeFileMetadata vaultId fileId = appendScopedAad kFileMetadataPrefix [vaultId, fileId]"

definition makeFileManifest :: "string \<Rightarrow> string \<Rightarrow> string" where
  "makeFileManifest vaultId fileId = appendScopedAad kFileManifestPrefix [vaultId, fileId]"

definition makeFileThumbnail :: "string \<Rightarrow> string \<Rightarrow> string" where
  "makeFileThumbnail vaultId fileId = appendScopedAad kFileThumbnailPrefix [vaultId, fileId]"

definition makeFileChunk :: "string \<Rightarrow> string \<Rightarrow> int \<Rightarrow> int \<Rightarrow> int \<Rightarrow> string" where
  "makeFileChunk vaultId fileId chunkIndex chunkSize totalChunks =
     appendScopedAad kFileChunkPrefix
       [vaultId, fileId, to_string chunkIndex, to_string chunkSize, to_string totalChunks]"

definition makeShareKey :: "string \<Rightarrow> string" where
  "makeShareKey token = appendScopedAad kShareKeyPrefix [token]"

definition makeShareFileKey :: "string \<Rightarrow> string \<Rightarrow> string" where
  "makeShareFileKey fileId token = appendScopedAad kShareFileKeyPrefix [fileId, token]"

definition makeMasterKeyRecovery :: "string \<Rightarrow> string" where
  "makeMasterKeyRecovery userId = appendScopedAad kMasterKeyRecoveryPrefix [userId]"

definition makeMasterKeyPassword :: "string \<Rightarrow> string" where
  "makeMasterKeyPassword userId = appendScopedAad kMasterKeyPasswordPrefix [userId]"

definition makeLocalPath :: "string \<Rightarrow> string \<Rightarrow> string" where
  "makeLocalPath scopeId pathHash = appendScopedAad kLocalPathPrefix [scopeId, pathHash]"

definition makeResumeFileKey :: "string \<Rightarrow> string" where
  "makeResumeFileKey uploadSessionId = appendScopedAad kResumeFileKeyPrefix [uploadSessionId]"

lemmas aad_defs = makeFileKey_def makeFileMetadata_def makeFileManifest_def makeFileThumbnail_def
  makeFileChunk_def makeShareKey_def makeShareFileKey_def makeMasterKeyRecovery_def
  makeMasterKeyPassword_def makeLocalPath_def makeResumeFileKey_def

section \<open>Joining and splitting\<close>

fun join_colons :: "string list \<Rightarrow> string" where
  "join_colons [] = []"
| "join_colons [p] = p"
| "join_colons (p # q # ps) = p @ '':'' @ join_colons (q # ps)"

lemma fold_append_colons: "fold (\<lambda>part v. v @ part @ '':'') ps v = v @ concat (map (\<lambda>p. p @ '':'') ps)"
  by (induction ps arbitrary: v) simp_all

lemma join_colons_butlast: "ps \<noteq> [] \<Longrightarrow> butlast (concat (map (\<lambda>p. p @ '':'') ps)) = join_colons ps"
  by (induction ps rule: join_colons.induct) (simp_all add: butlast_append)

lemma concat_colons_Nil: "concat (map (\<lambda>p. p @ '':'') ps) = [] \<longleftrightarrow> ps = []"
  by (cases ps) simp_all

lemma appendScopedAad_join: "appendScopedAad prefix ps = prefix @ join_colons ps"
  by (cases "ps = []")
    (simp_all add: appendScopedAad_def fold_append_colons butlast_append concat_colons_Nil join_colons_butlast)

text \<open>Parts without colons can be read back.\<close>

lemma append_colon_inj:
  assumes "CHR '':'' \<notin> set p" and "CHR '':'' \<notin> set q" and "p @ '':'' @ u = q @ '':'' @ v"
  shows "p = q \<and> u = v"
  using assms
proof (induction p arbitrary: q)
  case Nil
  then show ?case by (cases q) auto
next
  case (Cons c p)
  then show ?case by (cases q) auto
qed

lemma join_colons_inj:
  assumes "join_colons ps = join_colons qs" and "length ps = length qs"
    and "\<forall>p\<in>set ps. CHR '':'' \<notin> set p" and "\<forall>q\<in>set qs. CHR '':'' \<notin> set q"
  shows "ps = qs"
  using assms
proof (induction ps arbitrary: qs rule: join_colons.induct)
  case 1
  then show ?case by simp
next
  case (2 p)
  then show ?case by (cases qs) auto
next
  case (3 p p' ps)
  obtain q q' qs' where qs: "qs = q # q' # qs'"
    using 3(3) by (cases qs; cases "tl qs") auto
  have "p = q \<and> join_colons (p' # ps) = join_colons (q' # qs')"
    by (rule append_colon_inj) (use 3(2,4,5) qs in simp_all)
  moreover have "p' # ps = q' # qs'" if "join_colons (p' # ps) = join_colons (q' # qs')"
    using 3(3,4,5) qs by (intro 3(1) that) simp_all
  ultimately show ?case using qs by simp
qed

section \<open>Properties\<close>

text \<open>Everything the program passes as associated data, by purpose.\<close>

datatype purpose =
    MasterKey | SessionMasterKey | FolderName | FolderMetadata | LocalPathKey | LocalPathHashKey
  | FileKey string string | FileMetadata string string | FileManifest string string
  | FileThumbnail string string | FileChunk string string int int int | ShareKey string
  | ShareFileKey string string | MasterKeyRecovery string | MasterKeyPassword string
  | LocalPath string string | ResumeFileKey string

fun aad_of :: "purpose \<Rightarrow> string" where
  "aad_of MasterKey = kMasterKey"
| "aad_of SessionMasterKey = kSessionMasterKey"
| "aad_of FolderName = kFolderName"
| "aad_of FolderMetadata = kFolderMetadata"
| "aad_of LocalPathKey = kLocalPathKey"
| "aad_of LocalPathHashKey = kLocalPathHashKey"
| "aad_of (FileKey v f) = makeFileKey v f"
| "aad_of (FileMetadata v f) = makeFileMetadata v f"
| "aad_of (FileManifest v f) = makeFileManifest v f"
| "aad_of (FileThumbnail v f) = makeFileThumbnail v f"
| "aad_of (FileChunk v f i n t) = makeFileChunk v f i n t"
| "aad_of (ShareKey t) = makeShareKey t"
| "aad_of (ShareFileKey f t) = makeShareFileKey f t"
| "aad_of (MasterKeyRecovery u) = makeMasterKeyRecovery u"
| "aad_of (MasterKeyPassword u) = makeMasterKeyPassword u"
| "aad_of (LocalPath s h) = makeLocalPath s h"
| "aad_of (ResumeFileKey s) = makeResumeFileKey s"

text \<open>The fixed prefix of a purpose, its number and its identifiers.\<close>

fun tag_of :: "purpose \<Rightarrow> nat" where
  "tag_of MasterKey = 0" | "tag_of SessionMasterKey = 1" | "tag_of FolderName = 2"
| "tag_of FolderMetadata = 3" | "tag_of LocalPathKey = 4" | "tag_of LocalPathHashKey = 5"
| "tag_of (FileKey _ _) = 6" | "tag_of (FileMetadata _ _) = 7" | "tag_of (FileManifest _ _) = 8"
| "tag_of (FileThumbnail _ _) = 9" | "tag_of (FileChunk _ _ _ _ _) = 10" | "tag_of (ShareKey _) = 11"
| "tag_of (ShareFileKey _ _) = 12" | "tag_of (MasterKeyRecovery _) = 13"
| "tag_of (MasterKeyPassword _) = 14" | "tag_of (LocalPath _ _) = 15" | "tag_of (ResumeFileKey _) = 16"

definition prefixes :: "string list" where
  "prefixes = [kMasterKey, kSessionMasterKey, kFolderName, kFolderMetadata, kLocalPathKey,
     kLocalPathHashKey, kFileKeyPrefix, kFileMetadataPrefix, kFileManifestPrefix,
     kFileThumbnailPrefix, kFileChunkPrefix, kShareKeyPrefix, kShareFileKeyPrefix,
     kMasterKeyRecoveryPrefix, kMasterKeyPasswordPrefix, kLocalPathPrefix, kResumeFileKeyPrefix]"

fun parts_of :: "purpose \<Rightarrow> string list" where
  "parts_of (FileKey v f) = [v, f]"
| "parts_of (FileMetadata v f) = [v, f]"
| "parts_of (FileManifest v f) = [v, f]"
| "parts_of (FileThumbnail v f) = [v, f]"
| "parts_of (FileChunk v f i n t) = [v, f, to_string i, to_string n, to_string t]"
| "parts_of (ShareKey t) = [t]"
| "parts_of (ShareFileKey f t) = [f, t]"
| "parts_of (MasterKeyRecovery u) = [u]"
| "parts_of (MasterKeyPassword u) = [u]"
| "parts_of (LocalPath s h) = [s, h]"
| "parts_of (ResumeFileKey s) = [s]"
| "parts_of _ = []"

lemma tag_less: "tag_of p < 17"
  by (cases p) simp_all

lemma aad_of_parts: "aad_of p = prefixes ! tag_of p @ join_colons (parts_of p)"
  by (cases p) (simp_all add: prefixes_def aad_defs appendScopedAad_join)

definition is_prefix :: "string \<Rightarrow> string \<Rightarrow> bool" where
  "is_prefix u v \<longleftrightarrow> take (length u) v = u"

text \<open>No prefix of the list is a prefix of another.\<close>

lemma prefixes_prefix_free:
  assumes "i < 17" and "j < 17" and "prefixes ! i @ u = prefixes ! j @ v"
  shows "i = j"
proof -
  have free: "\<forall>i\<in>set [0..<17]. \<forall>j\<in>set [0..<17]. is_prefix (prefixes ! i) (prefixes ! j) \<longrightarrow> i = j"
    by code_simp
  have "is_prefix (prefixes ! i) (prefixes ! j) \<or> is_prefix (prefixes ! j) (prefixes ! i)"
    using assms(3) by (auto simp: is_prefix_def append_eq_append_conv2) (metis append_eq_conv_conj)+
  then show ?thesis using free assms(1,2) by (metis atLeast0LessThan atLeast_upt lessThan_iff)
qed

lemma parts_of_inj: "tag_of p = tag_of q \<Longrightarrow> parts_of p = parts_of q \<Longrightarrow> p = q"
  by (cases p; cases q) (simp_all add: to_string_inj)

lemma parts_of_length: "tag_of p = tag_of q \<Longrightarrow> length (parts_of p) = length (parts_of q)"
  by (cases p; cases q) simp_all

text \<open>
  Domain separation: associated data made for different purposes is never the same text,
  whatever the identifiers are, so a ciphertext of one kind cannot be passed off as another.
\<close>

theorem aad_domain_separation:
  "aad_of p = aad_of q \<Longrightarrow> tag_of p = tag_of q"
  using prefixes_prefix_free [OF tag_less tag_less] by (simp add: aad_of_parts)

theorem aad_domain_separation_witness:
  "aad_of (FileKey ''v'' ''f'') = makeFileKey ''v'' ''f'' \<and> tag_of (FileKey ''v'' ''f'') = 6"
  using aad_domain_separation [of "FileKey ''v'' ''f''" "FileKey ''v'' ''f''"] by simp

text \<open>
  C40. Binding: as long as the identifiers hold no colon (the service hands out UUIDs), the
  associated data determines its purpose and every identifier, for a chunk also its index,
  the chunk size and the number of chunks, so chunks can be neither swapped, nor moved to
  another file, nor dropped from the end.
\<close>

theorem aad_binds_identifiers:
  assumes "aad_of p = aad_of q"
    and "\<forall>x\<in>set (parts_of p @ parts_of q). CHR '':'' \<notin> set x"
  shows "p = q"
proof -
  have tags: "tag_of p = tag_of q"
    using assms(1) prefixes_prefix_free [OF tag_less tag_less] by (simp add: aad_of_parts)
  then have "join_colons (parts_of p) = join_colons (parts_of q)"
    using assms(1) by (simp add: aad_of_parts)
  then have "parts_of p = parts_of q"
    using assms(2) by (intro join_colons_inj) (simp_all add: parts_of_length [OF tags])
  with tags show ?thesis by (rule parts_of_inj)
qed

theorem aad_binds_identifiers_witness:
  "aad_of (FileChunk ''v'' ''f'' 1 4194304 2) \<noteq> aad_of (FileChunk ''v'' ''f'' 2 4194304 2)"
  using aad_binds_identifiers [of "FileChunk ''v'' ''f'' 1 4194304 2" "FileChunk ''v'' ''f'' 2 4194304 2"]
    to_string_no_colon by auto

text \<open>
  Without that condition the joined text is ambiguous: a vault and a file whose
  identifiers hold a colon share their associated data with another pair.
\<close>

lemma aad_ambiguous_with_colons:
  "makeFileKey ''a:b'' ''c'' = makeFileKey ''a'' ''b:c''"
  by (simp add: makeFileKey_def appendScopedAad_join)

end
