(* ===== verification/Upload_Plan.thy ===== *)
theory Upload_Plan
  imports Aad
begin

text \<open>
  Cutting a file into chunks and upload parts (upload/UploadPlanner.cpp, UploadPolicy.cpp,
  UploadTypes.hpp and \<open>makePartPlan\<close> of upload/MultipartUploader.cpp), on 64-bit unsigned words.
\<close>

section \<open>Plans\<close>

record UploadPlan =
  originalSize :: "64 word"
  fileChunkSize :: "64 word"
  totalChunks :: "64 word"
  uploadPartSize :: "64 word"
  chunksPerUploadPart :: "64 word"
  uploadPartCount :: "64 word"

record UploadPartPlan =
  partNumber :: "64 word"
  partStart :: "64 word"
  partEnd :: "64 word"
  firstChunkNumber :: "64 word"

definition kChunkSize :: "64 word" where
  "kChunkSize = 4194304"

definition kMultipartUploadPartSize :: "64 word" where
  "kMultipartUploadPartSize = 8388608"

definition createPlan :: "64 word \<Rightarrow> UploadPlan" where
  "createPlan plaintextSize =
     (let fcs = kChunkSize;
          total = max 1 ((plaintextSize + fcs - 1) div fcs);
          ups = (if total > 1 then kMultipartUploadPartSize else fcs);
          cpp = max 1 (ups div fcs);
          count = max 1 ((total + cpp - 1) div cpp)
      in \<lparr>originalSize = plaintextSize, fileChunkSize = fcs, totalChunks = total,
          uploadPartSize = ups, chunksPerUploadPart = cpp, uploadPartCount = count\<rparr>)"

definition makePartPlan :: "64 word \<Rightarrow> UploadPlan \<Rightarrow> UploadPartPlan" where
  "makePartPlan n plan =
     (let ps = (n - 1) * uploadPartSize plan in
      \<lparr>partNumber = n, partStart = ps,
       partEnd = min (ps + uploadPartSize plan) (originalSize plan),
       firstChunkNumber = ps div fileChunkSize plan + 1\<rparr>)"

text \<open>The number of chunks \<open>uploadParts\<close> asks the chunk reader for.\<close>

definition partChunkCount :: "UploadPlan \<Rightarrow> UploadPartPlan \<Rightarrow> 64 word" where
  "partChunkCount plan p = ((partEnd p - partStart p) + fileChunkSize plan - 1) div fileChunkSize plan"

definition resolveFileConcurrency :: "64 word \<Rightarrow> 64 word" where
  "resolveFileConcurrency fileSize =
     (if fileSize \<le> 4 * 1048576 then 32
      else if fileSize \<le> 64 * 1048576 then 8
      else if fileSize \<le> 512 * 1048576 then 4
      else 2)"

definition kDefaultDesktopPartConcurrency :: "64 word" where
  "kDefaultDesktopPartConcurrency = 6"

definition resolvePartConcurrency :: "64 word \<Rightarrow> int \<Rightarrow> 64 word" where
  "resolvePartConcurrency parts serverCap =
     (if parts = 0 then 0
      else let cap = (if serverCap > 0 then word_of_int serverCap else kDefaultDesktopPartConcurrency) in
           max 1 (min (min parts kDefaultDesktopPartConcurrency) cap))"

section \<open>Plans in natural numbers\<close>

text \<open>The sizes of files the operating system can report.\<close>

definition file_size :: "64 word \<Rightarrow> bool" where
  "file_size s \<longleftrightarrow> unat s < 2 ^ 63"

lemma unat_max_1: "unat (max 1 (w :: 64 word)) = max 1 (unat w)"
  by (simp add: max_def word_le_nat_alt)

lemma unat_round_up:
  fixes s c :: "64 word"
  assumes "unat s < 2 ^ 63" and "0 < unat c" and "unat c < 2 ^ 62"
  shows "unat ((s + c - 1) div c) = (unat s + unat c - 1) div unat c"
proof -
  have sum: "unat (s + c) = unat s + unat c"
    using assms by (subst unat_add_lem [THEN iffD1]) simp_all
  then have "unat (s + c - 1) = unat s + unat c - 1"
    using assms by (subst unat_sub) (simp_all add: word_le_nat_alt)
  then show ?thesis by (simp add: unat_div)
qed

lemma createPlan_sizes [simp]:
  "originalSize (createPlan s) = s" "fileChunkSize (createPlan s) = kChunkSize"
  by (simp_all add: createPlan_def Let_def)

lemma totalChunks_nat:
  assumes "file_size s"
  shows "unat (totalChunks (createPlan s)) = max 1 ((unat s + 4194303) div 4194304)"
  using unat_round_up [of s kChunkSize] assms
  by (simp add: createPlan_def Let_def unat_max_1 file_size_def kChunkSize_def)

definition part_size_nat :: "nat \<Rightarrow> nat" where
  "part_size_nat s = (if s > 4194304 then 8388608 else 4194304)"

lemma chunks_gt_1: "1 < max 1 ((s + 4194303) div 4194304) \<longleftrightarrow> (4194304 :: nat) < s"
  by linarith

lemma uploadPartSize_nat:
  assumes "file_size s"
  shows "unat (uploadPartSize (createPlan s)) = part_size_nat (unat s)"
proof -
  have "1 < totalChunks (createPlan s) \<longleftrightarrow> 4194304 < unat s"
    using totalChunks_nat [OF assms] chunks_gt_1 [of "unat s"] by (simp add: word_less_nat_alt)
  then show ?thesis
    by (simp add: createPlan_def Let_def part_size_nat_def kChunkSize_def kMultipartUploadPartSize_def)
qed

lemma chunksPerUploadPart_nat:
  assumes "file_size s"
  shows "unat (chunksPerUploadPart (createPlan s)) = part_size_nat (unat s) div 4194304"
proof -
  have "unat (chunksPerUploadPart (createPlan s)) = max 1 (unat (uploadPartSize (createPlan s)) div 4194304)"
    by (simp add: createPlan_def Let_def unat_max_1 unat_div kChunkSize_def)
  then show ?thesis by (simp add: uploadPartSize_nat [OF assms] part_size_nat_def)
qed

lemma round_up_twice: "((s + 4194303) div 4194304 + 1) div 2 = (s + 8388607) div (8388608 :: nat)"
proof -
  have "(s + 4194303) div 4194304 + 1 = (s + 8388607) div 4194304" by simp
  then show ?thesis by (simp add: div_mult2_eq [symmetric])
qed

lemma uploadPartCount_nat:
  assumes "file_size s"
  shows "unat (uploadPartCount (createPlan s)) =
    max 1 ((unat s + part_size_nat (unat s) - 1) div part_size_nat (unat s))"
proof -
  let ?t = "totalChunks (createPlan s)" and ?c = "chunksPerUploadPart (createPlan s)"
  have small: "unat ?t < 2 ^ 63" "0 < unat ?c" "unat ?c < 2 ^ 62"
    using assms by (simp_all add: totalChunks_nat [OF assms] chunksPerUploadPart_nat [OF assms]
        part_size_nat_def file_size_def)
  have "unat (uploadPartCount (createPlan s)) = max 1 (unat ((?t + ?c - 1) div ?c))"
    by (simp add: createPlan_def Let_def unat_max_1)
  also have "\<dots> = max 1 ((unat ?t + unat ?c - 1) div unat ?c)"
    by (simp add: unat_round_up [OF small])
  finally have count: "unat (uploadPartCount (createPlan s)) =
      max 1 ((unat ?t + unat ?c - 1) div unat ?c)" .
  show ?thesis
  proof (cases "4194304 < unat s")
    case True
    then have "unat ?t = (unat s + 4194303) div 4194304" "unat ?c = 2"
      using chunks_gt_1 [of "unat s"]
      by (simp_all add: totalChunks_nat [OF assms] chunksPerUploadPart_nat [OF assms] part_size_nat_def)
    then show ?thesis
      using True round_up_twice [of "unat s"] by (simp add: count part_size_nat_def)
  next
    case False
    then have "max 1 ((unat s + 4194303) div 4194304) = 1"
      using chunks_gt_1 [of "unat s"] by (simp add: not_less)
    then show ?thesis
      using False
      by (simp add: count totalChunks_nat [OF assms] chunksPerUploadPart_nat [OF assms] part_size_nat_def)
  qed
qed

text \<open>The byte ranges of the parts.\<close>

lemma part_start_less:
  assumes "file_size s" and "0 < unat s" and "k < unat (uploadPartCount (createPlan s))"
  shows "k * part_size_nat (unat s) < unat s"
  using assms(2,3) unfolding uploadPartCount_nat [OF assms(1)] part_size_nat_def
  by (auto split: if_splits)

lemma unat_of_nat_small: "n < 2 ^ 64 \<Longrightarrow> unat (of_nat n :: 64 word) = n"
  by (simp add: unat_of_nat take_bit_nat_eq_self_iff)

lemma part_range_nat:
  assumes fs: "file_size s" and pos: "0 < unat s" and k: "k < unat (uploadPartCount (createPlan s))"
  defines "p \<equiv> makePartPlan (of_nat (Suc k)) (createPlan s)"
  shows "unat (partStart p) = k * part_size_nat (unat s)"
    and "unat (partEnd p) = min (Suc k * part_size_nat (unat s)) (unat s)"
    and "unat (firstChunkNumber p) = k * part_size_nat (unat s) div 4194304 + 1"
proof -
  let ?u = "uploadPartSize (createPlan s)"
  have u: "unat ?u = part_size_nat (unat s)" by (rule uploadPartSize_nat [OF fs])
  have lt: "k * part_size_nat (unat s) < 2 ^ 63"
    using part_start_less [OF fs pos k] fs unfolding file_size_def by linarith
  have size: "part_size_nat (unat s) \<le> 8388608" "0 < part_size_nat (unat s)"
    by (simp_all add: part_size_nat_def)
  have "k * 1 \<le> k * part_size_nat (unat s)" using size by (intro mult_le_mono2) simp
  also note lt
  finally have kn: "unat (of_nat k :: 64 word) = k" by (intro unat_of_nat_small) simp
  have start: "unat (of_nat k * ?u) = k * part_size_nat (unat s)"
    using lt u kn by (subst unat_mult_lem [THEN iffD1]) simp_all
  then show st: "unat (partStart p) = k * part_size_nat (unat s)"
    by (simp add: p_def makePartPlan_def Let_def)
  have "unat (of_nat k * ?u + ?u) = Suc k * part_size_nat (unat s)"
    using lt u start size by (subst unat_add_lem [THEN iffD1]) simp_all
  then show "unat (partEnd p) = min (Suc k * part_size_nat (unat s)) (unat s)"
    by (simp add: p_def makePartPlan_def Let_def min_def word_le_nat_alt createPlan_def)
  have "unat (partStart p div kChunkSize) = k * part_size_nat (unat s) div 4194304"
    by (simp add: unat_div st kChunkSize_def)
  moreover have "unat (w + 1) = unat w + 1" if "unat w < 2 ^ 63" for w :: "64 word"
    using that by (subst unat_add_lem [THEN iffD1]) simp_all
  moreover have "k * part_size_nat (unat s) div 4194304 < 2 ^ 63"
    using lt by (meson div_le_dividend le_less_trans)
  ultimately show "unat (firstChunkNumber p) = k * part_size_nat (unat s) div 4194304 + 1"
    by (simp add: p_def makePartPlan_def Let_def createPlan_def)
qed

section \<open>Windows of chunks\<close>

definition chunks_nat :: "nat \<Rightarrow> nat" where
  "chunks_nat s = (s + 4194303) div 4194304"

definition per_part :: "nat \<Rightarrow> nat" where
  "per_part s = part_size_nat s div 4194304"

text \<open>The chunks of part \<open>k\<close>, both counted from 0.\<close>

definition window :: "nat \<Rightarrow> nat \<Rightarrow> nat list" where
  "window s k = [k * per_part s..<min (Suc k * per_part s) (chunks_nat s)]"

lemma part_size_per_part: "part_size_nat s = per_part s * 4194304" and per_part_pos: "0 < per_part s"
  by (simp_all add: per_part_def part_size_nat_def)

lemma totalChunks_chunks_nat:
  "file_size s \<Longrightarrow> 0 < unat s \<Longrightarrow> unat (totalChunks (createPlan s)) = chunks_nat (unat s)"
  by (simp add: totalChunks_nat chunks_nat_def max_def)

lemma chunks_nat_iff: "i < chunks_nat s \<longleftrightarrow> i * 4194304 < s"
  unfolding chunks_nat_def by linarith

lemma window_starts:
  assumes "file_size s" and "0 < unat s"
  shows "k < unat (uploadPartCount (createPlan s)) \<longleftrightarrow> k * per_part (unat s) < chunks_nat (unat s)"
  using assms unfolding uploadPartCount_nat [OF assms(1)] chunks_nat_iff part_size_nat_def per_part_def
  by (auto split: if_splits)

lemma window_length:
  fixes f q s :: nat
  assumes "f * 4194304 < s"
  shows "(min ((f + q) * 4194304) s - f * 4194304 + 4194304 - 1) div 4194304 =
    min (f + q) ((s + 4194303) div 4194304) - f"
proof -
  obtain d where s: "s = f * 4194304 + d" "0 < d" using assms less_imp_add_positive by blast
  have "(s + 4194303) div 4194304 = f + (d + 4194303) div 4194304" by (simp add: s add.assoc)
  moreover have "min ((f + q) * 4194304) s - f * 4194304 = min (q * 4194304) d"
    by (simp add: s add_mult_distrib)
  moreover have "(min (q * 4194304) d + 4194304 - 1) div 4194304 = min q ((d + 4194303) div 4194304)"
  proof (cases "q * 4194304 \<le> d")
    case True
    then have "q \<le> (d + 4194303) div 4194304" by (simp add: less_eq_div_iff_mult_less_eq)
    then show ?thesis using True by (simp add: min_absorb1)
  next
    case False
    then have "d + 4194303 < Suc q * 4194304" by simp
    then have "(d + 4194303) div 4194304 < Suc q" by (rule less_mult_imp_div_less)
    then have "(d + 4194303) div 4194304 \<le> q" by simp
    then show ?thesis using False by (simp add: min_absorb2)
  qed
  ultimately show ?thesis by (simp add: min_def)
qed

lemma part_window:
  assumes fs: "file_size s" and pos: "0 < unat s" and k: "k < unat (uploadPartCount (createPlan s))"
  defines "p \<equiv> makePartPlan (of_nat (Suc k)) (createPlan s)"
  shows "unat (firstChunkNumber p) = k * per_part (unat s) + 1"
    and "unat (partChunkCount (createPlan s) p) =
      min (Suc k * per_part (unat s)) (chunks_nat (unat s)) - k * per_part (unat s)"
proof -
  let ?C = "4194304 :: nat" and ?f = "k * per_part (unat s)"
  note range = part_range_nat [OF fs pos k, folded p_def]
  have start: "k * part_size_nat (unat s) = ?f * ?C" by (simp add: part_size_per_part)
  then show "unat (firstChunkNumber p) = ?f + 1" unfolding range(3) start by simp
  have lt: "?f * ?C < unat s" using part_start_less [OF fs pos k] start by simp
  have e: "unat (partEnd p) = min ((?f + per_part (unat s)) * ?C) (unat s)"
    using range(2) by (simp add: part_size_per_part algebra_simps)
  have "partStart p \<le> partEnd p"
    using lt e range(1) start by (simp add: word_le_nat_alt)
  then have diff: "unat (partEnd p - partStart p) = unat (partEnd p) - ?f * ?C"
    using range(1) start by (simp add: unat_sub)
  have small: "unat (partEnd p - partStart p) < 2 ^ 63"
    using fs e unfolding diff file_size_def by linarith
  have "unat (partChunkCount (createPlan s) p) = (unat (partEnd p) - ?f * ?C + ?C - 1) div ?C"
    using unat_round_up [OF small, of kChunkSize]
    by (simp add: partChunkCount_def kChunkSize_def diff [symmetric])
  also have "\<dots> = min (?f + per_part (unat s)) (chunks_nat (unat s)) - ?f"
    unfolding e chunks_nat_def by (rule window_length [OF lt])
  finally show "unat (partChunkCount (createPlan s) p) =
      min (Suc k * per_part (unat s)) (chunks_nat (unat s)) - ?f" by (simp add: add.commute)
qed

lemma windows_tile:
  assumes "\<And>k. k < n \<Longrightarrow> k * per_part s < chunks_nat s"
  shows "concat (map (window s) [0..<n]) = [0..<min (n * per_part s) (chunks_nat s)]"
  using assms
proof (induction n)
  case (Suc n)
  have lt: "n * per_part s < chunks_nat s" using Suc.prems by simp
  then have "n * per_part s \<le> min (Suc n * per_part s) (chunks_nat s)" by simp
  then have "[0..<n * per_part s] @ window s n = [0..<min (Suc n * per_part s) (chunks_nat s)]"
    unfolding window_def by (metis le_add_diff_inverse upt_add_eq_append zero_le)
  moreover have "min (n * per_part s) (chunks_nat s) = n * per_part s"
    using lt by simp
  ultimately show ?case using Suc by simp
qed simp

lemma all_windows:
  assumes "file_size s" and "0 < unat s"
  shows "concat (map (window (unat s)) [0..<unat (uploadPartCount (createPlan s))]) = [0..<chunks_nat (unat s)]"
proof -
  let ?n = "unat (uploadPartCount (createPlan s))"
  have "\<not> ?n < ?n" by simp
  then have "chunks_nat (unat s) \<le> ?n * per_part (unat s)" using window_starts [OF assms] by (metis not_le)
  then show ?thesis
    using windows_tile [of ?n "unat s"] window_starts [OF assms] by (simp add: min_absorb2)
qed

text \<open>At least one thread is started for a plan, which has at least one part.\<close>

lemma resolvePartConcurrency_pos: "parts \<noteq> 0 \<Longrightarrow> 0 < unat (resolvePartConcurrency parts serverCap)"
  by (simp add: resolvePartConcurrency_def Let_def unat_max_1)

section \<open>Properties\<close>

lemma file_size_small: "unat s < 2 ^ 63 \<Longrightarrow> file_size s"
  by (simp add: file_size_def)

text \<open>The chunk numbers a part plan covers, counted from 1 as the reader does.\<close>

definition chunkNumbers :: "UploadPlan \<Rightarrow> UploadPartPlan \<Rightarrow> nat list" where
  "chunkNumbers plan p =
     [unat (firstChunkNumber p)..<unat (firstChunkNumber p) + unat (partChunkCount plan p)]"

lemma chunkNumbers_window:
  assumes "file_size s" and "0 < unat s" and "k < unat (uploadPartCount (createPlan s))"
  shows "chunkNumbers (createPlan s) (makePartPlan (of_nat (Suc k)) (createPlan s)) = map Suc (window (unat s) k)"
proof -
  have "k * per_part (unat s) \<le> min (Suc k * per_part (unat s)) (chunks_nat (unat s))"
    using window_starts [OF assms(1,2), of k] assms(3) by simp
  then show ?thesis
    unfolding chunkNumbers_def part_window [OF assms] window_def map_Suc_upt by simp
qed

text \<open>
  C37. The plan of a non-empty file cuts it without gaps and overlaps: the parts start at 0,
  each begins where the one before ends, the last ends at the end of the file, none is empty
  or larger than 8 MiB, and the chunk windows the parts hand to the chunk reader, one after
  the other, are the chunk numbers 1 to \<open>totalChunks\<close>. None of the 64-bit computations wraps.
\<close>

theorem plan_tiles_file:
  assumes "file_size s" and "0 < unat s"
  defines "plan \<equiv> createPlan s"
  defines "part \<equiv> \<lambda>k. makePartPlan (of_nat (Suc k)) plan"
  defines "n \<equiv> unat (uploadPartCount plan)"
  shows "partStart (part 0) = 0 \<and> (\<forall>k. Suc k < n \<longrightarrow> partEnd (part k) = partStart (part (Suc k))) \<and>
    partEnd (part (n - 1)) = s \<and>
    (\<forall>k<n. partStart (part k) < partEnd (part k) \<and> partEnd (part k) - partStart (part k) \<le> 8388608) \<and>
    concat (map (\<lambda>k. chunkNumbers plan (part k)) [0..<n]) = [1..<Suc (unat (totalChunks plan))]"
proof (intro conjI allI impI)
  let ?ps = "part_size_nat (unat s)"
  have n: "n = unat (uploadPartCount (createPlan s))" by (simp add: n_def plan_def)
  have part: "makePartPlan (of_nat (Suc k)) (createPlan s) = part k" for k by (simp add: part_def plan_def)
  note range = part_range_nat [OF assms(1,2), folded n, unfolded part]
  note less = part_start_less [OF assms(1,2), folded n]
  have ps: "0 < ?ps" "?ps \<le> 8388608" by (simp_all add: part_size_nat_def)
  have n1: "0 < n" and last: "unat s \<le> n * ?ps"
    unfolding n uploadPartCount_nat [OF assms(1)] part_size_nat_def by (auto split: if_splits)
  show "partStart (part 0) = 0" using range(1) [OF n1] by (simp only: mult_0 unsigned_eq_0_iff)
  show "partEnd (part k) = partStart (part (Suc k))" if k: "Suc k < n" for k
    using range(1) [OF k] range(2) [of k] less [OF k] k by (simp add: word_unat_eq_iff)
  show "partEnd (part (n - 1)) = s"
    using range(2) [of "n - 1"] n1 last by (simp add: word_unat_eq_iff min_absorb2)
  show "partStart (part k) < partEnd (part k)" if k: "k < n" for k
    using range(1,2) [OF k] less [OF k] ps by (simp add: word_less_nat_alt)
  then have "unat (partEnd (part k) - partStart (part k)) \<le> 8388608" if k: "k < n" for k
    using range(1,2) [OF k] less [OF k] ps k by (subst unat_sub) (auto simp: word_less_nat_alt word_le_nat_alt less_imp_le)
  then show "partEnd (part k) - partStart (part k) \<le> 8388608" if k: "k < n" for k
    using k by (simp add: word_le_nat_alt)
  have "map (\<lambda>k. chunkNumbers plan (part k)) [0..<n] = map (map Suc) (map (window (unat s)) [0..<n])"
    using chunkNumbers_window [OF assms(1,2), folded n, unfolded part, folded plan_def] by simp
  then have "concat (map (\<lambda>k. chunkNumbers plan (part k)) [0..<n]) = map Suc [0..<chunks_nat (unat s)]"
    using all_windows [OF assms(1,2), folded n] by (metis map_concat)
  then show "concat (map (\<lambda>k. chunkNumbers plan (part k)) [0..<n]) = [1..<Suc (unat (totalChunks plan))]"
    using totalChunks_chunks_nat [OF assms(1,2)] by (simp add: plan_def map_Suc_upt)
qed

theorem plan_tiles_file_witness:
  "partEnd (makePartPlan (of_nat (Suc (unat (uploadPartCount (createPlan 20000000)) - 1))) (createPlan 20000000)) = 20000000"
proof -
  have "file_size 20000000" "0 < unat (20000000 :: 64 word)" by (simp_all add: file_size_def)
  from plan_tiles_file [OF this] show ?thesis by blast
qed

end
