(* ===== verification/Chunk_Reader.thy ===== *)
theory Chunk_Reader
  imports Upload_Plan
begin

text \<open>
  Reading a window of chunks of a file and encrypting them (fs/UploadFileChunkReader.cpp and
  the chunk part of fs/FileEncryptor.cpp). The stream is the content of the file and a
  position. The cryptographic library is a parameter: a record of the functions the code
  calls. It draws a fresh nonce in each call; as every chunk of an upload has its own
  associated data, a ciphertext that depends on the arguments alone is no restriction.
\<close>

record crypto_lib =
  lib_encryptChunk :: "bytes \<Rightarrow> bytes \<Rightarrow> bytes \<Rightarrow> bytes result"
  lib_decryptChunk :: "bytes \<Rightarrow> bytes \<Rightarrow> bytes \<Rightarrow> bytes result"
  lib_blake3Hash :: "bytes \<Rightarrow> bytes result"
  lib_wrapFileKey :: "bytes \<Rightarrow> bytes \<Rightarrow> bytes \<Rightarrow> bytes result"
  lib_unwrapFileKey :: "bytes \<Rightarrow> bytes \<Rightarrow> bytes \<Rightarrow> bytes result"
  lib_deriveSearchKey :: "bytes \<Rightarrow> bytes result"
  lib_hmacSha256 :: "bytes \<Rightarrow> bytes \<Rightarrow> bytes result"

definition encryptChunk :: "crypto_lib \<Rightarrow> bytes \<Rightarrow> bytes \<Rightarrow> bytes \<Rightarrow> bytes result" where
  "encryptChunk crypto plaintextChunk fileKey aad =
     (if fileKey = [] then Inl (Invalid_argument ''fileKey cannot be empty'')
      else lib_encryptChunk crypto fileKey aad plaintextChunk)"

definition hashBytes :: "crypto_lib \<Rightarrow> bytes \<Rightarrow> bytes result" where
  "hashBytes crypto bs = lib_blake3Hash crypto bs"

section \<open>The reader\<close>

record UploadEncryptedChunk =
  uc_chunkNo :: "64 word"
  uc_plaintextSize :: "64 word"
  uc_ciphertext :: bytes
  uc_isLastChunk :: bool

record UploadFileChunkReader =
  stream_data :: bytes
  stream_pos :: nat
  rd_fileKey :: bytes
  rd_vaultId :: string
  rd_fileId :: string
  rd_chunkSize :: "64 word"
  rd_totalChunks :: "64 word"
  nextChunkIndex :: "64 word"
  endChunkIndex :: "64 word"

text \<open>
  The constructor for a window: the file either opens, with its content, or not. Seeking past
  the end of a file is allowed; a negative offset is not.
\<close>

definition openWindow ::
  "bytes option \<Rightarrow> bytes \<Rightarrow> string \<Rightarrow> string \<Rightarrow> 64 word \<Rightarrow> 64 word \<Rightarrow> 64 word \<Rightarrow> 64 word \<Rightarrow>
   UploadFileChunkReader result" where
  "openWindow path fileKey vaultId fileId chunkSize totChunks firstChunk chunkCount =
     (let next = (if firstChunk > 0 then firstChunk - 1 else 0);
          endIdx = next + chunkCount
      in case path of
        None \<Rightarrow> Inl (Runtime_error ''File cannot be opened'')
      | Some content \<Rightarrow>
          if fileKey = [] then Inl (Invalid_argument ''fileKey cannot be empty'')
          else if chunkSize = 0 then Inl (Invalid_argument ''chunkSize cannot be zero'')
          else if totChunks = 0 then Inl (Invalid_argument ''totalChunks cannot be zero'')
          else if firstChunk = 0 then Inl (Invalid_argument ''firstChunkNumber cannot be zero'')
          else if chunkCount = 0 then Inl (Invalid_argument ''chunkCount cannot be zero'')
          else if next \<ge> totChunks then Inl (Invalid_argument ''firstChunkNumber exceeds totalChunks'')
          else if endIdx > totChunks then Inl (Invalid_argument ''chunk window exceeds totalChunks'')
          else let startOffset = next * chunkSize in
            if sint startOffset < 0 then Inl (Runtime_error ''Unable to seek to requested chunk window'')
            else Inr \<lparr>stream_data = content, stream_pos = unat startOffset, rd_fileKey = fileKey,
                 rd_vaultId = vaultId, rd_fileId = fileId, rd_chunkSize = chunkSize,
                 rd_totalChunks = totChunks, nextChunkIndex = next, endChunkIndex = endIdx\<rparr>)"

definition hasNextChunk :: "UploadFileChunkReader \<Rightarrow> bool" where
  "hasNextChunk r \<longleftrightarrow> nextChunkIndex r < endChunkIndex r"

text \<open>\<open>static_cast<int>\<close> of an unsigned 64-bit value.\<close>

definition to_int32 :: "64 word \<Rightarrow> int" where
  "to_int32 w = sint (ucast w :: 32 word)"

definition chunk_aad :: "string \<Rightarrow> string \<Rightarrow> 64 word \<Rightarrow> 64 word \<Rightarrow> 64 word \<Rightarrow> bytes" where
  "chunk_aad vaultId fileId chunkNo chunkSize totChunks =
     toBytes (makeFileChunk vaultId fileId (to_int32 chunkNo) (sint chunkSize) (to_int32 totChunks))"

definition nextEncryptedChunk ::
  "crypto_lib \<Rightarrow> UploadFileChunkReader \<Rightarrow> (UploadEncryptedChunk \<times> UploadFileChunkReader) result" where
  "nextEncryptedChunk crypto r =
     (if \<not> hasNextChunk r then Inl (Runtime_error ''No more chunks available'')
      else
        let plaintextChunk = take (unat (rd_chunkSize r)) (drop (stream_pos r) (stream_data r)) in
        if plaintextChunk = [] then Inl (Runtime_error ''Unable to read next file chunk'')
        else
          let chunkNo = nextChunkIndex r + 1;
              aad = chunk_aad (rd_vaultId r) (rd_fileId r) chunkNo (rd_chunkSize r) (rd_totalChunks r)
          in case encryptChunk crypto plaintextChunk (rd_fileKey r) aad of
               Inl e \<Rightarrow> Inl e
             | Inr ciphertext \<Rightarrow>
                 Inr (\<lparr>uc_chunkNo = chunkNo, uc_plaintextSize = of_nat (length plaintextChunk),
                       uc_ciphertext = ciphertext, uc_isLastChunk = (chunkNo = rd_totalChunks r)\<rparr>,
                      r\<lparr>stream_pos := stream_pos r + length plaintextChunk, nextChunkIndex := chunkNo\<rparr>))"

section \<open>A part: all chunks of its window\<close>

record EncryptedChunkResult =
  ec_chunkNumber :: "64 word"
  ec_plaintextSize :: "64 word"
  ec_ciphertextSize :: "64 word"
  ec_encryptedHash :: string

text \<open>What the loop over the chunks of a part has gathered.\<close>

record part_body =
  pb_chunks :: "EncryptedChunkResult list"
  pb_combinedChunkHashes :: bytes
  pb_uploadBody :: bytes

definition add_chunk :: "UploadEncryptedChunk \<Rightarrow> bytes \<Rightarrow> part_body \<Rightarrow> part_body" where
  "add_chunk c h b =
     \<lparr>pb_chunks = pb_chunks b @ [\<lparr>ec_chunkNumber = uc_chunkNo c, ec_plaintextSize = uc_plaintextSize c,
        ec_ciphertextSize = of_nat (length (uc_ciphertext c)), ec_encryptedHash = encodeBase64 h\<rparr>],
      pb_combinedChunkHashes = pb_combinedChunkHashes b @ h,
      pb_uploadBody = pb_uploadBody b @ uc_ciphertext c\<rparr>"

lemma unat_Suc_less:
  fixes w e :: "64 word"
  assumes "w < e"
  shows "unat (w + 1) = Suc (unat w)"
proof -
  have "unat e < 2 ^ LENGTH(64)" by (rule unsigned_less)
  then have "unat w + unat (1 :: 64 word) < 2 ^ LENGTH(64)" using assms by (simp add: word_less_nat_alt)
  then have "unat (w + 1) = unat w + unat (1 :: 64 word)" by (simp only: unat_add_lem)
  then show ?thesis by simp
qed

lemma next_chunk_index:
  "nextEncryptedChunk crypto r = Inr (c, r') \<Longrightarrow>
    endChunkIndex r' = endChunkIndex r \<and> unat (nextChunkIndex r') = Suc (unat (nextChunkIndex r)) \<and>
    unat (nextChunkIndex r) < unat (endChunkIndex r)"
proof -
  assume "nextEncryptedChunk crypto r = Inr (c, r')"
  then have less: "nextChunkIndex r < endChunkIndex r" and r': "nextChunkIndex r' = nextChunkIndex r + 1"
      "endChunkIndex r' = endChunkIndex r"
    by (auto simp: nextEncryptedChunk_def hasNextChunk_def Let_def split: if_splits sum.splits)
  have "unat (nextChunkIndex r + 1) = Suc (unat (nextChunkIndex r))"
    by (rule unat_Suc_less [OF less])
  with r' less show ?thesis by (simp add: word_less_nat_alt)
qed

function readChunks :: "crypto_lib \<Rightarrow> UploadFileChunkReader \<Rightarrow> part_body \<Rightarrow> part_body result" where
  "readChunks crypto r b =
     (if hasNextChunk r then
        (case nextEncryptedChunk crypto r of
           Inl e \<Rightarrow> Inl e
         | Inr (c, r') \<Rightarrow>
             (case hashBytes crypto (uc_ciphertext c) of
                Inl e \<Rightarrow> Inl e
              | Inr h \<Rightarrow> readChunks crypto r' (add_chunk c h b)))
      else Inr b)"
  by pat_completeness auto
termination
proof (relation "measure (\<lambda>(_, r, _). unat (endChunkIndex r) - unat (nextChunkIndex r))")
  show "wf (measure (\<lambda>(_ :: crypto_lib, r, _ :: part_body). unat (endChunkIndex r) - unat (nextChunkIndex r)))"
    by simp
next
  fix crypto r and b :: part_body and x c r' h
  assume "nextEncryptedChunk crypto r = Inr x" and "(c, r') = x"
  then have "nextEncryptedChunk crypto r = Inr (c, r')" by simp
  from next_chunk_index [OF this]
  show "((crypto, r', add_chunk c h b), crypto, r, b)
      \<in> measure (\<lambda>(_, r, _). unat (endChunkIndex r) - unat (nextChunkIndex r))"
    by auto
qed

declare readChunks.simps [simp del]

section \<open>What a window reads\<close>

text \<open>Chunk \<open>i\<close> of a file, counted from 0, in chunks of \<open>c\<close> bytes.\<close>

definition chunk_at :: "nat \<Rightarrow> bytes \<Rightarrow> nat \<Rightarrow> bytes" where
  "chunk_at c content i = take c (drop (i * c) content)"

lemma length_chunk_at: "length (chunk_at c content i) = min c (length content - i * c)"
  by (simp add: chunk_at_def)

lemma concat_chunks: "concat (map (chunk_at c content) [i..<i + n]) = take (n * c) (drop (i * c) content)"
proof (induction n)
  case (Suc n)
  have "take (Suc n * c) (drop (i * c) content) =
      take (n * c) (drop (i * c) content) @ take c (drop (n * c) (drop (i * c) content))"
    by (metis mult_Suc add.commute take_add)
  moreover have "drop (n * c) (drop (i * c) content) = drop ((i + n) * c) content"
    by (simp add: add_mult_distrib add.commute)
  ultimately show ?case using Suc by (simp add: chunk_at_def)
qed simp

lemma concat_all_chunks:
  assumes "length content \<le> n * c"
  shows "concat (map (chunk_at c content) [0..<n]) = content"
  using concat_chunks [of c content 0 n] assms by simp

text \<open>
  The reader at chunk \<open>i\<close> of a window that ends before chunk \<open>e\<close>, all of whose chunks hold
  data. The key is there and the chunk size is \<open>c\<close>.
\<close>

definition at_chunk :: "nat \<Rightarrow> nat \<Rightarrow> UploadFileChunkReader \<Rightarrow> bool" where
  "at_chunk i e r \<longleftrightarrow> unat (nextChunkIndex r) = i \<and> unat (endChunkIndex r) = e \<and> i \<le> e \<and> rd_fileKey r \<noteq> [] \<and>
     0 < unat (rd_chunkSize r) \<and>
     (i < e \<longrightarrow> stream_pos r = i * unat (rd_chunkSize r) \<and> (e - 1) * unat (rd_chunkSize r) < length (stream_data r))"

text \<open>The ciphertext of chunk \<open>i\<close>, as the library makes it.\<close>

definition chunk_cipher :: "crypto_lib \<Rightarrow> bytes \<Rightarrow> string \<Rightarrow> string \<Rightarrow> 64 word \<Rightarrow> 64 word \<Rightarrow> bytes \<Rightarrow> nat \<Rightarrow> bytes result" where
  "chunk_cipher crypto key vaultId fileId cs tot content i =
     lib_encryptChunk crypto key (chunk_aad vaultId fileId (of_nat (Suc i)) cs tot) (chunk_at (unat cs) content i)"

abbreviation reader_cipher :: "crypto_lib \<Rightarrow> UploadFileChunkReader \<Rightarrow> nat \<Rightarrow> bytes result" where
  "reader_cipher crypto r \<equiv> chunk_cipher crypto (rd_fileKey r) (rd_vaultId r) (rd_fileId r)
     (rd_chunkSize r) (rd_totalChunks r) (stream_data r)"

lemma next_chunk:
  assumes at: "at_chunk i e r" and less: "i < e" and ct: "reader_cipher crypto r i = Inr ct"
  shows "\<exists>r'. nextEncryptedChunk crypto r = Inr
      (\<lparr>uc_chunkNo = of_nat (Suc i),
        uc_plaintextSize = of_nat (length (chunk_at (unat (rd_chunkSize r)) (stream_data r) i)),
        uc_ciphertext = ct, uc_isLastChunk = (of_nat (Suc i) = rd_totalChunks r)\<rparr>, r') \<and>
    at_chunk (Suc i) e r' \<and> reader_cipher crypto r' = reader_cipher crypto r \<and>
    rd_chunkSize r' = rd_chunkSize r \<and> stream_data r' = stream_data r"
proof -
  let ?c = "unat (rd_chunkSize r)" and ?d = "stream_data r"
  let ?p = "chunk_at ?c ?d i"
  let ?r = "r\<lparr>stream_pos := stream_pos r + length ?p, nextChunkIndex := nextChunkIndex r + 1\<rparr>"
  have i: "unat (nextChunkIndex r) = i" and e: "unat (endChunkIndex r) = e" and key: "rd_fileKey r \<noteq> []"
    and c: "0 < ?c" and pos: "stream_pos r = i * ?c" and data: "(e - 1) * ?c < length ?d"
    using at less by (auto simp: at_chunk_def)
  have lt: "nextChunkIndex r < endChunkIndex r" using i e less by (simp add: word_less_nat_alt)
  have word: "nextChunkIndex r + 1 = of_nat (Suc i)"
    by (simp flip: i)
  have "i * ?c \<le> (e - 1) * ?c" using less by (intro mult_le_mono1) simp
  then have nonempty: "i * ?c < length ?d" using data by (rule le_less_trans)
  then have "?p \<noteq> []" using c by (simp add: chunk_at_def)
  moreover have "take ?c (drop (stream_pos r) ?d) = ?p" by (simp add: pos chunk_at_def)
  moreover have "lib_encryptChunk crypto (rd_fileKey r) (chunk_aad (rd_vaultId r) (rd_fileId r)
      (nextChunkIndex r + 1) (rd_chunkSize r) (rd_totalChunks r)) ?p = Inr ct"
    using ct unfolding chunk_cipher_def word .
  ultimately have run: "nextEncryptedChunk crypto r = Inr
      (\<lparr>uc_chunkNo = nextChunkIndex r + 1, uc_plaintextSize = of_nat (length ?p),
        uc_ciphertext = ct, uc_isLastChunk = (nextChunkIndex r + 1 = rd_totalChunks r)\<rparr>, ?r)"
    using key lt by (simp add: nextEncryptedChunk_def hasNextChunk_def encryptChunk_def Let_def)
  have "stream_pos ?r = Suc i * ?c \<and> (e - 1) * ?c < length ?d" if "Suc i < e"
  proof -
    have "Suc i * ?c \<le> (e - 1) * ?c" using that by (intro mult_le_mono1) simp
    then have "Suc i * ?c < length ?d" using data by (rule le_less_trans)
    then show ?thesis using data by (simp add: pos length_chunk_at)
  qed
  moreover have "unat (nextChunkIndex ?r) = Suc i" using unat_Suc_less [OF lt] i by simp
  ultimately have "at_chunk (Suc i) e ?r" using less e key c unfolding at_chunk_def by simp
  then show ?thesis using run by (intro exI [of _ ?r]) (simp add: word)
qed

text \<open>
  A part read from its first chunk on: for each chunk its number, its sizes and the hash of
  its ciphertext; the hashes and the ciphertexts in order.
\<close>

definition chunk_result :: "nat \<Rightarrow> bytes \<Rightarrow> bytes \<Rightarrow> bytes \<Rightarrow> EncryptedChunkResult" where
  "chunk_result i p ct h =
     \<lparr>ec_chunkNumber = of_nat (Suc i), ec_plaintextSize = of_nat (length p),
      ec_ciphertextSize = of_nat (length ct), ec_encryptedHash = encodeBase64 h\<rparr>"

lemma readChunks_window:
  assumes "at_chunk i e r"
    and "\<And>j. i \<le> j \<Longrightarrow> j < e \<Longrightarrow> reader_cipher crypto r j = Inr (ct j)"
    and "\<And>j. i \<le> j \<Longrightarrow> j < e \<Longrightarrow> lib_blake3Hash crypto (ct j) = Inr (h j)"
  shows "readChunks crypto r b = Inr
    \<lparr>pb_chunks = pb_chunks b @ map (\<lambda>j. chunk_result j (chunk_at (unat (rd_chunkSize r)) (stream_data r) j) (ct j) (h j)) [i..<e],
     pb_combinedChunkHashes = pb_combinedChunkHashes b @ concat (map h [i..<e]),
     pb_uploadBody = pb_uploadBody b @ concat (map ct [i..<e])\<rparr>"
  using assms
proof (induction "e - i" arbitrary: i r b)
  case 0
  then have "e = i" "\<not> hasNextChunk r"
    by (auto simp: at_chunk_def hasNextChunk_def word_less_nat_alt)
  then show ?case by (subst readChunks.simps) simp
next
  case (Suc n)
  then have less: "i < e" by simp
  let ?p = "chunk_at (unat (rd_chunkSize r)) (stream_data r)"
  let ?uc = "\<lparr>uc_chunkNo = of_nat (Suc i), uc_plaintextSize = of_nat (length (?p i)),
        uc_ciphertext = ct i, uc_isLastChunk = (of_nat (Suc i) = rd_totalChunks r)\<rparr>"
  have "reader_cipher crypto r i = Inr (ct i)" using Suc.prems(2) less by simp
  from next_chunk [OF Suc.prems(1) less this] obtain r'
    where run: "nextEncryptedChunk crypto r = Inr (?uc, r')" and at: "at_chunk (Suc i) e r'"
      and same: "reader_cipher crypto r' = reader_cipher crypto r"
        "rd_chunkSize r' = rd_chunkSize r" "stream_data r' = stream_data r" by blast
  have "hasNextChunk r" using Suc.prems(1) less by (simp add: at_chunk_def hasNextChunk_def word_less_nat_alt)
  moreover have "hashBytes crypto (uc_ciphertext ?uc) = Inr (h i)"
    using Suc.prems(3) [of i] less by (simp add: hashBytes_def)
  ultimately have "readChunks crypto r b = readChunks crypto r' (add_chunk ?uc (h i) b)"
    by (subst readChunks.simps) (simp add: run)
  also have "\<dots> = Inr
    \<lparr>pb_chunks = pb_chunks (add_chunk ?uc (h i) b) @ map (\<lambda>j. chunk_result j (?p j) (ct j) (h j)) [Suc i..<e],
     pb_combinedChunkHashes = pb_combinedChunkHashes (add_chunk ?uc (h i) b) @ concat (map h [Suc i..<e]),
     pb_uploadBody = pb_uploadBody (add_chunk ?uc (h i) b) @ concat (map ct [Suc i..<e])\<rparr>"
    using Suc.hyps(1) [of "Suc i" r' "add_chunk ?uc (h i) b"] Suc.hyps(2) at same Suc.prems(2,3) by simp
  finally show ?case using less by (simp add: add_chunk_def chunk_result_def upt_conv_Cons)
qed

end
