(* ===== verification/Multipart_Uploader.thy ===== *)
theory Multipart_Uploader
  imports Chunk_Reader
begin

text \<open>
  Uploading the parts of a file by several worker threads (upload/MultipartUploader.cpp). What
  a worker does with one part is a function of the environment: the file, the key, the plan,
  the responses of the server and of the storage. The threads themselves are a step relation
  on their shared state, one step for each access to it: the stop flag, the counter of parts,
  the vector of results and the first error.
\<close>

section \<open>Data\<close>

record StartUploadResponse =
  su_fileId :: string
  su_vaultId :: string
  su_uploadSessionId :: string
  su_providerUploadId :: string
  su_fileChunkSize :: "64 word"
  su_totalChunks :: "32 word"
  su_uploadPartSize :: "64 word"
  su_uploadPartCount :: "32 word"
  su_uploadUrl :: string

record UploadedPartResult =
  up_plan :: UploadPartPlan
  up_chunks :: "EncryptedChunkResult list"
  up_uploadHash :: string
  up_etag :: string
  up_combinedChunkHashes :: bytes

record UploadPartRequest =
  pq_partNumber :: "32 word"
  pq_encryptedHash :: string
  pq_etag :: string

text \<open>A value-initialised \<open>UploadedPartResult\<close>.\<close>

definition emptyPart :: UploadedPartResult where
  "emptyPart = \<lparr>up_plan = \<lparr>partNumber = 0, partStart = 0, partEnd = 0, firstChunkNumber = 0\<rparr>,
     up_chunks = [], up_uploadHash = [], up_etag = [], up_combinedChunkHashes = []\<rparr>"

text \<open>
  The environment of one call: \<open>path\<close> is the content of the file if it can be opened; the
  methods of \<open>ArkiveApi\<close> and the callback are parameters. A presigned response maps part
  numbers to URLs.
\<close>

record upload_env =
  ue_crypto :: crypto_lib
  ue_path :: "bytes option"
  ue_fileKey :: bytes
  ue_started :: StartUploadResponse
  ue_plan :: UploadPlan
  api_presignSingleUpload :: "string \<Rightarrow> string result"
  api_presignParts :: "string \<Rightarrow> 32 word list \<Rightarrow> (32 word \<rightharpoonup> string) result"
  api_putEncryptedPartToStorage :: "string \<Rightarrow> bytes \<Rightarrow> string result"
  api_uploadPart :: "string \<Rightarrow> UploadPartRequest \<Rightarrow> unit result"
  onPartUploaded :: "UploadedPartResult \<Rightarrow> unit result"

section \<open>One part\<close>

text \<open>Encrypting the chunks of part \<open>n\<close> and hashing the body.\<close>

definition preparePart :: "upload_env \<Rightarrow> 64 word \<Rightarrow> (UploadedPartResult \<times> bytes) result" where
  "preparePart env n =
     (let plan = ue_plan env; started = ue_started env; p = makePartPlan n plan in
      bindR (openWindow (ue_path env) (ue_fileKey env) (su_vaultId started) (su_fileId started)
               (fileChunkSize plan) (totalChunks plan) (firstChunkNumber p) (partChunkCount plan p)) (\<lambda>reader.
      bindR (readChunks (ue_crypto env) reader
               \<lparr>pb_chunks = [], pb_combinedChunkHashes = [], pb_uploadBody = []\<rparr>) (\<lambda>b.
      if pb_uploadBody b = [] then Inl (Runtime_error ''upload part had no encrypted chunk payload'')
      else bindR (hashBytes (ue_crypto env) (pb_uploadBody b)) (\<lambda>h.
        Inr (\<lparr>up_plan = p, up_chunks = pb_chunks b, up_uploadHash = encodeBase64 h, up_etag = [],
              up_combinedChunkHashes = pb_combinedChunkHashes b\<rparr>, pb_uploadBody b)))))"

definition partUrl :: "upload_env \<Rightarrow> 64 word \<Rightarrow> string result" where
  "partUrl env n =
     (let started = ue_started env in
      if su_uploadUrl started \<noteq> [] then Inr (su_uploadUrl started)
      else if su_providerUploadId started = [] then api_presignSingleUpload env (su_uploadSessionId started)
      else bindR (api_presignParts env (su_uploadSessionId started) [ucast n]) (\<lambda>urls.
        case urls (ucast n) of
          None \<Rightarrow> Inl (Runtime_error (''missing presigned URL for upload part '' @ to_string (uint n)))
        | Some url \<Rightarrow> Inr url))"

definition processPart :: "upload_env \<Rightarrow> 64 word \<Rightarrow> UploadedPartResult result" where
  "processPart env n =
     bindR (preparePart env n) (\<lambda>(part, body).
     bindR (partUrl env n) (\<lambda>url.
     bindR (api_putEncryptedPartToStorage env url body) (\<lambda>etag.
       let part = part\<lparr>up_etag := etag\<rparr>; started = ue_started env in
       if su_providerUploadId started = [] then Inr part
       else bindR (api_uploadPart env (su_uploadSessionId started)
              \<lparr>pq_partNumber = ucast n, pq_encryptedHash = up_uploadHash part, pq_etag = up_etag part\<rparr>) (\<lambda>_.
            bindR (onPartUploaded env part) (\<lambda>_. Inr part)))))"

section \<open>The workers\<close>

datatype worker = At_loop | At_fetch | Working nat | Failing exn | Exited

text \<open>
  \<open>nextPartNumber\<close> is a 64-bit counter; it is increased once for each part and once for each
  worker, so it does not wrap (the invariant below bounds it), and a natural number models it.
  The list of parts sent is kept for the proofs.
\<close>

record up_state =
  nextPartNumber :: nat
  uploadedParts :: "UploadedPartResult list"
  stopWorkers :: bool
  firstError :: "exn option"
  workers :: "worker list"
  sentParts :: "nat list"

text \<open>The results of an earlier run are put in their places first.\<close>

fun fillCompleted :: "nat \<Rightarrow> UploadedPartResult list \<Rightarrow> UploadedPartResult list \<Rightarrow> UploadedPartResult list result" where
  "fillCompleted cnt [] parts = Inr parts"
| "fillCompleted cnt (c # cs) parts =
     (if partNumber (up_plan c) = 0 \<or> unat (partNumber (up_plan c)) > cnt
      then Inl (Invalid_argument ''completed part number exceeds upload plan'')
      else fillCompleted cnt cs (parts[unat (partNumber (up_plan c)) - 1 := c]))"

definition partCount :: "upload_env \<Rightarrow> nat" where
  "partCount env = unat (uploadPartCount (ue_plan env))"

definition initialParts :: "upload_env \<Rightarrow> UploadedPartResult list \<Rightarrow> UploadedPartResult list result" where
  "initialParts env completed = fillCompleted (partCount env) completed (replicate (partCount env) emptyPart)"

definition start_state :: "UploadedPartResult list \<Rightarrow> nat \<Rightarrow> up_state" where
  "start_state parts partConcurrency =
     \<lparr>nextPartNumber = 1, uploadedParts = parts, stopWorkers = False, firstError = None,
      workers = replicate partConcurrency At_loop, sentParts = []\<rparr>"

definition set_worker :: "nat \<Rightarrow> worker \<Rightarrow> up_state \<Rightarrow> up_state" where
  "set_worker i w s = s\<lparr>workers := (workers s)[i := w]\<rparr>"

inductive up_step :: "upload_env \<Rightarrow> up_state \<Rightarrow> up_state \<Rightarrow> bool" for env where
  loop_stop: "i < length (workers s) \<Longrightarrow> workers s ! i = At_loop \<Longrightarrow> stopWorkers s \<Longrightarrow>
    up_step env s (set_worker i Exited s)"
| loop_go: "i < length (workers s) \<Longrightarrow> workers s ! i = At_loop \<Longrightarrow> \<not> stopWorkers s \<Longrightarrow>
    up_step env s (set_worker i At_fetch s)"
| fetch_exit: "i < length (workers s) \<Longrightarrow> workers s ! i = At_fetch \<Longrightarrow> nextPartNumber s > partCount env \<Longrightarrow>
    up_step env s (set_worker i Exited (s\<lparr>nextPartNumber := Suc (nextPartNumber s)\<rparr>))"
| fetch_skip: "i < length (workers s) \<Longrightarrow> workers s ! i = At_fetch \<Longrightarrow> nextPartNumber s \<le> partCount env \<Longrightarrow>
    up_etag (uploadedParts s ! (nextPartNumber s - 1)) \<noteq> [] \<Longrightarrow>
    up_step env s (set_worker i At_loop (s\<lparr>nextPartNumber := Suc (nextPartNumber s)\<rparr>))"
| fetch_take: "i < length (workers s) \<Longrightarrow> workers s ! i = At_fetch \<Longrightarrow> nextPartNumber s \<le> partCount env \<Longrightarrow>
    up_etag (uploadedParts s ! (nextPartNumber s - 1)) = [] \<Longrightarrow>
    up_step env s (set_worker i (Working (nextPartNumber s)) (s\<lparr>nextPartNumber := Suc (nextPartNumber s)\<rparr>))"
| part_done: "i < length (workers s) \<Longrightarrow> workers s ! i = Working n \<Longrightarrow> processPart env (of_nat n) = Inr r \<Longrightarrow>
    up_step env s (set_worker i At_loop
      (s\<lparr>uploadedParts := (uploadedParts s)[n - 1 := r], sentParts := n # sentParts s\<rparr>))"
| part_failed: "i < length (workers s) \<Longrightarrow> workers s ! i = Working n \<Longrightarrow> processPart env (of_nat n) = Inl e \<Longrightarrow>
    up_step env s (set_worker i (Failing e) (s\<lparr>stopWorkers := True\<rparr>))"
| record_error: "i < length (workers s) \<Longrightarrow> workers s ! i = Failing e \<Longrightarrow>
    up_step env s (set_worker i At_loop
      (s\<lparr>firstError := (case firstError s of None \<Rightarrow> Some e | Some e' \<Rightarrow> Some e')\<rparr>))"

text \<open>All workers have been joined; what the call returns then.\<close>

definition joined :: "up_state \<Rightarrow> bool" where
  "joined s \<longleftrightarrow> (\<forall>w\<in>set (workers s). w = Exited)"

definition uploadResult :: "up_state \<Rightarrow> UploadedPartResult list result" where
  "uploadResult s = (case firstError s of Some e \<Rightarrow> Inl e | None \<Rightarrow> Inr (uploadedParts s))"

section \<open>The invariant\<close>

definition missing :: "UploadedPartResult list \<Rightarrow> nat \<Rightarrow> bool" where
  "missing init n \<longleftrightarrow> 1 \<le> n \<and> n \<le> length init \<and> up_etag (init ! (n - 1)) = []"

definition working :: "up_state \<Rightarrow> nat \<Rightarrow> bool" where
  "working s n \<longleftrightarrow> (\<exists>i<length (workers s). workers s ! i = Working n)"

text \<open>Who works on what: each part is in the hands of one worker at most, and not sent yet.\<close>

definition workers_inv :: "UploadedPartResult list \<Rightarrow> up_state \<Rightarrow> bool" where
  "workers_inv init s \<longleftrightarrow>
     (\<forall>i<length (workers s). \<forall>n. workers s ! i = Working n \<longrightarrow>
        missing init n \<and> n < nextPartNumber s \<and> n \<notin> set (sentParts s) \<and>
        (\<forall>j<length (workers s). workers s ! j = Working n \<longrightarrow> j = i))"

text \<open>What has been sent, and what is in the result vector.\<close>

definition results_inv :: "upload_env \<Rightarrow> UploadedPartResult list \<Rightarrow> up_state \<Rightarrow> bool" where
  "results_inv env init s \<longleftrightarrow>
     distinct (sentParts s) \<and> length (uploadedParts s) = length init \<and>
     (\<forall>n\<in>set (sentParts s). missing init n \<and> n < nextPartNumber s \<and>
        processPart env (of_nat n) = Inr (uploadedParts s ! (n - 1))) \<and>
     (\<forall>n. 1 \<le> n \<longrightarrow> n \<notin> set (sentParts s) \<longrightarrow> uploadedParts s ! (n - 1) = init ! (n - 1))"

text \<open>Nothing the counter has passed is forgotten, and why workers stop.\<close>

definition progress_inv :: "upload_env \<Rightarrow> UploadedPartResult list \<Rightarrow> up_state \<Rightarrow> bool" where
  "progress_inv env init s \<longleftrightarrow>
     1 \<le> nextPartNumber s \<and> nextPartNumber s \<le> partCount env + 1 + length (filter (\<lambda>w. w = Exited) (workers s)) \<and>
     (\<forall>n. missing init n \<longrightarrow> n < nextPartNumber s \<longrightarrow>
        n \<in> set (sentParts s) \<or> working s n \<or> stopWorkers s \<and> isl (processPart env (of_nat n))) \<and>
     (\<forall>w\<in>set (workers s). w = Exited \<longrightarrow> stopWorkers s \<or> partCount env < nextPartNumber s)"

definition errors_inv :: "upload_env \<Rightarrow> UploadedPartResult list \<Rightarrow> up_state \<Rightarrow> bool" where
  "errors_inv env init s \<longleftrightarrow>
     (stopWorkers s \<longrightarrow> firstError s \<noteq> None \<or> (\<exists>e. Failing e \<in> set (workers s))) \<and>
     (\<forall>e. firstError s = Some e \<or> Failing e \<in> set (workers s) \<longrightarrow>
        (\<exists>n. missing init n \<and> processPart env (of_nat n) = Inl e))"

definition upload_inv :: "upload_env \<Rightarrow> UploadedPartResult list \<Rightarrow> up_state \<Rightarrow> bool" where
  "upload_inv env init s \<longleftrightarrow> length init = partCount env \<and>
     workers_inv init s \<and> results_inv env init s \<and> progress_inv env init s \<and> errors_inv env init s"

lemma set_worker_simps [simp]:
  "nextPartNumber (set_worker i w s) = nextPartNumber s"
  "uploadedParts (set_worker i w s) = uploadedParts s"
  "stopWorkers (set_worker i w s) = stopWorkers s"
  "firstError (set_worker i w s) = firstError s"
  "sentParts (set_worker i w s) = sentParts s"
  "workers (set_worker i w s) = (workers s)[i := w]"
  by (simp_all add: set_worker_def)

lemma workers_inv_update:
  assumes w: "workers_inv init s" and i: "i < length (workers s)"
    and ws: "workers t = (workers s)[i := v]" and le: "nextPartNumber s \<le> nextPartNumber t"
    and sent: "\<And>n. n \<in> set (sentParts t) \<Longrightarrow> n \<in> set (sentParts s) \<or> workers s ! i = Working n"
    and new: "\<And>n. v = Working n \<Longrightarrow> missing init n \<and> n < nextPartNumber t \<and> n \<notin> set (sentParts t) \<and> \<not> working s n"
  shows "workers_inv init t"
  unfolding workers_inv_def
proof (intro allI impI)
  fix k n assume "k < length (workers t)" and k': "workers t ! k = Working n"
  then have k: "k < length (workers s)" using ws by simp
  show "missing init n \<and> n < nextPartNumber t \<and> n \<notin> set (sentParts t) \<and>
      (\<forall>j<length (workers t). workers t ! j = Working n \<longrightarrow> j = k)"
  proof (cases "k = i")
    case True
    then have v: "v = Working n" using k' ws i by simp
    have "workers s ! j \<noteq> Working n" if "j < length (workers s)" for j
      using new [OF v] that by (auto simp: working_def)
    then show ?thesis using new [OF v] ws True by (metis length_list_update nth_list_update_neq)
  next
    case False
    then have n: "workers s ! k = Working n" using k' ws by simp
    then have old: "missing init n" "n < nextPartNumber s" "n \<notin> set (sentParts s)"
        "\<forall>j<length (workers s). workers s ! j = Working n \<longrightarrow> j = k"
      using w k unfolding workers_inv_def by blast+
    have "workers s ! i \<noteq> Working n" using old(4) i False by blast
    then have "n \<notin> set (sentParts t)" using sent old(3) by blast
    moreover have "v \<noteq> Working n" using new [of n] n k by (auto simp: working_def)
    then have "\<forall>j<length (workers t). workers t ! j = Working n \<longrightarrow> j = k"
      using old(4) ws by (metis length_list_update nth_list_update nth_list_update_neq)
    ultimately show ?thesis using old le by auto
  qed
qed

lemma workers_inv_step:
  assumes "up_step env s t" and "upload_inv env init s"
  shows "workers_inv init t"
proof -
  have w: "workers_inv init s" and r: "results_inv env init s" and p: "progress_inv env init s"
    and len: "length init = partCount env"
    using assms(2) by (auto simp: upload_inv_def)
  note upd = workers_inv_update [OF w]
  from assms(1) show ?thesis
  proof cases
    case (fetch_take i)
    let ?n = "nextPartNumber s"
    have fresh: "?n \<notin> set (sentParts s)" using r by (auto simp: results_inv_def)
    have "1 \<le> ?n" using p by (simp add: progress_inv_def)
    then have "missing init ?n"
      using fetch_take r fresh len by (auto simp: missing_def results_inv_def)
    moreover have "\<not> working s ?n" using w by (auto simp: working_def workers_inv_def)
    ultimately show ?thesis
      unfolding fetch_take(1) using fresh by (intro upd [OF fetch_take(2)]) auto
  next
    case (part_done i n r)
    then show ?thesis by (intro upd [OF part_done(2)]) auto
  qed (rule upd, assumption, auto)+
qed

lemma results_inv_step:
  assumes "up_step env s t" and "upload_inv env init s"
  shows "results_inv env init t"
proof -
  have w: "workers_inv init s" and r: "results_inv env init s" using assms(2) by (auto simp: upload_inv_def)
  from assms(1) show ?thesis
  proof cases
    case (part_done i n x)
    have n: "missing init n" "n < nextPartNumber s" "n \<notin> set (sentParts s)"
      using w part_done(2,3) by (auto simp: workers_inv_def)
    have get: "(uploadedParts s)[n - 1 := x] ! (m - 1) = (if m = n then x else uploadedParts s ! (m - 1))"
      if "1 \<le> m" for m
      using n(1) r that by (auto simp: missing_def results_inv_def nth_list_update)
    have "1 \<le> m" if "m \<in> set (n # sentParts s)" for m
      using n(1) r that by (auto simp: results_inv_def missing_def)
    then show ?thesis
      using r n get part_done(4) unfolding part_done(1) results_inv_def by auto
  qed (use r in \<open>auto simp: results_inv_def\<close>)
qed

lemma working_update:
  assumes "i < length (workers s)" and "workers s ! i \<noteq> Working n" and "workers t = (workers s)[i := w]"
    and "working s n"
  shows "working t n"
  using assms by (auto simp: working_def nth_list_update)

lemma exited_update:
  assumes "i < length ws" and "ws ! i \<noteq> Exited"
  shows "length (filter (\<lambda>w. w = Exited) (ws[i := w])) =
    length (filter (\<lambda>w. w = Exited) ws) + (if w = Exited then 1 else 0)"
  using assms
proof (induction ws arbitrary: i)
  case (Cons a ws)
  then show ?case by (cases i) auto
qed simp

lemma progress_inv_update:
  assumes p: "progress_inv env init s" and i: "i < length (workers s)" "workers s ! i \<noteq> Exited"
    and ws: "workers t = (workers s)[i := v]" and le: "nextPartNumber s \<le> nextPartNumber t"
    and bound: "nextPartNumber t \<le> partCount env + 1 \<or> nextPartNumber t \<le> nextPartNumber s + (if v = Exited then 1 else 0)"
    and sent: "set (sentParts s) \<subseteq> set (sentParts t)" and stop: "stopWorkers s \<longrightarrow> stopWorkers t"
    and new: "\<And>n. missing init n \<Longrightarrow> n < nextPartNumber t \<Longrightarrow> nextPartNumber s \<le> n \<or> workers s ! i = Working n \<Longrightarrow>
      n \<in> set (sentParts t) \<or> working t n \<or> stopWorkers t \<and> isl (processPart env (of_nat n))"
    and exit: "v = Exited \<Longrightarrow> stopWorkers t \<or> partCount env < nextPartNumber t"
  shows "progress_inv env init t"
  unfolding progress_inv_def
proof (intro conjI allI impI ballI)
  have 1: "1 \<le> nextPartNumber s"
    and b: "nextPartNumber s \<le> partCount env + 1 + length (filter (\<lambda>w. w = Exited) (workers s))"
    and passed: "missing init n \<Longrightarrow> n < nextPartNumber s \<Longrightarrow>
        n \<in> set (sentParts s) \<or> working s n \<or> stopWorkers s \<and> isl (processPart env (of_nat n))"
    and exited: "Exited \<in> set (workers s) \<Longrightarrow> stopWorkers s \<or> partCount env < nextPartNumber s" for n
    using p unfolding progress_inv_def by blast+
  show "1 \<le> nextPartNumber t" using 1 le by simp
  show "nextPartNumber t \<le> partCount env + 1 + length (filter (\<lambda>w. w = Exited) (workers t))"
    using bound b unfolding ws exited_update [OF i] by (auto split: if_splits)
  show "n \<in> set (sentParts t) \<or> working t n \<or> stopWorkers t \<and> isl (processPart env (of_nat n))"
    if n: "missing init n" "n < nextPartNumber t" for n
  proof (cases "nextPartNumber s \<le> n \<or> workers s ! i = Working n")
    case False
    then have "n \<in> set (sentParts s) \<or> working s n \<or> stopWorkers s \<and> isl (processPart env (of_nat n))"
      using passed n(1) by simp
    moreover have "working s n \<longrightarrow> working t n" using working_update [OF i(1) _ ws] False by blast
    ultimately show ?thesis using sent stop by blast
  qed (use new n in blast)
  show "stopWorkers t \<or> partCount env < nextPartNumber t" if "w \<in> set (workers t)" "w = Exited" for w
  proof (cases "v = Exited")
    case False
    then have "Exited \<in> set (workers s)"
      using that set_update_subset_insert [of "workers s" i v] unfolding ws by blast
    then show ?thesis using exited stop le by fastforce
  qed (use exit in blast)
qed

lemma progress_inv_step:
  assumes "up_step env s t" and "upload_inv env init s"
  shows "progress_inv env init t"
proof -
  have r: "results_inv env init s" and p: "progress_inv env init s"
    and len: "length init = partCount env"
    using assms(2) by (auto simp: upload_inv_def)
  note upd = progress_inv_update [OF p]
  from assms(1) show ?thesis
  proof cases
    case (fetch_exit i)
    then show ?thesis by (intro upd [OF fetch_exit(2)]) (auto simp: missing_def len)
  next
    case (fetch_skip i)
    let ?n = "nextPartNumber s"
    have "?n \<notin> set (sentParts s)" "1 \<le> ?n" using r p by (auto simp: results_inv_def progress_inv_def)
    then have "uploadedParts s ! (?n - 1) = init ! (?n - 1)" using r by (auto simp: results_inv_def)
    then have "\<not> missing init ?n" using fetch_skip by (simp add: missing_def)
    then have "\<not> missing init m" if "m < Suc ?n" "?n \<le> m" for m
      using that by (metis le_antisym less_Suc_eq_le)
    then show ?thesis using fetch_skip by (intro upd [OF fetch_skip(2)]) auto
  next
    case (fetch_take i)
    let ?n = "nextPartNumber s"
    have "working t ?n" unfolding fetch_take(1) using fetch_take(2) by (auto simp: working_def)
    then have "working t m" if "m < Suc ?n" "?n \<le> m" for m
      using that by (metis le_antisym less_Suc_eq_le)
    then show ?thesis using fetch_take by (intro upd [OF fetch_take(2)]) auto
  next
    case (part_done i n r)
    then show ?thesis by (intro upd [OF part_done(2)]) auto
  next
    case (part_failed i n e)
    then show ?thesis by (intro upd [OF part_failed(2)]) auto
  qed (rule upd, assumption, auto)+
qed

lemma failing_update:
  assumes "Failing e \<in> set (ws[i := v])"
  shows "v = Failing e \<or> Failing e \<in> set ws"
  using assms set_update_subset_insert [of ws i v] by blast

lemma failing_kept:
  assumes "i < length ws" and "ws ! i \<noteq> Failing e" and "Failing e \<in> set ws"
  shows "Failing e \<in> set (ws[i := v])"
proof -
  obtain j where "j < length ws" "ws ! j = Failing e" using assms(3) by (auto simp: in_set_conv_nth)
  then have "ws[i := v] ! j = Failing e" "j < length (ws[i := v])"
    using assms(2) by (cases "j = i"; auto)+
  then show ?thesis by (metis nth_mem)
qed

lemma errors_inv_update:
  assumes e: "errors_inv env init s" and i: "i < length (workers s)" "\<And>x. workers s ! i \<noteq> Failing x"
    and ws: "workers t = (workers s)[i := v]" and err: "firstError t = firstError s"
    and stop: "stopWorkers t \<Longrightarrow> stopWorkers s \<or> (\<exists>x. v = Failing x)"
    and new: "\<And>x. v = Failing x \<Longrightarrow> \<exists>n. missing init n \<and> processPart env (of_nat n) = Inl x"
  shows "errors_inv env init t"
  unfolding errors_inv_def
proof (intro conjI allI impI)
  show "firstError t \<noteq> None \<or> (\<exists>x. Failing x \<in> set (workers t))" if "stopWorkers t"
  proof (cases "\<exists>x. v = Failing x")
    case True
    then show ?thesis using i(1) ws by (metis set_update_memI)
  next
    case False
    then have "firstError s \<noteq> None \<or> (\<exists>x. Failing x \<in> set (workers s))"
      using stop that e unfolding errors_inv_def by blast
    then show ?thesis using failing_kept [OF i(1,2)] err unfolding ws by auto
  qed
  show "\<exists>n. missing init n \<and> processPart env (of_nat n) = Inl x"
    if "firstError t = Some x \<or> Failing x \<in> set (workers t)" for x
    using that new [of x] e failing_update [of x "workers s" i v] unfolding errors_inv_def err ws by blast
qed

lemma errors_inv_step:
  assumes "up_step env s t" and "upload_inv env init s"
  shows "errors_inv env init t"
proof -
  have w: "workers_inv init s" and e: "errors_inv env init s"
    using assms(2) by (auto simp: upload_inv_def)
  note upd = errors_inv_update [OF e]
  from assms(1) show ?thesis
  proof cases
    case (part_failed i n x)
    then have "missing init n" using w unfolding workers_inv_def by blast
    then show ?thesis using part_failed by (intro upd [OF part_failed(2)]) auto
  next
    case (record_error i x)
    have "Failing x \<in> set (workers s)" using record_error by (metis nth_mem)
    then have "\<exists>n. missing init n \<and> processPart env (of_nat n) = Inl x" using e unfolding errors_inv_def by blast
    moreover have "Failing y \<in> set (workers s)" if "Failing y \<in> set (workers t)" for y
      using that record_error failing_update [of y "workers s" i At_loop] by auto
    ultimately show ?thesis
      using e unfolding errors_inv_def record_error(1) by (auto split: option.splits)
  qed (rule upd, assumption, auto)+
qed

lemma upload_inv_step: "up_step env s t \<Longrightarrow> upload_inv env init s \<Longrightarrow> upload_inv env init t"
  using workers_inv_step results_inv_step progress_inv_step errors_inv_step
  by (meson upload_inv_def)

lemma upload_inv_start:
  "length init = partCount env \<Longrightarrow> upload_inv env init (start_state init conc)"
  by (auto simp: upload_inv_def start_state_def workers_inv_def results_inv_def progress_inv_def
      errors_inv_def missing_def working_def)

interpretation upload_run: transition_system
    "\<lambda>s. length init = partCount env \<and> (\<exists>conc. s = start_state init conc)" "up_step env" "upload_inv env init"
  for env init
  by unfold_locales (auto intro: upload_inv_start upload_inv_step)

lemma fillCompleted_length: "fillCompleted cnt cs parts = Inr init \<Longrightarrow> length init = length parts"
  by (induction cnt cs parts rule: fillCompleted.induct) (auto split: if_splits)

lemma initialParts_length: "initialParts env completed = Inr init \<Longrightarrow> length init = partCount env"
  by (auto simp: initialParts_def dest: fillCompleted_length)

lemma reachable_upload_inv:
  assumes "initialParts env completed = Inr init" and "(up_step env)\<^sup>*\<^sup>* (start_state init conc) s"
  shows "upload_inv env init s"
  using upload_run.invar_reachable [where env = env and init = init] assms initialParts_length by blast

lemma length_workers: "(up_step env)\<^sup>*\<^sup>* s t \<Longrightarrow> length (workers t) = length (workers s)"
  by (induction rule: rtranclp_induct) (auto elim!: up_step.cases)

section \<open>Termination\<close>

fun weight :: "worker \<Rightarrow> nat" where
  "weight Exited = 0"
| "weight At_fetch = 1"
| "weight At_loop = 2"
| "weight (Failing _) = 3"
| "weight (Working _) = 4"

definition work_left :: "upload_env \<Rightarrow> up_state \<Rightarrow> nat" where
  "work_left env s = 5 * (partCount env + 1 - nextPartNumber s) + sum_list (map weight (workers s))"

lemma sum_weights_update:
  "i < length ws \<Longrightarrow> sum_list (map weight (ws[i := v])) + weight (ws ! i) = sum_list (map weight ws) + weight v"
proof (induction ws arbitrary: i)
  case (Cons a ws)
  then show ?case by (cases i) fastforce+
qed simp

lemma work_left_decreases: "up_step env s t \<Longrightarrow> work_left env t < work_left env s"
proof (induction rule: up_step.induct)
  case (fetch_skip i s)
  then show ?case using sum_weights_update [of i "workers s" At_loop] by (simp add: work_left_def)
next
  case (fetch_take i s)
  then show ?case
    using sum_weights_update [of i "workers s" "Working (nextPartNumber s)"] by (simp add: work_left_def)
next
  case (fetch_exit i s)
  then show ?case using sum_weights_update [of i "workers s" Exited] by (simp add: work_left_def)
next
  case (loop_stop i s)
  then show ?case using sum_weights_update [of i "workers s" Exited] by (simp add: work_left_def)
next
  case (loop_go i s)
  then show ?case using sum_weights_update [of i "workers s" At_fetch] by (simp add: work_left_def)
next
  case (part_done i s n r)
  then show ?case using sum_weights_update [of i "workers s" At_loop] by (simp add: work_left_def)
next
  case (part_failed i s n e)
  then show ?case using sum_weights_update [of i "workers s" "Failing e"] by (simp add: work_left_def)
next
  case (record_error i s e)
  then show ?case using sum_weights_update [of i "workers s" At_loop] by (simp add: work_left_def)
qed

lemma not_stuck:
  assumes "\<not> joined s"
  shows "\<exists>t. up_step env s t"
proof -
  from assms obtain i where i: "i < length (workers s)" "workers s ! i \<noteq> Exited"
    by (auto simp: joined_def in_set_conv_nth)
  note rules = up_step.intros [OF i(1), where env = env]
  show ?thesis
  proof (cases "workers s ! i")
    case At_loop
    then show ?thesis using rules(1,2) by blast
  next
    case At_fetch
    then show ?thesis using rules(3,4,5) by (meson not_le_imp_less)
  next
    case (Working n)
    then show ?thesis using rules(6,7) by (cases "processPart env (of_nat n)") blast+
  next
    case (Failing e)
    then show ?thesis using rules(8) by blast
  qed (use i in simp)
qed

lemma upload_run_ends:
  "wfp (up_step env)\<inverse>\<inverse>" "\<exists>t. (up_step env)\<^sup>*\<^sup>* s t \<and> joined t"
proof -
  show wf: "wfp (up_step env)\<inverse>\<inverse>"
    by (rule wfp_if_convertible_to_nat [of _ "work_left env"]) (simp add: work_left_decreases)
  show "\<exists>t. (up_step env)\<^sup>*\<^sup>* s t \<and> joined t"
    using wf
  proof (induction s rule: wfp_induct_rule)
    case (less s)
    show ?case
    proof (cases "joined s")
      case False
      then obtain u where "up_step env s u" using not_stuck by blast
      then show ?thesis using less [of u] by (meson conversepI converse_rtranclp_into_rtranclp)
    qed blast
  qed
qed

text \<open>What the result vector holds once the threads are joined.\<close>

lemma upload_outcome:
  assumes init: "initialParts env completed = Inr init" and conc: "0 < conc"
    and run: "(up_step env)\<^sup>*\<^sup>* (start_state init conc) s" and joined: "joined s"
  shows "(case uploadResult s of
      Inr parts \<Rightarrow> length parts = partCount env \<and>
        (\<forall>n. 1 \<le> n \<and> n \<le> partCount env \<longrightarrow>
          (if missing init n then processPart env (of_nat n) = Inr (parts ! (n - 1))
           else parts ! (n - 1) = init ! (n - 1))) \<and>
        distinct (sentParts s) \<and> set (sentParts s) = {n. missing init n}
    | Inl e \<Rightarrow> \<exists>n. missing init n \<and> processPart env (of_nat n) = Inl e) \<and>
    nextPartNumber s \<le> partCount env + 1 + conc"
proof (rule conjI)
  note inv = reachable_upload_inv [OF init run]
  have len: "length init = partCount env" by (rule initialParts_length [OF init])
  have w: "length (workers s) = conc" using length_workers [OF run] by (simp add: start_state_def)
  have r: "results_inv env init s" and p: "progress_inv env init s" and e: "errors_inv env init s"
    using inv by (auto simp: upload_inv_def)
  have "nextPartNumber s \<le> partCount env + 1 + length (filter (\<lambda>w. w = Exited) (workers s))"
    using p by (simp add: progress_inv_def)
  also have "length (filter (\<lambda>w. w = Exited) (workers s)) \<le> conc" using w by (metis length_filter_le)
  finally show "nextPartNumber s \<le> partCount env + 1 + conc" by simp
  show "case uploadResult s of
      Inr parts \<Rightarrow> length parts = partCount env \<and>
        (\<forall>n. 1 \<le> n \<and> n \<le> partCount env \<longrightarrow>
          (if missing init n then processPart env (of_nat n) = Inr (parts ! (n - 1))
           else parts ! (n - 1) = init ! (n - 1))) \<and>
        distinct (sentParts s) \<and> set (sentParts s) = {n. missing init n}
    | Inl e \<Rightarrow> \<exists>n. missing init n \<and> processPart env (of_nat n) = Inl e"
  proof (cases "firstError s")
    case (Some x)
    then show ?thesis using e by (auto simp: uploadResult_def errors_inv_def)
  next
    case None
    have "Failing x \<notin> set (workers s)" for x using joined by (auto simp: joined_def)
    then have running: "\<not> stopWorkers s" using e None unfolding errors_inv_def by blast
    have "Exited \<in> set (workers s)" using joined w conc unfolding joined_def by (metis length_greater_0_conv last_in_set)
    then have "partCount env < nextPartNumber s" using p running unfolding progress_inv_def by blast
    moreover have "\<not> working s n" for n using joined by (force simp: joined_def working_def dest: nth_mem)
    ultimately have "n \<in> set (sentParts s)" if "missing init n" for n
      using p running that len unfolding progress_inv_def by (auto simp: missing_def)
    then have sent: "set (sentParts s) = {n. missing init n}" using r by (auto simp: results_inv_def)
    then show ?thesis using r len None by (auto simp: uploadResult_def results_inv_def)
  qed
qed

section \<open>What a part holds\<close>

text \<open>
  An environment in which the file can be read, is not empty and is the one the plan was
  made for, and in which the cryptographic library works: chunk \<open>i\<close> is encrypted to \<open>ct i\<close>,
  which is not empty, and bytes are hashed by \<open>hash\<close>.
\<close>

definition uploads :: "upload_env \<Rightarrow> bytes \<Rightarrow> (nat \<Rightarrow> bytes) \<Rightarrow> (bytes \<Rightarrow> bytes) \<Rightarrow> bool" where
  "uploads env content ct hash \<longleftrightarrow>
     0 < length content \<and> length content < 2 ^ 63 \<and> ue_path env = Some content \<and>
     ue_plan env = createPlan (of_nat (length content)) \<and> ue_fileKey env \<noteq> [] \<and>
     (\<forall>i<chunks_nat (length content). ct i \<noteq> [] \<and>
        chunk_cipher (ue_crypto env) (ue_fileKey env) (su_vaultId (ue_started env)) (su_fileId (ue_started env))
          kChunkSize (totalChunks (ue_plan env)) content i = Inr (ct i)) \<and>
     (\<forall>bs. lib_blake3Hash (ue_crypto env) bs = Inr (hash bs))"

lemma sint_small: "unat (w :: 64 word) < 2 ^ 63 \<Longrightarrow> sint w = int (unat w)"
proof -
  assume "unat w < 2 ^ 63"
  then have "uint w < 2 ^ 63" by (metis of_nat_less_iff of_nat_numeral of_nat_power uint_nat)
  moreover have "0 \<le> uint w" by simp
  ultimately have "signed_take_bit 63 (uint w) = uint w" by (intro signed_take_bit_int_eq_self) linarith+
  then have "sint w = uint w" by (simp add: sint_uint)
  also have "uint w = int (unat w)" by (rule uint_nat)
  finally show ?thesis .
qed

lemma sint_nonneg: "unat (w :: 64 word) < 2 ^ 63 \<Longrightarrow> 0 \<le> sint w"
  by (simp add: sint_small)

lemma uploads_size:
  assumes "uploads env content ct hash"
  shows "file_size (of_nat (length content))" and "unat (of_nat (length content) :: 64 word) = length content"
proof -
  have "length content < 2 ^ 63" using assms by (simp add: uploads_def)
  then show "unat (of_nat (length content) :: 64 word) = length content" by (intro unat_of_nat_small) simp
  then show "file_size (of_nat (length content))"
    using \<open>length content < 2 ^ 63\<close> by (simp add: file_size_def)
qed

lemma open_part_window:
  fixes content :: bytes
  defines "s \<equiv> of_nat (length content) :: 64 word"
  defines "plan \<equiv> createPlan s"
  defines "p \<equiv> \<lambda>k. makePartPlan (of_nat (Suc k)) plan"
  assumes size: "0 < length content" "length content < 2 ^ 63" and key: "key \<noteq> []"
    and k: "k < unat (uploadPartCount plan)"
  shows "\<exists>r. openWindow (Some content) key vaultId fileId (fileChunkSize plan) (totalChunks plan)
      (firstChunkNumber (p k)) (partChunkCount plan (p k)) = Inr r \<and>
    at_chunk (k * per_part (length content)) (min (Suc k * per_part (length content)) (chunks_nat (length content))) r \<and>
    stream_data r = content \<and> rd_fileKey r = key \<and> rd_vaultId r = vaultId \<and> rd_fileId r = fileId \<and>
    rd_chunkSize r = kChunkSize \<and> rd_totalChunks r = totalChunks plan"
proof -
  let ?n = "length content" and ?f = "k * per_part (length content)"
  let ?e = "min (Suc k * per_part ?n) (chunks_nat ?n)"
  let ?first = "firstChunkNumber (p k)" and ?cnt = "partChunkCount plan (p k)"
  have s: "unat s = ?n" unfolding s_def using size by (intro unat_of_nat_small) simp
  have fs: "file_size s" "0 < unat s" using s size by (simp_all add: file_size_def)
  have first: "unat ?first = ?f + 1" and cnt: "unat ?cnt = ?e - ?f"
    using part_window [OF fs, of k] k s unfolding p_def plan_def by simp_all
  have total: "unat (totalChunks plan) = chunks_nat ?n"
    using totalChunks_chunks_nat [OF fs] by (simp add: plan_def s)
  have lt: "?f < chunks_nat ?n" using window_starts [OF fs, of k] k by (simp add: plan_def s)
  then have e: "?f < ?e" "?e \<le> chunks_nat ?n" using per_part_pos [of ?n] by auto
  have "0 < ?first" using first by (simp add: word_less_nat_alt)
  then have nxt: "unat (?first - 1) = ?f" using first by (subst unat_sub) (simp_all add: word_le_nat_alt)
  have "chunks_nat ?n \<le> ?n" using size(1) unfolding chunks_nat_def by linarith
  then have "unat (?first - 1) + unat ?cnt < 2 ^ LENGTH(64)" using nxt cnt e size by simp
  then have "unat (?first - 1 + ?cnt) = unat (?first - 1) + unat ?cnt" by (simp only: unat_add_lem)
  then have endx: "unat (?first - 1 + ?cnt) = ?e" using nxt cnt e by simp
  have off: "?f * 4194304 < ?n" using lt by (simp add: chunks_nat_iff)
  then have "unat (?first - 1) * unat kChunkSize < 2 ^ LENGTH(64)" using nxt size by (simp add: kChunkSize_def)
  then have "unat ((?first - 1) * kChunkSize) = unat (?first - 1) * unat kChunkSize" by (simp only: unat_mult_lem)
  then have offset: "unat ((?first - 1) * kChunkSize) = ?f * 4194304"
    using nxt by (simp add: kChunkSize_def)
  then have "0 \<le> sint ((?first - 1) * kChunkSize)" using off size by (intro sint_nonneg) simp
  moreover have "?first - 1 < totalChunks plan" "\<not> ?first - 1 + ?cnt > totalChunks plan"
    using nxt endx total lt e by (simp_all add: word_less_nat_alt)
  moreover have "totalChunks plan \<noteq> 0" "?cnt \<noteq> 0" "?first \<noteq> 0" "kChunkSize \<noteq> 0"
    using total cnt first lt e by (auto simp: kChunkSize_def)
  moreover have "?e - 1 < chunks_nat ?n" using e by linarith
  then have "(?e - 1) * 4194304 < ?n" by (simp only: chunks_nat_iff)
  ultimately show ?thesis
    using key \<open>0 < ?first\<close> nxt endx offset e
    by (simp add: openWindow_def Let_def at_chunk_def plan_def)
      (simp add: kChunkSize_def)
qed

definition part_of :: "upload_env \<Rightarrow> bytes \<Rightarrow> (nat \<Rightarrow> bytes) \<Rightarrow> (bytes \<Rightarrow> bytes) \<Rightarrow> nat \<Rightarrow> UploadedPartResult" where
  "part_of env content ct hash k =
     \<lparr>up_plan = makePartPlan (of_nat (Suc k)) (ue_plan env),
      up_chunks = map (\<lambda>i. chunk_result i (chunk_at 4194304 content i) (ct i) (hash (ct i))) (window (length content) k),
      up_uploadHash = encodeBase64 (hash (concat (map ct (window (length content) k)))), up_etag = [],
      up_combinedChunkHashes = concat (map (\<lambda>i. hash (ct i)) (window (length content) k))\<rparr>"

lemma preparePart_window:
  assumes up: "uploads env content ct hash" and k: "k < partCount env"
  shows "preparePart env (of_nat (Suc k)) =
    Inr (part_of env content ct hash k, concat (map ct (window (length content) k)))"
proof -
  let ?n = "length content" and ?plan = "ue_plan env"
  let ?f = "k * per_part ?n" and ?e = "min (Suc k * per_part ?n) (chunks_nat ?n)"
  have u: "0 < ?n" "?n < 2 ^ 63" "ue_path env = Some content" "?plan = createPlan (of_nat ?n)" "ue_fileKey env \<noteq> []"
      "\<forall>i<chunks_nat ?n. ct i \<noteq> [] \<and> chunk_cipher (ue_crypto env) (ue_fileKey env) (su_vaultId (ue_started env))
         (su_fileId (ue_started env)) kChunkSize (totalChunks ?plan) content i = Inr (ct i)"
      "\<forall>bs. lib_blake3Hash (ue_crypto env) bs = Inr (hash bs)"
    using up unfolding uploads_def by blast+
  obtain r where r: "openWindow (ue_path env) (ue_fileKey env) (su_vaultId (ue_started env)) (su_fileId (ue_started env))
      (fileChunkSize ?plan) (totalChunks ?plan) (firstChunkNumber (makePartPlan (of_nat (Suc k)) ?plan))
      (partChunkCount ?plan (makePartPlan (of_nat (Suc k)) ?plan)) = Inr r"
    and at: "at_chunk ?f ?e r" and rd: "stream_data r = content" "rd_fileKey r = ue_fileKey env"
      "rd_vaultId r = su_vaultId (ue_started env)" "rd_fileId r = su_fileId (ue_started env)"
      "rd_chunkSize r = kChunkSize" "rd_totalChunks r = totalChunks ?plan"
    using open_part_window [OF u(1,2,5), of k] k u(3,4) unfolding partCount_def by metis
  have ct: "reader_cipher (ue_crypto env) r i = Inr (ct i)" "ct i \<noteq> []" if "?f \<le> i" "i < ?e" for i
    using u(6) that unfolding rd by auto
  have hash: "lib_blake3Hash (ue_crypto env) (ct i) = Inr (hash (ct i))" for i using u(7) by blast
  note chunks = readChunks_window [where h = "\<lambda>i. hash (ct i)", OF at ct(1) hash,
      of "\<lparr>pb_chunks = [], pb_combinedChunkHashes = [], pb_uploadBody = []\<rparr>"]
  have "?f < chunks_nat ?n"
    using window_starts [OF uploads_size(1) [OF up], of k] uploads_size(2) [OF up] k u(1,4) by (simp add: partCount_def)
  then have "?f \<in> set [?f..<?e]" using per_part_pos [of ?n] by auto
  moreover from this have "ct ?f \<noteq> []" using ct(2) [of ?f] by auto
  ultimately have body: "concat (map ct [?f..<?e]) \<noteq> []" unfolding concat_eq_Nil_conv by auto
  show ?thesis
    unfolding preparePart_def Let_def r bindR_simps
    using chunks body u(7)
    by (simp add: hashBytes_def part_of_def window_def rd kChunkSize_def)
qed

text \<open>A part as it is before it is sent: what the file, the key and the plan determine.\<close>

definition prepared :: "upload_env \<Rightarrow> nat \<Rightarrow> UploadedPartResult \<Rightarrow> bool" where
  "prepared env n part \<longleftrightarrow> (\<exists>body. preparePart env (of_nat n) = Inr (part\<lparr>up_etag := []\<rparr>, body))"

lemma processPart_prepared:
  assumes "processPart env (of_nat n) = Inr r"
  shows "prepared env n r"
proof -
  obtain part body etag where "preparePart env (of_nat n) = Inr (part, body)" and r: "r = part\<lparr>up_etag := etag\<rparr>"
    using assms by (auto simp: processPart_def bindR_eq_Inr Let_def split: if_splits)
  moreover from this have "up_etag part = []" by (auto simp: preparePart_def Let_def bindR_eq_Inr split: if_splits)
  ultimately show ?thesis by (cases part) (auto simp: prepared_def)
qed

text \<open>A file of three bytes and a library that appends a byte, for the examples.\<close>

definition sample_env :: upload_env where
  "sample_env =
     \<lparr>ue_crypto = \<lparr>lib_encryptChunk = \<lambda>key aad p. Inr (p @ [0]), lib_decryptChunk = \<lambda>key aad c. Inr (butlast c),
        lib_blake3Hash = \<lambda>bs. Inr (take 1 bs),
        lib_wrapFileKey = \<lambda>fk mk aad. Inr fk, lib_unwrapFileKey = \<lambda>c mk aad. Inr c,
        lib_deriveSearchKey = \<lambda>mk. Inr mk, lib_hmacSha256 = \<lambda>k bs. Inr bs\<rparr>,
      ue_path = Some [1, 2, 3], ue_fileKey = [7],
      ue_started = \<lparr>su_fileId = ''f'', su_vaultId = ''v'', su_uploadSessionId = ''s'', su_providerUploadId = [],
        su_fileChunkSize = 4194304, su_totalChunks = 1, su_uploadPartSize = 4194304, su_uploadPartCount = 1,
        su_uploadUrl = ''u''\<rparr>,
      ue_plan = createPlan 3, api_presignSingleUpload = \<lambda>_. Inr ''u'', api_presignParts = \<lambda>_ _. Inr (\<lambda>_. None),
      api_putEncryptedPartToStorage = \<lambda>_ _. Inr ''tag'', api_uploadPart = \<lambda>_ _. Inr (), onPartUploaded = \<lambda>_. Inr ()\<rparr>"

lemma sample_uploads: "uploads sample_env [1, 2, 3] (\<lambda>i. chunk_at 4194304 [1, 2, 3] i @ [0]) (take 1)"
  by (simp add: uploads_def sample_env_def chunk_cipher_def kChunkSize_def)

lemma sample_count: "partCount sample_env = 1"
  using uploadPartCount_nat [of 3] by (simp add: partCount_def sample_env_def file_size_def part_size_nat_def)

lemma sample_process: "\<exists>r. processPart sample_env (of_nat 1) = Inr r"
proof -
  have "preparePart sample_env (of_nat (Suc 0)) = Inr (part_of sample_env [1, 2, 3]
      (\<lambda>i. chunk_at 4194304 [1, 2, 3] i @ [0]) (take 1) 0,
      concat (map (\<lambda>i. chunk_at 4194304 [1, 2, 3] i @ [0]) (window (length [1, 2, 3 :: 8 word]) 0)))"
    by (rule preparePart_window [OF sample_uploads]) (simp add: sample_count)
  then show ?thesis by (simp add: processPart_def partUrl_def Let_def) (simp add: sample_env_def)
qed

section \<open>Properties\<close>

text \<open>
  C7. However the threads of \<open>uploadParts\<close> interleave: if the call returns, every part missing
  from the earlier run was processed exactly once, its slot holds the result of that, and
  the slots of the parts completed earlier are unchanged; so the returned vector does not
  depend on the schedule. If the call throws, it throws the error of one of the missing
  parts. The part counter stays below the number of parts plus the number of threads plus 2.
\<close>

theorem upload_parts_schedule_independent:
  assumes init: "initialParts env completed = Inr init" and conc: "0 < conc"
    and run: "(up_step env)\<^sup>*\<^sup>* (start_state init conc) s" and joined: "joined s"
  shows "(case uploadResult s of
      Inr parts \<Rightarrow> length parts = partCount env \<and>
        (\<forall>n. 1 \<le> n \<and> n \<le> partCount env \<longrightarrow>
          (if missing init n then processPart env (of_nat n) = Inr (parts ! (n - 1))
           else parts ! (n - 1) = init ! (n - 1))) \<and>
        distinct (sentParts s) \<and> set (sentParts s) = {n. missing init n}
    | Inl e \<Rightarrow> \<exists>n. missing init n \<and> processPart env (of_nat n) = Inl e) \<and>
    nextPartNumber s \<le> partCount env + 1 + conc"
  by (rule upload_outcome [OF assms])

theorem upload_parts_schedule_independent_witness:
  "\<exists>s parts. (up_step sample_env)\<^sup>*\<^sup>* (start_state [emptyPart] 3) s \<and> joined s \<and>
     uploadResult s = Inr parts \<and> length parts = 1 \<and> sentParts s = [1]"
proof -
  have init: "initialParts sample_env [] = Inr [emptyPart]" by (simp add: initialParts_def sample_count)
  obtain s where run: "(up_step sample_env)\<^sup>*\<^sup>* (start_state [emptyPart] 3) s" "joined s"
    using upload_run_ends(2) by blast
  have miss: "missing [emptyPart] n \<longleftrightarrow> n = 1" for n by (auto simp: missing_def emptyPart_def)
  obtain r where "processPart sample_env (of_nat 1) = Inr r" using sample_process by blast
  with upload_parts_schedule_independent [OF init _ run] obtain parts
    where "uploadResult s = Inr parts" "length parts = 1" "distinct (sentParts s)" "set (sentParts s) = {1}"
    unfolding miss by (auto simp: sample_count split: sum.splits)
  moreover from this have "sentParts s = [1]"
    by (metis distinct_card distinct_singleton empty_set length_0_conv length_Suc_conv list.simps(15)
        card.empty card_insert_disjoint empty_iff finite.emptyI singleton_iff)
  ultimately show ?thesis using run by blast
qed

text \<open>
  C38. \<open>uploadParts\<close> always ends: in no schedule can the threads make infinitely many steps,
  and as long as one has not exited there is a step. So every run ends with all threads
  joined.
\<close>

theorem upload_parts_terminates:
  "wfp (up_step env)\<inverse>\<inverse> \<and> (\<forall>s. \<exists>t. (up_step env)\<^sup>*\<^sup>* s t \<and> joined t)"
  by (simp add: upload_run_ends)

text \<open>
  Empty files cannot be uploaded: the planner gives them one part with one chunk, but the
  uploader computes a window of no chunks for that part and the chunk reader refuses it. So
  in every schedule \<open>uploadParts\<close> throws for an empty file, although the plan was accepted.
\<close>

theorem empty_file_upload_fails:
  assumes env: "ue_path env = Some []" "ue_fileKey env \<noteq> []" "ue_plan env = createPlan 0"
    and run: "0 < conc" "(up_step env)\<^sup>*\<^sup>* (start_state (replicate (partCount env) emptyPart) conc) s" "joined s"
  shows "partCount env = 1 \<and> totalChunks (ue_plan env) = 1 \<and>
    uploadResult s = Inl (Invalid_argument ''chunkCount cannot be zero'')"
proof -
  have cnt: "partCount env = 1" and chunks: "totalChunks (ue_plan env) = 1"
    unfolding partCount_def env
    by (simp_all add: createPlan_def Let_def kChunkSize_def kMultipartUploadPartSize_def max_def)
  have "preparePart env (of_nat 1) = Inl (Invalid_argument ''chunkCount cannot be zero'')"
    using env(2) chunks unfolding preparePart_def Let_def env
    by (simp add: openWindow_def makePartPlan_def partChunkCount_def Let_def kChunkSize_def)
  then have fail: "processPart env (of_nat 1) = Inl (Invalid_argument ''chunkCount cannot be zero'')"
    by (simp add: processPart_def)
  have miss: "missing (replicate (partCount env) emptyPart) n \<longleftrightarrow> n = 1" for n
    by (auto simp: cnt missing_def emptyPart_def)
  have "initialParts env [] = Inr (replicate (partCount env) emptyPart)"
    by (simp add: initialParts_def)
  note out = upload_outcome [OF this run, unfolded miss]
  show ?thesis
  proof (cases "uploadResult s")
    case (Inl e)
    then show ?thesis using out fail cnt chunks by simp
  next
    case (Inr parts)
    have "\<forall>n. 1 \<le> n \<and> n \<le> partCount env \<longrightarrow> (if n = 1 then processPart env (of_nat n) = Inr (parts ! (n - 1))
        else parts ! (n - 1) = replicate (partCount env) emptyPart ! (n - 1))"
      using out unfolding Inr sum.case by blast
    from this [rule_format, of 1] show ?thesis using fail cnt by simp
  qed
qed

theorem empty_file_upload_fails_witness:
  "\<exists>s. joined s \<and> uploadResult s = Inl (Invalid_argument ''chunkCount cannot be zero'')"
proof -
  let ?env = "sample_env\<lparr>ue_path := Some [], ue_plan := createPlan 0\<rparr>"
  obtain s where run: "(up_step ?env)\<^sup>*\<^sup>* (start_state (replicate (partCount ?env) emptyPart) 3) s" "joined s"
    using upload_run_ends(2) by blast
  have "uploadResult s = Inl (Invalid_argument ''chunkCount cannot be zero'')"
    using empty_file_upload_fails [OF _ _ _ _ run] by (simp add: sample_env_def)
  then show ?thesis using run by blast
qed

end
