(* ===== verification/Manifest.thy ===== *)
theory Manifest
  imports Multipart_Uploader
begin

text \<open>
  The file manifest: how the finalizer of an upload writes it (upload/UploadFinalizer.cpp) and
  how a download reads it (download/DownloadManifest.cpp). JSON text is handled by a library:
  parsing and printing are parameters, a JSON document is a value of the type below.
\<close>

section \<open>JSON documents\<close>

text \<open>
  An integer is the number it stands for, whether the library keeps it as a signed or an
  unsigned one, and a floating-point number is given by its conversion to \<open>uint64_t\<close>, which is
  all the code reads of it.
\<close>

datatype json =
    JNull
  | JBool bool
  | JInt int
  | JFloat "64 word"
  | JString string
  | JArray "json list"
  | JObject "(string \<times> json) list"

text \<open>\<open>get<uint64_t>()\<close> and \<open>get<std::string>()\<close>: a value of another kind is a type error.\<close>

fun get_u64 :: "json \<Rightarrow> 64 word result" where
  "get_u64 (JInt i) = Inr (word_of_int i)"
| "get_u64 (JFloat w) = Inr w"
| "get_u64 _ = Inl (Json_error ''type must be number'')"

fun get_string :: "json \<Rightarrow> string result" where
  "get_string (JString s) = Inr s"
| "get_string _ = Inl (Json_error ''type must be string'')"

text \<open>\<open>json.value(key, default)\<close>: on an object only, and the default if there is no such key.\<close>

definition json_value :: "(json \<Rightarrow> 'a result) \<Rightarrow> json \<Rightarrow> string \<Rightarrow> 'a \<Rightarrow> 'a result" where
  "json_value get j key dflt =
     (case j of
        JObject kvs \<Rightarrow> (case map_of kvs key of None \<Rightarrow> Inr dflt | Some v \<Rightarrow> get v)
      | _ \<Rightarrow> Inl (Json_error ''cannot use value()''))"

text \<open>\<open>json.contains(key)\<close> with \<open>json[key].is_array()\<close>: the elements of the array, if there is one.\<close>

definition array_member :: "json \<Rightarrow> string \<Rightarrow> json list option" where
  "array_member j key =
     (case j of
        JObject kvs \<Rightarrow> (case map_of kvs key of Some (JArray xs) \<Rightarrow> Some xs | _ \<Rightarrow> None)
      | _ \<Rightarrow> None)"

text \<open>The same with \<open>is_string()\<close>.\<close>

definition string_member :: "json \<Rightarrow> string \<Rightarrow> string option" where
  "string_member j key =
     (case j of
        JObject kvs \<Rightarrow> (case map_of kvs key of Some (JString s) \<Rightarrow> Some s | _ \<Rightarrow> None)
      | _ \<Rightarrow> None)"

section \<open>Writing a manifest\<close>

record FileMimeDetails =
  fm_name :: string
  fm_mime :: string
  fm_extension :: string

definition chunkJson :: "EncryptedChunkResult \<Rightarrow> json" where
  "chunkJson c = JObject
     [(''n'', JInt (uint (ec_chunkNumber c))),
      (''plain_size'', JInt (uint (ec_plaintextSize c))),
      (''cipher_size'', JInt (uint (ec_ciphertextSize c))),
      (''hash'', JString (ec_encryptedHash c))]"

text \<open>The chunks of all parts, in the order of the parts, and the combined hashes likewise.\<close>

definition manifestChunks :: "UploadedPartResult list \<Rightarrow> json list" where
  "manifestChunks parts = concat (map (\<lambda>part. map chunkJson (up_chunks part)) parts)"

definition combinedHashes :: "UploadedPartResult list \<Rightarrow> bytes" where
  "combinedHashes parts = concat (map up_combinedChunkHashes parts)"

definition manifest :: "StartUploadResponse \<Rightarrow> UploadPlan \<Rightarrow> FileMimeDetails \<Rightarrow> UploadedPartResult list \<Rightarrow> json" where
  "manifest started plan details parts = JObject
     [(''schema'', JString ''arkive.file.manifest''),
      (''version'', JInt 1),
      (''hash_alg'', JString ''blake3''),
      (''hash_encoding'', JString ''base64''),
      (''file_id'', JString (su_fileId started)),
      (''name'', JString (fm_name details)),
      (''mime'', JString (fm_mime details)),
      (''extension'', JString (fm_extension details)),
      (''size'', JInt (uint (originalSize plan))),
      (''chunk_size'', JInt (uint (su_fileChunkSize started))),
      (''chunks'', JArray (manifestChunks parts))]"

section \<open>Reading a manifest\<close>

record DownloadChunk =
  dc_index :: "64 word"
  dc_cipherStart :: "64 word"
  dc_cipherEnd :: "64 word"
  dc_cipherSize :: "64 word"
  dc_plainStart :: "64 word"
  dc_plainSize :: "64 word"
  dc_hash :: string

record DownloadManifest =
  dm_size :: "64 word"
  dm_chunkSize :: "64 word"
  dm_name :: string
  dm_mime :: string
  dm_chunks :: "DownloadChunk list"

text \<open>A chunk without a plain size has the default one, or what is left of the file.\<close>

definition plainSizeOf :: "64 word \<Rightarrow> 64 word \<Rightarrow> 64 word \<Rightarrow> 64 word \<Rightarrow> 64 word" where
  "plainSizeOf fallbackChunkSize plaintextSize plainOffset plainSize =
     (if plainSize = 0 \<and> fallbackChunkSize > 0
      then if plaintextSize > plainOffset \<and> plaintextSize - plainOffset < fallbackChunkSize
           then plaintextSize - plainOffset else fallbackChunkSize
      else plainSize)"

fun parseChunks :: "64 word \<Rightarrow> 64 word \<Rightarrow> 64 word \<Rightarrow> 64 word \<Rightarrow> 64 word \<Rightarrow> json list \<Rightarrow> DownloadChunk list result" where
  "parseChunks fallback psize cipherOffset plainOffset idx [] = Inr []"
| "parseChunks fallback psize cipherOffset plainOffset idx (j # js) =
     bindR (json_value get_u64 j ''cipher_size'' 0) (\<lambda>cipherSize.
     bindR (json_value get_u64 j ''plain_size'' 0) (\<lambda>plain.
       let plainSize = plainSizeOf fallback psize plainOffset plain in
       if cipherSize = 0 \<or> plainSize = 0 then Inl (Invalid_argument ''Download manifest has an empty chunk'')
       else bindR (json_value get_string j ''hash'' '''') (\<lambda>h.
         bindR (parseChunks fallback psize (cipherOffset + cipherSize) (plainOffset + plainSize) (idx + 1) js) (\<lambda>cs.
           Inr (\<lparr>dc_index = idx, dc_cipherStart = cipherOffset, dc_cipherEnd = cipherOffset + cipherSize - 1,
                 dc_cipherSize = cipherSize, dc_plainStart = plainOffset, dc_plainSize = plainSize,
                 dc_hash = h\<rparr> # cs)))))"

definition parseDownloadManifest ::
  "(string \<Rightarrow> json result) \<Rightarrow> string \<Rightarrow> 64 word \<Rightarrow> 64 word \<Rightarrow> DownloadManifest result" where
  "parseDownloadManifest parse manifestJson fallbackChunkSize plaintextSize =
     bindR (parse manifestJson) (\<lambda>j.
     bindR (json_value get_u64 j ''size'' plaintextSize) (\<lambda>sz.
     bindR (json_value get_u64 j ''chunk_size'' fallbackChunkSize) (\<lambda>cs.
     bindR (json_value get_string j ''name'' '''') (\<lambda>name.
     bindR (json_value get_string j ''mime'' '''') (\<lambda>mime.
       case array_member j ''chunks'' of
         None \<Rightarrow> Inl (Invalid_argument ''Download manifest is missing chunks'')
       | Some chunks \<Rightarrow>
           bindR (parseChunks fallbackChunkSize plaintextSize 0 0 0 chunks) (\<lambda>dcs.
             Inr \<lparr>dm_size = sz, dm_chunkSize = cs, dm_name = name, dm_mime = mime, dm_chunks = dcs\<rparr>))))))"

section \<open>Reading what was written\<close>

text \<open>Where chunk \<open>i\<close> starts in the concatenation of the chunks \<open>f 0, f 1, ...\<close>\<close>

definition offset :: "(nat \<Rightarrow> bytes) \<Rightarrow> nat \<Rightarrow> nat" where
  "offset f i = length (concat (map f [0..<i]))"

lemma offset_0 [simp]: "offset f 0 = 0"
  by (simp add: offset_def)

lemma offset_Suc [simp]: "offset f (Suc i) = offset f i + length (f i)"
  by (simp add: offset_def)

lemma offset_mono: "i \<le> j \<Longrightarrow> offset f i \<le> offset f j"
  by (rule lift_Suc_mono_le [of "offset f"]) simp_all

lemma concat_at:
  assumes "i < n"
  shows "take (length (f i)) (drop (offset f i) (concat (map f [0..<n]))) = f i"
proof -
  have "[0..<n] = [0..<i] @ i # [Suc i..<n]"
    using assms upt_add_eq_append [of 0 i "n - i"] by (simp add: upt_conv_Cons)
  then show ?thesis by (simp add: offset_def)
qed

definition written_chunk :: "(nat \<Rightarrow> bytes) \<Rightarrow> (nat \<Rightarrow> bytes) \<Rightarrow> (nat \<Rightarrow> bytes) \<Rightarrow> nat \<Rightarrow> DownloadChunk" where
  "written_chunk p ct h i =
     \<lparr>dc_index = of_nat i, dc_cipherStart = of_nat (offset ct i),
      dc_cipherEnd = of_nat (offset ct i) + of_nat (length (ct i)) - 1, dc_cipherSize = of_nat (length (ct i)),
      dc_plainStart = of_nat (offset p i), dc_plainSize = of_nat (length (p i)), dc_hash = encodeBase64 (h i)\<rparr>"

lemma of_nat_word_neq_0: "0 < n \<Longrightarrow> n < 2 ^ 64 \<Longrightarrow> (of_nat n :: 64 word) \<noteq> 0"
  using unat_of_nat_small [of n] by auto

lemma parseChunks_written:
  assumes "\<And>i. k \<le> i \<Longrightarrow> i < n \<Longrightarrow> 0 < length (p i) \<and> length (p i) < 2 ^ 64 \<and> 0 < length (ct i) \<and> length (ct i) < 2 ^ 64"
    and "k \<le> n"
  shows "parseChunks fallback psize (of_nat (offset ct k)) (of_nat (offset p k)) (of_nat k)
      (map (\<lambda>i. chunkJson (chunk_result i (p i) (ct i) (h i))) [k..<n]) =
    Inr (map (written_chunk p ct h) [k..<n])"
  using assms
proof (induction "n - k" arbitrary: k)
  case 0
  then show ?case by simp
next
  case (Suc m)
  then have less: "k < n" by simp
  have size: "(of_nat (length (p k)) :: 64 word) \<noteq> 0" "(of_nat (length (ct k)) :: 64 word) \<noteq> 0"
    using Suc.prems(1) [of k] less by (simp_all only: order.refl of_nat_word_neq_0 simp_thms)
  have "parseChunks fallback psize (of_nat (offset ct (Suc k))) (of_nat (offset p (Suc k))) (of_nat (Suc k))
      (map (\<lambda>i. chunkJson (chunk_result i (p i) (ct i) (h i))) [Suc k..<n]) =
    Inr (map (written_chunk p ct h) [Suc k..<n])"
    using Suc.hyps(1) [of "Suc k"] Suc.hyps(2) Suc.prems less by simp
  then show ?case
    using size unfolding upt_conv_Cons [OF less]
    by (simp add: chunkJson_def chunk_result_def json_value_def plainSizeOf_def written_chunk_def add.commute
        flip: offset_Suc of_nat_add)
qed

end
