(* ===== verification/Search_Tokens.thy ===== *)
theory Search_Tokens
  imports Chunk_Reader
begin

text \<open>
  The search tokens of a file or folder name (the second half of fs/FileEncryptor.cpp): the
  name is normalised, cut into its trigrams, and each different trigram is sent to the server
  as a keyed hash. The key derivation and the hash are parameters.
\<close>

section \<open>Normalised text\<close>

definition tolower :: "char \<Rightarrow> char" where
  "tolower c = (if char_ge c CHR ''A'' \<and> char_ge CHR ''Z'' c then char_of ((of_char c :: nat) + 32) else c)"

definition isalnum :: "char \<Rightarrow> bool" where
  "isalnum c \<longleftrightarrow> char_ge c CHR ''0'' \<and> char_ge CHR ''9'' c \<or> char_ge c CHR ''A'' \<and> char_ge CHR ''Z'' c \<or>
     char_ge c CHR ''a'' \<and> char_ge CHR ''z'' c"

text \<open>The loop; the flag says whether the last character pushed was a space.\<close>

fun normalize_loop :: "bool \<Rightarrow> string \<Rightarrow> string" where
  "normalize_loop lastWasSpace [] = []"
| "normalize_loop lastWasSpace (raw # rest) =
     (let ch = tolower raw in
      if isalnum raw \<or> ch = CHR ''.'' then ch # normalize_loop False rest
      else if \<not> lastWasSpace then CHR '' '' # normalize_loop True rest
      else normalize_loop lastWasSpace rest)"

definition normalizeText :: "string \<Rightarrow> string" where
  "normalizeText value =
     rev (dropWhile (\<lambda>c. c = CHR '' '') (rev (dropWhile (\<lambda>c. c = CHR '' '') (normalize_loop False value))))"

section \<open>Terms and tokens\<close>

record SearchTerm =
  st_term :: string
  st_field :: string
  st_weight :: int

definition termsForText :: "string \<Rightarrow> SearchTerm list" where
  "termsForText text =
     (let normalized = normalizeText text in
      if length normalized < 3 then []
      else map (\<lambda>i. \<lparr>st_term = take 3 (drop i normalized), st_field = ''name'', st_weight = 10\<rparr>)
             [0..<length normalized - 2])"

record UploadCompleteSearchToken =
  tk_token :: string
  tk_field :: string
  tk_weight :: int

definition search_token :: "(bytes \<Rightarrow> bytes) \<Rightarrow> string \<Rightarrow> SearchTerm \<Rightarrow> UploadCompleteSearchToken" where
  "search_token hmac vaultId t =
     \<lparr>tk_token = encodeBase64URL (hmac (toBytes (vaultId @ '':'' @ st_term t))), tk_field = st_field t,
      tk_weight = st_weight t\<rparr>"

text \<open>The loop over the terms: known ones are skipped and the 128th token ends it.\<close>

fun tokenLoop :: "(bytes \<Rightarrow> bytes result) \<Rightarrow> string \<Rightarrow> SearchTerm list \<Rightarrow> string set \<Rightarrow> UploadCompleteSearchToken list \<Rightarrow>
    UploadCompleteSearchToken list result" where
  "tokenLoop hmac vaultId [] seen entries = Inr entries"
| "tokenLoop hmac vaultId (t # ts) seen entries =
     (let dedupeKey = st_field t @ '':'' @ st_term t in
      if dedupeKey \<in> seen then tokenLoop hmac vaultId ts seen entries
      else case hmac (toBytes (vaultId @ '':'' @ st_term t)) of
          Inl e \<Rightarrow> Inl e
        | Inr digest \<Rightarrow>
            let entries' = entries @ [\<lparr>tk_token = encodeBase64URL digest, tk_field = st_field t, tk_weight = st_weight t\<rparr>]
            in if length entries' \<ge> 128 then Inr entries'
               else tokenLoop hmac vaultId ts (insert dedupeKey seen) entries')"

definition createSearchTokenEntries ::
  "bytes result \<Rightarrow> (bytes \<Rightarrow> bytes result) \<Rightarrow> (bytes \<Rightarrow> bytes \<Rightarrow> bytes result) \<Rightarrow> string \<Rightarrow> string \<Rightarrow>
   UploadCompleteSearchToken list result" where
  "createSearchTokenEntries masterKey deriveSearchKey hmacSha256 vaultId text =
     (let terms = termsForText text in
      if terms = [] then Inr []
      else case masterKey of Inl e \<Rightarrow> Inl e
      | Inr key \<Rightarrow> (case deriveSearchKey key of Inl e \<Rightarrow> Inl e
      | Inr searchKey \<Rightarrow> tokenLoop (hmacSha256 searchKey) vaultId terms {} []))"

section \<open>What the loops compute\<close>

text \<open>A list without later repetitions.\<close>

fun first_occs :: "'a set \<Rightarrow> 'a list \<Rightarrow> 'a list" where
  "first_occs seen [] = []"
| "first_occs seen (x # xs) = (if x \<in> seen then first_occs seen xs else x # first_occs (insert x seen) xs)"

lemma set_first_occs: "set (first_occs seen xs) = set xs - seen"
  by (induction xs arbitrary: seen) auto

lemma distinct_first_occs: "distinct (first_occs seen xs)"
  by (induction xs arbitrary: seen) (auto simp: set_first_occs)

definition term_key :: "SearchTerm \<Rightarrow> string" where
  "term_key t = st_field t @ '':'' @ st_term t"

definition name_term :: "SearchTerm \<Rightarrow> bool" where
  "name_term t \<longleftrightarrow> st_field t = ''name'' \<and> st_weight t = 10"

lemma term_key_inj: "name_term s \<Longrightarrow> name_term t \<Longrightarrow> term_key s = term_key t \<longleftrightarrow> s = t"
  by (cases s; cases t) (auto simp: name_term_def term_key_def)

lemma tokenLoop_tokens:
  assumes "\<And>bs. hmac bs = Inr (h bs)" and "\<forall>t\<in>set ts. name_term t" and "\<forall>t\<in>seen. name_term t"
    and "length entries < 128"
  shows "tokenLoop hmac vaultId ts (term_key ` seen) entries =
    Inr (entries @ map (search_token h vaultId) (take (128 - length entries) (first_occs seen ts)))"
  using assms(2-)
proof (induction ts arbitrary: seen entries)
  case (Cons t ts)
  have key: "st_field t @ '':'' @ st_term t = term_key t" by (simp add: term_key_def)
  have mem: "term_key t \<in> term_key ` seen \<longleftrightarrow> t \<in> seen"
    using Cons.prems term_key_inj by (auto simp: image_iff)
  show ?case
  proof (cases "t \<in> seen")
    case True
    then show ?thesis using Cons by (simp only: tokenLoop.simps key mem Let_def first_occs.simps) simp
  next
    case False
    let ?e = "entries @ [search_token h vaultId t]"
    have loop: "tokenLoop hmac vaultId (t # ts) (term_key ` seen) entries =
      (if length ?e \<ge> 128 then Inr ?e else tokenLoop hmac vaultId ts (insert (term_key t) (term_key ` seen)) ?e)"
      using False by (simp only: tokenLoop.simps key mem Let_def assms(1) sum.case search_token_def if_False)
    show ?thesis
    proof (cases "length ?e \<ge> 128")
      case True
      then have "128 - length entries = Suc 0" using Cons.prems(3) by simp
      then show ?thesis using True False unfolding loop by simp
    next
      case big: False
      then have "128 - length entries = Suc (128 - length ?e)" by simp
      then show ?thesis
        using big False Cons.IH [of "insert t seen" ?e] Cons.prems unfolding loop by simp
    qed
  qed
qed simp

section \<open>Properties\<close>

text \<open>
  The search tokens of a name are the keyed hashes of the different trigrams of the
  normalised name, in the order in which they first occur, cut off after 128; each stands
  under the field \<open>name\<close> with weight 10. A name of fewer than three normalised characters has
  no tokens, even when the vault is locked.
\<close>

theorem search_tokens_of_name:
  assumes "masterKey = Inr mk" and "deriveSearchKey mk = Inr sk" and "\<And>bs. hmac sk bs = Inr (h bs)"
  shows "createSearchTokenEntries masterKey deriveSearchKey hmac vaultId text =
      Inr (map (search_token h vaultId) (take 128 (first_occs {} (termsForText text)))) \<and>
    distinct (first_occs {} (termsForText text)) \<and>
    set (first_occs {} (termsForText text)) =
      {\<lparr>st_term = take 3 (drop i (normalizeText text)), st_field = ''name'', st_weight = 10\<rparr> | i.
         i + 3 \<le> length (normalizeText text)}"
proof (intro conjI)
  have terms: "\<forall>t\<in>set (termsForText text). name_term t"
    by (auto simp: termsForText_def Let_def name_term_def)
  show "createSearchTokenEntries masterKey deriveSearchKey hmac vaultId text =
      Inr (map (search_token h vaultId) (take 128 (first_occs {} (termsForText text))))"
    using tokenLoop_tokens [where hmac = "hmac sk" and h = h and seen = "{}" and entries = "[]", OF assms(3) terms] assms(1,2)
    by (simp add: createSearchTokenEntries_def Let_def)
  show "distinct (first_occs {} (termsForText text))" by (rule distinct_first_occs)
  show "set (first_occs {} (termsForText text)) =
      {\<lparr>st_term = take 3 (drop i (normalizeText text)), st_field = ''name'', st_weight = 10\<rparr> | i.
         i + 3 \<le> length (normalizeText text)}"
    by (auto simp: set_first_occs termsForText_def Let_def intro!: image_eqI)
qed

theorem search_tokens_of_name_witness:
  "createSearchTokenEntries (Inr [1]) Inr (\<lambda>k bs. Inr bs) ''v'' ''A.b!'' =
     Inr (map (search_token (\<lambda>bs. bs) ''v'') [\<lparr>st_term = ''a.b'', st_field = ''name'', st_weight = 10\<rparr>])"
proof -
  have "first_occs {} (termsForText ''A.b!'') = [\<lparr>st_term = ''a.b'', st_field = ''name'', st_weight = 10\<rparr>]"
    by code_simp
  with search_tokens_of_name [of "Inr [1]" "[1]" Inr "[1]" "\<lambda>k bs. Inr bs" "\<lambda>bs. bs" "''v''" "''A.b!''"]
  show ?thesis by simp
qed

end
