(* ===== verification/Upload_Finalizer.thy ===== *)
theory Upload_Finalizer
  imports Manifest Search_Tokens
begin

text \<open>
  Completing an upload (upload/UploadFinalizer.cpp): the encrypted manifest, metadata, file key
  and hash, the search tokens and the optional thumbnail of the completion request. The
  thumbnail generator, the MIME description of the path, the printing of JSON (which throws on
  text that is not UTF-8) and the server are parameters.
\<close>

record UploadThumbnail =
  th_bytes :: bytes
  th_mime :: string
  th_width :: int
  th_height :: int

record PresignThumbnailRequest =
  pt_encryptedSize :: nat
  pt_mime :: string
  pt_width :: int
  pt_height :: int

record finalizer_env =
  fe_crypto :: crypto_lib
  fe_masterKey :: "bytes result"
  fe_dump :: "json \<Rightarrow> string result"
  fe_details :: FileMimeDetails
  fe_thumbnail :: "UploadThumbnail option result"
  fe_presignThumbnail :: "string \<Rightarrow> PresignThumbnailRequest \<Rightarrow> string result"
  fe_putEncryptedPartToStorage :: "string \<Rightarrow> bytes \<Rightarrow> string result"

record UploadArtifacts =
  ua_fileKey :: bytes
  ua_encryptedFileKey :: bytes
  ua_encryptedMetadata :: bytes
  ua_encryptedManifest :: bytes
  ua_encryptedHash :: bytes

record UploadCompleteRequest =
  cq_encryptedMetadata :: string
  cq_encryptedFileKey :: string
  cq_encryptedManifest :: string
  cq_encryptedHash :: string
  cq_searchTokens :: "UploadCompleteSearchToken list"
  cq_hasThumbnail :: bool
  cq_thumbnailMime :: string
  cq_thumbnailWidth :: int
  cq_thumbnailHeight :: int
  cq_thumbnailSize :: nat

section \<open>Key wrapping and metadata\<close>

definition wrapFileKey :: "finalizer_env \<Rightarrow> bytes \<Rightarrow> string \<Rightarrow> string \<Rightarrow> bytes result" where
  "wrapFileKey env fileKey vaultId fileId =
     (if fileKey = [] then Inl (Invalid_argument ''fileKey cannot be empty'')
      else bindR (fe_masterKey env) (\<lambda>masterKey.
        lib_wrapFileKey (fe_crypto env) fileKey masterKey (toBytes (makeFileKey vaultId fileId))))"

definition encryptMetadata :: "finalizer_env \<Rightarrow> string \<Rightarrow> bytes \<Rightarrow> string \<Rightarrow> string \<Rightarrow> bytes result" where
  "encryptMetadata env metadataJson fileKey vaultId fileId =
     (if fileKey = [] then Inl (Invalid_argument ''fileKey cannot be empty'')
      else lib_encryptChunk (fe_crypto env) fileKey (toBytes (makeFileMetadata vaultId fileId)) (toBytes metadataJson))"

definition buildMetadata :: "FileMimeDetails \<Rightarrow> int option \<Rightarrow> json \<Rightarrow> json" where
  "buildMetadata details entrySize preview = JObject
     [(''schema'', JString ''arkive.file.metadata''),
      (''version'', JInt 1),
      (''name'', JString (fm_name details)),
      (''mime'', JString (fm_mime details)),
      (''extension'', JString (fm_extension details)),
      (''size'', JInt (case entrySize of None \<Rightarrow> 0 | Some n \<Rightarrow> n)),
      (''preview'', preview)]"

section \<open>The thumbnail\<close>

definition kMaxEncryptedThumbnailBytes :: nat where
  "kMaxEncryptedThumbnailBytes = 150 * 1024"

definition noPreview :: json where
  "noPreview = JObject [(''thumbnail_file_id'', JNull), (''has_thumbnail'', JBool False)]"

record thumbnail_outcome =
  to_preview :: json
  to_has :: bool
  to_mime :: string
  to_width :: int
  to_height :: int
  to_encryptedSize :: nat

definition noThumbnail :: "nat \<Rightarrow> thumbnail_outcome" where
  "noThumbnail encryptedSize =
     \<lparr>to_preview = noPreview, to_has = False, to_mime = [], to_width = 0, to_height = 0,
      to_encryptedSize = encryptedSize\<rparr>"

definition withThumbnail :: "UploadThumbnail \<Rightarrow> nat \<Rightarrow> thumbnail_outcome" where
  "withThumbnail th n =
     \<lparr>to_preview = JObject [(''thumbnail_file_id'', JNull), (''has_thumbnail'', JBool True),
        (''thumbnail_mime'', JString (th_mime th)), (''thumbnail_width'', JInt (th_width th)),
        (''thumbnail_height'', JInt (th_height th)), (''thumbnail_size'', JInt (int n)), (''thumbnail_version'', JInt 1)],
      to_has = True, to_mime = th_mime th, to_width = th_width th, to_height = th_height th, to_encryptedSize = n\<rparr>"

text \<open>Every exception on the way is caught; the encrypted bytes made so far keep their length.\<close>

definition uploadThumbnail :: "finalizer_env \<Rightarrow> StartUploadResponse \<Rightarrow> bytes \<Rightarrow> thumbnail_outcome" where
  "uploadThumbnail env started fileKey =
     (case fe_thumbnail env of
        Inl e \<Rightarrow> noThumbnail 0
      | Inr None \<Rightarrow> noThumbnail 0
      | Inr (Some th) \<Rightarrow>
          (case encryptChunk (fe_crypto env) (th_bytes th) fileKey
                  (toBytes (makeFileThumbnail (su_vaultId started) (su_fileId started))) of
             Inl e \<Rightarrow> noThumbnail 0
           | Inr encrypted \<Rightarrow>
               if length encrypted \<le> kMaxEncryptedThumbnailBytes then
                 (case fe_presignThumbnail env (su_uploadSessionId started)
                         \<lparr>pt_encryptedSize = length encrypted, pt_mime = th_mime th, pt_width = th_width th,
                          pt_height = th_height th\<rparr> of
                    Inl e \<Rightarrow> noThumbnail (length encrypted)
                  | Inr url \<Rightarrow>
                      (case fe_putEncryptedPartToStorage env url encrypted of
                         Inl e \<Rightarrow> noThumbnail (length encrypted)
                       | Inr _ \<Rightarrow> withThumbnail th (length encrypted)))
               else noThumbnail (length encrypted)))"

section \<open>The completion request\<close>

definition prepareCompletion ::
  "finalizer_env \<Rightarrow> int option \<Rightarrow> StartUploadResponse \<Rightarrow> UploadPlan \<Rightarrow> UploadedPartResult list \<Rightarrow> bytes \<Rightarrow>
   (UploadArtifacts \<times> UploadCompleteRequest) result" where
  "prepareCompletion env entrySize started plan parts fileKey =
     bindR (fe_dump env (manifest started plan (fe_details env) parts)) (\<lambda>manifestJson.
     bindR (encryptChunk (fe_crypto env) (toBytes manifestJson) fileKey
              (toBytes (makeFileManifest (su_vaultId started) (su_fileId started)))) (\<lambda>encryptedManifest.
     bindR (hashBytes (fe_crypto env) (combinedHashes parts)) (\<lambda>encryptedHash.
     bindR (wrapFileKey env fileKey (su_vaultId started) (su_fileId started)) (\<lambda>encryptedFileKey.
       let th = uploadThumbnail env started fileKey in
     bindR (fe_dump env (buildMetadata (fe_details env) entrySize (to_preview th))) (\<lambda>metadataJson.
     bindR (encryptMetadata env metadataJson fileKey (su_vaultId started) (su_fileId started)) (\<lambda>encryptedMetadata.
     bindR (createSearchTokenEntries (fe_masterKey env) (lib_deriveSearchKey (fe_crypto env))
              (lib_hmacSha256 (fe_crypto env)) (su_vaultId started) (fm_name (fe_details env))) (\<lambda>tokens.
       Inr (\<lparr>ua_fileKey = fileKey, ua_encryptedFileKey = encryptedFileKey, ua_encryptedMetadata = encryptedMetadata,
             ua_encryptedManifest = encryptedManifest, ua_encryptedHash = encryptedHash\<rparr>,
            \<lparr>cq_encryptedMetadata = encodeBase64 encryptedMetadata, cq_encryptedFileKey = encodeBase64 encryptedFileKey,
             cq_encryptedManifest = encodeBase64 encryptedManifest, cq_encryptedHash = encodeBase64 encryptedHash,
             cq_searchTokens = tokens, cq_hasThumbnail = to_has th, cq_thumbnailMime = to_mime th,
             cq_thumbnailWidth = to_width th, cq_thumbnailHeight = to_height th,
             cq_thumbnailSize = to_encryptedSize th\<rparr>))))))))"

text \<open>What a successful preparation says about its parts.\<close>

lemma prepareCompletion_Inr:
  assumes "prepareCompletion env entrySize started plan parts fileKey = Inr (a, request)"
  shows "cq_encryptedManifest request = encodeBase64 (ua_encryptedManifest a)"
    and "cq_encryptedFileKey request = encodeBase64 (ua_encryptedFileKey a)"
    and "cq_encryptedMetadata request = encodeBase64 (ua_encryptedMetadata a)"
    and "fileKey \<noteq> []"
    and "\<exists>manifestJson. fe_dump env (manifest started plan (fe_details env) parts) = Inr manifestJson \<and>
      lib_encryptChunk (fe_crypto env) fileKey (toBytes (makeFileManifest (su_vaultId started) (su_fileId started)))
        (toBytes manifestJson) = Inr (ua_encryptedManifest a)"
    and "\<exists>mk. fe_masterKey env = Inr mk \<and> lib_wrapFileKey (fe_crypto env) fileKey mk
      (toBytes (makeFileKey (su_vaultId started) (su_fileId started))) = Inr (ua_encryptedFileKey a)"
    and "\<exists>mj. lib_encryptChunk (fe_crypto env) fileKey
      (toBytes (makeFileMetadata (su_vaultId started) (su_fileId started))) (toBytes mj) = Inr (ua_encryptedMetadata a)"
  using assms
  by (auto simp: prepareCompletion_def bindR_eq_Inr Let_def encryptChunk_def wrapFileKey_def encryptMetadata_def
      split: if_splits)

text \<open>A completion without thumbnail says so, whatever went wrong with it.\<close>

lemma uploadThumbnail_has:
  "to_has (uploadThumbnail env started fileKey) \<longleftrightarrow>
     (\<exists>th encrypted url etag. fe_thumbnail env = Inr (Some th) \<and>
        encryptChunk (fe_crypto env) (th_bytes th) fileKey
          (toBytes (makeFileThumbnail (su_vaultId started) (su_fileId started))) = Inr encrypted \<and>
        length encrypted \<le> kMaxEncryptedThumbnailBytes \<and>
        fe_presignThumbnail env (su_uploadSessionId started)
          \<lparr>pt_encryptedSize = length encrypted, pt_mime = th_mime th, pt_width = th_width th, pt_height = th_height th\<rparr> = Inr url \<and>
        fe_putEncryptedPartToStorage env url encrypted = Inr etag)"
  by (auto simp: uploadThumbnail_def noThumbnail_def withThumbnail_def split: sum.splits option.splits)

end
