(* ===== verification/Folder_Worker.thy ===== *)
theory Folder_Worker
  imports App_State Upload_Finalizer
begin

text \<open>
  \<open>FolderCreateWorker\<close> (service/FolderCreateWorker.cpp): creating the folder of a sync root and
  the folders of queued jobs on the server. The cryptographic library, the vault's master key,
  the JSON printer and the server's \<open>POST /folders\<close> are parameters; the request acts on the
  server's state. Overwriting buffers with zeros before they are freed is left out.
\<close>

section \<open>Requests\<close>

record CreateFolderRequest =
  cf_parentFolderId :: "string option"
  cf_encryptedName :: string
  cf_encryptedMetadata :: string
  cf_searchTokens :: "UploadCompleteSearchToken list"

record CreateFolderResponse =
  cr_id :: string
  cr_parentFolderId :: "string option"
  cr_encryptedName :: string
  cr_encryptedMetadata :: "string option"

record 'srv folder_env =
  fw_clocks :: clocks
  fw_cwd :: string
  fw_crypto :: crypto_lib
  fw_masterKey :: "bytes result"
  fw_dump :: "json \<Rightarrow> string result"
  fw_createFolder :: "CreateFolderRequest \<Rightarrow> ('srv, CreateFolderResponse) act"

section \<open>Names\<close>

definition folderNameFromPath :: "string \<Rightarrow> string result" where
  "folderNameFromPath relativePath =
     (let name = filename (lexically_normal relativePath) in
      if name = [] then Inl (Runtime_error ''Queued folder entry has an empty name'') else Inr name)"

definition folderNameFromLocalPath :: "string \<Rightarrow> string \<Rightarrow> string result" where
  "folderNameFromLocalPath cwd localPath =
     bindR (normalizeFsPath cwd localPath) (\<lambda>path.
       let name = (if filename path = [] then filename (parent_path path) else filename path) in
       if name = [] then Inl (Runtime_error ''Sync root folder name is empty'') else Inr name)"

definition userId :: "account_table \<Rightarrow> string result" where
  "userId t =
     (case getAccount t of
        Some account \<Rightarrow> (case acc_userId account of
            Some u \<Rightarrow> if u = [] then Inl (Runtime_error ''User id is missing. Run `arkive-sync login`.'') else Inr u
          | None \<Rightarrow> Inl (Runtime_error ''User id is missing. Run `arkive-sync login`.''))
      | None \<Rightarrow> Inl (Runtime_error ''User id is missing. Run `arkive-sync login`.''))"

definition encryptFolderName :: "'srv folder_env \<Rightarrow> string \<Rightarrow> bytes result" where
  "encryptFolderName env metadataJson =
     bindR (fw_masterKey env) (\<lambda>masterKey.
       lib_encryptChunk (fw_crypto env) masterKey (toBytes kFolderName) (toBytes metadataJson))"

definition encryptFolderMetadata :: "'srv folder_env \<Rightarrow> string \<Rightarrow> bytes result" where
  "encryptFolderMetadata env metadataJson =
     bindR (fw_masterKey env) (\<lambda>masterKey.
       lib_encryptChunk (fw_crypto env) masterKey (toBytes kFolderMetadata) (toBytes metadataJson))"

text \<open>The request both operations send.\<close>

definition folderRequest ::
    "'srv folder_env \<Rightarrow> account_table \<Rightarrow> string option \<Rightarrow> string \<Rightarrow> CreateFolderRequest result" where
  "folderRequest env account parentFolderId folderName =
     bindR (fw_dump env (JObject [(''name'', JString folderName)])) (\<lambda>metadata.
     bindR (encryptFolderName env metadata) (\<lambda>encryptedName.
     bindR (encryptFolderMetadata env metadata) (\<lambda>encryptedMetadata.
     bindR (userId account) (\<lambda>user.
     bindR (createSearchTokenEntries (fw_masterKey env) (lib_deriveSearchKey (fw_crypto env))
              (lib_hmacSha256 (fw_crypto env)) user folderName) (\<lambda>tokens.
       Inr \<lparr>cf_parentFolderId = parentFolderId, cf_encryptedName = encodeBase64 encryptedName,
            cf_encryptedMetadata = encodeBase64 encryptedMetadata, cf_searchTokens = tokens\<rparr>)))))"

section \<open>Operations\<close>

text \<open>
  The root is written back with the default mode of the struct: the mode it had is not among
  the initialised members.
\<close>

definition ensureRootFolder :: "'srv folder_env \<Rightarrow> string \<Rightarrow> ('srv, bool) app_act" where
  "ensureRootFolder env syncRootId =
     bindE (liftE (\<lambda>s. findSyncRootById syncRootId (app_roots s))) (\<lambda>syncRoot.
     case syncRoot of
       None \<Rightarrow> throwE (Runtime_error ''Sync root is missing'')
     | Some root \<Rightarrow>
         if root_folderId root \<noteq> [] then returnE False
         else
           bindE (liftE (\<lambda>s. bindR (folderNameFromLocalPath (fw_cwd env) (root_localPath root))
                    (folderRequest env (app_account s) None))) (\<lambda>request.
           bindE (onServer (fw_createFolder env request)) (\<lambda>created.
           bindE (timed (fw_clocks env) (\<lambda>now _. onRoots (upsertSyncRoot now
                    \<lparr>root_Id = root_Id root, root_localPath = root_localPath root,
                     root_folderId = cr_id created, root_enabled = root_enabled root,
                     root_mode = TwoWay, root_createdAt = []\<rparr>))) (\<lambda>_.
           returnE True))))"

definition runFolderJob :: "'srv folder_env \<Rightarrow> transfer_job \<Rightarrow> ('srv, unit) app_act" where
  "runFolderJob env job =
     (if job_jobType job \<noteq> ''create_folder''
      then throwE (Invalid_argument ''FolderCreateWorker requires create_folder job'')
      else
        bindE (liftE (\<lambda>s. getEntryById (job_entryId job) (app_entries s))) (\<lambda>found.
        case found of
          None \<Rightarrow> throwE (Runtime_error ''Queued folder entry is missing'')
        | Some entry \<Rightarrow>
            if \<not> e_isDirectory entry
            then throwE (Runtime_error ''Queued create_folder entry is not a directory'')
            else
              bindE (liftE (\<lambda>s. findSyncRootById (e_syncRootId entry) (app_roots s))) (\<lambda>syncRoot.
              case syncRoot of
                None \<Rightarrow> throwE (Runtime_error ''Queued folder sync root is missing'')
              | Some root \<Rightarrow>
                  bindE (liftE (\<lambda>s. bindR (folderNameFromPath (e_relativePath entry))
                           (folderRequest env (app_account s) (job_remoteFolderId job)))) (\<lambda>request.
                  bindE (onServer (fw_createFolder env request)) (\<lambda>created.
                  timed (fw_clocks env) (\<lambda>now _. onEntries (markFolderCreated now (job_entryId job)
                    (cr_id created) (cr_parentFolderId created))))))))"

section \<open>What they leave alone\<close>

lemma leaves_ensureRootFolder [leaves_intros]:
  "leaves app_queue (ensureRootFolder env root)" "leaves app_entries (ensureRootFolder env root)"
  unfolding ensureRootFolder_def by (auto intro!: leaves_intros split: option.split)

lemma leaves_runFolderJob [leaves_intros]: "leaves app_queue (runFolderJob env job)"
  unfolding runFolderJob_def by (auto intro!: leaves_intros split: option.split)

lemma keeps_ensureRootFolder [keeps_intros]: "keeps app_inv (ensureRootFolder env root)"
  unfolding ensureRootFolder_def by (auto intro!: keeps_intros split: option.split)

lemma keeps_runFolderJob [keeps_intros]: "keeps app_inv (runFolderJob env job)"
  unfolding runFolderJob_def by (auto intro!: keeps_intros split: option.split)

text \<open>A root that has its folder is left as it is.\<close>

lemma ensureRootFolder_done:
  assumes "findSyncRootById root (app_roots s) = Inr (Some x)" and "root_folderId x \<noteq> []"
  shows "ensureRootFolder env root s = (Inr False, s)"
  using assms by (simp add: ensureRootFolder_def act_simps)

section \<open>Properties\<close>

text \<open>
  When the folder of a sync root is created on the server, the root gets the identifier of
  the new folder and keeps its path, but its mode becomes two-way, whatever mode it had: an
  upload-only or mirroring root then also deletes and downloads.
\<close>

theorem ensure_root_folder_resets_mode:
  assumes inv: "app_inv s" and found: "findSyncRootById i (app_roots s) = Inr (Some root)"
    and no_folder: "root_folderId root = []"
    and request: "bindR (folderNameFromLocalPath (fw_cwd env) (root_localPath root))
        (folderRequest env (app_account s) None) = Inr request"
    and created: "fw_createFolder env request (app_server s) = (Inr created, srv)"
  shows "\<exists>s' root'. ensureRootFolder env i s = (Inr True, s') \<and>
    findSyncRootById i (app_roots s') = Inr (Some root') \<and> root_folderId root' = cr_id created \<and>
    root_localPath root' = root_localPath root \<and> root_mode root' = TwoWay"
proof -
  let ?input = "\<lparr>root_Id = root_Id root, root_localPath = root_localPath root, root_folderId = cr_id created,
    root_enabled = root_enabled root, root_mode = TwoWay, root_createdAt = []\<rparr>"
  let ?now = "clock (fw_clocks env) (app_tick s)"
  have roots: "roots_inv (app_roots s)" using inv by (simp add: app_inv_def)
  obtain r where r: "r \<in> set (app_roots s)" "sr_id r = i" "root = rootOf r"
    using findSyncRootById_Some [OF roots found] .
  have id: "root_Id root = i" using r by (simp add: rootOf_def)
  have "\<not> (\<exists>x\<in>set (app_roots s). sr_local_path x = root_localPath ?input \<and> sr_id x \<noteq> root_Id ?input)"
  proof
    assume "\<exists>x\<in>set (app_roots s). sr_local_path x = root_localPath ?input \<and> sr_id x \<noteq> root_Id ?input"
    then obtain x where x: "x \<in> set (app_roots s)" "sr_local_path x = sr_local_path r" "sr_id x \<noteq> i"
      using r id by (auto simp: rootOf_def)
    then have "x = r"
      using roots r uniq_onD [of idx_sync_roots_local_path "app_roots s" x r "sr_local_path r"]
      by (simp add: roots_inv_def sync_roots_ok_def idx_sync_roots_local_path_def)
    with x r show False by simp
  qed
  from upsertSyncRoot_found [OF roots this, of ?now] obtain t c where
    t: "upsertSyncRoot ?now ?input (app_roots s) = (Inr (), t)"
      "findSyncRootById (root_Id ?input) t = Inr (Some (?input\<lparr>root_enabled := column_int (root_enabled ?input), root_createdAt := c\<rparr>))"
    by blast
  have "ensureRootFolder env i s =
      (Inr True, s\<lparr>app_server := srv, app_tick := Suc (app_tick s), app_roots := t\<rparr>)"
    using found no_folder request created t(1)
    by (simp add: ensureRootFolder_def act_simps onServer_def onRoots_def timed_def)
  then show ?thesis using t(2) id by simp
qed

definition sample_crypto :: crypto_lib where
  "sample_crypto =
     \<lparr>lib_encryptChunk = \<lambda>k a p. Inr p, lib_decryptChunk = \<lambda>k a c. Inr c, lib_blake3Hash = Inr,
      lib_wrapFileKey = \<lambda>f k a. Inr f, lib_unwrapFileKey = \<lambda>w k a. Inr w,
      lib_deriveSearchKey = Inr, lib_hmacSha256 = \<lambda>k d. Inr d\<rparr>"

definition sample_folders :: "string folder_env" where
  "sample_folders =
     \<lparr>fw_clocks = \<lparr>clock = \<lambda>_. ''now'', uuid = \<lambda>_. ''u''\<rparr>, fw_cwd = ''/'', fw_crypto = sample_crypto,
      fw_masterKey = Inr [1], fw_dump = \<lambda>_. Inr ''{}'',
      fw_createFolder = \<lambda>r f. (Inr \<lparr>cr_id = f, cr_parentFolderId = cf_parentFolderId r,
        cr_encryptedName = cf_encryptedName r, cr_encryptedMetadata = None\<rparr>, f)\<rparr>"

definition sample_app :: "string app" where
  "sample_app =
     \<lparr>app_entries = [], app_queue = [], app_roots = [new_root ''t'' (demoRoot\<lparr>root_folderId := []\<rparr>)],
      app_dirty = [], app_scans = [],
      app_account = [(hd (migrated_account ''t''))\<lparr>ac_user_id := Some ''user''\<rparr>],
      app_files = [], app_server = ''folder'', app_tick = 0\<rparr>"

lemma sample_app_inv: "app_inv sample_app"
proof -
  have "roots_inv (app_roots sample_app)" "account_ok (app_account sample_app)" by code_simp+
  then show ?thesis
    by (simp add: app_inv_def sample_app_def entries_inv_def entries_ok_def queue_inv_Nil scan_ok_def)
qed

theorem ensure_root_folder_resets_mode_witness:
  "\<exists>s' root'. findSyncRootById ''s1'' (app_roots sample_app) = Inr (Some (demoRoot\<lparr>root_folderId := [], root_createdAt := ''t''\<rparr>)) \<and>
    root_mode demoRoot = RemoteMirror \<and> ensureRootFolder sample_folders ''s1'' sample_app = (Inr True, s') \<and>
    findSyncRootById ''s1'' (app_roots s') = Inr (Some root') \<and> root_folderId root' = ''folder'' \<and> root_mode root' = TwoWay"
proof -
  let ?root = "demoRoot\<lparr>root_folderId := [], root_createdAt := ''t''\<rparr>"
  have found: "findSyncRootById ''s1'' (app_roots sample_app) = Inr (Some ?root)" by code_simp
  have no_folder: "root_folderId ?root = []" by simp
  have mode: "root_mode demoRoot = RemoteMirror" by code_simp
  obtain request where request: "bindR (folderNameFromLocalPath (fw_cwd sample_folders) (root_localPath ?root))
      (folderRequest sample_folders (app_account sample_app) None) = Inr request"
  proof -
    have "isl (bindR (folderNameFromLocalPath (fw_cwd sample_folders) (root_localPath ?root))
      (folderRequest sample_folders (app_account sample_app) None)) = False" by code_simp
    then show thesis using that by (metis sum.collapse(2))
  qed
  have "fw_createFolder sample_folders request (app_server sample_app) =
      (Inr \<lparr>cr_id = ''folder'', cr_parentFolderId = cf_parentFolderId request,
        cr_encryptedName = cf_encryptedName request, cr_encryptedMetadata = None\<rparr>, ''folder'')"
    by (simp add: sample_folders_def sample_app_def)
  from ensure_root_folder_resets_mode [OF sample_app_inv found no_folder request this]
  show ?thesis using found mode by auto
qed

end
