(* ===== verification/Upload_Jobs.thy ===== *)
theory Upload_Jobs
  imports App_State
begin

text \<open>
  \<open>UploadJobRunner\<close> (service/UploadJobRunner.cpp): from queued jobs to uploads of files that
  are still what the scan saw, and back to the entries. The upload service is an interface
  (\<open>IUploadService\<close> of service/UploadService.hpp); its operations act on the server's state.
\<close>

section \<open>The upload service\<close>

record UploadFileResponse =
  uf_fileId :: string
  uf_vaultId :: string
  uf_uploadSessionId :: string
  uf_providerUploadId :: string

record UploadBatchItem =
  bi_id :: string
  bi_path :: string
  bi_entry :: Entry

record UploadBatchResult =
  br_id :: string
  br_response :: "UploadFileResponse option"
  br_error :: string

record 'srv upload_service =
  us_uploadFile :: "string \<Rightarrow> Entry \<Rightarrow> ('srv, UploadFileResponse) act"
  us_uploadFilesBatch :: "UploadBatchItem list \<Rightarrow> ('srv, UploadBatchResult list) act"

text \<open>The batch operation the interface falls back on: one file after the other.\<close>

fun defaultUploadFilesBatch ::
    "(string \<Rightarrow> Entry \<Rightarrow> ('srv, UploadFileResponse) act) \<Rightarrow> UploadBatchItem list \<Rightarrow> ('srv, UploadBatchResult list) act" where
  "defaultUploadFilesBatch uploadFile [] = returnE []"
| "defaultUploadFilesBatch uploadFile (item # items) =
     bindE (catchE
         (bindE (uploadFile (bi_path item) (bi_entry item)) (\<lambda>response.
            returnE \<lparr>br_id = bi_id item, br_response = Some response, br_error = []\<rparr>))
         (\<lambda>error. returnE \<lparr>br_id = bi_id item, br_response = None, br_error = what error\<rparr>))
       (\<lambda>result. bindE (defaultUploadFilesBatch uploadFile items) (\<lambda>results. returnE (result # results)))"

section \<open>Preparing an upload\<close>

record UploadJobBatchResult =
  jr_job :: transfer_job
  jr_error :: string

definition currentMtimeString :: "string \<Rightarrow> files \<Rightarrow> string option" where
  "currentMtimeString path fs = map_option toMtimeString (last_write_time path fs)"

definition not_empty :: "string \<Rightarrow> string option" where
  "not_empty s = (if s = [] then None else Some s)"

definition prepareUploadItem :: "transfer_job \<Rightarrow> 'srv app \<Rightarrow> UploadBatchItem option result" where
  "prepareUploadItem job s =
     (if job_jobType job \<noteq> ''upload_file''
      then Inl (Invalid_argument ''UploadJobRunner requires upload_file job'')
      else
        bindR (getEntryById (job_entryId job) (app_entries s)) (\<lambda>found. case found of
          None \<Rightarrow> Inl (Runtime_error ''Queued upload entry is missing'')
        | Some entry \<Rightarrow>
        bindR (findSyncRootById (e_syncRootId entry) (app_roots s)) (\<lambda>syncRoot. case syncRoot of
          None \<Rightarrow> Inl (Runtime_error ''Queued upload sync root is missing'')
        | Some root \<Rightarrow>
            if decide (classify entry) (root_mode root) \<noteq> Upload then Inr None
            else
              let absolutePath = path_append (root_localPath root) (e_relativePath entry);
                  parentPath = parent_path (e_relativePath entry) in
              if \<not> fs_exists absolutePath (app_files s)
              then Inl (Runtime_error ''Queued upload file is missing'')
              else if \<not> is_regular_file absolutePath (app_files s)
              then Inl (Runtime_error ''Queued upload path is not a regular file'')
              else if (case e_size entry of None \<Rightarrow> False | Some n \<Rightarrow>
                  (case fs_file_size absolutePath (app_files s) of None \<Rightarrow> True
                   | Some m \<Rightarrow> of_nat m \<noteq> (word_of_int n :: 64 word)))
              then Inl (Stale_upload_error ''Queued upload file size changed since the last sync scan''
                     (root_localPath root))
              else if (case e_mtime entry of None \<Rightarrow> False | Some t \<Rightarrow>
                  currentMtimeString absolutePath (app_files s) \<noteq> Some (toMtimeString t))
              then Inl (Stale_upload_error ''Queued upload file mtime changed since the last sync scan''
                     (root_localPath root))
              else
                bindR
                  (if parentPath = [] then Inr (not_empty (root_folderId root))
                   else bindR (findEntryByPath (e_syncRootId entry) parentPath (app_entries s)) (\<lambda>parent.
                     case parent of
                       None \<Rightarrow> Inl (Runtime_error ''Queued upload parent folder has no remote_id'')
                     | Some p \<Rightarrow> (case e_remoteId p of
                         None \<Rightarrow> Inl (Runtime_error ''Queued upload parent folder has no remote_id'')
                       | Some i \<Rightarrow> Inr (Some i))))
                  (\<lambda>remoteParentFolderId. Inr (Some
                     \<lparr>bi_id = job_id job, bi_path = absolutePath,
                      bi_entry = entry\<lparr>e_parentFolderId := remoteParentFolderId\<rparr>\<rparr>)))))"

definition runUploadJob :: "clocks \<Rightarrow> 'srv upload_service \<Rightarrow> transfer_job \<Rightarrow> ('srv, unit) app_act" where
  "runUploadJob c service job =
     (if job_jobType job \<noteq> ''upload_file''
      then throwE (Invalid_argument ''UploadJobRunner requires upload_file job'')
      else bindE (liftE (prepareUploadItem job)) (\<lambda>item. case item of
          None \<Rightarrow> returnE ()
        | Some i \<Rightarrow>
            bindE (onServer (us_uploadFile service (bi_path i) (bi_entry i))) (\<lambda>uploaded.
            timed c (\<lambda>now _. onEntries (markEntryUploaded now (job_entryId job) (uf_fileId uploaded)
              (e_parentFolderId (bi_entry i)))))))"

section \<open>A batch of jobs\<close>

text \<open>The first loop: what is to be uploaded, and a result for every job.\<close>

fun prepareBatch :: "transfer_job list \<Rightarrow> 'srv app \<Rightarrow> UploadJobBatchResult list \<times> UploadBatchItem list" where
  "prepareBatch [] s = ([], [])"
| "prepareBatch (job # jobs) s =
     (case prepareBatch jobs s of (results, items) \<Rightarrow>
      (case prepareUploadItem job s of
         Inr None \<Rightarrow> (\<lparr>jr_job = job, jr_error = []\<rparr> # results, items)
       | Inr (Some item) \<Rightarrow> (\<lparr>jr_job = job, jr_error = []\<rparr> # results, item # items)
       | Inl e \<Rightarrow> (\<lparr>jr_job = job, jr_error = what e\<rparr> # results, items)))"

fun update_first :: "('a \<Rightarrow> bool) \<Rightarrow> ('a \<Rightarrow> 'a) \<Rightarrow> 'a list \<Rightarrow> 'a list" where
  "update_first p f [] = []"
| "update_first p f (x # xs) = (if p x then f x # xs else x # update_first p f xs)"

definition for_upload :: "UploadBatchResult \<Rightarrow> UploadJobBatchResult \<Rightarrow> bool" where
  "for_upload upload r \<longleftrightarrow> job_id (jr_job r) = br_id upload"

text \<open>The last loop: errors go to the results, uploads to the entries.\<close>

fun applyUploads :: "clocks \<Rightarrow> UploadBatchItem list \<Rightarrow> UploadBatchResult list \<Rightarrow> UploadJobBatchResult list \<Rightarrow>
    ('srv, UploadJobBatchResult list) app_act" where
  "applyUploads c items [] results = returnE results"
| "applyUploads c items (upload # us) results =
     (case find (for_upload upload) results of
        None \<Rightarrow> applyUploads c items us results
      | Some result \<Rightarrow>
          (case br_response upload of
             None \<Rightarrow> applyUploads c items us (update_first (for_upload upload)
               (\<lambda>r. r\<lparr>jr_error := (if br_error upload = [] then ''Upload failed'' else br_error upload)\<rparr>) results)
           | Some response \<Rightarrow>
               bindE
                 (case find (\<lambda>item. bi_id item = br_id upload) items of
                    None \<Rightarrow> returnE ()
                  | Some item \<Rightarrow> timed c (\<lambda>now _. onEntries (markEntryUploaded now
                      (job_entryId (jr_job result)) (uf_fileId response) (e_parentFolderId (bi_entry item)))))
                 (\<lambda>_. applyUploads c items us results)))"

definition fail_rest :: "exn \<Rightarrow> UploadJobBatchResult \<Rightarrow> UploadJobBatchResult" where
  "fail_rest e r = (if jr_error r = [] then r\<lparr>jr_error := what e\<rparr> else r)"

definition runBatch ::
    "clocks \<Rightarrow> 'srv upload_service \<Rightarrow> transfer_job list \<Rightarrow> ('srv, UploadJobBatchResult list) app_act" where
  "runBatch c service jobs =
     bindE (getsE (prepareBatch jobs)) (\<lambda>(results, items).
       if items = [] then returnE results
       else
         bindE (catchE (bindE (onServer (us_uploadFilesBatch service items)) (\<lambda>u. returnE (Inr u)))
                  (\<lambda>e. returnE (Inl e)))
           (\<lambda>uploads. case uploads of
              Inl e \<Rightarrow> returnE (map (fail_rest e) results)
            | Inr us \<Rightarrow> applyUploads c items us results))"

section \<open>What a batch does\<close>

lemma leaves_applyUploads [leaves_intros]: "leaves app_queue (applyUploads c items us results)"
  by (induction us arbitrary: results) (auto intro!: leaves_intros split: option.split)

lemma leaves_runBatch [leaves_intros]: "leaves app_queue (runBatch c service jobs)"
  unfolding runBatch_def by (auto intro!: leaves_intros split: sum.split)

lemma keeps_applyUploads [keeps_intros]: "keeps app_inv (applyUploads c items us results)"
  by (induction us arbitrary: results) (auto intro!: keeps_intros split: option.split)

lemma keeps_runBatch [keeps_intros]: "keeps app_inv (runBatch c service jobs)"
  unfolding runBatch_def by (auto intro!: keeps_intros split: sum.split)

text \<open>There is one result for every job, in the order of the jobs.\<close>

lemma prepareBatch_jobs: "map jr_job (fst (prepareBatch jobs s)) = jobs"
  by (induction jobs) (auto split: prod.split sum.split option.split)

lemma update_first_map: "(\<And>x. g (f x) = g x) \<Longrightarrow> map g (update_first p f xs) = map g xs"
  by (induction xs) auto

lemma markEntryUploaded_total:
  assumes "entries_inv t"
  shows "\<exists>t'. markEntryUploaded now entryId remoteId parent t = (Inr (), t')"
proof -
  have "sql_update entries_ok (step_failed ''entries'') (\<lambda>r. r_id r = entryId) (set_uploaded now remoteId parent) t =
      Inr (update_where (\<lambda>r. r_id r = entryId) (set_uploaded now remoteId parent) t)"
    by (rule sql_update_keeping_keys) (use assms in \<open>simp_all add: set_uploaded_def entries_inv_def keys_simps\<close>)
  then show ?thesis by (simp add: markEntryUploaded_def stmtE_def)
qed

lemma uploaded_app:
  assumes "app_inv s"
  shows "\<exists>s'. timed c (\<lambda>now _. onEntries (markEntryUploaded now e r p)) s = (Inr (), s') \<and> app_inv s'"
proof -
  obtain t where t: "markEntryUploaded (clock c (app_tick s)) e r p (app_entries s) = (Inr (), t)"
    using markEntryUploaded_total assms unfolding app_inv_def by blast
  have "keeps app_inv (timed c (\<lambda>now _. onEntries (markEntryUploaded now e r p)))"
    by (intro keeps_intros)
  from keepsD [OF this assms] t show ?thesis by (simp add: timed_def onEntries_def)
qed

lemma applyUploads_total:
  "app_inv s \<Longrightarrow> \<exists>results' s'. applyUploads c items us results s = (Inr results', s') \<and>
     map jr_job results' = map jr_job results"
proof (induction us arbitrary: results s)
  case Nil
  then show ?case by (simp add: act_simps)
next
  case (Cons upload us)
  note IH = Cons.IH [OF Cons.prems]
  show ?case
  proof (cases "find (for_upload upload) results")
    case None
    then show ?thesis using IH [of results] by simp
  next
    case (Some result)
    show ?thesis
    proof (cases "br_response upload")
      case None
      then show ?thesis
        using Some IH [of "update_first (for_upload upload)
          (\<lambda>r. r\<lparr>jr_error := (if br_error upload = [] then ''Upload failed'' else br_error upload)\<rparr>) results"]
        by (simp add: update_first_map)
    next
      case response: (Some response)
      show ?thesis
      proof (cases "find (\<lambda>item. bi_id item = br_id upload) items")
        case None
        then show ?thesis using Some response IH [of results] by simp
      next
        case item: (Some item)
        obtain s1 where "timed c (\<lambda>now _. onEntries (markEntryUploaded now (job_entryId (jr_job result))
            (uf_fileId response) (e_parentFolderId (bi_entry item)))) s = (Inr (), s1)" "app_inv s1"
          using uploaded_app [OF Cons.prems] by blast
        then show ?thesis
          using Some response item Cons.IH [of s1 results] by (simp add: bindE_def)
      qed
    qed
  qed
qed

text \<open>A batch never throws; it returns one result for every job, in order.\<close>

lemma runBatch_total:
  assumes "app_inv s"
  shows "\<exists>results s'. runBatch c service jobs s = (Inr results, s') \<and> map jr_job results = jobs"
proof -
  obtain results items where b: "prepareBatch jobs s = (results, items)" by (cases "prepareBatch jobs s")
  then have jobs: "map jr_job results = jobs" using prepareBatch_jobs [of jobs s] by simp
  show ?thesis
  proof (cases "items = []")
    case True
    then show ?thesis using b jobs by (simp add: runBatch_def act_simps)
  next
    case False
    obtain x srv where x: "us_uploadFilesBatch service items (app_server s) = (x, srv)"
      by (cases "us_uploadFilesBatch service items (app_server s)")
    have inv: "app_inv (s\<lparr>app_server := srv\<rparr>)" using assms by (simp add: app_inv_def)
    have fail: "map jr_job (map (fail_rest e) results) = jobs" for e
      using jobs by (simp add: fail_rest_def o_def if_distrib cong: if_cong)
    show ?thesis
      using b False x fail applyUploads_total [OF inv, of c items _ results] jobs
      by (cases x) (simp_all add: runBatch_def act_simps onServer_def)
  qed
qed

end
