(* ===== verification/Queue_Service.thy ===== *)
theory Queue_Service
  imports Folder_Worker Upload_Jobs
begin

text \<open>
  \<open>QueueService\<close> (service/QueueService.cpp): it turns the decision to upload into queued jobs,
  page by page, and runs the queue: all folder jobs one by one, then the uploads in batches.
  Both workers may be absent.
\<close>

section \<open>Filling the queue\<close>

definition kQueueBuildPageSize :: int where
  "kQueueBuildPageSize = 500"

definition kUploadBatchSize :: nat where
  "kUploadBatchSize = 100"

definition resolveRemoteFolderId :: "entries_table \<Rightarrow> SyncRoot \<Rightarrow> Entry \<Rightarrow> string option result" where
  "resolveRemoteFolderId entries root entry =
     (let parentPath = parent_path (e_relativePath entry) in
      if parentPath = [] then Inr (if root_folderId root \<noteq> [] then Some (root_folderId root) else None)
      else bindR (findEntryByPath (root_Id root) parentPath entries) (\<lambda>parentEntry.
        Inr (case parentEntry of None \<Rightarrow> None | Some p \<Rightarrow> e_remoteId p)))"

definition enqueueEntry :: "clocks \<Rightarrow> SyncRoot \<Rightarrow> Entry \<Rightarrow> ('srv, unit) app_act" where
  "enqueueEntry c root entry =
     (if decide (classify entry) (root_mode root) \<noteq> Upload then returnE ()
      else bindE (liftE (\<lambda>s. resolveRemoteFolderId (app_entries s) root entry)) (\<lambda>remoteFolderId.
        if \<not> (remoteFolderId = None \<and> root_folderId root \<noteq> [] \<and> parent_path (e_relativePath entry) = []) \<and>
           remoteFolderId = None \<and> parent_path (e_relativePath entry) \<noteq> []
        then returnE ()
        else if e_isDirectory entry then
          bindE (getsE (\<lambda>s. e_remoteId entry \<noteq> None \<or> hasActiveCreateFolderForEntry (e_id entry) (app_queue s))) (\<lambda>skip.
          if skip then returnE ()
          else timed c (\<lambda>now newId. onQueue (\<lambda>t. (Inr (),
                 enqueueCreateFolder now newId (e_id entry) (e_relativePath entry) remoteFolderId t))))
        else
          bindE (getsE (\<lambda>s. hasActiveUploadFileForEntry (e_id entry) (app_queue s))) (\<lambda>active.
          case e_size entry of
            None \<Rightarrow> returnE ()
          | Some n \<Rightarrow>
              if active \<or> n < 0 then returnE ()
              else timed c (\<lambda>now newId. onQueue (\<lambda>t. (Inr (),
                 enqueueUploadFile now newId (e_id entry) (e_relativePath entry) remoteFolderId
                   (word_of_int n) t))))))"

definition enqueueEntryByPath :: "clocks \<Rightarrow> string \<Rightarrow> string \<Rightarrow> ('srv, unit) app_act" where
  "enqueueEntryByPath c syncRootId relativePath =
     bindE (liftE (\<lambda>s. findSyncRootById syncRootId (app_roots s))) (\<lambda>syncRoot. case syncRoot of
       None \<Rightarrow> returnE ()
     | Some root \<Rightarrow>
         bindE (liftE (\<lambda>s. findEntryByPath syncRootId relativePath (app_entries s))) (\<lambda>found. case found of
           None \<Rightarrow> returnE ()
         | Some entry \<Rightarrow> enqueueEntry c root entry))"

record QueueBuildPage =
  qp_nextPath :: "string option"
  qp_complete :: bool

definition buildPage ::
    "clocks \<Rightarrow> 'srv folder_env option \<Rightarrow> string \<Rightarrow> string option \<Rightarrow> bool \<Rightarrow> ('srv, QueueBuildPage) app_act" where
  "buildPage c worker syncRootId afterPath scanComplete =
     bindE (case worker of None \<Rightarrow> returnE False | Some env \<Rightarrow> ensureRootFolder env syncRootId) (\<lambda>_.
     bindE (liftE (\<lambda>s. findSyncRootById syncRootId (app_roots s))) (\<lambda>syncRoot. case syncRoot of
       None \<Rightarrow> returnE \<lparr>qp_nextPath = None, qp_complete = True\<rparr>
     | Some root \<Rightarrow>
         bindE (liftE (\<lambda>s. listEntriesBySyncRootIdAfterPath syncRootId afterPath kQueueBuildPageSize
                  (app_entries s))) (\<lambda>entries.
         bindE (forE entries (enqueueEntry c root)) (\<lambda>_.
           returnE (if entries = [] then \<lparr>qp_nextPath = None, qp_complete = scanComplete\<rparr>
             else \<lparr>qp_nextPath = Some (e_relativePath (last entries)),
                   qp_complete = (scanComplete \<and> int (length entries) < kQueueBuildPageSize)\<rparr>)))))"

text \<open>The loop of \<open>build\<close>; \<open>None\<close> stands for a loop that is still running when the fuel is used up.\<close>

fun buildLoop ::
    "nat \<Rightarrow> clocks \<Rightarrow> 'srv folder_env option \<Rightarrow> string \<Rightarrow> string option \<Rightarrow> ('srv, unit option) app_act" where
  "buildLoop 0 c worker syncRootId afterPath = returnE None"
| "buildLoop (Suc fuel) c worker syncRootId afterPath =
     bindE (buildPage c worker syncRootId afterPath True) (\<lambda>page.
       if qp_complete page then returnE (Some ())
       else buildLoop fuel c worker syncRootId (qp_nextPath page))"

section \<open>Running the queue\<close>

definition claimJob :: "clocks \<Rightarrow> string \<Rightarrow> ('srv, transfer_job option) app_act" where
  "claimJob c jobType = timed c (\<lambda>now _. onQueue (claimNextQueuedByType now jobType))"

definition finishJob :: "clocks \<Rightarrow> string \<Rightarrow> ('srv, unit) app_act" where
  "finishJob c jobId = timed c (\<lambda>now _. onQueue (markDone now jobId))"

definition failJob :: "clocks \<Rightarrow> string \<Rightarrow> string \<Rightarrow> ('srv, unit) app_act" where
  "failJob c jobId message = timed c (\<lambda>now _. onQueue (markFailed now jobId message))"

definition handleFolderJob :: "clocks \<Rightarrow> 'srv folder_env \<Rightarrow> transfer_job \<Rightarrow> ('srv, unit) app_act" where
  "handleFolderJob c env job =
     catchE (bindE (runFolderJob env job) (\<lambda>_. finishJob c (job_id job)))
       (\<lambda>e. failJob c (job_id job) (what e))"

definition settleUploads :: "clocks \<Rightarrow> UploadJobBatchResult list \<Rightarrow> ('srv, unit) app_act" where
  "settleUploads c results = forE results (\<lambda>result.
     if jr_error result = [] then finishJob c (job_id (jr_job result))
     else failJob c (job_id (jr_job result)) (jr_error result))"

definition queuedCount :: "queue_table \<Rightarrow> nat" where
  "queuedCount t = length (filter (with_status ''queued'') t)"

text \<open>Claiming takes a queued job away, and nothing else in the loops puts one back.\<close>

lemma queuedCount_update_le:
  "(\<And>r. p r \<Longrightarrow> q_status (f r) \<noteq> ''queued'') \<Longrightarrow> queuedCount (update_where p f t) \<le> queuedCount t"
  by (induction t) (auto simp: queuedCount_def with_status_def le_SucI)

lemma queuedCount_update_less:
  assumes "\<And>r. p r \<Longrightarrow> q_status r = ''queued''" and "\<And>r. p r \<Longrightarrow> q_status (f r) \<noteq> ''queued''"
    and "filter p t \<noteq> []"
  shows "queuedCount (update_where p f t) < queuedCount t"
proof -
  have "length (filter (with_status ''queued'') (update_where p f t)) + length (filter p t) =
      length (filter (with_status ''queued'') t)"
    using assms(1,2) by (induction t) (auto simp: with_status_def)
  moreover have "0 < length (filter p t)" using assms(3) by simp
  ultimately show ?thesis unfolding queuedCount_def by linarith
qed

lemma claim_fewer:
  assumes "claimNextQueuedByType now ty t = (Inr (Some j), t')"
  shows "queuedCount t' < queuedCount t"
proof -
  let ?p = "\<lambda>x. q_id x = job_id j \<and> q_status x = ''queued''"
  let ?f = "\<lambda>x. x\<lparr>q_status := ''running'', q_updated_at := now\<rparr>"
  have "t' = update_where ?p ?f t \<and> sql_changes ?p t = 1"
    using assms
    by (auto simp: claimNextQueuedByType_def transactionE_def sql_update_def Let_def
        split: option.splits sum.splits if_splits)
  moreover have "filter ?p t \<noteq> []" if "sql_changes ?p t = 1" using that by (auto simp: sql_changes_def)
  ultimately show ?thesis
    using queuedCount_update_less [of ?p ?f t] by simp
qed

lemma mark_no_more:
  "queuedCount (snd (markDone now i t)) \<le> queuedCount t"
  "queuedCount (snd (markFailed now i msg t)) \<le> queuedCount t"
  by (auto simp: markDone_def markFailed_def stmtE_def sql_update_def Let_def queuedCount_update_le
      split: sum.splits if_splits)

abbreviation queued :: "'srv app \<Rightarrow> nat" where
  "queued s \<equiv> queuedCount (app_queue s)"

lemma claimJob_fewer: "claimJob c ty s = (Inr (Some j), s') \<Longrightarrow> queued s' < queued s"
  by (auto simp: claimJob_def timed_def onQueue_def split: prod.splits dest: claim_fewer)

lemma claimJob_no_more: "claimJob c ty s = (x, s') \<Longrightarrow> queued s' \<le> queued s"
proof -
  have "queuedCount (snd (claimNextQueuedByType now ty t)) \<le> queuedCount t" for now t
    by (auto simp: claimNextQueuedByType_def transactionE_def sql_update_def Let_def queuedCount_update_le
        split: option.splits sum.splits if_splits prod.splits)
  then show "claimJob c ty s = (x, s') \<Longrightarrow> queued s' \<le> queued s"
    by (auto simp: claimJob_def timed_def onQueue_def split: prod.splits) (metis snd_conv)
qed

lemma marks_no_more: "queued (snd (finishJob c i s)) \<le> queued s" "queued (snd (failJob c i msg s)) \<le> queued s"
  using mark_no_more by (auto simp: finishJob_def failJob_def timed_def onQueue_def split: prod.split)
     (metis snd_conv)+

text \<open>Actions that put no job back.\<close>

definition calm :: "('srv, 'a) app_act \<Rightarrow> bool" where
  "calm m \<longleftrightarrow> (\<forall>s. queued (snd (m s)) \<le> queued s)"

lemma calmD: "calm m \<Longrightarrow> m s = (x, s') \<Longrightarrow> queued s' \<le> queued s"
  by (metis calm_def snd_conv)

lemma calm_leaves: "leaves app_queue m \<Longrightarrow> calm m"
  by (simp add: calm_def leaves_def)

lemma calm_bindE: "calm m \<Longrightarrow> (\<And>x. calm (f x)) \<Longrightarrow> calm (bindE m f)"
  unfolding calm_def bindE_def by (auto split: prod.split sum.split) (metis order_trans snd_conv)+

lemma calm_catchE: "calm m \<Longrightarrow> (\<And>e. calm (h e)) \<Longrightarrow> calm (catchE m h)"
  unfolding calm_def catchE_def by (auto split: prod.split sum.split) (metis order_trans snd_conv)+

lemma calm_forE: "(\<And>x. calm (f x)) \<Longrightarrow> calm (forE xs f)"
  by (induction xs) (auto intro: calm_bindE calm_leaves leaves_intros)

lemma calm_marks: "calm (finishJob c i)" "calm (failJob c i msg)"
  by (simp_all add: calm_def marks_no_more)

lemma calm_claimJob: "calm (claimJob c ty)"
  unfolding calm_def
proof
  fix s :: "'a app"
  obtain x s' where "claimJob c ty s = (x, s')" by (cases "claimJob c ty s")
  with claimJob_no_more [OF this] show "queued (snd (claimJob c ty s)) \<le> queued s" by simp
qed

lemma calm_handleFolderJob: "calm (handleFolderJob c env job)"
  unfolding handleFolderJob_def
  by (intro calm_catchE calm_bindE calm_marks calm_leaves leaves_runFolderJob)

lemma calm_settleUploads: "calm (settleUploads c results)"
  unfolding settleUploads_def by (intro calm_forE) (simp add: calm_marks)

lemma calm_returnE: "calm (returnE x)"
  by (intro calm_leaves leaves_intros)

lemma calm_claimBatch: "calm (claimBatch n (claimJob c ty))"
  by (induction n) (auto intro!: calm_bindE calm_claimJob calm_returnE split: option.split)

lemma claimBatch_fewer:
  assumes run: "claimBatch n (claimJob c ty) s = (Inr (j # js), s')"
  shows "queued s' < queued s"
proof (cases n)
  case 0
  then show ?thesis using run by (simp add: act_simps)
next
  case (Suc m)
  then obtain s1 where "claimJob c ty s = (Inr (Some j), s1)" "claimBatch m (claimJob c ty) s1 = (Inr js, s')"
    using run by (auto simp: act_simps split: prod.splits sum.splits option.splits)
  then show ?thesis using claimJob_fewer calmD [OF calm_claimBatch] by (meson order_le_less_trans)
qed

text \<open>The first loop of \<open>runTick\<close>.\<close>

function runFolderJobs :: "clocks \<Rightarrow> 'srv folder_env \<Rightarrow> ('srv, unit) app_act" where
  "runFolderJobs c env s =
     (case claimJob c ''create_folder'' s of
        (Inl e, s1) \<Rightarrow> (Inl e, s1)
      | (Inr None, s1) \<Rightarrow> (Inr (), s1)
      | (Inr (Some job), s1) \<Rightarrow>
          (case handleFolderJob c env job s1 of
             (Inl e, s2) \<Rightarrow> (Inl e, s2)
           | (Inr _, s2) \<Rightarrow> runFolderJobs c env s2))"
  by pat_completeness auto
termination
  by (relation "measure (\<lambda>(c, env, s). queued s)")
    (auto dest!: claimJob_fewer [OF sym] calmD [OF calm_handleFolderJob, OF sym])

text \<open>The second loop.\<close>

function runUploads :: "clocks \<Rightarrow> 'srv upload_service \<Rightarrow> ('srv, unit) app_act" where
  "runUploads c service s =
     (case claimBatch kUploadBatchSize (claimJob c ''upload_file'') s of
        (Inl e, s1) \<Rightarrow> (Inl e, s1)
      | (Inr [], s1) \<Rightarrow> (Inr (), s1)
      | (Inr (job # jobs), s1) \<Rightarrow>
          (case bindE (runBatch c service (job # jobs)) (settleUploads c) s1 of
             (Inl e, s2) \<Rightarrow> (Inl e, s2)
           | (Inr _, s2) \<Rightarrow> runUploads c service s2))"
  by pat_completeness auto
termination
proof (relation "measure (\<lambda>(c, service, s). queued s)")
  fix c and service :: "'srv upload_service" and s s1 s2 y x1 x2 job jobs z w
  assume run: "(x1, s1) = claimBatch kUploadBatchSize (claimJob c ''upload_file'') s" "x1 = Inr x2" "x2 = job # jobs"
    and rest: "(z, s2) = bindE (runBatch c service (job # jobs)) (settleUploads c) s1"
  have "calm (bindE (runBatch c service (job # jobs)) (settleUploads c))"
    by (intro calm_bindE calm_settleUploads calm_leaves leaves_runBatch)
  from calmD [OF this rest [symmetric]] have "queued s2 \<le> queued s1" .
  moreover have "claimBatch kUploadBatchSize (claimJob c ''upload_file'') s = (Inr (job # jobs), s1)"
    using run by simp
  from claimBatch_fewer [OF this] have "queued s1 < queued s" .
  ultimately show "((c, service, s2), (c, service, s)) \<in> measure (\<lambda>(c, service, s). queued s)" by simp
qed auto

definition runTick ::
    "clocks \<Rightarrow> 'srv folder_env option \<Rightarrow> 'srv upload_service option \<Rightarrow> ('srv, unit) app_act" where
  "runTick c worker service =
     (case worker of
        None \<Rightarrow> returnE ()
      | Some env \<Rightarrow> bindE (runFolderJobs c env) (\<lambda>_. case service of
          None \<Rightarrow> returnE ()
        | Some us \<Rightarrow> runUploads c us))"

section \<open>What running the queue does to its rows\<close>

text \<open>
  A row from before to after: it is the same job, and its status is unchanged unless it was
  claimable, when it may be done or failed.
\<close>

definition settled :: "string \<Rightarrow> queue_row \<Rightarrow> queue_row \<Rightarrow> bool" where
  "settled ty r r' \<longleftrightarrow> q_id r' = q_id r \<and> q_job_type r' = q_job_type r \<and>
     (q_status r' = q_status r \<or> claimable ty r \<and> q_status r' \<in> {''done'', ''failed''})"

lemma settled_refl: "settled ty r r"
  by (simp add: settled_def)

lemma settled_trans: "settled ty a b \<Longrightarrow> settled ty b c \<Longrightarrow> settled ty a c"
  by (auto simp: settled_def claimable_def)

lemma settled_rows_trans:
  "list_all2 (settled ty) t u \<Longrightarrow> list_all2 (settled ty) u v \<Longrightarrow> list_all2 (settled ty) t v"
  using list_all2_trans [of "settled ty" "settled ty" "settled ty" t u v] settled_trans by blast

text \<open>A row operation that ends a job.\<close>

definition ends_job :: "(queue_row \<Rightarrow> queue_row) \<Rightarrow> bool" where
  "ends_job f \<longleftrightarrow> (\<forall>r. q_id (f r) = q_id r \<and> q_job_type (f r) = q_job_type r \<and> q_status (f r) \<in> {''done'', ''failed''})"

lemma finishJob_total:
  assumes "app_inv s"
  shows "\<exists>s' f. finishJob c i s = (Inr (), s') \<and> ends_job f \<and>
    app_queue s' = update_where (\<lambda>r. q_id r = i) f (app_queue s) \<and> app_inv s'"
proof -
  have "keeps app_inv (finishJob c i)" unfolding finishJob_def by (intro keeps_intros)
  note keepsD [OF this assms]
  moreover have "queue_inv (app_queue s)" using assms by (simp add: app_inv_def)
  note markDone_total [OF this, of "clock c (app_tick s)" i]
  moreover have "ends_job (\<lambda>r. r\<lparr>q_status := ''done'', q_bytes_done := the (q_bytes_total r),
      q_error_message := None, q_updated_at := clock c (app_tick s)\<rparr>)" by (simp add: ends_job_def)
  ultimately show ?thesis by (auto simp: finishJob_def timed_def onQueue_def)
qed

lemma failJob_total:
  assumes "app_inv s"
  shows "\<exists>s' f. failJob c i msg s = (Inr (), s') \<and> ends_job f \<and>
    app_queue s' = update_where (\<lambda>r. q_id r = i) f (app_queue s) \<and> app_inv s'"
proof -
  have "keeps app_inv (failJob c i msg)" unfolding failJob_def by (intro keeps_intros)
  note keepsD [OF this assms]
  moreover have "queue_ok (app_queue s)" using assms by (simp add: app_inv_def queue_inv_def)
  note markFailed_total [OF this, of "clock c (app_tick s)" i msg]
  moreover have "ends_job (\<lambda>r. r\<lparr>q_status := ''failed'', q_error_message := Some msg,
      q_updated_at := clock c (app_tick s)\<rparr>)" by (simp add: ends_job_def)
  ultimately show ?thesis by (auto simp: failJob_def timed_def onQueue_def)
qed

lemma handleFolderJob_total:
  assumes "app_inv s"
  shows "\<exists>s' f. handleFolderJob c env job s = (Inr (), s') \<and> ends_job f \<and>
    app_queue s' = update_where (\<lambda>r. q_id r = job_id job) f (app_queue s) \<and> app_inv s'"
proof -
  obtain x s1 where run: "runFolderJob env job s = (x, s1)" by (cases "runFolderJob env job s")
  have inv: "app_inv s1" using keepsD [OF keeps_runFolderJob assms, of env job] run by simp
  have same: "app_queue s1 = app_queue s" using leavesD' [OF leaves_runFolderJob run] .
  show ?thesis
  proof (cases x)
    case (Inl e)
    then show ?thesis
      using run failJob_total [OF inv, of c "job_id job" "what e"] same
      by (auto simp: handleFolderJob_def catchE_def bindE_def)
  next
    case (Inr u)
    then show ?thesis
      using run finishJob_total [OF inv, of c "job_id job"] same
      by (auto simp: handleFolderJob_def catchE_def bindE_def)
  qed
qed

lemma claimJob_cases:
  assumes inv: "app_inv s"
  shows "pendingJobs ty (app_queue s) = [] \<Longrightarrow> \<exists>s'. claimJob c ty s = (Inr None, s') \<and>
      app_queue s' = app_queue s \<and> app_inv s'"
    and "pendingJobs ty (app_queue s) = r # rs \<Longrightarrow> \<exists>s' now. claimJob c ty s = (Inr (Some (claimedJob r)), s') \<and>
      app_queue s' = update_where (\<lambda>x. q_id x = q_id r) (run_row now) (app_queue s) \<and> app_inv s'"
proof -
  have q: "queue_inv (app_queue s)" using inv by (simp add: app_inv_def)
  have "keeps app_inv (claimJob c ty)" unfolding claimJob_def by (intro keeps_intros)
  note keep = keepsD [OF this inv]
  show "\<exists>s'. claimJob c ty s = (Inr None, s') \<and> app_queue s' = app_queue s \<and> app_inv s'"
    if "pendingJobs ty (app_queue s) = []"
    using keep claim_none [OF that] by (simp add: claimJob_def timed_def onQueue_def)
  show "\<exists>s' now. claimJob c ty s = (Inr (Some (claimedJob r)), s') \<and>
      app_queue s' = update_where (\<lambda>x. q_id x = q_id r) (run_row now) (app_queue s) \<and> app_inv s'"
    if "pendingJobs ty (app_queue s) = r # rs"
    using keep claim_row [OF q that] by (auto simp: claimJob_def timed_def onQueue_def)
qed

lemma pendingJobs_head:
  "pendingJobs ty t = r # rs \<Longrightarrow> r \<in> set t \<and> claimable ty r"
  by (metis (mono_tags, lifting) list.set_intros(1) mem_Collect_eq pendingJobs_def set_select_ordered)

text \<open>Claiming a job and ending it settles its row and leaves the others.\<close>

lemma settle_one:
  assumes "queue_inv t" and "pendingJobs ty t = r # rs" and "ends_job f"
  shows "list_all2 (settled ty) t (update_where (\<lambda>x. q_id x = q_id r) f (update_where (\<lambda>x. q_id x = q_id r) (run_row now) t))"
proof -
  have ids: "distinct (map q_id t)" using assms(1) by (rule queue_inv_ids)
  have r: "r \<in> set t" "claimable ty r" using pendingJobs_head [OF assms(2)] by simp_all
  have row: "settled ty x (if q_id x = q_id r then f (run_row now x) else x)" if "x \<in> set t" for x
  proof (cases "q_id x = q_id r")
    case True
    then have "x = r" using that r(1) ids by (simp add: distinct_map inj_on_def)
    then show ?thesis using r(2) assms(3) by (simp add: settled_def ends_job_def run_row_def)
  qed (simp add: settled_refl)
  have "update_where (\<lambda>x. q_id x = q_id r) f (update_where (\<lambda>x. q_id x = q_id r) (run_row now) t) =
      map (\<lambda>x. if q_id x = q_id r then f (run_row now x) else x) t"
    by (simp add: update_where_def run_row_def)
  then show ?thesis using row by (simp add: list_all2_conv_all_nth)
qed

lemma runFolderJobs_settles:
  "app_inv s \<Longrightarrow> \<exists>s'. runFolderJobs c env s = (Inr (), s') \<and> app_inv s' \<and>
     list_all2 (settled ''create_folder'') (app_queue s) (app_queue s') \<and>
     pendingJobs ''create_folder'' (app_queue s') = []"
proof (induction "queued s" arbitrary: s rule: less_induct)
  case less
  show ?case
  proof (cases "pendingJobs ''create_folder'' (app_queue s)")
    case Nil
    from claimJob_cases(1) [OF less.prems Nil, of c] obtain s1 where
      "claimJob c ''create_folder'' s = (Inr None, s1)" "app_queue s1 = app_queue s" "app_inv s1" by blast
    then show ?thesis using Nil by (simp add: list_all2_refl settled_refl)
  next
    case (Cons r rs)
    from claimJob_cases(2) [OF less.prems Cons, of c] obtain s1 now where claim:
      "claimJob c ''create_folder'' s = (Inr (Some (claimedJob r)), s1)"
      "app_queue s1 = update_where (\<lambda>x. q_id x = q_id r) (run_row now) (app_queue s)" "app_inv s1" by blast
    from handleFolderJob_total [OF claim(3), of c env "claimedJob r"] obtain s2 f where handle:
      "handleFolderJob c env (claimedJob r) s1 = (Inr (), s2)" "ends_job f"
      "app_queue s2 = update_where (\<lambda>x. q_id x = job_id (claimedJob r)) f (app_queue s1)" "app_inv s2" by blast
    have q: "queue_inv (app_queue s)" using less.prems by (simp add: app_inv_def)
    have one: "list_all2 (settled ''create_folder'') (app_queue s) (app_queue s2)"
      using settle_one [OF q Cons handle(2), of now] handle(3) claim(2) by (simp add: claimedJob_def)
    have "queued s2 < queued s"
      using claimJob_fewer [OF claim(1)] calmD [OF calm_handleFolderJob handle(1)] by simp
    from less.hyps [OF this handle(4)] obtain s' where
      "runFolderJobs c env s2 = (Inr (), s')" "app_inv s'"
      "list_all2 (settled ''create_folder'') (app_queue s2) (app_queue s')"
      "pendingJobs ''create_folder'' (app_queue s') = []" by blast
    then show ?thesis using claim(1) handle(1) settled_rows_trans [OF one] by simp
  qed
qed

text \<open>A batch of claims, and the end of a batch of jobs.\<close>

definition claims_rel :: "string set \<Rightarrow> queue_row \<Rightarrow> queue_row \<Rightarrow> bool" where
  "claims_rel I r r' \<longleftrightarrow> q_id r' = q_id r \<and> q_job_type r' = q_job_type r \<and>
     q_status r' = (if q_id r \<in> I then ''running'' else q_status r)"

definition ends_rel :: "string set \<Rightarrow> queue_row \<Rightarrow> queue_row \<Rightarrow> bool" where
  "ends_rel I r r' \<longleftrightarrow> q_id r' = q_id r \<and> q_job_type r' = q_job_type r \<and>
     (if q_id r \<in> I then q_status r' \<in> {''done'', ''failed''} else q_status r' = q_status r)"

lemma rel_update_where: "(\<And>r. R r (if p r then f r else r)) \<Longrightarrow> list_all2 R t (update_where p f t)"
  by (simp add: update_where_def list_all2_conv_all_nth)

lemma claimBatch_rows:
  "app_inv s \<Longrightarrow> \<exists>s'. claimBatch n (claimJob c ty) s =
       (Inr (map claimedJob (take n (pendingJobs ty (app_queue s)))), s') \<and> app_inv s' \<and>
     list_all2 (claims_rel (q_id ` set (take n (pendingJobs ty (app_queue s))))) (app_queue s) (app_queue s')"
proof (induction n arbitrary: s)
  case 0
  then show ?case by (simp add: act_simps list_all2_refl claims_rel_def)
next
  case (Suc n)
  have q: "queue_inv (app_queue s)" using Suc.prems by (simp add: app_inv_def)
  show ?case
  proof (cases "pendingJobs ty (app_queue s)")
    case Nil
    from claimJob_cases(1) [OF Suc.prems Nil, of c] show ?thesis
      using Nil by (auto simp: act_simps list_all2_refl claims_rel_def)
  next
    case (Cons r rs)
    from claimJob_cases(2) [OF Suc.prems Cons, of c] obtain s1 now where claim:
      "claimJob c ty s = (Inr (Some (claimedJob r)), s1)"
      "app_queue s1 = update_where (\<lambda>x. q_id x = q_id r) (run_row now) (app_queue s)" "app_inv s1" by blast
    have rest: "pendingJobs ty (app_queue s1) = rs"
      using pending_after_claim [OF q Cons] claim(2) by simp
    from Suc.IH [OF claim(3), unfolded rest] obtain s2 where more:
      "claimBatch n (claimJob c ty) s1 = (Inr (map claimedJob (take n rs)), s2)" "app_inv s2"
      "list_all2 (claims_rel (q_id ` set (take n rs))) (app_queue s1) (app_queue s2)" by blast
    have "list_all2 (claims_rel {q_id r}) (app_queue s) (app_queue s1)"
      unfolding claim(2) by (rule rel_update_where) (simp add: claims_rel_def run_row_def)
    then have "list_all2 (claims_rel (q_id ` set (r # take n rs))) (app_queue s) (app_queue s2)"
      using more(3)
      by (rule list_all2_trans [rotated]) (auto simp: claims_rel_def)
    then show ?thesis using Cons claim(1) more by (simp add: act_simps)
  qed
qed

lemma settleUploads_rows:
  "app_inv s \<Longrightarrow> \<exists>s'. settleUploads c results s = (Inr (), s') \<and> app_inv s' \<and>
     list_all2 (ends_rel ((job_id \<circ> jr_job) ` set results)) (app_queue s) (app_queue s')"
proof (induction results arbitrary: s)
  case Nil
  then show ?case by (simp add: settleUploads_def act_simps list_all2_refl ends_rel_def)
next
  case (Cons x xs)
  let ?i = "job_id (jr_job x)"
  have "\<exists>s1 f. (if jr_error x = [] then finishJob c ?i else failJob c ?i (jr_error x)) s = (Inr (), s1) \<and>
      ends_job f \<and> app_queue s1 = update_where (\<lambda>r. q_id r = ?i) f (app_queue s) \<and> app_inv s1"
    using finishJob_total [OF Cons.prems, of c ?i] failJob_total [OF Cons.prems, of c ?i "jr_error x"] by simp
  then obtain s1 f where one: "(if jr_error x = [] then finishJob c ?i else failJob c ?i (jr_error x)) s = (Inr (), s1)"
    "ends_job f" "app_queue s1 = update_where (\<lambda>r. q_id r = ?i) f (app_queue s)" "app_inv s1" by blast
  from Cons.IH [OF one(4)] obtain s2 where more: "settleUploads c xs s1 = (Inr (), s2)" "app_inv s2"
    "list_all2 (ends_rel ((job_id \<circ> jr_job) ` set xs)) (app_queue s1) (app_queue s2)" by blast
  have "list_all2 (ends_rel {?i}) (app_queue s) (app_queue s1)"
    unfolding one(3) by (rule rel_update_where) (use one(2) in \<open>auto simp: ends_rel_def ends_job_def\<close>)
  then have "list_all2 (ends_rel ((job_id \<circ> jr_job) ` set (x # xs))) (app_queue s) (app_queue s2)"
    using more(3) by (rule list_all2_trans [rotated]) (auto simp: ends_rel_def split: if_splits)
  then show ?case using one(1) more(1,2) by (simp add: settleUploads_def bindE_def)
qed

text \<open>Claiming a batch and ending all its jobs settles their rows.\<close>

lemma settle_batch:
  assumes inv: "queue_inv t" and claimed: "list_all2 (claims_rel (q_id ` set (take n (pendingJobs ty t)))) t u"
    and ended: "list_all2 (ends_rel (q_id ` set (take n (pendingJobs ty t)))) u v"
  shows "list_all2 (settled ty) t v"
proof -
  let ?I = "q_id ` set (take n (pendingJobs ty t))"
  have mem: "claimable ty r" if "r \<in> set t" "q_id r \<in> ?I" for r
  proof -
    from that(2) obtain x where "x \<in> set (pendingJobs ty t)" "q_id x = q_id r" by (auto dest: in_set_takeD)
    then have "x \<in> set t" "claimable ty x" by (simp_all add: pendingJobs_def)
    moreover from this have "x = r"
      using that(1) queue_inv_ids [OF inv] \<open>q_id x = q_id r\<close> by (simp add: distinct_map inj_on_def)
    ultimately show ?thesis by simp
  qed
  have len: "length u = length t" "length v = length u" using claimed ended by (simp_all add: list_all2_lengthD)
  have "settled ty (t ! k) (v ! k)" if "k < length t" for k
    using list_all2_nthD [OF claimed that] list_all2_nthD [OF ended, of k] that len mem [of "t ! k"]
    by (auto simp: claims_rel_def ends_rel_def settled_def split: if_splits)
  then show ?thesis using len by (simp add: list_all2_conv_all_nth)
qed

lemma claimBatch_idle:
  assumes "app_inv s" and "pendingJobs ty (app_queue s) = []" and "claimBatch n (claimJob c ty) s = (x, s')"
  shows "app_queue s' = app_queue s"
  using assms(3) claimJob_cases(1) [OF assms(1,2), of c] by (cases n) (auto simp: act_simps)

lemma runUploads_settles:
  "app_inv s \<Longrightarrow> \<exists>s'. runUploads c service s = (Inr (), s') \<and> app_inv s' \<and>
     list_all2 (settled ''upload_file'') (app_queue s) (app_queue s') \<and>
     pendingJobs ''upload_file'' (app_queue s') = []"
proof (induction "queued s" arbitrary: s rule: less_induct)
  case less
  let ?P = "pendingJobs ''upload_file'' (app_queue s)"
  have q: "queue_inv (app_queue s)" using less.prems by (simp add: app_inv_def)
  obtain s1 where claim: "claimBatch kUploadBatchSize (claimJob c ''upload_file'') s =
      (Inr (map claimedJob (take kUploadBatchSize ?P)), s1)" "app_inv s1"
    "list_all2 (claims_rel (q_id ` set (take kUploadBatchSize ?P))) (app_queue s) (app_queue s1)"
    using claimBatch_rows [OF less.prems, of kUploadBatchSize c "''upload_file''"] by blast
  show ?case
  proof (cases "?P")
    case Nil
    from claimBatch_idle [OF less.prems Nil claim(1)]
    have "app_queue s1 = app_queue s" .
    then show ?thesis using claim Nil by (simp add: list_all2_refl settled_refl)
  next
    case (Cons r rs)
    then obtain js where js: "map claimedJob (take kUploadBatchSize ?P) = claimedJob r # js"
      by (simp add: kUploadBatchSize_def)
    obtain results s2 where batch: "runBatch c service (claimedJob r # js) s1 = (Inr results, s2)"
      "map jr_job results = claimedJob r # js" using runBatch_total [OF claim(2)] by blast
    have inv2: "app_inv s2" using keepsD [OF keeps_runBatch claim(2), of c service "claimedJob r # js"] batch by simp
    obtain s3 where settle: "settleUploads c results s2 = (Inr (), s3)" "app_inv s3"
      "list_all2 (ends_rel ((job_id \<circ> jr_job) ` set results)) (app_queue s2) (app_queue s3)"
      using settleUploads_rows [OF inv2] by blast
    have "(job_id \<circ> jr_job) ` set results = job_id ` set (map claimedJob (take kUploadBatchSize ?P))"
      using batch(2) js by (metis image_comp list.set_map)
    also have "\<dots> = q_id ` set (take kUploadBatchSize ?P)" by (simp add: image_image claimedJob_def)
    finally have one: "list_all2 (settled ''upload_file'') (app_queue s) (app_queue s3)"
      using settle_batch [OF q claim(3)] settle(3) leavesD' [OF leaves_runBatch batch(1)] by simp
    have tail: "bindE (runBatch c service (claimedJob r # js)) (settleUploads c) s1 = (Inr (), s3)"
      using batch(1) settle(1) by (simp add: bindE_def)
    have "queued s3 < queued s"
    proof -
      have "queued s1 < queued s" using claim(1) unfolding js by (rule claimBatch_fewer)
      moreover have "queued s3 \<le> queued s2" using calmD [OF calm_settleUploads settle(1)] .
      ultimately show ?thesis using leavesD' [OF leaves_runBatch batch(1)] by simp
    qed
    from less.hyps [OF this settle(2)] obtain s' where
      "runUploads c service s3 = (Inr (), s')" "app_inv s'"
      "list_all2 (settled ''upload_file'') (app_queue s3) (app_queue s')"
      "pendingJobs ''upload_file'' (app_queue s') = []" by blast
    then show ?thesis using claim(1) js tail settled_rows_trans [OF one] by simp
  qed
qed

section \<open>What filling the queue does\<close>

lemma leaves_enqueueEntry [leaves_intros]:
  "leaves app_entries (enqueueEntry c root entry)" "leaves app_roots (enqueueEntry c root entry)"
  unfolding enqueueEntry_def by (auto intro!: leaves_intros split: option.split)

lemma keeps_enqueueEntry [keeps_intros]: "keeps app_inv (enqueueEntry c root entry)"
  unfolding enqueueEntry_def
  by (auto intro!: keeps_intros split: option.split) (auto simp: keeps_def)

text \<open>The job an entry asks for, given the remote folder of its parent.\<close>

definition wantedJob :: "SyncRoot \<Rightarrow> Entry \<Rightarrow> string option \<Rightarrow> string option" where
  "wantedJob root entry remoteFolderId =
     (if decide (classify entry) (root_mode root) \<noteq> Upload \<or>
         remoteFolderId = None \<and> parent_path (e_relativePath entry) \<noteq> [] then None
      else if e_isDirectory entry then (if e_remoteId entry = None then Some ''create_folder'' else None)
      else (case e_size entry of None \<Rightarrow> None | Some n \<Rightarrow> if n < 0 then None else Some ''upload_file''))"

lemma hasActive_snoc:
  "hasActiveJobForEntry e ty (t @ [r]) \<longleftrightarrow> hasActiveJobForEntry e ty t \<or>
     q_entry_id r = Some e \<and> q_job_type r = ty \<and> active_status (q_status r)"
  by (auto simp: hasActiveJobForEntry_def)

lemma enqueue_active:
  assumes "queue_inv t" and "newId \<notin> q_id ` set t"
  shows "hasActiveJobForEntry e ty (enqueueCreateFolder now newId i p f t) \<longleftrightarrow>
      hasActiveJobForEntry e ty t \<or> e = i \<and> ty = ''create_folder''"
    and "hasActiveJobForEntry e ty (enqueueUploadFile now newId i p f n t) \<longleftrightarrow>
      hasActiveJobForEntry e ty t \<or> e = i \<and> ty = ''upload_file''"
proof -
  have ok: "queue_ok t" using assms(1) by (simp add: queue_inv_def)
  have ins: "hasActiveJobForEntry e ty (sql_insert_or_ignore queue_ok r t) \<longleftrightarrow>
      hasActiveJobForEntry e ty t \<or> e = i \<and> ty = q_job_type r"
    if r: "q_status r = ''queued''" "q_entry_id r = Some i" "q_id r = newId" for r
    using queue_ok_snoc [OF ok r(1,2)] assms(2) r
    by (auto simp: sql_insert_or_ignore_def hasActive_snoc active_status_def)
  show "hasActiveJobForEntry e ty (enqueueCreateFolder now newId i p f t) \<longleftrightarrow>
      hasActiveJobForEntry e ty t \<or> e = i \<and> ty = ''create_folder''"
    unfolding enqueueCreateFolder_def by (subst ins) simp_all
  show "hasActiveJobForEntry e ty (enqueueUploadFile now newId i p f n t) \<longleftrightarrow>
      hasActiveJobForEntry e ty t \<or> e = i \<and> ty = ''upload_file''"
    unfolding enqueueUploadFile_def by (subst ins) simp_all
qed

lemma forE_append: "forE (xs @ ys) f = bindE (forE xs f) (\<lambda>_. forE ys f)"
  by (induction xs) (auto simp: fun_eq_iff act_simps split: prod.split sum.split)

text \<open>One page, when the root has its folder or no worker is there to create it.\<close>

definition folder_settled :: "'srv folder_env option \<Rightarrow> SyncRoot \<Rightarrow> bool" where
  "folder_settled worker root \<longleftrightarrow> worker = None \<or> root_folderId root \<noteq> []"

lemma buildPage_settled:
  assumes inv: "app_inv s" and found: "findSyncRootById i (app_roots s) = Inr (Some root)"
    and folder: "folder_settled worker root" and rows: "rootRows i (app_entries s) = xs @ ys"
  shows "buildPage c worker i (cursor r_local_path xs) True s =
    bindE (forE (map entryOf (take 500 ys)) (enqueueEntry c root)) (\<lambda>_.
      returnE (if ys = [] then \<lparr>qp_nextPath = None, qp_complete = True\<rparr>
        else \<lparr>qp_nextPath = cursor r_local_path (xs @ take 500 ys), qp_complete = (length ys < 500)\<rparr>)) s"
proof -
  have ent: "entries_inv (app_entries s)" using inv by (simp add: app_inv_def)
  have "rowsAfterPath i (cursor r_local_path xs) (nat 500) (app_entries s) = take 500 ys"
    using root_pages.page_after_prefix [OF ent rows, of 500] by simp
  moreover have "\<forall>r\<in>set (take 500 ys). readable_row r"
    using ent rows entries_inv_row [OF ent] set_select_ordered [of r_local_path "\<lambda>r. r_sync_root_id r = i" "app_entries s"]
    by (metis (no_types, lifting) Un_iff in_set_takeD mem_Collect_eq rootRows_def set_append)
  ultimately have list: "listEntriesBySyncRootIdAfterPath i (cursor r_local_path xs) kQueueBuildPageSize (app_entries s) =
      Inr (map entryOf (take 500 ys))"
    by (simp add: listEntriesBySyncRootIdAfterPath_def kQueueBuildPageSize_def readEntries_readable)
  have ensured: "(case worker of None \<Rightarrow> returnE False | Some env \<Rightarrow> ensureRootFolder env i) s = (Inr False, s)"
    using folder ensureRootFolder_done [OF found] by (cases worker) (auto simp: folder_settled_def returnE_def)
  have "int (length (take 500 ys)) < 500 \<longleftrightarrow> length ys < 500" by (simp add: min_def)
  moreover have "e_relativePath (last (map entryOf (take 500 ys))) = r_local_path (last (take 500 ys))" if "ys \<noteq> []"
    using that by (simp add: last_map)
  ultimately show ?thesis
    using found list
    by (auto simp: buildPage_def ensured bindE_def liftE_def kQueueBuildPageSize_def cursor_def returnE_def
        split: prod.split sum.split)
qed

lemma buildLoop_from:
  assumes "app_inv s" and "findSyncRootById i (app_roots s) = Inr (Some root)"
    and "folder_settled worker root" and "rootRows i (app_entries s) = xs @ ys" and "length ys < fuel"
  shows "buildLoop fuel c worker i (cursor r_local_path xs) s =
    bindE (forE (map entryOf ys) (enqueueEntry c root)) (\<lambda>_. returnE (Some ())) s"
  using assms
proof (induction fuel arbitrary: s xs ys)
  case (Suc fuel)
  let ?page = "forE (map entryOf (take 500 ys)) (enqueueEntry c root)"
  note page = buildPage_settled [OF Suc.prems(1-4), of c]
  show ?case
  proof (cases "length ys < 500")
    case True
    then show ?thesis using page by (cases "ys = []") (auto simp: bindE_def returnE_def split: prod.split sum.split)
  next
    case False
    then have "ys \<noteq> []" by auto
    obtain x s1 where run: "?page s = (x, s1)" by (cases "?page s")
    have "leaves app_entries ?page" "leaves app_roots ?page" "keeps app_inv ?page"
      by (auto intro!: leaves_intros keeps_intros)
    then have keep: "app_entries s1 = app_entries s" "app_roots s1 = app_roots s" "app_inv s1"
      using run Suc.prems(1) unfolding leaves_def keeps_def by (metis snd_conv)+
    have rest: "buildLoop fuel c worker i (cursor r_local_path (xs @ take 500 ys)) s1 =
        bindE (forE (map entryOf (drop 500 ys)) (enqueueEntry c root)) (\<lambda>_. returnE (Some ())) s1"
    proof (rule Suc.IH [OF keep(3)])
      show "length (drop 500 ys) < fuel" using Suc.prems(5) \<open>ys \<noteq> []\<close> by (cases ys) auto
    qed (use keep Suc.prems in simp_all)
    have both: "forE (map entryOf ys) (enqueueEntry c root) =
        bindE ?page (\<lambda>_. forE (map entryOf (drop 500 ys)) (enqueueEntry c root))"
      by (metis append_take_drop_id forE_append map_append)
    show ?thesis
      unfolding both using page run rest False \<open>ys \<noteq> []\<close>
      by (cases x) (auto simp: bindE_def returnE_def split: prod.split sum.split)
  qed
qed simp

section \<open>Properties\<close>


definition tick_app :: "string app" where
  "tick_app = sample_app\<lparr>app_queue := demoQueue\<rparr>"

definition no_uploads :: "string upload_service" where
  "no_uploads = \<lparr>us_uploadFile = \<lambda>_ _. throwE (Runtime_error ''offline''),
     us_uploadFilesBatch = \<lambda>_. throwE (Runtime_error ''offline'')\<rparr>"


text \<open>
  C17. What filling the queue for one entry does: the entry gets an active job exactly when the
  policy decides to upload it, its parent folder is known to the server, and it is a folder
  without a remote identifier or a file of known size. Entries that had an active job keep it
  and get no second one, and no other entry is touched.
\<close>

theorem enqueue_entry_exactly_uploads:
  assumes inv: "app_inv s" and fresh: "uuid c (app_tick s) \<notin> q_id ` set (app_queue s)"
    and parent: "resolveRemoteFolderId (app_entries s) root entry = Inr remoteFolderId"
  shows "\<exists>s'. enqueueEntry c root entry s = (Inr (), s') \<and> app_inv s' \<and> app_entries s' = app_entries s \<and>
    (\<forall>e ty. hasActiveJobForEntry e ty (app_queue s') \<longleftrightarrow> hasActiveJobForEntry e ty (app_queue s) \<or>
       e = e_id entry \<and> wantedJob root entry remoteFolderId = Some ty)"
proof -
  have q: "queue_inv (app_queue s)" using inv by (simp add: app_inv_def)
  have "\<exists>s'. enqueueEntry c root entry s = (Inr (), s') \<and>
    (\<forall>e ty. hasActiveJobForEntry e ty (app_queue s') \<longleftrightarrow> hasActiveJobForEntry e ty (app_queue s) \<or>
       e = e_id entry \<and> wantedJob root entry remoteFolderId = Some ty)"
  proof (cases "decide (classify entry) (root_mode root) \<noteq> Upload \<or>
      remoteFolderId = None \<and> parent_path (e_relativePath entry) \<noteq> []")
    case True
    then show ?thesis using parent by (auto simp: enqueueEntry_def wantedJob_def act_simps)
  next
    case False
    show ?thesis
    proof (cases "e_isDirectory entry")
      case True
      then show ?thesis
        using False parent enqueue_active(1) [OF q fresh]
        by (auto simp: enqueueEntry_def wantedJob_def act_simps timed_def onQueue_def hasActiveCreateFolderForEntry_def)
    next
      case False': False
      then show ?thesis
        using False parent enqueue_active(2) [OF q fresh]
        by (cases "e_size entry") (auto simp: enqueueEntry_def wantedJob_def act_simps timed_def onQueue_def
            hasActiveUploadFileForEntry_def)
    qed
  qed
  then obtain s' where run: "enqueueEntry c root entry s = (Inr (), s')"
    "\<forall>e ty. hasActiveJobForEntry e ty (app_queue s') \<longleftrightarrow> hasActiveJobForEntry e ty (app_queue s) \<or>
       e = e_id entry \<and> wantedJob root entry remoteFolderId = Some ty" by blast
  moreover have "app_inv s'" using keepsD [OF keeps_enqueueEntry inv, of c root entry] run(1) by simp
  moreover have "app_entries s' = app_entries s" using leavesD' [OF leaves_enqueueEntry(1) run(1)] .
  ultimately show ?thesis by blast
qed

definition new_file :: Entry where
  "new_file = entryOf (insert_file ''t'' ''e9'' \<lparr>fu_syncRootId = ''s1'', fu_relativePath = ''x'', fu_size = 3,
     fu_mtime = 0, fu_contentHash = ''h'', fu_syncState = PendingUpload, fu_lastSeenScanId = ''k''\<rparr>)"

theorem enqueue_entry_exactly_uploads_witness:
  "\<exists>s'. enqueueEntry \<lparr>clock = \<lambda>_. ''now'', uuid = \<lambda>_. ''u''\<rparr> (demoRoot\<lparr>root_mode := TwoWay\<rparr>) new_file tick_app = (Inr (), s') \<and>
     hasActiveJobForEntry ''e9'' ''upload_file'' (app_queue s') \<and> hasActiveJobForEntry ''e1'' ''upload_file'' (app_queue s') \<and>
     \<not> hasActiveJobForEntry ''e9'' ''create_folder'' (app_queue s')"
proof -
  let ?root = "demoRoot\<lparr>root_mode := TwoWay\<rparr>" and ?c = "\<lparr>clock = \<lambda>_. ''now'', uuid = \<lambda>_. ''u''\<rparr>"
  have "queue_inv demoQueue" using queue_runs.invar_reachable [OF refl demoQueue_reachable] .
  then have inv: "app_inv tick_app" using sample_app_inv by (simp add: tick_app_def app_inv_def)
  have fresh: "uuid ?c (app_tick tick_app) \<notin> q_id ` set (app_queue tick_app)" by code_simp
  have parent: "resolveRemoteFolderId (app_entries tick_app) ?root new_file = Inr (Some ''f'')" by code_simp
  have w: "wantedJob ?root new_file (Some ''f'') = Some ''upload_file''" "e_id new_file = ''e9''"
    "hasActiveJobForEntry ''e1'' ''upload_file'' (app_queue tick_app)"
    "\<not> hasActiveJobForEntry ''e9'' ''create_folder'' (app_queue tick_app)" by code_simp+
  from enqueue_entry_exactly_uploads [OF inv fresh parent] w show ?thesis by auto
qed

text \<open>
  C10. Filling the queue page by page is the same as one pass over all entries of the root in
  path order: the loop of \<open>build\<close> ends, whatever the number of entries, and leaves exactly the
  state of the single pass, or its exception.
\<close>

theorem build_is_one_pass:
  assumes "app_inv s" and "findSyncRootById i (app_roots s) = Inr (Some root)"
    and "folder_settled worker root" and "length (app_entries s) < fuel"
  shows "buildLoop fuel c worker i None s =
    bindE (forE (map entryOf (rootRows i (app_entries s))) (enqueueEntry c root)) (\<lambda>_. returnE (Some ())) s"
proof -
  have "length (rootRows i (app_entries s)) \<le> length (app_entries s)"
    by (simp add: rootRows_def select_ordered_def)
  then show ?thesis
    using buildLoop_from [OF assms(1-3), of "[]" "rootRows i (app_entries s)" fuel c] assms(4)
    by (simp add: cursor_def)
qed

theorem build_is_one_pass_witness:
  "let s = sample_app\<lparr>app_entries := demoEntries, app_roots := [new_root ''t'' demoRoot]\<rparr>;
       c = \<lparr>clock = \<lambda>_. ''now'', uuid = \<lambda>_. ''u''\<rparr> in
   buildLoop (Suc (length demoEntries)) c None ''s1'' None s =
     bindE (forE (map entryOf (rootRows ''s1'' demoEntries)) (enqueueEntry c (demoRoot\<lparr>root_createdAt := ''t''\<rparr>))) (\<lambda>_. returnE (Some ())) s"
proof -
  let ?s = "sample_app\<lparr>app_entries := demoEntries, app_roots := [new_root ''t'' demoRoot]\<rparr>"
  have "roots_inv [new_root ''t'' demoRoot]" by code_simp
  then have inv: "app_inv ?s" using sample_app_inv demoEntries_inv by (simp add: app_inv_def)
  have found: "findSyncRootById ''s1'' (app_roots ?s) = Inr (Some (demoRoot\<lparr>root_createdAt := ''t''\<rparr>))" by code_simp
  have "folder_settled None (demoRoot\<lparr>root_createdAt := ''t''\<rparr>)" by (simp add: folder_settled_def)
  from build_is_one_pass [OF inv found this, of "Suc (length demoEntries)"] show ?thesis by (simp add: Let_def)
qed

end
