(* ===== verification/Download.thy ===== *)
theory Download
  imports Upload_Finalizer
begin

text \<open>
  Downloading a file: decrypting its record (download/DownloadRecordDecryptor.cpp), fetching and
  decrypting chunk after chunk (download/DownloadService.cpp) and writing them through a
  temporary file that replaces the target in the end
  (platform/linux/filewriter/LinuxAtomicFileWriter.cpp). The server's record, the HTTP range
  request, the vault's master key and the cryptographic library are parameters; so are
  failures of these. Failures of the local file system are not modelled here, except that
  \<open>posix_fallocate\<close> refuses a length that is not positive; File_Writers has them.
\<close>

section \<open>The atomic file writer\<close>

text \<open>The temporary file; the target is the state of the actions below.\<close>

definition pad_to :: "nat \<Rightarrow> bytes \<Rightarrow> bytes" where
  "pad_to n bs = bs @ replicate (n - length bs) 0"

definition preallocate :: "64 word \<Rightarrow> bytes \<Rightarrow> bytes result" where
  "preallocate len temp =
     (if sint len \<le> 0 then Inl (Runtime_error ''posix_fallocate failed: Invalid argument'')
      else Inr (pad_to (unat len) temp))"

text \<open>
  \<open>pwrite\<close> may write fewer bytes than asked for; the loop goes on with the rest. The counts it
  returned are an argument; a count of 0 is an error. Counts are at most the length of the rest.
\<close>

definition overwrite :: "nat \<Rightarrow> bytes \<Rightarrow> bytes \<Rightarrow> bytes" where
  "overwrite off bs temp = take off (pad_to off temp) @ bs @ drop (off + length bs) temp"

fun writeAt :: "nat list \<Rightarrow> nat \<Rightarrow> bytes \<Rightarrow> bytes \<Rightarrow> bytes result option" where
  "writeAt counts off [] temp = Some (Inr temp)"
| "writeAt [] off bs temp = None"
| "writeAt (c # counts) off bs temp =
     (if c = 0 then Some (Inl (Runtime_error ''pwrite wrote 0 bytes''))
      else writeAt counts (off + c) (drop c bs) (overwrite off (take c bs) temp))"

lemma length_overwrite: "length (overwrite off bs temp) = max (off + length bs) (length temp)"
  by (simp add: overwrite_def pad_to_def)

lemma overwrite_split:
  "overwrite (off + length as) bs (overwrite off as temp) = overwrite off (as @ bs) temp"
proof -
  let ?pre = "take off (pad_to off temp)"
  have pre: "length ?pre = off" by (simp add: pad_to_def)
  define t where "t = ?pre @ as @ drop (off + length as) temp"
  have t: "overwrite off as temp = t" by (simp add: overwrite_def t_def)
  have "off + length as \<le> length t" using pre by (simp add: t_def)
  then have "take (off + length as) (pad_to (off + length as) t) = take (off + length as) t"
    by (simp add: pad_to_def)
  also have "\<dots> = ?pre @ as" using pre by (simp add: t_def)
  finally have "take (off + length as) (pad_to (off + length as) t) = ?pre @ as" .
  moreover have "drop (off + length as + length bs) t = drop (off + length (as @ bs)) temp"
    using pre by (simp add: t_def add.commute add.left_commute)
  ultimately show ?thesis by (simp add: overwrite_def [of "off + length as"] t) (simp add: overwrite_def)
qed

text \<open>
  Whatever the partial counts, a loop that ends without an error has written the data as a
  whole; it ends when the counts are positive and there are enough of them.
\<close>

definition writeAll :: "nat \<Rightarrow> bytes \<Rightarrow> bytes \<Rightarrow> bytes" where
  "writeAll off bs temp = (if bs = [] then temp else overwrite off bs temp)"

lemma writeAt_all:
  assumes "\<forall>c\<in>set counts. 0 < c" and "length bs \<le> length counts"
  shows "writeAt counts off bs temp = Some (Inr (writeAll off bs temp))"
  using assms
proof (induction counts off bs temp rule: writeAt.induct)
  case (3 c counts off b bs temp)
  let ?data = "b # bs"
  have c: "0 < c" using 3 by simp
  then have IH: "writeAt counts (off + c) (drop c ?data) (overwrite off (take c ?data) temp) =
      Some (Inr (writeAll (off + c) (drop c ?data) (overwrite off (take c ?data) temp)))"
    using 3 by (intro "3.IH") auto
  have "writeAll (off + c) (drop c ?data) (overwrite off (take c ?data) temp) = overwrite off ?data temp"
  proof (cases "length ?data \<le> c")
    case True
    then show ?thesis by (simp add: writeAll_def)
  next
    case False
    then have "length (take c ?data) = c" by simp
    then show ?thesis
      using False overwrite_split [of off "take c ?data" "drop c ?data" temp] by (simp add: writeAll_def)
  qed
  then show ?case using c IH by (simp add: writeAll_def)
qed (simp_all add: writeAll_def)

section \<open>The file record\<close>

record FileRecordResponse =
  fr_fileId :: string
  fr_vaultId :: string
  fr_chunkSize :: "64 word"
  fr_totalChunks :: "32 word"
  fr_plaintextSize :: "64 word"
  fr_encryptedHash :: string
  fr_encryptedMetadata :: string
  fr_encryptedFileKey :: string
  fr_encryptedManifest :: string
  fr_sourceUrl :: string

record DecryptedDownloadRecord =
  dr_fileKey :: bytes
  dr_metadataJson :: string
  dr_manifest :: DownloadManifest

text \<open>
  The environment: the cryptographic library, the master key of the vault (or the exception
  \<open>ensureUnlocked\<close> throws), the JSON parser, the server's file records and its object store.
\<close>

record download_env =
  de_crypto :: crypto_lib
  de_masterKey :: "bytes result"
  de_parse :: "string \<Rightarrow> json result"
  de_getFileRecord :: "string \<Rightarrow> FileRecordResponse result"
  de_getRange :: "string \<Rightarrow> 64 word \<Rightarrow> 64 word \<Rightarrow> bytes result"

text \<open>\<open>std::string(bytes.begin(), bytes.end())\<close>.\<close>

definition fromBytes :: "bytes \<Rightarrow> string" where
  "fromBytes = map (\<lambda>b. char_of (unat b))"

definition decryptRecord :: "download_env \<Rightarrow> FileRecordResponse \<Rightarrow> DecryptedDownloadRecord result" where
  "decryptRecord env record =
     bindR (de_masterKey env) (\<lambda>masterKey.
     bindR (decodeBase64 (fr_encryptedFileKey record)) (\<lambda>wrapped.
     bindR (lib_unwrapFileKey (de_crypto env) wrapped masterKey
              (toBytes (makeFileKey (fr_vaultId record) (fr_fileId record)))) (\<lambda>fileKey.
     bindR (decodeBase64 (fr_encryptedMetadata record)) (\<lambda>encMeta.
     bindR (lib_decryptChunk (de_crypto env) fileKey
              (toBytes (makeFileMetadata (fr_vaultId record) (fr_fileId record))) encMeta) (\<lambda>metadataBytes.
     bindR (decodeBase64 (fr_encryptedManifest record)) (\<lambda>encManifest.
     bindR (lib_decryptChunk (de_crypto env) fileKey
              (toBytes (makeFileManifest (fr_vaultId record) (fr_fileId record))) encManifest) (\<lambda>manifestBytes.
     bindR (parseDownloadManifest (de_parse env) (fromBytes manifestBytes) (fr_chunkSize record)
              (fr_plaintextSize record)) (\<lambda>m.
       Inr \<lparr>dr_fileKey = fileKey, dr_metadataJson = fromBytes metadataBytes, dr_manifest = m\<rparr>))))))))"

section \<open>Downloading\<close>

definition downloadChunk :: "download_env \<Rightarrow> FileRecordResponse \<Rightarrow> bytes \<Rightarrow> DownloadChunk \<Rightarrow> bytes \<Rightarrow> bytes result" where
  "downloadChunk env record fileKey chunk temp =
     bindR (de_getRange env (fr_sourceUrl record) (dc_cipherStart chunk) (dc_cipherSize chunk)) (\<lambda>encrypted.
     bindR (lib_decryptChunk (de_crypto env) fileKey
              (toBytes (makeFileChunk (fr_vaultId record) (fr_fileId record) (to_int32 (dc_index chunk + 1))
                 (sint (fr_chunkSize record)) (sint (fr_totalChunks record)))) encrypted) (\<lambda>plaintext.
       Inr (writeAll (unat (dc_plainStart chunk)) plaintext temp)))"

fun downloadChunks :: "download_env \<Rightarrow> FileRecordResponse \<Rightarrow> bytes \<Rightarrow> DownloadChunk list \<Rightarrow> bytes \<Rightarrow> bytes result" where
  "downloadChunks env record fileKey [] temp = Inr temp"
| "downloadChunks env record fileKey (c # cs) temp =
     bindR (downloadChunk env record fileKey c temp) (downloadChunks env record fileKey cs)"

text \<open>The target file is replaced by the temporary one at the end, and only then.\<close>

definition downloadFile :: "download_env \<Rightarrow> string \<Rightarrow> (bytes option, unit) act" where
  "downloadFile env fileId target =
     (case bindR (de_getFileRecord env fileId) (\<lambda>record.
           bindR (decryptRecord env record) (\<lambda>d.
           bindR (preallocate (dm_size (dr_manifest d)) []) (\<lambda>temp.
             downloadChunks env record (dr_fileKey d) (dm_chunks (dr_manifest d)) temp)))
      of Inl e \<Rightarrow> (Inl e, target) | Inr temp \<Rightarrow> (Inr (), Some temp))"

section \<open>A download gives back what was uploaded\<close>

lemma fromBytes_toBytes [simp]: "fromBytes (toBytes s) = s"
proof -
  have "unat (of_nat (of_char c) :: 8 word) = of_char c" for c :: char
    by (simp add: unat_of_nat take_bit_nat_eq_self_iff nat_of_char_less_256)
  then have "char_of (unat (of_char c :: 8 word)) = c" for c :: char
    by (metis of_nat_of_char char_of_char)
  then show ?thesis by (simp add: fromBytes_def toBytes_def comp_def)
qed

text \<open>The documented laws of the library: what was encrypted or wrapped comes out again.\<close>

definition crypto_laws :: "crypto_lib \<Rightarrow> bool" where
  "crypto_laws lib \<longleftrightarrow>
     (\<forall>key aad p c. lib_encryptChunk lib key aad p = Inr c \<longrightarrow> lib_decryptChunk lib key aad c = Inr p) \<and>
     (\<forall>fk mk aad c. lib_wrapFileKey lib fk mk aad = Inr c \<longrightarrow> lib_unwrapFileKey lib c mk aad = Inr fk)"

text \<open>The body a part was sent with, and the object the storage makes of the parts.\<close>

definition partBody :: "upload_env \<Rightarrow> nat \<Rightarrow> bytes" where
  "partBody env k = (case preparePart env (of_nat (Suc k)) of Inl _ \<Rightarrow> [] | Inr (_, body) \<Rightarrow> body)"

definition storedObject :: "upload_env \<Rightarrow> bytes" where
  "storedObject env = concat (map (partBody env) [0..<partCount env])"

definition serves :: "download_env \<Rightarrow> string \<Rightarrow> bytes \<Rightarrow> bool" where
  "serves env url obj \<longleftrightarrow>
     (\<forall>off len. unat off + unat len \<le> length obj \<longrightarrow> de_getRange env url off len = Inr (take (unat len) (drop (unat off) obj)))"

text \<open>The server's record of a completed upload holds what was sent to start and complete it.\<close>

definition recordsUpload :: "StartUploadResponse \<Rightarrow> UploadPlan \<Rightarrow> UploadCompleteRequest \<Rightarrow> FileRecordResponse \<Rightarrow> bool" where
  "recordsUpload started plan request record \<longleftrightarrow>
     fr_fileId record = su_fileId started \<and> fr_vaultId record = su_vaultId started \<and>
     fr_chunkSize record = fileChunkSize plan \<and> fr_totalChunks record = ucast (totalChunks plan) \<and>
     fr_encryptedMetadata record = cq_encryptedMetadata request \<and>
     fr_encryptedFileKey record = cq_encryptedFileKey request \<and>
     fr_encryptedManifest record = cq_encryptedManifest request"

lemma prepared_chunks:
  assumes "uploads env content ct hash" and "k < partCount env" and "prepared env (Suc k) r"
  shows "up_chunks r = up_chunks (part_of env content ct hash k)"
  using assms(3) unfolding prepared_def preparePart_window [OF assms(1,2)] by (auto simp: part_of_def)

lemma windows_of_plan:
  assumes "uploads env content ct hash"
  shows "concat (map (window (length content)) [0..<partCount env]) = [0..<chunks_nat (length content)]"
  using all_windows [OF uploads_size(1) [OF assms]] uploads_size(2) [OF assms] assms
  by (simp add: partCount_def uploads_def)

lemma storedObject_chunks:
  assumes "uploads env content ct hash"
  shows "storedObject env = concat (map ct [0..<chunks_nat (length content)])"
proof -
  have "map (partBody env) [0..<partCount env] =
      map (\<lambda>k. concat (map ct (window (length content) k))) [0..<partCount env]"
    using preparePart_window [OF assms] by (simp add: partBody_def)
  then have "storedObject env = concat (map ct (concat (map (window (length content)) [0..<partCount env])))"
    unfolding storedObject_def by (simp only: concat_map_concat)
  then show ?thesis by (simp add: windows_of_plan [OF assms])
qed

lemma manifestChunks_of_parts:
  assumes up: "uploads env content ct hash" and len: "length parts = partCount env"
    and parts: "\<And>k. k < partCount env \<Longrightarrow> prepared env (Suc k) (parts ! k)"
  shows "manifestChunks parts = map (\<lambda>i. chunkJson (chunk_result i (chunk_at 4194304 content i) (ct i) (hash (ct i))))
    [0..<chunks_nat (length content)]"
proof -
  let ?c = "\<lambda>i. chunkJson (chunk_result i (chunk_at 4194304 content i) (ct i) (hash (ct i)))"
  have "parts = map ((!) parts) [0..<partCount env]" using len by (metis map_nth)
  then have "manifestChunks parts = concat (map (\<lambda>k. map chunkJson (up_chunks (parts ! k))) [0..<partCount env])"
    unfolding manifestChunks_def by (metis (no_types, lifting) map_map comp_def map_cong)
  also have "map (\<lambda>k. map chunkJson (up_chunks (parts ! k))) [0..<partCount env] =
      map (\<lambda>k. map ?c (window (length content) k)) [0..<partCount env]"
    using prepared_chunks [OF up _ parts] by (simp add: part_of_def comp_def)
  also have "concat \<dots> = map ?c (concat (map (window (length content)) [0..<partCount env]))"
    by (simp add: map_concat comp_def)
  finally show ?thesis by (simp add: windows_of_plan [OF up])
qed

text \<open>Reading back the manifest of the upload.\<close>

lemma parse_uploaded_manifest:
  assumes up: "uploads env content ct hash" and len: "length parts = partCount env"
    and parts: "\<And>k. k < partCount env \<Longrightarrow> prepared env (Suc k) (parts ! k)"
    and small: "offset ct (chunks_nat (length content)) < 2 ^ 64"
    and parse: "parse mj = Inr (manifest started (ue_plan env) details parts)"
  shows "\<exists>m. parseDownloadManifest parse mj fallback psize = Inr m \<and> dm_size m = of_nat (length content) \<and>
    dm_chunks m = map (written_chunk (chunk_at 4194304 content) ct (\<lambda>i. hash (ct i))) [0..<chunks_nat (length content)]"
proof -
  let ?n = "chunks_nat (length content)"
  have ct: "ct i \<noteq> []" if "i < ?n" for i using up that by (simp add: uploads_def)
  have "0 < length (chunk_at 4194304 content i) \<and> length (chunk_at 4194304 content i) < 2 ^ 64 \<and>
      0 < length (ct i) \<and> length (ct i) < 2 ^ 64" if i: "i < ?n" for i
  proof -
    have "offset ct (Suc i) \<le> offset ct ?n" using i by (intro offset_mono) simp
    then have "length (ct i) < 2 ^ 64" using small by simp
    moreover have "0 < length (chunk_at 4194304 content i)"
      using i unfolding length_chunk_at chunks_nat_iff by simp
    moreover have "length (chunk_at 4194304 content i) \<le> 4194304" by (simp add: length_chunk_at)
    ultimately show ?thesis using ct [OF i] by simp
  qed
  then have "parseChunks fallback psize (of_nat (offset ct 0)) (of_nat (offset (chunk_at 4194304 content) 0)) (of_nat 0)
      (map (\<lambda>i. chunkJson (chunk_result i (chunk_at 4194304 content i) (ct i) (hash (ct i)))) [0..<?n]) =
    Inr (map (written_chunk (chunk_at 4194304 content) ct (\<lambda>i. hash (ct i))) [0..<?n])"
    by (intro parseChunks_written) simp_all
  then have "parseChunks fallback psize 0 0 0 (manifestChunks parts) =
    Inr (map (written_chunk (chunk_at 4194304 content) ct (\<lambda>i. hash (ct i))) [0..<?n])"
    by (simp add: manifestChunks_of_parts [OF up len parts])
  moreover have "originalSize (ue_plan env) = of_nat (length content)" using up by (simp add: uploads_def)
  ultimately show ?thesis
    by (simp add: parseDownloadManifest_def parse manifest_def json_value_def array_member_def)
qed

text \<open>The chunks, written one after the other, make up the file.\<close>

definition filled :: "bytes \<Rightarrow> nat \<Rightarrow> bytes \<Rightarrow> bool" where
  "filled content n temp \<longleftrightarrow> length temp = length content \<and> take n temp = take n content"

lemma filled_overwrite:
  assumes "filled content off temp" and "bs = take (length bs) (drop off content)" and "off + length bs \<le> length content"
  shows "filled content (off + length bs) (writeAll off bs temp)"
proof (cases "bs = []")
  case False
  have temp: "overwrite off bs temp = take off temp @ bs @ drop (off + length bs) temp"
    using assms by (simp add: overwrite_def pad_to_def filled_def)
  moreover have "take (off + length bs) content = take off content @ bs"
    using assms(2) by (metis take_add)
  ultimately show ?thesis
    using assms False by (simp add: filled_def writeAll_def)
qed (use assms in \<open>simp add: filled_def writeAll_def\<close>)

lemma chunk_offsets:
  assumes "i < n" and "length content \<le> n * c"
  shows "chunk_at c content i = take (length (chunk_at c content i)) (drop (offset (chunk_at c content) i) content)"
    and "offset (chunk_at c content) i + length (chunk_at c content i) \<le> length content"
    and "offset (chunk_at c content) n = length content"
proof -
  have all: "concat (map (chunk_at c content) [0..<n]) = content" by (rule concat_all_chunks [OF assms(2)])
  then show "chunk_at c content i = take (length (chunk_at c content i)) (drop (offset (chunk_at c content) i) content)"
    using concat_at [OF assms(1), of "chunk_at c content"] by simp
  show 3: "offset (chunk_at c content) n = length content" by (simp add: offset_def all)
  have "offset (chunk_at c content) (Suc i) \<le> offset (chunk_at c content) n" using assms(1) by (intro offset_mono) simp
  then show "offset (chunk_at c content) i + length (chunk_at c content i) \<le> length content" using 3 by simp
qed

text \<open>
  What the loop relies on: the record belongs to the upload, its object is what the parts
  were, and decryption undoes encryption.
\<close>

definition downloadable :: "upload_env \<Rightarrow> bytes \<Rightarrow> (nat \<Rightarrow> bytes) \<Rightarrow> download_env \<Rightarrow> FileRecordResponse \<Rightarrow> bool" where
  "downloadable env content ct denv record \<longleftrightarrow>
     serves denv (fr_sourceUrl record) (storedObject env) \<and> crypto_laws (de_crypto denv) \<and>
     de_crypto denv = ue_crypto env \<and> fr_fileId record = su_fileId (ue_started env) \<and>
     fr_vaultId record = su_vaultId (ue_started env) \<and> fr_chunkSize record = kChunkSize \<and>
     fr_totalChunks record = ucast (totalChunks (ue_plan env))"

lemma downloadChunk_written:
  assumes up: "uploads env content ct hash" and small: "offset ct (chunks_nat (length content)) < 2 ^ 64"
    and d: "downloadable env content ct denv record" and i: "i < chunks_nat (length content)"
    and f: "filled content (offset (chunk_at 4194304 content) i) temp"
  shows "\<exists>temp'. downloadChunk denv record (ue_fileKey env)
      (written_chunk (chunk_at 4194304 content) ct (\<lambda>i. hash (ct i)) i) temp = Inr temp' \<and>
    filled content (offset (chunk_at 4194304 content) (Suc i)) temp'"
proof -
  let ?n = "chunks_nat (length content)" and ?p = "chunk_at 4194304 content"
  have n: "length content \<le> ?n * 4194304" using chunks_nat_iff [of ?n "length content"] by simp
  note off = chunk_offsets [OF i n]
  have size: "length content < 2 ^ 63" using up by (simp add: uploads_def)
  have "offset ct (Suc i) \<le> offset ct ?n" using i by (intro offset_mono) simp
  then have cto: "offset ct i + length (ct i) \<le> offset ct ?n" by simp
  have unats: "unat (of_nat (offset ct i) :: 64 word) = offset ct i" "unat (of_nat (length (ct i)) :: 64 word) = length (ct i)"
      "unat (of_nat (offset ?p i) :: 64 word) = offset ?p i"
    using cto small off(2) size by (auto intro!: unat_of_nat_small)
  have obj: "length (storedObject env) = offset ct ?n" by (simp add: storedObject_chunks [OF up] offset_def)
  have "de_getRange denv (fr_sourceUrl record) (of_nat (offset ct i)) (of_nat (length (ct i))) =
      Inr (take (length (ct i)) (drop (offset ct i) (storedObject env)))"
    using d cto unats obj unfolding downloadable_def serves_def by simp
  also have "take (length (ct i)) (drop (offset ct i) (storedObject env)) = ct i"
    unfolding storedObject_chunks [OF up] by (rule concat_at [OF i])
  finally have get: "de_getRange denv (fr_sourceUrl record) (of_nat (offset ct i)) (of_nat (length (ct i))) = Inr (ct i)" .
  have aad: "toBytes (makeFileChunk (fr_vaultId record) (fr_fileId record) (to_int32 (of_nat i + 1))
        (sint (fr_chunkSize record)) (sint (fr_totalChunks record))) =
      chunk_aad (su_vaultId (ue_started env)) (su_fileId (ue_started env)) (of_nat (Suc i)) kChunkSize (totalChunks (ue_plan env))"
    using d by (simp add: downloadable_def chunk_aad_def to_int32_def add.commute)
  have "chunk_cipher (ue_crypto env) (ue_fileKey env) (su_vaultId (ue_started env)) (su_fileId (ue_started env))
      kChunkSize (totalChunks (ue_plan env)) content i = Inr (ct i)"
    using up i unfolding uploads_def by blast
  then have "lib_encryptChunk (de_crypto denv) (ue_fileKey env) (chunk_aad (su_vaultId (ue_started env))
      (su_fileId (ue_started env)) (of_nat (Suc i)) kChunkSize (totalChunks (ue_plan env))) (?p i) = Inr (ct i)"
    using d by (simp add: chunk_cipher_def downloadable_def kChunkSize_def)
  moreover have "\<forall>key aad p c. lib_encryptChunk (de_crypto denv) key aad p = Inr c \<longrightarrow>
      lib_decryptChunk (de_crypto denv) key aad c = Inr p"
    using d unfolding downloadable_def crypto_laws_def by blast
  ultimately have "lib_decryptChunk (de_crypto denv) (ue_fileKey env) (chunk_aad (su_vaultId (ue_started env))
      (su_fileId (ue_started env)) (of_nat (Suc i)) kChunkSize (totalChunks (ue_plan env))) (ct i) = Inr (?p i)"
    by blast
  then have "downloadChunk denv record (ue_fileKey env) (written_chunk ?p ct (\<lambda>i. hash (ct i)) i) temp =
      Inr (writeAll (offset ?p i) (?p i) temp)"
    by (simp only: downloadChunk_def written_chunk_def DownloadChunk.select_convs get bindR_simps aad unats)
  moreover have "filled content (offset ?p (Suc i)) (writeAll (offset ?p i) (?p i) temp)"
    using filled_overwrite [OF f off(1,2)] by simp
  ultimately show ?thesis by blast
qed

lemma downloadChunks_written:
  assumes up: "uploads env content ct hash" and small: "offset ct (chunks_nat (length content)) < 2 ^ 64"
    and d: "downloadable env content ct denv record" and "k \<le> chunks_nat (length content)"
    and "filled content (offset (chunk_at 4194304 content) k) temp"
  shows "downloadChunks denv record (ue_fileKey env)
    (map (written_chunk (chunk_at 4194304 content) ct (\<lambda>i. hash (ct i))) [k..<chunks_nat (length content)]) temp = Inr content"
  using assms(4,5)
proof (induction "chunks_nat (length content) - k" arbitrary: k temp)
  case 0
  then have k: "k = chunks_nat (length content)" by simp
  have "0 < length content" using up by (simp add: uploads_def)
  then have "0 < chunks_nat (length content)" by (simp add: chunks_nat_iff)
  moreover have "length content \<le> chunks_nat (length content) * 4194304"
    using chunks_nat_iff [of "chunks_nat (length content)" "length content"] by simp
  ultimately have "offset (chunk_at 4194304 content) k = length content" using chunk_offsets(3) k by blast
  then have "temp = content" using 0(3) by (metis filled_def order.refl take_all)
  then show ?case using k by simp
next
  case (Suc m)
  then have less: "k < chunks_nat (length content)" by simp
  obtain temp' where "downloadChunk denv record (ue_fileKey env)
      (written_chunk (chunk_at 4194304 content) ct (\<lambda>i. hash (ct i)) k) temp = Inr temp'"
    and "filled content (offset (chunk_at 4194304 content) (Suc k)) temp'"
    using downloadChunk_written [OF up small d less Suc.prems(2)] by blast
  then show ?case using Suc.hyps(1) [of "Suc k" temp'] Suc.hyps(2) less by (simp add: upt_conv_Cons)
qed

section \<open>Downloading prepared parts\<close>

text \<open>
  Whoever prepared the parts, and whenever: the completion made from them describes the file.
\<close>

lemma download_prepared_parts:
  assumes up: "uploads env content ct hash" and small: "offset ct (chunks_nat (length content)) < 2 ^ 64"
    and len: "length parts = partCount env" and each: "\<And>k. k < partCount env \<Longrightarrow> prepared env (Suc k) (parts ! k)"
    and fin: "prepareCompletion fenv entrySize (ue_started env) (ue_plan env) parts (ue_fileKey env) = Inr (artifacts, request)"
    and server: "de_getFileRecord denv fileId = Inr record" "recordsUpload (ue_started env) (ue_plan env) request record"
      "serves denv (fr_sourceUrl record) (storedObject env)"
    and same: "de_crypto denv = ue_crypto env" "fe_crypto fenv = ue_crypto env" "de_masterKey denv = fe_masterKey fenv"
    and laws: "crypto_laws (ue_crypto env)" "\<And>j str. fe_dump fenv j = Inr str \<Longrightarrow> de_parse denv str = Inr j"
  shows "downloadFile denv fileId target = (Inr (), Some content)"
proof -
  let ?v = "su_vaultId (ue_started env)" and ?f = "su_fileId (ue_started env)" and ?n = "chunks_nat (length content)"
  let ?p = "chunk_at 4194304 content"
  have size: "0 < length content" "length content < 2 ^ 63" and plan: "ue_plan env = createPlan (of_nat (length content))"
    using up by (auto simp: uploads_def)
  note fin' = prepareCompletion_Inr [OF fin]
  obtain mj where mj: "fe_dump fenv (manifest (ue_started env) (ue_plan env) (fe_details fenv) parts) = Inr mj"
      "lib_encryptChunk (ue_crypto env) (ue_fileKey env) (toBytes (makeFileManifest ?v ?f)) (toBytes mj) =
        Inr (ua_encryptedManifest artifacts)"
    using fin'(5) same by auto
  obtain mk where mk: "fe_masterKey fenv = Inr mk" "lib_wrapFileKey (ue_crypto env) (ue_fileKey env) mk
      (toBytes (makeFileKey ?v ?f)) = Inr (ua_encryptedFileKey artifacts)"
    using fin'(6) same by auto
  obtain md where md: "lib_encryptChunk (ue_crypto env) (ue_fileKey env) (toBytes (makeFileMetadata ?v ?f)) (toBytes md) =
        Inr (ua_encryptedMetadata artifacts)"
    using fin'(7) same by auto
  have dec: "lib_decryptChunk (ue_crypto env) key aad c = Inr p"
      if "lib_encryptChunk (ue_crypto env) key aad p = Inr c" for key aad p c
    using laws(1) that unfolding crypto_laws_def by blast
  have key: "lib_unwrapFileKey (ue_crypto env) (ua_encryptedFileKey artifacts) mk (toBytes (makeFileKey ?v ?f)) = Inr (ue_fileKey env)"
    using laws(1) mk(2) unfolding crypto_laws_def by blast
  obtain m where m: "parseDownloadManifest (de_parse denv) mj (fr_chunkSize record) (fr_plaintextSize record) = Inr m"
      "dm_size m = of_nat (length content)" "dm_chunks m = map (written_chunk ?p ct (\<lambda>i. hash (ct i))) [0..<?n]"
    using parse_uploaded_manifest [where parse = "de_parse denv" and mj = mj, OF up len each small laws(2) [OF mj(1)]] by blast
  have rcd: "fr_fileId record = ?f" "fr_vaultId record = ?v" "fr_chunkSize record = kChunkSize"
      "fr_totalChunks record = ucast (totalChunks (ue_plan env))"
      "fr_encryptedMetadata record = encodeBase64 (ua_encryptedMetadata artifacts)"
      "fr_encryptedFileKey record = encodeBase64 (ua_encryptedFileKey artifacts)"
      "fr_encryptedManifest record = encodeBase64 (ua_encryptedManifest artifacts)"
    using server(2) fin'(1-3) by (auto simp: recordsUpload_def plan)
  have decrypted: "decryptRecord denv record = Inr \<lparr>dr_fileKey = ue_fileKey env, dr_metadataJson = md, dr_manifest = m\<rparr>"
    by (simp add: decryptRecord_def rcd base64.decode_encode same mk(1) key dec [OF md] dec [OF mj(2)] m(1) [unfolded rcd])
  have sz: "unat (of_nat (length content) :: 64 word) = length content" using size by (intro unat_of_nat_small) simp
  then have "\<not> sint (of_nat (length content) :: 64 word) \<le> 0"
    using sint_small [of "of_nat (length content)"] size by simp
  then have pre: "preallocate (dm_size m) [] = Inr (replicate (length content) 0)"
    using sz by (simp add: preallocate_def m(2) pad_to_def)
  have d: "downloadable env content ct denv record" using server(3) laws(1) same rcd by (simp add: downloadable_def)
  have "filled content (offset ?p 0) (replicate (length content) 0)" by (simp add: filled_def)
  from downloadChunks_written [OF up small d _ this]
  have "downloadChunks denv record (ue_fileKey env) (dm_chunks m) (replicate (length content) 0) = Inr content"
    by (simp add: m(3))
  then show ?thesis by (simp add: downloadFile_def server(1) decrypted pre)
qed

section \<open>Properties\<close>

text \<open>
  C1. What was uploaded is what is downloaded. Let a non-empty file be uploaded by any number of
  threads in any schedule, the completion be prepared from the resulting parts, and the server
  keep what it was sent: the parts one after the other as the object, the rest in the file's
  record. Then a download with the same master key succeeds and replaces the target by
  exactly the file. The cryptographic library has to decrypt what it encrypted, and the JSON
  parser to read what was printed; the ciphertexts fit into 64-bit offsets.
\<close>

theorem upload_download_round_trip:
  assumes up: "uploads env content ct hash" and small: "offset ct (chunks_nat (length content)) < 2 ^ 64"
    and run: "(up_step env)\<^sup>*\<^sup>* (start_state (replicate (partCount env) emptyPart) conc) s" "0 < conc" "joined s"
    and parts: "uploadResult s = Inr parts"
    and fin: "prepareCompletion fenv entrySize (ue_started env) (ue_plan env) parts (ue_fileKey env) = Inr (artifacts, request)"
    and server: "de_getFileRecord denv fileId = Inr record" "recordsUpload (ue_started env) (ue_plan env) request record"
      "serves denv (fr_sourceUrl record) (storedObject env)"
    and same: "de_crypto denv = ue_crypto env" "fe_crypto fenv = ue_crypto env" "de_masterKey denv = fe_masterKey fenv"
    and laws: "crypto_laws (ue_crypto env)" "\<And>j str. fe_dump fenv j = Inr str \<Longrightarrow> de_parse denv str = Inr j"
  shows "downloadFile denv fileId target = (Inr (), Some content)"
proof -
  have "initialParts env [] = Inr (replicate (partCount env) emptyPart)" by (simp add: initialParts_def)
  note out = upload_outcome [OF this run(2,1,3)]
  have miss: "missing (replicate (partCount env) emptyPart) n \<longleftrightarrow> 1 \<le> n \<and> n \<le> partCount env" for n
    by (auto simp: missing_def emptyPart_def)
  have len: "length parts = partCount env" using out by (simp add: parts)
  have sent: "\<forall>n. 1 \<le> n \<and> n \<le> partCount env \<longrightarrow> processPart env (of_nat n) = Inr (parts ! (n - 1))"
    using out unfolding parts sum.case miss by presburger
  have each: "prepared env (Suc k) (parts ! k)" if "k < partCount env" for k
    by (rule processPart_prepared, rule sent [rule_format, of "Suc k", simplified diff_Suc_1]) (use that in simp)
  show ?thesis
    by (rule download_prepared_parts [OF up small len each fin server same laws])
qed

text \<open>The sample upload, and a server and a JSON printer for it.\<close>

definition sample_docs :: "UploadedPartResult list \<Rightarrow> json list" where
  "sample_docs parts =
     (let details = \<lparr>fm_name = ''x'', fm_mime = ''text/plain'', fm_extension = ''txt''\<rparr> in
      [manifest (ue_started sample_env) (ue_plan sample_env) details parts, buildMetadata details (Some 3) noPreview])"

definition sample_fenv :: "UploadedPartResult list \<Rightarrow> finalizer_env" where
  "sample_fenv parts =
     \<lparr>fe_crypto = ue_crypto sample_env, fe_masterKey = Inr [9],
      fe_dump = \<lambda>j. (if j = sample_docs parts ! 0 then Inr ''m'' else if j = sample_docs parts ! 1 then Inr ''d''
        else Inl (Json_error ''invalid UTF-8 byte'')),
      fe_details = \<lparr>fm_name = ''x'', fm_mime = ''text/plain'', fm_extension = ''txt''\<rparr>,
      fe_thumbnail = Inr None, fe_presignThumbnail = \<lambda>_ _. Inr ''u'', fe_putEncryptedPartToStorage = \<lambda>_ _. Inr ''t''\<rparr>"

definition sample_denv :: "UploadedPartResult list \<Rightarrow> UploadCompleteRequest \<Rightarrow> download_env" where
  "sample_denv parts request =
     \<lparr>de_crypto = ue_crypto sample_env, de_masterKey = Inr [9],
      de_parse = \<lambda>str. (if str = ''m'' then Inr (sample_docs parts ! 0) else Inr (sample_docs parts ! 1)),
      de_getFileRecord = \<lambda>_. Inr \<lparr>fr_fileId = ''f'', fr_vaultId = ''v'', fr_chunkSize = 4194304,
        fr_totalChunks = ucast (totalChunks (createPlan 3)), fr_plaintextSize = 3, fr_encryptedHash = [],
        fr_encryptedMetadata = cq_encryptedMetadata request, fr_encryptedFileKey = cq_encryptedFileKey request,
        fr_encryptedManifest = cq_encryptedManifest request, fr_sourceUrl = ''u''\<rparr>,
      de_getRange = \<lambda>_ off len. Inr (take (unat len) (drop (unat off) (storedObject sample_env)))\<rparr>"

lemma sample_laws: "crypto_laws (ue_crypto sample_env)"
  by (auto simp: crypto_laws_def sample_env_def)

lemma sample_completion:
  "\<exists>artifacts request. prepareCompletion (sample_fenv parts) (Some 3) (ue_started sample_env) (ue_plan sample_env) parts
     (ue_fileKey sample_env) = Inr (artifacts, request)"
proof -
  have "termsForText ''x'' = []" by code_simp
  then show ?thesis
    by (simp add: prepareCompletion_def sample_fenv_def sample_docs_def encryptChunk_def hashBytes_def wrapFileKey_def
        encryptMetadata_def uploadThumbnail_def noThumbnail_def createSearchTokenEntries_def Let_def)
      (simp add: sample_env_def)
qed

theorem upload_download_round_trip_witness:
  "\<exists>denv. downloadFile denv ''f'' None = (Inr (), Some [1, 2, 3])"
proof -
  obtain s where run: "(up_step sample_env)\<^sup>*\<^sup>* (start_state (replicate (partCount sample_env) emptyPart) 2) s" "joined s"
    using upload_run_ends(2) by blast
  have "initialParts sample_env [] = Inr (replicate (partCount sample_env) emptyPart)" by (simp add: initialParts_def)
  note out = upload_outcome [OF this _ run]
  obtain r where "processPart sample_env (of_nat 1) = Inr r" using sample_process by blast
  then obtain parts where parts: "uploadResult s = Inr parts"
    using out by (cases "uploadResult s") (auto simp: missing_def sample_count)
  obtain artifacts request where fin: "prepareCompletion (sample_fenv parts) (Some 3) (ue_started sample_env)
      (ue_plan sample_env) parts (ue_fileKey sample_env) = Inr (artifacts, request)"
    using sample_completion by blast
  have "downloadFile (sample_denv parts request) ''f'' None = (Inr (), Some [1, 2, 3])"
  proof (rule upload_download_round_trip [OF sample_uploads _ run(1) _ run(2) parts fin])
    show "offset (\<lambda>i. chunk_at 4194304 [1, 2, 3] i @ [0]) (chunks_nat (length [1, 2, 3 :: 8 word])) < 2 ^ 64"
      by (simp add: chunks_nat_def offset_def chunk_at_def)
    show "de_getFileRecord (sample_denv parts request) ''f'' = Inr \<lparr>fr_fileId = ''f'', fr_vaultId = ''v'',
        fr_chunkSize = 4194304, fr_totalChunks = ucast (totalChunks (createPlan 3)), fr_plaintextSize = 3,
        fr_encryptedHash = [], fr_encryptedMetadata = cq_encryptedMetadata request,
        fr_encryptedFileKey = cq_encryptedFileKey request, fr_encryptedManifest = cq_encryptedManifest request,
        fr_sourceUrl = ''u''\<rparr>"
      by (simp add: sample_denv_def)
    show "de_parse (sample_denv parts request) str = Inr j" if "fe_dump (sample_fenv parts) j = Inr str" for j str
      using that by (auto simp: sample_fenv_def sample_denv_def split: if_splits)
  qed (simp_all add: recordsUpload_def serves_def sample_denv_def sample_fenv_def sample_laws,
       simp_all add: sample_env_def kChunkSize_def)
  then show ?thesis by blast
qed

end
