(* ===== verification/Sync_Reconciler.thy ===== *)
theory Sync_Reconciler
  imports App_State Download
begin

text \<open>
  \<open>SyncReconciler\<close> (service/SyncReconciler.cpp): it carries out the decisions that change the
  local side: deletions, downloads, and the copies of conflicting remote files. Also the part of
  a download that touches the file system (download/DownloadService.cpp with the writer of
  platform/linux/filewriter) and the hash of a file (fs/FileHasher.cpp). The collaborators may be
  absent, as in the shorter constructors.
\<close>

section \<open>Hashing a file\<close>

record 'h hasher =
  hs_init :: 'h
  hs_update :: "'h \<Rightarrow> bytes \<Rightarrow> 'h"
  hs_finalizeHex :: "'h \<Rightarrow> string result"

definition kHashChunkSize :: nat where
  "kHashChunkSize = 4 * 1024 * 1024"

function hashLoop :: "'h hasher \<Rightarrow> 'h \<Rightarrow> bytes \<Rightarrow> 'h" where
  "hashLoop hs h bs = (if bs = [] then h else hashLoop hs (hs_update hs h (take kHashChunkSize bs)) (drop kHashChunkSize bs))"
  by pat_completeness auto
termination by (relation "measure (\<lambda>(hs, h, bs). length bs)") (auto simp: kHashChunkSize_def)

declare hashLoop.simps [simp del]

definition hashFile :: "'h hasher \<Rightarrow> string \<Rightarrow> files \<Rightarrow> string result" where
  "hashFile hs path fs =
     (case fs_at fs path of
        Some (File bs _) \<Rightarrow> hs_finalizeHex hs (hashLoop hs (hs_init hs) bs)
      | _ \<Rightarrow> Inl (Runtime_error ''File cannot be opened''))"

text \<open>
  With a hasher that takes its input in pieces, as documented for BLAKE3, the hash does not
  depend on the size of the pieces.
\<close>

lemma hashLoop_once:
  assumes "\<And>h. hs_update hs h [] = h" and "\<And>h xs ys. hs_update hs (hs_update hs h xs) ys = hs_update hs h (xs @ ys)"
  shows "hashLoop hs h bs = hs_update hs h bs"
proof (induction "length bs" arbitrary: h bs rule: less_induct)
  case less
  show ?case
  proof (cases "bs = []")
    case False
    then have "length (drop kHashChunkSize bs) < length bs" by (simp add: kHashChunkSize_def)
    from less [OF this] show ?thesis
      using False assms(2) by (subst hashLoop.simps) (simp add: assms(2))
  qed (subst hashLoop.simps, simp add: assms(1))
qed

section \<open>Downloading to a path\<close>

definition downloadTo :: "download_env \<Rightarrow> int \<Rightarrow> string \<Rightarrow> string \<Rightarrow> files \<Rightarrow> unit result \<times> files" where
  "downloadTo env mtime fileId path fs =
     (case bindR (de_getFileRecord env fileId) (\<lambda>record. bindR (decryptRecord env record) (\<lambda>d. Inr (record, d))) of
        Inl e \<Rightarrow> (Inl e, fs)
      | Inr (record, d) \<Rightarrow>
          (case fs_create_directories (parent_path path) fs of
             Inl e \<Rightarrow> (Inl e, fs)
           | Inr fs1 \<Rightarrow>
               (case bindR (preallocate (dm_size (dr_manifest d)) [])
                       (downloadChunks env record (dr_fileKey d) (dm_chunks (dr_manifest d))) of
                  Inl e \<Rightarrow> (Inl e, fs1)
                | Inr temp \<Rightarrow>
                    if is_directory path fs1 then (Inl (Runtime_error ''cannot rename: Is a directory''), fs1)
                    else (Inr (), fs_put path (File temp mtime) fs1))))"

text \<open>What is downloaded is what the download service writes.\<close>

lemma downloadTo_content:
  assumes "downloadTo env mtime fileId path fs = (Inr (), fs')"
  shows "\<exists>bs. downloadFile env fileId target = (Inr (), Some bs) \<and> fs_at fs' path = Some (File bs mtime)"
  using assms
  by (auto simp: downloadTo_def downloadFile_def bindR_def split: sum.splits if_splits prod.splits)

lemma below_append: "below p (p @ slash # q)"
  by (simp add: below_def)

text \<open>A download changes no file but its target, and leaves that alone when it fails.\<close>

lemma downloadTo_others:
  assumes "downloadTo env mtime fileId path fs = (x, fs')" and "fs_at fs q = Some n" and "q \<noteq> path \<or> (\<exists>e. x = Inl e)"
  shows "fs_at fs' q = Some n"
  using assms
  by (auto simp: downloadTo_def fs_create_directories_def fs_at_mkdirs split: sum.splits if_splits prod.splits)

section \<open>Reconciling\<close>

record 'h reconcile_env =
  rc_clocks :: clocks
  rc_cwd :: string
  rc_timestamp :: "nat \<Rightarrow> string"
  rc_mtime :: "nat \<Rightarrow> int"
  rc_conflictRepo :: bool
  rc_remoteEntryRepo :: bool
  rc_download :: "download_env option"
  rc_crypto :: "'h hasher option"

definition applyDeleteLocal :: "string \<Rightarrow> bool \<Rightarrow> ('srv, unit) app_act" where
  "applyDeleteLocal path isDir = onFiles (if isDir then fs_remove_all path else fs_remove path)"

definition conflictName :: "string \<Rightarrow> string \<Rightarrow> string \<Rightarrow> nat \<Rightarrow> string" where
  "conflictName timestamp base ext index =
     base @ '' (remote conflict '' @ timestamp @ '')'' @
     (if index > 1 then ''-'' @ to_string (int index) else []) @ ext"

definition conflictPathFor :: "string \<Rightarrow> string \<Rightarrow> files \<Rightarrow> string result" where
  "conflictPathFor timestamp path fs =
     (let candidate = (\<lambda>i. path_append (parent_path path) (conflictName timestamp (stem path) (extension path) i)) in
      case find (\<lambda>i. \<not> fs_exists (candidate i) fs) [1..<1000] of
        None \<Rightarrow> Inl (Runtime_error ''could not allocate conflict filename'')
      | Some i \<Rightarrow> Inr (candidate i))"

text \<open>Running a download on the state as a whole.\<close>

definition download :: "'h reconcile_env \<Rightarrow> download_env \<Rightarrow> string \<Rightarrow> string \<Rightarrow> ('srv, unit) app_act" where
  "download env denv fileId path s =
     (case downloadTo denv (rc_mtime env (app_tick s)) fileId path (app_files s) of
        (x, fs) \<Rightarrow> (x, s\<lparr>app_files := fs, app_tick := Suc (app_tick s)\<rparr>))"

definition applyConflict :: "'h reconcile_env \<Rightarrow> Entry \<Rightarrow> string \<Rightarrow> ('srv, unit) app_act" where
  "applyConflict env entry path =
     bindE (if rc_conflictRepo env
            then timed (rc_clocks env) (\<lambda>now _. onEntries (markConflict now (e_id entry) ''local_remote_modified''
                   ''local and remote changed since last sync''))
            else returnE ()) (\<lambda>_.
       if e_isDirectory entry then returnE ()
       else if e_remoteDeletedAt entry \<noteq> None then returnE ()
       else case (rc_download env, e_remoteFileId entry) of
           (Some denv, Some fileId) \<Rightarrow>
             bindE (liftE (\<lambda>s. conflictPathFor (rc_timestamp env (app_tick s)) path (app_files s))) (\<lambda>conflictPath.
               catchE (download env denv fileId conflictPath) (\<lambda>_. returnE ()))
         | _ \<Rightarrow> returnE ())"

definition recordDownload :: "'h reconcile_env \<Rightarrow> Entry \<Rightarrow> string \<Rightarrow> ('srv, unit) app_act" where
  "recordDownload env entry path =
     (if \<not> rc_remoteEntryRepo env then throwE (Runtime_error ''remote entry repo is unavailable'')
      else case rc_crypto env of
          None \<Rightarrow> timed (rc_clocks env) (\<lambda>now _. onEntries (markEntryDownloaded1 now (e_id entry)))
        | Some hs \<Rightarrow>
            bindE (getsE (\<lambda>s. fs_file_size path (app_files s))) (\<lambda>size. case size of
                None \<Rightarrow> throwE (Runtime_error ''downloaded file size unavailable'')
              | Some n \<Rightarrow>
                  if n > 2 ^ 63 - 1 then throwE (Runtime_error ''downloaded file size unavailable'')
                  else bindE (getsE (\<lambda>s. last_write_time path (app_files s))) (\<lambda>mtime. case mtime of
                      None \<Rightarrow> throwE (Runtime_error ''downloaded file mtime unavailable'')
                    | Some t \<Rightarrow>
                        bindE (liftE (\<lambda>s. hashFile hs path (app_files s))) (\<lambda>hash.
                          timed (rc_clocks env) (\<lambda>now _. onEntries
                            (markEntryDownloaded now (e_id entry) (int n) t hash))))))"

definition reconcileEntry :: "'h reconcile_env \<Rightarrow> SyncRoot \<Rightarrow> Entry \<Rightarrow> ('srv, unit) app_act" where
  "reconcileEntry env root entry =
     (let decision = decide (classify entry) (root_mode root) in
      bindE (liftE (\<lambda>_. normalizeFsPath (rc_cwd env) (root_localPath root))) (\<lambda>rootPath.
      let path = path_append rootPath (e_relativePath entry) in
      if decision = DeleteLocal then applyDeleteLocal path (e_isDirectory entry)
      else if decision = Conflict then applyConflict env entry path
      else if decision = Download \<and> e_isDirectory entry then returnE ()
      else if decision = Download then
        (case (rc_download env, e_remoteFileId entry) of
           (Some denv, Some fileId) \<Rightarrow>
             catchE (bindE (download env denv fileId path) (\<lambda>_. recordDownload env entry path)) (\<lambda>_. returnE ())
         | _ \<Rightarrow> returnE ())
      else returnE ()))"

definition reconcileRoot :: "'h reconcile_env \<Rightarrow> SyncRoot \<Rightarrow> ('srv, unit) app_act" where
  "reconcileRoot env root =
     bindE (liftE (\<lambda>s. listEntriesBySyncRootId (root_Id root) (app_entries s))) (\<lambda>entries.
       forE entries (reconcileEntry env root))"

section \<open>What reconciling leaves alone\<close>

lemma download_leaves [leaves_intros]:
  "leaves app_entries (download env denv f p)" "leaves app_queue (download env denv f p)"
  by (simp_all add: leaves_def download_def split: prod.split)

lemma keeps_download [keeps_intros]: "keeps app_inv (download env denv f p)"
  by (simp add: keeps_def download_def app_inv_def split: prod.split)

lemma leaves_reconcileRoot [leaves_intros]: "leaves app_queue (reconcileRoot env root)"
  unfolding reconcileRoot_def reconcileEntry_def applyDeleteLocal_def applyConflict_def recordDownload_def Let_def
  by (auto intro!: leaves_intros split: option.split prod.split)

section \<open>Properties\<close>

lemma decide_conflict: "hasConflict s \<Longrightarrow> decide s m = Conflict"
  by (cases m) (simp_all add: decide_defs)

lemma conflictPathFor_fresh: "conflictPathFor ts path fs = Inr cp \<Longrightarrow> \<not> fs_exists cp fs"
  unfolding conflictPathFor_def Let_def by (auto simp: find_Some_iff split: option.splits)

lemma conflictPathFor_first:
  assumes "path_append (parent_path path) (conflictName ts (stem path) (extension path) 1) = cp" and "\<not> fs_exists cp fs"
  shows "conflictPathFor ts path fs = Inr cp"
proof -
  have "[1..<1000] = 1 # [Suc 1..<1000]" by (rule upt_conv_Cons) simp
  with assms show ?thesis unfolding conflictPathFor_def Let_def by (simp only: find.simps option.case if_True simp_thms)
qed

lemma download_others:
  assumes "download env denv f p s = (x, s')" and "fs_at (app_files s) q = Some n" and "q \<noteq> p"
  shows "fs_at (app_files s') q = Some n"
  using assms downloadTo_others [of denv "rc_mtime env (app_tick s)" f p "app_files s" _ _ q n]
  by (auto simp: download_def split: prod.splits)

text \<open>An entry with unsynced local changes is neither deleted nor downloaded, except by a mirror.\<close>

lemma decide_unsynced:
  assumes "localDirty (classify entry)" and "m \<noteq> RemoteMirror"
  shows "decide (classify entry) m \<notin> {DeleteLocal, Download}"
  using assms coherent_classify [of entry] by (cases m) (auto simp: decide_defs coherent_def)

lemma applyConflict_keeps:
  assumes "applyConflict env entry path s = (x, s')" and "fs_at (app_files s) q = Some n"
  shows "fs_at (app_files s') q = Some n"
proof -
  let ?mark = "if rc_conflictRepo env
    then timed (rc_clocks env) (\<lambda>now _. onEntries (markConflict now (e_id entry) ''local_remote_modified''
           ''local and remote changed since last sync'')) else returnE ()"
  obtain y s1 where mark: "?mark s = (y, s1)" by (cases "?mark s")
  have "leaves app_files ?mark" by (auto intro!: leaves_intros)
  from leavesD' [OF this mark] have same: "app_files s1 = app_files s" .
  have copy: "fs_at (app_files s2) q = Some n"
    if "conflictPathFor ts path (app_files s1) = Inr cp"
      "download env denv f cp s1 = (z, s2)" for ts cp denv f z s2
  proof -
    have "\<not> fs_exists cp (app_files s1)" using conflictPathFor_fresh that(1) .
    then have "q \<noteq> cp" using assms(2) same by (auto simp: fs_exists_def)
    then show ?thesis using download_others [OF that(2)] assms(2) same by simp
  qed
  show ?thesis
    using assms mark same copy
    by (auto simp: applyConflict_def bindE_def liftE_def catchE_def returnE_def
        split: prod.splits sum.splits if_splits option.splits)
qed

text \<open>
  C19. Reconciling an entry whose local side has unsynced changes, in any mode but the remote
  mirror, changes and deletes no file that exists: the file itself stays, and a copy of a
  conflicting remote version goes to a path nothing was at.
\<close>

theorem reconcile_keeps_unsynced:
  assumes "localDirty (classify entry)" and "root_mode root \<noteq> RemoteMirror"
    and "reconcileEntry env root entry s = (x, s')" and "fs_at (app_files s) q = Some n"
  shows "fs_at (app_files s') q = Some n"
proof -
  have "decide (classify entry) (root_mode root) \<noteq> DeleteLocal" "decide (classify entry) (root_mode root) \<noteq> Download"
    using decide_unsynced [OF assms(1,2)] by simp_all
  then have "(\<exists>e. x = Inl e \<and> s' = s) \<or> s' = s \<or> (\<exists>path. applyConflict env entry path s = (x, s'))"
    using assms(3) by (auto simp: reconcileEntry_def Let_def bindE_def liftE_def returnE_def split: sum.splits if_splits)
  then show ?thesis using applyConflict_keeps assms(4) by blast
qed

definition plain_entry :: Entry where
  "plain_entry = entryOf (insert_file ''t'' ''e9'' \<lparr>fu_syncRootId = ''s1'', fu_relativePath = ''d/x'', fu_size = 1,
     fu_mtime = 0, fu_contentHash = ''h'', fu_syncState = PendingUpload, fu_lastSeenScanId = ''k''\<rparr>)"

definition offline :: "unit reconcile_env" where
  "offline = \<lparr>rc_clocks = \<lparr>clock = \<lambda>_. ''now'', uuid = \<lambda>_. ''u''\<rparr>, rc_cwd = ''/'', rc_timestamp = \<lambda>_. ''20240101-000000'',
     rc_mtime = \<lambda>_. 0, rc_conflictRepo = True, rc_remoteEntryRepo = True, rc_download = None, rc_crypto = None\<rparr>"

text \<open>
  A folder the server deleted, with a file in it that was never uploaded.
\<close>

definition gone_folder :: entry_row where
  "gone_folder = (insert_directory ''t'' ''e8'' \<lparr>du_syncRootId = ''s1'', du_relativePath = ''d'', du_lastSeenScanId = ''k''\<rparr>)
     \<lparr>r_remote_id := Some ''f1'', r_remote_deleted_at := Some ''t2'', r_sync_state := ''deleted''\<rparr>"

definition unsynced_file :: entry_row where
  "unsynced_file = insert_file ''t'' ''e9'' \<lparr>fu_syncRootId = ''s1'', fu_relativePath = ''d/x'', fu_size = 1,
     fu_mtime = 0, fu_contentHash = ''h'', fu_syncState = PendingUpload, fu_lastSeenScanId = ''k''\<rparr>"

definition folder_app :: "unit app" where
  "folder_app =
     \<lparr>app_entries = [gone_folder, unsynced_file], app_queue = [], app_roots = [], app_dirty = [], app_scans = [],
      app_account = [], app_files = [(''/home/a'', Dir), (''/home/a/d'', Dir), (''/home/a/d/x'', File [7] 0)],
      app_server = (), app_tick = 0\<rparr>"

theorem reconcile_keeps_unsynced_witness:
  "\<exists>x s'. localDirty (classify plain_entry) \<and>
     reconcileEntry offline (demoRoot\<lparr>root_mode := TwoWay\<rparr>) plain_entry folder_app = (x, s') \<and>
     fs_at (app_files s') ''/home/a/d/x'' = Some (File [7] 0)"
proof -
  let ?root = "demoRoot\<lparr>root_mode := TwoWay\<rparr>"
  obtain x s' where run: "reconcileEntry offline ?root plain_entry folder_app = (x, s')"
    by (cases "reconcileEntry offline ?root plain_entry folder_app")
  have dirty: "localDirty (classify plain_entry)" by code_simp
  have mode: "root_mode ?root \<noteq> RemoteMirror" by code_simp
  have "fs_at (app_files folder_app) ''/home/a/d/x'' = Some (File [7] 0)" by code_simp
  from reconcile_keeps_unsynced [OF dirty mode run this] run dirty show ?thesis by blast
qed


text \<open>
  An entry marked as a conflict stays one, and every further reconciliation downloads the
  remote version once more, to a new path: copies pile up for as long as the conflict is open.
\<close>

theorem conflict_copied_at_every_reconcile:
  assumes inv: "entries_inv (app_entries s)" and r: "r \<in> set (app_entries s)"
    and entry: "hasConflict (classify (entryOf r))" "\<not> r_is_directory r" "r_remote_deleted_at r = None"
      "r_remote_file_id r = Some fileId"
    and env: "rc_conflictRepo env" "rc_download env = Some denv"
    and path: "normalizeFsPath (rc_cwd env) (root_localPath root) = Inr rootPath"
      "conflictPathFor (rc_timestamp env (Suc (app_tick s))) (path_append rootPath (r_local_path r)) (app_files s) = Inr cp"
    and remote: "downloadTo denv (rc_mtime env (Suc (app_tick s))) fileId cp (app_files s) = (Inr (), fs')"
  shows "\<exists>s' r'. reconcileEntry env root (entryOf r) s = (Inr (), s') \<and>
    \<not> fs_exists cp (app_files s) \<and> fs_exists cp (app_files s') \<and>
    r' \<in> set (app_entries s') \<and> r_id r' = r_id r \<and> decide (classify (entryOf r')) (root_mode root) = Conflict"
proof -
  let ?f = "\<lambda>x. x\<lparr>r_conflict_state := Some ''local_remote_modified'',
    r_conflict_reason := Some ''local and remote changed since last sync'',
    r_updated_at := clock (rc_clocks env) (app_tick s)\<rparr>"
  obtain t where t: "markConflict (clock (rc_clocks env) (app_tick s)) (r_id r) ''local_remote_modified''
      ''local and remote changed since last sync'' (app_entries s) = (Inr (), t)" "?f r \<in> set t"
    using update_by_id [OF inv r refl, of ?f] by (auto simp: markConflict_def readable_row_def)
  have "fs_exists cp fs'" using downloadTo_content [OF remote] by (auto simp: fs_exists_def)
  moreover have "hasConflict (classify (entryOf (?f r)))" by (simp add: classify_def Let_def)
  then have "decide (classify (entryOf (?f r))) (root_mode root) = Conflict" by (rule decide_conflict)
  moreover have "\<not> fs_exists cp (app_files s)" using conflictPathFor_fresh [OF path(2)] .
  moreover have "reconcileEntry env root (entryOf r) s =
      (Inr (), s\<lparr>app_entries := t, app_files := fs', app_tick := Suc (Suc (app_tick s))\<rparr>)"
    using decide_conflict [OF entry(1)] entry(2-4) env path remote t(1)
    by (simp add: reconcileEntry_def Let_def bindE_def liftE_def applyConflict_def timed_def onEntries_def
        catchE_def returnE_def download_def)
  ultimately show ?thesis using t(2) by (intro exI [of _ "s\<lparr>app_entries := t, app_files := fs', app_tick := Suc (Suc (app_tick s))\<rparr>"]
      exI [of _ "?f r"]) simp
qed

text \<open>A server with one file of one byte.\<close>

definition one_file :: download_env where
  "one_file =
     \<lparr>de_crypto = ue_crypto sample_env, de_masterKey = Inr [9],
      de_parse = \<lambda>_. Inr (JObject [(''chunks'', JArray [JObject [(''cipher_size'', JInt 2), (''plain_size'', JInt 1)]])]),
      de_getFileRecord = \<lambda>i. Inr \<lparr>fr_fileId = i, fr_vaultId = ''v'', fr_chunkSize = 4, fr_totalChunks = 1,
        fr_plaintextSize = 1, fr_encryptedHash = [], fr_encryptedMetadata = ''AAA='', fr_encryptedFileKey = ''AAA='',
        fr_encryptedManifest = ''AAA='', fr_sourceUrl = ''u''\<rparr>,
      de_getRange = \<lambda>_ _ _. Inr [5, 0]\<rparr>"

definition conflicting_file :: entry_row where
  "conflicting_file = unsynced_file\<lparr>r_remote_id := Some ''f9'', r_remote_file_id := Some ''f9'',
     r_conflict_state := Some ''local_remote_modified''\<rparr>"

definition conflict_app :: "unit app" where
  "conflict_app = folder_app\<lparr>app_entries := [conflicting_file]\<rparr>"

definition online :: "unit reconcile_env" where
  "online = offline\<lparr>rc_download := Some one_file\<rparr>"

theorem conflict_copied_at_every_reconcile_witness:
  "\<exists>s' r'. reconcileEntry online demoRoot (entryOf conflicting_file) conflict_app = (Inr (), s') \<and>
     fs_exists ''/home/a/d/x (remote conflict 20240101-000000)'' (app_files s') \<and>
     r' \<in> set (app_entries s') \<and> decide (classify (entryOf r')) (root_mode demoRoot) = Conflict"
proof -
  let ?cp = "''/home/a/d/x (remote conflict 20240101-000000)''"
  have "readable_row conflicting_file"
    by (simp add: conflicting_file_def unsynced_file_def insert_file_def readable_row_def new_entry_def
        stoll_toMtimeString int64_def)
  then have inv: "entries_inv (app_entries conflict_app)"
    by (simp add: conflict_app_def folder_app_def entries_inv_def entries_ok_def uniq_on_def entries_pk_def
        idx_entries_sync_root_local_path_def)
  have r: "conflicting_file \<in> set (app_entries conflict_app)" by (simp add: conflict_app_def)
  have entry: "hasConflict (classify (entryOf conflicting_file))" "\<not> r_is_directory conflicting_file"
    "r_remote_deleted_at conflicting_file = None" "r_remote_file_id conflicting_file = Some ''f9''"
    by code_simp+
  have env: "rc_conflictRepo online" "rc_download online = Some one_file"
    by (simp_all add: online_def offline_def)
  let ?path = "path_append ''/home/a'' (r_local_path conflicting_file)"
  have path: "normalizeFsPath (rc_cwd online) (root_localPath demoRoot) = Inr ''/home/a''" by code_simp
  have "path_append (parent_path ?path) (conflictName (rc_timestamp online (Suc (app_tick conflict_app)))
      (stem ?path) (extension ?path) 1) = ?cp" "\<not> fs_exists ?cp (app_files conflict_app)" by code_simp+
  then have free: "conflictPathFor (rc_timestamp online (Suc (app_tick conflict_app))) ?path (app_files conflict_app) = Inr ?cp"
    by (rule conflictPathFor_first)
  obtain fs' where remote: "downloadTo one_file (rc_mtime online (Suc (app_tick conflict_app))) ''f9'' ?cp
      (app_files conflict_app) = (Inr (), fs')"
  proof -
    have "fst (downloadTo one_file (rc_mtime online (Suc (app_tick conflict_app))) ''f9'' ?cp
      (app_files conflict_app)) = Inr ()" by code_simp
    then show thesis using that by (metis prod.collapse)
  qed
  from conflict_copied_at_every_reconcile [OF inv r entry env path free remote] show ?thesis by blast
qed

end
