(* ===== verification/Remote_Scanner.thy ===== *)
theory Remote_Scanner
  imports Sync_Reconciler Folder_Worker
begin

text \<open>
  The remote side of a sync root: \<open>GET /api/sync/entries\<close> and its decoding (api/ArkiveApi.cpp),
  \<open>RemoteScanner\<close> (sync/RemoteScanner.cpp), which walks the folders of the server and records
  what it finds in the entries table, and \<open>RemoteSyncService\<close> (service/RemoteSyncService.cpp),
  which does so for every enabled root at most every 30 seconds.

  Parameters: the HTTP client's \<open>getJson\<close>, the JSON parser, the cryptographic library and the
  vault's master key (or the exception of a locked vault).
\<close>

section \<open>Listing a folder\<close>

record ListSyncEntriesRequest =
  lq_folderId :: "string option"
  lq_includeDeleted :: bool
  lq_limit :: nat
  lq_cursor :: "string option"

record SyncEntryResponse =
  se_remoteId :: string
  se_type :: string
  se_remoteFileId :: "string option"
  se_remoteFolderId :: "string option"
  se_remoteParentFolderId :: "string option"
  se_encryptedName :: "string option"
  se_encryptedMetadata :: "string option"
  se_encryptedFileKey :: "string option"
  se_encryptedManifest :: "string option"
  se_deletedAt :: "string option"
  se_updatedAt :: string

record ListSyncEntriesResponse =
  ls_entries :: "SyncEntryResponse list"
  ls_nextCursor :: "string option"
  ls_hasMore :: bool

fun get_bool :: "json \<Rightarrow> bool result" where
  "get_bool (JBool b) = Inr b"
| "get_bool _ = Inl (Json_error ''type must be boolean'')"

definition optionalString :: "json \<Rightarrow> string \<Rightarrow> string option result" where
  "optionalString j key =
     (case j of
        JObject kvs \<Rightarrow>
          (case map_of kvs key of
             None \<Rightarrow> Inr None
           | Some JNull \<Rightarrow> Inr None
           | Some v \<Rightarrow> bindR (get_string v) (\<lambda>s. Inr (Some s)))
      | _ \<Rightarrow> Inr None)"

definition decodeSyncEntryResponse :: "json \<Rightarrow> SyncEntryResponse result" where
  "decodeSyncEntryResponse j =
     bindR (json_value get_string j ''type'' []) (\<lambda>type.
     bindR (json_value get_string j ''id'' []) (\<lambda>remoteId.
     bindR (if type = ''folder'' then Inr (Some remoteId) else optionalString j ''folder_id'') (\<lambda>remoteFolderId.
     bindR (optionalString j ''parent_folder_id'') (\<lambda>parent.
     bindR (optionalString j ''encrypted_name'') (\<lambda>name.
     bindR (optionalString j ''encrypted_metadata'') (\<lambda>metadata.
     bindR (optionalString j ''encrypted_file_key'') (\<lambda>fileKey.
     bindR (optionalString j ''encrypted_manifest'') (\<lambda>manifestText.
     bindR (optionalString j ''deleted_at'') (\<lambda>deletedAt.
     bindR (json_value get_string j ''updated_at'' []) (\<lambda>updatedAt.
       Inr \<lparr>se_remoteId = remoteId, se_type = type,
            se_remoteFileId = (if type = ''file'' then Some remoteId else None),
            se_remoteFolderId = remoteFolderId, se_remoteParentFolderId = parent,
            se_encryptedName = name, se_encryptedMetadata = metadata, se_encryptedFileKey = fileKey,
            se_encryptedManifest = manifestText, se_deletedAt = deletedAt, se_updatedAt = updatedAt\<rparr>))))))))))"

text \<open>Elements that are not objects are skipped.\<close>

fun decodeSyncEntries :: "json list \<Rightarrow> SyncEntryResponse list result" where
  "decodeSyncEntries [] = Inr []"
| "decodeSyncEntries (JObject kvs # js) =
     bindR (decodeSyncEntryResponse (JObject kvs)) (\<lambda>e. bindR (decodeSyncEntries js) (\<lambda>es. Inr (e # es)))"
| "decodeSyncEntries (_ # js) = decodeSyncEntries js"

definition decodeListSyncEntriesResponse :: "json \<Rightarrow> ListSyncEntriesResponse result" where
  "decodeListSyncEntriesResponse j =
     bindR (optionalString j ''next_cursor'') (\<lambda>nextCursor.
     bindR (json_value get_bool j ''has_more'' False) (\<lambda>hasMore.
     bindR (case array_member j ''entries'' of None \<Rightarrow> Inr [] | Some js \<Rightarrow> decodeSyncEntries js) (\<lambda>entries.
       Inr \<lparr>ls_entries = entries, ls_nextCursor = nextCursor, ls_hasMore = hasMore\<rparr>)))"

text \<open>The query string, built piece by piece.\<close>

definition add_query :: "string \<Rightarrow> string \<times> bool \<Rightarrow> string \<times> bool" where
  "add_query piece ph = (case ph of (path, hasQuery) \<Rightarrow> (path @ (if hasQuery then ''&'' else ''?'') @ piece, True))"

definition buildListSyncEntriesPath :: "ListSyncEntriesRequest \<Rightarrow> string" where
  "buildListSyncEntriesPath q =
     (let p0 = (''/api/sync/entries'', False);
          p1 = (case lq_folderId q of None \<Rightarrow> p0 | Some f \<Rightarrow> add_query (''folder_id='' @ f) p0);
          p2 = (if lq_includeDeleted q then add_query ''include_deleted=true'' p1 else p1);
          p3 = (if lq_limit q > 0 then add_query (''limit='' @ nat_to_string (lq_limit q)) p2 else p2);
          p4 = (case lq_cursor q of None \<Rightarrow> p3 | Some c \<Rightarrow> add_query (''cursor='' @ c) p3)
      in fst p4)"

section \<open>The scanner\<close>

record 'srv remote_env =
  re_clocks :: clocks
  re_crypto :: crypto_lib
  re_masterKey :: "bytes result"
  re_parse :: "string \<Rightarrow> json result"
  re_getJson :: "string \<Rightarrow> ('srv, json) act"

definition fetchEntries :: "'srv remote_env \<Rightarrow> string option \<Rightarrow> ('srv, ListSyncEntriesResponse) app_act" where
  "fetchEntries env folderId =
     bindE (onServer (re_getJson env (buildListSyncEntriesPath
              \<lparr>lq_folderId = folderId, lq_includeDeleted = True, lq_limit = 100, lq_cursor = None\<rparr>))) (\<lambda>j.
     liftE (\<lambda>_. decodeListSyncEntriesResponse j))"

definition decryptedMetadata :: "'srv remote_env \<Rightarrow> account_table \<Rightarrow> SyncEntryResponse \<Rightarrow> bytes option result" where
  "decryptedMetadata env account entry =
     bindR (re_masterKey env) (\<lambda>masterKey.
     if se_type entry = ''folder'' then
       bindR (decodeBase64 (case se_encryptedName entry of Some n \<Rightarrow> n | None \<Rightarrow> [])) (\<lambda>c.
       bindR (lib_decryptChunk (re_crypto env) masterKey (toBytes kFolderName) c) (\<lambda>p. Inr (Some p)))
     else case (se_type entry = ''file'', se_encryptedMetadata entry, se_encryptedFileKey entry) of
       (True, Some metadata, Some key) \<Rightarrow>
         (case Option.bind (getAccount account) acc_userId of
            None \<Rightarrow> Inr None
          | Some user \<Rightarrow>
              if user = [] then Inr None
              else
                bindR (decodeBase64 key) (\<lambda>wrapped.
                bindR (lib_unwrapFileKey (re_crypto env) wrapped masterKey (toBytes (makeFileKey user (se_remoteId entry)))) (\<lambda>fileKey.
                bindR (decodeBase64 metadata) (\<lambda>c.
                bindR (lib_decryptChunk (re_crypto env) fileKey (toBytes (makeFileMetadata user (se_remoteId entry))) c) (\<lambda>p.
                  Inr (Some p))))))
     | _ \<Rightarrow> Inr None)"

definition decryptEntryName :: "'srv remote_env \<Rightarrow> account_table \<Rightarrow> SyncEntryResponse \<Rightarrow> string option result" where
  "decryptEntryName env account entry =
     (if se_type entry = ''folder'' \<and> (se_encryptedName entry = None \<or> se_encryptedName entry = Some []) then Inr None
      else
        bindR (decryptedMetadata env account entry) (\<lambda>plaintext.
        case plaintext of
          None \<Rightarrow> Inr None
        | Some bs \<Rightarrow> bindR (re_parse env (fromBytes bs)) (\<lambda>j. Inr (string_member j ''name''))))"

text \<open>The path an entry gets: below its parent by its name, or the one it is known by.\<close>

definition remotePath :: "string \<Rightarrow> string option \<Rightarrow> Entry option \<Rightarrow> string option" where
  "remotePath parent name existing =
     (case name of
        Some n \<Rightarrow> Some (path_append parent n)
      | None \<Rightarrow>
          (case existing of
             Some e \<Rightarrow> if e_relativePath e \<noteq> [] then Some (e_relativePath e) else None
           | None \<Rightarrow> None))"

definition remoteUpsert :: "string \<Rightarrow> string \<Rightarrow> SyncEntryResponse \<Rightarrow> RemoteEntryUpsert" where
  "remoteUpsert syncRootId path entry =
     \<lparr>ru_syncRootId = syncRootId, ru_remoteId = se_remoteId entry, ru_localPath = path,
      ru_remoteType = se_type entry, ru_remoteFileId = se_remoteFileId entry,
      ru_remoteFolderId = se_remoteFolderId entry, ru_remoteParentFolderId = se_remoteParentFolderId entry,
      ru_encryptedName = se_encryptedName entry, ru_encryptedMetadata = se_encryptedMetadata entry,
      ru_remoteDeletedAt = se_deletedAt entry, ru_remoteUpdatedAt = se_updatedAt entry\<rparr>"

text \<open>One round of the loop, up to the descent: the path the entry was recorded under, if it was.\<close>

definition recordEntry ::
    "'srv remote_env \<Rightarrow> string \<Rightarrow> string \<Rightarrow> SyncEntryResponse \<Rightarrow> ('srv, string option) app_act" where
  "recordEntry env syncRootId parent entry =
     bindE (liftE (\<lambda>s. findEntryByRemoteId syncRootId (se_remoteId entry) (app_entries s))) (\<lambda>existing.
     bindE (liftE (\<lambda>s. decryptEntryName env (app_account s) entry)) (\<lambda>name.
     case remotePath parent name existing of
       None \<Rightarrow> returnE None
     | Some path \<Rightarrow>
         bindE (timed (re_clocks env) (\<lambda>now newId. onEntries (upsertRemoteEntry now newId (remoteUpsert syncRootId path entry))))
           (\<lambda>_. returnE (Some path))))"

text \<open>
  The folders of the server may form a cycle, so that the recursion need not end: \<open>None\<close> stands
  for a scan that is still going down when the fuel is used up. A loop stops at the first such
  round.
\<close>

fun forO :: "'a list \<Rightarrow> ('a \<Rightarrow> ('s, unit option) act) \<Rightarrow> ('s, unit option) act" where
  "forO [] f = returnE (Some ())"
| "forO (x # xs) f = bindE (f x) (\<lambda>r. case r of None \<Rightarrow> returnE None | Some _ \<Rightarrow> forO xs f)"

definition descends :: "SyncEntryResponse \<Rightarrow> bool" where
  "descends entry \<longleftrightarrow> se_type entry = ''folder'' \<and> se_deletedAt entry = None \<and> se_remoteFolderId entry \<noteq> None"

fun scanFolder ::
    "nat \<Rightarrow> 'srv remote_env \<Rightarrow> string \<Rightarrow> string option \<Rightarrow> string \<Rightarrow> ('srv, unit option) app_act" where
  "scanFolder 0 env syncRootId remoteFolderId parent = returnE None"
| "scanFolder (Suc fuel) env syncRootId remoteFolderId parent =
     bindE (fetchEntries env remoteFolderId) (\<lambda>response.
     forO (ls_entries response) (\<lambda>entry.
       bindE (recordEntry env syncRootId parent entry) (\<lambda>path. case path of
         None \<Rightarrow> returnE (Some ())
       | Some p \<Rightarrow>
           if descends entry then scanFolder fuel env syncRootId (se_remoteFolderId entry) p
           else returnE (Some ()))))"

definition requireRoot :: "string \<Rightarrow> ('srv, SyncRoot) app_act" where
  "requireRoot syncRootId = liftE (\<lambda>s. bindR (findSyncRootById syncRootId (app_roots s)) (\<lambda>found.
     case found of None \<Rightarrow> Inl (Runtime_error ''Sync root is missing'') | Some root \<Rightarrow> Inr root))"

definition scanRemoteRoot :: "nat \<Rightarrow> 'srv remote_env \<Rightarrow> string \<Rightarrow> ('srv, unit option) app_act" where
  "scanRemoteRoot fuel env syncRootId =
     bindE (requireRoot syncRootId) (\<lambda>root.
       scanFolder fuel env syncRootId (if root_folderId root = [] then None else Some (root_folderId root)) [])"

definition isRootDeleted :: "'srv remote_env \<Rightarrow> string \<Rightarrow> ('srv, bool) app_act" where
  "isRootDeleted env syncRootId =
     bindE (requireRoot syncRootId) (\<lambda>root.
     if root_folderId root = [] then returnE False
     else
       bindE (fetchEntries env None) (\<lambda>response.
         returnE (case find (\<lambda>e. se_remoteId e = root_folderId root \<or> se_remoteFolderId e = Some (root_folderId root))
                         (ls_entries response) of
            None \<Rightarrow> False
          | Some e \<Rightarrow> se_deletedAt e \<noteq> None)))"

section \<open>The service\<close>

text \<open>
  The times of the last scans are the service's own state. Times are nanoseconds of a steady
  clock; one reading serves the whole round.
\<close>

type_synonym ('srv, 'a) remote_act = "('srv app \<times> (string \<times> int) list, 'a) act"

definition setLastScan :: "string \<Rightarrow> int \<Rightarrow> ('srv, unit) remote_act" where
  "setLastScan root now sl = (case sl of (s, l) \<Rightarrow> (Inr (), (s, (root, now) # filter (\<lambda>(r, _). r \<noteq> root) l)))"

definition kRemoteScanInterval :: int where
  "kRemoteScanInterval = 30 * 1000000000"

definition scannedRecently :: "string \<Rightarrow> int \<Rightarrow> (string \<times> int) list \<Rightarrow> bool" where
  "scannedRecently root now l \<longleftrightarrow>
     (case map_of l root of None \<Rightarrow> False | Some t \<Rightarrow> now - t < kRemoteScanInterval)"

text \<open>What a root whose folder is deleted on the server comes to.\<close>

definition removeDeletedRoot :: "string \<Rightarrow> 'srv remote_env \<Rightarrow> SyncRoot \<Rightarrow> ('srv, unit) app_act" where
  "removeDeletedRoot cwd env root =
     bindE (timed (re_clocks env) (\<lambda>now _. onEntries (markRootRemoteDeleted now (root_Id root)))) (\<lambda>_.
     bindE (onRoots (disableSyncRoot (root_Id root))) (\<lambda>_.
     bindE (liftE (\<lambda>_. normalizeFsPath cwd (root_localPath root))) (\<lambda>path.
       onFiles (fs_remove_all path))))"

definition remoteTickRoot ::
    "nat \<Rightarrow> string \<Rightarrow> 'srv remote_env \<Rightarrow> int \<Rightarrow> SyncRoot \<Rightarrow> ('srv, bool option) remote_act" where
  "remoteTickRoot fuel cwd env now root =
     bindE (getsE (\<lambda>(_, l). scannedRecently (root_Id root) now l)) (\<lambda>recent.
     if root_enabled root = 0 \<or> recent then returnE (Some False)
     else
       bindE (onApp (scanRemoteRoot fuel env (root_Id root))) (\<lambda>ended. case ended of
         None \<Rightarrow> returnE None
       | Some _ \<Rightarrow>
           bindE (onApp (isRootDeleted env (root_Id root))) (\<lambda>deleted.
           bindE (if deleted then onApp (removeDeletedRoot cwd env root) else returnE ()) (\<lambda>_.
           bindE (setLastScan (root_Id root) now) (\<lambda>_.
             returnE (Some True))))))"

fun remoteTickRoots ::
    "nat \<Rightarrow> string \<Rightarrow> 'srv remote_env \<Rightarrow> int \<Rightarrow> SyncRoot list \<Rightarrow> bool \<Rightarrow> ('srv, bool option) remote_act" where
  "remoteTickRoots fuel cwd env now [] scanned = returnE (Some scanned)"
| "remoteTickRoots fuel cwd env now (root # roots) scanned =
     bindE (remoteTickRoot fuel cwd env now root) (\<lambda>r. case r of
       None \<Rightarrow> returnE None
     | Some b \<Rightarrow> remoteTickRoots fuel cwd env now roots (scanned \<or> b))"

definition remoteRunTick ::
    "nat \<Rightarrow> string \<Rightarrow> 'srv remote_env option \<Rightarrow> int \<Rightarrow> SyncRoot list \<Rightarrow> ('srv, bool option) remote_act" where
  "remoteRunTick fuel cwd scanner now roots =
     (case scanner of None \<Rightarrow> returnE (Some False) | Some env \<Rightarrow> remoteTickRoots fuel cwd env now roots False)"

definition remoteRunNow ::
    "nat \<Rightarrow> string \<Rightarrow> 'srv remote_env option \<Rightarrow> int \<Rightarrow> SyncRoot list \<Rightarrow> ('srv, bool option) remote_act" where
  "remoteRunNow fuel cwd scanner now roots sl =
     (case sl of (s, l) \<Rightarrow>
        remoteRunTick fuel cwd scanner now roots (s, filter (\<lambda>(r, _). r \<notin> set (map root_Id roots)) l))"

section \<open>What a scan keeps\<close>

lemma keeps_forO [keeps_intros]: "(\<And>x. keeps I (f x)) \<Longrightarrow> keeps I (forO xs f)"
  by (induction xs) (auto intro!: keeps_intros)

lemma leaves_forO [leaves_intros]: "(\<And>x. leaves g (f x)) \<Longrightarrow> leaves g (forO xs f)"
  by (induction xs) (auto intro!: leaves_intros split: option.split)

lemma keeps_recordEntry [keeps_intros]: "keeps app_inv (recordEntry env root parent e)"
  unfolding recordEntry_def by (auto intro!: keeps_intros)

lemma leaves_recordEntry [leaves_intros]:
  "leaves app_files (recordEntry env root parent e)" "leaves app_queue (recordEntry env root parent e)"
  "leaves app_roots (recordEntry env root parent e)"
  unfolding recordEntry_def by (auto intro!: leaves_intros split: option.split)

lemma fetchEntries_keeps [keeps_intros]: "keeps app_inv (fetchEntries env f)"
  unfolding fetchEntries_def by (auto intro!: keeps_intros)

lemma leaves_fetchEntries [leaves_intros]:
  "leaves app_files (fetchEntries env f)" "leaves app_queue (fetchEntries env f)"
  "leaves app_roots (fetchEntries env f)" "leaves app_entries (fetchEntries env f)"
  unfolding fetchEntries_def by (auto intro!: leaves_intros)

lemma scanFolder_keeps [keeps_intros]: "keeps app_inv (scanFolder fuel env root f parent)"
  by (induction fuel arbitrary: f parent) (auto intro!: keeps_intros)

lemma leaves_scanFolder [leaves_intros]:
  "leaves app_files (scanFolder fuel env root f parent)" "leaves app_queue (scanFolder fuel env root f parent)"
  "leaves app_roots (scanFolder fuel env root f parent)"
  by (induction fuel arbitrary: f parent) (auto intro!: leaves_intros split: option.split)

lemma forO_ends:
  assumes "\<And>x s. x \<in> set xs \<Longrightarrow> fst (f x s) \<noteq> Inr None"
  shows "fst (forO xs f s) \<noteq> Inr None"
  using assms
proof (induction xs arbitrary: s)
  case Nil
  then show ?case by (simp add: returnE_def)
next
  case (Cons x xs)
  obtain y s' where y: "f x s = (y, s')" by fastforce
  have "y \<noteq> Inr None" using Cons.prems [of x s] y by simp
  moreover have "fst (forO xs f s') \<noteq> Inr None" using Cons.IH Cons.prems by simp
  ultimately show ?case using y by (auto simp: bindE_def split: sum.split option.split)
qed

section \<open>Properties\<close>


text \<open>A server with one folder in the root's folder, whose entries are shown under their names.\<close>

definition sample_listing :: "json \<Rightarrow> string \<Rightarrow> ('srv, json) act" where
  "sample_listing entries path srv =
     (Inr (if path = buildListSyncEntriesPath \<lparr>lq_folderId = Some ''root'', lq_includeDeleted = True, lq_limit = 100,
             lq_cursor = None\<rparr> then JObject [(''entries'', JArray [entries])] else JObject []), srv)"

definition sample_remote :: "json \<Rightarrow> string remote_env" where
  "sample_remote entries =
     \<lparr>re_clocks = \<lparr>clock = \<lambda>_. ''now'', uuid = \<lambda>n. to_string (int n)\<rparr>, re_crypto = sample_crypto, re_masterKey = Inr [1],
      re_parse = \<lambda>str. Inr (JObject [(''name'', JString str)]), re_getJson = sample_listing entries\<rparr>"

definition sample_folder_json :: "string \<Rightarrow> string \<Rightarrow> json" where
  "sample_folder_json i name = JObject
     [(''type'', JString ''folder''), (''id'', JString i),
      (''encrypted_name'', JString (encodeBase64 (toBytes name))), (''updated_at'', JString ''t'')]"

lemma decode_sample_folder:
  "decodeSyncEntries [sample_folder_json i name] = Inr
     [\<lparr>se_remoteId = i, se_type = ''folder'', se_remoteFileId = None, se_remoteFolderId = Some i,
       se_remoteParentFolderId = None, se_encryptedName = Some (encodeBase64 (toBytes name)),
       se_encryptedMetadata = None, se_encryptedFileKey = None, se_encryptedManifest = None,
       se_deletedAt = None, se_updatedAt = ''t''\<rparr>]"
  by (simp add: sample_folder_json_def decodeSyncEntryResponse_def json_value_def optionalString_def)

lemma fetch_sample:
  "fetchEntries (sample_remote (sample_folder_json i name)) f s =
     (Inr \<lparr>ls_entries = (if buildListSyncEntriesPath \<lparr>lq_folderId = f, lq_includeDeleted = True, lq_limit = 100,
             lq_cursor = None\<rparr> = buildListSyncEntriesPath \<lparr>lq_folderId = Some ''root'', lq_includeDeleted = True,
             lq_limit = 100, lq_cursor = None\<rparr>
           then [\<lparr>se_remoteId = i, se_type = ''folder'', se_remoteFileId = None, se_remoteFolderId = Some i,
             se_remoteParentFolderId = None, se_encryptedName = Some (encodeBase64 (toBytes name)),
             se_encryptedMetadata = None, se_encryptedFileKey = None, se_encryptedManifest = None,
             se_deletedAt = None, se_updatedAt = ''t''\<rparr>] else []), ls_nextCursor = None, ls_hasMore = False\<rparr>, s)"
  by (simp add: fetchEntries_def sample_remote_def sample_listing_def onServer_def act_simps
      decodeListSyncEntriesResponse_def optionalString_def json_value_def array_member_def decode_sample_folder)

lemma decrypt_sample:
  assumes "se_type e = ''folder''" and "se_encryptedName e = Some (encodeBase64 (toBytes name))" and "name \<noteq> []"
  shows "decryptEntryName (sample_remote j) account e = Inr (Some name)"
proof -
  have "toBytes name \<noteq> []" using assms(3) by (simp add: toBytes_def)
  then show ?thesis
    using assms
    by (simp add: decryptEntryName_def decryptedMetadata_def sample_remote_def sample_crypto_def
        base64.decode_encode string_member_def encodeBase64_Nil_iff)
qed


text \<open>
  A folder that contains itself is never scanned to the end: if every listing of a folder
  starts with a folder entry that leads back to it and whose name can be read, then no depth
  of recursion lets the scan of that folder return.
\<close>

theorem cyclic_folders_never_scanned:
  assumes "\<And>s r s'. fetchEntries env f s = (Inr r, s') \<Longrightarrow>
      \<exists>e es. ls_entries r = e # es \<and> descends e \<and> se_remoteFolderId e = f \<and>
        (\<forall>account. \<exists>name. decryptEntryName env account e = Inr (Some name))"
  shows "fst (scanFolder fuel env root f parent s) \<noteq> Inr (Some ())"
proof (induction fuel arbitrary: parent s)
  case 0
  then show ?case by (simp add: returnE_def)
next
  case (Suc fuel)
  obtain x s' where fetch: "fetchEntries env f s = (x, s')" by fastforce
  show ?case
  proof (cases x)
    case (Inl e)
    then show ?thesis using fetch by (simp add: bindE_def)
  next
    case (Inr r)
    obtain e es where e: "ls_entries r = e # es" "descends e" "se_remoteFolderId e = f"
      "\<forall>account. \<exists>name. decryptEntryName env account e = Inr (Some name)"
      using assms [OF fetch [unfolded Inr]] by blast
    obtain y u where y: "recordEntry env root parent e s' = (y, u)" by fastforce
    obtain name where "decryptEntryName env (app_account s') e = Inr (Some name)" using e(4) by blast
    then have "y \<noteq> Inr None"
      using y by (auto simp: recordEntry_def act_simps remotePath_def split: sum.splits prod.splits)
    then show ?thesis
      using fetch Inr e y Suc.IH
      by (auto simp: bindE_def returnE_def split: sum.splits prod.splits option.splits)
         (metis fst_conv option.exhaust old.unit.exhaust)+
  qed
qed

theorem cyclic_folders_never_scanned_witness:
  "fst (scanFolder 7 (sample_remote (sample_folder_json ''root'' ''loop'')) ''s1'' (Some ''root'') [] sample_app) \<noteq> Inr (Some ())"
proof (rule cyclic_folders_never_scanned)
  fix s r and s' :: "string app"
  assume "fetchEntries (sample_remote (sample_folder_json ''root'' ''loop'')) (Some ''root'') s = (Inr r, s')"
  then show "\<exists>e es. ls_entries r = e # es \<and> descends e \<and> se_remoteFolderId e = Some ''root'' \<and>
      (\<forall>account. \<exists>name. decryptEntryName (sample_remote (sample_folder_json ''root'' ''loop'')) account e = Inr (Some name))"
    unfolding fetch_sample by (auto simp: descends_def decrypt_sample simp del: encodeBase64.simps)
qed

text \<open>
  Only the first page of a folder is ever read: the outcome of a scan does not depend on
  how the server answers any request but the first-page requests, so that what a folder holds
  beyond its first hundred entries is never seen, although the answer says that there is more.
\<close>

definition firstPage :: "string option \<Rightarrow> string" where
  "firstPage f = buildListSyncEntriesPath \<lparr>lq_folderId = f, lq_includeDeleted = True, lq_limit = 100, lq_cursor = None\<rparr>"

definition onlyFirstPages :: "(string \<Rightarrow> ('srv, json) act) \<Rightarrow> 'srv remote_env \<Rightarrow> 'srv remote_env" where
  "onlyFirstPages other env = env\<lparr>re_getJson := \<lambda>p. if p \<in> range firstPage then re_getJson env p else other p\<rparr>"

lemma onlyFirstPages_simps:
  "re_clocks (onlyFirstPages other env) = re_clocks env" "re_crypto (onlyFirstPages other env) = re_crypto env"
  "re_masterKey (onlyFirstPages other env) = re_masterKey env" "re_parse (onlyFirstPages other env) = re_parse env"
  by (simp_all add: onlyFirstPages_def)

lemma fetch_onlyFirstPages: "fetchEntries (onlyFirstPages other env) f = fetchEntries env f"
  by (simp add: fetchEntries_def onlyFirstPages_def firstPage_def [symmetric])

lemma record_onlyFirstPages: "recordEntry (onlyFirstPages other env) root parent e = recordEntry env root parent e"
  unfolding recordEntry_def decryptEntryName_def decryptedMetadata_def onlyFirstPages_simps by (rule refl)

theorem remote_scan_first_page_only:
  "scanFolder fuel (onlyFirstPages other env) root f parent = scanFolder fuel env root f parent"
  by (induction fuel arbitrary: f parent)
    (simp_all add: fetch_onlyFirstPages record_onlyFirstPages cong: option.case_cong if_cong)

text \<open>What recording an entry does when its name can be read.\<close>

lemma recordEntry_named:
  assumes "findEntryByRemoteId root (se_remoteId e) (app_entries s) = Inr existing"
    and "decryptEntryName env (app_account s) e = Inr (Some name)"
  shows "recordEntry env root parent e s =
    (case upsertRemoteEntry (clock (re_clocks env) (app_tick s)) (uuid (re_clocks env) (app_tick s))
            (remoteUpsert root (path_append parent name) e) (app_entries s) of
       (x, t) \<Rightarrow> (case x of Inl err \<Rightarrow> Inl err | Inr _ \<Rightarrow> Inr (Some (path_append parent name)),
                  s\<lparr>app_entries := t, app_tick := Suc (app_tick s)\<rparr>))"
  using assms
  by (simp add: recordEntry_def act_simps remotePath_def timed_def onEntries_def split: prod.split sum.split)

lemma findEntryByRemoteId_total:
  assumes "entries_inv t"
  shows "\<exists>x. findEntryByRemoteId root i t = Inr x"
proof (cases "filter (\<lambda>r. r_sync_root_id r = root \<and> r_remote_id r = Some i) t")
  case Nil
  then show ?thesis by (simp add: findEntryByRemoteId_def readFirst_def)
next
  case (Cons r rs)
  then have "r \<in> set (filter (\<lambda>r. r_sync_root_id r = root \<and> r_remote_id r = Some i) t)" by simp
  then have "r \<in> set t" by simp
  then have "readEntry r = Inr (entryOf r)" using assms by (simp add: entries_inv_row readEntry_readable)
  then show ?thesis using Cons by (simp add: findEntryByRemoteId_def readFirst_def)
qed

text \<open>
  Renaming onto a path that another entry is known by blocks the scan: if the table has one
  row with the remote identifier of a listed entry and another row with the path its new name
  gives, recording the entry violates the unique index and throws, the table is unchanged,
  and a scan of a folder whose listing starts with that entry throws each time.
\<close>

theorem rename_onto_known_path_blocks_scan:
  assumes inv: "app_inv s" and rows: "a \<in> set (app_entries s)" "b \<in> set (app_entries s)" "a \<noteq> b"
    and a: "r_sync_root_id a = root" "r_remote_id a = Some (se_remoteId e)"
    and b: "r_sync_root_id b = root" "r_local_path b = path_append parent name"
    and name: "decryptEntryName env (app_account s) e = Inr (Some name)"
    and listed: "fetchEntries env f s = (Inr r, s)" "ls_entries r = e # es"
  shows "\<exists>s'. scanFolder (Suc fuel) env root f parent s = (Inl (step_failed ''entries''), s') \<and>
    app_entries s' = app_entries s"
proof -
  have ok: "entries_inv (app_entries s)" "entries_ok (app_entries s)"
    using inv by (simp_all add: app_inv_def entries_inv_def)
  obtain existing where existing: "findEntryByRemoteId root (se_remoteId e) (app_entries s) = Inr existing"
    using findEntryByRemoteId_total [OF ok(1)] by blast
  define u where "u = remoteUpsert root (path_append parent name) e"
  define known where "known = (\<lambda>r :: entry_row. r_sync_root_id r = ru_syncRootId u \<and> r_remote_id r = Some (ru_remoteId u))"
  let ?now = "clock (re_clocks env) (app_tick s)"
  let ?t = "update_where known (update_remote ?now u) (app_entries s)"
  have u: "ru_syncRootId u = root" "ru_localPath u = path_append parent name" "ru_remoteId u = se_remoteId e"
    by (simp_all add: u_def remoteUpsert_def)
  have "\<not> uniq_on idx_entries_sync_root_local_path ?t"
  proof
    assume uniq: "uniq_on idx_entries_sync_root_local_path ?t"
    define upd where "upd = (\<lambda>r. if known r then update_remote ?now u r else r)"
    have mem: "upd a \<in> set ?t" "upd b \<in> set ?t" using rows by (auto simp: upd_def update_where_def)
    have key: "idx_entries_sync_root_local_path (upd a) = Some (root, path_append parent name)"
      "idx_entries_sync_root_local_path (upd b) = Some (root, path_append parent name)"
      using a b u by (simp_all add: upd_def known_def update_remote_def idx_entries_sync_root_local_path_def)
    have "upd a = upd b" by (rule uniq_onD [OF uniq mem key])
    then have "r_id a = r_id b" by (auto simp: upd_def update_remote_def dest!: arg_cong [where f = r_id] split: if_splits)
    then show False
      using ok(2) rows uniq_onD [of entries_pk "app_entries s" a b "r_id a"] by (simp add: entries_ok_def entries_pk_def)
  qed
  then have "sql_update entries_ok (step_failed ''entries'') known (update_remote ?now u) (app_entries s) =
      Inl (step_failed ''entries'')"
    by (simp add: sql_update_def entries_ok_def)
  then have "upsertRemoteEntry ?now (uuid (re_clocks env) (app_tick s)) u (app_entries s) =
      (Inl (step_failed ''entries''), app_entries s)"
    by (simp add: upsertRemoteEntry_def Let_def known_def)
  then show ?thesis
    using listed recordEntry_named [OF existing name, of parent] by (simp add: bindE_def u_def)
qed

definition sample_entry :: "string \<Rightarrow> string \<Rightarrow> SyncEntryResponse" where
  "sample_entry i name =
     \<lparr>se_remoteId = i, se_type = ''folder'', se_remoteFileId = None, se_remoteFolderId = Some i,
      se_remoteParentFolderId = None, se_encryptedName = Some (encodeBase64 (toBytes name)),
      se_encryptedMetadata = None, se_encryptedFileKey = None, se_encryptedManifest = None,
      se_deletedAt = None, se_updatedAt = ''t''\<rparr>"

definition sample_known :: "string \<Rightarrow> string \<Rightarrow> entry_row" where
  "sample_known i path = insert_remote ''t'' i (remoteUpsert ''s1'' path (sample_entry i path))"

definition sample_two :: "string app" where
  "sample_two = sample_app\<lparr>app_entries := [sample_known ''f'' ''old'', sample_known ''g'' ''docs'']\<rparr>"

lemma sample_known_simps:
  "r_id (sample_known i path) = i" "r_sync_root_id (sample_known i path) = ''s1''"
  "r_remote_id (sample_known i path) = Some i" "r_local_path (sample_known i path) = path"
  by (simp_all add: sample_known_def insert_remote_def remoteUpsert_def new_entry_def sample_entry_def)

lemma sample_two_inv: "app_inv sample_two"
proof -
  have "entries_inv [sample_known ''f'' ''old'', sample_known ''g'' ''docs'']"
    by (simp add: entries_inv_def entries_ok_def uniq_on_Cons has_key_def keys_simps sample_known_simps)
      (simp add: sample_known_def readable_updates)
  then show ?thesis using sample_app_inv by (simp add: app_inv_def sample_two_def)
qed

theorem rename_onto_known_path_blocks_scan_witness:
  "\<exists>s'. scanFolder (Suc 3) (sample_remote (sample_folder_json ''f'' ''docs'')) ''s1'' (Some ''root'') [] sample_two =
      (Inl (step_failed ''entries''), s') \<and> app_entries s' = app_entries sample_two"
proof (rule rename_onto_known_path_blocks_scan [where a = "sample_known ''f'' ''old''" and b = "sample_known ''g'' ''docs''"
      and e = "sample_entry ''f'' ''docs''" and name = "''docs''" and es = "[]", OF sample_two_inv])
  show "sample_known ''f'' ''old'' \<noteq> sample_known ''g'' ''docs''"
  proof
    assume eq: "sample_known ''f'' ''old'' = sample_known ''g'' ''docs''"
    have "r_id (sample_known ''f'' ''old'') = r_id (sample_known ''g'' ''docs'')" by (simp only: eq)
    then show False by (simp add: sample_known_simps)
  qed
  show "decryptEntryName (sample_remote (sample_folder_json ''f'' ''docs'')) (app_account sample_two) (sample_entry ''f'' ''docs'') =
      Inr (Some ''docs'')"
    by (rule decrypt_sample) (simp_all add: sample_entry_def del: encodeBase64.simps)
  show "fetchEntries (sample_remote (sample_folder_json ''f'' ''docs'')) (Some ''root'') sample_two =
      (Inr \<lparr>ls_entries = [sample_entry ''f'' ''docs''], ls_nextCursor = None, ls_hasMore = False\<rparr>, sample_two)"
    unfolding fetch_sample sample_entry_def by simp
qed (simp_all add: sample_two_def sample_known_simps path_append_def is_absolute_def sample_entry_def del: encodeBase64.simps)

text \<open>
  Names from the server are not checked: a file whose decrypted name is an absolute path is
  recorded under exactly that path, whatever folder it is in, and when the policy downloads
  it, the download goes to that path, outside the sync root.
\<close>

theorem absolute_remote_name_escapes_root:
  assumes inv: "app_inv s" and name: "decryptEntryName env (app_account s) e = Inr (Some name)" "is_absolute name"
    and rootPath: "normalizeFsPath (rc_cwd renv) (root_localPath root) = Inr rootPath"
    and entry: "e_relativePath entry = name" "\<not> e_isDirectory entry" "e_remoteFileId entry = Some fileId"
      "decide (classify entry) (root_mode root) = Download" "rc_download renv = Some denv"
  shows "(\<forall>x s'. recordEntry env i parent e s = (Inr x, s') \<longrightarrow> x = Some name) \<and>
    reconcileEntry renv root entry u =
      catchE (bindE (download renv denv fileId name) (\<lambda>_. recordDownload renv entry name)) (\<lambda>_. returnE ()) u"
proof -
  have app: "path_append p name = name" for p using name(2) by (simp add: path_append_def)
  obtain existing where existing: "findEntryByRemoteId i (se_remoteId e) (app_entries s) = Inr existing"
    using findEntryByRemoteId_total [of "app_entries s" i "se_remoteId e"] inv by (auto simp: app_inv_def)
  have "x = Some name" if "recordEntry env i parent e s = (Inr x, s')" for x s'
    using that recordEntry_named [OF existing name(1), of parent] app
    by (auto split: prod.splits sum.splits)
  moreover have "reconcileEntry renv root entry u =
      catchE (bindE (download renv denv fileId name) (\<lambda>_. recordDownload renv entry name)) (\<lambda>_. returnE ()) u"
    using rootPath entry by (simp add: reconcileEntry_def bindE_def [of "liftE _"] liftE_def app Let_def)
  ultimately show ?thesis by blast
qed

definition sample_file :: "string \<Rightarrow> SyncEntryResponse" where
  "sample_file name =
     \<lparr>se_remoteId = ''f9'', se_type = ''file'', se_remoteFileId = Some ''f9'', se_remoteFolderId = None,
      se_remoteParentFolderId = None, se_encryptedName = None,
      se_encryptedMetadata = Some (encodeBase64 (toBytes name)), se_encryptedFileKey = Some (encodeBase64 [9]),
      se_encryptedManifest = None, se_deletedAt = None, se_updatedAt = ''t''\<rparr>"

theorem absolute_remote_name_escapes_root_witness:
  "\<exists>s'. recordEntry (sample_remote JNull) ''s1'' ''docs'' (sample_file ''/etc/x'') sample_app = (Inr (Some ''/etc/x''), s') \<and>
    reconcileEntry online demoRoot (entryOf (insert_remote ''t'' ''1'' (remoteUpsert ''s1'' ''/etc/x'' (sample_file ''/etc/x'')))) s' =
      catchE (bindE (download online one_file ''f9'' ''/etc/x'')
        (\<lambda>_. recordDownload online (entryOf (insert_remote ''t'' ''1'' (remoteUpsert ''s1'' ''/etc/x'' (sample_file ''/etc/x'')))) ''/etc/x''))
        (\<lambda>_. returnE ()) s'"
proof -
  let ?row = "insert_remote ''t'' ''1'' (remoteUpsert ''s1'' ''/etc/x'' (sample_file ''/etc/x''))"
  have name: "decryptEntryName (sample_remote JNull) (app_account sample_app) (sample_file ''/etc/x'') = Inr (Some ''/etc/x'')"
    by code_simp
  have abs: "is_absolute ''/etc/x''" by code_simp
  have path: "normalizeFsPath (rc_cwd online) (root_localPath demoRoot) = Inr ''/home/a''" by code_simp
  have entry: "e_relativePath (entryOf ?row) = ''/etc/x''" "\<not> e_isDirectory (entryOf ?row)"
    "e_remoteFileId (entryOf ?row) = Some ''f9''" "decide (classify (entryOf ?row)) (root_mode demoRoot) = Download" by code_simp+
  have denv: "rc_download online = Some one_file" by (simp add: online_def)
  have "isl (fst (recordEntry (sample_remote JNull) ''s1'' ''docs'' (sample_file ''/etc/x'') sample_app)) = False" by code_simp
  then obtain x s' where run: "recordEntry (sample_remote JNull) ''s1'' ''docs'' (sample_file ''/etc/x'') sample_app = (Inr x, s')"
    by (metis prod.collapse sum.collapse(2))
  note both = absolute_remote_name_escapes_root [OF sample_app_inv name abs path entry denv, of "''s1''" "''docs''" s']
  from both run have "x = Some ''/etc/x''" by blast
  with run both show ?thesis by blast
qed

lemma disableSyncRoot_total:
  assumes "roots_inv t"
  shows "disableSyncRoot i t = (Inr (), update_where (\<lambda>r. sr_id r = i) (\<lambda>r. r\<lparr>sr_enabled := 0\<rparr>) t)"
proof -
  have "sync_roots_ok (update_where (\<lambda>r. sr_id r = i) (\<lambda>r. r\<lparr>sr_enabled := 0\<rparr>) t)"
    using assms unfolding roots_inv_def sync_roots_ok_def
    by (auto intro!: uniq_on_update_where simp: sync_roots_pk_def idx_sync_roots_local_path_def)
  then show ?thesis by (simp add: disableSyncRoot_def stmtE_def sql_update_def)
qed

lemma disabled_root_found:
  assumes inv: "roots_inv t" and found: "findSyncRootById i t = Inr (Some x)"
  shows "\<exists>y. findSyncRootById i (snd (disableSyncRoot i t)) = Inr (Some y) \<and> root_enabled y = 0"
proof -
  obtain r where r: "r \<in> set t" "sr_id r = i" using findSyncRootById_Some [OF inv found] by blast
  have inv': "roots_inv (snd (disableSyncRoot i t))" using keepsD [OF keeps_roots(2) inv] .
  have "r\<lparr>sr_enabled := 0\<rparr> \<in> set (snd (disableSyncRoot i t))"
    using r by (auto simp: disableSyncRoot_total [OF inv] update_where_def)
  from findSyncRootById_row [OF inv' this] r show ?thesis by (simp add: rootOf_def column_int_def)
qed

lemma update_where_all:
  "(\<And>r. p r \<Longrightarrow> Q (f r)) \<Longrightarrow> (\<And>r. \<not> p r \<Longrightarrow> Q r) \<Longrightarrow> \<forall>r\<in>set (update_where p f t). Q r"
  by (auto simp: update_where_def)

lemma markRootRemoteDeleted_total:
  assumes "entries_ok t"
  shows "\<exists>t'. markRootRemoteDeleted now i t = (Inr (), t') \<and>
    (\<forall>r\<in>set t'. r_sync_root_id r = i \<longrightarrow> r_sync_state r = ''deleted'')"
proof -
  let ?p = "\<lambda>r. r_sync_root_id r = i"
  let ?f = "\<lambda>r. r\<lparr>r_sync_state := ''deleted'', r_local_deleted_at := coalesce (r_local_deleted_at r) now,
     r_remote_deleted_at := coalesce (r_remote_deleted_at r) now, r_synced_remote_updated_at := r_remote_updated_at r,
     r_conflict_state := Some ''none'', r_conflict_reason := None, r_updated_at := now\<rparr>"
  have "sql_update entries_ok (step_failed ''entries'') ?p ?f t = Inr (update_where ?p ?f t)"
    by (rule sql_update_keeping_keys [OF assms]) (simp_all add: keys_simps)
  moreover have "\<forall>r\<in>set (update_where ?p ?f t). r_sync_root_id r = i \<longrightarrow> r_sync_state r = ''deleted''"
    by (rule update_where_all) simp_all
  ultimately show ?thesis by (simp add: markRootRemoteDeleted_def stmtE_def)
qed

lemma removeDeletedRoot_run:
  assumes inv: "app_inv s" and found: "findSyncRootById (root_Id root) (app_roots s) = Inr (Some x)"
    and path: "normalizeFsPath cwd (root_localPath root) = Inr p"
  shows "\<exists>s'. removeDeletedRoot cwd env root s = (Inr (), s') \<and> app_files s' = fs_remove_all p (app_files s) \<and>
    (\<forall>r\<in>set (app_entries s'). r_sync_root_id r = root_Id root \<longrightarrow> r_sync_state r = ''deleted'') \<and>
    (\<exists>y. findSyncRootById (root_Id root) (app_roots s') = Inr (Some y) \<and> root_enabled y = 0)"
proof -
  have ok: "entries_ok (app_entries s)" "roots_inv (app_roots s)" using inv by (simp_all add: app_inv_def entries_inv_def)
  obtain t where t: "markRootRemoteDeleted (clock (re_clocks env) (app_tick s)) (root_Id root) (app_entries s) = (Inr (), t)"
    "\<forall>r\<in>set t. r_sync_root_id r = root_Id root \<longrightarrow> r_sync_state r = ''deleted''"
    using markRootRemoteDeleted_total [OF ok(1)] by blast
  define u where "u = snd (disableSyncRoot (root_Id root) (app_roots s))"
  have u: "disableSyncRoot (root_Id root) (app_roots s) = (Inr (), u)"
    by (simp add: u_def disableSyncRoot_total [OF ok(2)])
  have "removeDeletedRoot cwd env root s = (Inr (), s\<lparr>app_entries := t, app_roots := u,
      app_files := fs_remove_all p (app_files s), app_tick := Suc (app_tick s)\<rparr>)"
    using t(1) u path by (simp add: removeDeletedRoot_def act_simps timed_def onEntries_def onRoots_def onFiles_def)
  moreover have "\<exists>y. findSyncRootById (root_Id root) u = Inr (Some y) \<and> root_enabled y = 0"
    using disabled_root_found [OF ok(2) found] by (simp add: u_def)
  ultimately show ?thesis using t(2) by simp
qed

lemma requireRoot_keeps [keeps_intros]: "keeps app_inv (requireRoot i)"
  unfolding requireRoot_def by (auto intro!: keeps_intros)

lemma scan_keeps [keeps_intros]: "keeps app_inv (scanRemoteRoot fuel env i)" "keeps app_inv (isRootDeleted env i)"
  unfolding scanRemoteRoot_def isRootDeleted_def by (auto intro!: keeps_intros)

lemma scan_leaves [leaves_intros]:
  "leaves app_files (scanRemoteRoot fuel env i)" "leaves app_roots (scanRemoteRoot fuel env i)"
  "leaves app_files (isRootDeleted env i)" "leaves app_roots (isRootDeleted env i)"
  unfolding scanRemoteRoot_def isRootDeleted_def requireRoot_def by (auto intro!: leaves_intros)

text \<open>
  A root whose folder is deleted on the server is removed locally, for good: when the check
  after a scan finds the deletion, the round disables the root, marks all its entries deleted
  and removes the local folder with everything in it, also files that were never uploaded.
\<close>

theorem deleted_root_is_wiped:
  assumes inv: "app_inv s" and found: "findSyncRootById (root_Id root) (app_roots s) = Inr (Some root')"
    and due: "root_enabled root \<noteq> 0" "\<not> scannedRecently (root_Id root) now l"
    and scan: "scanRemoteRoot fuel env (root_Id root) s = (Inr (Some ()), s1)"
    and gone: "isRootDeleted env (root_Id root) s1 = (Inr True, s2)"
    and path: "normalizeFsPath cwd (root_localPath root) = Inr p"
  shows "\<exists>s' l'. remoteTickRoot fuel cwd env now root (s, l) = (Inr (Some True), (s', l')) \<and>
    (\<forall>q. fs_at (app_files s') q = (if q = p \<or> below p q then None else fs_at (app_files s) q)) \<and>
    (\<forall>r\<in>set (app_entries s'). r_sync_root_id r = root_Id root \<longrightarrow> r_sync_state r = ''deleted'') \<and>
    (\<exists>x. findSyncRootById (root_Id root) (app_roots s') = Inr (Some x) \<and> root_enabled x = 0)"
proof -
  have inv2: "app_inv s2"
    using keepsD [OF scan_keeps(1) inv, of fuel env "root_Id root"] keepsD [OF scan_keeps(2), of s1 env "root_Id root"] scan gone
    by simp
  have same: "app_files s2 = app_files s" "app_roots s2 = app_roots s"
    using leavesD' [OF scan_leaves(1) scan] leavesD' [OF scan_leaves(2) scan]
      leavesD' [OF scan_leaves(3) gone] leavesD' [OF scan_leaves(4) gone] by simp_all
  have found2: "findSyncRootById (root_Id root) (app_roots s2) = Inr (Some root')" using found same(2) by simp
  obtain s' where s': "removeDeletedRoot cwd env root s2 = (Inr (), s')" "app_files s' = fs_remove_all p (app_files s2)"
    "\<forall>r\<in>set (app_entries s'). r_sync_root_id r = root_Id root \<longrightarrow> r_sync_state r = ''deleted''"
    "\<exists>y. findSyncRootById (root_Id root) (app_roots s') = Inr (Some y) \<and> root_enabled y = 0"
    using removeDeletedRoot_run [OF inv2 found2 path] by blast
  have "remoteTickRoot fuel cwd env now root (s, l) =
      (Inr (Some True), (s', (root_Id root, now) # filter (\<lambda>(r, _). r \<noteq> root_Id root) l))"
    using due scan gone s'(1) by (simp add: remoteTickRoot_def act_simps onApp_def setLastScan_def)
  then show ?thesis using s' same by simp
qed

definition deleted_server :: "string remote_env" where
  "deleted_server = (sample_remote JNull)\<lparr>re_getJson := \<lambda>p srv.
     (Inr (if p = firstPage None
           then JObject [(''entries'', JArray [JObject [(''type'', JString ''folder''), (''id'', JString ''root''),
             (''deleted_at'', JString ''t'')]])]
           else JObject []), srv)\<rparr>"

definition wiped_root :: SyncRoot where
  "wiped_root = demoRoot\<lparr>root_folderId := ''root'', root_enabled := 1\<rparr>"

definition unsynced_app :: "string app" where
  "unsynced_app = sample_app\<lparr>app_roots := [new_root ''t'' wiped_root],
     app_files := [(''/home/a'', Dir), (''/home/a/new'', File [1] 0)]\<rparr>"

theorem deleted_root_is_wiped_witness:
  "\<exists>s' l'. remoteTickRoot 1 ''/'' deleted_server 0 wiped_root (unsynced_app, []) = (Inr (Some True), (s', l')) \<and>
    fs_at (app_files unsynced_app) ''/home/a/new'' = Some (File [1] 0) \<and> fs_at (app_files s') ''/home/a/new'' = None"
proof -
  let ?i = "root_Id wiped_root"
  have "roots_inv (app_roots unsynced_app)" by code_simp
  then have inv: "app_inv unsynced_app" using sample_app_inv by (simp add: app_inv_def unsynced_app_def)
  have found: "findSyncRootById ?i (app_roots unsynced_app) = Inr (Some (wiped_root\<lparr>root_createdAt := ''t''\<rparr>))" by code_simp
  have due: "root_enabled wiped_root \<noteq> 0" "\<not> scannedRecently ?i 0 []" by code_simp+
  have "fst (scanRemoteRoot 1 deleted_server ?i unsynced_app) = Inr (Some ())" by code_simp
  then have scan: "scanRemoteRoot 1 deleted_server ?i unsynced_app = (Inr (Some ()), snd (scanRemoteRoot 1 deleted_server ?i unsynced_app))"
    by (metis prod.collapse)
  have "fst (isRootDeleted deleted_server ?i (snd (scanRemoteRoot 1 deleted_server ?i unsynced_app))) = Inr True" by code_simp
  then have gone: "isRootDeleted deleted_server ?i (snd (scanRemoteRoot 1 deleted_server ?i unsynced_app)) =
      (Inr True, snd (isRootDeleted deleted_server ?i (snd (scanRemoteRoot 1 deleted_server ?i unsynced_app))))"
    by (metis prod.collapse)
  have path: "normalizeFsPath ''/'' (root_localPath wiped_root) = Inr ''/home/a''" by code_simp
  have "below ''/home/a'' ''/home/a/new''" "fs_at (app_files unsynced_app) ''/home/a/new'' = Some (File [1] 0)" by code_simp+
  with deleted_root_is_wiped [OF inv found due scan gone path] show ?thesis by auto
qed

text \<open>
  C26. Names survive the round trip through the server: the metadata and the wrapped key that the
  finalizer of an upload sends let a remote scan read the name of the file again, when the
  user is the owner of the vault; and the encrypted name a folder is created with is read back
  as that name. The library decrypts what it encrypted, does not produce empty ciphertexts,
  and the JSON parser reads what the printer prints.
\<close>

theorem remote_names_round_trip:
  assumes laws: "crypto_laws lib" "\<And>k a p c. lib_encryptChunk lib k a p = Inr c \<Longrightarrow> c \<noteq> []"
      "\<And>j str. dump j = Inr str \<Longrightarrow> re_parse env str = Inr j"
    and scanner: "re_crypto env = lib" "re_masterKey env = Inr mk"
    and file_env: "fe_crypto fenv = lib" "fe_masterKey fenv = Inr mk" "fe_dump fenv = dump"
    and completed: "prepareCompletion fenv entrySize started plan parts fileKey = Inr (artifacts, request)"
    and owner: "getAccount account = Some acc" "acc_userId acc = Some (su_vaultId started)" "su_vaultId started \<noteq> []"
    and file_entry: "se_type e = ''file''" "se_remoteId e = su_fileId started"
      "se_encryptedMetadata e = Some (cq_encryptedMetadata request)" "se_encryptedFileKey e = Some (cq_encryptedFileKey request)"
    and folder_env: "fw_crypto wenv = lib" "fw_masterKey wenv = Inr mk" "fw_dump wenv = dump"
    and created: "folderRequest wenv account' parentId folderName = Inr folder"
    and folder_entry: "se_type d = ''folder''" "se_encryptedName d = Some (cf_encryptedName folder)"
  shows "decryptEntryName env account e = Inr (Some (fm_name (fe_details fenv))) \<and>
    decryptEntryName env account d = Inr (Some folderName)"
proof
  obtain mj preview where mj: "dump (buildMetadata (fe_details fenv) entrySize preview) = Inr mj"
      "lib_encryptChunk lib fileKey (toBytes (makeFileMetadata (su_vaultId started) (su_fileId started))) (toBytes mj) =
        Inr (ua_encryptedMetadata artifacts)"
    using completed file_env
    by (auto simp: prepareCompletion_def bindR_eq_Inr Let_def encryptMetadata_def split: if_splits)
  have parsed: "re_parse env mj = Inr (buildMetadata (fe_details fenv) entrySize preview)" using laws(3) mj(1) .
  have key: "lib_wrapFileKey lib fileKey mk (toBytes (makeFileKey (su_vaultId started) (su_fileId started))) =
      Inr (ua_encryptedFileKey artifacts)"
    using prepareCompletion_Inr(6) [OF completed] file_env by simp
  have sent: "cq_encryptedMetadata request = encodeBase64 (ua_encryptedMetadata artifacts)"
    "cq_encryptedFileKey request = encodeBase64 (ua_encryptedFileKey artifacts)"
    using prepareCompletion_Inr(2,3) [OF completed] by simp_all
  have undo: "lib_unwrapFileKey lib (ua_encryptedFileKey artifacts) mk (toBytes (makeFileKey (su_vaultId started) (su_fileId started))) =
      Inr fileKey"
    "lib_decryptChunk lib fileKey (toBytes (makeFileMetadata (su_vaultId started) (su_fileId started)))
      (ua_encryptedMetadata artifacts) = Inr (toBytes mj)"
    using laws(1) key mj(2) unfolding crypto_laws_def by blast+
  show "decryptEntryName env account e = Inr (Some (fm_name (fe_details fenv)))"
    using scanner owner file_entry sent undo parsed
    by (simp add: decryptEntryName_def decryptedMetadata_def base64.decode_encode string_member_def buildMetadata_def)
next
  obtain str c where str: "dump (JObject [(''name'', JString folderName)]) = Inr str"
      "lib_encryptChunk lib mk (toBytes kFolderName) (toBytes str) = Inr c" "cf_encryptedName folder = encodeBase64 c"
    using created folder_env by (auto simp: folderRequest_def bindR_eq_Inr encryptFolderName_def)
  have "lib_decryptChunk lib mk (toBytes kFolderName) c = Inr (toBytes str)"
    using laws(1) str(2) unfolding crypto_laws_def by blast
  moreover have "encodeBase64 c \<noteq> []" using laws(2) [OF str(2)] by (simp add: encodeBase64_Nil_iff)
  moreover have "re_parse env str = Inr (JObject [(''name'', JString folderName)])" using laws(3) str(1) .
  ultimately show "decryptEntryName env account d = Inr (Some folderName)"
    using scanner folder_entry str(3)
    by (simp add: decryptEntryName_def decryptedMetadata_def base64.decode_encode string_member_def)
qed

definition sample_dump :: "json \<Rightarrow> string result" where
  "sample_dump j =
     (if j = sample_docs [] ! 0 then Inr ''m'' else if j = sample_docs [] ! 1 then Inr ''d''
      else if j = JObject [(''name'', JString ''y'')] then Inr ''n'' else Inl (Json_error ''invalid UTF-8 byte''))"

definition sample_scanner :: "string remote_env" where
  "sample_scanner = (sample_remote JNull)\<lparr>re_crypto := ue_crypto sample_env, re_masterKey := Inr [9],
     re_parse := \<lambda>str. if str = ''m'' then Inr (sample_docs [] ! 0) else if str = ''d'' then Inr (sample_docs [] ! 1)
       else Inr (JObject [(''name'', JString ''y'')])\<rparr>"

definition sample_finalizer :: finalizer_env where
  "sample_finalizer = (sample_fenv [])\<lparr>fe_dump := sample_dump\<rparr>"

definition sample_worker :: "string folder_env" where
  "sample_worker = sample_folders\<lparr>fw_crypto := ue_crypto sample_env, fw_masterKey := Inr [9], fw_dump := sample_dump\<rparr>"

definition sample_owner :: account_table where
  "sample_owner = [(hd (migrated_account ''t''))\<lparr>ac_user_id := Some ''v''\<rparr>]"

lemma sample_finalizes:
  "\<exists>artifacts request. prepareCompletion sample_finalizer (Some 3) (ue_started sample_env) (ue_plan sample_env) []
     (ue_fileKey sample_env) = Inr (artifacts, request)"
proof -
  have "termsForText ''x'' = []" by code_simp
  then show ?thesis
    by (simp add: prepareCompletion_def sample_finalizer_def sample_dump_def sample_fenv_def sample_docs_def encryptChunk_def
        hashBytes_def wrapFileKey_def encryptMetadata_def uploadThumbnail_def noThumbnail_def createSearchTokenEntries_def Let_def)
      (simp add: sample_env_def)
qed

lemma sample_folder_request: "\<exists>folder. folderRequest sample_worker sample_owner None ''y'' = Inr folder"
proof -
  have terms: "termsForText ''y'' = []" by code_simp
  have user: "userId sample_owner = Inr ''v''" by code_simp
  have "sample_dump (JObject [(''name'', JString ''y'')]) = Inr ''n''"
    by (simp add: sample_dump_def sample_docs_def Let_def manifest_def buildMetadata_def)
  then show ?thesis
    using terms user
    by (simp add: folderRequest_def encryptFolderName_def encryptFolderMetadata_def createSearchTokenEntries_def sample_worker_def)
      (simp add: sample_env_def)
qed

theorem remote_names_round_trip_witness:
  "\<exists>e d. se_type e = ''file'' \<and> se_type d = ''folder'' \<and>
    decryptEntryName sample_scanner sample_owner e = Inr (Some ''x'') \<and>
    decryptEntryName sample_scanner sample_owner d = Inr (Some ''y'')"
proof -
  obtain a r where fin: "prepareCompletion sample_finalizer (Some 3) (ue_started sample_env) (ue_plan sample_env) []
     (ue_fileKey sample_env) = Inr (a, r)" using sample_finalizes by blast
  obtain folder where folder: "folderRequest sample_worker sample_owner None ''y'' = Inr folder"
    using sample_folder_request by blast
  let ?e = "(sample_file [])\<lparr>se_remoteId := su_fileId (ue_started sample_env),
    se_encryptedMetadata := Some (cq_encryptedMetadata r), se_encryptedFileKey := Some (cq_encryptedFileKey r)\<rparr>"
  let ?d = "(sample_entry ''g'' [])\<lparr>se_encryptedName := Some (cf_encryptedName folder)\<rparr>"
  have "decryptEntryName sample_scanner sample_owner ?e = Inr (Some (fm_name (fe_details sample_finalizer))) \<and>
    decryptEntryName sample_scanner sample_owner ?d = Inr (Some ''y'')"
  proof (rule remote_names_round_trip [where lib = "ue_crypto sample_env" and dump = sample_dump and mk = "[9]", OF sample_laws
        _ _ _ _ _ _ _ fin _ _ _ _ _ _ _ _ _ _ folder])
    show "c \<noteq> []" if "lib_encryptChunk (ue_crypto sample_env) k a p = Inr c" for k a p c
      using that by (auto simp: sample_env_def)
    show "re_parse sample_scanner str = Inr j" if "sample_dump j = Inr str" for j str
      using that by (auto simp: sample_dump_def sample_scanner_def split: if_splits)
    show "getAccount sample_owner = Some (account_of (hd sample_owner))" by code_simp
    show "acc_userId (account_of (hd sample_owner)) = Some (su_vaultId (ue_started sample_env))"
      by (simp add: sample_owner_def account_of_def migrated_account_def sample_env_def)
    show "su_vaultId (ue_started sample_env) \<noteq> []" by (simp add: sample_env_def)
  qed (simp_all add: sample_scanner_def sample_finalizer_def sample_worker_def sample_fenv_def sample_file_def sample_entry_def)
  moreover have "fm_name (fe_details sample_finalizer) = ''x''" by (simp add: sample_finalizer_def sample_fenv_def)
  moreover have "se_type ?e = ''file''" "se_type ?d = ''folder''" by (simp_all add: sample_file_def sample_entry_def)
  ultimately show ?thesis by metis
qed

end
