(* ===== verification/Root_Scanner.thy ===== *)
theory Root_Scanner
  imports Sync_Reconciler Folder_Worker
begin

text \<open>
  \<open>RootScanner\<close> (sync/RootScanner.cpp): scanning the local side of a sync root into the entries
  table, in batches that a scan job remembers, and scanning a single path after a file event.

  What a directory iterator yields is a parameter: the items below a directory in the order of
  the iteration, each with its path, its path relative to the root, and its kind, and whether
  the iteration broke off with an error. The items are those of the moment the iterator is
  made; the files behind them are read when they come up.
\<close>

section \<open>Directory iterators\<close>

text \<open>\<open>Unresolved\<close>: the relative path cannot be determined; \<open>Unstatable\<close>: the status cannot.\<close>

datatype item_kind = Symlink | Directory | Regular | Other | Unresolved | Unstatable

record scan_item =
  it_abs :: string
  it_rel :: string
  it_kind :: item_kind

record listing =
  li_items :: "scan_item list"
  li_broken :: bool

record 'h scan_env =
  sc_clocks :: clocks
  sc_cwd :: string
  sc_hasher :: "'h hasher"
  sc_listing :: "string \<Rightarrow> string \<Rightarrow> files \<Rightarrow> listing option"

definition kMaxScanBatchSize :: nat where
  "kMaxScanBatchSize = 500"

text \<open>
  \<open>positionAfterCursor\<close>: the items after the cursor. When none is left, because the cursor is
  gone or is the last item, the iteration starts again at the root (even the iteration of a
  subtree), unless it broke off.
\<close>

fun skipTo :: "string \<Rightarrow> scan_item list \<Rightarrow> scan_item list option" where
  "skipTo cursorPath [] = Some []"
| "skipTo cursorPath (i # items) =
     (if it_kind i = Unresolved then None
      else if it_rel i = cursorPath then Some items
      else skipTo cursorPath items)"

definition positionAfterCursor :: "string option \<Rightarrow> listing option \<Rightarrow> listing \<Rightarrow> listing option" where
  "positionAfterCursor cursorPath again l =
     (case cursorPath of
        None \<Rightarrow> Some l
      | Some c \<Rightarrow>
          (case skipTo c (li_items l) of
             None \<Rightarrow> None
           | Some rest \<Rightarrow>
               if rest \<noteq> [] then Some (l\<lparr>li_items := rest\<rparr>) else if li_broken l then None else again))"

section \<open>One file\<close>

definition knownUnchanged :: "Entry option \<Rightarrow> int \<Rightarrow> int \<Rightarrow> bool" where
  "knownUnchanged existing n mtime \<longleftrightarrow>
     (case existing of
        None \<Rightarrow> False
      | Some e \<Rightarrow> \<not> e_deleted e \<and> e_size e = Some n \<and> e_mtime e = Some mtime)"

definition fileSyncState :: "Entry option \<Rightarrow> bool \<Rightarrow> string option \<Rightarrow> EntrySyncState" where
  "fileSyncState existing shouldHash contentHash =
     (case existing of
        None \<Rightarrow> PendingUpload
      | Some e \<Rightarrow>
          if e_deleted e then PendingUpload
          else if e_remoteId e = None then PendingUpload
          else if shouldHash \<and> e_contentHash e \<noteq> contentHash then PendingUpload
          else Unchanged)"

text \<open>
  The hash that is written is never missing: a row with a size has a hash (\<open>sized_rows_hashed\<close>
  below), so that the empty string only completes the definition.
\<close>

definition handleFileEntry ::
    "'h scan_env \<Rightarrow> string \<Rightarrow> string \<Rightarrow> string \<Rightarrow> string \<Rightarrow> ('srv, bool) app_act" where
  "handleFileEntry env syncRootId jobId absPath relativePath =
     bindE (getsE app_files) (\<lambda>fs.
     case (fs_file_size absPath fs, last_write_time absPath fs) of
       (Some n, Some mtime) \<Rightarrow>
         if int n > 9223372036854775807 then returnE False
         else
           bindE (liftE (\<lambda>s. findEntryByPath syncRootId relativePath (app_entries s))) (\<lambda>existing.
           let shouldHash = (\<not> knownUnchanged existing (int n) mtime) in
           bindE (if shouldHash then bindE (liftE (\<lambda>_. hashFile (sc_hasher env) absPath fs)) (\<lambda>h. returnE (Some h))
                  else returnE (Option.bind existing e_contentHash)) (\<lambda>contentHash.
           bindE (timed (sc_clocks env) (\<lambda>now newId. onEntries (upsertFileEntry now newId
                    \<lparr>fu_syncRootId = syncRootId, fu_relativePath = relativePath, fu_size = int n, fu_mtime = mtime,
                     fu_contentHash = (case contentHash of Some h \<Rightarrow> h | None \<Rightarrow> []),
                     fu_syncState = fileSyncState existing shouldHash contentHash, fu_lastSeenScanId = jobId\<rparr>))) (\<lambda>_.
             returnE True)))
     | _ \<Rightarrow> returnE False)"

definition handleDirectory :: "'h scan_env \<Rightarrow> string \<Rightarrow> string \<Rightarrow> string \<Rightarrow> ('srv, unit) app_act" where
  "handleDirectory env syncRootId jobId relativePath =
     timed (sc_clocks env) (\<lambda>now newId. onEntries (upsertDirectoryEntry now newId
       \<lparr>du_syncRootId = syncRootId, du_relativePath = relativePath, du_lastSeenScanId = jobId\<rparr>))"

section \<open>Batches\<close>

text \<open>Whether an item counts for the size of the batch and moves the cursor.\<close>

definition scanItem :: "'h scan_env \<Rightarrow> string \<Rightarrow> string \<Rightarrow> scan_item \<Rightarrow> ('srv, bool) app_act" where
  "scanItem env syncRootId jobId i =
     (case it_kind i of
        Directory \<Rightarrow> bindE (handleDirectory env syncRootId jobId (it_rel i)) (\<lambda>_. returnE True)
      | Regular \<Rightarrow> handleFileEntry env syncRootId jobId (it_abs i) (it_rel i)
      | _ \<Rightarrow> returnE False)"

fun scanBatch ::
    "'h scan_env \<Rightarrow> string \<Rightarrow> string \<Rightarrow> nat \<Rightarrow> string option \<Rightarrow> scan_item list \<Rightarrow>
     ('srv, scan_item list \<times> string option) app_act" where
  "scanBatch env syncRootId jobId processed lastCursor [] = returnE ([], lastCursor)"
| "scanBatch env syncRootId jobId processed lastCursor (i # items) =
     (if processed \<ge> kMaxScanBatchSize then returnE (i # items, lastCursor)
      else
        bindE (scanItem env syncRootId jobId i) (\<lambda>counted.
          if counted then scanBatch env syncRootId jobId (Suc processed) (Some (it_rel i)) items
          else scanBatch env syncRootId jobId processed lastCursor items))"

section \<open>Scanning a root\<close>

text \<open>The iterators of the scans under way, by root.\<close>

type_synonym active_scans = "(string \<times> (string \<times> scan_item list)) list"

type_synonym ('srv, 'a) scan_act = "('srv app \<times> active_scans, 'a) act"

definition rollback :: "'srv app \<Rightarrow> 'srv app \<Rightarrow> 'srv app" where
  "rollback before s = s\<lparr>app_entries := app_entries before, app_scans := app_scans before\<rparr>"

definition forget :: "string \<Rightarrow> active_scans \<Rightarrow> active_scans" where
  "forget syncRootId act = filter (\<lambda>(r, _). r \<noteq> syncRootId) act"

definition newScanJob :: "string \<Rightarrow> string \<Rightarrow> ScanJob" where
  "newScanJob newId syncRootId =
     \<lparr>scan_id = newId, scan_syncRootId = syncRootId, scan_status = ''running'', scan_cursorPath = None,
      scan_startedAt = [], scan_updatedAt = [], scan_completedAt = None\<rparr>"

text \<open>The job to work on: the running one, or a new one, unless that cannot be inserted.\<close>

definition takeScanJob :: "'h scan_env \<Rightarrow> string \<Rightarrow> ('srv, ScanJob option) app_act" where
  "takeScanJob env syncRootId =
     bindE (getsE (\<lambda>s. getScanJob syncRootId (app_scans s))) (\<lambda>scanJob. case scanJob of
       Some job \<Rightarrow> returnE (Some job)
     | None \<Rightarrow>
         timed (sc_clocks env) (\<lambda>now newId.
           bindE (onScans (insertScanJob now (newScanJob newId syncRootId))) (\<lambda>inserted.
             returnE (if inserted then Some (newScanJob newId syncRootId) else None))))"

definition openScan :: "'h scan_env \<Rightarrow> ScanJob \<Rightarrow> string \<Rightarrow> string \<Rightarrow> ('srv, bool) scan_act" where
  "openScan env job syncRootId rootPath sl =
     (case sl of (s, act) \<Rightarrow>
        if (case map_of act syncRootId of Some (p, _) \<Rightarrow> p = rootPath | None \<Rightarrow> False) then (Inr True, (s, act))
        else
          (let listed = sc_listing env rootPath rootPath (app_files s) in
           case Option.bind listed (positionAfterCursor (scan_cursorPath job) listed) of
             None \<Rightarrow> (Inr False, (s, forget syncRootId act))
           | Some l \<Rightarrow> (Inr True, (s, (syncRootId, (rootPath, li_items l)) # forget syncRootId act))))"

text \<open>
  A batch from the iterator of the root. An iteration that broke off has reached its end, as
  far as this function can tell.
\<close>

definition runScanBatch :: "'h scan_env \<Rightarrow> string \<Rightarrow> string \<Rightarrow> ('srv, scan_item list \<times> string option) scan_act" where
  "runScanBatch env syncRootId jobId =
     bindE (getsE (\<lambda>(_, act). case map_of act syncRootId of Some (_, items) \<Rightarrow> items | None \<Rightarrow> [])) (\<lambda>items.
     bindE (onApp (scanBatch env syncRootId jobId 0 None items)) (\<lambda>(rest, lastCursor) (s, act).
       (Inr (rest, lastCursor),
        (s, map (\<lambda>(r, (p, old)). if r = syncRootId then (r, (p, rest)) else (r, (p, old))) act))))"

definition finishScan :: "'h scan_env \<Rightarrow> string \<Rightarrow> string \<Rightarrow> ('srv, unit) app_act" where
  "finishScan env syncRootId jobId =
     bindE (timed (sc_clocks env) (\<lambda>now _. onScans (markScanComplete now jobId))) (\<lambda>_.
     timed (sc_clocks env) (\<lambda>now _. onEntries (markEntriesNotSeenInScanDeleted now syncRootId jobId)))"

definition runScanJob :: "'h scan_env \<Rightarrow> string \<Rightarrow> string \<Rightarrow> ScanJob \<Rightarrow> ('srv, bool) scan_act" where
  "runScanJob env syncRootId rootPath job =
     bindE (openScan env job syncRootId rootPath) (\<lambda>opened.
     if \<not> opened then returnE False
     else
       bindE (runScanBatch env syncRootId (scan_id job)) (\<lambda>(rest, lastCursor).
       if rest = [] then
         bindE (onApp (finishScan env syncRootId (scan_id job))) (\<lambda>_ (s, act).
           (Inr True, (s, forget syncRootId act)))
       else
         bindE (case lastCursor of
                  Some c \<Rightarrow> onApp (timed (sc_clocks env) (\<lambda>now _. onScans (updateScanCursor now (scan_id job) c)))
                | None \<Rightarrow> returnE ()) (\<lambda>_.
           returnE True)))"

definition scanRootBody :: "'h scan_env \<Rightarrow> string \<Rightarrow> string \<Rightarrow> ('srv, bool) scan_act" where
  "scanRootBody env syncRootId rootPath =
     bindE (onApp (takeScanJob env syncRootId)) (\<lambda>taken. case taken of
       None \<Rightarrow> returnE False
     | Some job \<Rightarrow> runScanJob env syncRootId rootPath job)"

text \<open>The transaction around it, and the tests before it.\<close>

definition scanRoot :: "'h scan_env \<Rightarrow> string \<Rightarrow> ('srv, bool) scan_act" where
  "scanRoot env syncRootId sl =
     (case sl of (s, act) \<Rightarrow>
        (case findSyncRootById syncRootId (app_roots s) of
           Inl e \<Rightarrow> (Inl e, sl)
         | Inr None \<Rightarrow> (Inr False, sl)
         | Inr (Some root) \<Rightarrow>
             let rootPath = absolute (sc_cwd env) (root_localPath root) in
             if root_enabled root = 0 \<or> \<not> is_directory rootPath (app_files s) then (Inr False, sl)
             else
               (case scanRootBody env syncRootId rootPath sl of
                  (Inl e, (s', act')) \<Rightarrow> (Inl e, (rollback s s', forget syncRootId act'))
                | (Inr ok, (s', act')) \<Rightarrow> (Inr ok, (if ok then s' else rollback s s', act')))))"

text \<open>
  The loop around it in the command \<open>syncRun\<close> (ipc/commands/SyncCommands.cpp): batches until the
  root has no running job. \<open>None\<close> stands for a loop that has not ended with the fuel.
\<close>

fun scanToEnd :: "nat \<Rightarrow> 'h scan_env \<Rightarrow> string \<Rightarrow> ('srv, unit option) scan_act" where
  "scanToEnd 0 env syncRootId = returnE None"
| "scanToEnd (Suc fuel) env syncRootId =
     bindE (scanRoot env syncRootId) (\<lambda>scanned.
     if \<not> scanned then throwE (Runtime_error (''Failed to scan sync root: '' @ syncRootId))
     else
       bindE (getsE (\<lambda>(s, _). hasRunningScanJob syncRootId (app_scans s))) (\<lambda>running.
         if running then scanToEnd fuel env syncRootId else returnE (Some ())))"

section \<open>Scanning a path\<close>

text \<open>
  Each batch of a subtree makes a new iterator and goes to the cursor; \<open>None\<close> stands for a loop
  that is still running when the fuel is used up.
\<close>

fun subtreeLoop ::
    "nat \<Rightarrow> 'h scan_env \<Rightarrow> string \<Rightarrow> string \<Rightarrow> string \<Rightarrow> string \<Rightarrow> string \<Rightarrow> string option \<Rightarrow> ('srv, bool option) app_act" where
  "subtreeLoop 0 env syncRootId jobId rootPath subtree relativePath cursorPath = returnE None"
| "subtreeLoop (Suc fuel) env syncRootId jobId rootPath subtree relativePath cursorPath =
     bindE (getsE app_files) (\<lambda>fs. case sc_listing env rootPath subtree fs of
       None \<Rightarrow> returnE (Some False)
     | Some listed \<Rightarrow>
         (case positionAfterCursor cursorPath (sc_listing env rootPath rootPath fs) listed of
            None \<Rightarrow> returnE (Some False)
          | Some l \<Rightarrow>
              bindE (scanBatch env syncRootId jobId 0 None (li_items l)) (\<lambda>(rest, lastCursor).
              if rest = [] then
                if li_broken l then returnE (Some False)
                else
                  bindE (timed (sc_clocks env) (\<lambda>now _. onEntries
                           (markSubtreeEntriesNotSeenInScanDeleted now syncRootId relativePath jobId))) (\<lambda>_.
                    returnE (Some True))
              else case lastCursor of
                None \<Rightarrow> returnE (Some False)
              | Some c \<Rightarrow> subtreeLoop fuel env syncRootId jobId rootPath subtree relativePath (Some c))))"

definition transactionA :: "('srv, bool option) app_act \<Rightarrow> ('srv, bool option) app_act" where
  "transactionA m s =
     (case m s of (x, s') \<Rightarrow> (x, if x = Inr (Some True) then s' else rollback s s'))"

text \<open>One round for every item and one more; \<open>subtree_scan_ends\<close> shows that this is enough.\<close>

definition subtreeRounds :: "'h scan_env \<Rightarrow> string \<Rightarrow> string \<Rightarrow> files \<Rightarrow> nat" where
  "subtreeRounds env rootPath subtree fs =
     (case sc_listing env rootPath subtree fs of None \<Rightarrow> 1 | Some l \<Rightarrow> Suc (length (li_items l)))"

definition scanSubtree ::
    "'h scan_env \<Rightarrow> string \<Rightarrow> string \<Rightarrow> string \<Rightarrow> string \<Rightarrow> string \<Rightarrow> ('srv, bool option) app_act" where
  "scanSubtree env syncRootId jobId rootPath subtree relativePath = transactionA
     (bindE (handleDirectory env syncRootId jobId relativePath) (\<lambda>_.
      bindE (getsE app_files) (\<lambda>fs.
        subtreeLoop (subtreeRounds env rootPath subtree fs) env syncRootId jobId rootPath subtree relativePath None)))"

definition scanPath :: "'h scan_env \<Rightarrow> string \<Rightarrow> string \<Rightarrow> ('srv, bool option) app_act" where
  "scanPath env rootId relativePath =
     bindE (liftE (\<lambda>s. findSyncRootById rootId (app_roots s))) (\<lambda>syncRoot. case syncRoot of
       None \<Rightarrow> returnE (Some False)
     | Some root \<Rightarrow>
         if root_localPath root = [] then returnE (Some False)
         else
           let rootPath = absolute (sc_cwd env) (root_localPath root);
               absPath = (if is_absolute relativePath then relativePath else path_append rootPath relativePath);
               normalizedAbsPath = lexically_normal (absolute (sc_cwd env) absPath);
               normalizedRootPath = lexically_normal rootPath;
               relPath = lexically_relative normalizedAbsPath normalizedRootPath in
           if relPath = [] \<or> relPath = ''.'' \<or> hd (path_elements relPath) = ''..'' then returnE (Some False)
           else
             bindE (getsE app_files) (\<lambda>fs.
             if \<not> fs_exists normalizedAbsPath fs then
               bindE (timed (sc_clocks env) (\<lambda>now _. onEntries (markPathDeleted now rootId relPath))) (\<lambda>_.
                 returnE (Some True))
             else
               timed (sc_clocks env) (\<lambda>_ jobId.
                 if is_regular_file normalizedAbsPath fs then transactionA
                   (bindE (handleFileEntry env rootId jobId normalizedAbsPath relPath) (\<lambda>ok. returnE (Some ok)))
                 else if \<not> is_directory normalizedAbsPath fs then returnE (Some False)
                 else scanSubtree env rootId jobId normalizedRootPath normalizedAbsPath relPath)))"

section \<open>What a batch records\<close>

definition seenBy :: "string \<Rightarrow> entry_row \<Rightarrow> bool" where
  "seenBy job r \<longleftrightarrow> r_last_seen_scan_job_id r = Some job \<and> r_sync_state r \<noteq> ''deleted''"

definition rowAt :: "string \<Rightarrow> string set \<Rightarrow> entry_row \<Rightarrow> bool" where
  "rowAt root ps r \<longleftrightarrow> r_sync_root_id r = root \<and> r_local_path r \<in> ps"

text \<open>The rows at the paths exist and are seen by the job; all other rows are as before.\<close>

definition recorded :: "string \<Rightarrow> string \<Rightarrow> string set \<Rightarrow> entries_table \<Rightarrow> entries_table \<Rightarrow> bool" where
  "recorded root job ps t t' \<longleftrightarrow>
     (\<forall>p\<in>ps. \<exists>r\<in>set t'. rowAt root {p} r) \<and>
     (\<forall>r\<in>set t'. rowAt root ps r \<longrightarrow> seenBy job r) \<and>
     (\<forall>r. \<not> rowAt root ps r \<longrightarrow> (r \<in> set t' \<longleftrightarrow> r \<in> set t))"

lemma recorded_refl: "recorded root job {} t t"
  by (simp add: recorded_def rowAt_def)

lemma recorded_trans:
  assumes "recorded root job ps t t'" and "recorded root job qs t' t''"
  shows "recorded root job (ps \<union> qs) t t''"
  unfolding recorded_def
proof (intro conjI ballI allI impI)
  fix p assume p: "p \<in> ps \<union> qs"
  show "\<exists>r\<in>set t''. rowAt root {p} r"
  proof (cases "p \<in> qs")
    case True
    then show ?thesis using assms(2) by (simp add: recorded_def)
  next
    case False
    then obtain r where r: "r \<in> set t'" "rowAt root {p} r" using p assms(1) by (auto simp: recorded_def)
    then have "\<not> rowAt root qs r" using False by (simp add: rowAt_def)
    then have "r \<in> set t''" using r(1) assms(2) unfolding recorded_def by blast
    then show ?thesis using r(2) by blast
  qed
next
  fix r assume r: "r \<in> set t''" "rowAt root (ps \<union> qs) r"
  show "seenBy job r"
  proof (cases "rowAt root qs r")
    case True
    then show ?thesis using r(1) assms(2) unfolding recorded_def by blast
  next
    case False
    then have "rowAt root ps r" "r \<in> set t'" using r assms(2) unfolding recorded_def rowAt_def by blast+
    then show ?thesis using assms(1) unfolding recorded_def by blast
  qed
next
  fix r assume "\<not> rowAt root (ps \<union> qs) r"
  then have "\<not> rowAt root ps r" "\<not> rowAt root qs r" by (simp_all add: rowAt_def)
  then show "r \<in> set t'' \<longleftrightarrow> r \<in> set t" using assms unfolding recorded_def by blast
qed

lemma upsert_records:
  assumes inv: "entries_inv t" and fresh: "r_id x \<notin> r_id ` set t"
    and key: "r_sync_root_id x = root" "r_local_path x = p" and x: "seenBy job x" "readable_row x"
    and f: "\<And>r. r_id (f r) = r_id r \<and> r_sync_root_id (f r) = r_sync_root_id r \<and> r_local_path (f r) = r_local_path r"
    and g: "\<And>r. readable_row r \<Longrightarrow> readable_row (f r) \<and> seenBy job (f r)"
  shows "\<exists>t'. stmtE (sql_upsert entries_ok e idx_entries_sync_root_local_path f x) t = (Inr (), t') \<and>
    entries_inv t' \<and> recorded root job {p} t t' \<and> r_id ` set t' \<subseteq> insert (r_id x) (r_id ` set t)"
proof (cases "\<exists>r\<in>set t. rowAt root {p} r")
  case True
  let ?p = "\<lambda>r. idx_entries_sync_root_local_path r = idx_entries_sync_root_local_path x"
  let ?t = "update_where ?p f t"
  have p: "?p r \<longleftrightarrow> rowAt root {p} r" for r
    by (auto simp: rowAt_def idx_entries_sync_root_local_path_def key)
  have "sql_update entries_ok e ?p f t = Inr ?t"
    using inv f by (intro sql_update_keeping_keys) (simp_all add: entries_inv_def keys_simps)
  then have up: "sql_upsert entries_ok e idx_entries_sync_root_local_path f x t = Inr ?t"
    using True p by (auto simp: sql_upsert_def idx_entries_sync_root_local_path_def rowAt_def)
  have rows: "rowAt root {p} (f r) \<longleftrightarrow> rowAt root {p} r" for r by (simp add: rowAt_def f)
  have "recorded root job {p} t ?t"
    unfolding recorded_def update_where_def set_map p using True rows g entries_inv_row [OF inv]
    by (auto simp: image_iff)
  moreover have "entries_inv ?t"
    using inv up g x by (auto intro: entries_inv_sql_upsert)
  moreover have "r_id ` set ?t \<subseteq> r_id ` set t"
    using f by (auto simp: update_where_def)
  ultimately show ?thesis using up by (auto simp: stmtE_def)
next
  case False
  have "entries_ok (t @ [x])"
    using inv False fresh key
    by (auto simp: entries_inv_def entries_ok_def uniq_on_snoc has_key_def keys_simps rowAt_def image_iff)
  then have up: "sql_upsert entries_ok e idx_entries_sync_root_local_path f x t = Inr (t @ [x])"
    using False key by (auto simp: sql_upsert_def sql_insert_def idx_entries_sync_root_local_path_def rowAt_def)
  have "recorded root job {p} t (t @ [x])"
    using False x key by (auto simp: recorded_def rowAt_def)
  moreover have "entries_inv (t @ [x])" using inv up g x by (auto intro: entries_inv_sql_upsert)
  ultimately show ?thesis using up by (auto simp: stmtE_def)
qed

text \<open>
  Identifiers yet to be drawn are new; every file can be hashed and has a time that fits.
\<close>

definition scan_ready :: "'h scan_env \<Rightarrow> 'srv app \<Rightarrow> bool" where
  "scan_ready env s \<longleftrightarrow> app_inv s \<and> inj (uuid (sc_clocks env)) \<and>
     (\<forall>n\<ge>app_tick s. uuid (sc_clocks env) n \<notin> r_id ` set (app_entries s))"

definition hashable :: "'h scan_env \<Rightarrow> files \<Rightarrow> bool" where
  "hashable env fs \<longleftrightarrow>
     (\<forall>p\<in>fst ` set fs. case fs_at fs p of
        Some (File _ mtime) \<Rightarrow> int64 mtime \<and> (case hashFile (sc_hasher env) p fs of Inr _ \<Rightarrow> True | Inl _ \<Rightarrow> False)
      | _ \<Rightarrow> True)"

text \<open>The items a scan counts.\<close>

definition counts :: "files \<Rightarrow> scan_item \<Rightarrow> bool" where
  "counts fs i \<longleftrightarrow> it_kind i = Directory \<or>
     it_kind i = Regular \<and> (case fs_file_size (it_abs i) fs of None \<Rightarrow> False | Some n \<Rightarrow> int n \<le> 9223372036854775807)"

definition counted_paths :: "files \<Rightarrow> scan_item list \<Rightarrow> string set" where
  "counted_paths fs items = it_rel ` {i\<in>set items. counts fs i}"

definition progress :: "'h scan_env \<Rightarrow> string \<Rightarrow> string \<Rightarrow> string set \<Rightarrow> 'srv app \<Rightarrow> 'srv app \<Rightarrow> bool" where
  "progress env root job ps s s' \<longleftrightarrow> scan_ready env s' \<and> app_tick s \<le> app_tick s' \<and> app_files s' = app_files s \<and>
     app_roots s' = app_roots s \<and> recorded root job ps (app_entries s) (app_entries s')"

lemma progress_trans:
  "progress env root job ps s s' \<Longrightarrow> progress env root job qs s' s'' \<Longrightarrow> progress env root job (ps \<union> qs) s s''"
  by (auto simp: progress_def intro: recorded_trans)

lemma progress_refl: "scan_ready env s \<Longrightarrow> progress env root job {} s s"
  by (simp add: progress_def recorded_refl)

text \<open>A statement that records one path.\<close>

lemma timed_record:
  assumes ready: "scan_ready env s"
    and m: "\<And>now newId t. entries_inv t \<Longrightarrow> newId \<notin> r_id ` set t \<Longrightarrow>
      \<exists>t'. m now newId t = (Inr (), t') \<and> entries_inv t' \<and> recorded root job {p} t t' \<and>
        r_id ` set t' \<subseteq> insert newId (r_id ` set t)"
  shows "\<exists>s'. timed (sc_clocks env) (\<lambda>now newId. onEntries (m now newId)) s = (Inr (), s') \<and>
    progress env root job {p} s s' \<and> app_scans s' = app_scans s"
proof -
  let ?n = "app_tick s" let ?id = "uuid (sc_clocks env) ?n" and ?now = "clock (sc_clocks env) ?n"
  have "entries_inv (app_entries s)" "?id \<notin> r_id ` set (app_entries s)"
    using ready by (simp_all add: scan_ready_def app_inv_def)
  from m [OF this] obtain t' where t': "m ?now ?id (app_entries s) = (Inr (), t')" "entries_inv t'"
    "recorded root job {p} (app_entries s) t'" "r_id ` set t' \<subseteq> insert ?id (r_id ` set (app_entries s))" by blast
  let ?s = "s\<lparr>app_tick := Suc ?n, app_entries := t'\<rparr>"
  have "uuid (sc_clocks env) n \<notin> r_id ` set t'" if "n \<ge> Suc ?n" for n
  proof -
    have "uuid (sc_clocks env) n \<noteq> ?id" using ready that by (auto simp: scan_ready_def dest: injD)
    moreover have "uuid (sc_clocks env) n \<notin> r_id ` set (app_entries s)"
      using ready that unfolding scan_ready_def by simp
    ultimately show ?thesis using t'(4) by blast
  qed
  then have "progress env root job {p} s ?s"
    using ready t'(2,3) by (simp add: progress_def scan_ready_def app_inv_def)
  then show ?thesis using t'(1) by (simp add: timed_def onEntries_def)
qed

lemma upsertDirectoryEntry_records:
  assumes "entries_inv t" and "newId \<notin> r_id ` set t"
  shows "\<exists>t'. upsertDirectoryEntry now newId d t = (Inr (), t') \<and> entries_inv t' \<and>
    recorded (du_syncRootId d) (du_lastSeenScanId d) {du_relativePath d} t t' \<and>
    r_id ` set t' \<subseteq> insert newId (r_id ` set t)"
proof -
  have x: "r_id (insert_directory now newId d) = newId"
    "r_sync_root_id (insert_directory now newId d) = du_syncRootId d"
    "r_local_path (insert_directory now newId d) = du_relativePath d"
    "seenBy (du_lastSeenScanId d) (insert_directory now newId d)"
    by (simp_all add: insert_directory_def new_entry_def seenBy_def)
  have f: "r_id (update_directory now d r) = r_id r \<and> r_sync_root_id (update_directory now d r) = r_sync_root_id r \<and>
      r_local_path (update_directory now d r) = r_local_path r"
    "seenBy (du_lastSeenScanId d) (update_directory now d r)" for r
    by (simp_all add: update_directory_def seenBy_def)
  show ?thesis
    using upsert_records [where x = "insert_directory now newId d" and f = "update_directory now d" and e = "step_failed ''entries''",
        OF assms(1) _ x(2,3,4) readable_updates(7) f(1)]
    by (simp add: upsertDirectoryEntry_def x(1) assms(2) f(2) readable_updates(1))
qed

lemma upsertFileEntry_records:
  assumes "entries_inv t" and "newId \<notin> r_id ` set t" and "int64 (fu_mtime f)" and "fu_syncState f \<noteq> EntrySyncState.Deleted"
  shows "\<exists>t'. upsertFileEntry now newId f t = (Inr (), t') \<and> entries_inv t' \<and>
    recorded (fu_syncRootId f) (fu_lastSeenScanId f) {fu_relativePath f} t t' \<and>
    r_id ` set t' \<subseteq> insert newId (r_id ` set t)"
proof -
  have "toEntrySyncStateString (fu_syncState f) \<noteq> ''deleted''" using assms(4) by (cases "fu_syncState f") simp_all
  then have x: "r_id (insert_file now newId f) = newId"
    "r_sync_root_id (insert_file now newId f) = fu_syncRootId f"
    "r_local_path (insert_file now newId f) = fu_relativePath f"
    "seenBy (fu_lastSeenScanId f) (insert_file now newId f)"
    and g: "r_id (update_file now f r) = r_id r \<and> r_sync_root_id (update_file now f r) = r_sync_root_id r \<and>
      r_local_path (update_file now f r) = r_local_path r"
    "seenBy (fu_lastSeenScanId f) (update_file now f r)" for r
    by (simp_all add: insert_file_def new_entry_def update_file_def seenBy_def)
  show ?thesis
    using upsert_records [where x = "insert_file now newId f" and f = "update_file now f" and e = "step_failed ''entries''",
        OF assms(1) _ x(2,3,4) readable_updates(8) [OF assms(3)] g(1)]
    by (simp add: upsertFileEntry_def x(1) assms(2) g(2) readable_updates(2) [OF assms(3)])
qed

lemma handleDirectory_run:
  assumes "scan_ready env s"
  shows "\<exists>s'. handleDirectory env root job p s = (Inr (), s') \<and> progress env root job {p} s s' \<and> app_scans s' = app_scans s"
  unfolding handleDirectory_def
  by (rule timed_record [OF assms])
    (use upsertDirectoryEntry_records [where d = "\<lparr>du_syncRootId = root, du_relativePath = p, du_lastSeenScanId = job\<rparr>"] in simp)

lemma findEntryByPath_total:
  assumes "entries_inv t"
  shows "\<exists>e. findEntryByPath root p t = Inr e"
proof (cases "\<exists>r\<in>set t. r_sync_root_id r = root \<and> r_local_path r = p")
  case True
  then show ?thesis using findEntryByPath_row [OF assms] by blast
next
  case False
  then show ?thesis using findEntryByPath_none [of t root p] by blast
qed

lemma fileSyncState_not_Deleted: "fileSyncState existing shouldHash h \<noteq> EntrySyncState.Deleted"
  by (simp add: fileSyncState_def split: option.split)

lemma handleFileEntry_run:
  assumes ready: "scan_ready env s" and hash: "hashable env (app_files s)"
  shows "\<exists>s'. handleFileEntry env root job absPath p s =
      (Inr (case fs_file_size absPath (app_files s) of None \<Rightarrow> False | Some n \<Rightarrow> int n \<le> 9223372036854775807), s') \<and>
    progress env root job
      (if (case fs_file_size absPath (app_files s) of None \<Rightarrow> False | Some n \<Rightarrow> int n \<le> 9223372036854775807) then {p} else {})
      s s' \<and> app_scans s' = app_scans s"
proof (cases "fs_at (app_files s) absPath")
  case (Some node)
  show ?thesis
  proof (cases node)
    case Dir
    then show ?thesis using Some ready
      by (simp add: handleFileEntry_def act_simps fs_file_size_def progress_refl)
  next
    case (File bs mtime)
    let ?fs = "app_files s"
    have "absPath \<in> fst ` set ?fs" using Some map_of_SomeD by (force simp: fs_at_def)
    then obtain h where h: "hashFile (sc_hasher env) absPath ?fs = Inr h" and mtime: "int64 mtime"
      using bspec [OF hash [unfolded hashable_def], of absPath] Some File by (auto split: sum.splits)
    obtain e where e: "findEntryByPath root p (app_entries s) = Inr e"
      using findEntryByPath_total ready by (metis scan_ready_def app_inv_def)
    let ?sh = "\<not> knownUnchanged e (int (length bs)) mtime"
    let ?c = "if ?sh then Some h else Option.bind e e_contentHash"
    let ?f = "\<lparr>fu_syncRootId = root, fu_relativePath = p, fu_size = int (length bs), fu_mtime = mtime,
      fu_contentHash = (case ?c of Some h \<Rightarrow> h | None \<Rightarrow> []), fu_syncState = fileSyncState e ?sh ?c, fu_lastSeenScanId = job\<rparr>"
    have "\<exists>s'. timed (sc_clocks env) (\<lambda>now newId. onEntries (upsertFileEntry now newId ?f)) s = (Inr (), s') \<and>
        progress env root job {p} s s' \<and> app_scans s' = app_scans s"
      by (rule timed_record [OF ready])
        (use upsertFileEntry_records [where f = ?f] mtime fileSyncState_not_Deleted in simp)
    then show ?thesis
      using Some File e h progress_refl [OF ready]
      by (auto simp: handleFileEntry_def fs_file_size_def last_write_time_def bindE_def getsE_def liftE_def returnE_def Let_def
          split: prod.splits)
  qed
qed (use ready in \<open>simp add: handleFileEntry_def act_simps fs_file_size_def progress_refl\<close>)

lemma counted_paths_single: "counted_paths fs [i] = (if counts fs i then {it_rel i} else {})"
  by (auto simp: counted_paths_def)

lemma scanItem_run:
  assumes "scan_ready env s" and "hashable env (app_files s)"
  shows "\<exists>s'. scanItem env root job i s = (Inr (counts (app_files s) i), s') \<and>
    progress env root job (counted_paths (app_files s) [i]) s s' \<and> app_scans s' = app_scans s"
proof (cases "it_kind i")
  case Directory
  then show ?thesis using handleDirectory_run [OF assms(1), of root job "it_rel i"]
    by (auto simp: scanItem_def counts_def bindE_def returnE_def counted_paths_single)
next
  case Regular
  then show ?thesis using handleFileEntry_run [OF assms, of root job "it_abs i" "it_rel i"]
    by (simp add: scanItem_def counts_def counted_paths_single)
qed (use progress_refl [OF assms(1)] in \<open>simp_all add: scanItem_def counts_def counted_paths_single returnE_def\<close>)

text \<open>A batch gets on: it records the items up to some point, and at least one unless there is none.\<close>

lemma counted_paths_Cons: "counted_paths fs (i # items) = counted_paths fs [i] \<union> counted_paths fs items"
  by (auto simp: counted_paths_def)

lemma scanBatch_run:
  assumes "scan_ready env s" and "hashable env (app_files s)"
  shows "\<exists>dn rest c s'. scanBatch env root job n last0 items s = (Inr (rest, c), s') \<and> items = dn @ rest \<and>
    (rest = [] \<or> dn \<noteq> [] \<or> n \<ge> kMaxScanBatchSize) \<and>
    progress env root job (counted_paths (app_files s) dn) s s' \<and> app_scans s' = app_scans s"
  using assms
proof (induction items arbitrary: n last0 s)
  case Nil
  then show ?case using progress_refl [OF Nil(1)] by (simp add: returnE_def counted_paths_def)
next
  case (Cons i items)
  show ?case
  proof (cases "n \<ge> kMaxScanBatchSize")
    case True
    then show ?thesis using progress_refl [OF Cons.prems(1)] by (simp add: returnE_def counted_paths_def)
  next
    case False
    obtain s1 where s1: "scanItem env root job i s = (Inr (counts (app_files s) i), s1)"
      "progress env root job (counted_paths (app_files s) [i]) s s1" "app_scans s1 = app_scans s"
      using scanItem_run [OF Cons.prems] by blast
    let ?n = "if counts (app_files s) i then Suc n else n" and ?c = "if counts (app_files s) i then Some (it_rel i) else last0"
    have files: "app_files s1 = app_files s" and ready: "scan_ready env s1" using s1(2) by (simp_all add: progress_def)
    then have "hashable env (app_files s1)" using Cons.prems(2) by simp
    from Cons.IH [OF ready this, of ?n ?c] obtain dn rest c s' where
      run: "scanBatch env root job ?n ?c items s1 = (Inr (rest, c), s')" "items = dn @ rest"
      and prog: "progress env root job (counted_paths (app_files s) dn) s1 s'" "app_scans s' = app_scans s1"
      unfolding files by blast
    have "scanBatch env root job n last0 (i # items) s = (Inr (rest, c), s')"
      using False s1(1) run(1) by (simp add: bindE_def split: if_splits)
    moreover have "progress env root job (counted_paths (app_files s) (i # dn)) s s'"
      using progress_trans [OF s1(2) prog(1)] unfolding counted_paths_Cons [of _ i dn] .
    moreover have "i # items = (i # dn) @ rest" using run(2) by simp
    ultimately show ?thesis
      by (intro exI [of _ "i # dn"] exI [of _ rest] exI [of _ c] exI [of _ s']) (simp add: prog(2) s1(3))
  qed
qed

section \<open>The scan of a root, batch after batch\<close>

lemma updateScanCursor_run:
  assumes "scan_ok t"
  shows "updateScanCursor now job c t =
    (Inr (), update_where (\<lambda>r. sj_id r = job) (\<lambda>r. r\<lparr>sj_cursor_path := Some c, sj_updated_at := now\<rparr>) t)"
  using update_keeps_scan_ok [OF assms, of "\<lambda>r. r\<lparr>sj_cursor_path := Some c, sj_updated_at := now\<rparr>" "\<lambda>r. sj_id r = job"]
  by (simp add: updateScanCursor_def stmtE_def sql_update_def idx_scan_jobs_active_root_def)

lemma markScanComplete_run:
  assumes "scan_ok t"
  shows "markScanComplete now job t = (Inr (), update_where (\<lambda>r. sj_id r = job)
    (\<lambda>r. r\<lparr>sj_status := ''completed'', sj_updated_at := now, sj_completed_at := Some now\<rparr>) t)"
  using update_keeps_scan_ok [OF assms, of "\<lambda>r. r\<lparr>sj_status := ''completed'', sj_updated_at := now, sj_completed_at := Some now\<rparr>"
      "\<lambda>r. sj_id r = job"]
  by (simp add: markScanComplete_def stmtE_def sql_update_def idx_scan_jobs_active_root_def)

text \<open>The job of the root is the running one with this identifier.\<close>

definition runs :: "string \<Rightarrow> string \<Rightarrow> scan_table \<Rightarrow> bool" where
  "runs root job t \<longleftrightarrow> (\<exists>r\<in>set t. running_of root r \<and> sj_id r = job)"

lemma runs_cursor:
  assumes "scan_ok t" and "runs root job t"
  shows "runs root job (snd (updateScanCursor now job' c t))"
proof -
  let ?f = "\<lambda>r. if sj_id r = job' then r\<lparr>sj_cursor_path := Some c, sj_updated_at := now\<rparr> else r"
  obtain r where r: "r \<in> set t" "running_of root r \<and> sj_id r = job" using assms(2) by (auto simp: runs_def)
  then have "running_of root (?f r) \<and> sj_id (?f r) = job" by (simp add: running_of_def)
  moreover have "?f r \<in> set (snd (updateScanCursor now job' c t))"
    unfolding updateScanCursor_run [OF assms(1)] update_where_def snd_conv set_map using r(1) by (rule imageI)
  ultimately show ?thesis unfolding runs_def by blast
qed

lemma runs_complete:
  assumes "scan_ok t" and "runs root job t"
  shows "\<not> hasRunningScanJob root (snd (markScanComplete now job t))"
proof -
  obtain r where r: "r \<in> set t" "running_of root r" "sj_id r = job" using assms(2) by (auto simp: runs_def)
  have "sj_id x = job" if "x \<in> set t" "running_of root x" for x
  proof -
    have "x \<in> set (filter (running_of root) t)" using that by simp
    then show ?thesis using running_unique [OF assms(1) r(1,2)] r(3) by simp
  qed
  then show ?thesis
    unfolding markScanComplete_run [OF assms(1)] hasRunningScanJob_def update_where_def
    by (auto simp: running_of_def)
qed

lemma getScanJob_runs: "scan_ok t \<Longrightarrow> runs root job t \<Longrightarrow> \<exists>j. getScanJob root t = Some j \<and> scan_id j = job"
  by (auto simp: runs_def readScanJob_def dest: getScanJob_running)

lemma map_of_forget [simp]: "map_of (forget root act) r = (if r = root then None else map_of act r)"
  by (induction act) (auto simp: forget_def)

lemma map_of_advance:
  "map_of (map (\<lambda>(r, (p, old)). if r = root then (r, (p, rest)) else (r, (p, old))) act) root =
   map_option (\<lambda>(p, _). (p, rest)) (map_of act root)"
  by (induction act) auto

text \<open>A scan that went through: the job is over and the rows it has not seen are marked.\<close>

definition finished :: "string \<Rightarrow> string \<Rightarrow> string set \<Rightarrow> entries_table \<Rightarrow> 'srv app \<Rightarrow> bool" where
  "finished root job ps t s' \<longleftrightarrow> \<not> hasRunningScanJob root (app_scans s') \<and>
     (\<exists>now t1. recorded root job ps t t1 \<and> app_entries s' = update_where
        (\<lambda>r. r_sync_root_id r = root \<and> r_last_seen_scan_job_id r \<noteq> Some job \<and> r_sync_state r \<noteq> ''deleted'')
        (mark_deleted now) t1)"

lemma finished_extend:
  assumes "recorded root job ps t t'" and "finished root job qs t' s"
  shows "finished root job (ps \<union> qs) t s"
  using assms(2) recorded_trans [OF assms(1)] unfolding finished_def by blast

lemma finishScan_run:
  assumes "scan_ready env s" and "runs root job (app_scans s)" and "recorded root job ps t (app_entries s)"
  shows "\<exists>s'. finishScan env root job s = (Inr (), s') \<and> finished root job ps t s'"
proof -
  have ok: "scan_ok (app_scans s)" "entries_ok (app_entries s)"
    using assms(1) by (simp_all add: scan_ready_def app_inv_def entries_inv_def)
  show ?thesis
    using runs_complete [OF ok(1) assms(2)] assms(3)
    by (auto simp: finishScan_def finished_def bindE_def timed_def onScans_def onEntries_def
        markScanComplete_run [OF ok(1)] mark_updates(1) [OF ok(2)])
qed

lemma progress_cursor:
  assumes "progress env root job ps s s'" and "runs root job (app_scans s')"
  shows "\<exists>s''. (case c of Some p \<Rightarrow> onApp (timed (sc_clocks env) (\<lambda>now _. onScans (updateScanCursor now job p)))
      | None \<Rightarrow> returnE ()) (s', act) = (Inr (), (s'', act)) \<and>
    progress env root job ps s s'' \<and> runs root job (app_scans s'')"
proof (cases c)
  case None
  then show ?thesis using assms by (simp add: returnE_def)
next
  case (Some p)
  have ok: "scan_ok (app_scans s')" using assms(1) by (simp add: progress_def scan_ready_def app_inv_def)
  let ?now = "clock (sc_clocks env) (app_tick s')"
  let ?t = "snd (updateScanCursor ?now job p (app_scans s'))"
  let ?s = "s'\<lparr>app_tick := Suc (app_tick s'), app_scans := ?t\<rparr>"
  have "onApp (timed (sc_clocks env) (\<lambda>now _. onScans (updateScanCursor now job p))) (s', act) = (Inr (), (?s, act))"
    by (simp add: onApp_def timed_def onScans_def updateScanCursor_run [OF ok])
  moreover have "progress env root job ps s ?s"
    using assms(1) keepsD [OF keeps_scans(2) ok] by (auto simp: progress_def scan_ready_def app_inv_def)
  moreover have "runs root job ?t" by (rule runs_cursor [OF ok assms(2)])
  ultimately show ?thesis using Some by auto
qed

lemma runScanJob_run:
  assumes ready: "scan_ready env s" "hashable env (app_files s)" and job: "runs root (scan_id j) (app_scans s)"
    and opened: "openScan env j root rootPath (s, act) = (Inr True, (s, act1))" "map_of act1 root = Some (rootPath, items)"
  shows "\<exists>dn rest s' act'. runScanJob env root rootPath j (s, act) = (Inr True, (s', act')) \<and> items = dn @ rest \<and>
    (if rest = [] then finished root (scan_id j) (counted_paths (app_files s) items) (app_entries s) s'
     else dn \<noteq> [] \<and> map_of act' root = Some (rootPath, rest) \<and> runs root (scan_id j) (app_scans s') \<and>
       progress env root (scan_id j) (counted_paths (app_files s) dn) s s')"
proof -
  let ?job = "scan_id j"
  obtain dn rest c s1 where batch: "scanBatch env root ?job 0 None items s = (Inr (rest, c), s1)" "items = dn @ rest"
    "rest = [] \<or> dn \<noteq> [] \<or> 0 \<ge> kMaxScanBatchSize"
    and prog: "progress env root ?job (counted_paths (app_files s) dn) s s1" "app_scans s1 = app_scans s"
    using scanBatch_run [OF ready] by blast
  let ?act = "map (\<lambda>(r, (p, old)). if r = root then (r, (p, rest)) else (r, (p, old))) act1"
  have run: "runScanBatch env root ?job (s, act1) = (Inr (rest, c), (s1, ?act))"
    using opened(2) batch(1) by (simp add: runScanBatch_def bindE_def getsE_def onApp_def)
  have job1: "runs root ?job (app_scans s1)" using job prog(2) by simp
  show ?thesis
  proof (cases "rest = []")
    case True
    obtain s' where "finishScan env root ?job s1 = (Inr (), s')"
      "finished root ?job (counted_paths (app_files s) dn) (app_entries s) s'"
      using finishScan_run [OF _ job1] prog(1) unfolding progress_def by blast
    then show ?thesis
      using opened(1) run True batch(2) by (simp add: runScanJob_def bindE_def onApp_def)
  next
    case False
    from progress_cursor [OF prog(1) job1, of c ?act] obtain s' where s': "(case c of Some p \<Rightarrow> onApp (timed (sc_clocks env) (\<lambda>now _. onScans (updateScanCursor now ?job p)))
      | None \<Rightarrow> returnE ()) (s1, ?act) = (Inr (), (s', ?act))"
      "progress env root ?job (counted_paths (app_files s) dn) s s'" "runs root ?job (app_scans s')"
      by (elim exE conjE) (rule that)
    have "runScanJob env root rootPath j (s, act) = (Inr True, (s', ?act))"
      using opened(1) run False s'(1) by (simp add: runScanJob_def bindE_def returnE_def)
    moreover have "map_of ?act root = Some (rootPath, rest)" using opened(2) by (simp add: map_of_advance)
    moreover have "dn \<noteq> []" using batch(3) False by (simp add: kMaxScanBatchSize_def)
    ultimately show ?thesis using False batch(2) s'(2,3) by auto
  qed
qed

lemma openScan_known:
  "map_of act root = Some (rootPath, items) \<Longrightarrow> openScan env j root rootPath (s, act) = (Inr True, (s, act))"
  by (simp add: openScan_def)

lemma openScan_new:
  assumes "map_of act root = None" and "scan_cursorPath j = None" and "sc_listing env rootPath rootPath (app_files s) = Some l"
  shows "openScan env j root rootPath (s, act) = (Inr True, (s, (root, (rootPath, li_items l)) # forget root act))"
  using assms by (simp add: openScan_def positionAfterCursor_def)

text \<open>The root is enabled and its folder is there.\<close>

definition scannable :: "'h scan_env \<Rightarrow> string \<Rightarrow> string \<Rightarrow> 'srv app \<Rightarrow> bool" where
  "scannable env root rootPath s \<longleftrightarrow>
     (case findSyncRootById root (app_roots s) of
        Inr (Some sr) \<Rightarrow> root_enabled sr \<noteq> 0 \<and> rootPath = absolute (sc_cwd env) (root_localPath sr) \<and>
          is_directory rootPath (app_files s)
      | _ \<Rightarrow> False)"

lemma scanRoot_body:
  assumes "scannable env root rootPath s" and "scanRootBody env root rootPath (s, act) = (Inr True, sl)"
  shows "scanRoot env root (s, act) = (Inr True, sl)"
  using assms by (auto simp: scanRoot_def scannable_def Let_def split: sum.splits option.splits prod.splits)

lemma scannable_cong: "app_roots s' = app_roots s \<Longrightarrow> app_files s' = app_files s \<Longrightarrow> scannable env r p s' = scannable env r p s"
  by (auto simp: scannable_def split: sum.splits option.splits)

lemma scannable_progress: "progress env root job ps s s' \<Longrightarrow> scannable env r p s' = scannable env r p s"
  by (rule scannable_cong) (simp_all add: progress_def)

text \<open>
  A job that was taken is brought to its end, whether it has just been made or is under way; each
  round leaves fewer items.
\<close>

lemma takeScanJob_running:
  assumes "scan_ready env s" and "runs root job (app_scans s)"
  shows "\<exists>j. takeScanJob env root s = (Inr (Some j), s) \<and> scan_id j = job"
proof -
  have "scan_ok (app_scans s)" using assms(1) by (simp add: scan_ready_def app_inv_def)
  then obtain j where "getScanJob root (app_scans s) = Some j" "scan_id j = job" using getScanJob_runs assms(2) by blast
  then show ?thesis by (simp add: takeScanJob_def bindE_def getsE_def returnE_def)
qed

lemma scanToEnd_run:
  assumes "takeScanJob env root s0 = (Inr (Some j), s)" and "scannable env root rootPath s0"
    and "scan_ready env s" "hashable env (app_files s)" and "scannable env root rootPath s"
    and "runs root (scan_id j) (app_scans s)"
    and "openScan env j root rootPath (s, act) = (Inr True, (s, act1))" "map_of act1 root = Some (rootPath, items)"
    and "recorded root (scan_id j) ps t (app_entries s)" and "length items < fuel"
  shows "\<exists>s' act'. scanToEnd fuel env root (s0, act) = (Inr (Some ()), (s', act')) \<and>
    finished root (scan_id j) (ps \<union> counted_paths (app_files s) items) t s'"
  using assms
proof (induction fuel arbitrary: j s0 s act act1 items ps)
  case 0
  then show ?case by simp
next
  case (Suc fuel)
  let ?job = "scan_id j"
  obtain dn rest s1 act2 where run: "runScanJob env root rootPath j (s, act) = (Inr True, (s1, act2))" "items = dn @ rest"
    and res: "if rest = [] then finished root ?job (counted_paths (app_files s) items) (app_entries s) s1
     else dn \<noteq> [] \<and> map_of act2 root = Some (rootPath, rest) \<and> runs root ?job (app_scans s1) \<and>
       progress env root ?job (counted_paths (app_files s) dn) s s1"
    using runScanJob_run [OF Suc.prems(3,4,6,7,8)] by blast
  have "scanRootBody env root rootPath (s0, act) = (Inr True, (s1, act2))"
    using Suc.prems(1) run(1) by (simp add: scanRootBody_def onApp_def bindE_def)
  then have scanned: "scanRoot env root (s0, act) = (Inr True, (s1, act2))"
    by (rule scanRoot_body [OF Suc.prems(2)])
  show ?case
  proof (cases "rest = []")
    case True
    then have "finished root ?job (ps \<union> counted_paths (app_files s) items) t s1"
      using res finished_extend [OF Suc.prems(9)] by simp
    then show ?thesis using scanned by (simp add: bindE_def getsE_def returnE_def finished_def)
  next
    case False
    then have prog: "progress env root ?job (counted_paths (app_files s) dn) s s1" and more: "runs root ?job (app_scans s1)"
      "map_of act2 root = Some (rootPath, rest)" "dn \<noteq> []" using res by simp_all
    then have s1: "scan_ready env s1" "hashable env (app_files s1)" and files: "app_files s1 = app_files s"
      using Suc.prems(4) by (simp_all add: progress_def)
    obtain k where k: "takeScanJob env root s1 = (Inr (Some k), s1)" "scan_id k = ?job"
      using takeScanJob_running [OF s1(1) more(1)] by blast
    have rec: "recorded root ?job (ps \<union> counted_paths (app_files s) dn) t (app_entries s1)"
      using recorded_trans [OF Suc.prems(9)] prog unfolding progress_def by blast
    have "length rest < fuel" using Suc.prems(10) run(2) more(3) by (cases dn) auto
    then have "\<exists>s' act'. scanToEnd fuel env root (s1, act2) = (Inr (Some ()), (s', act')) \<and>
        finished root (scan_id k) ((ps \<union> counted_paths (app_files s) dn) \<union> counted_paths (app_files s1) rest) t s'"
      using Suc.prems(5) scannable_progress [OF prog] more rec k(2)
      by (intro Suc.IH [OF k(1) _ s1]) (simp_all add: openScan_known)
    moreover have "hasRunningScanJob root (app_scans s1)" using more(1) by (auto simp: runs_def hasRunningScanJob_def)
    moreover have "(ps \<union> counted_paths (app_files s) dn) \<union> counted_paths (app_files s1) rest = ps \<union> counted_paths (app_files s) items"
      unfolding run(2) files by (auto simp: counted_paths_def)
    ultimately show ?thesis using scanned k(2) by (simp add: bindE_def getsE_def)
  qed
qed

text \<open>The rows of a root that are not marked deleted.\<close>

definition present_paths :: "string \<Rightarrow> entries_table \<Rightarrow> string set" where
  "present_paths root t = r_local_path ` {r\<in>set t. r_sync_root_id r = root \<and> r_sync_state r \<noteq> ''deleted''}"

lemma finished_paths:
  assumes fin: "finished root job ps t s'" and fresh: "Some job \<notin> r_last_seen_scan_job_id ` set t"
  shows "present_paths root (app_entries s') = ps"
    and "\<forall>r. r_sync_root_id r \<noteq> root \<longrightarrow> (r \<in> set (app_entries s') \<longleftrightarrow> r \<in> set t)"
proof -
  let ?p = "\<lambda>r. r_sync_root_id r = root \<and> r_last_seen_scan_job_id r \<noteq> Some job \<and> r_sync_state r \<noteq> ''deleted''"
  obtain now t1 where rec: "recorded root job ps t t1" and t': "app_entries s' = update_where ?p (mark_deleted now) t1"
    using fin by (auto simp: finished_def)
  have seen: "rowAt root ps r" if "r \<in> set t1" "r_last_seen_scan_job_id r = Some job" for r
  proof (rule ccontr)
    assume "\<not> rowAt root ps r"
    then have "r \<in> set t" using that(1) rec by (simp add: recorded_def)
    then show False using fresh that(2) by (metis imageI)
  qed
  have rows: "set (app_entries s') = {r\<in>set t1. \<not> ?p r} \<union> mark_deleted now ` {r\<in>set t1. ?p r}"
    by (auto simp: t' update_where_def)
  have kept: "r \<in> set (app_entries s') \<longleftrightarrow> r \<in> set t1"
    if "\<not> (r_sync_root_id r = root \<and> r_sync_state r = ''deleted'')" "\<not> ?p r" for r
  proof -
    have "r \<notin> mark_deleted now ` {r\<in>set t1. ?p r}" using that(1) by (auto simp: mark_deleted_def)
    then show ?thesis unfolding rows using that(2) by blast
  qed
  show "present_paths root (app_entries s') = ps"
  proof (intro set_eqI iffI)
    fix p assume "p \<in> present_paths root (app_entries s')"
    then obtain r where r: "r \<in> set (app_entries s')" "r_sync_root_id r = root" "r_sync_state r \<noteq> ''deleted''" "p = r_local_path r"
      by (auto simp: present_paths_def)
    have "r_sync_state (mark_deleted now x) = ''deleted''" for x by (simp add: mark_deleted_def)
    then have "r \<notin> mark_deleted now ` {r\<in>set t1. ?p r}" using r(3) by blast
    then have "\<not> ?p r" using r(1) unfolding rows by blast
    then show "p \<in> ps" using kept [of r] seen [of r] r by (auto simp: rowAt_def)
  next
    fix p assume "p \<in> ps"
    then obtain r where r: "r \<in> set t1" "rowAt root {p} r" using rec by (auto simp: recorded_def)
    then have "seenBy job r" using rec \<open>p \<in> ps\<close> by (simp add: recorded_def rowAt_def)
    then show "p \<in> present_paths root (app_entries s')"
      using kept [of r] r by (auto simp: present_paths_def rowAt_def seenBy_def)
  qed
  show "\<forall>r. r_sync_root_id r \<noteq> root \<longrightarrow> (r \<in> set (app_entries s') \<longleftrightarrow> r \<in> set t)"
    using kept rec by (auto simp: recorded_def rowAt_def)
qed

section \<open>The scan of a path ends\<close>

lemma scanBatch_split:
  assumes "scanBatch env root job n c0 items s = (Inr (rest, c), s')"
  shows "\<exists>dn. items = dn @ rest \<and> ((\<exists>i\<in>set dn. c = Some (it_rel i)) \<or> (c = c0 \<and> (rest = [] \<or> n \<ge> kMaxScanBatchSize)))"
  using assms
proof (induction items arbitrary: n c0 s)
  case (Cons i items)
  show ?case
  proof (cases "n \<ge> kMaxScanBatchSize")
    case False
    then obtain b s1 where "scanBatch env root job (if b then Suc n else n) (if b then Some (it_rel i) else c0) items s1 = (Inr (rest, c), s')"
      using Cons.prems
      by (auto simp: bindE_def split: prod.splits sum.splits if_splits intro: that [of True] that [of False])
    from Cons.IH [OF this] obtain dn where "items = dn @ rest"
      "(\<exists>j\<in>set (i # dn). c = Some (it_rel j)) \<or> (c = c0 \<and> (rest = [] \<or> n \<ge> kMaxScanBatchSize))"
      by (auto split: if_splits)
    then show ?thesis by (intro exI [of _ "i # dn"]) simp
  qed (use Cons.prems in \<open>auto simp: returnE_def\<close>)
qed (simp add: returnE_def)

lemma skipTo_found:
  assumes "it_rel i \<notin> it_rel ` set pre"
  shows "skipTo (it_rel i) (pre @ i # items) \<in> {None, Some items}"
  using assms by (induction pre) auto

lemma leaves_scanBatch [leaves_intros]: "leaves app_files (scanBatch env root job n c items)"
proof (induction items arbitrary: n c)
  case (Cons i items)
  have "leaves app_files (scanItem env root job i)"
    unfolding scanItem_def handleFileEntry_def handleDirectory_def
    by (auto intro!: leaves_intros split: item_kind.split option.split simp: Let_def)
  then show ?case using Cons by (auto intro!: leaves_intros)
qed (simp add: leaves_intros)

lemma subtreeLoop_ends:
  assumes "sc_listing env rootPath sub (app_files s) = Some l" and "distinct (map it_rel (li_items l))"
    and "case c of None \<Rightarrow> items = li_items l | Some p \<Rightarrow> items \<noteq> [] \<and> (\<exists>pre i. li_items l = pre @ i # items \<and> p = it_rel i)"
    and "length items < fuel"
  shows "fst (subtreeLoop fuel env root job rootPath sub rel c s) \<noteq> Inr None"
  using assms
proof (induction fuel arbitrary: s c items)
  case 0
  then show ?case by simp
next
  case (Suc fuel)
  let ?again = "sc_listing env rootPath rootPath (app_files s)"
  have pos: "positionAfterCursor c ?again l \<in> {None, Some (l\<lparr>li_items := items\<rparr>)}"
  proof (cases c)
    case None
    then show ?thesis using Suc.prems(3) by (simp add: positionAfterCursor_def)
  next
    case (Some p)
    then obtain pre i where "li_items l = pre @ i # items" "p = it_rel i" "items \<noteq> []" using Suc.prems(3) by auto
    moreover have "skipTo p (li_items l) \<in> {None, Some items}"
      using Suc.prems(2) calculation by (auto intro!: skipTo_found [of i pre items, simplified] simp del: skipTo.simps)
    ultimately show ?thesis using Some by (auto simp: positionAfterCursor_def)
  qed
  show ?case
  proof (cases "positionAfterCursor c ?again l")
    case None
    then show ?thesis using Suc.prems(1) by (simp add: bindE_def getsE_def returnE_def)
  next
    case (Some l')
    then have l': "li_items l' = items" using pos by simp
    obtain x s1 where batch: "scanBatch env root job 0 None items s = (x, s1)" by force
    have files: "app_files s1 = app_files s" using leavesD' [OF leaves_scanBatch batch] .
    show ?thesis
    proof (cases x)
      case (Inr rc)
      obtain rest cur where rc: "rc = (rest, cur)" by force
      show ?thesis
      proof (cases "rest = [] \<or> cur = None")
        case True
        then show ?thesis using Suc.prems(1) Some l' batch Inr rc
          by (auto simp: bindE_def getsE_def returnE_def split: prod.splits sum.splits)
      next
        case False
        then obtain dn i where dn: "items = dn @ rest" "i \<in> set dn" "cur = Some (it_rel i)"
          using scanBatch_split [of env root job 0 None items s rest cur s1] batch Inr rc by (auto simp: kMaxScanBatchSize_def)
        then obtain d1 d2 where d: "dn = d1 @ i # d2" by (metis split_list)
        obtain pre0 where pre0: "li_items l = pre0 @ items"
          using Suc.prems(3) by (cases c) (auto intro: that [of "[]"] that [of "_ @ [_]"])
        have "fst (subtreeLoop fuel env root job rootPath sub rel cur s1) \<noteq> Inr None"
          using Suc.prems(1,2,4) files False dn d pre0
          by (intro Suc.IH [where items = "d2 @ rest"]) (auto intro!: exI [of _ "pre0 @ d1"])
        then show ?thesis using Suc.prems(1) Some l' batch Inr rc False
          by (auto simp: bindE_def getsE_def)
      qed
    qed (use Suc.prems(1) Some l' batch in \<open>simp add: bindE_def getsE_def\<close>)
  qed
qed

text \<open>What is relied on of directory iterators: no path is listed twice.\<close>

definition listing_law :: "'h scan_env \<Rightarrow> bool" where
  "listing_law env \<longleftrightarrow> (\<forall>root sub fs l. sc_listing env root sub fs = Some l \<longrightarrow> distinct (map it_rel (li_items l)))"

lemma leaves_handleDirectory [leaves_intros]:
  "leaves app_files (handleDirectory env root job p)" "leaves app_dirty (handleDirectory env root job p)"
  unfolding handleDirectory_def by (intro leaves_intros)+

text \<open>An action that never answers \<open>None\<close>.\<close>

definition ends :: "('s, 'a option) act \<Rightarrow> bool" where
  "ends m \<longleftrightarrow> (\<forall>s. fst (m s) \<noteq> Inr None)"

lemma ends_returnE: "ends (returnE (Some x))"
  by (simp add: ends_def returnE_def)

lemma ends_bindE:
  assumes "\<And>x. ends (f x)"
  shows "ends (bindE m f)"
  using assms by (auto simp: ends_def bindE_def split: prod.split sum.split)

lemma ends_timed: "(\<And>now newId. ends (f now newId)) \<Longrightarrow> ends (timed c f)"
  by (simp add: ends_def timed_def)

lemma ends_transactionA: "ends m \<Longrightarrow> ends (transactionA m)"
  by (auto simp: ends_def transactionA_def split: prod.split) (metis fst_conv)

lemma ends_if: "ends a \<Longrightarrow> ends b \<Longrightarrow> ends (if c then a else b)"
  by simp

lemma ends_subtree:
  assumes "listing_law env"
  shows "ends (bindE (getsE app_files) (\<lambda>fs.
    subtreeLoop (subtreeRounds env rootPath sub fs) env root job rootPath sub rel None) :: ('srv, bool option) app_act)"
proof -
  have "fst (subtreeLoop (subtreeRounds env rootPath sub (app_files s)) env root job rootPath sub rel None s) \<noteq> Inr None"
    for s :: "'srv app"
  proof (cases "sc_listing env rootPath sub (app_files s)")
    case None
    then show ?thesis by (simp add: subtreeRounds_def bindE_def getsE_def returnE_def)
  next
    case (Some l)
    then have "distinct (map it_rel (li_items l))" using assms by (simp add: listing_law_def)
    moreover have "subtreeRounds env rootPath sub (app_files s) = Suc (length (li_items l))"
      using Some by (simp add: subtreeRounds_def)
    ultimately show ?thesis using subtreeLoop_ends [OF Some, where c = None] by (simp del: subtreeLoop.simps)
  qed
  then show ?thesis by (simp add: ends_def bindE_def getsE_def)
qed

lemmas ends_intros = ends_returnE ends_bindE ends_timed ends_transactionA ends_if

lemma scanPath_ends:
  assumes "listing_law env"
  shows "ends (scanPath env root p)"
  unfolding scanPath_def scanSubtree_def Let_def
  by (auto intro!: ends_intros ends_subtree [OF assms] split: option.split simp del: subtreeLoop.simps)

section \<open>Properties\<close>

text \<open>
  C9. Scanning a root agrees with one pass over its directory, however many batches it takes:
  when no scan of the root is under way and the files do not change meanwhile, the loop of
  \<open>syncRun\<close> ends after at most one round more than the iterator has items, and then the paths
  of the root that are not marked deleted are exactly the directories and readable files the
  iterator listed. Entries of other roots are as before, and no scan of the root is left running.
\<close>

theorem scan_matches_listing:
  assumes "scan_ready env s" and "hashable env (app_files s)" and "scannable env root rootPath s"
    and "sc_listing env rootPath rootPath (app_files s) = Some l"
    and "\<not> hasRunningScanJob root (app_scans s)" and "map_of act root = None"
    and "\<forall>n\<ge>app_tick s. uuid (sc_clocks env) n \<notin> sj_id ` set (app_scans s) \<and>
      Some (uuid (sc_clocks env) n) \<notin> r_last_seen_scan_job_id ` set (app_entries s)"
  shows "\<exists>s' act'. scanToEnd (Suc (length (li_items l))) env root (s, act) = (Inr (Some ()), (s', act')) \<and>
    present_paths root (app_entries s') = counted_paths (app_files s) (li_items l) \<and>
    (\<forall>r. r_sync_root_id r \<noteq> root \<longrightarrow> (r \<in> set (app_entries s') \<longleftrightarrow> r \<in> set (app_entries s))) \<and>
    \<not> hasRunningScanJob root (app_scans s')"
proof -
  let ?job = "uuid (sc_clocks env) (app_tick s)" and ?now = "clock (sc_clocks env) (app_tick s)"
  let ?row = "new_scan ?now (newScanJob ?job root)"
  let ?s = "s\<lparr>app_tick := Suc (app_tick s), app_scans := app_scans s @ [?row]\<rparr>"
  have ok: "scan_ok (app_scans s)" using assms(1) by (simp add: scan_ready_def app_inv_def)
  have fresh: "?job \<notin> sj_id ` set (app_scans s)" "Some ?job \<notin> r_last_seen_scan_job_id ` set (app_entries s)"
    using assms(7) by simp_all
  have ok': "scan_ok (app_scans s @ [?row])"
    using ok assms(5) fresh(1)
    by (force simp: scan_ok_def uniq_on_snoc has_key_def scan_pk_def idx_scan_jobs_active_root_def new_scan_def newScanJob_def
        hasRunningScanJob_def running_of_def split: if_splits)
  have taken: "takeScanJob env root s = (Inr (Some (newScanJob ?job root)), ?s)"
    using ok' getScanJob_none [OF assms(5)]
    by (simp add: takeScanJob_def bindE_def getsE_def timed_def onScans_def insertScanJob_def sql_insert_or_ignore_def returnE_def)
  have ready: "scan_ready env ?s" "hashable env (app_files ?s)" "scannable env root rootPath ?s"
    using assms(1,2,3) ok' scannable_cong [of ?s s env] by (simp_all add: scan_ready_def app_inv_def)
  have job: "runs root (scan_id (newScanJob ?job root)) (app_scans ?s)"
    by (simp add: runs_def running_of_def new_scan_def newScanJob_def)
  have opened: "openScan env (newScanJob ?job root) root rootPath (?s, act) =
      (Inr True, (?s, (root, (rootPath, li_items l)) # forget root act))"
    by (rule openScan_new) (simp_all add: assms(4,6) newScanJob_def)
  obtain s' act' where run: "scanToEnd (Suc (length (li_items l))) env root (s, act) = (Inr (Some ()), (s', act'))"
    and fin: "finished root ?job (counted_paths (app_files s) (li_items l)) (app_entries s) s'"
    using scanToEnd_run [OF taken assms(3) ready job opened, of "li_items l" "{}" "app_entries s" "Suc (length (li_items l))"]
      recorded_refl by (auto simp: newScanJob_def)
  show ?thesis using run finished_paths [OF fin fresh(2)] fin by (auto simp: finished_def)
qed

text \<open>A folder with a directory, two files and a socket; an entry remembers a file that is gone.\<close>

definition tree_listing :: "string \<Rightarrow> string \<Rightarrow> files \<Rightarrow> listing option" where
  "tree_listing root sub fs = Some
     \<lparr>li_items = map (\<lambda>(p, n). \<lparr>it_abs = p, it_rel = drop (Suc (length root)) p,
                                it_kind = (case n of Dir \<Rightarrow> Directory | File _ _ \<Rightarrow> Regular)\<rparr>)
                     (filter (\<lambda>(p, _). below sub p) fs) @
                 [\<lparr>it_abs = root @ ''/sock'', it_rel = ''sock'', it_kind = Other\<rparr>],
      li_broken = False\<rparr>"

definition demo_scan :: "bytes scan_env" where
  "demo_scan =
     \<lparr>sc_clocks = \<lparr>clock = (\<lambda>n. to_string (int n)), uuid = (\<lambda>n. replicate n CHR ''u'')\<rparr>, sc_cwd = ''/'',
      sc_hasher = \<lparr>hs_init = [], hs_update = (@), hs_finalizeHex = (\<lambda>h. Inr (map (\<lambda>b. char_of (unat b)) h))\<rparr>,
      sc_listing = tree_listing\<rparr>"

definition demo_tree :: "string app" where
  "demo_tree = sample_app\<lparr>app_tick := 1,
     app_entries := [(new_entry ''t'' ''e'' ''s1'' ''file'' ''gone'')\<lparr>r_sync_state := ''unchanged''\<rparr>],
     app_files := [(''/home/a'', Dir), (''/home/a/d'', Dir), (''/home/a/d/x'', File [1, 2] 5000000), (''/home/a/y'', File [] 7)]\<rparr>"

lemma demo_tree_ready:
  "scan_ready demo_scan demo_tree" "hashable demo_scan (app_files demo_tree)" "scannable demo_scan ''s1'' ''/home/a'' demo_tree"
proof -
  have "entries_inv (app_entries demo_tree)"
    by (simp add: demo_tree_def entries_inv_def entries_ok_def readable_row_def new_entry_def uniq_on_Cons)
  then have "app_inv demo_tree" using sample_app_inv by (simp add: app_inv_def demo_tree_def)
  moreover have "inj (uuid (sc_clocks demo_scan))"
    by (rule injI) (metis demo_scan_def clocks.select_convs(2) length_replicate scan_env.select_convs(1))
  moreover have "uuid (sc_clocks demo_scan) n \<noteq> ''e''" for n by (cases n) (simp_all add: demo_scan_def)
  ultimately show "scan_ready demo_scan demo_tree"
    by (auto simp: scan_ready_def demo_tree_def new_entry_def)
  show "hashable demo_scan (app_files demo_tree)"
    by (simp add: hashable_def demo_tree_def demo_scan_def fs_at_def hashFile_def int64_def)
  show "scannable demo_scan ''s1'' ''/home/a'' demo_tree" by code_simp
qed

theorem scan_matches_listing_witness:
  "\<exists>s' act'. scanToEnd 5 demo_scan ''s1'' (demo_tree, []) = (Inr (Some ()), (s', act')) \<and>
     present_paths ''s1'' (app_entries s') = {''d'', ''d/x'', ''y''}"
proof -
  let ?l = "the (tree_listing ''/home/a'' ''/home/a'' (app_files demo_tree))"
  have l: "sc_listing demo_scan ''/home/a'' ''/home/a'' (app_files demo_tree) = Some ?l"
    by (simp add: demo_scan_def tree_listing_def)
  have scans: "app_scans demo_tree = []" by (simp add: demo_tree_def sample_app_def)
  have idle: "\<not> hasRunningScanJob ''s1'' (app_scans demo_tree)" by (simp add: scans hasRunningScanJob_def)
  have fresh: "\<forall>n\<ge>app_tick demo_tree. uuid (sc_clocks demo_scan) n \<notin> sj_id ` set (app_scans demo_tree) \<and>
      Some (uuid (sc_clocks demo_scan) n) \<notin> r_last_seen_scan_job_id ` set (app_entries demo_tree)"
    by (simp add: scans) (simp add: demo_tree_def new_entry_def)
  have "filter (counts (app_files demo_tree)) (li_items ?l) =
      [\<lparr>it_abs = ''/home/a/d'', it_rel = ''d'', it_kind = Directory\<rparr>,
       \<lparr>it_abs = ''/home/a/d/x'', it_rel = ''d/x'', it_kind = Regular\<rparr>,
       \<lparr>it_abs = ''/home/a/y'', it_rel = ''y'', it_kind = Regular\<rparr>]" (is "_ = ?is") by code_simp
  moreover have "counted_paths fs is = it_rel ` set (filter (counts fs) is)" for fs "is" by (simp add: counted_paths_def)
  ultimately have items: "counted_paths (app_files demo_tree) (li_items ?l) = {''d'', ''d/x'', ''y''}" by (simp del: set_filter)
  have len: "length (li_items ?l) = 4" by code_simp
  from scan_matches_listing [OF demo_tree_ready l idle _ fresh, of "[]"] show ?thesis
    unfolding items len by (auto simp: numeral_eq_Suc)
qed

text \<open>
  The time of a file is kept to the millisecond, but compared to the nanosecond: a file whose
  time is not a whole number of milliseconds is hashed again by every scan, although it has not
  changed since the last one.
\<close>

theorem unchanged_file_rehashed:
  assumes "int64 (fu_mtime f)" and "fu_mtime f mod 1000000 \<noteq> 0"
  shows "\<not> knownUnchanged (Some (entryOf (insert_file now newId f))) (fu_size f) (fu_mtime f) \<and>
    \<not> knownUnchanged (Some (entryOf (update_file now f r))) (fu_size f) (fu_mtime f)"
proof -
  have "truncMs m * 1000000 = m \<Longrightarrow> m mod 1000000 = 0" for m :: int by (metis mod_mult_self2_is_0)
  then have "truncMs (fu_mtime f) * 1000000 \<noteq> fu_mtime f" using assms(2) by blast
  then show ?thesis
    by (simp add: knownUnchanged_def mtimeOf_def parseMtime_def insert_file_def update_file_def
        stoll_toMtimeString [OF assms(1)])
qed

theorem unchanged_file_rehashed_witness:
  "\<not> knownUnchanged (Some (entryOf (insert_file ''0'' ''e'' (demoFile\<lparr>fu_mtime := 1\<rparr>)))) (fu_size demoFile) 1"
  using unchanged_file_rehashed [of "demoFile\<lparr>fu_mtime := 1\<rparr>" "''0''" "''e''"] by (simp add: int64_def)

text \<open>
  A row that has a size has a hash as well, so that a file known to be unchanged never loses its
  hash (\<open>handleFileEntry\<close> dereferences it unchecked).
\<close>

definition sized_hashed :: "entry_row \<Rightarrow> bool" where
  "sized_hashed r \<longleftrightarrow> r_local_size r = None \<or> r_local_content_hash r \<noteq> None"

lemmas sized_defs = sized_hashed_def update_directory_def insert_directory_def update_file_def insert_file_def
  mark_deleted_def new_entry_def update_remote_def adopt_remote_def insert_remote_def set_uploaded_def set_downloaded_def

lemma sized_updates:
  "sized_hashed r \<Longrightarrow> sized_hashed (update_directory now d r)" "sized_hashed (insert_directory now newId d)"
  "sized_hashed (update_file now f r)" "sized_hashed (insert_file now newId f)"
  "sized_hashed r \<Longrightarrow> sized_hashed (mark_deleted now r)" "sized_hashed r \<Longrightarrow> sized_hashed (update_remote now u r)"
  "sized_hashed r \<Longrightarrow> sized_hashed (adopt_remote now u r)" "sized_hashed (insert_remote now newId u)"
  "sized_hashed r \<Longrightarrow> sized_hashed (set_uploaded now i p r)" "sized_hashed (set_downloaded now n m h r)"
  by (simp_all add: sized_defs)

definition all_sized :: "entries_table \<Rightarrow> bool" where
  "all_sized t \<longleftrightarrow> (\<forall>r\<in>set t. sized_hashed r)"

lemma keeps_sized:
  assumes "\<And>r. sized_hashed r \<Longrightarrow> sized_hashed (f r)"
  shows "keeps all_sized (stmtE (sql_update ok e p f))"
    and "sized_hashed x \<Longrightarrow> keeps all_sized (stmtE (sql_upsert ok e idx f x))"
proof -
  show "keeps all_sized (stmtE (sql_update ok e p f))"
    by (rule keeps_stmtE) (use sql_update_rows [where good = sized_hashed] assms in \<open>auto simp: all_sized_def\<close>)
  show "keeps all_sized (stmtE (sql_upsert ok e idx f x))" if "sized_hashed x"
  proof (rule keeps_stmtE)
    fix t t' assume "all_sized t" and t': "sql_upsert ok e idx f x t = Inr t'"
    then have "\<forall>r\<in>set t. sized_hashed r" by (simp add: all_sized_def)
    from sql_upsert_rows [OF t' this assms that] show "all_sized t'" by (simp add: all_sized_def)
  qed
qed

lemma keeps_sized_upserts [keeps_intros]:
  "keeps all_sized (upsertDirectoryEntry now newId d)" "keeps all_sized (upsertFileEntry now newId f)"
  unfolding upsertDirectoryEntry_def upsertFileEntry_def by (rule keeps_sized(2); simp add: sized_updates)+

lemma keeps_sized_updates [keeps_intros]:
  "keeps all_sized (markEntriesNotSeenInScanDeleted now root scan)" "keeps all_sized (markPathDeleted now root path)"
  "keeps all_sized (markSubtreeEntriesNotSeenInScanDeleted now root path scan)"
  "keeps all_sized (markEntryUploaded now entryId remoteId parent)" "keeps all_sized (markEntryDownloaded1 now entryId)"
  "keeps all_sized (markEntryDownloaded now entryId n mtime h)" "keeps all_sized (markFolderCreated now entryId folder parent)"
  "keeps all_sized (markRootRemoteDeleted now root)" "keeps all_sized (markConflict now entryId state reason)"
  unfolding markEntriesNotSeenInScanDeleted_def markPathDeleted_def markSubtreeEntriesNotSeenInScanDeleted_def
    markEntryUploaded_def markEntryDownloaded1_def markEntryDownloaded_def markFolderCreated_def markRootRemoteDeleted_def
    markConflict_def
  by (rule keeps_sized(1), simp add: sized_defs)+

lemma keeps_sized_remote [keeps_intros]: "keeps all_sized (upsertRemoteEntry now newId u)"
proof (rule keepsI)
  fix t assume t: "all_sized t"
  have upd: "all_sized t'" if "sql_update entries_ok e p (update_remote now u) t = Inr t'" for e p t'
    using keepsD [OF keeps_sized(1) t, of "update_remote now u" entries_ok e p] that
    by (simp add: stmtE_def sized_updates)
  have "keeps all_sized (stmtE (sql_upsert entries_ok e idx (adopt_remote now u) (insert_remote now newId u)))"
    for e and idx :: "entry_row \<Rightarrow> (string \<times> string) option"
    by (rule keeps_sized(2)) (simp_all add: sized_updates)
  then show "all_sized (snd (upsertRemoteEntry now newId u t))"
    using t upd by (auto simp: upsertRemoteEntry_def Let_def keeps_def split: sum.splits)
qed

interpretation sized_rows: transition_system "\<lambda>t. t = []" entries_step all_sized
proof
  show "all_sized t" if "t = []" for t using that by (simp add: all_sized_def)
next
  fix s t assume "entries_step s t" and "all_sized s"
  then show "all_sized t" by (cases rule: entries_step.cases) (auto intro: keepsD keeps_intros)
qed

text \<open>On every reachable table a file that is taken for unchanged keeps the hash its row has.\<close>

theorem sized_rows_hashed:
  assumes "entries_step\<^sup>*\<^sup>* [] t" and "r \<in> set t" and "knownUnchanged (Some (entryOf r)) n mtime"
  shows "\<exists>h. e_contentHash (entryOf r) = Some h"
proof -
  have "all_sized t" by (rule sized_rows.invar_reachable [OF refl assms(1)])
  then show ?thesis using assms(2,3) by (auto simp: all_sized_def sized_hashed_def knownUnchanged_def)
qed

end
