(* ===== verification/Polling_Daemon.thy ===== *)
theory Polling_Daemon
  imports Queue_Service Remote_Scanner Root_Scanner Dirty_Path_Repo
begin

text \<open>
  \<open>PollingDaemon\<close> (platform/daemon/PollingDaemon.cpp): the main loop that puts the scanners, the
  queue, the reconciler and the watcher together, and \<open>SyncService\<close> (service/SyncService.cpp).

  The watcher is what its successive \<open>poll\<close> calls return; waiting for events does nothing to the
  state. The sync roots are those read at the start, as in \<open>run\<close>. \<open>None\<close> stands for a remote
  scan that has not ended with the fuel given to it.
\<close>

section \<open>The sync service\<close>

definition makeRootId :: "string \<Rightarrow> string" where
  "makeRootId pathHash = ''sync-root-'' @ pathHash"

text \<open>\<open>FileHasher::hashPath\<close>, over the SHA-256 of the cryptographic library.\<close>

definition hashPath :: "(bytes \<Rightarrow> string result) \<Rightarrow> string \<Rightarrow> string \<Rightarrow> string result" where
  "hashPath sha256HashHex cwd path =
     bindR (normalizeFsPath cwd path) (\<lambda>p. sha256HashHex (map (\<lambda>c. word_of_nat (of_char c)) p))"

definition addSyncRoot ::
    "clocks \<Rightarrow> string \<Rightarrow> (bytes \<Rightarrow> string result) \<Rightarrow> string \<Rightarrow> string option \<Rightarrow> bool \<Rightarrow> SyncMode \<Rightarrow>
     ('srv, SyncRoot) app_act" where
  "addSyncRoot c cwd sha256HashHex localPath folderId enabled mode =
     bindE (liftE (\<lambda>_. normalizeFsPath cwd localPath)) (\<lambda>normalizedPath.
     bindE (getsE (\<lambda>s. is_directory normalizedPath (app_files s))) (\<lambda>isDir.
     if \<not> isDir then throwE (Invalid_argument ''Path needs to be a folder'')
     else
       bindE (liftE (\<lambda>_. hashPath sha256HashHex cwd normalizedPath)) (\<lambda>pathHash.
       let root = \<lparr>root_Id = makeRootId pathHash, root_localPath = normalizedPath,
                   root_folderId = (case folderId of Some f \<Rightarrow> f | None \<Rightarrow> []),
                   root_enabled = (if enabled then 1 else 0), root_mode = mode, root_createdAt = []\<rparr> in
       bindE (timed c (\<lambda>now _. onRoots (upsertSyncRoot now root))) (\<lambda>_.
         returnE root))))"

definition removeSyncRoot :: "string \<Rightarrow> ('srv, unit) app_act" where
  "removeSyncRoot syncRootId =
     bindE (liftE (\<lambda>s. findSyncRootById syncRootId (app_roots s))) (\<lambda>found. case found of
       None \<Rightarrow> throwE (Invalid_argument (''Sync root not found: '' @ syncRootId))
     | Some _ \<Rightarrow> onRoots (disableSyncRoot syncRootId))"

section \<open>The daemon\<close>

text \<open>The services; the remote sync service and the reconciler may be absent.\<close>

record ('srv, 'h) services =
  sv_clocks :: clocks
  sv_cwd :: string
  sv_steady :: "nat \<Rightarrow> int"
  sv_fuel :: nat
  sv_folders :: "'srv folder_env option"
  sv_uploads :: "'srv upload_service option"
  sv_remote :: "'srv remote_env option option"
  sv_reconciler :: "'h reconcile_env option"
  sv_scanner :: "'h scan_env"

text \<open>What the services and the loop keep in memory, next to the shared state.\<close>

record 'srv daemon =
  dm_app :: "'srv app"
  dm_scans :: active_scans
  dm_remoteScans :: "(string \<times> int) list"
  dm_queueCursors :: "string \<Rightarrow> string option"
  dm_queueComplete :: "string \<Rightarrow> bool"
  dm_watched :: "(string \<times> string) list"
  dm_polls :: "FileEvent list list"

type_synonym ('srv, 'a) daemon_act = "('srv daemon, 'a) act"

definition appD :: "('srv, 'a) app_act \<Rightarrow> ('srv, 'a) daemon_act" where
  "appD m d = (case m (dm_app d) of (x, s) \<Rightarrow> (x, d\<lparr>dm_app := s\<rparr>))"

definition scanD :: "('srv, 'a) scan_act \<Rightarrow> ('srv, 'a) daemon_act" where
  "scanD m d = (case m (dm_app d, dm_scans d) of (x, (s, act)) \<Rightarrow> (x, d\<lparr>dm_app := s, dm_scans := act\<rparr>))"

definition remoteD :: "('srv, 'a) remote_act \<Rightarrow> ('srv, 'a) daemon_act" where
  "remoteD m d = (case m (dm_app d, dm_remoteScans d) of (x, (s, l)) \<Rightarrow> (x, d\<lparr>dm_app := s, dm_remoteScans := l\<rparr>))"

definition setQueue :: "string \<Rightarrow> string option \<Rightarrow> bool \<Rightarrow> ('srv, unit) daemon_act" where
  "setQueue root c complete d = (Inr (), d\<lparr>dm_queueCursors := (dm_queueCursors d)(root := c),
     dm_queueComplete := (dm_queueComplete d)(root := complete)\<rparr>)"

definition kMaxDirtyPathsPerRootPerTick :: nat where
  "kMaxDirtyPathsPerRootPerTick = 100"

definition remoteBoundRoots :: "SyncRoot list \<Rightarrow> SyncRoot list" where
  "remoteBoundRoots syncRoots = filter (\<lambda>root. root_folderId root \<noteq> []) syncRoots"

definition scanRunning :: "string \<Rightarrow> ('srv, bool) daemon_act" where
  "scanRunning root = getsE (\<lambda>d. hasRunningScanJob root (app_scans (dm_app d)))"

text \<open>A page of the queue; the cursor survives from page to page until the root is complete.\<close>

definition produceQueuePage :: "('srv, 'h) services \<Rightarrow> SyncRoot \<Rightarrow> bool \<Rightarrow> ('srv, unit) daemon_act" where
  "produceQueuePage sv root scanComplete =
     bindE (getsE (\<lambda>d. (dm_queueComplete d (root_Id root), dm_queueCursors d (root_Id root)))) (\<lambda>(complete, pos).
     if complete then returnE ()
     else
       bindE (appD (buildPage (sv_clocks sv) (sv_folders sv) (root_Id root) pos scanComplete)) (\<lambda>page.
         setQueue (root_Id root)
           (if qp_complete page then None else case qp_nextPath page of Some p \<Rightarrow> Some p | None \<Rightarrow> pos)
           (qp_complete page)))"

definition reconcileD :: "('srv, 'h) services \<Rightarrow> SyncRoot \<Rightarrow> ('srv, unit) daemon_act" where
  "reconcileD sv root =
     (case sv_reconciler sv of None \<Rightarrow> returnE () | Some env \<Rightarrow> appD (reconcileRoot env root))"

definition remoteTick :: "('srv, 'h) services \<Rightarrow> 'srv remote_env option \<Rightarrow> SyncRoot list \<Rightarrow> ('srv, bool option) daemon_act" where
  "remoteTick sv scanner roots d =
     remoteD (remoteRunTick (sv_fuel sv) (sv_cwd sv) scanner (sv_steady sv (app_tick (dm_app d))) (remoteBoundRoots roots)) d"

definition queueTick :: "('srv, 'h) services \<Rightarrow> ('srv, unit) daemon_act" where
  "queueTick sv = appD (runTick (sv_clocks sv) (sv_folders sv) (sv_uploads sv))"

subsection \<open>Start\<close>

definition watchRoot :: "SyncRoot \<Rightarrow> ('srv, unit) daemon_act" where
  "watchRoot root d = (Inr (), d\<lparr>dm_watched := dm_watched d @ [(root_Id root, root_localPath root)]\<rparr>)"

definition startRoot :: "('srv, 'h) services \<Rightarrow> SyncRoot \<Rightarrow> ('srv, unit) daemon_act" where
  "startRoot sv root =
     bindE (getsE (\<lambda>d. fs_exists (absolute (sv_cwd sv) (root_localPath root)) (app_files (dm_app d)))) (\<lambda>there.
     if root_enabled root = 0 \<or> \<not> there then returnE ()
     else
       bindE (watchRoot root) (\<lambda>_.
       bindE (scanD (scanRoot (sv_scanner sv) (root_Id root))) (\<lambda>_.
         returnE ())))"

definition startQueue :: "('srv, 'h) services \<Rightarrow> SyncRoot \<Rightarrow> ('srv, unit) daemon_act" where
  "startQueue sv root =
     (if root_enabled root = 0 then returnE ()
      else
        bindE (scanRunning (root_Id root)) (\<lambda>running.
        bindE (produceQueuePage sv root (\<not> running)) (\<lambda>_.
          if running then returnE () else reconcileD sv root)))"

definition getRootsD :: "('srv, SyncRoot list) daemon_act" where
  "getRootsD = appD (liftE (\<lambda>s. getSyncRoots (app_roots s)))"

definition startRemote :: "('srv, 'h) services \<Rightarrow> SyncRoot list \<Rightarrow> ('srv, SyncRoot list option) daemon_act" where
  "startRemote sv roots =
     (case sv_remote sv of
        None \<Rightarrow> returnE (Some roots)
      | Some scanner \<Rightarrow>
          bindE (if remoteBoundRoots roots = [] then returnE (Some False) else remoteTick sv scanner roots) (\<lambda>ended.
          case ended of
            None \<Rightarrow> returnE None
          | Some _ \<Rightarrow> bindE getRootsD (\<lambda>roots'. returnE (Some roots'))))"

text \<open>Everything before the loop; the result are the roots the loop works on.\<close>

definition startDaemon :: "('srv, 'h) services \<Rightarrow> ('srv, SyncRoot list option) daemon_act" where
  "startDaemon sv =
     bindE (appD (timed (sv_clocks sv) (\<lambda>now _. onQueue (retryRunning now)))) (\<lambda>_.
     bindE getRootsD (\<lambda>roots0.
     bindE (startRemote sv roots0) (\<lambda>bound. case bound of
       None \<Rightarrow> returnE None
     | Some roots1 \<Rightarrow>
         bindE (forE roots1 (startRoot sv)) (\<lambda>_.
         bindE getRootsD (\<lambda>roots.
         bindE (forE roots (\<lambda>root. setQueue (root_Id root) None False)) (\<lambda>_.
         bindE (forE roots (startQueue sv)) (\<lambda>_.
           returnE (Some roots))))))))"

subsection \<open>Events and dirty paths\<close>

text \<open>An event may be recorded under several identifiers, one per root at most and two for a rename.\<close>

definition recordD :: "('srv, 'h) services \<Rightarrow> FileEvent \<Rightarrow> ('srv, unit) app_act" where
  "recordD sv event s =
     onDirty (recordEvent (clock (sv_clocks sv) (app_tick s)) (\<lambda>i. uuid (sv_clocks sv) (app_tick s + i)) (sv_cwd sv)
       (app_roots s) event) (s\<lparr>app_tick := app_tick s + length (app_roots s) + 2\<rparr>)"

definition pollWatcher :: "('srv, FileEvent list) daemon_act" where
  "pollWatcher d = (case dm_polls d of [] \<Rightarrow> (Inr [], d) | es # rest \<Rightarrow> (Inr es, d\<lparr>dm_polls := rest\<rparr>))"

definition processWatcherEvents :: "('srv, 'h) services \<Rightarrow> ('srv, unit) daemon_act" where
  "processWatcherEvents sv = bindE pollWatcher (\<lambda>events. forE events (\<lambda>e. appD (recordD sv e)))"

definition settleDirty :: "('srv, 'h) services \<Rightarrow> string \<Rightarrow> string option \<Rightarrow> ('srv, unit) daemon_act" where
  "settleDirty sv dirtyId failure =
     appD (timed (sv_clocks sv) (\<lambda>now _. onDirty
       (case failure of None \<Rightarrow> markDirtyDone now dirtyId | Some reason \<Rightarrow> markDirtyFailed now dirtyId reason)))"

text \<open>The result says whether the scan ended; \<open>scanPath_ends\<close> shows that it does.\<close>

definition handleDirtyPath :: "('srv, 'h) services \<Rightarrow> SyncRoot \<Rightarrow> DirtyPath \<Rightarrow> ('srv, bool) daemon_act" where
  "handleDirtyPath sv root dirtyPath =
     (if dirty_eventType dirtyPath = FullRescan then
        bindE (appD (timed (sv_clocks sv) (\<lambda>now newId. onScans (ensureRunningScanJob now newId (root_Id root))))) (\<lambda>_.
        bindE (setQueue (root_Id root) None False) (\<lambda>_.
        bindE (settleDirty sv (dirty_id dirtyPath) None) (\<lambda>_.
          returnE True)))
      else
        bindE (case dirty_relativePath dirtyPath of
                 None \<Rightarrow> returnE (Some False)
               | Some p \<Rightarrow> appD (scanPath (sv_scanner sv) (root_Id root) p)) (\<lambda>ok. case ok of
          None \<Rightarrow> returnE False
        | Some False \<Rightarrow>
            bindE (settleDirty sv (dirty_id dirtyPath) (Some ''scanPath failed'')) (\<lambda>_. returnE True)
        | Some True \<Rightarrow>
            bindE (appD (enqueueEntryByPath (sv_clocks sv) (root_Id root)
                     (case dirty_relativePath dirtyPath of Some p \<Rightarrow> p | None \<Rightarrow> []))) (\<lambda>_.
            bindE (reconcileD sv root) (\<lambda>_.
            bindE (settleDirty sv (dirty_id dirtyPath) None) (\<lambda>_.
              returnE True)))))"

definition claimDirty :: "('srv, 'h) services \<Rightarrow> SyncRoot \<Rightarrow> ('srv, DirtyPath option) daemon_act" where
  "claimDirty sv root = appD (timed (sv_clocks sv) (\<lambda>now _. onDirty (claimNextPending now (root_Id root))))"

fun processDirtyPaths :: "nat \<Rightarrow> ('srv, 'h) services \<Rightarrow> SyncRoot \<Rightarrow> ('srv, bool) daemon_act" where
  "processDirtyPaths 0 sv root = returnE True"
| "processDirtyPaths (Suc n) sv root =
     bindE (claimDirty sv root) (\<lambda>claimed. case claimed of
       None \<Rightarrow> returnE True
     | Some dirtyPath \<Rightarrow>
         bindE (catchE (handleDirtyPath sv root dirtyPath)
                  (\<lambda>e. bindE (settleDirty sv (dirty_id dirtyPath) (Some (what e))) (\<lambda>_. returnE True))) (\<lambda>ended.
         if ended then processDirtyPaths n sv root else returnE False))"

subsection \<open>One round of the loop\<close>

definition tickRoot :: "('srv, 'h) services \<Rightarrow> SyncRoot \<Rightarrow> ('srv, bool) daemon_act" where
  "tickRoot sv root =
     (if root_enabled root = 0 then returnE True
      else
        bindE (scanRunning (root_Id root)) (\<lambda>running.
        if running then
          bindE (scanD (scanRoot (sv_scanner sv) (root_Id root))) (\<lambda>_.
          bindE (scanRunning (root_Id root)) (\<lambda>still.
          bindE (produceQueuePage sv root (\<not> still)) (\<lambda>_.
          bindE (queueTick sv) (\<lambda>_.
            returnE True))))
        else
          bindE (produceQueuePage sv root True) (\<lambda>_.
            processDirtyPaths kMaxDirtyPathsPerRootPerTick sv root)))"

fun tickRoots :: "('srv, 'h) services \<Rightarrow> SyncRoot list \<Rightarrow> ('srv, bool) daemon_act" where
  "tickRoots sv [] = returnE True"
| "tickRoots sv (root # roots) =
     bindE (tickRoot sv root) (\<lambda>ended. if ended then tickRoots sv roots else returnE False)"

definition remoteRound :: "('srv, 'h) services \<Rightarrow> SyncRoot list \<Rightarrow> ('srv, bool) daemon_act" where
  "remoteRound sv roots =
     (case sv_remote sv of
        None \<Rightarrow> returnE True
      | Some scanner \<Rightarrow>
          bindE (remoteTick sv scanner roots) (\<lambda>scanned. case scanned of
            None \<Rightarrow> returnE False
          | Some False \<Rightarrow> returnE True
          | Some True \<Rightarrow>
              bindE (forE (filter (\<lambda>root. root_enabled root \<noteq> 0) roots) (reconcileD sv)) (\<lambda>_. returnE True)))"

definition daemonTick :: "('srv, 'h) services \<Rightarrow> SyncRoot list \<Rightarrow> ('srv, bool) daemon_act" where
  "daemonTick sv roots =
     bindE (remoteRound sv roots) (\<lambda>ended. if \<not> ended then returnE False
     else
       bindE (processWatcherEvents sv) (\<lambda>_.
       bindE (tickRoots sv roots) (\<lambda>ended. if \<not> ended then returnE False
       else
         bindE (queueTick sv) (\<lambda>_.
           returnE True))))"

section \<open>What leaves the dirty paths alone\<close>

lemma leaves_transactionA [leaves_intros]: "leaves app_dirty m \<Longrightarrow> leaves app_dirty (transactionA m)"
  by (auto simp: leaves_def transactionA_def rollback_def split: prod.split) (metis snd_conv)+

lemma leaves_handleFileEntry [leaves_intros]: "leaves app_dirty (handleFileEntry env root job a p)"
  unfolding handleFileEntry_def by (auto intro!: leaves_intros split: option.split simp: Let_def)

lemma leaves_scanBatch_dirty [leaves_intros]: "leaves app_dirty (scanBatch env root job n c items)"
proof (induction items arbitrary: n c)
  case (Cons i items)
  have "leaves app_dirty (scanItem env root job i)"
    unfolding scanItem_def by (auto intro!: leaves_intros split: item_kind.split)
  then show ?case using Cons by (auto intro!: leaves_intros)
qed (simp add: leaves_intros)

lemma leaves_subtreeLoop [leaves_intros]: "leaves app_dirty (subtreeLoop fuel env root job rp sub rel c)"
  by (induction fuel arbitrary: c) (auto intro!: leaves_intros split: option.split prod.split)

lemma leaves_scanPath [leaves_intros]: "leaves app_dirty (scanPath env root p)"
  unfolding scanPath_def scanSubtree_def Let_def by (auto intro!: leaves_intros split: option.split)

lemma leaves_download_dirty [leaves_intros]: "leaves app_dirty (download env denv f p)"
  by (simp add: leaves_def download_def split: prod.split)

lemma leaves_reconcileRoot_dirty [leaves_intros]: "leaves app_dirty (reconcileRoot env root)"
  unfolding reconcileRoot_def reconcileEntry_def applyDeleteLocal_def applyConflict_def recordDownload_def Let_def
  by (auto intro!: leaves_intros split: option.split prod.split)

lemma leaves_enqueueByPath [leaves_intros]: "leaves app_dirty (enqueueEntryByPath c root p)"
proof -
  have "leaves app_dirty (enqueueEntry c r e)" for r e
    unfolding enqueueEntry_def by (auto intro!: leaves_intros split: option.split)
  then show ?thesis unfolding enqueueEntryByPath_def by (auto intro!: leaves_intros split: option.split)
qed

definition dirtyOf :: "'srv daemon \<Rightarrow> dirty_table" where
  "dirtyOf d = app_dirty (dm_app d)"

lemma leaves_appD [leaves_intros]: "leaves app_dirty m \<Longrightarrow> leaves dirtyOf (appD m)"
  by (auto simp: leaves_def appD_def dirtyOf_def split: prod.split) (metis snd_conv)

lemma leaves_setQueue [leaves_intros]: "leaves dirtyOf (setQueue root c b)"
  by (simp add: leaves_def setQueue_def dirtyOf_def)

lemma leaves_reconcileD [leaves_intros]: "leaves dirtyOf (reconcileD sv root)"
  unfolding reconcileD_def by (auto intro!: leaves_intros split: option.split)

section \<open>Every claimed path is settled\<close>

definition settler :: "(dirty_row \<Rightarrow> dirty_row) \<Rightarrow> bool" where
  "settler f \<longleftrightarrow> (\<forall>r. dp_id (f r) = dp_id r \<and> dp_sync_root_id (f r) = dp_sync_root_id r \<and>
     dp_event_type (f r) = dp_event_type r \<and> dp_relative_path (f r) = dp_relative_path r \<and> dp_status (f r) \<in> {''done'', ''failed''})"

definition settledBy :: "string \<Rightarrow> dirty_table \<Rightarrow> dirty_table \<Rightarrow> bool" where
  "settledBy i t t' \<longleftrightarrow> (\<exists>f. settler f \<and> t' = update_where (\<lambda>r. dp_id r = i) f t)"

lemma settleDirty_run:
  assumes "dirty_inv (dirtyOf d)"
  shows "\<exists>d'. settleDirty sv i failure d = (Inr (), d') \<and> settledBy i (dirtyOf d) (dirtyOf d')"
proof -
  let ?now = "clock (sv_clocks sv) (app_tick (dm_app d))"
  let ?f = "\<lambda>r. case failure of
      None \<Rightarrow> r\<lparr>dp_status := ''done'', dp_error_message := None, dp_updated_at := ?now\<rparr>
    | Some reason \<Rightarrow> r\<lparr>dp_status := ''failed'', dp_error_message := Some reason, dp_updated_at := ?now\<rparr>"
  have "dirty_ok (update_where (\<lambda>r. dp_id r = i) ?f (dirtyOf d))"
    by (rule dirty_ok_update) (use assms in \<open>simp_all add: dirty_inv_def idx_dirty_paths_pending_path_def
        idx_dirty_paths_pending_full_rescan_def split: option.split\<close>)
  then have "settleDirty sv i failure d = (Inr (), d\<lparr>dm_app := (dm_app d)\<lparr>app_tick := Suc (app_tick (dm_app d)),
      app_dirty := update_where (\<lambda>r. dp_id r = i) ?f (dirtyOf d)\<rparr>\<rparr>)"
    by (cases failure) (simp_all add: settleDirty_def appD_def timed_def onDirty_def dirtyOf_def markDirtyDone_def
        markDirtyFailed_def stmtE_def sql_update_def Let_def)
  moreover have "settler ?f" by (simp add: settler_def split: option.split)
  ultimately show ?thesis unfolding settledBy_def by (auto simp: dirtyOf_def)
qed

text \<open>An action that settles the path, or throws and leaves the table alone.\<close>

definition settling :: "string \<Rightarrow> ('srv, bool) daemon_act \<Rightarrow> bool" where
  "settling i m \<longleftrightarrow> (\<forall>d. dirty_inv (dirtyOf d) \<longrightarrow>
     (case m d of
        (Inl _, d') \<Rightarrow> dirtyOf d' = dirtyOf d
      | (Inr ended, d') \<Rightarrow> ended \<and> settledBy i (dirtyOf d) (dirtyOf d')))"

lemma settling_settle:
  fixes sv :: "('srv, 'h) services"
  shows "settling i (bindE (settleDirty sv i failure) (\<lambda>_. returnE True))"
  unfolding settling_def
proof (intro allI impI)
  fix d :: "'srv daemon" assume "dirty_inv (dirtyOf d)"
  from settleDirty_run [OF this, of sv i failure]
  show "case bindE (settleDirty sv i failure) (\<lambda>_. returnE True) d of
        (Inl _, d') \<Rightarrow> dirtyOf d' = dirtyOf d
      | (Inr ended, d') \<Rightarrow> ended \<and> settledBy i (dirtyOf d) (dirtyOf d')"
    by (auto simp: bindE_def returnE_def)
qed

lemma settling_bind:
  fixes m :: "('srv, 'a) daemon_act"
  assumes "leaves dirtyOf m" and "\<And>x d. fst (m d) = Inr x \<Longrightarrow> settling i (f x)"
  shows "settling i (bindE m f)"
  unfolding settling_def
proof (intro allI impI)
  fix d :: "'srv daemon" assume inv: "dirty_inv (dirtyOf d)"
  obtain x d1 where m: "m d = (x, d1)" by force
  then have same: "dirtyOf d1 = dirtyOf d" using leavesD' [OF assms(1)] by blast
  show "case bindE m f d of
        (Inl _, d') \<Rightarrow> dirtyOf d' = dirtyOf d
      | (Inr ended, d') \<Rightarrow> ended \<and> settledBy i (dirtyOf d) (dirtyOf d')"
  proof (cases x)
    case (Inl e)
    then show ?thesis using m same by (simp add: bindE_def)
  next
    case (Inr y)
    have "settling i (f y)" by (rule assms(2) [of d]) (simp add: m Inr)
    from this [unfolded settling_def, rule_format, of d1, unfolded same] show ?thesis
      using m Inr inv by (simp add: bindE_def)
  qed
qed

lemma settling_handle:
  fixes sv :: "('srv, 'h) services"
  assumes "listing_law (sv_scanner sv)"
  shows "settling (dirty_id p) (handleDirtyPath sv root p)"
proof (cases "dirty_eventType p = FullRescan")
  case True
  then show ?thesis
    unfolding handleDirtyPath_def by (auto intro!: settling_bind settling_settle leaves_intros)
next
  case False
  have ended: "x \<noteq> None" if "fst (appD (scanPath (sv_scanner sv) (root_Id root) q) d) = Inr x"
    for q x and d :: "'srv daemon"
  proof -
    have "fst (scanPath (sv_scanner sv) (root_Id root) q (dm_app d)) \<noteq> Inr None"
      using scanPath_ends [OF assms] unfolding ends_def by blast
    then show ?thesis using that by (auto simp: appD_def split: prod.splits)
  qed
  show ?thesis
    using False unfolding handleDirtyPath_def
    by (auto intro!: settling_bind settling_settle leaves_intros split: option.split bool.split
        dest: ended simp: returnE_def)
qed

lemma settling_caught:
  fixes m :: "('srv, bool) daemon_act"
  assumes "settling i m" and "dirty_inv (dirtyOf d)"
  shows "\<exists>d'. catchE m (\<lambda>e. bindE (settleDirty sv i (Some (what e))) (\<lambda>_. returnE True)) d = (Inr True, d') \<and>
    settledBy i (dirtyOf d) (dirtyOf d')"
proof -
  obtain x d1 where m: "m d = (x, d1)" by force
  from assms(1) [unfolded settling_def, rule_format, OF assms(2)] have res: "case (x, d1) of
      (Inl _, d') \<Rightarrow> dirtyOf d' = dirtyOf d
    | (Inr ended, d') \<Rightarrow> ended \<and> settledBy i (dirtyOf d) (dirtyOf d')" unfolding m .
  show ?thesis
  proof (cases x)
    case (Inl e)
    then have "dirtyOf d1 = dirtyOf d" using res by simp
    then show ?thesis
      using settleDirty_run [of d1 sv i "Some (what e)"] assms(2) m Inl by (auto simp: catchE_def bindE_def returnE_def)
  next
    case (Inr b)
    then show ?thesis using res m by (simp add: catchE_def)
  qed
qed

text \<open>From row to row: a row is as it was, or it could be claimed and is done or failed.\<close>

definition dirty_rel :: "string \<Rightarrow> dirty_row \<Rightarrow> dirty_row \<Rightarrow> bool" where
  "dirty_rel root r r' \<longleftrightarrow> dp_id r' = dp_id r \<and> dp_sync_root_id r' = dp_sync_root_id r \<and>
     (r' = r \<or> claimable_dirty root r \<and> dp_status r' \<in> {''done'', ''failed''})"

definition pendingCount :: "string \<Rightarrow> dirty_table \<Rightarrow> nat" where
  "pendingCount root t = length (filter (\<lambda>r. dp_sync_root_id r = root \<and> dp_status r = ''pending'') t)"

lemma dirty_rel_trans:
  assumes "list_all2 (dirty_rel root) t u" and "list_all2 (dirty_rel root) u v"
  shows "list_all2 (dirty_rel root) t v"
  by (rule list_all2_trans [OF _ assms]) (auto simp: dirty_rel_def claimable_dirty_def)

lemma pendingCount_settle:
  assumes "dirty_inv t" and "r \<in> set t" and "\<And>x. dp_status (f x) \<noteq> ''pending''"
  shows "pendingCount root (update_where (\<lambda>x. dp_id x = dp_id r) f t) =
    pendingCount root t - (if dp_sync_root_id r = root \<and> dp_status r = ''pending'' then 1 else 0)"
proof -
  let ?p = "\<lambda>x. dp_sync_root_id x = root \<and> dp_status x = ''pending''"
  have "pendingCount root (update_where (\<lambda>x. dp_id x = dp_id r) f t) = length (filter (\<lambda>x. ?p x \<and> dp_id x \<noteq> dp_id r) t)"
    using assms(3) unfolding pendingCount_def by (induction t) auto
  moreover have "pendingCount root t = length (filter (\<lambda>x. ?p x \<and> dp_id x \<noteq> dp_id r) t) + length (filter (\<lambda>x. dp_id x = dp_id r \<and> ?p x) t)"
    unfolding pendingCount_def by (induction t) auto
  moreover have "filter (\<lambda>x. dp_id x = dp_id r \<and> ?p x) t = (if ?p r then [r] else [])"
  proof (cases "?p r")
    case True
    then show ?thesis using filter_key_single [OF dirty_inv_ids [OF assms(1)] assms(2)] by simp
  next
    case False
    have "x = r" if "x \<in> set t" "dp_id x = dp_id r" for x
      using dirty_inv_ids [OF assms(1)] assms(2) that by (metis distinct_map inj_on_def)
    then show ?thesis using False by (auto simp: filter_empty_conv)
  qed
  ultimately show ?thesis by simp
qed

lemma pending_first:
  assumes "pendingDirty root t = r # rs" and "pendingCount root t > 0"
  shows "dp_sync_root_id r = root \<and> dp_status r = ''pending''"
proof -
  from assms(2) have "filter (\<lambda>r. dp_sync_root_id r = root \<and> dp_status r = ''pending'') t \<noteq> []"
    by (simp add: pendingCount_def)
  then obtain x where x: "x \<in> set t" "dp_sync_root_id x = root" "dp_status x = ''pending''"
    by (auto simp: filter_empty_conv)
  have first: "limit1 (select_ordered claim_rank (claimable_dirty root) t) = Some r"
    using assms(1) by (simp add: pendingDirty_def)
  have "claimable_dirty root r" using limit1_select_min(2) [OF first] .
  moreover have "claim_rank r \<le> claim_rank x"
    by (rule limit1_select_min(3) [OF first x(1)]) (use x in \<open>simp add: claimable_dirty_def\<close>)
  ultimately show ?thesis using x(3) by (auto simp: claim_rank_def claimable_dirty_def less_eq_prod_def split: if_splits)
qed

lemma settled_row:
  assumes inv: "dirty_inv t" and head: "pendingDirty root t = r # rs"
    and fin: "settledBy (dp_id r) (update_where (\<lambda>x. dp_id x = dp_id r) (run_dirty now) t) t'"
  shows "dirty_inv t'" and "list_all2 (dirty_rel root) t t'" and "pendingCount root t' = pendingCount root t - 1"
proof -
  obtain f where f: "settler f" and t': "t' = update_where (\<lambda>x. dp_id x = dp_id r) f (update_where (\<lambda>x. dp_id x = dp_id r) (run_dirty now) t)"
    using fin by (auto simp: settledBy_def)
  let ?g = "\<lambda>x. f (run_dirty now x)"
  have g: "dp_id (?g x) = dp_id x" "dp_sync_root_id (?g x) = dp_sync_root_id x" "dp_event_type (?g x) = dp_event_type x"
    "dp_relative_path (?g x) = dp_relative_path x" "dp_status (?g x) \<in> {''done'', ''failed''}" for x
    using f by (simp_all add: settler_def run_dirty_def)
  have t: "t' = update_where (\<lambda>x. dp_id x = dp_id r) ?g t"
    unfolding t' by (simp add: update_where_def run_dirty_def)
  have idle: "dp_status (?g x) \<noteq> ''pending''" for x using g(5) [of x] by auto
  have "dirty_ok t'"
    unfolding t by (rule dirty_ok_update)
      (use inv g(1) idle in \<open>simp_all add: dirty_inv_def idx_dirty_paths_pending_path_def idx_dirty_paths_pending_full_rescan_def\<close>)
  moreover have "readable_dirty (?g x)" if "readable_dirty x" for x
    using that g [of x] by (auto simp: readable_dirty_def)
  then have "\<forall>x\<in>set t'. readable_dirty x"
    unfolding t update_where_def using inv by (auto simp: dirty_inv_def)
  ultimately show "dirty_inv t'" by (simp add: dirty_inv_def)
  have first: "limit1 (select_ordered claim_rank (claimable_dirty root) t) = Some r"
    using head by (simp add: pendingDirty_def)
  have r: "r \<in> set t" "claimable_dirty root r" using limit1_select_min(1,2) [OF first] .
  have only: "x = r" if "x \<in> set t" "dp_id x = dp_id r" for x
    using dirty_inv_ids [OF inv] r(1) that by (metis distinct_map inj_on_def)
  show "list_all2 (dirty_rel root) t t'"
    unfolding t update_where_def list_all2_map2
    by (rule list_all2_same [THEN iffD2]) (use only r(2) g in \<open>auto simp: dirty_rel_def\<close>)
  show "pendingCount root t' = pendingCount root t - 1"
    unfolding t pendingCount_settle [OF inv r(1) idle] using pending_first [OF head] by (cases "pendingCount root t") auto
qed

lemma claimDirty_run:
  assumes "dirty_inv (dirtyOf d)"
  shows "(pendingDirty (root_Id root) (dirtyOf d) = [] \<longrightarrow> (\<exists>d'. claimDirty sv root d = (Inr None, d') \<and> dirtyOf d' = dirtyOf d)) \<and>
    (\<forall>r rs. pendingDirty (root_Id root) (dirtyOf d) = r # rs \<longrightarrow>
      (\<exists>d' now. claimDirty sv root d = (Inr (Some (claimedDirty r)), d') \<and>
        dirtyOf d' = update_where (\<lambda>x. dp_id x = dp_id r) (run_dirty now) (dirtyOf d)))"
  using dirty_claims.claim_Nil [of "dirtyOf d"] claim_dirty_row [of "dirtyOf d"] assms
  by (auto simp: claimDirty_def appD_def timed_def onDirty_def dirtyOf_def)

lemma processDirtyPaths_run:
  assumes "listing_law (sv_scanner sv)" and "dirty_inv (dirtyOf d)"
  shows "\<exists>d'. processDirtyPaths n sv root d = (Inr True, d') \<and> dirty_inv (dirtyOf d') \<and>
    list_all2 (dirty_rel (root_Id root)) (dirtyOf d) (dirtyOf d') \<and>
    pendingCount (root_Id root) (dirtyOf d') = pendingCount (root_Id root) (dirtyOf d) - n"
  using assms(2)
proof (induction n arbitrary: d)
  case 0
  then show ?case by (auto simp: returnE_def dirty_rel_def intro!: list_all2_refl)
next
  case (Suc n)
  let ?root = "root_Id root" and ?t = "dirtyOf d"
  show ?case
  proof (cases "pendingDirty ?root ?t")
    case Nil
    have "pendingCount ?root ?t = 0"
      using Nil by (auto simp: pendingDirty_def pendingCount_def filter_empty_conv claimable_dirty_def)
    then show ?thesis using claimDirty_run [OF Suc.prems, of root sv] Nil Suc.prems
      by (auto simp: bindE_def returnE_def dirty_rel_def intro!: list_all2_refl)
  next
    case (Cons r rs)
    then obtain d1 now where d1: "claimDirty sv root d = (Inr (Some (claimedDirty r)), d1)"
      "dirtyOf d1 = update_where (\<lambda>x. dp_id x = dp_id r) (run_dirty now) ?t"
      using claimDirty_run [OF Suc.prems] by blast
    have inv1: "dirty_inv (dirtyOf d1)"
      using keepsD [OF keeps_claimNextPending Suc.prems, of now ?root] claim_dirty_row [OF Suc.prems Cons] d1(2) by simp
    have i: "dirty_id (claimedDirty r) = dp_id r" by (simp add: claimedDirty_def)
    from settling_caught [OF settling_handle [OF assms(1), of "claimedDirty r" root] inv1, of sv] obtain d2
      where d2: "catchE (handleDirtyPath sv root (claimedDirty r))
        (\<lambda>e. bindE (settleDirty sv (dirty_id (claimedDirty r)) (Some (what e))) (\<lambda>_. returnE True)) d1 = (Inr True, d2)"
        "settledBy (dp_id r) (dirtyOf d1) (dirtyOf d2)" unfolding i by blast
    note row = settled_row [OF Suc.prems Cons d2(2) [unfolded d1(2)]]
    from Suc.IH [OF row(1)] obtain d' where d': "processDirtyPaths n sv root d2 = (Inr True, d')" "dirty_inv (dirtyOf d')"
      "list_all2 (dirty_rel ?root) (dirtyOf d2) (dirtyOf d')" "pendingCount ?root (dirtyOf d') = pendingCount ?root (dirtyOf d2) - n" by blast
    have "processDirtyPaths (Suc n) sv root d = (Inr True, d')"
      using d1(1) d2(1) d'(1) by (simp add: bindE_def)
    then show ?thesis using d' row(3) dirty_rel_trans [OF row(2) d'(3)] by auto
  qed
qed

section \<open>Pages of the queue\<close>

definition jobsOf :: "string \<Rightarrow> 'srv app \<Rightarrow> queue_row list" where
  "jobsOf entryId s = filter (\<lambda>q. q_entry_id q = Some entryId) (app_queue s)"

lemma leaves_jobsOf:
  assumes "e_id entry \<noteq> i"
  shows "leaves (jobsOf i) (enqueueEntry c root entry)"
proof -
  have "filter (\<lambda>q. q_entry_id q = Some i) (enqueueCreateFolder now newId (e_id entry) p f t) = filter (\<lambda>q. q_entry_id q = Some i) t"
    "filter (\<lambda>q. q_entry_id q = Some i) (enqueueUploadFile now newId (e_id entry) p f n t) = filter (\<lambda>q. q_entry_id q = Some i) t"
    for now newId p f n t
    using assms by (simp_all add: enqueueCreateFolder_def enqueueUploadFile_def sql_insert_or_ignore_def)
  then have "leaves (jobsOf i) (timed c (\<lambda>now newId. onQueue (\<lambda>t. (Inr (), enqueueCreateFolder now newId (e_id entry) p f t))))"
    "leaves (jobsOf i) (timed c (\<lambda>now newId. onQueue (\<lambda>t. (Inr (), enqueueUploadFile now newId (e_id entry) p f n t))))" for p f n
    by (simp_all add: leaves_def timed_def onQueue_def jobsOf_def)
  then show ?thesis unfolding enqueueEntry_def by (auto intro!: leaves_intros split: option.split)
qed

lemma page_after:
  assumes inv: "entries_inv t" and r: "r \<in> set t" "r_local_path r \<le> c"
    and page: "listEntriesBySyncRootIdAfterPath root (Some c) n t = Inr es" and e: "e \<in> set es"
  shows "c < e_relativePath e \<and> e_id e \<noteq> r_id r"
proof -
  have "\<forall>x\<in>set (rowsAfterPath root (Some c) (nat n) t). x \<in> set t \<and> c < r_local_path x"
    by (auto simp: rowsAfterPath_def dest!: in_set_takeD)
  moreover have "es = map entryOf (rowsAfterPath root (Some c) (nat n) t)"
    using page calculation readEntries_readable [of "rowsAfterPath root (Some c) (nat n) t"] entries_inv_row [OF inv]
    by (simp add: listEntriesBySyncRootIdAfterPath_def split: if_splits)
  ultimately obtain x where x: "x \<in> set t" "c < r_local_path x" "e = entryOf x" using e by auto
  then have "x \<noteq> r" using r(2) by auto
  then have "r_id x \<noteq> r_id r" using entries_inv_ids [OF inv] r(1) x(1) by (auto simp: distinct_map dest: inj_onD)
  then show ?thesis using x by simp
qed

lemma leaves_buildPage [leaves_intros]: "leaves app_entries (buildPage c worker i p b)"
  unfolding buildPage_def by (auto intro!: leaves_intros split: option.split)

lemma buildPage_behind:
  fixes s :: "'srv app"
  assumes inv: "entries_inv (app_entries s)" and r: "r \<in> set (app_entries s)" "r_local_path r \<le> p"
    and run: "buildPage c worker i (Some p) b s = (x, s')"
  shows "jobsOf (r_id r) s' = jobsOf (r_id r) s" and "\<forall>pg q. x = Inr pg \<longrightarrow> qp_nextPath pg = Some q \<longrightarrow> p < q"
proof -
  let ?m = "case worker of None \<Rightarrow> returnE False | Some env \<Rightarrow> ensureRootFolder env i"
  obtain y s0 where m: "?m s = (y, s0)" by force
  have "leaves app_queue ?m" "leaves app_entries ?m" by (auto intro!: leaves_intros split: option.split)
  then have same: "app_queue s0 = app_queue s" "app_entries s0 = app_entries s" using leavesD' m by metis+
  have pages: "jobsOf (r_id r) (snd (forE es (enqueueEntry c root) s0)) = jobsOf (r_id r) s"
    "es \<noteq> [] \<Longrightarrow> p < e_relativePath (last es)"
    if "listEntriesBySyncRootIdAfterPath i (Some p) kQueueBuildPageSize (app_entries s) = Inr es" for es root
  proof -
    note after = page_after [OF inv r that]
    have "leaves (jobsOf (r_id r)) (forE es (enqueueEntry c root) :: ('srv, unit) app_act)"
      using after by (intro leaves_forE leaves_jobsOf) blast
    from leavesD [OF this] show "jobsOf (r_id r) (snd (forE es (enqueueEntry c root) s0)) = jobsOf (r_id r) s"
      using same(1) by (simp add: jobsOf_def)
    show "p < e_relativePath (last es)" if "es \<noteq> []" using after [of "last es"] that by simp
  qed
  show "jobsOf (r_id r) s' = jobsOf (r_id r) s"
    using run m same pages(1)
    by (auto simp: buildPage_def bindE_def liftE_def returnE_def jobsOf_def split: sum.splits option.splits prod.splits)
      (metis snd_conv)+
  show "\<forall>pg q. x = Inr pg \<longrightarrow> qp_nextPath pg = Some q \<longrightarrow> p < q"
    using run m same pages(2)
    by (auto simp: buildPage_def bindE_def liftE_def returnE_def split: sum.splits option.splits prod.splits if_splits)
qed

text \<open>The page cursor of a root has passed a row, or the root counts as complete.\<close>

definition passed :: "SyncRoot \<Rightarrow> entry_row \<Rightarrow> 'srv daemon \<Rightarrow> bool" where
  "passed root r d \<longleftrightarrow> dm_queueComplete d (root_Id root) \<or>
     (\<exists>p. dm_queueCursors d (root_Id root) = Some p \<and> r_local_path r \<le> p)"

section \<open>Properties\<close>

text \<open>
  C13. Every dirty path a round takes up is settled: whatever scanning, queueing and reconciling do,
  and whatever they throw, processing the dirty paths of a root returns after at most \<open>n\<close> claims;
  each row is as before, or it could be claimed and is now done or failed; none is left running,
  and \<open>n\<close> pending rows (or all, if there are fewer) have been taken up.
\<close>

theorem dirty_paths_settled:
  assumes "listing_law (sv_scanner sv)" and "dirty_inv (app_dirty (dm_app d))"
  shows "\<exists>d'. processDirtyPaths n sv root d = (Inr True, d') \<and> dirty_inv (app_dirty (dm_app d')) \<and>
    list_all2 (dirty_rel (root_Id root)) (app_dirty (dm_app d)) (app_dirty (dm_app d')) \<and>
    pendingCount (root_Id root) (app_dirty (dm_app d')) = pendingCount (root_Id root) (app_dirty (dm_app d)) - n"
  using processDirtyPaths_run [OF assms(1), of d n root] assms(2) by (simp add: dirtyOf_def)

text \<open>A daemon without server and uploads, and one with a new file to scan and a page cursor at \<open>m\<close>.\<close>

definition idle_services :: "(string, bytes) services" where
  "idle_services =
     \<lparr>sv_clocks = sc_clocks demo_scan, sv_cwd = ''/'', sv_steady = (\<lambda>_. 0), sv_fuel = 1, sv_folders = None, sv_uploads = None,
      sv_remote = None, sv_reconciler = None, sv_scanner = demo_scan\<lparr>sc_listing := \<lambda>_ _ _. None\<rparr>\<rparr>"

definition demo_daemon :: "string daemon" where
  "demo_daemon =
     \<lparr>dm_app = demo_tree\<lparr>app_dirty := [new_dirty ''1'' ''a'' ''s1'' (Some ''y'') Scan]\<rparr>, dm_scans = [], dm_remoteScans = [],
      dm_queueCursors = (\<lambda>_. Some ''m''), dm_queueComplete = (\<lambda>_. False), dm_watched = [], dm_polls = []\<rparr>"

lemma demo_dirty: "dirty_inv (app_dirty (dm_app demo_daemon))"
  by (simp add: demo_daemon_def dirty_inv_def dirty_ok_def uniq_on_Cons readable_new)

theorem dirty_paths_settled_witness:
  "\<exists>d'. processDirtyPaths 1 idle_services demoRoot demo_daemon = (Inr True, d') \<and>
     pendingCount ''s1'' (app_dirty (dm_app d')) = 0"
proof -
  have "listing_law (sv_scanner idle_services)" by (simp add: listing_law_def idle_services_def)
  moreover have "pendingCount ''s1'' (app_dirty (dm_app demo_daemon)) = 1"
    by (simp add: pendingCount_def demo_daemon_def new_dirty_def)
  ultimately show ?thesis
    using dirty_paths_settled [OF _ demo_dirty, of idle_services 1 demoRoot] by (auto simp: demoRoot_def)
qed

text \<open>
  While a scan takes several batches, the queue is filled page by page in the order of the
  paths, but the scan finds paths in the order of the directory iterator: an entry recorded after
  the page cursor has passed its path is left out of this page and all later ones, and gets no job.
\<close>

theorem late_entry_never_queued:
  assumes "entries_inv (app_entries (dm_app d))" and "r \<in> set (app_entries (dm_app d))" and "passed root r d"
    and "produceQueuePage sv root scanComplete d = (x, d')"
  shows "jobsOf (r_id r) (dm_app d') = jobsOf (r_id r) (dm_app d) \<and> r \<in> set (app_entries (dm_app d')) \<and> passed root r d'"
proof (cases "dm_queueComplete d (root_Id root)")
  case True
  then show ?thesis using assms by (simp add: produceQueuePage_def bindE_def getsE_def returnE_def)
next
  case False
  then obtain p where p: "dm_queueCursors d (root_Id root) = Some p" "r_local_path r \<le> p"
    using assms(3) by (auto simp: passed_def)
  obtain y s' where page: "buildPage (sv_clocks sv) (sv_folders sv) (root_Id root) (Some p) scanComplete (dm_app d) = (y, s')"
    by force
  note behind = buildPage_behind [OF assms(1,2) p(2) page]
  have "app_entries s' = app_entries (dm_app d)" using leavesD' [OF leaves_buildPage page] .
  then show ?thesis
    using assms(2,4) False p page behind
    by (auto simp: produceQueuePage_def bindE_def getsE_def appD_def setQueue_def passed_def
        split: sum.splits option.splits if_splits)
qed

theorem late_entry_never_queued_witness:
  "\<exists>x d'. produceQueuePage idle_services demoRoot True demo_daemon = (x, d') \<and> jobsOf ''e'' (dm_app d') = [] \<and>
     passed demoRoot (hd (app_entries demo_tree)) d'"
proof -
  obtain x d' where run: "produceQueuePage idle_services demoRoot True demo_daemon = (x, d')" by force
  let ?r = "(new_entry ''t'' ''e'' ''s1'' ''file'' ''gone'')\<lparr>r_sync_state := ''unchanged''\<rparr>"
  have rows: "app_entries (dm_app demo_daemon) = [?r]" by (simp add: demo_daemon_def demo_tree_def)
  have inv: "entries_inv (app_entries (dm_app demo_daemon))"
    using demo_tree_ready(1) by (simp add: scan_ready_def app_inv_def demo_daemon_def)
  have "''gone'' \<le> ''m''" by code_simp
  then have "passed demoRoot ?r demo_daemon" by (simp add: passed_def demo_daemon_def new_entry_def)
  moreover have "jobsOf ''e'' (dm_app demo_daemon) = []"
    by (simp add: jobsOf_def demo_daemon_def demo_tree_def sample_app_def)
  ultimately show ?thesis
    using late_entry_never_queued [OF inv _ _ run, of ?r] run rows
    by (auto simp: new_entry_def demo_tree_def)
qed

end
