(* ===== verification/Vault_Service.thy ===== *)
theory Vault_Service
  imports User_Repo Codecs Aad
begin

text \<open>
  \<open>VaultService\<close> (service/VaultService.cpp): the master key of the account, in memory while the
  vault is unlocked, and wrapped in the account row for the next start of the daemon. The key
  that unwraps it is kept in the secure storage of the platform.

  The cryptographic library and the secure storage are parameters; \<open>'k\<close> is what the storage
  keeps. The library draws random bytes: the \<open>n\<close>-th draw and the \<open>n\<close>-th reading of the clock
  are values of arbitrary sequences. Overwriting buffers with zeros is left out.
\<close>

section \<open>State\<close>

record 'k vault_env =
  ve_clock :: "nat \<Rightarrow> string"
  ve_derivePasswordKek :: "string \<Rightarrow> bytes \<Rightarrow> bytes result"
  ve_generateMasterKey :: "nat \<Rightarrow> bytes result"
  ve_wrapMasterKey :: "nat \<Rightarrow> bytes \<Rightarrow> bytes \<Rightarrow> bytes \<Rightarrow> bytes result"
  ve_unwrapMasterKey :: "bytes \<Rightarrow> bytes \<Rightarrow> bytes \<Rightarrow> bytes result"
  ve_sha256HashHex :: "bytes \<Rightarrow> string result"
  ve_storeSecret :: "string \<Rightarrow> string \<Rightarrow> bytes \<Rightarrow> ('k, unit) act"
  ve_loadSecret :: "string \<Rightarrow> string \<Rightarrow> ('k, bytes option) act"
  ve_deleteSecret :: "string \<Rightarrow> string \<Rightarrow> ('k, unit) act"

record 'k vault =
  vt_masterKey :: bytes
  vt_account :: account_table
  vt_secrets :: 'k
  vt_draws :: nat

type_synonym ('k, 'a) vault_act = "('k vault, 'a) act"

definition onAccount :: "('k vault_env) \<Rightarrow> (string \<Rightarrow> (account_table, 'a) act) \<Rightarrow> ('k, 'a) vault_act" where
  "onAccount env m v =
     (case m (ve_clock env (vt_draws v)) (vt_account v) of
        (x, t) \<Rightarrow> (x, v\<lparr>vt_account := t, vt_draws := Suc (vt_draws v)\<rparr>))"

definition onSecrets :: "('k, 'a) act \<Rightarrow> ('k, 'a) vault_act" where
  "onSecrets m v = (case m (vt_secrets v) of (x, k) \<Rightarrow> (x, v\<lparr>vt_secrets := k\<rparr>))"

text \<open>A function of the library that draws random bytes.\<close>

definition draw :: "(nat \<Rightarrow> 'a result) \<Rightarrow> ('k, 'a) vault_act" where
  "draw f v = (f (vt_draws v), v\<lparr>vt_draws := Suc (vt_draws v)\<rparr>)"

section \<open>Operations\<close>

definition kVaultSessionService :: string where
  "kVaultSessionService = ''arkive-sync.vault-session''"

definition makeVaultSessionKeyId :: "'k vault_env \<Rightarrow> AccountRecord \<Rightarrow> string result" where
  "makeVaultSessionKeyId env account =
     (case acc_email account of
        Some email \<Rightarrow>
          if email = [] then Inl (Runtime_error ''Vault session cannot be persisted without an account email'')
          else ve_sha256HashHex env (toBytes (acc_baseUrl account @ [CHR 0x0A] @ email))
      | None \<Rightarrow> Inl (Runtime_error ''Vault session cannot be persisted without an account email''))"

definition isUnlocked :: "'k vault \<Rightarrow> bool" where
  "isUnlocked v \<longleftrightarrow> vt_masterKey v \<noteq> []"

definition lock :: "('k, unit) vault_act" where
  "lock v = (Inr (), v\<lparr>vt_masterKey := []\<rparr>)"

definition setMasterKey :: "bytes \<Rightarrow> ('k, unit) vault_act" where
  "setMasterKey k v = (Inr (), v\<lparr>vt_masterKey := k\<rparr>)"

definition masterKey :: "('k, bytes) vault_act" where
  "masterKey = liftE (\<lambda>v. if vt_masterKey v = [] then Inl (Runtime_error ''Vault is locked'') else Inr (vt_masterKey v))"

definition persistSession :: "'k vault_env \<Rightarrow> ('k, unit) vault_act" where
  "persistSession env =
     bindE (getsE id) (\<lambda>v.
     if vt_masterKey v = [] then throwE (Runtime_error ''Cannot persist a locked vault session'')
     else case getAccount (vt_account v) of
       None \<Rightarrow> throwE (Runtime_error ''Cannot persist a vault session without an account'')
     | Some account \<Rightarrow>
         bindE (liftE (\<lambda>_. makeVaultSessionKeyId env account)) (\<lambda>sessionKeyId.
         bindE (draw (ve_generateMasterKey env)) (\<lambda>localWrappingKey.
         bindE (draw (\<lambda>n. ve_wrapMasterKey env n (vt_masterKey v) localWrappingKey (toBytes kSessionMasterKey)))
           (\<lambda>wrappedSessionBlob.
         bindE (case acc_vaultSessionKeyId account of
                  Some old \<Rightarrow> if old \<noteq> sessionKeyId then onSecrets (ve_deleteSecret env kVaultSessionService old)
                              else returnE ()
                | None \<Rightarrow> returnE ()) (\<lambda>_.
         bindE (onSecrets (ve_storeSecret env kVaultSessionService sessionKeyId localWrappingKey)) (\<lambda>_.
           onAccount env (\<lambda>now. saveVaultSession now sessionKeyId (encodeBase64 wrappedSessionBlob))))))))"

definition vaultMaterial :: "'k vault \<Rightarrow> (string \<times> string) result" where
  "vaultMaterial v =
     (case getAccount (vt_account v) of
        Some account \<Rightarrow>
          (case (acc_vaultSalt account, acc_encryptedMasterKey account) of
             (Some salt, Some k) \<Rightarrow> Inr (salt, k)
           | _ \<Rightarrow> Inl (Runtime_error ''Vault material is unavailable. Login or unlock with Arkive first.''))
      | None \<Rightarrow> Inl (Runtime_error ''Vault material is unavailable. Login or unlock with Arkive first.''))"

definition unlock :: "'k vault_env \<Rightarrow> string \<Rightarrow> ('k, unit) vault_act" where
  "unlock env password =
     bindE (liftE vaultMaterial) (\<lambda>(vaultSalt, encryptedKey).
     bindE (liftE (\<lambda>_. decodeBase64 vaultSalt)) (\<lambda>salt.
     bindE (liftE (\<lambda>_. decodeBase64 encryptedKey)) (\<lambda>encryptedMasterKey.
     bindE (liftE (\<lambda>_. ve_derivePasswordKek env password salt)) (\<lambda>kek.
     bindE (liftE (\<lambda>_. ve_unwrapMasterKey env encryptedMasterKey kek (toBytes kMasterKey))) (\<lambda>unwrapped.
     bindE lock (\<lambda>_.
     bindE (setMasterKey unwrapped) (\<lambda>_.
       persistSession env)))))))"

text \<open>The session columns of the account, when both are there and not empty.\<close>

definition savedSession :: "'k vault \<Rightarrow> (string \<times> string) option" where
  "savedSession v =
     (case getAccount (vt_account v) of
        Some account \<Rightarrow>
          (case (acc_vaultSessionKeyId account, acc_vaultSessionBlob account) of
             (Some i, Some b) \<Rightarrow> if i = [] \<or> b = [] then None else Some (i, b)
           | _ \<Rightarrow> None)
      | None \<Rightarrow> None)"

definition restoreSession :: "'k vault_env \<Rightarrow> ('k, bool) vault_act" where
  "restoreSession env =
     bindE (getsE isUnlocked) (\<lambda>unlocked. if unlocked then returnE True else
     bindE (getsE savedSession) (\<lambda>saved. case saved of
       None \<Rightarrow> returnE False
     | Some (keyId, blob) \<Rightarrow>
         bindE (onSecrets (ve_loadSecret env kVaultSessionService keyId)) (\<lambda>localWrappingKey.
         case localWrappingKey of
           None \<Rightarrow> bindE (onAccount env clearVaultSession) (\<lambda>_. returnE False)
         | Some key \<Rightarrow>
             if key = [] then bindE (onAccount env clearVaultSession) (\<lambda>_. returnE False)
             else
               bindE (liftE (\<lambda>_. decodeBase64 blob)) (\<lambda>sessionBlob.
               bindE (liftE (\<lambda>_. ve_unwrapMasterKey env sessionBlob key (toBytes kSessionMasterKey))) (\<lambda>restored.
               bindE lock (\<lambda>_. bindE (setMasterKey restored) (\<lambda>_. returnE True)))))))"

definition ensureUnlocked :: "'k vault_env \<Rightarrow> ('k, unit) vault_act" where
  "ensureUnlocked env =
     bindE (getsE isUnlocked) (\<lambda>unlocked.
     bindE (if unlocked then returnE True else restoreSession env) (\<lambda>_.
     bindE (getsE isUnlocked) (\<lambda>unlocked.
       if unlocked then returnE () else throwE (Runtime_error ''Vault is locked''))))"

definition clearPersistedSession :: "'k vault_env \<Rightarrow> ('k, unit) vault_act" where
  "clearPersistedSession env =
     bindE (getsE (\<lambda>v. getAccount (vt_account v))) (\<lambda>account.
     case Option.bind account acc_vaultSessionKeyId of
       None \<Rightarrow> returnE ()
     | Some keyId \<Rightarrow>
         if keyId = [] then returnE ()
         else
           bindE (onSecrets (ve_deleteSecret env kVaultSessionService keyId)) (\<lambda>_.
             onAccount env clearVaultSession))"

section \<open>Behaviour\<close>

lemmas vault_lifts = onAccount_def onSecrets_def draw_def lock_def setMasterKey_def

text \<open>
  What the vault relies on: unwrapping inverts wrapping, keys, wrapped keys and digests are
  not empty, and a secret that was stored or deleted without an error is there or gone.
\<close>

definition vault_laws :: "'k vault_env \<Rightarrow> bool" where
  "vault_laws env \<longleftrightarrow>
     (\<forall>n k w a b. k \<noteq> [] \<longrightarrow> ve_wrapMasterKey env n k w a = Inr b \<longrightarrow> b \<noteq> [] \<and> ve_unwrapMasterKey env b w a = Inr k) \<and>
     (\<forall>n k. ve_generateMasterKey env n = Inr k \<longrightarrow> k \<noteq> []) \<and>
     (\<forall>bs h. ve_sha256HashHex env bs = Inr h \<longrightarrow> h \<noteq> []) \<and>
     (\<forall>svc a x s s'. ve_storeSecret env svc a x s = (Inr (), s') \<longrightarrow> fst (ve_loadSecret env svc a s') = Inr (Some x)) \<and>
     (\<forall>svc a s s'. ve_deleteSecret env svc a s = (Inr (), s') \<longrightarrow> fst (ve_loadSecret env svc a s') = Inr None)"

lemma account_row_update:
  assumes "account_inv t"
  shows "saveVaultSession now i b t = (Inr (), map (\<lambda>r. r\<lparr>ac_vault_session_key_id := Some i,
      ac_vault_session_blob := Some b, ac_updated_at := now\<rparr>) t)"
    and "clearVaultSession now t = (Inr (), map (\<lambda>r. r\<lparr>ac_vault_session_key_id := None,
      ac_vault_session_blob := None, ac_updated_at := now\<rparr>) t)"
  using assms unfolding account_inv_def saveVaultSession_def clearVaultSession_def
  by (auto simp: account_update)

text \<open>What a session that was persisted leaves behind.\<close>

lemma persistSession_saved:
  assumes laws: "vault_laws env" and inv: "account_inv (vt_account v)"
    and run: "persistSession env v = (Inr (), v')"
  shows "vt_masterKey v' = vt_masterKey v \<and> vt_masterKey v \<noteq> [] \<and>
    (\<exists>i b w. savedSession v' = Some (i, encodeBase64 b) \<and> w \<noteq> [] \<and>
       fst (ve_loadSecret env kVaultSessionService i (vt_secrets v')) = Inr (Some w) \<and>
       ve_unwrapMasterKey env b w (toBytes kSessionMasterKey) = Inr (vt_masterKey v))"
proof -
  have key: "vt_masterKey v \<noteq> []"
    using run by (auto simp: persistSession_def act_simps split: if_splits)
  obtain r where t: "vt_account v = [r]" and r: "ac_id r = 1" using inv by (auto simp: account_inv_def)
  have acc: "getAccount (vt_account v) = Some (account_of r)" using t r by (simp add: getAccount_single)
  obtain i where i: "makeVaultSessionKeyId env (account_of r) = Inr i"
    using run key acc by (auto simp: persistSession_def act_simps split: sum.splits)
  obtain w where w: "ve_generateMasterKey env (vt_draws v) = Inr w"
    using run key acc i by (auto simp: persistSession_def act_simps draw_def split: sum.splits)
  obtain b where b: "ve_wrapMasterKey env (Suc (vt_draws v)) (vt_masterKey v) w (toBytes kSessionMasterKey) = Inr b"
    using run key acc i w by (auto simp: persistSession_def act_simps draw_def split: sum.splits)
  define u where "u = v\<lparr>vt_draws := Suc (Suc (vt_draws v))\<rparr>"
  define clean where "clean = (case acc_vaultSessionKeyId (account_of r) of
      Some old \<Rightarrow> if old \<noteq> i then onSecrets (ve_deleteSecret env kVaultSessionService old) else returnE ()
    | None \<Rightarrow> (returnE () :: ('a, unit) vault_act))"
  have run': "bindE clean (\<lambda>_. bindE (onSecrets (ve_storeSecret env kVaultSessionService i w)) (\<lambda>_.
      onAccount env (\<lambda>now. saveVaultSession now i (encodeBase64 b)))) u = (Inr (), v')"
    using run key acc i w b
    by (simp add: persistSession_def clean_def u_def bindE_def getsE_def liftE_def draw_def)
  obtain u' where u': "clean u = (Inr (), u')"
    using run' unfolding bindE_eq_Inr by auto
  have clean: "vt_masterKey u' = vt_masterKey v" "vt_account u' = [r]"
    using u' t unfolding clean_def u_def
    by (auto simp: onSecrets_def returnE_def split: option.splits if_splits prod.splits)
  obtain k where k: "ve_storeSecret env kVaultSessionService i w (vt_secrets u') = (Inr (), k)"
    using run' u' by (auto simp: bindE_def onSecrets_def split: prod.splits sum.splits)
  have v': "v' = u'\<lparr>vt_secrets := k, vt_account := [r\<lparr>ac_vault_session_key_id := Some i,
      ac_vault_session_blob := Some (encodeBase64 b), ac_updated_at := ve_clock env (vt_draws u')\<rparr>],
      vt_draws := Suc (vt_draws u')\<rparr>"
    using run' u' k account_row_update(1) [of "[r]"] r clean(2)
    by (auto simp: bindE_def onSecrets_def onAccount_def account_inv_def)
  have "i \<noteq> []" "b \<noteq> []" "w \<noteq> []" "ve_unwrapMasterKey env b w (toBytes kSessionMasterKey) = Inr (vt_masterKey v)"
    using laws i b w key by (auto simp: vault_laws_def makeVaultSessionKeyId_def split: option.splits if_splits)
  moreover have "fst (ve_loadSecret env kVaultSessionService i (vt_secrets v')) = Inr (Some w)"
    using laws k v' by (auto simp: vault_laws_def)
  moreover have "savedSession v' = Some (i, encodeBase64 b)"
    using v' r calculation(1,2) by (simp add: savedSession_def getAccount_single account_of_def encodeBase64_Nil_iff)
  ultimately show ?thesis using clean(1) v' key by simp blast
qed

lemma restoreSession_saved:
  assumes "vt_masterKey v = []" and "savedSession v = Some (i, encodeBase64 b)" and "w \<noteq> []"
    and "ve_loadSecret env kVaultSessionService i (vt_secrets v) = (Inr (Some w), k)"
    and "ve_unwrapMasterKey env b w (toBytes kSessionMasterKey) = Inr key"
  shows "restoreSession env v = (Inr True, v\<lparr>vt_secrets := k, vt_masterKey := key\<rparr>)"
  using assms
  by (simp add: restoreSession_def act_simps isUnlocked_def onSecrets_def lock_def setMasterKey_def base64.decode_encode)

text \<open>The key an unlocked vault ends with is the one the password unwraps, whether or not it was persisted.\<close>

lemma unlock_cases:
  assumes "vaultMaterial v = Inr (salt64, key64)" and "decodeBase64 salt64 = Inr salt" and "decodeBase64 key64 = Inr enc"
    and "ve_derivePasswordKek env password salt = Inr kek"
    and "ve_unwrapMasterKey env enc kek (toBytes kMasterKey) = Inr key"
  shows "unlock env password v = persistSession env (v\<lparr>vt_masterKey := key\<rparr>)"
  using assms by (simp add: unlock_def act_simps lock_def setMasterKey_def)

lemma unlock_Inr:
  assumes "unlock env password v = (Inr (), v')"
  obtains key where "persistSession env (v\<lparr>vt_masterKey := key\<rparr>) = (Inr (), v')"
  using assms
  by (auto simp: unlock_def bindE_eq_Inr lock_def setMasterKey_def liftE_def)

lemma persistSession_keeps_key: "vt_masterKey (snd (persistSession env v)) = vt_masterKey v"
  by (auto simp: persistSession_def act_simps vault_lifts split: option.split prod.split sum.split)

section \<open>Properties\<close>

definition sample_vault_env :: "(string \<times> bytes) list vault_env" where
  "sample_vault_env =
     \<lparr>ve_clock = \<lambda>_. ''now'', ve_derivePasswordKek = \<lambda>p _. Inr (toBytes p),
      ve_generateMasterKey = \<lambda>_. Inr [7], ve_wrapMasterKey = \<lambda>_ k _ _. Inr k,
      ve_unwrapMasterKey = \<lambda>b _ _. Inr b, ve_sha256HashHex = \<lambda>_. Inr ''digest'',
      ve_storeSecret = \<lambda>_ a x s. (Inr (), (a, x) # s),
      ve_loadSecret = \<lambda>_ a s. (Inr (map_of s a), s),
      ve_deleteSecret = \<lambda>_ a s. (Inr (), filter (\<lambda>(b, _). b \<noteq> a) s)\<rparr>"

lemma map_of_deleted: "map_of (filter (\<lambda>(b, _). b \<noteq> a) s) a = None"
  by (induction s) auto

lemma sample_vault_laws: "vault_laws sample_vault_env"
  by (simp add: vault_laws_def sample_vault_env_def map_of_deleted)

definition sample_vault :: "string option \<Rightarrow> (string \<times> bytes) list vault" where
  "sample_vault email =
     \<lparr>vt_masterKey = [],
      vt_account = [(hd (migrated_account ''t''))\<lparr>ac_email := email,
        ac_vault_salt := Some (encodeBase64 [1]), ac_encrypted_master_key := Some (encodeBase64 [2, 3])\<rparr>],
      vt_secrets = [], vt_draws = 0\<rparr>"

lemma sample_vault_inv: "account_inv (vt_account (sample_vault email))"
  by (simp add: account_inv_def sample_vault_def migrated_account_def)

text \<open>
  C20. The vault survives a restart: after a successful \<open>unlock\<close>, a new process, which has the
  account and the secure storage but no key in memory, unlocks without a password and holds the
  same master key.
\<close>

theorem unlock_restore_round_trip:
  assumes "vault_laws env" and "account_inv (vt_account v)" and "unlock env password v = (Inr (), v')"
  shows "vt_masterKey v' \<noteq> [] \<and>
    (\<exists>v''. ensureUnlocked env (v'\<lparr>vt_masterKey := []\<rparr>) = (Inr (), v'') \<and> vt_masterKey v'' = vt_masterKey v')"
proof -
  obtain key where run: "persistSession env (v\<lparr>vt_masterKey := key\<rparr>) = (Inr (), v')"
    using unlock_Inr [OF assms(3)] .
  have inv: "account_inv (vt_account (v\<lparr>vt_masterKey := key\<rparr>))" using assms(2) by simp
  from persistSession_saved [OF assms(1) inv run] obtain i b w where
    v': "vt_masterKey v' = key" "key \<noteq> []" "savedSession v' = Some (i, encodeBase64 b)" "w \<noteq> []"
      "fst (ve_loadSecret env kVaultSessionService i (vt_secrets v')) = Inr (Some w)"
      "ve_unwrapMasterKey env b w (toBytes kSessionMasterKey) = Inr key"
    by auto
  define k where "k = snd (ve_loadSecret env kVaultSessionService i (vt_secrets v'))"
  have load: "ve_loadSecret env kVaultSessionService i (vt_secrets v') = (Inr (Some w), k)"
    using v'(5) by (simp add: k_def prod_eq_iff)
  have "savedSession (v'\<lparr>vt_masterKey := []\<rparr>) = Some (i, encodeBase64 b)"
    using v'(3) by (simp add: savedSession_def)
  then have "restoreSession env (v'\<lparr>vt_masterKey := []\<rparr>) = (Inr True, v'\<lparr>vt_masterKey := key, vt_secrets := k\<rparr>)"
    using restoreSession_saved [of "v'\<lparr>vt_masterKey := []\<rparr>", OF _ _ v'(4) _ v'(6)] load by simp
  then show ?thesis
    using v'(1,2) by (simp add: ensureUnlocked_def act_simps isUnlocked_def)
qed

lemma sample_unlock: "fst (unlock sample_vault_env ''pw'' (sample_vault (Some ''e''))) = Inr ()"
  by code_simp

theorem unlock_restore_round_trip_witness:
  "\<exists>v'. unlock sample_vault_env ''pw'' (sample_vault (Some ''e'')) = (Inr (), v') \<and> vt_masterKey v' \<noteq> [] \<and>
    (\<exists>v''. ensureUnlocked sample_vault_env (v'\<lparr>vt_masterKey := []\<rparr>) = (Inr (), v'') \<and>
       vt_masterKey v'' = vt_masterKey v')"
proof -
  obtain v' where run: "unlock sample_vault_env ''pw'' (sample_vault (Some ''e'')) = (Inr (), v')"
    using sample_unlock by (metis fst_conv surj_pair)
  from unlock_restore_round_trip [OF sample_vault_laws sample_vault_inv run] run show ?thesis by blast
qed

text \<open>
  An \<open>unlock\<close> that throws because the session could not be saved (no email, no secure
  storage, a refused write) leaves the vault open: the caller gets the exception, and the
  daemon goes on with the master key in memory.
\<close>

theorem failed_unlock_leaves_vault_open:
  assumes "vaultMaterial v = Inr (salt64, key64)" and "decodeBase64 salt64 = Inr salt" and "decodeBase64 key64 = Inr enc"
    and "ve_derivePasswordKek env password salt = Inr kek"
    and "ve_unwrapMasterKey env enc kek (toBytes kMasterKey) = Inr key" and "key \<noteq> []"
    and "unlock env password v = (Inl e, v')"
  shows "isUnlocked v' \<and> ensureUnlocked env v' = (Inr (), v')"
proof -
  have "vt_masterKey v' = key"
    using persistSession_keeps_key [of env "v\<lparr>vt_masterKey := key\<rparr>"] assms(7) unlock_cases [OF assms(1-5)] by simp
  then show ?thesis using assms(6) by (simp add: isUnlocked_def ensureUnlocked_def act_simps)
qed

theorem failed_unlock_leaves_vault_open_witness:
  "\<exists>v'. unlock sample_vault_env ''pw'' (sample_vault None) =
      (Inl (Runtime_error ''Vault session cannot be persisted without an account email''), v') \<and> isUnlocked v'"
proof -
  have material: "vaultMaterial (sample_vault None) = Inr (encodeBase64 [1], encodeBase64 [2, 3])" by code_simp
  have "fst (unlock sample_vault_env ''pw'' (sample_vault None)) =
    Inl (Runtime_error ''Vault session cannot be persisted without an account email'')" by code_simp
  then obtain v' where run: "unlock sample_vault_env ''pw'' (sample_vault None) =
    (Inl (Runtime_error ''Vault session cannot be persisted without an account email''), v')"
    by (metis fst_conv surj_pair)
  have "ve_derivePasswordKek sample_vault_env ''pw'' [1] = Inr (toBytes ''pw'')"
    and "ve_unwrapMasterKey sample_vault_env [2, 3] (toBytes ''pw'') (toBytes kMasterKey) = Inr [2, 3]"
    by (simp_all add: sample_vault_env_def)
  from failed_unlock_leaves_vault_open [OF material base64.decode_encode base64.decode_encode this _ run]
  show ?thesis using run by auto
qed



end
