(* ===== verification/Auth_Service.thy ===== *)
theory Auth_Service
  imports Vault_Service Manifest
begin

text \<open>
  Sessions with the server: the error of a failed request (api/HttpError.cpp) and
  \<open>AuthService\<close> (service/AuthService.cpp). The requests \<open>login\<close>, \<open>unlockVault\<close>, \<open>me\<close> and
  \<open>logout\<close> are parameters that act on the server's state.
\<close>

section \<open>HttpError\<close>

text \<open>The message of the member \<open>error\<close>, if it is a string or an object with a message or a code.\<close>

definition errorMember :: "json \<Rightarrow> string option" where
  "errorMember payload =
     (case payload of
        JObject kvs \<Rightarrow>
          (case map_of kvs ''error'' of
             Some (JString s) \<Rightarrow> Some s
           | Some (JObject e) \<Rightarrow>
               (case string_member (JObject e) ''message'' of
                  Some m \<Rightarrow> Some m
                | None \<Rightarrow> string_member (JObject e) ''code'')
           | _ \<Rightarrow> None)
      | _ \<Rightarrow> None)"

definition extractApiErrorMessage :: "(string \<Rightarrow> json result) \<Rightarrow> string \<Rightarrow> string" where
  "extractApiErrorMessage parse responseBody =
     (if responseBody = [] then []
      else case parse responseBody of
        Inl _ \<Rightarrow> []
      | Inr payload \<Rightarrow>
          (case errorMember payload of
             Some m \<Rightarrow> m
           | None \<Rightarrow> (case string_member payload ''message'' of Some m \<Rightarrow> m | None \<Rightarrow> [])))"

definition buildMessage :: "(string \<Rightarrow> json result) \<Rightarrow> int \<Rightarrow> string \<Rightarrow> string" where
  "buildMessage parse statusCode body =
     (let apiError = extractApiErrorMessage parse body in
      if apiError \<noteq> [] then ''HTTP '' @ to_string statusCode @ '': error: '' @ apiError
      else if body \<noteq> [] then ''HTTP '' @ to_string statusCode @ '': '' @ body
      else ''HTTP '' @ to_string statusCode)"

definition HttpError :: "(string \<Rightarrow> json result) \<Rightarrow> int \<Rightarrow> string \<Rightarrow> exn" where
  "HttpError parse statusCode body = Http_error statusCode (buildMessage parse statusCode body)"

section \<open>AuthService\<close>

record LoginResponse =
  lr_salt :: string
  lr_encryptedMasterKey :: string

record ('k, 'srv) auth_env =
  ae_vault :: "'k vault_env"
  ae_login :: "string \<Rightarrow> string \<Rightarrow> ('srv, LoginResponse) act"
  ae_unlockVault :: "string \<Rightarrow> ('srv, LoginResponse) act"
  ae_me :: "('srv, json) act"
  ae_logout :: "('srv, unit) act"

record ('k, 'srv) auth =
  au_vault :: "'k vault"
  au_server :: 'srv

type_synonym ('k, 'srv, 'a) auth_act = "(('k, 'srv) auth, 'a) act"

definition onVault :: "('k, 'a) vault_act \<Rightarrow> ('k, 'srv, 'a) auth_act" where
  "onVault m s = (case m (au_vault s) of (x, v) \<Rightarrow> (x, s\<lparr>au_vault := v\<rparr>))"

definition onApi :: "('srv, 'a) act \<Rightarrow> ('k, 'srv, 'a) auth_act" where
  "onApi m s = (case m (au_server s) of (x, v) \<Rightarrow> (x, s\<lparr>au_server := v\<rparr>))"

text \<open>\<open>catch (const HttpError &)\<close> and \<open>catch (const std::runtime_error &)\<close>.\<close>

definition catchHttp :: "('s, 'a) act \<Rightarrow> (int \<Rightarrow> string \<Rightarrow> ('s, 'a) act) \<Rightarrow> ('s, 'a) act" where
  "catchHttp m h = catchE m (\<lambda>e. case e of Http_error c w \<Rightarrow> h c w | _ \<Rightarrow> throwE e)"

fun is_runtime_error :: "exn \<Rightarrow> bool" where
  "is_runtime_error (Runtime_error _) = True"
| "is_runtime_error (Http_error _ _) = True"
| "is_runtime_error (Stale_upload_error _ _) = True"
| "is_runtime_error _ = False"

definition catchRuntime :: "('s, 'a) act \<Rightarrow> (exn \<Rightarrow> ('s, 'a) act) \<Rightarrow> ('s, 'a) act" where
  "catchRuntime m h = catchE m (\<lambda>e. if is_runtime_error e then h e else throwE e)"

definition isUnauthorized :: "int \<Rightarrow> bool" where
  "isUnauthorized statusCode \<longleftrightarrow> statusCode = 401 \<or> statusCode = 403"

definition kNoSession :: string where
  "kNoSession = ''No valid session. Run: arkive-sync login''"

definition ensureValidSession :: "('k, 'srv) auth_env \<Rightarrow> ('k, 'srv, unit) auth_act" where
  "ensureValidSession env =
     catchHttp (bindE (onApi (ae_me env)) (\<lambda>_. returnE ()))
       (\<lambda>c w. if isUnauthorized c then throwE (Runtime_error kNoSession) else throwE (Http_error c w))"

definition hasValidSession :: "('k, 'srv) auth_env \<Rightarrow> ('k, 'srv, bool) auth_act" where
  "hasValidSession env =
     catchRuntime (bindE (ensureValidSession env) (\<lambda>_. returnE True))
       (\<lambda>e. if what e = kNoSession then returnE False else throwE e)"

definition applyIdentity :: "AccountRecord \<Rightarrow> json \<Rightarrow> AccountRecord result" where
  "applyIdentity account me =
     bindR (json_value get_string me ''id'' []) (\<lambda>userId.
       if userId = [] then Inl (Runtime_error ''Could not load user id from /api/me'')
       else Inr (account\<lparr>acc_userId := Some userId\<rparr>))"

definition nonempty :: "string \<Rightarrow> string option" where
  "nonempty s = (if s = [] then None else Some s)"

definition requireAccount :: "('k, 'srv, AccountRecord) auth_act" where
  "requireAccount = liftE (\<lambda>s. case getAccount (vt_account (au_vault s)) of
       None \<Rightarrow> Inl (Runtime_error ''Base URL is not configured. Run: arkive-sync set-base-url <url>'')
     | Some account \<Rightarrow> Inr account)"

definition storeIdentity ::
    "('k, 'srv) auth_env \<Rightarrow> AccountRecord \<Rightarrow> string option \<Rightarrow> LoginResponse \<Rightarrow> json \<Rightarrow> ('k, 'srv, unit) auth_act" where
  "storeIdentity env account email response me =
     bindE (liftE (\<lambda>_. applyIdentity
       \<lparr>acc_baseUrl = acc_baseUrl account, acc_userId = acc_userId account, acc_email = email,
        acc_vaultSalt = nonempty (lr_salt response),
        acc_encryptedMasterKey = nonempty (lr_encryptedMasterKey response),
        acc_vaultSessionKeyId = acc_vaultSessionKeyId account,
        acc_vaultSessionBlob = acc_vaultSessionBlob account\<rparr> me)) (\<lambda>updated.
     onVault (onAccount (ae_vault env) (\<lambda>now. upsertAccount now updated)))"

definition login :: "('k, 'srv) auth_env \<Rightarrow> string \<Rightarrow> string \<Rightarrow> ('k, 'srv, bool) auth_act" where
  "login env email password =
     bindE requireAccount (\<lambda>account.
     if email = [] then throwE (Invalid_argument ''Email cannot be empty'')
     else if password = [] then throwE (Invalid_argument ''Password cannot be empty!'')
     else
       bindE (catchHttp (onApi (ae_login env email password))
                (\<lambda>_ w. throwE (Runtime_error (''Login request failed: '' @ w)))) (\<lambda>response.
       bindE (catchHttp (onApi (ae_me env))
                (\<lambda>_ w. throwE (Runtime_error (''Login succeeded but session check failed: '' @ w)))) (\<lambda>me.
       bindE (storeIdentity env account (Some email) response me) (\<lambda>_.
         returnE True))))"

definition refreshVaultMaterial :: "('k, 'srv) auth_env \<Rightarrow> string \<Rightarrow> ('k, 'srv, unit) auth_act" where
  "refreshVaultMaterial env password =
     bindE requireAccount (\<lambda>account.
     if password = [] then throwE (Invalid_argument ''Password cannot be empty!'')
     else
       bindE (onApi (ae_unlockVault env password)) (\<lambda>response.
       bindE (onApi (ae_me env)) (\<lambda>me.
         storeIdentity env account (acc_email account) response me)))"

definition logout :: "('k, 'srv) auth_env \<Rightarrow> ('k, 'srv, bool) auth_act" where
  "logout env =
     bindE (catchRuntime (bindE (ensureValidSession env) (\<lambda>_. returnE True))
              (\<lambda>e. if what e \<noteq> kNoSession then throwE e
                   else bindE (onVault (onAccount (ae_vault env) clearAccount)) (\<lambda>_. returnE False))) (\<lambda>valid.
     if \<not> valid then returnE False
     else
       bindE (onApi (ae_logout env)) (\<lambda>_.
       bindE (onVault (onAccount (ae_vault env) clearAccount)) (\<lambda>_. returnE True)))"

section \<open>Behaviour\<close>

lemma buildMessage_prefix: "take 5 (buildMessage parse c body) = ''HTTP ''"
  by (simp add: buildMessage_def Let_def)

lemma HttpError_not_kNoSession: "buildMessage parse c body \<noteq> kNoSession"
proof
  assume "buildMessage parse c body = kNoSession"
  then have "take 5 kNoSession = ''HTTP ''" using buildMessage_prefix [of parse c body] by simp
  then show False by (simp add: kNoSession_def)
qed

text \<open>What a request may throw, as the client builds it.\<close>

definition http_exn :: "(string \<Rightarrow> json result) \<Rightarrow> exn \<Rightarrow> bool" where
  "http_exn parse e \<longleftrightarrow> (\<forall>c w. e = Http_error c w \<longrightarrow> (\<exists>body. e = HttpError parse c body))"

lemma leaves_onApi: "vt_account (au_vault (snd (onApi m s))) = vt_account (au_vault s)"
  by (simp add: onApi_def split: prod.split)

lemma ensureValidSession_result:
  assumes "ae_me env (au_server s) = (x, srv)"
  shows "ensureValidSession env s =
    (case x of Inr _ \<Rightarrow> Inr ()
      | Inl e \<Rightarrow> Inl (case e of Http_error c w \<Rightarrow> if isUnauthorized c then Runtime_error kNoSession else e | _ \<Rightarrow> e),
     s\<lparr>au_server := srv\<rparr>)"
  using assms
  by (simp add: ensureValidSession_def catchHttp_def act_simps onApi_def split: sum.split exn.split)

lemma catchHttp_onApi_account:
  "vt_account (au_vault (snd (catchHttp (onApi m) (\<lambda>_ w. throwE (f w)) s))) = vt_account (au_vault s)"
  using leaves_onApi [of m s]
  by (auto simp: catchHttp_def act_simps split: prod.splits sum.splits exn.splits)

lemma upsertAccount_inv:
  assumes "account_inv t"
  shows "\<exists>t'. upsertAccount now a t = (Inr (), t') \<and> account_inv t' \<and> getAccount t' = Some a"
proof -
  obtain r where t: "t = [r]" and r: "ac_id r = 1" using assms by (auto simp: account_inv_def)
  have "ac_id (set_account now a r) = 1" using r by (simp add: set_account_def)
  then show ?thesis
    using t r by (auto simp: upsertAccount_single account_inv_def getAccount_single)
      (simp add: account_of_def set_account_def)
qed

text \<open>Storing the identity either writes the whole account or, without an identifier, nothing.\<close>

lemma storeIdentity_cases:
  assumes inv: "account_inv (vt_account (au_vault s))"
  shows "(\<exists>e. storeIdentity env account email response me s = (Inl e, s)) \<or>
    (\<exists>userId s'. userId \<noteq> [] \<and> storeIdentity env account email response me s = (Inr (), s') \<and>
       account_inv (vt_account (au_vault s')) \<and>
       getAccount (vt_account (au_vault s')) = Some
         (account\<lparr>acc_userId := Some userId, acc_email := email, acc_vaultSalt := nonempty (lr_salt response),
          acc_encryptedMasterKey := nonempty (lr_encryptedMasterKey response)\<rparr>))"
proof -
  let ?a = "\<lparr>acc_baseUrl = acc_baseUrl account, acc_userId = acc_userId account, acc_email = email,
    acc_vaultSalt = nonempty (lr_salt response), acc_encryptedMasterKey = nonempty (lr_encryptedMasterKey response),
    acc_vaultSessionKeyId = acc_vaultSessionKeyId account, acc_vaultSessionBlob = acc_vaultSessionBlob account\<rparr>"
  show ?thesis
  proof (cases "applyIdentity ?a me")
    case (Inl e)
    then show ?thesis by (simp add: storeIdentity_def act_simps)
  next
    case (Inr a)
    then obtain u where u: "u \<noteq> []" "a = ?a\<lparr>acc_userId := Some u\<rparr>"
      by (auto simp: applyIdentity_def bindR_eq_Inr split: if_splits)
    obtain t where t: "upsertAccount (ve_clock (ae_vault env) (vt_draws (au_vault s))) a (vt_account (au_vault s)) = (Inr (), t)"
      "account_inv t" "getAccount t = Some a"
      using upsertAccount_inv [OF inv] by blast
    have "storeIdentity env account email response me s =
        (Inr (), s\<lparr>au_vault := (au_vault s)\<lparr>vt_account := t, vt_draws := Suc (vt_draws (au_vault s))\<rparr>\<rparr>)"
      using Inr t(1) by (simp add: storeIdentity_def act_simps onVault_def onAccount_def)
    moreover have "a = account\<lparr>acc_userId := Some u, acc_email := email, acc_vaultSalt := nonempty (lr_salt response),
        acc_encryptedMasterKey := nonempty (lr_encryptedMasterKey response)\<rparr>"
      using u by simp
    ultimately show ?thesis using u(1) t by auto
  qed
qed

section \<open>Properties\<close>

text \<open>
  The session check tells the three outcomes of \<open>GET /api/me\<close> apart although it compares
  messages: it answers yes when the request succeeds, no exactly when the server refuses with
  401 or 403 (no message the client builds for another status can be mistaken for that), and
  passes every other failure on.
\<close>

theorem session_check_verdict:
  assumes "ae_me env (au_server s) = (x, srv)" and "\<And>e. x = Inl e \<Longrightarrow> http_exn parse e"
  shows "hasValidSession env s =
    (case x of
       Inr _ \<Rightarrow> Inr True
     | Inl (Http_error c w) \<Rightarrow> if c = 401 \<or> c = 403 then Inr False else Inl (Http_error c w)
     | Inl e \<Rightarrow> if is_runtime_error e \<and> what e = kNoSession then Inr False else Inl e,
     s\<lparr>au_server := srv\<rparr>)"
proof (cases x)
  case (Inr j)
  then show ?thesis
    using ensureValidSession_result [OF assms(1)]
    by (simp add: hasValidSession_def catchRuntime_def act_simps)
next
  case (Inl e)
  have "w \<noteq> kNoSession" if "e = Http_error c w" for c w
    using assms(2) [OF Inl] that HttpError_not_kNoSession by (auto simp: http_exn_def HttpError_def)
  then show ?thesis
    using ensureValidSession_result [OF assms(1)] Inl
    by (cases e) (auto simp: hasValidSession_def catchRuntime_def act_simps isUnauthorized_def)
qed

definition sample_auth_env :: "((string \<times> bytes) list, int) auth_env" where
  "sample_auth_env =
     \<lparr>ae_vault = sample_vault_env,
      ae_login = \<lambda>_ _ c. (Inr \<lparr>lr_salt = ''AQ=='', lr_encryptedMasterKey = ''AgM=''\<rparr>, c),
      ae_unlockVault = \<lambda>_ c. (Inr \<lparr>lr_salt = ''AQ=='', lr_encryptedMasterKey = ''AgM=''\<rparr>, c),
      ae_me = \<lambda>c. (if c = 200 then Inr (JObject [(''id'', JString ''u1'')])
                   else Inl (HttpError (\<lambda>_. Inl (Json_error [])) c ''denied''), c),
      ae_logout = \<lambda>c. (Inr (), c)\<rparr>"

definition sample_auth :: "int \<Rightarrow> ((string \<times> bytes) list, int) auth" where
  "sample_auth status = \<lparr>au_vault = sample_vault None, au_server = status\<rparr>"

theorem session_check_verdict_witness:
  "hasValidSession sample_auth_env (sample_auth 401) = (Inr False, sample_auth 401) \<and>
   hasValidSession sample_auth_env (sample_auth 500) =
     (Inl (Http_error 500 ''HTTP 500: denied''), sample_auth 500)"
proof -
  let ?parse = "\<lambda>_::string. Inl (Json_error []) :: json result"
  have me: "ae_me sample_auth_env (au_server (sample_auth 401)) = (Inl (Http_error 401 ''HTTP 401: denied''), 401)"
    "ae_me sample_auth_env (au_server (sample_auth 500)) = (Inl (Http_error 500 ''HTTP 500: denied''), 500)" by code_simp+
  have "HttpError ?parse 401 ''denied'' = Http_error 401 ''HTTP 401: denied''"
    "HttpError ?parse 500 ''denied'' = Http_error 500 ''HTTP 500: denied''" by code_simp+
  then have "http_exn ?parse (Http_error 401 ''HTTP 401: denied'')" "http_exn ?parse (Http_error 500 ''HTTP 500: denied'')"
    unfolding http_exn_def by (auto intro!: exI [of _ "''denied''"])
  then show ?thesis
    using session_check_verdict [OF me(1), of ?parse] session_check_verdict [OF me(2), of ?parse]
    by (simp add: sample_auth_def)
qed



end
