(* ===== verification/Ipc_Commands.thy ===== *)
theory Ipc_Commands
  imports Polling_Daemon Auth_Service
begin

text \<open>
  The commands the daemon answers (ipc/DaemonIpcHandler.cpp, ipc/DaemonIpcServer.cpp,
  ipc/commands/). A command works on everything the daemon has: its services and, for the login,
  the vault. The text form of requests and answers and the connection are left aside. Commands
  come one after the other and, in this model, between two rounds of the main loop.

  \<open>None\<close> stands for a loop that has not ended with the fuel given to it.
\<close>

section \<open>Messages\<close>

datatype Command =
    COMMAND_UNSPECIFIED | STATUS | STOP | LOGIN | LOGOUT | SYNC_ADD | SYNC_RUN | SYNC_LIST | SYNC_REMOVE | SYNC_PULL

record Request =
  rq_protocol_version :: "32 word"
  rq_command :: Command
  rq_email :: string
  rq_password :: string
  rq_path :: string

record SyncRootInfo =
  si_id :: string
  si_path :: string
  si_enabled :: bool
  si_mode :: string

record Response =
  rp_protocol_version :: "32 word"
  rp_ok :: bool
  rp_error :: string
  rp_state :: string
  rp_sync_root_count :: "32 word"
  rp_authenticated :: bool
  rp_vault_unlocked :: bool
  rp_email :: string
  rp_sync_root_id :: string
  rp_sync_root_path :: string
  rp_scanned_root_count :: "32 word"
  rp_sync_roots :: "SyncRootInfo list"
  rp_synced_entry_count :: "32 word"

definition emptyResponse :: Response where
  "emptyResponse =
     \<lparr>rp_protocol_version = 0, rp_ok = False, rp_error = [], rp_state = [], rp_sync_root_count = 0,
      rp_authenticated = False, rp_vault_unlocked = False, rp_email = [], rp_sync_root_id = [], rp_sync_root_path = [],
      rp_scanned_root_count = 0, rp_sync_roots = [], rp_synced_entry_count = 0\<rparr>"

definition kProtocolVersion :: "32 word" where
  "kProtocolVersion = 1"

definition isSupportedProtocolVersion :: "32 word \<Rightarrow> bool" where
  "isSupportedProtocolVersion version \<longleftrightarrow> version = kProtocolVersion"

section \<open>The state of the process\<close>

record ('k, 'srv) node =
  nd_daemon :: "'srv daemon"
  nd_masterKey :: bytes
  nd_secrets :: 'k
  nd_draws :: nat
  nd_stop :: bool

record ('k, 'srv, 'h) node_env =
  ne_services :: "('srv, 'h) services"
  ne_auth :: "('k, 'srv) auth_env option"
  ne_sha256 :: "bytes \<Rightarrow> string result"

type_synonym ('k, 'srv, 'a) node_act = "(('k, 'srv) node, 'a) act"

definition daemonN :: "('srv, 'a) daemon_act \<Rightarrow> ('k, 'srv, 'a) node_act" where
  "daemonN m n = (case m (nd_daemon n) of (x, d) \<Rightarrow> (x, n\<lparr>nd_daemon := d\<rparr>))"

text \<open>The vault and the session work on the account table and the server the daemon uses.\<close>

definition authOf :: "('k, 'srv) node \<Rightarrow> ('k, 'srv) auth" where
  "authOf n =
     \<lparr>au_vault = \<lparr>vt_masterKey = nd_masterKey n, vt_account = app_account (dm_app (nd_daemon n)),
                  vt_secrets = nd_secrets n, vt_draws = nd_draws n\<rparr>,
      au_server = app_server (dm_app (nd_daemon n))\<rparr>"

definition withAuth :: "('k, 'srv) auth \<Rightarrow> ('k, 'srv) node \<Rightarrow> ('k, 'srv) node" where
  "withAuth a n =
     n\<lparr>nd_daemon := (nd_daemon n)\<lparr>dm_app := (dm_app (nd_daemon n))\<lparr>app_account := vt_account (au_vault a),
                                                               app_server := au_server a\<rparr>\<rparr>,
       nd_masterKey := vt_masterKey (au_vault a), nd_secrets := vt_secrets (au_vault a), nd_draws := vt_draws (au_vault a)\<rparr>"

definition authN :: "('k, 'srv, 'a) auth_act \<Rightarrow> ('k, 'srv, 'a) node_act" where
  "authN m n = (case m (authOf n) of (x, a) \<Rightarrow> (x, withAuth a n))"

definition getRootsN :: "('k, 'srv, SyncRoot list) node_act" where
  "getRootsN = daemonN getRootsD"

section \<open>Commands\<close>

definition statusCommand :: "('k, 'srv, 'h) node_env \<Rightarrow> ('k, 'srv, Response option) node_act" where
  "statusCommand env =
     bindE getRootsN (\<lambda>roots.
     bindE (case ne_auth env of None \<Rightarrow> returnE False | Some auth \<Rightarrow> authN (hasValidSession auth)) (\<lambda>authenticated.
     bindE (getsE (\<lambda>n. (isUnlocked (au_vault (authOf n)),
              Option.bind (getAccount (app_account (dm_app (nd_daemon n)))) acc_email))) (\<lambda>(unlocked, email).
       returnE (Some (emptyResponse\<lparr>rp_ok := True, rp_state := ''running'',
         rp_sync_root_count := word_of_nat (length roots), rp_authenticated := authenticated,
         rp_vault_unlocked := unlocked, rp_email := (case email of Some e \<Rightarrow> e | None \<Rightarrow> [])\<rparr>)))))"

definition kNoBaseUrl :: exn where
  "kNoBaseUrl = Runtime_error ''Base URL is not configured. Run: arkive-sync set-base-url <url>''"

definition loginCommand :: "('k, 'srv, 'h) node_env \<Rightarrow> Request \<Rightarrow> ('k, 'srv, Response option) node_act" where
  "loginCommand env request =
     (case ne_auth env of
        None \<Rightarrow> throwE kNoBaseUrl
      | Some auth \<Rightarrow>
          bindE (getsE (\<lambda>n. getAccount (app_account (dm_app (nd_daemon n))))) (\<lambda>found. case found of
            None \<Rightarrow> throwE (Runtime_error ''Base URL is missing'')
          | Some account \<Rightarrow>
              bindE (authN (hasValidSession auth)) (\<lambda>valid.
              bindE (if valid \<and> rq_email request = [] then
                       bindE (if hasPersistedVaultMaterial account then returnE ()
                              else authN (refreshVaultMaterial auth (rq_password request))) (\<lambda>_.
                         authN (onVault (unlock (ae_vault auth) (rq_password request))))
                     else
                       bindE (authN (login auth (rq_email request) (rq_password request))) (\<lambda>_.
                         authN (onVault (unlock (ae_vault auth) (rq_password request))))) (\<lambda>_.
              bindE (getsE (\<lambda>n. isUnlocked (au_vault (authOf n)))) (\<lambda>unlocked.
                returnE (Some (emptyResponse\<lparr>rp_ok := True, rp_state := ''logged_in'', rp_vault_unlocked := unlocked\<rparr>)))))))"

definition logoutCommand :: "('k, 'srv, 'h) node_env \<Rightarrow> ('k, 'srv, Response option) node_act" where
  "logoutCommand env =
     (case ne_auth env of
        None \<Rightarrow> throwE kNoBaseUrl
      | Some auth \<Rightarrow>
          bindE (authN (onVault lock)) (\<lambda>_.
          bindE (authN (onVault (clearPersistedSession (ae_vault auth)))) (\<lambda>_.
          bindE (authN (logout auth)) (\<lambda>_.
            returnE (Some (emptyResponse\<lparr>rp_ok := True, rp_state := ''logged_out''\<rparr>))))))"

definition syncAddCommand :: "('k, 'srv, 'h) node_env \<Rightarrow> Request \<Rightarrow> ('k, 'srv, Response option) node_act" where
  "syncAddCommand env request =
     bindE (daemonN (appD (addSyncRoot (sv_clocks (ne_services env)) (sv_cwd (ne_services env)) (ne_sha256 env)
              (rq_path request) None True TwoWay))) (\<lambda>root.
       returnE (Some (emptyResponse\<lparr>rp_ok := True, rp_sync_root_id := root_Id root, rp_sync_root_path := root_localPath root\<rparr>)))"

text \<open>One root of \<open>syncRun\<close>: scanned to the end, then queued.\<close>

definition runRoot :: "nat \<Rightarrow> ('k, 'srv, 'h) node_env \<Rightarrow> SyncRoot \<Rightarrow> ('k, 'srv, unit option) node_act" where
  "runRoot fuel env root =
     (let sv = ne_services env in
      bindE (daemonN (scanD (scanToEnd fuel (sv_scanner sv) (root_Id root)))) (\<lambda>ended. case ended of
        None \<Rightarrow> returnE None
      | Some _ \<Rightarrow> daemonN (appD (buildLoop fuel (sv_clocks sv) (sv_folders sv) (root_Id root) None))))"

definition enabledRoots :: "SyncRoot list \<Rightarrow> SyncRoot list" where
  "enabledRoots roots = filter (\<lambda>root. root_enabled root \<noteq> 0) roots"

fun countSynced :: "SyncRoot list \<Rightarrow> entries_table \<Rightarrow> nat result" where
  "countSynced [] t = Inr 0"
| "countSynced (root # roots) t =
     bindR (listEntriesBySyncRootId (root_Id root) t) (\<lambda>es.
     bindR (countSynced roots t) (\<lambda>n.
       Inr (length (filter (\<lambda>e. e_remoteId e \<noteq> None) es) + n)))"

definition syncRunCommand :: "nat \<Rightarrow> ('k, 'srv, 'h) node_env \<Rightarrow> ('k, 'srv, Response option) node_act" where
  "syncRunCommand fuel env =
     bindE getRootsN (\<lambda>roots.
     if roots = [] then throwE (Runtime_error ''No sync roots configured'')
     else
       bindE (forO (enabledRoots roots) (runRoot fuel env)) (\<lambda>ended. case ended of
         None \<Rightarrow> returnE None
       | Some _ \<Rightarrow>
           bindE (liftE (\<lambda>n. countSynced roots (app_entries (dm_app (nd_daemon n))))) (\<lambda>synced.
             returnE (Some (emptyResponse\<lparr>rp_ok := True,
               rp_scanned_root_count := word_of_nat (length (enabledRoots roots)),
               rp_synced_entry_count := word_of_nat synced\<rparr>)))))"

definition rootInfo :: "SyncRoot \<Rightarrow> SyncRootInfo" where
  "rootInfo root =
     \<lparr>si_id = root_Id root, si_path = root_localPath root, si_enabled = (root_enabled root \<noteq> 0),
      si_mode = toSyncModeDb (root_mode root)\<rparr>"

definition syncListCommand :: "('k, 'srv, Response option) node_act" where
  "syncListCommand =
     bindE getRootsN (\<lambda>roots.
       returnE (Some (emptyResponse\<lparr>rp_ok := True, rp_sync_roots := map rootInfo roots\<rparr>)))"

definition syncRemoveCommand :: "Request \<Rightarrow> ('k, 'srv, Response option) node_act" where
  "syncRemoveCommand request =
     bindE (daemonN (appD (removeSyncRoot (rq_path request)))) (\<lambda>_.
       returnE (Some (emptyResponse\<lparr>rp_ok := True, rp_sync_root_id := rq_path request\<rparr>)))"

definition kRemoteUnavailable :: exn where
  "kRemoteUnavailable = Runtime_error ''Remote sync is unavailable''"

definition pullRemote :: "('srv, 'h) services \<Rightarrow> 'srv remote_env option \<Rightarrow> SyncRoot list \<Rightarrow> ('srv, bool option) daemon_act" where
  "pullRemote sv scanner roots d =
     remoteD (remoteRunNow (sv_fuel sv) (sv_cwd sv) scanner (sv_steady sv (app_tick (dm_app d))) roots) d"

definition syncPullCommand :: "('k, 'srv, 'h) node_env \<Rightarrow> ('k, 'srv, Response option) node_act" where
  "syncPullCommand env =
     (let sv = ne_services env in
      case (sv_remote sv, sv_reconciler sv) of
        (Some scanner, Some _) \<Rightarrow>
          bindE getRootsN (\<lambda>roots.
          bindE (daemonN (pullRemote sv scanner roots)) (\<lambda>scanned. case scanned of
            None \<Rightarrow> returnE None
          | Some False \<Rightarrow> throwE kRemoteUnavailable
          | Some True \<Rightarrow>
              bindE (daemonN (forE (enabledRoots roots) (reconcileD sv))) (\<lambda>_.
                returnE (Some (emptyResponse\<lparr>rp_ok := True,
                  rp_scanned_root_count := word_of_nat (length (enabledRoots roots))\<rparr>)))))
      | _ \<Rightarrow> throwE kRemoteUnavailable)"

definition stopCommand :: "('k, 'srv, Response option) node_act" where
  "stopCommand n = (Inr (Some (emptyResponse\<lparr>rp_ok := True, rp_state := ''stopping''\<rparr>)), n\<lparr>nd_stop := True\<rparr>)"

section \<open>Answering\<close>

definition handleRequest :: "nat \<Rightarrow> ('k, 'srv, 'h) node_env \<Rightarrow> Request \<Rightarrow> ('k, 'srv, Response option) node_act" where
  "handleRequest fuel env request =
     (if \<not> isSupportedProtocolVersion (rq_protocol_version request) then
        returnE (Some (emptyResponse\<lparr>rp_protocol_version := kProtocolVersion, rp_error := ''Unsupported IPC protocol version''\<rparr>))
      else case rq_command request of
          STATUS \<Rightarrow> statusCommand env
        | LOGIN \<Rightarrow> loginCommand env request
        | LOGOUT \<Rightarrow> logoutCommand env
        | SYNC_ADD \<Rightarrow> syncAddCommand env request
        | SYNC_RUN \<Rightarrow> syncRunCommand fuel env
        | SYNC_LIST \<Rightarrow> syncListCommand
        | SYNC_REMOVE \<Rightarrow> syncRemoveCommand request
        | SYNC_PULL \<Rightarrow> syncPullCommand env
        | STOP \<Rightarrow> stopCommand
        | COMMAND_UNSPECIFIED \<Rightarrow>
            returnE (Some (emptyResponse\<lparr>rp_protocol_version := kProtocolVersion, rp_error := ''Unsupported IPC command''\<rparr>)))"

text \<open>The body of \<open>DaemonIpcServer::serve\<close>: an exception becomes the error of the answer.\<close>

definition serveRequest :: "nat \<Rightarrow> ('k, 'srv, 'h) node_env \<Rightarrow> Request \<Rightarrow> ('k, 'srv, Response option) node_act" where
  "serveRequest fuel env request =
     bindE (catchE (handleRequest fuel env request) (\<lambda>e. returnE (Some (emptyResponse\<lparr>rp_error := what e\<rparr>))))
       (\<lambda>response. returnE (map_option (\<lambda>r. r\<lparr>rp_protocol_version := kProtocolVersion\<rparr>) response))"

section \<open>Adding and listing roots\<close>

lemma getSyncRoots_total:
  assumes "roots_inv t"
  shows "\<exists>rs. getSyncRoots t = Inr rs \<and> set rs = rootOf ` set t"
proof -
  let ?rs = "select_ordered (\<lambda>r. (sr_created_at r, sr_local_path r)) (\<lambda>_. True) t"
  have "\<forall>r\<in>set ?rs. readable_root r" using assms by (simp add: roots_inv_def)
  from readSyncRoots_readable [OF this] show ?thesis by (simp add: getSyncRoots_def)
qed

text \<open>What \<open>addSyncRoot\<close> saves: the folder and the mode are those given, whatever they were before.\<close>

definition addedRoot :: "string \<Rightarrow> string \<Rightarrow> SyncRoot" where
  "addedRoot pathHash path =
     \<lparr>root_Id = makeRootId pathHash, root_localPath = path, root_folderId = [], root_enabled = 1, root_mode = TwoWay,
      root_createdAt = []\<rparr>"

lemma addSyncRoot_run:
  assumes inv: "roots_inv (app_roots s)" and path: "normalizeFsPath cwd q = Inr p" "is_directory p (app_files s)"
    and hash: "hashPath sha cwd p = Inr h"
    and other: "\<not> (\<exists>r\<in>set (app_roots s). sr_local_path r = p \<and> sr_id r \<noteq> makeRootId h)"
  shows "\<exists>s' created. addSyncRoot c cwd sha q None True TwoWay s = (Inr (addedRoot h p), s') \<and>
    roots_inv (app_roots s') \<and> app_files s' = app_files s \<and>
    findSyncRootById (makeRootId h) (app_roots s') = Inr (Some ((addedRoot h p)\<lparr>root_createdAt := created\<rparr>))"
proof -
  let ?now = "clock c (app_tick s)"
  obtain t' created where up: "upsertSyncRoot ?now (addedRoot h p) (app_roots s) = (Inr (), t')" "roots_inv t'"
    "findSyncRootById (makeRootId h) t' =
      Inr (Some ((addedRoot h p)\<lparr>root_enabled := column_int (root_enabled (addedRoot h p)), root_createdAt := created\<rparr>))"
    using upsertSyncRoot_found [OF inv, of "addedRoot h p" ?now] other by (auto simp: addedRoot_def)
  have "column_int 1 = 1" by (simp add: column_int_small)
  then have "addSyncRoot c cwd sha q None True TwoWay s =
      (Inr (addedRoot h p), s\<lparr>app_tick := Suc (app_tick s), app_roots := t'\<rparr>)"
    using path hash up(1)
    by (simp add: addSyncRoot_def bindE_def liftE_def getsE_def returnE_def Let_def timed_def onRoots_def addedRoot_def)
  then show ?thesis using up(2,3) \<open>column_int 1 = 1\<close> by (auto simp: addedRoot_def)
qed

definition addRequest :: "string \<Rightarrow> Request" where
  "addRequest path =
     \<lparr>rq_protocol_version = kProtocolVersion, rq_command = SYNC_ADD, rq_email = [], rq_password = [], rq_path = path\<rparr>"

definition listRequest :: Request where
  "listRequest = (addRequest [])\<lparr>rq_command := SYNC_LIST\<rparr>"

section \<open>Properties\<close>

text \<open>
  A folder that was added is listed: \<open>SYNC_ADD\<close> of an existing folder is answered with the
  identifier made from the hash of its normalised path, and the next \<open>SYNC_LIST\<close> shows the root
  under that identifier, enabled and in two-way mode.
\<close>

theorem added_root_is_listed:
  assumes "roots_inv (app_roots (dm_app (nd_daemon n)))"
    and "normalizeFsPath (sv_cwd (ne_services env)) q = Inr p" and "is_directory p (app_files (dm_app (nd_daemon n)))"
    and "hashPath (ne_sha256 env) (sv_cwd (ne_services env)) p = Inr h"
    and "\<not> (\<exists>r\<in>set (app_roots (dm_app (nd_daemon n))). sr_local_path r = p \<and> sr_id r \<noteq> makeRootId h)"
  shows "\<exists>n' listed. serveRequest fuel env (addRequest q) n =
      (Inr (Some (emptyResponse\<lparr>rp_protocol_version := kProtocolVersion, rp_ok := True,
         rp_sync_root_id := makeRootId h, rp_sync_root_path := p\<rparr>)), n') \<and>
    serveRequest fuel env listRequest n' = (Inr (Some listed), n') \<and> rp_ok listed \<and>
    \<lparr>si_id = makeRootId h, si_path = p, si_enabled = True, si_mode = toSyncModeDb TwoWay\<rparr> \<in> set (rp_sync_roots listed)"
proof -
  let ?s = "dm_app (nd_daemon n)"
  obtain s' created where add: "addSyncRoot (sv_clocks (ne_services env)) (sv_cwd (ne_services env)) (ne_sha256 env) q None True TwoWay ?s =
      (Inr (addedRoot h p), s')" "roots_inv (app_roots s')"
    "findSyncRootById (makeRootId h) (app_roots s') = Inr (Some ((addedRoot h p)\<lparr>root_createdAt := created\<rparr>))"
    using addSyncRoot_run [OF assms] by blast
  obtain rs where rs: "getSyncRoots (app_roots s') = Inr rs" "set rs = rootOf ` set (app_roots s')"
    using getSyncRoots_total [OF add(2)] by blast
  have "(addedRoot h p)\<lparr>root_createdAt := created\<rparr> \<in> set rs"
    using findSyncRootById_Some [OF add(2,3)] rs(2) by (metis imageI)
  then have "rootInfo ((addedRoot h p)\<lparr>root_createdAt := created\<rparr>) \<in> rootInfo ` set rs" by (rule imageI)
  moreover have "rootInfo ((addedRoot h p)\<lparr>root_createdAt := created\<rparr>) =
      \<lparr>si_id = makeRootId h, si_path = p, si_enabled = True, si_mode = toSyncModeDb TwoWay\<rparr>"
    by (simp add: rootInfo_def addedRoot_def)
  ultimately show ?thesis
    using add(1) rs(1)
    by (simp add: serveRequest_def handleRequest_def addRequest_def listRequest_def isSupportedProtocolVersion_def
        syncAddCommand_def syncListCommand_def getRootsN_def getRootsD_def daemonN_def appD_def bindE_def catchE_def
        liftE_def returnE_def addedRoot_def)
qed

definition demo_node :: "(unit, string) node" where
  "demo_node =
     \<lparr>nd_daemon = demo_daemon\<lparr>dm_app := demo_tree\<rparr>, nd_masterKey = [], nd_secrets = (), nd_draws = 0, nd_stop = False\<rparr>"

definition demo_node_env :: "(unit, string, bytes) node_env" where
  "demo_node_env = \<lparr>ne_services = idle_services, ne_auth = None, ne_sha256 = (\<lambda>_. Inr ''h'')\<rparr>"

lemma demo_folder:
  "normalizeFsPath ''/'' ''/home/a/d'' = Inr ''/home/a/d''" "is_directory ''/home/a/d'' (app_files demo_tree)"
  "roots_inv (app_roots demo_tree)"
proof -
  show "normalizeFsPath ''/'' ''/home/a/d'' = Inr ''/home/a/d''" "is_directory ''/home/a/d'' (app_files demo_tree)"
    by code_simp+
  show "roots_inv (app_roots demo_tree)" using demo_tree_ready(1) by (simp add: scan_ready_def app_inv_def)
qed

theorem added_root_is_listed_witness:
  "\<exists>n' listed. serveRequest 0 demo_node_env (addRequest ''/home/a/d'') demo_node =
      (Inr (Some (emptyResponse\<lparr>rp_protocol_version := 1, rp_ok := True,
         rp_sync_root_id := ''sync-root-h'', rp_sync_root_path := ''/home/a/d''\<rparr>)), n') \<and>
    serveRequest 0 demo_node_env listRequest n' = (Inr (Some listed), n') \<and>
    ''sync-root-h'' \<in> si_id ` set (rp_sync_roots listed)"
proof -
  have app: "dm_app (nd_daemon demo_node) = demo_tree" by (simp add: demo_node_def)
  have cwd: "sv_cwd (ne_services demo_node_env) = ''/''" by (simp add: demo_node_env_def idle_services_def)
  have hash: "hashPath (ne_sha256 demo_node_env) ''/'' ''/home/a/d'' = Inr ''h''"
    by (simp add: hashPath_def demo_folder(1) demo_node_env_def)
  have other: "\<not> (\<exists>r\<in>set (app_roots demo_tree). sr_local_path r = ''/home/a/d'' \<and> sr_id r \<noteq> makeRootId ''h'')"
    by (simp add: demo_tree_def sample_app_def new_root_def demoRoot_def)
  obtain n' listed where run: "serveRequest 0 demo_node_env (addRequest ''/home/a/d'') demo_node =
      (Inr (Some (emptyResponse\<lparr>rp_protocol_version := kProtocolVersion, rp_ok := True,
         rp_sync_root_id := makeRootId ''h'', rp_sync_root_path := ''/home/a/d''\<rparr>)), n')"
    "serveRequest 0 demo_node_env listRequest n' = (Inr (Some listed), n')"
    and mem: "\<lparr>si_id = makeRootId ''h'', si_path = ''/home/a/d'', si_enabled = True, si_mode = toSyncModeDb TwoWay\<rparr> \<in> set (rp_sync_roots listed)"
    using added_root_is_listed [of demo_node demo_node_env "''/home/a/d''" "''/home/a/d''" "''h''" 0, unfolded app cwd,
        OF demo_folder(3,1,2) hash other] by blast
  have "makeRootId ''h'' \<in> si_id ` set (rp_sync_roots listed)" using imageI [OF mem, of si_id] by simp
  then show ?thesis using run by (auto simp: makeRootId_def kProtocolVersion_def)
qed

text \<open>
  Adding a folder that is a root already undoes its binding: the root loses the folder on the server
  it was bound to, and its mode becomes two-way, so that the next round creates a second folder.
\<close>

theorem adding_again_unbinds_root:
  assumes "roots_inv (app_roots s)" and "normalizeFsPath cwd q = Inr p" and "is_directory p (app_files s)"
    and "hashPath sha cwd p = Inr h" and "findSyncRootById (makeRootId h) (app_roots s) = Inr (Some old)"
    and "root_localPath old = p" and "root_folderId old \<noteq> []" and "root_mode old = RemoteMirror"
  shows "\<exists>s' root. addSyncRoot c cwd sha q None True TwoWay s = (Inr root, s') \<and>
    (\<exists>root'. findSyncRootById (makeRootId h) (app_roots s') = Inr (Some root') \<and>
       root_folderId root' = [] \<and> root_mode root' = TwoWay)"
proof -
  obtain x where x: "x \<in> set (app_roots s)" "sr_id x = makeRootId h" "old = rootOf x"
    using findSyncRootById_Some [OF assms(1,5)] by blast
  have p: "sr_local_path x = p" using assms(6) x(3) by (simp add: rootOf_def)
  have "r = x" if "r \<in> set (app_roots s)" "sr_local_path r = p" for r
    by (rule uniq_onD [of idx_sync_roots_local_path "app_roots s" r x p])
      (use assms(1) x(1) p that in \<open>simp_all add: roots_inv_def sync_roots_ok_def idx_sync_roots_local_path_def\<close>)
  then have "\<not> (\<exists>r\<in>set (app_roots s). sr_local_path r = p \<and> sr_id r \<noteq> makeRootId h)" using x(2) by blast
  from addSyncRoot_run [OF assms(1,2,3,4) this, of c] obtain s' created where
    "addSyncRoot c cwd sha q None True TwoWay s = (Inr (addedRoot h p), s')"
    "findSyncRootById (makeRootId h) (app_roots s') = Inr (Some ((addedRoot h p)\<lparr>root_createdAt := created\<rparr>))" by blast
  then show ?thesis by (auto simp: addedRoot_def)
qed

end
