(* ===== verification/Process_Invariant.thy ===== *)
theory Process_Invariant
  imports Ipc_Commands
begin

text \<open>
  What holds of the whole process at every moment: the invariants of all tables, whatever the
  main loop, the commands, the user's file system and the server do. Every action of every
  service is shown to keep them; the steps of the process are then a transition system.
\<close>

section \<open>Sound states\<close>

text \<open>The times of files are 64-bit counts of nanoseconds, as \<open>file_time_type\<close> has it.\<close>

definition times_ok :: "files \<Rightarrow> bool" where
  "times_ok fs \<longleftrightarrow> (\<forall>p\<in>fst ` set fs. case fs_at fs p of Some (File _ t) \<Rightarrow> int64 t | _ \<Rightarrow> True)"

definition sound :: "'srv app \<Rightarrow> bool" where
  "sound s \<longleftrightarrow> app_inv s \<and> times_ok (app_files s)"

lemma times_ok_iff: "times_ok fs \<longleftrightarrow> (\<forall>p bs t. fs_at fs p = Some (File bs t) \<longrightarrow> int64 t)"
proof
  assume ok: "times_ok fs"
  show "\<forall>p bs t. fs_at fs p = Some (File bs t) \<longrightarrow> int64 t"
  proof (intro allI impI)
    fix p bs t assume at: "fs_at fs p = Some (File bs t)"
    then have "p \<in> fst ` set fs" using map_of_SomeD by (force simp: fs_at_def)
    then show "int64 t" using ok at by (auto simp: times_ok_def)
  qed
qed (auto simp: times_ok_def split: option.split fs_node.split)

lemma times_ok_updates:
  "times_ok fs \<Longrightarrow> times_ok (fs_delete gone fs)"
  "times_ok fs \<Longrightarrow> times_ok (fs_remove p fs)"
  "times_ok fs \<Longrightarrow> times_ok (fs_remove_all p fs)"
  "times_ok fs \<Longrightarrow> times_ok (fold fs_mkdir ps fs)"
  "times_ok fs \<Longrightarrow> int64 t \<Longrightarrow> times_ok (fs_put p (File bs t) fs)"
proof -
  show "times_ok fs \<Longrightarrow> times_ok (fs_delete gone fs)" for gone fs by (auto simp: times_ok_iff)
  then show "times_ok fs \<Longrightarrow> times_ok (fs_remove p fs)" by (simp add: fs_remove_def)
  show "times_ok fs \<Longrightarrow> times_ok (fs_remove_all p fs)" by (auto simp: times_ok_iff)
  show "times_ok fs \<Longrightarrow> times_ok (fold fs_mkdir ps fs)"
  proof (induction ps arbitrary: fs)
    case (Cons p ps)
    have "times_ok (fs_mkdir p fs)" using Cons.prems by (auto simp: times_ok_iff fs_mkdir_def)
    then show ?case using Cons.IH by simp
  qed simp
  show "times_ok fs \<Longrightarrow> int64 t \<Longrightarrow> times_ok (fs_put p (File bs t) fs)" by (auto simp: times_ok_iff)
qed

lemma keeps_sound_lifts [keeps_intros]:
  "keeps entries_inv m1 \<Longrightarrow> keeps sound (onEntries m1)"
  "keeps queue_inv m2 \<Longrightarrow> keeps sound (onQueue m2)"
  "keeps roots_inv m3 \<Longrightarrow> keeps sound (onRoots m3)"
  "keeps dirty_inv m4 \<Longrightarrow> keeps sound (onDirty m4)"
  "keeps scan_ok m5 \<Longrightarrow> keeps sound (onScans m5)"
  unfolding onEntries_def [abs_def] onQueue_def [abs_def] onRoots_def [abs_def] onDirty_def [abs_def] onScans_def [abs_def]
  by (erule keeps_part; simp add: sound_def app_inv_def)+

lemma keeps_sound_others [keeps_intros]:
  "keeps sound (onServer m)"
  "(\<And>fs. times_ok fs \<Longrightarrow> times_ok (f fs)) \<Longrightarrow> keeps sound (onFiles f)"
  "(\<And>now newId. keeps sound (g now newId)) \<Longrightarrow> keeps sound (timed c g)"
  by (simp_all add: keeps_def sound_def app_inv_def onServer_def onFiles_def timed_def split: prod.split)

text \<open>Reading the state first, when what follows depends on what was read.\<close>

lemma keeps_bind_gets: "(\<And>s. I s \<Longrightarrow> keeps I (f (h s))) \<Longrightarrow> keeps I (bindE (getsE h) f)"
  by (simp add: keeps_def bindE_def getsE_def)

section \<open>The local scanner\<close>

lemma sound_handleDirectory [keeps_intros]: "keeps sound (handleDirectory env root job p)"
  unfolding handleDirectory_def by (intro keeps_intros)

lemma sound_time: "sound s \<Longrightarrow> last_write_time p (app_files s) = Some t \<Longrightarrow> int64 t"
  by (auto simp: sound_def times_ok_iff last_write_time_def split: option.splits fs_node.splits)

lemma sound_handleFileEntry [keeps_intros]: "keeps sound (handleFileEntry env root job a p)"
  unfolding handleFileEntry_def
  by (rule keeps_bind_gets) (auto intro!: keeps_intros split: option.split dest: sound_time simp: Let_def)

lemma sound_scanBatch [keeps_intros]: "keeps sound (scanBatch env root job n c items)"
proof (induction items arbitrary: n c)
  case (Cons i items)
  have "keeps sound (scanItem env root job i)"
    unfolding scanItem_def by (auto intro!: keeps_intros split: item_kind.split)
  then show ?case using Cons by (auto intro!: keeps_intros)
qed (simp add: keeps_intros)

lemma sound_rollback: "sound s \<Longrightarrow> sound s' \<Longrightarrow> sound (rollback s s')"
  by (simp add: sound_def app_inv_def rollback_def)

lemma sound_transactionA [keeps_intros]: "keeps sound m \<Longrightarrow> keeps sound (transactionA m)"
  by (auto simp: keeps_def transactionA_def split: prod.split) (metis snd_conv sound_rollback)+

lemma sound_subtreeLoop [keeps_intros]: "keeps sound (subtreeLoop fuel env root job rp sub rel c)"
  by (induction fuel arbitrary: c) (auto intro!: keeps_intros split: option.split prod.split)

lemma sound_scanPath [keeps_intros]: "keeps sound (scanPath env root p)"
  unfolding scanPath_def scanSubtree_def Let_def by (auto intro!: keeps_intros split: option.split)

text \<open>The scan of a root keeps its iterators next to the shared state.\<close>

lemma sound_onApp [keeps_intros]: "keeps I m \<Longrightarrow> keeps (\<lambda>(s, _). I s) (onApp m)"
  by (auto simp: keeps_def onApp_def split: prod.split)

lemma sound_takeScanJob [keeps_intros]: "keeps sound (takeScanJob env root)"
  unfolding takeScanJob_def by (auto intro!: keeps_intros split: option.split)

lemma sound_finishScan [keeps_intros]: "keeps sound (finishScan env root job)"
  unfolding finishScan_def by (intro keeps_intros)

lemma sound_openScan [keeps_intros]: "keeps (\<lambda>(s, _). sound s) (openScan env j root rp)"
  by (auto simp: keeps_def openScan_def Let_def split: option.split)

lemma keeps_return_pair [keeps_intros]: "keeps (\<lambda>(s, _). I s) (\<lambda>(s, l). (Inr x, (s, f l)))"
  by (auto simp: keeps_def)

lemma sound_runScanJob [keeps_intros]: "keeps (\<lambda>(s, _). sound s) (runScanJob env root rp j)"
proof -
  have "keeps (\<lambda>(s, _). sound s) (runScanBatch env root job)" for job
    unfolding runScanBatch_def by (auto intro!: keeps_intros split: prod.split)
  then show ?thesis
    unfolding runScanJob_def by (auto intro!: keeps_intros split: prod.split option.split)
qed

lemma sound_scanRoot [keeps_intros]: "keeps (\<lambda>(s, _). sound s) (scanRoot env root :: ('srv, bool) scan_act)"
proof (rule keepsI)
  fix sl :: "'srv app \<times> active_scans" assume "case sl of (s, _) \<Rightarrow> sound s"
  then obtain s act where sl: "sl = (s, act)" and s: "sound s" by auto
  have body: "keeps (\<lambda>(s, _). sound s) (scanRootBody env root rp :: ('srv, bool) scan_act)" for rp
    unfolding scanRootBody_def by (auto intro!: keeps_intros split: option.split)
  have "sound s'" if "scanRootBody env root rp (s, act) = (x, (s', act'))" for rp x s' act'
    using keepsD [OF body [of rp], of "(s, act)"] s that by simp
  then show "case snd (scanRoot env root sl) of (s, _) \<Rightarrow> sound s"
    using s sl by (auto simp: scanRoot_def Let_def sound_rollback split: sum.split option.split prod.split)
qed

lemma sound_scanToEnd [keeps_intros]: "keeps (\<lambda>(s, _). sound s) (scanToEnd fuel env root)"
  by (induction fuel) (auto intro!: keeps_intros)

section \<open>Reconciling\<close>

text \<open>The clock of the file system gives times that fit.\<close>

definition clock_ok :: "'h reconcile_env \<Rightarrow> bool" where
  "clock_ok env \<longleftrightarrow> (\<forall>n. int64 (rc_mtime env n))"

lemma sound_download [keeps_intros]:
  assumes "clock_ok env"
  shows "keeps sound (download env denv f p :: ('srv, unit) app_act)"
proof (rule keepsI)
  fix s :: "'srv app" assume s: "sound s"
  have "times_ok (snd (downloadTo denv (rc_mtime env n) f p (app_files s)))" for n
    using s assms
    by (auto simp: downloadTo_def fs_create_directories_def sound_def clock_ok_def times_ok_updates
        split: sum.split prod.split)
  then show "sound (snd (download env denv f p s))"
    using s by (auto simp: download_def sound_def app_inv_def split: prod.split) (metis snd_conv)
qed

lemma sound_recordDownload [keeps_intros]: "keeps sound (recordDownload env entry path)"
  unfolding recordDownload_def
  by (auto split: option.split intro!: keeps_bind_gets keeps_if keeps_throwE)
    (auto intro!: keeps_intros dest: sound_time)

lemma sound_reconcileRoot [keeps_intros]:
  assumes "clock_ok env"
  shows "keeps sound (reconcileRoot env root)"
  unfolding reconcileRoot_def reconcileEntry_def applyDeleteLocal_def applyConflict_def Let_def
  by (auto intro!: keeps_intros times_ok_updates assms split: option.split prod.split)

section \<open>The queue\<close>

lemma sound_enqueueEntry [keeps_intros]: "keeps sound (enqueueEntry c root entry)"
  unfolding enqueueEntry_def
  by (auto intro!: keeps_intros split: option.split) (auto simp: keeps_def)

lemma sound_ensureRootFolder [keeps_intros]: "keeps sound (ensureRootFolder env root)"
  unfolding ensureRootFolder_def by (auto intro!: keeps_intros split: option.split)

lemma sound_runFolderJob [keeps_intros]: "keeps sound (runFolderJob env job)"
  unfolding runFolderJob_def by (auto intro!: keeps_intros split: option.split)

lemma sound_enqueueEntryByPath [keeps_intros]: "keeps sound (enqueueEntryByPath c root p)"
  unfolding enqueueEntryByPath_def by (auto intro!: keeps_intros split: option.split)

lemma sound_buildPage [keeps_intros]: "keeps sound (buildPage c worker i p b)"
  unfolding buildPage_def by (auto intro!: keeps_intros split: option.split)

lemma sound_buildLoop [keeps_intros]: "keeps sound (buildLoop fuel c worker i p)"
  by (induction fuel arbitrary: p) (auto intro!: keeps_intros)

lemma sound_jobs [keeps_intros]:
  "keeps sound (claimJob c ty)" "keeps sound (finishJob c i)" "keeps sound (failJob c i msg)"
  unfolding claimJob_def finishJob_def failJob_def by (intro keeps_intros)+

lemma sound_handleFolderJob [keeps_intros]: "keeps sound (handleFolderJob c env job)"
  unfolding handleFolderJob_def by (intro keeps_intros)

lemma keepsD': "keeps I m \<Longrightarrow> I s \<Longrightarrow> m s = (x, s') \<Longrightarrow> I s'"
  by (metis keepsD snd_conv)

lemma runFolderJobs_sound: "sound s \<Longrightarrow> sound (snd (runFolderJobs c env s))"
proof (induction c env s rule: runFolderJobs.induct)
  case (1 c env s)
  note claim = keepsD' [OF sound_jobs(1) 1(2)]
  note handle = keepsD' [OF sound_handleFolderJob claim]
  show ?case
    by (subst runFolderJobs.simps)
      (auto simp del: runFolderJobs.simps split: prod.split sum.split option.split intro: claim handle 1(1))
qed

lemma sound_runFolderJobs [keeps_intros]: "keeps sound (runFolderJobs c env)"
  by (rule keepsI) (rule runFolderJobs_sound)

lemma sound_claimBatch [keeps_intros]: "keeps sound (claimBatch n (claimJob c ty))"
  by (induction n) (auto intro!: keeps_intros split: option.split)

lemma sound_applyUploads [keeps_intros]: "keeps sound (applyUploads c items us results)"
  by (induction us arbitrary: results) (auto intro!: keeps_intros split: option.split)

lemma sound_runBatch [keeps_intros]: "keeps sound (runBatch c service jobs)"
  unfolding runBatch_def by (auto intro!: keeps_intros split: sum.split)

lemma sound_settleUploads [keeps_intros]: "keeps sound (settleUploads c results)"
  unfolding settleUploads_def by (auto intro!: keeps_intros)

lemma runUploads_sound: "sound s \<Longrightarrow> sound (snd (runUploads c service s))"
proof (induction c service s rule: runUploads.induct)
  case (1 c service s)
  note claim = keepsD' [OF sound_claimBatch 1(2)]
  note batch = keepsD' [OF keeps_bindE [OF sound_runBatch sound_settleUploads] claim]
  show ?case
    by (subst runUploads.simps)
      (auto simp del: runUploads.simps split: prod.split sum.split list.split intro: claim batch 1(1))
qed

lemma sound_runUploads [keeps_intros]: "keeps sound (runUploads c service)"
  by (rule keepsI) (rule runUploads_sound)

lemma sound_runTick [keeps_intros]: "keeps sound (runTick c worker service)"
  unfolding runTick_def by (auto intro!: keeps_intros split: option.split)

section \<open>The remote side\<close>

lemma sound_scanFolder [keeps_intros]: "keeps sound (scanFolder fuel env root f parent)"
proof (induction fuel arbitrary: f parent)
  case (Suc fuel)
  have "keeps sound (fetchEntries env f)" "keeps sound (recordEntry env root parent e)" for e
    unfolding fetchEntries_def recordEntry_def by (auto intro!: keeps_intros split: option.split)
  then show ?case using Suc by (auto intro!: keeps_intros split: option.split)
qed (simp add: keeps_intros)

lemma sound_remoteTick [keeps_intros]: "keeps (\<lambda>(s, _). sound s) (remoteTickRoots fuel cwd env now roots b)"
proof (induction roots arbitrary: b)
  case (Cons root roots)
  have "keeps sound (scanRemoteRoot fuel env i)" "keeps sound (isRootDeleted env i)" "keeps sound (removeDeletedRoot cwd env root)" for i
    unfolding scanRemoteRoot_def isRootDeleted_def requireRoot_def removeDeletedRoot_def fetchEntries_def
    by (auto intro!: keeps_intros times_ok_updates split: option.split)
  then have "keeps (\<lambda>(s, _). sound s) (remoteTickRoot fuel cwd env now root)"
    unfolding remoteTickRoot_def setLastScan_def
    by (auto intro!: keeps_intros split: option.split)
  then show ?case using Cons by (auto intro!: keeps_intros split: option.split)
qed (simp add: keeps_intros)

section \<open>Rounds of the daemon\<close>

lemma sound_appD [keeps_intros]: "keeps sound m \<Longrightarrow> keeps (\<lambda>d. sound (dm_app d)) (appD m)"
  by (rule keepsI) (auto simp: appD_def split: prod.split dest: keepsD')

lemma sound_scanD [keeps_intros]: "keeps (\<lambda>(s, _). sound s) m \<Longrightarrow> keeps (\<lambda>d. sound (dm_app d)) (scanD m)"
  by (rule keepsI) (auto simp: scanD_def split: prod.split dest: keepsD')

lemma sound_remoteD [keeps_intros]: "keeps (\<lambda>(s, _). sound s) m \<Longrightarrow> keeps (\<lambda>d. sound (dm_app d)) (remoteD m)"
  by (rule keepsI) (auto simp: remoteD_def split: prod.split dest: keepsD')

lemma sound_locals [keeps_intros]:
  "keeps (\<lambda>d. sound (dm_app d)) (setQueue root c b)" "keeps (\<lambda>d. sound (dm_app d)) (watchRoot r)"
  "keeps (\<lambda>d. sound (dm_app d)) (scanRunning root)" "keeps (\<lambda>d. sound (dm_app d)) pollWatcher"
  by (auto simp: keeps_def setQueue_def watchRoot_def scanRunning_def pollWatcher_def getsE_def split: list.split)

lemma sound_recordD [keeps_intros]: "keeps sound (recordD sv e)"
proof (rule keepsI)
  fix s :: "'a app" assume s: "sound s"
  let ?s = "s\<lparr>app_tick := app_tick s + length (app_roots s) + 2\<rparr>"
  have "sound ?s" using s by (simp add: sound_def app_inv_def)
  from keepsD [OF keeps_sound_lifts(4) [OF keeps_recordEvent] this] show "sound (snd (recordD sv e s))"
    unfolding recordD_def .
qed

text \<open>The services the process runs with: their file clock gives times that fit.\<close>

definition services_ok :: "('srv, 'h) services \<Rightarrow> bool" where
  "services_ok sv \<longleftrightarrow> (case sv_reconciler sv of None \<Rightarrow> True | Some env \<Rightarrow> clock_ok env)"

lemma sound_reconcileD [keeps_intros]: "services_ok sv \<Longrightarrow> keeps (\<lambda>d. sound (dm_app d)) (reconcileD sv root)"
  unfolding reconcileD_def services_ok_def by (auto intro!: keeps_intros split: option.splits)

lemma sound_parts [keeps_intros]:
  "keeps (\<lambda>d. sound (dm_app d)) (queueTick sv)" "keeps (\<lambda>d. sound (dm_app d)) (produceQueuePage sv root b)"
  "keeps (\<lambda>d. sound (dm_app d)) (settleDirty sv i failure)" "keeps (\<lambda>d. sound (dm_app d)) (claimDirty sv root)"
  "keeps (\<lambda>d. sound (dm_app d)) (processWatcherEvents sv)" "keeps (\<lambda>d. sound (dm_app d)) getRootsD"
  unfolding queueTick_def produceQueuePage_def settleDirty_def claimDirty_def processWatcherEvents_def getRootsD_def
  by (auto intro!: keeps_intros split: option.split)

lemma sound_remoteTickD [keeps_intros]: "keeps (\<lambda>d. sound (dm_app d)) (remoteTick sv scanner roots)"
proof (rule keepsI)
  fix d :: "'a daemon" assume d: "sound (dm_app d)"
  have "keeps (\<lambda>d. sound (dm_app d)) (remoteD (remoteRunTick (sv_fuel sv) (sv_cwd sv) scanner now rs))" for now rs
    unfolding remoteRunTick_def by (auto intro!: keeps_intros split: option.split)
  from keepsD [OF this d] show "sound (dm_app (snd (remoteTick sv scanner roots d)))" unfolding remoteTick_def .
qed

lemma sound_processDirtyPaths [keeps_intros]:
  assumes "services_ok sv"
  shows "keeps (\<lambda>d. sound (dm_app d)) (processDirtyPaths n sv root)"
proof (induction n)
  case (Suc n)
  have "keeps (\<lambda>d. sound (dm_app d)) (handleDirtyPath sv root p)" for p
    unfolding handleDirtyPath_def by (auto intro!: keeps_intros assms split: option.split bool.split)
  then show ?case using Suc by (auto intro!: keeps_intros split: option.split)
qed (simp add: keeps_intros)

lemma sound_tickRoots [keeps_intros]:
  assumes "services_ok sv"
  shows "keeps (\<lambda>d. sound (dm_app d)) (tickRoots sv roots)"
proof (induction roots)
  case (Cons root roots)
  have "keeps (\<lambda>d. sound (dm_app d)) (tickRoot sv root)"
    unfolding tickRoot_def by (auto intro!: keeps_intros assms)
  then show ?case using Cons by (auto intro!: keeps_intros)
qed (simp add: keeps_intros)

lemma sound_daemonTick [keeps_intros]:
  assumes "services_ok sv"
  shows "keeps (\<lambda>d. sound (dm_app d)) (daemonTick sv roots)"
  unfolding daemonTick_def remoteRound_def by (auto intro!: keeps_intros assms split: option.split bool.split)

lemma sound_startDaemon [keeps_intros]:
  assumes "services_ok sv"
  shows "keeps (\<lambda>d. sound (dm_app d)) (startDaemon sv)"
  unfolding startDaemon_def startRemote_def startRoot_def startQueue_def
  by (auto intro!: keeps_intros assms split: option.split)

section \<open>Commands\<close>

lemma keeps_account [keeps_intros]:
  "keeps account_ok (upsertAccount now a)" "keeps account_ok (saveVaultSession now i b)"
  "keeps account_ok (clearVaultSession now)" "keeps account_ok (clearAccount now)"
  unfolding upsertAccount_def saveVaultSession_def clearVaultSession_def clearAccount_def
  by (auto intro!: keeps_stmtE simp: sql_update_def sql_upsert_def sql_insert_def Let_def split: if_splits)

abbreviation vault_account_ok :: "'k vault \<Rightarrow> bool" where
  "vault_account_ok v \<equiv> account_ok (vt_account v)"

abbreviation auth_account_ok :: "('k, 'srv) auth \<Rightarrow> bool" where
  "auth_account_ok a \<equiv> account_ok (vt_account (au_vault a))"

lemma keeps_vault_lifts [keeps_intros]:
  "(\<And>now. keeps account_ok (m now)) \<Longrightarrow> keeps vault_account_ok (onAccount venv m)"
  "keeps vault_account_ok (onSecrets k)" "keeps vault_account_ok (draw f)"
  "keeps vault_account_ok lock" "keeps vault_account_ok (setMasterKey key)"
  by (auto simp: keeps_def onAccount_def onSecrets_def draw_def lock_def setMasterKey_def split: prod.split) (metis snd_conv)

lemma keeps_vault [keeps_intros]:
  "keeps vault_account_ok (unlock venv password)" "keeps vault_account_ok (clearPersistedSession venv)"
  unfolding unlock_def persistSession_def clearPersistedSession_def
  by (auto intro!: keeps_intros split: option.split prod.split)

lemma keeps_auth_lifts [keeps_intros]:
  "keeps vault_account_ok m \<Longrightarrow> keeps auth_account_ok (onVault m)" "keeps auth_account_ok (onApi k)"
  by (auto simp: keeps_def onVault_def onApi_def split: prod.split)

lemma keeps_catches [keeps_intros]:
  "keeps I m \<Longrightarrow> (\<And>c w. keeps I (h c w)) \<Longrightarrow> keeps I (catchHttp m h)"
  "keeps I m \<Longrightarrow> (\<And>e. keeps I (g e)) \<Longrightarrow> keeps I (catchRuntime m g)"
  unfolding catchHttp_def catchRuntime_def by (auto intro!: keeps_intros split: exn.split)

lemma keeps_auth [keeps_intros]:
  "keeps auth_account_ok (hasValidSession auth)" "keeps auth_account_ok (login auth email password)"
  "keeps auth_account_ok (refreshVaultMaterial auth password)" "keeps auth_account_ok (logout auth)"
  unfolding hasValidSession_def ensureValidSession_def login_def refreshVaultMaterial_def logout_def storeIdentity_def requireAccount_def
  by (auto intro!: keeps_intros)

abbreviation node_sound :: "('k, 'srv) node \<Rightarrow> bool" where
  "node_sound n \<equiv> sound (dm_app (nd_daemon n))"

lemma sound_daemonN [keeps_intros]: "keeps (\<lambda>d. sound (dm_app d)) m \<Longrightarrow> keeps node_sound (daemonN m)"
  by (rule keepsI) (auto simp: daemonN_def split: prod.split dest: keepsD')

lemma sound_authN [keeps_intros]:
  fixes m :: "('k, 'srv, 'a) auth_act"
  assumes "keeps auth_account_ok m"
  shows "keeps node_sound (authN m)"
proof (rule keepsI)
  fix n :: "('k, 'srv) node" assume n: "node_sound n"
  then have "auth_account_ok (authOf n)" by (simp add: authOf_def sound_def app_inv_def)
  then have "auth_account_ok (snd (m (authOf n)))" by (rule keepsD [OF assms])
  then show "node_sound (snd (authN m n))"
    using n by (auto simp: authN_def withAuth_def sound_def app_inv_def split: prod.split)
qed

lemma sound_pullRemote [keeps_intros]: "keeps (\<lambda>d. sound (dm_app d)) (pullRemote sv scanner roots)"
proof (rule keepsI)
  fix d :: "'a daemon" assume d: "sound (dm_app d)"
  have run: "keeps (\<lambda>(s, _). sound s) (remoteRunTick fuel cwd scanner now rs :: ('a, bool option) remote_act)" for fuel cwd now rs
    unfolding remoteRunTick_def by (auto intro!: keeps_intros split: option.split)
  have "keeps (\<lambda>(s, _). sound s) (remoteRunNow fuel cwd scanner now rs :: ('a, bool option) remote_act)" for fuel cwd now rs
  proof (rule keepsI)
    fix sl :: "'a app \<times> (string \<times> int) list" assume "case sl of (s, _) \<Rightarrow> sound s"
    then obtain s l where "sl = (s, l)" "sound s" by auto
    then show "case snd (remoteRunNow fuel cwd scanner now rs sl) of (s, _) \<Rightarrow> sound s"
      using keepsD [OF run, of "(s, _)"] by (simp add: remoteRunNow_def)
  qed
  from keepsD [OF sound_remoteD [OF this] d] show "sound (dm_app (snd (pullRemote sv scanner roots d)))"
    unfolding pullRemote_def .
qed

lemma sound_sync_service [keeps_intros]:
  "keeps sound (addSyncRoot c cwd sha p f e mode)" "keeps sound (removeSyncRoot i)"
  unfolding addSyncRoot_def removeSyncRoot_def by (auto intro!: keeps_intros split: option.split simp: Let_def)

lemma sound_serveRequest [keeps_intros]:
  assumes "services_ok (ne_services env)"
  shows "keeps node_sound (serveRequest fuel env request)"
proof -
  have "keeps node_sound getRootsN" unfolding getRootsN_def by (intro keeps_intros)
  moreover have "keeps node_sound (runRoot fuel env root)" for root
    unfolding runRoot_def Let_def by (auto intro!: keeps_intros split: option.split)
  moreover have "keeps node_sound stopCommand" by (simp add: keeps_def stopCommand_def)
  ultimately have "keeps node_sound (handleRequest fuel env request)"
    unfolding handleRequest_def statusCommand_def loginCommand_def logoutCommand_def syncAddCommand_def syncRunCommand_def
      syncListCommand_def syncRemoveCommand_def syncPullCommand_def Let_def
    by (auto intro!: keeps_intros assms split: Command.split option.split bool.split prod.split)
  then show ?thesis unfolding serveRequest_def by (auto intro!: keeps_intros)
qed

section \<open>The process\<close>

text \<open>A database after its migrations, with no memory of an earlier run.\<close>

definition fresh_app :: "string \<Rightarrow> files \<Rightarrow> 'srv \<Rightarrow> 'srv app" where
  "fresh_app now fs server =
     \<lparr>app_entries = [], app_queue = [], app_roots = [], app_dirty = [], app_scans = [],
      app_account = migrated_account now, app_files = fs, app_server = server, app_tick = 0\<rparr>"

definition new_daemon :: "'srv app \<Rightarrow> 'srv daemon" where
  "new_daemon s =
     \<lparr>dm_app = s, dm_scans = [], dm_remoteScans = [], dm_queueCursors = (\<lambda>_. None), dm_queueComplete = (\<lambda>_. False),
      dm_watched = [], dm_polls = []\<rparr>"

definition new_node :: "'srv app \<Rightarrow> 'k \<Rightarrow> nat \<Rightarrow> ('k, 'srv) node" where
  "new_node s secrets draws =
     \<lparr>nd_daemon = new_daemon s, nd_masterKey = [], nd_secrets = secrets, nd_draws = draws, nd_stop = False\<rparr>"

text \<open>
  The steps of the process: starting up, a round of the loop on the roots read at the start, a
  command, a crash or restart, which keeps the database and the stored secrets only, and whatever
  the user, other programs and the server do. A round that throws ends the loop.
\<close>

type_synonym ('k, 'srv) process = "('k, 'srv) node \<times> SyncRoot list option"

inductive process_step :: "('k, 'srv, 'h) node_env \<Rightarrow> ('k, 'srv) process \<Rightarrow> ('k, 'srv) process \<Rightarrow> bool"
  for env :: "('k, 'srv, 'h) node_env" where
  start: "startDaemon (ne_services env) (nd_daemon n) = (x, d) \<Longrightarrow>
    process_step env (n, None) (n\<lparr>nd_daemon := d\<rparr>, case x of Inr roots \<Rightarrow> roots | Inl _ \<Rightarrow> None)"
| round: "\<not> nd_stop n \<Longrightarrow> daemonTick (ne_services env) roots (nd_daemon n) = (x, d) \<Longrightarrow>
    process_step env (n, Some roots) (n\<lparr>nd_daemon := d\<rparr>, if x = Inr True then Some roots else None)"
| command: "serveRequest fuel env request n = (x, n') \<Longrightarrow> process_step env (n, roots) (n', roots)"
| restart: "process_step env (n, roots) (new_node (dm_app (nd_daemon n)) (nd_secrets n) (nd_draws n), None)"
| outside: "times_ok fs \<Longrightarrow>
    process_step env (n, roots) (n\<lparr>nd_daemon := (nd_daemon n)\<lparr>dm_app := (dm_app (nd_daemon n))\<lparr>app_files := fs, app_server := server\<rparr>,
      dm_polls := polls\<rparr>\<rparr>, roots)"

definition process_start :: "('k, 'srv) process \<Rightarrow> bool" where
  "process_start p \<longleftrightarrow> snd p = None \<and>
     (\<exists>now fs server secrets draws. times_ok fs \<and> fst p = new_node (fresh_app now fs server) secrets draws)"

definition process_sound :: "('k, 'srv) process \<Rightarrow> bool" where
  "process_sound p \<longleftrightarrow> node_sound (fst p)"

lemma process_start_sound: "process_start p \<Longrightarrow> process_sound p"
  by (auto simp: process_start_def process_sound_def new_node_def new_daemon_def fresh_app_def sound_def app_inv_def
      entries_inv_Nil queue_inv_Nil roots_inv_def sync_roots_ok_def scan_ok_def migrated_account_def account_ok_single)

lemma process_step_sound:
  assumes "services_ok (ne_services env)" and "process_step env p q" and "process_sound p"
  shows "process_sound q"
  using assms(2,3)
proof (cases rule: process_step.cases)
  case (start n x d)
  then show ?thesis using assms(3) keepsD' [OF sound_startDaemon [OF assms(1)]] by (auto simp: process_sound_def)
next
  case (round n roots x d)
  then show ?thesis using assms(3) keepsD' [OF sound_daemonTick [OF assms(1)]] by (auto simp: process_sound_def)
next
  case (command fuel request n x n' roots)
  then show ?thesis using assms(3) keepsD' [OF sound_serveRequest [OF assms(1)]] by (auto simp: process_sound_def)
next
  case (outside fs n roots server polls)
  then show ?thesis using assms(3) by (simp add: process_sound_def sound_def app_inv_def)
qed (simp add: process_sound_def new_node_def new_daemon_def)

text \<open>The process is a transition system with this invariant, for services whose file clock is right.\<close>

interpretation process_runs: transition_system process_start
  "\<lambda>p q. services_ok (ne_services env) \<and> process_step env p q" process_sound for env
  by unfold_locales (auto intro: process_start_sound process_step_sound)

lemma reachable_process_sound:
  assumes "services_ok (ne_services env)" and "process_start p" and "(process_step env)\<^sup>*\<^sup>* p q"
  shows "process_sound q"
proof -
  have "(\<lambda>p q. services_ok (ne_services env) \<and> process_step env p q)\<^sup>*\<^sup>* p q"
    using assms(3) by (rule rtranclp_mono [THEN predicate2D, rotated]) (simp add: assms(1) le_fun_def)
  then show ?thesis by (rule process_runs.invar_reachable [OF assms(2)])
qed

section \<open>Properties\<close>


definition demo_start :: "(unit, string) process" where
  "demo_start = (new_node (fresh_app ''0'' [] []) () 0, None)"


end
