(* ===== verification/Upload_Resume_Repo.thy ===== *)
theory Upload_Resume_Repo
  imports Sqlite
begin

text \<open>
  The tables \<open>upload_resume_sessions\<close> and \<open>upload_resume_parts\<close> and the class
  \<open>UploadResumeRepo\<close> (repo/UploadResumeRepo.cpp): what is kept of an interrupted upload so
  that it can go on. A C++ \<open>int\<close> is a 32-bit and an \<open>int64_t\<close> a 64-bit word; the integers of
  the database are their signed values.
\<close>

section \<open>Records and rows\<close>

record UploadResumeSessionRecord =
  rs_id :: string
  rs_entryId :: "string option"
  rs_localPath :: string
  rs_localSize :: "64 word"
  rs_localMtime :: "string option"
  rs_localHash :: "string option"
  rs_folderId :: "string option"
  rs_vaultId :: string
  rs_fileId :: string
  rs_uploadSessionId :: string
  rs_providerUploadId :: string
  rs_fileChunkSize :: "64 word"
  rs_totalChunks :: "32 word"
  rs_uploadPartSize :: "64 word"
  rs_uploadPartCount :: "32 word"
  rs_encryptedFileKeyBlob :: string

record UploadResumePartRecord =
  rp_partNumber :: "32 word"
  rp_etag :: string
  rp_uploadHash :: string
  rp_chunkManifestJson :: string
  rp_combinedChunkHashes :: string

text \<open>A session row has the columns of the record and the two times.\<close>

record session_row =
  ss_record :: UploadResumeSessionRecord
  ss_created_at :: string
  ss_updated_at :: string

record part_row =
  pr_upload_session_id :: string
  pr_part_number :: int
  pr_etag :: string
  pr_upload_hash :: string
  pr_chunk_manifest_json :: string
  pr_combined_chunk_hashes :: string
  pr_created_at :: string
  pr_updated_at :: string

record resume_db =
  db_sessions :: "session_row list"
  db_parts :: "part_row list"

definition sessions_pk :: "session_row \<Rightarrow> string option" where
  "sessions_pk r = Some (rs_id (ss_record r))"

definition sessions_local_path :: "session_row \<Rightarrow> string option" where
  "sessions_local_path r = Some (rs_localPath (ss_record r))"

definition sessions_upload_id :: "session_row \<Rightarrow> string option" where
  "sessions_upload_id r = Some (rs_uploadSessionId (ss_record r))"

definition sessions_ok :: "session_row list \<Rightarrow> bool" where
  "sessions_ok t \<longleftrightarrow> uniq_on sessions_pk t \<and> uniq_on sessions_local_path t \<and> uniq_on sessions_upload_id t"

definition parts_pk :: "part_row \<Rightarrow> (string \<times> int) option" where
  "parts_pk r = Some (pr_upload_session_id r, pr_part_number r)"

definition parts_ok :: "part_row list \<Rightarrow> bool" where
  "parts_ok t \<longleftrightarrow> uniq_on parts_pk t"

section \<open>Operations\<close>

definition getSessionByLocalPath :: "string \<Rightarrow> resume_db \<Rightarrow> UploadResumeSessionRecord option" where
  "getSessionByLocalPath localPath d =
     map_option ss_record (limit1 (filter (\<lambda>r. rs_localPath (ss_record r) = localPath) (db_sessions d)))"

definition getSessionByUploadSessionId :: "string \<Rightarrow> resume_db \<Rightarrow> UploadResumeSessionRecord option" where
  "getSessionByUploadSessionId sid d =
     map_option ss_record (limit1 (filter (\<lambda>r. rs_uploadSessionId (ss_record r) = sid) (db_sessions d)))"

definition readPartRecord :: "part_row \<Rightarrow> UploadResumePartRecord" where
  "readPartRecord r =
     \<lparr>rp_partNumber = word_of_int (pr_part_number r), rp_etag = pr_etag r,
      rp_uploadHash = pr_upload_hash r, rp_chunkManifestJson = pr_chunk_manifest_json r,
      rp_combinedChunkHashes = pr_combined_chunk_hashes r\<rparr>"

definition listParts :: "string \<Rightarrow> resume_db \<Rightarrow> UploadResumePartRecord list" where
  "listParts sid d =
     map readPartRecord (select_ordered pr_part_number (\<lambda>r. pr_upload_session_id r = sid) (db_parts d))"

definition set_part :: "string \<Rightarrow> UploadResumePartRecord \<Rightarrow> part_row \<Rightarrow> part_row" where
  "set_part now p r =
     r\<lparr>pr_etag := rp_etag p, pr_upload_hash := rp_uploadHash p,
       pr_chunk_manifest_json := rp_chunkManifestJson p,
       pr_combined_chunk_hashes := rp_combinedChunkHashes p, pr_updated_at := now\<rparr>"

definition new_part :: "string \<Rightarrow> string \<Rightarrow> UploadResumePartRecord \<Rightarrow> part_row" where
  "new_part now sid p =
     \<lparr>pr_upload_session_id = sid, pr_part_number = sint (rp_partNumber p), pr_etag = rp_etag p,
      pr_upload_hash = rp_uploadHash p, pr_chunk_manifest_json = rp_chunkManifestJson p,
      pr_combined_chunk_hashes = rp_combinedChunkHashes p, pr_created_at = now, pr_updated_at = now\<rparr>"

text \<open>A statement on one of the two tables.\<close>

definition on_parts :: "(part_row list \<Rightarrow> part_row list result) \<Rightarrow> (resume_db, unit) act" where
  "on_parts f d = (case f (db_parts d) of Inl e \<Rightarrow> (Inl e, d) | Inr t \<Rightarrow> (Inr (), d\<lparr>db_parts := t\<rparr>))"

definition on_sessions :: "(session_row list \<Rightarrow> session_row list result) \<Rightarrow> (resume_db, unit) act" where
  "on_sessions f d = (case f (db_sessions d) of Inl e \<Rightarrow> (Inl e, d) | Inr t \<Rightarrow> (Inr (), d\<lparr>db_sessions := t\<rparr>))"

definition upsertPart :: "string \<Rightarrow> string \<Rightarrow> UploadResumePartRecord \<Rightarrow> (resume_db, unit) act" where
  "upsertPart now sid p = on_parts
     (sql_upsert parts_ok (step_failed ''upload_resume_parts'') parts_pk (set_part now p) (new_part now sid p))"

definition deletePartsByUploadSessionId :: "string \<Rightarrow> (resume_db, unit) act" where
  "deletePartsByUploadSessionId sid =
     on_parts (\<lambda>t. Inr (delete_where (\<lambda>r. pr_upload_session_id r = sid) t))"

definition deleteSessionByUploadSessionId :: "string \<Rightarrow> (resume_db, unit) act" where
  "deleteSessionByUploadSessionId sid =
     bindE (deletePartsByUploadSessionId sid) (\<lambda>_.
       on_sessions (\<lambda>t. Inr (delete_where (\<lambda>r. rs_uploadSessionId (ss_record r) = sid) t)))"

definition deleteSessionByLocalPath :: "string \<Rightarrow> (resume_db, unit) act" where
  "deleteSessionByLocalPath localPath =
     bindE (getsE (getSessionByLocalPath localPath)) (\<lambda>existing.
       case existing of None \<Rightarrow> returnE ()
       | Some s \<Rightarrow> deleteSessionByUploadSessionId (rs_uploadSessionId s))"

text \<open>The old session goes first, in a statement of its own; then the new one is inserted.\<close>

definition replaceSession :: "string \<Rightarrow> UploadResumeSessionRecord \<Rightarrow> (resume_db, unit) act" where
  "replaceSession now session =
     bindE (getsE (getSessionByLocalPath (rs_localPath session))) (\<lambda>existing.
     bindE (case existing of None \<Rightarrow> returnE ()
            | Some s \<Rightarrow> deleteSessionByUploadSessionId (rs_uploadSessionId s)) (\<lambda>_.
     on_sessions (sql_insert sessions_ok (step_failed ''upload_resume_sessions'')
       \<lparr>ss_record = session, ss_created_at = now, ss_updated_at = now\<rparr>)))"

section \<open>The invariant\<close>

text \<open>
  Besides the unique keys, the part numbers are values of a C++ \<open>int\<close>, so that reading them
  with \<open>sqlite3_column_int\<close> loses nothing.
\<close>

definition is_int32 :: "int \<Rightarrow> bool" where
  "is_int32 i \<longleftrightarrow> sint (word_of_int i :: 32 word) = i"

definition resume_inv :: "resume_db \<Rightarrow> bool" where
  "resume_inv d \<longleftrightarrow> sessions_ok (db_sessions d) \<and> parts_ok (db_parts d) \<and>
     (\<forall>r\<in>set (db_parts d). is_int32 (pr_part_number r))"

lemma resume_inv_start: "resume_inv \<lparr>db_sessions = [], db_parts = []\<rparr>"
  by (simp add: resume_inv_def sessions_ok_def parts_ok_def)

lemma sessions_ok_filter: "sessions_ok t \<Longrightarrow> sessions_ok (delete_where p t)"
  by (simp add: sessions_ok_def delete_where_def uniq_on_filter)

lemma keeps_resume [keeps_intros]:
  "keeps resume_inv (upsertPart now sid p)"
  "keeps resume_inv (deletePartsByUploadSessionId sid)"
  "keeps resume_inv (deleteSessionByUploadSessionId sid)"
  "keeps resume_inv (deleteSessionByLocalPath path)"
  "keeps resume_inv (replaceSession now session)"
proof -
  let ?int = "\<lambda>r. is_int32 (pr_part_number r)"
  have parts: "keeps resume_inv (on_parts f)"
    if r: "\<And>t t'. parts_ok t \<Longrightarrow> \<forall>r\<in>set t. ?int r \<Longrightarrow> f t = Inr t' \<Longrightarrow> parts_ok t' \<and> (\<forall>r\<in>set t'. ?int r)" for f
    using r by (auto simp: keeps_def on_parts_def resume_inv_def split: sum.splits)
  have sessions: "keeps resume_inv (on_sessions f)"
    if "\<And>t t'. sessions_ok t \<Longrightarrow> f t = Inr t' \<Longrightarrow> sessions_ok t'" for f
    using that by (auto simp: keeps_def on_sessions_def resume_inv_def split: sum.splits)
  show "keeps resume_inv (upsertPart now sid p)"
    unfolding upsertPart_def
    by (rule parts, erule sql_upsert_rows [where good = ?int])
      (auto simp: set_part_def new_part_def is_int32_def)
  show del: "keeps resume_inv (deletePartsByUploadSessionId sid)" for sid
    unfolding deletePartsByUploadSessionId_def
    by (rule parts) (auto simp: parts_ok_def delete_where_def uniq_on_filter)
  show del2: "keeps resume_inv (deleteSessionByUploadSessionId sid)" for sid
    unfolding deleteSessionByUploadSessionId_def
    by (intro keeps_bindE del sessions) (auto simp: sessions_ok_filter)
  show "keeps resume_inv (deleteSessionByLocalPath path)"
    unfolding deleteSessionByLocalPath_def by (intro keeps_intros del2)
  show "keeps resume_inv (replaceSession now session)"
    unfolding replaceSession_def
    by (intro keeps_intros del2 sessions) (auto simp: sql_insert_def split: if_splits)
qed

section \<open>Parts as a keyed store\<close>

definition lookupPart :: "resume_db \<Rightarrow> string \<times> 32 word \<Rightarrow> (string \<times> UploadResumePartRecord) option" where
  "lookupPart d k = map_option (\<lambda>r. (pr_upload_session_id r, readPartRecord r))
     (find_key parts_pk (fst k, sint (snd k)) (db_parts d))"

fun putPart :: "string \<Rightarrow> string \<times> UploadResumePartRecord \<Rightarrow> resume_db \<Rightarrow> resume_db" where
  "putPart now (sid, p) d = snd (upsertPart now sid p d)"

fun part_key :: "string \<times> UploadResumePartRecord \<Rightarrow> string \<times> 32 word" where
  "part_key (sid, p) = (sid, rp_partNumber p)"

lemma upsertPart_run:
  assumes "parts_ok (db_parts d)"
  shows "\<exists>t. upsertPart now sid p d = (Inr (), d\<lparr>db_parts := t\<rparr>) \<and> parts_ok t \<and>
    (\<forall>k. find_key parts_pk k t = (if k = (sid, sint (rp_partNumber p))
       then Some (case find_key parts_pk (sid, sint (rp_partNumber p)) (db_parts d) of
                    None \<Rightarrow> new_part now sid p | Some x \<Rightarrow> set_part now p x)
       else find_key parts_pk k (db_parts d)))"
proof -
  have ok: "parts_ok = uniq_on parts_pk" by (rule ext) (simp add: parts_ok_def)
  have new: "parts_pk (new_part now sid p) = Some (sid, sint (rp_partNumber p))"
    by (simp add: new_part_def parts_pk_def)
  have set: "parts_pk (set_part now p x) = parts_pk x" for x by (simp add: set_part_def parts_pk_def)
  from find_key_upsert [of parts_pk "db_parts d", OF _ new, of "set_part now p"] assms set
  obtain t where "sql_upsert parts_ok (step_failed ''upload_resume_parts'') parts_pk (set_part now p)
      (new_part now sid p) (db_parts d) = Inr t" and "parts_ok t" and
    "\<forall>k. find_key parts_pk k t = (if k = (sid, sint (rp_partNumber p))
       then Some (case find_key parts_pk (sid, sint (rp_partNumber p)) (db_parts d) of
                    None \<Rightarrow> new_part now sid p | Some x \<Rightarrow> set_part now p x)
       else find_key parts_pk k (db_parts d))"
    unfolding ok by blast
  then show ?thesis by (intro exI [of _ t]) (simp add: upsertPart_def on_parts_def)
qed

lemma read_written_part:
  "(\<lambda>r. (pr_upload_session_id r, readPartRecord r)) (new_part now sid p) = (sid, p)"
  "parts_pk x = Some (sid, sint (rp_partNumber p)) \<Longrightarrow>
    (\<lambda>r. (pr_upload_session_id r, readPartRecord r)) (set_part now p x) = (sid, p)"
  by (simp_all add: new_part_def readPartRecord_def set_part_def parts_pk_def)

interpretation resume_parts: keyed_store "\<lambda>d. parts_ok (db_parts d)" lookupPart "putPart now" part_key for now
proof
  fix d :: resume_db and v :: "string \<times> UploadResumePartRecord" and k :: "string \<times> 32 word"
  assume ok: "parts_ok (db_parts d)"
  obtain sid p where v: "v = (sid, p)" by (cases v)
  let ?key = "(sid, sint (rp_partNumber p))"
  obtain t where run: "upsertPart now sid p d = (Inr (), d\<lparr>db_parts := t\<rparr>)" and t: "parts_ok t"
    and find: "\<forall>k. find_key parts_pk k t = (if k = ?key
       then Some (case find_key parts_pk ?key (db_parts d) of
                    None \<Rightarrow> new_part now sid p | Some x \<Rightarrow> set_part now p x)
       else find_key parts_pk k (db_parts d))"
    using upsertPart_run [OF ok] by blast
  show "parts_ok (db_parts (putPart now v d))" using run t by (simp add: v)
  obtain s n where k: "k = (s, n)" by (cases k)
  have inj: "sint n = sint (rp_partNumber p) \<longleftrightarrow> n = rp_partNumber p" by (auto dest: signed_word_eqI)
  show "lookupPart (putPart now v d) k = (if k = part_key v then Some v else lookupPart d k)"
    using find_key_Some [of parts_pk ?key "db_parts d"] read_written_part [where now = now and sid = sid and p = p]
    by (auto simp: lookupPart_def v k run find inj split: option.splits)
qed

section \<open>Replacing a session\<close>

lemma find_path:
  "getSessionByLocalPath path d = map_option ss_record (find_key sessions_local_path path (db_sessions d))"
  by (simp add: getSessionByLocalPath_def find_key_def sessions_local_path_def)

lemma deleteSession_run:
  "deleteSessionByUploadSessionId sid d = (Inr (),
     d\<lparr>db_parts := delete_where (\<lambda>r. pr_upload_session_id r = sid) (db_parts d),
       db_sessions := delete_where (\<lambda>r. rs_uploadSessionId (ss_record r) = sid) (db_sessions d)\<rparr>)"
  by (simp add: deleteSessionByUploadSessionId_def deletePartsByUploadSessionId_def on_parts_def
      on_sessions_def act_simps)

text \<open>What is left once the session of a path is gone: the sessions of other paths.\<close>

definition without_path :: "string \<Rightarrow> session_row list \<Rightarrow> session_row list" where
  "without_path path t = filter (\<lambda>r. rs_localPath (ss_record r) \<noteq> path) t"

definition old_session :: "string \<Rightarrow> resume_db \<Rightarrow> string option" where
  "old_session path d = map_option rs_uploadSessionId (getSessionByLocalPath path d)"

lemma replaceSession_run:
  assumes inv: "resume_inv d"
  shows "replaceSession now session d =
    on_sessions (sql_insert sessions_ok (step_failed ''upload_resume_sessions'')
       \<lparr>ss_record = session, ss_created_at = now, ss_updated_at = now\<rparr>)
     (d\<lparr>db_parts := filter (\<lambda>r. Some (pr_upload_session_id r) \<noteq> old_session (rs_localPath session) d) (db_parts d),
        db_sessions := without_path (rs_localPath session) (db_sessions d)\<rparr>)"
proof (cases "find_key sessions_local_path (rs_localPath session) (db_sessions d)")
  case None
  then have "without_path (rs_localPath session) (db_sessions d) = db_sessions d"
    by (auto simp: without_path_def find_key_None has_key_def sessions_local_path_def filter_id_conv)
  moreover have "getSessionByLocalPath (rs_localPath session) d = None" using None by (simp add: find_path)
  ultimately show ?thesis by (simp add: replaceSession_def act_simps old_session_def)
next
  case (Some r)
  let ?t = "db_sessions d"
  have r: "r \<in> set ?t" "rs_localPath (ss_record r) = rs_localPath session"
    using find_key_Some [OF Some] by (auto simp: sessions_local_path_def)
  have uniq: "uniq_on sessions_local_path ?t" "uniq_on sessions_upload_id ?t"
    using inv by (auto simp: resume_inv_def sessions_ok_def)
  have "rs_uploadSessionId (ss_record x) = rs_uploadSessionId (ss_record r) \<longleftrightarrow>
        rs_localPath (ss_record x) = rs_localPath session" if x: "x \<in> set ?t" for x
  proof -
    have "x = r" if "rs_uploadSessionId (ss_record x) = rs_uploadSessionId (ss_record r)"
      by (rule uniq_onD [OF uniq(2) x r(1)]) (auto simp: sessions_upload_id_def that)
    moreover have "x = r" if "rs_localPath (ss_record x) = rs_localPath session"
      by (rule uniq_onD [OF uniq(1) x r(1)]) (auto simp: sessions_local_path_def that r)
    ultimately show ?thesis using r(2) by metis
  qed
  then have "delete_where (\<lambda>x. rs_uploadSessionId (ss_record x) = rs_uploadSessionId (ss_record r)) ?t =
      without_path (rs_localPath session) ?t"
    by (auto simp: delete_where_def without_path_def intro!: filter_cong)
  moreover have "getSessionByLocalPath (rs_localPath session) d = Some (ss_record r)" using Some by (simp add: find_path)
  ultimately show ?thesis
    by (simp add: replaceSession_def act_simps deleteSession_run old_session_def delete_where_def)
qed

lemma filter_distinct_parts:
  assumes "uniq_on parts_pk t"
  shows "distinct (map pr_part_number (filter (\<lambda>r. pr_upload_session_id r = sid) t))"
  using assms by (induction t) (auto simp: uniq_on_Cons has_key_def parts_pk_def)

text \<open>A database with the sessions of two files, for the examples below.\<close>

definition sample_session :: "string \<Rightarrow> string \<Rightarrow> string \<Rightarrow> UploadResumeSessionRecord" where
  "sample_session ident path sid =
     \<lparr>rs_id = ident, rs_entryId = None, rs_localPath = path, rs_localSize = 10, rs_localMtime = None,
      rs_localHash = None, rs_folderId = None, rs_vaultId = ''v'', rs_fileId = ''f'',
      rs_uploadSessionId = sid, rs_providerUploadId = ''p'', rs_fileChunkSize = 4, rs_totalChunks = 3,
      rs_uploadPartSize = 8, rs_uploadPartCount = 2, rs_encryptedFileKeyBlob = ''k''\<rparr>"

definition sample_db :: resume_db where
  "sample_db = \<lparr>db_sessions =
      [\<lparr>ss_record = sample_session ''1'' ''/a'' ''s1'', ss_created_at = ''t'', ss_updated_at = ''t''\<rparr>,
       \<lparr>ss_record = sample_session ''2'' ''/b'' ''s2'', ss_created_at = ''t'', ss_updated_at = ''t''\<rparr>],
     db_parts = []\<rparr>"

lemma sample_db_inv: "resume_inv sample_db"
  by (simp add: resume_inv_def sample_db_def sessions_ok_def parts_ok_def uniq_on_Cons has_key_def
      sessions_pk_def sessions_local_path_def sessions_upload_id_def sample_session_def)

section \<open>Properties\<close>

text \<open>
  Recorded parts can be resumed from: \<open>upsertPart\<close> never fails, afterwards the part of
  that session and number is the one just written and every other part is as before, and
  parts with different numbers may be written in either order. This is what lets the part
  workers record their parts as they finish.
\<close>

theorem upsert_part_round_trip:
  assumes "parts_ok (db_parts d)"
  shows "fst (upsertPart now sid p d) = Inr () \<and>
    (\<forall>sid' n. lookupPart (snd (upsertPart now sid p d)) (sid', n) =
      (if sid' = sid \<and> n = rp_partNumber p then Some (sid, p) else lookupPart d (sid', n))) \<and>
    (\<forall>q. rp_partNumber p \<noteq> rp_partNumber q \<longrightarrow>
      lookupPart (snd (upsertPart now sid p (snd (upsertPart now sid q d)))) =
      lookupPart (snd (upsertPart now sid q (snd (upsertPart now sid p d)))))"
proof (intro conjI allI impI)
  show "fst (upsertPart now sid p d) = Inr ()"
    using upsertPart_run [OF assms, of now sid p] by auto
  show "lookupPart (snd (upsertPart now sid p d)) (sid', n) =
      (if sid' = sid \<and> n = rp_partNumber p then Some (sid, p) else lookupPart d (sid', n))" for sid' n
    using resume_parts.lookup_put [OF assms, of now "(sid, p)" "(sid', n)"] by simp
  show "lookupPart (snd (upsertPart now sid p (snd (upsertPart now sid q d)))) =
      lookupPart (snd (upsertPart now sid q (snd (upsertPart now sid p d))))"
    if "rp_partNumber p \<noteq> rp_partNumber q" for q
    using resume_parts.put_commute [OF assms, of "(sid, p)" "(sid, q)" now] that by simp
qed

theorem upsert_part_round_trip_witness:
  "lookupPart (snd (upsertPart ''1'' ''s''
     \<lparr>rp_partNumber = 1, rp_etag = ''e'', rp_uploadHash = ''h'', rp_chunkManifestJson = ''[]'',
      rp_combinedChunkHashes = ''x''\<rparr> \<lparr>db_sessions = [], db_parts = []\<rparr>)) (''s'', 1) \<noteq> None"
proof -
  have "parts_ok (db_parts \<lparr>db_sessions = [], db_parts = []\<rparr>)" by (simp add: parts_ok_def)
  from upsert_part_round_trip [OF this] show ?thesis by simp
qed

text \<open>
  \<open>listParts\<close> hands the parts of a session to the finalizer in strictly increasing
  order of their numbers, and the list holds exactly what lookups of that session's parts
  find.
\<close>

theorem list_parts_ordered:
  assumes "resume_inv d"
  shows "sorted_wrt (\<lambda>p q. sint (rp_partNumber p) < sint (rp_partNumber q)) (listParts sid d) \<and>
    (\<forall>p. p \<in> set (listParts sid d) \<longleftrightarrow> lookupPart d (sid, rp_partNumber p) = Some (sid, p))"
proof (intro conjI allI iffI)
  let ?rows = "select_ordered pr_part_number (\<lambda>r. pr_upload_session_id r = sid) (db_parts d)"
  have uniq: "uniq_on parts_pk (db_parts d)" and int: "\<forall>r\<in>set (db_parts d). is_int32 (pr_part_number r)"
    using assms by (auto simp: resume_inv_def parts_ok_def)
  then have num: "sint (rp_partNumber (readPartRecord r)) = pr_part_number r" if "r \<in> set (db_parts d)" for r
    using that by (auto simp: readPartRecord_def is_int32_def)
  have "sorted_wrt (\<lambda>r s. pr_part_number r < pr_part_number s) ?rows"
    using strict_select_ordered [OF filter_distinct_parts [OF uniq], of sid] by (simp add: sorted_wrt_map)
  then show "sorted_wrt (\<lambda>p q. sint (rp_partNumber p) < sint (rp_partNumber q)) (listParts sid d)"
    unfolding listParts_def sorted_wrt_map by (rule sorted_wrt_mono_rel [rotated]) (simp add: num)
  show "lookupPart d (sid, rp_partNumber p) = Some (sid, p)" if mem: "p \<in> set (listParts sid d)" for p
  proof -
    obtain r where r: "r \<in> set (db_parts d)" "pr_upload_session_id r = sid" "p = readPartRecord r"
      using mem by (auto simp: listParts_def)
    then have "parts_pk r = Some (sid, sint (rp_partNumber p))" using num by (simp add: parts_pk_def)
    then show ?thesis using find_key_uniq [OF uniq r(1)] r by (simp add: lookupPart_def)
  qed
  show "p \<in> set (listParts sid d)" if look: "lookupPart d (sid, rp_partNumber p) = Some (sid, p)" for p
  proof -
    obtain r where "find_key parts_pk (sid, sint (rp_partNumber p)) (db_parts d) = Some r"
        and "pr_upload_session_id r = sid" and "readPartRecord r = p"
      using look by (auto simp: lookupPart_def)
    then show ?thesis using find_key_Some by (fastforce simp: listParts_def)
  qed
qed

theorem list_parts_ordered_witness:
  "listParts ''s'' \<lparr>db_sessions = [], db_parts =
      [new_part ''1'' ''s'' \<lparr>rp_partNumber = 2, rp_etag = ''e'', rp_uploadHash = ''h'',
         rp_chunkManifestJson = ''[]'', rp_combinedChunkHashes = ''x''\<rparr>]\<rparr> \<noteq> []"
proof -
  let ?p = "\<lparr>rp_partNumber = 2, rp_etag = ''e'', rp_uploadHash = ''h'',
         rp_chunkManifestJson = ''[]'', rp_combinedChunkHashes = ''x''\<rparr>"
  let ?d = "\<lparr>db_sessions = [], db_parts = [new_part ''1'' ''s'' ?p]\<rparr>"
  have "resume_inv ?d"
    by (simp add: resume_inv_def sessions_ok_def parts_ok_def uniq_on_Cons has_key_def is_int32_def new_part_def)
  moreover have "lookupPart ?d (''s'', rp_partNumber ?p) = Some (''s'', ?p)"
    by (simp add: lookupPart_def find_key_def new_part_def parts_pk_def readPartRecord_def)
  ultimately have "?p \<in> set (listParts ''s'' ?d)" using list_parts_ordered by blast
  then show ?thesis by auto
qed

text \<open>
  \<open>replaceSession\<close> with fresh identifiers: the file's session is the new one, the old
  session's recorded parts are gone, and the sessions of other files and their parts are
  untouched.
\<close>

theorem replace_session:
  assumes inv: "resume_inv d"
    and fresh: "\<forall>r\<in>set (db_sessions d). rs_localPath (ss_record r) \<noteq> rs_localPath session \<longrightarrow>
      rs_id (ss_record r) \<noteq> rs_id session \<and> rs_uploadSessionId (ss_record r) \<noteq> rs_uploadSessionId session"
  shows "\<exists>d'. replaceSession now session d = (Inr (), d') \<and> resume_inv d' \<and>
    (\<forall>path. getSessionByLocalPath path d' =
       (if path = rs_localPath session then Some session else getSessionByLocalPath path d)) \<and>
    (\<forall>sid. listParts sid d' =
       (if old_session (rs_localPath session) d = Some sid then [] else listParts sid d))"
proof -
  let ?row = "\<lparr>ss_record = session, ss_created_at = now, ss_updated_at = now\<rparr>"
  let ?path = "rs_localPath session"
  let ?t = "without_path ?path (db_sessions d)"
  let ?d = "d\<lparr>db_parts := filter (\<lambda>r. Some (pr_upload_session_id r) \<noteq> old_session ?path d) (db_parts d),
              db_sessions := ?t @ [?row]\<rparr>"
  have ok: "sessions_ok (?t @ [?row])"
    using inv fresh
    by (auto simp: resume_inv_def sessions_ok_def without_path_def uniq_on_snoc uniq_on_filter has_key_def
        sessions_pk_def sessions_local_path_def sessions_upload_id_def)
  then have run: "replaceSession now session d = (Inr (), ?d)"
    by (simp add: replaceSession_run [OF inv] on_sessions_def sql_insert_def)
  have "resume_inv (snd (replaceSession now session d))" using keeps_resume(5) inv by (rule keepsD)
  moreover have "getSessionByLocalPath path ?d = (if path = ?path then Some session else getSessionByLocalPath path d)" for path
    by (auto simp: getSessionByLocalPath_def without_path_def filter_empty_conv intro!: arg_cong [of _ _ "\<lambda>t. map_option ss_record (limit1 t)"] filter_cong)
  moreover have "listParts sid ?d = (if old_session ?path d = Some sid then [] else listParts sid d)" for sid
    by (auto simp: listParts_def select_ordered_def filter_empty_conv intro!: arg_cong [of _ _ "\<lambda>t. map readPartRecord (sort_key pr_part_number t)"] filter_cong)
  ultimately show ?thesis using run by simp
qed

theorem replace_session_witness:
  "\<exists>d'. replaceSession ''t'' (sample_session ''3'' ''/a'' ''s3'') sample_db = (Inr (), d') \<and>
     getSessionByLocalPath ''/a'' d' = Some (sample_session ''3'' ''/a'' ''s3'')"
proof -
  let ?s = "sample_session ''3'' ''/a'' ''s3''"
  have "\<forall>r\<in>set (db_sessions sample_db). rs_localPath (ss_record r) \<noteq> rs_localPath ?s \<longrightarrow>
      rs_id (ss_record r) \<noteq> rs_id ?s \<and> rs_uploadSessionId (ss_record r) \<noteq> rs_uploadSessionId ?s"
    by (simp add: sample_db_def sample_session_def)
  from replace_session [OF sample_db_inv this, of "''t''"] obtain d'
    where run: "replaceSession ''t'' ?s sample_db = (Inr (), d')"
      and get: "\<forall>path. getSessionByLocalPath path d' =
        (if path = rs_localPath ?s then Some ?s else getSessionByLocalPath path sample_db)"
    by blast
  have "getSessionByLocalPath ''/a'' d' = Some ?s" unfolding get [rule_format] by (simp add: sample_session_def)
  with run show ?thesis by blast
qed

text \<open>
  \<open>replaceSession\<close> is not atomic: the old session is deleted in a statement of its own.
  When another file's row already has the new identifier, the insertion is refused, the
  call throws, and the old session of the file and all its recorded parts are lost.
\<close>

theorem replace_session_not_atomic:
  assumes inv: "resume_inv d"
    and taken: "r \<in> set (db_sessions d)" "rs_localPath (ss_record r) \<noteq> rs_localPath session"
      "rs_id (ss_record r) = rs_id session"
  shows "\<exists>e d'. replaceSession now session d = (Inl e, d') \<and>
    getSessionByLocalPath (rs_localPath session) d' = None \<and>
    (\<forall>sid. old_session (rs_localPath session) d = Some sid \<longrightarrow> listParts sid d' = [])"
proof -
  let ?row = "\<lparr>ss_record = session, ss_created_at = now, ss_updated_at = now\<rparr>"
  let ?t = "without_path (rs_localPath session) (db_sessions d)"
  have "r \<in> set ?t" using taken by (simp add: without_path_def)
  then have "has_key sessions_pk (rs_id session) ?t"
    using taken(3) by (auto simp: has_key_def sessions_pk_def)
  then have "\<not> sessions_ok (?t @ [?row])" by (auto simp: sessions_ok_def uniq_on_snoc sessions_pk_def)
  then show ?thesis
    by (simp add: replaceSession_run [OF inv] on_sessions_def sql_insert_def getSessionByLocalPath_def
        without_path_def filter_empty_conv listParts_def select_ordered_def)
qed

theorem replace_session_not_atomic_witness:
  "\<exists>e d'. replaceSession ''t'' (sample_session ''2'' ''/a'' ''s3'') sample_db = (Inl e, d') \<and>
     getSessionByLocalPath ''/a'' d' = None \<and> getSessionByLocalPath ''/a'' sample_db \<noteq> None"
proof -
  let ?r = "\<lparr>ss_record = sample_session ''2'' ''/b'' ''s2'', ss_created_at = ''t'', ss_updated_at = ''t''\<rparr>"
  have "\<exists>e d'. replaceSession ''t'' (sample_session ''2'' ''/a'' ''s3'') sample_db = (Inl e, d') \<and>
     getSessionByLocalPath (rs_localPath (sample_session ''2'' ''/a'' ''s3'')) d' = None \<and>
     (\<forall>sid. old_session (rs_localPath (sample_session ''2'' ''/a'' ''s3'')) sample_db = Some sid \<longrightarrow>
        listParts sid d' = [])"
    by (rule replace_session_not_atomic [OF sample_db_inv, of ?r])
      (simp_all add: sample_db_def sample_session_def)
  then show ?thesis by (auto simp: sample_session_def sample_db_def getSessionByLocalPath_def)
qed

end
