(* ===== verification/Upload_Service.thy ===== *)
theory Upload_Service
  imports Upload_Resume_Repo Upload_Jobs Download
begin

text \<open>
  \<open>UploadService\<close> (service/UploadService.cpp): uploads of single files, which go on where an earlier
  attempt was interrupted, and of batches of files.

  The service keeps the tables of interrupted uploads, the limits of the server once they are
  known and, in this model, a counter for clock readings and file keys. The requests to the
  server act on its state; the answers to the requests for the parts of one file are those of the
  server at that moment. How the threads of \<open>uploadParts\<close> are scheduled is a parameter: any run
  of the step relation of Multipart_Uploader in which all threads end. The files are not changed
  while the service works.
\<close>

section \<open>Requests\<close>

record UploadLimitsResponse =
  ul_maxQueueItems :: "32 word"
  ul_partConcurrency :: "32 word"
  ul_staleUploadHours :: "32 word"

record StartUploadRequest =
  sq_originalSize :: "64 word"
  sq_fileChunkSize :: "64 word"
  sq_totalChunks :: "32 word"
  sq_uploadPartSize :: "64 word"
  sq_uploadPartCount :: "32 word"
  sq_encryptionVersion :: "16 word"
  sq_folderId :: "string option"
  sq_singlePart :: bool

record BatchStartUploadRequest =
  bs_clientId :: string
  bs_request :: StartUploadRequest

record BatchStartUploadResult =
  bsr_clientId :: string
  bsr_upload :: "StartUploadResponse option"
  bsr_error :: string
  bsr_validationErrors :: "(string \<times> string) list"

record BatchCompleteUploadRequest =
  bc_clientId :: string
  bc_uploadSessionId :: string
  bc_request :: UploadCompleteRequest

record BatchCompleteUploadResult =
  bcr_clientId :: string
  bcr_completed :: bool
  bcr_error :: string

section \<open>State and environment\<close>

record 'srv upload_world =
  uw_server :: 'srv
  uw_resume :: resume_db
  uw_limits :: "UploadLimitsResponse option"
  uw_tick :: nat

type_synonym ('srv, 'a) upload_act = "('srv upload_world, 'a) act"

text \<open>The answers of the server and the storage to the requests for one file.\<close>

record storage_api =
  sa_presignSingleUpload :: "string \<Rightarrow> string result"
  sa_presignParts :: "string \<Rightarrow> 32 word list \<Rightarrow> (32 word \<rightharpoonup> string) result"
  sa_putEncryptedPartToStorage :: "string \<Rightarrow> bytes \<Rightarrow> string result"
  sa_uploadPart :: "string \<Rightarrow> UploadPartRequest \<Rightarrow> unit result"
  sa_presignThumbnail :: "string \<Rightarrow> PresignThumbnailRequest \<Rightarrow> string result"

text \<open>
  The libraries, the keys and the server. \<open>se_received\<close> is what the requests for the given parts
  leave on the server, \<open>se_schedule\<close> the state in which the threads end.
\<close>

record 'srv service_env =
  se_clocks :: clocks
  se_cwd :: string
  se_crypto :: crypto_lib
  se_masterKey :: "bytes result"
  se_generateFileKey :: "nat \<Rightarrow> bytes result"
  se_dump :: "json \<Rightarrow> string result"
  se_parse :: "string \<Rightarrow> json result"
  se_details :: "string \<Rightarrow> FileMimeDetails"
  se_thumbnail :: "string \<Rightarrow> UploadThumbnail option result"
  se_uploadLimits :: "('srv, UploadLimitsResponse) act"
  se_startUpload :: "StartUploadRequest \<Rightarrow> ('srv, StartUploadResponse) act"
  se_startUploadBatch :: "BatchStartUploadRequest list \<Rightarrow> ('srv, BatchStartUploadResult list) act"
  se_uploadComplete :: "string \<Rightarrow> UploadCompleteRequest \<Rightarrow> ('srv, unit) act"
  se_uploadCompleteBatch :: "BatchCompleteUploadRequest list \<Rightarrow> ('srv, BatchCompleteUploadResult list) act"
  se_storage :: "'srv \<Rightarrow> storage_api"
  se_received :: "StartUploadResponse \<Rightarrow> UploadedPartResult list \<Rightarrow> 'srv \<Rightarrow> 'srv"
  se_schedule :: "upload_env \<Rightarrow> UploadedPartResult list \<Rightarrow> nat \<Rightarrow> up_state"

definition onServerW :: "('srv, 'a) act \<Rightarrow> ('srv, 'a) upload_act" where
  "onServerW m w = (case m (uw_server w) of (x, s) \<Rightarrow> (x, w\<lparr>uw_server := s\<rparr>))"

definition onResume :: "(resume_db, 'a) act \<Rightarrow> ('srv, 'a) upload_act" where
  "onResume m w = (case m (uw_resume w) of (x, d) \<Rightarrow> (x, w\<lparr>uw_resume := d\<rparr>))"

text \<open>An action that draws the next number.\<close>

definition ticked :: "(nat \<Rightarrow> ('srv, 'a) upload_act) \<Rightarrow> ('srv, 'a) upload_act" where
  "ticked f w = f (uw_tick w) (w\<lparr>uw_tick := Suc (uw_tick w)\<rparr>)"

section \<open>Sessions and parts\<close>

definition shouldResetResumeSession :: "exn \<Rightarrow> bool" where
  "shouldResetResumeSession error = (case error of Http_error status _ \<Rightarrow> status = 404 \<or> status = 409 | _ \<Rightarrow> False)"

definition sessionMatchesEntry ::
    "UploadResumeSessionRecord \<Rightarrow> Entry \<Rightarrow> string \<Rightarrow> 64 word \<Rightarrow> string option \<Rightarrow> UploadPlan \<Rightarrow> bool" where
  "sessionMatchesEntry session entry localPath localSize localMtime plan =
     (if rs_localPath session \<noteq> localPath \<or> rs_localSize session \<noteq> localSize then False
      else if rs_folderId session \<noteq> e_parentFolderId entry then False
      else if rs_fileChunkSize session \<noteq> fileChunkSize plan \<or> rs_totalChunks session \<noteq> ucast (totalChunks plan) \<or>
           rs_uploadPartSize session \<noteq> uploadPartSize plan \<or> rs_uploadPartCount session \<noteq> ucast (uploadPartCount plan)
      then False
      else if rs_localHash session \<noteq> None \<and> e_contentHash entry \<noteq> None
      then rs_localHash session = e_contentHash entry
      else rs_localMtime session = localMtime)"

definition makeResumePartRecord :: "'srv service_env \<Rightarrow> UploadedPartResult \<Rightarrow> UploadResumePartRecord result" where
  "makeResumePartRecord se part =
     bindR (se_dump se (JArray (map chunkJson (up_chunks part)))) (\<lambda>chunks.
       Inr \<lparr>rp_partNumber = ucast (partNumber (up_plan part)), rp_etag = up_etag part, rp_uploadHash = up_uploadHash part,
            rp_chunkManifestJson = chunks, rp_combinedChunkHashes = encodeBase64 (up_combinedChunkHashes part)\<rparr>)"

text \<open>\<open>json.at(key)\<close>: on an object that has the key only.\<close>

definition json_at :: "json \<Rightarrow> string \<Rightarrow> json result" where
  "json_at j key =
     (case j of
        JObject kvs \<Rightarrow> (case map_of kvs key of None \<Rightarrow> Inl (Json_error ''key not found'') | Some v \<Rightarrow> Inr v)
      | _ \<Rightarrow> Inl (Json_error ''cannot use at()''))"

definition readChunk :: "json \<Rightarrow> EncryptedChunkResult result" where
  "readChunk chunk =
     bindR (bindR (json_at chunk ''n'') get_u64) (\<lambda>n.
     bindR (bindR (json_at chunk ''plain_size'') get_u64) (\<lambda>plain.
     bindR (bindR (json_at chunk ''cipher_size'') get_u64) (\<lambda>cipher.
     bindR (bindR (json_at chunk ''hash'') get_string) (\<lambda>hash.
       Inr \<lparr>ec_chunkNumber = n, ec_plaintextSize = plain, ec_ciphertextSize = cipher, ec_encryptedHash = hash\<rparr>))))"

fun readChunkList :: "json list \<Rightarrow> EncryptedChunkResult list result" where
  "readChunkList [] = Inr []"
| "readChunkList (j # js) = bindR (readChunk j) (\<lambda>c. bindR (readChunkList js) (\<lambda>cs. Inr (c # cs)))"

definition readUploadedPartResult ::
    "'srv service_env \<Rightarrow> UploadPlan \<Rightarrow> UploadResumePartRecord \<Rightarrow> UploadedPartResult result" where
  "readUploadedPartResult se plan record =
     bindR (decodeBase64 (rp_combinedChunkHashes record)) (\<lambda>hashes.
     bindR (se_parse se (rp_chunkManifestJson record)) (\<lambda>j. case j of
       JArray js \<Rightarrow> bindR (readChunkList js) (\<lambda>chunks.
         Inr \<lparr>up_plan = makePartPlan (scast (rp_partNumber record)) plan, up_chunks = chunks,
              up_uploadHash = rp_uploadHash record, up_etag = rp_etag record, up_combinedChunkHashes = hashes\<rparr>)
     | _ \<Rightarrow> Inl (Runtime_error ''resume chunk manifest must be an array'')))"

fun readParts :: "'srv service_env \<Rightarrow> UploadPlan \<Rightarrow> UploadResumePartRecord list \<Rightarrow> UploadedPartResult list result" where
  "readParts se plan [] = Inr []"
| "readParts se plan (r # rs) =
     bindR (readUploadedPartResult se plan r) (\<lambda>p. bindR (readParts se plan rs) (\<lambda>ps. Inr (p # ps)))"

definition startResponseFromSession :: "UploadResumeSessionRecord \<Rightarrow> StartUploadResponse" where
  "startResponseFromSession session =
     \<lparr>su_fileId = rs_fileId session, su_vaultId = rs_vaultId session, su_uploadSessionId = rs_uploadSessionId session,
      su_providerUploadId = rs_providerUploadId session, su_fileChunkSize = rs_fileChunkSize session,
      su_totalChunks = rs_totalChunks session, su_uploadPartSize = rs_uploadPartSize session,
      su_uploadPartCount = rs_uploadPartCount session, su_uploadUrl = []\<rparr>"

definition encryptResumeFileKey :: "'srv service_env \<Rightarrow> bytes \<Rightarrow> string \<Rightarrow> bytes result" where
  "encryptResumeFileKey se fileKey uploadSessionId =
     (if fileKey = [] then Inl (Invalid_argument ''fileKey cannot be empty'')
      else bindR (se_masterKey se) (\<lambda>mk.
        lib_encryptChunk (se_crypto se) mk (toBytes (makeResumeFileKey uploadSessionId)) fileKey))"

definition decryptResumeFileKey :: "'srv service_env \<Rightarrow> bytes \<Rightarrow> string \<Rightarrow> bytes result" where
  "decryptResumeFileKey se blob uploadSessionId =
     (if blob = [] then Inl (Invalid_argument ''encryptedFileKeyBlob cannot be empty'')
      else bindR (se_masterKey se) (\<lambda>mk.
        lib_decryptChunk (se_crypto se) mk (toBytes (makeResumeFileKey uploadSessionId)) blob))"

definition startRequest :: "UploadPlan \<Rightarrow> string option \<Rightarrow> StartUploadRequest" where
  "startRequest plan folderId =
     \<lparr>sq_originalSize = originalSize plan, sq_fileChunkSize = fileChunkSize plan, sq_totalChunks = ucast (totalChunks plan),
      sq_uploadPartSize = uploadPartSize plan, sq_uploadPartCount = ucast (uploadPartCount plan),
      sq_encryptionVersion = 1, sq_folderId = folderId, sq_singlePart = (totalChunks plan = 1)\<rparr>"

definition sessionRecord ::
    "StartUploadResponse \<Rightarrow> Entry \<Rightarrow> string \<Rightarrow> 64 word \<Rightarrow> string option \<Rightarrow> bytes \<Rightarrow> UploadResumeSessionRecord" where
  "sessionRecord started entry localPath localSize localMtime blob =
     \<lparr>rs_id = su_uploadSessionId started, rs_entryId = Some (e_id entry), rs_localPath = localPath,
      rs_localSize = localSize, rs_localMtime = localMtime, rs_localHash = e_contentHash entry,
      rs_folderId = e_parentFolderId entry, rs_vaultId = su_vaultId started, rs_fileId = su_fileId started,
      rs_uploadSessionId = su_uploadSessionId started, rs_providerUploadId = su_providerUploadId started,
      rs_fileChunkSize = su_fileChunkSize started, rs_totalChunks = su_totalChunks started,
      rs_uploadPartSize = su_uploadPartSize started, rs_uploadPartCount = su_uploadPartCount started,
      rs_encryptedFileKeyBlob = encodeBase64 blob\<rparr>"

section \<open>One file\<close>

definition uploadLimits :: "'srv service_env \<Rightarrow> ('srv, UploadLimitsResponse) upload_act" where
  "uploadLimits se =
     bindE (getsE uw_limits) (\<lambda>cached. case cached of
       Some limits \<Rightarrow> returnE limits
     | None \<Rightarrow> bindE (onServerW (se_uploadLimits se)) (\<lambda>limits w. (Inr limits, w\<lparr>uw_limits := Some limits\<rparr>)))"

definition readContent :: "string \<Rightarrow> files \<Rightarrow> bytes option" where
  "readContent path fs = (case fs_at fs path of Some (File bs _) \<Rightarrow> Some bs | _ \<Rightarrow> None)"

text \<open>The callback saves the part; it throws when the part cannot be written down.\<close>

definition uploadEnv ::
    "'srv service_env \<Rightarrow> files \<Rightarrow> string \<Rightarrow> bytes \<Rightarrow> StartUploadResponse \<Rightarrow> UploadPlan \<Rightarrow> 'srv \<Rightarrow> upload_env" where
  "uploadEnv se fs path fileKey started plan srv =
     \<lparr>ue_crypto = se_crypto se, ue_path = readContent path fs, ue_fileKey = fileKey, ue_started = started, ue_plan = plan,
      api_presignSingleUpload = sa_presignSingleUpload (se_storage se srv),
      api_presignParts = sa_presignParts (se_storage se srv),
      api_putEncryptedPartToStorage = sa_putEncryptedPartToStorage (se_storage se srv),
      api_uploadPart = sa_uploadPart (se_storage se srv),
      onPartUploaded = \<lambda>part. bindR (makeResumePartRecord se part) (\<lambda>_. Inr ())\<rparr>"

definition savePart :: "'srv service_env \<Rightarrow> StartUploadResponse \<Rightarrow> UploadedPartResult \<Rightarrow> ('srv, unit) upload_act" where
  "savePart se started part =
     (if su_providerUploadId started = [] then returnE ()
      else ticked (\<lambda>n. bindE (liftE (\<lambda>_. makeResumePartRecord se part)) (\<lambda>record.
        onResume (upsertPart (clock (se_clocks se) n) (su_uploadSessionId started) record))))"

text \<open>
  \<open>uploadParts\<close> with its callback. A part that was sent is saved even when another one fails.
\<close>

definition uploadParts ::
    "'srv service_env \<Rightarrow> files \<Rightarrow> string \<Rightarrow> bytes \<Rightarrow> StartUploadResponse \<Rightarrow> UploadPlan \<Rightarrow> 64 word \<Rightarrow>
     UploadedPartResult list \<Rightarrow> ('srv, UploadedPartResult list) upload_act" where
  "uploadParts se fs path fileKey started plan partConcurrency completedParts w =
     (let env = uploadEnv se fs path fileKey started plan (uw_server w) in
      case initialParts env completedParts of
        Inl e \<Rightarrow> (Inl e, w)
      | Inr init \<Rightarrow>
          let s = se_schedule se env init (unat partConcurrency);
              sent = map (\<lambda>n. uploadedParts s ! (n - 1)) (rev (sentParts s)) in
          bindE (forE sent (savePart se started)) (\<lambda>_.
          bindE (onServerW (\<lambda>srv. (Inr (), se_received se started sent srv))) (\<lambda>_.
            liftE (\<lambda>_. uploadResult s))) w)"

definition finalizerEnv :: "'srv service_env \<Rightarrow> string \<Rightarrow> 'srv \<Rightarrow> finalizer_env" where
  "finalizerEnv se path srv =
     \<lparr>fe_crypto = se_crypto se, fe_masterKey = se_masterKey se, fe_dump = se_dump se, fe_details = se_details se path,
      fe_thumbnail = se_thumbnail se path, fe_presignThumbnail = sa_presignThumbnail (se_storage se srv),
      fe_putEncryptedPartToStorage = sa_putEncryptedPartToStorage (se_storage se srv)\<rparr>"

definition prepareCompletionW ::
    "'srv service_env \<Rightarrow> string \<Rightarrow> Entry \<Rightarrow> StartUploadResponse \<Rightarrow> UploadPlan \<Rightarrow> UploadedPartResult list \<Rightarrow> bytes \<Rightarrow>
     ('srv, UploadArtifacts \<times> UploadCompleteRequest) upload_act" where
  "prepareCompletionW se path entry started plan parts fileKey =
     liftE (\<lambda>w. prepareCompletion (finalizerEnv se path (uw_server w)) (e_size entry) started plan parts fileKey)"

definition completeUpload ::
    "'srv service_env \<Rightarrow> string \<Rightarrow> Entry \<Rightarrow> StartUploadResponse \<Rightarrow> UploadPlan \<Rightarrow> UploadedPartResult list \<Rightarrow> bytes \<Rightarrow>
     ('srv, UploadArtifacts) upload_act" where
  "completeUpload se path entry started plan parts fileKey =
     bindE (prepareCompletionW se path entry started plan parts fileKey) (\<lambda>(artifacts, request).
     bindE (onServerW (se_uploadComplete se (su_uploadSessionId started) request)) (\<lambda>_.
       returnE artifacts))"

text \<open>What is known of the session that matches: the answer to its start, the parts and the key.\<close>

definition resumeUpload ::
    "'srv service_env \<Rightarrow> UploadPlan \<Rightarrow> UploadResumeSessionRecord \<Rightarrow>
     ('srv, StartUploadResponse \<times> UploadedPartResult list \<times> bytes) upload_act" where
  "resumeUpload se plan session =
     bindE (liftE (\<lambda>w. readParts se plan (listParts (rs_uploadSessionId session) (uw_resume w)))) (\<lambda>completedParts.
     bindE (liftE (\<lambda>_. bindR (decodeBase64 (rs_encryptedFileKeyBlob session)) (\<lambda>blob.
              decryptResumeFileKey se blob (rs_uploadSessionId session)))) (\<lambda>fileKey.
       returnE (startResponseFromSession session, completedParts, fileKey)))"

text \<open>A session of an upload the server has just started, with a new key.\<close>

definition openSession ::
    "'srv service_env \<Rightarrow> Entry \<Rightarrow> string \<Rightarrow> 64 word \<Rightarrow> string option \<Rightarrow> StartUploadResponse \<Rightarrow> ('srv, bytes) upload_act" where
  "openSession se entry localPath localSize localMtime started =
     ticked (\<lambda>n.
       bindE (liftE (\<lambda>_. se_generateFileKey se n)) (\<lambda>fileKey.
       bindE (liftE (\<lambda>_. encryptResumeFileKey se fileKey (su_uploadSessionId started))) (\<lambda>blob.
       bindE (onResume (replaceSession (clock (se_clocks se) n)
                (sessionRecord started entry localPath localSize localMtime blob))) (\<lambda>_.
         returnE fileKey))))"

definition startUploadW ::
    "'srv service_env \<Rightarrow> Entry \<Rightarrow> string \<Rightarrow> 64 word \<Rightarrow> string option \<Rightarrow> UploadPlan \<Rightarrow>
     ('srv, StartUploadResponse \<times> UploadedPartResult list \<times> bytes) upload_act" where
  "startUploadW se entry localPath localSize localMtime plan =
     bindE (onServerW (se_startUpload se (startRequest plan (e_parentFolderId entry)))) (\<lambda>started.
     bindE (openSession se entry localPath localSize localMtime started) (\<lambda>fileKey.
       returnE (started, [], fileKey)))"

definition matchingSession ::
    "Entry \<Rightarrow> string \<Rightarrow> 64 word \<Rightarrow> string option \<Rightarrow> UploadPlan \<Rightarrow> resume_db \<Rightarrow> UploadResumeSessionRecord option" where
  "matchingSession entry localPath localSize localMtime plan d =
     (case getSessionByLocalPath localPath d of
        None \<Rightarrow> None
      | Some session \<Rightarrow> if sessionMatchesEntry session entry localPath localSize localMtime plan then Some session else None)"

definition responseOf :: "StartUploadResponse \<Rightarrow> UploadFileResponse" where
  "responseOf started = \<lparr>uf_fileId = su_fileId started, uf_vaultId = su_vaultId started,
     uf_uploadSessionId = su_uploadSessionId started, uf_providerUploadId = su_providerUploadId started\<rparr>"

text \<open>One attempt of \<open>uploadFile\<close>: the body of its loop.\<close>

definition attemptUpload ::
    "'srv service_env \<Rightarrow> files \<Rightarrow> string \<Rightarrow> Entry \<Rightarrow> string \<Rightarrow> 64 word \<Rightarrow> string option \<Rightarrow> UploadPlan \<Rightarrow> 64 word \<Rightarrow>
     ('srv, UploadFileResponse) upload_act" where
  "attemptUpload se fs path entry localPath localSize localMtime plan partConcurrency =
     bindE (getsE (\<lambda>w. matchingSession entry localPath localSize localMtime plan (uw_resume w))) (\<lambda>resume.
     bindE (case resume of
              Some session \<Rightarrow> resumeUpload se plan session
            | None \<Rightarrow>
                bindE (onResume (deleteSessionByLocalPath localPath)) (\<lambda>_.
                  startUploadW se entry localPath localSize localMtime plan)) (\<lambda>(started, completedParts, fileKey).
     bindE (uploadParts se fs path fileKey started plan partConcurrency completedParts) (\<lambda>parts.
     bindE (completeUpload se path entry started plan parts fileKey) (\<lambda>_.
     bindE (onResume (deleteSessionByUploadSessionId (su_uploadSessionId started))) (\<lambda>_.
       returnE (responseOf started))))))"

definition uploadFile ::
    "'srv service_env \<Rightarrow> files \<Rightarrow> string \<Rightarrow> Entry \<Rightarrow> ('srv, UploadFileResponse) upload_act" where
  "uploadFile se fs path entry =
     (if e_isDirectory entry then throwE (Invalid_argument ''uploadFile does not support directories'')
      else case e_size entry of
        None \<Rightarrow> throwE (Invalid_argument ''uploadFile requires a valid local file size'')
      | Some sz \<Rightarrow>
          if sz < 0 then throwE (Invalid_argument ''uploadFile requires a valid local file size'')
          else
            bindE (liftE (\<lambda>_. normalizeFsPath (se_cwd se) path)) (\<lambda>localPath.
            let localSize = word_of_int sz; plan = createPlan localSize; localMtime = currentMtimeString path fs in
            bindE (uploadLimits se) (\<lambda>limits.
            let partConcurrency = resolvePartConcurrency (uploadPartCount plan) (sint (ul_partConcurrency limits));
                attempt = attemptUpload se fs path entry localPath localSize localMtime plan partConcurrency in
            bindE (getsE (\<lambda>w. matchingSession entry localPath localSize localMtime plan (uw_resume w))) (\<lambda>resume.
              catchE attempt (\<lambda>error.
                if resume \<noteq> None \<and> shouldResetResumeSession error
                then bindE (onResume (deleteSessionByLocalPath localPath)) (\<lambda>_. attempt)
                else throwE error)))))"

section \<open>A batch of files\<close>

record upload_context =
  cx_item :: UploadBatchItem
  cx_localPath :: string
  cx_originalSize :: "64 word"
  cx_plan :: UploadPlan
  cx_localMtime :: "string option"
  cx_partConcurrency :: "64 word"
  cx_started :: StartUploadResponse
  cx_fileKey :: bytes

definition notStarted :: StartUploadResponse where
  "notStarted = \<lparr>su_fileId = [], su_vaultId = [], su_uploadSessionId = [], su_providerUploadId = [],
     su_fileChunkSize = 0, su_totalChunks = 0, su_uploadPartSize = 0, su_uploadPartCount = 0, su_uploadUrl = []\<rparr>"

definition itemResult :: "UploadBatchItem \<Rightarrow> UploadFileResponse option \<Rightarrow> string \<Rightarrow> UploadBatchResult" where
  "itemResult item response error = \<lparr>br_id = bi_id item, br_response = response, br_error = error\<rparr>"

text \<open>Files with a session that matches are uploaded at once, the others become contexts.\<close>

definition tryItem ::
    "'srv service_env \<Rightarrow> files \<Rightarrow> UploadLimitsResponse \<Rightarrow> UploadBatchItem \<Rightarrow>
     ('srv, UploadBatchResult \<times> upload_context option) upload_act" where
  "tryItem se fs limits item =
     (case (e_isDirectory (bi_entry item), e_size (bi_entry item)) of
        (False, Some sz) \<Rightarrow>
          if sz < 0 then throwE (Invalid_argument ''batch upload requires a regular file with a valid size'')
          else
            bindE (liftE (\<lambda>_. normalizeFsPath (se_cwd se) (bi_path item))) (\<lambda>localPath.
            let originalSize = word_of_int sz; plan = createPlan originalSize;
                localMtime = currentMtimeString (bi_path item) fs in
            bindE (getsE (\<lambda>w. matchingSession (bi_entry item) localPath originalSize localMtime plan (uw_resume w))) (\<lambda>resume.
            case resume of
              Some _ \<Rightarrow>
                bindE (uploadFile se fs (bi_path item) (bi_entry item)) (\<lambda>response.
                  returnE (itemResult item (Some response) [], None))
            | None \<Rightarrow>
                bindE (onResume (deleteSessionByLocalPath localPath)) (\<lambda>_.
                  returnE (itemResult item None [],
                    Some \<lparr>cx_item = item, cx_localPath = localPath, cx_originalSize = originalSize, cx_plan = plan,
                          cx_localMtime = localMtime,
                          cx_partConcurrency = resolvePartConcurrency (uploadPartCount plan) (sint (ul_partConcurrency limits)),
                          cx_started = notStarted, cx_fileKey = []\<rparr>))))
      | _ \<Rightarrow> throwE (Invalid_argument ''batch upload requires a regular file with a valid size''))"

definition triageItem ::
    "'srv service_env \<Rightarrow> files \<Rightarrow> UploadLimitsResponse \<Rightarrow> UploadBatchItem \<Rightarrow>
     ('srv, UploadBatchResult \<times> upload_context option) upload_act" where
  "triageItem se fs limits item =
     catchE (tryItem se fs limits item) (\<lambda>error. returnE (itemResult item None (what error), None))"

fun triage ::
    "'srv service_env \<Rightarrow> files \<Rightarrow> UploadLimitsResponse \<Rightarrow> UploadBatchItem list \<Rightarrow>
     ('srv, UploadBatchResult list \<times> upload_context list) upload_act" where
  "triage se fs limits [] = returnE ([], [])"
| "triage se fs limits (item # items) =
     bindE (triageItem se fs limits item) (\<lambda>(result, context).
     bindE (triage se fs limits items) (\<lambda>(results, fresh).
       returnE (result # results, (case context of None \<Rightarrow> fresh | Some c \<Rightarrow> c # fresh))))"

text \<open>Requests are sent in pages of a hundred; the answers are looked up by identifier, first one first.\<close>

definition kRequestPage :: nat where
  "kRequestPage = 100"

function inPages :: "('a list \<Rightarrow> ('srv, 'b list) act) \<Rightarrow> 'a list \<Rightarrow> ('srv, 'b list) act" where
  "inPages f xs =
     (if xs = [] then returnE []
      else bindE (f (take kRequestPage xs)) (\<lambda>ys.
        bindE (inPages f (drop kRequestPage xs)) (\<lambda>zs. returnE (ys @ zs))))"
  by pat_completeness auto
termination
  by (relation "measure (\<lambda>(f, xs). length xs)") (auto simp: kRequestPage_def)

declare inPages.simps [simp del]

definition batchStartRequest :: "upload_context \<Rightarrow> BatchStartUploadRequest" where
  "batchStartRequest c =
     \<lparr>bs_clientId = bi_id (cx_item c), bs_request = startRequest (cx_plan c) (e_parentFolderId (bi_entry (cx_item c)))\<rparr>"

definition setError :: "string \<Rightarrow> string \<Rightarrow> UploadBatchResult list \<Rightarrow> UploadBatchResult list" where
  "setError i error = update_first (\<lambda>r. br_id r = i) (\<lambda>r. r\<lparr>br_error := error\<rparr>)"

definition startError :: "BatchStartUploadResult option \<Rightarrow> string" where
  "startError started =
     (case started of
        None \<Rightarrow> ''Batch start returned no result''
      | Some r \<Rightarrow> if bsr_error r = [] then ''Batch start validation failed'' else bsr_error r)"

fun openSessions ::
    "'srv service_env \<Rightarrow> BatchStartUploadResult list \<Rightarrow> upload_context list \<Rightarrow> UploadBatchResult list \<Rightarrow>
     ('srv, upload_context list \<times> UploadBatchResult list) upload_act" where
  "openSessions se answers [] results = returnE ([], results)"
| "openSessions se answers (c # cs) results =
     (let answer = find (\<lambda>r. bsr_clientId r = bi_id (cx_item c)) answers in
      case Option.bind answer bsr_upload of
        None \<Rightarrow>
          bindE (openSessions se answers cs (setError (bi_id (cx_item c)) (startError answer) results)) (\<lambda>(fresh, results').
            returnE (c # fresh, results'))
      | Some started \<Rightarrow>
          bindE (openSession se (bi_entry (cx_item c)) (cx_localPath c) (cx_originalSize c) (cx_localMtime c) started) (\<lambda>fileKey.
          bindE (openSessions se answers cs results) (\<lambda>(fresh, results').
            returnE (c\<lparr>cx_started := started, cx_fileKey := fileKey\<rparr> # fresh, results'))))"

text \<open>
  The transfer of one file. In the program the files of a group are transferred by threads of
  their own; they touch different sessions, and here they follow one another.
\<close>

definition transfer ::
    "'srv service_env \<Rightarrow> files \<Rightarrow> upload_context \<Rightarrow> ('srv, upload_context \<times> (string + UploadCompleteRequest)) upload_act" where
  "transfer se fs c =
     catchE
       (bindE (uploadParts se fs (bi_path (cx_item c)) (cx_fileKey c) (cx_started c) (cx_plan c) (cx_partConcurrency c) []) (\<lambda>parts.
        bindE (prepareCompletionW se (bi_path (cx_item c)) (bi_entry (cx_item c)) (cx_started c) (cx_plan c) parts
                 (cx_fileKey c)) (\<lambda>(artifacts, request).
          returnE (c, Inr request))))
       (\<lambda>error. returnE (c, Inl (what error)))"

fun transferAll ::
    "'srv service_env \<Rightarrow> files \<Rightarrow> upload_context list \<Rightarrow>
     ('srv, (upload_context \<times> (string + UploadCompleteRequest)) list) upload_act" where
  "transferAll se fs [] = returnE []"
| "transferAll se fs (c # cs) =
     bindE (transfer se fs c) (\<lambda>p. bindE (transferAll se fs cs) (\<lambda>ps. returnE (p # ps)))"

text \<open>Small files come first: the groups are ordered by their concurrency, the largest first.\<close>

definition transferOrder :: "upload_context list \<Rightarrow> upload_context list" where
  "transferOrder fresh =
     concat (map (\<lambda>n. filter (\<lambda>c. resolveFileConcurrency (cx_originalSize c) = n \<and> su_uploadSessionId (cx_started c) \<noteq> []) fresh)
       [32, 8, 4, 2])"

fun reportTransfers ::
    "(upload_context \<times> (string + UploadCompleteRequest)) list \<Rightarrow> UploadBatchResult list \<Rightarrow>
     BatchCompleteUploadRequest list \<times> UploadBatchResult list" where
  "reportTransfers [] results = ([], results)"
| "reportTransfers ((c, Inl error) # ps) results = reportTransfers ps (setError (bi_id (cx_item c)) error results)"
| "reportTransfers ((c, Inr request) # ps) results =
     (case reportTransfers ps results of (completions, results') \<Rightarrow>
       (\<lparr>bc_clientId = bi_id (cx_item c), bc_uploadSessionId = su_uploadSessionId (cx_started c), bc_request = request\<rparr> # completions,
        results'))"

text \<open>The result of a completed file; its session is over. An unknown identifier is skipped.\<close>

fun settleCompletions ::
    "BatchCompleteUploadResult list \<Rightarrow> (upload_context \<times> (string + UploadCompleteRequest)) list \<Rightarrow>
     UploadBatchResult list \<Rightarrow> ('srv, UploadBatchResult list) upload_act" where
  "settleCompletions answers [] results = returnE results"
| "settleCompletions answers ((c, Inl _) # ps) results = settleCompletions answers ps results"
| "settleCompletions answers ((c, Inr _) # ps) results =
     (if bi_id (cx_item c) \<notin> br_id ` set results then settleCompletions answers ps results
      else case find (\<lambda>r. bcr_clientId r = bi_id (cx_item c)) answers of
        None \<Rightarrow> settleCompletions answers ps (setError (bi_id (cx_item c)) ''Batch complete returned no result'' results)
      | Some answer \<Rightarrow>
          if \<not> bcr_completed answer
          then settleCompletions answers ps (setError (bi_id (cx_item c)) (bcr_error answer) results)
          else
            bindE (onResume (deleteSessionByUploadSessionId (su_uploadSessionId (cx_started c)))) (\<lambda>_.
              settleCompletions answers ps (update_first (\<lambda>r. br_id r = bi_id (cx_item c))
                (\<lambda>r. r\<lparr>br_response := Some (responseOf (cx_started c))\<rparr>) results)))"

definition uploadFilesBatch ::
    "'srv service_env \<Rightarrow> files \<Rightarrow> UploadBatchItem list \<Rightarrow> ('srv, UploadBatchResult list) upload_act" where
  "uploadFilesBatch se fs items =
     bindE (uploadLimits se) (\<lambda>limits.
     bindE (triage se fs limits items) (\<lambda>(results, contexts).
     if contexts = [] then returnE results
     else
       bindE (onServerW (inPages (se_startUploadBatch se) (map batchStartRequest contexts))) (\<lambda>answers.
       bindE (openSessions se answers contexts results) (\<lambda>(fresh, started).
       bindE (transferAll se fs (transferOrder fresh)) (\<lambda>prepared.
       case reportTransfers prepared started of (completions, reported) \<Rightarrow>
       bindE (onServerW (inPages (se_uploadCompleteBatch se) completions)) (\<lambda>completed.
         settleCompletions completed prepared reported))))))"

text \<open>The service as the interface of Upload_Jobs sees it.\<close>

definition uploadService :: "'srv service_env \<Rightarrow> files \<Rightarrow> 'srv upload_world upload_service" where
  "uploadService se fs = \<lparr>us_uploadFile = uploadFile se fs, us_uploadFilesBatch = uploadFilesBatch se fs\<rparr>"

end
