(* ===== verification/Upload_Resumption.thy ===== *)
theory Upload_Resumption
  imports Upload_Service
begin

text \<open>
  Why an interrupted upload may go on: what is kept of it describes the file. The invariant says
  that the key of every saved session can be read back and that its saved parts are those the
  file, this key and the plan determine. It holds after any number of attempts, however they ended,
  so the attempt that succeeds completes an upload of exactly the file.
\<close>

section \<open>A schedule\<close>

text \<open>An executable schedule: always the first worker that has not exited.\<close>

definition workerStep :: "upload_env \<Rightarrow> nat \<Rightarrow> up_state \<Rightarrow> up_state" where
  "workerStep env i s =
     (case workers s ! i of
        At_loop \<Rightarrow> if stopWorkers s then set_worker i Exited s else set_worker i At_fetch s
      | At_fetch \<Rightarrow>
          let n = nextPartNumber s; t = s\<lparr>nextPartNumber := Suc n\<rparr> in
          if n > partCount env then set_worker i Exited t
          else if up_etag (uploadedParts s ! (n - 1)) \<noteq> [] then set_worker i At_loop t
          else set_worker i (Working n) t
      | Working n \<Rightarrow>
          (case processPart env (of_nat n) of
             Inr r \<Rightarrow> set_worker i At_loop (s\<lparr>uploadedParts := (uploadedParts s)[n - 1 := r], sentParts := n # sentParts s\<rparr>)
           | Inl e \<Rightarrow> set_worker i (Failing e) (s\<lparr>stopWorkers := True\<rparr>))
      | Failing e \<Rightarrow> set_worker i At_loop
          (s\<lparr>firstError := (case firstError s of None \<Rightarrow> Some e | Some e' \<Rightarrow> Some e')\<rparr>)
      | Exited \<Rightarrow> s)"

fun runWorkers :: "upload_env \<Rightarrow> nat \<Rightarrow> up_state \<Rightarrow> up_state" where
  "runWorkers env 0 s = s"
| "runWorkers env (Suc k) s =
     (case find (\<lambda>i. workers s ! i \<noteq> Exited) [0..<length (workers s)] of
        None \<Rightarrow> s
      | Some i \<Rightarrow> runWorkers env k (workerStep env i s))"

definition firstWorkerFirst :: "upload_env \<Rightarrow> UploadedPartResult list \<Rightarrow> nat \<Rightarrow> up_state" where
  "firstWorkerFirst env init conc = (let s = start_state init conc in runWorkers env (work_left env s) s)"

lemma workerStep_step:
  assumes "i < length (workers s)" and "workers s ! i \<noteq> Exited"
  shows "up_step env s (workerStep env i s)"
  using assms up_step.intros [OF assms(1), where env = env]
  by (cases "workers s ! i") (simp_all add: workerStep_def Let_def split: sum.split)

lemma runWorkers_run:
  assumes "work_left env s \<le> k"
  shows "(up_step env)\<^sup>*\<^sup>* s (runWorkers env k s) \<and> joined (runWorkers env k s)"
  using assms
proof (induction k arbitrary: s)
  case 0
  then have "w = Exited" if "w \<in> set (workers s)" for w
    using that by (cases w) (force simp: work_left_def)+
  then show ?case by (simp add: joined_def)
next
  case (Suc k)
  show ?case
  proof (cases "find (\<lambda>i. workers s ! i \<noteq> Exited) [0..<length (workers s)]")
    case None
    then have "joined s" by (auto simp: find_None_iff joined_def in_set_conv_nth)
    then show ?thesis using None by simp
  next
    case (Some i)
    then have i: "i < length (workers s)" "workers s ! i \<noteq> Exited" by (auto simp: find_Some_iff)
    note step = workerStep_step [OF i, of env]
    then have "work_left env (workerStep env i s) \<le> k" using work_left_decreases [OF step] Suc.prems by simp
    from Suc.IH [OF this] step show ?thesis using Some by (simp add: converse_rtranclp_into_rtranclp)
  qed
qed

definition valid_schedule :: "(upload_env \<Rightarrow> UploadedPartResult list \<Rightarrow> nat \<Rightarrow> up_state) \<Rightarrow> bool" where
  "valid_schedule sched \<longleftrightarrow>
     (\<forall>env init conc. (up_step env)\<^sup>*\<^sup>* (start_state init conc) (sched env init conc) \<and> joined (sched env init conc))"

lemma firstWorkerFirst_valid: "valid_schedule firstWorkerFirst"
  using runWorkers_run by (simp add: valid_schedule_def firstWorkerFirst_def Let_def)

section \<open>Saved parts\<close>

text \<open>
  What is relied on: the schedule is one of the threads, the cryptographic library decrypts what it
  encrypted and gives no empty ciphertext, and the JSON parser reads what was printed.
\<close>

definition service_laws :: "'srv service_env \<Rightarrow> bool" where
  "service_laws se \<longleftrightarrow> valid_schedule (se_schedule se) \<and> crypto_laws (se_crypto se) \<and>
     (\<forall>key aad p c. lib_encryptChunk (se_crypto se) key aad p = Inr c \<longrightarrow> c \<noteq> []) \<and>
     (\<forall>j str. se_dump se j = Inr str \<longrightarrow> se_parse se str = Inr j)"

text \<open>A part of the upload of a file with a key, whatever the server does.\<close>

definition preparedFor ::
    "'srv service_env \<Rightarrow> files \<Rightarrow> string \<Rightarrow> bytes \<Rightarrow> StartUploadResponse \<Rightarrow> UploadPlan \<Rightarrow> nat \<Rightarrow> UploadedPartResult \<Rightarrow> bool" where
  "preparedFor se fs path fileKey started plan n part \<longleftrightarrow>
     (\<exists>srv. prepared (uploadEnv se fs path fileKey started plan srv) n part)"

lemma preparePart_cong:
  assumes "ue_crypto env = ue_crypto env'" and "ue_path env = ue_path env'" and "ue_fileKey env = ue_fileKey env'"
    and "ue_plan env = ue_plan env'" and "su_vaultId (ue_started env) = su_vaultId (ue_started env')"
    and "su_fileId (ue_started env) = su_fileId (ue_started env')"
  shows "preparePart env n = preparePart env' n"
  using assms by (simp add: preparePart_def Let_def cong: if_cong)

lemma preparedFor_any:
  assumes "su_vaultId started = su_vaultId started'" and "su_fileId started = su_fileId started'"
  shows "prepared (uploadEnv se fs path fileKey started plan srv) n part \<longleftrightarrow> preparedFor se fs path fileKey started' plan n part"
proof -
  have "preparePart (uploadEnv se fs path fileKey started plan srv) = preparePart (uploadEnv se fs path fileKey started' plan srv')" for srv'
    by (rule ext, rule preparePart_cong) (simp_all add: uploadEnv_def assms)
  then show ?thesis by (simp add: preparedFor_def prepared_def)
qed

lemmas prepared_uploadEnv = preparedFor_any [OF refl refl]

lemma preparedFor_cong:
  assumes "su_vaultId started = su_vaultId started'" and "su_fileId started = su_fileId started'"
  shows "preparedFor se fs path fileKey started plan n part \<longleftrightarrow> preparedFor se fs path fileKey started' plan n part"
  using prepared_uploadEnv preparedFor_any [OF assms] by metis

lemma prepared_plan: "prepared env n part \<Longrightarrow> up_plan part = makePartPlan (of_nat n) (ue_plan env)"
  by (cases part) (auto simp: prepared_def preparePart_def Let_def bindR_eq_Inr split: if_splits)

lemma preparedFor_plan: "preparedFor se fs path fileKey started plan n part \<Longrightarrow> up_plan part = makePartPlan (of_nat n) plan"
  by (auto simp: preparedFor_def uploadEnv_def dest: prepared_plan)

text \<open>Part numbers are stored as \<open>int\<close> and read back as \<open>uint64_t\<close>.\<close>

lemma sint_of_small:
  assumes "n < 2 ^ 31"
  shows "sint (of_nat n :: 32 word) = int n"
proof -
  have "uint (of_nat n :: 32 word) = int n" using assms by (simp add: uint_nat unat_of_nat take_bit_nat_eq_self)
  moreover have "signed_take_bit 31 (int n) = int n" by (rule signed_take_bit_int_eq_self) (use assms in simp_all)
  ultimately show ?thesis by (simp add: sint_uint)
qed

lemma number_read:
  assumes "n < 2 ^ 31"
  shows "scast (ucast (of_nat n :: 64 word) :: 32 word) = (of_nat n :: 64 word)"
proof -
  have "ucast (of_nat n :: 64 word) = (of_nat n :: 32 word)" by (rule bit_word_eqI) (simp add: bit_simps)
  moreover have "scast (of_nat n :: 32 word) = (of_nat n :: 64 word)"
    using sint_of_small [OF assms] by (simp only: scast_eq of_int_of_nat_eq)
  ultimately show ?thesis by simp
qed

text \<open>Reading a saved part gives the part back.\<close>

lemma readChunkList_written: "readChunkList (map chunkJson cs) = Inr cs"
  by (induction cs) (simp_all add: readChunk_def chunkJson_def json_at_def)

lemma resume_part_read:
  assumes laws: "service_laws se" and made: "makeResumePartRecord se part = Inr rec"
    and plan: "up_plan part = makePartPlan (of_nat n) plan" and n: "n < 2 ^ 31"
  shows "readUploadedPartResult se plan rec = Inr part"
proof -
  obtain str where str: "se_dump se (JArray (map chunkJson (up_chunks part))) = Inr str"
    and rcd: "rec = \<lparr>rp_partNumber = ucast (partNumber (up_plan part)), rp_etag = up_etag part,
       rp_uploadHash = up_uploadHash part, rp_chunkManifestJson = str,
       rp_combinedChunkHashes = encodeBase64 (up_combinedChunkHashes part)\<rparr>"
    using made by (auto simp: makeResumePartRecord_def bindR_eq_Inr)
  have "se_parse se str = Inr (JArray (map chunkJson (up_chunks part)))"
    using laws str unfolding service_laws_def by blast
  moreover have "makePartPlan (scast (rp_partNumber rec)) plan = up_plan part"
    using number_read [OF n] by (simp add: rcd plan) (simp add: makePartPlan_def Let_def)
  ultimately show ?thesis
    by (simp add: readUploadedPartResult_def) (simp add: rcd base64.decode_encode readChunkList_written)
qed

section \<open>The invariant\<close>

definition sessionKey :: "'srv service_env \<Rightarrow> UploadResumeSessionRecord \<Rightarrow> bytes result" where
  "sessionKey se session =
     bindR (decodeBase64 (rs_encryptedFileKeyBlob session)) (\<lambda>blob. decryptResumeFileKey se blob (rs_uploadSessionId session))"

text \<open>A part of a session: one the file of the session, its key and its plan determine.\<close>

definition sessionPart ::
    "'srv service_env \<Rightarrow> files \<Rightarrow> UploadResumeSessionRecord \<Rightarrow> bytes \<Rightarrow> nat \<Rightarrow> UploadedPartResult \<Rightarrow> bool" where
  "sessionPart se fs session key n part \<longleftrightarrow>
     0 < n \<and> n < 2 ^ 31 \<and> n \<le> unat (uploadPartCount (createPlan (rs_localSize session))) \<and>
     preparedFor se fs (rs_localPath session) key (startResponseFromSession session) (createPlan (rs_localSize session)) n part"

definition part_sound ::
    "'srv service_env \<Rightarrow> files \<Rightarrow> UploadResumeSessionRecord \<Rightarrow> bytes \<Rightarrow> UploadResumePartRecord \<Rightarrow> bool" where
  "part_sound se fs session key rec \<longleftrightarrow>
     (\<exists>n part. sessionPart se fs session key n part \<and> makeResumePartRecord se part = Inr rec)"

definition rows_sound :: "'srv service_env \<Rightarrow> files \<Rightarrow> session_row list \<Rightarrow> part_row list \<Rightarrow> bool" where
  "rows_sound se fs sessions parts \<longleftrightarrow>
     (\<forall>r\<in>set sessions. \<exists>key. sessionKey se (ss_record r) = Inr key \<and>
        (\<forall>p\<in>set parts. pr_upload_session_id p = rs_uploadSessionId (ss_record r) \<longrightarrow>
           part_sound se fs (ss_record r) key (readPartRecord p))) \<and>
     (\<forall>p\<in>set parts. \<exists>r\<in>set sessions. rs_uploadSessionId (ss_record r) = pr_upload_session_id p)"

definition resume_sound :: "'srv service_env \<Rightarrow> files \<Rightarrow> resume_db \<Rightarrow> bool" where
  "resume_sound se fs d \<longleftrightarrow> resume_inv d \<and> rows_sound se fs (db_sessions d) (db_parts d)"

lemma resume_sound_start: "resume_sound se fs \<lparr>db_sessions = [], db_parts = []\<rparr>"
  by (simp add: resume_sound_def resume_inv_start rows_sound_def)

lemma resume_soundD:
  assumes "resume_sound se fs d" and "getSessionByLocalPath path d = Some session"
  shows "\<exists>r\<in>set (db_sessions d). ss_record r = session" and "rs_localPath session = path"
    and "\<exists>key. sessionKey se session = Inr key \<and>
      (\<forall>rec\<in>set (listParts (rs_uploadSessionId session) d). part_sound se fs session key rec)"
proof -
  obtain r where r: "r \<in> set (db_sessions d)" "ss_record r = session" and path: "sessions_local_path r = Some path"
    using assms(2) find_key_Some [of sessions_local_path path "db_sessions d"] by (auto simp: find_path)
  then show "\<exists>r\<in>set (db_sessions d). ss_record r = session" and "rs_localPath session = path"
    by (auto simp: sessions_local_path_def)
  show "\<exists>key. sessionKey se session = Inr key \<and>
      (\<forall>rec\<in>set (listParts (rs_uploadSessionId session) d). part_sound se fs session key rec)"
    using assms(1) r unfolding resume_sound_def rows_sound_def listParts_def by fastforce
qed

text \<open>Deleting a session takes its parts along.\<close>

lemma resume_sound_delete:
  assumes "resume_sound se fs d"
  shows "resume_sound se fs (snd (deleteSessionByUploadSessionId sid d))"
    and "fst (deleteSessionByUploadSessionId sid d) = Inr ()"
proof -
  have "resume_inv (snd (deleteSessionByUploadSessionId sid d))"
    using keepsD [OF keeps_resume(3)] assms by (simp add: resume_sound_def)
  then show "resume_sound se fs (snd (deleteSessionByUploadSessionId sid d))"
    using assms by (fastforce simp: resume_sound_def rows_sound_def deleteSession_run delete_where_def)
qed (simp add: deleteSession_run)

lemma deletePath_run:
  assumes "resume_sound se fs d"
  shows "\<exists>d'. deleteSessionByLocalPath path d = (Inr (), d') \<and> resume_sound se fs d' \<and>
    (\<forall>r\<in>set (db_sessions d). rs_localPath (ss_record r) \<noteq> path \<longrightarrow> r \<in> set (db_sessions d'))"
proof (cases "getSessionByLocalPath path d")
  case None
  then show ?thesis using assms by (simp add: deleteSessionByLocalPath_def act_simps)
next
  case (Some session)
  let ?sid = "rs_uploadSessionId session"
  obtain x where x: "x \<in> set (db_sessions d)" "ss_record x = session" and path: "rs_localPath session = path"
    using resume_soundD(1,2) [OF assms Some] by blast
  have uniq: "uniq_on sessions_upload_id (db_sessions d)"
    using assms by (simp add: resume_sound_def resume_inv_def sessions_ok_def)
  have "rs_uploadSessionId (ss_record r) \<noteq> ?sid" if r: "r \<in> set (db_sessions d)" "rs_localPath (ss_record r) \<noteq> path" for r
    using uniq_onD [OF uniq r(1) x(1), of ?sid] r x path by (auto simp: sessions_upload_id_def)
  then show ?thesis
    using resume_sound_delete(1) [OF assms, of ?sid] Some
    by (simp add: deleteSessionByLocalPath_def act_simps deleteSession_run) (simp add: delete_where_def)
qed

text \<open>Saving a part of a session.\<close>

lemma upsert_rows:
  assumes "parts_ok (db_parts d)"
  shows "\<exists>t. upsertPart now sid rec d = (Inr (), d\<lparr>db_parts := t\<rparr>) \<and>
    (\<forall>p\<in>set t. p \<in> set (db_parts d) \<or> pr_upload_session_id p = sid \<and> readPartRecord p = rec)"
proof -
  let ?k = "(sid, sint (rp_partNumber rec))"
  obtain t where run: "upsertPart now sid rec d = (Inr (), d\<lparr>db_parts := t\<rparr>)" and ok: "parts_ok t"
    and find: "\<forall>k. find_key parts_pk k t = (if k = ?k
       then Some (case find_key parts_pk ?k (db_parts d) of
                    None \<Rightarrow> new_part now sid rec | Some x \<Rightarrow> set_part now rec x)
       else find_key parts_pk k (db_parts d))"
    using upsertPart_run [OF assms] by blast
  have "p \<in> set (db_parts d) \<or> pr_upload_session_id p = sid \<and> readPartRecord p = rec" if p: "p \<in> set t" for p
  proof -
    let ?key = "(pr_upload_session_id p, pr_part_number p)"
    have "find_key parts_pk ?key t = Some p"
      using find_key_uniq [of parts_pk t p ?key] ok p by (simp add: parts_ok_def parts_pk_def)
    then show ?thesis
      using find find_key_Some [of parts_pk ?key "db_parts d"] find_key_Some [of parts_pk ?k "db_parts d"]
        read_written_part [where now = now and sid = sid and p = rec]
      by (auto split: if_splits option.splits)
  qed
  then show ?thesis using run by blast
qed

lemma resume_sound_save:
  assumes sound: "resume_sound se fs d" and r: "r \<in> set (db_sessions d)"
    and key: "sessionKey se (ss_record r) = Inr key" and part: "part_sound se fs (ss_record r) key rec"
  shows "\<exists>d'. upsertPart now (rs_uploadSessionId (ss_record r)) rec d = (Inr (), d') \<and>
    db_sessions d' = db_sessions d \<and> resume_sound se fs d'"
proof -
  let ?sid = "rs_uploadSessionId (ss_record r)"
  have inv: "resume_inv d" and rows: "rows_sound se fs (db_sessions d) (db_parts d)"
    using sound by (simp_all add: resume_sound_def)
  then have uniq: "uniq_on sessions_upload_id (db_sessions d)" and "parts_ok (db_parts d)"
    by (simp_all add: resume_inv_def sessions_ok_def)
  then obtain t where run: "upsertPart now ?sid rec d = (Inr (), d\<lparr>db_parts := t\<rparr>)"
    and t: "\<forall>p\<in>set t. p \<in> set (db_parts d) \<or> pr_upload_session_id p = ?sid \<and> readPartRecord p = rec"
    using upsert_rows by blast
  have "resume_inv (d\<lparr>db_parts := t\<rparr>)" using keepsD [OF keeps_resume(1) inv, of now ?sid rec] run by simp
  moreover have "rows_sound se fs (db_sessions d) t"
    unfolding rows_sound_def
  proof (intro conjI ballI)
    fix x assume x: "x \<in> set (db_sessions d)"
    obtain k where k: "sessionKey se (ss_record x) = Inr k"
      and old: "\<forall>p\<in>set (db_parts d). pr_upload_session_id p = rs_uploadSessionId (ss_record x) \<longrightarrow>
        part_sound se fs (ss_record x) k (readPartRecord p)"
      using rows x unfolding rows_sound_def by blast
    have same: "x = r" if "rs_uploadSessionId (ss_record x) = ?sid"
      by (rule uniq_onD [OF uniq x r]) (simp_all add: sessions_upload_id_def that)
    have "part_sound se fs (ss_record x) k (readPartRecord p)"
      if p: "p \<in> set t" "pr_upload_session_id p = rs_uploadSessionId (ss_record x)" for p
    proof (cases "p \<in> set (db_parts d)")
      case False
      then have "pr_upload_session_id p = ?sid" and rec: "readPartRecord p = rec" using t p(1) by blast+
      then have "x = r" using same p(2) by metis
      then show ?thesis using part key k rec by simp
    qed (use old p in blast)
    then show "\<exists>key. sessionKey se (ss_record x) = Inr key \<and> (\<forall>p\<in>set t. pr_upload_session_id p = rs_uploadSessionId (ss_record x) \<longrightarrow>
        part_sound se fs (ss_record x) key (readPartRecord p))" using k by blast
  next
    fix p assume "p \<in> set t"
    then show "\<exists>r\<in>set (db_sessions d). rs_uploadSessionId (ss_record r) = pr_upload_session_id p"
      using t rows r unfolding rows_sound_def by metis
  qed
  ultimately show ?thesis using run by (simp add: resume_sound_def)
qed

section \<open>Opening a session\<close>

text \<open>The session an upload works with: its row, under the path of the file, with its key and plan.\<close>

definition hasSession ::
    "'srv service_env \<Rightarrow> string \<Rightarrow> bytes \<Rightarrow> StartUploadResponse \<Rightarrow> UploadPlan \<Rightarrow> session_row list \<Rightarrow> bool" where
  "hasSession se path key started plan t \<longleftrightarrow>
     (\<exists>r\<in>set t. rs_localPath (ss_record r) = path \<and> sessionKey se (ss_record r) = Inr key \<and>
        plan = createPlan (rs_localSize (ss_record r)) \<and> rs_uploadSessionId (ss_record r) = su_uploadSessionId started \<and>
        rs_vaultId (ss_record r) = su_vaultId started \<and> rs_fileId (ss_record r) = su_fileId started)"

lemma replaceSession_delete:
  "replaceSession now session = bindE (deleteSessionByLocalPath (rs_localPath session)) (\<lambda>_.
     on_sessions (sql_insert sessions_ok (step_failed ''upload_resume_sessions'')
       \<lparr>ss_record = session, ss_created_at = now, ss_updated_at = now\<rparr>))"
  by (rule ext) (simp add: replaceSession_def deleteSessionByLocalPath_def act_simps split: option.split)

lemma resume_sound_insert:
  assumes sound: "resume_sound se fs d" and key: "sessionKey se (ss_record row) = Inr key"
    and ok: "sessions_ok (db_sessions d @ [row])"
  shows "resume_sound se fs (d\<lparr>db_sessions := db_sessions d @ [row]\<rparr>)"
proof -
  have rows: "rows_sound se fs (db_sessions d) (db_parts d)" using sound by (simp add: resume_sound_def)
  have "\<not> has_key sessions_upload_id (rs_uploadSessionId (ss_record row)) (db_sessions d)"
    using ok by (auto simp: sessions_ok_def uniq_on_snoc sessions_upload_id_def)
  then have "pr_upload_session_id p \<noteq> rs_uploadSessionId (ss_record row)" if "p \<in> set (db_parts d)" for p
    using rows that unfolding rows_sound_def has_key_def sessions_upload_id_def by metis
  then have "rows_sound se fs (db_sessions d @ [row]) (db_parts d)"
    using rows key unfolding rows_sound_def by simp
  then show ?thesis using sound ok by (simp add: resume_sound_def resume_inv_def)
qed

lemma sessionKey_encrypted:
  assumes "service_laws se" and "encryptResumeFileKey se key sid = Inr blob"
    and "rs_encryptedFileKeyBlob session = encodeBase64 blob" and "rs_uploadSessionId session = sid"
  shows "sessionKey se session = Inr key"
proof -
  obtain mk where mk: "se_masterKey se = Inr mk"
      "lib_encryptChunk (se_crypto se) mk (toBytes (makeResumeFileKey sid)) key = Inr blob"
    using assms(2) by (auto simp: encryptResumeFileKey_def bindR_eq_Inr split: if_splits)
  then have "blob \<noteq> []" "lib_decryptChunk (se_crypto se) mk (toBytes (makeResumeFileKey sid)) blob = Inr key"
    using assms(1) unfolding service_laws_def crypto_laws_def by blast+
  then show ?thesis using mk assms(3,4) by (simp add: sessionKey_def base64.decode_encode decryptResumeFileKey_def)
qed

lemma replaceSession_sound:
  assumes "resume_sound se fs d" and "sessionKey se session = Inr key" and "replaceSession now session d = (x, d')"
  shows "resume_sound se fs d'"
    and "r \<in> set (db_sessions d) \<Longrightarrow> rs_localPath (ss_record r) \<noteq> rs_localPath session \<Longrightarrow> r \<in> set (db_sessions d')"
    and "x = Inr u \<Longrightarrow> \<exists>r\<in>set (db_sessions d'). ss_record r = session"
proof -
  let ?row = "\<lparr>ss_record = session, ss_created_at = now, ss_updated_at = now\<rparr>"
  obtain e where del: "deleteSessionByLocalPath (rs_localPath session) d = (Inr (), e)" and e: "resume_sound se fs e"
    and others: "\<forall>r\<in>set (db_sessions d). rs_localPath (ss_record r) \<noteq> rs_localPath session \<longrightarrow> r \<in> set (db_sessions e)"
    using deletePath_run [OF assms(1)] by blast
  have d': "x = Inr () \<and> d' = e\<lparr>db_sessions := db_sessions e @ [?row]\<rparr> \<and> sessions_ok (db_sessions e @ [?row]) \<or>
      isl x \<and> d' = e"
    using assms(3) del by (auto simp: replaceSession_delete act_simps on_sessions_def sql_insert_def split: if_splits)
  then show "resume_sound se fs d'" using resume_sound_insert [OF e, of ?row key] assms(2) e by auto
  show "r \<in> set (db_sessions d')" if "r \<in> set (db_sessions d)" "rs_localPath (ss_record r) \<noteq> rs_localPath session"
    using d' others that by auto
  show "\<exists>r\<in>set (db_sessions d'). ss_record r = session" if "x = Inr u" using d' that by auto
qed

lemma openSession_sound:
  assumes laws: "service_laws se" and sound: "resume_sound se fs (uw_resume w)"
    and run: "openSession se entry path sz mtime started w = (x, w')"
  shows "resume_sound se fs (uw_resume w')"
    and "r \<in> set (db_sessions (uw_resume w)) \<Longrightarrow> rs_localPath (ss_record r) \<noteq> path \<Longrightarrow> r \<in> set (db_sessions (uw_resume w'))"
    and "x = Inr key \<Longrightarrow> hasSession se path key started (createPlan sz) (db_sessions (uw_resume w')) \<and> key \<noteq> []"
proof -
  let ?w = "w\<lparr>uw_tick := Suc (uw_tick w)\<rparr>" and ?now = "clock (se_clocks se) (uw_tick w)"
  note openDefs = openSession_def ticked_def act_simps onResume_def
  have "isl x \<and> w' = ?w \<or>
    (\<exists>k blob y. encryptResumeFileKey se k (su_uploadSessionId started) = Inr blob \<and>
        replaceSession ?now (sessionRecord started entry path sz mtime blob) (uw_resume w) = (y, uw_resume w') \<and>
        x = (case y of Inl e \<Rightarrow> Inl e | Inr _ \<Rightarrow> Inr k))"
  proof (cases "se_generateFileKey se (uw_tick w)")
    case key: (Inr k)
    show ?thesis
    proof (cases "encryptResumeFileKey se k (su_uploadSessionId started)")
      case (Inr blob)
      obtain y e where "replaceSession ?now (sessionRecord started entry path sz mtime blob) (uw_resume w) = (y, e)"
        by (meson surj_pair)
      then show ?thesis using run key Inr
        by (intro disjI2 exI [of _ k] exI [of _ blob] exI [of _ y]) (auto simp: openDefs split: sum.splits)
    next
      case (Inl a)
      then have "x = Inl a" "w' = ?w" using run key by (simp_all add: openDefs)
      then show ?thesis by simp
    qed
  next
    case (Inl a)
    then have "x = Inl a" "w' = ?w" using run by (simp_all add: openDefs)
    then show ?thesis by simp
  qed
  then consider "isl x" "w' = ?w"
    | k blob y where "encryptResumeFileKey se k (su_uploadSessionId started) = Inr blob"
        "replaceSession ?now (sessionRecord started entry path sz mtime blob) (uw_resume w) = (y, uw_resume w')"
        "x = (case y of Inl e \<Rightarrow> Inl e | Inr _ \<Rightarrow> Inr k)"
    by blast
  then have "resume_sound se fs (uw_resume w') \<and>
    (r \<in> set (db_sessions (uw_resume w)) \<longrightarrow> rs_localPath (ss_record r) \<noteq> path \<longrightarrow> r \<in> set (db_sessions (uw_resume w'))) \<and>
    (x = Inr key \<longrightarrow> hasSession se path key started (createPlan sz) (db_sessions (uw_resume w')) \<and> key \<noteq> [])"
  proof cases
    case (2 k blob y)
    let ?s = "sessionRecord started entry path sz mtime blob"
    have s: "sessionKey se ?s = Inr k"
      by (rule sessionKey_encrypted [OF laws 2(1)]) (simp_all add: sessionRecord_def)
    have "k \<noteq> []" using 2(1) by (auto simp: encryptResumeFileKey_def)
    moreover note new = replaceSession_sound [OF sound s 2(2)]
    moreover have "hasSession se path k started (createPlan sz) (db_sessions (uw_resume w'))" if "y = Inr u" for u
      using new(3) [OF that] s unfolding hasSession_def by (metis (no_types, lifting) sessionRecord_def UploadResumeSessionRecord.select_convs)
    ultimately show ?thesis using 2(3) by (auto simp: sessionRecord_def split: sum.splits)
  qed (use sound in auto)
  then show "resume_sound se fs (uw_resume w')"
    and "r \<in> set (db_sessions (uw_resume w)) \<Longrightarrow> rs_localPath (ss_record r) \<noteq> path \<Longrightarrow> r \<in> set (db_sessions (uw_resume w'))"
    and "x = Inr key \<Longrightarrow> hasSession se path key started (createPlan sz) (db_sessions (uw_resume w')) \<and> key \<noteq> []"
    by blast+
qed

section \<open>Uploading the parts\<close>

lemma unat_lt2p_64: "unat (n :: 64 word) < 2 ^ 64"
  using unsigned_less [of n] by simp

lemma prepared_number:
  assumes "prepared env n part" and "0 < n" and "n \<le> partCount env"
  shows "unat (partNumber (up_plan part)) = n" and "partNumber (up_plan part) \<noteq> 0"
proof -
  have "n \<le> unat (uploadPartCount (ue_plan env))" using assms(3) by (simp add: partCount_def)
  also have "\<dots> < 2 ^ 64" using unat_lt2p_64 .
  finally have "unat (of_nat n :: 64 word) = n" by (rule unat_of_nat_small)
  moreover have "partNumber (up_plan part) = of_nat n" using prepared_plan [OF assms(1)] by (simp add: makePartPlan_def Let_def)
  ultimately show "unat (partNumber (up_plan part)) = n" by simp
  then show "partNumber (up_plan part) \<noteq> 0" using assms(2) by auto
qed

text \<open>The vector the workers start with: saved parts in their places, the rest empty.\<close>

definition filledWith :: "upload_env \<Rightarrow> UploadedPartResult list \<Rightarrow> bool" where
  "filledWith env parts \<longleftrightarrow> (\<forall>k<length parts. parts ! k = emptyPart \<or> prepared env (Suc k) (parts ! k))"

lemma fillCompleted_filled:
  assumes "\<forall>c\<in>set cs. \<exists>n. 0 < n \<and> n \<le> partCount env \<and> prepared env n c" and "filledWith env parts"
    and "length parts = partCount env"
  shows "\<exists>init. fillCompleted (partCount env) cs parts = Inr init \<and> filledWith env init"
  using assms
proof (induction cs arbitrary: parts)
  case (Cons c cs)
  obtain n where n: "0 < n" "n \<le> partCount env" "prepared env n c" using Cons.prems(1) by auto
  note num = prepared_number [OF n(3,1,2)]
  have "filledWith env (parts[n - 1 := c])"
    unfolding filledWith_def
  proof (intro allI impI)
    fix k assume "k < length (parts[n - 1 := c])"
    then show "parts[n - 1 := c] ! k = emptyPart \<or> prepared env (Suc k) (parts[n - 1 := c] ! k)"
      using Cons.prems(2) n unfolding filledWith_def by (cases "k = n - 1") auto
  qed
  then have "\<exists>init. fillCompleted (partCount env) cs (parts[n - 1 := c]) = Inr init \<and> filledWith env init"
    using Cons.IH [of "parts[n - 1 := c]"] Cons.prems by simp
  then show ?case using num n(2) by simp
qed auto

lemma initialParts_filled:
  assumes "\<forall>c\<in>set cs. \<exists>n. 0 < n \<and> n \<le> partCount env \<and> prepared env n c"
  shows "\<exists>init. initialParts env cs = Inr init \<and> filledWith env init"
  unfolding initialParts_def using assms by (intro fillCompleted_filled) (auto simp: filledWith_def)

text \<open>The threads: what they sent and what they return.\<close>

lemma schedule_parts:
  assumes "valid_schedule sched" and "initialParts env cs = Inr init" and "filledWith env init" and "0 < conc"
  defines "s \<equiv> sched env init conc"
  shows "\<forall>n\<in>set (sentParts s). 0 < n \<and> n \<le> partCount env \<and> up_etag (init ! (n - 1)) = [] \<and>
      processPart env (of_nat n) = Inr (uploadedParts s ! (n - 1))"
    and "uploadResult s = Inr parts \<Longrightarrow> length parts = partCount env \<and> (\<forall>k<partCount env. prepared env (Suc k) (parts ! k))"
proof -
  have run: "(up_step env)\<^sup>*\<^sup>* (start_state init conc) s" "joined s"
    using assms(1) unfolding valid_schedule_def s_def by blast+
  have len: "length init = partCount env" by (rule initialParts_length [OF assms(2)])
  have "results_inv env init s" using reachable_upload_inv [OF assms(2) run(1)] by (simp add: upload_inv_def)
  then show "\<forall>n\<in>set (sentParts s). 0 < n \<and> n \<le> partCount env \<and> up_etag (init ! (n - 1)) = [] \<and>
      processPart env (of_nat n) = Inr (uploadedParts s ! (n - 1))"
    by (auto simp: results_inv_def missing_def len)
  assume parts: "uploadResult s = Inr parts"
  note out = upload_outcome [OF assms(2,4) run, unfolded parts sum.case, THEN conjunct1]
  have "prepared env (Suc k) (parts ! k)" if k: "k < partCount env" for k
  proof (cases "missing init (Suc k)")
    case True
    then have "processPart env (of_nat (Suc k)) = Inr (parts ! k)"
      using out [THEN conjunct2, THEN conjunct1, rule_format, of "Suc k"] k by simp
    then show ?thesis by (rule processPart_prepared)
  next
    case False
    then have "parts ! k = init ! k" using out [THEN conjunct2, THEN conjunct1, rule_format, of "Suc k"] k by simp
    moreover have "init ! k \<noteq> emptyPart" using False k len by (auto simp: missing_def emptyPart_def)
    ultimately show ?thesis using assms(3) k len by (auto simp: filledWith_def)
  qed
  then show "length parts = partCount env \<and> (\<forall>k<partCount env. prepared env (Suc k) (parts ! k))" using out by blast
qed

lemma savePart_sound:
  assumes sound: "resume_sound se fs (uw_resume w)" and has: "hasSession se path key started plan (db_sessions (uw_resume w))"
    and part: "preparedFor se fs path key started plan n part" "0 < n" "n < 2 ^ 31" "n \<le> unat (uploadPartCount plan)"
    and saved: "su_providerUploadId started \<noteq> [] \<Longrightarrow> \<exists>rec. makeResumePartRecord se part = Inr rec"
  shows "\<exists>w'. savePart se started part w = (Inr (), w') \<and> resume_sound se fs (uw_resume w') \<and> uw_server w' = uw_server w \<and>
    db_sessions (uw_resume w') = db_sessions (uw_resume w)"
proof (cases "su_providerUploadId started = []")
  case True
  then show ?thesis using sound by (simp add: savePart_def returnE_def)
next
  case False
  then obtain rec where rec: "makeResumePartRecord se part = Inr rec" using saved by blast
  obtain r where r: "r \<in> set (db_sessions (uw_resume w))" "rs_localPath (ss_record r) = path"
      "sessionKey se (ss_record r) = Inr key" "plan = createPlan (rs_localSize (ss_record r))"
      "rs_uploadSessionId (ss_record r) = su_uploadSessionId started"
      "rs_vaultId (ss_record r) = su_vaultId started" "rs_fileId (ss_record r) = su_fileId started"
    using has unfolding hasSession_def by blast
  have "preparedFor se fs path key (startResponseFromSession (ss_record r)) plan n part"
    using part(1) by (subst preparedFor_cong [where started' = started]) (simp_all add: startResponseFromSession_def r)
  then have "part_sound se fs (ss_record r) key rec"
    unfolding part_sound_def sessionPart_def using part r rec by blast
  from resume_sound_save [OF sound r(1,3) this, of "clock (se_clocks se) (uw_tick w)"]
  show ?thesis using False rec by (auto simp: savePart_def ticked_def act_simps onResume_def r(5))
qed

lemma saveParts_sound:
  assumes "resume_sound se fs (uw_resume w)" and "hasSession se path key started plan (db_sessions (uw_resume w))"
    and "\<forall>part\<in>set parts. \<exists>n. preparedFor se fs path key started plan n part \<and> 0 < n \<and> n < 2 ^ 31 \<and> n \<le> unat (uploadPartCount plan)"
    and "su_providerUploadId started \<noteq> [] \<Longrightarrow> \<forall>part\<in>set parts. \<exists>rec. makeResumePartRecord se part = Inr rec"
  shows "\<exists>w'. forE parts (savePart se started) w = (Inr (), w') \<and> resume_sound se fs (uw_resume w') \<and> uw_server w' = uw_server w \<and>
    db_sessions (uw_resume w') = db_sessions (uw_resume w)"
  using assms
proof (induction parts arbitrary: w)
  case (Cons part parts)
  obtain n where n: "preparedFor se fs path key started plan n part" "0 < n" "n < 2 ^ 31" "n \<le> unat (uploadPartCount plan)"
    using Cons.prems(3) by auto
  obtain w1 where w1: "savePart se started part w = (Inr (), w1)" "resume_sound se fs (uw_resume w1)" "uw_server w1 = uw_server w"
      "db_sessions (uw_resume w1) = db_sessions (uw_resume w)"
    using savePart_sound [OF Cons.prems(1,2) n] Cons.prems(4) by auto
  have "\<exists>w'. forE parts (savePart se started) w1 = (Inr (), w') \<and> resume_sound se fs (uw_resume w') \<and> uw_server w' = uw_server w1 \<and>
      db_sessions (uw_resume w') = db_sessions (uw_resume w1)"
    using Cons.IH [of w1] w1 Cons.prems by simp
  then show ?case using w1 by (auto simp: bindE_def)
qed (simp add: returnE_def)

text \<open>
  \<open>uploadParts\<close> keeps the invariant however it ends; when it returns, every part of the file is there.
\<close>

lemma uploadParts_sound:
  assumes laws: "service_laws se" and sound: "resume_sound se fs (uw_resume w)"
    and has: "hasSession se path key started plan (db_sessions (uw_resume w))"
    and small: "unat (uploadPartCount plan) < 2 ^ 31" and conc: "0 < unat conc"
    and compl: "\<forall>c\<in>set cs. \<exists>n. 0 < n \<and> n \<le> unat (uploadPartCount plan) \<and> preparedFor se fs path key started plan n c"
    and run: "uploadParts se fs path key started plan conc cs w = (x, w')"
  shows "resume_sound se fs (uw_resume w')" and "db_sessions (uw_resume w') = db_sessions (uw_resume w)"
    and "x = Inr parts \<Longrightarrow> length parts = unat (uploadPartCount plan) \<and>
      (\<forall>k<length parts. preparedFor se fs path key started plan (Suc k) (parts ! k))"
proof -
  let ?env = "uploadEnv se fs path key started plan (uw_server w)"
  have env: "partCount ?env = unat (uploadPartCount plan)" "ue_started ?env = started"
    by (simp_all add: partCount_def uploadEnv_def)
  obtain init where init: "initialParts ?env cs = Inr init" "filledWith ?env init"
    using initialParts_filled [of cs ?env] compl by (auto simp: env prepared_uploadEnv)
  define s where "s = se_schedule se ?env init (unat conc)"
  define sent where "sent = map (\<lambda>n. uploadedParts s ! (n - 1)) (rev (sentParts s))"
  have sched: "valid_schedule (se_schedule se)" using laws by (simp add: service_laws_def)
  note threads = schedule_parts [OF sched init conc, folded s_def, unfolded env]
  have "\<exists>n. preparedFor se fs path key started plan n part \<and> 0 < n \<and> n < 2 ^ 31 \<and> n \<le> unat (uploadPartCount plan)"
    and rec: "su_providerUploadId started \<noteq> [] \<Longrightarrow> \<exists>rec. makeResumePartRecord se part = Inr rec" if "part \<in> set sent" for part
  proof -
    obtain n where n: "n \<in> set (sentParts s)" "part = uploadedParts s ! (n - 1)" using \<open>part \<in> set sent\<close> by (auto simp: sent_def)
    then have p: "0 < n" "n \<le> unat (uploadPartCount plan)" "processPart ?env (of_nat n) = Inr part" using threads(1) by auto
    then show "\<exists>n. preparedFor se fs path key started plan n part \<and> 0 < n \<and> n < 2 ^ 31 \<and> n \<le> unat (uploadPartCount plan)"
      using processPart_prepared [OF p(3)] small by (auto simp: prepared_uploadEnv intro!: exI [of _ n])
    assume "su_providerUploadId started \<noteq> []"
    then have "onPartUploaded ?env part = Inr ()"
      using p(3) by (auto simp: processPart_def bindR_eq_Inr Let_def env split: if_splits)
    then show "\<exists>rec. makeResumePartRecord se part = Inr rec" by (auto simp: uploadEnv_def bindR_eq_Inr)
  qed
  then obtain w1 where w1: "forE sent (savePart se started) w = (Inr (), w1)" "resume_sound se fs (uw_resume w1)"
      "db_sessions (uw_resume w1) = db_sessions (uw_resume w)"
    using saveParts_sound [OF sound has, of sent] by blast
  have "uploadParts se fs path key started plan conc cs w = (uploadResult s, w1\<lparr>uw_server := se_received se started sent (uw_server w1)\<rparr>)"
    using w1(1) unfolding sent_def
    by (simp add: uploadParts_def init(1) Let_def s_def [symmetric] bindE_def onServerW_def liftE_def)
  then have w': "x = uploadResult s" "uw_resume w' = uw_resume w1" using run by auto
  show "resume_sound se fs (uw_resume w')" "db_sessions (uw_resume w') = db_sessions (uw_resume w)" using w' w1 by simp_all
  show "length parts = unat (uploadPartCount plan) \<and>
      (\<forall>k<length parts. preparedFor se fs path key started plan (Suc k) (parts ! k))" if "x = Inr parts"
    using threads(2) [of parts] that w' by (simp add: prepared_uploadEnv)
qed

section \<open>One file\<close>

lemma readParts_sound:
  assumes "service_laws se" and "\<forall>rec\<in>set recs. part_sound se fs session key rec"
  shows "\<exists>parts. readParts se (createPlan (rs_localSize session)) recs = Inr parts \<and>
    (\<forall>part\<in>set parts. \<exists>n. sessionPart se fs session key n part)"
  using assms(2)
proof (induction recs)
  case (Cons rec recs)
  obtain n part where part: "sessionPart se fs session key n part" "makeResumePartRecord se part = Inr rec"
    using Cons.prems by (auto simp: part_sound_def)
  have "readUploadedPartResult se (createPlan (rs_localSize session)) rec = Inr part"
    by (rule resume_part_read [OF assms(1) part(2), of n]) (use part(1) in \<open>auto simp: sessionPart_def dest: preparedFor_plan\<close>)
  then show ?case using Cons part(1) by auto
qed simp

text \<open>A session that matches can always be resumed.\<close>

lemma resumeUpload_run:
  assumes laws: "service_laws se" and sound: "resume_sound se fs (uw_resume w)"
    and match: "matchingSession entry path sz mtime (createPlan sz) (uw_resume w) = Some session"
  shows "\<exists>cs key. resumeUpload se (createPlan sz) session w = (Inr (startResponseFromSession session, cs, key), w) \<and>
    hasSession se path key (startResponseFromSession session) (createPlan sz) (db_sessions (uw_resume w)) \<and>
    (\<forall>c\<in>set cs. \<exists>n. 0 < n \<and> n \<le> unat (uploadPartCount (createPlan sz)) \<and>
       preparedFor se fs path key (startResponseFromSession session) (createPlan sz) n c)"
proof -
  have found: "getSessionByLocalPath path (uw_resume w) = Some session" and sz: "rs_localSize session = sz"
    using match by (auto simp: matchingSession_def sessionMatchesEntry_def split: option.splits if_splits)
  note sess = resume_soundD [OF sound found]
  obtain key where key: "sessionKey se session = Inr key"
    and recs: "\<forall>rec\<in>set (listParts (rs_uploadSessionId session) (uw_resume w)). part_sound se fs session key rec"
    using sess(3) by blast
  obtain parts where parts: "readParts se (createPlan sz) (listParts (rs_uploadSessionId session) (uw_resume w)) = Inr parts"
      "\<forall>part\<in>set parts. \<exists>n. sessionPart se fs session key n part"
    using readParts_sound [OF laws recs] sz by auto
  have "resumeUpload se (createPlan sz) session w = (Inr (startResponseFromSession session, parts, key), w)"
    using parts(1) key by (simp add: resumeUpload_def sessionKey_def act_simps)
  moreover have "hasSession se path key (startResponseFromSession session) (createPlan sz) (db_sessions (uw_resume w))"
    using sess(1,2) key sz by (auto simp: hasSession_def startResponseFromSession_def)
  ultimately show ?thesis using parts(2) sess(2) sz by (auto simp: sessionPart_def)
qed

text \<open>
  A completed upload: there is a key and an answer of the server such that the completion the
  server accepted was made from all parts of the file under this key.
\<close>

definition uploadedAs ::
    "'srv service_env \<Rightarrow> files \<Rightarrow> string \<Rightarrow> Entry \<Rightarrow> UploadPlan \<Rightarrow> UploadFileResponse \<Rightarrow> 'srv \<Rightarrow>
     bytes \<Rightarrow> StartUploadResponse \<Rightarrow> UploadCompleteRequest \<Rightarrow> bool" where
  "uploadedAs se fs path entry plan response srv key started request \<longleftrightarrow>
     response = responseOf started \<and>
     (\<exists>parts artifacts srv0.
        length parts = unat (uploadPartCount plan) \<and>
        (\<forall>k<length parts. preparedFor se fs path key started plan (Suc k) (parts ! k)) \<and>
        prepareCompletion (finalizerEnv se path srv0) (e_size entry) started plan parts key = Inr (artifacts, request) \<and>
        se_uploadComplete se (su_uploadSessionId started) request srv0 = (Inr (), srv))"

lemma onServerW_resume [simp]: "uw_resume (snd (onServerW m w)) = uw_resume w"
  by (simp add: onServerW_def split: prod.split)

lemma onServerW_eq: "onServerW m w = (x, w') \<Longrightarrow> uw_resume w' = uw_resume w \<and> m (uw_server w) = (x, uw_server w')"
  by (auto simp: onServerW_def split: prod.splits)

lemma startUploadW_sound:
  assumes laws: "service_laws se" and sound: "resume_sound se fs (uw_resume w)"
    and run: "startUploadW se entry path sz mtime plan w = (x, w')"
  shows "resume_sound se fs (uw_resume w')"
    and "x = Inr (started, cs, key) \<Longrightarrow> cs = [] \<and> hasSession se path key started (createPlan sz) (db_sessions (uw_resume w'))"
proof -
  obtain y v where y: "onServerW (se_startUpload se (startRequest plan (e_parentFolderId entry))) w = (y, v)" by (meson surj_pair)
  have v: "resume_sound se fs (uw_resume v)" using onServerW_eq [OF y] sound by simp
  have "resume_sound se fs (uw_resume w') \<and>
    (x = Inr (started, cs, key) \<longrightarrow> cs = [] \<and> hasSession se path key started (createPlan sz) (db_sessions (uw_resume w')))"
  proof (cases y)
    case (Inl e)
    then show ?thesis using run y v by (auto simp: startUploadW_def bindE_def)
  next
    case (Inr st)
    obtain z u where z: "openSession se entry path sz mtime st v = (z, u)" by (meson surj_pair)
    show ?thesis using run y Inr z openSession_sound(1,3) [OF laws v z]
      by (cases z) (auto simp: startUploadW_def bindE_def returnE_def)
  qed
  then show "resume_sound se fs (uw_resume w')"
    and "x = Inr (started, cs, key) \<Longrightarrow> cs = [] \<and> hasSession se path key started (createPlan sz) (db_sessions (uw_resume w'))"
    by blast+
qed

lemma onResume_delete:
  assumes "resume_sound se fs (uw_resume w)"
  shows "\<exists>v. onResume (deleteSessionByLocalPath path) w = (Inr (), v) \<and> resume_sound se fs (uw_resume v)"
    and "\<exists>v. onResume (deleteSessionByUploadSessionId sid) w = (Inr (), v) \<and> resume_sound se fs (uw_resume v) \<and> uw_server v = uw_server w"
  using deletePath_run [OF assms, of path] resume_sound_delete [OF assms, of sid]
  by (auto simp: onResume_def split: prod.splits)

text \<open>From the session to the end of an attempt.\<close>

lemma finishUpload_sound:
  assumes laws: "service_laws se" and sound: "resume_sound se fs (uw_resume w)"
    and has: "hasSession se path key started plan (db_sessions (uw_resume w))"
    and small: "unat (uploadPartCount plan) < 2 ^ 31" and conc: "0 < unat conc"
    and compl: "\<forall>c\<in>set cs. \<exists>n. 0 < n \<and> n \<le> unat (uploadPartCount plan) \<and> preparedFor se fs path key started plan n c"
    and run: "bindE (uploadParts se fs path key started plan conc cs) (\<lambda>parts.
        bindE (completeUpload se path entry started plan parts key) (\<lambda>_.
        bindE (onResume (deleteSessionByUploadSessionId (su_uploadSessionId started))) (\<lambda>_.
          returnE (responseOf started)))) w = (x, w')"
  shows "resume_sound se fs (uw_resume w') \<and>
    (\<forall>response. x = Inr response \<longrightarrow> (\<exists>request. uploadedAs se fs path entry plan response (uw_server w') key started request))"
proof -
  obtain y v where y: "uploadParts se fs path key started plan conc cs w = (y, v)" by (meson surj_pair)
  note parts = uploadParts_sound [OF laws sound has small conc compl y]
  show ?thesis
  proof (cases y)
    case (Inl e)
    then show ?thesis using run y parts(1) by (auto simp: bindE_def)
  next
    case ps: (Inr ps)
    let ?fin = "prepareCompletion (finalizerEnv se path (uw_server v)) (e_size entry) started plan ps key"
    show ?thesis
    proof (cases ?fin)
      case (Inl e)
      then show ?thesis using run y ps parts(1)
        by (auto simp: bindE_def completeUpload_def prepareCompletionW_def liftE_def)
    next
      case (Inr ar)
      obtain a req where fin: "?fin = Inr (a, req)" using Inr by (cases ar) auto
      obtain z u where z: "onServerW (se_uploadComplete se (su_uploadSessionId started) req) v = (z, u)" by (meson surj_pair)
      have u: "uw_resume u = uw_resume v" "se_uploadComplete se (su_uploadSessionId started) req (uw_server v) = (z, uw_server u)"
        using onServerW_eq [OF z] by auto
      have complete: "completeUpload se path entry started plan ps key v = (map_sum id (\<lambda>_. a) z, u)"
        using fin z by (cases z) (simp_all add: completeUpload_def prepareCompletionW_def bindE_def liftE_def returnE_def)
      have "resume_sound se fs (uw_resume u)" using u parts(1) by simp
      from onResume_delete(2) [OF this] obtain t where t: "resume_sound se fs (uw_resume t)" "uw_server t = uw_server u"
          "onResume (deleteSessionByUploadSessionId (su_uploadSessionId started)) u = (Inr (), t)"
        by blast
      show ?thesis
      proof (cases z)
        case (Inl e)
        then show ?thesis using run y ps complete u parts(1) by (auto simp: bindE_def)
      next
        case ok: (Inr _)
        then have x: "x = Inr (responseOf started)" "w' = t" using run y ps complete t by (auto simp: bindE_def returnE_def)
        moreover have "uploadedAs se fs path entry plan (responseOf started) (uw_server t) key started req"
          using parts(3) [OF ps] fin u(2) ok t(2) unfolding uploadedAs_def by auto
        ultimately show ?thesis using t by auto
      qed
    qed
  qed
qed

lemma attemptUpload_sound:
  assumes laws: "service_laws se" and sound: "resume_sound se fs (uw_resume w)"
    and small: "unat (uploadPartCount (createPlan sz)) < 2 ^ 31" and conc: "0 < unat conc"
    and run: "attemptUpload se fs path entry path sz mtime (createPlan sz) conc w = (x, w')"
  shows "resume_sound se fs (uw_resume w') \<and>
    (\<forall>response. x = Inr response \<longrightarrow>
       (\<exists>key started request. uploadedAs se fs path entry (createPlan sz) response (uw_server w') key started request))"
proof -
  let ?plan = "createPlan sz"
  let ?session = "case matchingSession entry path sz mtime ?plan (uw_resume w) of
      Some session \<Rightarrow> resumeUpload se ?plan session
    | None \<Rightarrow> bindE (onResume (deleteSessionByLocalPath path)) (\<lambda>_. startUploadW se entry path sz mtime ?plan)"
  obtain y v where y: "?session w = (y, v)" by (meson surj_pair)
  have session: "resume_sound se fs (uw_resume v) \<and> (\<forall>started cs key. y = Inr (started, cs, key) \<longrightarrow>
      hasSession se path key started ?plan (db_sessions (uw_resume v)) \<and>
      (\<forall>c\<in>set cs. \<exists>n. 0 < n \<and> n \<le> unat (uploadPartCount ?plan) \<and> preparedFor se fs path key started ?plan n c))"
  proof (cases "matchingSession entry path sz mtime ?plan (uw_resume w)")
    case (Some session)
    then show ?thesis using resumeUpload_run [OF laws sound Some] y sound by auto
  next
    case None
    obtain u where u: "onResume (deleteSessionByLocalPath path) w = (Inr (), u)" "resume_sound se fs (uw_resume u)"
      using onResume_delete(1) [OF sound] by blast
    then have "startUploadW se entry path sz mtime ?plan u = (y, v)" using y None by (simp add: bindE_def)
    note st = startUploadW_sound [OF laws u(2) this]
    show ?thesis using st(1) st(2) by auto
  qed
  show ?thesis
  proof (cases y)
    case (Inl e)
    then show ?thesis using run y session by (auto simp: attemptUpload_def bindE_def getsE_def)
  next
    case (Inr triple)
    obtain started cs key where triple: "triple = (started, cs, key)" by (cases triple)
    have v: "resume_sound se fs (uw_resume v)" "hasSession se path key started ?plan (db_sessions (uw_resume v))"
        "\<forall>c\<in>set cs. \<exists>n. 0 < n \<and> n \<le> unat (uploadPartCount ?plan) \<and> preparedFor se fs path key started ?plan n c"
      using session Inr triple by auto
    have "bindE (uploadParts se fs path key started ?plan conc cs) (\<lambda>parts.
        bindE (completeUpload se path entry started ?plan parts key) (\<lambda>_.
        bindE (onResume (deleteSessionByUploadSessionId (su_uploadSessionId started))) (\<lambda>_.
          returnE (responseOf started)))) v = (x, w')"
      using run y Inr triple by (simp add: attemptUpload_def bindE_def [of "getsE _"] getsE_def bindE_def [of ?session])
    from finishUpload_sound [OF laws v(1,2) small conc v(3) this] show ?thesis by blast
  qed
qed

text \<open>Files of less than 8 PiB, under paths in normal form.\<close>

definition uploadable :: "'srv service_env \<Rightarrow> string \<Rightarrow> Entry \<Rightarrow> bool" where
  "uploadable se path entry \<longleftrightarrow>
     normalizeFsPath (se_cwd se) path = Inr path \<and> (\<forall>sz. e_size entry = Some sz \<longrightarrow> sz < 2 ^ 53)"

lemma small_plan:
  assumes "0 \<le> sz" and "sz < 2 ^ 53"
  shows "unat (uploadPartCount (createPlan (word_of_int sz))) < 2 ^ 31"
    and "uploadPartCount (createPlan (word_of_int sz)) \<noteq> 0"
proof -
  let ?w = "word_of_int sz :: 64 word"
  have "uint ?w = sz" using assms by (simp add: uint_word_of_int_eq take_bit_int_eq_self)
  then have u: "unat ?w < 2 ^ 53" using assms by (simp add: unat_eq_nat_uint)
  then have count: "unat (uploadPartCount (createPlan ?w)) =
      max 1 ((unat ?w + part_size_nat (unat ?w) - 1) div part_size_nat (unat ?w))"
    by (intro uploadPartCount_nat file_size_small) simp
  have "(unat ?w + 8388607) div 8388608 < 2 ^ 31" using u by (simp add: less_mult_imp_div_less)
  then show "unat (uploadPartCount (createPlan ?w)) < 2 ^ 31"
    unfolding count part_size_nat_def by (auto simp: div_less_iff_less_mult)
  have "unat (uploadPartCount (createPlan ?w)) \<noteq> 0" unfolding count by simp
  then show "uploadPartCount (createPlan ?w) \<noteq> 0" by auto
qed

lemma uploadLimits_resume: "uploadLimits se w = (x, w') \<Longrightarrow> uw_resume w' = uw_resume w"
  by (auto simp: uploadLimits_def act_simps onServerW_def split: option.splits prod.splits sum.splits)

lemma uploadFile_sound:
  assumes laws: "service_laws se" and sound: "resume_sound se fs (uw_resume w)" and up: "uploadable se path entry"
    and run: "uploadFile se fs path entry w = (x, w')"
  shows "resume_sound se fs (uw_resume w') \<and>
    (\<forall>response. x = Inr response \<longrightarrow> (\<exists>sz key started request. e_size entry = Some sz \<and> 0 \<le> sz \<and>
       uploadedAs se fs path entry (createPlan (word_of_int sz)) response (uw_server w') key started request))"
proof (cases "e_isDirectory entry \<or> e_size entry = None \<or> (\<exists>sz. e_size entry = Some sz \<and> sz < 0)")
  case True
  then have "isl x" "w' = w"
    using run by (cases "e_isDirectory entry"; cases "e_size entry"; auto simp: uploadFile_def throwE_def)+
  then show ?thesis using sound by auto
next
  case False
  then obtain sz where sz: "\<not> e_isDirectory entry" "e_size entry = Some sz" "0 \<le> sz" by auto
  let ?plan = "createPlan (word_of_int sz)"
  note small = small_plan [OF sz(3)]
  have path: "normalizeFsPath (se_cwd se) path = Inr path" and lim: "sz < 2 ^ 53" using up sz(2) by (auto simp: uploadable_def)
  obtain y v where y: "uploadLimits se w = (y, v)" by (meson surj_pair)
  have v: "resume_sound se fs (uw_resume v)" using uploadLimits_resume [OF y] sound by simp
  show ?thesis
  proof (cases y)
    case (Inl e)
    then show ?thesis using run sz path y v by (auto simp: uploadFile_def bindE_def liftE_def Let_def)
  next
    case (Inr limits)
    let ?conc = "resolvePartConcurrency (uploadPartCount ?plan) (sint (ul_partConcurrency limits))"
    let ?attempt = "attemptUpload se fs path entry path (word_of_int sz) (currentMtimeString path fs) ?plan ?conc"
    note attempt = attemptUpload_sound [OF laws _ small(1) [OF lim] resolvePartConcurrency_pos [OF small(2) [OF lim]],
        where path = path and entry = entry and mtime = "currentMtimeString path fs"]
    obtain z u where z: "?attempt v = (z, u)" by (meson surj_pair)
    note first = attempt [OF v z]
    let ?used = "matchingSession entry path (word_of_int sz) (currentMtimeString path fs) ?plan (uw_resume v) \<noteq> None"
    have r: "(case z of Inl e \<Rightarrow> if ?used \<and> shouldResetResumeSession e
          then bindE (onResume (deleteSessionByLocalPath path)) (\<lambda>_. ?attempt) u else (Inl e, u) | Inr a \<Rightarrow> (Inr a, u)) = (x, w')"
      using run sz path y Inr z by (auto simp: uploadFile_def bindE_def liftE_def getsE_def catchE_def throwE_def Let_def split: sum.splits if_splits)
    show ?thesis
    proof (cases "\<exists>e. z = Inl e \<and> ?used \<and> shouldResetResumeSession e")
      case True
      obtain t where t: "onResume (deleteSessionByLocalPath path) u = (Inr (), t)" "resume_sound se fs (uw_resume t)"
        using onResume_delete(1) first by blast
      then have "?attempt t = (x, w')" using r True by (auto simp: bindE_def)
      from attempt [OF t(2) this] show ?thesis using sz by blast
    next
      case False
      then have "x = z" "w' = u" using r by (auto split: sum.splits)
      then show ?thesis using first sz by blast
    qed
  qed
qed

section \<open>A batch of files\<close>

text \<open>A context as the triage leaves it, and one whose upload was started.\<close>

definition contextOk :: "'srv service_env \<Rightarrow> upload_context \<Rightarrow> bool" where
  "contextOk se c \<longleftrightarrow> cx_localPath c = bi_path (cx_item c) \<and> cx_plan c = createPlan (cx_originalSize c) \<and>
     unat (uploadPartCount (cx_plan c)) < 2 ^ 31 \<and> 0 < unat (cx_partConcurrency c)"

definition contextHas :: "'srv service_env \<Rightarrow> session_row list \<Rightarrow> upload_context \<Rightarrow> bool" where
  "contextHas se t c \<longleftrightarrow> hasSession se (bi_path (cx_item c)) (cx_fileKey c) (cx_started c) (cx_plan c) t"

lemma triageItem_sound:
  assumes laws: "service_laws se" and sound: "resume_sound se fs (uw_resume w)" and up: "uploadable se (bi_path item) (bi_entry item)"
    and run: "triageItem se fs limits item w = (x, w')"
  shows "resume_sound se fs (uw_resume w')" and "\<exists>result ctx. x = Inr (result, ctx) \<and>
    (\<forall>c. ctx = Some c \<longrightarrow> contextOk se c \<and> cx_item c = item \<and> su_uploadSessionId (cx_started c) = [])"
proof -
  let ?good = "\<lambda>x w'. resume_sound se fs (uw_resume w') \<and> (\<exists>result ctx. x = Inr (result, ctx) \<and>
    (\<forall>c. ctx = Some c \<longrightarrow> contextOk se c \<and> cx_item c = item \<and> su_uploadSessionId (cx_started c) = []))"
  have "?good x w'"
  proof (cases "e_isDirectory (bi_entry item) \<or> e_size (bi_entry item) = None \<or> (\<exists>sz. e_size (bi_entry item) = Some sz \<and> sz < 0)")
    case True
    then have "\<exists>result. x = Inr (result, None)" "w' = w"
      using run by (cases "e_isDirectory (bi_entry item)"; cases "e_size (bi_entry item)"; auto simp: triageItem_def tryItem_def act_simps)+
    then show ?thesis using sound by auto
  next
    case False
    then obtain sz where sz: "\<not> e_isDirectory (bi_entry item)" "e_size (bi_entry item) = Some sz" "0 \<le> sz" by auto
    have path: "normalizeFsPath (se_cwd se) (bi_path item) = Inr (bi_path item)" and lim: "sz < 2 ^ 53"
      using up sz(2) by (auto simp: uploadable_def)
    note small = small_plan [OF sz(3) lim]
    let ?match = "matchingSession (bi_entry item) (bi_path item) (word_of_int sz) (currentMtimeString (bi_path item) fs)
        (createPlan (word_of_int sz)) (uw_resume w)"
    show ?thesis
    proof (cases ?match)
      case None
      obtain v where v: "onResume (deleteSessionByLocalPath (bi_path item)) w = (Inr (), v)" "resume_sound se fs (uw_resume v)"
        using onResume_delete(1) [OF sound] by blast
      then show ?thesis
        using run sz path None small resolvePartConcurrency_pos [OF small(2)]
        by (auto simp: triageItem_def tryItem_def act_simps Let_def contextOk_def notStarted_def)
    next
      case (Some session)
      obtain y v where y: "uploadFile se fs (bi_path item) (bi_entry item) w = (y, v)" by (meson surj_pair)
      have "resume_sound se fs (uw_resume v)" using uploadFile_sound [OF laws sound up y] by blast
      moreover have "w' = v" "\<exists>result. x = Inr (result, None)"
        using run sz path Some y by (cases y; auto simp: triageItem_def tryItem_def act_simps Let_def)+
      ultimately show ?thesis by auto
    qed
  qed
  then show "resume_sound se fs (uw_resume w')" and "\<exists>result ctx. x = Inr (result, ctx) \<and>
    (\<forall>c. ctx = Some c \<longrightarrow> contextOk se c \<and> cx_item c = item \<and> su_uploadSessionId (cx_started c) = [])"
    by blast+
qed

lemma triage_sound:
  assumes laws: "service_laws se" and "resume_sound se fs (uw_resume w)"
    and "\<forall>item\<in>set items. uploadable se (bi_path item) (bi_entry item)" and "distinct (map bi_path items)"
    and "triage se fs limits items w = (x, w')"
  shows "resume_sound se fs (uw_resume w') \<and> (\<exists>results cs. x = Inr (results, cs) \<and>
    (\<forall>c\<in>set cs. contextOk se c \<and> cx_item c \<in> set items \<and> su_uploadSessionId (cx_started c) = []) \<and> distinct (map cx_localPath cs))"
  using assms(2-)
proof (induction items arbitrary: w x)
  case (Cons item items)
  obtain y v where y: "triageItem se fs limits item w = (y, v)" by (meson surj_pair)
  have up: "uploadable se (bi_path item) (bi_entry item)" using Cons.prems(2) by simp
  note one = triageItem_sound [OF laws Cons.prems(1) up y]
  obtain result ctx where rc: "y = Inr (result, ctx)"
      "\<forall>c. ctx = Some c \<longrightarrow> contextOk se c \<and> cx_item c = item \<and> su_uploadSessionId (cx_started c) = []"
    using one(2) by blast
  obtain z u where z: "triage se fs limits items v = (z, u)" by (meson surj_pair)
  have "resume_sound se fs (uw_resume u) \<and> (\<exists>results cs. z = Inr (results, cs) \<and>
    (\<forall>c\<in>set cs. contextOk se c \<and> cx_item c \<in> set items \<and> su_uploadSessionId (cx_started c) = []) \<and> distinct (map cx_localPath cs))"
    if "w' = u"
    using Cons.IH [OF one(1), of z] Cons.prems(2,3) z that by simp
  moreover have "w' = u" using Cons.prems(4) y rc(1) z by (cases z) (auto simp: bindE_def returnE_def split: sum.splits)
  ultimately obtain results cs where u: "resume_sound se fs (uw_resume u)" "z = Inr (results, cs)"
      "\<forall>c\<in>set cs. contextOk se c \<and> cx_item c \<in> set items \<and> su_uploadSessionId (cx_started c) = []" "distinct (map cx_localPath cs)"
    by blast
  have x: "x = Inr (result # results, case ctx of None \<Rightarrow> cs | Some c \<Rightarrow> c # cs)"
    using Cons.prems(4) y rc(1) z u(2) by (simp add: bindE_def returnE_def)
  have fresh: "bi_path item \<notin> cx_localPath ` set cs"
  proof
    assume "bi_path item \<in> cx_localPath ` set cs"
    then obtain c where "c \<in> set cs" "cx_localPath c = bi_path item" by (metis imageE)
    then have "bi_path item \<in> bi_path ` set items" using u(3) unfolding contextOk_def by (metis image_eqI)
    then show False using Cons.prems(3) by simp
  qed
  show ?case
  proof (cases ctx)
    case None
    then show ?thesis using x u \<open>w' = u\<close> by simp
  next
    case (Some c)
    then have c: "contextOk se c" "cx_item c = item" "su_uploadSessionId (cx_started c) = []" using rc(2) by auto
    then have "cx_localPath c \<notin> set (map cx_localPath cs)" using fresh by (simp add: contextOk_def)
    then show ?thesis using x u \<open>w' = u\<close> c Some by simp
  qed
qed (simp add: returnE_def)

lemma hasSession_mono:
  assumes "hasSession se path key started plan t"
    and "\<And>r. r \<in> set t \<Longrightarrow> rs_localPath (ss_record r) = path \<Longrightarrow> r \<in> set t'"
  shows "hasSession se path key started plan t'"
  using assms unfolding hasSession_def by blast

text \<open>
  Opening the sessions of the contexts, which are for different paths, one after the other: every
  context that was started has its session, and sessions of other paths stay.
\<close>

definition sessionsOpened ::
    "'srv service_env \<Rightarrow> upload_context list \<Rightarrow> session_row list \<Rightarrow> session_row list \<Rightarrow> upload_context list \<Rightarrow> bool" where
  "sessionsOpened se cs t t' fresh \<longleftrightarrow>
     map cx_item fresh = map cx_item cs \<and> (\<forall>c\<in>set fresh. contextOk se c \<and> (su_uploadSessionId (cx_started c) \<noteq> [] \<longrightarrow> contextHas se t' c))"

lemma openSessions_sound:
  assumes laws: "service_laws se" and "resume_sound se fs (uw_resume w)"
    and "\<forall>c\<in>set cs. contextOk se c \<and> su_uploadSessionId (cx_started c) = []" and "distinct (map cx_localPath cs)"
    and "openSessions se answers cs results w = (x, w')"
  shows "resume_sound se fs (uw_resume w') \<and>
    (\<forall>r\<in>set (db_sessions (uw_resume w)). rs_localPath (ss_record r) \<notin> cx_localPath ` set cs \<longrightarrow> r \<in> set (db_sessions (uw_resume w'))) \<and>
    (\<forall>fresh results'. x = Inr (fresh, results') \<longrightarrow>
      sessionsOpened se cs (db_sessions (uw_resume w)) (db_sessions (uw_resume w')) fresh)"
  using assms(2-)
proof (induction cs arbitrary: w x results)
  case Nil
  then show ?case by (auto simp: returnE_def sessionsOpened_def)
next
  case (Cons c cs)
  let ?answer = "find (\<lambda>r. bsr_clientId r = bi_id (cx_item c)) answers"
  have c: "contextOk se c" "su_uploadSessionId (cx_started c) = []" and cs: "cx_localPath c \<notin> cx_localPath ` set cs"
    using Cons.prems by auto
  show ?case
  proof (cases "Option.bind ?answer bsr_upload")
    case None
    obtain y v where y: "openSessions se answers cs (setError (bi_id (cx_item c)) (startError ?answer) results) w = (y, v)"
      by (meson surj_pair)
    have v: "w' = v" "x = (case y of Inl e \<Rightarrow> Inl e | Inr (fresh, r) \<Rightarrow> Inr (c # fresh, r))"
      using Cons.prems(4) None y by (auto simp: bindE_def returnE_def Let_def split: sum.splits prod.splits)
    have rest: "resume_sound se fs (uw_resume w') \<and>
      (\<forall>r\<in>set (db_sessions (uw_resume w)). rs_localPath (ss_record r) \<notin> cx_localPath ` set cs \<longrightarrow> r \<in> set (db_sessions (uw_resume w'))) \<and>
      (\<forall>fresh results'. y = Inr (fresh, results') \<longrightarrow>
        sessionsOpened se cs (db_sessions (uw_resume w)) (db_sessions (uw_resume w')) fresh)"
      by (rule Cons.IH [OF Cons.prems(1) _ _ y [folded v(1)]]) (use Cons.prems in auto)
    show ?thesis
    proof (intro conjI ballI allI impI)
      show "resume_sound se fs (uw_resume w')" using rest by blast
      show "r \<in> set (db_sessions (uw_resume w'))"
        if "r \<in> set (db_sessions (uw_resume w))" "rs_localPath (ss_record r) \<notin> cx_localPath ` set (c # cs)" for r
        using rest Cons.prems(1) that by auto
      show "sessionsOpened se (c # cs) (db_sessions (uw_resume w)) (db_sessions (uw_resume w')) fresh"
        if x: "x = Inr (fresh, results')" for fresh results'
      proof -
        obtain f where "y = Inr (f, results')" "fresh = c # f" using v(2) x by (cases y) auto
        then show ?thesis using rest c by (simp add: sessionsOpened_def)
      qed
    qed
  next
    case (Some started)
    obtain k v where k: "openSession se (bi_entry (cx_item c)) (cx_localPath c) (cx_originalSize c) (cx_localMtime c) started w = (k, v)"
      by (meson surj_pair)
    note new = openSession_sound [OF laws Cons.prems(1) k]
    show ?thesis
    proof (cases k)
      case (Inl e)
      then have "x = Inl e" "w' = v" using Cons.prems(4) Some k by (auto simp: bindE_def Let_def)
      then show ?thesis using new(1,2) by auto
    next
      case (Inr key)
      obtain y u where y: "openSessions se answers cs results v = (y, u)" by (meson surj_pair)
      let ?c = "c\<lparr>cx_started := started, cx_fileKey := key\<rparr>"
      have v: "w' = u" "x = (case y of Inl e \<Rightarrow> Inl e | Inr (fresh, r) \<Rightarrow> Inr (?c # fresh, r))"
        using Cons.prems(4) Some k Inr y by (auto simp: bindE_def returnE_def Let_def split: sum.splits prod.splits)
      have rest: "resume_sound se fs (uw_resume w') \<and>
        (\<forall>r\<in>set (db_sessions (uw_resume v)). rs_localPath (ss_record r) \<notin> cx_localPath ` set cs \<longrightarrow> r \<in> set (db_sessions (uw_resume w'))) \<and>
        (\<forall>fresh results'. y = Inr (fresh, results') \<longrightarrow>
          sessionsOpened se cs (db_sessions (uw_resume v)) (db_sessions (uw_resume w')) fresh)"
        by (rule Cons.IH [OF new(1) _ _ y [folded v(1)]]) (use Cons.prems in auto)
      have "hasSession se (cx_localPath c) key started (createPlan (cx_originalSize c)) (db_sessions (uw_resume v))"
        using new(3) [OF Inr] by blast
      then have "hasSession se (cx_localPath c) key started (createPlan (cx_originalSize c)) (db_sessions (uw_resume w'))"
        by (rule hasSession_mono) (use rest cs in auto)
      then have has: "contextHas se (db_sessions (uw_resume w')) ?c" "contextOk se ?c"
        using c(1) by (auto simp: contextHas_def contextOk_def)
      show ?thesis
      proof (intro conjI ballI allI impI)
        show "resume_sound se fs (uw_resume w')" using rest by blast
        show "r \<in> set (db_sessions (uw_resume w'))"
          if "r \<in> set (db_sessions (uw_resume w))" "rs_localPath (ss_record r) \<notin> cx_localPath ` set (c # cs)" for r
          using rest new(2) that by auto
        show "sessionsOpened se (c # cs) (db_sessions (uw_resume w)) (db_sessions (uw_resume w')) fresh"
          if x: "x = Inr (fresh, results')" for fresh results'
        proof -
          obtain f where "y = Inr (f, results')" "fresh = ?c # f" using v(2) x by (cases y) auto
          then show ?thesis using rest has by (simp add: sessionsOpened_def)
        qed
      qed
    qed
  qed
qed

lemma transfer_sound:
  assumes laws: "service_laws se" and sound: "resume_sound se fs (uw_resume w)" and c: "contextOk se c" "contextHas se (db_sessions (uw_resume w)) c"
    and run: "transfer se fs c w = (x, w')"
  shows "resume_sound se fs (uw_resume w')" and "db_sessions (uw_resume w') = db_sessions (uw_resume w)" and "\<exists>p. x = Inr p"
proof -
  obtain y v where y: "uploadParts se fs (bi_path (cx_item c)) (cx_fileKey c) (cx_started c) (cx_plan c) (cx_partConcurrency c) [] w = (y, v)"
    by (meson surj_pair)
  note parts = uploadParts_sound [OF laws sound c(2) [unfolded contextHas_def] _ _ _ y]
  have "w' = v" "\<exists>p. x = Inr p"
    using run y by (cases y; auto simp: transfer_def act_simps prepareCompletionW_def split: sum.splits)+
  then show "resume_sound se fs (uw_resume w')" "db_sessions (uw_resume w') = db_sessions (uw_resume w)" "\<exists>p. x = Inr p"
    using parts(1,2) c(1) by (auto simp: contextOk_def)
qed

lemma transferAll_sound:
  assumes laws: "service_laws se" and "resume_sound se fs (uw_resume w)"
    and "\<forall>c\<in>set cs. contextOk se c \<and> contextHas se (db_sessions (uw_resume w)) c" and "transferAll se fs cs w = (x, w')"
  shows "resume_sound se fs (uw_resume w')"
  using assms(2-)
proof (induction cs arbitrary: w x)
  case (Cons c cs)
  obtain y v where y: "transfer se fs c w = (y, v)" by (meson surj_pair)
  note one = transfer_sound [OF laws Cons.prems(1) _ _ y]
  have v: "resume_sound se fs (uw_resume v)" "db_sessions (uw_resume v) = db_sessions (uw_resume w)" "\<exists>p. y = Inr p"
    using one Cons.prems(2) by auto
  obtain z u where z: "transferAll se fs cs v = (z, u)" by (meson surj_pair)
  then have "w' = u" using Cons.prems(3) y v(3) by (cases z) (auto simp: bindE_def returnE_def)
  then show ?case using Cons.IH [OF v(1) _ z [folded \<open>w' = u\<close>]] Cons.prems(2) v(2) by simp
qed (simp add: returnE_def)

lemma settleCompletions_sound:
  "resume_sound se fs (uw_resume w) \<Longrightarrow> resume_sound se fs (uw_resume (snd (settleCompletions answers ps results w)))"
proof (induction answers ps results arbitrary: w rule: settleCompletions.induct)
  case (3 answers c request ps results)
  obtain v where v: "onResume (deleteSessionByUploadSessionId (su_uploadSessionId (cx_started c))) w = (Inr (), v)"
      "resume_sound se fs (uw_resume v)"
    using onResume_delete(2) [OF 3(5)] by blast
  then show ?case using 3 by (auto simp: bindE_def split: option.split)
qed (simp_all add: returnE_def)

lemma bindE_run:
  "m s = (Inl e, t) \<Longrightarrow> bindE m f s = (Inl e, t)"
  "m s = (Inr y, t) \<Longrightarrow> bindE m f s = f y t"
  by (simp_all add: bindE_def)

lemma transferOrder_subset: "set (transferOrder fresh) \<subseteq> {c \<in> set fresh. su_uploadSessionId (cx_started c) \<noteq> []}"
  by (auto simp: transferOrder_def)

lemma uploadFilesBatch_sound:
  assumes laws: "service_laws se" and sound: "resume_sound se fs (uw_resume w)"
    and items: "\<forall>item\<in>set items. uploadable se (bi_path item) (bi_entry item)" "distinct (map bi_path items)"
  shows "resume_sound se fs (uw_resume (snd (uploadFilesBatch se fs items w)))"
proof -
  obtain y v where y: "uploadLimits se w = (y, v)" by (meson surj_pair)
  have v: "resume_sound se fs (uw_resume v)" using uploadLimits_resume [OF y] sound by simp
  show ?thesis
  proof (cases y)
    case limits: (Inr limits)
    obtain z w1 where z: "triage se fs limits items v = (z, w1)" by (meson surj_pair)
    obtain results cs where w1: "resume_sound se fs (uw_resume w1)" "z = Inr (results, cs)"
        "\<forall>c\<in>set cs. contextOk se c \<and> cx_item c \<in> set items \<and> su_uploadSessionId (cx_started c) = []" "distinct (map cx_localPath cs)"
      using triage_sound [OF laws v items z] by blast
    obtain a w2 where a: "onServerW (inPages (se_startUploadBatch se) (map batchStartRequest cs)) w1 = (a, w2)" by (meson surj_pair)
    have w2: "resume_sound se fs (uw_resume w2)" using onServerW_eq [OF a] w1(1) by simp
    have start: "uploadFilesBatch se fs items w = (if cs = [] then (Inr results, w1) else
        bindE (onServerW (inPages (se_startUploadBatch se) (map batchStartRequest cs))) (\<lambda>answers.
        bindE (openSessions se answers cs results) (\<lambda>(fresh, started).
        bindE (transferAll se fs (transferOrder fresh)) (\<lambda>prepared.
        case reportTransfers prepared started of (completions, reported) \<Rightarrow>
        bindE (onServerW (inPages (se_uploadCompleteBatch se) completions)) (\<lambda>completed.
          settleCompletions completed prepared reported)))) w1)"
      using y limits z w1(2) by (simp add: uploadFilesBatch_def bindE_run(2) returnE_def)
    show ?thesis
    proof (cases a)
      case (Inl e)
      then show ?thesis unfolding start using a w1(1) w2 by (simp add: bindE_run(1))
    next
      case answers: (Inr answers)
      obtain b w3 where b: "openSessions se answers cs results w2 = (b, w3)" by (meson surj_pair)
      have opened: "resume_sound se fs (uw_resume w3) \<and> (\<forall>fresh results'. b = Inr (fresh, results') \<longrightarrow>
          sessionsOpened se cs (db_sessions (uw_resume w2)) (db_sessions (uw_resume w3)) fresh)"
        using openSessions_sound [OF laws w2 _ w1(4) b] w1(3) by blast
      show ?thesis
      proof (cases b)
        case (Inl e)
        then show ?thesis unfolding start using a answers b opened w1(1) by (simp add: bindE_run)
      next
        case (Inr fr)
        obtain fresh started where fr: "fr = (fresh, started)" by (cases fr)
        have "\<forall>c\<in>set (transferOrder fresh). contextOk se c \<and> contextHas se (db_sessions (uw_resume w3)) c"
          using opened Inr fr transferOrder_subset [of fresh] by (auto simp: sessionsOpened_def)
        moreover obtain p w4 where p: "transferAll se fs (transferOrder fresh) w3 = (p, w4)" by (meson surj_pair)
        ultimately have w4: "resume_sound se fs (uw_resume w4)" using transferAll_sound [OF laws _ _ p] opened by blast
        show ?thesis
        proof (cases p)
          case (Inl e)
          then show ?thesis unfolding start using a answers b Inr fr p w4 w1(1) by (simp add: bindE_run)
        next
          case prepared: (Inr prepared)
          obtain completions reported where rep: "reportTransfers prepared started = (completions, reported)" by (meson surj_pair)
          obtain q w5 where q: "onServerW (inPages (se_uploadCompleteBatch se) completions) w4 = (q, w5)" by (meson surj_pair)
          have "resume_sound se fs (uw_resume w5)" using onServerW_eq [OF q] w4 by simp
          then show ?thesis unfolding start using a answers b Inr fr p prepared rep q w1(1)
            by (cases q) (simp_all add: bindE_run settleCompletions_sound)
        qed
      qed
    qed
  qed (use y v in \<open>simp add: uploadFilesBatch_def bindE_def\<close>)
qed

section \<open>Any number of attempts\<close>

text \<open>
  What may happen to the sessions of a process: attempts to upload single files and batches of
  different files, and changes of the server in between.
\<close>

inductive upload_attempt :: "'srv service_env \<Rightarrow> files \<Rightarrow> 'srv upload_world \<Rightarrow> 'srv upload_world \<Rightarrow> bool" for se fs where
  single: "uploadable se path entry \<Longrightarrow> upload_attempt se fs w (snd (uploadFile se fs path entry w))"
| batch: "\<forall>item\<in>set items. uploadable se (bi_path item) (bi_entry item) \<Longrightarrow> distinct (map bi_path items) \<Longrightarrow>
    upload_attempt se fs w (snd (uploadFilesBatch se fs items w))"
| server: "upload_attempt se fs w (w\<lparr>uw_server := srv\<rparr>)"

interpretation resumption: transition_system "\<lambda>w. uw_resume w = \<lparr>db_sessions = [], db_parts = []\<rparr>"
    "\<lambda>w w'. service_laws se \<and> upload_attempt se fs w w'" "\<lambda>w. resume_sound se fs (uw_resume w)" for se :: "'srv service_env" and fs
proof
  show "resume_sound se fs (uw_resume w)" if "uw_resume w = \<lparr>db_sessions = [], db_parts = []\<rparr>" for w :: "'srv upload_world"
    using that resume_sound_start by simp
  fix w w' :: "'srv upload_world"
  assume step: "service_laws se \<and> upload_attempt se fs w w'" and sound: "resume_sound se fs (uw_resume w)"
  from step have laws: "service_laws se" and att: "upload_attempt se fs w w'" by auto
  from att show "resume_sound se fs (uw_resume w')"
  proof cases
    case (single path entry)
    then show ?thesis using uploadFile_sound [OF laws sound] by (metis surjective_pairing)
  next
    case (batch items)
    then show ?thesis using uploadFilesBatch_sound [OF laws sound] by simp
  qed (use sound in simp)
qed

lemma attempts_sound:
  assumes "service_laws se" and "uw_resume w0 = \<lparr>db_sessions = [], db_parts = []\<rparr>" and "(upload_attempt se fs)\<^sup>*\<^sup>* w0 w"
  shows "resume_sound se fs (uw_resume w)"
proof (rule resumption.invar_reachable [where se = se, OF assms(2)])
  show "(\<lambda>w w'. service_laws se \<and> upload_attempt se fs w w')\<^sup>*\<^sup>* w0 w" using assms(3,1) by simp
qed

text \<open>The library encrypts and hashes everything, and a ciphertext is a little longer than its plaintext.\<close>

definition total_library :: "crypto_lib \<Rightarrow> bool" where
  "total_library lib \<longleftrightarrow>
     (\<forall>key aad p. key \<noteq> [] \<longrightarrow> (\<exists>c. lib_encryptChunk lib key aad p = Inr c \<and> length c \<le> length p + 64)) \<and>
     (\<forall>bs. \<exists>h. lib_blake3Hash lib bs = Inr h)"

lemma offset_bound:
  assumes "\<And>i. i < n \<Longrightarrow> length (f i) \<le> b"
  shows "offset f n \<le> n * b"
  using assms by (induction n) (fastforce simp: offset_def)+

lemma uploads_total:
  assumes laws: "service_laws se" "total_library (se_crypto se)"
    and content: "readContent path fs = Some content" "0 < length content" "length content < 2 ^ 53" and key: "key \<noteq> []"
  shows "\<exists>ct hash. uploads (uploadEnv se fs path key started (createPlan (of_nat (length content))) srv) content ct hash \<and>
    offset ct (chunks_nat (length content)) < 2 ^ 64"
proof -
  let ?env = "uploadEnv se fs path key started (createPlan (of_nat (length content))) srv"
  let ?cipher = "chunk_cipher (se_crypto se) key (su_vaultId started) (su_fileId started) kChunkSize
      (totalChunks (createPlan (of_nat (length content)))) content"
  have "\<exists>c. ?cipher i = Inr c \<and> length c \<le> 4194304 + 64 \<and> c \<noteq> []" for i
  proof -
    obtain c where c: "?cipher i = Inr c" "length c \<le> length (chunk_at (unat kChunkSize) content i) + 64"
      using laws(2) key unfolding total_library_def chunk_cipher_def by blast
    moreover have "c \<noteq> []" using laws(1) c(1) unfolding service_laws_def chunk_cipher_def by blast
    ultimately show ?thesis by (auto simp: length_chunk_at kChunkSize_def)
  qed
  then obtain ct where ct: "\<And>i. ?cipher i = Inr (ct i)" "\<And>i. length (ct i) \<le> 4194304 + 64" "\<And>i. ct i \<noteq> []" by metis
  obtain hash where hash: "\<And>bs. lib_blake3Hash (se_crypto se) bs = Inr (hash bs)"
    using laws(2) unfolding total_library_def by metis
  have "uploads ?env content ct hash" using content key ct hash by (simp add: uploads_def uploadEnv_def)
  moreover have "chunks_nat (length content) \<le> 2 ^ 31" using content(3) unfolding chunks_nat_def by simp
  then have "chunks_nat (length content) * (4194304 + 64) \<le> 2 ^ 31 * (4194304 + 64)" by (rule mult_le_mono1)
  then have "offset ct (chunks_nat (length content)) < 2 ^ 64"
    using offset_bound [of "chunks_nat (length content)" ct "4194304 + 64"] ct(2) by fastforce
  ultimately show ?thesis by blast
qed

section \<open>The results of a batch\<close>

lemma ids_update_first: "(\<And>r. br_id (f r) = br_id r) \<Longrightarrow> map br_id (update_first p f results) = map br_id results"
  by (induction results) simp_all

lemma ids_setError [simp]: "map br_id (setError i e results) = map br_id results"
  by (simp add: setError_def ids_update_first)

lemma triageItem_id:
  assumes "triageItem se fs limits item w = (x, w')"
  shows "\<exists>result ctx. x = Inr (result, ctx) \<and> br_id result = bi_id item"
proof -
  obtain y v where y: "tryItem se fs limits item w = (y, v)" by (meson surj_pair)
  have "br_id result = bi_id item" if "y = Inr (result, ctx)" for result ctx
    using y that
    by (auto simp: tryItem_def act_simps Let_def itemResult_def
        split: bool.splits option.splits sum.splits prod.splits if_splits)
  then show ?thesis using assms y by (cases y) (auto simp: triageItem_def act_simps itemResult_def)
qed

lemma triage_ids: "triage se fs limits items w = (Inr (results, cs), w') \<Longrightarrow> map br_id results = map bi_id items"
proof (induction items arbitrary: w results cs)
  case (Cons item items)
  obtain y v where y: "triageItem se fs limits item w = (y, v)" by (meson surj_pair)
  then obtain result ctx where "y = Inr (result, ctx)" "br_id result = bi_id item" using triageItem_id by blast
  then show ?case using Cons y by (auto simp: bindE_eq_Inr returnE_def)
qed (simp add: returnE_def)

lemma openSessions_ids:
  "openSessions se answers cs results w = (Inr (fresh, results'), w') \<Longrightarrow> map br_id results' = map br_id results"
proof (induction cs arbitrary: w results fresh)
  case (Cons c cs)
  show ?case
  proof (cases "Option.bind (find (\<lambda>r. bsr_clientId r = bi_id (cx_item c)) answers) bsr_upload")
    case None
    then show ?thesis using Cons by (fastforce simp: bindE_eq_Inr returnE_def Let_def)
  next
    case (Some started)
    then show ?thesis using Cons by (fastforce simp: bindE_eq_Inr returnE_def Let_def)
  qed
qed (simp add: returnE_def)

lemma reportTransfers_ids: "reportTransfers ps results = (completions, results') \<Longrightarrow> map br_id results' = map br_id results"
  by (induction ps results arbitrary: completions rule: reportTransfers.induct) (auto split: prod.splits)

lemma settleCompletions_ids:
  "settleCompletions answers ps results w = (Inr results', w') \<Longrightarrow> map br_id results' = map br_id results"
proof (induction answers ps results arbitrary: w rule: settleCompletions.induct)
  case (3 answers c request ps results)
  then show ?case by (fastforce simp: bindE_eq_Inr ids_update_first split: if_splits option.splits)
qed (auto simp: returnE_def)

section \<open>Properties\<close>

text \<open>
  C32. A batch that returns answers every item it was given: one result per item, in the order of
  the items, whatever the server answers to the requests, in whatever order, and also when it
  leaves items out or invents some.
\<close>

theorem batch_answers_every_item:
  assumes "uploadFilesBatch se fs items w = (Inr results, w')"
  shows "map br_id results = map bi_id items"
proof -
  let ?rest = "\<lambda>(results, contexts). if contexts = [] then returnE results
     else
       bindE (onServerW (inPages (se_startUploadBatch se) (map batchStartRequest contexts))) (\<lambda>answers.
       bindE (openSessions se answers contexts results) (\<lambda>(fresh, started).
       bindE (transferAll se fs (transferOrder fresh)) (\<lambda>prepared.
       case reportTransfers prepared started of (completions, reported) \<Rightarrow>
       bindE (onServerW (inPages (se_uploadCompleteBatch se) completions)) (\<lambda>completed.
         settleCompletions completed prepared reported))))"
  obtain limits v where "bindE (triage se fs limits items) ?rest v = (Inr results, w')"
    using assms unfolding uploadFilesBatch_def bindE_eq_Inr [of "uploadLimits se"] by blast
  then obtain p v1 where p: "triage se fs limits items v = (Inr p, v1)" "?rest p v1 = (Inr results, w')"
    unfolding bindE_eq_Inr [of "triage se fs limits items"] by blast
  obtain r0 cs where "p = (r0, cs)" by (cases p)
  then have triage: "triage se fs limits items v = (Inr (r0, cs), v1)" and rest: "?rest (r0, cs) v1 = (Inr results, w')"
    using p by simp_all
  note ids = triage_ids [OF triage]
  show ?thesis
  proof (cases "cs = []")
    case True
    then show ?thesis using rest ids by (simp add: returnE_def)
  next
    case False
    then obtain answers v2 q v3 prepared completed v5 where q: "openSessions se answers cs r0 v2 = (Inr q, v3)"
        and s: "settleCompletions completed prepared (snd (reportTransfers prepared (snd q))) v5 = (Inr results, w')"
      using rest by (auto simp: bindE_eq_Inr case_prod_unfold)
    have "map br_id (snd q) = map br_id r0" by (rule openSessions_ids [of se answers cs r0 v2 "fst q"]) (simp add: q)
    moreover have "map br_id (snd (reportTransfers prepared (snd q))) = map br_id (snd q)"
      by (rule reportTransfers_ids [of _ _ "fst (reportTransfers prepared (snd q))"]) simp
    ultimately show ?thesis using ids settleCompletions_ids [OF s] by simp
  qed
qed



text \<open>A file of three bytes and a server that can be reached or not.\<close>

definition demo_part :: UploadedPartResult where
  "demo_part = (part_of sample_env [1, 2, 3] (\<lambda>i. chunk_at 4194304 [1, 2, 3] i @ [0]) (take 1) 0)\<lparr>up_etag := ''tag''\<rparr>"

definition offline :: exn where
  "offline = Runtime_error ''offline''"

definition demo_service :: "bool service_env" where
  "demo_service =
     \<lparr>se_clocks = \<lparr>clock = \<lambda>_. ''t'', uuid = \<lambda>_. ''i''\<rparr>, se_cwd = ''/'', se_crypto = ue_crypto sample_env, se_masterKey = Inr [9],
      se_generateFileKey = \<lambda>_. Inr [7],
      se_dump = fe_dump (sample_fenv [demo_part]),
      se_parse = \<lambda>str. (if str = ''m'' then Inr (sample_docs [demo_part] ! 0) else Inr (sample_docs [demo_part] ! 1)),
      se_details = \<lambda>_. fe_details (sample_fenv [demo_part]), se_thumbnail = \<lambda>_. Inr None,
      se_uploadLimits = returnE \<lparr>ul_maxQueueItems = 1, ul_partConcurrency = 1, ul_staleUploadHours = 1\<rparr>,
      se_startUpload = \<lambda>_. returnE (ue_started sample_env), se_startUploadBatch = \<lambda>_. returnE [],
      se_uploadComplete = \<lambda>_ _. returnE (), se_uploadCompleteBatch = \<lambda>_. returnE [],
      se_storage = \<lambda>online. \<lparr>sa_presignSingleUpload = \<lambda>_. Inr ''u'', sa_presignParts = \<lambda>_ _. Inr (\<lambda>_. None),
        sa_putEncryptedPartToStorage = \<lambda>_ _. (if online then Inr ''tag'' else Inl offline),
        sa_uploadPart = \<lambda>_ _. Inr (), sa_presignThumbnail = \<lambda>_ _. Inr ''u''\<rparr>,
      se_received = \<lambda>_ _ online. online, se_schedule = firstWorkerFirst\<rparr>"

definition demo_files :: files where
  "demo_files = [(''/a'', File [1, 2, 3] 5)]"

definition demo_upload :: Entry where
  "demo_upload = \<lparr>e_id = ''e'', e_remoteId = None, e_remoteFileId = None, e_localDeletedAt = None, e_remoteDeletedAt = None,
     e_syncRootId = ''r'', e_relativePath = ''a'', e_isDirectory = False, e_deleted = False, e_parentFolderId = None,
     e_size = Some 3, e_mtime = None, e_contentHash = None, e_syncedContentHash = None, e_remoteUpdatedAt = None,
     e_syncedRemoteUpdatedAt = None, e_conflictState = None, e_syncState = PendingUpload, e_lastSeenScanJobId = None\<rparr>"

lemma demo_laws: "service_laws demo_service" "total_library (se_crypto demo_service)"
proof -
  have "crypto_laws (se_crypto demo_service)" using sample_laws by (simp add: demo_service_def)
  then show "service_laws demo_service"
    unfolding service_laws_def
    by (auto simp: demo_service_def firstWorkerFirst_valid sample_env_def sample_fenv_def split: if_splits)
qed (auto simp: total_library_def demo_service_def sample_env_def)

lemma forE_returnE: "(\<And>x. f x = returnE ()) \<Longrightarrow> forE xs f = returnE ()"
  by (induction xs) simp_all

lemma demo_parts:
  fixes w :: "bool upload_world"
  assumes st: "su_vaultId st = ''v''" "su_fileId st = ''f''" "su_providerUploadId st = []" and conc: "0 < unat conc"
  shows "uploadParts demo_service demo_files ''/a'' [7] st (createPlan 3) conc [] w =
    (if uw_server w then Inr [demo_part] else Inl offline, w)"
proof -
  let ?ct = "\<lambda>i. chunk_at 4194304 [1, 2, 3] i @ [0 :: 8 word]"
  define env where "env = uploadEnv demo_service demo_files ''/a'' [7] st (createPlan 3) (uw_server w)"
  have up: "uploads env [1, 2, 3] ?ct (take 1)"
    using sample_uploads by (simp add: uploads_def env_def uploadEnv_def demo_service_def demo_files_def readContent_def
        fs_at_def sample_env_def chunk_cipher_def st)
  have one: "partCount env = 1" using sample_count by (simp add: partCount_def env_def uploadEnv_def sample_env_def)
  have "preparePart env (of_nat (Suc 0)) = Inr (part_of env [1, 2, 3] ?ct (take 1) 0, concat (map ?ct (window (length [1, 2, 3 :: 8 word]) 0)))"
    by (rule preparePart_window [OF up]) (simp add: one)
  moreover have "part_of env = part_of sample_env" by (intro ext) (simp add: part_of_def env_def uploadEnv_def sample_env_def)
  ultimately have process: "processPart env (of_nat 1) = (if uw_server w then Inr demo_part else Inl offline)"
    using st by (simp add: processPart_def partUrl_def Let_def demo_part_def) (simp add: env_def uploadEnv_def demo_service_def)
  have init: "initialParts env [] = Inr [emptyPart]" by (simp add: initialParts_def one)
  define s where "s = firstWorkerFirst env [emptyPart] (unat conc)"
  have run: "(up_step env)\<^sup>*\<^sup>* (start_state [emptyPart] (unat conc)) s" "joined s"
    using firstWorkerFirst_valid unfolding valid_schedule_def s_def by blast+
  have "missing [emptyPart] n \<longleftrightarrow> n = 1" for n by (auto simp: missing_def emptyPart_def)
  then have result: "uploadResult s = (if uw_server w then Inr [demo_part] else Inl offline)"
    using upload_outcome [OF init conc run] process
    by (cases "uploadResult s") (auto simp: one length_Suc_conv split: if_splits)
  have "savePart demo_service st = (\<lambda>_. returnE ())" by (rule ext) (simp add: savePart_def st)
  then show ?thesis
    using init result unfolding uploadParts_def env_def [symmetric] s_def
    by (simp add: demo_service_def forE_returnE Let_def onServerW_def act_simps)
qed

lemma demo_completion:
  assumes st: "su_vaultId st = ''v''" "su_fileId st = ''f''" "su_fileChunkSize st = 4194304"
  shows "\<exists>a r. prepareCompletion (finalizerEnv demo_service ''/a'' srv) (Some 3) st (createPlan 3) [demo_part] [7] = Inr (a, r)"
proof -
  have "termsForText ''x'' = []" by code_simp
  moreover have "manifest st (createPlan 3) d [demo_part] = manifest (ue_started sample_env) (ue_plan sample_env) d [demo_part]" for d
    by (simp add: manifest_def st sample_env_def)
  ultimately show ?thesis
    by (simp add: prepareCompletion_def finalizerEnv_def demo_service_def sample_fenv_def sample_docs_def encryptChunk_def hashBytes_def
        wrapFileKey_def encryptMetadata_def uploadThumbnail_def noThumbnail_def createSearchTokenEntries_def Let_def)
      (simp add: sample_env_def)
qed

definition demo_session :: UploadResumeSessionRecord where
  "demo_session = sessionRecord (ue_started sample_env) demo_upload ''/a'' 3 (currentMtimeString ''/a'' demo_files) [7, 0]"

definition demo_world :: "bool \<Rightarrow> resume_db \<Rightarrow> bool upload_world" where
  "demo_world online d = \<lparr>uw_server = online, uw_resume = d,
     uw_limits = Some \<lparr>ul_maxQueueItems = 1, ul_partConcurrency = 1, ul_staleUploadHours = 1\<rparr>, uw_tick = 1\<rparr>"

definition demo_saved :: resume_db where
  "demo_saved = \<lparr>db_sessions = [\<lparr>ss_record = demo_session, ss_created_at = ''t'', ss_updated_at = ''t''\<rparr>], db_parts = []\<rparr>"

lemma demo_file:
  "normalizeFsPath (se_cwd demo_service) ''/a'' = Inr ''/a''" "e_isDirectory demo_upload = False" "e_size demo_upload = Some 3"
  "0 < unat (resolvePartConcurrency (uploadPartCount (createPlan 3)) k)"
proof -
  have "normalizeFsPath ''/'' ''/a'' = Inr ''/a''" by code_simp
  then show "normalizeFsPath (se_cwd demo_service) ''/a'' = Inr ''/a''" by (simp add: demo_service_def)
  show "0 < unat (resolvePartConcurrency (uploadPartCount (createPlan 3)) k)"
    using small_plan(2) [of 3] by (intro resolvePartConcurrency_pos) simp
qed (simp_all add: demo_upload_def)

lemma demo_interrupted:
  "uploadFile demo_service demo_files ''/a'' demo_upload (demo_world False \<lparr>db_sessions = [], db_parts = []\<rparr>) =
    (Inl offline, (demo_world False demo_saved)\<lparr>uw_tick := 2\<rparr>)"
proof -
  let ?w = "demo_world False \<lparr>db_sessions = [], db_parts = []\<rparr>"
  have start: "startUploadW demo_service demo_upload ''/a'' 3 (currentMtimeString ''/a'' demo_files) (createPlan 3) ?w =
      (Inr (ue_started sample_env, [], [7]), (demo_world False demo_saved)\<lparr>uw_tick := 2\<rparr>)"
    by (simp add: startUploadW_def openSession_def encryptResumeFileKey_def act_simps onServerW_def ticked_def onResume_def
        replaceSession_def getSessionByLocalPath_def on_sessions_def sql_insert_def sessions_ok_def uniq_on_Cons has_key_def
        demo_world_def demo_saved_def demo_session_def demo_service_def sample_env_def)
  have st: "su_vaultId (ue_started sample_env) = ''v''" "su_fileId (ue_started sample_env) = ''f''"
      "su_providerUploadId (ue_started sample_env) = []" by (simp_all add: sample_env_def)
  have parts: "uploadParts demo_service demo_files ''/a'' [7] (ue_started sample_env) (createPlan 3)
      (resolvePartConcurrency (uploadPartCount (createPlan 3)) 1) [] ((demo_world False demo_saved)\<lparr>uw_tick := 2\<rparr>) =
      (Inl offline, (demo_world False demo_saved)\<lparr>uw_tick := 2\<rparr>)"
    using demo_parts [OF st demo_file(4)] by (simp add: demo_world_def)
  let ?attempt = "attemptUpload demo_service demo_files ''/a'' demo_upload ''/a'' 3 (currentMtimeString ''/a'' demo_files) (createPlan 3)
      (resolvePartConcurrency (uploadPartCount (createPlan 3)) 1)"
  have "matchingSession demo_upload ''/a'' 3 m (createPlan 3) (uw_resume ?w) = None" for m
    by (simp add: matchingSession_def getSessionByLocalPath_def demo_world_def)
  moreover have "onResume (deleteSessionByLocalPath ''/a'') ?w = (Inr (), ?w)"
    by (simp add: onResume_def deleteSessionByLocalPath_def getSessionByLocalPath_def demo_world_def act_simps)
  ultimately have "?attempt ?w = (Inl offline, (demo_world False demo_saved)\<lparr>uw_tick := 2\<rparr>)"
    using start parts by (simp add: attemptUpload_def act_simps)
  moreover have "uploadLimits demo_service ?w = (Inr \<lparr>ul_maxQueueItems = 1, ul_partConcurrency = 1, ul_staleUploadHours = 1\<rparr>, ?w)"
    by (simp add: uploadLimits_def demo_world_def act_simps)
  ultimately show ?thesis
    by (simp add: uploadFile_def demo_file Let_def act_simps offline_def shouldResetResumeSession_def)
qed

lemma demo_plan:
  "fileChunkSize (createPlan 3) = 4194304" "totalChunks (createPlan 3) = 1" "uploadPartSize (createPlan 3) = 4194304"
  "uploadPartCount (createPlan 3) = 1"
  by (simp_all add: createPlan_def kChunkSize_def Let_def kMultipartUploadPartSize_def)

lemma demo_resumed:
  "\<exists>response w'. uploadFile demo_service demo_files ''/a'' demo_upload ((demo_world True demo_saved)\<lparr>uw_tick := 2\<rparr>) = (Inr response, w')"
proof -
  let ?w = "(demo_world True demo_saved)\<lparr>uw_tick := 2\<rparr>" and ?st = "startResponseFromSession demo_session"
  let ?attempt = "attemptUpload demo_service demo_files ''/a'' demo_upload ''/a'' 3 (currentMtimeString ''/a'' demo_files) (createPlan 3)
      (resolvePartConcurrency (uploadPartCount (createPlan 3)) 1)"
  have match: "matchingSession demo_upload ''/a'' 3 (currentMtimeString ''/a'' demo_files) (createPlan 3) (uw_resume ?w) = Some demo_session"
    by (simp add: matchingSession_def getSessionByLocalPath_def demo_world_def demo_saved_def sessionMatchesEntry_def
        demo_session_def sessionRecord_def demo_plan demo_upload_def sample_env_def kChunkSize_def)
  have "lib_decryptChunk (se_crypto demo_service) mk aad [7, 0] = Inr [7]" for mk aad by (simp add: demo_service_def sample_env_def)
  moreover have "decodeBase64 (rs_encryptedFileKeyBlob demo_session) = Inr [7, 0]"
    using base64.decode_encode [of "[7, 0]"] by (simp only: demo_session_def sessionRecord_def UploadResumeSessionRecord.select_convs)
  moreover have "listParts sid (uw_resume ?w) = []" for sid by (simp add: listParts_def demo_world_def demo_saved_def)
  ultimately have resume: "resumeUpload demo_service (createPlan 3) demo_session ?w = (Inr (?st, [], [7]), ?w)"
    by (simp add: resumeUpload_def act_simps decryptResumeFileKey_def) (simp add: demo_service_def returnE_def)
  have st: "su_vaultId ?st = ''v''" "su_fileId ?st = ''f''" "su_providerUploadId ?st = []" "su_fileChunkSize ?st = 4194304"
    by (simp_all add: startResponseFromSession_def demo_session_def sessionRecord_def sample_env_def)
  have parts: "uploadParts demo_service demo_files ''/a'' [7] ?st (createPlan 3)
      (resolvePartConcurrency (uploadPartCount (createPlan 3)) 1) [] ?w = (Inr [demo_part], ?w)"
    using demo_parts [OF st(1-3) demo_file(4)] by (simp add: demo_world_def)
  obtain a r where "prepareCompletion (finalizerEnv demo_service ''/a'' (uw_server ?w)) (Some 3) ?st (createPlan 3) [demo_part] [7] = Inr (a, r)"
    using demo_completion [OF st(1,2,4)] by blast
  then have "completeUpload demo_service ''/a'' demo_upload ?st (createPlan 3) [demo_part] [7] ?w = (Inr a, ?w)"
    by (simp add: completeUpload_def prepareCompletionW_def demo_file act_simps onServerW_def)
      (simp add: demo_service_def returnE_def)
  with match resume parts have "\<exists>w'. ?attempt ?w = (Inr (responseOf ?st), w')"
    by (simp add: attemptUpload_def act_simps onResume_def deleteSession_run)
  moreover have "uploadLimits demo_service ?w = (Inr \<lparr>ul_maxQueueItems = 1, ul_partConcurrency = 1, ul_staleUploadHours = 1\<rparr>, ?w)"
    by (simp add: uploadLimits_def demo_world_def act_simps)
  ultimately show ?thesis
    by (auto simp: uploadFile_def demo_file Let_def act_simps)
qed


theorem batch_answers_every_item_witness:
  "\<exists>results w'. uploadFilesBatch demo_service demo_files [\<lparr>bi_id = ''j'', bi_path = ''/a'', bi_entry = demo_upload\<lparr>e_isDirectory := True\<rparr>\<rparr>]
     (demo_world True demo_saved) = (Inr results, w') \<and> map br_id results = [''j'']"
proof -
  let ?items = "[\<lparr>bi_id = ''j'', bi_path = ''/a'', bi_entry = demo_upload\<lparr>e_isDirectory := True\<rparr>\<rparr>]" and ?w = "demo_world True demo_saved"
  have "uploadLimits demo_service ?w = (Inr \<lparr>ul_maxQueueItems = 1, ul_partConcurrency = 1, ul_staleUploadHours = 1\<rparr>, ?w)"
    by (simp add: uploadLimits_def demo_world_def act_simps)
  then obtain results where "uploadFilesBatch demo_service demo_files ?items ?w = (Inr results, ?w)"
    by (simp add: uploadFilesBatch_def triageItem_def tryItem_def act_simps)
  from this batch_answers_every_item [OF this] show ?thesis by auto
qed

text \<open>
  Requests for a whole batch are not guarded: when the request that starts the new files of a batch
  fails, the batch throws, and the results of the files that were already uploaded by resuming
  their sessions are lost with it.
\<close>

theorem batch_start_failure_forgets_uploads:
  assumes "uploadLimits se w = (Inr limits, v)" and "triage se fs limits items v = (Inr (results, contexts), w1)"
    and "contexts \<noteq> []" and "inPages (se_startUploadBatch se) (map batchStartRequest contexts) (uw_server w1) = (Inl e, srv)"
  shows "uploadFilesBatch se fs items w = (Inl e, w1\<lparr>uw_server := srv\<rparr>)"
  using assms by (simp add: uploadFilesBatch_def bindE_run onServerW_def)

end
