(* ===== verification/File_Snapshot.thy ===== *)
theory File_Snapshot
  imports Dirty_Path_Repo Codecs "HOL-Library.AList"
begin

text \<open>
  Snapshots of a directory tree (fs/FileSnapshot.cpp), from which the watchers of macOS and
  Windows compute file events: \<open>takeFileSnapshot\<close> lists a root, \<open>diffFileSnapshots\<close> compares two
  snapshots.

  A snapshot is the list of its keys and entries in the order in which an iteration over
  the \<open>unordered_map\<close> visits them; nothing below depends on the order. What the file system answers
  while a snapshot is taken is a parameter, the POSIX variant of \<open>fileIdentity\<close> is the one modelled.
\<close>

section \<open>Snapshots\<close>

record FileSnapshotEntry =
  sn_path :: string
  sn_identity :: string
  sn_size :: "64 word"
  sn_modifiedAt :: int
  sn_isDirectory :: bool

type_synonym FileSnapshot = "(string \<times> FileSnapshotEntry) list"

text \<open>
  The answers of the file system: whether a path exists, what a recursive iterator over a
  directory yields and the exception its increment throws in the end, if any (it yields nothing
  when it cannot be made), the kind of a path, its size and its time (the least time on failure), and
  the device and inode numbers of \<open>stat\<close>; \<open>None\<close> is a failing call.
\<close>

record disk =
  dk_exists :: "string \<Rightarrow> bool"
  dk_walk :: "string \<Rightarrow> string list \<times> exn option"
  dk_is_directory :: "string \<Rightarrow> bool option"
  dk_file_size :: "string \<Rightarrow> 64 word option"
  dk_last_write_time :: "string \<Rightarrow> int"
  dk_stat :: "string \<Rightarrow> (64 word \<times> 64 word) option"

definition pathKey :: "string \<Rightarrow> string" where
  "pathKey path = lexically_normal path"

definition fileIdentity :: "disk \<Rightarrow> string \<Rightarrow> string" where
  "fileIdentity dk path =
     (case dk_stat dk path of
        None \<Rightarrow> []
      | Some (dev, ino) \<Rightarrow> nat_to_string (unat dev) @ '':'' @ nat_to_string (unat ino))"

definition changed :: "FileSnapshotEntry \<Rightarrow> FileSnapshotEntry \<Rightarrow> bool" where
  "changed before after \<longleftrightarrow>
     sn_isDirectory before \<noteq> sn_isDirectory after \<or> sn_size before \<noteq> sn_size after \<or>
     sn_modifiedAt before \<noteq> sn_modifiedAt after"

definition addEntry :: "disk \<Rightarrow> string \<Rightarrow> string \<Rightarrow> FileSnapshot \<Rightarrow> FileSnapshot" where
  "addEntry dk root path snapshot =
     (case dk_is_directory dk path of
        None \<Rightarrow> snapshot
      | Some dir \<Rightarrow>
          let sz = (if dir then 0 else case dk_file_size dk path of None \<Rightarrow> 0 | Some n \<Rightarrow> n);
              relative = lexically_relative path root in
          if relative = [] \<or> relative = ''.'' then snapshot
          else AList.update (pathKey relative)
            \<lparr>sn_path = path, sn_identity = fileIdentity dk path, sn_size = sz,
             sn_modifiedAt = dk_last_write_time dk path, sn_isDirectory = dir\<rparr> snapshot)"

definition takeFileSnapshot :: "disk \<Rightarrow> string \<Rightarrow> FileSnapshot result" where
  "takeFileSnapshot dk root =
     (if \<not> dk_exists dk root then Inr []
      else case dk_walk dk root of (paths, failure) \<Rightarrow>
        (case failure of Some e \<Rightarrow> Inl e | None \<Rightarrow> Inr (fold (addEntry dk root) paths [])))"

section \<open>Differences\<close>

text \<open>The gone entries by identity; of several with one identity the last stays.\<close>

fun noteGone :: "FileSnapshot \<Rightarrow> string \<times> FileSnapshotEntry \<Rightarrow> (string \<rightharpoonup> FileSnapshotEntry) \<Rightarrow> (string \<rightharpoonup> FileSnapshotEntry)" where
  "noteGone after (key, entry) d =
     (if map_of after key = None \<and> sn_identity entry \<noteq> [] then d(sn_identity entry \<mapsto> entry) else d)"

definition deletedByIdentity :: "FileSnapshot \<Rightarrow> FileSnapshot \<Rightarrow> (string \<rightharpoonup> FileSnapshotEntry)" where
  "deletedByIdentity before after = fold (noteGone after) before Map.empty"

definition snapshotEvent :: "string \<Rightarrow> FileEventType \<Rightarrow> FileSnapshotEntry \<Rightarrow> string option \<Rightarrow> FileEvent" where
  "snapshotEvent rootId ty entry oldPath =
     \<lparr>fe_rootId = rootId, fe_path = sn_path entry, fe_oldPath = oldPath, fe_type = ty,
      fe_isDirectory = sn_isDirectory entry, fe_cookie = 0\<rparr>"

fun diffPresent :: "string \<Rightarrow> FileSnapshot \<Rightarrow> (string \<rightharpoonup> FileSnapshotEntry) \<Rightarrow> FileSnapshot \<Rightarrow>
    FileEvent list \<times> (string \<rightharpoonup> FileSnapshotEntry)" where
  "diffPresent rootId before deleted [] = ([], deleted)"
| "diffPresent rootId before deleted ((key, entry) # rest) =
     (case map_of before key of
        Some old \<Rightarrow>
          (case diffPresent rootId before deleted rest of (events, left) \<Rightarrow>
             (if changed old entry then snapshotEvent rootId Modified entry None # events else events, left))
      | None \<Rightarrow>
          (case (if sn_identity entry \<noteq> [] then deleted (sn_identity entry) else None) of
             Some from \<Rightarrow>
               (case diffPresent rootId before (deleted(sn_identity entry := None)) rest of (events, left) \<Rightarrow>
                  (snapshotEvent rootId Renamed entry (Some (sn_path from)) # events, left))
           | None \<Rightarrow>
               (case diffPresent rootId before deleted rest of (events, left) \<Rightarrow>
                  (snapshotEvent rootId Created entry None # events, left))))"

definition diffGone :: "string \<Rightarrow> FileSnapshot \<Rightarrow> FileSnapshot \<Rightarrow> (string \<rightharpoonup> FileSnapshotEntry) \<Rightarrow> FileEvent list" where
  "diffGone rootId before after left =
     List.map_filter (\<lambda>(key, entry).
       if map_of after key \<noteq> None then None
       else if sn_identity entry \<noteq> [] \<and> left (sn_identity entry) = None then None
       else Some (snapshotEvent rootId Deleted entry None)) before"

definition diffFileSnapshots :: "string \<Rightarrow> FileSnapshot \<Rightarrow> FileSnapshot \<Rightarrow> FileEvent list" where
  "diffFileSnapshots rootId before after =
     (case diffPresent rootId before (deletedByIdentity before after) after of (events, left) \<Rightarrow>
        events @ diffGone rootId before after left)"

section \<open>What a list of events says\<close>

text \<open>The paths an event declares gone and those it asks to look at, as \<open>recordEvent\<close> reads them.\<close>

definition event_paths :: "FileEvent \<Rightarrow> (DirtyPathEventType \<times> string) list" where
  "event_paths ev =
     (case fe_type ev of
        Deleted \<Rightarrow> [(Delete, fe_path ev)]
      | Renamed \<Rightarrow> (case fe_oldPath ev of None \<Rightarrow> [] | Some p \<Rightarrow> [(Delete, p)]) @ [(Scan, fe_path ev)]
      | _ \<Rightarrow> [(Scan, fe_path ev)])"

definition gone :: "FileSnapshot \<Rightarrow> FileSnapshot \<Rightarrow> FileSnapshotEntry set" where
  "gone before after = {e. \<exists>k. (k, e) \<in> set before \<and> map_of after k = None}"

definition news :: "FileSnapshot \<Rightarrow> FileSnapshot \<Rightarrow> FileSnapshotEntry set" where
  "news before after = {e. \<exists>k. (k, e) \<in> set after \<and>
     (case map_of before k of None \<Rightarrow> True | Some old \<Rightarrow> changed old e)}"

text \<open>No two gone paths name the same file, as hard links do.\<close>

definition no_links :: "FileSnapshot \<Rightarrow> FileSnapshot \<Rightarrow> bool" where
  "no_links before after \<longleftrightarrow> inj_on sn_identity {e \<in> gone before after. sn_identity e \<noteq> []}"

lemma event_paths_snapshot [simp]:
  "event_paths (snapshotEvent rootId Created e old) = [(Scan, sn_path e)]"
  "event_paths (snapshotEvent rootId Modified e old) = [(Scan, sn_path e)]"
  "event_paths (snapshotEvent rootId Deleted e old) = [(Delete, sn_path e)]"
  "event_paths (snapshotEvent rootId Renamed e (Some p)) = [(Delete, p), (Scan, sn_path e)]"
  by (simp_all add: event_paths_def snapshotEvent_def)

lemma gone_Cons: "gone ((k, e) # before) after = (if map_of after k = None then {e} else {}) \<union> gone before after"
  by (auto simp: gone_def)

lemma noteGone_fold:
  "fold (noteGone after) before d i = Some e \<Longrightarrow> d i = Some e \<or> (e \<in> gone before after \<and> sn_identity e = i \<and> i \<noteq> [])"
proof (induction before arbitrary: d)
  case (Cons x before)
  obtain k y where x: "x = (k, y)" by fastforce
  from Cons.IH [of "noteGone after x d"] Cons.prems
  consider "noteGone after x d i = Some e" | "e \<in> gone before after \<and> sn_identity e = i \<and> i \<noteq> []" by auto
  then show ?case by cases (auto simp: x gone_Cons split: if_splits)
qed simp

lemma noteGone_keeps: "d i \<noteq> None \<Longrightarrow> fold (noteGone after) before d i \<noteq> None"
proof (induction before arbitrary: d)
  case (Cons x before)
  then show ?case by (cases x) (simp del: not_None_eq)
qed simp

lemma noteGone_dom:
  "e \<in> gone before after \<Longrightarrow> sn_identity e \<noteq> [] \<Longrightarrow> fold (noteGone after) before d (sn_identity e) \<noteq> None"
proof (induction before arbitrary: d)
  case (Cons x before)
  obtain k y where x: "x = (k, y)" by fastforce
  show ?case
  proof (cases "e \<in> gone before after")
    case False
    then have "noteGone after x d (sn_identity e) \<noteq> None" using Cons.prems by (auto simp: x gone_Cons split: if_splits)
    then show ?thesis using noteGone_keeps [of "noteGone after x d" "sn_identity e"] by simp
  qed (use Cons.IH [OF _ Cons.prems(2)] in simp)
qed (simp add: gone_def)

lemma deletedByIdentity_Some:
  "deletedByIdentity before after i = Some e \<Longrightarrow> e \<in> gone before after \<and> sn_identity e = i \<and> i \<noteq> []"
  unfolding deletedByIdentity_def by (drule noteGone_fold) simp

lemma deletedByIdentity_gone:
  assumes "no_links before after" and "e \<in> gone before after" and "sn_identity e \<noteq> []"
  shows "deletedByIdentity before after (sn_identity e) = Some e"
proof -
  obtain e' where e': "deletedByIdentity before after (sn_identity e) = Some e'"
    using noteGone_dom [OF assms(2,3), of Map.empty] by (auto simp: deletedByIdentity_def)
  then have "e' = e"
    using deletedByIdentity_Some [OF e'] assms by (auto simp: no_links_def dest: inj_onD)
  with e' show ?thesis by simp
qed

text \<open>The loop over the present entries: what it reports, and which identities it uses up.\<close>

lemma diffPresent_left:
  "diffPresent rootId before deleted after = (events, left) \<Longrightarrow> left i = Some e \<Longrightarrow> deleted i = Some e"
  by (induction rootId before deleted after arbitrary: events left rule: diffPresent.induct)
    (fastforce split: option.splits prod.splits if_splits)+

lemma diffPresent_paths:
  assumes "diffPresent rootId before deleted after = (events, left)"
  shows "set (concat (map event_paths events)) =
     (\<lambda>e. (Scan, sn_path e)) ` news before after \<union>
     {(Delete, sn_path e) |i e. deleted i = Some e \<and> left i = None}"
  using assms
proof (induction rootId before deleted after arbitrary: events left rule: diffPresent.induct)
  case (1 rootId before deleted)
  then show ?case by (auto simp: news_def)
next
  case (2 rootId before deleted key entry rest)
  have news: "news before ((key, entry) # rest) =
      (case map_of before key of None \<Rightarrow> {entry} | Some old \<Rightarrow> if changed old entry then {entry} else {}) \<union> news before rest"
    by (auto simp: news_def split: option.splits)
  show ?case
  proof (cases "map_of before key")
    case (Some old)
    obtain es l where r: "diffPresent rootId before deleted rest = (es, l)" by fastforce
    have "events = (if changed old entry then snapshotEvent rootId Modified entry None # es else es)" "left = l"
      using 2(4) Some r by simp_all
    with 2(3) [OF Some r] Some show ?thesis by (simp add: news)
  next
    case None
    show ?thesis
    proof (cases "if sn_identity entry \<noteq> [] then deleted (sn_identity entry) else None")
      case none: None
      obtain es l where r: "diffPresent rootId before deleted rest = (es, l)" by fastforce
      have "events = snapshotEvent rootId Created entry None # es" "left = l" using 2(4) None none r by simp_all
      with 2(1) [OF None none r] None show ?thesis by (simp add: news)
    next
      case (Some e)
      let ?d = "deleted(sn_identity entry := None)"
      obtain es l where r: "diffPresent rootId before ?d rest = (es, l)" by fastforce
      have l: "l (sn_identity entry) = None" using diffPresent_left [OF r, of "sn_identity entry"] by (cases "l (sn_identity entry)") auto
      have d: "deleted (sn_identity entry) = Some e" using Some by (auto split: if_splits)
      then have "{(Delete, sn_path e) |i e. deleted i = Some e \<and> l i = None} =
          insert (Delete, sn_path e) {(Delete, sn_path e) |i e. ?d i = Some e \<and> l i = None}"
        using l by (auto split: if_splits) (metis option.distinct(1) option.inject)
      moreover have "events = snapshotEvent rootId Renamed entry (Some (sn_path e)) # es" "left = l"
        using 2(4) None Some r by auto
      moreover note 2(2) [OF None Some r]
      ultimately show ?thesis using None by (simp add: news insert_commute)
    qed
  qed
qed

lemma diffGone_paths:
  "set (concat (map event_paths (diffGone rootId before after left))) =
     {(Delete, sn_path e) |e. e \<in> gone before after \<and> (sn_identity e = [] \<or> left (sn_identity e) \<noteq> None)}"
proof (induction before)
  case (Cons x before)
  obtain k e where x: "x = (k, e)" by fastforce
  from Cons.IH show ?case
    by (auto simp: x gone_Cons diffGone_def)
qed (simp add: diffGone_def gone_def)

lemma diff_paths_all:
  assumes "diffPresent rootId before (deletedByIdentity before after) after = (events, left)"
  shows "set (concat (map event_paths (diffFileSnapshots rootId before after))) =
      (\<lambda>e. (Scan, sn_path e)) ` news before after \<union>
      {(Delete, sn_path e) |i e. deletedByIdentity before after i = Some e \<and> left i = None} \<union>
      {(Delete, sn_path e) |e. e \<in> gone before after \<and> (sn_identity e = [] \<or> left (sn_identity e) \<noteq> None)}"
  using diffPresent_paths [OF assms] diffGone_paths [of rootId before after left] by (simp add: diffFileSnapshots_def assms)

text \<open>
  Together: without hard links, the paths reported gone are those of the gone entries and the
  paths to look at those of the new and changed ones. In general nothing else is reported, and
  every new or changed path is.
\<close>

lemma diff_paths:
  shows "set (concat (map event_paths (diffFileSnapshots rootId before after))) \<subseteq>
      (\<lambda>e. (Scan, sn_path e)) ` news before after \<union> (\<lambda>e. (Delete, sn_path e)) ` gone before after"
    and "(\<lambda>e. (Scan, sn_path e)) ` news before after \<subseteq>
      set (concat (map event_paths (diffFileSnapshots rootId before after)))"
    and "no_links before after \<Longrightarrow> (\<lambda>e. (Delete, sn_path e)) ` gone before after \<subseteq>
      set (concat (map event_paths (diffFileSnapshots rootId before after)))"
proof -
  let ?d = "deletedByIdentity before after"
  obtain events left where p: "diffPresent rootId before ?d after = (events, left)" by fastforce
  note all = diff_paths_all [OF p]
  show "set (concat (map event_paths (diffFileSnapshots rootId before after))) \<subseteq>
      (\<lambda>e. (Scan, sn_path e)) ` news before after \<union> (\<lambda>e. (Delete, sn_path e)) ` gone before after"
    unfolding all using deletedByIdentity_Some by blast
  show "(\<lambda>e. (Scan, sn_path e)) ` news before after \<subseteq>
      set (concat (map event_paths (diffFileSnapshots rootId before after)))"
    unfolding all by blast
  assume links: "no_links before after"
  have "(Delete, sn_path e) \<in> set (concat (map event_paths (diffFileSnapshots rootId before after)))"
    if "e \<in> gone before after" for e
    unfolding all using deletedByIdentity_gone [OF links that] that by blast
  then show "(\<lambda>e. (Delete, sn_path e)) ` gone before after \<subseteq>
      set (concat (map event_paths (diffFileSnapshots rootId before after)))" by blast
qed

lemma diffPresent_shape:
  "diffPresent rootId before deleted after = (events, left) \<Longrightarrow> ev \<in> set events \<Longrightarrow>
   fe_rootId ev = rootId \<and> fe_type ev \<in> {Created, Modified, Renamed} \<and> (fe_oldPath ev \<noteq> None \<longleftrightarrow> fe_type ev = Renamed)"
  by (induction rootId before deleted after arbitrary: events left rule: diffPresent.induct)
    (fastforce simp: snapshotEvent_def split: option.splits prod.splits if_splits)+

lemma diffGone_shape: "ev \<in> set (diffGone rootId before after left) \<Longrightarrow> \<exists>e. ev = snapshotEvent rootId Deleted e None"
  by (induction before) (auto simp: diffGone_def split: if_splits)

lemma diff_shape:
  assumes "ev \<in> set (diffFileSnapshots rootId before after)"
  shows "fe_rootId ev = rootId \<and> fe_type ev \<in> {Created, Modified, Deleted, Renamed} \<and> (fe_oldPath ev \<noteq> None \<longleftrightarrow> fe_type ev = Renamed)"
proof -
  obtain events left where p: "diffPresent rootId before (deletedByIdentity before after) after = (events, left)" by fastforce
  from assms consider "ev \<in> set events" | e where "ev = snapshotEvent rootId Deleted e None"
    using diffGone_shape by (fastforce simp: diffFileSnapshots_def p)
  then show ?thesis by cases (use diffPresent_shape [OF p] in blast, simp add: snapshotEvent_def)
qed

section \<open>Paths and keys\<close>

text \<open>
  The iterator lists paths strictly below the root, without dots: what it relies on is that
  a directory does not list itself or its parent.
\<close>

definition walk_law :: "disk \<Rightarrow> string list \<Rightarrow> string \<Rightarrow> bool" where
  "walk_law dk rs root \<longleftrightarrow> (\<forall>p\<in>set (fst (dk_walk dk root)).
     \<exists>ns. ns \<noteq> [] \<and> (\<forall>n\<in>set ns. normal_name n) \<and> p = build True (rs @ ns) False)"

text \<open>A snapshot of the root with names \<open>rs\<close>: keys are distinct, and the names below the root.\<close>

definition rooted :: "string list \<Rightarrow> FileSnapshot \<Rightarrow> bool" where
  "rooted rs s \<longleftrightarrow> distinct (map fst s) \<and>
     (\<forall>k e. map_of s k = Some e \<longrightarrow>
        (\<exists>ns. ns \<noteq> [] \<and> (\<forall>n\<in>set ns. normal_name n) \<and> k = build False ns False \<and> sn_path e = build True (rs @ ns) False))"

lemma rooted_Nil [simp]: "rooted rs []"
  by (simp add: rooted_def)

lemma rooted_addEntry:
  assumes rs: "\<forall>n\<in>set rs. normal_name n" and "rooted rs s"
    and "\<exists>ns. ns \<noteq> [] \<and> (\<forall>n\<in>set ns. normal_name n) \<and> p = build True (rs @ ns) False"
  shows "rooted rs (addEntry dk (build True rs trail) p s)"
proof -
  obtain ns where ns: "ns \<noteq> []" "\<forall>n\<in>set ns. normal_name n" "p = build True (rs @ ns) False" using assms(3) by blast
  have "lexically_relative p (build True rs trail) = build False ns False"
    using relative_below [OF rs ns(2,1), of False trail] ns(3) by simp
  moreover have "pathKey (build False ns False) = build False ns False"
    using lexically_normal_build(2) [OF ns(2,1)] by (simp add: pathKey_def)
  ultimately have "addEntry dk (build True rs trail) p s = s \<or>
      (\<exists>r. addEntry dk (build True rs trail) p s = AList.update (build False ns False) r s \<and> sn_path r = p)"
    by (cases "dk_is_directory dk p") (fastforce simp: addEntry_def Let_def)+
  then consider "addEntry dk (build True rs trail) p s = s"
    | r where "addEntry dk (build True rs trail) p s = AList.update (build False ns False) r s" "sn_path r = p"
    by blast
  then show ?thesis
  proof cases
    case (2 r)
    then show ?thesis
      using assms(2) ns by (auto simp: rooted_def distinct_update update_conv simp del: map_of_eq_Some_iff)
  qed (use assms(2) in simp)
qed

lemma rooted_take:
  assumes rs: "\<forall>n\<in>set rs. normal_name n" and "walk_law dk rs (build True rs trail)"
    and "takeFileSnapshot dk (build True rs trail) = Inr s"
  shows "rooted rs s"
proof -
  have "rooted rs (fold (addEntry dk (build True rs trail)) ps s)"
    if "rooted rs s" "\<forall>p\<in>set ps. \<exists>ns. ns \<noteq> [] \<and> (\<forall>n\<in>set ns. normal_name n) \<and> p = build True (rs @ ns) False" for ps s
    using that by (induction ps arbitrary: s) (auto intro: rooted_addEntry [OF rs])
  from this [of "[]"] show ?thesis
    using assms(2,3) by (auto simp: takeFileSnapshot_def walk_law_def split: if_splits prod.splits option.splits)
qed

text \<open>The gone and the new entries by their keys.\<close>

lemma gone_keys: "rooted rs before \<Longrightarrow> e \<in> gone before after \<longleftrightarrow> (\<exists>k. map_of before k = Some e \<and> map_of after k = None)"
  by (auto simp: gone_def rooted_def)

lemma news_keys: "rooted rs after \<Longrightarrow> e \<in> news before after \<longleftrightarrow>
    (\<exists>k. map_of after k = Some e \<and> (case map_of before k of None \<Rightarrow> True | Some old \<Rightarrow> changed old e))"
  by (auto simp: news_def rooted_def)

lemma rooted_inj:
  assumes "rooted rs s" and rs: "\<forall>n\<in>set rs. normal_name n" and "map_of s k = Some e" and "map_of s k' = Some e'" and "sn_path e = sn_path e'"
  shows "e = e'"
proof -
  obtain ns where ns: "\<forall>n\<in>set ns. normal_name n" "k = build False ns False" "sn_path e = build True (rs @ ns) False"
    using assms(1,3) unfolding rooted_def by blast
  obtain ns' where ns': "\<forall>n\<in>set ns'. normal_name n" "k' = build False ns' False" "sn_path e' = build True (rs @ ns') False"
    using assms(1,4) unfolding rooted_def by blast
  have "\<forall>n\<in>set (rs @ ns). plain_name n" "\<forall>n\<in>set (rs @ ns'). plain_name n"
    using rs ns(1) ns'(1) by (auto simp: normal_name_def)
  then have "rs @ ns = rs @ ns'" using build_parts(1) ns(3) ns'(3) assms(5) by metis
  then show ?thesis using assms(3,4) ns(2) ns'(2) by simp
qed

section \<open>Recording the differences\<close>

text \<open>What recording an event makes of the pending events of the root, path by path.\<close>

definition mark :: "string \<Rightarrow> (string \<Rightarrow> string) \<Rightarrow> (DirtyPathEventType \<times> string) list \<Rightarrow>
    (string \<times> string \<Rightarrow> string option) \<Rightarrow> (string \<times> string \<Rightarrow> string option)" where
  "mark rootId rel = fold (\<lambda>(a, p) m. m((rootId, rel p) \<mapsto> toDirtyPathEventTypeString a))"

lemma mark_append: "mark rootId rel (xs @ ys) m = mark rootId rel ys (mark rootId rel xs m)"
  by (simp add: mark_def)

lemma mark_settled:
  assumes "\<And>a p. (a, p) \<in> set xs \<Longrightarrow> (rootId, rel p) = k \<Longrightarrow> toDirtyPathEventTypeString a = v"
  shows "mark rootId rel xs m k = (if \<exists>a p. (a, p) \<in> set xs \<and> (rootId, rel p) = k then Some v else m k)"
  using assms
proof (induction xs arbitrary: m)
  case (Cons x xs)
  obtain a p where x: "x = (a, p)" by fastforce
  have "mark rootId rel (x # xs) m k = mark rootId rel xs (m((rootId, rel p) \<mapsto> toDirtyPathEventTypeString a)) k"
    by (simp add: mark_def x)
  also have "\<dots> = (if \<exists>a p. (a, p) \<in> set xs \<and> (rootId, rel p) = k then Some v
      else (m((rootId, rel p) \<mapsto> toDirtyPathEventTypeString a)) k)"
    by (rule Cons.IH) (rule Cons.prems, auto)
  finally show ?case using Cons.prems [of a p] by (auto simp: x)
qed (simp add: mark_def)

lemma upsert_ids:
  assumes "\<And>r. dp_id (f r) = dp_id r"
  shows "dp_id ` set (snd (stmtE (sql_upsert dirty_ok e idx f r) t)) \<subseteq> insert (dp_id r) (dp_id ` set t)"
proof (cases "sql_upsert dirty_ok e idx f r t")
  case (Inr t')
  have "\<forall>x\<in>set t'. dp_id x \<in> insert (dp_id r) (dp_id ` set t)"
    using sql_upsert_rows [OF Inr, of "\<lambda>x. dp_id x \<in> insert (dp_id r) (dp_id ` set t)"] assms by simp
  then show ?thesis using Inr by (auto simp: stmtE_def)
qed (auto simp: stmtE_def)

lemma insert_ids: "dp_id ` set (snd (insertDirtyPath now newId root p action t)) \<subseteq> insert newId (dp_id ` set t)"
proof -
  have new: "dp_id (new_dirty now newId root p action) = newId" for p by (simp add: new_dirty_def)
  show ?thesis
    using upsert_ids [of "\<lambda>r. r\<lparr>dp_updated_at := now\<rparr>" "step_failed ''dirty_paths''"
        idx_dirty_paths_pending_full_rescan "new_dirty now newId root None action" t]
      upsert_ids [of "\<lambda>r. r\<lparr>dp_event_type := toDirtyPathEventTypeString action, dp_updated_at := now\<rparr>" "step_failed ''dirty_paths''"
        idx_dirty_paths_pending_path "new_dirty now newId root p action" t]
    by (auto simp: insertDirtyPath_def throwE_def new)
qed

text \<open>
  Recording an event of the watcher on a root the table knows: its paths are inside the root and
  no path is one of the program's own temporary files.
\<close>

definition recordable :: "string \<Rightarrow> SyncRoot \<Rightarrow> (string \<Rightarrow> string) \<Rightarrow> FileEvent \<Rightarrow> bool" where
  "recordable cwd root rel ev \<longleftrightarrow>
     fe_rootId ev = root_Id root \<and> fe_type ev \<in> {Created, Modified, Deleted, Renamed} \<and>
     (fe_oldPath ev \<noteq> None \<longleftrightarrow> fe_type ev = Renamed) \<and>
     (\<forall>(a, p)\<in>set (event_paths ev). \<not> isArkiveTempPath p \<and>
        toRelativePath cwd (root_localPath root) p = Inr (Some (rel p)))"

lemma record_event:
  assumes inv: "dirty_inv t" and root: "findSyncRootById (root_Id root) roots = Inr (Some root)"
    and ev: "recordable cwd root rel ev"
    and fresh: "uuid 0 \<notin> dp_id ` set t" "uuid 1 \<notin> dp_id ` set t" "uuid 0 \<noteq> uuid (1 :: nat)"
  shows "\<exists>t'. recordEvent now uuid cwd roots ev t = (Inr (), t') \<and> dirty_inv t' \<and>
    dp_id ` set t' \<subseteq> {uuid 0, uuid 1} \<union> dp_id ` set t \<and>
    pendingEvent t' = mark (root_Id root) rel (event_paths ev) (pendingEvent t)"
proof -
  have one: "\<exists>t'. insertEvent now i cwd root a p t = (Inr (), t') \<and> dirty_inv t' \<and>
      dp_id ` set t' \<subseteq> insert i (dp_id ` set t) \<and> pendingEvent t' = mark (root_Id root) rel [(a, p)] (pendingEvent t)"
    if rel: "toRelativePath cwd (root_localPath root) p = Inr (Some (rel p))" and args: "a \<noteq> FullRescan" "i \<notin> dp_id ` set t"
      and inv: "dirty_inv t"
    for i a p t
  proof -
    obtain t' where t': "insertDirtyPath now i (root_Id root) (Some (rel p)) a t = (Inr (), t')"
      "\<forall>k. pendingEvent t' k = (if k = (root_Id root, rel p) then Some (toDirtyPathEventTypeString a) else pendingEvent t k)"
      using insert_path [OF inv args] by blast
    have "dirty_inv t'" using keepsD [OF keeps_insertDirtyPath inv, of now i "root_Id root" "Some (rel p)" a] t'(1) by simp
    then show ?thesis using t' insert_ids [of now i "root_Id root" "Some (rel p)" a t] rel by (auto simp: insertEvent_def mark_def)
  qed
  have run: "recordEvent now uuid cwd roots ev =
      (if fe_type ev = Renamed
       then bindE (insertEvent now (uuid 0) cwd root Delete (the (fe_oldPath ev)))
         (\<lambda>_. insertEvent now (uuid 1) cwd root Scan (fe_path ev))
       else insertEvent now (uuid 0) cwd root (if fe_type ev = Deleted then Delete else Scan) (fe_path ev))"
    using ev root by (auto simp: recordEvent_def recordable_def event_paths_def split: option.splits)
  show ?thesis
  proof (cases "fe_type ev = Renamed")
    case True
    then obtain q where q: "fe_oldPath ev = Some q" using ev by (auto simp: recordable_def)
    have paths: "event_paths ev = [(Delete, q), (Scan, fe_path ev)]" using True q by (simp add: event_paths_def)
    have rel: "toRelativePath cwd (root_localPath root) q = Inr (Some (rel q))"
      "toRelativePath cwd (root_localPath root) (fe_path ev) = Inr (Some (rel (fe_path ev)))"
      using ev paths by (simp_all add: recordable_def)
    obtain t1 where t1: "insertEvent now (uuid 0) cwd root Delete q t = (Inr (), t1)" "dirty_inv t1"
      "dp_id ` set t1 \<subseteq> insert (uuid 0) (dp_id ` set t)"
      "pendingEvent t1 = mark (root_Id root) rel [(Delete, q)] (pendingEvent t)"
      using one [OF rel(1) _ fresh(1) inv, of Delete] by auto
    have "uuid 1 \<notin> dp_id ` set t1" using t1(3) fresh by auto
    then obtain t2 where t2: "insertEvent now (uuid 1) cwd root Scan (fe_path ev) t1 = (Inr (), t2)" "dirty_inv t2"
      "dp_id ` set t2 \<subseteq> insert (uuid 1) (dp_id ` set t1)"
      "pendingEvent t2 = mark (root_Id root) rel [(Scan, fe_path ev)] (pendingEvent t1)"
      using one [OF rel(2) _ _ t1(2), of Scan "uuid 1"] by auto
    have "recordEvent now uuid cwd roots ev t = (Inr (), t2)"
      using t1(1) t2(1) True q by (simp add: run bindE_def)
    moreover have "pendingEvent t2 = mark (root_Id root) rel (event_paths ev) (pendingEvent t)"
      using t1(4) t2(4) by (simp add: paths mark_def)
    moreover have "dp_id ` set t2 \<subseteq> {uuid 0, uuid 1} \<union> dp_id ` set t" using t1(3) t2(3) by blast
    ultimately show ?thesis using t2(2) by blast
  next
    case False
    let ?a = "if fe_type ev = Deleted then Delete else Scan"
    have paths: "event_paths ev = [(?a, fe_path ev)]"
      using False ev by (auto simp: event_paths_def recordable_def)
    then have "toRelativePath cwd (root_localPath root) (fe_path ev) = Inr (Some (rel (fe_path ev)))"
      using ev by (simp add: recordable_def)
    moreover have "?a \<noteq> FullRescan" by simp
    ultimately obtain t' where
      "insertEvent now (uuid 0) cwd root ?a (fe_path ev) t = (Inr (), t')" "dirty_inv t'"
      "dp_id ` set t' \<subseteq> insert (uuid 0) (dp_id ` set t)"
      "pendingEvent t' = mark (root_Id root) rel (event_paths ev) (pendingEvent t)"
      using one [OF _ _ fresh(1) inv] unfolding paths by blast
    moreover from this(1) have "recordEvent now uuid cwd roots ev t = (Inr (), t')" using False by (simp add: run)
    ultimately show ?thesis by blast
  qed
qed

text \<open>Of the paths of a snapshot, taken under the root, the relative path is the key.\<close>

lemma rooted_relative:
  assumes "normalizeFsPath cwd (root_localPath root) = Inr (build True rs trail)"
    and rs: "\<forall>n\<in>set rs. normal_name n" and "rooted rs s" and "map_of s k = Some e"
  shows "toRelativePath cwd (root_localPath root) (sn_path e) = Inr (Some k)"
proof -
  obtain ns where ns: "ns \<noteq> []" "\<forall>n\<in>set ns. normal_name n" "k = build False ns False" "sn_path e = build True (rs @ ns) False"
    using assms(3,4) unfolding rooted_def by blast
  have all: "\<forall>n\<in>set (rs @ ns). normal_name n" using rs ns(2) by auto
  then have plain: "\<forall>n\<in>set (rs @ ns). plain_name n" by (simp add: normal_name_def)
  have "normalizeFsPath cwd (sn_path e) = Inr (sn_path e)"
    using lexically_normal_build(1) [OF all, of False] build_parts(2) [OF plain, of True False] build_not_Nil [of "rs @ ns" False]
    by (simp add: normalizeFsPath_def absolute_def ns(4))
  then show ?thesis
    using assms(1) relative_below [OF rs ns(2,1), of False trail] build_relative [OF ns(2,1), of False] ns(1,2) ns(3,4)
    by (auto simp: toRelativePath_def Let_def normal_name_def)
qed

section \<open>Hard links\<close>

lemma diffPresent_used:
  "diffPresent rootId before deleted after = (events, left) \<Longrightarrow> (k, e) \<in> set after \<Longrightarrow> map_of before k = None \<Longrightarrow>
   sn_identity e \<noteq> [] \<Longrightarrow> left (sn_identity e) = None"
proof (induction rootId before deleted after arbitrary: events left rule: diffPresent.induct)
  case (2 rootId before deleted key entry rest)
  show ?case
  proof (cases "(key, entry) = (k, e)")
    case True
    then have "left (sn_identity e) \<noteq> Some x" for x
      using 2(4-7) diffPresent_left [where i = "sn_identity e" and e = x] by (fastforce split: option.splits prod.splits if_splits)
    then show ?thesis by (cases "left (sn_identity e)") blast+
  next
    case False
    then show ?thesis using 2 by (fastforce split: option.splits prod.splits if_splits)
  qed
qed simp

text \<open>
  Two gone paths were the same file, and the file is there under a new name: a rename is
  reported for one of the two, and nothing for the other, although it is gone as well.
\<close>

theorem hard_link_deletion_lost:
  assumes "rooted rs before" and rs: "\<forall>n\<in>set rs. normal_name n"
    and "e1 \<in> gone before after" and "e2 \<in> gone before after" and "sn_path e1 \<noteq> sn_path e2"
    and "sn_identity e1 = sn_identity e" and "sn_identity e2 = sn_identity e" and "sn_identity e \<noteq> []"
    and "(k, e) \<in> set after" and "map_of before k = None"
  shows "\<not> {(Delete, sn_path e1), (Delete, sn_path e2)} \<subseteq> set (concat (map event_paths (diffFileSnapshots rootId before after)))"
proof
  let ?d = "deletedByIdentity before after"
  assume both: "{(Delete, sn_path e1), (Delete, sn_path e2)} \<subseteq> set (concat (map event_paths (diffFileSnapshots rootId before after)))"
  obtain events left where p: "diffPresent rootId before ?d after = (events, left)" by fastforce
  have used: "left (sn_identity e) = None" by (rule diffPresent_used [OF p assms(9,10,8)])
  have same: "x = y" if "x \<in> gone before after" "y \<in> gone before after" "sn_path x = sn_path y" for x y
    using that rooted_inj [OF assms(1) rs] gone_keys [OF assms(1)] by metis
  have "?d (sn_identity e) = Some x" if x: "x \<in> gone before after" "sn_identity x = sn_identity e"
      and "(Delete, sn_path x) \<in> set (concat (map event_paths (diffFileSnapshots rootId before after)))" for x
  proof -
    from that(3) consider i y where "?d i = Some y" "sn_path y = sn_path x"
      | y where "y \<in> gone before after" "sn_path y = sn_path x" "sn_identity y = [] \<or> left (sn_identity y) \<noteq> None"
      unfolding diff_paths_all [OF p] by auto
    then show ?thesis
    proof cases
      case (1 i y)
      then have "y = x" using same [OF _ x(1)] deletedByIdentity_Some [OF 1(1)] by blast
      then show ?thesis using 1(1) deletedByIdentity_Some [OF 1(1)] x(2) by auto
    next
      case (2 y)
      then show ?thesis using same [OF _ x(1)] used x(2) assms(8) by metis
    qed
  qed
  from this [of e1] this [of e2] show False using assms both by auto
qed

end
