(* ===== verification/Snapshot_Watcher.thy ===== *)
theory Snapshot_Watcher
  imports File_Snapshot Polling_Daemon
begin

text \<open>
  The watchers that compare snapshots: \<open>FSEventsWatcher\<close> (platform/macos/watcher) and
  \<open>ReadDirectoryChangesWatcher\<close> (platform/windows/watcher), which share their logic. The operating
  system only tells them that something below a root has changed, by setting a flag of the root;
  \<open>poll\<close> takes a new snapshot of the roots that are flagged and reports the differences. The thread
  that sets the flags is a step that may happen at any time between two calls; calls that set
  up streams and handles are left aside.
\<close>

section \<open>The watcher\<close>

record RootState =
  rs_rootId :: string
  rs_path :: string
  rs_snapshot :: FileSnapshot
  rs_dirty :: bool

record snapshot_watcher =
  sw_roots :: "RootState list"
  sw_stopped :: bool

text \<open>\<open>addRoot\<close>, when the operating system accepts the watch.\<close>

definition addSnapshotRoot :: "disk \<Rightarrow> string \<times> string \<Rightarrow> (snapshot_watcher, unit) act" where
  "addSnapshotRoot dk root w =
     (case takeFileSnapshot dk (snd root) of
        Inl e \<Rightarrow> (Inl e, w)
      | Inr s \<Rightarrow> (Inr (), w\<lparr>sw_roots := sw_roots w @
          [\<lparr>rs_rootId = fst root, rs_path = snd root, rs_snapshot = s, rs_dirty = False\<rparr>]\<rparr>))"

text \<open>The callback of the operating system for the \<open>i\<close>-th root.\<close>

definition flagRoot :: "nat \<Rightarrow> snapshot_watcher \<Rightarrow> snapshot_watcher" where
  "flagRoot i w = (if i < length (sw_roots w)
     then w\<lparr>sw_roots := (sw_roots w)[i := (sw_roots w ! i)\<lparr>rs_dirty := True\<rparr>]\<rparr> else w)"

fun pollRoots :: "disk \<Rightarrow> RootState list \<Rightarrow> FileEvent list result \<times> RootState list" where
  "pollRoots dk [] = (Inr [], [])"
| "pollRoots dk (root # rest) =
     (if \<not> rs_dirty root then (case pollRoots dk rest of (x, rest') \<Rightarrow> (x, root # rest'))
      else case takeFileSnapshot dk (rs_path root) of
        Inl e \<Rightarrow> (Inl e, root\<lparr>rs_dirty := False\<rparr> # rest)
      | Inr s \<Rightarrow> (case pollRoots dk rest of (x, rest') \<Rightarrow>
          (map_sum id ((@) (diffFileSnapshots (rs_rootId root) (rs_snapshot root) s)) x,
           root\<lparr>rs_dirty := False, rs_snapshot := s\<rparr> # rest')))"

definition pollSnapshots :: "disk \<Rightarrow> (snapshot_watcher, FileEvent list) act" where
  "pollSnapshots dk w = (case pollRoots dk (sw_roots w) of (x, roots) \<Rightarrow> (x, w\<lparr>sw_roots := roots\<rparr>))"

definition stopSnapshots :: "snapshot_watcher \<Rightarrow> snapshot_watcher" where
  "stopSnapshots w = (if sw_stopped w then w else w\<lparr>sw_stopped := True, sw_roots := []\<rparr>)"

text \<open>A poll of one flagged root.\<close>

lemma poll_one:
  "takeFileSnapshot dk (rs_path r) = Inr s \<Longrightarrow> rs_dirty r \<Longrightarrow>
   pollSnapshots dk \<lparr>sw_roots = [r], sw_stopped = b\<rparr> =
     (Inr (diffFileSnapshots (rs_rootId r) (rs_snapshot r) s),
      \<lparr>sw_roots = [r\<lparr>rs_dirty := False, rs_snapshot := s\<rparr>], sw_stopped = b\<rparr>)"
  by (simp add: pollSnapshots_def)

section \<open>From snapshots to dirty paths\<close>

text \<open>The identifiers drawn from now on are all different and not in the table.\<close>

definition fresh_ids :: "clocks \<Rightarrow> 'srv app \<Rightarrow> bool" where
  "fresh_ids c s \<longleftrightarrow> inj (uuid c) \<and> (\<forall>n\<ge>app_tick s. uuid c n \<notin> dp_id ` set (app_dirty s))"

lemma record_all:
  assumes "dirty_inv (app_dirty (dm_app d))" and "fresh_ids (sv_clocks sv) (dm_app d)"
    and "findSyncRootById (root_Id root) (app_roots (dm_app d)) = Inr (Some root)"
    and "\<forall>ev\<in>set evs. recordable (sv_cwd sv) root rel ev"
  shows "\<exists>d'. forE evs (\<lambda>e. appD (recordD sv e)) d = (Inr (), d') \<and> dirty_inv (app_dirty (dm_app d')) \<and>
    pendingEvent (app_dirty (dm_app d')) =
      mark (root_Id root) rel (concat (map event_paths evs)) (pendingEvent (app_dirty (dm_app d)))"
  using assms
proof (induction evs arbitrary: d)
  case Nil
  then show ?case by (simp add: returnE_def mark_def)
next
  case (Cons ev evs)
  let ?c = "sv_clocks sv" and ?s = "dm_app d"
  let ?id = "\<lambda>i. uuid ?c (app_tick ?s + i)"
  have ids: "?id 0 \<notin> dp_id ` set (app_dirty ?s)" "?id 1 \<notin> dp_id ` set (app_dirty ?s)" "?id 0 \<noteq> ?id 1"
    using Cons.prems(2) by (auto simp: fresh_ids_def dest: injD)
  have "recordable (sv_cwd sv) root rel ev" using Cons.prems(4) by simp
  from record_event [OF Cons.prems(1,3) this ids, of "clock ?c (app_tick ?s)"]
  obtain t where t: "recordEvent (clock ?c (app_tick ?s)) ?id (sv_cwd sv) (app_roots ?s) ev (app_dirty ?s) = (Inr (), t)"
    "dirty_inv t" "dp_id ` set t \<subseteq> {?id 0, ?id 1} \<union> dp_id ` set (app_dirty ?s)"
    "pendingEvent t = mark (root_Id root) rel (event_paths ev) (pendingEvent (app_dirty ?s))" by blast
  let ?s' = "?s\<lparr>app_tick := app_tick ?s + length (app_roots ?s) + 2, app_dirty := t\<rparr>"
  let ?d = "d\<lparr>dm_app := ?s'\<rparr>"
  have step: "appD (recordD sv ev) d = (Inr (), ?d)"
    using t(1) by (simp add: appD_def recordD_def onDirty_def)
  have "uuid ?c n \<notin> dp_id ` set t" if n: "n \<ge> app_tick ?s + length (app_roots ?s) + 2" for n
  proof -
    have "uuid ?c n \<noteq> ?id 0" "uuid ?c n \<noteq> ?id 1" "uuid ?c n \<notin> dp_id ` set (app_dirty ?s)"
      using Cons.prems(2) n by (auto simp: fresh_ids_def dest!: injD)
    then show ?thesis using t(3) by blast
  qed
  then have "fresh_ids ?c ?s'" using Cons.prems(2) by (simp add: fresh_ids_def)
  from Cons.IH [of ?d] this Cons.prems(3,4) t(2)
  obtain d' where "forE evs (\<lambda>e. appD (recordD sv e)) ?d = (Inr (), d')" "dirty_inv (app_dirty (dm_app d'))"
    "pendingEvent (app_dirty (dm_app d')) = mark (root_Id root) rel (concat (map event_paths evs)) (pendingEvent t)" by auto
  then show ?case using step t(4) by (auto simp: bindE_def mark_append)
qed

text \<open>What a path below the root is recorded as, after the snapshots of it differ.\<close>

definition difference :: "FileSnapshotEntry option \<Rightarrow> FileSnapshotEntry option \<Rightarrow> DirtyPathEventType option" where
  "difference before after =
     (case (before, after) of
        (None, None) \<Rightarrow> None
      | (Some _, None) \<Rightarrow> Some Delete
      | (None, Some _) \<Rightarrow> Some Scan
      | (Some old, Some entry) \<Rightarrow> if changed old entry then Some Scan else None)"

lemma difference_iff:
  assumes "rooted rs before" and "rooted rs after"
  shows "difference (map_of before k) (map_of after k) = Some a \<longleftrightarrow>
     (a = Scan \<and> (\<exists>e. map_of after k = Some e \<and> (case map_of before k of None \<Rightarrow> True | Some old \<Rightarrow> changed old e)) \<or>
      a = Delete \<and> (\<exists>e. map_of before k = Some e \<and> map_of after k = None))"
  by (auto simp: difference_def split: option.splits)

lemma diff_relative:
  assumes path: "root_localPath root = build True rs trail" and rs: "\<forall>n\<in>set rs. normal_name n"
    and before: "rooted rs before" and after: "rooted rs after" and links: "no_links before after"
    and rel: "rel = (\<lambda>p. case toRelativePath cwd (root_localPath root) p of Inr (Some k) \<Rightarrow> k | _ \<Rightarrow> [])"
  shows "(a, p) \<in> set (concat (map event_paths (diffFileSnapshots (root_Id root) before after))) \<Longrightarrow>
      toRelativePath cwd (root_localPath root) p = Inr (Some (rel p)) \<and>
      difference (map_of before (rel p)) (map_of after (rel p)) = Some a"
    and "difference (map_of before k) (map_of after k) = Some a \<Longrightarrow>
      \<exists>p. (a, p) \<in> set (concat (map event_paths (diffFileSnapshots (root_Id root) before after))) \<and> rel p = k"
proof -
  let ?evs = "set (concat (map event_paths (diffFileSnapshots (root_Id root) before after)))"
  have "is_absolute (build True rs trail)" using build_parts(2) [of rs True trail] rs by (simp add: normal_name_def)
  then have norm: "normalizeFsPath cwd (root_localPath root) = Inr (build True rs trail)"
    using lexically_normal_build(1) [OF rs, of trail] build_not_Nil [of rs trail] by (simp add: normalizeFsPath_def absolute_def path)
  note key = rooted_relative [OF norm rs before] rooted_relative [OF norm rs after]
  have all: "?evs = (\<lambda>e. (Scan, sn_path e)) ` news before after \<union> (\<lambda>e. (Delete, sn_path e)) ` gone before after"
    using diff_paths [where rootId = "root_Id root" and before = before and after = after] links by blast
  { assume "(a, p) \<in> ?evs"
    then consider k e where "a = Scan" "p = sn_path e" "map_of after k = Some e"
        "case map_of before k of None \<Rightarrow> True | Some old \<Rightarrow> changed old e"
      | k e where "a = Delete" "p = sn_path e" "map_of before k = Some e" "map_of after k = None"
      unfolding all by (auto simp: gone_keys [OF before] news_keys [OF after])
    then show "toRelativePath cwd (root_localPath root) p = Inr (Some (rel p)) \<and>
      difference (map_of before (rel p)) (map_of after (rel p)) = Some a"
      by cases (use key in \<open>auto simp: rel difference_def split: option.splits\<close>) }
  assume "difference (map_of before k) (map_of after k) = Some a"
  then consider e where "a = Scan" "map_of after k = Some e" "case map_of before k of None \<Rightarrow> True | Some old \<Rightarrow> changed old e"
    | e where "a = Delete" "map_of before k = Some e" "map_of after k = None"
    unfolding difference_iff [OF before after] by blast
  then show "\<exists>p. (a, p) \<in> ?evs \<and> rel p = k"
  proof cases
    case (1 e)
    then have "(a, sn_path e) \<in> ?evs" unfolding all using news_keys [OF after, of e before] by blast
    with 1 key(2) show ?thesis by (auto simp: rel)
  next
    case (2 e)
    then have "(a, sn_path e) \<in> ?evs" unfolding all using gone_keys [OF before, of e after] by blast
    with 2 key(1) show ?thesis by (auto simp: rel)
  qed
qed

section \<open>Properties\<close>

text \<open>
  C4. From the disk to the table: when a flagged root is polled, and the daemon records the
  events, each path below the root that is in the old snapshot only has the pending event
  \<open>delete\<close> afterwards, each path that is new or has another kind, size or time has \<open>scan\<close>, and
  the pending events of all other paths, and of other roots, are as before. It is relied on that directory
  iterators list what is below the directory, that no two gone paths were the same file, and
  that the changes are not the program's own temporary files.
\<close>

theorem snapshot_changes_recorded:
  assumes "dirty_inv (app_dirty (dm_app d))" and "fresh_ids (sv_clocks sv) (dm_app d)"
    and "findSyncRootById (root_Id root) (app_roots (dm_app d)) = Inr (Some root)"
    and path: "root_localPath root = build True rs trail" and rs: "\<forall>n\<in>set rs. normal_name n"
    and "walk_law dk0 rs (root_localPath root)" and "walk_law dk rs (root_localPath root)"
    and before: "takeFileSnapshot dk0 (root_localPath root) = Inr before"
    and after: "takeFileSnapshot dk (root_localPath root) = Inr after"
    and links: "no_links before after"
    and temp: "\<forall>e\<in>gone before after \<union> news before after. \<not> isArkiveTempPath (sn_path e)"
    and poll: "fst (pollSnapshots dk \<lparr>sw_roots = [\<lparr>rs_rootId = root_Id root, rs_path = root_localPath root,
      rs_snapshot = before, rs_dirty = True\<rparr>], sw_stopped = False\<rparr>) = Inr events"
    and "dm_polls d = events # polls"
  shows "\<exists>d'. processWatcherEvents sv d = (Inr (), d') \<and> dirty_inv (app_dirty (dm_app d')) \<and>
    (\<forall>r k. pendingEvent (app_dirty (dm_app d')) (r, k) =
      (case (if r = root_Id root then difference (map_of before k) (map_of after k) else None) of
         Some a \<Rightarrow> Some (toDirtyPathEventTypeString a)
       | None \<Rightarrow> pendingEvent (app_dirty (dm_app d)) (r, k)))"
proof -
  define rel where "rel = (\<lambda>p. case toRelativePath (sv_cwd sv) (root_localPath root) p of Inr (Some k) \<Rightarrow> k | _ \<Rightarrow> [])"
  have events: "events = diffFileSnapshots (root_Id root) before after"
    using poll poll_one [of dk "\<lparr>rs_rootId = root_Id root, rs_path = root_localPath root, rs_snapshot = before, rs_dirty = True\<rparr>"]
      after by simp
  have rooted: "rooted rs before" "rooted rs after"
    using rooted_take [OF rs, of _ trail] assms(6,7) before after unfolding path by blast+
  note rel_paths = diff_relative [OF path rs rooted links rel_def]
  let ?paths = "concat (map event_paths events)"
  have "\<forall>ev\<in>set events. recordable (sv_cwd sv) root rel ev"
  proof
    fix ev assume ev: "ev \<in> set events"
    have "(a, p) \<in> set ?paths" if "(a, p) \<in> set (event_paths ev)" for a p using that ev by auto
    then show "recordable (sv_cwd sv) root rel ev"
      unfolding recordable_def using diff_shape [of ev "root_Id root" before after] ev temp rel_paths(1)
        diff_paths(1) [of "root_Id root" before after] unfolding events by fast
  qed
  then obtain d' where d': "forE events (\<lambda>e. appD (recordD sv e)) (d\<lparr>dm_polls := polls\<rparr>) = (Inr (), d')"
    "dirty_inv (app_dirty (dm_app d'))"
    "pendingEvent (app_dirty (dm_app d')) = mark (root_Id root) rel ?paths (pendingEvent (app_dirty (dm_app d)))"
    using record_all [of "d\<lparr>dm_polls := polls\<rparr>" sv root events rel] assms(1-3) by auto
  have "processWatcherEvents sv d = (Inr (), d')"
    using d'(1) \<open>dm_polls d = events # polls\<close> by (simp add: processWatcherEvents_def bindE_def pollWatcher_def)
  moreover have "pendingEvent (app_dirty (dm_app d')) (r, k) =
      (case (if r = root_Id root then difference (map_of before k) (map_of after k) else None) of
         Some a \<Rightarrow> Some (toDirtyPathEventTypeString a)
       | None \<Rightarrow> pendingEvent (app_dirty (dm_app d)) (r, k))" for r k
  proof -
    let ?v = "case difference (map_of before k) (map_of after k) of Some a \<Rightarrow> toDirtyPathEventTypeString a | None \<Rightarrow> []"
    have settled: "toDirtyPathEventTypeString a = ?v" if "(a, p) \<in> set ?paths" "(root_Id root, rel p) = (r, k)" for a p
      using rel_paths(1) [of a p] that by (simp add: events)
    have "mark (root_Id root) rel ?paths m (r, k) =
        (if \<exists>a p. (a, p) \<in> set ?paths \<and> (root_Id root, rel p) = (r, k) then Some ?v else m (r, k))" for m
      by (rule mark_settled) (rule settled)
    moreover have "(\<exists>a p. (a, p) \<in> set ?paths \<and> (root_Id root, rel p) = (r, k)) \<longleftrightarrow>
        r = root_Id root \<and> difference (map_of before k) (map_of after k) \<noteq> None"
      using rel_paths unfolding events by fastforce
    ultimately show ?thesis by (auto simp: d'(3) split: option.splits)
  qed
  ultimately show ?thesis using d'(2) by blast
qed

text \<open>A disk with one file under \<open>/home/a\<close>, and the file renamed.\<close>

definition demo_disk :: "string \<Rightarrow> disk" where
  "demo_disk n =
     \<lparr>dk_exists = (\<lambda>_. True), dk_walk = (\<lambda>_. ([''/home/a/'' @ n], None)), dk_is_directory = (\<lambda>_. Some False),
      dk_file_size = (\<lambda>_. Some 3), dk_last_write_time = (\<lambda>_. 5), dk_stat = (\<lambda>_. Some (1, 7))\<rparr>"

theorem snapshot_changes_recorded_witness:
  "\<exists>events d'. processWatcherEvents idle_services (demo_daemon\<lparr>dm_polls := [events]\<rparr>) = (Inr (), d') \<and>
     map (pendingEvent (app_dirty (dm_app d'))) [(''s1'', ''b''), (''s1'', ''c''), (''s1'', ''y''), (''s1'', ''z'')] =
       [Some ''delete'', Some ''scan'', Some ''scan'', None]"
proof -
  let ?root = "demoRoot\<lparr>root_folderId := [], root_createdAt := ''t''\<rparr>"
  let ?entry = "\<lambda>n. \<lparr>sn_path = ''/home/a/'' @ n, sn_identity = ''1:7'', sn_size = 3, sn_modifiedAt = 5, sn_isDirectory = False\<rparr>"
  let ?poll = "pollSnapshots (demo_disk ''c'') \<lparr>sw_roots = [\<lparr>rs_rootId = root_Id ?root, rs_path = root_localPath ?root,
      rs_snapshot = [(''b'', ?entry ''b'')], rs_dirty = True\<rparr>], sw_stopped = False\<rparr>"
  have id: "fileIdentity (demo_disk n) p = ''1:7''" for n p
    by (simp add: fileIdentity_def demo_disk_def nat_to_string.simps digit_char_def)
  have take: "takeFileSnapshot (demo_disk n) ''/home/a'' = Inr [(n, ?entry n)]" if "n = ''b'' \<or> n = ''c''" for n
  proof -
    have "lexically_relative (''/home/a/'' @ n) ''/home/a'' = n \<and> pathKey n = n"
      using that by (elim disjE; hypsubst; code_simp)
    then show ?thesis using that id [of n "''/home/a/'' @ n"]
      by (auto simp: takeFileSnapshot_def addEntry_def demo_disk_def Let_def)
  qed
  note [simp] = take [of "''b''", simplified] take [of "''c''", simplified]
  have poll: "fst ?poll = Inr [snapshotEvent ''s1'' Renamed (?entry ''c'') (Some ''/home/a/b'')]"
    by (simp add: demoRoot_def poll_one diffFileSnapshots_def deletedByIdentity_def diffGone_def)
  let ?events = "[snapshotEvent ''s1'' Renamed (?entry ''c'') (Some ''/home/a/b'')]"
  let ?d = "demo_daemon\<lparr>dm_polls := [?events]\<rparr>"
  have fresh: "fresh_ids (sv_clocks idle_services) (dm_app ?d)"
  proof -
    have "inj (uuid (sv_clocks idle_services))"
      by (rule injI) (metis demo_scan_def idle_services_def clocks.select_convs(2) length_replicate scan_env.select_convs(1) services.select_convs(1))
    moreover have "replicate n CHR ''u'' \<noteq> ''a''" for n by (cases n) simp_all
    ultimately show ?thesis
      by (auto simp: fresh_ids_def demo_daemon_def demo_tree_def new_dirty_def idle_services_def demo_scan_def)
  qed
  have root: "findSyncRootById (root_Id ?root) (app_roots (dm_app ?d)) = Inr (Some ?root)"
    by (simp add: demo_daemon_def demo_tree_def sample_app_def) code_simp
  have walk: "walk_law (demo_disk n) [''home'', ''a''] (root_localPath ?root)" if "normal_name n" for n
    using that by (auto simp: walk_law_def demo_disk_def build_def intro!: exI [of _ "[n]"])
  have path: "root_localPath ?root = build True [''home'', ''a''] False" by (simp add: demoRoot_def build_def)
  have names: "\<forall>n\<in>set [''home'', ''a'']. normal_name n" "normal_name ''b''" "normal_name ''c''" by code_simp+
  have sets: "gone [(''b'', ?entry ''b'')] [(''c'', ?entry ''c'')] = {?entry ''b''}"
    "news [(''b'', ?entry ''b'')] [(''c'', ?entry ''c'')] = {?entry ''c''}" by (auto simp: gone_def news_def)
  have temp: "\<forall>e\<in>gone [(''b'', ?entry ''b'')] [(''c'', ?entry ''c'')] \<union> news [(''b'', ?entry ''b'')] [(''c'', ?entry ''c'')].
      \<not> isArkiveTempPath (sn_path e)" unfolding sets by code_simp
  have links: "no_links [(''b'', ?entry ''b'')] [(''c'', ?entry ''c'')]" unfolding no_links_def sets by (simp add: inj_on_def)
  have inv: "dirty_inv (app_dirty (dm_app ?d))" using demo_dirty by simp
  have before: "takeFileSnapshot (demo_disk ''b'') (root_localPath ?root) = Inr [(''b'', ?entry ''b'')]"
    and after: "takeFileSnapshot (demo_disk ''c'') (root_localPath ?root) = Inr [(''c'', ?entry ''c'')]"
    by (simp_all add: demoRoot_def)
  have old: "pendingEvent (app_dirty (dm_app ?d)) (''s1'', ''y'') = Some ''scan''"
    "pendingEvent (app_dirty (dm_app ?d)) (''s1'', ''z'') = None"
    by (simp_all add: demo_daemon_def) (code_simp, code_simp)
  have id: "root_Id ?root = ''s1''" by (simp add: demoRoot_def)
  obtain d' where "processWatcherEvents idle_services ?d = (Inr (), d')"
    "\<forall>r k. pendingEvent (app_dirty (dm_app d')) (r, k) =
      (case (if r = ''s1'' then difference (map_of [(''b'', ?entry ''b'')] k) (map_of [(''c'', ?entry ''c'')] k) else None) of
         Some a \<Rightarrow> Some (toDirtyPathEventTypeString a) | None \<Rightarrow> pendingEvent (app_dirty (dm_app ?d)) (r, k))"
    using snapshot_changes_recorded [OF inv fresh root path names(1) walk [OF names(2)] walk [OF names(3)] before after
        links temp poll, of "[]"] unfolding id by auto
  then show ?thesis using old by (intro exI [of _ ?events] exI [of _ d']) (simp add: difference_def)
qed

end
