(* ===== verification/Inotify_Watcher.thy ===== *)
theory Inotify_Watcher
  imports Dirty_Path_Repo "HOL-Library.AList"
begin

text \<open>
  The watcher of Linux (platform/linux/watcher/INotifyWatcher.hpp): it keeps a watch for every
  directory below the roots, pairs the two halves of a move by their cookie, and turns the
  kernel's events into file events.

  The kernel is a parameter: what \<open>inotify_add_watch\<close> and \<open>inotify_rm_watch\<close> do to its state and the watch
  descriptor the former returns (negative when it fails), which directories a recursive iterator lists,
  and the steady clock, of which each reading is the next value of a sequence. The
  descriptor does not block: \<open>poll\<close> is given the results of its \<open>read\<close> calls, and the call
  after the last of them finds nothing to read. An event is one \<open>inotify_event\<close>, its name without the padding.
  Hash tables are lists of pairs with distinct keys; their order is that of an iteration.
\<close>

unbundle bit_operations_syntax

section \<open>The kernel\<close>

record inotify_event =
  ie_wd :: int
  ie_mask :: "32 word"
  ie_cookie :: "32 word"
  ie_name :: string

datatype read_result = Interrupted | Would_block | Read_failed string | Read_end | Read_events "inotify_event list"

record 'k kernel =
  kn_add_watch :: "string \<Rightarrow> 'k \<Rightarrow> int \<times> 'k"
  kn_rm_watch :: "int \<Rightarrow> 'k \<Rightarrow> 'k"
  kn_directories :: "string \<Rightarrow> 'k \<Rightarrow> string list"
  kn_steady :: "nat \<Rightarrow> int"

text \<open>The bits of the masks.\<close>

definition IN_MODIFY :: "32 word" where "IN_MODIFY = 0x2"
definition IN_ATTRIB :: "32 word" where "IN_ATTRIB = 0x4"
definition IN_CLOSE_WRITE :: "32 word" where "IN_CLOSE_WRITE = 0x8"
definition IN_MOVED_FROM :: "32 word" where "IN_MOVED_FROM = 0x40"
definition IN_MOVED_TO :: "32 word" where "IN_MOVED_TO = 0x80"
definition IN_CREATE :: "32 word" where "IN_CREATE = 0x100"
definition IN_DELETE :: "32 word" where "IN_DELETE = 0x200"
definition IN_DELETE_SELF :: "32 word" where "IN_DELETE_SELF = 0x400"
definition IN_MOVE_SELF :: "32 word" where "IN_MOVE_SELF = 0x800"
definition IN_Q_OVERFLOW :: "32 word" where "IN_Q_OVERFLOW = 0x4000"
definition IN_ISDIR :: "32 word" where "IN_ISDIR = 0x40000000"

lemmas in_masks = IN_MODIFY_def IN_ATTRIB_def IN_CLOSE_WRITE_def IN_MOVED_FROM_def IN_MOVED_TO_def IN_CREATE_def
  IN_DELETE_def IN_DELETE_SELF_def IN_MOVE_SELF_def IN_Q_OVERFLOW_def IN_ISDIR_def

definition has_bits :: "inotify_event \<Rightarrow> 32 word \<Rightarrow> bool" where
  "has_bits ev bits \<longleftrightarrow> ie_mask ev AND bits \<noteq> 0"

definition toEventType :: "32 word \<Rightarrow> FileEventType" where
  "toEventType bits =
     (if bits AND IN_Q_OVERFLOW \<noteq> 0 then Overflow
      else if bits AND IN_MOVED_FROM \<noteq> 0 then MovedFrom
      else if bits AND IN_MOVED_TO \<noteq> 0 then MovedTo
      else if bits AND (IN_DELETE OR IN_DELETE_SELF) \<noteq> 0 then Deleted
      else if bits AND (IN_CLOSE_WRITE OR IN_MODIFY) \<noteq> 0 then Modified
      else if bits AND IN_CREATE \<noteq> 0 then Created
      else if bits AND IN_ATTRIB \<noteq> 0 then AttributeChanged
      else Unknown)"

section \<open>The watcher\<close>

record WatchInfo =
  wi_wd :: int
  wi_rootId :: string
  wi_path :: string
  wi_recursive :: bool

record PendingMove =
  pm_rootId :: string
  pm_oldPath :: string
  pm_isDirectory :: bool
  pm_seenAt :: int

record 'k watcher =
  w_stopped :: bool
  w_watches :: "(int \<times> WatchInfo) list"
  w_pathToWd :: "(string \<times> int) list"
  w_pendingMoves :: "(32 word \<times> PendingMove) list"
  w_kernel :: 'k
  w_tick :: nat

type_synonym watch_root = "string \<times> string"

definition new_watcher :: "'k \<Rightarrow> 'k watcher" where
  "new_watcher k = \<lparr>w_stopped = False, w_watches = [], w_pathToWd = [], w_pendingMoves = [], w_kernel = k, w_tick = 0\<rparr>"

text \<open>The loop over the elements of both paths.\<close>

fun elements_prefix :: "string list \<Rightarrow> string list \<Rightarrow> bool" where
  "elements_prefix [] cs = True"
| "elements_prefix (p # ps) [] = False"
| "elements_prefix (p # ps) (c # cs) = (if p \<noteq> c then False else elements_prefix ps cs)"

definition isSameOrChildPath :: "string \<Rightarrow> string \<Rightarrow> bool" where
  "isSameOrChildPath parent child =
     elements_prefix (path_elements (lexically_normal parent)) (path_elements (lexically_normal child))"

definition removeWatch :: "'k kernel \<Rightarrow> int \<Rightarrow> 'k watcher \<Rightarrow> 'k watcher" where
  "removeWatch kn wd w =
     (case map_of (w_watches w) wd of
        None \<Rightarrow> w
      | Some info \<Rightarrow> w\<lparr>w_pathToWd := AList.delete (lexically_normal (wi_path info)) (w_pathToWd w),
          w_kernel := kn_rm_watch kn wd (w_kernel w), w_watches := AList.delete wd (w_watches w)\<rparr>)"

definition removeWatchesUnder :: "'k kernel \<Rightarrow> string \<Rightarrow> 'k watcher \<Rightarrow> 'k watcher" where
  "removeWatchesUnder kn path w =
     fold (removeWatch kn) (map fst (filter (\<lambda>(wd, info). isSameOrChildPath path (wi_path info)) (w_watches w))) w"

definition addWatch :: "'k kernel \<Rightarrow> watch_root \<Rightarrow> string \<Rightarrow> 'k watcher \<Rightarrow> 'k watcher" where
  "addWatch kn root path w =
     (let normalizedPath = lexically_normal path; pathKey = lexically_normal normalizedPath in
      if map_of (w_pathToWd w) pathKey \<noteq> None then w
      else case kn_add_watch kn normalizedPath (w_kernel w) of (wd, k) \<Rightarrow>
        if wd < 0 then w\<lparr>w_kernel := k\<rparr>
        else w\<lparr>w_kernel := k,
          w_watches := AList.update wd
            \<lparr>wi_wd = wd, wi_rootId = fst root, wi_path = normalizedPath, wi_recursive = True\<rparr> (w_watches w),
          w_pathToWd := AList.update pathKey wd
            (case map_of (w_watches w) wd of
               None \<Rightarrow> w_pathToWd w
             | Some existing \<Rightarrow> AList.delete (lexically_normal (wi_path existing)) (w_pathToWd w))\<rparr>)"

text \<open>The directories are listed while the watches are added: each watch is added to the state the
  previous one left, the list is that of the moment the iterator is made.\<close>

definition addWatchRecursive :: "'k kernel \<Rightarrow> watch_root \<Rightarrow> 'k watcher \<Rightarrow> 'k watcher" where
  "addWatchRecursive kn root w =
     (let w' = addWatch kn root (snd root) w in
      fold (addWatch kn root) (kn_directories kn (snd root) (w_kernel w')) w')"

definition addRoot :: "'k kernel \<Rightarrow> watch_root \<Rightarrow> 'k watcher \<Rightarrow> 'k watcher" where
  "addRoot kn root w = addWatchRecursive kn root w"

definition maxMoveAge :: int where
  "maxMoveAge = 500"

definition fileEvent :: "string \<Rightarrow> string \<Rightarrow> string option \<Rightarrow> FileEventType \<Rightarrow> bool \<Rightarrow> 32 word \<Rightarrow> FileEvent" where
  "fileEvent rootId path oldPath ty dir cookie =
     \<lparr>fe_rootId = rootId, fe_path = path, fe_oldPath = oldPath, fe_type = ty, fe_isDirectory = dir, fe_cookie = cookie\<rparr>"

text \<open>The loop of \<open>drainExpiredMoves\<close> over the pending moves; the clock is read once before it.\<close>

fun drainMoves :: "'k kernel \<Rightarrow> int \<Rightarrow> (32 word \<times> PendingMove) list \<Rightarrow> 'k watcher \<Rightarrow> FileEvent list \<times> 'k watcher" where
  "drainMoves kn now [] w = ([], w)"
| "drainMoves kn now ((cookie, move) # rest) w =
     (if now - pm_seenAt move < maxMoveAge then drainMoves kn now rest w
      else
        let w1 = (if pm_isDirectory move then removeWatchesUnder kn (pm_oldPath move) w else w);
            w2 = w1\<lparr>w_pendingMoves := AList.delete cookie (w_pendingMoves w1)\<rparr> in
        case drainMoves kn now rest w2 of (events, w') \<Rightarrow>
          (fileEvent (pm_rootId move) (pm_oldPath move) None Deleted (pm_isDirectory move) cookie # events, w'))"

definition drainExpiredMoves :: "'k kernel \<Rightarrow> 'k watcher \<Rightarrow> FileEvent list \<times> 'k watcher" where
  "drainExpiredMoves kn w = drainMoves kn (kn_steady kn (w_tick w)) (w_pendingMoves w) (w\<lparr>w_tick := Suc (w_tick w)\<rparr>)"

definition handleEvent :: "'k kernel \<Rightarrow> inotify_event \<Rightarrow> 'k watcher \<Rightarrow> FileEvent option \<times> 'k watcher" where
  "handleEvent kn event w =
     (if has_bits event IN_Q_OVERFLOW then (Some (fileEvent [] [] None Overflow False (ie_cookie event)), w)
      else case map_of (w_watches w) (ie_wd event) of
        None \<Rightarrow> (None, w)
      | Some watch \<Rightarrow>
          let fullPath = (if ie_name event \<noteq> [] then path_append (wi_path watch) (ie_name event) else wi_path watch);
              dir = has_bits event IN_ISDIR; rootId = wi_rootId watch; cookie = ie_cookie event in
          if has_bits event IN_MOVED_FROM \<and> cookie \<noteq> 0 then
            (None, w\<lparr>w_pendingMoves := AList.update cookie
                \<lparr>pm_rootId = rootId, pm_oldPath = fullPath, pm_isDirectory = dir, pm_seenAt = kn_steady kn (w_tick w)\<rparr>
                (w_pendingMoves w), w_tick := Suc (w_tick w)\<rparr>)
          else if has_bits event IN_MOVED_FROM \<and> cookie = 0 then
            (Some (fileEvent rootId fullPath None Deleted dir 0), w)
          else if has_bits event IN_MOVED_TO \<and> cookie \<noteq> 0 then
            (case map_of (w_pendingMoves w) cookie of
               Some pending \<Rightarrow>
                 if pm_rootId pending = rootId then
                   (let w1 = w\<lparr>w_pendingMoves := AList.delete cookie (w_pendingMoves w)\<rparr>;
                        moved = dir \<or> pm_isDirectory pending;
                        w2 = (if moved then addWatchRecursive kn (rootId, fullPath) (removeWatchesUnder kn (pm_oldPath pending) w1)
                              else w1) in
                    (Some (fileEvent rootId fullPath (Some (pm_oldPath pending)) Renamed moved cookie), w2))
                 else (Some (fileEvent rootId fullPath None Created dir cookie),
                   if dir then addWatchRecursive kn (rootId, fullPath) w else w)
             | None \<Rightarrow> (Some (fileEvent rootId fullPath None Created dir cookie),
                 if dir then addWatchRecursive kn (rootId, fullPath) w else w))
          else if has_bits event IN_MOVED_TO \<and> cookie = 0 then
            (Some (fileEvent rootId fullPath None Created dir 0),
             if dir then addWatchRecursive kn (rootId, fullPath) w else w)
          else
            let w1 = (if dir \<and> has_bits event (IN_CREATE OR IN_MOVED_TO) then addWatchRecursive kn (rootId, fullPath) w else w) in
            if has_bits event IN_MOVE_SELF then (None, removeWatch kn (ie_wd event) w1)
            else if has_bits event IN_DELETE_SELF then (None, removeWatch kn (ie_wd event) w1)
            else (Some (fileEvent rootId fullPath None (toEventType (ie_mask event)) dir cookie), w1))"

fun handleEvents :: "'k kernel \<Rightarrow> inotify_event list \<Rightarrow> 'k watcher \<Rightarrow> FileEvent list \<times> 'k watcher" where
  "handleEvents kn [] w = ([], w)"
| "handleEvents kn (event # rest) w =
     (case handleEvent kn event w of (ev, w1) \<Rightarrow>
        (case handleEvents kn rest w1 of (events, w') \<Rightarrow> ((case ev of None \<Rightarrow> [] | Some e \<Rightarrow> [e]) @ events, w')))"

text \<open>The reading loop of \<open>poll\<close>.\<close>

fun readLoop :: "'k kernel \<Rightarrow> read_result list \<Rightarrow> 'k watcher \<Rightarrow> FileEvent list result \<times> 'k watcher" where
  "readLoop kn [] w = (Inr [], w)"
| "readLoop kn (Interrupted # reads) w = readLoop kn reads w"
| "readLoop kn (Would_block # reads) w = (Inr [], w)"
| "readLoop kn (Read_failed reason # reads) w = (Inl (Runtime_error (''inotify read failed: '' @ reason)), w)"
| "readLoop kn (Read_end # reads) w = (Inr [], w)"
| "readLoop kn (Read_events batch # reads) w =
     (case handleEvents kn batch w of (events, w1) \<Rightarrow>
        (case readLoop kn reads w1 of (x, w') \<Rightarrow> (map_sum id ((@) events) x, w')))"

definition poll :: "'k kernel \<Rightarrow> read_result list \<Rightarrow> ('k watcher, FileEvent list) act" where
  "poll kn reads w =
     (if w_stopped w then (Inr [], w)
      else case readLoop kn reads w of
        (Inl e, w1) \<Rightarrow> (Inl e, w1)
      | (Inr events, w1) \<Rightarrow> (case drainExpiredMoves kn w1 of (expired, w') \<Rightarrow> (Inr (events @ expired), w')))"

definition stop :: "'k kernel \<Rightarrow> 'k watcher \<Rightarrow> 'k watcher" where
  "stop kn w =
     (if w_stopped w then w
      else w\<lparr>w_stopped := True, w_kernel := fold (kn_rm_watch kn) (map fst (w_watches w)) (w_kernel w),
             w_watches := [], w_pathToWd := [], w_pendingMoves := []\<rparr>)"

section \<open>The two tables\<close>

text \<open>
  The tables, read as maps: watch descriptors and watched paths determine each other.
\<close>

definition tables_ok :: "(int \<rightharpoonup> WatchInfo) \<Rightarrow> (string \<rightharpoonup> int) \<Rightarrow> bool" where
  "tables_ok W P \<longleftrightarrow>
     (\<forall>wd info. W wd = Some info \<longrightarrow>
        wi_wd info = wd \<and> 0 \<le> wd \<and> lexically_normal (wi_path info) = wi_path info \<and> P (wi_path info) = Some wd) \<and>
     (\<forall>p wd. P p = Some wd \<longrightarrow> (\<exists>info. W wd = Some info \<and> wi_path info = p))"

definition watch_inv :: "'k watcher \<Rightarrow> bool" where
  "watch_inv w \<longleftrightarrow> distinct (map fst (w_watches w)) \<and> distinct (map fst (w_pathToWd w)) \<and> distinct (map fst (w_pendingMoves w)) \<and>
     tables_ok (map_of (w_watches w)) (map_of (w_pathToWd w))"

lemma tables_okD:
  assumes "tables_ok W P" and "W wd = Some info"
  shows "wi_wd info = wd" "0 \<le> wd" "lexically_normal (wi_path info) = wi_path info" "P (wi_path info) = Some wd"
  using assms by (auto simp: tables_ok_def)

lemma tables_ok_back: "tables_ok W P \<Longrightarrow> P p = Some wd \<Longrightarrow> \<exists>info. W wd = Some info \<and> wi_path info = p"
  by (simp add: tables_ok_def)

lemma watch_inv_tables: "watch_inv w \<Longrightarrow> tables_ok (map_of (w_watches w)) (map_of (w_pathToWd w))"
  by (simp add: watch_inv_def)

lemma tables_ok_remove:
  assumes ok: "tables_ok W P" and "W wd = Some info"
  shows "tables_ok (W(wd := None)) (P(wi_path info := None))"
proof -
  have other: "wi_path x \<noteq> wi_path info" if "W y = Some x" "y \<noteq> wd" for x y
    using tables_okD(4) [OF ok that(1)] tables_okD(4) [OF ok assms(2)] that(2) by auto
  show ?thesis
    unfolding tables_ok_def
  proof (intro conjI allI impI)
    fix y x assume "(W(wd := None)) y = Some x"
    then have "y \<noteq> wd" "W y = Some x" by (auto split: if_splits)
    with tables_okD [OF ok this(2)] other [OF this(2,1)]
    show "wi_wd x = y" "0 \<le> y" "lexically_normal (wi_path x) = wi_path x" "(P(wi_path info := None)) (wi_path x) = Some y" by simp_all
  next
    fix p y assume "(P(wi_path info := None)) p = Some y"
    then have p: "p \<noteq> wi_path info" "P p = Some y" by (auto split: if_splits)
    with tables_ok_back [OF ok p(2)] assms(2) show "\<exists>x. (W(wd := None)) y = Some x \<and> wi_path x = p" by auto
  qed
qed

lemma tables_ok_add:
  assumes ok: "tables_ok W P" and "P q = None" and "W wd = None" and "0 \<le> wd" and "wi_wd info = wd" and "wi_path info = q"
    and "lexically_normal q = q"
  shows "tables_ok (W(wd \<mapsto> info)) (P(q \<mapsto> wd))"
proof -
  have other: "wi_path x \<noteq> q" if "W y = Some x" for x y using tables_okD(4) [OF ok that] assms(2) by auto
  show ?thesis
    unfolding tables_ok_def
  proof (intro conjI allI impI)
    fix y x assume x: "(W(wd \<mapsto> info)) y = Some x"
    have "wi_wd x = y \<and> 0 \<le> y \<and> lexically_normal (wi_path x) = wi_path x \<and> (P(q \<mapsto> wd)) (wi_path x) = Some y"
    proof (cases "y = wd")
      case False
      with x have y: "W y = Some x" by simp
      from tables_okD [OF ok y] other [OF y] False show ?thesis by simp
    qed (use x assms(4-7) in simp)
    then show "wi_wd x = y" "0 \<le> y" "lexically_normal (wi_path x) = wi_path x" "(P(q \<mapsto> wd)) (wi_path x) = Some y" by blast+
  next
    fix p y assume p: "(P(q \<mapsto> wd)) p = Some y"
    show "\<exists>x. (W(wd \<mapsto> info)) y = Some x \<and> wi_path x = p"
    proof (cases "p = q")
      case False
      then show ?thesis using p tables_ok_back [OF ok, of p y] assms(3) by auto
    qed (use p assms(6) in simp)
  qed
qed

subsection \<open>What the operations leave alone\<close>

lemma removeWatch_frame [simp]:
  "w_pendingMoves (removeWatch kn wd w) = w_pendingMoves w" "w_tick (removeWatch kn wd w) = w_tick w"
  "w_stopped (removeWatch kn wd w) = w_stopped w"
  by (simp_all add: removeWatch_def split: option.split)

lemma fold_removeWatch_frame [simp]:
  "w_pendingMoves (fold (removeWatch kn) wds w) = w_pendingMoves w" "w_tick (fold (removeWatch kn) wds w) = w_tick w"
  "w_stopped (fold (removeWatch kn) wds w) = w_stopped w"
  by (induction wds arbitrary: w) simp_all

lemma removeWatchesUnder_frame [simp]:
  "w_pendingMoves (removeWatchesUnder kn p w) = w_pendingMoves w" "w_tick (removeWatchesUnder kn p w) = w_tick w"
  "w_stopped (removeWatchesUnder kn p w) = w_stopped w"
  by (simp_all add: removeWatchesUnder_def)

lemma addWatch_frame [simp]:
  "w_pendingMoves (addWatch kn root p w) = w_pendingMoves w" "w_tick (addWatch kn root p w) = w_tick w"
  "w_stopped (addWatch kn root p w) = w_stopped w"
  by (simp_all add: addWatch_def Let_def split: prod.split)

lemma addWatchRecursive_frame [simp]:
  "w_pendingMoves (addWatchRecursive kn root w) = w_pendingMoves w" "w_tick (addWatchRecursive kn root w) = w_tick w"
  "w_stopped (addWatchRecursive kn root w) = w_stopped w"
proof -
  have "w_pendingMoves (fold (addWatch kn root) ps w) = w_pendingMoves w \<and> w_tick (fold (addWatch kn root) ps w) = w_tick w \<and>
      w_stopped (fold (addWatch kn root) ps w) = w_stopped w" for ps w
    by (induction ps arbitrary: w) simp_all
  then show "w_pendingMoves (addWatchRecursive kn root w) = w_pendingMoves w" "w_tick (addWatchRecursive kn root w) = w_tick w"
    "w_stopped (addWatchRecursive kn root w) = w_stopped w"
    by (simp_all add: addWatchRecursive_def Let_def)
qed

subsection \<open>The operations on the tables\<close>

lemma removeWatch_watches: "map_of (w_watches (removeWatch kn wd w)) = (map_of (w_watches w))(wd := None)"
  by (auto simp: removeWatch_def delete_conv' split: option.split)

lemma fold_removeWatch_watches:
  "map_of (w_watches (fold (removeWatch kn) wds w)) x = (if x \<in> set wds then None else map_of (w_watches w) x)"
  by (induction wds arbitrary: w) (simp_all add: removeWatch_watches)

lemma removeWatchesUnder_watches:
  assumes "watch_inv w"
  shows "map_of (w_watches (removeWatchesUnder kn p w)) x =
    (case map_of (w_watches w) x of
       None \<Rightarrow> None
     | Some info \<Rightarrow> if isSameOrChildPath p (wi_path info) then None else Some info)"
proof -
  have "x \<in> fst ` {(wd, info) \<in> set (w_watches w). isSameOrChildPath p (wi_path info)} \<longleftrightarrow>
      (\<exists>info. map_of (w_watches w) x = Some info \<and> isSameOrChildPath p (wi_path info))"
    using assms by (force simp: watch_inv_def)
  then show ?thesis
    by (auto simp: removeWatchesUnder_def fold_removeWatch_watches case_prod_unfold simp del: map_of_eq_Some_iff split: option.split)
qed

lemma watch_inv_removeWatch:
  assumes "watch_inv w"
  shows "watch_inv (removeWatch kn wd w)"
proof (cases "map_of (w_watches w) wd")
  case (Some info)
  note i = tables_okD [OF watch_inv_tables [OF assms] Some]
  then show ?thesis
    using assms tables_ok_remove [OF watch_inv_tables [OF assms] Some]
    by (simp add: removeWatch_def Some watch_inv_def delete_conv' distinct_delete)
qed (use assms in \<open>simp add: removeWatch_def\<close>)

lemma watch_inv_fold: "(\<And>x w. watch_inv w \<Longrightarrow> watch_inv (f x w)) \<Longrightarrow> watch_inv w \<Longrightarrow> watch_inv (fold f xs w)"
  by (induction xs arbitrary: w) simp_all

lemma watch_inv_removeWatchesUnder: "watch_inv w \<Longrightarrow> watch_inv (removeWatchesUnder kn p w)"
  unfolding removeWatchesUnder_def by (intro watch_inv_fold watch_inv_removeWatch)

lemma watch_inv_addWatch:
  assumes inv: "watch_inv w"
  shows "watch_inv (addWatch kn root p w)"
proof -
  let ?q = "lexically_normal p" and ?W = "map_of (w_watches w)" and ?P = "map_of (w_pathToWd w)"
  obtain wd k where k: "kn_add_watch kn ?q (w_kernel w) = (wd, k)" by fastforce
  let ?i = "\<lparr>wi_wd = wd, wi_rootId = fst root, wi_path = ?q, wi_recursive = True\<rparr>"
  note ok = watch_inv_tables [OF inv]
  consider "?P ?q \<noteq> None" | "?P ?q = None" "wd < 0" | "?P ?q = None" "0 \<le> wd" by fastforce
  then show ?thesis
  proof cases
    case 3
    have "tables_ok (?W(wd \<mapsto> ?i)) ((case ?W wd of None \<Rightarrow> ?P | Some e \<Rightarrow> ?P(wi_path e := None))(?q \<mapsto> wd))"
    proof (cases "?W wd")
      case None
      then show ?thesis using tables_ok_add [OF ok 3(1) None 3(2)] by (simp add: lexically_normal_idem)
    next
      case (Some e)
      have "tables_ok ((?W(wd := None))(wd \<mapsto> ?i)) ((?P(wi_path e := None))(?q \<mapsto> wd))"
        by (rule tables_ok_add [OF tables_ok_remove [OF ok Some]]) (use 3 in \<open>simp_all add: lexically_normal_idem\<close>)
      then show ?thesis by (simp only: Some fun_upd_upd option.case)
    qed
    moreover have "lexically_normal (wi_path e) = wi_path e" if "?W wd = Some e" for e using tables_okD(3) [OF ok that] .
    ultimately show ?thesis
      using inv 3 k
      by (auto simp: addWatch_def Let_def lexically_normal_idem watch_inv_def update_conv' delete_conv' distinct_update
          distinct_delete simp del: map_of_eq_Some_iff split: option.splits)
  qed (use inv k in \<open>auto simp: addWatch_def Let_def lexically_normal_idem watch_inv_def\<close>)
qed

lemma watch_inv_addWatchRecursive: "watch_inv w \<Longrightarrow> watch_inv (addWatchRecursive kn root w)"
  unfolding addWatchRecursive_def Let_def by (intro watch_inv_fold watch_inv_addWatch)

subsection \<open>Every step keeps the tables consistent\<close>

lemma watch_inv_moves: "watch_inv w \<Longrightarrow> distinct (map fst ms) \<Longrightarrow> watch_inv (w\<lparr>w_pendingMoves := ms\<rparr>)"
  by (simp add: watch_inv_def)

lemma watch_inv_tick [simp]: "watch_inv (w\<lparr>w_tick := n\<rparr>) \<longleftrightarrow> watch_inv w"
  by (simp add: watch_inv_def)

lemma watch_inv_moves_distinct: "watch_inv w \<Longrightarrow> distinct (map fst (w_pendingMoves w))"
  by (simp add: watch_inv_def)

lemmas watch_inv_intros = watch_inv_moves watch_inv_removeWatch watch_inv_removeWatchesUnder watch_inv_addWatchRecursive
  distinct_update distinct_delete watch_inv_moves_distinct

lemma watch_inv_drain: "watch_inv w \<Longrightarrow> drainMoves kn now ms w = (events, w') \<Longrightarrow> watch_inv w'"
proof (induction kn now ms w arbitrary: events w' rule: drainMoves.induct)
  case (2 kn now cookie move rest w)
  let ?w1 = "if pm_isDirectory move then removeWatchesUnder kn (pm_oldPath move) w else w"
  have "watch_inv (?w1\<lparr>w_pendingMoves := AList.delete cookie (w_pendingMoves ?w1)\<rparr>)"
    using 2(3) by (auto intro!: watch_inv_intros)
  then show ?case using 2 by (auto simp: Let_def split: if_splits prod.splits)
qed simp

lemma watch_inv_handle: "watch_inv w \<Longrightarrow> watch_inv (snd (handleEvent kn event w))"
  unfolding handleEvent_def Let_def
  by (auto intro!: watch_inv_intros split: option.split)

lemma watch_inv_events: "watch_inv w \<Longrightarrow> watch_inv (snd (handleEvents kn batch w))"
proof (induction batch arbitrary: w)
  case (Cons ev batch)
  from Cons.IH [OF watch_inv_handle [OF Cons.prems, of kn ev]] show ?case by (simp add: case_prod_unfold)
qed simp

lemma watch_inv_read: "watch_inv w \<Longrightarrow> watch_inv (snd (readLoop kn reads w))"
proof (induction kn reads w rule: readLoop.induct)
  case (6 kn batch reads w)
  obtain events w1 where h: "handleEvents kn batch w = (events, w1)" by fastforce
  then have "watch_inv w1" using watch_inv_events [OF 6(2), of kn batch] by simp
  with 6(1) [OF h [symmetric]] h show ?case by (simp add: case_prod_unfold)
qed simp_all

lemma watch_inv_poll:
  assumes "watch_inv w"
  shows "watch_inv (snd (poll kn reads w))"
proof -
  obtain x w1 where r: "readLoop kn reads w = (x, w1)" by fastforce
  then have w1: "watch_inv w1" using watch_inv_read [OF assms, of kn reads] by simp
  obtain events w2 where d: "drainExpiredMoves kn w1 = (events, w2)" by fastforce
  then have "watch_inv w2" using watch_inv_drain w1 unfolding drainExpiredMoves_def by (metis watch_inv_tick)
  then show ?thesis using assms w1 r d by (cases x) (simp_all add: poll_def)
qed

lemma watch_inv_stop: "watch_inv w \<Longrightarrow> watch_inv (stop kn w)"
  by (auto simp: stop_def watch_inv_def tables_ok_def)

lemma watch_inv_kernel: "watch_inv w \<Longrightarrow> watch_inv (w\<lparr>w_kernel := k\<rparr>)"
  by (simp add: watch_inv_def)

inductive watcher_step :: "'k kernel \<Rightarrow> 'k watcher \<Rightarrow> 'k watcher \<Rightarrow> bool" for kn where
  add_root: "watcher_step kn w (addRoot kn root w)"
| poll_events: "watcher_step kn w (snd (poll kn reads w))"
| stop_watching: "watcher_step kn w (stop kn w)"
| outside: "watcher_step kn w (w\<lparr>w_kernel := k\<rparr>)"

interpretation watcher_runs: transition_system "\<lambda>w. \<exists>k. w = new_watcher k" "watcher_step kn" watch_inv
proof
  show "watch_inv w" if "\<exists>k. w = new_watcher k" for w :: "'a watcher"
    using that by (auto simp: new_watcher_def watch_inv_def tables_ok_def)
  show "watch_inv w'" if "watcher_step kn w w'" "watch_inv w" for w w'
    using that by cases (simp_all add: addRoot_def watch_inv_addWatchRecursive watch_inv_poll watch_inv_stop watch_inv_kernel)
qed

section \<open>Moves\<close>

definition event_path :: "WatchInfo \<Rightarrow> inotify_event \<Rightarrow> string" where
  "event_path watch event = (if ie_name event \<noteq> [] then path_append (wi_path watch) (ie_name event) else wi_path watch)"

text \<open>An event that reports a pending move: as a deletion, or as a rename to some path.\<close>

definition reports :: "32 word \<Rightarrow> PendingMove \<Rightarrow> FileEvent \<Rightarrow> bool" where
  "reports cookie move e \<longleftrightarrow> fe_cookie e = cookie \<and> fe_rootId e = pm_rootId move \<and>
     (fe_type e = Deleted \<and> fe_path e = pm_oldPath move \<or> fe_type e = Renamed \<and> fe_oldPath e = Some (pm_oldPath move))"

text \<open>The first half of a move with this cookie.\<close>

definition move_from :: "32 word \<Rightarrow> inotify_event \<Rightarrow> bool" where
  "move_from cookie event \<longleftrightarrow> has_bits event IN_MOVED_FROM \<and> ie_cookie event = cookie"

lemma handle_pending:
  assumes m: "map_of (w_pendingMoves w) c = Some m" and no: "\<not> move_from c event" and run: "handleEvent kn event w = (ev, w')"
  shows "map_of (w_pendingMoves w') c = Some m \<or> (\<exists>e. ev = Some e \<and> reports c m e)"
proof (cases "has_bits event IN_Q_OVERFLOW \<or> map_of (w_watches w) (ie_wd event) = None")
  case False
  then obtain watch where f: "\<not> has_bits event IN_Q_OVERFLOW" "map_of (w_watches w) (ie_wd event) = Some watch" by auto
  note unfold = run [unfolded handleEvent_def Let_def f(2) option.case if_not_P [OF f(1)]]
  consider "has_bits event IN_MOVED_FROM" | "\<not> has_bits event IN_MOVED_FROM" "has_bits event IN_MOVED_TO" "ie_cookie event \<noteq> 0"
    | "\<not> has_bits event IN_MOVED_FROM" "\<not> (has_bits event IN_MOVED_TO \<and> ie_cookie event \<noteq> 0)" by blast
  then show ?thesis
  proof cases
    case 1
    then show ?thesis using unfold m no by (auto simp: move_from_def update_conv' simp del: map_of_eq_Some_iff split: if_splits)
  next
    case 2
    show ?thesis
    proof (cases "ie_cookie event = c")
      case True
      then show ?thesis using 2 unfold m
        by (auto simp: reports_def fileEvent_def simp del: map_of_eq_Some_iff split: if_splits)
    next
      case False
      then show ?thesis using 2 unfold m
        by (auto simp: delete_conv' simp del: map_of_eq_Some_iff split: if_splits option.splits)
    qed
  next
    case 3
    then show ?thesis using unfold m by (auto simp del: map_of_eq_Some_iff split: if_splits)
  qed
next
  case True
  then have "w' = w"
    using run by (cases "has_bits event IN_Q_OVERFLOW") (simp_all add: handleEvent_def del: map_of_eq_None_iff)
  then show ?thesis using m by simp
qed

lemma handle_events_pending:
  assumes "map_of (w_pendingMoves w) c = Some m" and "\<forall>ev\<in>set batch. \<not> move_from c ev" and "handleEvents kn batch w = (events, w')"
  shows "map_of (w_pendingMoves w') c = Some m \<or> (\<exists>e\<in>set events. reports c m e)"
  using assms
proof (induction batch arbitrary: w events)
  case (Cons event batch)
  obtain ev w1 where h: "handleEvent kn event w = (ev, w1)" by fastforce
  obtain es where es: "handleEvents kn batch w1 = (es, w')" "events = (case ev of None \<Rightarrow> [] | Some e \<Rightarrow> [e]) @ es"
    using Cons.prems(3) h by (auto split: prod.splits)
  from handle_pending [OF Cons.prems(1) _ h] Cons.prems(2)
  consider "map_of (w_pendingMoves w1) c = Some m" | e where "ev = Some e" "reports c m e" by auto
  then show ?case
    by cases (use Cons.IH [OF _ _ es(1)] Cons.prems(2) es(2) in auto)
qed simp

lemma drain_other: "c \<notin> fst ` set ms \<Longrightarrow> map_of (w_pendingMoves (snd (drainMoves kn now ms w))) c = map_of (w_pendingMoves w) c"
  by (induction kn now ms w rule: drainMoves.induct) (auto simp: Let_def delete_conv' case_prod_unfold)

lemma drain_tick: "w_tick (snd (drainMoves kn now ms w)) = w_tick w"
  by (induction kn now ms w rule: drainMoves.induct) (auto simp: Let_def case_prod_unfold)

lemma drain_pending:
  assumes "distinct (map fst ms)" and "map_of ms c = Some m" and "map_of (w_pendingMoves w) c = Some m"
    and "drainMoves kn now ms w = (events, w')"
  shows "map_of (w_pendingMoves w') c = Some m \<and> now - pm_seenAt m < maxMoveAge \<or> (\<exists>e\<in>set events. reports c m e)"
  using assms
proof (induction kn now ms w arbitrary: events w' rule: drainMoves.induct)
  case (2 kn now cookie move rest w)
  show ?case
  proof (cases "cookie = c")
    case True
    then have "c \<notin> fst ` set rest" "move = m" using 2(3,4) by auto
    then show ?thesis
      using 2(5,6) True drain_other [of c rest kn now w]
      by (auto simp: Let_def reports_def fileEvent_def split: if_splits prod.splits)
  next
    case False
    then have rest: "distinct (map fst rest)" "map_of rest c = Some m" using 2(3,4) by auto
    show ?thesis
    proof (cases "now - pm_seenAt move < maxMoveAge")
      case True
      then show ?thesis using 2(1) [OF True rest 2(5)] 2(6) by simp
    next
      case old: False
      let ?w1 = "if pm_isDirectory move then removeWatchesUnder kn (pm_oldPath move) w else w"
      let ?w2 = "?w1\<lparr>w_pendingMoves := AList.delete cookie (w_pendingMoves ?w1)\<rparr>"
      obtain es w2 where run: "drainMoves kn now rest ?w2 = (es, w2)" by fastforce
      then have es: "drainMoves kn now rest ?w2 = (es, w')"
        "events = fileEvent (pm_rootId move) (pm_oldPath move) None Deleted (pm_isDirectory move) cookie # es"
        using 2(6) old by (simp_all add: Let_def)
      have "map_of (w_pendingMoves ?w2) c = Some m" using 2(5) False by (simp add: delete_conv' del: map_of_eq_Some_iff)
      from 2(2) [OF old refl refl rest this es(1)] es(2) show ?thesis by auto
    qed
  qed
qed simp

fun read_events :: "read_result \<Rightarrow> inotify_event list" where
  "read_events (Read_events batch) = batch"
| "read_events _ = []"

lemma read_pending:
  assumes "map_of (w_pendingMoves w) c = Some m" and "\<forall>r\<in>set reads. \<forall>ev\<in>set (read_events r). \<not> move_from c ev"
    and "readLoop kn reads w = (Inr events, w')"
  shows "map_of (w_pendingMoves w') c = Some m \<or> (\<exists>e\<in>set events. reports c m e)"
  using assms
proof (induction kn reads w arbitrary: events rule: readLoop.induct)
  case (6 kn batch reads w)
  obtain es w1 where h: "handleEvents kn batch w = (es, w1)" by fastforce
  obtain es' where r: "readLoop kn reads w1 = (Inr es', w')" "events = es @ es'"
    using 6(4) h by (auto simp: case_prod_unfold map_sum_def prod_eq_iff split: sum.splits)
  from handle_events_pending [OF 6(2) _ h] 6(3)
  consider "map_of (w_pendingMoves w1) c = Some m" | e where "e \<in> set es" "reports c m e" by auto
  then show ?case by cases (use 6(1) [OF h [symmetric] _ _ r(1)] 6(3) r(2) in auto)
qed simp_all

lemma poll_pending:
  assumes "watch_inv w" and "map_of (w_pendingMoves w) c = Some m" and "\<forall>r\<in>set reads. \<forall>ev\<in>set (read_events r). \<not> move_from c ev"
    and "poll kn reads w = (Inr events, w')" and "\<not> w_stopped w"
  shows "map_of (w_pendingMoves w') c = Some m \<and> kn_steady kn (w_tick w' - 1) - pm_seenAt m < maxMoveAge \<or>
    (\<exists>e\<in>set events. reports c m e)"
proof -
  obtain es w1 where r: "readLoop kn reads w = (Inr es, w1)"
    using assms(4,5) by (auto simp: poll_def split: prod.splits sum.splits)
  obtain ds where d: "drainExpiredMoves kn w1 = (ds, w')" "events = es @ ds"
    using assms(4,5) r by (auto simp: poll_def split: prod.splits)
  have "watch_inv w1" using watch_inv_read [OF assms(1), of kn reads] r by simp
  then have ms: "distinct (map fst (w_pendingMoves w1))" by (rule watch_inv_moves_distinct)
  have tick: "w_tick w' = Suc (w_tick w1)"
    using d(1) drain_tick [of kn "kn_steady kn (w_tick w1)" "w_pendingMoves w1" "w1\<lparr>w_tick := Suc (w_tick w1)\<rparr>"]
    by (simp add: drainExpiredMoves_def)
  from read_pending [OF assms(2,3) r]
  consider "map_of (w_pendingMoves w1) c = Some m" | e where "e \<in> set es" "reports c m e" by auto
  then show ?thesis
  proof cases
    case 1
    from drain_pending [OF ms 1 _ d(1) [unfolded drainExpiredMoves_def]] 1 tick d(2) show ?thesis by auto
  qed (use d(2) in auto)
qed

lemma handle_stopped [simp]: "w_stopped (snd (handleEvent kn event w)) = w_stopped w"
  by (simp add: handleEvent_def Let_def split: option.split)

lemma handle_events_stopped [simp]: "w_stopped (snd (handleEvents kn batch w)) = w_stopped w"
  by (induction batch arbitrary: w) (simp_all add: case_prod_unfold)

lemma read_stopped [simp]: "w_stopped (snd (readLoop kn reads w)) = w_stopped w"
proof (induction kn reads w rule: readLoop.induct)
  case (6 kn batch reads w)
  from 6 [OF prod.collapse] show ?case by (simp add: case_prod_unfold)
qed simp_all

lemma drain_stopped [simp]: "w_stopped (snd (drainMoves kn now ms w)) = w_stopped w"
  by (induction kn now ms w rule: drainMoves.induct) (simp_all add: Let_def case_prod_unfold)

lemma poll_stopped: "w_stopped (snd (poll kn reads w)) = w_stopped w"
proof -
  obtain x w1 where "readLoop kn reads w = (x, w1)" by fastforce
  moreover from this have "w_stopped w1 = w_stopped w" using read_stopped [of kn reads w] by simp
  ultimately show ?thesis by (cases x) (simp_all add: poll_def drainExpiredMoves_def case_prod_unfold)
qed

subsection \<open>Successive polls\<close>

text \<open>The daemon polls again and again; in between the kernel moves on.\<close>

fun poll_all :: "'k kernel \<Rightarrow> ('k \<times> read_result list) list \<Rightarrow> ('k watcher, FileEvent list) act" where
  "poll_all kn [] w = (Inr [], w)"
| "poll_all kn ((k, reads) # later) w =
     (case poll kn reads (w\<lparr>w_kernel := k\<rparr>) of
        (Inl e, w1) \<Rightarrow> (Inl e, w1)
      | (Inr events, w1) \<Rightarrow> (case poll_all kn later w1 of (x, w') \<Rightarrow> (map_sum id ((@) events) x, w')))"

definition events_of :: "read_result list \<Rightarrow> inotify_event list" where
  "events_of reads = concat (map read_events reads)"

lemma poll_all_Cons:
  assumes "poll_all kn ((k, reads) # later) w = (Inr events, w')"
  obtains es es' w1 where "poll kn reads (w\<lparr>w_kernel := k\<rparr>) = (Inr es, w1)" "poll_all kn later w1 = (Inr es', w')" "events = es @ es'"
  using assms by (auto simp: case_prod_unfold map_sum_def prod_eq_iff split: prod.splits sum.splits)

lemma poll_all_pending:
  assumes "watch_inv w" and "map_of (w_pendingMoves w) c = Some m" and "\<not> w_stopped w"
    and "\<forall>ev\<in>set (concat (map (events_of \<circ> snd) polls)). \<not> move_from c ev"
    and "poll_all kn polls w = (Inr events, w')" and "kn_steady kn (w_tick w - 1) - pm_seenAt m < maxMoveAge"
  shows "kn_steady kn (w_tick w' - 1) - pm_seenAt m < maxMoveAge \<or> (\<exists>e\<in>set events. reports c m e)"
  using assms
proof (induction polls arbitrary: w events)
  case (Cons p polls)
  obtain k reads where p: "p = (k, reads)" by fastforce
  obtain es es' w1 where run: "poll kn reads (w\<lparr>w_kernel := k\<rparr>) = (Inr es, w1)" "poll_all kn polls w1 = (Inr es', w')" "events = es @ es'"
    using poll_all_Cons Cons.prems(5) p by metis
  have inv: "watch_inv (w\<lparr>w_kernel := k\<rparr>)" using Cons.prems(1) by (rule watch_inv_kernel)
  have no: "\<forall>r\<in>set reads. \<forall>ev\<in>set (read_events r). \<not> move_from c ev" using Cons.prems(4) p by (auto simp: events_of_def)
  have w1: "watch_inv w1" "\<not> w_stopped w1"
    using watch_inv_poll [OF inv, of kn reads] poll_stopped [of kn reads "w\<lparr>w_kernel := k\<rparr>"] run(1) Cons.prems(3) by simp_all
  from poll_pending [OF inv _ no run(1)] Cons.prems(2,3)
  consider "map_of (w_pendingMoves w1) c = Some m" "kn_steady kn (w_tick w1 - 1) - pm_seenAt m < maxMoveAge"
    | e where "e \<in> set es" "reports c m e" by auto
  then show ?case
  proof cases
    case 1
    from Cons.IH [OF w1(1) 1(1) w1(2) _ run(2) 1(2)] Cons.prems(4) run(3) show ?thesis by auto
  qed (use run(3) in auto)
qed simp

lemma handle_move_from:
  assumes "map_of (w_watches w) (ie_wd event) = Some watch" and "move_from c event" and "c \<noteq> 0" and "\<not> has_bits event IN_Q_OVERFLOW"
  shows "\<exists>w'. handleEvent kn event w = (None, w') \<and> map_of (w_pendingMoves w') c = Some
    \<lparr>pm_rootId = wi_rootId watch, pm_oldPath = event_path watch event, pm_isDirectory = has_bits event IN_ISDIR,
     pm_seenAt = kn_steady kn (w_tick w)\<rparr>"
  using assms by (simp add: handleEvent_def move_from_def event_path_def Let_def update_conv')

section \<open>Directories that lose their watch\<close>

lemma drain_watches:
  "watch_inv w \<Longrightarrow> map_of (w_watches (snd (drainMoves kn now ms w))) wd =
     (case map_of (w_watches w) wd of
        None \<Rightarrow> None
      | Some info \<Rightarrow>
          if \<exists>m\<in>snd ` set ms. maxMoveAge \<le> now - pm_seenAt m \<and> pm_isDirectory m \<and> isSameOrChildPath (pm_oldPath m) (wi_path info)
          then None else Some info)"
proof (induction kn now ms w rule: drainMoves.induct)
  case (1 kn now w)
  then show ?case by (simp split: option.split)
next
  case (2 kn now cookie move rest w)
  let ?w1 = "if pm_isDirectory move then removeWatchesUnder kn (pm_oldPath move) w else w"
  let ?w2 = "?w1\<lparr>w_pendingMoves := AList.delete cookie (w_pendingMoves ?w1)\<rparr>"
  show ?case
  proof (cases "now - pm_seenAt move < maxMoveAge")
    case True
    then show ?thesis using 2(1,3) by (simp split: option.split)
  next
    case False
    have w2: "watch_inv ?w2" using 2(3) by (auto intro!: watch_inv_intros)
    have run: "w_watches (snd (drainMoves kn now ((cookie, move) # rest) w)) = w_watches (snd (drainMoves kn now rest ?w2))"
      using False by (simp add: Let_def case_prod_unfold)
    have "map_of (w_watches ?w2) wd = (case map_of (w_watches w) wd of None \<Rightarrow> None
        | Some info \<Rightarrow> if pm_isDirectory move \<and> isSameOrChildPath (pm_oldPath move) (wi_path info) then None else Some info)"
      using removeWatchesUnder_watches [OF 2(3), of kn "pm_oldPath move" wd] by (simp split: option.split)
    with 2(2) [OF False refl refl w2] False show ?thesis
      unfolding run by (auto simp del: map_of_eq_Some_iff map_of_eq_None_iff split: option.split)
  qed
qed

text \<open>
  When a directory has been moved away and another one made in its place within half a second,
  the poll that gives up waiting for the second half of the move removes the watches of the new directory
  and of everything below it; nothing adds them again, so changes there go unnoticed.
\<close>

theorem expired_move_unwatches_new_directory:
  assumes "watch_inv w" and "\<not> w_stopped w" and "map_of (w_pendingMoves w) c = Some m" and "pm_isDirectory m"
    and "maxMoveAge \<le> kn_steady kn (w_tick w) - pm_seenAt m"
    and "map_of (w_watches w) wd = Some info" and "isSameOrChildPath (pm_oldPath m) (wi_path info)"
  shows "map_of (w_watches (snd (poll kn [] w))) wd = None"
proof -
  have "m \<in> snd ` set (w_pendingMoves w)" using map_of_SomeD [OF assms(3)] by force
  then show ?thesis
    using drain_watches [of "w\<lparr>w_tick := Suc (w_tick w)\<rparr>" kn "kn_steady kn (w_tick w)" "w_pendingMoves w" wd] assms
    by (auto simp: poll_def drainExpiredMoves_def case_prod_unfold simp del: map_of_eq_Some_iff map_of_eq_None_iff)
qed

text \<open>The three events of a directory that is moved, and what their masks say.\<close>

definition dir_event :: "int \<Rightarrow> 32 word \<Rightarrow> 32 word \<Rightarrow> string \<Rightarrow> inotify_event" where
  "dir_event wd bits cookie name = \<lparr>ie_wd = wd, ie_mask = bits OR IN_ISDIR, ie_cookie = cookie, ie_name = name\<rparr>"

lemma dir_event_sel [simp]:
  "ie_wd (dir_event wd bits cookie name) = wd" "ie_cookie (dir_event wd bits cookie name) = cookie"
  "ie_name (dir_event wd bits cookie name) = name"
  by (simp_all add: dir_event_def)

lemma dir_event_bits [simp]:
  "has_bits (dir_event wd bits cookie name) IN_ISDIR"
  "\<not> has_bits (dir_event wd IN_MOVED_FROM cookie name) IN_Q_OVERFLOW"
  "has_bits (dir_event wd IN_MOVED_FROM cookie name) IN_MOVED_FROM"
  "\<not> has_bits (dir_event wd IN_MOVED_TO cookie name) IN_Q_OVERFLOW"
  "\<not> has_bits (dir_event wd IN_MOVED_TO cookie name) IN_MOVED_FROM"
  "has_bits (dir_event wd IN_MOVED_TO cookie name) IN_MOVED_TO"
  "\<not> has_bits (dir_event wd IN_MOVE_SELF cookie name) IN_Q_OVERFLOW"
  "\<not> has_bits (dir_event wd IN_MOVE_SELF cookie name) IN_MOVED_FROM"
  "\<not> has_bits (dir_event wd IN_MOVE_SELF cookie name) IN_MOVED_TO"
  "\<not> has_bits (dir_event wd IN_MOVE_SELF cookie name) (IN_CREATE OR IN_MOVED_TO)"
  "has_bits (dir_event wd IN_MOVE_SELF cookie name) IN_MOVE_SELF"
proof -
  have "(bits OR IN_ISDIR) AND IN_ISDIR = IN_ISDIR" by (rule bit_word_eqI) (auto simp: bit_simps)
  then show "has_bits (dir_event wd bits cookie name) IN_ISDIR" by (simp add: has_bits_def dir_event_def IN_ISDIR_def)
qed (simp_all add: has_bits_def dir_event_def in_masks)

section \<open>Properties\<close>

subsection \<open>A kernel for the examples\<close>

text \<open>Directories with their numbers; the descriptor of a watch is the number of its directory.\<close>

definition demo_kernel :: "(string \<times> int) list kernel" where
  "demo_kernel =
     \<lparr>kn_add_watch = (\<lambda>p k. (case map_of k p of None \<Rightarrow> - 1 | Some i \<Rightarrow> i, k)), kn_rm_watch = (\<lambda>_ k. k),
      kn_directories = (\<lambda>p k. filter (\<lambda>q. take (length p + 1) q = p @ ''/'') (map fst k)), kn_steady = (\<lambda>n. 300 * int n)\<rparr>"

definition demo_watcher :: "(string \<times> int) list watcher" where
  "demo_watcher = addRoot demo_kernel (''s2'', ''/b'') (addRoot demo_kernel (''s1'', ''/a'')
     (new_watcher [(''/a'', 1), (''/a/d'', 2), (''/b'', 3)]))"

lemma demo_reachable: "(watcher_step demo_kernel)\<^sup>*\<^sup>* (new_watcher [(''/a'', 1), (''/a/d'', 2), (''/b'', 3)]) demo_watcher"
  unfolding demo_watcher_def by (meson r_into_rtranclp rtranclp_trans watcher_step.add_root)

lemma demo_watcher_inv: "watch_inv demo_watcher"
  by (rule watcher_runs.invar_reachable [OF _ demo_reachable]) blast

text \<open>
  C15. In every state of the watcher that adding roots, polling, stopping and whatever the
  kernel does in between can reach, the table of watches and the table of paths are inverse to
  each other: a path is watched by a descriptor exactly when the path leads to the descriptor, and
  no two descriptors watch one path.
\<close>

theorem watch_tables_inverse:
  assumes "(watcher_step kn)\<^sup>*\<^sup>* (new_watcher k) w"
  shows "(map_of (w_pathToWd w) p = Some wd \<longleftrightarrow> (\<exists>info. map_of (w_watches w) wd = Some info \<and> wi_path info = p)) \<and>
    (map_of (w_watches w) wd = Some info \<and> map_of (w_watches w) wd' = Some info' \<and> wi_path info = wi_path info' \<longrightarrow> wd = wd')"
proof -
  have "watch_inv w" by (rule watcher_runs.invar_reachable [OF _ assms]) blast
  note ok = watch_inv_tables [OF this]
  have one: "map_of (w_pathToWd w) (wi_path i) = Some x" if "map_of (w_watches w) x = Some i" for x i
    using tables_okD(4) [OF ok that] .
  have "map_of (w_pathToWd w) p = Some wd \<longleftrightarrow> (\<exists>info. map_of (w_watches w) wd = Some info \<and> wi_path info = p)"
    using one tables_ok_back [OF ok] by blast
  moreover have "wd = wd'"
    if "map_of (w_watches w) wd = Some info" "map_of (w_watches w) wd' = Some info'" "wi_path info = wi_path info'"
    using one [OF that(1)] one [OF that(2)] that(3) by simp
  ultimately show ?thesis by blast
qed

theorem watch_tables_inverse_witness:
  "\<exists>info. map_of (w_watches demo_watcher) 2 = Some info \<and> wi_path info = ''/a/d''"
proof -
  have "map_of (w_pathToWd demo_watcher) ''/a/d'' = Some 2" by code_simp
  then show ?thesis using watch_tables_inverse [OF demo_reachable, of "''/a/d''" 2] by blast
qed

text \<open>
  C14. No move gets lost: when a path is moved out of a watched directory, one of the polls from then on,
  at the latest the first one that comes half a second later, reports the old path, as renamed to
  where it is now or as deleted. It is relied on that the kernel does not use the cookie for another move.
\<close>

theorem moved_path_is_reported:
  assumes inv: "watch_inv w" and "\<not> w_stopped w" and watch: "map_of (w_watches w) (ie_wd event) = Some watch"
    and event: "move_from c event" "c \<noteq> 0" "\<not> has_bits event IN_Q_OVERFLOW"
    and once: "\<forall>ev\<in>set (rest @ events_of reads @ concat (map (events_of \<circ> snd) polls)). \<not> move_from c ev"
    and run: "poll_all kn ((k, Read_events (event # rest) # reads) # polls) w = (Inr events, w')"
    and late: "maxMoveAge \<le> kn_steady kn (w_tick w' - 1) - kn_steady kn (w_tick w)"
  shows "\<exists>e\<in>set events. reports c
    \<lparr>pm_rootId = wi_rootId watch, pm_oldPath = event_path watch event, pm_isDirectory = has_bits event IN_ISDIR,
     pm_seenAt = kn_steady kn (w_tick w)\<rparr> e"
proof -
  let ?m = "\<lparr>pm_rootId = wi_rootId watch, pm_oldPath = event_path watch event, pm_isDirectory = has_bits event IN_ISDIR,
     pm_seenAt = kn_steady kn (w_tick w)\<rparr>"
  let ?w = "w\<lparr>w_kernel := k\<rparr>"
  obtain es es' w1 where first: "poll kn (Read_events (event # rest) # reads) ?w = (Inr es, w1)"
    and others: "poll_all kn polls w1 = (Inr es', w')" and events: "events = es @ es'"
    using poll_all_Cons [OF run] by metis
  obtain w2 where w2: "handleEvent kn event ?w = (None, w2)" "map_of (w_pendingMoves w2) c = Some ?m"
    using handle_move_from [of ?w event watch c kn] watch event by auto
  have inv2: "watch_inv w2" "\<not> w_stopped w2"
    using watch_inv_handle [OF watch_inv_kernel [OF inv, of k], of kn event] handle_stopped [of kn event ?w] w2(1) assms(2) by simp_all
  have "poll kn (Read_events rest # reads) w2 = (Inr es, w1)"
    using first w2(1) inv2(2) assms(2) by (simp add: poll_def case_prod_unfold)
  from poll_pending [OF inv2(1) w2(2) _ this inv2(2)] once
  consider "map_of (w_pendingMoves w1) c = Some ?m" "kn_steady kn (w_tick w1 - 1) - pm_seenAt ?m < maxMoveAge"
    | e where "e \<in> set es" "reports c ?m e" by (auto simp: events_of_def)
  then show ?thesis
  proof cases
    case 1
    have "watch_inv w1" "\<not> w_stopped w1"
      using watch_inv_poll [OF watch_inv_kernel [OF inv, of k], of kn "Read_events (event # rest) # reads"]
        poll_stopped [of kn "Read_events (event # rest) # reads" ?w] first assms(2) by simp_all
    from poll_all_pending [OF this(1) 1(1) this(2) _ others 1(2)] once late events show ?thesis by auto
  qed (use events in auto)
qed

theorem moved_path_is_reported_witness:
  "\<exists>events w'. poll_all demo_kernel [([], [Read_events [dir_event 1 IN_MOVED_FROM 5 ''d'']]), ([], [])] demo_watcher = (Inr events, w') \<and>
     (\<exists>e\<in>set events. reports 5 \<lparr>pm_rootId = ''s1'', pm_oldPath = ''/a/d'', pm_isDirectory = True, pm_seenAt = 0\<rparr> e)"
proof -
  let ?ev = "dir_event 1 IN_MOVED_FROM 5 ''d''"
  let ?run = "poll_all demo_kernel [([], [Read_events [?ev]]), ([], [])] demo_watcher"
  let ?watch = "\<lparr>wi_wd = 1, wi_rootId = ''s1'', wi_path = ''/a'', wi_recursive = True\<rparr>"
  obtain x w' where run: "?run = (x, w')" by fastforce
  have "w_tick (snd ?run) = 3 \<and> \<not> isl (fst ?run)" by code_simp
  with run obtain events where x: "x = Inr events" and tick: "w_tick w' = 3" by (cases x) auto
  have watch: "map_of (w_watches demo_watcher) (ie_wd ?ev) = Some ?watch" by code_simp
  have start: "\<not> w_stopped demo_watcher" "w_tick demo_watcher = 0" by code_simp+
  have path: "event_path ?watch ?ev = ''/a/d''" by code_simp
  have late: "maxMoveAge \<le> kn_steady demo_kernel (w_tick w' - 1) - kn_steady demo_kernel (w_tick demo_watcher)"
    by (simp add: tick start demo_kernel_def maxMoveAge_def)
  have "move_from 5 ?ev" by (simp add: move_from_def)
  from moved_path_is_reported [OF demo_watcher_inv start(1) watch this _ _ _ run [unfolded x] late]
  have "\<exists>e\<in>set events. reports 5 \<lparr>pm_rootId = ''s1'', pm_oldPath = ''/a/d'', pm_isDirectory = True, pm_seenAt = 0\<rparr> e"
    by (simp add: path start events_of_def) (simp add: demo_kernel_def)
  then show ?thesis using run x by blast
qed

text \<open>
  C35. A directory moved from one sync root into another is not watched any more: the kernel keeps
  one descriptor per directory, so watching it at its new place gives the old descriptor back, and
  the last event of the move, which is meant for the old place, then removes that watch. The
  creation is reported, but changes below the new place never are.
\<close>

theorem moved_between_roots_unwatched:
  assumes inv: "watch_inv w" and a: "map_of (w_watches w) wdA = Some a" and b: "map_of (w_watches w) wdB = Some b"
    and d: "map_of (w_watches w) wd = Some d" and roots: "wi_rootId a \<noteq> wi_rootId b" and c: "c \<noteq> 0" and n: "n \<noteq> []"
    and path: "p = lexically_normal (path_append (wi_path b) n)" and new: "map_of (w_pathToWd w) p = None"
    and same: "kn_add_watch kn p (w_kernel w) = (wd, k)" and below: "kn_directories kn (path_append (wi_path b) n) k = []"
    and run: "handleEvents kn [dir_event wdA IN_MOVED_FROM c n, dir_event wdB IN_MOVED_TO c n, dir_event wd IN_MOVE_SELF 0 []] w = (events, w')"
  shows "map fe_type events = [Created] \<and> map fe_path events = [path_append (wi_path b) n] \<and>
    map_of (w_watches w') wd = None \<and> (\<forall>x info. map_of (w_watches w') x = Some info \<longrightarrow> wi_path info \<noteq> p)"
proof -
  let ?full = "path_append (wi_path b) n"
  obtain w1 where w1: "handleEvent kn (dir_event wdA IN_MOVED_FROM c n) w = (None, w1)"
    "w1 = w\<lparr>w_pendingMoves := AList.update c \<lparr>pm_rootId = wi_rootId a, pm_oldPath = path_append (wi_path a) n, pm_isDirectory = True,
       pm_seenAt = kn_steady kn (w_tick w)\<rparr> (w_pendingMoves w), w_tick := Suc (w_tick w)\<rparr>"
    using a c n by (simp add: handleEvent_def Let_def)
  let ?w2 = "addWatchRecursive kn (wi_rootId b, ?full) w1"
  have w2: "handleEvent kn (dir_event wdB IN_MOVED_TO c n) w1 = (Some (fileEvent (wi_rootId b) ?full None Created True c), ?w2)"
    using b c n roots w1(2) by (simp add: handleEvent_def Let_def update_conv')
  have wd: "0 \<le> wd" using tables_okD(2) [OF watch_inv_tables [OF inv] d] .
  have pp: "lexically_normal p = p" unfolding path by (rule lexically_normal_idem)
  let ?i = "\<lparr>wi_wd = wd, wi_rootId = wi_rootId b, wi_path = p, wi_recursive = True\<rparr>"
  have "?w2 = addWatch kn (wi_rootId b, ?full) ?full w1"
    using same below new wd pp w1(2) by (simp add: addWatchRecursive_def addWatch_def Let_def path [symmetric] del: map_of_eq_None_iff)
  then have i: "map_of (w_watches ?w2) wd = Some ?i"
    using same new wd pp w1(2) by (simp add: addWatch_def Let_def path [symmetric] update_conv' del: map_of_eq_None_iff)
  have inv2: "watch_inv ?w2"
    using watch_inv_handle [OF inv, of kn "dir_event wdA IN_MOVED_FROM c n"] w1(1) by (simp add: watch_inv_addWatchRecursive)
  have w3: "handleEvent kn (dir_event wd IN_MOVE_SELF 0 []) ?w2 = (None, removeWatch kn wd ?w2)"
    using i by (simp add: handleEvent_def Let_def)
  have fin: "events = [fileEvent (wi_rootId b) ?full None Created True c]" "w' = removeWatch kn wd ?w2"
    using run w1(1) w2 w3 by simp_all
  have "wi_path info \<noteq> p" if "map_of (w_watches w') x = Some info" for x info
  proof -
    have x: "x \<noteq> wd" "map_of (w_watches ?w2) x = Some info"
      using that fin(2) by (auto simp: removeWatch_watches split: if_splits)
    then show ?thesis
      using tables_okD(4) [OF watch_inv_tables [OF inv2] x(2)] tables_okD(4) [OF watch_inv_tables [OF inv2] i] by auto
  qed
  then show ?thesis using fin by (simp add: fileEvent_def removeWatch_watches)
qed

theorem moved_between_roots_unwatched_witness:
  "\<exists>events w'. handleEvents demo_kernel [dir_event 1 IN_MOVED_FROM 5 ''d'', dir_event 3 IN_MOVED_TO 5 ''d'', dir_event 2 IN_MOVE_SELF 0 []]
       (demo_watcher\<lparr>w_kernel := [(''/a'', 1), (''/b'', 3), (''/b/d'', 2)]\<rparr>) = (events, w') \<and>
     map fe_path events = [''/b/d''] \<and> map_of (w_watches w') 2 = None"
proof -
  let ?w = "demo_watcher\<lparr>w_kernel := [(''/a'', 1), (''/b'', 3), (''/b/d'', 2)]\<rparr>"
  let ?i = "\<lambda>wd r p. \<lparr>wi_wd = wd, wi_rootId = r, wi_path = p, wi_recursive = True\<rparr>"
  obtain events w' where run: "handleEvents demo_kernel [dir_event 1 IN_MOVED_FROM 5 ''d'', dir_event 3 IN_MOVED_TO 5 ''d'',
      dir_event 2 IN_MOVE_SELF 0 []] ?w = (events, w')" by fastforce
  have inv: "watch_inv ?w" using demo_watcher_inv by (rule watch_inv_kernel)
  have watches: "map_of (w_watches ?w) 1 = Some (?i 1 ''s1'' ''/a'')" "map_of (w_watches ?w) 3 = Some (?i 3 ''s2'' ''/b'')"
    "map_of (w_watches ?w) 2 = Some (?i 2 ''s1'' ''/a/d'')" by code_simp+
  have path: "''/b/d'' = lexically_normal (path_append (wi_path (?i 3 ''s2'' ''/b'')) ''d'')"
    "path_append (wi_path (?i 3 ''s2'' ''/b'')) ''d'' = ''/b/d''" by code_simp+
  have new: "map_of (w_pathToWd ?w) ''/b/d'' = None" by code_simp
  have same: "kn_add_watch demo_kernel ''/b/d'' (w_kernel ?w) = (2, [(''/a'', 1), (''/b'', 3), (''/b/d'', 2)])"
    by (simp add: demo_kernel_def)
  have below: "kn_directories demo_kernel (path_append (wi_path (?i 3 ''s2'' ''/b'')) ''d'') [(''/a'', 1), (''/b'', 3), (''/b/d'', 2)] = []"
    by code_simp
  show ?thesis
    using moved_between_roots_unwatched [OF inv watches(1) watches(2) watches(3) _ _ _ path(1) new same below run] run path(2) by auto
qed

end
