(* ===== verification/Ipc_Transport.thy ===== *)
theory Ipc_Transport
  imports Ipc_Commands
begin

unbundle bit_operations_syntax

text \<open>
  The connection between the command line and the daemon on POSIX systems (platform/linux/Ipc.cpp, which
  macOS shares), the server's loop body (ipc/DaemonIpcServer.cpp) and the client
  (ipc/IpcProtocolClient.cpp): messages with a length in front, over a stream socket whose system
  calls may be interrupted and may transfer only a part of what they are asked for.

  The results of the successive \<open>read\<close> or \<open>write\<close> calls are a list; \<open>None\<close> stands for a call
  that has not come back when the list is used up. The encoding of messages (protobuf) is a
  parameter.
\<close>

section \<open>System calls on a connection\<close>

datatype syscall = Call_interrupted | Call_failed string | Transferred nat

record conn =
  cn_calls :: "syscall list"
  cn_in :: bytes
  cn_out :: bytes

type_synonym 'a conn_act = "conn \<Rightarrow> ('a result \<times> conn) option"

definition bindC :: "'a conn_act \<Rightarrow> ('a \<Rightarrow> 'b conn_act) \<Rightarrow> 'b conn_act" where
  "bindC m f c = (case m c of None \<Rightarrow> None | Some (Inl e, c') \<Rightarrow> Some (Inl e, c') | Some (Inr x, c') \<Rightarrow> f x c')"

definition returnC :: "'a \<Rightarrow> 'a conn_act" where
  "returnC x c = Some (Inr x, c)"

definition throwC :: "exn \<Rightarrow> 'a conn_act" where
  "throwC e c = Some (Inl e, c)"

text \<open>A call transfers at most what it is asked for; transferring nothing is a failure.\<close>

fun writeLoop :: "syscall list \<Rightarrow> bytes \<Rightarrow> bytes \<Rightarrow> (unit result \<times> syscall list \<times> bytes) option" where
  "writeLoop calls [] out = Some (Inr (), calls, out)"
| "writeLoop [] (b # data) out = None"
| "writeLoop (Call_interrupted # calls) (b # data) out = writeLoop calls (b # data) out"
| "writeLoop (Call_failed reason # calls) (b # data) out = Some (Inl (Runtime_error (''IPC write failed: '' @ reason)), calls, out)"
| "writeLoop (Transferred n # calls) (b # data) out =
     (if n = 0 then Some (Inl (Runtime_error ''IPC write failed''), calls, out)
      else writeLoop calls (drop n (b # data)) (out @ take n (b # data)))"

definition writeAllFd :: "bytes \<Rightarrow> unit conn_act" where
  "writeAllFd data c = map_option (\<lambda>(x, calls, out). (x, c\<lparr>cn_calls := calls, cn_out := out\<rparr>))
     (writeLoop (cn_calls c) data (cn_out c))"

text \<open>A \<open>read\<close> at the end of the stream returns nothing, which counts as a reset connection.\<close>

fun recvLoop :: "syscall list \<Rightarrow> nat \<Rightarrow> bytes \<Rightarrow> bytes \<Rightarrow> (bytes result \<times> syscall list \<times> bytes) option" where
  "recvLoop calls 0 inp acc = Some (Inr acc, calls, inp)"
| "recvLoop [] (Suc m) inp acc = None"
| "recvLoop (Call_interrupted # calls) (Suc m) inp acc = recvLoop calls (Suc m) inp acc"
| "recvLoop (Call_failed reason # calls) (Suc m) inp acc = Some (Inl (Runtime_error (''IPC read failed: '' @ reason)), calls, inp)"
| "recvLoop (Transferred n # calls) (Suc m) inp acc =
     (let k = min n (min (Suc m) (length inp)) in
      if k = 0 then Some (Inl (Runtime_error ''IPC read failed: Connection reset by peer''), calls, inp)
      else recvLoop calls (Suc m - k) (drop k inp) (acc @ take k inp))"

definition readAll :: "nat \<Rightarrow> bytes conn_act" where
  "readAll n c = map_option (\<lambda>(x, calls, inp). (x, c\<lparr>cn_calls := calls, cn_in := inp\<rparr>))
     (recvLoop (cn_calls c) n (cn_in c) [])"

section \<open>Messages\<close>

definition kMaxMessageSize :: nat where
  "kMaxMessageSize = 16 * 1024 * 1024"

text \<open>The bytes of \<open>htonl(n)\<close>, and \<open>ntohl\<close>.\<close>

definition htonl :: "32 word \<Rightarrow> bytes" where
  "htonl w = [ucast (drop_bit 24 w), ucast (drop_bit 16 w), ucast (drop_bit 8 w), ucast w]"

definition ntohl :: "bytes \<Rightarrow> 32 word" where
  "ntohl bs = foldl (\<lambda>w b. push_bit 8 w OR ucast b) 0 bs"

definition sendMessage :: "bytes \<Rightarrow> unit conn_act" where
  "sendMessage message =
     (if length message > kMaxMessageSize then throwC (Invalid_argument ''IPC message exceeds 16 MiB'')
      else bindC (writeAllFd (htonl (of_nat (length message)))) (\<lambda>_.
        if message \<noteq> [] then writeAllFd message else returnC ()))"

definition receiveMessage :: "bytes conn_act" where
  "receiveMessage = bindC (readAll 4) (\<lambda>networkSize.
     let n = unat (ntohl networkSize) in
     if n > kMaxMessageSize then throwC (Runtime_error ''IPC message exceeds 16 MiB'')
     else if n \<noteq> 0 then readAll n else returnC [])"

section \<open>Requests and answers\<close>

record protobuf =
  pb_request :: "Request \<Rightarrow> bytes"
  pb_response :: "Response \<Rightarrow> bytes"
  pb_parseRequest :: "bytes \<Rightarrow> Request result"
  pb_parseResponse :: "bytes \<Rightarrow> Response result"

text \<open>\<open>IpcProtocolClient::request\<close>: its two halves, before and after the server's turn.\<close>

definition clientSend :: "protobuf \<Rightarrow> Request \<Rightarrow> unit conn_act" where
  "clientSend pb request = sendMessage (pb_request pb request)"

definition clientReceive :: "protobuf \<Rightarrow> Response conn_act" where
  "clientReceive pb = bindC receiveMessage (\<lambda>bytes c. Some (pb_parseResponse pb bytes, c))"

text \<open>
  One round of \<open>DaemonIpcServer::serve\<close> on an accepted connection. Whatever is thrown outside the
  handler is dropped, and with it the connection.
\<close>

definition serveConnection ::
    "nat \<Rightarrow> ('k, 'srv, 'h) node_env \<Rightarrow> protobuf \<Rightarrow> conn \<Rightarrow> ('k, 'srv) node \<Rightarrow> (conn \<times> ('k, 'srv) node) option" where
  "serveConnection fuel env pb c n =
     (case bindC receiveMessage (\<lambda>bytes c. Some (pb_parseRequest pb bytes, c)) c of
        None \<Rightarrow> None
      | Some (Inl e, c1) \<Rightarrow> Some (c1, n)
      | Some (Inr request, c1) \<Rightarrow>
          (case serveRequest fuel env request n of
             (Inl e, n1) \<Rightarrow> Some (c1, n1)
           | (Inr None, n1) \<Rightarrow> None
           | (Inr (Some response), n1) \<Rightarrow>
               (case sendMessage (pb_response pb response) c1 of None \<Rightarrow> None | Some (x, c2) \<Rightarrow> Some (c2, n1))))"

section \<open>Setting up sockets\<close>

text \<open>What the system calls answer: a reason when they fail.\<close>

record socket_calls =
  sk_socket :: "string + int"
  sk_cloexec :: "string option"
  sk_connect :: "string option"
  sk_bind :: "string option"
  sk_listen :: "string option"
  sk_chmod :: "string option"
  sk_accept :: "string + int"

text \<open>The descriptors that are open and the socket files that exist.\<close>

record sockets =
  so_fds :: "int list"
  so_files :: "string list"

type_synonym 'a socket_act = "(sockets, 'a) act"

definition openFd :: "int \<Rightarrow> unit socket_act" where
  "openFd fd s = (Inr (), s\<lparr>so_fds := fd # so_fds s\<rparr>)"

definition closeFd :: "int \<Rightarrow> unit socket_act" where
  "closeFd fd s = (Inr (), s\<lparr>so_fds := filter (\<lambda>x. x \<noteq> fd) (so_fds s)\<rparr>)"

definition unlinkFile :: "string \<Rightarrow> unit socket_act" where
  "unlinkFile p s = (Inr (), s\<lparr>so_files := filter (\<lambda>x. x \<noteq> p) (so_files s)\<rparr>)"

definition kSunPathSize :: nat where
  "kSunPathSize = 108"

definition makeAddress :: "string \<Rightarrow> string result" where
  "makeAddress endpoint =
     (if length endpoint \<ge> kSunPathSize then Inl (Invalid_argument ''IPC endpoint path is too long'') else Inr endpoint)"

definition failing :: "string \<Rightarrow> string \<Rightarrow> exn" where
  "failing label reason = Runtime_error (label @ '': '' @ reason)"

text \<open>A call that may fail: \<open>cleanup\<close> runs before the exception is thrown.\<close>

definition checked :: "string option \<Rightarrow> unit socket_act \<Rightarrow> string \<Rightarrow> unit socket_act" where
  "checked failure cleanup label =
     (case failure of None \<Rightarrow> returnE () | Some reason \<Rightarrow> bindE cleanup (\<lambda>_. throwE (failing label reason)))"

definition connectSocket :: "socket_calls \<Rightarrow> string \<Rightarrow> int socket_act" where
  "connectSocket sk endpoint =
     (case sk_socket sk of
        Inl reason \<Rightarrow> throwE (failing ''IPC socket failed'' reason)
      | Inr fd \<Rightarrow>
          bindE (openFd fd) (\<lambda>_.
          bindE (checked (sk_cloexec sk) (closeFd fd) ''IPC close-on-exec setup failed'') (\<lambda>_.
          case makeAddress endpoint of
            Inl e \<Rightarrow> throwE e
          | Inr address \<Rightarrow>
              bindE (checked (sk_connect sk) (closeFd fd) ''IPC connect failed'') (\<lambda>_. returnE fd))))"

text \<open>\<open>LinuxIpcServer::stop\<close>.\<close>

definition stopServer :: "int \<Rightarrow> string \<Rightarrow> unit socket_act" where
  "stopServer fd endpoint =
     bindE (if fd \<ge> 0 then closeFd fd else returnE ()) (\<lambda>_. if endpoint \<noteq> [] then unlinkFile endpoint else returnE ())"

text \<open>The constructor of \<open>LinuxIpcServer\<close>; making the parent directory is left aside.\<close>

definition newServer :: "socket_calls \<Rightarrow> string \<Rightarrow> int socket_act" where
  "newServer sk endpoint =
     bindE (unlinkFile endpoint) (\<lambda>_.
     case sk_socket sk of
       Inl reason \<Rightarrow> throwE (failing ''IPC socket failed'' reason)
     | Inr fd \<Rightarrow>
         bindE (openFd fd) (\<lambda>_.
         bindE (checked (sk_cloexec sk) (stopServer fd endpoint) ''IPC close-on-exec setup failed'') (\<lambda>_.
         case makeAddress endpoint of
           Inl e \<Rightarrow> throwE e
         | Inr address \<Rightarrow>
             bindE (checked (sk_bind sk) (stopServer fd endpoint) ''IPC bind failed'') (\<lambda>_.
             bindE (\<lambda>s. (Inr (), s\<lparr>so_files := endpoint # so_files s\<rparr>)) (\<lambda>_.
             bindE (checked (sk_listen sk) (stopServer fd endpoint) ''IPC listen failed'') (\<lambda>_.
             bindE (checked (sk_chmod sk) (stopServer fd endpoint) ''IPC socket permission setup failed'') (\<lambda>_.
               returnE fd)))))))"

definition acceptConnection :: "socket_calls \<Rightarrow> int socket_act" where
  "acceptConnection sk =
     (case sk_accept sk of
        Inl reason \<Rightarrow> throwE (failing ''IPC accept failed'' reason)
      | Inr fd \<Rightarrow>
          bindE (openFd fd) (\<lambda>_.
          bindE (checked (sk_cloexec sk) (closeFd fd) ''IPC close-on-exec setup failed'') (\<lambda>_. returnE fd)))"

section \<open>Loops that get through\<close>

text \<open>
  No call fails or transfers nothing; the number of transfers bounds what gets through at the least.
\<close>

definition smooth :: "syscall list \<Rightarrow> bool" where
  "smooth calls \<longleftrightarrow> (\<forall>c\<in>set calls. c = Call_interrupted \<or> (\<exists>n>0. c = Transferred n))"

definition transfers :: "syscall list \<Rightarrow> nat" where
  "transfers calls = length (filter (\<lambda>c. c \<noteq> Call_interrupted) calls)"

lemma smooth_Cons: "smooth (c # calls) \<longleftrightarrow> (c = Call_interrupted \<or> (\<exists>n>0. c = Transferred n)) \<and> smooth calls"
  by (auto simp: smooth_def)

lemma transfers_Cons: "transfers (c # calls) = (if c = Call_interrupted then 0 else 1) + transfers calls"
  by (simp add: transfers_def)

lemma writeLoop_smooth:
  "smooth calls \<Longrightarrow> length data \<le> transfers calls \<Longrightarrow>
   \<exists>calls'. writeLoop calls data out = Some (Inr (), calls', out @ data) \<and> smooth calls' \<and>
     transfers calls \<le> transfers calls' + length data"
proof (induction calls data out rule: writeLoop.induct)
  case (3 calls b data out)
  then show ?case by (simp add: smooth_Cons transfers_Cons)
next
  case (5 n calls b data out)
  then have n: "0 < n" "smooth calls" "length (drop n (b # data)) \<le> transfers calls"
    by (auto simp: smooth_Cons transfers_Cons)
  from 5(1) [OF _ n(2,3)] n(1) obtain calls' where
    "writeLoop calls (drop n (b # data)) (out @ take n (b # data)) = Some (Inr (), calls', (out @ take n (b # data)) @ drop n (b # data))"
    "smooth calls'" "transfers calls \<le> transfers calls' + length (drop n (b # data))" by auto
  then show ?case using n(1) by (auto simp: transfers_Cons)
qed (auto simp: transfers_def smooth_def)

lemma readLoop_smooth:
  "smooth calls \<Longrightarrow> m \<le> transfers calls \<Longrightarrow> m \<le> length inp \<Longrightarrow>
   \<exists>calls'. recvLoop calls m inp acc = Some (Inr (acc @ take m inp), calls', drop m inp) \<and> smooth calls' \<and>
     transfers calls \<le> transfers calls' + m"
proof (induction calls m inp acc rule: recvLoop.induct)
  case (3 calls m inp acc)
  then show ?case by (simp add: smooth_Cons transfers_Cons)
next
  case (5 n calls m inp acc)
  let ?k = "min n (min (Suc m) (length inp))"
  have k: "0 < ?k" "smooth calls" "Suc m - ?k \<le> transfers calls" "Suc m - ?k \<le> length (drop ?k inp)" "?k \<le> Suc m"
    using 5(2-4) by (auto simp: smooth_Cons transfers_Cons)
  then have "?k \<noteq> 0" by simp
  from 5(1) [OF refl this k(2-4)] obtain calls' where
    c: "recvLoop calls (Suc m - ?k) (drop ?k inp) (acc @ take ?k inp) =
      Some (Inr ((acc @ take ?k inp) @ take (Suc m - ?k) (drop ?k inp)), calls', drop (Suc m - ?k) (drop ?k inp))"
    "smooth calls'" "transfers calls \<le> transfers calls' + (Suc m - ?k)" by blast
  have "take ?k inp @ take (Suc m - ?k) (drop ?k inp) = take (Suc m) inp" "drop (Suc m - ?k) (drop ?k inp) = drop (Suc m) inp"
    using k(5) by (metis le_add_diff_inverse take_add) (metis k(5) drop_drop le_add_diff_inverse2)
  moreover have "transfers calls \<le> transfers calls' + m" using c(3) k(1) by linarith
  ultimately show ?case using c(1,2) k(1) by (auto simp: Let_def transfers_Cons)
qed (auto simp: transfers_def smooth_def)

lemma ntohl_htonl: "ntohl (htonl w) = w"
proof -
  let ?b = "\<lambda>n. ucast (ucast (drop_bit n w) :: 8 word) :: 32 word"
  let ?v = "push_bit 24 (?b 24) OR push_bit 16 (?b 16) OR push_bit 8 (?b 8) OR ?b 0"
  have "ntohl (htonl w) = ?v" by (simp add: ntohl_def htonl_def push_bit_or or.assoc)
  also have "?v = w"
  proof (rule bit_word_eqI)
    fix n assume "n < LENGTH(32)"
    then consider "n < 8" | "8 \<le> n" "n < 16" | "16 \<le> n" "n < 24" | "24 \<le> n" "n < 32" by fastforce
    then show "bit ?v n = bit w n" by cases (auto simp: bit_simps)
  qed
  finally show ?thesis .
qed

lemma length_htonl [simp]: "length (htonl w) = 4"
  by (simp add: htonl_def)

section \<open>Sending and receiving\<close>

lemma writeAll_smooth:
  assumes "smooth (cn_calls c)" and "length data \<le> transfers (cn_calls c)"
  shows "\<exists>c'. writeAllFd data c = Some (Inr (), c') \<and> cn_out c' = cn_out c @ data \<and> cn_in c' = cn_in c \<and>
    smooth (cn_calls c') \<and> transfers (cn_calls c) \<le> transfers (cn_calls c') + length data"
  using writeLoop_smooth [OF assms, of "cn_out c"] by (auto simp: writeAllFd_def)

lemma readAll_smooth:
  assumes "smooth (cn_calls c)" and "n \<le> transfers (cn_calls c)" and "cn_in c = data @ rest" and "length data = n"
  shows "\<exists>c'. readAll n c = Some (Inr data, c') \<and> cn_in c' = rest \<and> cn_out c' = cn_out c \<and>
    smooth (cn_calls c') \<and> transfers (cn_calls c) \<le> transfers (cn_calls c') + n"
  using readLoop_smooth [OF assms(1,2), of "cn_in c" "[]"] assms(3,4) by (auto simp: readAll_def)

lemma bindC_Some [simp]: "m c = Some (Inr x, c') \<Longrightarrow> bindC m f c = f x c'"
  by (simp add: bindC_def)

text \<open>What a message is on the wire.\<close>

definition frame :: "bytes \<Rightarrow> bytes" where
  "frame message = htonl (of_nat (length message)) @ message"

lemma length_frame [simp]: "length (frame message) = 4 + length message"
  by (simp add: frame_def)

lemma send_smooth:
  assumes "smooth (cn_calls c)" and "4 + length message \<le> transfers (cn_calls c)" and "length message \<le> kMaxMessageSize"
  shows "\<exists>c'. sendMessage message c = Some (Inr (), c') \<and> cn_out c' = cn_out c @ frame message \<and> cn_in c' = cn_in c \<and>
    smooth (cn_calls c') \<and> transfers (cn_calls c) \<le> transfers (cn_calls c') + 4 + length message"
proof -
  obtain c1 where c1: "writeAllFd (htonl (of_nat (length message))) c = Some (Inr (), c1)"
    "cn_out c1 = cn_out c @ htonl (of_nat (length message))" "cn_in c1 = cn_in c" "smooth (cn_calls c1)"
    "transfers (cn_calls c) \<le> transfers (cn_calls c1) + 4"
    using writeAll_smooth [OF assms(1), of "htonl (of_nat (length message))"] assms(2) by auto
  have send: "sendMessage message c = (if message \<noteq> [] then writeAllFd message else returnC ()) c1"
    using c1(1) assms(3) by (simp add: sendMessage_def)
  show ?thesis
  proof (cases "message = []")
    case False
    have "length message \<le> transfers (cn_calls c1)" using c1(5) assms(2) by simp
    from writeAll_smooth [OF c1(4) this] False c1 show ?thesis by (fastforce simp: send frame_def)
  next
    case True
    then show ?thesis using c1 send by (simp add: returnC_def frame_def)
  qed
qed

lemma receive_smooth:
  assumes "smooth (cn_calls c)" and "4 + length message \<le> transfers (cn_calls c)" and "length message \<le> kMaxMessageSize"
    and "cn_in c = frame message @ rest"
  shows "\<exists>c'. receiveMessage c = Some (Inr message, c') \<and> cn_in c' = rest \<and> cn_out c' = cn_out c \<and>
    smooth (cn_calls c') \<and> transfers (cn_calls c) \<le> transfers (cn_calls c') + 4 + length message"
proof -
  obtain c1 where c1: "readAll 4 c = Some (Inr (htonl (of_nat (length message))), c1)"
    "cn_in c1 = message @ rest" "cn_out c1 = cn_out c" "smooth (cn_calls c1)"
    "transfers (cn_calls c) \<le> transfers (cn_calls c1) + 4"
    using readAll_smooth [OF assms(1), of 4 "htonl (of_nat (length message))" "message @ rest"] assms(2,4)
    by (auto simp: frame_def)
  have "length message < 2 ^ 32" using assms(3) by (simp add: kMaxMessageSize_def)
  then have "unat (ntohl (htonl (of_nat (length message)))) = length message"
    by (simp add: ntohl_htonl unat_of_nat)
  then have receive: "receiveMessage c = (if message \<noteq> [] then readAll (length message) else returnC []) c1"
    using c1(1) assms(3) by (simp add: receiveMessage_def Let_def)
  show ?thesis
  proof (cases "message = []")
    case False
    have "length message \<le> transfers (cn_calls c1)" using c1(5) assms(2) by simp
    from readAll_smooth [OF c1(4) this c1(2)] False c1 show ?thesis by (fastforce simp: receive)
  next
    case True
    then show ?thesis using c1 receive by (simp add: returnC_def)
  qed
qed

text \<open>Several messages in a row.\<close>

fun sendAll :: "bytes list \<Rightarrow> unit conn_act" where
  "sendAll [] = returnC ()"
| "sendAll (m # ms) = bindC (sendMessage m) (\<lambda>_. sendAll ms)"

fun receiveAll :: "nat \<Rightarrow> bytes list conn_act" where
  "receiveAll 0 = returnC []"
| "receiveAll (Suc n) = bindC receiveMessage (\<lambda>m. bindC (receiveAll n) (\<lambda>ms. returnC (m # ms)))"

lemma sendAll_smooth:
  assumes "smooth (cn_calls c)" and "length (concat (map frame ms)) \<le> transfers (cn_calls c)" and "\<forall>m\<in>set ms. length m \<le> kMaxMessageSize"
  shows "\<exists>c'. sendAll ms c = Some (Inr (), c') \<and> cn_out c' = cn_out c @ concat (map frame ms)"
  using assms
proof (induction ms arbitrary: c)
  case (Cons m ms)
  obtain c1 where "sendMessage m c = Some (Inr (), c1)" "cn_out c1 = cn_out c @ frame m" "smooth (cn_calls c1)"
    "transfers (cn_calls c) \<le> transfers (cn_calls c1) + 4 + length m"
    using send_smooth [of c m] Cons.prems by auto
  with Cons.IH [of c1] Cons.prems show ?case by auto
qed (simp add: returnC_def)

lemma receiveAll_smooth:
  assumes "smooth (cn_calls c)" and "length (concat (map frame ms)) \<le> transfers (cn_calls c)" and "\<forall>m\<in>set ms. length m \<le> kMaxMessageSize"
    and "cn_in c = concat (map frame ms) @ rest"
  shows "\<exists>c'. receiveAll (length ms) c = Some (Inr ms, c') \<and> cn_in c' = rest"
  using assms
proof (induction ms arbitrary: c)
  case (Cons m ms)
  obtain c1 where "receiveMessage c = Some (Inr m, c1)" "cn_in c1 = concat (map frame ms) @ rest" "smooth (cn_calls c1)"
    "transfers (cn_calls c) \<le> transfers (cn_calls c1) + 4 + length m"
    using receive_smooth [of c m "concat (map frame ms) @ rest"] Cons.prems by auto
  with Cons.IH [of c1] Cons.prems show ?case by (auto simp: returnC_def)
qed (simp add: returnC_def)

section \<open>Properties\<close>

text \<open>
  Messages sent one after the other are received as the same messages in the same order,
  however the calls on both sides are cut up or interrupted, and what follows them in the stream stays
  there.
\<close>

theorem messages_in_order:
  assumes "smooth (cn_calls sc)" and "smooth (cn_calls rc)" and "cn_out sc = []" and "\<forall>m\<in>set ms. length m \<le> kMaxMessageSize"
    and "length (concat (map frame ms)) \<le> transfers (cn_calls sc)" and "length (concat (map frame ms)) \<le> transfers (cn_calls rc)"
  shows "\<exists>sc' rc'. sendAll ms sc = Some (Inr (), sc') \<and>
    receiveAll (length ms) (rc\<lparr>cn_in := cn_out sc' @ rest\<rparr>) = Some (Inr ms, rc') \<and> cn_in rc' = rest"
proof -
  obtain sc' where s: "sendAll ms sc = Some (Inr (), sc')" "cn_out sc' = concat (map frame ms)"
    using sendAll_smooth [OF assms(1,5,4)] assms(3) by auto
  have "smooth (cn_calls (rc\<lparr>cn_in := cn_out sc' @ rest\<rparr>))" "length (concat (map frame ms)) \<le> transfers (cn_calls (rc\<lparr>cn_in := cn_out sc' @ rest\<rparr>))"
    using assms(2,6) by simp_all
  from receiveAll_smooth [OF this assms(4)] s show ?thesis by simp
qed

text \<open>
  C11. A command over the socket: for every request, whatever the daemon's state, the client gets
  exactly the answer that the daemon computes, and the daemon's state changes as it does for that request,
  however reads and writes are cut up or interrupted on either side; enough calls get through when no
  call fails. Relied on: the message encoding can be read back, and both messages fit the limit.
\<close>

theorem request_answered_over_socket:
  assumes law: "pb_parseRequest pb (pb_request pb request) = Inr request" "pb_parseResponse pb (pb_response pb response) = Inr response"
    and fit: "length (pb_request pb request) \<le> kMaxMessageSize" "length (pb_response pb response) \<le> kMaxMessageSize"
    and answer: "serveRequest fuel env request n = (Inr (Some response), n')"
    and client: "smooth (cn_calls cc)" "8 + length (pb_request pb request) + length (pb_response pb response) \<le> transfers (cn_calls cc)"
    and server: "smooth (cn_calls sc)" "8 + length (pb_request pb request) + length (pb_response pb response) \<le> transfers (cn_calls sc)"
    and start: "cn_out cc = []" "cn_out sc = []"
  shows "\<exists>cc1 sc1 cc2. clientSend pb request cc = Some (Inr (), cc1) \<and>
    serveConnection fuel env pb (sc\<lparr>cn_in := cn_out cc1\<rparr>) n = Some (sc1, n') \<and>
    clientReceive pb (cc1\<lparr>cn_in := cn_out sc1\<rparr>) = Some (Inr response, cc2)"
proof -
  obtain cc1 where c1: "clientSend pb request cc = Some (Inr (), cc1)" "cn_out cc1 = frame (pb_request pb request)"
    "smooth (cn_calls cc1)" "4 + length (pb_response pb response) \<le> transfers (cn_calls cc1)"
    using send_smooth [OF client(1) _ fit(1)] client(2) start(1) by (auto simp: clientSend_def)
  let ?s = "sc\<lparr>cn_in := cn_out cc1\<rparr>"
  obtain s1 where s1: "receiveMessage ?s = Some (Inr (pb_request pb request), s1)" "cn_out s1 = []" "smooth (cn_calls s1)"
    "4 + length (pb_response pb response) \<le> transfers (cn_calls s1)"
    using receive_smooth [of ?s "pb_request pb request" "[]"] server fit(1) c1(2) start(2) by auto
  obtain s2 where s2: "sendMessage (pb_response pb response) s1 = Some (Inr (), s2)" "cn_out s2 = frame (pb_response pb response)"
    using send_smooth [OF s1(3,4) fit(2)] s1(2) by auto
  have served: "serveConnection fuel env pb ?s n = Some (s2, n')"
    using s1(1) s2(1) answer law(1) by (simp add: serveConnection_def)
  obtain cc2 where "receiveMessage (cc1\<lparr>cn_in := cn_out s2\<rparr>) = Some (Inr (pb_response pb response), cc2)"
    using receive_smooth [of "cc1\<lparr>cn_in := cn_out s2\<rparr>" "pb_response pb response" "[]"] c1(3,4) fit(2) s2(2) by auto
  then have "clientReceive pb (cc1\<lparr>cn_in := cn_out s2\<rparr>) = Some (Inr response, cc2)"
    using law(2) by (simp add: clientReceive_def)
  with c1(1) served show ?thesis by blast
qed

text \<open>Single bytes, with an interruption before each.\<close>

definition demo_calls :: "syscall list" where
  "demo_calls = concat (replicate 20 [Call_interrupted, Transferred 1])"

definition stopRequest :: Request where
  "stopRequest = listRequest\<lparr>rq_command := STOP\<rparr>"

definition stopResponse :: Response where
  "stopResponse = emptyResponse\<lparr>rp_ok := True, rp_state := ''stopping'', rp_protocol_version := kProtocolVersion\<rparr>"

definition demo_protobuf :: protobuf where
  "demo_protobuf =
     \<lparr>pb_request = (\<lambda>_. [8, 1]), pb_response = (\<lambda>_. [1, 2, 3]), pb_parseRequest = (\<lambda>_. Inr stopRequest),
      pb_parseResponse = (\<lambda>_. Inr stopResponse)\<rparr>"

theorem request_answered_over_socket_witness:
  "let c = \<lparr>cn_calls = demo_calls, cn_in = [], cn_out = []\<rparr> in
   \<exists>cc1 sc1 cc2. clientSend demo_protobuf stopRequest c = Some (Inr (), cc1) \<and>
     serveConnection 0 demo_node_env demo_protobuf (c\<lparr>cn_in := cn_out cc1\<rparr>) demo_node = Some (sc1, demo_node\<lparr>nd_stop := True\<rparr>) \<and>
     clientReceive demo_protobuf (cc1\<lparr>cn_in := cn_out sc1\<rparr>) = Some (Inr stopResponse, cc2)"
proof -
  let ?c = "\<lparr>cn_calls = demo_calls, cn_in = [], cn_out = []\<rparr>"
  have calls: "smooth (cn_calls ?c)" "transfers (cn_calls ?c) = 20"
    by (auto simp: smooth_def transfers_def demo_calls_def numeral_eq_Suc)
  have answer: "serveRequest 0 demo_node_env stopRequest demo_node = (Inr (Some stopResponse), demo_node\<lparr>nd_stop := True\<rparr>)"
    by (simp add: serveRequest_def handleRequest_def stopRequest_def stopResponse_def listRequest_def addRequest_def isSupportedProtocolVersion_def
        stopCommand_def bindE_def catchE_def returnE_def)
  have pb: "pb_parseRequest demo_protobuf (pb_request demo_protobuf stopRequest) = Inr stopRequest"
    "pb_parseResponse demo_protobuf (pb_response demo_protobuf stopResponse) = Inr stopResponse"
    "length (pb_request demo_protobuf stopRequest) = 2" "length (pb_response demo_protobuf stopResponse) = 3"
    by (simp_all add: demo_protobuf_def)
  from request_answered_over_socket [OF pb(1,2) _ _ answer calls(1) _ calls(1)] show ?thesis
    by (simp add: pb(3,4) calls(2) [simplified] kMaxMessageSize_def)
qed

text \<open>
  A failing \<open>connect\<close> closes its descriptor, with one exception: when the name of the socket is too long, which
  is only found out after the socket was made, the descriptor is lost.
\<close>

theorem connect_leaks_for_long_names:
  assumes "connectSocket sk endpoint s = (Inl e, s')" and "sk_socket sk = Inr fd" and "fd \<notin> set (so_fds s)"
  shows "so_fds s' = (if length endpoint \<ge> kSunPathSize \<and> sk_cloexec sk = None then fd # so_fds s else so_fds s)"
proof -
  have "filter (\<lambda>x. x \<noteq> fd) (so_fds s) = so_fds s" using assms(3) by (auto intro: filter_True)
  then show ?thesis
    using assms(1,2)
    by (auto simp: connectSocket_def checked_def makeAddress_def bindE_def openFd_def closeFd_def throwE_def returnE_def
        split: option.splits if_splits)
qed

end
