(* ===== verification/Cli.thy ===== *)
theory Cli
  imports Ipc_Transport
begin

text \<open>
  The command line (app/App.cpp, main.cpp): which command the arguments stand for, the request it
  sends to the daemon, what it prints and the exit code. The base URL and the smoke test work on
  the account and the secure storage directly; everything else goes through the daemon. The
  terminal, the environment and the exchange with the daemon are parameters; the latter is what
  \<open>Ipc_Transport\<close> models.
\<close>

section \<open>Arguments\<close>

datatype CliCommand =
    Cmd_Login | Cmd_Logout | Cmd_SetBaseUrl | Cmd_SyncAdd | Cmd_SyncRun | Cmd_SyncList | Cmd_SyncRemove | Cmd_SyncPull
  | Cmd_Status | Cmd_SecureStorageSmoke | Cmd_Daemon | Cmd_DaemonStop | Cmd_Unknown

definition parseCommand :: "string list \<Rightarrow> CliCommand" where
  "parseCommand argv =
     (let argc = length argv; command = argv ! 1 in
      if argc < 2 then Cmd_Unknown
      else if command = ''login'' \<and> argc = 2 then Cmd_Login
      else if command = ''status'' \<and> argc = 2 then Cmd_Status
      else if command = ''logout'' \<and> argc = 2 then Cmd_Logout
      else if command = ''set-base-url'' \<and> argc = 3 then Cmd_SetBaseUrl
      else if command = ''sync'' \<and> argc = 4 \<and> argv ! 2 = ''add'' then Cmd_SyncAdd
      else if command = ''sync'' \<and> argc = 3 \<and> argv ! 2 = ''run'' then Cmd_SyncRun
      else if command = ''sync'' \<and> argc = 3 \<and> argv ! 2 = ''list'' then Cmd_SyncList
      else if command = ''sync'' \<and> argc = 4 \<and> argv ! 2 = ''remove'' then Cmd_SyncRemove
      else if command = ''sync'' \<and> argc = 3 \<and> argv ! 2 = ''pull'' then Cmd_SyncPull
      else if command = ''secure-storage-smoke'' \<and> argc = 2 then Cmd_SecureStorageSmoke
      else if command = ''daemon'' \<and> argc = 2 then Cmd_Daemon
      else if command = ''daemon'' \<and> argc = 3 \<and> argv ! 2 = ''stop'' then Cmd_DaemonStop
      else Cmd_Unknown)"

section \<open>The process\<close>

record ('k, 'd) cli =
  cl_vault :: "'k vault"
  cl_daemon :: 'd
  cl_out :: "string list"

type_synonym ('k, 'd, 'a) cli_act = "(('k, 'd) cli, 'a) act"

text \<open>
  \<open>ce_open\<close> is how making the database and the services ends, \<open>ce_daemonRun\<close> running as the daemon.
\<close>

record ('k, 'd) cli_env =
  ce_open :: "unit result"
  ce_vault :: "'k vault_env"
  ce_request :: "Request \<Rightarrow> ('k, 'd, Response) cli_act"
  ce_getenv :: "string \<Rightarrow> string option"
  ce_readLine :: string
  ce_readPassword :: "string \<Rightarrow> string result"
  ce_daemonRun :: "('k, 'd, int) cli_act"

definition vaultC :: "('k, 'a) vault_act \<Rightarrow> ('k, 'd, 'a) cli_act" where
  "vaultC m s = (case m (cl_vault s) of (x, v) \<Rightarrow> (x, s\<lparr>cl_vault := v\<rparr>))"

definition info :: "string \<Rightarrow> ('k, 'd, unit) cli_act" where
  "info line s = (Inr (), s\<lparr>cl_out := cl_out s @ [line]\<rparr>)"

definition makeRequest :: "Command \<Rightarrow> Request" where
  "makeRequest command =
     \<lparr>rq_protocol_version = kProtocolVersion, rq_command = command, rq_email = [], rq_password = [], rq_path = []\<rparr>"

text \<open>A request; an answer that is not \<open>ok\<close> is thrown as an error.\<close>

definition requestOk :: "('k, 'd) cli_env \<Rightarrow> Request \<Rightarrow> ('k, 'd, Response) cli_act" where
  "requestOk env request =
     bindE (ce_request env request) (\<lambda>response.
       if rp_ok response then returnE response else throwE (Runtime_error (rp_error response)))"

definition number :: "32 word \<Rightarrow> string" where
  "number w = nat_to_string (unat w)"

definition truth :: "bool \<Rightarrow> string" where
  "truth b = (if b then ''true'' else ''false'')"

section \<open>Commands\<close>

definition accountFor :: "string \<Rightarrow> AccountRecord" where
  "accountFor url =
     \<lparr>acc_baseUrl = url, acc_userId = None, acc_email = None, acc_vaultSalt = None, acc_encryptedMasterKey = None,
      acc_vaultSessionKeyId = None, acc_vaultSessionBlob = None\<rparr>"

definition setBaseUrl :: "('k, 'd) cli_env \<Rightarrow> string \<Rightarrow> ('k, 'd, int) cli_act" where
  "setBaseUrl env newBaseUrl =
     bindE (getsE (\<lambda>s. getAccount (vt_account (cl_vault s)))) (\<lambda>existing.
     bindE (case existing of
              None \<Rightarrow> returnE (accountFor newBaseUrl)
            | Some a \<Rightarrow>
                if acc_baseUrl a = newBaseUrl then
                  returnE ((accountFor newBaseUrl)\<lparr>acc_userId := acc_userId a, acc_email := acc_email a,
                     acc_vaultSalt := acc_vaultSalt a, acc_encryptedMasterKey := acc_encryptedMasterKey a,
                     acc_vaultSessionKeyId := acc_vaultSessionKeyId a, acc_vaultSessionBlob := acc_vaultSessionBlob a\<rparr>)
                else bindE (vaultC (clearPersistedSession (ce_vault env))) (\<lambda>_. returnE (accountFor newBaseUrl))) (\<lambda>account.
     bindE (vaultC (onAccount (ce_vault env) (\<lambda>now. upsertAccount now account))) (\<lambda>_.
     bindE (info ''Base URL updated'') (\<lambda>_. returnE 0))))"

definition credentials :: "('k, 'd) cli_env \<Rightarrow> Response \<Rightarrow> (string \<times> string) result" where
  "credentials env st =
     (case (ce_getenv env ''ARKIVE_LOGIN_EMAIL'', ce_getenv env ''ARKIVE_LOGIN_PASSWORD'') of
        (Some email, Some password) \<Rightarrow> Inr (email, password)
      | _ \<Rightarrow>
          if rp_authenticated st then bindR (ce_readPassword env ''Enter your vault password: '') (\<lambda>p. Inr ([], p))
          else bindR (ce_readPassword env ''Enter your password: '') (\<lambda>p. Inr (ce_readLine env, p)))"

definition cliLogin :: "('k, 'd) cli_env \<Rightarrow> ('k, 'd, int) cli_act" where
  "cliLogin env =
     bindE (requestOk env (makeRequest STATUS)) (\<lambda>st.
     bindE (liftE (\<lambda>_. credentials env st)) (\<lambda>(email, password).
     bindE (requestOk env ((makeRequest LOGIN)\<lparr>rq_email := email, rq_password := password\<rparr>)) (\<lambda>response.
     bindE (info (if rp_vault_unlocked response then ''Successfully logged in and unlocked vault!''
                  else ''Successfully logged in!'')) (\<lambda>_. returnE 0))))"

definition cliSimple :: "('k, 'd) cli_env \<Rightarrow> Request \<Rightarrow> (Response \<Rightarrow> string) \<Rightarrow> ('k, 'd, int) cli_act" where
  "cliSimple env request line =
     bindE (requestOk env request) (\<lambda>response. bindE (info (line response)) (\<lambda>_. returnE 0))"

definition rootLine :: "SyncRootInfo \<Rightarrow> string" where
  "rootLine root =
     ''Sync root id='' @ si_id root @ '' path='' @ si_path root @ '' enabled='' @ truth (si_enabled root) @
     '' mode='' @ si_mode root"

definition cliSyncList :: "('k, 'd) cli_env \<Rightarrow> ('k, 'd, int) cli_act" where
  "cliSyncList env =
     bindE (requestOk env (makeRequest SYNC_LIST)) (\<lambda>response.
     bindE (forE (rp_sync_roots response) (\<lambda>root. info (rootLine root))) (\<lambda>_.
     bindE (if rp_sync_roots response = [] then info ''No sync roots configured'' else returnE ()) (\<lambda>_. returnE 0)))"

definition cliStatus :: "('k, 'd) cli_env \<Rightarrow> ('k, 'd, int) cli_act" where
  "cliStatus env =
     bindE (catchE
       (bindE (requestOk env (makeRequest STATUS)) (\<lambda>response.
          info (''Arkive Sync engine is '' @ rp_state response @ '' ('' @ number (rp_sync_root_count response) @ '' sync root(s))'')))
       (\<lambda>_. info ''Arkive Sync is installed and working'')) (\<lambda>_. returnE 0)"

definition kSmokeService :: string where
  "kSmokeService = ''arkive-sync''"

definition kSmokeAccount :: string where
  "kSmokeAccount = ''smoke-test:vault-session-key''"

definition secureStorageSmoke :: "('k, 'd) cli_env \<Rightarrow> ('k, 'd, int) cli_act" where
  "secureStorageSmoke env =
     bindE (vaultC (draw (ve_generateMasterKey (ce_vault env)))) (\<lambda>secret.
     bindE (vaultC (onSecrets (ve_storeSecret (ce_vault env) kSmokeService kSmokeAccount secret))) (\<lambda>_.
     bindE (vaultC (onSecrets (ve_loadSecret (ce_vault env) kSmokeService kSmokeAccount))) (\<lambda>loaded.
     case loaded of
       None \<Rightarrow> throwE (Runtime_error ''Secure storage smoke test failed: secret missing'')
     | Some x \<Rightarrow>
         if x \<noteq> secret then throwE (Runtime_error ''Secure storage smoke test failed: secret mismatch'')
         else
           bindE (vaultC (onSecrets (ve_deleteSecret (ce_vault env) kSmokeService kSmokeAccount))) (\<lambda>_.
           bindE (vaultC (onSecrets (ve_loadSecret (ce_vault env) kSmokeService kSmokeAccount))) (\<lambda>deleted.
             if deleted \<noteq> None
             then throwE (Runtime_error ''Secure storage smoke test failed: secret still present after delete'')
             else bindE (info ''Secure storage smoke test passed'') (\<lambda>_. returnE 0))))))"

definition kUsage :: string where
  "kUsage =
     ''Usage: arkive-sync login | arkive-sync logout | arkive-sync set-base-url <url> | arkive-sync status | '' @
     ''arkive-sync sync add <path> | arkive-sync sync list | arkive-sync sync remove <id> | arkive-sync sync run | '' @
     ''arkive-sync sync pull | arkive-sync secure-storage-smoke | arkive-sync daemon [stop]''"

definition appRun :: "('k, 'd) cli_env \<Rightarrow> string list \<Rightarrow> ('k, 'd, int) cli_act" where
  "appRun env argv =
     (if length argv < 2 then
        bindE (info ''Usage: arkive-sync <status|set-base-url|login|logout|sync|secure-storage-smoke|daemon>'') (\<lambda>_. returnE 0)
      else case parseCommand argv of
          Cmd_SetBaseUrl \<Rightarrow> setBaseUrl env (argv ! 2)
        | Cmd_Login \<Rightarrow> cliLogin env
        | Cmd_Logout \<Rightarrow> cliSimple env (makeRequest LOGOUT) (\<lambda>_. ''Successfully logged out!'')
        | Cmd_SyncAdd \<Rightarrow> cliSimple env ((makeRequest SYNC_ADD)\<lparr>rq_path := argv ! 3\<rparr>)
            (\<lambda>r. ''Added sync root id='' @ rp_sync_root_id r @ '' path='' @ rp_sync_root_path r)
        | Cmd_SyncRun \<Rightarrow> cliSimple env (makeRequest SYNC_RUN)
            (\<lambda>r. ''Scan complete for '' @ number (rp_scanned_root_count r) @ '' sync root(s)'')
        | Cmd_SyncList \<Rightarrow> cliSyncList env
        | Cmd_SyncRemove \<Rightarrow> cliSimple env ((makeRequest SYNC_REMOVE)\<lparr>rq_path := argv ! 3\<rparr>)
            (\<lambda>r. ''Disabled sync root '' @ rp_sync_root_id r)
        | Cmd_SyncPull \<Rightarrow> cliSimple env (makeRequest SYNC_PULL)
            (\<lambda>r. ''Pulled remote changes for '' @ number (rp_scanned_root_count r) @ '' sync root(s)'')
        | Cmd_Status \<Rightarrow> cliStatus env
        | Cmd_DaemonStop \<Rightarrow> cliSimple env (makeRequest STOP) (\<lambda>_. ''Arkive Sync engine stopping'')
        | Cmd_SecureStorageSmoke \<Rightarrow> secureStorageSmoke env
        | Cmd_Daemon \<Rightarrow> ce_daemonRun env
        | Cmd_Unknown \<Rightarrow> bindE (info kUsage) (\<lambda>_. returnE 1))"

text \<open>\<open>main\<close>: what is thrown anywhere is printed, and the exit code is 1.\<close>

definition mainRun :: "('k, 'd) cli_env \<Rightarrow> string list \<Rightarrow> ('k, 'd, int) cli_act" where
  "mainRun env argv =
     catchE (bindE (liftE (\<lambda>_. ce_open env)) (\<lambda>_. appRun env argv))
       (\<lambda>e. bindE (info (''Fatal error: '' @ what e)) (\<lambda>_. returnE 1))"

section \<open>Facts\<close>

lemma main_app:
  assumes "ce_open env = Inr ()" and "appRun env argv s = (Inr code, s')"
  shows "mainRun env argv s = (Inr code, s')"
  using assms by (simp add: mainRun_def act_simps)

lemma cliSimple_ok:
  assumes "ce_request env request s = (Inr response, s')" and "rp_ok response"
  shows "cliSimple env request line s = (Inr 0, s'\<lparr>cl_out := cl_out s' @ [line response]\<rparr>)"
  using assms by (simp add: cliSimple_def requestOk_def act_simps info_def)

lemma forE_info:
  "forE xs (\<lambda>x. info (f x)) s = (Inr (), s\<lparr>cl_out := cl_out s @ map f xs\<rparr>)"
  by (induction xs arbitrary: s) (simp_all add: act_simps info_def)

lemma cliSyncList_ok:
  assumes "ce_request env (makeRequest SYNC_LIST) s = (Inr response, s')" and "rp_ok response" and "rp_sync_roots response \<noteq> []"
  shows "cliSyncList env s = (Inr 0, s'\<lparr>cl_out := cl_out s' @ map rootLine (rp_sync_roots response)\<rparr>)"
  using assms by (simp add: cliSyncList_def requestOk_def bindE_def [where m = "bindE x y" for x y] bindE_def [where m = "ce_request env q" for q]
      bindE_def [where m = "forE x y" for x y] bindE_def [where m = "returnE x" for x] forE_info returnE_def)

lemma clearPersistedSession_result:
  assumes "vault_laws env" and "account_inv (vt_account v)" and "clearPersistedSession env v = (Inr (), v')"
  shows "account_inv (vt_account v') \<and>
    (\<forall>a i. getAccount (vt_account v) = Some a \<and> acc_vaultSessionKeyId a = Some i \<and> i \<noteq> [] \<longrightarrow>
       fst (ve_loadSecret env kVaultSessionService i (vt_secrets v')) = Inr None)"
proof -
  obtain r where t: "vt_account v = [r]" and r: "ac_id r = 1" using assms(2) by (auto simp: account_inv_def)
  have acc: "getAccount [r] = Some (account_of r)" using r by (rule getAccount_single)
  show ?thesis
  proof (cases "\<exists>i. acc_vaultSessionKeyId (account_of r) = Some i \<and> i \<noteq> []")
    case False
    then have "v' = v" using assms(3) t acc by (auto simp: clearPersistedSession_def act_simps split: option.splits if_splits)
    then show ?thesis using False t acc assms(2) by auto
  next
    case True
    then obtain i where i: "acc_vaultSessionKeyId (account_of r) = Some i" "i \<noteq> []" by blast
    obtain k where k: "ve_deleteSecret env kVaultSessionService i (vt_secrets v) = (Inr (), k)"
      using assms(3) t acc i by (auto simp: clearPersistedSession_def act_simps onSecrets_def split: prod.splits sum.splits)
    have v': "v' = v\<lparr>vt_secrets := k, vt_account := [r\<lparr>ac_vault_session_key_id := None,
        ac_vault_session_blob := None, ac_updated_at := ve_clock env (vt_draws v)\<rparr>], vt_draws := Suc (vt_draws v)\<rparr>"
      using assms(3) t acc i k account_row_update(2) [of "[r]"] r
      by (auto simp: clearPersistedSession_def act_simps onSecrets_def onAccount_def account_inv_def)
    then show ?thesis using assms(1) k t acc i r by (auto simp: vault_laws_def account_inv_def)
  qed
qed

lemma storing_account:
  assumes "account_inv (vt_account v)"
  shows "\<exists>v'. onAccount env (\<lambda>now. upsertAccount now a) v = (Inr (), v') \<and> getAccount (vt_account v') = Some a \<and>
    vt_secrets v' = vt_secrets v"
proof -
  obtain t' where "upsertAccount (ve_clock env (vt_draws v)) a (vt_account v) = (Inr (), t')" "getAccount t' = Some a"
    using upsertAccount_inv [OF assms] by blast
  then show ?thesis by (simp add: onAccount_def)
qed

section \<open>Properties\<close>


text \<open>
  Changing the base URL forgets what belonged to the old server: a successful \<open>set-base-url\<close>
  with another URL leaves an account of that URL and nothing else, and the secret that unwrapped
  the saved vault session can no longer be loaded; with the same URL the account stays exactly as
  it was. A daemon that runs is not told in either case.
\<close>

theorem base_url_change_forgets_account:
  assumes "vault_laws (ce_vault env)" and "account_inv (vt_account (cl_vault s))"
    and "getAccount (vt_account (cl_vault s)) = Some a" and "setBaseUrl env url s = (Inr code, s')"
  shows "code = 0 \<and> cl_daemon s' = cl_daemon s \<and>
    getAccount (vt_account (cl_vault s')) = Some (if acc_baseUrl a = url then a else accountFor url) \<and>
    (acc_baseUrl a \<noteq> url \<longrightarrow> (\<forall>i. acc_vaultSessionKeyId a = Some i \<and> i \<noteq> [] \<longrightarrow>
       fst (ve_loadSecret (ce_vault env) kVaultSessionService i (vt_secrets (cl_vault s'))) = Inr None))"
proof (cases "acc_baseUrl a = url")
  case True
  then have same: "(accountFor url)\<lparr>acc_userId := acc_userId a, acc_email := acc_email a,
      acc_vaultSalt := acc_vaultSalt a, acc_encryptedMasterKey := acc_encryptedMasterKey a,
      acc_vaultSessionKeyId := acc_vaultSessionKeyId a, acc_vaultSessionBlob := acc_vaultSessionBlob a\<rparr> = a"
    by (simp add: accountFor_def)
  obtain v' where "onAccount (ce_vault env) (\<lambda>now. upsertAccount now a) (cl_vault s) = (Inr (), v')" "getAccount (vt_account v') = Some a"
    using storing_account [OF assms(2)] by blast
  then show ?thesis
    using assms(3,4) True same by (auto simp: setBaseUrl_def act_simps vaultC_def info_def)
next
  case False
  obtain v where clear: "clearPersistedSession (ce_vault env) (cl_vault s) = (Inr (), v)"
    using assms(3,4) False by (auto simp: setBaseUrl_def act_simps vaultC_def split: prod.splits sum.splits)
  note c = clearPersistedSession_result [OF assms(1,2) clear]
  obtain v' where st: "onAccount (ce_vault env) (\<lambda>now. upsertAccount now (accountFor url)) v = (Inr (), v')"
    "getAccount (vt_account v') = Some (accountFor url)" "vt_secrets v' = vt_secrets v"
    using storing_account [of v] c by blast
  have "s' = s\<lparr>cl_vault := v', cl_out := cl_out s @ [''Base URL updated'']\<rparr>" "code = 0"
    using assms(3,4) False clear st(1) by (auto simp: setBaseUrl_def act_simps vaultC_def info_def)
  then show ?thesis using False c st assms(3) by simp
qed

text \<open>A terminal that talks to the sample daemon.\<close>

definition demo_cli_env :: "((string \<times> bytes) list, (unit, string) node) cli_env" where
  "demo_cli_env =
     \<lparr>ce_open = Inr (), ce_vault = sample_vault_env,
      ce_request = \<lambda>q s.
        (case serveRequest 0 demo_node_env q (cl_daemon s) of
           (Inr (Some r), n) \<Rightarrow> (Inr r, s\<lparr>cl_daemon := n\<rparr>)
         | (_, n) \<Rightarrow> (Inl (Runtime_error ''IPC read failed''), s\<lparr>cl_daemon := n\<rparr>)),
      ce_getenv = \<lambda>_. None, ce_readLine = [], ce_readPassword = \<lambda>_. Inr [], ce_daemonRun = returnE 0\<rparr>"

definition demo_cli :: "((string \<times> bytes) list, (unit, string) node) cli" where
  "demo_cli = \<lparr>cl_vault = sample_vault None, cl_daemon = demo_node, cl_out = []\<rparr>"


theorem base_url_change_forgets_account_witness:
  "\<exists>s'. setBaseUrl demo_cli_env ''https://b'' demo_cli = (Inr 0, s') \<and>
    getAccount (vt_account (cl_vault s')) = Some (accountFor ''https://b'')"
proof -
  let ?a = "account_of (hd (vt_account (sample_vault None)))"
  have acc: "getAccount (vt_account (cl_vault demo_cli)) = Some ?a" and ne: "acc_baseUrl ?a \<noteq> ''https://b''" by code_simp+
  have laws: "vault_laws (ce_vault demo_cli_env)" using sample_vault_laws by (simp add: demo_cli_env_def)
  have inv: "account_inv (vt_account (cl_vault demo_cli))" using sample_vault_inv by (simp add: demo_cli_def)
  have "fst (setBaseUrl demo_cli_env ''https://b'' demo_cli) = Inr 0" by code_simp
  then obtain s' where s': "setBaseUrl demo_cli_env ''https://b'' demo_cli = (Inr 0, s')" by (metis fst_conv surj_pair)
  show ?thesis using base_url_change_forgets_account [OF laws inv acc s'] s' ne by auto
qed

end
