(* ===== verification/Http_Client.thy ===== *)
theory Http_Client
  imports Auth_Service Download
begin

text \<open>
  The HTTP client: the requests of networking/curl.cpp, with what each makes of the status and
  the body of the answer, and the addresses of api/ArkiveHttpClient.cpp. A transfer by libcurl
  is a parameter that acts on the network, the cookies included; locks, the sharing of cookies
  between handles and the release of handles are left out. Storage uploads are in
  \<open>Storage_Put\<close>.
\<close>

section \<open>Transfers\<close>

text \<open>The options a handle is given before the transfer.\<close>

record http_request =
  hq_method :: string
  hq_url :: string
  hq_headers :: "string list"
  hq_body :: "string option"
  hq_range :: "string option"
  hq_follow :: bool

text \<open>
  How a transfer ends: the message of libcurl if it failed, the status of the answer, and the
  pieces of the body the write callback was called with.
\<close>

record http_answer =
  ha_error :: "string option"
  ha_status :: int
  ha_pieces :: "string list"

record 'net curl_env =
  cu_easyInit :: "'net \<Rightarrow> bool"
  cu_slistAppend :: "string \<Rightarrow> 'net \<Rightarrow> bool"
  cu_perform :: "http_request \<Rightarrow> 'net \<Rightarrow> http_answer \<times> 'net"
  cu_dump :: "json \<Rightarrow> string result"
  cu_parse :: "string \<Rightarrow> json result"

text \<open>\<open>std::string::c_str\<close> as a C function reads it.\<close>

definition c_str :: "string \<Rightarrow> string" where
  "c_str = takeWhile (\<lambda>c. c \<noteq> CHR 0x00)"

definition makeCurlHandle :: "'net curl_env \<Rightarrow> ('net, unit) act" where
  "makeCurlHandle env =
     liftE (\<lambda>n. if cu_easyInit env n then Inr () else Inl (Runtime_error ''failed to initialize curl''))"

definition appendHeader :: "'net curl_env \<Rightarrow> string list \<Rightarrow> string \<Rightarrow> ('net, string list) act" where
  "appendHeader env headers header =
     liftE (\<lambda>n. if cu_slistAppend env header n then Inr (headers @ [header])
                else Inl (Runtime_error ''failed to append curl header''))"

definition easyPerform :: "'net curl_env \<Rightarrow> http_request \<Rightarrow> ('net, http_answer) act" where
  "easyPerform env q n = (case cu_perform env q n of (a, n') \<Rightarrow> (Inr a, n'))"

definition writeCallback :: "string \<Rightarrow> string \<Rightarrow> string" where
  "writeCallback output piece = output @ piece"

definition collected :: "http_answer \<Rightarrow> string" where
  "collected a = foldl writeCallback [] (ha_pieces a)"

lemma collected_concat: "collected a = concat (ha_pieces a)"
proof -
  have "foldl writeCallback out ps = out @ concat ps" for out ps
    by (induction ps arbitrary: out) (simp_all add: writeCallback_def)
  then show ?thesis by (simp add: collected_def)
qed

section \<open>CurlService\<close>

text \<open>The checks after a transfer: an error of the library, then the status.\<close>

definition checkAnswer :: "'net curl_env \<Rightarrow> int \<Rightarrow> string \<Rightarrow> http_answer \<Rightarrow> unit result" where
  "checkAnswer env limit response a =
     (case ha_error a of
        Some message \<Rightarrow> Inl (Runtime_error message)
      | None \<Rightarrow>
          if ha_status a < 200 \<or> limit \<le> ha_status a then Inl (HttpError (cu_parse env) (ha_status a) response)
          else Inr ())"

definition readJson :: "'net curl_env \<Rightarrow> string \<Rightarrow> json result" where
  "readJson env response = (if response = [] then Inr (JObject []) else cu_parse env response)"

definition curlPostJson :: "'net curl_env \<Rightarrow> string \<Rightarrow> json \<Rightarrow> ('net, json) act" where
  "curlPostJson env requestUrl body =
     bindE (makeCurlHandle env) (\<lambda>_.
     bindE (liftE (\<lambda>_. cu_dump env body)) (\<lambda>bodyText.
     bindE (appendHeader env [] ''Content-Type: application/json'') (\<lambda>headers.
     bindE (appendHeader env headers ''Accept: application/json'') (\<lambda>headers.
     bindE (easyPerform env \<lparr>hq_method = ''POST'', hq_url = c_str requestUrl, hq_headers = headers,
              hq_body = Some bodyText, hq_range = None, hq_follow = False\<rparr>) (\<lambda>a.
     bindE (liftE (\<lambda>_. checkAnswer env 300 (collected a) a)) (\<lambda>_.
     liftE (\<lambda>_. readJson env (collected a))))))))"

definition curlGetJson :: "'net curl_env \<Rightarrow> string \<Rightarrow> ('net, json) act" where
  "curlGetJson env requestUrl =
     bindE (makeCurlHandle env) (\<lambda>_.
     bindE (appendHeader env [] ''Accept: application/json'') (\<lambda>headers.
     bindE (easyPerform env \<lparr>hq_method = ''GET'', hq_url = c_str requestUrl, hq_headers = headers,
              hq_body = None, hq_range = None, hq_follow = False\<rparr>) (\<lambda>a.
     bindE (liftE (\<lambda>_. checkAnswer env 300 (collected a) a)) (\<lambda>_.
     liftE (\<lambda>_. readJson env (collected a))))))"

definition curlPostForm :: "'net curl_env \<Rightarrow> string \<Rightarrow> ('net, unit) act" where
  "curlPostForm env requestUrl =
     bindE (makeCurlHandle env) (\<lambda>_.
     bindE (easyPerform env \<lparr>hq_method = ''POST'', hq_url = c_str requestUrl, hq_headers = [],
              hq_body = Some [], hq_range = None, hq_follow = True\<rparr>) (\<lambda>a.
     liftE (\<lambda>_. checkAnswer env 400 (collected a) a)))"

text \<open>
  The sink gets the pieces as they arrive, before the status is known; the string \<open>response\<close> is
  never written, so the error of a refused range has no body.
\<close>

definition onNet :: "('net, 'a) act \<Rightarrow> ('net \<times> 'k, 'a) act" where
  "onNet m s = (case m (fst s) of (x, n) \<Rightarrow> (x, (n, snd s)))"

definition onSink :: "('k, 'a) act \<Rightarrow> ('net \<times> 'k, 'a) act" where
  "onSink m s = (case m (snd s) of (x, k) \<Rightarrow> (x, (fst s, k)))"

definition rangeText :: "64 word \<Rightarrow> 64 word \<Rightarrow> string" where
  "rangeText off len = nat_to_string (unat off) @ ''-'' @ nat_to_string (unat (off + len - 1))"

definition curlGetRangeToSink ::
    "'net curl_env \<Rightarrow> string \<Rightarrow> 64 word \<Rightarrow> 64 word \<Rightarrow> (bytes \<Rightarrow> ('k, unit) act) \<Rightarrow> ('net \<times> 'k, unit) act" where
  "curlGetRangeToSink env requestUrl off len sink =
     (if len = 0 then returnE ()
      else
        bindE (onNet (makeCurlHandle env)) (\<lambda>_.
        bindE (onNet (easyPerform env \<lparr>hq_method = ''GET'', hq_url = c_str requestUrl, hq_headers = [],
                 hq_body = None, hq_range = Some (rangeText off len), hq_follow = False\<rparr>)) (\<lambda>a.
        bindE (forE (ha_pieces a) (\<lambda>piece. onSink (sink (toBytes piece)))) (\<lambda>_.
        liftE (\<lambda>_. case ha_error a of
            Some message \<Rightarrow> Inl (Runtime_error message)
          | None \<Rightarrow> if ha_status a \<noteq> 206 then Inl (HttpError (cu_parse env) (ha_status a) []) else Inr ())))))"

section \<open>ArkiveHttpClient\<close>

definition clientUrl :: "string \<Rightarrow> string \<Rightarrow> string" where
  "clientUrl baseUrl path =
     (if take 7 path = ''http://'' \<or> take 8 path = ''https://'' then path
      else if path \<noteq> [] \<and> path ! 0 = CHR ''/'' then baseUrl @ path
      else baseUrl @ ''/'' @ path)"

record 'net http_client =
  hc_baseUrl :: string
  hc_curl :: "'net curl_env"

definition postJson :: "'net http_client \<Rightarrow> string \<Rightarrow> json \<Rightarrow> ('net, json) act" where
  "postJson c path body = curlPostJson (hc_curl c) (clientUrl (hc_baseUrl c) path) body"

definition getJson :: "'net http_client \<Rightarrow> string \<Rightarrow> ('net, json) act" where
  "getJson c path = curlGetJson (hc_curl c) (clientUrl (hc_baseUrl c) path)"

definition postForm :: "'net http_client \<Rightarrow> string \<Rightarrow> ('net, unit) act" where
  "postForm c path = curlPostForm (hc_curl c) (clientUrl (hc_baseUrl c) path)"

definition getRangeToSink ::
    "'net http_client \<Rightarrow> string \<Rightarrow> 64 word \<Rightarrow> 64 word \<Rightarrow> (bytes \<Rightarrow> ('k, unit) act) \<Rightarrow> ('net \<times> 'k, unit) act" where
  "getRangeToSink c pathOrUrl off len sink =
     curlGetRangeToSink (hc_curl c) (clientUrl (hc_baseUrl c) pathOrUrl) off len sink"

text \<open>What \<open>DownloadService::downloadFile\<close> does with a range: the sink appends to a buffer.\<close>

definition fetchRange :: "'net http_client \<Rightarrow> string \<Rightarrow> 64 word \<Rightarrow> 64 word \<Rightarrow> ('net, bytes) act" where
  "fetchRange c sourceUrl off len n =
     (case getRangeToSink c sourceUrl off len (\<lambda>piece encrypted. (Inr (), encrypted @ piece)) (n, []) of
        (Inl e, (n', _)) \<Rightarrow> (Inl e, n')
      | (Inr _, (n', encrypted)) \<Rightarrow> (Inr encrypted, n'))"

section \<open>Facts\<close>

text \<open>What a JSON request makes of the answer to its transfer.\<close>

definition jsonVerdict :: "'net curl_env \<Rightarrow> http_answer \<Rightarrow> json result" where
  "jsonVerdict env a =
     (case ha_error a of
        Some message \<Rightarrow> Inl (Runtime_error message)
      | None \<Rightarrow>
          (if 200 \<le> ha_status a \<and> ha_status a < 300 then readJson env (concat (ha_pieces a))
           else Inl (HttpError (cu_parse env) (ha_status a) (concat (ha_pieces a)))))"

definition available :: "'net curl_env \<Rightarrow> bool" where
  "available env \<longleftrightarrow> (\<forall>n h. cu_easyInit env n \<and> cu_slistAppend env h n)"

definition getRequest :: "string \<Rightarrow> http_request" where
  "getRequest requestUrl =
     \<lparr>hq_method = ''GET'', hq_url = c_str requestUrl, hq_headers = [''Accept: application/json''],
      hq_body = None, hq_range = None, hq_follow = False\<rparr>"

definition postRequest :: "string \<Rightarrow> string \<Rightarrow> http_request" where
  "postRequest requestUrl bodyText =
     \<lparr>hq_method = ''POST'', hq_url = c_str requestUrl,
      hq_headers = [''Content-Type: application/json'', ''Accept: application/json''],
      hq_body = Some bodyText, hq_range = None, hq_follow = False\<rparr>"

definition rangeRequest :: "string \<Rightarrow> string \<Rightarrow> http_request" where
  "rangeRequest requestUrl rng =
     \<lparr>hq_method = ''GET'', hq_url = c_str requestUrl, hq_headers = [], hq_body = None, hq_range = Some rng,
      hq_follow = False\<rparr>"

lemma bindE_liftE: "bindE (liftE g) f n = (case g n of Inl e \<Rightarrow> (Inl e, n) | Inr x \<Rightarrow> f x n)"
  by (simp add: act_simps split: sum.splits)

lemma bindE_easyPerform: "bindE (easyPerform env q) f n = (case cu_perform env q n of (a, n') \<Rightarrow> f a n')"
  by (simp add: easyPerform_def bindE_def split: prod.splits)

lemmas transfer_steps = makeCurlHandle_def appendHeader_def bindE_liftE bindE_easyPerform

lemma verdict_of_checks:
  "bindE (liftE (\<lambda>_. checkAnswer env 300 (collected a) a)) (\<lambda>_. liftE (\<lambda>_. readJson env (collected a))) n
     = (jsonVerdict env a, n)"
  by (auto simp: act_simps checkAnswer_def jsonVerdict_def collected_concat split: option.splits)

lemma curlGetJson_verdict:
  assumes "available env" and "cu_perform env (getRequest u) n = (a, n')"
  shows "curlGetJson env u n = (jsonVerdict env a, n')"
proof -
  have "curlGetJson env u n =
      bindE (liftE (\<lambda>_. checkAnswer env 300 (collected a) a)) (\<lambda>_. liftE (\<lambda>_. readJson env (collected a))) n'"
    using assms
    by (simp add: curlGetJson_def transfer_steps available_def getRequest_def)
  then show ?thesis by (simp add: verdict_of_checks)
qed

lemma curlPostJson_verdict:
  assumes "available env" and "cu_dump env body = Inr bodyText"
    and "cu_perform env (postRequest u bodyText) n = (a, n')"
  shows "curlPostJson env u body n = (jsonVerdict env a, n')"
proof -
  have "curlPostJson env u body n =
      bindE (liftE (\<lambda>_. checkAnswer env 300 (collected a) a)) (\<lambda>_. liftE (\<lambda>_. readJson env (collected a))) n'"
    using assms
    by (simp add: curlPostJson_def transfer_steps available_def postRequest_def)
  then show ?thesis by (simp add: verdict_of_checks)
qed

text \<open>
  An object store answers the range \<open>a-b\<close> of an object with status 206 and the bytes from \<open>a\<close> up
  to and including \<open>b\<close>, in pieces of its choice.
\<close>

definition answers_ranges :: "'net curl_env \<Rightarrow> string \<Rightarrow> bytes \<Rightarrow> bool" where
  "answers_ranges env u obj \<longleftrightarrow>
     (\<forall>n a b. a \<le> b \<longrightarrow> b < length obj \<longrightarrow>
        (\<exists>pieces n'. cu_perform env (rangeRequest u (nat_to_string a @ ''-'' @ nat_to_string b)) n =
             (\<lparr>ha_error = None, ha_status = 206, ha_pieces = pieces\<rparr>, n') \<and>
           concat (map toBytes pieces) = take (Suc b - a) (drop a obj)))"

lemma sink_pieces:
  "forE ps (\<lambda>piece. onSink ((\<lambda>p out. (Inr (), out @ p)) (toBytes piece))) (n, out) =
     (Inr (), (n, out @ concat (map toBytes ps)))"
  by (induction ps arbitrary: out) (simp_all add: act_simps onSink_def)

lemma fetchRange_answer:
  assumes "available (hc_curl c)" and "len \<noteq> 0"
    and "cu_perform (hc_curl c) (rangeRequest (clientUrl (hc_baseUrl c) u) (rangeText off len)) n =
           (\<lparr>ha_error = None, ha_status = 206, ha_pieces = pieces\<rparr>, n')"
  shows "fetchRange c u off len n = (Inr (concat (map toBytes pieces)), n')"
proof -
  let ?sink = "\<lambda>p out. (Inr (), out @ p)"
  have "getRangeToSink c u off len ?sink (n, []) =
      bindE (forE pieces (\<lambda>piece. onSink (?sink (toBytes piece)))) (\<lambda>_. liftE (\<lambda>_. Inr ())) (n', [])"
    using assms
    by (simp add: getRangeToSink_def curlGetRangeToSink_def bindE_def [where m = "onNet x" for x] onNet_def makeCurlHandle_def
        easyPerform_def liftE_def available_def rangeRequest_def)
  then show ?thesis
    using sink_pieces [of pieces n' "[]"] by (simp add: fetchRange_def bindE_def liftE_def)
qed

lemma fetchRange_slice:
  assumes "available (hc_curl c)" and "answers_ranges (hc_curl c) (clientUrl (hc_baseUrl c) u) obj"
    and "length obj < 2 ^ 64" and "unat off + unat len \<le> length obj"
  shows "fst (fetchRange c u off len n) = Inr (take (unat len) (drop (unat off) obj))"
proof (cases "len = 0")
  case True
  then show ?thesis by (simp add: fetchRange_def getRangeToSink_def curlGetRangeToSink_def act_simps)
next
  case False
  then have pos: "0 < unat len" by (simp add: unat_gt_0)
  have "unat (off + len) = unat off + unat len"
    using assms(3,4) by (subst unat_add_lem [THEN iffD1]) auto
  then have last: "unat (off + len - 1) = unat off + unat len - 1"
    using pos by (subst unat_minus_one) auto
  let ?b = "unat off + unat len - 1"
  have "unat off \<le> ?b" and "?b < length obj" using pos assms(4) by linarith+
  then obtain pieces n' where p: "cu_perform (hc_curl c) (rangeRequest (clientUrl (hc_baseUrl c) u)
        (nat_to_string (unat off) @ ''-'' @ nat_to_string ?b)) n =
      (\<lparr>ha_error = None, ha_status = 206, ha_pieces = pieces\<rparr>, n')"
      and c: "concat (map toBytes pieces) = take (Suc ?b - unat off) (drop (unat off) obj)"
    using assms(2) unfolding answers_ranges_def by blast
  have "Suc ?b - unat off = unat len" using pos by linarith
  then show ?thesis
    using fetchRange_answer [OF assms(1) False, of u off n pieces n'] p c by (simp add: rangeText_def last)
qed

section \<open>Properties\<close>

text \<open>An object store that answers as \<open>answers_ranges\<close> demands, and refuses every other request.\<close>

definition slice :: "string \<Rightarrow> bytes \<Rightarrow> bytes" where
  "slice rng obj =
     (let a = string_to_nat (takeWhile (\<lambda>c. c \<noteq> CHR ''-'') rng);
          b = string_to_nat (tl (dropWhile (\<lambda>c. c \<noteq> CHR ''-'') rng))
      in take (Suc b - a) (drop a obj))"

definition objectStore :: "bytes \<Rightarrow> nat curl_env" where
  "objectStore obj =
     \<lparr>cu_easyInit = \<lambda>_. True, cu_slistAppend = \<lambda>_ _. True,
      cu_perform = \<lambda>q n.
        (case hq_range q of
           Some rng \<Rightarrow> (\<lparr>ha_error = None, ha_status = 206, ha_pieces = map (\<lambda>b. fromBytes [b]) (slice rng obj)\<rparr>, Suc n)
         | None \<Rightarrow> (\<lparr>ha_error = None, ha_status = 403, ha_pieces = []\<rparr>, Suc n)),
      cu_dump = \<lambda>_. Inr [], cu_parse = \<lambda>_. Inl (Json_error [])\<rparr>"

definition demo_denv :: download_env where
  "demo_denv =
     \<lparr>de_crypto = ue_crypto sample_env, de_masterKey = Inr [9], de_parse = \<lambda>_. Inl (Json_error []),
      de_getFileRecord = \<lambda>_. Inl (Runtime_error []), de_getRange = \<lambda>_ _ _. Inr []\<rparr>"

lemma toBytes_fromBytes: "toBytes (fromBytes bs) = bs"
proof -
  have "(of_char (char_of (unat b)) :: 8 word) = b" for b :: "8 word"
  proof -
    have "(of_char (char_of (unat b)) :: 8 word) = of_nat (of_char (char_of (unat b)))" by (simp only: of_nat_of_char)
    also have "\<dots> = of_nat (unat b mod 256)" by (simp only: of_char_of)
    also have "unat b mod 256 = unat b" proof -
      have "unat b < 256" using unsigned_less [of b] by simp
      then show ?thesis by simp
    qed
    finally show ?thesis by simp
  qed
  then show ?thesis by (induction bs) (simp_all add: fromBytes_def toBytes_def)
qed

lemma slice_range:
  "slice (nat_to_string a @ ''-'' @ nat_to_string b) obj = take (Suc b - a) (drop a obj)"
proof -
  have all: "\<forall>c\<in>set (nat_to_string a). c \<noteq> CHR ''-''" using nat_to_string_chars by blast
  then have "takeWhile (\<lambda>c. c \<noteq> CHR ''-'') (nat_to_string a @ ''-'' @ nat_to_string b) = nat_to_string a"
    and "dropWhile (\<lambda>c. c \<noteq> CHR ''-'') (nat_to_string a @ ''-'' @ nat_to_string b) = ''-'' @ nat_to_string b"
    by simp_all
  then show ?thesis by (simp add: slice_def string_to_nat_round_trip)
qed

lemma pieces_of_bytes: "concat (map toBytes (map (\<lambda>b. fromBytes [b]) bs)) = bs"
  by (induction bs) (simp_all add: toBytes_fromBytes)

lemma objectStore_answers: "answers_ranges (objectStore obj) u obj"
  by (simp add: answers_ranges_def objectStore_def rangeRequest_def slice_range [simplified] pieces_of_bytes [unfolded map_map])

text \<open>
  C25. Downloads over HTTP get the ranges they ask for: when the storage answers range requests
  for an object as the HTTP standard says, with status 206 and the bytes from the first to the
  last one named, in whatever pieces, then the client's range request, with its inclusive upper
  end computed in 64 bits, gives the download service exactly the bytes of each chunk, the empty
  chunk included, for which no request is made.
\<close>

theorem http_ranges_serve_downloads:
  assumes "available (hc_curl c)" and "answers_ranges (hc_curl c) (clientUrl (hc_baseUrl c) sourceUrl) obj"
    and "length obj < 2 ^ 64"
  shows "serves (denv\<lparr>de_getRange := \<lambda>u off len. fst (fetchRange c u off len n)\<rparr>) sourceUrl obj"
  using fetchRange_slice [OF assms] by (simp add: serves_def)

theorem http_ranges_serve_downloads_witness:
  "serves (demo_denv\<lparr>de_getRange := \<lambda>u off len.
      fst (fetchRange \<lparr>hc_baseUrl = ''https://a'', hc_curl = objectStore [1, 2, 3]\<rparr> u off len 0)\<rparr>) ''/o'' [1, 2, 3]"
proof -
  let ?c = "\<lparr>hc_baseUrl = ''https://a'', hc_curl = objectStore [1, 2, 3]\<rparr>"
  have "available (hc_curl ?c)" by (simp add: available_def objectStore_def)
  moreover have "answers_ranges (hc_curl ?c) (clientUrl (hc_baseUrl ?c) ''/o'') [1, 2, 3]"
    by (simp add: objectStore_answers)
  ultimately show ?thesis using http_ranges_serve_downloads [where c = ?c and denv = demo_denv and n = 0] by simp
qed

text \<open>
  The sink has the body of an answer before its status is looked at: when the storage refuses a
  range, the bytes of its error page are in the caller's buffer, and the error thrown has no
  text, since \<open>response\<close> is never written.
\<close>

lemma refused_range_error:
  assumes "available (hc_curl c)" and "len \<noteq> 0"
    and "cu_perform (hc_curl c) (rangeRequest (clientUrl (hc_baseUrl c) u) (rangeText off len)) n =
           (\<lparr>ha_error = None, ha_status = 403, ha_pieces = [page]\<rparr>, n')"
  shows "getRangeToSink c u off len (\<lambda>piece out. (Inr (), out @ piece)) (n, out) =
    (Inl (Http_error 403 ''HTTP 403''), (n', out @ toBytes page))"
proof -
  have "HttpError p 403 [] = Http_error 403 ''HTTP 403''" for p
    by (simp add: HttpError_def buildMessage_def extractApiErrorMessage_def) code_simp
  then show ?thesis
    using assms
    by (simp add: getRangeToSink_def curlGetRangeToSink_def bindE_def [where m = "onNet x" for x] onNet_def makeCurlHandle_def
        easyPerform_def liftE_def available_def rangeRequest_def) (simp add: act_simps onSink_def)
qed

end
