(* ===== verification/Arkive_Api.thy ===== *)
theory Arkive_Api
  imports Upload_Service Remote_Scanner Http_Client "HOL-Library.AList"
begin

text \<open>
  The requests to the server (api/ArkiveApi.cpp): the address, the document sent and how the
  answer is read, each over the HTTP client. A JSON object is written with its members in the
  order of the source; the library keeps them sorted by name, which matters only where the code
  walks over them.
\<close>

section \<open>Reading numbers\<close>

text \<open>
  \<open>get<int64_t>()\<close> and \<open>get<int>()\<close>. Only the latter takes a Boolean. A floating-point number is
  known by its conversion to 64 bits, as in \<open>Manifest\<close>.
\<close>

fun get_i64 :: "json \<Rightarrow> 64 word result" where
  "get_i64 (JInt i) = Inr (word_of_int i)"
| "get_i64 (JFloat w) = Inr w"
| "get_i64 _ = Inl (Json_error ''type must be number'')"

fun get_int :: "json \<Rightarrow> 32 word result" where
  "get_int (JInt i) = Inr (word_of_int i)"
| "get_int (JFloat w) = Inr (ucast w)"
| "get_int (JBool b) = Inr (if b then 1 else 0)"
| "get_int _ = Inl (Json_error ''type must be number'')"

text \<open>\<open>std::stoi\<close>: as \<open>std::stoll\<close>, with the bounds of a 32-bit integer.\<close>

definition stoi :: "string \<Rightarrow> int result" where
  "stoi s =
     (case stoll s of
        Inl (Invalid_argument _) \<Rightarrow> Inl (Invalid_argument ''stoi'')
      | Inl _ \<Rightarrow> Inl (Out_of_range ''stoi'')
      | Inr n \<Rightarrow> if n < - (2 ^ 31) \<or> 2 ^ 31 \<le> n then Inl (Out_of_range ''stoi'') else Inr n)"

text \<open>\<open>contains\<close>, the members of an object in the order the library walks over them, and \<open>json[key] = v\<close>.\<close>

definition json_contains :: "json \<Rightarrow> string \<Rightarrow> bool" where
  "json_contains j key = (case j of JObject kvs \<Rightarrow> key \<in> fst ` set kvs | _ \<Rightarrow> False)"

definition json_items :: "(string \<times> json) list \<Rightarrow> (string \<times> json) list" where
  "json_items kvs = sort_key fst kvs"

fun json_set :: "json \<Rightarrow> string \<Rightarrow> json \<Rightarrow> json" where
  "json_set (JObject kvs) key v = JObject (AList.update key v kvs)"
| "json_set j key v = j"

section \<open>Answers\<close>

definition decodeUploadLimitsResponse :: "json \<Rightarrow> UploadLimitsResponse result" where
  "decodeUploadLimitsResponse j =
     bindR (json_value get_int j ''maxQueueItems'' 0) (\<lambda>maxQueueItems.
     bindR (json_value get_int j ''partConcurrency'' 0) (\<lambda>partConcurrency.
     bindR (json_value get_int j ''staleUploadHours'' 0) (\<lambda>staleUploadHours.
       Inr \<lparr>ul_maxQueueItems = maxQueueItems, ul_partConcurrency = partConcurrency,
            ul_staleUploadHours = staleUploadHours\<rparr>)))"

definition decodeStartUploadResponse :: "json \<Rightarrow> StartUploadResponse result" where
  "decodeStartUploadResponse j =
     bindR (json_value get_string j ''fileId'' []) (\<lambda>fileId.
     bindR (json_value get_string j ''vaultId'' []) (\<lambda>vaultId.
     bindR (json_value get_string j ''uploadSessionId'' []) (\<lambda>uploadSessionId.
     bindR (json_value get_string j ''providerUploadId'' []) (\<lambda>providerUploadId.
     bindR (json_value get_i64 j ''fileChunkSize'' 0) (\<lambda>chunkSize.
     bindR (json_value get_int j ''totalChunks'' 0) (\<lambda>chunks.
     bindR (json_value get_i64 j ''uploadPartSize'' 0) (\<lambda>partSize.
     bindR (json_value get_int j ''uploadPartCount'' 0) (\<lambda>partCount.
     bindR (json_value get_string j ''uploadUrl'' []) (\<lambda>uploadUrl.
       Inr \<lparr>su_fileId = fileId, su_vaultId = vaultId, su_uploadSessionId = uploadSessionId,
            su_providerUploadId = providerUploadId, su_fileChunkSize = chunkSize, su_totalChunks = chunks,
            su_uploadPartSize = partSize, su_uploadPartCount = partCount, su_uploadUrl = uploadUrl\<rparr>)))))))))"

text \<open>\<open>emplace\<close> keeps the value a key has already.\<close>

fun emplaceUrls :: "(string \<times> json) list \<Rightarrow> (32 word \<rightharpoonup> string) \<Rightarrow> (32 word \<rightharpoonup> string) result" where
  "emplaceUrls [] urls = Inr urls"
| "emplaceUrls ((key, value) # rest) urls =
     bindR (stoi key) (\<lambda>n.
     bindR (get_string value) (\<lambda>u.
       emplaceUrls rest (if urls (word_of_int n) = None then urls(word_of_int n \<mapsto> u) else urls)))"

definition decodePresignPartsResponse :: "json \<Rightarrow> (32 word \<rightharpoonup> string) result" where
  "decodePresignPartsResponse j =
     (case j of
        JObject kvs \<Rightarrow>
          (case map_of kvs ''urls'' of
             Some (JObject us) \<Rightarrow> emplaceUrls (json_items us) Map.empty
           | _ \<Rightarrow> Inr Map.empty)
      | _ \<Rightarrow> Inr Map.empty)"

definition encodeSearchTokens :: "UploadCompleteSearchToken list \<Rightarrow> json" where
  "encodeSearchTokens tokens =
     JArray (map (\<lambda>t. JObject [(''token'', JString (tk_token t)), (''field'', JString (tk_field t)),
                               (''weight'', JInt (tk_weight t))]) tokens)"

definition decodeCreateFolderResponse :: "json \<Rightarrow> CreateFolderResponse result" where
  "decodeCreateFolderResponse j =
     (let folder = (case j of
          JObject kvs \<Rightarrow> (case map_of kvs ''folder'' of Some (JObject f) \<Rightarrow> JObject f | _ \<Rightarrow> JObject [])
        | _ \<Rightarrow> JObject []) in
      bindR (json_value get_string folder ''id'' []) (\<lambda>i.
      bindR (optionalString folder ''parentFolderId'') (\<lambda>parent.
      bindR (json_value get_string folder ''encryptedName'' []) (\<lambda>name.
      bindR (optionalString folder ''encryptedMetadata'') (\<lambda>metadata.
        Inr \<lparr>cr_id = i, cr_parentFolderId = parent, cr_encryptedName = name, cr_encryptedMetadata = metadata\<rparr>)))))"

text \<open>The version of the encryption is read, as a 16-bit integer, and not used by any caller.\<close>

definition decodeFileRecordResponse :: "json \<Rightarrow> FileRecordResponse result" where
  "decodeFileRecordResponse j =
     bindR (json_value get_string j ''fileId'' []) (\<lambda>fileId.
     bindR (json_value get_string j ''vaultId'' []) (\<lambda>vaultId.
     bindR (json_value get_int j ''encryptionVersion'' 0) (\<lambda>_.
     bindR (json_value get_i64 j ''chunkSize'' 0) (\<lambda>chunkSize.
     bindR (json_value get_int j ''totalChunks'' 0) (\<lambda>chunks.
     bindR (json_value get_i64 j ''plaintextSize'' 0) (\<lambda>plaintextSize.
     bindR (json_value get_string j ''encryptedHash'' []) (\<lambda>encryptedHash.
     bindR (json_value get_string j ''encryptedMetadata'' []) (\<lambda>encryptedMetadata.
     bindR (json_value get_string j ''encryptedFileKey'' []) (\<lambda>encryptedFileKey.
     bindR (json_value get_string j ''encryptedManifest'' []) (\<lambda>encryptedManifest.
     bindR (json_value get_string j ''sourceUrl'' []) (\<lambda>sourceUrl.
       Inr \<lparr>fr_fileId = fileId, fr_vaultId = vaultId, fr_chunkSize = chunkSize, fr_totalChunks = chunks,
            fr_plaintextSize = plaintextSize, fr_encryptedHash = encryptedHash,
            fr_encryptedMetadata = encryptedMetadata, fr_encryptedFileKey = encryptedFileKey,
            fr_encryptedManifest = encryptedManifest, fr_sourceUrl = sourceUrl\<rparr>)))))))))))"

definition decodeValidationErrors :: "json \<Rightarrow> (string \<times> string) list" where
  "decodeValidationErrors j =
     (case j of
        JObject kvs \<Rightarrow>
          List.map_filter (\<lambda>(key, value). case value of JString s \<Rightarrow> Some (key, s) | _ \<Rightarrow> None) (json_items kvs)
      | _ \<Rightarrow> [])"

definition decodeLoginResponse :: "json \<Rightarrow> LoginResponse result" where
  "decodeLoginResponse j =
     bindR (json_value get_string j ''salt'' []) (\<lambda>salt.
     bindR (json_value get_string j ''encryptedMasterKey'' []) (\<lambda>key.
       Inr \<lparr>lr_salt = salt, lr_encryptedMasterKey = key\<rparr>))"

section \<open>Requests\<close>

definition jsonOption :: "string option \<Rightarrow> json" where
  "jsonOption x = (case x of None \<Rightarrow> JNull | Some s \<Rightarrow> JString s)"

definition encodeStartUploadRequest :: "StartUploadRequest \<Rightarrow> json" where
  "encodeStartUploadRequest q =
     JObject [(''originalSize'', JInt (sint (sq_originalSize q))),
              (''fileChunkSize'', JInt (sint (sq_fileChunkSize q))),
              (''totalChunks'', JInt (sint (sq_totalChunks q))),
              (''uploadPartSize'', JInt (sint (sq_uploadPartSize q))),
              (''uploadPartCount'', JInt (sint (sq_uploadPartCount q))),
              (''encryptionVersion'', JInt (sint (sq_encryptionVersion q))),
              (''folderId'', jsonOption (sq_folderId q)),
              (''singlePart'', JBool (sq_singlePart q))]"

definition encodeUploadCompleteRequest :: "UploadCompleteRequest \<Rightarrow> json" where
  "encodeUploadCompleteRequest q =
     JObject [(''encryptedMetadata'', JString (cq_encryptedMetadata q)),
              (''encryptedFileKey'', JString (cq_encryptedFileKey q)),
              (''encryptedManifest'', JString (cq_encryptedManifest q)),
              (''encryptedHash'', JString (cq_encryptedHash q)),
              (''searchTokens'', encodeSearchTokens (cq_searchTokens q)),
              (''hasThumbnail'', JBool (cq_hasThumbnail q)),
              (''thumbnailMime'', JString (cq_thumbnailMime q)),
              (''thumbnailWidth'', JInt (cq_thumbnailWidth q)),
              (''thumbnailHeight'', JInt (cq_thumbnailHeight q)),
              (''thumbnailSize'', JInt (int (cq_thumbnailSize q)))]"

text \<open>A request whose answer is decoded.\<close>

definition decoded :: "('net, json) act \<Rightarrow> (json \<Rightarrow> 'a result) \<Rightarrow> ('net, 'a) act" where
  "decoded m dec = bindE m (\<lambda>j. liftE (\<lambda>_. dec j))"

definition api_login :: "'net http_client \<Rightarrow> string \<Rightarrow> string \<Rightarrow> ('net, LoginResponse) act" where
  "api_login c email password =
     decoded (postJson c ''/api/auth/login''
       (JObject [(''email'', JString email), (''password'', JString password)])) decodeLoginResponse"

definition api_unlockVault :: "'net http_client \<Rightarrow> string \<Rightarrow> ('net, LoginResponse) act" where
  "api_unlockVault c password =
     decoded (postJson c ''/api/auth/unlock'' (JObject [(''password'', JString password)])) decodeLoginResponse"

definition api_logout :: "'net http_client \<Rightarrow> ('net, unit) act" where
  "api_logout c = postForm c ''/logout''"

definition api_me :: "'net http_client \<Rightarrow> ('net, json) act" where
  "api_me c = getJson c ''/api/me''"

definition api_uploadLimits :: "'net http_client \<Rightarrow> ('net, UploadLimitsResponse) act" where
  "api_uploadLimits c = decoded (getJson c ''/api/uploads/limits'') decodeUploadLimitsResponse"

definition api_createFolder :: "'net http_client \<Rightarrow> CreateFolderRequest \<Rightarrow> ('net, CreateFolderResponse) act" where
  "api_createFolder c q =
     decoded (postJson c ''/api/folders''
       (JObject [(''parentFolderId'', jsonOption (cf_parentFolderId q)),
                 (''encryptedName'', JString (cf_encryptedName q)),
                 (''encryptedMetadata'', JString (cf_encryptedMetadata q)),
                 (''searchTokens'', encodeSearchTokens (cf_searchTokens q))])) decodeCreateFolderResponse"

definition api_startUpload :: "'net http_client \<Rightarrow> StartUploadRequest \<Rightarrow> ('net, StartUploadResponse) act" where
  "api_startUpload c q =
     decoded (postJson c ''/api/uploads/start'' (encodeStartUploadRequest q)) decodeStartUploadResponse"

text \<open>An item of a batch: started only if the server names no error and a session.\<close>

definition decodeBatchStart :: "json \<Rightarrow> BatchStartUploadResult result" where
  "decodeBatchStart item =
     bindR (json_value get_string item ''clientId'' []) (\<lambda>clientId.
     bindR (json_value get_string item ''error'' []) (\<lambda>err.
     bindR (json_value Inr item ''validationErrors'' (JObject [])) (\<lambda>ve.
     let errors = decodeValidationErrors ve in
     bindR (if err = [] \<and> errors = [] \<and> json_contains item ''uploadSessionId''
            then bindR (decodeStartUploadResponse item) (\<lambda>u. Inr (Some u)) else Inr None) (\<lambda>upload.
       Inr \<lparr>bsr_clientId = clientId, bsr_upload = upload, bsr_error = err, bsr_validationErrors = errors\<rparr>))))"

definition decodeBatchComplete :: "json \<Rightarrow> BatchCompleteUploadResult result" where
  "decodeBatchComplete item =
     bindR (json_value get_string item ''clientId'' []) (\<lambda>clientId.
     bindR (json_value get_bool item ''completed'' False) (\<lambda>completed.
     bindR (json_value get_string item ''error'' []) (\<lambda>err.
       Inr \<lparr>bcr_clientId = clientId, bcr_completed = completed, bcr_error = err\<rparr>)))"

fun decodeAll :: "(json \<Rightarrow> 'a result) \<Rightarrow> json list \<Rightarrow> 'a list result" where
  "decodeAll dec [] = Inr []"
| "decodeAll dec (j # js) = bindR (dec j) (\<lambda>x. bindR (decodeAll dec js) (\<lambda>xs. Inr (x # xs)))"

definition decodeUploads :: "(json \<Rightarrow> 'a result) \<Rightarrow> json \<Rightarrow> 'a list result" where
  "decodeUploads dec response =
     (case array_member response ''uploads'' of None \<Rightarrow> Inr [] | Some items \<Rightarrow> decodeAll dec items)"

definition api_startUploadBatch ::
    "'net http_client \<Rightarrow> BatchStartUploadRequest list \<Rightarrow> ('net, BatchStartUploadResult list) act" where
  "api_startUploadBatch c requests =
     decoded (postJson c ''/api/uploads/batch/start''
       (JObject [(''files'', JArray (map (\<lambda>item.
          json_set (encodeStartUploadRequest (bs_request item)) ''clientId'' (JString (bs_clientId item))) requests))]))
       (decodeUploads decodeBatchStart)"

definition api_presignSingleUpload :: "'net http_client \<Rightarrow> string \<Rightarrow> ('net, string) act" where
  "api_presignSingleUpload c uploadSessionId =
     decoded (postJson c (''/api/uploads/'' @ uploadSessionId @ ''/presign'') JNull)
       (\<lambda>j. json_value get_string j ''url'' [])"

definition api_presignParts :: "'net http_client \<Rightarrow> string \<Rightarrow> 32 word list \<Rightarrow> ('net, 32 word \<rightharpoonup> string) act" where
  "api_presignParts c uploadSessionId partNumbers =
     decoded (postJson c (''/api/uploads/'' @ uploadSessionId @ ''/parts/presign'')
       (JObject [(''parts'', JArray (map (\<lambda>n. JInt (sint n)) partNumbers))])) decodePresignPartsResponse"

definition api_presignThumbnail :: "'net http_client \<Rightarrow> string \<Rightarrow> PresignThumbnailRequest \<Rightarrow> ('net, string) act" where
  "api_presignThumbnail c uploadSessionId q =
     decoded (postJson c (''/api/uploads/'' @ uploadSessionId @ ''/thumbnail/presign'')
       (JObject [(''encryptedSize'', JInt (int (pt_encryptedSize q))), (''mime'', JString (pt_mime q)),
                 (''width'', JInt (pt_width q)), (''height'', JInt (pt_height q))]))
       (\<lambda>j. json_value get_string j ''url'' [])"

definition api_uploadPart :: "'net http_client \<Rightarrow> string \<Rightarrow> UploadPartRequest \<Rightarrow> ('net, unit) act" where
  "api_uploadPart c uploadSessionId q =
     bindE (postJson c (''/api/uploads/'' @ uploadSessionId @ ''/parts'')
       (JObject [(''partNumber'', JInt (sint (pq_partNumber q))), (''encryptedHash'', JString (pq_encryptedHash q)),
                 (''etag'', JString (pq_etag q))])) (\<lambda>_. returnE ())"

definition api_uploadComplete :: "'net http_client \<Rightarrow> string \<Rightarrow> UploadCompleteRequest \<Rightarrow> ('net, unit) act" where
  "api_uploadComplete c uploadSessionId q =
     bindE (postJson c (''/api/uploads/'' @ uploadSessionId @ ''/complete'') (encodeUploadCompleteRequest q))
       (\<lambda>_. returnE ())"

definition api_uploadCompleteBatch ::
    "'net http_client \<Rightarrow> BatchCompleteUploadRequest list \<Rightarrow> ('net, BatchCompleteUploadResult list) act" where
  "api_uploadCompleteBatch c requests =
     decoded (postJson c ''/api/uploads/batch/complete''
       (JObject [(''uploads'', JArray (map (\<lambda>item.
          json_set (json_set (encodeUploadCompleteRequest (bc_request item)) ''clientId'' (JString (bc_clientId item)))
            ''uploadSessionId'' (JString (bc_uploadSessionId item))) requests))]))
       (decodeUploads decodeBatchComplete)"

definition api_listSyncEntries :: "'net http_client \<Rightarrow> ListSyncEntriesRequest \<Rightarrow> ('net, ListSyncEntriesResponse) act" where
  "api_listSyncEntries c q = decoded (getJson c (buildListSyncEntriesPath q)) decodeListSyncEntriesResponse"

definition api_getFileRecord :: "'net http_client \<Rightarrow> string \<Rightarrow> ('net, FileRecordResponse) act" where
  "api_getFileRecord c fileId =
     decoded (getJson c (''/api/files/'' @ fileId @ ''/record'')) decodeFileRecordResponse"

section \<open>The services over the client\<close>

text \<open>The authentication service of the daemon, on the client it is given (platform/Daemon.cpp).\<close>

definition authOverHttp :: "'k vault_env \<Rightarrow> 'net http_client \<Rightarrow> ('k, 'net) auth_env" where
  "authOverHttp vault c =
     \<lparr>ae_vault = vault, ae_login = api_login c, ae_unlockVault = api_unlockVault c, ae_me = api_me c,
      ae_logout = api_logout c\<rparr>"

section \<open>Facts\<close>

lemma api_me_verdict:
  assumes "available (hc_curl c)"
    and "cu_perform (hc_curl c) (getRequest (clientUrl (hc_baseUrl c) ''/api/me'')) n = (a, n')"
  shows "api_me c n = (jsonVerdict (hc_curl c) a, n')"
  using curlGetJson_verdict [OF assms] by (simp add: api_me_def getJson_def)

lemma stoi_to_string: "- (2 ^ 31) \<le> n \<Longrightarrow> n < 2 ^ 31 \<Longrightarrow> stoi (to_string n) = Inr n"
  by (simp add: stoi_def stoll_to_string int64_def)

lemma stoi_part_number: "stoi (to_string (sint (n :: 32 word))) = Inr (sint n)"
  using sint_range_size [of n] by (intro stoi_to_string) (simp_all add: word_size)

text \<open>An answer that gives each part number, as text, its address.\<close>

definition urlMember :: "32 word \<times> string \<Rightarrow> string \<times> json" where
  "urlMember p = (to_string (sint (fst p)), JString (snd p))"

lemma emplaceUrls_members:
  "distinct (map fst ps) \<Longrightarrow> dom urls \<inter> set (map fst ps) = {} \<Longrightarrow>
     emplaceUrls (map urlMember ps) urls = Inr (urls ++ map_of ps)"
proof (induction ps arbitrary: urls)
  case (Cons p ps)
  obtain n u where p: "p = (n, u)" by (cases p)
  have "urls n = None" using Cons.prems(2) p by auto
  moreover have "emplaceUrls (map urlMember ps) (urls(n \<mapsto> u)) = Inr (urls(n \<mapsto> u) ++ map_of ps)"
  proof (rule Cons.IH)
    show "distinct (map fst ps)" using Cons.prems(1) by simp
    have "n \<notin> set (map fst ps)" and "dom urls \<inter> set (map fst ps) = {}" using Cons.prems p by auto
    then show "dom (urls(n \<mapsto> u)) \<inter> set (map fst ps) = {}" by (auto split: if_splits)
  qed
  moreover have "urls(n \<mapsto> u) ++ map_of ps = urls ++ map_of (p # ps)"
  proof -
    have "n \<notin> dom (map_of ps)" using Cons.prems(1) p by (simp add: dom_map_of_conv_image_fst)
    then have "urls(n \<mapsto> u) ++ map_of ps = (urls ++ map_of ps)(n \<mapsto> u)" by (rule map_add_upd_left)
    then show ?thesis by (simp add: p)
  qed
  moreover have "emplaceUrls (map urlMember (p # ps)) urls = emplaceUrls (map urlMember ps) (urls(n \<mapsto> u))"
    using \<open>urls n = None\<close> by (simp add: p urlMember_def [of "(n, u)"] stoi_part_number)
  ultimately show ?case by metis
qed simp

lemma insort_members:
  "insort_key fst (urlMember p) (map urlMember qs) =
     map urlMember (insort_key (\<lambda>p. to_string (sint (fst p))) p qs)"
  by (induction qs) (simp_all add: urlMember_def)

lemma sorted_members:
  obtains qs where "json_items (map urlMember ps) = map urlMember qs" and "mset qs = mset ps"
proof
  let ?k = "\<lambda>p. to_string (sint (fst p))"
  show "json_items (map urlMember ps) = map urlMember (sort_key ?k ps)"
    unfolding json_items_def by (induction ps) (simp_all add: insort_members)
  show "mset (sort_key ?k ps) = mset ps" by simp
qed

lemma map_of_mset:
  assumes "mset qs = mset ps" and "distinct (map fst ps)"
  shows "map_of qs = map_of ps" and "distinct (map fst qs)"
proof -
  have "mset (map fst qs) = mset (map fst ps)" using assms(1) by simp
  then show "distinct (map fst qs)" using assms(2) mset_eq_imp_distinct_iff by blast
  then show "map_of qs = map_of ps"
    using assms mset_eq_setD [OF assms(1)] by (intro map_of_inject_set [THEN iffD2]) auto
qed

lemma decodePresignPartsResponse_members:
  assumes "distinct (map fst ps)" and "map_of kvs ''urls'' = Some (JObject (map urlMember ps))"
  shows "decodePresignPartsResponse (JObject kvs) = Inr (map_of ps)"
proof -
  obtain qs where q: "json_items (map urlMember ps) = map urlMember qs" "mset qs = mset ps" by (rule sorted_members)
  note m = map_of_mset [OF q(2) assms(1)]
  have "emplaceUrls (map urlMember qs) Map.empty = Inr (map_of qs)"
    using emplaceUrls_members [OF m(2), of Map.empty] by simp
  then show ?thesis using assms(2) q(1) m(1) by (simp add: decodePresignPartsResponse_def)
qed

section \<open>Properties\<close>

text \<open>
  C29. Over HTTP the session check of the daemon gives these verdicts and no others, for every
  status and body of the answer to \<open>GET /api/me\<close>: a failed transfer is passed on with the
  library's message; 401 and 403 mean no session; any other status outside 200 to 299 is passed
  on as an HTTP error with the server's message; a good status is a session if the body is empty
  or a JSON document, and a parse error otherwise. The vault and the account are left alone.
\<close>

theorem session_check_over_http:
  assumes "available (hc_curl c)"
    and "cu_perform (hc_curl c) (getRequest (clientUrl (hc_baseUrl c) ''/api/me'')) (au_server s) = (a, n')"
    and "ha_error a \<noteq> Some kNoSession"
    and "\<And>t e. cu_parse (hc_curl c) t = Inl e \<Longrightarrow> e = Json_error (what e)"
  shows "hasValidSession (authOverHttp vault c) s =
    (case ha_error a of
       Some message \<Rightarrow> Inl (Runtime_error message)
     | None \<Rightarrow>
         if ha_status a = 401 \<or> ha_status a = 403 then Inr False
         else if ha_status a < 200 \<or> 300 \<le> ha_status a
           then Inl (HttpError (cu_parse (hc_curl c)) (ha_status a) (concat (ha_pieces a)))
         else if concat (ha_pieces a) = [] then Inr True
         else (case cu_parse (hc_curl c) (concat (ha_pieces a)) of Inl e \<Rightarrow> Inl e | Inr _ \<Rightarrow> Inr True),
     s\<lparr>au_server := n'\<rparr>)"
proof -
  let ?x = "jsonVerdict (hc_curl c) a"
  have me: "ae_me (authOverHttp vault c) (au_server s) = (?x, n')"
    using api_me_verdict [OF assms(1,2)] by (simp add: authOverHttp_def)
  note r = ensureValidSession_result [OF me]
  show ?thesis
  proof (cases ?x)
    case (Inr j)
    then have "hasValidSession (authOverHttp vault c) s = (Inr True, s\<lparr>au_server := n'\<rparr>)"
      using r by (simp add: hasValidSession_def catchRuntime_def act_simps)
    then show ?thesis
      using Inr by (auto simp: jsonVerdict_def readJson_def split: option.splits if_splits sum.splits)
  next
    case (Inl e)
    have p: "\<exists>m. e = Json_error m" if "cu_parse (hc_curl c) t = Inl e" for t
      using assms(4) [OF that] by blast
    have h: "what (HttpError q st b) \<noteq> kNoSession" for q st b
      using HttpError_not_kNoSession by (auto simp: HttpError_def)
    show ?thesis
      using r Inl assms(3) p h
      by (auto simp: hasValidSession_def catchRuntime_def act_simps jsonVerdict_def readJson_def HttpError_def
          isUnauthorized_def split: option.splits if_splits sum.splits exn.splits)
  qed
qed

text \<open>A server that answers every request with one status and one body.\<close>

definition demoCurl :: "int \<Rightarrow> string \<Rightarrow> json result \<Rightarrow> nat curl_env" where
  "demoCurl status body doc =
     \<lparr>cu_easyInit = \<lambda>_. True, cu_slistAppend = \<lambda>_ _. True,
      cu_perform = \<lambda>_ n. (\<lparr>ha_error = None, ha_status = status, ha_pieces = [body]\<rparr>, Suc n),
      cu_dump = \<lambda>_. Inr ''{}'', cu_parse = \<lambda>_. doc\<rparr>"

definition demoClient :: "int \<Rightarrow> string \<Rightarrow> json result \<Rightarrow> nat http_client" where
  "demoClient status body doc = \<lparr>hc_baseUrl = ''https://a'', hc_curl = demoCurl status body doc\<rparr>"

lemma demoClient_available: "available (hc_curl (demoClient status body doc))"
  by (simp add: available_def demoClient_def demoCurl_def)

lemma demoClient_perform:
  "cu_perform (hc_curl (demoClient status body doc)) q n = (\<lparr>ha_error = None, ha_status = status, ha_pieces = [body]\<rparr>, Suc n)"
  by (simp add: demoClient_def demoCurl_def)

theorem session_check_over_http_witness:
  "fst (hasValidSession (authOverHttp sample_vault_env (demoClient 401 ''no'' (Inl (Json_error ''x''))))
      \<lparr>au_vault = au_vault (sample_auth 0), au_server = 0\<rparr>) = Inr False"
proof -
  let ?c = "demoClient 401 ''no'' (Inl (Json_error ''x''))"
  let ?s = "\<lparr>au_vault = au_vault (sample_auth 0), au_server = 0\<rparr> :: ((string \<times> bytes) list, nat) auth"
  have perf: "cu_perform (hc_curl ?c) (getRequest (clientUrl (hc_baseUrl ?c) ''/api/me'')) (au_server ?s) =
      (\<lparr>ha_error = None, ha_status = 401, ha_pieces = [''no'']\<rparr>, Suc 0)"
    by (simp add: demoClient_perform)
  have parse: "e = Json_error (what e)" if "cu_parse (hc_curl ?c) t = Inl e" for t e
    using that by (auto simp: demoClient_def demoCurl_def)
  show ?thesis
    using session_check_over_http [OF demoClient_available perf _ parse, where vault = sample_vault_env] by simp
qed

text \<open>
  C36. The addresses of a presigned upload survive the journey: when the server answers a request
  for parts with an object that maps each part number, written in decimal, to an address, in any
  order, the client's map finds for every part number exactly its address, although JSON has only
  text as keys and the client walks over them in the order of the text.
\<close>

theorem presigned_addresses_found:
  assumes "available (hc_curl c)"
    and "cu_dump (hc_curl c) (JObject [(''parts'', JArray (map (\<lambda>n. JInt (sint n)) partNumbers))]) = Inr bodyText"
    and "cu_perform (hc_curl c) (postRequest (clientUrl (hc_baseUrl c) (''/api/uploads/'' @ session @ ''/parts/presign'')) bodyText) n =
           (\<lparr>ha_error = None, ha_status = 200, ha_pieces = pieces\<rparr>, n')"
    and "concat pieces \<noteq> []" and "cu_parse (hc_curl c) (concat pieces) = Inr (JObject kvs)"
    and "map_of kvs ''urls'' = Some (JObject (map urlMember ps))" and "distinct (map fst ps)"
  shows "api_presignParts c session partNumbers n = (Inr (map_of ps), n')"
proof -
  have "postJson c (''/api/uploads/'' @ session @ ''/parts/presign'')
      (JObject [(''parts'', JArray (map (\<lambda>n. JInt (sint n)) partNumbers))]) n = (Inr (JObject kvs), n')"
    using curlPostJson_verdict [OF assms(1-3)] assms(4,5)
    by (simp only: postJson_def) (simp add: jsonVerdict_def readJson_def del: concat_eq_Nil_conv)
  then show ?thesis
    using decodePresignPartsResponse_members [OF assms(7,6)]
    by (simp add: api_presignParts_def decoded_def bindE_def liftE_def)
qed

theorem presigned_addresses_found_witness:
  "fst (api_presignParts (demoClient 200 ''x'' (Inr (JObject [(''urls'', JObject [(''10'', JString ''b''), (''9'', JString ''a'')])])))
     ''s'' [9, 10] 0) = Inr [9 \<mapsto> ''a'', 10 \<mapsto> ''b'']"
proof -
  let ?ps = "[(10, ''b''), (9, ''a'')] :: (32 word \<times> string) list"
  have m: "map urlMember ?ps = [(''10'', JString ''b''), (''9'', JString ''a'')]" by code_simp
  let ?c = "demoClient 200 ''x'' (Inr (JObject [(''urls'', JObject (map urlMember ?ps))]))"
  have "api_presignParts ?c ''s'' [9, 10] 0 = (Inr (map_of ?ps), Suc 0)"
  proof (rule presigned_addresses_found)
    show "cu_dump (hc_curl ?c) (JObject [(''parts'', JArray (map (\<lambda>n. JInt (sint n)) [9, 10 :: 32 word]))]) = Inr ''{}''"
      by (simp add: demoClient_def demoCurl_def)
    show "cu_parse (hc_curl ?c) (concat [''x'']) = Inr (JObject [(''urls'', JObject (map urlMember ?ps))])"
      by (simp add: demoClient_def demoCurl_def)
  qed (simp_all add: demoClient_available demoClient_perform)
  moreover have "map_of ?ps = [9 \<mapsto> ''a'', 10 \<mapsto> ''b'']" by (rule ext) simp
  ultimately show ?thesis by (simp only: m fst_conv)
qed

text \<open>An item of a batch counts as started exactly if the server names a session and no error.\<close>

lemma batch_item_started:
  assumes "decodeBatchStart item = Inr r"
  shows "bsr_upload r \<noteq> None \<longleftrightarrow>
    bsr_error r = [] \<and> bsr_validationErrors r = [] \<and> json_contains item ''uploadSessionId''"
  using assms by (auto simp: decodeBatchStart_def Let_def bindR_eq_Inr split: if_splits)

lemma decodeAll_items: "decodeAll dec items = Inr rs \<longleftrightarrow> list_all2 (\<lambda>j r. dec j = Inr r) items rs"
proof (induction items arbitrary: rs)
  case (Cons j js)
  then show ?case by (cases rs) (auto simp: bindR_eq_Inr)
qed auto

text \<open>The client sends the identifier with the fields of the request, which has no member of that name.\<close>

lemma batch_item_members:
  "json_set (encodeStartUploadRequest q) ''clientId'' (JString i) =
     (case encodeStartUploadRequest q of JObject kvs \<Rightarrow> JObject (kvs @ [(''clientId'', JString i)]) | j \<Rightarrow> j)"
  by (simp add: encodeStartUploadRequest_def)

end
