(* ===== verification/Storage_Put.thy ===== *)
theory Storage_Put
  imports Http_Client "HOL-Library.AList"
begin

text \<open>
  Uploads to the object store (networking/StoragePutTransport.cpp): callers hand requests to one
  worker thread, which runs all of them on a multi handle of libcurl and answers each caller
  through a promise. The steps of the callers and of the worker interleave; a step is what the
  code does under the mutex, or between two uses of it. libcurl is outside: which handles it can
  make, what the callbacks are given and which transfers are done are parameters of the steps.
\<close>

section \<open>Requests and callbacks\<close>

text \<open>A promise is known by a number, the handle of a request by the key it has in \<open>active_\<close>.\<close>

record StoragePutRequest =
  sp_promise :: nat
  sp_url :: string
  sp_body :: bytes
  sp_response :: string
  sp_etag :: string

definition storageWriteCallback :: "string \<Rightarrow> StoragePutRequest \<Rightarrow> StoragePutRequest" where
  "storageWriteCallback piece r = r\<lparr>sp_response := sp_response r @ piece\<rparr>"

definition kEtagPrefix :: string where
  "kEtagPrefix = ''etag:''"

definition is_blank :: "char \<Rightarrow> bool" where
  "is_blank c \<longleftrightarrow> c = CHR '' '' \<or> c = CHR 0x09"

definition is_line_end :: "char \<Rightarrow> bool" where
  "is_line_end c \<longleftrightarrow> c = CHR 0x0D \<or> c = CHR 0x0A \<or> is_blank c"

text \<open>\<open>while (!value.empty() && ...) value.pop_back()\<close>.\<close>

definition pop_backs :: "string \<Rightarrow> string" where
  "pop_backs value = rev (dropWhile is_line_end (rev value))"

definition storageHeaderCallback :: "string \<Rightarrow> StoragePutRequest \<Rightarrow> StoragePutRequest" where
  "storageHeaderCallback header r =
     (if length header < length kEtagPrefix then r
      else if map tolower (take (length kEtagPrefix) header) \<noteq> kEtagPrefix then r
      else r\<lparr>sp_etag := pop_backs (dropWhile is_blank (drop (length kEtagPrefix) header))\<rparr>)"

section \<open>The transport\<close>

text \<open>Where the worker is in \<open>run()\<close>; \<open>Adding\<close> has the requests taken from the queue and not yet added.\<close>

datatype put_worker =
    Starting
  | At_top
  | Adding "StoragePutRequest list"
  | Performing
  | Checking int
  | Waiting
  | Leaving
  | Ended

text \<open>\<open>tp_accepted\<close> counts the promises made, \<open>tp_settled\<close> lists the values and exceptions they were given.\<close>

record transport =
  tp_pending :: "StoragePutRequest list"
  tp_active :: "(nat \<times> StoragePutRequest) list"
  tp_stopping :: bool
  tp_worker :: put_worker
  tp_accepted :: nat
  tp_settled :: "(nat \<times> string result) list"

definition new_transport :: transport where
  "new_transport =
     \<lparr>tp_pending = [], tp_active = [], tp_stopping = False, tp_worker = Starting, tp_accepted = 0, tp_settled = []\<rparr>"

definition settle :: "StoragePutRequest \<Rightarrow> string result \<Rightarrow> transport \<Rightarrow> transport" where
  "settle r x t = t\<lparr>tp_settled := tp_settled t @ [(sp_promise r, x)]\<rparr>"

text \<open>\<open>put\<close>, up to the wait for the result.\<close>

definition put :: "string \<Rightarrow> bytes \<Rightarrow> (transport, nat) act" where
  "put requestUrl body t =
     (if tp_stopping t then (Inl (Runtime_error ''storage upload transport is stopped''), t)
      else (Inr (tp_accepted t),
            t\<lparr>tp_pending := tp_pending t @ [\<lparr>sp_promise = tp_accepted t, sp_url = requestUrl, sp_body = body,
                                             sp_response = [], sp_etag = []\<rparr>],
              tp_accepted := Suc (tp_accepted t)\<rparr>))"

definition stopTransport :: "transport \<Rightarrow> transport" where
  "stopTransport t = t\<lparr>tp_stopping := True\<rparr>"

definition takePending :: "transport \<Rightarrow> transport" where
  "takePending t = t\<lparr>tp_pending := [], tp_worker := Adding (tp_pending t)\<rparr>"

datatype add_outcome = No_handle | No_header | Not_added string | Added nat

definition addPut :: "add_outcome \<Rightarrow> StoragePutRequest \<Rightarrow> transport \<Rightarrow> transport" where
  "addPut outcome r t =
     (case outcome of
        No_handle \<Rightarrow> settle r (Inl (Runtime_error ''failed to initialize curl storage handle'')) t
      | No_header \<Rightarrow> settle r (Inl (Runtime_error ''failed to append curl storage header'')) t
      | Not_added message \<Rightarrow> settle r (Inl (Runtime_error message)) t
      | Added h \<Rightarrow> t\<lparr>tp_active := (h, r) # tp_active t\<rparr>)"

text \<open>A message of the multi handle: a transfer that ended, with the error of the library and the status, or another one.\<close>

datatype multi_message = Done nat "string option" int | Other_message

text \<open>\<open>finish\<close> with the exception or, without one, the tag of the stored object.\<close>

definition putResult :: "(string \<Rightarrow> json result) \<Rightarrow> StoragePutRequest \<Rightarrow> string option \<Rightarrow> int \<Rightarrow> string result" where
  "putResult parse r transferError status =
     (case transferError of
        Some message \<Rightarrow> Inl (Runtime_error message)
      | None \<Rightarrow> if status < 200 \<or> 300 \<le> status then Inl (HttpError parse status (sp_response r)) else Inr (sp_etag r))"

fun collectCompleted :: "(string \<Rightarrow> json result) \<Rightarrow> multi_message list \<Rightarrow> transport \<Rightarrow> transport" where
  "collectCompleted parse [] t = t"
| "collectCompleted parse (Other_message # ms) t = collectCompleted parse ms t"
| "collectCompleted parse (Done h e status # ms) t =
     (case map_of (tp_active t) h of
        None \<Rightarrow> collectCompleted parse ms t
      | Some r \<Rightarrow> collectCompleted parse ms
          (settle r (putResult parse r e status) (t\<lparr>tp_active := AList.delete h (tp_active t)\<rparr>)))"

definition failAll :: "exn \<Rightarrow> transport \<Rightarrow> transport" where
  "failAll e t =
     t\<lparr>tp_settled := tp_settled t @ map (\<lambda>r. (sp_promise r, Inl e)) (tp_pending t @ map snd (tp_active t)),
       tp_pending := [], tp_active := []\<rparr>"

text \<open>The end of a round of \<open>run()\<close>, under the mutex; polling is left out.\<close>

definition endRound :: "int \<Rightarrow> transport \<Rightarrow> transport" where
  "endRound running t =
     (if tp_stopping t \<and> tp_pending t = [] \<and> tp_active t = [] then t\<lparr>tp_worker := Leaving\<rparr>
      else if 0 < running then t\<lparr>tp_worker := At_top\<rparr>
      else if tp_pending t \<noteq> [] then t\<lparr>tp_worker := At_top\<rparr>
      else t\<lparr>tp_worker := Waiting\<rparr>)"

section \<open>Steps\<close>

text \<open>
  The steps of the worker. What the library promises: a new handle is not one in use, and when no
  transfer is running any more, each active handle has had its message.
\<close>

inductive worker_step :: "(string \<Rightarrow> json result) \<Rightarrow> transport \<Rightarrow> transport \<Rightarrow> bool" for parse where
  no_multi: "tp_worker t = Starting \<Longrightarrow>
     worker_step parse t ((failAll (Runtime_error ''failed to initialize curl multi handle'') (stopTransport t))
       \<lparr>tp_worker := Ended\<rparr>)"
| begin_run: "tp_worker t = Starting \<Longrightarrow> worker_step parse t (t\<lparr>tp_worker := At_top\<rparr>)"
| take_pending: "tp_worker t = At_top \<Longrightarrow> worker_step parse t (takePending t)"
| add_one: "tp_worker t = Adding (r # rs) \<Longrightarrow> (\<And>h. outcome = Added h \<Longrightarrow> h \<notin> fst ` set (tp_active t)) \<Longrightarrow>
     worker_step parse t ((addPut outcome r t)\<lparr>tp_worker := Adding rs\<rparr>)"
| all_added: "tp_worker t = Adding [] \<Longrightarrow> worker_step parse t (t\<lparr>tp_worker := Performing\<rparr>)"
| body_piece: "tp_worker t = Performing \<Longrightarrow>
     worker_step parse t (t\<lparr>tp_active := AList.map_entry h (storageWriteCallback piece) (tp_active t)\<rparr>)"
| header_line: "tp_worker t = Performing \<Longrightarrow>
     worker_step parse t (t\<lparr>tp_active := AList.map_entry h (storageHeaderCallback header) (tp_active t)\<rparr>)"
| collect: "tp_worker t = Performing \<Longrightarrow> 0 \<le> running \<Longrightarrow>
     (running = 0 \<Longrightarrow> tp_active (collectCompleted parse messages t) = []) \<Longrightarrow>
     worker_step parse t ((collectCompleted parse messages t)\<lparr>tp_worker := Checking running\<rparr>)"
| end_round: "tp_worker t = Checking running \<Longrightarrow> worker_step parse t (endRound running t)"
| woken: "tp_worker t = Waiting \<Longrightarrow> tp_stopping t \<or> tp_pending t \<noteq> [] \<Longrightarrow> worker_step parse t (t\<lparr>tp_worker := At_top\<rparr>)"
| leave: "tp_worker t = Leaving \<Longrightarrow>
     worker_step parse t ((failAll (Runtime_error ''storage upload transport stopped'') t)\<lparr>tp_worker := Ended\<rparr>)"

inductive transport_step :: "(string \<Rightarrow> json result) \<Rightarrow> transport \<Rightarrow> transport \<Rightarrow> bool" for parse where
  caller: "transport_step parse t (snd (put requestUrl body t))"
| destructor: "transport_step parse t (stopTransport t)"
| by_worker: "worker_step parse t t' \<Longrightarrow> transport_step parse t t'"

section \<open>The invariant\<close>

fun taken :: "put_worker \<Rightarrow> StoragePutRequest list" where
  "taken (Adding rs) = rs"
| "taken _ = []"

text \<open>Every promise made is in one place only: a request that waits, is taken or active, or the list of settled ones.\<close>

definition promises :: "transport \<Rightarrow> nat multiset" where
  "promises t =
     mset (map sp_promise (tp_pending t)) + mset (map sp_promise (taken (tp_worker t))) +
     mset (map (sp_promise \<circ> snd) (tp_active t)) + mset (map fst (tp_settled t))"

definition quiet :: "transport \<Rightarrow> bool" where
  "quiet t \<longleftrightarrow>
     (case tp_worker t of
        Starting \<Rightarrow> tp_active t = []
      | Checking running \<Rightarrow> 0 \<le> running \<and> (running = 0 \<longrightarrow> tp_active t = [])
      | Waiting \<Rightarrow> tp_active t = []
      | Leaving \<Rightarrow> tp_stopping t \<and> tp_pending t = [] \<and> tp_active t = []
      | Ended \<Rightarrow> tp_stopping t \<and> tp_pending t = [] \<and> tp_active t = []
      | _ \<Rightarrow> True)"

definition transport_inv :: "transport \<Rightarrow> bool" where
  "transport_inv t \<longleftrightarrow> promises t = mset [0..<tp_accepted t] \<and> distinct (map fst (tp_active t)) \<and> quiet t"

lemma map_entry_keys [simp]: "map fst (AList.map_entry h f al) = map fst al"
  by (induction al) auto

lemma map_entry_Nil [simp]: "AList.map_entry h f al = [] \<longleftrightarrow> al = []"
  by (cases al) auto

lemma map_entry_promises:
  assumes "\<And>r. sp_promise (f r) = sp_promise r"
  shows "map (sp_promise \<circ> snd) (AList.map_entry h f al) = map (sp_promise \<circ> snd) al"
  by (induction al) (auto simp: assms)

lemma callback_promise [simp]:
  "sp_promise (storageWriteCallback piece r) = sp_promise r"
  "sp_promise (storageHeaderCallback header r) = sp_promise r"
  by (simp_all add: storageWriteCallback_def storageHeaderCallback_def)

lemma mset_delete:
  "distinct (map fst al) \<Longrightarrow> map_of al h = Some r \<Longrightarrow>
     mset (map (g \<circ> snd) al) = add_mset (g r) (mset (map (g \<circ> snd) (AList.delete h al)))"
proof (induction al)
  case (Cons p al)
  show ?case
  proof (cases "fst p = h")
    case True
    then have "h \<notin> fst ` set al" using Cons.prems(1) by auto
    then have "AList.delete h al = al" by (induction al) (auto simp: AList.delete_eq)
    then show ?thesis using True Cons.prems(2) by (auto simp: AList.delete_eq)
  next
    case False
    then have "map_of al h = Some r" using Cons.prems(2) by (cases p) simp
    with Cons.IH Cons.prems(1) have "mset (map (g \<circ> snd) al) = add_mset (g r) (mset (map (g \<circ> snd) (AList.delete h al)))"
      by (simp only: list.map distinct.simps)
    moreover have "AList.delete h (p # al) = p # AList.delete h al" using False by simp
    ultimately show ?thesis by (simp only: list.map mset.simps add_mset_commute)
  qed
qed simp

lemma promises_simps:
  "promises (t\<lparr>tp_worker := w\<rparr>) + mset (map sp_promise (taken (tp_worker t))) =
     promises t + mset (map sp_promise (taken w))"
  by (simp add: promises_def)

lemma collectCompleted_promises:
  assumes "distinct (map fst (tp_active t))"
  shows "promises (collectCompleted parse ms t) = promises t"
    and "distinct (map fst (tp_active (collectCompleted parse ms t)))"
    and "tp_accepted (collectCompleted parse ms t) = tp_accepted t"
    and "tp_worker (collectCompleted parse ms t) = tp_worker t"
  using assms
proof (induction ms arbitrary: t)
  case (Cons m ms)
  have *: "promises (collectCompleted parse (m # ms) t) = promises t \<and>
      distinct (map fst (tp_active (collectCompleted parse (m # ms) t))) \<and>
      tp_accepted (collectCompleted parse (m # ms) t) = tp_accepted t \<and>
      tp_worker (collectCompleted parse (m # ms) t) = tp_worker t" if d: "distinct (map fst (tp_active t))" for t
  proof (cases m)
    case (Done h e status)
    show ?thesis
    proof (cases "map_of (tp_active t) h")
      case None
      then show ?thesis using Cons.IH [OF d] Done by simp
    next
      case (Some r)
      let ?u = "settle r (putResult parse r e status) (t\<lparr>tp_active := AList.delete h (tp_active t)\<rparr>)"
      have "promises ?u = promises t"
        using mset_delete [OF d Some, of sp_promise] by (simp add: promises_def settle_def)
      moreover have "distinct (map fst (tp_active ?u))" using d by (simp add: settle_def distinct_delete)
      ultimately show ?thesis using Cons.IH [of ?u] Done Some by (simp add: settle_def)
    qed
  next
    case Other_message
    then show ?thesis using Cons.IH [OF d] by simp
  qed
  { case 1 then show ?case using * by blast }
  { case 2 then show ?case using * by blast }
  { case 3 then show ?case using * by blast }
  { case 4 then show ?case using * by blast }
qed simp_all

lemma transport_inv_put: "transport_inv t \<Longrightarrow> transport_inv (snd (put u b t))"
  by (auto simp: transport_inv_def put_def promises_def quiet_def simp del: mset_upt split: put_worker.splits)

lemma transport_inv_stop: "transport_inv t \<Longrightarrow> transport_inv (stopTransport t)"
  by (auto simp: transport_inv_def stopTransport_def promises_def quiet_def split: put_worker.splits)

lemma failAll_promises: "promises (failAll e t) = promises t"
  by (simp add: promises_def failAll_def comp_def)

lemma promises_worker: "taken w = taken (tp_worker t) \<Longrightarrow> promises (t\<lparr>tp_worker := w\<rparr>) = promises t"
  by (simp add: promises_def)

lemma promises_addPut:
  "tp_worker t = Adding (r # rs) \<Longrightarrow> promises ((addPut outcome r t)\<lparr>tp_worker := Adding rs\<rparr>) = promises t"
  by (cases outcome) (simp_all add: promises_def addPut_def settle_def)

lemma transport_inv_worker:
  assumes "worker_step parse t t'" and "transport_inv t"
  shows "transport_inv t'"
  using assms
proof cases
  case no_multi
  then show ?thesis using assms(2)
    by (auto simp: transport_inv_def promises_def failAll_def stopTransport_def quiet_def comp_def ac_simps)
next
  case (add_one r rs outcome)
  then have "distinct (map fst (tp_active (addPut outcome r t)))"
    using assms(2) by (cases outcome) (auto simp: transport_inv_def addPut_def settle_def)
  moreover have "tp_accepted (addPut outcome r t) = tp_accepted t"
    by (cases outcome) (simp_all add: addPut_def settle_def)
  ultimately show ?thesis
    using add_one promises_addPut [OF add_one(2)] assms(2) by (simp add: transport_inv_def quiet_def)
next
  case (collect running messages)
  have d: "distinct (map fst (tp_active t))" using assms(2) by (simp add: transport_inv_def)
  note c = collectCompleted_promises [OF d, of parse messages]
  show ?thesis
    using collect c assms(2) promises_worker [of "Checking running" "collectCompleted parse messages t"]
    by (simp add: transport_inv_def quiet_def)
next
  case (leave)
  then show ?thesis using assms(2)
    by (auto simp: transport_inv_def promises_def failAll_def quiet_def comp_def ac_simps)
next
  case (end_round running)
  then show ?thesis using assms(2) by (auto simp: transport_inv_def promises_def quiet_def endRound_def)
qed (auto simp: transport_inv_def promises_def quiet_def takePending_def map_entry_promises simp flip: mset_map)

interpretation transport_runs: transition_system "\<lambda>t. t = new_transport" "transport_step parse" transport_inv
proof
  show "transport_inv t" if "t = new_transport" for t
    using that by (simp add: new_transport_def transport_inv_def promises_def quiet_def)
  show "transport_inv t'" if "transport_step parse t t'" "transport_inv t" for t t'
    using that by cases (simp_all add: transport_inv_put transport_inv_stop transport_inv_worker)
qed

section \<open>Properties\<close>

lemma tolower_length: "map tolower xs = ys \<Longrightarrow> length xs = length ys"
  by auto

text \<open>
  The tag of the stored object is read from its header line whatever the case of the name and the
  blanks around the value, and without the end of the line.
\<close>

lemma etag_header_read:
  assumes "map tolower name = kEtagPrefix"
    and "\<forall>c\<in>set blanks. is_blank c" and "\<forall>c\<in>set ending. is_line_end c"
    and "v \<noteq> []" and "\<not> is_blank (hd v)" and "\<not> is_line_end (last v)"
  shows "storageHeaderCallback (name @ blanks @ v @ ending) r = r\<lparr>sp_etag := v\<rparr>"
proof -
  have len: "length name = length kEtagPrefix" using tolower_length [OF assms(1)] .
  have front: "dropWhile is_blank (blanks @ v @ ending) = v @ ending"
    using assms(2,4,5) by (cases v) simp_all
  have "dropWhile is_line_end (rev ending @ rev v) = rev v"
  proof -
    have "rev v \<noteq> []" and "\<not> is_line_end (hd (rev v))" using assms(4,6) by (simp_all add: hd_rev)
    then have "dropWhile is_line_end (rev v) = rev v" by (cases "rev v") simp_all
    then show ?thesis using assms(3) by (subst dropWhile_append2) auto
  qed
  then show ?thesis
    using front len assms(1) by (simp add: storageHeaderCallback_def pop_backs_def)
qed

text \<open>A transfer that ends well answers its caller with the tag read, and leaves the other ones alone.\<close>

lemma done_put_gets_etag:
  assumes "map_of (tp_active t) h = Some r" and "200 \<le> status" and "status < 300"
  shows "collectCompleted parse [Done h None status] t =
    t\<lparr>tp_active := AList.delete h (tp_active t), tp_settled := tp_settled t @ [(sp_promise r, Inr (sp_etag r))]\<rparr>"
  using assms by (simp add: settle_def putResult_def)

text \<open>
  C12. Every upload handed to the transport is answered once: in every interleaving of callers,
  the destructor and the worker, and whatever libcurl refuses or reports, no promise is given a
  value or an exception twice, only promises that were made are, and when the worker has ended
  all of them have been, so that no caller waits for ever. While an answer is owed, the worker
  goes to sleep only with a request in the queue, whose arrival wakes it.
\<close>

theorem every_put_answered_once:
  assumes "(transport_step parse)\<^sup>*\<^sup>* new_transport t"
  shows "distinct (map fst (tp_settled t)) \<and> fst ` set (tp_settled t) \<subseteq> {..<tp_accepted t} \<and>
    (tp_worker t = Ended \<longrightarrow> fst ` set (tp_settled t) = {..<tp_accepted t}) \<and>
    (tp_worker t = Waiting \<longrightarrow> fst ` set (tp_settled t) \<noteq> {..<tp_accepted t} \<longrightarrow> tp_pending t \<noteq> [])"
proof -
  have inv: "transport_inv t" using transport_runs.invar_reachable [OF refl assms] .
  let ?p = "map sp_promise (tp_pending t) @ map sp_promise (taken (tp_worker t)) @ map (sp_promise \<circ> snd) (tp_active t)"
  have m: "mset (?p @ map fst (tp_settled t)) = mset [0..<tp_accepted t]"
    using inv by (simp only: transport_inv_def promises_def mset_append ac_simps)
  have "distinct (?p @ map fst (tp_settled t))" using mset_eq_imp_distinct_iff [OF m] distinct_upt by blast
  moreover have all: "set ?p \<union> fst ` set (tp_settled t) = {..<tp_accepted t}"
    using mset_eq_setD [OF m] by (simp add: lessThan_atLeast0 Un_assoc)
  moreover have "?p = []" if "tp_worker t = Ended" using inv that by (simp add: transport_inv_def quiet_def)
  moreover have "?p = []" if "tp_worker t = Waiting" "tp_pending t = []"
    using inv that by (simp add: transport_inv_def quiet_def)
  ultimately show ?thesis by auto
qed

text \<open>A put that is sent, answered with a tag, and followed by the destructor.\<close>

definition demo_states :: "transport list" where
  "demo_states =
     (let t0 = new_transport; t1 = t0\<lparr>tp_worker := At_top\<rparr>; t2 = snd (put ''u'' [1] t1); t3 = takePending t2;
          r = hd (tp_pending t2);
          t4 = (addPut (Added 7) r t3)\<lparr>tp_worker := Adding []\<rparr>; t5 = t4\<lparr>tp_worker := Performing\<rparr>;
          t6 = t5\<lparr>tp_active := AList.map_entry 7 (storageHeaderCallback ''ETag: a'') (tp_active t5)\<rparr>;
          t7 = (collectCompleted (\<lambda>_. Inr JNull) [Done 7 None 200] t6)\<lparr>tp_worker := Checking 0\<rparr>;
          t8 = stopTransport t7; t9 = endRound 0 t8;
          t10 = (failAll (Runtime_error ''storage upload transport stopped'') t9)\<lparr>tp_worker := Ended\<rparr>
      in [t0, t1, t2, t3, t4, t5, t6, t7, t8, t9, t10])"

lemma demo_run: "(transport_step (\<lambda>_. Inr JNull))\<^sup>*\<^sup>* new_transport (last demo_states)"
proof -
  let ?S = "transport_step (\<lambda>_. Inr JNull)"
  define t1 where "t1 = new_transport\<lparr>tp_worker := At_top\<rparr>"
  define t2 where "t2 = snd (put ''u'' [1] t1)"
  define t3 where "t3 = takePending t2"
  define r where "r = hd (tp_pending t2)"
  define t4 where "t4 = (addPut (Added 7) r t3)\<lparr>tp_worker := Adding []\<rparr>"
  define t5 where "t5 = t4\<lparr>tp_worker := Performing\<rparr>"
  define t6 where "t6 = t5\<lparr>tp_active := AList.map_entry 7 (storageHeaderCallback ''ETag: a'') (tp_active t5)\<rparr>"
  define t7 where "t7 = (collectCompleted (\<lambda>_. Inr JNull) [Done 7 None 200] t6)\<lparr>tp_worker := Checking 0\<rparr>"
  define t8 where "t8 = stopTransport t7"
  define t9 where "t9 = endRound 0 t8"
  define t10 where "t10 = (failAll (Runtime_error ''storage upload transport stopped'') t9)\<lparr>tp_worker := Ended\<rparr>"
  note defs = t1_def t2_def t3_def r_def t4_def t5_def t6_def t7_def t8_def t9_def
  have "?S new_transport t1" unfolding t1_def by (rule by_worker, rule begin_run) (simp add: new_transport_def)
  moreover have "?S t1 t2" unfolding t2_def by (rule caller)
  moreover have "?S t2 t3" unfolding t3_def by (rule by_worker, rule take_pending) (simp add: t2_def t1_def put_def new_transport_def)
  moreover have "?S t3 t4" unfolding t4_def
    by (rule by_worker, rule add_one)
      (simp_all add: t3_def t2_def t1_def r_def put_def new_transport_def takePending_def)
  moreover have "?S t4 t5" unfolding t5_def by (rule by_worker, rule all_added) (simp add: t4_def)
  moreover have "?S t5 t6" unfolding t6_def by (rule by_worker, rule header_line) (simp add: t5_def)
  moreover have act: "tp_active t6 = [(7, storageHeaderCallback ''ETag: a'' r)]"
    by (simp add: t6_def t5_def t4_def t3_def t2_def t1_def put_def new_transport_def takePending_def addPut_def)
  have "tp_worker t6 = Performing" by (simp add: t6_def t5_def)
  then have "?S t6 t7" unfolding t7_def by (intro by_worker collect) (simp_all add: act settle_def)
  moreover have "?S t7 t8" unfolding t8_def by (rule destructor)
  moreover have "?S t8 t9" unfolding t9_def by (rule by_worker, rule end_round) (simp add: t8_def t7_def stopTransport_def)
  moreover have "?S t9 t10" unfolding t10_def
    by (rule by_worker, rule leave)
      (simp add: defs put_def new_transport_def takePending_def addPut_def settle_def stopTransport_def endRound_def)
  ultimately have "?S\<^sup>*\<^sup>* new_transport t10" by (meson converse_rtranclp_into_rtranclp rtranclp.rtrancl_refl)
  moreover have "t10 = last demo_states"
    by (simp only: demo_states_def Let_def t10_def defs last_ConsL last_ConsR list.distinct not_False_eq_True)
  ultimately show ?thesis by simp
qed

theorem every_put_answered_once_witness:
  "tp_settled (last demo_states) = [(0, Inr ''a'')] \<and> fst ` set (tp_settled (last demo_states)) = {..<tp_accepted (last demo_states)}"
proof -
  have s: "tp_settled (last demo_states) = [(0, Inr ''a'')]" by code_simp
  have "tp_worker (last demo_states) = Ended" by code_simp
  then show ?thesis using every_put_answered_once [OF demo_run] s by blast
qed

end
