(* ===== verification/Thumbnail.thy ===== *)
theory Thumbnail
  imports Upload_Finalizer Fs_Path
begin

unbundle bit_operations_syntax

text \<open>
  MIME types from file names (helpers/Mime.cpp) and the thumbnail of an upload
  (upload/ThumbnailGenerator.cpp, as compiled on Linux): which files get one, the call of ffmpeg,
  and what is read of the WebP file it wrote. The process, the identifier in the name of the
  temporary file and the directory of the executable are parameters.
\<close>

section \<open>MIME types\<close>

definition kMimeMappings :: "(string \<times> string) list" where
  "kMimeMappings =
     [(''.jpg'', ''image/jpeg''), (''.jpeg'', ''image/jpeg''), (''.png'', ''image/png''), (''.gif'', ''image/gif''),
      (''.webp'', ''image/webp''), (''.svg'', ''image/svg+xml''), (''.bmp'', ''image/bmp''), (''.txt'', ''text/plain''),
      (''.md'', ''text/markdown''), (''.csv'', ''text/csv''), (''.json'', ''application/json''),
      (''.pdf'', ''application/pdf''), (''.mp4'', ''video/mp4''), (''.m4v'', ''video/mp4''),
      (''.mov'', ''video/quicktime''), (''.webm'', ''video/webm''), (''.mkv'', ''video/x-matroska''),
      (''.mp3'', ''audio/mpeg''), (''.m4a'', ''audio/mp4''), (''.wav'', ''audio/wav''), (''.ogg'', ''audio/ogg''),
      (''.flac'', ''audio/flac''), (''.zip'', ''application/zip''), (''.tar'', ''application/x-tar''),
      (''.gz'', ''application/gzip''), (''.7z'', ''application/x-7z-compressed''), (''.rar'', ''application/vnd.rar''),
      (''.epub'', ''application/epub+zip''), (''.heic'', ''image/heic'')]"

definition kDangerousExtensions :: "string list" where
  "kDangerousExtensions =
     [''.exe'', ''.msi'', ''.bat'', ''.cmd'', ''.com'', ''.scr'', ''.ps1'', ''.vbs'', ''.js'', ''.jse'', ''.jar'',
      ''.app'', ''.apk'', ''.dmg'', ''.pkg'', ''.deb'', ''.rpm'', ''.sh'', ''.csh'', ''.ksh'', ''.so'', ''.dll'']"

definition normalizedExtension :: "string \<Rightarrow> string" where
  "normalizedExtension path = map tolower (extension path)"

definition isDangerousExtension :: "string \<Rightarrow> bool" where
  "isDangerousExtension ext \<longleftrightarrow> ext \<in> set kDangerousExtensions"

definition inferSafeMimeType :: "string \<Rightarrow> string" where
  "inferSafeMimeType path =
     (let ext = normalizedExtension path in
      if ext = [] \<or> isDangerousExtension ext then ''application/octet-stream''
      else case find (\<lambda>m. fst m = ext) kMimeMappings of
             None \<Rightarrow> ''application/octet-stream''
           | Some m \<Rightarrow> snd m)"

definition fileExtensionString :: "string \<Rightarrow> string" where
  "fileExtensionString path = (if extension path \<noteq> [] then extension path else [])"

definition describeFileMime :: "string \<Rightarrow> FileMimeDetails" where
  "describeFileMime path =
     \<lparr>fm_name = filename path, fm_mime = inferSafeMimeType path, fm_extension = fileExtensionString path\<rparr>"

section \<open>Sizes of WebP images\<close>

definition le24 :: "bytes \<Rightarrow> nat \<Rightarrow> 32 word" where
  "le24 bs i = (ucast (bs ! i) OR push_bit 8 (ucast (bs ! Suc i))) OR push_bit 16 (ucast (bs ! Suc (Suc i)))"

text \<open>The operands of a VP8 frame are promoted to \<open>int\<close>.\<close>

definition le14 :: "bytes \<Rightarrow> nat \<Rightarrow> int" where
  "le14 bs i = (uint (bs ! i) OR push_bit 8 (uint (bs ! Suc i))) AND 0x3FFF"

definition webpSize :: "bytes \<Rightarrow> (int \<times> int) option" where
  "webpSize bs =
     (if length bs < 30 \<or> take 4 bs \<noteq> toBytes ''RIFF'' \<or> take 4 (drop 8 bs) \<noteq> toBytes ''WEBP'' then None
      else
        (let chunk = take 4 (drop 12 bs) in
         if chunk = toBytes ''VP8X'' then Some (sint (le24 bs 24 + 1), sint (le24 bs 27 + 1))
         else if chunk = toBytes ''VP8 '' \<and> 30 \<le> length bs then Some (le14 bs 26, le14 bs 28)
         else if chunk = toBytes ''VP8L'' \<and> 25 \<le> length bs then
           (let bits = le24 bs 21 OR push_bit 24 (ucast (bs ! 24)) in
            Some (sint ((bits AND 0x3FFF) + 1), sint ((drop_bit 14 bits AND 0x3FFF) + 1)))
         else None))"

section \<open>Generating a thumbnail\<close>

definition kMaxPlainThumbnailBytes :: nat where
  "kMaxPlainThumbnailBytes = 150 * 1024"

definition startsWith :: "string \<Rightarrow> string \<Rightarrow> bool" where
  "startsWith value pre \<longleftrightarrow> length pre \<le> length value \<and> take (length pre) value = pre"

definition shouldThumbnail :: "string \<Rightarrow> bool" where
  "shouldThumbnail path \<longleftrightarrow>
     (let mime = inferSafeMimeType path in startsWith mime ''image/'' \<or> startsWith mime ''video/'')"

text \<open>How a child process ends, if it could be started and waited for.\<close>

datatype process_end = No_process | Not_waited | Exited int | Signalled

type_synonym temp_files = "string \<rightharpoonup> bytes"

text \<open>
  \<open>tn_selfExe\<close> is the target of /proc/self/exe, if it can be read; \<open>tn_spawn\<close> what a program does
  with its arguments to the files; \<open>tn_removable\<close> whether a file can be removed.
\<close>

record thumbnail_env =
  tn_selfExe :: "string option"
  tn_exists :: "string \<Rightarrow> bool"
  tn_tempDirectory :: "string result"
  tn_uuid :: string
  tn_spawn :: "string \<Rightarrow> string list \<Rightarrow> temp_files \<Rightarrow> process_end \<times> temp_files"
  tn_readable :: "string \<Rightarrow> bool"
  tn_removable :: "string \<Rightarrow> bool"

definition executableDir :: "thumbnail_env \<Rightarrow> string" where
  "executableDir env = (case tn_selfExe env of None \<Rightarrow> [] | Some path \<Rightarrow> parent_path path)"

definition ffmpegPath :: "thumbnail_env \<Rightarrow> string" where
  "ffmpegPath env =
     (let bundled = path_append (path_append (executableDir env) ''bin'') ''ffmpeg'' in
      if bundled \<noteq> [] \<and> tn_exists env bundled then bundled else ''ffmpeg'')"

definition runProcess :: "thumbnail_env \<Rightarrow> string \<Rightarrow> string list \<Rightarrow> (temp_files, bool) act" where
  "runProcess env program args fs =
     (case tn_spawn env program args fs of
        (e, fs') \<Rightarrow> (Inr (case e of No_process \<Rightarrow> False | Not_waited \<Rightarrow> False | Exited st \<Rightarrow> st = 0 | Signalled \<Rightarrow> False), fs'))"

text \<open>\<open>std::filesystem::remove\<close>: nothing to remove is no error.\<close>

definition removeFile :: "thumbnail_env \<Rightarrow> string \<Rightarrow> (temp_files, unit) act" where
  "removeFile env path fs =
     (if fs path = None then (Inr (), fs)
      else if tn_removable env path then (Inr (), fs(path := None))
      else (Inl (Runtime_error ''filesystem error: cannot remove''), fs))"

text \<open>\<open>file_size\<close> with an error code: the largest value if there is no such file.\<close>

definition fileSize :: "string \<Rightarrow> temp_files \<Rightarrow> nat" where
  "fileSize path fs = (case fs path of None \<Rightarrow> 2 ^ 64 - 1 | Some content \<Rightarrow> length content)"

definition readBytes :: "thumbnail_env \<Rightarrow> string \<Rightarrow> temp_files \<Rightarrow> bytes" where
  "readBytes env path fs =
     (if tn_readable env path then (case fs path of None \<Rightarrow> [] | Some content \<Rightarrow> content) else [])"

definition ffmpegArgs :: "bool \<Rightarrow> string \<Rightarrow> string \<Rightarrow> string list" where
  "ffmpegArgs video path output =
     [''-hide_banner'', ''-loglevel'', ''error'', ''-y''] @
     (if video then [''-ss'', ''00:00:30.000''] else []) @
     [''-i'', path, ''-frames:v'', ''1'', ''-vf'',
      ''scale='' @ [CHR 0x27] @ ''min(320,iw)'' @ [CHR 0x27] @ '':'' @ [CHR 0x27] @ ''min(320,ih)'' @ [CHR 0x27] @
        '':force_original_aspect_ratio=decrease'',
      ''-c:v'', ''libwebp'', ''-quality'', ''70'', ''-f'', ''webp'', output]"

definition thumbnailOf :: "bytes \<Rightarrow> UploadThumbnail option" where
  "thumbnailOf bytes =
     (case webpSize bytes of
        None \<Rightarrow> None
      | Some (width, height) \<Rightarrow>
          if bytes = [] \<or> width \<le> 0 \<or> height \<le> 0 then None
          else Some \<lparr>th_bytes = bytes, th_mime = ''image/webp'', th_width = width, th_height = height\<rparr>)"

text \<open>What follows the process.\<close>

definition finishThumbnail :: "thumbnail_env \<Rightarrow> string \<Rightarrow> bool \<Rightarrow> (temp_files, UploadThumbnail option) act" where
  "finishThumbnail env output ok =
     (if \<not> ok then bindE (removeFile env output) (\<lambda>_. returnE None)
      else
        bindE (getsE (fileSize output)) (\<lambda>size.
        if kMaxPlainThumbnailBytes < size then bindE (removeFile env output) (\<lambda>_. returnE None)
        else
        bindE (getsE (readBytes env output)) (\<lambda>bytes.
        bindE (removeFile env output) (\<lambda>_. returnE (thumbnailOf bytes)))))"

definition generateUploadThumbnail :: "thumbnail_env \<Rightarrow> string \<Rightarrow> (temp_files, UploadThumbnail option) act" where
  "generateUploadThumbnail env path =
     (if \<not> shouldThumbnail path then returnE None
      else
        bindE (liftE (\<lambda>_. tn_tempDirectory env)) (\<lambda>temp.
        let output = path_append temp (''arkive-thumbnail-'' @ tn_uuid env @ ''.webp'');
            video = startsWith (inferSafeMimeType path) ''video/''
        in
        bindE (runProcess env (ffmpegPath env) (ffmpegArgs video path output)) (finishThumbnail env output)))"

section \<open>Sizes read from a header\<close>

lemma byte_bound: "unat (b :: 8 word) < 256"
  using unsigned_less [of b] by simp

lemma bit_byte: "bit (ucast (b :: 8 word) :: 32 word) n \<Longrightarrow> n < 8"
proof -
  assume "bit (ucast b :: 32 word) n"
  then have "bit b n" by (simp add: bit_ucast_iff)
  then have "n < LENGTH(8)" by (rule bit_imp_le_length)
  then show "n < 8" by simp
qed

lemma le24_sum:
  "le24 bs i = ucast (bs ! i) + ucast (bs ! Suc i) * 256 + ucast (bs ! Suc (Suc i)) * 65536"
proof -
  let ?a = "ucast (bs ! i) :: 32 word" and ?b = "push_bit 8 (ucast (bs ! Suc i)) :: 32 word"
    and ?c = "push_bit 16 (ucast (bs ! Suc (Suc i))) :: 32 word"
  have "?a + ?b = ?a OR ?b"
    by (rule disjunctive_add) (auto simp: bit_push_bit_iff dest!: bit_byte)
  moreover have "(?a OR ?b) + ?c = (?a OR ?b) OR ?c"
    by (rule disjunctive_add) (auto simp: bit_push_bit_iff bit_or_iff dest!: bit_byte)
  ultimately show ?thesis by (simp add: le24_def push_bit_eq_mult mult.commute or.assoc)
qed

lemma unat_byte: "unat (ucast (b :: 8 word) :: 32 word) = unat b"
proof -
  have "unat b < 2 ^ 32" using byte_bound [of b] by simp
  then show ?thesis by (simp add: unsigned_ucast_eq take_bit_nat_eq_self)
qed

lemma le24_value: "unat (le24 bs i) = unat (bs ! i) + 256 * unat (bs ! Suc i) + 65536 * unat (bs ! Suc (Suc i))"
proof -
  note b = byte_bound [of "bs ! i"] byte_bound [of "bs ! Suc i"] byte_bound [of "bs ! Suc (Suc i)"]
  show ?thesis using b by (simp add: le24_sum unat_word_ariths unat_byte)
qed

lemma sint_of_nat_small: "unat (w :: 32 word) < 2 ^ 31 \<Longrightarrow> sint w = int (unat w)"
proof -
  assume "unat w < 2 ^ 31"
  then have "uint w < 2 ^ 31" by (metis of_nat_less_iff of_nat_numeral of_nat_power uint_nat)
  moreover have "- (2 ^ 31) \<le> uint w" by (rule order_trans [of _ 0]) simp_all
  ultimately have "signed_take_bit 31 (uint w) = uint w" by (intro signed_take_bit_int_eq_self)
  then show ?thesis by (simp add: sint_uint)
qed

lemma sint_succ: "unat (w :: 32 word) < 2 ^ 30 \<Longrightarrow> sint (w + 1) = int (unat w) + 1"
proof -
  assume w: "unat w < 2 ^ 30"
  then have "unat (w + 1) = unat w + 1" by (simp add: unat_word_ariths)
  then show ?thesis using w sint_of_nat_small [of "w + 1"] by simp
qed

lemma le24_bound: "unat (le24 bs i) < 2 ^ 24"
  using byte_bound [of "bs ! i"] byte_bound [of "bs ! Suc i"] byte_bound [of "bs ! Suc (Suc i)"]
  by (simp add: le24_value)

lemma mask14: "unat ((w :: 32 word) AND 0x3FFF) < 2 ^ 14"
proof -
  have "w AND 0x3FFF = take_bit 14 w" by (simp add: take_bit_eq_mask mask_eq_exp_minus_1)
  then show ?thesis using take_bit_nat_less_exp [of 14 "unat w"] by (simp add: unsigned_take_bit_eq)
qed

lemma sint_succ_range: "unat (w :: 32 word) < 2 ^ 24 \<Longrightarrow> 0 \<le> sint (w + 1) \<and> sint (w + 1) \<le> 2 ^ 24"
proof -
  assume w: "unat w < 2 ^ 24"
  then have "int (unat w) < 2 ^ 24" by (metis of_nat_less_iff of_nat_numeral of_nat_power)
  moreover have "sint (w + 1) = int (unat w) + 1" using w by (intro sint_succ) simp
  ultimately show ?thesis by linarith
qed

lemma le14_bound: "0 \<le> le14 bs i \<and> le14 bs i < 2 ^ 14"
proof -
  have "le14 bs i = take_bit 14 (uint (bs ! i) OR push_bit 8 (uint (bs ! Suc i)))"
    by (simp add: le14_def take_bit_eq_mask mask_eq_exp_minus_1)
  then show ?thesis by (simp only: take_bit_nonnegative take_bit_int_less_exp simp_thms)
qed

lemma webpSize_bound:
  assumes "webpSize bs = Some (w, h)"
  shows "0 \<le> w \<and> w \<le> 2 ^ 24 \<and> 0 \<le> h \<and> h \<le> 2 ^ 24 \<and> 30 \<le> length bs"
proof -
  have le: "0 \<le> sint (le24 bs i + 1) \<and> sint (le24 bs i + 1) \<le> 2 ^ 24" for i
    using sint_succ_range [OF le24_bound] .
  have m: "0 \<le> sint ((x AND 0x3FFF) + 1) \<and> sint ((x AND 0x3FFF) + 1) \<le> 2 ^ 24" for x :: "32 word"
    using mask14 [of x] by (intro sint_succ_range) simp
  have l: "0 \<le> le14 bs i \<and> le14 bs i \<le> 2 ^ 24" for i
    using le14_bound [of bs i] by simp
  show ?thesis
    using assms le [of 24] le [of 27] l [of 26] l [of 28] m
    by (auto simp: webpSize_def Let_def split: if_splits)
qed

text \<open>The extended header as the WebP container format defines it: one less than the sizes, in three bytes.\<close>

definition bytes24 :: "nat \<Rightarrow> bytes" where
  "bytes24 n = [of_nat n, of_nat (n div 256), of_nat (n div 65536)]"

definition extendedHeader :: "bytes \<Rightarrow> bytes \<Rightarrow> nat \<Rightarrow> nat \<Rightarrow> bytes" where
  "extendedHeader riffSize chunkHead w h =
     toBytes ''RIFF'' @ riffSize @ toBytes ''WEBP'' @ toBytes ''VP8X'' @ chunkHead @ bytes24 (w - 1) @ bytes24 (h - 1)"

lemma unat_of_nat_byte: "unat (of_nat n :: 8 word) = n mod 256"
  by (simp add: unat_of_nat)

lemma bytes24_value:
  assumes "n < 2 ^ 24" and "bs ! i = of_nat n" and "bs ! Suc i = of_nat (n div 256)" and "bs ! Suc (Suc i) = of_nat (n div 65536)"
  shows "unat (le24 bs i) = n"
proof -
  have "n div 65536 < 256" using assms(1) by (simp add: less_mult_imp_div_less)
  moreover have "n div 65536 = n div 256 div 256" by (simp add: div_mult2_eq [symmetric])
  moreover have "256 * (n div 256 div 256) + n div 256 mod 256 = n div 256" "256 * (n div 256) + n mod 256 = n"
    by (rule mult_div_mod_eq)+
  moreover have "unat (le24 bs i) = n mod 256 + 256 * (n div 256 mod 256) + 65536 * (n div 65536 mod 256)"
    by (simp only: le24_value assms(2-4) unat_of_nat_byte)
  ultimately show ?thesis by (simp only: mod_less)
qed

lemma webpSize_extendedHeader:
  assumes "length riffSize = 4" and "length chunkHead = 8" and "1 \<le> w" "w \<le> 2 ^ 24" "1 \<le> h" "h \<le> 2 ^ 24"
  shows "webpSize (extendedHeader riffSize chunkHead w h @ rest) = Some (int w, int h)"
proof -
  let ?bs = "extendedHeader riffSize chunkHead w h @ rest"
  obtain r0 r1 r2 r3 where r: "riffSize = [r0, r1, r2, r3]"
    using assms(1) by (auto simp: length_Suc_conv numeral_eq_Suc)
  obtain c0 c1 c2 c3 c4 c5 c6 c7 where c: "chunkHead = [c0, c1, c2, c3, c4, c5, c6, c7]"
    using assms(2) by (auto simp: length_Suc_conv numeral_eq_Suc)
  have bs: "?bs = toBytes ''RIFF'' @ [r0, r1, r2, r3] @ toBytes ''WEBP'' @ toBytes ''VP8X'' @
      [c0, c1, c2, c3, c4, c5, c6, c7] @ bytes24 (w - 1) @ bytes24 (h - 1) @ rest"
    by (simp add: extendedHeader_def r c)
  have w: "unat (le24 ?bs 24) = w - 1"
    by (rule bytes24_value) (use assms in \<open>simp_all add: bs toBytes_def bytes24_def\<close>)
  have h: "unat (le24 ?bs 27) = h - 1"
    by (rule bytes24_value) (use assms in \<open>simp_all add: bs toBytes_def bytes24_def\<close>)
  have "webpSize ?bs = Some (sint (le24 ?bs 24 + 1), sint (le24 ?bs 27 + 1))"
    by (simp add: webpSize_def bs toBytes_def bytes24_def)
  moreover have "sint (le24 ?bs 24 + 1) = int w" using sint_succ [of "le24 ?bs 24"] w assms(3,4) by simp
  moreover have "sint (le24 ?bs 27 + 1) = int h" using sint_succ [of "le24 ?bs 27"] h assms(5,6) by simp
  ultimately show ?thesis by simp
qed

section \<open>Properties\<close>

definition thumbnailFile :: "thumbnail_env \<Rightarrow> string \<Rightarrow> string" where
  "thumbnailFile env temp = path_append temp (''arkive-thumbnail-'' @ tn_uuid env @ ''.webp'')"

lemma removeFile_result:
  "removeFile env path fs = (x, fs') \<Longrightarrow> x = Inr u \<Longrightarrow> fs' = fs(path := None)"
  by (auto simp: removeFile_def split: if_splits)

lemma then_remove:
  assumes "bindE (removeFile env path) (\<lambda>_. returnE y) fs = (Inr r, fs')"
  shows "r = y \<and> fs' = fs(path := None)"
  using assms by (auto simp: bindE_eq_Inr returnE_def dest: removeFile_result)

lemma finishThumbnail_result:
  assumes "finishThumbnail env out ok left = (Inr r, fs')"
  shows "fs' = left(out := None) \<and>
    (case r of
       None \<Rightarrow> True
     | Some th \<Rightarrow> 0 < length (th_bytes th) \<and> length (th_bytes th) \<le> kMaxPlainThumbnailBytes \<and> th_mime th = ''image/webp'' \<and>
         webpSize (th_bytes th) = Some (th_width th, th_height th) \<and>
         1 \<le> th_width th \<and> th_width th \<le> 2 ^ 24 \<and> 1 \<le> th_height th \<and> th_height th \<le> 2 ^ 24)"
proof (cases "\<not> ok \<or> kMaxPlainThumbnailBytes < fileSize out left")
  case True
  then have rm: "bindE (removeFile env out) (\<lambda>_. returnE None) left = (Inr r, fs')"
    using assms by (auto simp: finishThumbnail_def bindE_def [where m = "getsE x" for x] getsE_def split: if_splits)
  show ?thesis using then_remove [OF rm] by simp
next
  case False
  let ?bytes = "readBytes env out left"
  have rm: "bindE (removeFile env out) (\<lambda>_. returnE (thumbnailOf ?bytes)) left = (Inr r, fs')"
    using assms False by (simp add: finishThumbnail_def bindE_def [where m = "getsE x" for x] getsE_def)
  have r: "r = thumbnailOf ?bytes" and fs': "fs' = left(out := None)" using then_remove [OF rm] by simp_all
  have len: "length ?bytes \<le> kMaxPlainThumbnailBytes"
    using False by (auto simp: readBytes_def fileSize_def split: option.splits)
  show ?thesis
  proof (cases "webpSize ?bytes")
    case None
    then show ?thesis using r fs' by (simp add: thumbnailOf_def)
  next
    case (Some wh)
    obtain w h where wh: "wh = (w, h)" by (cases wh)
    note b = webpSize_bound [OF Some [unfolded wh]]
    show ?thesis
      using r fs' Some wh len b by (auto simp: thumbnailOf_def)
  qed
qed


text \<open>An image of two by three pixels, and an ffmpeg that writes it.\<close>

definition demoImage :: bytes where
  "demoImage = extendedHeader [22, 0, 0, 0] [10, 0, 0, 0, 0, 0, 0, 0] 2 3"

definition demo_thumbnail_env :: thumbnail_env where
  "demo_thumbnail_env =
     \<lparr>tn_selfExe = Some ''/opt/arkive/arkive-sync'', tn_exists = \<lambda>_. False, tn_tempDirectory = Inr ''/tmp'',
      tn_uuid = ''u'', tn_spawn = \<lambda>program args fs. (Exited 0, fs(last args \<mapsto> demoImage)),
      tn_readable = \<lambda>_. True, tn_removable = \<lambda>_. True\<rparr>"

lemma demo_thumbnail_run:
  "generateUploadThumbnail demo_thumbnail_env ''/a/b.JPG'' Map.empty =
     (Inr (Some \<lparr>th_bytes = demoImage, th_mime = ''image/webp'', th_width = 2, th_height = 3\<rparr>), Map.empty)"
proof -
  have img: "webpSize demoImage = Some (2, 3)"
    using webpSize_extendedHeader [of "[22, 0, 0, 0]" "[10, 0, 0, 0, 0, 0, 0, 0]" 2 3 "[]"] by (simp add: demoImage_def)
  have len: "length demoImage = 30" by (simp add: demoImage_def extendedHeader_def bytes24_def toBytes_def)
  have sh: "shouldThumbnail ''/a/b.JPG''" and vid: "startsWith (inferSafeMimeType ''/a/b.JPG'') ''video/'' = False"
    and out: "path_append ''/tmp'' (''arkive-thumbnail-'' @ ''u'' @ ''.webp'') = ''/tmp/arkive-thumbnail-u.webp''" by code_simp+
  have l: "last (ffmpegArgs v p out) = out" for v p out by (simp add: ffmpegArgs_def)
  have ne: "demoImage \<noteq> []" using len by auto
  show ?thesis
    by (simp add: generateUploadThumbnail_def finishThumbnail_def thumbnailOf_def sh vid Let_def act_simps demo_thumbnail_env_def out runProcess_def l fileSize_def
        readBytes_def removeFile_def kMaxPlainThumbnailBytes_def img len ne fun_upd_idem)
qed


text \<open>
  The limit for the plain thumbnail is the limit for the encrypted one, and encryption adds bytes:
  a thumbnail close to the limit is generated and encrypted, and then dropped without an error.
\<close>

theorem largest_thumbnail_is_dropped:
  assumes "fe_thumbnail env = Inr (Some th)" and "length (th_bytes th) = kMaxPlainThumbnailBytes"
    and "\<And>key aad plain c. lib_encryptChunk (fe_crypto env) key aad plain = Inr c \<Longrightarrow> length plain < length c"
  shows "\<not> to_has (uploadThumbnail env started fileKey)"
proof (cases "encryptChunk (fe_crypto env) (th_bytes th) fileKey
    (toBytes (makeFileThumbnail (su_vaultId started) (su_fileId started)))")
  case (Inl e)
  then show ?thesis using assms(1) by (simp add: uploadThumbnail_def noThumbnail_def)
next
  case (Inr c)
  then have "length (th_bytes th) < length c" using assms(3) by (auto simp: encryptChunk_def split: if_splits)
  then have "kMaxEncryptedThumbnailBytes < length c"
    using assms(2) by (simp add: kMaxPlainThumbnailBytes_def kMaxEncryptedThumbnailBytes_def)
  then show ?thesis using Inr assms(1) by (simp add: uploadThumbnail_def noThumbnail_def)
qed

end
