(* ===== verification/Process_Setup.thy ===== *)
theory Process_Setup
  imports Codecs Fs_Path
begin

unbundle bit_operations_syntax

text \<open>
  What the process sets up and draws: where its files are (platform/AppDataPaths.cpp, on Linux),
  the database with its migrations (db/Sqlite.cpp), and the random identifiers
  (helpers/GenUUID.cpp, helpers/Hex.cpp). The environment, the files, SQLite and the random
  generator are parameters.
\<close>

section \<open>Paths\<close>

definition requireHomeDirectory :: "(string \<Rightarrow> string option) \<Rightarrow> string result" where
  "requireHomeDirectory getenv =
     (case getenv ''HOME'' of
        None \<Rightarrow> Inl (Runtime_error ''HOME is not set'')
      | Some home \<Rightarrow> if home = [] then Inl (Runtime_error ''HOME is not set'') else Inr home)"

definition appDataDir :: "(string \<Rightarrow> string option) \<Rightarrow> string result" where
  "appDataDir getenv =
     (let homeDir = bindR (requireHomeDirectory getenv) (\<lambda>home. Inr (path_append home ''.local/share/arkive-sync'')) in
      case getenv ''XDG_DATA_HOME'' of
        None \<Rightarrow> homeDir
      | Some dir \<Rightarrow> if dir \<noteq> [] then Inr (path_append dir ''arkive-sync'') else homeDir)"

definition databasePath :: "(string \<Rightarrow> string option) \<Rightarrow> string result" where
  "databasePath getenv = bindR (appDataDir getenv) (\<lambda>dir. Inr (path_append dir ''arkive.db''))"

definition cookieJarPath :: "(string \<Rightarrow> string option) \<Rightarrow> string result" where
  "cookieJarPath getenv = bindR (appDataDir getenv) (\<lambda>dir. Inr (path_append dir ''cookies.txt''))"

definition ipcEndpoint :: "(string \<Rightarrow> string option) \<Rightarrow> string result" where
  "ipcEndpoint getenv =
     (let inData = bindR (appDataDir getenv) (\<lambda>dir. Inr (path_append dir ''arkive-sync.sock'')) in
      case getenv ''XDG_RUNTIME_DIR'' of
        None \<Rightarrow> inData
      | Some dir \<Rightarrow> if dir \<noteq> [] then Inr (path_append dir ''arkive-sync.sock'') else inData)"

section \<open>The database\<close>

text \<open>
  A connection: the schema and the tables, the user version, which SQLite keeps in the same file
  and rolls back with it, and, inside a transaction, both as they were when it began.
\<close>

record 'c database =
  db_content :: 'c
  db_version :: int
  db_saved :: "('c \<times> int) option"

text \<open>
  SQLite and the files. \<open>sq_script\<close> is what a script does to the content until it ends or fails;
  the others tell whether a statement fails, and with which message.
\<close>

record 'c sqlite =
  sq_createDirectories :: "unit result"
  sq_open :: "string option"
  sq_pragma :: "string \<Rightarrow> string option"
  sq_readVersion :: "string option"
  sq_begin :: "string option"
  sq_script :: "string \<Rightarrow> 'c \<Rightarrow> string option \<times> 'c"
  sq_setVersion :: "int \<Rightarrow> string option"
  sq_commit :: "'c \<Rightarrow> string option"
  sq_hasEntries :: "'c \<Rightarrow> bool"
  sq_readFile :: "string \<Rightarrow> string option"

definition failIf :: "string option \<Rightarrow> ('s, unit) act" where
  "failIf problem = (case problem of None \<Rightarrow> returnE () | Some m \<Rightarrow> throwE (Runtime_error m))"

definition beginImmediate :: "'c sqlite \<Rightarrow> ('c database, unit) act" where
  "beginImmediate sq =
     bindE (failIf (sq_begin sq)) (\<lambda>_ d. (Inr (), d\<lparr>db_saved := Some (db_content d, db_version d)\<rparr>))"

definition execScript :: "'c sqlite \<Rightarrow> string \<Rightarrow> ('c database, unit) act" where
  "execScript sq sql d =
     (case sq_script sq sql (db_content d) of (problem, content) \<Rightarrow> failIf problem (d\<lparr>db_content := content\<rparr>))"

definition setUserVersion :: "'c sqlite \<Rightarrow> int \<Rightarrow> ('c database, unit) act" where
  "setUserVersion sq version = bindE (failIf (sq_setVersion sq version)) (\<lambda>_ d. (Inr (), d\<lparr>db_version := version\<rparr>))"

definition commit :: "'c sqlite \<Rightarrow> ('c database, unit) act" where
  "commit sq d = bindE (failIf (sq_commit sq (db_content d))) (\<lambda>_ d. (Inr (), d\<lparr>db_saved := None\<rparr>)) d"

text \<open>The answer of \<open>ROLLBACK\<close> is not looked at.\<close>

definition rollbackDb :: "('c database, unit) act" where
  "rollbackDb d =
     (Inr (), case db_saved d of None \<Rightarrow> d | Some (content, version) \<Rightarrow> \<lparr>db_content = content, db_version = version, db_saved = None\<rparr>)"

definition kMigrations :: "(int \<times> string) list" where
  "kMigrations = [(1, ''001_initial_schema.sql'')]"

definition readTextFile :: "'c sqlite \<Rightarrow> string \<Rightarrow> string result" where
  "readTextFile sq path =
     (case sq_readFile sq path of
        None \<Rightarrow> Inl (Runtime_error (''Failed to open migration file: '' @ path))
      | Some text \<Rightarrow> Inr text)"

definition getUserVersion :: "'c sqlite \<Rightarrow> ('c database, int) act" where
  "getUserVersion sq = bindE (failIf (sq_readVersion sq)) (\<lambda>_. getsE db_version)"

text \<open>One migration, with the roll-back of \<open>catch (...)\<close>.\<close>

definition applyMigration :: "'c sqlite \<Rightarrow> string \<Rightarrow> int \<Rightarrow> string \<Rightarrow> ('c database, unit) act" where
  "applyMigration sq dir version fname =
     bindE (liftE (\<lambda>_. readTextFile sq (path_append dir fname))) (\<lambda>sql.
     bindE (beginImmediate sq) (\<lambda>_.
       catchE
         (bindE (execScript sq sql) (\<lambda>_.
          bindE (setUserVersion sq version) (\<lambda>_. commit sq)))
         (\<lambda>e. bindE rollbackDb (\<lambda>_. throwE e))))"

fun runMigrations :: "'c sqlite \<Rightarrow> string \<Rightarrow> (int \<times> string) list \<Rightarrow> int \<Rightarrow> ('c database, unit) act" where
  "runMigrations sq dir [] currentVersion = returnE ()"
| "runMigrations sq dir ((version, fname) # ms) currentVersion =
     (if version \<le> currentVersion then runMigrations sq dir ms currentVersion
      else bindE (applyMigration sq dir version fname) (\<lambda>_. runMigrations sq dir ms version))"

definition migrateSchema :: "'c sqlite \<Rightarrow> string \<Rightarrow> ('c database, unit) act" where
  "migrateSchema sq dir = bindE (getUserVersion sq) (\<lambda>v. runMigrations sq dir kMigrations v)"

definition verifySchema :: "'c sqlite \<Rightarrow> ('c database, unit) act" where
  "verifySchema sq =
     liftE (\<lambda>d. if sq_hasEntries sq (db_content d) then Inr ()
                else Inl (Runtime_error ''Schema verification failed: entries table was not found after initialization''))"

definition kPragmas :: "string list" where
  "kPragmas = [''PRAGMA cache_size=-65536;'', ''PRAGMA temp_store=FILE;'', ''PRAGMA journal_mode=WAL;'']"

definition initDb :: "'c sqlite \<Rightarrow> string \<Rightarrow> string \<Rightarrow> ('c database, unit) act" where
  "initDb sq dir dbPath =
     bindE (if dbPath \<noteq> [] \<and> dbPath \<noteq> '':memory:'' then liftE (\<lambda>_. sq_createDirectories sq) else returnE ()) (\<lambda>_.
     bindE (failIf (map_option (\<lambda>m. ''Failed to open database: '' @ m) (sq_open sq))) (\<lambda>_.
     bindE (forE kPragmas (\<lambda>p. failIf (sq_pragma sq p))) (\<lambda>_.
     bindE (migrateSchema sq dir) (\<lambda>_. verifySchema sq))))"

section \<open>Random identifiers\<close>

text \<open>\<open>std::hex\<close> with \<open>std::setw\<close> and \<open>std::setfill('0')\<close>.\<close>

fun hexDigits :: "nat \<Rightarrow> string" where
  "hexDigits n = (if n < 16 then [kHex ! n] else hexDigits (n div 16) @ [kHex ! (n mod 16)])"

declare hexDigits.simps [simp del]

definition hexPad :: "nat \<Rightarrow> 32 word \<Rightarrow> string" where
  "hexPad width w = (let s = hexDigits (unat w) in replicate (width - length s) CHR ''0'' @ s)"

text \<open>The draws of the generator, in the order of the output.\<close>

definition generateUUID :: "(nat \<Rightarrow> 32 word) \<Rightarrow> string" where
  "generateUUID gen =
     hexPad 8 (gen 0) @ ''-'' @ hexPad 4 (gen 1 AND 0xFFFF) @ ''-'' @ hexPad 4 ((gen 2 AND 0x0FFF) OR 0x4000) @ ''-'' @
     hexPad 4 ((gen 3 AND 0x3FFF) OR 0x8000) @ ''-'' @ hexPad 8 (gen 4) @ hexPad 4 (gen 5 AND 0xFFFF)"

definition kRandomAlphabet :: string where
  "kRandomAlphabet = ''0123456789abcdefghijklmnopqrstuvwxyz''"

definition generateRandomHex :: "(nat \<Rightarrow> nat) \<Rightarrow> nat \<Rightarrow> string" where
  "generateRandomHex distribution len = map (\<lambda>i. kRandomAlphabet ! distribution i) [0..<len]"

section \<open>Facts\<close>

lemma failIf_simps [simp]: "failIf None d = (Inr (), d)" "failIf (Some m) d = (Inl (Runtime_error m), d)"
  by (simp_all add: failIf_def returnE_def throwE_def)

lemma failIf_keeps: "failIf z d = (x, d') \<Longrightarrow> d' = d"
  by (cases z) auto

lemma forE_failIf_keeps: "forE ps (\<lambda>p. failIf (f p)) d = (x, d') \<Longrightarrow> d' = d"
proof (induction ps arbitrary: d)
  case (Cons p ps)
  then show ?case by (cases "f p") (auto simp: bindE_def)
qed (simp add: returnE_def)

text \<open>A migration is done or leaves the database as it was.\<close>

lemma applyMigration_result:
  assumes "db_saved d = None" and "applyMigration sq dir version fname d = (x, d')"
  shows "(x = Inr () \<and> (\<exists>sql c. sq_readFile sq (path_append dir fname) = Some sql \<and> sq_script sq sql (db_content d) = (None, c) \<and>
      d' = d\<lparr>db_content := c, db_version := version, db_saved := None\<rparr>)) \<or> (\<exists>e. x = Inl e \<and> d' = d)"
proof (cases "sq_readFile sq (path_append dir fname)")
  case None
  then show ?thesis using assms(2) by (auto simp: applyMigration_def readTextFile_def bindE_def liftE_def)
next
  case (Some sql)
  obtain z c where script: "sq_script sq sql (db_content d) = (z, c)" by (rule prod.exhaust)
  have restored: "d\<lparr>db_content := db_content d, db_version := db_version d, db_saved := None\<rparr> = d"
    "\<lparr>db_content = db_content d, db_version = db_version d, db_saved = None\<rparr> = d" using assms(1) by simp_all
  show ?thesis
    using assms(2) Some script restored
    by (cases "sq_begin sq"; cases z; cases "sq_setVersion sq version"; cases "sq_commit sq c")
      (auto simp: applyMigration_def readTextFile_def bindE_def liftE_def catchE_def beginImmediate_def execScript_def
        setUserVersion_def commit_def rollbackDb_def throwE_def)
qed

lemma runMigrations_current: "1 \<le> v \<Longrightarrow> runMigrations sq dir kMigrations v d = (Inr (), d)"
  by (simp add: kMigrations_def returnE_def)

subsection \<open>Digits\<close>

definition digitAt :: "nat \<Rightarrow> nat \<Rightarrow> char" where
  "digitAt v i = kHex ! (v div 16 ^ i mod 16)"

lemma padded_digits:
  "v < 16 ^ Suc n \<Longrightarrow> replicate (Suc n - length (hexDigits v)) CHR ''0'' @ hexDigits v = map (digitAt v) (rev [0..<Suc n])"
proof (induction n arbitrary: v)
  case 0
  then show ?case by (simp add: hexDigits.simps [of v] digitAt_def)
next
  case (Suc n)
  have low: "map (digitAt v) (rev [0..<Suc (Suc n)]) = map (digitAt (v div 16)) (rev [0..<Suc n]) @ [kHex ! (v mod 16)]"
  proof -
    have "rev [0..<Suc (Suc n)] = map Suc (rev [0..<Suc n]) @ [0]"
      by (simp only: upt_conv_Cons [of 0 "Suc (Suc n)"] map_Suc_upt [symmetric] rev.simps rev_map zero_less_Suc)
    moreover have "digitAt v \<circ> Suc = digitAt (v div 16)" by (rule ext) (simp add: digitAt_def div_mult2_eq)
    moreover have "digitAt v 0 = kHex ! (v mod 16)" by (simp add: digitAt_def)
    ultimately show ?thesis by (simp only: map_append list.map map_map)
  qed
  have IH: "replicate (Suc n - length (hexDigits (v div 16))) CHR ''0'' @ hexDigits (v div 16) =
      map (digitAt (v div 16)) (rev [0..<Suc n])"
    by (rule Suc.IH) (use Suc.prems in \<open>simp add: less_mult_imp_div_less\<close>)
  show ?case
  proof (cases "v < 16")
    case True
    then have "hexDigits (v div 16) = ''0''" and "hexDigits v = [kHex ! v]"
      by (simp_all add: hexDigits.simps [of v] hexDigits.simps [of 0] kHex_def)
    then show ?thesis using IH low True by (simp add: replicate_append_same [symmetric])
  next
    case False
    then have "hexDigits v = hexDigits (v div 16) @ [kHex ! (v mod 16)]" by (subst hexDigits.simps) simp
    then show ?thesis using IH low by simp
  qed
qed

lemma hexPad_digits: "unat w < 16 ^ Suc n \<Longrightarrow> hexPad (Suc n) w = map (digitAt (unat w)) (rev [0..<Suc n])"
  by (simp only: hexPad_def Let_def padded_digits)

lemma digitAt_hex: "digitAt v i \<in> set kHex"
proof -
  have "v div 16 ^ i mod 16 < length kHex" by (simp add: kHex_def)
  then show ?thesis unfolding digitAt_def by (rule nth_mem)
qed

lemma masked_below: "unat (w AND 0xFFFF :: 32 word) < 2 ^ 16" "unat (w AND 0x0FFF :: 32 word) < 2 ^ 12" "unat (w AND 0x3FFF :: 32 word) < 2 ^ 14"
proof -
  have "w AND 0xFFFF = take_bit 16 w" "w AND 0x0FFF = take_bit 12 w" "w AND 0x3FFF = take_bit 14 w"
    by (simp_all add: take_bit_eq_mask mask_eq_exp_minus_1)
  then show "unat (w AND 0xFFFF) < 2 ^ 16" "unat (w AND 0x0FFF) < 2 ^ 12" "unat (w AND 0x3FFF) < 2 ^ 14"
    using take_bit_nat_less_exp [of 16 "unat w"] take_bit_nat_less_exp [of 12 "unat w"] take_bit_nat_less_exp [of 14 "unat w"]
    by (simp_all add: unsigned_take_bit_eq)
qed

lemma tagged_value:
  assumes "unat (x :: 32 word) < 2 ^ k" and "k < 32" and "unat x + 2 ^ k * c < 2 ^ 32"
  shows "unat (x OR push_bit k (of_nat c)) = unat x + 2 ^ k * c"
proof -
  have "x = take_bit k x"
    using assms(1) by (metis take_bit_nat_eq_self unsigned_take_bit_eq unsigned_word_eqI)
  then have low: "bit x n \<Longrightarrow> n < k" for n by (metis bit_take_bit_iff)
  have "x + push_bit k (of_nat c) = x OR push_bit k (of_nat c)"
    by (rule disjunctive_add_eq_or) (auto simp: bit_eq_iff bit_simps dest: low)
  moreover have "push_bit k (of_nat c :: 32 word) = of_nat (2 ^ k * c)" by (simp add: push_bit_eq_mult mult.commute)
  moreover have "unat (x + of_nat (2 ^ k * c)) = unat x + 2 ^ k * c"
  proof -
    have "x + of_nat (2 ^ k * c) = of_nat (unat x + 2 ^ k * c)" by simp
    also have "unat \<dots> = (unat x + 2 ^ k * c) mod 2 ^ LENGTH(32)" by (rule unat_of_nat)
    also have "\<dots> = unat x + 2 ^ k * c" using assms(3) by simp
    finally show ?thesis .
  qed
  ultimately show ?thesis by simp
qed

section \<open>Properties\<close>

text \<open>
  C23. Opening a database migrates it completely or not at all: however opening ends, no
  transaction is left open, and schema and version are the ones from before or those after the
  whole script with the new version; if it ends without an exception, the version is current, the
  table of the entries exists, and migrating again changes nothing.
\<close>

theorem migration_all_or_nothing:
  assumes "db_saved d = None" and "initDb sq dir dbPath d = (x, d')"
  shows "db_saved d' = None \<and>
    (d' = d \<or>
     db_version d < 1 \<and> db_version d' = 1 \<and>
       (\<exists>sql. sq_readFile sq (path_append dir ''001_initial_schema.sql'') = Some sql \<and>
          sq_script sq sql (db_content d) = (None, db_content d'))) \<and>
    (x = Inr () \<longrightarrow> 1 \<le> db_version d' \<and> sq_hasEntries sq (db_content d') \<and> migrateSchema sq dir d' = (Inr (), d'))"
proof -
  let ?open = "bindE (if dbPath \<noteq> [] \<and> dbPath \<noteq> '':memory:'' then liftE (\<lambda>_. sq_createDirectories sq) else returnE ()) (\<lambda>_.
     bindE (failIf (map_option (\<lambda>m. ''Failed to open database: '' @ m) (sq_open sq))) (\<lambda>_.
     forE kPragmas (\<lambda>p. failIf (sq_pragma sq p)))) :: ('a database, unit) act"
  have split: "initDb sq dir dbPath d = bindE ?open (\<lambda>_. bindE (migrateSchema sq dir) (\<lambda>_. verifySchema sq)) d"
    by (simp add: initDb_def bindE_def split: prod.splits sum.splits)
  obtain y d1 where o1: "?open d = (y, d1)" by (rule prod.exhaust)
  have d1: "d1 = d"
    using o1 by (auto simp: bindE_def liftE_def returnE_def dest!: failIf_keeps forE_failIf_keeps split: prod.splits sum.splits if_splits)
  show ?thesis
  proof (cases y)
    case (Inl e)
    then show ?thesis using assms split o1 d1 by (auto simp: bindE_def)
  next
    case (Inr u)
    then have rest: "bindE (migrateSchema sq dir) (\<lambda>_. verifySchema sq) d = (x, d')"
      using assms(2) split o1 d1 by (simp add: bindE_def)
    show ?thesis
    proof (cases "sq_readVersion sq")
      case (Some m)
      then show ?thesis using rest assms(1) by (auto simp: migrateSchema_def getUserVersion_def bindE_def)
    next
      case None
      have mig: "migrateSchema sq dir u = runMigrations sq dir kMigrations (db_version u) u" for u :: "'a database"
        using None by (simp add: migrateSchema_def getUserVersion_def bindE_def getsE_def)
      show ?thesis
      proof (cases "1 \<le> db_version d")
        case True
        then have "bindE (migrateSchema sq dir) (\<lambda>_. verifySchema sq) d = verifySchema sq d"
          by (simp add: bindE_def [where m = "migrateSchema x y" for x y] mig runMigrations_current)
        then show ?thesis
          using rest assms(1) True mig by (auto simp: verifySchema_def liftE_def runMigrations_current split: if_splits)
      next
        case False
        obtain z d2 where am: "applyMigration sq dir 1 ''001_initial_schema.sql'' d = (z, d2)" by (rule prod.exhaust)
        have m1: "migrateSchema sq dir d = (z, d2)"
          using False am by (cases z) (simp_all add: mig kMigrations_def bindE_def returnE_def)
        show ?thesis
        proof (cases z)
          case (Inl e)
          then have "d2 = d" using applyMigration_result [OF assms(1) am] by auto
          then show ?thesis using rest m1 Inl assms(1) by (auto simp: bindE_def)
        next
          case (Inr v)
          then obtain sql c where s: "sq_readFile sq (path_append dir ''001_initial_schema.sql'') = Some sql"
            "sq_script sq sql (db_content d) = (None, c)" "d2 = d\<lparr>db_content := c, db_version := 1, db_saved := None\<rparr>"
            using applyMigration_result [OF assms(1) am] by auto
          have "verifySchema sq d2 = (x, d')" using rest m1 Inr by (simp add: bindE_def)
          then have "d' = d2" and "x = Inr () \<longrightarrow> sq_hasEntries sq (db_content d2)"
            by (auto simp: verifySchema_def liftE_def split: if_splits)
          then show ?thesis using s False assms(1) mig runMigrations_current [of "db_version d2" sq dir d2] by auto
        qed
      qed
    qed
  qed
qed

text \<open>A database whose content is the list of the scripts run.\<close>

definition demo_sqlite :: "string list sqlite" where
  "demo_sqlite =
     \<lparr>sq_createDirectories = Inr (), sq_open = None, sq_pragma = \<lambda>_. None, sq_readVersion = None, sq_begin = None,
      sq_script = \<lambda>sql c. (None, c @ [sql]), sq_setVersion = \<lambda>_. None, sq_commit = \<lambda>_. None,
      sq_hasEntries = \<lambda>c. c \<noteq> [], sq_readFile = \<lambda>_. Some ''schema''\<rparr>"

theorem migration_all_or_nothing_witness:
  "initDb demo_sqlite ''/m'' ''/d/arkive.db'' \<lparr>db_content = [], db_version = 0, db_saved = None\<rparr> =
     (Inr (), \<lparr>db_content = [''schema''], db_version = 1, db_saved = None\<rparr>) \<and>
   migrateSchema demo_sqlite ''/m'' \<lparr>db_content = [''schema''], db_version = 1, db_saved = None\<rparr> =
     (Inr (), \<lparr>db_content = [''schema''], db_version = 1, db_saved = None\<rparr>)"
proof -
  have run: "initDb demo_sqlite ''/m'' ''/d/arkive.db'' \<lparr>db_content = [], db_version = 0, db_saved = None\<rparr> =
     (Inr (), \<lparr>db_content = [''schema''], db_version = 1, db_saved = None\<rparr>)" by code_simp
  then show ?thesis using migration_all_or_nothing [OF _ run] by simp
qed

text \<open>
  Whatever the generator draws, an identifier is a version 4 UUID in its canonical form: 36
  characters, four hyphens in their places, lower-case hexadecimal digits everywhere else, the
  version digit 4 and a variant digit among 8, 9, a and b.
\<close>

theorem uuid_is_version_4:
  "\<exists>a b c v d e. generateUUID gen = a @ ''-'' @ b @ ''-4'' @ c @ ''-'' @ [v] @ d @ ''-'' @ e \<and>
     map length [a, b, c, d, e] = [8, 4, 3, 3, 12] \<and> set (a @ b @ c @ d @ e) \<subseteq> set kHex \<and> v \<in> set ''89ab''"
proof -
  let ?d = "\<lambda>w. digitAt (unat (w :: 32 word))"
  have upto: "rev [0..<4] = [3, 2, 1, 0 :: nat]" "rev [0..<8] = [7, 6, 5, 4, 3, 2, 1, 0 :: nat]" by code_simp+
  have four: "hexPad 4 w = [?d w 3, ?d w 2, ?d w 1, ?d w 0]" if "unat w < 65536" for w
    using hexPad_digits [of w 3] that by (simp add: upto)
  have eight: "hexPad 8 w = [?d w 7, ?d w 6, ?d w 5, ?d w 4, ?d w 3, ?d w 2, ?d w 1, ?d w 0]" for w
    using hexPad_digits [of w 7] unsigned_less [of w] by (simp add: upto)
  let ?v = "(gen 2 AND 0x0FFF) OR 0x4000" and ?x = "(gen 3 AND 0x3FFF) OR 0x8000"
  have v: "unat ?v = unat (gen 2 AND 0x0FFF) + 0x4000"
    using tagged_value [of "gen 2 AND 0x0FFF" 12 4] masked_below(2) [of "gen 2"] by (simp add: push_bit_eq_mult)
  have x: "unat ?x = unat (gen 3 AND 0x3FFF) + 0x8000"
    using tagged_value [of "gen 3 AND 0x3FFF" 14 2] masked_below(3) [of "gen 3"] by (simp add: push_bit_eq_mult)
  have vl: "unat ?v < 65536" using v masked_below(2) [of "gen 2"] by simp
  have xl: "unat ?x < 65536" using x masked_below(3) [of "gen 3"] by simp
  have m: "unat (gen 1 AND 0xFFFF) < 65536" "unat (gen 5 AND 0xFFFF) < 65536"
    using masked_below(1) [of "gen 1"] masked_below(1) [of "gen 5"] by simp_all
  have "unat ?v div 4096 = 4" using v masked_below(2) [of "gen 2"] by simp
  then have v4: "?d ?v 3 = CHR ''4''" by (simp add: digitAt_def kHex_def)
  have "unat ?x div 4096 \<in> {8, 9, 10, 11}"
  proof -
    have "8 \<le> unat ?x div 4096" and "unat ?x div 4096 < 12"
      using x masked_below(3) [of "gen 3"] by (simp_all add: less_mult_imp_div_less)
    then show ?thesis by auto
  qed
  then have x4: "?d ?x 3 \<in> set ''89ab''" by (auto simp: digitAt_def kHex_def)
  have uuid: "generateUUID gen = hexPad 8 (gen 0) @ CHR ''-'' # hexPad 4 (gen 1 AND 0xFFFF) @ CHR ''-'' # hexPad 4 ?v @
      CHR ''-'' # hexPad 4 ?x @ CHR ''-'' # hexPad 8 (gen 4) @ hexPad 4 (gen 5 AND 0xFFFF)"
    by (simp add: generateUUID_def)
  let ?b = "hexPad 4 (gen 1 AND 0xFFFF)" and ?e = "hexPad 8 (gen 4) @ hexPad 4 (gen 5 AND 0xFFFF)"
  let ?c = "[?d ?v 2, ?d ?v 1, ?d ?v 0]" and ?r = "[?d ?x 2, ?d ?x 1, ?d ?x 0]"
  have "generateUUID gen = hexPad 8 (gen 0) @ ''-'' @ ?b @ ''-4'' @ ?c @ ''-'' @ [?d ?x 3] @ ?r @ ''-'' @ ?e"
    by (simp only: uuid four [OF vl] four [OF xl] v4) simp
  moreover have "map length [hexPad 8 (gen 0), ?b, ?c, ?r, ?e] = [8, 4, 3, 3, 12]"
    by (simp add: eight four [OF m(1)] four [OF m(2)] del: One_nat_def)
  moreover have "set (hexPad 8 (gen 0) @ ?b @ ?c @ ?r @ ?e) \<subseteq> set kHex"
    by (simp add: eight four [OF m(1)] four [OF m(2)] digitAt_hex del: One_nat_def)
  ultimately show ?thesis using x4
    by (intro exI [of _ "hexPad 8 (gen 0)"] exI [of _ ?b] exI [of _ ?c] exI [of _ "?d ?x 3"] exI [of _ ?r] exI [of _ ?e] conjI)
qed

end
