(* ===== verification/Secure_Storage.thy ===== *)
theory Secure_Storage
  imports Vault_Service
begin

text \<open>
  The secure storage of the vault's session key: libsecret on Linux
  (platform/linux/SecureStorage.cpp), the keychain on macOS (platform/macos/SecureStorage.cpp) and the
  credential manager on Windows (platform/windows/SecureStorage.cpp). The three keyrings, the base64
  functions of glib and the conversions to and from UTF-16 are parameters; releasing their buffers and
  failing allocations are left out. What the vault service relies on follows from what the keyrings
  promise.
\<close>

section \<open>libsecret\<close>

text \<open>
  A password is stored under a service and an account, with a label. A function answers with the
  message of a \<open>GError\<close> or a result.
\<close>

record 'k libsecret =
  ls_store :: "string \<Rightarrow> string \<Rightarrow> string \<Rightarrow> string \<Rightarrow> 'k \<Rightarrow> string option \<times> 'k"
  ls_lookup :: "string \<Rightarrow> string \<Rightarrow> 'k \<Rightarrow> (string + string option) \<times> 'k"
  ls_clear :: "string \<Rightarrow> string \<Rightarrow> 'k \<Rightarrow> string option \<times> 'k"
  ls_encodeBase64 :: "bytes \<Rightarrow> string option"
  ls_decodeBase64 :: "string \<Rightarrow> bytes option"

definition kEmptyNames :: string where
  "kEmptyNames = ''SecureStorage service/account cannot be empty''"

definition linuxEncodeBase64 :: "'k libsecret \<Rightarrow> bytes \<Rightarrow> string result" where
  "linuxEncodeBase64 ls secret =
     (case ls_encodeBase64 ls secret of
        None \<Rightarrow> Inl (Runtime_error ''Failed to base64-encode secret for storage'')
      | Some encoded \<Rightarrow> Inr encoded)"

definition linuxDecodeBase64 :: "'k libsecret \<Rightarrow> string \<Rightarrow> bytes result" where
  "linuxDecodeBase64 ls secret =
     (case ls_decodeBase64 ls secret of
        None \<Rightarrow> Inl (Runtime_error ''Failed to decode stored secret'')
      | Some decoded \<Rightarrow> Inr decoded)"

definition makeSecretError :: "string \<Rightarrow> string \<Rightarrow> exn" where
  "makeSecretError prefix message = Runtime_error (prefix @ '': '' @ message)"

definition linuxStoreSecret :: "'k libsecret \<Rightarrow> string \<Rightarrow> string \<Rightarrow> bytes \<Rightarrow> ('k, unit) act" where
  "linuxStoreSecret ls service account secret k =
     (if service = [] \<or> account = [] then (Inl (Invalid_argument kEmptyNames), k)
      else if secret = [] then (Inl (Invalid_argument ''SecureStorage secret cannot be empty''), k)
      else case linuxEncodeBase64 ls secret of
             Inl e \<Rightarrow> (Inl e, k)
           | Inr encoded \<Rightarrow>
               (case ls_store ls service account (service @ '' '' @ account) encoded k of
                  (None, k') \<Rightarrow> (Inr (), k')
                | (Some m, k') \<Rightarrow> (Inl (makeSecretError ''Failed to store secret'' m), k')))"

definition linuxLoadSecret :: "'k libsecret \<Rightarrow> string \<Rightarrow> string \<Rightarrow> ('k, bytes option) act" where
  "linuxLoadSecret ls service account k =
     (if service = [] \<or> account = [] then (Inl (Invalid_argument kEmptyNames), k)
      else case ls_lookup ls service account k of
             (Inl m, k') \<Rightarrow> (Inl (makeSecretError ''Failed to load secret'' m), k')
           | (Inr None, k') \<Rightarrow> (Inr None, k')
           | (Inr (Some encoded), k') \<Rightarrow> (bindR (linuxDecodeBase64 ls encoded) (\<lambda>bs. Inr (Some bs)), k'))"

definition linuxDeleteSecret :: "'k libsecret \<Rightarrow> string \<Rightarrow> string \<Rightarrow> ('k, unit) act" where
  "linuxDeleteSecret ls service account k =
     (if service = [] \<or> account = [] then (Inl (Invalid_argument kEmptyNames), k)
      else case ls_clear ls service account k of
             (None, k') \<Rightarrow> (Inr (), k')
           | (Some m, k') \<Rightarrow> (Inl (makeSecretError ''Failed to delete secret'' m), k'))"

section \<open>The keychain\<close>

text \<open>
  The answer of a keychain function, as the code tells them apart: success, an item that is there
  already, one that is not there, and any other status with its message.
\<close>

datatype os_status = Status_success | Duplicate_item | Item_not_found | Other_status string

record 'k keychain =
  kc_add :: "string \<Rightarrow> string \<Rightarrow> bytes \<Rightarrow> 'k \<Rightarrow> os_status \<times> 'k"
  kc_update :: "string \<Rightarrow> string \<Rightarrow> bytes \<Rightarrow> 'k \<Rightarrow> os_status \<times> 'k"
  kc_copyMatching :: "string \<Rightarrow> string \<Rightarrow> 'k \<Rightarrow> os_status \<times> bytes option \<times> 'k"
  kc_delete :: "string \<Rightarrow> string \<Rightarrow> 'k \<Rightarrow> os_status \<times> 'k"
  kc_message :: "os_status \<Rightarrow> string"

definition makeKeychainError :: "'k keychain \<Rightarrow> string \<Rightarrow> os_status \<Rightarrow> exn" where
  "makeKeychainError kc prefix st = Runtime_error (prefix @ '': '' @ kc_message kc st)"

definition validateInputs :: "string \<Rightarrow> string \<Rightarrow> bytes option \<Rightarrow> unit result" where
  "validateInputs service account secret =
     (if service = [] \<or> account = [] then Inl (Invalid_argument kEmptyNames)
      else if secret = Some [] then Inl (Invalid_argument ''SecureStorage secret cannot be empty'')
      else Inr ())"

definition macStoreSecret :: "'k keychain \<Rightarrow> string \<Rightarrow> string \<Rightarrow> bytes \<Rightarrow> ('k, unit) act" where
  "macStoreSecret kc service account secret k =
     (case validateInputs service account (Some secret) of
        Inl e \<Rightarrow> (Inl e, k)
      | Inr _ \<Rightarrow>
          (case kc_add kc service account secret k of
             (addStatus, k') \<Rightarrow>
               if addStatus = Duplicate_item then
                 (case kc_update kc service account secret k' of
                    (updateStatus, k'') \<Rightarrow>
                      (if updateStatus \<noteq> Status_success
                       then Inl (makeKeychainError kc ''Failed to update keychain item'' updateStatus) else Inr (), k''))
               else if addStatus \<noteq> Status_success
               then (Inl (makeKeychainError kc ''Failed to store secret'' addStatus), k')
               else (Inr (), k')))"

text \<open>\<open>None\<close> with success stands for a result that is not data.\<close>

definition macLoadSecret :: "'k keychain \<Rightarrow> string \<Rightarrow> string \<Rightarrow> ('k, bytes option) act" where
  "macLoadSecret kc service account k =
     (case validateInputs service account None of
        Inl e \<Rightarrow> (Inl e, k)
      | Inr _ \<Rightarrow>
          (case kc_copyMatching kc service account k of
             (st, data, k') \<Rightarrow>
               (if st = Item_not_found then Inr None
                else if st \<noteq> Status_success then Inl (makeKeychainError kc ''Failed to load secret'' st)
                else case data of
                       None \<Rightarrow> Inl (Runtime_error ''Loaded keychain secret has unexpected type'')
                     | Some bs \<Rightarrow> Inr (Some bs), k')))"

definition macDeleteSecret :: "'k keychain \<Rightarrow> string \<Rightarrow> string \<Rightarrow> ('k, unit) act" where
  "macDeleteSecret kc service account k =
     (case validateInputs service account None of
        Inl e \<Rightarrow> (Inl e, k)
      | Inr _ \<Rightarrow>
          (case kc_delete kc service account k of
             (st, k') \<Rightarrow>
               (if st = Item_not_found then Inr ()
                else if st \<noteq> Status_success then Inl (makeKeychainError kc ''Failed to delete secret'' st)
                else Inr (), k')))"

section \<open>The credential manager\<close>

text \<open>
  A generic credential has a target name and a user name, both wide strings of the Windows API, that
  is up to the first null. A function answers with the error code of \<open>GetLastError\<close> or a result;
  an empty blob and a null one are the same. \<open>cr_format\<close> is the message of an error code in UTF-8,
  if the system has one that can be converted.
\<close>

type_synonym wide = "16 word list"

record 'k credentials =
  cr_wide :: "string \<Rightarrow> wide option"
  cr_format :: "32 word \<Rightarrow> string option"
  cr_write :: "wide \<Rightarrow> wide \<Rightarrow> bytes \<Rightarrow> 'k \<Rightarrow> 32 word option \<times> 'k"
  cr_read :: "wide \<Rightarrow> 'k \<Rightarrow> (32 word + bytes) \<times> 'k"
  cr_delete :: "wide \<Rightarrow> 'k \<Rightarrow> 32 word option \<times> 'k"

definition CRED_MAX_CREDENTIAL_BLOB_SIZE :: nat where
  "CRED_MAX_CREDENTIAL_BLOB_SIZE = 5 * 512"

definition ERROR_NOT_FOUND :: "32 word" where
  "ERROR_NOT_FOUND = 1168"

definition winValidateInputs :: "string \<Rightarrow> string \<Rightarrow> bytes option \<Rightarrow> unit result" where
  "winValidateInputs service account secret =
     (if service = [] \<or> account = [] then Inl (Invalid_argument kEmptyNames)
      else case secret of
             None \<Rightarrow> Inr ()
           | Some x \<Rightarrow>
               if x = [] then Inl (Invalid_argument ''SecureStorage secret cannot be empty'')
               else if length x > CRED_MAX_CREDENTIAL_BLOB_SIZE
               then Inl (Invalid_argument ''SecureStorage secret exceeds Windows Credential Manager blob size limit'')
               else Inr ())"

definition utf8ToWide :: "'k credentials \<Rightarrow> string \<Rightarrow> wide result" where
  "utf8ToWide cr value =
     (if value = [] then Inr []
      else case cr_wide cr value of
             None \<Rightarrow> Inl (Runtime_error ''Failed to convert UTF-8 text to UTF-16'')
           | Some w \<Rightarrow> Inr w)"

text \<open>What the API reads of a wide string that it gets as a pointer.\<close>

definition terminated :: "wide \<Rightarrow> wide" where
  "terminated w = takeWhile (\<lambda>c. c \<noteq> 0) w"

definition windowsErrorMessage :: "'k credentials \<Rightarrow> 32 word \<Rightarrow> string" where
  "windowsErrorMessage cr error =
     (case cr_format cr error of
        None \<Rightarrow> ''Windows error '' @ nat_to_string (unat error)
      | Some message \<Rightarrow> rev (dropWhile (\<lambda>c. c = CHR 0x0D \<or> c = CHR 0x0A \<or> c = CHR '' '') (rev message)))"

definition makeCredentialError :: "'k credentials \<Rightarrow> string \<Rightarrow> 32 word \<Rightarrow> exn" where
  "makeCredentialError cr prefix error = Runtime_error (prefix @ '': '' @ windowsErrorMessage cr error)"

definition targetText :: "string \<Rightarrow> string \<Rightarrow> string" where
  "targetText service account =
     ''arkive-sync:'' @ nat_to_string (length service) @ '':'' @ service @ '':'' @ account"

definition makeTargetName :: "'k credentials \<Rightarrow> string \<Rightarrow> string \<Rightarrow> wide result" where
  "makeTargetName cr service account = utf8ToWide cr (targetText service account)"

definition winStoreSecret :: "'k credentials \<Rightarrow> string \<Rightarrow> string \<Rightarrow> bytes \<Rightarrow> ('k, unit) act" where
  "winStoreSecret cr service account secret =
     bindE (liftE (\<lambda>_. winValidateInputs service account (Some secret))) (\<lambda>_.
     bindE (liftE (\<lambda>_. makeTargetName cr service account)) (\<lambda>targetName.
     bindE (liftE (\<lambda>_. utf8ToWide cr account)) (\<lambda>userName k.
       case cr_write cr (terminated targetName) (terminated userName) secret k of
         (None, k') \<Rightarrow> (Inr (), k')
       | (Some error, k') \<Rightarrow> (Inl (makeCredentialError cr ''Failed to store credential'' error), k'))))"

definition winLoadSecret :: "'k credentials \<Rightarrow> string \<Rightarrow> string \<Rightarrow> ('k, bytes option) act" where
  "winLoadSecret cr service account =
     bindE (liftE (\<lambda>_. winValidateInputs service account None)) (\<lambda>_.
     bindE (liftE (\<lambda>_. makeTargetName cr service account)) (\<lambda>targetName k.
       case cr_read cr (terminated targetName) k of
         (Inr blob, k') \<Rightarrow> (Inr (Some blob), k')
       | (Inl error, k') \<Rightarrow>
           (if error = ERROR_NOT_FOUND then Inr None
            else Inl (makeCredentialError cr ''Failed to load credential'' error), k')))"

definition winDeleteSecret :: "'k credentials \<Rightarrow> string \<Rightarrow> string \<Rightarrow> ('k, unit) act" where
  "winDeleteSecret cr service account =
     bindE (liftE (\<lambda>_. winValidateInputs service account None)) (\<lambda>_.
     bindE (liftE (\<lambda>_. makeTargetName cr service account)) (\<lambda>targetName k.
       case cr_delete cr (terminated targetName) k of
         (None, k') \<Rightarrow> (Inr (), k')
       | (Some error, k') \<Rightarrow>
           (if error = ERROR_NOT_FOUND then Inr ()
            else Inl (makeCredentialError cr ''Failed to delete credential'' error), k')))"

section \<open>What the keyrings promise\<close>

definition libsecret_laws :: "'k libsecret \<Rightarrow> bool" where
  "libsecret_laws ls \<longleftrightarrow>
     (\<forall>s a l t k k'. ls_store ls s a l t k = (None, k') \<longrightarrow> fst (ls_lookup ls s a k') = Inr (Some t)) \<and>
     (\<forall>s a k k'. ls_clear ls s a k = (None, k') \<longrightarrow> fst (ls_lookup ls s a k') = Inr None) \<and>
     (\<forall>bs t. ls_encodeBase64 ls bs = Some t \<longrightarrow> ls_decodeBase64 ls t = Some bs)"

definition keychain_laws :: "'k keychain \<Rightarrow> bool" where
  "keychain_laws kc \<longleftrightarrow>
     (\<forall>s a x k k'. kc_add kc s a x k = (Status_success, k') \<longrightarrow>
        (\<exists>k''. kc_copyMatching kc s a k' = (Status_success, Some x, k''))) \<and>
     (\<forall>s a x k k'. kc_update kc s a x k = (Status_success, k') \<longrightarrow>
        (\<exists>k''. kc_copyMatching kc s a k' = (Status_success, Some x, k''))) \<and>
     (\<forall>s a k k' st. kc_delete kc s a k = (st, k') \<longrightarrow> st = Status_success \<or> st = Item_not_found \<longrightarrow>
        (\<exists>d k''. kc_copyMatching kc s a k' = (Item_not_found, d, k'')))"

text \<open>
  The credential manager keeps a credential under each target name; the conversion to UTF-16 is
  injective where it succeeds and a null stands for a null.
\<close>

definition credential_laws :: "'k credentials \<Rightarrow> bool" where
  "credential_laws cr \<longleftrightarrow>
     (\<forall>t u x k k'. cr_write cr t u x k = (None, k') \<longrightarrow> fst (cr_read cr t k') = Inr x) \<and>
     (\<forall>t t' u x k k'. cr_write cr t u x k = (None, k') \<longrightarrow> t' \<noteq> t \<longrightarrow> fst (cr_read cr t' k') = fst (cr_read cr t' k)) \<and>
     (\<forall>t k k' e. cr_delete cr t k = (e, k') \<longrightarrow> e = None \<or> e = Some ERROR_NOT_FOUND \<longrightarrow>
        fst (cr_read cr t k') = Inl ERROR_NOT_FOUND) \<and>
     (\<forall>v v' w. cr_wide cr v = Some w \<longrightarrow> cr_wide cr v' = Some w \<longrightarrow> v = v') \<and>
     (\<forall>v w. cr_wide cr v = Some w \<longrightarrow> CHR 0x00 \<notin> set v \<longrightarrow> 0 \<notin> set w)"

section \<open>Properties\<close>

text \<open>The vault service on each storage.\<close>

definition onLibsecret :: "'k vault_env \<Rightarrow> 'k libsecret \<Rightarrow> 'k vault_env" where
  "onLibsecret env ls =
     env\<lparr>ve_storeSecret := linuxStoreSecret ls, ve_loadSecret := linuxLoadSecret ls, ve_deleteSecret := linuxDeleteSecret ls\<rparr>"

definition onKeychain :: "'k vault_env \<Rightarrow> 'k keychain \<Rightarrow> 'k vault_env" where
  "onKeychain env kc =
     env\<lparr>ve_storeSecret := macStoreSecret kc, ve_loadSecret := macLoadSecret kc, ve_deleteSecret := macDeleteSecret kc\<rparr>"

definition onCredentials :: "'k vault_env \<Rightarrow> 'k credentials \<Rightarrow> 'k vault_env" where
  "onCredentials env cr =
     env\<lparr>ve_storeSecret := winStoreSecret cr, ve_loadSecret := winLoadSecret cr, ve_deleteSecret := winDeleteSecret cr\<rparr>"

text \<open>A secret that is stored leaves those under other names alone, for names without a null.\<close>

definition secrets_apart :: "'k vault_env \<Rightarrow> bool" where
  "secrets_apart env \<longleftrightarrow>
     (\<forall>svc a svc' a' x s s'. CHR 0x00 \<notin> set (svc @ a @ svc' @ a') \<longrightarrow> (svc', a') \<noteq> (svc, a) \<longrightarrow>
        ve_storeSecret env svc a x s = (Inr (), s') \<longrightarrow> fst (ve_loadSecret env svc' a' s') = fst (ve_loadSecret env svc' a' s))"

definition key_laws :: "'k vault_env \<Rightarrow> bool" where
  "key_laws env \<longleftrightarrow>
     (\<forall>n k w a b. k \<noteq> [] \<longrightarrow> ve_wrapMasterKey env n k w a = Inr b \<longrightarrow> b \<noteq> [] \<and> ve_unwrapMasterKey env b w a = Inr k) \<and>
     (\<forall>n k. ve_generateMasterKey env n = Inr k \<longrightarrow> k \<noteq> []) \<and>
     (\<forall>bs h. ve_sha256HashHex env bs = Inr h \<longrightarrow> h \<noteq> [])"

lemma linux_store_load:
  assumes "libsecret_laws ls" and "linuxStoreSecret ls s a x k = (Inr (), k')"
  shows "fst (linuxLoadSecret ls s a k') = Inr (Some x)"
proof -
  obtain t where ne: "s \<noteq> []" "a \<noteq> []" and e: "ls_encodeBase64 ls x = Some t"
    and st: "ls_store ls s a (s @ '' '' @ a) t k = (None, k')"
    using assms(2) by (auto simp: linuxStoreSecret_def linuxEncodeBase64_def split: if_splits option.splits prod.splits)
  have "fst (ls_lookup ls s a k') = Inr (Some t)" and "ls_decodeBase64 ls t = Some x"
    using assms(1) st e unfolding libsecret_laws_def by blast+
  then show ?thesis using ne by (auto simp: linuxLoadSecret_def linuxDecodeBase64_def split: prod.splits)
qed

lemma linux_delete_load:
  assumes "libsecret_laws ls" and "linuxDeleteSecret ls s a k = (Inr (), k')"
  shows "fst (linuxLoadSecret ls s a k') = Inr None"
proof -
  have ne: "s \<noteq> []" "a \<noteq> []" and cl: "ls_clear ls s a k = (None, k')"
    using assms(2) by (auto simp: linuxDeleteSecret_def split: if_splits option.splits prod.splits)
  have "fst (ls_lookup ls s a k') = Inr None" using assms(1) cl unfolding libsecret_laws_def by blast
  then show ?thesis using ne by (auto simp: linuxLoadSecret_def split: prod.splits)
qed

lemma mac_store_load:
  assumes "keychain_laws kc" and "macStoreSecret kc s a x k = (Inr (), k')"
  shows "fst (macLoadSecret kc s a k') = Inr (Some x)"
proof -
  have ok: "validateInputs s a (Some x) = Inr ()"
    using assms(2) by (cases "validateInputs s a (Some x)") (auto simp: macStoreSecret_def)
  then have ok': "validateInputs s a None = Inr ()" by (auto simp: validateInputs_def split: if_splits)
  obtain st k1 where add: "kc_add kc s a x k = (st, k1)" by (rule prod.exhaust)
  have "\<exists>k''. kc_copyMatching kc s a k' = (Status_success, Some x, k'')"
  proof (cases "st = Duplicate_item")
    case True
    then have "kc_update kc s a x k1 = (Status_success, k')"
      using assms(2) ok add by (auto simp: macStoreSecret_def split: prod.splits if_splits)
    then show ?thesis using assms(1) unfolding keychain_laws_def by blast
  next
    case False
    then have "kc_add kc s a x k = (Status_success, k')"
      using assms(2) ok add by (auto simp: macStoreSecret_def split: if_splits)
    then show ?thesis using assms(1) unfolding keychain_laws_def by blast
  qed
  then show ?thesis using ok' by (auto simp: macLoadSecret_def)
qed

lemma mac_delete_load:
  assumes "keychain_laws kc" and "macDeleteSecret kc s a k = (Inr (), k')"
  shows "fst (macLoadSecret kc s a k') = Inr None"
proof -
  have ok: "validateInputs s a None = Inr ()"
    using assms(2) by (cases "validateInputs s a None") (auto simp: macDeleteSecret_def)
  obtain st k1 where del: "kc_delete kc s a k = (st, k1)" by (rule prod.exhaust)
  then have "k1 = k'" and "st = Status_success \<or> st = Item_not_found"
    using assms(2) ok by (auto simp: macDeleteSecret_def split: if_splits)
  then obtain d k'' where "kc_copyMatching kc s a k' = (Item_not_found, d, k'')"
    using assms(1) del unfolding keychain_laws_def by blast
  then show ?thesis using ok by (simp add: macLoadSecret_def)
qed

lemma digit_not_null: "d < 10 \<Longrightarrow> CHR 0x00 \<noteq> digit_char d"
proof -
  have "\<forall>d\<in>set [0..<10]. CHR 0x00 \<noteq> digit_char d" by code_simp
  then show "d < 10 \<Longrightarrow> ?thesis" by simp
qed

lemma nat_to_string_no_null: "CHR 0x00 \<notin> set (nat_to_string n)"
proof (induction n rule: nat_to_string.induct)
  case (1 n)
  then show ?case by (cases "n < 10") (auto simp: nat_to_string.simps [of n] simp: digit_not_null)
qed

text \<open>The length in front makes the name of a target unambiguous, whatever the two names contain.\<close>

lemma targetText_inj: "targetText s a = targetText s' a' \<longleftrightarrow> s = s' \<and> a = a'"
proof
  assume eq: "targetText s a = targetText s' a'"
  have cut: "takeWhile (\<lambda>c. c \<noteq> CHR '':'') (nat_to_string n @ CHR '':'' # r) = nat_to_string n" for n r
    using nat_to_string_chars [of _ n] by (subst takeWhile_append2) auto
  have rest: "nat_to_string (length s) @ CHR '':'' # s @ CHR '':'' # a = nat_to_string (length s') @ CHR '':'' # s' @ CHR '':'' # a'"
    using eq by (simp add: targetText_def)
  then have "nat_to_string (length s) = nat_to_string (length s')" using cut by metis
  then have "length s = length s'" and "s @ CHR '':'' # a = s' @ CHR '':'' # a'"
    using rest by (simp_all add: nat_to_string_inj)
  then show "s = s' \<and> a = a'" by simp
qed simp

lemma targetText_null: "CHR 0x00 \<in> set (targetText s a) \<Longrightarrow> CHR 0x00 \<in> set (s @ a)"
  using nat_to_string_no_null by (auto simp: targetText_def)

lemma makeTargetName_apart:
  assumes "credential_laws cr" and "CHR 0x00 \<notin> set (s @ a @ s' @ a')" and "(s', a') \<noteq> (s, a)"
    and "makeTargetName cr s a = Inr w" and "makeTargetName cr s' a' = Inr w'"
  shows "terminated w' \<noteq> terminated w"
proof -
  have w: "cr_wide cr (targetText s a) = Some w" "cr_wide cr (targetText s' a') = Some w'"
    using assms(4,5) by (auto simp: makeTargetName_def utf8ToWide_def targetText_def split: option.splits)
  moreover have "CHR 0x00 \<notin> set (targetText s a)" "CHR 0x00 \<notin> set (targetText s' a')"
    using assms(2) targetText_null [of s a] targetText_null [of s' a'] by auto
  ultimately have "0 \<notin> set w" "0 \<notin> set w'" using assms(1) unfolding credential_laws_def by blast+
  then have "terminated w = w" "terminated w' = w'" by (auto simp: terminated_def takeWhile_eq_all_conv)
  moreover have "w' \<noteq> w"
  proof
    assume "w' = w"
    then have "targetText s a = targetText s' a'" using w assms(1) unfolding credential_laws_def by blast
    then show False using assms(3) by (simp add: targetText_inj)
  qed
  ultimately show ?thesis by simp
qed

lemma winStoreSecret_done:
  assumes "winStoreSecret cr s a x k = (Inr (), k')"
  obtains w u where "s \<noteq> []" "a \<noteq> []" "makeTargetName cr s a = Inr w" "cr_write cr (terminated w) u x k = (None, k')"
  using assms by (auto simp: winStoreSecret_def winValidateInputs_def act_simps split: if_splits sum.splits option.splits prod.splits)

lemma winLoadSecret_target:
  assumes "s \<noteq> []" and "a \<noteq> []" and "makeTargetName cr s a = Inr w"
  shows "fst (winLoadSecret cr s a k) =
    (case fst (cr_read cr (terminated w) k) of
       Inr blob \<Rightarrow> Inr (Some blob)
     | Inl e \<Rightarrow> if e = ERROR_NOT_FOUND then Inr None else Inl (makeCredentialError cr ''Failed to load credential'' e))"
  using assms by (auto simp: winLoadSecret_def winValidateInputs_def act_simps split: sum.splits prod.splits)

lemma win_store_load:
  assumes "credential_laws cr" and "winStoreSecret cr s a x k = (Inr (), k')"
  shows "fst (winLoadSecret cr s a k') = Inr (Some x)"
proof -
  obtain w u where ne: "s \<noteq> []" "a \<noteq> []" "makeTargetName cr s a = Inr w" and "cr_write cr (terminated w) u x k = (None, k')"
    using assms(2) by (rule winStoreSecret_done)
  then have "fst (cr_read cr (terminated w) k') = Inr x" using assms(1) unfolding credential_laws_def by blast
  then show ?thesis by (simp add: winLoadSecret_target [OF ne])
qed

lemma win_delete_load:
  assumes "credential_laws cr" and "winDeleteSecret cr s a k = (Inr (), k')"
  shows "fst (winLoadSecret cr s a k') = Inr None"
proof -
  obtain w e where ne: "s \<noteq> []" "a \<noteq> []" "makeTargetName cr s a = Inr w"
    and "cr_delete cr (terminated w) k = (e, k')" "e = None \<or> e = Some ERROR_NOT_FOUND"
    using assms(2) by (auto simp: winDeleteSecret_def winValidateInputs_def act_simps split: if_splits sum.splits option.splits prod.splits)
  then have "fst (cr_read cr (terminated w) k') = Inl ERROR_NOT_FOUND" using assms(1) unfolding credential_laws_def by blast
  then show ?thesis by (simp add: winLoadSecret_target [OF ne])
qed

lemma win_store_apart:
  assumes "credential_laws cr" and "CHR 0x00 \<notin> set (s @ a @ s' @ a')" and "(s', a') \<noteq> (s, a)"
    and "winStoreSecret cr s a x k = (Inr (), k')"
  shows "fst (winLoadSecret cr s' a' k') = fst (winLoadSecret cr s' a' k)"
proof -
  obtain w u where w: "makeTargetName cr s a = Inr w" and wr: "cr_write cr (terminated w) u x k = (None, k')"
    using assms(4) by (rule winStoreSecret_done)
  show ?thesis
  proof (cases "s' \<noteq> [] \<and> a' \<noteq> [] \<and> (\<exists>w'. makeTargetName cr s' a' = Inr w')")
    case True
    then obtain w' where ne: "s' \<noteq> []" "a' \<noteq> []" "makeTargetName cr s' a' = Inr w'" by blast
    have "terminated w' \<noteq> terminated w" by (rule makeTargetName_apart [OF assms(1-3) w ne(3)])
    then have "fst (cr_read cr (terminated w') k') = fst (cr_read cr (terminated w') k)"
      using assms(1) wr unfolding credential_laws_def by blast
    then show ?thesis by (simp add: winLoadSecret_target [OF ne])
  next
    case False
    then show ?thesis
      by (cases "makeTargetName cr s' a'") (auto simp: winLoadSecret_def winValidateInputs_def act_simps)
  qed
qed

text \<open>
  C21. The vault can rely on the keyring of every platform: on Linux the secret goes through base64
  and libsecret, on macOS through an insertion that becomes an update when the item exists, on
  Windows into a credential whose target name is made of the service and the account; on each, a
  secret that was stored without an exception is loaded as the same bytes, and one that was deleted,
  present or not, is not found. Together with the laws of the cryptographic library these are all
  the vault service assumes of its storage. On Windows two names never share a target, although it is
  one text made of both: a secret that is stored leaves those under other names as they were.
\<close>

theorem keyrings_serve_vault:
  assumes "key_laws env" and "libsecret_laws ls" and "keychain_laws kc" and "credential_laws cr"
  shows "vault_laws (onLibsecret env ls) \<and> vault_laws (onKeychain env kc) \<and> vault_laws (onCredentials env cr) \<and>
    secrets_apart (onCredentials env cr)"
proof (intro conjI)
  show "vault_laws (onLibsecret env ls)"
    using assms(1)
    by (auto simp: vault_laws_def onLibsecret_def key_laws_def intro: linux_store_load [OF assms(2)] linux_delete_load [OF assms(2)])
  show "vault_laws (onKeychain env kc)"
    using assms(1)
    by (auto simp: vault_laws_def onKeychain_def key_laws_def intro: mac_store_load [OF assms(3)] mac_delete_load [OF assms(3)])
  show "vault_laws (onCredentials env cr)"
    using assms(1)
    by (auto simp: vault_laws_def onCredentials_def key_laws_def intro: win_store_load [OF assms(4)] win_delete_load [OF assms(4)])
  show "secrets_apart (onCredentials env cr)"
    using win_store_apart [OF assms(4)] by (auto simp: secrets_apart_def onCredentials_def)
qed

text \<open>Keyrings that keep an association list.\<close>

definition demo_libsecret :: "(((string \<times> string) + wide) \<times> string) list libsecret" where
  "demo_libsecret =
     \<lparr>ls_store = \<lambda>s a _ t k. (None, (Inl (s, a), t) # k), ls_lookup = \<lambda>s a k. (Inr (map_of k (Inl (s, a))), k),
      ls_clear = \<lambda>s a k. (None, filter (\<lambda>p. fst p \<noteq> Inl (s, a)) k),
      ls_encodeBase64 = \<lambda>bs. Some (encodeBase64 bs),
      ls_decodeBase64 = \<lambda>t. (case decodeBase64 t of Inl _ \<Rightarrow> None | Inr bs \<Rightarrow> Some bs)\<rparr>"

definition demo_keychain :: "(((string \<times> string) + wide) \<times> string) list keychain" where
  "demo_keychain =
     \<lparr>kc_add = \<lambda>s a x k. if map_of k (Inl (s, a)) = None then (Status_success, (Inl (s, a), encodeBase64 x) # k) else (Duplicate_item, k),
      kc_update = \<lambda>s a x k. (Status_success, (Inl (s, a), encodeBase64 x) # k),
      kc_copyMatching = \<lambda>s a k. (case map_of k (Inl (s, a)) of
          None \<Rightarrow> (Item_not_found, None, k)
        | Some t \<Rightarrow> (Status_success, (case decodeBase64 t of Inl _ \<Rightarrow> None | Inr bs \<Rightarrow> Some bs), k)),
      kc_delete = \<lambda>s a k. (Status_success, filter (\<lambda>p. fst p \<noteq> Inl (s, a)) k), kc_message = \<lambda>_. []\<rparr>"

text \<open>A conversion that widens every byte, and the credentials of the demo keyring, by their names.\<close>

definition demo_widen :: "string \<Rightarrow> wide" where
  "demo_widen v = map (\<lambda>c. of_nat (of_char c)) v"

definition demo_credentials :: "(((string \<times> string) + wide) \<times> string) list credentials" where
  "demo_credentials =
     \<lparr>cr_wide = \<lambda>v. Some (demo_widen v), cr_format = \<lambda>_. Some ''Element not found.'',
      cr_write = \<lambda>t _ x k. (None, (Inr t, encodeBase64 x) # filter (\<lambda>p. fst p \<noteq> Inr t) k),
      cr_read = \<lambda>t k. (case map_of k (Inr t) of None \<Rightarrow> Inl ERROR_NOT_FOUND
        | Some e \<Rightarrow> (case decodeBase64 e of Inl _ \<Rightarrow> Inl 1 | Inr bs \<Rightarrow> Inr bs), k),
      cr_delete = \<lambda>t k. (None, filter (\<lambda>p. fst p \<noteq> Inr t) k)\<rparr>"

lemma map_of_cleared: "map_of (filter (\<lambda>p. fst p \<noteq> q) k) q = None"
  by (induction k) auto

definition demo_key_env :: "(((string \<times> string) + wide) \<times> string) list vault_env" where
  "demo_key_env =
     \<lparr>ve_clock = \<lambda>_. ''now'', ve_derivePasswordKek = \<lambda>p _. Inr (toBytes p),
      ve_generateMasterKey = \<lambda>_. Inr [7], ve_wrapMasterKey = \<lambda>_ k _ _. Inr k,
      ve_unwrapMasterKey = \<lambda>b _ _. Inr b, ve_sha256HashHex = \<lambda>_. Inr ''digest'',
      ve_storeSecret = \<lambda>_ _ _. returnE (), ve_loadSecret = \<lambda>_ _. returnE None, ve_deleteSecret = \<lambda>_ _. returnE ()\<rparr>"

lemma map_of_cleared_other: "q \<noteq> q' \<Longrightarrow> map_of (filter (\<lambda>p. fst p \<noteq> q) k) q' = map_of k q'"
  by (induction k) auto

lemma demo_widen_inj: "demo_widen v = demo_widen v' \<longleftrightarrow> v = v'"
proof -
  have "inj (\<lambda>c. of_nat (of_char c) :: 16 word)"
  proof (rule injI)
    fix c d :: char assume "(of_nat (of_char c) :: 16 word) = of_nat (of_char d)"
    then have "unat (of_nat (of_char c) :: 16 word) = unat (of_nat (of_char d) :: 16 word)" by simp
    moreover have "of_char x < (2 :: nat) ^ 16" for x
      using nat_of_char_less_256 [of x] by (rule less_trans) simp
    ultimately have "of_char c = (of_char d :: nat)" by (simp add: unat_of_nat take_bit_nat_eq_self)
    then show "c = d" by simp
  qed
  then show ?thesis unfolding demo_widen_def by (simp add: inj_map_eq_map)
qed

lemma demo_widen_null: "0 \<in> set (demo_widen v) \<Longrightarrow> CHR 0x00 \<in> set v"
proof -
  assume "0 \<in> set (demo_widen v)"
  then obtain c where c: "c \<in> set v" "demo_widen [c] = demo_widen [CHR 0x00]" by (auto simp: demo_widen_def)
  then show ?thesis unfolding demo_widen_inj by simp
qed

lemma demo_credential_laws: "credential_laws demo_credentials"
  unfolding credential_laws_def
proof (intro conjI allI impI)
  fix v w assume "cr_wide demo_credentials v = Some w" and "CHR 0x00 \<notin> set v"
  then show "0 \<notin> set w" using demo_widen_null by (auto simp: demo_credentials_def)
qed (auto simp: demo_credentials_def map_of_cleared map_of_cleared_other demo_widen_inj base64.decode_encode)

theorem keyrings_serve_vault_witness:
  "vault_laws (onLibsecret demo_key_env demo_libsecret) \<and> vault_laws (onKeychain demo_key_env demo_keychain) \<and>
   vault_laws (onCredentials demo_key_env demo_credentials) \<and> secrets_apart (onCredentials demo_key_env demo_credentials)"
proof (rule keyrings_serve_vault)
  show "credential_laws demo_credentials" by (rule demo_credential_laws)
  show "key_laws demo_key_env" by (simp add: key_laws_def demo_key_env_def)
  show "libsecret_laws demo_libsecret"
    by (simp add: libsecret_laws_def demo_libsecret_def map_of_cleared base64.decode_encode)
  show "keychain_laws demo_keychain"
    by (auto simp: keychain_laws_def demo_keychain_def map_of_cleared base64.decode_encode split: if_splits)
qed

end
