(* ===== verification/File_Writers.thy ===== *)
theory File_Writers
  imports Download Process_Setup
begin

text \<open>
  The atomic file writers of the three platforms (platform/linux/filewriter,
  platform/macos/filewriter, platform/windows/filewriter) at the level of their system calls, and
  the download over them (download/DownloadService.cpp) with both of its rollbacks.

  Every system call takes the next of a list of answers, so that each can fail, be interrupted or
  write less than it was asked for. When the list is used up the process has come to an
  end there, and the files are as they are then: \<open>None\<close> is a crash, at any point. What an
  operating system still holds in its caches is left aside.
\<close>

section \<open>Runs over system calls\<close>

datatype os_answer = Interrupted | Fails string | Returns nat

record writing =
  wr_files :: "string \<rightharpoonup> bytes"
  wr_answers :: "os_answer list"
  wr_open :: bool
  wr_committed :: bool

type_synonym 'a run = "writing \<Rightarrow> 'a result option \<times> writing"

definition returnW :: "'a \<Rightarrow> 'a run" where
  "returnW x s = (Some (Inr x), s)"

definition throwW :: "exn \<Rightarrow> 'a run" where
  "throwW e s = (Some (Inl e), s)"

definition bindW :: "'a run \<Rightarrow> ('a \<Rightarrow> 'b run) \<Rightarrow> 'b run" where
  "bindW m f s =
     (case m s of (None, s') \<Rightarrow> (None, s') | (Some (Inl e), s') \<Rightarrow> (Some (Inl e), s') | (Some (Inr x), s') \<Rightarrow> f x s')"

definition catchW :: "'a run \<Rightarrow> (exn \<Rightarrow> 'a run) \<Rightarrow> 'a run" where
  "catchW m h s = (case m s of (Some (Inl e), s') \<Rightarrow> h e s' | (r, s') \<Rightarrow> (r, s'))"

text \<open>A value with a destructor: \<open>cleanup\<close> runs however the body is left.\<close>

definition finallyW :: "'a run \<Rightarrow> unit run \<Rightarrow> 'a run" where
  "finallyW m cleanup s =
     (case m s of
        (None, s') \<Rightarrow> (None, s')
      | (Some r, s') \<Rightarrow> (case cleanup s' of (None, s'') \<Rightarrow> (None, s'') | (Some _, s'') \<Rightarrow> (Some r, s'')))"

definition liftW :: "'a result \<Rightarrow> 'a run" where
  "liftW r s = (Some r, s)"

definition modifyW :: "(writing \<Rightarrow> writing) \<Rightarrow> unit run" where
  "modifyW f s = (Some (Inr ()), f s)"

definition systemCall :: "os_answer run" where
  "systemCall s = (case wr_answers s of [] \<Rightarrow> (None, s) | a # rest \<Rightarrow> (Some (Inr a), s\<lparr>wr_answers := rest\<rparr>))"

definition failure :: "os_answer \<Rightarrow> string option" where
  "failure a = (case a of Interrupted \<Rightarrow> Some ''Interrupted system call'' | Fails r \<Rightarrow> Some r | Returns _ \<Rightarrow> None)"

definition sysError :: "string \<Rightarrow> string \<Rightarrow> exn" where
  "sysError message reason = Runtime_error (message @ '': '' @ reason)"

text \<open>A call that either takes effect or is reported with a message.\<close>

definition checkedCall :: "string \<Rightarrow> (writing \<Rightarrow> writing) \<Rightarrow> unit run" where
  "checkedCall message effect =
     bindW systemCall (\<lambda>a. case failure a of
       Some reason \<Rightarrow> throwW (sysError message reason)
     | None \<Rightarrow> modifyW effect)"

text \<open>A call whose failure nobody looks at.\<close>

definition uncheckedCall :: "(writing \<Rightarrow> writing) \<Rightarrow> unit run" where
  "uncheckedCall effect = bindW systemCall (\<lambda>a. if failure a = None then modifyW effect else returnW ())"

section \<open>The writers\<close>

definition tempPathOf :: "string \<Rightarrow> (nat \<Rightarrow> nat) \<Rightarrow> string" where
  "tempPathOf target draws = target @ ''.arkive-'' @ generateRandomHex draws 8 @ ''.tmp''"

definition contentOf :: "string \<Rightarrow> writing \<Rightarrow> bytes" where
  "contentOf path s = (case wr_files s path of None \<Rightarrow> [] | Some c \<Rightarrow> c)"

definition setContent :: "string \<Rightarrow> bytes \<Rightarrow> writing \<Rightarrow> writing" where
  "setContent path c s = s\<lparr>wr_files := (wr_files s)(path \<mapsto> c)\<rparr>"

text \<open>The constructors: the directories, and the temporary file, which is emptied if it is there.\<close>

definition newWriter :: "string \<Rightarrow> string \<Rightarrow> unit run" where
  "newWriter message temp =
     bindW (checkedCall ''filesystem error: cannot create directories'' id) (\<lambda>_.
       checkedCall message (\<lambda>s. setContent temp [] (s\<lparr>wr_open := True, wr_committed := False\<rparr>)))"

text \<open>\<open>rollback\<close>, which is also the destructor.\<close>

definition rollbackWriter :: "string \<Rightarrow> unit run" where
  "rollbackWriter temp =
     bindW (\<lambda>s. if wr_open s then bindW (uncheckedCall id) (\<lambda>_. modifyW (\<lambda>s. s\<lparr>wr_open := False\<rparr>)) s else returnW () s) (\<lambda>_ s.
       if wr_committed s then returnW () s
       else uncheckedCall (\<lambda>s. s\<lparr>wr_files := (wr_files s)(temp := None)\<rparr>) s)"

definition closeHandle :: "string \<Rightarrow> unit run" where
  "closeHandle message s =
     (if wr_open s
      then catchW (bindW (checkedCall message id) (\<lambda>_. modifyW (\<lambda>s. s\<lparr>wr_open := False\<rparr>)))
             (\<lambda>e. bindW (modifyW (\<lambda>s. s\<lparr>wr_open := False\<rparr>)) (\<lambda>_. throwW e)) s
      else returnW () s)"

text \<open>
  The loop of \<open>writeAt\<close>; \<open>step\<close> makes the calls for the rest of the data and says how many bytes
  it got rid of. A round makes at least one call, so there are no more rounds than answers.
\<close>

fun writeRounds :: "(64 word \<Rightarrow> bytes \<Rightarrow> nat run) \<Rightarrow> nat \<Rightarrow> 64 word \<Rightarrow> bytes \<Rightarrow> unit run" where
  "writeRounds step rounds off [] = returnW ()"
| "writeRounds step 0 off (b # data) = (\<lambda>s. (None, s))"
| "writeRounds step (Suc rounds) off (b # data) =
     bindW (step off (b # data)) (\<lambda>k. writeRounds step rounds (off + of_nat k) (drop k (b # data)))"

definition writeAtWith :: "(64 word \<Rightarrow> bytes \<Rightarrow> nat run) \<Rightarrow> 64 word \<Rightarrow> bytes \<Rightarrow> unit run" where
  "writeAtWith step off data s = writeRounds step (Suc (length (wr_answers s))) off data s"

text \<open>\<open>pwrite\<close> takes a signed offset and returns a signed count.\<close>

definition pwriteStep :: "string \<Rightarrow> 64 word \<Rightarrow> bytes \<Rightarrow> nat run" where
  "pwriteStep temp off data =
     bindW systemCall (\<lambda>a. case a of
       Interrupted \<Rightarrow> returnW 0
     | Fails reason \<Rightarrow> throwW (sysError ''pwrite failed'' reason)
     | Returns n \<Rightarrow>
         if sint off < 0 then throwW (sysError ''pwrite failed'' ''Invalid argument'')
         else
           let k = min n (min (length data) (2 ^ 63 - 1)) in
           if k = 0 then throwW (Runtime_error ''pwrite wrote 0 bytes'')
           else bindW (modifyW (\<lambda>s. setContent temp (overwrite (unat off) (take k data) (contentOf temp s)) s)) (\<lambda>_.
             returnW k))"

definition MAXDWORD :: nat where
  "MAXDWORD = 2 ^ 32 - 1"

definition windowsStep :: "string \<Rightarrow> 64 word \<Rightarrow> bytes \<Rightarrow> nat run" where
  "windowsStep temp off data =
     bindW (checkedCall ''SetFilePointerEx failed'' id) (\<lambda>_.
       if sint off < 0 then throwW (sysError ''SetFilePointerEx failed'' ''negative seek'')
       else bindW systemCall (\<lambda>a. case a of
         Returns n \<Rightarrow>
           let k = min n (min (length data) MAXDWORD) in
           if k = 0 then throwW (Runtime_error ''WriteFile wrote 0 bytes'')
           else bindW (modifyW (\<lambda>s. setContent temp (overwrite (unat off) (take k data) (contentOf temp s)) s)) (\<lambda>_.
             returnW k)
       | _ \<Rightarrow> throwW (sysError ''WriteFile failed'' (the (failure a)))))"

definition resizeWith :: "(nat \<Rightarrow> 8 word) \<Rightarrow> nat \<Rightarrow> bytes \<Rightarrow> bytes" where
  "resizeWith fill n c = take n c @ map fill [length c..<n]"

definition linuxPreallocate :: "string \<Rightarrow> 64 word \<Rightarrow> unit run" where
  "linuxPreallocate temp len =
     bindW systemCall (\<lambda>a. case failure a of
       Some reason \<Rightarrow> throwW (sysError ''posix_fallocate failed'' reason)
     | None \<Rightarrow> (\<lambda>s. bindW (liftW (preallocate len (contentOf temp s))) (\<lambda>c. modifyW (setContent temp c)) s))"

definition macosPreallocate :: "string \<Rightarrow> 64 word \<Rightarrow> unit run" where
  "macosPreallocate temp len =
     bindW (checkedCall ''ftruncate failed'' id) (\<lambda>_.
       if sint len < 0 then throwW (sysError ''ftruncate failed'' ''Invalid argument'')
       else modifyW (\<lambda>s. setContent temp (resizeWith (\<lambda>_. 0) (unat len) (contentOf temp s)) s))"

text \<open>What the bytes of a file are that Windows has made longer is not defined.\<close>

definition windowsPreallocate :: "(nat \<Rightarrow> 8 word) \<Rightarrow> string \<Rightarrow> 64 word \<Rightarrow> unit run" where
  "windowsPreallocate junk temp len =
     bindW (checkedCall ''SetFilePointerEx failed'' id) (\<lambda>_.
       if sint len < 0 then throwW (sysError ''SetFilePointerEx failed'' ''negative seek'')
       else checkedCall ''SetEndOfFile failed''
         (\<lambda>s. setContent temp (resizeWith junk (unat len) (contentOf temp s)) s))"

text \<open>Renaming replaces the target in one step.\<close>

definition renameTemp :: "string \<Rightarrow> string \<Rightarrow> writing \<Rightarrow> writing" where
  "renameTemp temp target s = s\<lparr>wr_files := (wr_files s)(target := wr_files s temp, temp := None)\<rparr>"

definition markCommitted :: "unit run" where
  "markCommitted = modifyW (\<lambda>s. s\<lparr>wr_committed := True\<rparr>)"

definition posixCommit :: "string \<Rightarrow> string \<Rightarrow> string \<Rightarrow> unit run" where
  "posixCommit syncMessage temp target =
     bindW (checkedCall syncMessage id) (\<lambda>_.
     bindW (closeHandle ''close failed'') (\<lambda>_.
     bindW (checkedCall ''filesystem error: cannot rename'' (renameTemp temp target)) (\<lambda>_.
     bindW systemCall (\<lambda>dirFd.
     bindW (if failure dirFd = None then bindW (uncheckedCall id) (\<lambda>_. uncheckedCall id) else returnW ()) (\<lambda>_.
       markCommitted)))))"

definition windowsCommit :: "string \<Rightarrow> string \<Rightarrow> unit run" where
  "windowsCommit temp target =
     bindW (checkedCall ''FlushFileBuffers failed'' id) (\<lambda>_.
     bindW (closeHandle ''CloseHandle failed'') (\<lambda>_.
     bindW (checkedCall ''MoveFileExW failed'' (renameTemp temp target)) (\<lambda>_.
       markCommitted)))"

text \<open>The interface \<open>AtomicFileWriter\<close> and its three implementations.\<close>

record writer =
  wo_new :: "string \<Rightarrow> unit run"
  wo_preallocate :: "string \<Rightarrow> 64 word \<Rightarrow> unit run"
  wo_writeAt :: "string \<Rightarrow> 64 word \<Rightarrow> bytes \<Rightarrow> unit run"
  wo_commit :: "string \<Rightarrow> string \<Rightarrow> unit run"

datatype platform = Linux | Macos | Windows "nat \<Rightarrow> 8 word"

fun createAtomicFileWriter :: "platform \<Rightarrow> writer" where
  "createAtomicFileWriter Linux =
     \<lparr>wo_new = newWriter ''open temp file failed'', wo_preallocate = linuxPreallocate,
      wo_writeAt = (\<lambda>temp. writeAtWith (pwriteStep temp)), wo_commit = posixCommit ''fdatasync failed''\<rparr>"
| "createAtomicFileWriter Macos =
     \<lparr>wo_new = newWriter ''open temp file failed'', wo_preallocate = macosPreallocate,
      wo_writeAt = (\<lambda>temp. writeAtWith (pwriteStep temp)), wo_commit = posixCommit ''fsync failed''\<rparr>"
| "createAtomicFileWriter (Windows junk) =
     \<lparr>wo_new = newWriter ''CreateFileW temp file failed'', wo_preallocate = windowsPreallocate junk,
      wo_writeAt = (\<lambda>temp. writeAtWith (windowsStep temp)), wo_commit = windowsCommit\<rparr>"

section \<open>A download over a writer\<close>

fun fetchChunks :: "writer \<Rightarrow> download_env \<Rightarrow> FileRecordResponse \<Rightarrow> bytes \<Rightarrow> string \<Rightarrow> DownloadChunk list \<Rightarrow> unit run" where
  "fetchChunks ops env record fileKey temp [] = returnW ()"
| "fetchChunks ops env record fileKey temp (chunk # chunks) =
     bindW (liftW (bindR (de_getRange env (fr_sourceUrl record) (dc_cipherStart chunk) (dc_cipherSize chunk)) (\<lambda>encrypted.
       lib_decryptChunk (de_crypto env) fileKey
         (toBytes (makeFileChunk (fr_vaultId record) (fr_fileId record) (to_int32 (dc_index chunk + 1))
            (sint (fr_chunkSize record)) (sint (fr_totalChunks record)))) encrypted))) (\<lambda>plaintext.
     bindW (wo_writeAt ops temp (dc_plainStart chunk) plaintext) (\<lambda>_.
       fetchChunks ops env record fileKey temp chunks))"

definition downloadThrough :: "writer \<Rightarrow> download_env \<Rightarrow> (nat \<Rightarrow> nat) \<Rightarrow> string \<Rightarrow> string \<Rightarrow> unit run" where
  "downloadThrough ops env draws fileId target =
     (let temp = tempPathOf target draws in
      bindW (liftW (de_getFileRecord env fileId)) (\<lambda>record.
      bindW (liftW (decryptRecord env record)) (\<lambda>decrypted.
      bindW (wo_new ops temp) (\<lambda>_.
        finallyW
          (bindW (wo_preallocate ops temp (dm_size (dr_manifest decrypted))) (\<lambda>_.
             catchW
               (bindW (fetchChunks ops env record (dr_fileKey decrypted) temp (dm_chunks (dr_manifest decrypted))) (\<lambda>_.
                  wo_commit ops temp target))
               (\<lambda>e. bindW (rollbackWriter temp) (\<lambda>_. throwW e))))
          (rollbackWriter temp)))))"

section \<open>What a run leaves behind\<close>

text \<open>
  What holds when a run that starts in \<open>P\<close> returns, throws, or comes to an end in the middle.
\<close>

fun post :: "('a \<Rightarrow> writing \<Rightarrow> bool) \<Rightarrow> (writing \<Rightarrow> bool) \<Rightarrow> (writing \<Rightarrow> bool) \<Rightarrow> 'a result option \<times> writing \<Rightarrow> bool" where
  "post N E C (None, s) = C s"
| "post N E C (Some (Inl e), s) = E s"
| "post N E C (Some (Inr x), s) = N x s"

definition triple :: "(writing \<Rightarrow> bool) \<Rightarrow> 'a run \<Rightarrow> ('a \<Rightarrow> writing \<Rightarrow> bool) \<Rightarrow> (writing \<Rightarrow> bool) \<Rightarrow> (writing \<Rightarrow> bool) \<Rightarrow> bool" where
  "triple P m N E C \<longleftrightarrow> (\<forall>s. P s \<longrightarrow> post N E C (m s))"

lemma run_cases:
  obtains (stopped) s' where "p = (None, s')" | (threw) e s' where "p = (Some (Inl e), s')"
    | (returned) x s' where "p = (Some (Inr x), s' :: writing)"
  by (cases p) (metis option.exhaust old.sum.exhaust)

lemma tripleD: "triple P m N E C \<Longrightarrow> P s \<Longrightarrow> post N E C (m s)"
  by (simp add: triple_def)

lemma tripleI: "(\<And>s. P s \<Longrightarrow> post N E C (m s)) \<Longrightarrow> triple P m N E C"
  by (simp add: triple_def)

lemma post_mono:
  assumes "post N' E' C' p" and "\<And>x s. N' x s \<Longrightarrow> N x s" and "\<And>s. E' s \<Longrightarrow> E s" and "\<And>s. C' s \<Longrightarrow> C s"
  shows "post N E C p"
  using assms by (cases p rule: run_cases) auto

lemma triple_weaken:
  assumes "triple P' m N' E' C'" and "\<And>s. P s \<Longrightarrow> P' s" and "\<And>x s. N' x s \<Longrightarrow> N x s" and "\<And>s. E' s \<Longrightarrow> E s"
    and "\<And>s. C' s \<Longrightarrow> C s"
  shows "triple P m N E C"
proof (rule tripleI)
  fix s assume "P s"
  then have "post N' E' C' (m s)" using tripleD [OF assms(1)] assms(2) by simp
  then show "post N E C (m s)" by (rule post_mono) (rule assms(3,4,5), assumption)+
qed

lemma triple_bind:
  assumes "triple P m M E C" and "\<And>x. triple (M x) (f x) N E C"
  shows "triple P (bindW m f) N E C"
proof (rule tripleI)
  fix s assume "P s"
  then have "post M E C (m s)" by (rule tripleD [OF assms(1)])
  then show "post N E C (bindW m f s)"
    using tripleD [OF assms(2)] by (cases "m s" rule: run_cases) (auto simp: bindW_def)
qed

lemma triple_catch:
  assumes "triple P m N E C" and "\<And>e. triple E (h e) N E' C"
  shows "triple P (catchW m h) N E' C"
proof (rule tripleI)
  fix s assume "P s"
  then have "post N E C (m s)" by (rule tripleD [OF assms(1)])
  then show "post N E' C (catchW m h s)"
    using tripleD [OF assms(2)] by (cases "m s" rule: run_cases) (auto simp: catchW_def)
qed

lemma triple_finally:
  assumes "triple P m N E C" and "\<And>x. triple (N x) cleanup (\<lambda>_. N' x) (N' x) C" and "triple E cleanup (\<lambda>_. E') E' C"
  shows "triple P (finallyW m cleanup) N' E' C"
proof (rule tripleI)
  fix s assume "P s"
  then have p: "post N E C (m s)" by (rule tripleD [OF assms(1)])
  show "post N' E' C (finallyW m cleanup s)"
  proof (cases "m s" rule: run_cases)
    case (stopped s')
    then show ?thesis using p by (simp add: finallyW_def)
  next
    case (threw e s')
    then have "post (\<lambda>_. E') E' C (cleanup s')" using p tripleD [OF assms(3)] by simp
    then show ?thesis
      by (cases "cleanup s'" rule: run_cases) (simp_all add: finallyW_def threw)
  next
    case (returned x s')
    then have "post (\<lambda>_. N' x) (N' x) C (cleanup s')" using p tripleD [OF assms(2)] by simp
    then show ?thesis
      by (cases "cleanup s'" rule: run_cases) (simp_all add: finallyW_def returned)
  qed
qed

lemma triple_return: "(\<And>s. P s \<Longrightarrow> N x s) \<Longrightarrow> triple P (returnW x) N E C"
  by (simp add: triple_def returnW_def)

lemma triple_throw: "(\<And>s. P s \<Longrightarrow> E s) \<Longrightarrow> triple P (throwW e) N E C"
  by (simp add: triple_def throwW_def)

lemma triple_modify: "(\<And>s. P s \<Longrightarrow> N () (f s)) \<Longrightarrow> triple P (modifyW f) N E C"
  by (simp add: triple_def modifyW_def)

lemma triple_lift:
  assumes "\<And>s x. P s \<Longrightarrow> r = Inr x \<Longrightarrow> N x s" and "\<And>s e. P s \<Longrightarrow> r = Inl e \<Longrightarrow> E s"
  shows "triple P (liftW r) N E C"
  using assms by (cases r) (simp_all add: triple_def liftW_def)

lemma triple_if:
  assumes "\<And>s. P s \<Longrightarrow> b s \<Longrightarrow> Q s" "triple Q m N E C" and "\<And>s. P s \<Longrightarrow> \<not> b s \<Longrightarrow> Q' s" "triple Q' m' N E C"
  shows "triple P (\<lambda>s. if b s then m s else m' s) N E C"
  using assms unfolding triple_def by auto

text \<open>No call has to be taken back: the answers that are left are as good as before.\<close>

definition clean :: "writing \<Rightarrow> bool" where
  "clean s \<longleftrightarrow> (\<forall>a\<in>set (wr_answers s). failure a = None)"

lemma triple_systemCall:
  assumes "\<And>s a rest. P s \<Longrightarrow> wr_answers s = a # rest \<Longrightarrow> N a (s\<lparr>wr_answers := rest\<rparr>)" and "\<And>s. P s \<Longrightarrow> C s"
  shows "triple P systemCall N E C"
  using assms by (auto simp: triple_def systemCall_def split: list.split)

text \<open>The files, whether the download is committed, and, if \<open>b\<close>, that no call is going to fail.\<close>

definition at :: "(string \<rightharpoonup> bytes) \<Rightarrow> bool \<Rightarrow> bool \<Rightarrow> writing \<Rightarrow> bool" where
  "at f b k s \<longleftrightarrow> wr_files s = f \<and> (b \<longrightarrow> clean s) \<and> wr_committed s = k"

lemma at_answer: "at f b k s \<Longrightarrow> wr_answers s = a # rest \<Longrightarrow> at f b k (s\<lparr>wr_answers := rest\<rparr>) \<and> (b \<longrightarrow> failure a = None)"
  by (simp add: at_def clean_def)

lemma triple_checked:
  assumes "\<And>s. at f b k s \<Longrightarrow> N () (g s)" and "\<And>s. at f b k s \<Longrightarrow> \<not> b \<Longrightarrow> E s" and "\<And>s. at f b k s \<Longrightarrow> C s"
  shows "triple (at f b k) (checkedCall message g) N E C"
  unfolding checkedCall_def
proof (rule triple_bind)
  show "triple (at f b k) systemCall (\<lambda>a s. at f b k s \<and> (b \<longrightarrow> failure a = None)) E C"
    by (rule triple_systemCall) (use at_answer assms(3) in blast)+
  show "triple (\<lambda>s. at f b k s \<and> (b \<longrightarrow> failure a = None))
      (case failure a of None \<Rightarrow> modifyW g | Some reason \<Rightarrow> throwW (sysError message reason)) N E C" for a
    using assms by (cases "failure a") (auto intro!: triple_modify triple_throw)
qed

lemma triple_unchecked:
  assumes "\<And>s. at f b k s \<Longrightarrow> N () (g s)" and "\<And>s. at f b k s \<Longrightarrow> \<not> b \<Longrightarrow> N () s" and "\<And>s. at f b k s \<Longrightarrow> C s"
  shows "triple (at f b k) (uncheckedCall g) N E C"
  unfolding uncheckedCall_def
proof (rule triple_bind)
  show "triple (at f b k) systemCall (\<lambda>a s. at f b k s \<and> (b \<longrightarrow> failure a = None)) E C"
    by (rule triple_systemCall) (use at_answer assms(3) in blast)+
  show "triple (\<lambda>s. at f b k s \<and> (b \<longrightarrow> failure a = None)) (if failure a = None then modifyW g else returnW ()) N E C" for a
    using assms by (auto intro!: triple_modify triple_return)
qed

lemma closeHandle_triple: "triple (at f b k) (closeHandle message) (\<lambda>_. at f b k) (at f b k) (at f b k)"
proof -
  have shut: "triple (at f b k) (modifyW (\<lambda>s. s\<lparr>wr_open := False\<rparr>)) (\<lambda>_. at f b k) (at f b k) (at f b k)"
    by (rule triple_modify) (simp add: at_def clean_def)
  have "triple (at f b k) (catchW (bindW (checkedCall message id) (\<lambda>_. modifyW (\<lambda>s. s\<lparr>wr_open := False\<rparr>)))
      (\<lambda>e. bindW (modifyW (\<lambda>s. s\<lparr>wr_open := False\<rparr>)) (\<lambda>_. throwW e))) (\<lambda>_. at f b k) (at f b k) (at f b k)"
    by (rule triple_catch [where E = "at f b k"]; rule triple_bind [where M = "\<lambda>_. at f b k"])
      (auto intro!: shut triple_checked triple_throw)
  then show ?thesis
    unfolding closeHandle_def [abs_def]
    by (intro triple_if [where Q = "at f b k" and Q' = "at f b k"]) (auto intro!: triple_return)
qed

text \<open>After a rollback without a commit the temporary file is gone, unless a call failed.\<close>

definition undone :: "(string \<rightharpoonup> bytes) \<Rightarrow> string \<Rightarrow> bool \<Rightarrow> writing \<Rightarrow> bool" where
  "undone f temp b s \<longleftrightarrow> (\<exists>x. at (f(temp := x)) b False s \<and> (b \<longrightarrow> x = None))"

definition mid :: "(string \<rightharpoonup> bytes) \<Rightarrow> string \<Rightarrow> bool \<Rightarrow> writing \<Rightarrow> bool" where
  "mid f temp b s \<longleftrightarrow> (\<exists>x. at (f(temp := x)) b False s)"

lemma close_triple:
  "triple (at f b k) (\<lambda>s. if wr_open s then bindW (uncheckedCall id) (\<lambda>_. modifyW (\<lambda>s. s\<lparr>wr_open := False\<rparr>)) s else returnW () s)
    (\<lambda>_. at f b k) E (at f b k)"
proof (rule triple_if [where Q = "at f b k" and Q' = "at f b k"])
  show "triple (at f b k) (bindW (uncheckedCall id) (\<lambda>_. modifyW (\<lambda>s. s\<lparr>wr_open := False\<rparr>))) (\<lambda>_. at f b k) E (at f b k)"
    by (rule triple_bind [where M = "\<lambda>_. at f b k"])
      (auto intro!: triple_unchecked triple_modify simp: at_def clean_def)
  show "triple (at f b k) (returnW ()) (\<lambda>_. at f b k) E (at f b k)" by (rule triple_return)
qed simp_all

lemma rollback_triple:
  "triple (mid f temp b) (rollbackWriter temp) (\<lambda>_. undone f temp b) E (mid f temp b)"
proof (rule tripleI)
  fix s assume "mid f temp b s"
  then obtain x where s: "at (f(temp := x)) b False s" by (auto simp: mid_def)
  have "triple (at (f(temp := x)) b False) (rollbackWriter temp) (\<lambda>_. undone f temp b) E (mid f temp b)"
    unfolding rollbackWriter_def
  proof (rule triple_bind)
    show "triple (at (f(temp := x)) b False)
        (\<lambda>s. if wr_open s then bindW (uncheckedCall id) (\<lambda>_. modifyW (\<lambda>s. s\<lparr>wr_open := False\<rparr>)) s else returnW () s)
        (\<lambda>_. at (f(temp := x)) b False) E (mid f temp b)"
      by (rule triple_weaken [OF close_triple]) (auto simp: mid_def)
    show "triple (at (f(temp := x)) b False)
        (\<lambda>s. if wr_committed s then returnW () s else uncheckedCall (\<lambda>s. s\<lparr>wr_files := (wr_files s)(temp := None)\<rparr>) s)
        (\<lambda>_. undone f temp b) E (mid f temp b)"
    proof (rule triple_if [where Q = "\<lambda>_. False" and Q' = "at (f(temp := x)) b False"])
      show "triple (at (f(temp := x)) b False) (uncheckedCall (\<lambda>s. s\<lparr>wr_files := (wr_files s)(temp := None)\<rparr>))
          (\<lambda>_. undone f temp b) E (mid f temp b)"
        by (rule triple_unchecked) (auto simp: undone_def mid_def at_def clean_def)
      show "triple (\<lambda>_. False) (returnW ()) (\<lambda>_. undone f temp b) E (mid f temp b)" by (simp add: triple_return)
    qed (auto simp: at_def)
  qed
  then show "post (\<lambda>_. undone f temp b) E (mid f temp b) (rollbackWriter temp s)" using s by (rule tripleD)
qed

lemma rollback_committed:
  "triple (at f b True) (rollbackWriter temp) (\<lambda>_. at f b True) E (at f b True)"
  unfolding rollbackWriter_def
proof (rule triple_bind)
  show "triple (at f b True) (\<lambda>s. if wr_committed s then returnW () s
      else uncheckedCall (\<lambda>s. s\<lparr>wr_files := (wr_files s)(temp := None)\<rparr>) s) (\<lambda>_. at f b True) E (at f b True)"
    by (rule triple_if [where Q = "at f b True" and Q' = "\<lambda>_. False"])
      (auto simp: at_def triple_def returnW_def)
qed (rule close_triple)

section \<open>What a writer promises\<close>

text \<open>What is in the target's place when the download has been committed.\<close>

definition fresh :: "(64 word \<Rightarrow> bytes result) \<Rightarrow> download_env \<Rightarrow> string \<Rightarrow> bytes \<Rightarrow> bool" where
  "fresh blank env fileId t \<longleftrightarrow>
     (\<exists>record d c. de_getFileRecord env fileId = Inr record \<and> decryptRecord env record = Inr d \<and>
        blank (dm_size (dr_manifest d)) = Inr c \<and> downloadChunks env record (dr_fileKey d) (dm_chunks (dr_manifest d)) c = Inr t)"

text \<open>
  The contract of \<open>AtomicFileWriter\<close>: only the temporary file changes, until \<open>commit\<close> puts it in
  the place of the target. \<open>blank\<close> is what preallocation makes of an empty file.
\<close>

locale atomic_writer =
  fixes ops :: writer and blank :: "64 word \<Rightarrow> bytes result"
  assumes new_file: "triple (at f b k) (wo_new ops temp) (\<lambda>_. at (f(temp \<mapsto> [])) b False) (at f b k) (at f b k)"
    and preallocated: "triple (at (f(temp \<mapsto> [])) b False) (wo_preallocate ops temp len)
      (\<lambda>_ s. \<exists>c. blank len = Inr c \<and> at (f(temp \<mapsto> c)) b False s) (mid f temp b) (mid f temp b)"
    and written: "triple (at (f(temp \<mapsto> c)) b False) (wo_writeAt ops temp off data)
      (\<lambda>_. at (f(temp \<mapsto> writeAll (unat off) data c)) b False) (mid f temp b) (mid f temp b)"
    and committed: "target \<noteq> temp \<Longrightarrow> triple (at (f(temp \<mapsto> c)) b False) (wo_commit ops temp target)
      (\<lambda>_. at (f(target \<mapsto> c, temp := None)) b True) (mid f temp b)
      (\<lambda>s. mid f temp b s \<or> at (f(target \<mapsto> c, temp := None)) b False s)"
begin

lemma fetched:
  "triple (at (f(temp \<mapsto> c)) b False) (fetchChunks ops env record fileKey temp chunks)
    (\<lambda>_ s. \<exists>c'. downloadChunks env record fileKey chunks c = Inr c' \<and> at (f(temp \<mapsto> c')) b False s) (mid f temp b) (mid f temp b)"
proof (induction chunks arbitrary: c)
  case Nil
  show ?case by (auto intro!: triple_return)
next
  case (Cons chunk chunks)
  let ?plain = "bindR (de_getRange env (fr_sourceUrl record) (dc_cipherStart chunk) (dc_cipherSize chunk)) (\<lambda>encrypted.
       lib_decryptChunk (de_crypto env) fileKey
         (toBytes (makeFileChunk (fr_vaultId record) (fr_fileId record) (to_int32 (dc_index chunk + 1))
            (sint (fr_chunkSize record)) (sint (fr_totalChunks record)))) encrypted)"
  have chunk: "downloadChunk env record fileKey chunk c = bindR ?plain (\<lambda>p. Inr (writeAll (unat (dc_plainStart chunk)) p c))"
    by (cases "de_getRange env (fr_sourceUrl record) (dc_cipherStart chunk) (dc_cipherSize chunk)") (simp_all add: downloadChunk_def)
  show ?case
    unfolding fetchChunks.simps
  proof (rule triple_bind [where M = "\<lambda>p s. ?plain = Inr p \<and> at (f(temp \<mapsto> c)) b False s"])
    show "triple (at (f(temp \<mapsto> c)) b False) (liftW ?plain) (\<lambda>p s. ?plain = Inr p \<and> at (f(temp \<mapsto> c)) b False s)
        (mid f temp b) (mid f temp b)"
      by (rule triple_lift) (auto simp: mid_def)
  next
    fix p
    show "triple (\<lambda>s. ?plain = Inr p \<and> at (f(temp \<mapsto> c)) b False s)
        (bindW (wo_writeAt ops temp (dc_plainStart chunk) p) (\<lambda>_. fetchChunks ops env record fileKey temp chunks))
        (\<lambda>_ s. \<exists>c'. downloadChunks env record fileKey (chunk # chunks) c = Inr c' \<and> at (f(temp \<mapsto> c')) b False s)
        (mid f temp b) (mid f temp b)"
    proof (cases "?plain = Inr p")
      case True
      then have *: "downloadChunks env record fileKey (chunk # chunks) c =
          downloadChunks env record fileKey chunks (writeAll (unat (dc_plainStart chunk)) p c)"
        by (simp add: chunk)
      show ?thesis
        by (rule triple_weaken [OF triple_bind [OF written Cons.IH]]) (use * in \<open>simp_all only:\<close>)
    qed (simp add: triple_def)
  qed
qed

lemma downloaded:
  assumes "tempPathOf target draws \<noteq> target"
  defines "temp \<equiv> tempPathOf target draws"
  shows "triple (at f b k) (downloadThrough ops env draws fileId target)
    (\<lambda>_ s. \<exists>t. fresh blank env fileId t \<and> at (f(target \<mapsto> t, temp := None)) b True s)
    (\<lambda>s. at f b k s \<or> undone f temp b s)
    (\<lambda>s. at f b k s \<or> mid f temp b s \<or> (\<exists>t k. fresh blank env fileId t \<and> at (f(target \<mapsto> t, temp := None)) b k s))"
    (is "triple _ _ ?N ?E ?C")
proof -
  have loop: "triple (at (f(temp \<mapsto> c)) b False)
      (bindW (fetchChunks ops env rcd (dr_fileKey d) temp (dm_chunks (dr_manifest d))) (\<lambda>_. wo_commit ops temp target)) ?N
      (mid f temp b) ?C"
    if "de_getFileRecord env fileId = Inr rcd" "decryptRecord env rcd = Inr d" "blank (dm_size (dr_manifest d)) = Inr c"
    for c rcd d
  proof (rule triple_bind)
    show "triple (at (f(temp \<mapsto> c)) b False) (fetchChunks ops env rcd (dr_fileKey d) temp (dm_chunks (dr_manifest d)))
        (\<lambda>_ s. \<exists>t. fresh blank env fileId t \<and> at (f(temp \<mapsto> t)) b False s) (mid f temp b) ?C"
      by (rule triple_weaken [OF fetched]) (use that in \<open>auto simp: fresh_def\<close>)
    show "triple (\<lambda>s. \<exists>t. fresh blank env fileId t \<and> at (f(temp \<mapsto> t)) b False s) (wo_commit ops temp target) ?N (mid f temp b) ?C"
      using triple_weaken [OF committed] assms(1) unfolding triple_def temp_def [symmetric]
    proof (intro allI impI, elim exE conjE)
      fix s t assume t: "fresh blank env fileId t" "at (f(temp \<mapsto> t)) b False s"
      have "target \<noteq> temp" using assms by simp
      from tripleD [OF committed [OF this] t(2)] show "post ?N (mid f temp b) ?C (wo_commit ops temp target s)"
        by (rule post_mono) (use t(1) in auto)
    qed
  qed
  have body: "triple (at (f(temp \<mapsto> [])) b False)
      (bindW (wo_preallocate ops temp (dm_size (dr_manifest d))) (\<lambda>_.
        catchW (bindW (fetchChunks ops env rcd (dr_fileKey d) temp (dm_chunks (dr_manifest d))) (\<lambda>_. wo_commit ops temp target))
          (\<lambda>e. bindW (rollbackWriter temp) (\<lambda>_. throwW e)))) ?N (mid f temp b) ?C"
    if "de_getFileRecord env fileId = Inr rcd" "decryptRecord env rcd = Inr d" for rcd d
  proof (rule triple_bind)
    show "triple (at (f(temp \<mapsto> [])) b False) (wo_preallocate ops temp (dm_size (dr_manifest d)))
        (\<lambda>_ s. \<exists>c. blank (dm_size (dr_manifest d)) = Inr c \<and> at (f(temp \<mapsto> c)) b False s) (mid f temp b) ?C"
      by (rule triple_weaken [OF preallocated]) auto
    have thrown: "triple (mid f temp b) (bindW (rollbackWriter temp) (\<lambda>_. throwW e)) ?N (mid f temp b) ?C" for e
      by (rule triple_bind [where M = "\<lambda>_. mid f temp b"], rule triple_weaken [OF rollback_triple])
        (auto intro!: triple_throw simp: undone_def mid_def)
    show "triple (\<lambda>s. \<exists>c. blank (dm_size (dr_manifest d)) = Inr c \<and> at (f(temp \<mapsto> c)) b False s)
        (catchW (bindW (fetchChunks ops env rcd (dr_fileKey d) temp (dm_chunks (dr_manifest d))) (\<lambda>_. wo_commit ops temp target))
          (\<lambda>e. bindW (rollbackWriter temp) (\<lambda>_. throwW e))) ?N (mid f temp b) ?C"
      using tripleD [OF triple_catch [OF loop [OF that] thrown]] by (intro tripleI) auto
  qed
  have out: "triple (at (f(temp \<mapsto> [])) b False)
      (finallyW (bindW (wo_preallocate ops temp (dm_size (dr_manifest d))) (\<lambda>_.
        catchW (bindW (fetchChunks ops env rcd (dr_fileKey d) temp (dm_chunks (dr_manifest d))) (\<lambda>_. wo_commit ops temp target))
          (\<lambda>e. bindW (rollbackWriter temp) (\<lambda>_. throwW e)))) (rollbackWriter temp)) ?N ?E ?C"
    if "de_getFileRecord env fileId = Inr rcd" "decryptRecord env rcd = Inr d" for rcd d
  proof (rule triple_finally [OF body [OF that]])
    show "triple (?N x) (rollbackWriter temp) (\<lambda>_. ?N x) (?N x) ?C" for x :: unit
    proof (rule tripleI, elim exE conjE)
      fix s t assume t: "fresh blank env fileId t" "at (f(target \<mapsto> t, temp := None)) b True s"
      show "post (\<lambda>_. ?N x) (?N x) ?C (rollbackWriter temp s)"
        by (rule post_mono [OF tripleD [OF rollback_committed t(2)]]) (use t(1) in blast)+
    qed
    show "triple (mid f temp b) (rollbackWriter temp) (\<lambda>_. ?E) ?E ?C"
      by (rule triple_weaken [OF rollback_triple]) auto
  qed
  show ?thesis
    unfolding downloadThrough_def Let_def temp_def [symmetric]
  proof (rule triple_bind [where M = "\<lambda>rcd s. de_getFileRecord env fileId = Inr rcd \<and> at f b k s"])
    fix rcd
    show "triple (\<lambda>s. de_getFileRecord env fileId = Inr rcd \<and> at f b k s)
        (bindW (liftW (decryptRecord env rcd)) (\<lambda>d. bindW (wo_new ops temp) (\<lambda>_.
          finallyW (bindW (wo_preallocate ops temp (dm_size (dr_manifest d))) (\<lambda>_.
            catchW (bindW (fetchChunks ops env rcd (dr_fileKey d) temp (dm_chunks (dr_manifest d))) (\<lambda>_. wo_commit ops temp target))
              (\<lambda>e. bindW (rollbackWriter temp) (\<lambda>_. throwW e)))) (rollbackWriter temp)))) ?N ?E ?C"
    proof (cases "de_getFileRecord env fileId = Inr rcd")
      case True
      show ?thesis
      proof (rule triple_bind [where M = "\<lambda>d s. decryptRecord env rcd = Inr d \<and> at f b k s"])
        fix d
        show "triple (\<lambda>s. decryptRecord env rcd = Inr d \<and> at f b k s) (bindW (wo_new ops temp) (\<lambda>_.
            finallyW (bindW (wo_preallocate ops temp (dm_size (dr_manifest d))) (\<lambda>_.
              catchW (bindW (fetchChunks ops env rcd (dr_fileKey d) temp (dm_chunks (dr_manifest d))) (\<lambda>_. wo_commit ops temp target))
                (\<lambda>e. bindW (rollbackWriter temp) (\<lambda>_. throwW e)))) (rollbackWriter temp))) ?N ?E ?C"
        proof (cases "decryptRecord env rcd = Inr d")
          case d: True
          show ?thesis
          proof (rule triple_bind [OF _ out [OF True d]])
            show "triple (\<lambda>s. decryptRecord env rcd = Inr d \<and> at f b k s) (wo_new ops temp)
                (\<lambda>_. at (f(temp \<mapsto> [])) b False) ?E ?C"
              by (rule triple_weaken [OF new_file [of f b k]]) blast+
          qed
        qed (simp add: triple_def)
      qed (auto intro!: triple_lift)
    qed (simp add: triple_def)
  qed (auto intro!: triple_lift)
qed

end

section \<open>The three writers keep the promise\<close>

lemma new_triple: "triple (at f b k) (newWriter message temp) (\<lambda>_. at (f(temp \<mapsto> [])) b False) (at f b k) (at f b k)"
  unfolding newWriter_def
  by (rule triple_bind [where M = "\<lambda>_. at f b k"]; rule triple_checked) (auto simp: at_def clean_def setContent_def)

lemma writeAll_split:
  assumes "k \<le> length data"
  shows "writeAll (off + k) (drop k data) (writeAll off (take k data) c) = writeAll off data c"
proof (cases "k = 0 \<or> k = length data")
  case False
  then have "length (take k data) = k" using assms by simp
  then show ?thesis
    using False assms overwrite_split [of off "take k data" "drop k data" c] by (auto simp: writeAll_def)
qed (auto simp: writeAll_def)

definition step_ok :: "string \<Rightarrow> (64 word \<Rightarrow> bytes \<Rightarrow> nat run) \<Rightarrow> bool" where
  "step_ok temp step \<longleftrightarrow>
     (\<forall>f b c off data. data \<noteq> [] \<longrightarrow>
        triple (at (f(temp \<mapsto> c)) b False) (step off data)
          (\<lambda>k s. k \<le> length data \<and> unat off + k < 2 ^ 64 \<and> at (f(temp \<mapsto> writeAll (unat off) (take k data) c)) b False s)
          (mid f temp b) (mid f temp b))"

lemma writeRounds_triple:
  assumes "step_ok temp step"
  shows "triple (at (f(temp \<mapsto> c)) b False) (writeRounds step rounds off data)
    (\<lambda>_. at (f(temp \<mapsto> writeAll (unat off) data c)) b False) (mid f temp b) (mid f temp b)"
  using assms
proof (induction step rounds off data arbitrary: c rule: writeRounds.induct)
  case (1 step rounds off)
  then show ?case by (auto intro!: triple_return simp: writeAll_def)
next
  case (2 step off b' data)
  then show ?case by (auto simp: triple_def mid_def simp del: fun_upd_apply)
next
  case (3 step rounds off b' data)
  let ?data = "b' # data"
  show ?case
    unfolding writeRounds.simps
  proof (rule triple_bind [where M = "\<lambda>k s. k \<le> length ?data \<and> unat off + k < 2 ^ 64 \<and>
      at (f(temp \<mapsto> writeAll (unat off) (take k ?data) c)) b False s"])
    fix k
    show "triple (\<lambda>s. k \<le> length ?data \<and> unat off + k < 2 ^ 64 \<and> at (f(temp \<mapsto> writeAll (unat off) (take k ?data) c)) b False s)
        (writeRounds step rounds (off + of_nat k) (drop k ?data)) (\<lambda>_. at (f(temp \<mapsto> writeAll (unat off) ?data c)) b False)
        (mid f temp b) (mid f temp b)"
    proof (cases "k \<le> length ?data \<and> unat off + k < 2 ^ 64")
      case True
      then have "unat (off + of_nat k) = unat off + k" by (simp add: unat_word_ariths unat_of_nat)
      then have eq: "writeAll (unat (off + of_nat k)) (drop k ?data) (writeAll (unat off) (take k ?data) c) = writeAll (unat off) ?data c"
        using writeAll_split True by simp
      show ?thesis by (rule triple_weaken [OF "3.IH" [where x = k and c = "writeAll (unat off) (take k ?data) c", OF "3.prems", unfolded eq]]) blast+
    qed (auto simp: triple_def)
  qed (rule "3.prems" [unfolded step_ok_def, rule_format], simp)
qed

lemma writeAtWith_triple:
  assumes "step_ok temp step"
  shows "triple (at (f(temp \<mapsto> c)) b False) (writeAtWith step off data)
    (\<lambda>_. at (f(temp \<mapsto> writeAll (unat off) data c)) b False) (mid f temp b) (mid f temp b)"
  using writeRounds_triple [OF assms] unfolding triple_def writeAtWith_def by blast

lemma sint_nonneg_unat: "0 \<le> sint (w :: 64 word) \<Longrightarrow> unat w < 2 ^ 63"
proof (rule ccontr)
  assume w: "0 \<le> sint w" "\<not> unat w < 2 ^ 63"
  have "unat w < 2 ^ 64" using unsigned_less [of w] by simp
  then have "unat w div 2 ^ 63 = 1" using w(2) by (intro div_nat_eqI) simp_all
  then have "bit (unat w) 63" by (simp add: bit_iff_odd)
  then have "bit w 63" by (simp add: bit_unsigned_iff)
  then have "bit (uint w) 63" by (simp add: bit_uint_iff)
  then show False using w(1) by (simp add: sint_uint signed_take_bit_nonnegative_iff)
qed

definition progressed :: "(string \<rightharpoonup> bytes) \<Rightarrow> string \<Rightarrow> bool \<Rightarrow> bytes \<Rightarrow> 64 word \<Rightarrow> bytes \<Rightarrow> nat \<Rightarrow> writing \<Rightarrow> bool" where
  "progressed f temp b c off data k s \<longleftrightarrow>
     k \<le> length data \<and> unat off + k < 2 ^ 64 \<and> at (f(temp \<mapsto> writeAll (unat off) (take k data) c)) b False s"

lemma transfer_triple:
  assumes "0 \<le> sint off" and "k \<le> length data" and "k \<noteq> 0" and "k < 2 ^ 63"
  shows "triple (at (f(temp \<mapsto> c)) b False)
    (bindW (modifyW (\<lambda>s. setContent temp (overwrite (unat off) (take k data) (contentOf temp s)) s)) (\<lambda>_. returnW k))
    (progressed f temp b c off data) E C"
proof -
  have "unat off < 2 ^ 63" using assms(1) by (rule sint_nonneg_unat)
  then have "unat off + k < 2 ^ 64" using assms(4) by simp
  moreover have "take k data \<noteq> []" using assms by auto
  ultimately show ?thesis
    using assms by (intro triple_bind [where M = "\<lambda>_. progressed f temp b c off data k"])
      (auto intro!: triple_modify triple_return
        simp: progressed_def at_def clean_def setContent_def contentOf_def writeAll_def)
qed

lemma answered_triple: "triple (at (f(temp \<mapsto> c)) b False) systemCall (\<lambda>_. at (f(temp \<mapsto> c)) b False) E (mid f temp b)"
  by (rule triple_systemCall) (auto simp: mid_def dest: at_answer simp del: fun_upd_apply)

lemma thrown_triple: "triple (at (f(temp \<mapsto> c)) b False) (throwW e) N (mid f temp b) C"
  by (rule triple_throw) (auto simp: mid_def simp del: fun_upd_apply)

lemma step_okI:
  assumes "\<And>f b c off data. data \<noteq> [] \<Longrightarrow> triple (at (f(temp \<mapsto> c)) b False) (step off data)
    (progressed f temp b c off data) (mid f temp b) (mid f temp b)"
  shows "step_ok temp step"
  using assms by (simp add: step_ok_def progressed_def [abs_def])

lemma pwriteStep_ok: "step_ok temp (pwriteStep temp)"
proof (rule step_okI, unfold pwriteStep_def, rule triple_bind [OF answered_triple])
  fix f b c and off :: "64 word" and data :: bytes and a
  assume data: "data \<noteq> []"
  show "triple (at (f(temp \<mapsto> c)) b False)
      (case a of Interrupted \<Rightarrow> returnW 0 | Fails reason \<Rightarrow> throwW (sysError ''pwrite failed'' reason)
       | Returns n \<Rightarrow> if sint off < 0 then throwW (sysError ''pwrite failed'' ''Invalid argument'')
           else let k = min n (min (length data) (2 ^ 63 - 1))
             in if k = 0 then throwW (Runtime_error ''pwrite wrote 0 bytes'')
                else bindW (modifyW (\<lambda>s. setContent temp (overwrite (unat off) (take k data) (contentOf temp s)) s)) (\<lambda>_. returnW k))
      (progressed f temp b c off data) (mid f temp b) (mid f temp b)"
  proof (cases a)
    case Interrupted
    have "unat off < 2 ^ 64" using unsigned_less [of off] by simp
    then show ?thesis
      unfolding Interrupted os_answer.case
      by (intro triple_return) (simp add: progressed_def writeAll_def del: fun_upd_apply)
  next
    case (Fails reason)
    show ?thesis unfolding Fails os_answer.case by (rule thrown_triple)
  next
    case (Returns n)
    define k where "k = min n (min (length data) (2 ^ 63 - 1))"
    have "k \<le> length data" "k < 2 ^ 63" by (simp_all add: k_def)
    then show ?thesis
      unfolding Returns os_answer.case Let_def k_def [symmetric]
      by (auto intro: thrown_triple transfer_triple simp del: fun_upd_apply)
  qed
qed

lemma windowsStep_ok: "step_ok temp (windowsStep temp)"
proof (rule step_okI, unfold windowsStep_def, rule triple_bind)
  fix f b c and off :: "64 word" and data :: bytes
  assume data: "data \<noteq> []"
  show "triple (at (f(temp \<mapsto> c)) b False) (checkedCall ''SetFilePointerEx failed'' id) (\<lambda>_. at (f(temp \<mapsto> c)) b False)
      (mid f temp b) (mid f temp b)"
    by (rule triple_checked) (auto simp: mid_def simp del: fun_upd_apply)
  have sent: "triple (at (f(temp \<mapsto> c)) b False)
      (case a of Returns n \<Rightarrow>
           let k = min n (min (length data) MAXDWORD) in
           if k = 0 then throwW (Runtime_error ''WriteFile wrote 0 bytes'')
           else bindW (modifyW (\<lambda>s. setContent temp (overwrite (unat off) (take k data) (contentOf temp s)) s)) (\<lambda>_. returnW k)
       | _ \<Rightarrow> throwW (sysError ''WriteFile failed'' (the (failure a))))
      (progressed f temp b c off data) (mid f temp b) (mid f temp b)" if "0 \<le> sint off" for a
  proof (cases a)
    case (Returns n)
    define k where "k = min n (min (length data) MAXDWORD)"
    have "k \<le> length data" "k < 2 ^ 63" by (simp_all add: k_def MAXDWORD_def)
    then show ?thesis
      unfolding Returns os_answer.case Let_def k_def [symmetric]
      using that by (auto intro: thrown_triple transfer_triple simp del: fun_upd_apply)
  qed (simp_all only: os_answer.case thrown_triple)
  show "triple (at (f(temp \<mapsto> c)) b False)
      (if sint off < 0 then throwW (sysError ''SetFilePointerEx failed'' ''negative seek'')
       else bindW systemCall (\<lambda>a. case a of
         Returns n \<Rightarrow>
           let k = min n (min (length data) MAXDWORD) in
           if k = 0 then throwW (Runtime_error ''WriteFile wrote 0 bytes'')
           else bindW (modifyW (\<lambda>s. setContent temp (overwrite (unat off) (take k data) (contentOf temp s)) s)) (\<lambda>_. returnW k)
       | _ \<Rightarrow> throwW (sysError ''WriteFile failed'' (the (failure a)))))
      (progressed f temp b c off data) (mid f temp b) (mid f temp b)"
  proof (cases "sint off < 0")
    case True
    then show ?thesis by (simp add: thrown_triple del: fun_upd_apply)
  next
    case False
    then have "0 \<le> sint off" by simp
    then show ?thesis using triple_bind [OF answered_triple sent] False by (simp del: fun_upd_apply)
  qed
qed

lemma renamed: "at (f(temp \<mapsto> c)) b False s \<Longrightarrow> target \<noteq> temp \<Longrightarrow> at (f(target \<mapsto> c, temp := None)) b False (renameTemp temp target s)"
  by (auto simp: at_def clean_def renameTemp_def fun_upd_twist)

lemma mid_at: "at (f(temp := x)) b False s \<Longrightarrow> mid f temp b s"
  by (auto simp: mid_def)

lemma markCommitted_triple: "triple (at f b False) markCommitted (\<lambda>_. at f b True) E C"
  unfolding markCommitted_def by (rule triple_modify) (simp add: at_def clean_def)

text \<open>The part of both commits up to the rename: flush, close, replace.\<close>

lemma replace_triple:
  assumes "target \<noteq> temp"
    and rest: "triple (at (f(target \<mapsto> c, temp := None)) b False) m (\<lambda>_. at (f(target \<mapsto> c, temp := None)) b True) (\<lambda>_. False)
      (at (f(target \<mapsto> c, temp := None)) b False)"
  shows "triple (at (f(temp \<mapsto> c)) b False)
    (bindW (checkedCall flushMessage id) (\<lambda>_. bindW (closeHandle closeMessage) (\<lambda>_.
       bindW (checkedCall renameMessage (renameTemp temp target)) (\<lambda>_. m))))
    (\<lambda>_. at (f(target \<mapsto> c, temp := None)) b True) (mid f temp b)
    (\<lambda>s. mid f temp b s \<or> at (f(target \<mapsto> c, temp := None)) b False s)"
    (is "triple ?P _ ?N ?E ?C")
proof (rule triple_bind [where M = "\<lambda>_. ?P"])
  show "triple ?P (checkedCall flushMessage id) (\<lambda>_. ?P) ?E ?C"
    by (rule triple_checked) (auto intro: mid_at simp del: fun_upd_apply)
  show "triple ?P (bindW (closeHandle closeMessage) (\<lambda>_. bindW (checkedCall renameMessage (renameTemp temp target)) (\<lambda>_. m)))
      ?N ?E ?C"
  proof (rule triple_bind [where M = "\<lambda>_. ?P"])
    show "triple ?P (closeHandle closeMessage) (\<lambda>_. ?P) ?E ?C"
      by (rule triple_weaken [OF closeHandle_triple]) (auto intro: mid_at simp del: fun_upd_apply)
    show "triple ?P (bindW (checkedCall renameMessage (renameTemp temp target)) (\<lambda>_. m)) ?N ?E ?C"
    proof (rule triple_bind)
      show "triple ?P (checkedCall renameMessage (renameTemp temp target)) (\<lambda>_. at (f(target \<mapsto> c, temp := None)) b False) ?E ?C"
        by (rule triple_checked) (use renamed assms(1) mid_at in blast)+
      show "triple (at (f(target \<mapsto> c, temp := None)) b False) m ?N ?E ?C"
        by (rule triple_weaken [OF rest]) blast+
    qed
  qed
qed

lemma posixCommit_triple:
  assumes "target \<noteq> temp"
  shows "triple (at (f(temp \<mapsto> c)) b False) (posixCommit message temp target)
    (\<lambda>_. at (f(target \<mapsto> c, temp := None)) b True) (mid f temp b)
    (\<lambda>s. mid f temp b s \<or> at (f(target \<mapsto> c, temp := None)) b False s)"
  unfolding posixCommit_def
proof (rule replace_triple [OF assms])
  let ?Q = "at (f(target \<mapsto> c, temp := None)) b False"
  let ?N = "\<lambda>_. at (f(target \<mapsto> c, temp := None)) b True"
  have quiet: "triple ?Q (uncheckedCall id) (\<lambda>_. ?Q) (\<lambda>_. False) ?Q" by (rule triple_unchecked) simp_all
  show "triple ?Q (bindW systemCall (\<lambda>dirFd.
      bindW (if failure dirFd = None then bindW (uncheckedCall id) (\<lambda>_. uncheckedCall id) else returnW ()) (\<lambda>_. markCommitted)))
      ?N (\<lambda>_. False) ?Q"
  proof (rule triple_bind [where M = "\<lambda>_. ?Q"])
    show "triple ?Q systemCall (\<lambda>_. ?Q) (\<lambda>_. False) ?Q"
      by (rule triple_systemCall) (use at_answer in blast)+
    show "triple ?Q (bindW (if failure dirFd = None then bindW (uncheckedCall id) (\<lambda>_. uncheckedCall id) else returnW ())
        (\<lambda>_. markCommitted)) ?N (\<lambda>_. False) ?Q" for dirFd
    proof (rule triple_bind [OF _ markCommitted_triple])
      show "triple ?Q (if failure dirFd = None then bindW (uncheckedCall id) (\<lambda>_. uncheckedCall id) else returnW ())
          (\<lambda>_. ?Q) (\<lambda>_. False) ?Q"
        using triple_bind [OF quiet quiet] by (simp add: triple_return del: fun_upd_apply)
    qed
  qed
qed

lemma windowsCommit_triple:
  assumes "target \<noteq> temp"
  shows "triple (at (f(temp \<mapsto> c)) b False) (windowsCommit temp target)
    (\<lambda>_. at (f(target \<mapsto> c, temp := None)) b True) (mid f temp b)
    (\<lambda>s. mid f temp b s \<or> at (f(target \<mapsto> c, temp := None)) b False s)"
  unfolding windowsCommit_def by (rule replace_triple [OF assms markCommitted_triple])

text \<open>What each platform makes of the empty file.\<close>

fun blankFile :: "platform \<Rightarrow> 64 word \<Rightarrow> bytes result" where
  "blankFile Linux len = preallocate len []"
| "blankFile Macos len = (if sint len < 0 then Inl (sysError ''ftruncate failed'' ''Invalid argument'')
     else Inr (resizeWith (\<lambda>_. 0) (unat len) []))"
| "blankFile (Windows junk) len = (if sint len < 0 then Inl (sysError ''SetFilePointerEx failed'' ''negative seek'')
     else Inr (resizeWith junk (unat len) []))"

lemma filled_triple:
  assumes "r = Inr c"
  shows "triple (at (f(temp \<mapsto> [])) b False) (modifyW (setContent temp c)) (\<lambda>_ s. \<exists>c. r = Inr c \<and> at (f(temp \<mapsto> c)) b False s) E C"
  by (rule triple_modify) (auto simp: assms at_def clean_def setContent_def)

lemma resized_triple:
  assumes "\<not> sint len < 0" and "blankFile p len = Inr (resizeWith fill (unat len) [])"
  shows "at (f(temp \<mapsto> [])) b False s \<Longrightarrow>
    \<exists>c. blankFile p len = Inr c \<and> at (f(temp \<mapsto> c)) b False (setContent temp (resizeWith fill (unat len) (contentOf temp s)) s)"
  using assms by (auto simp: at_def clean_def setContent_def contentOf_def)

lemma linuxPreallocate_triple:
  "triple (at (f(temp \<mapsto> [])) b False) (linuxPreallocate temp len)
    (\<lambda>_ s. \<exists>c. blankFile Linux len = Inr c \<and> at (f(temp \<mapsto> c)) b False s) (mid f temp b) (mid f temp b)"
  unfolding linuxPreallocate_def
proof (rule triple_bind [OF answered_triple])
  fix a
  let ?P = "at (f(temp \<mapsto> [])) b False"
  let ?N = "\<lambda>_ s. \<exists>c. blankFile Linux len = Inr c \<and> at (f(temp \<mapsto> c)) b False s"
  have "triple ?P (bindW (liftW (preallocate len [])) (\<lambda>c. modifyW (setContent temp c))) ?N (mid f temp b) (mid f temp b)"
  proof (rule triple_bind [where M = "\<lambda>c s. preallocate len [] = Inr c \<and> ?P s"])
    show "triple ?P (liftW (preallocate len [])) (\<lambda>c s. preallocate len [] = Inr c \<and> ?P s) (mid f temp b) (mid f temp b)"
      by (rule triple_lift) (auto intro: mid_at simp del: fun_upd_apply)
    show "triple (\<lambda>s. preallocate len [] = Inr c \<and> ?P s) (modifyW (setContent temp c)) ?N (mid f temp b) (mid f temp b)" for c
      by (rule tripleI) (use tripleD [OF filled_triple [of "blankFile Linux len" c]] in \<open>auto simp del: fun_upd_apply\<close>)
  qed
  then have go: "triple ?P (\<lambda>s. bindW (liftW (preallocate len (contentOf temp s))) (\<lambda>c. modifyW (setContent temp c)) s) ?N
      (mid f temp b) (mid f temp b)"
    by (auto simp: triple_def at_def contentOf_def)
  show "triple ?P (case failure a of None \<Rightarrow> \<lambda>s. bindW (liftW (preallocate len (contentOf temp s))) (\<lambda>c. modifyW (setContent temp c)) s
      | Some reason \<Rightarrow> throwW (sysError ''posix_fallocate failed'' reason)) ?N (mid f temp b) (mid f temp b)"
    by (cases "failure a") (simp_all only: option.case go thrown_triple)
qed

lemma macosPreallocate_triple:
  "triple (at (f(temp \<mapsto> [])) b False) (macosPreallocate temp len)
    (\<lambda>_ s. \<exists>c. blankFile Macos len = Inr c \<and> at (f(temp \<mapsto> c)) b False s) (mid f temp b) (mid f temp b)"
  unfolding macosPreallocate_def
proof (rule triple_bind [where M = "\<lambda>_. at (f(temp \<mapsto> [])) b False"])
  show "triple (at (f(temp \<mapsto> [])) b False) (checkedCall ''ftruncate failed'' id) (\<lambda>_. at (f(temp \<mapsto> [])) b False)
      (mid f temp b) (mid f temp b)"
    by (rule triple_checked) (auto intro: mid_at simp del: fun_upd_apply)
  show "triple (at (f(temp \<mapsto> [])) b False)
      (if sint len < 0 then throwW (sysError ''ftruncate failed'' ''Invalid argument'')
       else modifyW (\<lambda>s. setContent temp (resizeWith (\<lambda>_. 0) (unat len) (contentOf temp s)) s))
      (\<lambda>_ s. \<exists>c. blankFile Macos len = Inr c \<and> at (f(temp \<mapsto> c)) b False s) (mid f temp b) (mid f temp b)"
  proof (cases "sint len < 0")
    case False
    then have "blankFile Macos len = Inr (resizeWith (\<lambda>_. 0) (unat len) [])" by simp
    then show ?thesis unfolding if_not_P [OF False] by (intro triple_modify) (rule resized_triple [OF False])
  qed (simp add: thrown_triple del: fun_upd_apply)
qed

lemma windowsPreallocate_triple:
  "triple (at (f(temp \<mapsto> [])) b False) (windowsPreallocate junk temp len)
    (\<lambda>_ s. \<exists>c. blankFile (Windows junk) len = Inr c \<and> at (f(temp \<mapsto> c)) b False s) (mid f temp b) (mid f temp b)"
  unfolding windowsPreallocate_def
proof (rule triple_bind [where M = "\<lambda>_. at (f(temp \<mapsto> [])) b False"])
  show "triple (at (f(temp \<mapsto> [])) b False) (checkedCall ''SetFilePointerEx failed'' id) (\<lambda>_. at (f(temp \<mapsto> [])) b False)
      (mid f temp b) (mid f temp b)"
    by (rule triple_checked) (auto intro: mid_at simp del: fun_upd_apply)
  show "triple (at (f(temp \<mapsto> [])) b False)
      (if sint len < 0 then throwW (sysError ''SetFilePointerEx failed'' ''negative seek'')
       else checkedCall ''SetEndOfFile failed'' (\<lambda>s. setContent temp (resizeWith junk (unat len) (contentOf temp s)) s))
      (\<lambda>_ s. \<exists>c. blankFile (Windows junk) len = Inr c \<and> at (f(temp \<mapsto> c)) b False s) (mid f temp b) (mid f temp b)"
  proof (cases "sint len < 0")
    case False
    then have "blankFile (Windows junk) len = Inr (resizeWith junk (unat len) [])" by simp
    then show ?thesis
      unfolding if_not_P [OF False] by (intro triple_checked) (rule resized_triple [OF False], assumption+, (erule mid_at)+)
  qed (simp add: thrown_triple del: fun_upd_apply)
qed

interpretation linux: atomic_writer "createAtomicFileWriter Linux" "blankFile Linux"
  by unfold_locales (simp_all only: createAtomicFileWriter.simps writer.simps new_triple linuxPreallocate_triple
    writeAtWith_triple [OF pwriteStep_ok], erule posixCommit_triple)

interpretation macos: atomic_writer "createAtomicFileWriter Macos" "blankFile Macos"
  by unfold_locales (simp_all only: createAtomicFileWriter.simps writer.simps new_triple macosPreallocate_triple
    writeAtWith_triple [OF pwriteStep_ok], erule posixCommit_triple)

interpretation windows: atomic_writer "createAtomicFileWriter (Windows junk)" "blankFile (Windows junk)" for junk
  by unfold_locales (simp_all only: createAtomicFileWriter.simps writer.simps new_triple windowsPreallocate_triple
    writeAtWith_triple [OF windowsStep_ok], erule windowsCommit_triple)

lemma tempPathOf_neq: "tempPathOf target draws \<noteq> target"
  by (simp add: tempPathOf_def)

text \<open>The three at once.\<close>

lemma downloaded_anywhere:
  "triple (at f b k) (downloadThrough (createAtomicFileWriter p) env draws fileId target)
    (\<lambda>_ s. \<exists>t. fresh (blankFile p) env fileId t \<and> at (f(target \<mapsto> t, tempPathOf target draws := None)) b True s)
    (\<lambda>s. at f b k s \<or> undone f (tempPathOf target draws) b s)
    (\<lambda>s. at f b k s \<or> mid f (tempPathOf target draws) b s \<or>
      (\<exists>t k. fresh (blankFile p) env fileId t \<and> at (f(target \<mapsto> t, tempPathOf target draws := None)) b k s))"
proof (cases p)
  case Linux
  show ?thesis unfolding Linux by (rule linux.downloaded [OF tempPathOf_neq])
next
  case Macos
  show ?thesis unfolding Macos by (rule macos.downloaded [OF tempPathOf_neq])
next
  case (Windows junk)
  show ?thesis unfolding Windows by (rule windows.downloaded [OF tempPathOf_neq])
qed

text \<open>
  C5. A download replaces its target in one step, on all three platforms and whatever the system
  calls answer: no file but the target and the temporary one changes; the target is
  replaced, by the whole decrypted content and without leaving the temporary file, when the download
  returns; it is as it was when the download throws, and then, if no call failed, everything
  is as it was; and wherever the process is stopped, it has the old or the whole new content.
\<close>

theorem download_is_atomic:
  assumes "downloadThrough (createAtomicFileWriter p) env draws fileId target s = (r, s')"
  shows "(\<forall>q. q \<noteq> target \<and> q \<noteq> tempPathOf target draws \<longrightarrow> wr_files s' q = wr_files s q) \<and>
    (case r of
       Some (Inr ()) \<Rightarrow> wr_files s' (tempPathOf target draws) = None \<and>
         (\<exists>t. fresh (blankFile p) env fileId t \<and> wr_files s' target = Some t)
     | Some (Inl e) \<Rightarrow> wr_files s' target = wr_files s target \<and>
         (clean s \<and> wr_files s (tempPathOf target draws) = None \<longrightarrow> wr_files s' = wr_files s)
     | None \<Rightarrow> wr_files s' target = wr_files s target \<or>
         (\<exists>t. fresh (blankFile p) env fileId t \<and> wr_files s' target = Some t))"
proof -
  let ?f = "wr_files s" and ?temp = "tempPathOf target draws"
  have temp: "?temp \<noteq> target" "target \<noteq> ?temp" using tempPathOf_neq by metis+
  have "at ?f (clean s) (wr_committed s) s" by (simp add: at_def)
  from tripleD [OF downloaded_anywhere [where p = p and env = env and draws = draws and fileId = fileId and target = target] this]
  have p: "post
      (\<lambda>_ s'. \<exists>t. fresh (blankFile p) env fileId t \<and> at (?f(target \<mapsto> t, ?temp := None)) (clean s) True s')
      (\<lambda>s'. at ?f (clean s) (wr_committed s) s' \<or> undone ?f ?temp (clean s) s')
      (\<lambda>s'. at ?f (clean s) (wr_committed s) s' \<or> mid ?f ?temp (clean s) s' \<or>
        (\<exists>t k. fresh (blankFile p) env fileId t \<and> at (?f(target \<mapsto> t, ?temp := None)) (clean s) k s')) (r, s')"
    unfolding assms .
  show ?thesis
  proof (cases "(r, s')" rule: run_cases)
    case (stopped s'')
    then consider "wr_files s' = ?f" | x where "wr_files s' = ?f(?temp := x)"
      | t where "fresh (blankFile p) env fileId t" "wr_files s' = ?f(target \<mapsto> t, ?temp := None)"
      using p unfolding at_def mid_def by auto
    then show ?thesis using stopped temp by cases auto
  next
    case (threw e s'')
    then consider "wr_files s' = ?f" | x where "wr_files s' = ?f(?temp := x)" "clean s \<longrightarrow> x = None"
      using p unfolding at_def undone_def by auto
    then have "(\<forall>q. q \<noteq> ?temp \<longrightarrow> wr_files s' q = ?f q) \<and> (clean s \<and> ?f ?temp = None \<longrightarrow> wr_files s' = ?f)"
    proof cases
      case (2 x)
      then have "clean s \<and> ?f ?temp = None \<Longrightarrow> wr_files s' = ?f" by (simp only: fun_upd_idem)
      then show ?thesis using 2 by simp
    qed simp
    then show ?thesis using threw temp by simp
  next
    case (returned x s'')
    from p [unfolded returned post.simps]
    obtain t where t: "fresh (blankFile p) env fileId t" "at (?f(target \<mapsto> t, ?temp := None)) (clean s) True s''" by blast
    then have "wr_files s' = ?f(target \<mapsto> t, ?temp := None)" using returned by (simp add: at_def)
    then have "\<forall>q. q \<noteq> target \<and> q \<noteq> ?temp \<longrightarrow> wr_files s' q = ?f q" "wr_files s' ?temp = None" "wr_files s' target = Some t"
      using temp by simp_all
    moreover have "r = Some (Inr ())" using returned by simp
    ultimately show ?thesis using t(1) by (simp only: option.case sum.case unit.case) blast
  qed
qed

text \<open>On Linux a download that returns has the content that the model of \<open>DownloadService\<close> gives.\<close>

lemma linux_download_refines:
  assumes "downloadThrough (createAtomicFileWriter Linux) env draws fileId target s = (Some (Inr ()), s')"
  shows "downloadFile env fileId (wr_files s target) = (Inr (), wr_files s' target)"
proof -
  have "at (wr_files s) False (wr_committed s) s" by (simp add: at_def)
  from tripleD [OF downloaded_anywhere [where p = Linux and env = env and draws = draws and fileId = fileId and target = target] this]
  obtain t where
    "fresh (blankFile Linux) env fileId t" "at ((wr_files s)(target \<mapsto> t, tempPathOf target draws := None)) False True s'"
    unfolding assms by auto
  then show ?thesis using tempPathOf_neq [of target draws]
    by (auto simp: fresh_def at_def downloadFile_def)
qed

section \<open>A download that nothing disturbs comes to its end\<close>

text \<open>At least \<open>n\<close> more calls, each of which does something.\<close>

definition plenty :: "nat \<Rightarrow> writing \<Rightarrow> bool" where
  "plenty n s \<longleftrightarrow> n \<le> length (wr_answers s) \<and> (\<forall>a\<in>set (wr_answers s). \<exists>m. a = Returns (Suc m))"

definition surely :: "nat \<Rightarrow> 'a run \<Rightarrow> ('a \<Rightarrow> bool) \<Rightarrow> bool" where
  "surely cost m Q \<longleftrightarrow> (\<forall>n. triple (plenty (n + cost)) m (\<lambda>x s. Q x \<and> plenty n s) (\<lambda>_. False) (\<lambda>_. False))"

lemma plenty_mono: "plenty n s \<Longrightarrow> m \<le> n \<Longrightarrow> plenty m s"
  by (simp add: plenty_def)

lemma surely_weaken: "surely c m Q \<Longrightarrow> c \<le> c' \<Longrightarrow> (\<And>x. Q x \<Longrightarrow> Q' x) \<Longrightarrow> surely c' m Q'"
  unfolding surely_def by (blast intro: triple_weaken plenty_mono add_left_mono)

lemma surely_bind:
  assumes "surely c m Q" and "\<And>x. Q x \<Longrightarrow> surely c' (f x) R"
  shows "surely (c + c') (bindW m f) R"
  unfolding surely_def
proof
  fix n
  show "triple (plenty (n + (c + c'))) (bindW m f) (\<lambda>x s. R x \<and> plenty n s) (\<lambda>_. False) (\<lambda>_. False)"
  proof (rule triple_bind)
    show "triple (plenty (n + (c + c'))) m (\<lambda>x s. Q x \<and> plenty (n + c') s) (\<lambda>_. False) (\<lambda>_. False)"
      using assms(1) [unfolded surely_def, rule_format, of "n + c'"] by (simp add: add.commute add.left_commute)
    show "triple (\<lambda>s. Q x \<and> plenty (n + c') s) (f x) (\<lambda>x s. R x \<and> plenty n s) (\<lambda>_. False) (\<lambda>_. False)" for x
      using assms(2) [of x] unfolding surely_def triple_def by blast
  qed
qed

lemma surely_return: "Q x \<Longrightarrow> surely c (returnW x) Q"
  unfolding surely_def by (blast intro: triple_return plenty_mono [OF _ le_add1])

lemma surely_modify: "(\<And>s. wr_answers (f s) = wr_answers s) \<Longrightarrow> surely 0 (modifyW f) (\<lambda>_. True)"
  by (auto simp: surely_def plenty_def intro!: triple_modify)

lemma surely_lift: "r = Inr x \<Longrightarrow> surely 0 (liftW r) (\<lambda>y. y = x)"
  by (auto simp: surely_def intro!: triple_lift)

lemma surely_systemCall: "surely 1 systemCall (\<lambda>a. \<exists>m. a = Returns (Suc m))"
  by (auto simp: surely_def plenty_def triple_def systemCall_def split: list.split)

lemma surely_checked:
  assumes "\<And>s. wr_answers (g s) = wr_answers s"
  shows "surely 1 (checkedCall message g) (\<lambda>_. True)"
proof -
  have "surely (1 + 0) (checkedCall message g) (\<lambda>_. True)"
    unfolding checkedCall_def
    by (rule surely_bind [OF surely_systemCall]) (use surely_modify [of g, OF assms] in \<open>auto simp: failure_def\<close>)
  then show ?thesis by simp
qed

lemma surely_unchecked:
  assumes "\<And>s. wr_answers (g s) = wr_answers s"
  shows "surely 1 (uncheckedCall g) (\<lambda>_. True)"
proof -
  have "surely (1 + 0) (uncheckedCall g) (\<lambda>_. True)"
    unfolding uncheckedCall_def
    by (rule surely_bind [OF surely_systemCall]) (use surely_modify [of g, OF assms] in \<open>auto simp: failure_def\<close>)
  then show ?thesis by simp
qed

lemma surely_quiet: "surely 1 (checkedCall message id) (\<lambda>_. True)" "surely 1 (uncheckedCall id) (\<lambda>_. True)"
  by (rule surely_checked surely_unchecked, simp)+

lemma surely_if: "surely c m Q \<Longrightarrow> surely c m' Q \<Longrightarrow> surely c (\<lambda>s. if b s then m s else m' s) Q"
  by (simp add: surely_def triple_def)

lemma surely_shut: "surely 0 (modifyW (\<lambda>s. s\<lparr>wr_open := False\<rparr>)) (\<lambda>_. True)"
  by (rule surely_modify) simp

lemma surely_new: "surely 2 (newWriter message temp) (\<lambda>_. True)"
proof -
  have "surely (1 + 1) (newWriter message temp) (\<lambda>_. True)"
    unfolding newWriter_def by (intro surely_bind [OF surely_quiet(1)] surely_checked) (simp add: setContent_def)
  then show ?thesis by (simp add: numeral_2_eq_2)
qed

lemma surely_catch: "surely c m Q \<Longrightarrow> surely c (catchW m h) Q"
  unfolding surely_def by (intro allI triple_catch [where E = "\<lambda>_. False"]) (simp_all add: triple_def)

lemma surely_shutting:
  "surely 1 (bindW (checkedCall message id) (\<lambda>_. modifyW (\<lambda>s. s\<lparr>wr_open := False\<rparr>))) (\<lambda>_. True)"
  "surely 1 (bindW (uncheckedCall id) (\<lambda>_. modifyW (\<lambda>s. s\<lparr>wr_open := False\<rparr>))) (\<lambda>_. True)"
  using surely_bind [OF surely_quiet(1) surely_shut] surely_bind [OF surely_quiet(2) surely_shut] by simp_all

lemma surely_close: "surely 1 (closeHandle message) (\<lambda>_. True)"
  unfolding closeHandle_def [abs_def] by (intro surely_if surely_catch surely_shutting surely_return) simp

lemma surely_rollback: "surely 2 (rollbackWriter temp) (\<lambda>_. True)"
proof -
  have "surely (1 + 1) (rollbackWriter temp) (\<lambda>_. True)"
    unfolding rollbackWriter_def
    by (rule surely_bind [where Q = "\<lambda>_. True"]; intro surely_if surely_shutting surely_return surely_unchecked) simp_all
  then show ?thesis by (simp add: numeral_2_eq_2)
qed

lemma surely_commit: "surely 6 (wo_commit (createAtomicFileWriter p) temp target) (\<lambda>_. True)"
proof -
  have mark: "surely 0 markCommitted (\<lambda>_. True)" unfolding markCommitted_def by (rule surely_modify) simp
  have swap: "surely 1 (checkedCall message (renameTemp temp target)) (\<lambda>_. True)" for message
    by (rule surely_checked) (simp add: renameTemp_def)
  note flush = surely_quiet(1)
  have "surely (1 + 1) (bindW (uncheckedCall id) (\<lambda>_. uncheckedCall id)) (\<lambda>_. True)"
    by (rule surely_bind [OF surely_quiet(2) surely_quiet(2)])
  then have dir: "surely 2 (if failure a = None then bindW (uncheckedCall id) (\<lambda>_. uncheckedCall id) else returnW ()) (\<lambda>_. True)" for a
    by (simp add: numeral_2_eq_2 surely_return)
  have "surely (1 + (1 + (1 + (1 + (2 + 0))))) (posixCommit message temp target) (\<lambda>_. True)" for message
    unfolding posixCommit_def by (intro surely_bind [OF flush] surely_bind [OF surely_close] surely_bind [OF swap]
      surely_bind [OF surely_systemCall] surely_bind [OF dir] mark)
  then have "surely 6 (posixCommit message temp target) (\<lambda>_. True)" for message
    by (rule surely_weaken) simp_all
  moreover have "surely (1 + (1 + (1 + 0))) (windowsCommit temp target) (\<lambda>_. True)"
    unfolding windowsCommit_def by (intro surely_bind [OF flush] surely_bind [OF surely_close] surely_bind [OF swap] mark)
  moreover from this have "surely 6 (windowsCommit temp target) (\<lambda>_. True)" by (rule surely_weaken) simp_all
  ultimately show ?thesis by (cases p) simp_all
qed

text \<open>A round of writing takes at most two calls and gets rid of at least one byte.\<close>

definition step_quick :: "(64 word \<Rightarrow> bytes \<Rightarrow> nat run) \<Rightarrow> bool" where
  "step_quick step \<longleftrightarrow>
     (\<forall>off data. data \<noteq> [] \<and> 0 \<le> sint off \<longrightarrow> surely 2 (step off data) (\<lambda>k. 1 \<le> k \<and> k \<le> length data))"

lemma surely_transfer:
  assumes "Q k"
  shows "surely 0 (bindW (modifyW (\<lambda>s. setContent temp (h s) s)) (\<lambda>_. returnW k)) Q"
proof -
  have "surely (0 + 0) (bindW (modifyW (\<lambda>s. setContent temp (h s) s)) (\<lambda>_. returnW k)) Q"
    by (rule surely_bind [OF surely_modify surely_return]) (simp_all add: setContent_def assms)
  then show ?thesis by simp
qed

lemma surely_sent:
  assumes "data \<noteq> []" and "0 < most"
  shows "surely 0 (let k = min (Suc m) (min (length data) most) in
      if k = 0 then throwW e else bindW (modifyW (\<lambda>s. setContent temp (h k s) s)) (\<lambda>_. returnW k))
    (\<lambda>k. 1 \<le> k \<and> k \<le> length data)"
proof -
  let ?k = "min (Suc m) (min (length data) most)"
  have "?k \<noteq> 0" "1 \<le> ?k \<and> ?k \<le> length data" using assms by (cases data; simp)+
  then show ?thesis unfolding Let_def by (simp only: if_False surely_transfer)
qed

lemma pwriteStep_quick: "step_quick (pwriteStep temp)"
  unfolding step_quick_def
proof (intro allI impI)
  fix off :: "64 word" and data :: bytes assume a: "data \<noteq> [] \<and> 0 \<le> sint off"
  then have o: "\<not> sint off < 0" by simp
  have "surely (1 + 0) (pwriteStep temp off data) (\<lambda>k. 1 \<le> k \<and> k \<le> length data)"
    unfolding pwriteStep_def if_not_P [OF o]
    by (rule surely_bind [OF surely_systemCall], elim exE, simp only: os_answer.case) (rule surely_sent, use a in simp_all)
  then show "surely 2 (pwriteStep temp off data) (\<lambda>k. 1 \<le> k \<and> k \<le> length data)" by (rule surely_weaken) simp_all
qed

lemma windowsStep_quick: "step_quick (windowsStep temp)"
  unfolding step_quick_def
proof (intro allI impI)
  fix off :: "64 word" and data :: bytes assume a: "data \<noteq> [] \<and> 0 \<le> sint off"
  then have o: "\<not> sint off < 0" by simp
  have "surely (1 + (1 + 0)) (windowsStep temp off data) (\<lambda>k. 1 \<le> k \<and> k \<le> length data)"
    unfolding windowsStep_def if_not_P [OF o]
    by (rule surely_bind [OF surely_quiet(1)], rule surely_bind [OF surely_systemCall], elim exE, simp only: os_answer.case)
      (rule surely_sent, use a in \<open>simp_all add: MAXDWORD_def\<close>)
  then show "surely 2 (windowsStep temp off data) (\<lambda>k. 1 \<le> k \<and> k \<le> length data)" by (rule surely_weaken) simp_all
qed

lemma surely_rounds:
  assumes "step_quick step" and "length data \<le> rounds" and "data \<noteq> [] \<Longrightarrow> unat off + length data \<le> 2 ^ 63"
  shows "surely (2 * length data) (writeRounds step rounds off data) (\<lambda>_. True)"
  using assms
proof (induction step rounds off data rule: writeRounds.induct)
  case (1 step rounds off)
  then show ?case by (simp add: surely_return)
next
  case (2 step off b data)
  then show ?case by simp
next
  case (3 step rounds off b data)
  let ?data = "b # data"
  have off: "unat off + length ?data \<le> 2 ^ 63" using "3.prems"(3) by simp
  then have "0 \<le> sint off" by (intro sint_nonneg) simp
  then have first: "surely 2 (step off ?data) (\<lambda>k. 1 \<le> k \<and> k \<le> length ?data)"
    using "3.prems"(1) [unfolded step_quick_def, rule_format, of ?data off] by blast
  have "surely (2 + 2 * length data) (writeRounds step (Suc rounds) off ?data) (\<lambda>_. True)"
    unfolding writeRounds.simps
  proof (rule surely_bind [OF first])
    fix k assume k: "1 \<le> k \<and> k \<le> length ?data"
    have "unat off + k < 2 ^ 64" using off k by simp
    then have u: "unat (off + of_nat k) = unat off + k" by (simp add: unat_word_ariths unat_of_nat)
    have "surely (2 * length (drop k ?data)) (writeRounds step rounds (off + of_nat k) (drop k ?data)) (\<lambda>_. True)"
      by (rule "3.IH") (use "3.prems" k off u in \<open>simp_all, linarith?\<close>)
    then show "surely (2 * length data) (writeRounds step rounds (off + of_nat k) (drop k ?data)) (\<lambda>_. True)"
      by (rule surely_weaken) (use k in auto)
  qed
  then show ?case by (rule surely_weaken) simp_all
qed

lemma surely_writeAt:
  assumes "data \<noteq> [] \<Longrightarrow> unat off + length data \<le> 2 ^ 63"
  shows "surely (2 * length data) (wo_writeAt (createAtomicFileWriter p) temp off data) (\<lambda>_. True)"
proof -
  have "surely (2 * length data) (writeAtWith step off data) (\<lambda>_. True)" if "step_quick step" for step
    unfolding surely_def
  proof (intro allI tripleI)
    fix n s assume s: "plenty (n + 2 * length data) s"
    then have "length data \<le> Suc (length (wr_answers s))" by (simp add: plenty_def)
    from surely_rounds [OF that this assms] s
    show "post (\<lambda>_ s. True \<and> plenty n s) (\<lambda>_. False) (\<lambda>_. False) (writeAtWith step off data s)"
      unfolding surely_def triple_def writeAtWith_def by blast
  qed
  then show ?thesis using pwriteStep_quick windowsStep_quick by (cases p) simp_all
qed

lemma surely_preallocate:
  assumes "blankFile p len = Inr c"
  shows "triple (\<lambda>s. plenty (n + 2) s \<and> contentOf temp s = []) (wo_preallocate (createAtomicFileWriter p) temp len)
    (\<lambda>_. plenty n) (\<lambda>_. False) (\<lambda>_. False)"
proof -
  have weak: "triple (\<lambda>s. plenty (n + 2) s \<and> contentOf temp s = []) m (\<lambda>_. plenty n) (\<lambda>_. False) (\<lambda>_. False)"
    if "surely 2 m (\<lambda>_. True)" for m :: "unit run"
    using that unfolding surely_def triple_def by simp
  have set: "wr_answers (setContent temp x s) = wr_answers s" for x s by (simp add: setContent_def)
  show ?thesis
  proof (cases p)
    case Linux
    show ?thesis
      unfolding Linux createAtomicFileWriter.simps writer.simps
    proof (rule tripleI, elim conjE)
      fix s assume s: "plenty (n + 2) s" "contentOf temp s = []"
      then obtain m rest where a: "wr_answers s = Returns (Suc m) # rest"
        by (cases "wr_answers s") (auto simp: plenty_def)
      have "contentOf temp (s\<lparr>wr_answers := rest\<rparr>) = []" using s(2) by (simp add: contentOf_def)
      moreover have "preallocate len [] = Inr c" using assms Linux by simp
      ultimately show "post (\<lambda>_. plenty n) (\<lambda>_. False) (\<lambda>_. False) (linuxPreallocate temp len s)"
        using s a by (simp add: linuxPreallocate_def bindW_def systemCall_def failure_def liftW_def modifyW_def set plenty_def)
    qed
  next
    case Macos
    then have "\<not> sint len < 0" using assms by (auto split: if_splits)
    have "surely (1 + 1) (macosPreallocate temp len) (\<lambda>_. True)"
      unfolding macosPreallocate_def if_not_P [OF \<open>\<not> sint len < 0\<close>]
      by (rule surely_bind [OF surely_quiet(1)], rule surely_weaken [OF surely_modify]) (simp_all add: set)
    then show ?thesis using weak Macos by (simp add: numeral_2_eq_2)
  next
    case (Windows junk)
    then have "\<not> sint len < 0" using assms by (auto split: if_splits)
    have "surely (1 + 1) (windowsPreallocate junk temp len) (\<lambda>_. True)"
      unfolding windowsPreallocate_def if_not_P [OF \<open>\<not> sint len < 0\<close>]
      by (rule surely_bind [OF surely_quiet(1)], rule surely_checked) (simp add: set)
    then show ?thesis using weak Windows by (simp add: numeral_2_eq_2)
  qed
qed

lemma downloadChunks_grows: "downloadChunks env record fileKey chunks c = Inr t \<Longrightarrow> length c \<le> length t"
proof (induction chunks arbitrary: c)
  case (Cons chunk chunks)
  then obtain c1 where c1: "downloadChunk env record fileKey chunk c = Inr c1" "downloadChunks env record fileKey chunks c1 = Inr t"
    by (auto simp: bindR_eq_Inr)
  then have "length c \<le> length c1" by (auto simp: downloadChunk_def bindR_eq_Inr writeAll_def length_overwrite)
  then show ?case using Cons.IH [OF c1(2)] by simp
qed simp

lemma surely_fetch:
  assumes "downloadChunks env record fileKey chunks c = Inr t" and "length t \<le> 2 ^ 63"
  shows "\<exists>cost. surely cost (fetchChunks (createAtomicFileWriter p) env record fileKey temp chunks) (\<lambda>_. True)"
  using assms
proof (induction chunks arbitrary: c)
  case Nil
  then show ?case by (auto intro: surely_return)
next
  case (Cons chunk chunks)
  let ?plain = "bindR (de_getRange env (fr_sourceUrl record) (dc_cipherStart chunk) (dc_cipherSize chunk)) (\<lambda>encrypted.
       lib_decryptChunk (de_crypto env) fileKey
         (toBytes (makeFileChunk (fr_vaultId record) (fr_fileId record) (to_int32 (dc_index chunk + 1))
            (sint (fr_chunkSize record)) (sint (fr_totalChunks record)))) encrypted)"
  obtain plain where plain: "?plain = Inr plain"
    and rest: "downloadChunks env record fileKey chunks (writeAll (unat (dc_plainStart chunk)) plain c) = Inr t"
    using Cons.prems(1) by (auto simp: downloadChunk_def bindR_eq_Inr)
  obtain cost where cost: "surely cost (fetchChunks (createAtomicFileWriter p) env record fileKey temp chunks) (\<lambda>_. True)"
    using Cons.IH [OF rest Cons.prems(2)] by blast
  have "unat (dc_plainStart chunk) + length plain \<le> 2 ^ 63" if "plain \<noteq> []"
    using downloadChunks_grows [OF rest] Cons.prems(2) that by (simp add: writeAll_def length_overwrite)
  note wrote = surely_writeAt [OF this]
  have "surely (0 + (2 * length plain + cost)) (fetchChunks (createAtomicFileWriter p) env record fileKey temp (chunk # chunks)) (\<lambda>_. True)"
    unfolding fetchChunks.simps
    by (rule surely_bind [OF surely_lift [OF plain]], hypsubst) (rule surely_bind [OF wrote cost])
  then show ?case by blast
qed

lemma surely_finally:
  assumes "surely c m (\<lambda>_. True)" and "surely c' cleanup (\<lambda>_. True)"
  shows "surely (c + c') (finallyW m cleanup) (\<lambda>_. True)"
  unfolding surely_def
proof
  fix n
  have "triple (plenty (n + c' + c)) m (\<lambda>x s. plenty (n + c') s) (\<lambda>_. False) (\<lambda>_. False)"
    using assms(1) unfolding surely_def by simp
  moreover have "triple (plenty (n + c')) cleanup (\<lambda>_. plenty n) (plenty n) (\<lambda>_. False)"
    using assms(2) [unfolded surely_def, rule_format, of n] by (rule triple_weaken) simp_all
  ultimately have "triple (plenty (n + c' + c)) (finallyW m cleanup) (\<lambda>_. plenty n) (\<lambda>_. False) (\<lambda>_. False)"
    by (rule triple_finally) (simp add: triple_def)
  then show "triple (plenty (n + (c + c'))) (finallyW m cleanup) (\<lambda>x s. True \<and> plenty n s) (\<lambda>_. False) (\<lambda>_. False)"
    by (simp add: add.commute add.left_commute)
qed

lemma download_returns:
  assumes "fresh (blankFile p) env fileId t" and "length t \<le> 2 ^ 63"
  shows "\<exists>n. \<forall>s. plenty n s \<longrightarrow> fst (downloadThrough (createAtomicFileWriter p) env draws fileId target s) = Some (Inr ())"
proof -
  let ?ops = "createAtomicFileWriter p" and ?temp = "tempPathOf target draws"
  obtain rcd d c where rcd: "de_getFileRecord env fileId = Inr rcd" "decryptRecord env rcd = Inr d"
    and blank: "blankFile p (dm_size (dr_manifest d)) = Inr c"
    and chunks: "downloadChunks env rcd (dr_fileKey d) (dm_chunks (dr_manifest d)) c = Inr t"
    using assms(1) by (auto simp: fresh_def)
  obtain cost where fetch: "surely cost (fetchChunks ?ops env rcd (dr_fileKey d) ?temp (dm_chunks (dr_manifest d))) (\<lambda>_. True)"
    using surely_fetch [OF chunks assms(2)] by blast
  let ?loop = "catchW (bindW (fetchChunks ?ops env rcd (dr_fileKey d) ?temp (dm_chunks (dr_manifest d))) (\<lambda>_. wo_commit ?ops ?temp target))
      (\<lambda>e. bindW (rollbackWriter ?temp) (\<lambda>_. throwW e))"
  have loop: "surely (cost + 6) ?loop (\<lambda>_. True)" by (rule surely_catch [OF surely_bind [OF fetch surely_commit]])
  let ?body = "finallyW (bindW (wo_preallocate ?ops ?temp (dm_size (dr_manifest d))) (\<lambda>_. ?loop)) (rollbackWriter ?temp)"
  have body: "triple (\<lambda>s. plenty (cost + 6 + 2 + 2) s \<and> contentOf ?temp s = []) ?body (\<lambda>_ _. True) (\<lambda>_. False) (\<lambda>_. False)"
  proof (rule triple_finally)
    show "triple (\<lambda>s. plenty (cost + 6 + 2 + 2) s \<and> contentOf ?temp s = [])
        (bindW (wo_preallocate ?ops ?temp (dm_size (dr_manifest d))) (\<lambda>_. ?loop)) (\<lambda>_. plenty 2) (\<lambda>_. False) (\<lambda>_. False)"
    proof (rule triple_bind [OF surely_preallocate [OF blank]])
      show "triple (plenty (cost + 6 + 2)) ?loop (\<lambda>_. plenty 2) (\<lambda>_. False) (\<lambda>_. False)"
        using loop [unfolded surely_def, rule_format, of 2] by (simp add: add.commute add.left_commute)
    qed
    show "triple (plenty 2) (rollbackWriter ?temp) (\<lambda>_ _. True) (\<lambda>_. True) (\<lambda>_. False)"
      by (rule triple_weaken [OF surely_rollback [unfolded surely_def, rule_format, of 0 ?temp]]) (simp_all add: numeral_2_eq_2)
  qed (simp add: triple_def)
  have new: "triple (plenty (cost + 6 + 2 + 2 + 2)) (wo_new ?ops ?temp) (\<lambda>_ s. plenty (cost + 6 + 2 + 2) s \<and> contentOf ?temp s = [])
      (\<lambda>_. False) (\<lambda>_. False)"
  proof (rule tripleI)
    fix s assume s: "plenty (cost + 6 + 2 + 2 + 2) s"
    obtain message where eq: "wo_new ?ops ?temp = newWriter message ?temp" by (cases p) simp_all
    have "at (wr_files s) False (wr_committed s) s" by (simp add: at_def)
    from tripleD [OF new_triple [of _ _ _ message ?temp] this]
      tripleD [OF surely_new [unfolded surely_def, rule_format, of "cost + 6 + 2 + 2" message ?temp] s]
    show "post (\<lambda>_ s. plenty (cost + 6 + 2 + 2) s \<and> contentOf ?temp s = []) (\<lambda>_. False) (\<lambda>_. False) (wo_new ?ops ?temp s)"
      unfolding eq by (cases "newWriter message ?temp s" rule: run_cases) (simp_all add: at_def contentOf_def)
  qed
  have run: "downloadThrough ?ops env draws fileId target = bindW (wo_new ?ops ?temp) (\<lambda>_. ?body)"
    by (rule ext) (simp add: downloadThrough_def Let_def rcd bindW_def liftW_def)
  have "triple (plenty (cost + 6 + 2 + 2 + 2)) (downloadThrough ?ops env draws fileId target) (\<lambda>_ _. True) (\<lambda>_. False) (\<lambda>_. False)"
    unfolding run by (rule triple_bind [OF new body])
  then have "plenty (cost + 6 + 2 + 2 + 2) s \<Longrightarrow> fst (downloadThrough ?ops env draws fileId target s) = Some (Inr ())" for s
    using tripleD by (cases "downloadThrough ?ops env draws fileId target s" rule: run_cases) fastforce+
  then show ?thesis by blast
qed

lemma fresh_unique: "fresh blank env fileId t \<Longrightarrow> fresh blank env fileId t' \<Longrightarrow> t' = t"
  by (auto simp: fresh_def)

text \<open>
  C16. A download comes to its end: when the server's record decrypts and its chunks make up a
  content that a file can hold, then on each platform there is a number of system calls
  such that, if that many succeed, however little each of them writes, the download returns, the target has
  the content, the temporary file is gone, and no other file is different.
\<close>

theorem download_completes:
  assumes "fresh (blankFile p) env fileId t" and "length t \<le> 2 ^ 63"
  shows "\<exists>n. \<forall>s. plenty n s \<longrightarrow>
    (\<exists>s'. downloadThrough (createAtomicFileWriter p) env draws fileId target s = (Some (Inr ()), s') \<and>
      wr_files s' = (wr_files s)(target \<mapsto> t, tempPathOf target draws := None))"
proof -
  obtain n where n: "\<And>s. plenty n s \<Longrightarrow> fst (downloadThrough (createAtomicFileWriter p) env draws fileId target s) = Some (Inr ())"
    using download_returns [OF assms, of draws target] by blast
  have "\<exists>s'. downloadThrough (createAtomicFileWriter p) env draws fileId target s = (Some (Inr ()), s') \<and>
      wr_files s' = (wr_files s)(target \<mapsto> t, tempPathOf target draws := None)" if plen: "plenty n s" for s
  proof -
    obtain s' where s': "downloadThrough (createAtomicFileWriter p) env draws fileId target s = (Some (Inr ()), s')"
      using n [OF plen] prod.collapse by metis
    have "at (wr_files s) False (wr_committed s) s" by (simp add: at_def)
    from tripleD [OF downloaded_anywhere [where p = p and env = env and draws = draws and fileId = fileId and target = target] this]
    obtain t' where "fresh (blankFile p) env fileId t'" "wr_files s' = (wr_files s)(target \<mapsto> t', tempPathOf target draws := None)"
      unfolding s' post.simps at_def by blast
    then show ?thesis using fresh_unique [OF assms(1)] s' by blast
  qed
  then show ?thesis by blast
qed

section \<open>A file of three bytes\<close>

definition demo_manifest :: json where
  "demo_manifest = JObject [(''size'', JInt 3), (''chunks'', JArray
     [JObject [(''cipher_size'', JInt 3), (''plain_size'', JInt 2)], JObject [(''cipher_size'', JInt 2), (''plain_size'', JInt 1)]])]"

definition demo_download :: download_env where
  "demo_download =
     \<lparr>de_crypto = \<lparr>lib_encryptChunk = \<lambda>_ _ p. Inr (p @ [0]), lib_decryptChunk = \<lambda>_ _ c. Inr (butlast c), lib_blake3Hash = Inr,
        lib_wrapFileKey = \<lambda>k _ _. Inr k, lib_unwrapFileKey = \<lambda>k _ _. Inr k, lib_deriveSearchKey = Inr, lib_hmacSha256 = \<lambda>_. Inr\<rparr>,
      de_masterKey = Inr [9], de_parse = \<lambda>_. Inr demo_manifest,
      de_getFileRecord = \<lambda>_. Inr \<lparr>fr_fileId = ''f'', fr_vaultId = ''v'', fr_chunkSize = 2, fr_totalChunks = 2, fr_plaintextSize = 3,
        fr_encryptedHash = [], fr_encryptedMetadata = ''AA=='', fr_encryptedFileKey = ''AA=='', fr_encryptedManifest = ''AA=='',
        fr_sourceUrl = ''u''\<rparr>,
      de_getRange = \<lambda>_ off len. Inr (take (unat len) (drop (unat off) [1, 2, 0, 3, 0]))\<rparr>"

lemma demo_parsed:
  "parseDownloadManifest (\<lambda>_. Inr demo_manifest) str 2 3 = Inr \<lparr>dm_size = 3, dm_chunkSize = 2, dm_name = [], dm_mime = [],
      dm_chunks = [\<lparr>dc_index = 0, dc_cipherStart = 0, dc_cipherEnd = 2, dc_cipherSize = 3, dc_plainStart = 0, dc_plainSize = 2, dc_hash = []\<rparr>,
        \<lparr>dc_index = 1, dc_cipherStart = 3, dc_cipherEnd = 4, dc_cipherSize = 2, dc_plainStart = 2, dc_plainSize = 1, dc_hash = []\<rparr>]\<rparr>"
  by (simp add: parseDownloadManifest_def demo_manifest_def json_value_def array_member_def plainSizeOf_def)

lemma demo_fresh: "fresh (blankFile Linux) demo_download ''f'' [1, 2, 3]"
proof -
  have b: "decodeBase64 ''AA=='' = Inr [0]" by code_simp
  note m = demo_parsed
  show ?thesis
    by (simp add: fresh_def decryptRecord_def demo_download_def b m preallocate_def downloadChunk_def writeAll_def overwrite_def pad_to_def)
qed

theorem download_completes_witness:
  "\<exists>s s'. downloadThrough (createAtomicFileWriter Linux) demo_download (\<lambda>_. 0) ''f'' ''/t'' s = (Some (Inr ()), s') \<and>
     wr_files s ''/t'' = Some [7] \<and> wr_files s' ''/t'' = Some [1, 2, 3]"
proof -
  obtain n where n: "\<And>s. plenty n s \<Longrightarrow>
      \<exists>s'. downloadThrough (createAtomicFileWriter Linux) demo_download (\<lambda>_. 0) ''f'' ''/t'' s = (Some (Inr ()), s') \<and>
        wr_files s' = (wr_files s)(''/t'' \<mapsto> [1, 2, 3], tempPathOf ''/t'' (\<lambda>_. 0) := None)"
    using download_completes [OF demo_fresh, where draws = "\<lambda>_. 0" and target = "''/t''"] by auto
  define s where "s = \<lparr>wr_files = [''/t'' \<mapsto> [7]], wr_answers = replicate n (Returns 1), wr_open = False, wr_committed = False\<rparr>"
  have "plenty n s" by (simp add: plenty_def s_def)
  from n [OF this] obtain s' where
    s': "downloadThrough (createAtomicFileWriter Linux) demo_download (\<lambda>_. 0) ''f'' ''/t'' s = (Some (Inr ()), s')"
      "wr_files s' = (wr_files s)(''/t'' \<mapsto> [1, 2, 3], tempPathOf ''/t'' (\<lambda>_. 0) := None)" by blast
  moreover have "wr_files s ''/t'' = Some [7]" by (simp add: s_def)
  moreover have "wr_files s' ''/t'' = Some [1, 2, 3]" using s'(2) tempPathOf_neq [of "''/t''" "\<lambda>_. 0"] by simp
  ultimately show ?thesis by blast
qed

text \<open>The device is full at the first write: the download throws, and everything is as it was.\<close>

definition demo_full :: writing where
  "demo_full = \<lparr>wr_files = [''/t'' \<mapsto> [7]], wr_answers = [Returns 1, Returns 3, Returns 0, Fails ''No space left on device'',
     Returns 0, Returns 0, Returns 0], wr_open = False, wr_committed = False\<rparr>"

lemma demo_full_run:
  "\<exists>s'. downloadThrough (createAtomicFileWriter Linux) demo_download (\<lambda>_. 0) ''f'' ''/t'' demo_full =
     (Some (Inl (Runtime_error ''pwrite failed: No space left on device'')), s')"
proof -
  have b: "decodeBase64 ''AA=='' = Inr [0]" by code_simp
  note p = demo_parsed
  show ?thesis
    by (simp add: downloadThrough_def Let_def demo_download_def demo_full_def decryptRecord_def b p bindW_def liftW_def newWriter_def
      checkedCall_def systemCall_def failure_def modifyW_def finallyW_def catchW_def linuxPreallocate_def preallocate_def
      setContent_def contentOf_def pad_to_def writeAtWith_def pwriteStep_def throwW_def rollbackWriter_def uncheckedCall_def
      returnW_def sysError_def)
qed

theorem download_is_atomic_witness:
  "\<exists>s'. downloadThrough (createAtomicFileWriter Linux) demo_download (\<lambda>_. 0) ''f'' ''/t'' demo_full =
     (Some (Inl (Runtime_error ''pwrite failed: No space left on device'')), s') \<and> wr_files s' ''/t'' = Some [7]"
proof -
  obtain s' where s': "downloadThrough (createAtomicFileWriter Linux) demo_download (\<lambda>_. 0) ''f'' ''/t'' demo_full =
     (Some (Inl (Runtime_error ''pwrite failed: No space left on device'')), s')" using demo_full_run by blast
  have "wr_files s' ''/t'' = wr_files demo_full ''/t''" using download_is_atomic [OF s'] by simp
  then show ?thesis using s' by (simp add: demo_full_def)
qed

end
