(* ===== verification/Rust_Binding.thy ===== *)
theory Rust_Binding
  imports Download
begin

text \<open>
  The binding to the cryptographic library (crypto/RustCrypto.cpp): what is handed over to each
  function of the library, what is made of its result, and who owns the hashers and the
  buffers that the library allocates. The library itself, which is written in Rust and is not
  part of the repository, is the record \<open>arkive\<close>; its state is a parameter.
\<close>

section \<open>The interface of the library\<close>

text \<open>A pointer and a length: \<open>None\<close> is the null pointer, whose length is 0.\<close>

type_synonym span = "bytes option"

definition bytesPtr :: "bytes \<Rightarrow> span" where
  "bytesPtr bytes = (if bytes = [] then None else Some bytes)"

definition stringPtr :: "string \<Rightarrow> span" where
  "stringPtr value = (if value = [] then None else Some (toBytes value))"

text \<open>\<open>ArkiveResult\<close>: the data are in a buffer of the library.\<close>

record ArkiveResult =
  ar_ok :: bool
  ar_buffer :: nat
  ar_data :: bytes

type_synonym 'r ffi = "'r \<Rightarrow> ArkiveResult \<times> 'r"

text \<open>The functions of a streaming hasher; a handle may be null.\<close>

record 'r hasher_ffi =
  hf_prefix :: string
  hf_new :: "'r \<Rightarrow> nat option \<times> 'r"
  hf_free :: "nat \<Rightarrow> 'r \<Rightarrow> 'r"
  hf_update :: "nat option \<Rightarrow> span \<Rightarrow> 'r \<Rightarrow> bool \<times> 'r"
  hf_digest :: "nat option \<Rightarrow> 'r ffi"
  hf_digest_hex :: "nat option \<Rightarrow> 'r ffi"
  hf_finalize :: "nat option \<Rightarrow> 'r ffi"
  hf_finalize_hex :: "nat option \<Rightarrow> 'r ffi"

record 'r arkive =
  ak_free_buffer :: "nat \<Rightarrow> 'r \<Rightarrow> 'r"
  ak_blake3 :: "'r hasher_ffi"
  ak_sha256 :: "'r hasher_ffi"
  ak_zeroize :: "span \<Rightarrow> 'r \<Rightarrow> (bool \<times> bytes) \<times> 'r"
  ak_generate_master_key :: "'r ffi"
  ak_generate_file_key :: "'r ffi"
  ak_generate_share_key :: "'r ffi"
  ak_generate_salt :: "'r ffi"
  ak_blake3_hash :: "span \<Rightarrow> 'r ffi"
  ak_blake3_hash_hex :: "span \<Rightarrow> 'r ffi"
  ak_sha256_hash :: "span \<Rightarrow> 'r ffi"
  ak_sha256_hash_hex :: "span \<Rightarrow> 'r ffi"
  ak_derive_password_kek :: "span \<Rightarrow> span \<Rightarrow> 'r ffi"
  ak_derive_search_key :: "span \<Rightarrow> 'r ffi"
  ak_hmac_sha256 :: "span \<Rightarrow> span \<Rightarrow> 'r ffi"
  ak_encrypt_file_metadata :: "span \<Rightarrow> span \<Rightarrow> span \<Rightarrow> 'r ffi"
  ak_decrypt_file_metadata :: "span \<Rightarrow> span \<Rightarrow> span \<Rightarrow> 'r ffi"
  ak_wrap_master_key :: "span \<Rightarrow> span \<Rightarrow> span \<Rightarrow> 'r ffi"
  ak_unwrap_master_key :: "span \<Rightarrow> span \<Rightarrow> span \<Rightarrow> 'r ffi"
  ak_wrap_file_key :: "span \<Rightarrow> span \<Rightarrow> span \<Rightarrow> 'r ffi"
  ak_unwrap_file_key :: "span \<Rightarrow> span \<Rightarrow> span \<Rightarrow> 'r ffi"
  ak_encrypt_chunk :: "span \<Rightarrow> span \<Rightarrow> span \<Rightarrow> 'r ffi"
  ak_decrypt_chunk :: "span \<Rightarrow> span \<Rightarrow> span \<Rightarrow> 'r ffi"
  ak_generate_recovery_key :: "'r ffi"
  ak_format_recovery_key :: "span \<Rightarrow> 'r ffi"
  ak_parse_recovery_key :: "span \<Rightarrow> 'r ffi"
  ak_wrap_master_key_for_recovery :: "span \<Rightarrow> span \<Rightarrow> 'r ffi"
  ak_recover_master_key :: "span \<Rightarrow> span \<Rightarrow> 'r ffi"
  ak_wrap_master_key_with_recovery_key :: "span \<Rightarrow> span \<Rightarrow> span \<Rightarrow> 'r ffi"
  ak_unwrap_master_key_with_recovery_key :: "span \<Rightarrow> span \<Rightarrow> span \<Rightarrow> 'r ffi"
  ak_wrap_master_key_with_password :: "span \<Rightarrow> span \<Rightarrow> span \<Rightarrow> span \<Rightarrow> 'r ffi"

text \<open>A result is copied and its buffer is given back; a failed one has none.\<close>

definition takeBytesResult :: "'r arkive \<Rightarrow> string \<Rightarrow> 'r ffi \<Rightarrow> ('r, bytes) act" where
  "takeBytesResult ak fnName call r =
     (case call r of (result, r') \<Rightarrow>
        if \<not> ar_ok result then (Inl (Runtime_error (fnName @ '' failed'')), r')
        else (Inr (ar_data result), ak_free_buffer ak (ar_buffer result) r'))"

definition takeStringResult :: "'r arkive \<Rightarrow> string \<Rightarrow> 'r ffi \<Rightarrow> ('r, string) act" where
  "takeStringResult ak fnName call = bindE (takeBytesResult ak fnName call) (\<lambda>bytes. returnE (fromBytes bytes))"

definition checkBoolResult :: "string \<Rightarrow> bool \<Rightarrow> unit result" where
  "checkBoolResult fnName ok = (if ok then Inr () else Inl (Runtime_error (fnName @ '' failed'')))"

section \<open>The functions\<close>

definition rust_generateMasterKey :: "'r arkive \<Rightarrow> ('r, bytes) act" where
  "rust_generateMasterKey ak =
     takeBytesResult ak ''arkive_generate_master_key''
       (ak_generate_master_key ak)"

definition rust_generateFileKey :: "'r arkive \<Rightarrow> ('r, bytes) act" where
  "rust_generateFileKey ak =
     takeBytesResult ak ''arkive_generate_file_key''
       (ak_generate_file_key ak)"

definition rust_generateShareKey :: "'r arkive \<Rightarrow> ('r, bytes) act" where
  "rust_generateShareKey ak =
     takeBytesResult ak ''arkive_generate_share_key''
       (ak_generate_share_key ak)"

definition rust_generateSalt :: "'r arkive \<Rightarrow> ('r, bytes) act" where
  "rust_generateSalt ak =
     takeBytesResult ak ''arkive_generate_salt''
       (ak_generate_salt ak)"

definition rust_blake3Hash :: "'r arkive \<Rightarrow> bytes \<Rightarrow> ('r, bytes) act" where
  "rust_blake3Hash ak input =
     takeBytesResult ak ''arkive_blake3_hash''
       (ak_blake3_hash ak (bytesPtr input))"

definition rust_blake3HashHex :: "'r arkive \<Rightarrow> bytes \<Rightarrow> ('r, string) act" where
  "rust_blake3HashHex ak input =
     takeStringResult ak ''arkive_blake3_hash_hex''
       (ak_blake3_hash_hex ak (bytesPtr input))"

definition rust_sha256Hash :: "'r arkive \<Rightarrow> bytes \<Rightarrow> ('r, bytes) act" where
  "rust_sha256Hash ak input =
     takeBytesResult ak ''arkive_sha256_hash''
       (ak_sha256_hash ak (bytesPtr input))"

definition rust_sha256HashHex :: "'r arkive \<Rightarrow> bytes \<Rightarrow> ('r, string) act" where
  "rust_sha256HashHex ak input =
     takeStringResult ak ''arkive_sha256_hash_hex''
       (ak_sha256_hash_hex ak (bytesPtr input))"

definition rust_derivePasswordKek :: "'r arkive \<Rightarrow> string \<Rightarrow> bytes \<Rightarrow> ('r, bytes) act" where
  "rust_derivePasswordKek ak password salt =
     takeBytesResult ak ''arkive_derive_password_kek''
       (ak_derive_password_kek ak (stringPtr password) (bytesPtr salt))"

definition rust_deriveSearchKey :: "'r arkive \<Rightarrow> bytes \<Rightarrow> ('r, bytes) act" where
  "rust_deriveSearchKey ak masterKey =
     takeBytesResult ak ''arkive_derive_search_key''
       (ak_derive_search_key ak (bytesPtr masterKey))"

definition rust_hmacSha256 :: "'r arkive \<Rightarrow> bytes \<Rightarrow> bytes \<Rightarrow> ('r, bytes) act" where
  "rust_hmacSha256 ak key data =
     takeBytesResult ak ''arkive_hmac_sha256''
       (ak_hmac_sha256 ak (bytesPtr key) (bytesPtr data))"

definition rust_encryptFileMetadata :: "'r arkive \<Rightarrow> bytes \<Rightarrow> bytes \<Rightarrow> bytes \<Rightarrow> ('r, bytes) act" where
  "rust_encryptFileMetadata ak metadata masterKey aad =
     takeBytesResult ak ''arkive_encrypt_file_metadata''
       (ak_encrypt_file_metadata ak (bytesPtr metadata) (bytesPtr masterKey) (bytesPtr aad))"

definition rust_decryptFileMetadata :: "'r arkive \<Rightarrow> bytes \<Rightarrow> bytes \<Rightarrow> bytes \<Rightarrow> ('r, bytes) act" where
  "rust_decryptFileMetadata ak encrypted masterKey aad =
     takeBytesResult ak ''arkive_decrypt_file_metadata''
       (ak_decrypt_file_metadata ak (bytesPtr encrypted) (bytesPtr masterKey) (bytesPtr aad))"

definition rust_wrapMasterKey :: "'r arkive \<Rightarrow> bytes \<Rightarrow> bytes \<Rightarrow> bytes \<Rightarrow> ('r, bytes) act" where
  "rust_wrapMasterKey ak masterKey kek aad =
     takeBytesResult ak ''arkive_wrap_master_key''
       (ak_wrap_master_key ak (bytesPtr masterKey) (bytesPtr kek) (bytesPtr aad))"

definition rust_unwrapMasterKey :: "'r arkive \<Rightarrow> bytes \<Rightarrow> bytes \<Rightarrow> bytes \<Rightarrow> ('r, bytes) act" where
  "rust_unwrapMasterKey ak encrypted kek aad =
     takeBytesResult ak ''arkive_unwrap_master_key''
       (ak_unwrap_master_key ak (bytesPtr encrypted) (bytesPtr kek) (bytesPtr aad))"

definition rust_wrapFileKey :: "'r arkive \<Rightarrow> bytes \<Rightarrow> bytes \<Rightarrow> bytes \<Rightarrow> ('r, bytes) act" where
  "rust_wrapFileKey ak fileKey masterKey aad =
     takeBytesResult ak ''arkive_wrap_file_key''
       (ak_wrap_file_key ak (bytesPtr fileKey) (bytesPtr masterKey) (bytesPtr aad))"

definition rust_unwrapFileKey :: "'r arkive \<Rightarrow> bytes \<Rightarrow> bytes \<Rightarrow> bytes \<Rightarrow> ('r, bytes) act" where
  "rust_unwrapFileKey ak encrypted masterKey aad =
     takeBytesResult ak ''arkive_unwrap_file_key''
       (ak_unwrap_file_key ak (bytesPtr encrypted) (bytesPtr masterKey) (bytesPtr aad))"

definition rust_encryptChunk :: "'r arkive \<Rightarrow> bytes \<Rightarrow> bytes \<Rightarrow> bytes \<Rightarrow> ('r, bytes) act" where
  "rust_encryptChunk ak key aad input =
     takeBytesResult ak ''arkive_encrypt_chunk''
       (ak_encrypt_chunk ak (bytesPtr key) (bytesPtr aad) (bytesPtr input))"

definition rust_decryptChunk :: "'r arkive \<Rightarrow> bytes \<Rightarrow> bytes \<Rightarrow> bytes \<Rightarrow> ('r, bytes) act" where
  "rust_decryptChunk ak key aad input =
     takeBytesResult ak ''arkive_decrypt_chunk''
       (ak_decrypt_chunk ak (bytesPtr key) (bytesPtr aad) (bytesPtr input))"

definition rust_generateRecoveryKey :: "'r arkive \<Rightarrow> ('r, bytes) act" where
  "rust_generateRecoveryKey ak =
     takeBytesResult ak ''arkive_generate_recovery_key''
       (ak_generate_recovery_key ak)"

definition rust_formatRecoveryKey :: "'r arkive \<Rightarrow> bytes \<Rightarrow> ('r, string) act" where
  "rust_formatRecoveryKey ak recoveryKey =
     takeStringResult ak ''arkive_format_recovery_key''
       (ak_format_recovery_key ak (bytesPtr recoveryKey))"

definition rust_parseRecoveryKey :: "'r arkive \<Rightarrow> string \<Rightarrow> ('r, bytes) act" where
  "rust_parseRecoveryKey ak recoveryKey =
     takeBytesResult ak ''arkive_parse_recovery_key''
       (ak_parse_recovery_key ak (stringPtr recoveryKey))"

definition rust_wrapMasterKeyForRecovery :: "'r arkive \<Rightarrow> bytes \<Rightarrow> bytes \<Rightarrow> ('r, bytes) act" where
  "rust_wrapMasterKeyForRecovery ak masterKey recoveryKey =
     takeBytesResult ak ''arkive_wrap_master_key_for_recovery''
       (ak_wrap_master_key_for_recovery ak (bytesPtr masterKey) (bytesPtr recoveryKey))"

definition rust_recoverMasterKey :: "'r arkive \<Rightarrow> bytes \<Rightarrow> bytes \<Rightarrow> ('r, bytes) act" where
  "rust_recoverMasterKey ak encrypted recoveryKey =
     takeBytesResult ak ''arkive_recover_master_key''
       (ak_recover_master_key ak (bytesPtr encrypted) (bytesPtr recoveryKey))"

definition rust_wrapMasterKeyWithRecoveryKey :: "'r arkive \<Rightarrow> bytes \<Rightarrow> bytes \<Rightarrow> string \<Rightarrow> ('r, bytes) act" where
  "rust_wrapMasterKeyWithRecoveryKey ak masterKey recoveryKey userId =
     takeBytesResult ak ''arkive_wrap_master_key_with_recovery_key''
       (ak_wrap_master_key_with_recovery_key ak (bytesPtr masterKey) (bytesPtr recoveryKey) (stringPtr userId))"

definition rust_unwrapMasterKeyWithRecoveryKey :: "'r arkive \<Rightarrow> bytes \<Rightarrow> bytes \<Rightarrow> string \<Rightarrow> ('r, bytes) act" where
  "rust_unwrapMasterKeyWithRecoveryKey ak encrypted recoveryKey userId =
     takeBytesResult ak ''arkive_unwrap_master_key_with_recovery_key''
       (ak_unwrap_master_key_with_recovery_key ak (bytesPtr encrypted) (bytesPtr recoveryKey) (stringPtr userId))"

definition rust_wrapMasterKeyWithPassword :: "'r arkive \<Rightarrow> bytes \<Rightarrow> string \<Rightarrow> bytes \<Rightarrow> string \<Rightarrow> ('r, bytes) act" where
  "rust_wrapMasterKeyWithPassword ak masterKey password salt userId =
     takeBytesResult ak ''arkive_wrap_master_key_with_password''
       (ak_wrap_master_key_with_password ak (bytesPtr masterKey) (stringPtr password) (bytesPtr salt) (stringPtr userId))"

text \<open>The vector is overwritten in its place.\<close>

definition rust_zeroize :: "'r arkive \<Rightarrow> bytes \<Rightarrow> ('r, bytes) act" where
  "rust_zeroize ak bytes r =
     (case ak_zeroize ak (bytesPtr bytes) r of ((ok, bytes'), r') \<Rightarrow>
        (bindR (checkBoolResult ''arkive_zeroize'' ok) (\<lambda>_. Inr bytes'), r'))"

section \<open>Hashers\<close>

text \<open>
  Objects of the classes \<open>Blake3Hasher\<close> and \<open>Sha256Hasher\<close>, which differ in the functions they call:
  where there is an object, its handle, which is null when the object was moved from.
\<close>

record 'r hashing =
  ha_rust :: 'r
  ha_objects :: "nat \<rightharpoonup> nat option"

type_synonym ('r, 'a) hasher_act = "('r hashing, 'a) act"

definition handleOf :: "nat \<Rightarrow> 'r hashing \<Rightarrow> nat option" where
  "handleOf x s = (case ha_objects s x of None \<Rightarrow> None | Some h \<Rightarrow> h)"

definition newHasher :: "'r hasher_ffi \<Rightarrow> nat \<Rightarrow> ('r, unit) hasher_act" where
  "newHasher hf x s =
     (case hf_new hf (ha_rust s) of
        (None, r) \<Rightarrow> (Inl (Runtime_error (hf_prefix hf @ ''_new failed'')), s\<lparr>ha_rust := r\<rparr>)
      | (Some h, r) \<Rightarrow> (Inr (), s\<lparr>ha_rust := r, ha_objects := (ha_objects s)(x \<mapsto> Some h)\<rparr>))"

definition freeHandle :: "'r hasher_ffi \<Rightarrow> nat \<Rightarrow> 'r hashing \<Rightarrow> 'r hashing" where
  "freeHandle hf x s = (case handleOf x s of None \<Rightarrow> s | Some h \<Rightarrow> s\<lparr>ha_rust := hf_free hf h (ha_rust s)\<rparr>)"

definition destroyHasher :: "'r hasher_ffi \<Rightarrow> nat \<Rightarrow> 'r hashing \<Rightarrow> 'r hashing" where
  "destroyHasher hf x s = (freeHandle hf x s)\<lparr>ha_objects := (ha_objects s)(x := None)\<rparr>"

text \<open>\<open>std::exchange(other.handle_, nullptr)\<close>.\<close>

definition takeHandle :: "nat \<Rightarrow> nat \<Rightarrow> 'r hashing \<Rightarrow> 'r hashing" where
  "takeHandle x other s = s\<lparr>ha_objects := (ha_objects s)(other \<mapsto> None, x \<mapsto> handleOf other s)\<rparr>"

definition moveHasher :: "nat \<Rightarrow> nat \<Rightarrow> 'r hashing \<Rightarrow> 'r hashing" where
  "moveHasher x other s = takeHandle x other s"

definition assignHasher :: "'r hasher_ffi \<Rightarrow> nat \<Rightarrow> nat \<Rightarrow> 'r hashing \<Rightarrow> 'r hashing" where
  "assignHasher hf x other s = (if x = other then s else takeHandle x other (freeHandle hf x s))"

definition updateHasher :: "'r hasher_ffi \<Rightarrow> nat \<Rightarrow> bytes \<Rightarrow> ('r, unit) hasher_act" where
  "updateHasher hf x data s =
     (case hf_update hf (handleOf x s) (bytesPtr data) (ha_rust s) of
        (ok, r) \<Rightarrow> (checkBoolResult (hf_prefix hf @ ''_update'') ok, s\<lparr>ha_rust := r\<rparr>))"

definition onRust :: "('r, 'a) act \<Rightarrow> ('r, 'a) hasher_act" where
  "onRust m s = (case m (ha_rust s) of (x, r) \<Rightarrow> (x, s\<lparr>ha_rust := r\<rparr>))"

definition digest :: "'r arkive \<Rightarrow> 'r hasher_ffi \<Rightarrow> nat \<Rightarrow> ('r, bytes) hasher_act" where
  "digest ak hf x s = onRust (takeBytesResult ak (hf_prefix hf @ ''_digest'') (hf_digest hf (handleOf x s))) s"

definition digestHex :: "'r arkive \<Rightarrow> 'r hasher_ffi \<Rightarrow> nat \<Rightarrow> ('r, string) hasher_act" where
  "digestHex ak hf x s = onRust (takeStringResult ak (hf_prefix hf @ ''_digest_hex'') (hf_digest_hex hf (handleOf x s))) s"

definition finalizeHasher :: "'r arkive \<Rightarrow> 'r hasher_ffi \<Rightarrow> nat \<Rightarrow> ('r, bytes) hasher_act" where
  "finalizeHasher ak hf x s = onRust (takeBytesResult ak (hf_prefix hf @ ''_finalize'') (hf_finalize hf (handleOf x s))) s"

definition finalizeHex :: "'r arkive \<Rightarrow> 'r hasher_ffi \<Rightarrow> nat \<Rightarrow> ('r, string) hasher_act" where
  "finalizeHex ak hf x s = onRust (takeStringResult ak (hf_prefix hf @ ''_finalize_hex'') (hf_finalize_hex hf (handleOf x s))) s"

text \<open>The two classes, made by \<open>createBlake3Hasher\<close> and \<open>createSha256Hasher\<close>.\<close>

definition createBlake3Hasher :: "'r arkive \<Rightarrow> nat \<Rightarrow> ('r, unit) hasher_act" where
  "createBlake3Hasher ak = newHasher (ak_blake3 ak)"

definition createSha256Hasher :: "'r arkive \<Rightarrow> nat \<Rightarrow> ('r, unit) hasher_act" where
  "createSha256Hasher ak = newHasher (ak_sha256 ak)"

section \<open>Each handle has one owner\<close>

text \<open>
  What a program may do with hashers: C++ lets it use an object between its construction and its
  destruction.
\<close>

inductive hasher_step :: "'r arkive \<Rightarrow> 'r hasher_ffi \<Rightarrow> 'r hashing \<Rightarrow> 'r hashing \<Rightarrow> bool" for ak hf where
  constructed: "ha_objects s x = None \<Longrightarrow> hasher_step ak hf s (snd (newHasher hf x s))"
| destroyed: "ha_objects s x \<noteq> None \<Longrightarrow> hasher_step ak hf s (destroyHasher hf x s)"
| moved: "ha_objects s x = None \<Longrightarrow> ha_objects s y \<noteq> None \<Longrightarrow> hasher_step ak hf s (moveHasher x y s)"
| assigned: "ha_objects s x \<noteq> None \<Longrightarrow> ha_objects s y \<noteq> None \<Longrightarrow> hasher_step ak hf s (assignHasher hf x y s)"
| updated: "ha_objects s x \<noteq> None \<Longrightarrow> hasher_step ak hf s (snd (updateHasher hf x data s))"
| digested: "ha_objects s x \<noteq> None \<Longrightarrow> hasher_step ak hf s (snd (digest ak hf x s))"
| digested_hex: "ha_objects s x \<noteq> None \<Longrightarrow> hasher_step ak hf s (snd (digestHex ak hf x s))"
| finalized: "ha_objects s x \<noteq> None \<Longrightarrow> hasher_step ak hf s (snd (finalizeHasher ak hf x s))"
| finalized_hex: "ha_objects s x \<noteq> None \<Longrightarrow> hasher_step ak hf s (snd (finalizeHex ak hf x s))"

text \<open>
  What the library does with its own table of hashers. Nothing is said of handles that are not in
  the table: using or freeing one is undefined.
\<close>

definition usable :: "('r \<Rightarrow> nat set) \<Rightarrow> nat option \<Rightarrow> 'r \<Rightarrow> bool" where
  "usable hashers h r \<longleftrightarrow> (case h of None \<Rightarrow> True | Some x \<Rightarrow> x \<in> hashers r)"

definition table_laws :: "'r arkive \<Rightarrow> 'r hasher_ffi \<Rightarrow> ('r \<Rightarrow> nat set) \<Rightarrow> bool" where
  "table_laws ak hf hashers \<longleftrightarrow>
     (\<forall>r. case hf_new hf r of (None, r') \<Rightarrow> hashers r' = hashers r
        | (Some h, r') \<Rightarrow> h \<notin> hashers r \<and> hashers r' = insert h (hashers r)) \<and>
     (\<forall>h r. h \<in> hashers r \<longrightarrow> hashers (hf_free hf h r) = hashers r - {h}) \<and>
     (\<forall>h data r. usable hashers h r \<longrightarrow> hashers (snd (hf_update hf h data r)) = hashers r) \<and>
     (\<forall>h r. usable hashers h r \<longrightarrow> hashers (snd (hf_digest hf h r)) = hashers r \<and> hashers (snd (hf_digest_hex hf h r)) = hashers r \<and>
        hashers (snd (hf_finalize hf h r)) = hashers r \<and> hashers (snd (hf_finalize_hex hf h r)) = hashers r) \<and>
     (\<forall>b r. hashers (ak_free_buffer ak b r) = hashers r)"

definition owned :: "('r \<Rightarrow> nat set) \<Rightarrow> 'r hashing \<Rightarrow> bool" where
  "owned hashers s \<longleftrightarrow>
     (\<forall>h. h \<in> hashers (ha_rust s) \<longleftrightarrow> (\<exists>x. ha_objects s x = Some (Some h))) \<and>
     (\<forall>x y h. ha_objects s x = Some (Some h) \<longrightarrow> ha_objects s y = Some (Some h) \<longrightarrow> x = y)"

lemma owned_usable: "owned hashers s \<Longrightarrow> usable hashers (handleOf x s) (ha_rust s)"
  by (auto simp: owned_def usable_def handleOf_def split: option.splits)

lemma owned_rust:
  "owned hashers s \<Longrightarrow> hashers r = hashers (ha_rust s) \<Longrightarrow> owned hashers (s\<lparr>ha_rust := r\<rparr>)"
  by (simp add: owned_def)

lemma takeBytes_table:
  "table_laws ak hf hashers \<Longrightarrow> hashers (snd (call r)) = hashers r \<Longrightarrow> hashers (snd (takeBytesResult ak fnName call r)) = hashers r"
  by (auto simp: takeBytesResult_def table_laws_def split: prod.split)

lemma takeString_table:
  assumes "table_laws ak hf hashers" and "hashers (snd (call r)) = hashers r"
  shows "hashers (snd (takeStringResult ak fnName call r)) = hashers r"
  using takeBytes_table [where call = call and fnName = fnName, OF assms]
  by (cases "takeBytesResult ak fnName call r") (simp add: takeStringResult_def bindE_def returnE_def split: sum.split)

lemma onRust_owned:
  assumes "owned hashers s" and "hashers (snd (m (ha_rust s))) = hashers (ha_rust s)"
  shows "owned hashers (snd (onRust m s))"
  using owned_rust [OF assms] by (simp add: onRust_def split_beta)

lemma update_owned:
  assumes "table_laws ak hf hashers" and "owned hashers s"
  shows "owned hashers (snd (updateHasher hf x data s))"
proof -
  have "hashers (snd (hf_update hf (handleOf x s) (bytesPtr data) (ha_rust s))) = hashers (ha_rust s)"
    using assms(1) owned_usable [OF assms(2)] by (simp add: table_laws_def)
  from owned_rust [OF assms(2) this] show ?thesis by (simp add: updateHasher_def split_beta)
qed

lemma table_new:
  assumes "table_laws ak hf hashers" and "hf_new hf r = (n, r')"
  shows "case n of None \<Rightarrow> hashers r' = hashers r | Some h \<Rightarrow> h \<notin> hashers r \<and> hashers r' = insert h (hashers r)"
proof -
  have "case hf_new hf r of (None, r') \<Rightarrow> hashers r' = hashers r
      | (Some h, r') \<Rightarrow> h \<notin> hashers r \<and> hashers r' = insert h (hashers r)"
    by (rule assms(1) [unfolded table_laws_def, THEN conjunct1, THEN spec])
  then show ?thesis by (cases n) (simp_all add: assms(2))
qed

lemma new_owned:
  assumes laws: "table_laws ak hf hashers" and own: "owned hashers s" and x: "ha_objects s x = None"
  shows "owned hashers (snd (newHasher hf x s))"
proof (cases "hf_new hf (ha_rust s)")
  case (Pair n r)
  show ?thesis
  proof (cases n)
    case None
    then have "hashers r = hashers (ha_rust s)" using table_new [OF laws Pair] by simp
    then show ?thesis using owned_rust [OF own] Pair None by (simp add: newHasher_def)
  next
    case (Some h)
    then have h: "h \<notin> hashers (ha_rust s)" and r: "hashers r = insert h (hashers (ha_rust s))"
      using table_new [OF laws Pair] by simp_all
    have free: "ha_objects s y \<noteq> Some (Some h)" for y using own h by (auto simp: owned_def)
    have eq: "snd (newHasher hf x s) = s\<lparr>ha_rust := r, ha_objects := (ha_objects s)(x \<mapsto> Some h)\<rparr>"
      using Pair Some by (simp add: newHasher_def)
    show ?thesis
      unfolding owned_def eq
    proof (intro conjI allI impI)
      fix g
      have "g \<in> hashers (ha_rust s) \<longleftrightarrow> (\<exists>y. ha_objects s y = Some (Some g))" using own by (simp add: owned_def)
      moreover have "y \<noteq> x" if "ha_objects s y = Some (Some g)" for y using that x by auto
      ultimately show "g \<in> hashers (ha_rust (s\<lparr>ha_rust := r, ha_objects := (ha_objects s)(x \<mapsto> Some h)\<rparr>)) \<longleftrightarrow>
          (\<exists>y. ha_objects (s\<lparr>ha_rust := r, ha_objects := (ha_objects s)(x \<mapsto> Some h)\<rparr>) y = Some (Some g))"
        using r by auto
    next
      fix y z g
      assume "ha_objects (s\<lparr>ha_rust := r, ha_objects := (ha_objects s)(x \<mapsto> Some h)\<rparr>) y = Some (Some g)"
        "ha_objects (s\<lparr>ha_rust := r, ha_objects := (ha_objects s)(x \<mapsto> Some h)\<rparr>) z = Some (Some g)"
      then show "y = z" using free own unfolding owned_def by (cases "y = x"; cases "z = x") auto
    qed
  qed
qed

text \<open>Giving up the handle of \<open>x\<close>, whose object does not hold it any more.\<close>

lemma freed_owned:
  assumes "table_laws ak hf hashers" and "owned hashers s" and "handleOf x s = Some h"
  shows "hashers (ha_rust (freeHandle hf x s)) = hashers (ha_rust s) - {h}"
  using assms owned_usable [OF assms(2), of x] by (simp add: freeHandle_def table_laws_def usable_def)

lemma freed_objects [simp]: "ha_objects (freeHandle hf x s) = ha_objects s"
  by (simp add: freeHandle_def split: option.split)

lemma handleOf_iff: "handleOf x s = Some h \<longleftrightarrow> ha_objects s x = Some (Some h)"
  by (auto simp: handleOf_def split: option.splits)

lemma hashers_after_free:
  assumes "table_laws ak hf hashers" and "owned hashers s"
  shows "h \<in> hashers (ha_rust (freeHandle hf x s)) \<longleftrightarrow> (\<exists>y. y \<noteq> x \<and> ha_objects s y = Some (Some h))"
proof (cases "handleOf x s")
  case None
  then have "ha_objects s x \<noteq> Some (Some h)" by (auto simp: handleOf_def)
  then show ?thesis using assms(2) None by (auto simp: freeHandle_def owned_def)
next
  case (Some g)
  then have x: "ha_objects s x = Some (Some g)" by (simp add: handleOf_iff)
  have "hashers (ha_rust (freeHandle hf x s)) = hashers (ha_rust s) - {g}" by (rule freed_owned [OF assms Some])
  then show ?thesis using x assms(2) unfolding owned_def by (metis Diff_iff insert_iff option.inject empty_iff)
qed

lemma destroy_owned:
  assumes "table_laws ak hf hashers" and "owned hashers s"
  shows "owned hashers (destroyHasher hf x s)"
  unfolding owned_def
proof (intro conjI allI impI)
  fix h
  show "h \<in> hashers (ha_rust (destroyHasher hf x s)) \<longleftrightarrow> (\<exists>y. ha_objects (destroyHasher hf x s) y = Some (Some h))"
    using hashers_after_free [OF assms, of h x] by (auto simp: destroyHasher_def)
next
  fix y z h
  assume "ha_objects (destroyHasher hf x s) y = Some (Some h)" "ha_objects (destroyHasher hf x s) z = Some (Some h)"
  then show "y = z" using assms(2) by (auto simp: destroyHasher_def owned_def split: if_splits)
qed

lemma takeHandle_objects:
  assumes "x \<noteq> y"
  shows "ha_objects (takeHandle x y s) z = Some (Some h) \<longleftrightarrow>
    (z = x \<and> ha_objects s y = Some (Some h)) \<or> (z \<noteq> x \<and> z \<noteq> y \<and> ha_objects s z = Some (Some h))"
  using assms by (auto simp: takeHandle_def handleOf_iff)

lemma takeHandle_owned:
  assumes "x \<noteq> y" and live: "\<And>h. h \<in> hashers (ha_rust s) \<longleftrightarrow> (\<exists>z. z \<noteq> x \<and> ha_objects s z = Some (Some h))"
    and one: "\<And>z z' h. ha_objects s z = Some (Some h) \<Longrightarrow> ha_objects s z' = Some (Some h) \<Longrightarrow> z = z'"
  shows "owned hashers (takeHandle x y s)"
  unfolding owned_def takeHandle_objects [OF assms(1)]
proof (intro conjI allI impI iffI)
  fix h
  have rust: "ha_rust (takeHandle x y s) = ha_rust s" by (simp add: takeHandle_def)
  show "\<exists>z. (z = x \<and> ha_objects s y = Some (Some h)) \<or> (z \<noteq> x \<and> z \<noteq> y \<and> ha_objects s z = Some (Some h))"
    if h: "h \<in> hashers (ha_rust (takeHandle x y s))"
  proof -
    obtain z where "z \<noteq> x" "ha_objects s z = Some (Some h)" using h live rust by auto
    then show ?thesis by (cases "z = y") auto
  qed
  show "h \<in> hashers (ha_rust (takeHandle x y s))"
    if "\<exists>z. (z = x \<and> ha_objects s y = Some (Some h)) \<or> (z \<noteq> x \<and> z \<noteq> y \<and> ha_objects s z = Some (Some h))"
    using that assms(1) unfolding rust live by auto
next
  fix u v h
  assume "(u = x \<and> ha_objects s y = Some (Some h)) \<or> (u \<noteq> x \<and> u \<noteq> y \<and> ha_objects s u = Some (Some h))"
    "(v = x \<and> ha_objects s y = Some (Some h)) \<or> (v \<noteq> x \<and> v \<noteq> y \<and> ha_objects s v = Some (Some h))"
  then show "u = v" using one by blast
qed

lemma move_owned:
  assumes own: "owned hashers s" and x: "ha_objects s x = None" and "ha_objects s y \<noteq> None"
  shows "owned hashers (moveHasher x y s)"
  unfolding moveHasher_def
proof (rule takeHandle_owned)
  show "x \<noteq> y" using assms by auto
  show "h \<in> hashers (ha_rust s) \<longleftrightarrow> (\<exists>z. z \<noteq> x \<and> ha_objects s z = Some (Some h))" for h
    using own x unfolding owned_def by (metis option.distinct(1))
  show "z = z'" if "ha_objects s z = Some (Some h)" "ha_objects s z' = Some (Some h)" for z z' h
    using own that unfolding owned_def by blast
qed

lemma assign_owned:
  assumes "table_laws ak hf hashers" and "owned hashers s"
  shows "owned hashers (assignHasher hf x y s)"
proof (cases "x = y")
  case False
  have "owned hashers (takeHandle x y (freeHandle hf x s))"
  proof (rule takeHandle_owned [OF False])
    show "h \<in> hashers (ha_rust (freeHandle hf x s)) \<longleftrightarrow> (\<exists>z. z \<noteq> x \<and> ha_objects (freeHandle hf x s) z = Some (Some h))" for h
      using hashers_after_free [OF assms] by simp
    show "z = z'" if "ha_objects (freeHandle hf x s) z = Some (Some h)" "ha_objects (freeHandle hf x s) z' = Some (Some h)" for z z' h
      using assms(2) that unfolding owned_def freed_objects by blast
  qed
  then show ?thesis using False by (simp add: assignHasher_def)
qed (simp add: assignHasher_def assms)

lemma hasher_step_owned:
  assumes "hasher_step ak hf s s'" and "table_laws ak hf hashers" and "owned hashers s"
  shows "owned hashers s'"
  using assms(1)
proof cases
  case (constructed x)
  then show ?thesis using new_owned [OF assms(2,3)] by simp
next
  case (destroyed x)
  then show ?thesis using destroy_owned [OF assms(2,3)] by simp
next
  case (moved x y)
  then show ?thesis using move_owned [OF assms(3)] by simp
next
  case (assigned x y)
  then show ?thesis using assign_owned [OF assms(2,3)] by simp
next
  case (updated x data)
  then show ?thesis using update_owned [OF assms(2,3)] by simp
next
  case (digested x)
  have "owned hashers (snd (digest ak hf x s))"
    unfolding digest_def using owned_usable [OF assms(3), of x] assms(2)
    by (intro onRust_owned [OF assms(3)] takeBytes_table [OF assms(2)]) (simp add: table_laws_def)
  then show ?thesis using digested by simp
next
  case (digested_hex x)
  have "owned hashers (snd (digestHex ak hf x s))"
    unfolding digestHex_def using owned_usable [OF assms(3), of x] assms(2)
    by (intro onRust_owned [OF assms(3)] takeString_table [OF assms(2)]) (simp add: table_laws_def)
  then show ?thesis using digested_hex by simp
next
  case (finalized x)
  have "owned hashers (snd (finalizeHasher ak hf x s))"
    unfolding finalizeHasher_def using owned_usable [OF assms(3), of x] assms(2)
    by (intro onRust_owned [OF assms(3)] takeBytes_table [OF assms(2)]) (simp add: table_laws_def)
  then show ?thesis using finalized by simp
next
  case (finalized_hex x)
  have "owned hashers (snd (finalizeHex ak hf x s))"
    unfolding finalizeHex_def using owned_usable [OF assms(3), of x] assms(2)
    by (intro onRust_owned [OF assms(3)] takeString_table [OF assms(2)]) (simp add: table_laws_def)
  then show ?thesis using finalized_hex by simp
qed

interpretation hasher_objects: transition_system
  "\<lambda>s. table_laws ak hf hashers \<and> ha_objects s = Map.empty \<and> hashers (ha_rust s) = {}" "hasher_step ak hf"
  "\<lambda>s. table_laws ak hf hashers \<longrightarrow> owned hashers s" for ak hf hashers
  by unfold_locales (simp add: owned_def, use hasher_step_owned in blast)

text \<open>
  C24. Hashers are freed exactly once: whatever a program does with objects of the class, in any order,
  constructing, moving, assigning to themselves or to each other, using and destroying them, each hasher
  of the library belongs to exactly one object, and each handle an object holds is one of the library's;
  so none is used or freed after it was freed, and when the last object is gone so is the last hasher.
\<close>

theorem hashers_have_one_owner:
  assumes "table_laws ak hf hashers" and "ha_objects s0 = Map.empty" and "hashers (ha_rust s0) = {}"
    and "(hasher_step ak hf)\<^sup>*\<^sup>* s0 s"
  shows "(\<forall>h\<in>hashers (ha_rust s). \<exists>!x. ha_objects s x = Some (Some h)) \<and>
    (\<forall>x h. ha_objects s x = Some (Some h) \<longrightarrow> h \<in> hashers (ha_rust s)) \<and>
    (ha_objects s = Map.empty \<longrightarrow> hashers (ha_rust s) = {})"
proof -
  have own: "owned hashers s"
    using hasher_objects.invar_reachable [of ak hf hashers s0 s] assms by blast
  then show ?thesis unfolding owned_def by (intro conjI ballI allI impI; force)
qed

section \<open>What the library promises of encryption reaches the program\<close>

definition spanBytes :: "span \<Rightarrow> bytes" where
  "spanBytes p = (case p of None \<Rightarrow> [] | Some bs \<Rightarrow> bs)"

lemma spanBytes_bytesPtr [simp]: "spanBytes (bytesPtr bs) = bs"
  by (simp add: spanBytes_def bytesPtr_def)

definition undoes :: "('r ffi) \<Rightarrow> (span \<Rightarrow> 'r ffi) \<Rightarrow> span \<Rightarrow> bool" where
  "undoes there back p \<longleftrightarrow>
     (\<forall>r r'. ar_ok (fst (there r)) \<longrightarrow>
        ar_ok (fst (back (bytesPtr (ar_data (fst (there r)))) r')) \<and>
        ar_data (fst (back (bytesPtr (ar_data (fst (there r)))) r')) = spanBytes p)"

text \<open>The documented laws, in the library's own order of arguments.\<close>

definition rust_laws :: "'r arkive \<Rightarrow> bool" where
  "rust_laws ak \<longleftrightarrow>
     (\<forall>key aad p. undoes (ak_encrypt_chunk ak key aad p) (ak_decrypt_chunk ak key aad) p) \<and>
     (\<forall>fk mk aad. undoes (ak_wrap_file_key ak fk mk aad) (\<lambda>c. ak_unwrap_file_key ak c mk aad) fk) \<and>
     (\<forall>mk kek aad. undoes (ak_wrap_master_key ak mk kek aad) (\<lambda>c. ak_unwrap_master_key ak c kek aad) mk) \<and>
     (\<forall>m mk aad. undoes (ak_encrypt_file_metadata ak m mk aad) (\<lambda>c. ak_decrypt_file_metadata ak c mk aad) m) \<and>
     (\<forall>mk rk. undoes (ak_wrap_master_key_for_recovery ak mk rk) (\<lambda>c. ak_recover_master_key ak c rk) mk) \<and>
     (\<forall>mk rk u. undoes (ak_wrap_master_key_with_recovery_key ak mk rk u)
        (\<lambda>c. ak_unwrap_master_key_with_recovery_key ak c rk u) mk)"

lemma takeBytes_undone:
  assumes "undoes there back (bytesPtr x)" and "fst (takeBytesResult ak f there r) = Inr c"
  shows "fst (takeBytesResult ak g (back (bytesPtr c)) r') = Inr x"
proof -
  have "ar_ok (fst (there r))" "ar_data (fst (there r)) = c"
    using assms(2) by (auto simp: takeBytesResult_def split: prod.splits if_splits)
  then have "ar_ok (fst (back (bytesPtr c) r'))" "ar_data (fst (back (bytesPtr c) r')) = x"
    using assms(1) by (auto simp: undoes_def)
  then show ?thesis by (simp add: takeBytesResult_def split: prod.split) auto
qed

text \<open>The library as the other components have it: \<open>r\<close> is the state in which a call is made.\<close>

definition cryptoOf :: "'r arkive \<Rightarrow> 'r \<Rightarrow> crypto_lib" where
  "cryptoOf ak r =
     \<lparr>lib_encryptChunk = \<lambda>key aad input. fst (rust_encryptChunk ak key aad input r),
      lib_decryptChunk = \<lambda>key aad input. fst (rust_decryptChunk ak key aad input r),
      lib_blake3Hash = \<lambda>input. fst (rust_blake3Hash ak input r),
      lib_wrapFileKey = \<lambda>fileKey mk aad. fst (rust_wrapFileKey ak fileKey mk aad r),
      lib_unwrapFileKey = \<lambda>encrypted mk aad. fst (rust_unwrapFileKey ak encrypted mk aad r),
      lib_deriveSearchKey = \<lambda>mk. fst (rust_deriveSearchKey ak mk r),
      lib_hmacSha256 = \<lambda>key data. fst (rust_hmacSha256 ak key data r)\<rparr>"

text \<open>
  C22. The binding hands every argument over in the place where the library expects it: what the
  library promises of encrypting and decrypting, wrapping and unwrapping, in its own terms of
  pointers and results, holds of the methods in terms of byte vectors, empty ones included. These are
  the laws that uploads, downloads and the vault rest on.
\<close>

theorem binding_keeps_crypto_laws:
  assumes "rust_laws ak"
  shows "crypto_laws (cryptoOf ak r) \<and>
    (fst (rust_wrapMasterKey ak key kek aad r) = Inr b \<longrightarrow> fst (rust_unwrapMasterKey ak b kek aad r') = Inr key) \<and>
    (fst (rust_encryptFileMetadata ak text key aad r) = Inr b \<longrightarrow> fst (rust_decryptFileMetadata ak b key aad r') = Inr text) \<and>
    (fst (rust_wrapMasterKeyForRecovery ak key rk r) = Inr b \<longrightarrow> fst (rust_recoverMasterKey ak b rk r') = Inr key) \<and>
    (fst (rust_wrapMasterKeyWithRecoveryKey ak key rk u r) = Inr b \<longrightarrow>
       fst (rust_unwrapMasterKeyWithRecoveryKey ak b rk u r') = Inr key)"
proof (intro conjI impI)
  note laws = assms [unfolded rust_laws_def]
  note step = takeBytes_undone [where ak = ak]
  have enc: "undoes (ak_encrypt_chunk ak k a p) (ak_decrypt_chunk ak k a) p" for k a p using laws by blast
  have wrap: "undoes (ak_wrap_file_key ak p k a) (\<lambda>c. ak_unwrap_file_key ak c k a) p" for k a p using laws by blast
  show "crypto_laws (cryptoOf ak r)"
    unfolding crypto_laws_def cryptoOf_def crypto_lib.simps rust_encryptChunk_def rust_decryptChunk_def rust_wrapFileKey_def
      rust_unwrapFileKey_def by (intro conjI allI impI) (erule step [OF enc], erule step [OF wrap])
  have master: "undoes (ak_wrap_master_key ak p k a) (\<lambda>c. ak_unwrap_master_key ak c k a) p" for k a p using laws by blast
  show "fst (rust_unwrapMasterKey ak b kek aad r') = Inr key" if "fst (rust_wrapMasterKey ak key kek aad r) = Inr b"
    using that unfolding rust_wrapMasterKey_def rust_unwrapMasterKey_def by (rule step [OF master])
  have meta: "undoes (ak_encrypt_file_metadata ak p k a) (\<lambda>c. ak_decrypt_file_metadata ak c k a) p" for k a p using laws by blast
  show "fst (rust_decryptFileMetadata ak b key aad r') = Inr text" if "fst (rust_encryptFileMetadata ak text key aad r) = Inr b"
    using that unfolding rust_encryptFileMetadata_def rust_decryptFileMetadata_def by (rule step [OF meta])
  have recover: "undoes (ak_wrap_master_key_for_recovery ak p k) (\<lambda>c. ak_recover_master_key ak c k) p" for k p using laws by blast
  show "fst (rust_recoverMasterKey ak b rk r') = Inr key" if "fst (rust_wrapMasterKeyForRecovery ak key rk r) = Inr b"
    using that unfolding rust_wrapMasterKeyForRecovery_def rust_recoverMasterKey_def by (rule step [OF recover])
  have user: "undoes (ak_wrap_master_key_with_recovery_key ak p k v) (\<lambda>c. ak_unwrap_master_key_with_recovery_key ak c k v) p" for k v p
    using laws by blast
  show "fst (rust_unwrapMasterKeyWithRecoveryKey ak b rk u r') = Inr key"
    if "fst (rust_wrapMasterKeyWithRecoveryKey ak key rk u r) = Inr b"
    using that unfolding rust_wrapMasterKeyWithRecoveryKey_def rust_unwrapMasterKeyWithRecoveryKey_def by (rule step [OF user])
qed

section \<open>A small library\<close>

text \<open>Its state is the list of the hashers in use; encryption appends a byte.\<close>

definition reply :: "bytes \<Rightarrow> nat list ffi" where
  "reply bs l = (\<lparr>ar_ok = True, ar_buffer = 0, ar_data = bs\<rparr>, l)"

definition demo_hasher :: "nat list hasher_ffi" where
  "demo_hasher = \<lparr>hf_prefix = ''arkive_blake3_hasher'', hf_new = \<lambda>l. (Some (Suc (sum_list l)), Suc (sum_list l) # l),
     hf_free = \<lambda>h l. filter (\<lambda>g. g \<noteq> h) l, hf_update = \<lambda>h _ l. (h \<noteq> None, l), hf_digest = \<lambda>_. reply [1],
     hf_digest_hex = \<lambda>_. reply [48], hf_finalize = \<lambda>_. reply [1], hf_finalize_hex = \<lambda>_. reply [48]\<rparr>"

definition demo_arkive :: "nat list arkive" where
  "demo_arkive = \<lparr>ak_free_buffer = \<lambda>_ l. l, ak_blake3 = demo_hasher, ak_sha256 = demo_hasher,
     ak_zeroize = \<lambda>p l. ((True, map (\<lambda>_. 0) (spanBytes p)), l),
     ak_generate_master_key = reply [7], ak_generate_file_key = reply [7],
     ak_generate_share_key = reply [7], ak_generate_salt = reply [7],
     ak_blake3_hash = \<lambda>p. reply (spanBytes p), ak_blake3_hash_hex = \<lambda>p. reply (spanBytes p),
     ak_sha256_hash = \<lambda>p. reply (spanBytes p), ak_sha256_hash_hex = \<lambda>p. reply (spanBytes p),
     ak_derive_password_kek = \<lambda>p _. reply (spanBytes p), ak_derive_search_key = \<lambda>p. reply (spanBytes p),
     ak_hmac_sha256 = \<lambda>p _. reply (spanBytes p), ak_encrypt_file_metadata = \<lambda>p _ _. reply (spanBytes p),
     ak_decrypt_file_metadata = \<lambda>p _ _. reply (spanBytes p), ak_wrap_master_key = \<lambda>p _ _. reply (spanBytes p),
     ak_unwrap_master_key = \<lambda>p _ _. reply (spanBytes p), ak_wrap_file_key = \<lambda>p _ _. reply (spanBytes p),
     ak_unwrap_file_key = \<lambda>p _ _. reply (spanBytes p), ak_encrypt_chunk = \<lambda>_ _ p. reply (spanBytes p @ [0]),
     ak_decrypt_chunk = \<lambda>_ _ c. reply (butlast (spanBytes c)), ak_generate_recovery_key = reply [7],
     ak_format_recovery_key = \<lambda>p. reply (spanBytes p), ak_parse_recovery_key = \<lambda>p. reply (spanBytes p),
     ak_wrap_master_key_for_recovery = \<lambda>p _. reply (spanBytes p), ak_recover_master_key = \<lambda>p _. reply (spanBytes p),
     ak_wrap_master_key_with_recovery_key = \<lambda>p _ _. reply (spanBytes p), ak_unwrap_master_key_with_recovery_key = \<lambda>p _ _. reply (spanBytes p),
     ak_wrap_master_key_with_password = \<lambda>p _ _ _. reply (spanBytes p)\<rparr>"

lemma demo_table: "table_laws demo_arkive demo_hasher set"
proof -
  have "h \<le> sum_list l" if "h \<in> set l" for h and l :: "nat list" using that by (simp add: member_le_sum_list)
  then have "Suc (sum_list l) \<notin> set l" for l :: "nat list" using not_less_eq_eq by blast
  then show ?thesis by (auto simp: table_laws_def demo_hasher_def demo_arkive_def reply_def)
qed

definition demo_hashing :: "nat list hashing" where
  "demo_hashing = \<lparr>ha_rust = [], ha_objects = Map.empty\<rparr>"

theorem hashers_have_one_owner_witness:
  "\<exists>s. (hasher_step demo_arkive demo_hasher)\<^sup>*\<^sup>* demo_hashing s \<and> ha_objects s 0 = Some None \<and>
     (\<exists>!x. ha_objects s x = Some (Some 1))"
proof -
  let ?s1 = "snd (newHasher demo_hasher 0 demo_hashing)"
  let ?s2 = "moveHasher 1 0 ?s1"
  have s1: "?s1 = \<lparr>ha_rust = [1], ha_objects = [0 \<mapsto> Some 1]\<rparr>"
    by (simp add: newHasher_def demo_hasher_def demo_hashing_def)
  have "hasher_step demo_arkive demo_hasher demo_hashing ?s1" by (rule constructed) (simp add: demo_hashing_def)
  moreover have "hasher_step demo_arkive demo_hasher ?s1 ?s2" by (rule moved) (simp_all add: s1)
  ultimately have run: "(hasher_step demo_arkive demo_hasher)\<^sup>*\<^sup>* demo_hashing ?s2" by simp
  have "\<forall>h\<in>set (ha_rust ?s2). \<exists>!x. ha_objects ?s2 x = Some (Some h)"
    using hashers_have_one_owner [OF demo_table _ _ run] by (simp add: demo_hashing_def)
  moreover have "1 \<in> set (ha_rust ?s2)" "ha_objects ?s2 0 = Some None" by (simp_all add: s1 moveHasher_def takeHandle_def)
  ultimately show ?thesis using run by blast
qed

theorem binding_keeps_crypto_laws_witness:
  "rust_laws demo_arkive \<and> lib_encryptChunk (cryptoOf demo_arkive []) [1] [] [2, 3] = Inr [2, 3, 0] \<and>
     lib_decryptChunk (cryptoOf demo_arkive []) [1] [] [2, 3, 0] = Inr [2, 3]"
proof -
  have laws: "rust_laws demo_arkive"
    by (simp add: rust_laws_def undoes_def demo_arkive_def reply_def)
  have "lib_encryptChunk (cryptoOf demo_arkive []) [1] [] [2, 3] = Inr [2, 3, 0]"
    by (simp add: cryptoOf_def rust_encryptChunk_def takeBytesResult_def demo_arkive_def reply_def bytesPtr_def spanBytes_def)
  moreover from this have "lib_decryptChunk (cryptoOf demo_arkive []) [1] [] [2, 3, 0] = Inr [2, 3]"
    using binding_keeps_crypto_laws [OF laws, of "[]"] by (simp add: crypto_laws_def)
  ultimately show ?thesis using laws by blast
qed

end
