(* ===== verification/Spec2Isabelle.thy ===== *)
theory Spec2Isabelle
  imports Process_Invariant Upload_Resumption Snapshot_Watcher Inotify_Watcher Cli Arkive_Api Storage_Put
    Thumbnail Process_Setup Secure_Storage File_Writers Rust_Binding
begin

text \<open>
  Verification of arkive-sync, the daemon that keeps local folders and an end-to-end encrypted
  server in step.

  \<^bold>\<open>The program.\<close> A sync root is a local folder bound to a folder of the server. A scanner
  records the local files in the table \<open>entries\<close> (sync/RootScanner.cpp), file events arrive through
  the table \<open>dirty_paths\<close> (repo/DirtyPathRepo.cpp), a remote scanner records what the server has
  (sync/RemoteScanner.cpp, service/RemoteSyncService.cpp). A policy decides per entry what to do
  (sync/SyncPolicy.cpp). Uploads and folder creations go through the persistent queue
  \<open>transfer_queue\<close> (repo/QueueRepo.cpp, service/QueueService.cpp, service/FolderCreateWorker.cpp,
  service/UploadJobRunner.cpp); an upload encrypts a file in chunks, sends it in parts by several
  threads and completes it with an encrypted manifest (upload/, fs/UploadFileChunkReader.cpp).
  Downloads, local deletions and conflicts are carried out by service/SyncReconciler.cpp with
  download/. The keys live in a vault (service/VaultService.cpp), the session with the server in
  service/AuthService.cpp. One process runs all of it: a loop that polls (platform/daemon/PollingDaemon.cpp)
  and carries out commands that arrive from the command line (app/App.cpp) over a socket
  (platform/linux/Ipc.cpp, ipc/). Watchers turn what the operating system reports of the disk into
  events (platform/linux/watcher, fs/FileSnapshot.cpp).

  \<^bold>\<open>How it is modelled.\<close> A table is the list of its rows in rowid order, a unique index a partial
  key, a statement a function that fails when a constraint is violated (Sqlite). A method is an
  action: it takes the state, returns a value or throws, and leaves a state (Prelude). The state
  the services share (App_State) has all tables, the local files, the server and a counter that
  stands for the readings of the clock and the drawn identifiers. C++ integers are words of their
  width where they can wrap, strings are lists of bytes. What is not in the repository is a
  parameter: the cryptographic library, JSON text, the transfers of libcurl, system calls, key
  rings, directory iterators, SQLite and the clock; what the code relies on of them is a named hypothesis.

  \<^bold>\<open>Theories.\<close>
  \<^item> Prelude: exceptions, actions and their combinators, predicates an action keeps, the
    interfaces \<open>transition_system\<close> and \<open>codec\<close>, lists and sorting.
  \<^item> Sqlite: tables, indexes, statements, transactions. Fs_Path: std::filesystem paths.
    Codecs: Base64, hexadecimal, decimal (helpers/). Aad: associated data (crypto/Aad.cpp).
  \<^item> Job_Queue, Paged_Source: the contracts of a queue with claims and of a table read page by
    page, as locales; interpreted by Queue_Repo, Dirty_Path_Repo and Entry_Repo.
  \<^item> Queue_Repo, Entry_Repo, Entry_Writes, Sync_Repo, Scan_Repo, User_Repo,
    Upload_Resume_Repo, Dirty_Path_Repo: the classes of repo/, one definition per method,
    with the invariant of the table and the step relation of its writers.
  \<^item> Sync_Policy: sync modes, the classifier and the decision tables of sync/.
  \<^item> Upload_Plan, Chunk_Reader, Multipart_Uploader, Manifest, Search_Tokens,
    Upload_Finalizer: upload/ and its helpers in fs/; the threads of \<open>uploadParts\<close> are an
    interleaving step relation. Download: download/.
  \<^item> Folder_Worker, Upload_Jobs, Queue_Service, Sync_Reconciler, Remote_Scanner, Root_Scanner,
    Vault_Service, Auth_Service: the services and scanners on the shared state.
  \<^item> Upload_Service: a batch of files, from looking for unfinished sessions to completing them.
    Upload_Resumption: batches in sequence, each stopped anywhere.
  \<^item> Polling_Daemon: the rounds of the main loop, the file hasher and SyncService.
    Ipc_Commands: the commands. Process_Invariant: both together, as the steps of the process.
  \<^item> File_Snapshot, Snapshot_Watcher: comparing two walks over a directory, and the watcher made of
    it (fs/FileSnapshot.cpp, platform/macos/watcher; the Windows one does the same). Inotify_Watcher:
    the watcher on Linux, with its tables of watches and of moves that wait for their second half.
  \<^item> Http_Client: requests over curl and what is made of their answers (networking/curl.cpp,
    api/ArkiveHttpClient.cpp). Arkive_Api: the requests of api/ArkiveApi.cpp on top of it.
    Storage_Put: the worker thread for uploads to the storage (networking/StoragePutTransport.cpp),
    as a step relation.
  \<^item> Ipc_Transport: messages over a socket and its set-up (platform/linux/Ipc.cpp, ipc/). Cli: the
    command line (app/App.cpp, main.cpp).
  \<^item> Thumbnail: MIME types and thumbnails (helpers/Mime.cpp, upload/ThumbnailGenerator.cpp).
    Process_Setup: paths of the data, migrations of the database, identifiers
    (platform/AppDataPaths.cpp, db/Sqlite.cpp, helpers/GenUUID.cpp). Secure_Storage: the key rings of
    Linux and macOS, which meet the contract that the vault relies on.
  \<^item> File_Writers: the atomic file writers of the three platforms over system calls that may fail or
    be the last one (platform/*/filewriter), and the download over them; the contract of the interface
    \<open>AtomicFileWriter\<close> is the locale \<open>atomic_writer\<close>. Rust_Binding: what is handed to the cryptographic
    library and who owns its hashers (crypto/RustCrypto.cpp).

  \<^bold>\<open>What is shown.\<close> Data safety: an upload in any schedule of its threads, downloaded again, gives
  back the file; parts tile the file without wrap-around; the policy and the reconciler never
  overwrite unsynced changes. Queues: at most one active job per entry and type, claims in order and
  exactly once, every tick ends and settles every queued job, recovery after a crash, no dirty path is left behind. Uploads: a session that was interrupted and
  taken up again, any number of times, ends in the same file; every file of a batch is answered
  once. Tables: every
  table can be read back in every state the process reaches, lookups find what was written, walking in pages equals one
  pass. Remote side: names survive encryption and decryption, scans end on acyclic folders. Keys
  and session: the vault survives a restart and nothing survives a logout; a login is all or
  nothing; the key rings keep the laws these theorems rest on. Edges: a changed path ends as the
  pending event that fits, no move gets lost, the tables of the inotify watcher stay inverse to each other;
  an answer over the socket is the one the daemon computes, however it is cut up; every upload to the
  storage is answered once in every interleaving; ranges, addresses and verdicts survive HTTP and JSON;
  a database is migrated completely or not at all; a download that fails or is cut off at any system call
  leaves the old content or the new one; each hasher of the library is freed once. Several theorems describe behaviour that is surely not intended (deletions that take
  unsynced files along, wildcards in paths, names that leave the root); the manifest lists them
  as findings.

  \<^bold>\<open>Bounds and fuel.\<close> Loops that may run forever take fuel and return \<open>None\<close> when it is used up:
  \<open>buildLoop\<close> needs one round per page, the remote scan as many levels as the folders are deep
  (no amount suffices for folders in a circle), a subtree scan one round per item and one more, which the model
  computes itself and shows to be enough. Commands are carried out between two rounds of the main
  loop and the files of a batch are sent one after the other; only the parts of a file are
  sent at the same time. The upload
  threads are shown to end by a measure on the step relation. All other loops are structural.

  \<^bold>\<open>Not modelled.\<close> Symbolic links and failing system calls in the local file system (apart from
  directory iterations and the atomic file writers), SQLite errors other than violated constraints, overwriting key buffers
  with zeros, logging. Left aside as glue or bindings: the binding to SQLite (db/SqliteHelpers.cpp), named
  pipes and DPAPI on Windows, the epoll loop around the polling daemon (platform/linux/daemon), the
  threads and handles that raise the flags of the snapshot watchers.
\<close>

end
